(* ===== verification/Prelude.thy ===== *)
theory Prelude
  imports Main "HOL-Library.Word" "HOL-Library.AList"
begin

text \<open>
  Shared vocabulary of the development: machine integers and byte strings, the
  three-way outcome of a Rust call (\<open>Ok\<close>, \<open>Err\<close> or a panic), big-endian
  coding of integers, and the contract of the hash maps the stages keep, stated as a
  locale and interpreted on association lists.

  The workspace profiles switch overflow checks off (\<^verbatim>\<open>overflow-checks = false\<close> for
  \<^verbatim>\<open>dev\<close>, the default for \<^verbatim>\<open>release\<close>), so \<open>+\<close> and \<open>-\<close> on \<open>u16\<close>, \<open>u32\<close>,
  \<open>u64\<close> and \<open>usize\<close> wrap; they are modelled by words, whose operations wrap too.
\<close>

unbundle bit_operations_syntax

section \<open>Machine integers and bytes\<close>

type_synonym u8 = "8 word"
type_synonym u16 = "16 word"
type_synonym u32 = "32 word"
type_synonym u64 = "64 word"
type_synonym usize = "64 word"
type_synonym bytes = "u8 list"
type_synonym b256 = "u8 list"
type_synonym address = "u8 list"

named_theorems res_simps \<open>inversion rules for outcomes threaded with a state\<close>
named_theorems stage_defs \<open>definitions of the pipeline's stage operations\<close>
named_theorems stage_origin \<open>pulling from a stage keeps the pipeline's origin\<close>

section \<open>Outcomes\<close>

text \<open>
  \<open>Result<T, E>\<close> with the panics of the source (\<open>expect\<close>, \<open>unimplemented!\<close>,
  an index out of range) as a third constructor.
\<close>

datatype ('a, 'e) res = Ok 'a | Err 'e | Panic

text \<open>
  The \<open>?\<close> operator in a method: \<open>s\<close> is the state of the receiver at the point of
  the operator, kept when the method returns early.
\<close>

definition rbind :: "('a, 'e) res \<Rightarrow> 's \<Rightarrow> ('a \<Rightarrow> ('b, 'e) res \<times> 's) \<Rightarrow> ('b, 'e) res \<times> 's" where
  "rbind r s k = (case r of Ok x \<Rightarrow> k x | Err e \<Rightarrow> (Err e, s) | Panic \<Rightarrow> (Panic, s))"

text \<open>The same operator in a function without receiver.\<close>

definition rthen :: "('a, 'e) res \<Rightarrow> ('a \<Rightarrow> ('b, 'e) res) \<Rightarrow> ('b, 'e) res" where
  "rthen r k = (case r of Ok x \<Rightarrow> k x | Err e \<Rightarrow> Err e | Panic \<Rightarrow> Panic)"

text \<open>\<open>ok_or\<close> and \<open>map_err\<close>.\<close>

definition ok_or :: "'a option \<Rightarrow> 'e \<Rightarrow> ('a, 'e) res" where
  "ok_or x e = (case x of None \<Rightarrow> Err e | Some y \<Rightarrow> Ok y)"

definition map_err :: "('e \<Rightarrow> 'f) \<Rightarrow> ('a, 'e) res \<Rightarrow> ('a, 'f) res" where
  "map_err f r = (case r of Ok x \<Rightarrow> Ok x | Err e \<Rightarrow> Err (f e) | Panic \<Rightarrow> Panic)"

lemma rbind_simps [simp]:
  "rbind (Ok x) s k = k x"
  "rbind (Err e) s k = (Err e, s)"
  "rbind Panic s k = (Panic, s)"
  by (simp_all add: rbind_def)

lemma rthen_simps [simp]:
  "rthen (Ok x) l = l x"
  "rthen (Err e) l = Err e"
  "rthen Panic l = Panic"
  by (simp_all add: rthen_def)

lemma rbind_Ok_iff [res_simps]:
  "rbind r s k = (Ok y, t) \<longleftrightarrow> (\<exists>x. r = Ok x \<and> k x = (Ok y, t))"
  by (cases r) auto

lemma rthen_Ok_iff [res_simps]:
  "rthen r k = Ok y \<longleftrightarrow> (\<exists>x. r = Ok x \<and> k x = Ok y)"
  by (cases r) auto

lemma rbind_split:
  "P (rbind r s k) \<longleftrightarrow>
     (\<forall>x. r = Ok x \<longrightarrow> P (k x)) \<and> (\<forall>e. r = Err e \<longrightarrow> P (Err e, s)) \<and> (r = Panic \<longrightarrow> P (Panic, s))"
  by (cases r) auto

lemma rbind_split_asm:
  "P (rbind r s k) \<longleftrightarrow>
     \<not> ((\<exists>x. r = Ok x \<and> \<not> P (k x)) \<or> (\<exists>e. r = Err e \<and> \<not> P (Err e, s)) \<or> (r = Panic \<and> \<not> P (Panic, s)))"
  by (cases r) auto

lemmas rbind_splits = rbind_split rbind_split_asm

lemma snd_rbind_inv:
  "\<lbrakk> I s; \<And>x. r = Ok x \<Longrightarrow> I (snd (k x)) \<rbrakk> \<Longrightarrow> I (snd (rbind r s k))"
  by (cases r) auto

lemma ok_or_simps [simp]:
  "ok_or None e = Err e"
  "ok_or (Some x) e = Ok x"
  by (simp_all add: ok_or_def)

lemma ok_or_Ok_iff [res_simps]: "ok_or x e = Ok y \<longleftrightarrow> x = Some y"
  by (cases x) auto

lemma ok_or_Err_iff [res_simps]: "ok_or x e = Err f \<longleftrightarrow> x = None \<and> f = e"
  by (cases x) auto

lemma ok_or_not_Panic [simp]: "ok_or x e \<noteq> Panic"
  by (cases x) auto

lemma map_err_simps [simp]:
  "map_err f (Ok x) = Ok x"
  "map_err f (Err e) = Err (f e)"
  "map_err f Panic = Panic"
  by (simp_all add: map_err_def)

lemma map_err_Ok_iff [res_simps]: "map_err f r = Ok y \<longleftrightarrow> r = Ok y"
  by (cases r) auto

text \<open>Where an error came from.\<close>

lemma rthen_Err_iff: "rthen r k = Err e \<longleftrightarrow> r = Err e \<or> (\<exists>x. r = Ok x \<and> k x = Err e)"
  by (cases r) auto

lemma map_err_Err_iff: "map_err f r = Err e \<longleftrightarrow> (\<exists>e'. r = Err e' \<and> e = f e')"
  by (cases r) auto

lemma rthen_Panic_iff: "rthen r k = Panic \<longleftrightarrow> r = Panic \<or> (\<exists>x. r = Ok x \<and> k x = Panic)"
  by (cases r) auto

lemma map_err_Panic_iff [simp]: "map_err f r = Panic \<longleftrightarrow> r = Panic"
  by (cases r) auto

lemmas res_err_simps = rthen_Err_iff map_err_Err_iff ok_or_Err_iff

section \<open>Big-endian integers\<close>

fun be_of_nat :: "nat \<Rightarrow> nat \<Rightarrow> bytes" where
  "be_of_nat 0 k = []"
| "be_of_nat (Suc n) k = be_of_nat n (k div 256) @ [of_nat k]"

definition nat_of_be :: "bytes \<Rightarrow> nat" where
  "nat_of_be bs = foldl (\<lambda>a b. a * 256 + unat b) 0 bs"

lemma length_be_of_nat [simp]: "length (be_of_nat n k) = n"
  by (induction n arbitrary: k) auto

lemma nat_of_be_snoc: "nat_of_be (bs @ [b]) = nat_of_be bs * 256 + unat b"
  by (simp add: nat_of_be_def)

lemma nat_of_be_Nil [simp]: "nat_of_be [] = 0"
  by (simp add: nat_of_be_def)

lemma nat_of_be_of_nat: "nat_of_be (be_of_nat n k) = k mod 256 ^ n"
proof (induction n arbitrary: k)
  case 0
  then show ?case by simp
next
  case (Suc n)
  have "nat_of_be (be_of_nat (Suc n) k) = (k div 256 mod 256 ^ n) * 256 + k mod 256"
    by (simp add: nat_of_be_snoc Suc.IH unat_of_nat)
  also have "\<dots> = k mod 256 ^ Suc n"
    using mod_mult2_eq [of k 256 "256 ^ n"] by (simp add: mult.commute)
  finally show ?case .
qed

lemma nat_of_be_bound: "nat_of_be bs < 256 ^ length bs"
proof (induction bs rule: rev_induct)
  case Nil
  then show ?case by simp
next
  case (snoc b bs)
  have "unat b < 256"
    using unsigned_less [of b, where ?'a = nat] by simp
  with snoc show ?case
    by (simp add: nat_of_be_snoc)
qed

lemma be_of_nat_of_be: "be_of_nat (length bs) (nat_of_be bs) = bs"
proof (induction bs rule: rev_induct)
  case Nil
  then show ?case by simp
next
  case (snoc b bs)
  have "unat b < 256"
    using unsigned_less [of b, where ?'a = nat] by simp
  moreover have "(of_nat (nat_of_be bs * 256 + unat b) :: u8) = b"
  proof -
    have "(256 :: u8) = 0" by simp
    then show ?thesis by (simp only: of_nat_add of_nat_mult of_nat_numeral) simp
  qed
  ultimately show ?case
    by (simp add: nat_of_be_snoc snoc.IH)
qed

lemma be_of_nat_0 [simp]: "be_of_nat n 0 = replicate n 0"
  by (induction n) (simp_all add: replicate_append_same)

lemma nat_of_be_zeros [simp]: "nat_of_be (replicate n 0) = 0"
  by (induction n) (simp_all add: nat_of_be_def)

section \<open>Hash maps\<close>

text \<open>
  What a client relies on of \<open>HashMap\<close>: look-up after \<open>insert\<close> and \<open>remove\<close>, and
  \<open>len\<close> as the number of keys. The iteration order is not part of the contract.
\<close>

locale hash_map =
  fixes get :: "'m \<Rightarrow> 'k \<Rightarrow> 'v option"
    and insert_op :: "'k \<Rightarrow> 'v \<Rightarrow> 'm \<Rightarrow> 'm"
    and remove :: "'k \<Rightarrow> 'm \<Rightarrow> 'm"
    and len :: "'m \<Rightarrow> nat"
    and invar :: "'m \<Rightarrow> bool"
  assumes get_insert: "invar m \<Longrightarrow> get (insert_op k v m) = (get m)(k \<mapsto> v)"
    and get_remove: "invar m \<Longrightarrow> get (remove k m) = (get m)(k := None)"
    and len_card: "invar m \<Longrightarrow> len m = card (dom (get m))"
    and finite_keys: "invar m \<Longrightarrow> finite (dom (get m))"
    and invar_insert: "invar m \<Longrightarrow> invar (insert_op k v m)"
    and invar_remove: "invar m \<Longrightarrow> invar (remove k m)"
begin

lemma len_insert_fresh: "\<lbrakk> invar m; get m k = None \<rbrakk> \<Longrightarrow> len (insert_op k v m) = Suc (len m)"
  by (simp add: len_card invar_insert get_insert finite_keys domIff)

lemma len_remove_present:
  assumes "invar m" and "get m k = Some v"
  shows "Suc (len (remove k m)) = len m"
proof -
  have "dom (get (remove k m)) = dom (get m) - {k}"
    using assms(1) by (auto simp: get_remove dom_def)
  moreover have "k \<in> dom (get m)"
    using assms(2) by auto
  ultimately show ?thesis
    using assms(1) by (simp only: len_card invar_remove card_Suc_Diff1 finite_keys)
qed

lemma get_after_remove_insert: "invar m \<Longrightarrow> get (remove k (insert_op k v m)) = (get m)(k := None)"
  by (simp add: get_remove invar_insert get_insert)

end

type_synonym ('k, 'v) hmap = "('k \<times> 'v) list"

definition hm_invar :: "('k, 'v) hmap \<Rightarrow> bool" where
  "hm_invar m \<longleftrightarrow> distinct (map fst m)"

lemma hm_invar_Nil [simp]: "hm_invar []"
  by (simp add: hm_invar_def)

lemma hm_len_card: "hm_invar m \<Longrightarrow> length m = card (dom (map_of m))"
  by (simp add: hm_invar_def dom_map_of_conv_image_fst distinct_card flip: set_map)

interpretation hm: hash_map map_of AList.update AList.delete length hm_invar
proof unfold_locales
  fix m :: "('k, 'v) hmap" and k :: 'k and v :: 'v
  assume inv: "hm_invar m"
  show "map_of (AList.update k v m) = (map_of m)(k \<mapsto> v)"
    by (rule update_conv')
  show "map_of (AList.delete k m) = (map_of m)(k := None)"
    by (rule delete_conv')
  show "length m = card (dom (map_of m))"
    using inv by (rule hm_len_card)
  show "finite (dom (map_of m))"
    by (rule finite_dom_map_of)
  show "hm_invar (AList.update k v m)"
    using inv by (simp add: hm_invar_def distinct_update)
  show "hm_invar (AList.delete k m)"
    using inv by (simp add: hm_invar_def distinct_delete)
qed

lemma hm_invar_filter: "hm_invar m \<Longrightarrow> hm_invar (filter P m)"
  by (simp add: hm_invar_def distinct_map_filter)

lemma hm_in_set_iff: "hm_invar m \<Longrightarrow> (k, v) \<in> set m \<longleftrightarrow> map_of m k = Some v"
  by (simp add: hm_invar_def map_of_eq_Some_iff)

lemma hm_get_filter:
  "hm_invar m \<Longrightarrow> map_of (filter (\<lambda>(k, v). P k) m) k = (if P k then map_of m k else None)"
  by (induction m) (auto simp: hm_invar_def)

lemma update_fresh: "map_of m k = None \<Longrightarrow> AList.update k v m = m @ [(k, v)]"
  by (induction m) (auto split: if_splits)

lemma hm_sum_delete:
  fixes f :: "'v \<Rightarrow> 'a::comm_monoid_add"
  assumes "hm_invar m" and "map_of m k = Some v"
  shows "sum_list (map (\<lambda>(k, v). f v) m) = f v + sum_list (map (\<lambda>(k, v). f v) (AList.delete k m))"
  using assms
proof (induction m)
  case Nil
  then show ?case by simp
next
  case (Cons p m)
  obtain k' v' where p: "p = (k', v')" by fastforce
  show ?case
  proof (cases "k' = k")
    case True
    have "k \<notin> fst ` set m"
      using Cons.prems(1) p True by (simp add: hm_invar_def)
    then have "AList.delete k m = m"
      by (simp add: delete_id)
    with Cons.prems(2) p True show ?thesis by simp
  next
    case False
    with Cons p show ?thesis
      by (simp add: hm_invar_def ac_simps)
  qed
qed

text \<open>
  Folding a commutative sum over a hash map does not depend on the iteration order.
\<close>

lemma hm_sum_order:
  fixes f :: "'v \<Rightarrow> 'a::comm_monoid_add"
  assumes "hm_invar m" and "hm_invar m'" and "map_of m = map_of m'"
  shows "sum_list (map (\<lambda>(k, v). f v) m) = sum_list (map (\<lambda>(k, v). f v) m')"
proof -
  have "set m = set m'"
    using assms by (auto simp: hm_in_set_iff)
  moreover have "distinct m" and "distinct m'"
    using assms(1,2) by (auto simp: hm_invar_def simp: distinct_map)
  ultimately show ?thesis
    by (simp flip: sum.distinct_set_conv_list)
qed

end
