(* ===== verification/Types.thy ===== *)
theory Types
  imports Prelude
begin

text \<open>
  The data the derivation pipeline passes around: L1 and L2 block references
  (\<^verbatim>\<open>primitives/src/blocks.rs\<close>), the rollup and system configuration, the error
  hierarchy of \<^verbatim>\<open>derive/src/errors\<close>, the signals of \<^verbatim>\<open>derive/src/types/signals.rs\<close> and
  the logs and receipts of an L1 block.
\<close>

section \<open>Block references\<close>

record block_num_hash =
  bnh_number :: u64
  bnh_hash :: b256

record block_info =
  bi_hash :: b256
  bi_number :: u64
  bi_parent_hash :: b256
  bi_timestamp :: u64

definition zero_hash :: b256 where
  "zero_hash = replicate 32 0"

definition default_block_info :: block_info where
  "default_block_info = \<lparr>bi_hash = zero_hash, bi_number = 0, bi_parent_hash = zero_hash, bi_timestamp = 0\<rparr>"

definition block_id :: "block_info \<Rightarrow> block_num_hash" where
  "block_id b = \<lparr>bnh_number = bi_number b, bnh_hash = bi_hash b\<rparr>"

record l2_block_info =
  l2_block :: block_info
  l2_l1_origin :: block_num_hash
  l2_seq_num :: u64

section \<open>Configuration\<close>

record rollup_config =
  rc_l1_chain_id :: u64
  rc_max_sequencer_drift :: u64
  rc_seq_window_size :: u64
  rc_channel_timeout :: u64
  rc_batch_inbox_address :: address
  rc_optimism_portal_address :: address
  rc_l1_system_config_address :: address
  rc_l1_standard_bridge :: address
  rc_l1_cross_domain_messenger :: address
  rc_derive_delay_l1_block_num :: u64
  rc_max_frame_size :: u32
  rc_channel_size :: u32
  rc_block_time :: u64
  rc_shred_version :: "u16 option"
  rc_genesis_hash :: "b256 option"
  rc_upgrade_schedules :: "(string, u64 option) hmap"
  rc_sequencer_schedules :: "(u64 \<times> b256) list"

record system_config =
  sc_batcher_address :: address
  sc_overhead :: "256 word"
  sc_scalar :: "256 word"
  sc_gas_limit :: u64
  sc_base_fee_scalar :: "u64 option"
  sc_blob_base_fee_scalar :: "u64 option"
  sc_eip1559_denominator :: "u32 option"
  sc_eip1559_elasticity :: "u32 option"
  sc_operator_fee_scalar :: "u32 option"
  sc_operator_fee_constant :: "u64 option"

section \<open>Logs and receipts of an L1 block\<close>

record log =
  log_address :: address
  log_topics :: "b256 list"
  log_data :: bytes

datatype eip658_value = Eip658 bool | PostState b256

record receipt =
  rcpt_status :: eip658_value
  rcpt_logs :: "log list"

record l1_transaction =
  tx_hash :: b256
  tx_from :: address
  tx_input :: bytes
  tx_to :: "address option"

section \<open>Errors\<close>

text \<open>
  The six update error enums of \<^verbatim>\<open>system/errors.rs\<close> share their first five variants; they
  are one type here, and \<open>system_config_update_error\<close> says which enum a value is of.
\<close>

datatype update_error =
    InvalidDataLen nat
  | PointerDecodingError
  | InvalidDataPointer u64
  | LengthDecodingError
  | InvalidDataLength u64
  | BatcherAddressDecodingError
  | UnsafeBlockSignerAddressDecodingError
  | OverheadDecodingError
  | ScalarDecodingError
  | GasLimitDecodingError
  | EIP1559DecodingError
  | ConstantDecodingError

datatype log_processing_error =
    InvalidTopicLen nat
  | InvalidTopic
  | UnsupportedVersion b256
  | UpdateTypeDecodingError
  | InvalidSystemConfigUpdateType u64

datatype system_config_update_error =
    LogProcessing log_processing_error
  | BatcherErr update_error
  | GasConfigErr update_error
  | GasLimitErr update_error
  | Eip1559Err update_error
  | OperatorFeeErr update_error
  | UnsafeBlockSignerErr update_error

datatype builder_error =
    BlockMismatch block_num_hash block_num_hash
  | BlockMismatchEpochReset block_num_hash block_num_hash b256
  | BuilderSystemConfigUpdate
  | BrokenTimeInvariant block_num_hash u64 block_num_hash u64
  | AttributesUnavailable
  | BuilderCustom string

datatype span_decoding_error =
    RelativeTimestamp
  | L1OriginNumber
  | ParentCheck
  | L1OriginCheck
  | BlockCount
  | BlockTxCounts
  | TxNonces
  | TypeSignatureLenMismatch
  | InvalidTransactionType
  | InvalidTransactionData
  | InvalidTransactionSignature

datatype span_batch_error =
    TooBigSpanBatchSize
  | BitfieldTooLong
  | EmptySpanBatch
  | MissingL1Origin
  | Decoding span_decoding_error

text \<open>\<open>DepositError\<close> of \<^verbatim>\<open>primitives/src/error.rs\<close>; the transaction error is Solana's.\<close>

datatype deposit_error =
    ParseDepositTxError string
  | ParseL1BlockInfoTxError string
  | InvalidPubKey
  | InvalidDecimals
  | InvalidTransaction string
  | NotSupportSignatures
  | InvalidDomainMessenger string
  | InvalidL2CrossDomainMessenger string
  | InvalidL2StandardBridge string
  | InvalidL1StandardBridge string
  | InvalidRelaySelector string
  | InvalidDepositSelector string
  | InvalidDataLength_Deposit

datatype pipeline_encoding_error =
    EmptyBuffer
  | DepositErr deposit_error
  | AlloyRlpError string
  | SpanBatchErr span_batch_error
  | L2TxSerializeErr string

datatype pipeline_error =
    Eof
  | NotEnoughData
  | ChannelProviderEmpty
  | ChannelAlreadyBuilt
  | ChannelNotFound
  | ChannelReaderEmpty
  | BatchQueueEmpty
  | MissingOrigin
  | MissingL1Data
  | InvalidBatchType
  | InvalidBatchValidity
  | SystemConfigUpdate system_config_update_error
  | AttributesBuilder builder_error
  | BadEncoding pipeline_encoding_error
  | EndOfSource
  | Provider string
  | ParseDepositTxErr string
  | ParseL1BlockInfoTxErr string

datatype reset_error =
    BadParentHash b256 b256
  | BadTimestamp u64 u64
  | L1OriginMismatch u64 u64
  | ReorgDetected b256 b256
  | ResetAttributesBuilder builder_error
  | HoloceneActivation

datatype pipeline_error_kind =
    Temporary pipeline_error
  | Critical pipeline_error
  | ResetKind reset_error

text \<open>\<open>PipelineError::temp\<close> and \<open>PipelineError::crit\<close>.\<close>

definition temp :: "pipeline_error \<Rightarrow> pipeline_error_kind" where
  [simp]: "temp e = Temporary e"

definition crit :: "pipeline_error \<Rightarrow> pipeline_error_kind" where
  [simp]: "crit e = Critical e"

type_synonym 'a presult = "('a, pipeline_error_kind) res"

section \<open>Signals\<close>

record reset_signal =
  sig_l2_safe_head :: l2_block_info
  sig_l1_origin :: block_info
  sig_system_config :: "system_config option"

text \<open>\<open>ResetSignal\<close> and \<open>ActivationSignal\<close> have the same fields.\<close>

datatype signal =
    SigReset reset_signal
  | SigActivation reset_signal
  | FlushChannel

fun with_system_config :: "signal \<Rightarrow> system_config \<Rightarrow> signal" where
  "with_system_config (SigReset r) c = SigReset (r\<lparr>sig_system_config := Some c\<rparr>)"
| "with_system_config (SigActivation a) c = SigActivation (a\<lparr>sig_system_config := Some c\<rparr>)"
| "with_system_config FlushChannel c = FlushChannel"

section \<open>Providers\<close>

text \<open>
  The traits through which the pipeline reads the chains. Their implementations talk to
  the network or to a preimage oracle; the stages are generic in them, and so is the
  model: an environment answers each call, with the error already converted into a
  pipeline error as the \<open>Into<PipelineErrorKind>\<close> bound requires.
\<close>

record chain_provider =
  cp_block_info_by_number :: "u64 \<Rightarrow> block_info presult"
  cp_block_info_by_hash :: "b256 \<Rightarrow> block_info presult"
  cp_receipts_by_hash :: "b256 \<Rightarrow> receipt list presult"
  cp_get_block_transactions_by_hash :: "b256 \<Rightarrow> l1_transaction list presult"

record da_provider =
  da_get_input :: "bytes \<Rightarrow> bytes presult"

record l2_chain_provider =
  l2p_l2_block_info_by_number :: "u64 \<Rightarrow> l2_block_info presult"
  l2p_system_config_by_number :: "u64 \<Rightarrow> system_config presult"

section \<open>An example chain\<close>

text \<open>An L1 chain whose block \<open>n\<close> has the big-endian number \<open>n\<close> as its hash.\<close>

definition ex_block :: "nat \<Rightarrow> block_info" where
  "ex_block n = \<lparr>bi_hash = be_of_nat 2 n, bi_number = of_nat n, bi_parent_hash = be_of_nat 2 (n - 1),
     bi_timestamp = of_nat (10 * n)\<rparr>"

definition ex_rollup_config :: rollup_config where
  "ex_rollup_config =
     \<lparr>rc_l1_chain_id = 1, rc_max_sequencer_drift = 600, rc_seq_window_size = 3, rc_channel_timeout = 2,
      rc_batch_inbox_address = [2], rc_optimism_portal_address = [3], rc_l1_system_config_address = [4],
      rc_l1_standard_bridge = [5], rc_l1_cross_domain_messenger = [6], rc_derive_delay_l1_block_num = 0,
      rc_max_frame_size = 1000, rc_channel_size = 100000, rc_block_time = 2, rc_shred_version = None,
      rc_genesis_hash = None, rc_upgrade_schedules = [], rc_sequencer_schedules = []\<rparr>"

end
