(* ===== verification/Batches.thy ===== *)
theory Batches
  imports Types
begin

text \<open>
  Batches (\<^verbatim>\<open>derive/src/batch\<close>): single batches and span batches in derived form, and the rules
  that decide whether a batch may extend the L2 safe head. The transaction cache of a span
  batch, which only its encoder reads, is left out here. Log statements are not modelled.
\<close>

section \<open>Definitions\<close>

datatype batch_validity = Drop | Accept | Undecided | Future | Past

definition is_drop :: "batch_validity \<Rightarrow> bool" where "is_drop v \<longleftrightarrow> v = Drop"
definition is_outdated :: "batch_validity \<Rightarrow> bool" where "is_outdated v \<longleftrightarrow> v = Past"
definition is_future :: "batch_validity \<Rightarrow> bool" where "is_future v \<longleftrightarrow> v = Future"

record single_batch =
  sb_parent_hash :: b256
  sb_epoch_num :: u64
  sb_epoch_hash :: b256
  sb_timestamp :: u64
  sb_transactions :: "bytes list"

definition has_invalid_transactions :: "single_batch \<Rightarrow> bool" where
  "has_invalid_transactions b = list_ex (\<lambda>tx. tx = [] \<or> hd tx = 0x7E) (sb_transactions b)"

definition sb_epoch :: "single_batch \<Rightarrow> block_num_hash" where
  "sb_epoch b = \<lparr>bnh_number = sb_epoch_num b, bnh_hash = sb_epoch_hash b\<rparr>"

definition checked_add :: "u64 \<Rightarrow> u64 \<Rightarrow> u64 option" where
  "checked_add a b = (if unat a + unat b < 2 ^ 64 then Some (a + b) else None)"

text \<open>The checks once the L1 origin of the batch is known: drift bound and empty transactions.\<close>

definition check_drift :: "rollup_config \<Rightarrow> block_info list \<Rightarrow> block_info \<Rightarrow> block_info \<Rightarrow> single_batch \<Rightarrow> batch_validity" where
  "check_drift cfg l1_blocks epoch batch_origin b =
     (case checked_add (bi_timestamp batch_origin) (rc_max_sequencer_drift cfg) of
        None \<Rightarrow> Drop
      | Some max_time \<Rightarrow>
          let no_txs = (sb_transactions b = []) in
          if sb_timestamp b > max_time \<and> \<not> no_txs then Drop
          else if sb_timestamp b > max_time \<and> no_txs \<and> bi_number epoch = bi_number batch_origin \<and> length l1_blocks < 2
          then Undecided
          else if sb_timestamp b > max_time \<and> no_txs \<and> bi_number epoch = bi_number batch_origin
                  \<and> sb_timestamp b \<ge> bi_timestamp (l1_blocks ! 1)
          then Drop
          else if list_ex (\<lambda>tx. tx = []) (sb_transactions b) then Drop
          else Accept)"

definition single_check_batch ::
  "rollup_config \<Rightarrow> block_info list \<Rightarrow> l2_block_info \<Rightarrow> block_info \<Rightarrow> single_batch \<Rightarrow> batch_validity" where
  "single_check_batch cfg l1_blocks l2_safe_head inclusion_block b =
     (case l1_blocks of
        [] \<Rightarrow> Undecided
      | epoch # _ \<Rightarrow>
          if sb_timestamp b < bi_timestamp (l2_block l2_safe_head) then Past
          else if sb_parent_hash b \<noteq> bi_hash (l2_block l2_safe_head) then Past
          else if sb_epoch_num b + rc_seq_window_size cfg < bi_number inclusion_block then Drop
          else if sb_epoch_num b < bi_number epoch then Drop
          else if sb_epoch_num b \<noteq> bi_number epoch \<and> sb_epoch_num b \<noteq> bi_number epoch + 1 then Drop
          else if sb_epoch_num b \<noteq> bi_number epoch \<and> length l1_blocks < 2 then Undecided
          else
            let batch_origin = (if sb_epoch_num b = bi_number epoch then epoch else l1_blocks ! 1) in
            if sb_epoch_hash b \<noteq> bi_hash batch_origin \<and> bi_number (l2_block l2_safe_head) \<noteq> 0 then Drop
            else check_drift cfg l1_blocks epoch batch_origin b)"

record span_batch_element =
  se_epoch_num :: u64
  se_timestamp :: u64
  se_transactions :: "bytes list"

definition element_of_single :: "single_batch \<Rightarrow> span_batch_element" where
  "element_of_single b =
     \<lparr>se_epoch_num = sb_epoch_num b, se_timestamp = sb_timestamp b, se_transactions = sb_transactions b\<rparr>"

record span_batch =
  sp_parent_check :: bytes
  sp_l1_origin_check :: bytes
  sp_genesis_timestamp :: u64
  sp_chain_id :: u64
  sp_batches :: "span_batch_element list"
  sp_origin_bits :: bytes
  sp_block_tx_counts :: "u64 list"

text \<open>These three index the list of batches and panic when it is empty.\<close>

definition starting_timestamp :: "span_batch \<Rightarrow> (u64, 'e) res" where
  "starting_timestamp sp = (case sp_batches sp of [] \<Rightarrow> Panic | b # _ \<Rightarrow> Ok (se_timestamp b))"

definition final_timestamp :: "span_batch \<Rightarrow> (u64, 'e) res" where
  "final_timestamp sp = (case sp_batches sp of [] \<Rightarrow> Panic | b # bs \<Rightarrow> Ok (se_timestamp (last (b # bs))))"

definition starting_epoch_num :: "span_batch \<Rightarrow> (u64, 'e) res" where
  "starting_epoch_num sp = (case sp_batches sp of [] \<Rightarrow> Panic | b # _ \<Rightarrow> Ok (se_epoch_num b))"

definition check_origin_hash :: "span_batch \<Rightarrow> b256 \<Rightarrow> bool" where
  "check_origin_hash sp h \<longleftrightarrow> sp_l1_origin_check sp = take 20 h"

definition check_parent_hash :: "span_batch \<Rightarrow> b256 \<Rightarrow> bool" where
  "check_parent_hash sp h \<longleftrightarrow> sp_parent_check sp = take 20 h"

text \<open>
  The parent of the span: the safe head, or an earlier block when the span overlaps the safe
  chain. \<open>Inl\<close> is the verdict of an early return; the remainder by a zero block time panics.
\<close>

definition span_parent ::
  "l2_chain_provider \<Rightarrow> rollup_config \<Rightarrow> l2_block_info \<Rightarrow> u64 \<Rightarrow> (batch_validity + l2_block_info, 'e) res" where
  "span_parent fetcher cfg safe start =
     (let safe_ts = bi_timestamp (l2_block safe); next_timestamp = safe_ts + rc_block_time cfg in
      if start < next_timestamp then
        if start > safe_ts then Ok (Inl Drop)
        else if rc_block_time cfg = 0 then Panic
        else if (safe_ts - start) mod rc_block_time cfg \<noteq> 0 then Ok (Inl Drop)
        else
          let parent_num = bi_number (l2_block safe) - (safe_ts - start) div rc_block_time cfg - 1 in
          (case l2p_l2_block_info_by_number fetcher parent_num of
             Ok block \<Rightarrow> Ok (Inr block)
           | Err e \<Rightarrow> Ok (Inl Undecided)
           | Panic \<Rightarrow> Panic)
      else Ok (Inr safe))"

text \<open>The scan for the L1 block of the last epoch.\<close>

fun check_end_origin :: "span_batch \<Rightarrow> u64 \<Rightarrow> block_info list \<Rightarrow> batch_validity" where
  "check_end_origin sp end_epoch [] = Undecided"
| "check_end_origin sp end_epoch (b # bs) =
     (if bi_number b = end_epoch then (if check_origin_hash sp (bi_hash b) then Accept else Drop)
      else check_end_origin sp end_epoch bs)"

definition check_batch_prefix ::
  "l2_chain_provider \<Rightarrow> rollup_config \<Rightarrow> block_info list \<Rightarrow> l2_block_info \<Rightarrow> block_info \<Rightarrow> span_batch
     \<Rightarrow> (batch_validity \<times> l2_block_info option, 'e) res" where
  "check_batch_prefix fetcher cfg l1_origins safe inclusion_block sp =
     (if l1_origins = [] then Ok (Undecided, None)
      else if sp_batches sp = [] then Ok (Undecided, None)
      else
        let epoch = hd l1_origins; next_timestamp = bi_timestamp (l2_block safe) + rc_block_time cfg in
        rthen (starting_epoch_num sp) (\<lambda>start_epoch.
        if start_epoch = bi_number epoch + 1 \<and> length l1_origins < 2 then Ok (Undecided, None)
        else
        rthen (starting_timestamp sp) (\<lambda>start.
        if start > next_timestamp then Ok (Drop, None)
        else
        rthen (final_timestamp sp) (\<lambda>final.
        if final < next_timestamp then Ok (Past, None)
        else
        rthen (span_parent fetcher cfg safe start) (\<lambda>p.
        case p of
          Inl v \<Rightarrow> Ok (v, None)
        | Inr parent \<Rightarrow>
            if \<not> check_parent_hash sp (bi_hash (l2_block parent)) then Ok (Drop, None)
            else if start_epoch + rc_seq_window_size cfg < bi_number inclusion_block then Ok (Drop, None)
            else if start_epoch > bnh_number (l2_l1_origin parent) + 1 then Ok (Drop, None)
            else
              (case check_end_origin sp (se_epoch_num (last (sp_batches sp))) l1_origins of
                 Accept \<Rightarrow>
                   if start_epoch < bnh_number (l2_l1_origin parent) then Ok (Drop, None)
                   else Ok (Accept, Some parent)
               | v \<Rightarrow> Ok (v, None)))))))"

text \<open>The first index from \<open>i\<close> on whose block has number \<open>n\<close>, else \<open>i\<close>.\<close>

fun advance_index :: "u64 \<Rightarrow> nat \<Rightarrow> nat \<Rightarrow> block_info list \<Rightarrow> nat" where
  "advance_index n i j [] = i"
| "advance_index n i j (b # bs) = (if bi_number b = n then j else advance_index n i (Suc j) bs)"

definition check_transactions :: "bytes list \<Rightarrow> bool" where
  "check_transactions txs = list_all (\<lambda>tx. tx \<noteq> [] \<and> hd tx \<noteq> 0x7E) txs"

text \<open>
  The loop over the elements of the span. \<open>prev\<close> is the epoch of the element before, which
  the first element does not have.
\<close>

fun check_elements ::
  "rollup_config \<Rightarrow> block_info list \<Rightarrow> l2_block_info \<Rightarrow> u64 option \<Rightarrow> nat \<Rightarrow> bool \<Rightarrow> span_batch_element list
     \<Rightarrow> (batch_validity, 'e) res" where
  "check_elements cfg l1_blocks safe prev origin_index origin_advanced [] = Ok Accept"
| "check_elements cfg l1_blocks safe prev origin_index origin_advanced (e # es) =
     (if se_timestamp e \<le> bi_timestamp (l2_block safe)
      then check_elements cfg l1_blocks safe (Some (se_epoch_num e)) origin_index origin_advanced es
      else
        let j = advance_index (se_epoch_num e) origin_index origin_index (drop origin_index l1_blocks) in
        if j \<ge> length l1_blocks then Panic
        else
          let l1_origin = l1_blocks ! j;
              advanced = (case prev of None \<Rightarrow> origin_advanced | Some p \<Rightarrow> se_epoch_num e > p);
              late = se_timestamp e > bi_timestamp l1_origin + rc_max_sequencer_drift cfg in
          if se_timestamp e < bi_timestamp l1_origin then Ok Drop
          else if late \<and> se_transactions e = [] \<and> \<not> advanced \<and> j + 1 \<ge> length l1_blocks then Ok Undecided
          else if late \<and> se_transactions e = [] \<and> \<not> advanced
                  \<and> se_timestamp e \<ge> bi_timestamp (l1_blocks ! (j + 1)) then Ok Drop
          else if late \<and> se_transactions e \<noteq> [] then Ok Drop
          else if \<not> check_transactions (se_transactions e) then Ok Drop
          else check_elements cfg l1_blocks safe (Some (se_epoch_num e)) j advanced es)"

definition span_check_batch ::
  "l2_chain_provider \<Rightarrow> rollup_config \<Rightarrow> block_info list \<Rightarrow> l2_block_info \<Rightarrow> block_info \<Rightarrow> span_batch
     \<Rightarrow> (batch_validity, 'e) res" where
  "span_check_batch fetcher cfg l1_blocks safe inclusion_block sp =
     rthen (check_batch_prefix fetcher cfg l1_blocks safe inclusion_block sp) (\<lambda>(v, parent).
       if v \<noteq> Accept then Ok v
       else
       rthen (starting_epoch_num sp) (\<lambda>start_epoch.
       case parent of
         None \<Rightarrow> Panic
       | Some p \<Rightarrow>
           check_elements cfg l1_blocks safe None 0 (start_epoch = bnh_number (l2_l1_origin p) + 1) (sp_batches sp)))"

text \<open>
  \<open>get_singular_batches\<close>: the index found is relative to the slice it was searched in, and
  stored as the start of the next slice. The arguments of the log statement in the loop,
  which index the first L1 origin, are not modelled.
\<close>

fun find_origin :: "u64 \<Rightarrow> nat \<Rightarrow> block_info list \<Rightarrow> (nat \<times> b256) option" where
  "find_origin n i [] = None"
| "find_origin n i (b # bs) = (if bi_number b = n then Some (i, bi_hash b) else find_origin n (Suc i) bs)"

fun singular_loop ::
  "block_info list \<Rightarrow> l2_block_info \<Rightarrow> nat \<Rightarrow> span_batch_element list \<Rightarrow> (single_batch list, span_batch_error) res" where
  "singular_loop l1_origins safe origin_index [] = Ok []"
| "singular_loop l1_origins safe origin_index (e # es) =
     (if se_timestamp e \<le> bi_timestamp (l2_block safe) then singular_loop l1_origins safe origin_index es
      else if origin_index > length l1_origins then Panic
      else case find_origin (se_epoch_num e) 0 (drop origin_index l1_origins) of
             None \<Rightarrow> Err MissingL1Origin
           | Some (i, h) \<Rightarrow>
               rthen (singular_loop l1_origins safe i es) (\<lambda>bs.
                 Ok (\<lparr>sb_parent_hash = zero_hash, sb_epoch_num = se_epoch_num e, sb_epoch_hash = h,
                      sb_timestamp = se_timestamp e, sb_transactions = se_transactions e\<rparr> # bs)))"

definition get_singular_batches ::
  "block_info list \<Rightarrow> l2_block_info \<Rightarrow> span_batch \<Rightarrow> (single_batch list, span_batch_error) res" where
  "get_singular_batches l1_origins safe sp = singular_loop l1_origins safe 0 (sp_batches sp)"

datatype batch = Single single_batch | Span span_batch

definition batch_timestamp :: "batch \<Rightarrow> (u64, 'e) res" where
  "batch_timestamp b = (case b of Single sb \<Rightarrow> Ok (sb_timestamp sb) | Span sp \<Rightarrow> starting_timestamp sp)"

record batch_with_inclusion_block =
  bw_inclusion_block :: block_info
  bw_batch :: batch

definition check_batch ::
  "l2_chain_provider \<Rightarrow> rollup_config \<Rightarrow> block_info list \<Rightarrow> l2_block_info \<Rightarrow> batch_with_inclusion_block
     \<Rightarrow> (batch_validity, 'e) res" where
  "check_batch fetcher cfg l1_blocks safe bw =
     (case bw_batch bw of
        Single sb \<Rightarrow> Ok (single_check_batch cfg l1_blocks safe (bw_inclusion_block bw) sb)
      | Span sp \<Rightarrow> span_check_batch fetcher cfg l1_blocks safe (bw_inclusion_block bw) sp)"

section \<open>Decoding\<close>

datatype batch_type = SingleType | SpanType

text \<open>\<open>BatchType::from\<close> panics on any other byte.\<close>

definition batch_type_from :: "u8 \<Rightarrow> (batch_type, 'e) res" where
  "batch_type_from v = (if v = 0 then Ok SingleType else if v = 1 then Ok SpanType else Panic)"

text \<open>
  The RLP decoder of single batches is derived by \<^verbatim>\<open>alloy_rlp\<close>; the decoder of raw span batches
  is a parameter as well.
\<close>

record batch_decoders =
  dec_single :: "bytes \<Rightarrow> (single_batch, string) res"
  dec_span :: "bytes \<Rightarrow> (span_batch, span_batch_error) res"

definition batch_decode :: "batch_decoders \<Rightarrow> bytes \<Rightarrow> (batch, pipeline_encoding_error) res" where
  "batch_decode D r =
     (case r of
        [] \<Rightarrow> Err EmptyBuffer
      | t # rest \<Rightarrow>
          rthen (batch_type_from t) (\<lambda>ty.
          case ty of
            SingleType \<Rightarrow> rthen (map_err AlloyRlpError (dec_single D rest)) (\<lambda>b. Ok (Single b))
          | SpanType \<Rightarrow> rthen (map_err SpanBatchErr (dec_span D rest)) (\<lambda>b. Ok (Span b))))"

section \<open>Lemmas\<close>

lemma check_drift_Accept:
  assumes "check_drift cfg l1 epoch origin b = Accept"
  shows "\<exists>max_time. checked_add (bi_timestamp origin) (rc_max_sequencer_drift cfg) = Some max_time
     \<and> (sb_timestamp b \<le> max_time \<or> sb_transactions b = [] \<and>
          (bi_number epoch \<noteq> bi_number origin \<or> 2 \<le> length l1 \<and> sb_timestamp b < bi_timestamp (l1 ! 1)))
     \<and> [] \<notin> set (sb_transactions b)"
  using assms
  by (auto simp: check_drift_def Let_def list_ex_iff not_less not_le split: option.splits if_splits)

lemma checked_add_Some: "checked_add a b = Some c \<Longrightarrow> unat c = unat a + unat b"
  by (auto simp: checked_add_def unat_word_ariths split: if_splits)

text \<open>What an accepted single batch satisfies; \<open>origin\<close> is the L1 block of its epoch.\<close>

definition admissible ::
  "rollup_config \<Rightarrow> block_info list \<Rightarrow> l2_block_info \<Rightarrow> block_info \<Rightarrow> single_batch \<Rightarrow> bool" where
  "admissible cfg l1 safe inclusion b \<longleftrightarrow>
     sb_parent_hash b = bi_hash (l2_block safe)
   \<and> bi_timestamp (l2_block safe) \<le> sb_timestamp b
   \<and> bi_number inclusion \<le> sb_epoch_num b + rc_seq_window_size cfg
   \<and> [] \<notin> set (sb_transactions b)
   \<and> (\<exists>i < length l1. i < 2
        \<and> sb_epoch_num b = bi_number (hd l1) + of_nat i
        \<and> (sb_epoch_hash b = bi_hash (l1 ! i) \<or> bi_number (l2_block safe) = 0)
        \<and> (unat (sb_timestamp b) \<le> unat (bi_timestamp (l1 ! i)) + unat (rc_max_sequencer_drift cfg)
            \<or> sb_transactions b = []))"

lemma single_check_batch_Accept:
  assumes "single_check_batch cfg l1 safe inclusion b = Accept"
  shows "admissible cfg l1 safe inclusion b"
proof -
  obtain epoch rest where l1: "l1 = epoch # rest"
    using assms by (cases l1) (auto simp: single_check_batch_def)
  define i :: nat where "i = (if sb_epoch_num b = bi_number epoch then 0 else 1)"
  have i: "i < length l1" "i < 2" "sb_epoch_num b = bi_number epoch + of_nat i"
    using assms l1 by (auto simp: single_check_batch_def i_def Let_def not_less split: if_splits)
  have drift: "check_drift cfg l1 epoch (l1 ! i) b = Accept"
    and hash: "sb_epoch_hash b = bi_hash (l1 ! i) \<or> bi_number (l2_block safe) = 0"
    and rest: "sb_parent_hash b = bi_hash (l2_block safe)" "bi_timestamp (l2_block safe) \<le> sb_timestamp b"
      "bi_number inclusion \<le> sb_epoch_num b + rc_seq_window_size cfg"
    using assms l1 by (auto simp: single_check_batch_def i_def Let_def not_less split: if_splits)
  from check_drift_Accept [OF drift] checked_add_Some
  have "[] \<notin> set (sb_transactions b)"
    "unat (sb_timestamp b) \<le> unat (bi_timestamp (l1 ! i)) + unat (rc_max_sequencer_drift cfg) \<or> sb_transactions b = []"
    by (auto simp: word_le_nat_alt)
  with i hash rest show ?thesis by (auto simp: admissible_def l1)
qed

lemma find_origin_Some:
  "find_origin n i bs = Some (j, h) \<Longrightarrow> \<exists>b \<in> set bs. bi_number b = n \<and> bi_hash b = h \<and> i \<le> j \<and> j < i + length bs"
  by (induction n i bs rule: find_origin.induct) (auto split: if_splits)

text \<open>The single batch an element of a span stands for.\<close>

definition singular_of :: "block_info list \<Rightarrow> span_batch_element \<Rightarrow> single_batch \<Rightarrow> bool" where
  "singular_of l1 e b \<longleftrightarrow>
     element_of_single b = e \<and> sb_parent_hash b = zero_hash
   \<and> list_ex (\<lambda>origin. bi_number origin = sb_epoch_num b \<and> bi_hash origin = sb_epoch_hash b) l1"

lemma singular_loop_Ok:
  "singular_loop l1 safe i es = Ok bs \<Longrightarrow>
     list_all2 (singular_of l1) (filter (\<lambda>e. bi_timestamp (l2_block safe) < se_timestamp e) es) bs"
proof (induction l1 safe i es arbitrary: bs rule: singular_loop.induct)
  case (1 l1 safe i)
  then show ?case by simp
next
  case (2 l1 safe i e es)
  show ?case
  proof (cases "se_timestamp e \<le> bi_timestamp (l2_block safe)")
    case True
    then have "\<not> bi_timestamp (l2_block safe) < se_timestamp e" by simp
    with True 2 show ?thesis by simp
  next
    case False
    with 2(3) obtain j h bs' where f: "find_origin (se_epoch_num e) 0 (drop i l1) = Some (j, h)"
      and loop: "singular_loop l1 safe j es = Ok bs'" and le: "\<not> i > length l1"
      and bs: "bs = \<lparr>sb_parent_hash = zero_hash, sb_epoch_num = se_epoch_num e, sb_epoch_hash = h,
                      sb_timestamp = se_timestamp e, sb_transactions = se_transactions e\<rparr> # bs'"
      by (auto simp: rthen_Ok_iff split: if_splits option.splits)
    from find_origin_Some [OF f] obtain b where "b \<in> set l1" "bi_number b = se_epoch_num e" "bi_hash b = h"
      by (auto dest: in_set_dropD)
    then have "singular_of l1 e (hd bs)"
      by (auto simp: singular_of_def bs element_of_single_def list_ex_iff)
    moreover have "list_all2 (singular_of l1) (filter (\<lambda>e. bi_timestamp (l2_block safe) < se_timestamp e) es) bs'"
      using 2(2) [OF False le f refl loop] .
    ultimately show ?thesis using False bs by (simp add: not_less)
  qed
qed

section \<open>Properties\<close>

text \<open>
  C5: a single batch is accepted only if it builds on the safe head, is not older than it,
  was included within the sequencing window, belongs to the epoch of the safe head or the
  next one, names that L1 block (unless it builds on block 0), respects the sequencer drift
  bound without wrap-around or is empty, and has no empty transaction. The verdict is never
  \<open>Future\<close>.
\<close>

theorem single_batch_acceptance:
  "(case single_check_batch cfg l1 safe inclusion b of
      Accept \<Rightarrow> admissible cfg l1 safe inclusion b
    | Undecided \<Rightarrow> length l1 < 2
    | Past \<Rightarrow> \<not> (bi_timestamp (l2_block safe) \<le> sb_timestamp b \<and> sb_parent_hash b = bi_hash (l2_block safe))
    | Drop \<Rightarrow> True
    | Future \<Rightarrow> False)"
proof (cases "single_check_batch cfg l1 safe inclusion b")
  case Accept
  then show ?thesis by (simp add: single_check_batch_Accept)
qed (auto simp: single_check_batch_def check_drift_def Let_def split: list.splits option.splits if_splits)

text \<open>
  Conversely, a batch on the safe head with a timestamp not before it, included in the
  window, of the epoch at position 0 or 1 of the L1 blocks and with its hash, within the
  drift bound and without empty transactions, is accepted.
\<close>

theorem single_batch_accepts_valid:
  assumes "sb_parent_hash b = bi_hash (l2_block safe)" and "bi_timestamp (l2_block safe) \<le> sb_timestamp b"
    and "bi_number inclusion \<le> sb_epoch_num b + rc_seq_window_size cfg"
    and "i < length l1" and "i < 2" and "unat (bi_number (hd l1)) + i < 2 ^ 64"
    and "sb_epoch_num b = bi_number (hd l1) + of_nat i" and "sb_epoch_hash b = bi_hash (l1 ! i)"
    and "unat (bi_timestamp (l1 ! i)) + unat (rc_max_sequencer_drift cfg) < 2 ^ 64"
    and "unat (sb_timestamp b) \<le> unat (bi_timestamp (l1 ! i)) + unat (rc_max_sequencer_drift cfg)"
    and "[] \<notin> set (sb_transactions b)"
  shows "single_check_batch cfg l1 safe inclusion b = Accept"
proof -
  obtain epoch rest where l1: "l1 = epoch # rest" using assms(4) by (cases l1) auto
  have add: "unat (bi_timestamp (l1 ! i) + rc_max_sequencer_drift cfg)
      = unat (bi_timestamp (l1 ! i)) + unat (rc_max_sequencer_drift cfg)"
    using assms(9) by (simp add: unat_word_ariths)
  have drift: "check_drift cfg l1 epoch (l1 ! i) b = Accept"
    using assms(9-11) add
    by (auto simp: check_drift_def checked_add_def Let_def list_ex_iff word_less_nat_alt)
  consider "i = 0" | "i = 1" using assms(5) by linarith
  then show ?thesis
  proof cases
    case 1
    with assms l1 drift show ?thesis by (auto simp: single_check_batch_def not_less)
  next
    case 2
    have "unat (bi_number epoch + 1) = unat (bi_number epoch) + 1"
      using assms(6) 2 l1 by (simp add: unat_word_ariths)
    then have "bi_number epoch < bi_number epoch + 1" by (simp add: word_less_nat_alt)
    with 2 assms l1 drift show ?thesis by (auto simp: single_check_batch_def not_less Let_def)
  qed
qed

text \<open>
  Expanding a span batch gives one single batch per element after the safe head, in
  order, with the element's epoch, timestamp and transactions, no parent hash yet, and the
  hash of an L1 origin with the number of the epoch.
\<close>

theorem singular_batches_of_span:
  assumes "get_singular_batches l1 safe sp = Ok bs"
  shows "list_all2 (singular_of l1)
           (filter (\<lambda>e. bi_timestamp (l2_block safe) < se_timestamp e) (sp_batches sp)) bs"
  using assms unfolding get_singular_batches_def by (rule singular_loop_Ok)

definition ex_safe_head :: l2_block_info where
  "ex_safe_head = \<lparr>l2_block = \<lparr>bi_hash = [7], bi_number = 3, bi_parent_hash = [6], bi_timestamp = 50\<rparr>,
     l2_l1_origin = block_id (ex_block 5), l2_seq_num = 0\<rparr>"

definition ex_span :: span_batch where
  "ex_span = \<lparr>sp_parent_check = [7], sp_l1_origin_check = be_of_nat 2 6, sp_genesis_timestamp = 0, sp_chain_id = 0,
     sp_batches = [\<lparr>se_epoch_num = 5, se_timestamp = 48, se_transactions = []\<rparr>,
                   \<lparr>se_epoch_num = 6, se_timestamp = 60, se_transactions = [[1]]\<rparr>],
     sp_origin_bits = [], sp_block_tx_counts = []\<rparr>"

theorem singular_batches_of_span_witness:
  "\<exists>bs. get_singular_batches [ex_block 5, ex_block 6] ex_safe_head ex_span = Ok bs \<and> length bs = 1
     \<and> list_all2 (singular_of [ex_block 5, ex_block 6])
         (filter (\<lambda>e. bi_timestamp (l2_block ex_safe_head) < se_timestamp e) (sp_batches ex_span)) bs"
proof -
  have "get_singular_batches [ex_block 5, ex_block 6] ex_safe_head ex_span =
     Ok [\<lparr>sb_parent_hash = zero_hash, sb_epoch_num = 6, sb_epoch_hash = bi_hash (ex_block 6),
          sb_timestamp = 60, sb_transactions = [[1]]\<rparr>]"
    by (simp add: get_singular_batches_def ex_safe_head_def ex_span_def ex_block_def)
  from singular_batches_of_span [OF this] this show ?thesis by auto
qed

theorem single_batch_accepts_valid_witness:
  "single_check_batch ex_rollup_config [ex_block 5, ex_block 6] ex_safe_head (ex_block 7)
     \<lparr>sb_parent_hash = [7], sb_epoch_num = 6, sb_epoch_hash = bi_hash (ex_block 6), sb_timestamp = 61,
      sb_transactions = [[1, 2]]\<rparr> = Accept"
  by (rule single_batch_accepts_valid [where i = 1]) (simp_all add: ex_safe_head_def ex_block_def ex_rollup_config_def)

end
