(* ===== verification/Frames.thy ===== *)
theory Frames
  imports Types
begin

text \<open>
  The frame format of \<^verbatim>\<open>primitives/src/da/frame.rs\<close>: encoding, decoding and the parser
  of a whole data transaction. The lemmas give the round trip of a frame and of a list of
  frames, what a successful parse says of its input, and which errors can occur.
\<close>

section \<open>Definitions\<close>

definition DERIVATION_VERSION_0 :: u8 where "DERIVATION_VERSION_0 = 0"
definition FRAME_OVERHEAD :: nat where "FRAME_OVERHEAD = 200"
definition BASE_FRAME_LEN :: nat where "BASE_FRAME_LEN = 16 + 2 + 4 + 1"
definition MAX_FRAME_LEN :: nat where "MAX_FRAME_LEN = 10 * 1024 * 1024"

datatype frame_decoding_error =
    DataTooLarge nat
  | DataTooShort nat
  | InvalidId
  | InvalidNumber
  | InvalidFrameDataLength

datatype frame_parse_error =
    FrameDecodingError frame_decoding_error
  | NoFrames
  | UnsupportedDerivationVersion
  | DataLengthMismatch
  | NoFramesDecoded

type_synonym channel_id = "u8 list"

record frame =
  fr_id :: channel_id
  fr_number :: u16
  fr_data :: bytes
  fr_is_last :: bool

definition encode :: "frame \<Rightarrow> bytes" where
  "encode f =
     fr_id f
     @ be_of_nat 2 (unat (fr_number f))
     @ be_of_nat 4 (length (fr_data f))
     @ fr_data f
     @ [if fr_is_last f then 1 else 0]"

definition decode :: "bytes \<Rightarrow> (nat \<times> frame, frame_decoding_error) res" where
  "decode encoded =
     (if length encoded < BASE_FRAME_LEN then Err (DataTooShort (length encoded))
      else
        let ident = take 16 encoded;
            number = of_nat (nat_of_be (take 2 (drop 16 encoded)));
            data_len = nat_of_be (take 4 (drop 18 encoded))
        in
        if data_len > MAX_FRAME_LEN \<or> data_len \<ge> length encoded - (BASE_FRAME_LEN - 1)
        then Err (DataTooLarge data_len)
        else Ok (BASE_FRAME_LEN + data_len,
                 \<lparr>fr_id = ident, fr_number = number,
                  fr_data = take data_len (drop 22 encoded),
                  fr_is_last = (encoded ! (22 + data_len) = 1)\<rparr>))"

text \<open>The slice \<open>&data[start..]\<close> panics when \<open>start\<close> is past the end.\<close>

definition parse_frame :: "bytes \<Rightarrow> nat \<Rightarrow> (nat \<times> frame, frame_decoding_error) res" where
  "parse_frame data start = (if start \<le> length data then decode (drop start data) else Panic)"

lemma decode_consumes:
  "decode bs = Ok (n, f) \<Longrightarrow> 0 < n \<and> n \<le> length bs"
  by (auto simp: decode_def Let_def BASE_FRAME_LEN_def split: if_splits)

text \<open>The loop of \<open>parse_frames\<close>: the frames read so far and the offset behind them.\<close>

function parse_frames_loop ::
  "bytes \<Rightarrow> nat \<Rightarrow> frame list \<Rightarrow> (frame list \<times> nat, frame_parse_error) res" where
  "parse_frames_loop data offset frames =
     (if offset < length data then
        (case decode (drop offset data) of
           Err e \<Rightarrow> Err (FrameDecodingError e)
         | Panic \<Rightarrow> Panic
         | Ok (frame_length, frame) \<Rightarrow>
             parse_frames_loop data (offset + frame_length) (frames @ [frame]))
      else Ok (frames, offset))"
  by pat_completeness auto
termination
proof (relation "measure (\<lambda>(data, offset, frames). length data - offset)", goal_cases)
  case 1
  show ?case by simp
next
  case (2 data offset frames p n f)
  then have "0 < n" using decode_consumes [of "drop offset data" n f] by simp
  with 2 show ?case by simp
qed

declare parse_frames_loop.simps [simp del]

definition parse_frames :: "bytes \<Rightarrow> (frame list, frame_parse_error) res" where
  "parse_frames encoded =
     (case encoded of
        [] \<Rightarrow> Err NoFrames
      | v # data \<Rightarrow>
          if v \<noteq> DERIVATION_VERSION_0 then Err UnsupportedDerivationVersion
          else rthen (parse_frames_loop data 0 []) (\<lambda>(frames, offset).
            if offset \<noteq> length data then Err DataLengthMismatch
            else if frames = [] then Err NoFramesDecoded
            else Ok frames))"

text \<open>\<open>Frame::size\<close>, a \<open>usize\<close>.\<close>

definition frame_size :: "frame \<Rightarrow> usize" where
  "frame_size f = of_nat (length (fr_data f)) + of_nat FRAME_OVERHEAD"

section \<open>Round trips\<close>

text \<open>
  The frames the format can carry: the identifier is a \<open>[u8; 16]\<close>, the data does not
  exceed the decoder's limit.
\<close>

definition wf_frame :: "frame \<Rightarrow> bool" where
  "wf_frame f \<longleftrightarrow> length (fr_id f) = 16 \<and> length (fr_data f) \<le> MAX_FRAME_LEN"

lemma length_encode: "length (fr_id f) = 16 \<Longrightarrow> length (encode f) = BASE_FRAME_LEN + length (fr_data f)"
  by (simp add: encode_def BASE_FRAME_LEN_def)

lemma u16_be_roundtrip: "(of_nat (nat_of_be (be_of_nat 2 (unat (w :: u16)))) :: u16) = w"
  using unsigned_less [of w, where ?'a = nat] by (simp add: nat_of_be_of_nat)

lemma decode_encode_append:
  assumes "wf_frame f"
  shows "decode (encode f @ rest) = Ok (BASE_FRAME_LEN + length (fr_data f), f)"
proof -
  have idl: "length (fr_id f) = 16" and max: "length (fr_data f) \<le> MAX_FRAME_LEN"
    using assms by (auto simp: wf_frame_def)
  define bs where "bs = encode f @ rest"
  have bs: "bs = fr_id f @ be_of_nat 2 (unat (fr_number f)) @ be_of_nat 4 (length (fr_data f))
     @ fr_data f @ (if fr_is_last f then 1 else 0) # rest"
    by (simp add: bs_def encode_def)
  have len: "length bs = 23 + length (fr_data f) + length rest"
    by (simp add: bs idl)
  have t1: "take 16 bs = fr_id f" by (simp add: bs idl)
  have t2: "take 2 (drop 16 bs) = be_of_nat 2 (unat (fr_number f))" by (simp add: bs idl)
  have "nat_of_be (be_of_nat 4 (length (fr_data f))) = length (fr_data f)"
    using max by (simp add: nat_of_be_of_nat MAX_FRAME_LEN_def)
  then have t3: "nat_of_be (take 4 (drop 18 bs)) = length (fr_data f)"
    by (simp add: bs idl)
  have t4: "take (length (fr_data f)) (drop 22 bs) = fr_data f" by (simp add: bs idl)
  have t5: "bs ! (22 + length (fr_data f)) = (if fr_is_last f then 1 else 0)"
    by (simp add: bs idl nth_append)
  have "decode bs = Ok (BASE_FRAME_LEN + length (fr_data f), f)"
    using max len by (simp add: decode_def t1 t2 t3 t4 t5 BASE_FRAME_LEN_def u16_be_roundtrip)
  then show ?thesis by (simp add: bs_def)
qed

lemma parse_frames_loop_encode:
  assumes "\<forall>f \<in> set fs. wf_frame f"
  shows "parse_frames_loop (pre @ concat (map encode fs)) (length pre) acc
           = Ok (acc @ fs, length (pre @ concat (map encode fs)))"
  using assms
proof (induction fs arbitrary: pre acc)
  case Nil
  then show ?case by (simp add: parse_frames_loop.simps)
next
  case (Cons f fs)
  let ?data = "pre @ concat (map encode (f # fs))"
  have wf: "wf_frame f" using Cons.prems by simp
  then have len: "length (encode f) = BASE_FRAME_LEN + length (fr_data f)"
    by (simp add: length_encode wf_frame_def)
  have lt: "length pre < length ?data"
    using len by (simp add: BASE_FRAME_LEN_def)
  have dec: "decode (drop (length pre) ?data) = Ok (length (encode f), f)"
    using decode_encode_append [OF wf] len by simp
  have "parse_frames_loop ?data (length pre) acc
          = parse_frames_loop ?data (length pre + length (encode f)) (acc @ [f])"
    by (subst parse_frames_loop.simps) (simp only: lt dec if_True res.case prod.case)
  also have "\<dots> = Ok (acc @ f # fs, length ?data)"
    using Cons.IH [of "pre @ encode f" "acc @ [f]"] Cons.prems by simp
  finally show ?case .
qed

section \<open>What a successful parse means\<close>

lemma parse_frames_encoded:
  assumes "fs \<noteq> []" and "\<forall>f \<in> set fs. wf_frame f"
  shows "parse_frames (DERIVATION_VERSION_0 # concat (map encode fs)) = Ok fs"
  using assms(1) parse_frames_loop_encode [OF assms(2), of "[]" "[]"]
  by (simp add: parse_frames_def)

lemma decode_Ok_wf:
  assumes "decode bs = Ok (n, f)"
  shows "wf_frame f" and "n = BASE_FRAME_LEN + length (fr_data f)"
    and "butlast (encode f) = take (n - 1) bs" and "fr_is_last f \<longleftrightarrow> bs ! (n - 1) = 1"
proof -
  define dl where "dl = nat_of_be (take 4 (drop 18 bs))"
  have ge: "23 \<le> length bs" and max: "dl \<le> MAX_FRAME_LEN" and lt: "dl < length bs - 22"
    and n: "n = 23 + dl"
    and f: "f = \<lparr>fr_id = take 16 bs, fr_number = of_nat (nat_of_be (take 2 (drop 16 bs))),
                 fr_data = take dl (drop 22 bs), fr_is_last = (bs ! (22 + dl) = 1)\<rparr>"
    using assms by (auto simp: decode_def Let_def BASE_FRAME_LEN_def dl_def split: if_splits)
  show "wf_frame f"
    using ge max lt by (simp add: f wf_frame_def)
  show "n = BASE_FRAME_LEN + length (fr_data f)"
    using lt by (simp add: n f BASE_FRAME_LEN_def)
  show "fr_is_last f \<longleftrightarrow> bs ! (n - 1) = 1"
    by (simp add: n f)
  have l2: "length (take 2 (drop 16 bs)) = 2" and l4: "length (take 4 (drop 18 bs)) = 4"
    using ge by auto
  have b2: "be_of_nat 2 (unat (of_nat (nat_of_be (take 2 (drop 16 bs))) :: u16)) = take 2 (drop 16 bs)"
    using be_of_nat_of_be [of "take 2 (drop 16 bs)"] nat_of_be_bound [of "take 2 (drop 16 bs)"] l2
    by (simp add: unat_of_nat)
  have b4: "be_of_nat 4 dl = take 4 (drop 18 bs)"
    using be_of_nat_of_be [of "take 4 (drop 18 bs)"] l4 by (simp add: dl_def)
  have "butlast (encode f) = take 16 bs @ take 2 (drop 16 bs) @ take 4 (drop 18 bs) @ take dl (drop 22 bs)"
    using lt by (simp add: encode_def f b2 b4 butlast_append)
  also have "\<dots> = take (22 + dl) bs"
    using take_add [of 16 "2 + (4 + dl)" bs] take_add [of 2 "4 + dl" "drop 16 bs"]
      take_add [of 4 dl "drop 18 bs"] by (simp add: add.commute)
  finally show "butlast (encode f) = take (n - 1) bs"
    by (simp add: n)
qed

lemma parse_frames_loop_Ok:
  assumes "parse_frames_loop data offset acc = Ok (fs, off)" and "offset \<le> length data"
    and "\<forall>f \<in> set acc. wf_frame f"
  shows "off = length data \<and> (\<forall>f \<in> set fs. wf_frame f) \<and> length acc \<le> length fs
    \<and> (offset < length data \<longrightarrow> length acc < length fs)
    \<and> length data - offset + length (concat (map encode acc)) = length (concat (map encode fs))"
  using assms
proof (induction data offset acc rule: parse_frames_loop.induct)
  case (1 data offset acc)
  show ?case
  proof (cases "offset < length data")
    case False
    with "1.prems" show ?thesis by (auto simp: parse_frames_loop.simps [of data offset])
  next
    case True
    with "1.prems"(1) obtain n f where dec: "decode (drop offset data) = Ok (n, f)"
      and rec: "parse_frames_loop data (offset + n) (acc @ [f]) = Ok (fs, off)"
      by (auto simp: parse_frames_loop.simps [of data offset] split: res.splits)
    have n: "n \<le> length data - offset" "0 < n" using decode_consumes [OF dec] by auto
    have wf: "wf_frame f" "length (encode f) = n"
      using decode_Ok_wf [OF dec] by (auto simp: length_encode wf_frame_def)
    have "off = length data \<and> (\<forall>f \<in> set fs. wf_frame f) \<and> length (acc @ [f]) \<le> length fs
      \<and> (offset + n < length data \<longrightarrow> length (acc @ [f]) < length fs)
      \<and> length data - (offset + n) + length (concat (map encode (acc @ [f])))
          = length (concat (map encode fs))"
      using "1.IH" [OF True dec refl rec] n wf(1) "1.prems"(3) True by simp
    with n wf True show ?thesis by auto
  qed
qed

lemma parse_frames_loop_no_Panic: "parse_frames_loop data offset acc \<noteq> Panic"
proof (induction data offset acc rule: parse_frames_loop.induct)
  case (1 data offset acc)
  have "decode (drop offset data) \<noteq> Panic" by (auto simp: decode_def Let_def)
  with 1 show ?case
    by (subst parse_frames_loop.simps) (auto split: res.splits)
qed

lemma parse_frames_loop_Err:
  "parse_frames_loop data offset acc = Err e \<Longrightarrow> \<exists>d. e = FrameDecodingError d"
proof (induction data offset acc rule: parse_frames_loop.induct)
  case (1 data offset acc)
  then show ?case
    by (auto simp: parse_frames_loop.simps [of data offset] split: if_splits res.splits)
qed

section \<open>Properties\<close>

definition example_frame :: frame where
  "example_frame = \<lparr>fr_id = replicate 16 255, fr_number = 0xEE, fr_data = [1, 2, 3], fr_is_last = True\<rparr>"

lemma wf_example_frame: "wf_frame example_frame"
  by (simp add: wf_frame_def example_frame_def MAX_FRAME_LEN_def)

text \<open>
  Decoding what a frame encodes to gives the frame back, whatever bytes follow, and
  reports exactly the bytes of the frame as consumed.
\<close>

theorem frame_roundtrip:
  "wf_frame f \<Longrightarrow> decode (encode f @ rest) = Ok (length (encode f), f)"
  using decode_encode_append [of f rest] by (simp add: length_encode wf_frame_def)

theorem frame_roundtrip_witness:
  "wf_frame example_frame \<and>
   decode (encode example_frame @ [7]) = Ok (length (encode example_frame), example_frame)"
  using wf_example_frame frame_roundtrip [OF wf_example_frame, of "[7]"] by blast

text \<open>
  A data transaction made of the version byte and one or more encoded frames parses
  to exactly these frames, in order.
\<close>

theorem parse_frames_roundtrip:
  assumes "fs \<noteq> []" and "\<forall>f \<in> set fs. wf_frame f"
  shows "parse_frames (DERIVATION_VERSION_0 # concat (map encode fs)) = Ok fs"
  using assms by (rule parse_frames_encoded)

theorem parse_frames_roundtrip_witness:
  "parse_frames (DERIVATION_VERSION_0 # concat (map encode [example_frame, example_frame]))
     = Ok [example_frame, example_frame]"
proof (rule parse_frames_roundtrip)
  show "[example_frame, example_frame] \<noteq> []" by simp
  show "\<forall>f \<in> set [example_frame, example_frame]. wf_frame f" by (simp add: wf_example_frame)
qed

text \<open>
  The parser is total and accounts for every byte. It never panics and never reports a
  length mismatch, since a decoded frame never reaches past the data. It succeeds only on
  version 0, with at least one frame, when the sizes of the frames add up to the input, and
  re-encoding the result parses to the same frames. The remaining errors each have one
  cause, a frame that does not decode being the only one with non-empty frame data.
\<close>

theorem parse_frames_exact:
  "(case parse_frames bs of
      Ok fs \<Rightarrow> bs \<noteq> [] \<and> hd bs = DERIVATION_VERSION_0 \<and> fs \<noteq> [] \<and> list_all wf_frame fs
        \<and> length bs = 1 + length (concat (map encode fs))
        \<and> parse_frames (DERIVATION_VERSION_0 # concat (map encode fs)) = Ok fs
    | Err NoFrames \<Rightarrow> bs = []
    | Err UnsupportedDerivationVersion \<Rightarrow> bs \<noteq> [] \<and> hd bs \<noteq> DERIVATION_VERSION_0
    | Err NoFramesDecoded \<Rightarrow> bs = [DERIVATION_VERSION_0]
    | Err DataLengthMismatch \<Rightarrow> False
    | Err (FrameDecodingError _) \<Rightarrow> bs \<noteq> [] \<and> hd bs = DERIVATION_VERSION_0 \<and> tl bs \<noteq> []
    | Panic \<Rightarrow> False)"
proof (cases bs)
  case Nil
  then show ?thesis by (simp add: parse_frames_def)
next
  case (Cons v data)
  show ?thesis
  proof (cases "v = DERIVATION_VERSION_0")
    case False
    with Cons show ?thesis by (simp add: parse_frames_def)
  next
    case v: True
    show ?thesis
    proof (cases "parse_frames_loop data 0 []")
      case Panic
      with parse_frames_loop_no_Panic show ?thesis by blast
    next
      case (Err e)
      then obtain d where "e = FrameDecodingError d" using parse_frames_loop_Err by blast
      moreover have "data \<noteq> []" using Err by (auto simp: parse_frames_loop.simps)
      ultimately show ?thesis using Cons v Err by (simp add: parse_frames_def)
    next
      case (Ok p)
      obtain fs off where p: "p = (fs, off)" by fastforce
      have off: "off = length data" and wf: "\<forall>f \<in> set fs. wf_frame f"
        and ne: "data \<noteq> [] \<Longrightarrow> fs \<noteq> []" and len: "length data = length (concat (map encode fs))"
        using parse_frames_loop_Ok [OF Ok [unfolded p]] by auto
      have "fs \<noteq> [] \<Longrightarrow> parse_frames (DERIVATION_VERSION_0 # concat (map encode fs)) = Ok fs"
        using parse_frames_loop_encode [OF wf, of "[]" "[]"] by (simp add: parse_frames_def)
      with Cons v Ok p off wf ne len show ?thesis by (auto simp: parse_frames_def list_all_iff)
    qed
  qed
qed

end
