(* ===== verification/Channels.thy ===== *)
theory Channels
  imports Frames "HOL-Library.Multiset"
begin

text \<open>
  Channels (\<^verbatim>\<open>primitives/src/da/channel.rs\<close>): frames of one channel arrive in any order
  and are buffered until the closing frame and everything before it is there. The model
  keeps \<open>inputs\<close> as a hash map over frame numbers and all counters at their width.
\<close>

section \<open>Definitions\<close>

datatype channel_error =
    FrameIdMismatch
  | ChannelClosed
  | FrameNumberExists nat
  | FrameBeyondEndFrame nat

record channel =
  ch_id :: channel_id
  ch_open_block :: block_info
  ch_estimated_size :: usize
  ch_closed :: bool
  ch_highest_frame_number :: u16
  ch_last_frame_number :: u16
  ch_inputs :: "(u16, frame) hmap"
  ch_highest_l1_inclusion_block :: block_info

definition channel_new :: "channel_id \<Rightarrow> block_info \<Rightarrow> channel" where
  "channel_new cid open_block =
     \<lparr>ch_id = cid, ch_open_block = open_block, ch_estimated_size = 0, ch_closed = False,
      ch_highest_frame_number = 0, ch_last_frame_number = 0, ch_inputs = [],
      ch_highest_l1_inclusion_block = default_block_info\<rparr>"

text \<open>The sum of the sizes of the buffered frames.\<close>

definition inputs_size :: "(u16, frame) hmap \<Rightarrow> usize" where
  "inputs_size m = sum_list (map (\<lambda>(k, f). frame_size f) m)"

text \<open>
  The closing frame: the \<open>retain\<close> closure subtracts the size of every frame it visits and
  keeps those below the last frame number.
\<close>

definition close_channel :: "u16 \<Rightarrow> channel \<Rightarrow> channel" where
  "close_channel n c =
     (let c1 = c\<lparr>ch_last_frame_number := n, ch_closed := True\<rparr> in
      if n < ch_highest_frame_number c1
      then c1\<lparr>ch_estimated_size := ch_estimated_size c1 - inputs_size (ch_inputs c1),
              ch_inputs := filter (\<lambda>(k, f). k < n) (ch_inputs c1),
              ch_highest_frame_number := n\<rparr>
      else c1)"

definition add_frame :: "frame \<Rightarrow> block_info \<Rightarrow> channel \<Rightarrow> (unit, channel_error) res \<times> channel" where
  "add_frame f l1_inclusion_block c =
     (if fr_id f \<noteq> ch_id c then (Err FrameIdMismatch, c)
      else if fr_is_last f \<and> ch_closed c then (Err ChannelClosed, c)
      else if map_of (ch_inputs c) (fr_number f) \<noteq> None
        then (Err (FrameNumberExists (unat (fr_number f))), c)
      else if ch_closed c \<and> fr_number f \<ge> ch_last_frame_number c
        then (Err (FrameBeyondEndFrame (unat (fr_number f))), c)
      else
        let c1 = (if fr_is_last f then close_channel (fr_number f) c else c);
            c2 = (if fr_number f > ch_highest_frame_number c1
                  then c1\<lparr>ch_highest_frame_number := fr_number f\<rparr> else c1);
            c3 = (if bi_number (ch_highest_l1_inclusion_block c2) < bi_number l1_inclusion_block
                  then c2\<lparr>ch_highest_l1_inclusion_block := l1_inclusion_block\<rparr> else c2)
        in (Ok (), c3\<lparr>ch_estimated_size := ch_estimated_size c3 + frame_size f,
                      ch_inputs := AList.update (fr_number f) f (ch_inputs c3)\<rparr>))"

definition open_block_number :: "channel \<Rightarrow> u64" where
  "open_block_number c = bi_number (ch_open_block c)"

definition channel_size :: "channel \<Rightarrow> usize" where
  "channel_size c = ch_estimated_size c"

text \<open>The frame numbers \<open>0..=last_frame_number\<close>.\<close>

definition frame_range :: "u16 \<Rightarrow> u16 list" where
  "frame_range n = map of_nat [0..<Suc (unat n)]"

text \<open>\<open>(self.last_frame_number + 1) as usize\<close> adds in \<open>u16\<close>.\<close>

definition is_ready :: "channel \<Rightarrow> bool" where
  "is_ready c =
     (if \<not> ch_closed c then False
      else if length (ch_inputs c) \<noteq> unat (ch_last_frame_number c + 1) then False
      else list_all (\<lambda>i. map_of (ch_inputs c) i \<noteq> None) (frame_range (ch_last_frame_number c)))"

fun collect_frames :: "(u16, frame) hmap \<Rightarrow> u16 list \<Rightarrow> bytes \<Rightarrow> bytes option" where
  "collect_frames m [] data = Some data"
| "collect_frames m (i # is) data =
     (case map_of m i of
        None \<Rightarrow> None
      | Some f \<Rightarrow> collect_frames m is (data @ fr_data f))"

definition frame_data :: "channel \<Rightarrow> bytes option" where
  "frame_data c = collect_frames (ch_inputs c) (frame_range (ch_last_frame_number c)) []"

section \<open>The channel invariant\<close>

definition channel_inv :: "channel \<Rightarrow> bool" where
  "channel_inv c \<longleftrightarrow>
     hm_invar (ch_inputs c)
   \<and> (\<forall>(k, f) \<in> set (ch_inputs c). fr_number f = k \<and> fr_id f = ch_id c
        \<and> k \<le> ch_highest_frame_number c
        \<and> (fr_is_last f \<longleftrightarrow> ch_closed c \<and> k = ch_last_frame_number c))
   \<and> (ch_closed c \<longrightarrow> map_of (ch_inputs c) (ch_last_frame_number c) \<noteq> None
        \<and> ch_highest_frame_number c \<le> ch_last_frame_number c)"

lemma channel_inv_new: "channel_inv (channel_new cid blk)"
  by (simp add: channel_inv_def channel_new_def)

lemma channel_invD:
  assumes "channel_inv c" and "(k, f) \<in> set (ch_inputs c)"
  shows "fr_number f = k" and "fr_id f = ch_id c" and "k \<le> ch_highest_frame_number c"
    and "fr_is_last f \<longleftrightarrow> ch_closed c \<and> k = ch_last_frame_number c"
  using assms by (auto simp: channel_inv_def)

lemma channel_inv_hm: "channel_inv c \<Longrightarrow> hm_invar (ch_inputs c)"
  by (simp add: channel_inv_def)

text \<open>The fields of a channel after a frame was accepted.\<close>

lemma add_frame_Ok_fields:
  assumes "add_frame f blk c = (Ok (), c')"
  shows "fr_id f = ch_id c" and "map_of (ch_inputs c) (fr_number f) = None"
    and "fr_is_last f \<longrightarrow> \<not> ch_closed c"
    and "ch_closed c \<longrightarrow> fr_number f < ch_last_frame_number c"
    and "ch_id c' = ch_id c" and "ch_open_block c' = ch_open_block c"
    and "ch_closed c' \<longleftrightarrow> ch_closed c \<or> fr_is_last f"
    and "ch_last_frame_number c' = (if fr_is_last f then fr_number f else ch_last_frame_number c)"
    and "ch_highest_frame_number c' =
           (if fr_is_last f \<and> fr_number f < ch_highest_frame_number c then fr_number f
            else max (ch_highest_frame_number c) (fr_number f))"
    and "ch_inputs c' = AList.update (fr_number f) f
           (if fr_is_last f \<and> fr_number f < ch_highest_frame_number c
            then filter (\<lambda>(k, f'). k < fr_number f) (ch_inputs c) else ch_inputs c)"
    and "ch_estimated_size c' = frame_size f +
           (if fr_is_last f \<and> fr_number f < ch_highest_frame_number c
            then ch_estimated_size c - inputs_size (ch_inputs c) else ch_estimated_size c)"
  using assms
  by (auto simp: add_frame_def close_channel_def Let_def max_def split: if_splits)

lemma add_frame_Err_unchanged: "add_frame f blk c = (Err e, c') \<Longrightarrow> c' = c"
  by (auto simp: add_frame_def Let_def split: if_splits)

lemma add_frame_no_Panic [simp]: "add_frame f blk c \<noteq> (Panic, c')"
  by (auto simp: add_frame_def Let_def split: if_splits)

lemma channel_inv_add_frame:
  assumes inv: "channel_inv c" and ok: "add_frame f blk c = (Ok (), c')"
  shows "channel_inv c'"
proof -
  note F = add_frame_Ok_fields [OF ok]
  define base where "base = (if fr_is_last f \<and> fr_number f < ch_highest_frame_number c
            then filter (\<lambda>(k, f'). k < fr_number f) (ch_inputs c) else ch_inputs c)"
  have hmb: "hm_invar base"
    using channel_inv_hm [OF inv] by (simp add: base_def hm_invar_filter)
  have fresh: "map_of base (fr_number f) = None"
    using F(2) channel_inv_hm [OF inv] by (simp add: base_def hm_get_filter)
  have ins: "ch_inputs c' = base @ [(fr_number f, f)]"
    using F(10) update_fresh [OF fresh] by (simp add: base_def)
  have old: "fr_number g = k \<and> fr_id g = ch_id c' \<and> k \<le> ch_highest_frame_number c'
      \<and> (fr_is_last g \<longleftrightarrow> ch_closed c' \<and> k = ch_last_frame_number c')"
    if mem: "(k, g) \<in> set base" for k g
  proof -
    have m: "(k, g) \<in> set (ch_inputs c)"
      using mem by (auto simp: base_def split: if_splits)
    note I = channel_invD [OF inv m]
    have "k \<noteq> fr_number f"
      using mem fresh by (auto simp: map_of_eq_None_iff rev_image_eqI)
    moreover have "k \<le> ch_highest_frame_number c'"
      using mem I(3) F(9) by (auto simp: base_def max_def split: if_splits)
    ultimately show ?thesis
      using I F(3,5,7,8) by auto
  qed
  have closed: "ch_highest_frame_number c' \<le> ch_last_frame_number c'" if "ch_closed c'"
    using that inv F(3,4,7,8,9) by (auto simp: channel_inv_def max_def split: if_splits)
  have last: "map_of (ch_inputs c') (ch_last_frame_number c') \<noteq> None" if "ch_closed c'"
    using that inv F(3,4,7,8) by (auto simp: ins base_def channel_inv_def map_add_def split: option.splits)
  have new: "fr_number f \<le> ch_highest_frame_number c'"
    using F(9) by (auto simp: max_def)
  have flag: "fr_is_last f \<longleftrightarrow> ch_closed c' \<and> fr_number f = ch_last_frame_number c'"
    using F(3,4,7,8) by auto
  have "hm_invar (ch_inputs c')"
    using hm.invar_insert [OF hmb] F(10) by (simp add: base_def)
  moreover have "\<forall>(k, g) \<in> set (ch_inputs c'). fr_number g = k \<and> fr_id g = ch_id c'
        \<and> k \<le> ch_highest_frame_number c'
        \<and> (fr_is_last g \<longleftrightarrow> ch_closed c' \<and> k = ch_last_frame_number c')"
    using old new flag F(1,5) by (auto simp: ins)
  ultimately show ?thesis
    using closed last by (simp add: channel_inv_def)
qed

lemma channel_inv_step: "channel_inv c \<Longrightarrow> channel_inv (snd (add_frame f blk c))"
proof -
  assume inv: "channel_inv c"
  obtain r c' where a: "add_frame f blk c = (r, c')" by fastforce
  show "channel_inv (snd (add_frame f blk c))"
  proof (cases r)
    case (Ok u)
    with a inv show ?thesis by (simp add: channel_inv_add_frame)
  next
    case (Err e)
    with a inv add_frame_Err_unchanged [of f blk c e c'] show ?thesis by simp
  qed (use a in simp)
qed

section \<open>Reading a channel\<close>

lemma set_frame_range: "set (frame_range n) = {i. i \<le> n}"
proof -
  have "i \<in> set (frame_range n)" if "i \<le> n" for i
  proof -
    have "i = of_nat (unat i)" by simp
    moreover have "unat i < Suc (unat n)" using that by (simp add: word_le_nat_alt less_Suc_eq_le)
    ultimately show ?thesis unfolding frame_range_def by (metis atLeastLessThan_iff image_eqI le0 set_map set_upt)
  qed
  moreover have "i \<le> n" if "i \<in> set (frame_range n)" for i
  proof -
    obtain j where "i = of_nat j" and j: "j \<le> unat n"
      using \<open>i \<in> set (frame_range n)\<close> by (auto simp: frame_range_def simp del: upt_Suc)
    moreover have "j < 2 ^ 16" using j unsigned_less [of n, where ?'a = nat] by simp
    ultimately show ?thesis by (simp add: word_le_nat_alt unat_of_nat)
  qed
  ultimately show ?thesis by blast
qed

lemma distinct_frame_range: "distinct (frame_range n)"
proof -
  have "inj_on (of_nat :: nat \<Rightarrow> u16) {0..<Suc (unat n)}"
  proof (rule inj_onI)
    fix x y
    assume "x \<in> {0..<Suc (unat n)}" and "y \<in> {0..<Suc (unat n)}" and eq: "(of_nat x :: u16) = of_nat y"
    then have "x < 2 ^ 16" and "y < 2 ^ 16"
      using unsigned_less [of n, where ?'a = nat] by auto
    moreover have "unat (of_nat x :: u16) = unat (of_nat y :: u16)" using eq by simp
    ultimately show "x = y" by (simp add: unat_of_nat)
  qed
  then show ?thesis by (simp add: frame_range_def distinct_map del: upt_Suc)
qed

lemma length_frame_range: "length (frame_range n) = Suc (unat n)"
  by (simp add: frame_range_def)

lemma collect_frames_complete:
  assumes "\<forall>i \<in> set is. map_of m i \<noteq> None"
  shows "collect_frames m is data = Some (data @ concat (map (\<lambda>i. fr_data (the (map_of m i))) is))"
  using assms by (induction "is" arbitrary: data) auto

lemma ready_complete:
  "is_ready c \<Longrightarrow> ch_closed c \<and> (\<forall>i \<le> ch_last_frame_number c. map_of (ch_inputs c) i \<noteq> None)"
  by (auto simp: is_ready_def list_all_iff set_frame_range split: if_splits)

lemma ready_frame_data:
  assumes "is_ready c"
  shows "frame_data c =
    Some (concat (map (\<lambda>i. fr_data (the (map_of (ch_inputs c) i))) (frame_range (ch_last_frame_number c))))"
  using ready_complete [OF assms] by (simp add: frame_data_def collect_frames_complete set_frame_range)

text \<open>Under the invariant a closed channel holds no number past the last one.\<close>

lemma closed_keys:
  assumes "channel_inv c" and "ch_closed c"
  shows "dom (map_of (ch_inputs c)) \<subseteq> {i. i \<le> ch_last_frame_number c}"
proof
  fix k assume "k \<in> dom (map_of (ch_inputs c))"
  then obtain f where "(k, f) \<in> set (ch_inputs c)" by (auto dest: map_of_SomeD)
  then have "k \<le> ch_highest_frame_number c" using channel_invD [OF assms(1)] by blast
  also have "\<dots> \<le> ch_last_frame_number c" using assms by (simp add: channel_inv_def)
  finally show "k \<in> {i. i \<le> ch_last_frame_number c}" by simp
qed

lemma card_u16_le: "card {i :: u16. i \<le> n} = Suc (unat n)"
  using distinct_card [OF distinct_frame_range [of n]] by (simp add: set_frame_range length_frame_range)

lemma unat_u16_suc: "n \<noteq> (65535 :: u16) \<Longrightarrow> unat (n + 1) = Suc (unat n)"
proof -
  assume ne: "n \<noteq> 65535"
  have "1 + n \<noteq> 0"
  proof
    assume "1 + n = 0"
    then have "n = - 1" by (simp add: add_eq_0_iff)
    with ne show False by simp
  qed
  then show ?thesis using unatSuc [of n] by (simp add: add.commute)
qed

lemma ready_iff_complete:
  assumes inv: "channel_inv c" and last: "ch_last_frame_number c \<noteq> 65535"
  shows "is_ready c \<longleftrightarrow> ch_closed c \<and> (\<forall>i \<le> ch_last_frame_number c. map_of (ch_inputs c) i \<noteq> None)"
proof
  assume "is_ready c"
  then show "ch_closed c \<and> (\<forall>i \<le> ch_last_frame_number c. map_of (ch_inputs c) i \<noteq> None)"
    by (rule ready_complete)
next
  assume all: "ch_closed c \<and> (\<forall>i \<le> ch_last_frame_number c. map_of (ch_inputs c) i \<noteq> None)"
  then have "dom (map_of (ch_inputs c)) = {i. i \<le> ch_last_frame_number c}"
    using closed_keys [OF inv] by (auto simp: dom_def)
  then have "length (ch_inputs c) = Suc (unat (ch_last_frame_number c))"
    using hm.len_card [OF channel_inv_hm [OF inv]] by (simp add: card_u16_le)
  with all last show "is_ready c"
    by (simp add: is_ready_def unat_u16_suc list_all_iff set_frame_range)
qed

section \<open>Reassembly in any order\<close>

text \<open>Feeding frames to a channel one by one, each with its inclusion block.\<close>

fun add_frames :: "(frame \<times> block_info) list \<Rightarrow> channel \<Rightarrow> (unit, channel_error) res \<times> channel" where
  "add_frames [] c = (Ok (), c)"
| "add_frames ((f, b) # fs) c = (case add_frame f b c of (r, c1) \<Rightarrow> rbind r c1 (\<lambda>_. add_frames fs c1))"

text \<open>A payload cut into frames numbered from 0, the last one marked.\<close>

definition split_payload :: "channel_id \<Rightarrow> frame list \<Rightarrow> bool" where
  "split_payload cid fs \<longleftrightarrow> fs \<noteq> [] \<and> length fs \<le> 65535
     \<and> (\<forall>i < length fs. fr_id (fs ! i) = cid \<and> fr_number (fs ! i) = of_nat i
          \<and> (fr_is_last (fs ! i) \<longleftrightarrow> Suc i = length fs))"

text \<open>The channel after the frames in \<open>S\<close> arrived, \<open>n\<close> being the last frame number.\<close>

definition holds_frames :: "channel_id \<Rightarrow> u16 \<Rightarrow> frame set \<Rightarrow> channel \<Rightarrow> bool" where
  "holds_frames cid n S c \<longleftrightarrow>
     ch_id c = cid \<and> channel_inv c
   \<and> (\<forall>k f. map_of (ch_inputs c) k = Some f \<longleftrightarrow> f \<in> S \<and> fr_number f = k)
   \<and> (ch_closed c \<longleftrightarrow> (\<exists>f \<in> S. fr_is_last f))
   \<and> (ch_closed c \<longrightarrow> ch_last_frame_number c = n)
   \<and> ch_highest_frame_number c \<le> n"

lemma holds_frames_add:
  assumes h: "holds_frames cid n S c"
    and f: "fr_id f = cid" "fr_number f \<le> n" "fr_is_last f \<longleftrightarrow> fr_number f = n"
    and S: "\<And>g. g \<in> S \<Longrightarrow> fr_number g \<noteq> fr_number f \<and> (fr_is_last g \<longleftrightarrow> fr_number g = n)"
  shows "\<exists>c'. add_frame f b c = (Ok (), c') \<and> holds_frames cid n (insert f S) c'"
proof -
  have open_or: "\<not> (fr_is_last f \<and> ch_closed c)"
    using h f(3) S by (auto simp: holds_frames_def)
  have fresh: "map_of (ch_inputs c) (fr_number f) = None"
    using h S by (cases "map_of (ch_inputs c) (fr_number f)") (auto simp: holds_frames_def)
  have before: "\<not> (ch_closed c \<and> ch_last_frame_number c \<le> fr_number f)"
    using h f open_or by (auto simp: holds_frames_def)
  obtain c' where ok: "add_frame f b c = (Ok (), c')"
    using h f(1) open_or fresh before
    by (auto simp: add_frame_def Let_def holds_frames_def simp del: not_None_eq)
  note F = add_frame_Ok_fields [OF ok]
  have np: "\<not> fr_number f < ch_highest_frame_number c" if "fr_is_last f"
    using h f(3) that by (auto simp: holds_frames_def)
  have "ch_inputs c' = AList.update (fr_number f) f (ch_inputs c)"
    using F(10) np by auto
  then have get: "map_of (ch_inputs c') = (map_of (ch_inputs c))(fr_number f \<mapsto> f)"
    by (simp add: update_conv')
  have "map_of (ch_inputs c') k = Some g \<longleftrightarrow> g \<in> insert f S \<and> fr_number g = k" for k g
    using h S by (auto simp: get holds_frames_def)
  moreover have "channel_inv c'"
    using h by (auto intro: channel_inv_add_frame [OF _ ok] simp: holds_frames_def)
  ultimately have "holds_frames cid n (insert f S) c'"
    using h f np F(5,7,8,9) by (auto simp: holds_frames_def max_def split: if_splits)
  with ok show ?thesis by blast
qed

lemma add_frames_holds:
  assumes "holds_frames cid n S c" and "distinct (map (fr_number \<circ> fst) gs)"
    and "\<And>f. f \<in> fst ` set gs \<Longrightarrow> fr_id f = cid \<and> fr_number f \<le> n \<and> (fr_is_last f \<longleftrightarrow> fr_number f = n)"
    and "\<And>f g. f \<in> fst ` set gs \<Longrightarrow> g \<in> S \<Longrightarrow> fr_number g \<noteq> fr_number f"
    and "\<And>g. g \<in> S \<Longrightarrow> fr_is_last g \<longleftrightarrow> fr_number g = n"
  shows "\<exists>c'. add_frames gs c = (Ok (), c') \<and> holds_frames cid n (S \<union> fst ` set gs) c'"
  using assms
proof (induction gs arbitrary: S c)
  case Nil
  then show ?case by auto
next
  case (Cons p gs)
  obtain f b where p: "p = (f, b)" by fastforce
  obtain c1 where c1: "add_frame f b c = (Ok (), c1)" "holds_frames cid n (insert f S) c1"
  proof -
    have fm: "f \<in> fst ` set (p # gs)" by (simp add: p)
    have "\<exists>c'. add_frame f b c = (Ok (), c') \<and> holds_frames cid n (insert f S) c'"
      using Cons.prems(3) [OF fm] Cons.prems(4) [OF fm] Cons.prems(5)
      by (intro holds_frames_add [OF Cons.prems(1)]) simp_all
    then show thesis using that by blast
  qed
  have "\<exists>c'. add_frames gs c1 = (Ok (), c') \<and> holds_frames cid n (insert f S \<union> fst ` set gs) c'"
  proof (rule Cons.IH [OF c1(2)])
    show "distinct (map (fr_number \<circ> fst) gs)" using Cons.prems(2) by (simp add: comp_def)
  next
    fix g assume "g \<in> fst ` set gs"
    then have "g \<in> fst ` set (p # gs)" by auto
    then show "fr_id g = cid \<and> fr_number g \<le> n \<and> (fr_is_last g \<longleftrightarrow> fr_number g = n)"
      by (rule Cons.prems(3))
  next
    fix g g' assume g: "g \<in> fst ` set gs" and g': "g' \<in> insert f S"
    have "fr_number g \<noteq> fr_number f"
      using Cons.prems(2) g p by (force simp: comp_def image_iff)
    then show "fr_number g' \<noteq> fr_number g"
      using g g' Cons.prems(4) [of g g'] by auto
  next
    fix g assume "g \<in> insert f S"
    then show "fr_is_last g \<longleftrightarrow> fr_number g = n" 
      using Cons.prems(3) [of f] Cons.prems(5) [of g] by (cases "g = f") (simp_all add: p)
  qed
  with c1(1) p show ?case by simp
qed

lemma split_payload_frames:
  assumes "split_payload cid fs" and "f \<in> set fs"
  defines "n \<equiv> of_nat (length fs - 1) :: u16"
  shows "fr_id f = cid" and "fr_number f \<le> n" and "fr_is_last f \<longleftrightarrow> fr_number f = n"
proof -
  obtain i where i: "i < length fs" "f = fs ! i" using assms(2) by (auto simp: in_set_conv_nth)
  have lt: "length fs - 1 < 65535" "i \<le> length fs - 1" using assms(1) i by (auto simp: split_payload_def)
  have un: "unat n = length fs - 1" "unat (of_nat i :: u16) = i"
    using lt by (simp_all add: n_def unat_of_nat)
  show "fr_id f = cid" using assms(1) i by (simp add: split_payload_def)
  have num: "fr_number f = of_nat i" using assms(1) i by (simp add: split_payload_def)
  show "fr_number f \<le> n" using un lt by (simp add: num word_le_nat_alt)
  have "fr_number f = n \<longleftrightarrow> i = length fs - 1"
    using un by (simp add: num word_unat_eq_iff)
  then show "fr_is_last f \<longleftrightarrow> fr_number f = n"
    using assms(1) i by (auto simp: split_payload_def)
qed

lemma split_payload_numbers:
  assumes "split_payload cid fs"
  shows "map fr_number fs = frame_range (of_nat (length fs - 1))"
proof -
  obtain m where m: "length fs = Suc m" "m < 65535"
    using assms by (cases "length fs") (auto simp: split_payload_def)
  then have "unat (of_nat m :: u16) = m" by (simp add: unat_of_nat)
  moreover have "map fr_number fs = map of_nat [0..<Suc m]"
    using m assms by (intro nth_equalityI) (auto simp: split_payload_def simp del: upt_Suc)
  ultimately show ?thesis by (simp add: frame_range_def m del: upt_Suc)
qed

lemma add_frames_reassembly:
  assumes split: "split_payload cid fs" and perm: "mset (map fst gs) = mset fs"
  shows "\<exists>c. add_frames gs (channel_new cid blk) = (Ok (), c) \<and> is_ready c
           \<and> frame_data c = Some (concat (map fr_data fs))"
proof -
  define n where "n = (of_nat (length fs - 1) :: u16)"
  have set_gs: "fst ` set gs = set fs" using perm by (metis set_map set_mset_mset)
  have dist: "distinct (map fr_number fs)"
    using split_payload_numbers [OF split] distinct_frame_range by simp
  have "mset (map (fr_number \<circ> fst) gs) = mset (map fr_number fs)"
    using perm by (metis map_map mset_map)
  then have dgs: "distinct (map (fr_number \<circ> fst) gs)"
    using dist by (metis mset_eq_imp_distinct_iff)
  have "holds_frames cid n {} (channel_new cid blk)"
    by (simp add: holds_frames_def channel_inv_new) (simp add: channel_new_def)
  from add_frames_holds [OF this dgs]
  obtain c where ok: "add_frames gs (channel_new cid blk) = (Ok (), c)"
    and hold: "holds_frames cid n (set fs) c"
    using split_payload_frames [OF split] by (auto simp: set_gs n_def)
  have "last fs \<in> set fs" "fr_is_last (last fs)"
    using split by (auto simp: split_payload_def last_conv_nth)
  then have closed: "ch_closed c" and last: "ch_last_frame_number c = n"
    using hold by (auto simp: holds_frames_def)
  have get: "map_of (ch_inputs c) (fr_number f) = Some f" if "f \<in> set fs" for f
    using hold that by (auto simp: holds_frames_def)
  have nums: "map fr_number fs = frame_range n"
    using split_payload_numbers [OF split] by (simp add: n_def)
  have "\<forall>i \<le> n. map_of (ch_inputs c) i \<noteq> None"
  proof (intro allI impI)
    fix i assume "i \<le> n"
    then have "i \<in> set (map fr_number fs)" using nums set_frame_range [of n] by simp
    then show "map_of (ch_inputs c) i \<noteq> None" using get by auto
  qed
  moreover have "n \<noteq> 65535"
  proof
    assume "n = 65535"
    then have "unat n = 65535" by simp
    moreover have "unat n = length fs - 1" "length fs - 1 < 65535"
      using split by (auto simp: n_def unat_of_nat split_payload_def)
    ultimately show False by simp
  qed
  moreover have "channel_inv c" using hold by (simp add: holds_frames_def)
  ultimately have ready: "is_ready c" using closed last by (simp add: ready_iff_complete)
  have "map (\<lambda>i. fr_data (the (map_of (ch_inputs c) i))) (frame_range n) = map fr_data fs"
    using get by (simp flip: nums)
  with ready_frame_data [OF ready] last have "frame_data c = Some (concat (map fr_data fs))" by simp
  with ok ready show ?thesis by blast
qed

section \<open>The size estimate\<close>

lemma inputs_size_update:
  "map_of m k = None \<Longrightarrow> inputs_size (AList.update k f m) = inputs_size m + frame_size f"
  by (simp add: update_fresh inputs_size_def)

lemma add_frame_size:
  assumes "add_frame f blk c = (Ok (), c')" and "ch_estimated_size c = inputs_size (ch_inputs c)"
  shows "ch_estimated_size c' =
    (if fr_is_last f \<and> fr_number f < ch_highest_frame_number c then frame_size f
     else inputs_size (ch_inputs c'))"
  using add_frame_Ok_fields(2,10,11) [OF assms(1)] assms(2)
  by (auto simp: inputs_size_update)

section \<open>Properties\<close>

definition ex_frame :: "u16 \<Rightarrow> bytes \<Rightarrow> bool \<Rightarrow> frame" where
  "ex_frame n d l = \<lparr>fr_id = replicate 16 255, fr_number = n, fr_data = d, fr_is_last = l\<rparr>"

definition ex_channel :: channel where
  "ex_channel = channel_new (replicate 16 255) default_block_info"

lemmas ex_defs = ex_frame_def ex_channel_def channel_new_def default_block_info_def

text \<open>
  C1: the frames of a payload cut into at most 65535 numbered frames can be delivered in
  any order, each in any L1 block: the channel accepts every one, is ready after the last
  has arrived, and then yields exactly the payload.
\<close>

theorem channel_reassembles_any_order:
  assumes "split_payload cid fs" and "mset (map fst gs) = mset fs"
  shows "\<exists>c. add_frames gs (channel_new cid blk) = (Ok (), c) \<and> is_ready c
           \<and> frame_data c = Some (concat (map fr_data fs))"
  using assms by (rule add_frames_reassembly)

theorem channel_reassembles_any_order_witness:
  "\<exists>c. add_frames [(ex_frame 1 [3] True, default_block_info), (ex_frame 0 [1, 2] False, default_block_info)]
         (channel_new (replicate 16 255) default_block_info) = (Ok (), c) \<and> is_ready c
       \<and> frame_data c = Some (concat (map fr_data [ex_frame 0 [1, 2] False, ex_frame 1 [3] True]))"
proof (rule channel_reassembles_any_order)
  show "split_payload (replicate 16 255) [ex_frame 0 [1, 2] False, ex_frame 1 [3] True]"
    by (auto simp: split_payload_def ex_frame_def less_Suc_eq numeral_2_eq_2)
  show "mset (map fst [(ex_frame 1 [3] True, default_block_info), (ex_frame 0 [1, 2] False, default_block_info)])
     = mset [ex_frame 0 [1, 2] False, ex_frame 1 [3] True]" by simp
qed

text \<open>
  Every accepted frame keeps the channel invariant: one frame per number, all of this
  channel, none past the closing frame, and exactly the frame with the last number marked
  as last. A rejected frame leaves the channel as it was.
\<close>

theorem add_frame_keeps_invariant:
  assumes "channel_inv c"
  shows "case add_frame f blk c of (Ok _, c') \<Rightarrow> channel_inv c' | (Err _, c') \<Rightarrow> c' = c | (Panic, _) \<Rightarrow> False"
  using channel_inv_add_frame [OF assms] add_frame_Err_unchanged
  by (auto split: res.splits prod.splits)

theorem add_frame_keeps_invariant_witness:
  "channel_inv ex_channel \<and>
   (case add_frame (ex_frame 3 [] True) default_block_info ex_channel of
      (Ok _, c') \<Rightarrow> channel_inv c' | (Err _, c') \<Rightarrow> c' = ex_channel | (Panic, _) \<Rightarrow> False)"
proof -
  have "channel_inv ex_channel" unfolding ex_channel_def by (rule channel_inv_new)
  then show ?thesis by (intro conjI add_frame_keeps_invariant)
qed

text \<open>
  A frame is rejected exactly when it is of another channel, closes a closed channel,
  repeats a number, or lies at or past the end of a closed channel; the error names the
  first of these that applies.
\<close>

theorem add_frame_rejects:
  "fst (add_frame f blk c) =
     (if fr_id f \<noteq> ch_id c then Err FrameIdMismatch
      else if fr_is_last f \<and> ch_closed c then Err ChannelClosed
      else if fr_number f \<in> fst ` set (ch_inputs c) then Err (FrameNumberExists (unat (fr_number f)))
      else if ch_closed c \<and> ch_last_frame_number c \<le> fr_number f
        then Err (FrameBeyondEndFrame (unat (fr_number f)))
      else Ok ())"
  by (auto simp: add_frame_def Let_def map_of_eq_None_iff)

text \<open>
  Readiness is completeness. A ready channel always has data to read; and unless the
  last frame number is 65535, a channel is ready exactly when it is closed and holds every
  frame up to the last.
\<close>

theorem ready_means_complete:
  assumes "channel_inv c"
  shows "(is_ready c \<longrightarrow> frame_data c \<noteq> None) \<and>
    (ch_last_frame_number c \<noteq> 65535 \<longrightarrow>
       is_ready c = (ch_closed c \<and> set (frame_range (ch_last_frame_number c)) = fst ` set (ch_inputs c)))"
proof (intro conjI impI)
  assume "is_ready c"
  then show "frame_data c \<noteq> None" by (simp add: ready_frame_data)
next
  assume "ch_last_frame_number c \<noteq> 65535"
  from ready_iff_complete [OF assms this] closed_keys [OF assms]
  show "is_ready c = (ch_closed c \<and> set (frame_range (ch_last_frame_number c)) = fst ` set (ch_inputs c))"
    by (auto simp: set_frame_range dom_map_of_conv_image_fst map_of_eq_None_iff)
qed

theorem ready_means_complete_witness:
  "is_ready ex_channel = (ch_closed ex_channel \<and>
     set (frame_range (ch_last_frame_number ex_channel)) = fst ` set (ch_inputs ex_channel))"
proof -
  have "channel_inv ex_channel" unfolding ex_channel_def by (rule channel_inv_new)
  moreover have "ch_last_frame_number ex_channel \<noteq> 65535" by (simp add: ex_channel_def channel_new_def)
  ultimately show ?thesis using ready_means_complete by blast
qed

text \<open>
  A channel whose closing frame has number 65535 is never ready, even with all 65536
  frames buffered: \<open>last_frame_number + 1\<close> wraps to 0 in \<open>u16\<close>, and a closed channel is
  not empty.
\<close>

theorem full_channel_never_ready:
  assumes "channel_inv c" and "ch_last_frame_number c = 65535"
  shows "\<not> is_ready c"
proof
  assume ready: "is_ready c"
  then have "ch_closed c" by (simp add: is_ready_def split: if_splits)
  then have "ch_inputs c \<noteq> []" using assms(1) by (auto simp: channel_inv_def)
  moreover have "length (ch_inputs c) = unat (65535 + 1 :: u16)"
    using ready assms(2) by (simp add: is_ready_def split: if_splits)
  ultimately show False by simp
qed

theorem full_channel_never_ready_witness:
  "\<not> is_ready (snd (add_frame (ex_frame 65535 [] True) default_block_info ex_channel))"
proof (rule full_channel_never_ready)
  have "channel_inv ex_channel" unfolding ex_channel_def by (rule channel_inv_new)
  moreover have "add_frame (ex_frame 65535 [] True) default_block_info ex_channel
    = (Ok (), snd (add_frame (ex_frame 65535 [] True) default_block_info ex_channel))"
    by (simp add: add_frame_def Let_def close_channel_def ex_defs)
  ultimately show "channel_inv (snd (add_frame (ex_frame 65535 [] True) default_block_info ex_channel))"
    by (rule channel_inv_add_frame)
  show "ch_last_frame_number (snd (add_frame (ex_frame 65535 [] True) default_block_info ex_channel)) = 65535"
    by (simp add: add_frame_def Let_def close_channel_def ex_defs)
qed

text \<open>
  While no closing frame prunes the channel, the size estimate is the sum of the
  buffered frame sizes. A closing frame below the highest number seen makes the estimate
  the size of that frame alone, although the frames before it stay buffered: the
  \<open>retain\<close> closure subtracts the sizes of the frames it keeps too.
\<close>

theorem size_estimate:
  assumes "add_frame f blk c = (Ok (), c')" and "channel_size c = inputs_size (ch_inputs c)"
  shows "channel_size c' =
    (if fr_is_last f \<and> fr_number f < ch_highest_frame_number c then frame_size f
     else inputs_size (ch_inputs c'))"
  using add_frame_size [OF assms(1)] assms(2) by (simp add: channel_size_def)

theorem size_estimate_witness:
  "\<exists>c c'. add_frame (ex_frame 1 [] True) default_block_info c = (Ok (), c')
     \<and> channel_size c' = 200 \<and> inputs_size (ch_inputs c') = 400"
proof -
  define c where "c = snd (add_frames [(ex_frame 0 [] False, default_block_info),
                                       (ex_frame 5 [] False, default_block_info)] ex_channel)"
  define c' where "c' = snd (add_frame (ex_frame 1 [] True) default_block_info c)"
  have c: "ch_inputs c = [(0, ex_frame 0 [] False), (5, ex_frame 5 [] False)]"
    "ch_highest_frame_number c = 5" "channel_size c = 400" "\<not> ch_closed c"
    "ch_id c = replicate 16 255"
    by (simp_all add: c_def add_frame_def Let_def ex_defs frame_size_def FRAME_OVERHEAD_def channel_size_def)
  have ok: "add_frame (ex_frame 1 [] True) default_block_info c = (Ok (), c')"
    using c by (simp add: c'_def add_frame_def Let_def ex_frame_def)
  have eq: "channel_size c = inputs_size (ch_inputs c)"
    using c by (simp add: inputs_size_def frame_size_def ex_frame_def FRAME_OVERHEAD_def)
  have "channel_size c' = 200"
    using size_estimate [OF ok eq] c
    by (simp add: ex_frame_def frame_size_def FRAME_OVERHEAD_def)
  moreover have "inputs_size (ch_inputs c') = 400"
    using add_frame_Ok_fields(10) [OF ok] c
    by (simp add: ex_frame_def inputs_size_def frame_size_def FRAME_OVERHEAD_def)
  ultimately show ?thesis using ok by blast
qed

end
