(* ===== verification/Stages.thy ===== *)
theory Stages
  imports Types
begin

text \<open>
  The interface between the stages of the derivation pipeline. A Rust stage is generic in
  the stage below it; the trait methods it calls (\<open>OriginProvider\<close>, \<open>OriginAdvancer\<close>,
  \<open>SignalReceiver\<close> of \<^verbatim>\<open>derive/src/traits\<close> and the pulling method of the stage) are a record
  of functions over the state of the lower stage here, and every method of a stage takes
  that record.

  The locale states what the upper stages rely on: pulling data never moves the L1 origin,
  advancing moves it along a parent hash link or not at all, a reset sets it, and a flush
  keeps it. Every stage is shown to keep the contract of the stage below it.
\<close>

record ('p, 'd) stage =
  st_next :: "'p \<Rightarrow> 'd presult \<times> 'p"
  st_origin :: "'p \<Rightarrow> block_info option"
  st_advance :: "'p \<Rightarrow> unit presult \<times> 'p"
  st_signal :: "signal \<Rightarrow> 'p \<Rightarrow> unit presult \<times> 'p"

text \<open>The L1 origin a signal carries.\<close>

fun signal_origin :: "signal \<Rightarrow> block_info option" where
  "signal_origin (SigReset r) = Some (sig_l1_origin r)"
| "signal_origin (SigActivation r) = Some (sig_l1_origin r)"
| "signal_origin FlushChannel = None"

text \<open>\<open>b'\<close> extends \<open>b\<close> on the L1 chain.\<close>

definition extends :: "block_info \<Rightarrow> block_info \<Rightarrow> bool" where
  "extends b b' \<longleftrightarrow> bi_parent_hash b' = bi_hash b"

definition advances :: "block_info option \<Rightarrow> block_info option \<Rightarrow> bool" where
  "advances o1 o2 = (case (o1, o2) of (Some b, Some b') \<Rightarrow> extends b b' | _ \<Rightarrow> False)"

section \<open>Successive pulls\<close>

text \<open>The answers of \<open>n\<close> calls of a pulling method.\<close>

primrec pulls :: "nat \<Rightarrow> ('s \<Rightarrow> 'r \<times> 's) \<Rightarrow> 's \<Rightarrow> 'r list" where
  "pulls 0 f s = []"
| "pulls (Suc n) f s = fst (f s) # pulls n f (snd (f s))"

lemma length_pulls [simp]: "length (pulls n f s) = n"
  by (induction n arbitrary: s) auto

lemma eval_pulls:
  "pulls 1 f s = [fst (f s)]"
  "pulls 2 f s = fst (f s) # pulls 1 f (snd (f s))"
  "pulls 3 f s = fst (f s) # pulls 2 f (snd (f s))"
  by (simp_all add: numeral_eq_Suc)

primrec after_pulls :: "nat \<Rightarrow> ('s \<Rightarrow> 'r \<times> 's) \<Rightarrow> 's \<Rightarrow> 's" where
  "after_pulls 0 f s = s"
| "after_pulls (Suc n) f s = after_pulls n f (snd (f s))"

lemma pulls_append: "pulls (m + n) f s = pulls m f s @ pulls n f (after_pulls m f s)"
  by (induction m arbitrary: s) auto

section \<open>The contract of a stage\<close>

text \<open>\<open>inv\<close> is the invariant of the stage, kept by every method.\<close>

locale origin_stable =
  fixes P :: "('p, 'd) stage"
    and inv :: "'p \<Rightarrow> bool"
  assumes pull_inv: "inv s \<Longrightarrow> inv (snd (st_next P s))"
    and pull_origin: "inv s \<Longrightarrow> st_origin P (snd (st_next P s)) = st_origin P s"
begin

lemma pulls_keep: "inv s \<Longrightarrow> inv (after_pulls n (st_next P) s) \<and> st_origin P (after_pulls n (st_next P) s) = st_origin P s"
  by (induction n arbitrary: s) (auto simp: pull_inv pull_origin)

lemma pulled_keeps:
  "\<lbrakk> inv s; \<exists>n. t = after_pulls n (st_next P) s \<rbrakk> \<Longrightarrow> inv t \<and> st_origin P t = st_origin P s"
  using pulls_keep by blast

end

locale stage_contract = origin_stable +
  assumes advance_inv: "inv s \<Longrightarrow> inv (snd (st_advance P s))"
    and signal_inv: "inv s \<Longrightarrow> inv (snd (st_signal P sg s))"
    and advance_Ok: "\<lbrakk> inv s; fst (st_advance P s) = Ok () \<rbrakk> \<Longrightarrow>
           advances (st_origin P s) (st_origin P (snd (st_advance P s)))"
    and advance_not_Ok: "\<lbrakk> inv s; fst (st_advance P s) \<noteq> Ok () \<rbrakk> \<Longrightarrow>
           st_origin P (snd (st_advance P s)) = st_origin P s"
    and signal_Ok: "\<lbrakk> inv s; fst (st_signal P sg s) = Ok () \<rbrakk> \<Longrightarrow>
           st_origin P (snd (st_signal P sg s)) =
             (case signal_origin sg of None \<Rightarrow> st_origin P s | Some b \<Rightarrow> Some b)"

text \<open>
  A stage over another one: it keeps the lower stage in its state, answers \<open>origin\<close> and
  \<open>advance_origin\<close> by forwarding, and handles a signal by forwarding it first and then
  changing its own fields only; a flush it may keep to itself. Pulling from it keeps the
  invariant and the origin of the lower stage.
\<close>

locale stage_over = low: stage_contract P inv for P :: "('p, 'd) stage" and inv +
  fixes Q :: "('q, 'e) stage"
    and below :: "'q \<Rightarrow> 'p"
    and own :: "'q \<Rightarrow> bool"
  assumes origin_forward: "st_origin Q q = st_origin P (below q)"
    and pull_below: "\<lbrakk> own q; inv (below q) \<rbrakk> \<Longrightarrow>
           inv (below (snd (st_next Q q))) \<and> st_origin P (below (snd (st_next Q q))) = st_origin P (below q)"
    and advance_res: "fst (st_advance Q q) = fst (st_advance P (below q))"
    and advance_below: "below (snd (st_advance Q q)) = snd (st_advance P (below q))"
    and signal_forward:
      "(fst (st_signal Q sg q) = Ok () \<longrightarrow> fst (st_signal P sg (below q)) = Ok ())
         \<and> below (snd (st_signal Q sg q)) = snd (st_signal P sg (below q))
       \<or> signal_origin sg = None \<and> below (snd (st_signal Q sg q)) = below q"
    and own_pull: "own q \<Longrightarrow> own (snd (st_next Q q))"
    and own_advance: "own q \<Longrightarrow> own (snd (st_advance Q q))"
    and own_signal: "own q \<Longrightarrow> own (snd (st_signal Q sg q))"

sublocale stage_over \<subseteq> stage_contract Q "\<lambda>q. own q \<and> inv (below q)"
proof
  fix s
  assume inv: "own s \<and> inv (below s)"
  then have "inv (below (snd (st_next Q s))) \<and> st_origin P (below (snd (st_next Q s))) = st_origin P (below s)"
    using pull_below by blast
  with inv show "own (snd (st_next Q s)) \<and> inv (below (snd (st_next Q s)))"
    and "st_origin Q (snd (st_next Q s)) = st_origin Q s"
    by (simp_all add: own_pull origin_forward)
next
  fix s
  assume inv: "own s \<and> inv (below s)"
  then show "own (snd (st_advance Q s)) \<and> inv (below (snd (st_advance Q s)))"
    by (simp add: own_advance advance_below low.advance_inv)
  show "own (snd (st_signal Q sg s)) \<and> inv (below (snd (st_signal Q sg s)))" for sg
    using inv signal_forward [of sg s] low.signal_inv [of "below s" sg] by (auto simp: own_signal)
  show "st_origin Q (snd (st_advance Q s)) = st_origin Q s" if "fst (st_advance Q s) \<noteq> Ok ()"
    using inv that by (simp add: origin_forward advance_below advance_res low.advance_not_Ok)
  show "advances (st_origin Q s) (st_origin Q (snd (st_advance Q s)))" if "fst (st_advance Q s) = Ok ()"
    using inv that by (simp add: origin_forward advance_below advance_res low.advance_Ok)
  show "st_origin Q (snd (st_signal Q sg s)) =
      (case signal_origin sg of None \<Rightarrow> st_origin Q s | Some b \<Rightarrow> Some b)"
    if "fst (st_signal Q sg s) = Ok ()" for sg
    using inv that signal_forward [of sg s] low.signal_Ok [of "below s" sg]
    by (auto simp: origin_forward split: option.splits)
qed

end
