(* ===== verification/Sources.thy ===== *)
theory Sources
  imports Stages
begin

text \<open>
  The data sources of \<^verbatim>\<open>derive/src/sources\<close>: \<open>CalldataSource\<close> reads the batcher's
  transactions of an L1 block, \<open>DAServerSource\<close> resolves each of them as a commitment
  against the data availability server, and \<open>EthereumDataSource\<close> is the latter.
\<close>

section \<open>Definitions\<close>

record calldata_source =
  cs_batch_inbox_address :: address
  cs_calldata :: "bytes list"
  cs_open :: bool

definition calldata_source_new :: "address \<Rightarrow> calldata_source" where
  "calldata_source_new a = \<lparr>cs_batch_inbox_address = a, cs_calldata = [], cs_open = False\<rparr>"

text \<open>The \<open>filter_map\<close> closure of \<open>load_calldata\<close>.\<close>

definition batcher_input :: "address \<Rightarrow> address \<Rightarrow> l1_transaction \<Rightarrow> bytes option" where
  "batcher_input inbox batcher tx =
     (case tx_to tx of
        None \<Rightarrow> None
      | Some to \<Rightarrow>
          if to \<noteq> inbox then None
          else if tx_from tx \<noteq> batcher then None
          else Some (tx_input tx))"

definition load_calldata ::
  "chain_provider \<Rightarrow> block_info \<Rightarrow> address \<Rightarrow> calldata_source \<Rightarrow> unit presult \<times> calldata_source" where
  "load_calldata cp block_ref batcher s =
     (if cs_open s then (Ok (), s)
      else rbind (cp_get_block_transactions_by_hash cp (bi_hash block_ref)) s (\<lambda>txs.
        (Ok (), s\<lparr>cs_calldata := List.map_filter (batcher_input (cs_batch_inbox_address s) batcher) txs,
                  cs_open := True\<rparr>)))"

definition calldata_next ::
  "chain_provider \<Rightarrow> block_info \<Rightarrow> address \<Rightarrow> calldata_source \<Rightarrow> bytes presult \<times> calldata_source" where
  "calldata_next cp block_ref batcher s =
     (case load_calldata cp block_ref batcher s of
        (Err e, s') \<Rightarrow> (Err e, s')
      | (Panic, s') \<Rightarrow> (Panic, s')
      | (Ok _, s') \<Rightarrow>
          (case cs_calldata s' of
             [] \<Rightarrow> (Err (temp Eof), s')
           | d # ds \<Rightarrow> (Ok d, s'\<lparr>cs_calldata := ds\<rparr>)))"

definition calldata_clear :: "calldata_source \<Rightarrow> calldata_source" where
  "calldata_clear s = s\<lparr>cs_calldata := [], cs_open := False\<rparr>"

record da_server_source =
  ds_calldata_source :: calldata_source
  ds_data :: "bytes list"

definition da_server_source_new :: "address \<Rightarrow> da_server_source" where
  "da_server_source_new a = \<lparr>ds_calldata_source = calldata_source_new a, ds_data = []\<rparr>"

definition load_da_server_data ::
  "da_provider \<Rightarrow> bytes \<Rightarrow> da_server_source \<Rightarrow> unit presult \<times> da_server_source" where
  "load_da_server_data dap commitment s =
     rbind (da_get_input dap commitment) s (\<lambda>image_data.
       (Ok (), s\<lparr>ds_data := ds_data s @ [image_data]\<rparr>))"

definition da_server_next ::
  "chain_provider \<Rightarrow> da_provider \<Rightarrow> block_info \<Rightarrow> address \<Rightarrow> da_server_source
     \<Rightarrow> bytes presult \<times> da_server_source" where
  "da_server_next cp dap block_ref batcher s =
     (let (r, cs) = calldata_next cp block_ref batcher (ds_calldata_source s);
          s1 = s\<lparr>ds_calldata_source := cs\<rparr> in
      rbind r s1 (\<lambda>commitment.
        let (r2, s2) = load_da_server_data dap commitment s1 in
        rbind r2 s2 (\<lambda>_.
          case ds_data s2 of
            [] \<Rightarrow> (Err (temp Eof), s2)
          | d # ds \<Rightarrow> (Ok d, s2\<lparr>ds_data := ds\<rparr>))))"

definition da_server_clear :: "da_server_source \<Rightarrow> da_server_source" where
  "da_server_clear s = s\<lparr>ds_data := [], ds_calldata_source := calldata_clear (ds_calldata_source s)\<rparr>"

text \<open>\<open>EthereumDataSource\<close> keeps the inbox address beside the DA source it forwards to.\<close>

record ethereum_data_source =
  es_batch_inbox_address :: address
  es_da_source :: da_server_source

definition ethereum_data_source_new :: "rollup_config \<Rightarrow> ethereum_data_source" where
  "ethereum_data_source_new cfg =
     \<lparr>es_batch_inbox_address = rc_batch_inbox_address cfg,
      es_da_source = da_server_source_new (rc_batch_inbox_address cfg)\<rparr>"

definition ethereum_next ::
  "chain_provider \<Rightarrow> da_provider \<Rightarrow> block_info \<Rightarrow> address \<Rightarrow> ethereum_data_source
     \<Rightarrow> bytes presult \<times> ethereum_data_source" where
  "ethereum_next cp dap block_ref batcher s =
     (let (r, d) = da_server_next cp dap block_ref batcher (es_da_source s)
      in (r, s\<lparr>es_da_source := d\<rparr>))"

definition ethereum_clear :: "ethereum_data_source \<Rightarrow> ethereum_data_source" where
  "ethereum_clear s = s\<lparr>es_da_source := da_server_clear (es_da_source s)\<rparr>"

section \<open>Lemmas\<close>

definition batcher_inputs :: "address \<Rightarrow> address \<Rightarrow> l1_transaction list \<Rightarrow> bytes list" where
  "batcher_inputs inbox batcher txs =
     map tx_input (filter (\<lambda>tx. tx_to tx = Some inbox \<and> tx_from tx = batcher) txs)"

lemma map_filter_batcher_input: "List.map_filter (batcher_input inbox batcher) txs = batcher_inputs inbox batcher txs"
  by (induction txs) (auto simp: batcher_inputs_def batcher_input_def List.map_filter_simps split: option.splits)

lemma calldata_next_open:
  "cs_open s \<Longrightarrow> calldata_next cp blk batcher s =
     (case cs_calldata s of [] \<Rightarrow> (Err (temp Eof), s) | d # ds \<Rightarrow> (Ok d, s\<lparr>cs_calldata := ds\<rparr>))"
  by (simp add: calldata_next_def load_calldata_def)

lemma pulls_open_calldata:
  "cs_open s \<Longrightarrow> pulls (Suc (length (cs_calldata s))) (calldata_next cp blk batcher) s
     = map Ok (cs_calldata s) @ [Err (temp Eof)]"
proof (induction "cs_calldata s" arbitrary: s)
  case Nil
  then have "cs_calldata s = []" by simp
  with Nil(2) show ?case by (simp add: calldata_next_open)
next
  case (Cons d ds)
  from Cons(2) have cd: "cs_calldata s = d # ds" by simp
  have "pulls (Suc (length ds)) (calldata_next cp blk batcher) (s\<lparr>cs_calldata := ds\<rparr>) = map Ok ds @ [Err (temp Eof)]"
    using Cons(1) [of "s\<lparr>cs_calldata := ds\<rparr>"] Cons(3) by simp
  with cd Cons(3) show ?case by (simp add: calldata_next_open)
qed

lemma pulls_closed_calldata:
  assumes "\<not> cs_open s" and "cp_get_block_transactions_by_hash cp (bi_hash blk) = Ok txs"
  shows "pulls (Suc n) (calldata_next cp blk batcher) s =
     pulls (Suc n) (calldata_next cp blk batcher)
       (s\<lparr>cs_calldata := batcher_inputs (cs_batch_inbox_address s) batcher txs, cs_open := True\<rparr>)"
  using assms by (simp add: calldata_next_def load_calldata_def map_filter_batcher_input)

section \<open>Properties\<close>

text \<open>
  Pulling from a cleared calldata source delivers the input of every transaction of the
  block that the batcher sent to the inbox, in block order and nothing else, and then
  end-of-file.
\<close>

theorem calldata_delivers_batcher_inputs:
  assumes "cp_get_block_transactions_by_hash cp (bi_hash blk) = Ok txs"
    and "ds = batcher_inputs (cs_batch_inbox_address s) batcher txs"
  shows "pulls (Suc (length ds)) (calldata_next cp blk batcher) (calldata_clear s) = map Ok ds @ [Err (temp Eof)]"
  using pulls_closed_calldata [of "calldata_clear s" cp blk txs "length ds" batcher] assms
    pulls_open_calldata [of "calldata_clear s\<lparr>cs_calldata := ds, cs_open := True\<rparr>" cp blk batcher]
  by (simp add: calldata_clear_def)

definition ex_tx :: "u8 \<Rightarrow> u8 \<Rightarrow> bytes \<Rightarrow> l1_transaction" where
  "ex_tx from to inp = \<lparr>tx_hash = zero_hash, tx_from = [from], tx_input = inp, tx_to = Some [to]\<rparr>"

definition ex_chain :: "l1_transaction list \<Rightarrow> chain_provider" where
  "ex_chain txs =
     \<lparr>cp_block_info_by_number = (\<lambda>n. Ok default_block_info),
      cp_block_info_by_hash = (\<lambda>h. Ok default_block_info),
      cp_receipts_by_hash = (\<lambda>h. Ok []),
      cp_get_block_transactions_by_hash = (\<lambda>h. Ok txs)\<rparr>"

theorem calldata_delivers_batcher_inputs_witness:
  "pulls 3 (calldata_next (ex_chain [ex_tx 1 2 [5], ex_tx 9 2 [6], ex_tx 1 2 [7]]) default_block_info [1])
     (calldata_clear (calldata_source_new [2])) = [Ok [5], Ok [7], Err (temp Eof)]"
  using calldata_delivers_batcher_inputs
    [of "ex_chain [ex_tx 1 2 [5], ex_tx 9 2 [6], ex_tx 1 2 [7]]" default_block_info _ "[[5], [7]]"
        "calldata_source_new [2]" "[1]"]
  by (simp add: ex_chain_def ex_tx_def batcher_inputs_def calldata_source_new_def numeral_3_eq_3)

text \<open>
  When the data availability server fails, the commitment that was being resolved is
  gone from the queue although no data was delivered for it: a retry continues with the
  next transaction of the block.
\<close>

theorem da_failure_drops_commitment:
  assumes "cs_open (ds_calldata_source s)" and "cs_calldata (ds_calldata_source s) = c # cs"
    and "da_get_input dap c = Err e"
  shows "da_server_next cp dap blk batcher s =
     (Err e, s\<lparr>ds_calldata_source := (ds_calldata_source s)\<lparr>cs_calldata := cs\<rparr>\<rparr>)"
  using assms by (simp add: da_server_next_def calldata_next_open load_da_server_data_def)

theorem da_failure_drops_commitment_witness:
  "da_server_next (ex_chain []) \<lparr>da_get_input = (\<lambda>c. Err (temp (Provider ''unavailable'')))\<rparr> default_block_info [1]
     \<lparr>ds_calldata_source = \<lparr>cs_batch_inbox_address = [2], cs_calldata = [[5], [7]], cs_open = True\<rparr>, ds_data = []\<rparr>
   = (Err (temp (Provider ''unavailable'')),
      \<lparr>ds_calldata_source = \<lparr>cs_batch_inbox_address = [2], cs_calldata = [[7]], cs_open = True\<rparr>, ds_data = []\<rparr>)"
  using da_failure_drops_commitment
    [of "\<lparr>ds_calldata_source = \<lparr>cs_batch_inbox_address = [2], cs_calldata = [[5], [7]], cs_open = True\<rparr>, ds_data = []\<rparr>"
        "[5]" "[[7]]" "\<lparr>da_get_input = (\<lambda>c. Err (temp (Provider ''unavailable'')))\<rparr>" _
        "ex_chain []" default_block_info "[1]"]
  by simp

end
