(* ===== verification/System_Config.thy ===== *)
theory System_Config
  imports Types
begin

text \<open>
  The L1 system configuration (\<^verbatim>\<open>primitives/src/system\<close> and \<^verbatim>\<open>primitives/src/system_update\<close>):
  \<open>ConfigUpdate\<close> logs of the system config contract are decoded and applied while the
  pipeline walks the L1 chain. ABI decoding is third-party code (\<^verbatim>\<open>alloy_sol_types\<close>) and a
  parameter of the model.
\<close>

section \<open>Definitions\<close>

record abi_decoder =
  abi_uint64 :: "bytes \<Rightarrow> u64 option"
  abi_uint256 :: "bytes \<Rightarrow> 256 word option"
  abi_address :: "bytes \<Rightarrow> address option"

datatype system_config_update_kind =
  KBatcher | KGasConfig | KGasLimit | KUnsafeBlockSigner | KEip1559 | KOperatorFee

datatype system_config_update =
    Batcher address
  | GasConfig "256 word option" "256 word option"
  | GasLimit u64
  | UnsafeBlockSigner address
  | Eip1559 u32 u32
  | OperatorFee u32 u64

definition CONFIG_UPDATE_TOPIC :: b256 where
  "CONFIG_UPDATE_TOPIC =
     [0x1d, 0x2b, 0x0b, 0xda, 0x21, 0xd5, 0x6b, 0x8b, 0xd1, 0x2d, 0x4f, 0x94, 0xeb, 0xac, 0xff, 0xdf,
      0xb3, 0x5f, 0x5e, 0x22, 0x6f, 0x84, 0xb4, 0x61, 0x10, 0x3b, 0xb8, 0xbe, 0xab, 0x63, 0x53, 0xbe]"

definition CONFIG_UPDATE_EVENT_VERSION_0 :: b256 where
  "CONFIG_UPDATE_EVENT_VERSION_0 = zero_hash"

definition kind_try_from :: "u64 \<Rightarrow> (system_config_update_kind, system_config_update_error) res" where
  "kind_try_from v =
     (if v = 0 then Ok KBatcher else if v = 1 then Ok KGasConfig else if v = 2 then Ok KGasLimit
      else if v = 3 then Ok KUnsafeBlockSigner else if v = 4 then Ok KEip1559
      else if v = 5 then Ok KOperatorFee
      else Err (LogProcessing (InvalidSystemConfigUpdateType v)))"

definition validate_topic :: "log \<Rightarrow> (unit, log_processing_error) res" where
  "validate_topic l =
     (if length (log_topics l) < 3 then Err (InvalidTopicLen (length (log_topics l)))
      else if log_topics l ! 0 \<noteq> CONFIG_UPDATE_TOPIC then Err InvalidTopic
      else Ok ())"

definition validate_version :: "log \<Rightarrow> (unit, log_processing_error) res" where
  "validate_version l =
     (if length (log_topics l) < 2 then Panic
      else if log_topics l ! 1 \<noteq> CONFIG_UPDATE_EVENT_VERSION_0
        then Err (UnsupportedVersion (log_topics l ! 1))
      else Ok ())"

definition update_type :: "log \<Rightarrow> (system_config_update_kind, system_config_update_error) res" where
  "update_type l =
     (if length (log_topics l) < 3 then Err (LogProcessing (InvalidTopicLen (length (log_topics l))))
      else
        let topic = log_topics l ! 2 in
        if length topic < 24 then Panic
        else if length (drop 24 topic) \<noteq> 8 then Err (LogProcessing UpdateTypeDecodingError)
        else kind_try_from (of_nat (nat_of_be (drop 24 topic))))"

text \<open>
  The checks every \<open>try_from\<close> opens with: the data is as long as \<open>dlen\<close>, holds the offset
  32 and the length \<open>plen\<close>.
\<close>

definition update_header :: "abi_decoder \<Rightarrow> nat \<Rightarrow> u64 \<Rightarrow> bytes \<Rightarrow> (unit, update_error) res" where
  "update_header A dlen plen data =
     (if length data \<noteq> dlen then Err (InvalidDataLen (length data))
      else case abi_uint64 A (take 32 data) of
        None \<Rightarrow> Err PointerDecodingError
      | Some pointer \<Rightarrow>
          if pointer \<noteq> 32 then Err (InvalidDataPointer pointer)
          else case abi_uint64 A (take 32 (drop 32 data)) of
            None \<Rightarrow> Err LengthDecodingError
          | Some len \<Rightarrow> if len \<noteq> plen then Err (InvalidDataLength len) else Ok ())"

definition batcher_try_from :: "abi_decoder \<Rightarrow> log \<Rightarrow> (address, update_error) res" where
  "batcher_try_from A l =
     rthen (update_header A 96 32 (log_data l)) (\<lambda>_.
       ok_or (abi_address A (take 32 (drop 64 (log_data l)))) BatcherAddressDecodingError)"

definition gas_config_try_from ::
  "abi_decoder \<Rightarrow> log \<Rightarrow> (256 word option \<times> 256 word option, update_error) res" where
  "gas_config_try_from A l =
     rthen (update_header A 128 64 (log_data l)) (\<lambda>_.
       rthen (ok_or (abi_uint256 A (take 32 (drop 64 (log_data l)))) OverheadDecodingError) (\<lambda>overhead.
       rthen (ok_or (abi_uint256 A (drop 96 (log_data l))) ScalarDecodingError) (\<lambda>scalar.
       Ok (Some scalar, Some overhead))))"

definition gas_limit_try_from :: "abi_decoder \<Rightarrow> log \<Rightarrow> (u64, update_error) res" where
  "gas_limit_try_from A l =
     rthen (update_header A 96 32 (log_data l)) (\<lambda>_.
       rthen (ok_or (abi_uint256 A (drop 64 (log_data l))) GasLimitDecodingError) (\<lambda>gas_limit.
       if gas_limit > 2 ^ 64 - 1 then Err GasLimitDecodingError
       else Ok (ucast gas_limit)))"

definition eip1559_try_from :: "abi_decoder \<Rightarrow> log \<Rightarrow> (u32 \<times> u32, update_error) res" where
  "eip1559_try_from A l =
     rthen (update_header A 96 32 (log_data l)) (\<lambda>_.
       rthen (ok_or (abi_uint64 A (take 32 (drop 64 (log_data l)))) EIP1559DecodingError) (\<lambda>params.
       Ok (ucast (drop_bit 32 params), ucast params)))"

definition operator_fee_try_from :: "abi_decoder \<Rightarrow> log \<Rightarrow> (u32 \<times> u64, update_error) res" where
  "operator_fee_try_from A l =
     rthen (update_header A 96 32 (log_data l)) (\<lambda>_.
       Ok (of_nat (nat_of_be (take 4 (drop 84 (log_data l)))),
           of_nat (nat_of_be (take 8 (drop 88 (log_data l))))))"

definition signer_try_from :: "abi_decoder \<Rightarrow> log \<Rightarrow> (address, update_error) res" where
  "signer_try_from A l =
     rthen (update_header A 96 32 (log_data l)) (\<lambda>_.
       ok_or (abi_address A (drop 64 (log_data l))) UnsafeBlockSignerAddressDecodingError)"

definition build :: "abi_decoder \<Rightarrow> log \<Rightarrow> (system_config_update, system_config_update_error) res" where
  "build A l =
     rthen (map_err LogProcessing (validate_topic l)) (\<lambda>_.
     rthen (map_err LogProcessing (validate_version l)) (\<lambda>_.
     rthen (update_type l) (\<lambda>kind.
       case kind of
         KBatcher \<Rightarrow> rthen (map_err BatcherErr (batcher_try_from A l)) (\<lambda>a. Ok (Batcher a))
       | KGasConfig \<Rightarrow> rthen (map_err GasConfigErr (gas_config_try_from A l)) (\<lambda>(s, v). Ok (GasConfig s v))
       | KGasLimit \<Rightarrow> rthen (map_err GasLimitErr (gas_limit_try_from A l)) (\<lambda>g. Ok (GasLimit g))
       | KEip1559 \<Rightarrow> rthen (map_err Eip1559Err (eip1559_try_from A l)) (\<lambda>(d, e). Ok (Eip1559 d e))
       | KOperatorFee \<Rightarrow> rthen (map_err OperatorFeeErr (operator_fee_try_from A l)) (\<lambda>(s, k). Ok (OperatorFee s k))
       | KUnsafeBlockSigner \<Rightarrow>
           rthen (map_err UnsafeBlockSignerErr (signer_try_from A l)) (\<lambda>a. Ok (UnsafeBlockSigner a)))))"

text \<open>\<open>SystemConfigUpdate::apply\<close>: every update but the batcher's is ignored.\<close>

fun apply_update :: "system_config_update \<Rightarrow> system_config \<Rightarrow> system_config" where
  "apply_update (Batcher a) c = c\<lparr>sc_batcher_address := a\<rparr>"
| "apply_update (GasConfig s v) c = c"
| "apply_update (GasLimit g) c = c"
| "apply_update (UnsafeBlockSigner a) c = c"
| "apply_update (Eip1559 d e) c = c"
| "apply_update (OperatorFee s k) c = c"

fun update_kind :: "system_config_update \<Rightarrow> system_config_update_kind" where
  "update_kind (Batcher a) = KBatcher"
| "update_kind (GasConfig s v) = KGasConfig"
| "update_kind (GasLimit g) = KGasLimit"
| "update_kind (UnsafeBlockSigner a) = KUnsafeBlockSigner"
| "update_kind (Eip1559 d e) = KEip1559"
| "update_kind (OperatorFee s k) = KOperatorFee"

definition process_config_update_log ::
  "abi_decoder \<Rightarrow> log \<Rightarrow> system_config
     \<Rightarrow> (system_config_update_kind, system_config_update_error) res \<times> system_config" where
  "process_config_update_log A l c =
     rbind (build A l) c (\<lambda>update. (Ok (update_kind update), apply_update update c))"

fun update_with_logs ::
  "abi_decoder \<Rightarrow> address \<Rightarrow> log list \<Rightarrow> system_config
     \<Rightarrow> (unit, system_config_update_error) res \<times> system_config" where
  "update_with_logs A addr [] c = (Ok (), c)"
| "update_with_logs A addr (l # ls) c =
     (if log_address l = addr \<and> log_topics l \<noteq> [] \<and> log_topics l ! 0 = CONFIG_UPDATE_TOPIC
      then case process_config_update_log A l c of
             (Ok _, c') \<Rightarrow> update_with_logs A addr ls c'
           | (Err e, c') \<Rightarrow> (Err e, c')
           | (Panic, c') \<Rightarrow> (Panic, c')
      else update_with_logs A addr ls c)"

fun update_with_receipts ::
  "abi_decoder \<Rightarrow> address \<Rightarrow> receipt list \<Rightarrow> system_config
     \<Rightarrow> (unit, system_config_update_error) res \<times> system_config" where
  "update_with_receipts A addr [] c = (Ok (), c)"
| "update_with_receipts A addr (r # rs) c =
     (if rcpt_status r = Eip658 False then update_with_receipts A addr rs c
      else case update_with_logs A addr (rcpt_logs r) c of
             (Ok _, c') \<Rightarrow> update_with_receipts A addr rs c'
           | (Err e, c') \<Rightarrow> (Err e, c')
           | (Panic, c') \<Rightarrow> (Panic, c'))"

section \<open>Specification\<close>

text \<open>The config logs of a block: those of the system config contract in receipts that did not fail.\<close>

definition is_config_log :: "address \<Rightarrow> log \<Rightarrow> bool" where
  "is_config_log addr l \<longleftrightarrow>
     log_address l = addr \<and> log_topics l \<noteq> [] \<and> hd (log_topics l) = CONFIG_UPDATE_TOPIC"

definition config_logs :: "address \<Rightarrow> receipt list \<Rightarrow> log list" where
  "config_logs addr rs =
     filter (is_config_log addr) (concat (map rcpt_logs (filter (\<lambda>r. rcpt_status r \<noteq> Eip658 False) rs)))"

fun batcher_of :: "system_config_update \<Rightarrow> address option" where
  "batcher_of (Batcher a) = Some a"
| "batcher_of _ = None"

text \<open>Applying decoded updates up to the first that fails, which the caller reports.\<close>

fun apply_all ::
  "(system_config_update, 'e) res list \<Rightarrow> address \<Rightarrow> (unit, 'e) res \<times> address" where
  "apply_all [] a = (Ok (), a)"
| "apply_all (Ok u # us) a = apply_all us (case batcher_of u of None \<Rightarrow> a | Some b \<Rightarrow> b)"
| "apply_all (Err e # us) a = (Err e, a)"
| "apply_all (Panic # us) a = (Panic, a)"

section \<open>Lemmas\<close>

lemma apply_update_batcher:
  "apply_update u c =
     c\<lparr>sc_batcher_address := (case batcher_of u of None \<Rightarrow> sc_batcher_address c | Some b \<Rightarrow> b)\<rparr>"
  by (cases u) auto

lemma build_no_panic:
  assumes "list_all (\<lambda>t. length t = 32) (log_topics l)"
  shows "build A l \<noteq> Panic"
proof -
  have t: "length (log_topics l) \<ge> 3 \<Longrightarrow> length (log_topics l ! 2) = 32"
    using assms by (simp add: list_all_length)
  show ?thesis
    using t
    by (auto simp: build_def validate_topic_def validate_version_def update_type_def kind_try_from_def
        rthen_def map_err_def batcher_try_from_def gas_config_try_from_def gas_limit_try_from_def
        eip1559_try_from_def operator_fee_try_from_def signer_try_from_def update_header_def ok_or_def
        Let_def split: option.splits)
qed

lemma update_with_logs_spec:
  "update_with_logs A addr ls c =
     (let (r, a) = apply_all (map (build A) (filter (is_config_log addr) ls)) (sc_batcher_address c)
      in (r, c\<lparr>sc_batcher_address := a\<rparr>))"
proof (induction ls arbitrary: c)
  case Nil
  then show ?case by simp
next
  case (Cons l ls)
  then show ?case
    by (cases "build A l")
       (auto simp: process_config_update_log_def is_config_log_def hd_conv_nth apply_update_batcher
             split: prod.splits)
qed

lemma apply_all_append:
  "apply_all (us @ vs) a =
     (case apply_all us a of (Ok _, b) \<Rightarrow> apply_all vs b | (Err e, b) \<Rightarrow> (Err e, b) | (Panic, b) \<Rightarrow> (Panic, b))"
  by (induction us a rule: apply_all.induct) auto

lemma update_with_receipts_spec:
  "update_with_receipts A addr rs c =
     (let (r, a) = apply_all (map (build A) (config_logs addr rs)) (sc_batcher_address c)
      in (r, c\<lparr>sc_batcher_address := a\<rparr>))"
proof (induction rs arbitrary: c)
  case Nil
  then show ?case by (simp add: config_logs_def)
next
  case (Cons r rs)
  then show ?case
    by (auto simp: update_with_logs_spec config_logs_def apply_all_append Let_def
             split: prod.splits res.splits)
qed

lemma update_with_receipts_only_batcher:
  "\<exists>a. snd (update_with_receipts A addr rs c) = c\<lparr>sc_batcher_address := a\<rparr>"
  by (auto simp: update_with_receipts_spec Let_def split: prod.splits)

section \<open>Properties\<close>

text \<open>
  Walking the receipts of a block is the same as decoding the config logs of its
  successful receipts in order and applying the batcher updates among them up to the first
  log that fails to decode. No other field of the configuration ever changes, whatever the
  system config contract logs.
\<close>

theorem system_config_refines_batcher_register:
  "update_with_receipts A addr rs c =
     (let (r, a) = apply_all (map (build A) (config_logs addr rs)) (sc_batcher_address c)
      in (r, c\<lparr>sc_batcher_address := a\<rparr>))"
  by (rule update_with_receipts_spec)

text \<open>
  A batcher update log in the layout the contract emits (version 0, update type 0,
  offset 32, length 32, the address left-padded to a word) is decoded to its address, for
  every ABI decoder that decodes padded words.
\<close>

definition abi_decodes_words :: "abi_decoder \<Rightarrow> bool" where
  "abi_decodes_words A \<longleftrightarrow>
     (\<forall>n < 2 ^ 64. abi_uint64 A (be_of_nat 32 n) = Some (of_nat n)) \<and>
     (\<forall>a. length a = 20 \<longrightarrow> abi_address A (replicate 12 0 @ a) = Some a)"

definition batcher_log :: "address \<Rightarrow> address \<Rightarrow> log" where
  "batcher_log addr a =
     \<lparr>log_address = addr,
      log_topics = [CONFIG_UPDATE_TOPIC, CONFIG_UPDATE_EVENT_VERSION_0, be_of_nat 32 0],
      log_data = be_of_nat 32 32 @ be_of_nat 32 32 @ replicate 12 0 @ a\<rparr>"

theorem batcher_log_decoded:
  assumes "abi_decodes_words A" and "length a = 20"
  shows "build A (batcher_log addr a) = Ok (Batcher a)"
proof -
  have u: "abi_uint64 A (be_of_nat 32 32) = Some 32"
    using assms(1) by (simp add: abi_decodes_words_def del: be_of_nat.simps)
  have a: "abi_address A (replicate 12 0 @ a) = Some a"
    using assms by (simp add: abi_decodes_words_def del: replicate.simps)
  have h: "update_header A 96 32 (log_data (batcher_log addr a)) = Ok ()"
    using u assms(2) by (simp add: update_header_def batcher_log_def)
  have b: "batcher_try_from A (batcher_log addr a) = Ok a"
    using a assms(2) by (simp add: batcher_try_from_def h) (simp add: batcher_log_def)
  have t: "update_type (batcher_log addr a) = Ok KBatcher"
    by (simp add: update_type_def batcher_log_def kind_try_from_def)
  show ?thesis
    by (simp add: build_def b t) (simp add: validate_topic_def validate_version_def batcher_log_def)
qed

definition ex_abi :: abi_decoder where
  "ex_abi =
     \<lparr>abi_uint64 = (\<lambda>w. if length w = 32 \<and> nat_of_be w < 2 ^ 64 then Some (of_nat (nat_of_be w)) else None),
      abi_uint256 = (\<lambda>w. if length w = 32 then Some (of_nat (nat_of_be w)) else None),
      abi_address = (\<lambda>w. if length w = 32 \<and> take 12 w = replicate 12 0 then Some (drop 12 w) else None)\<rparr>"

lemma ex_abi_decodes_words: "abi_decodes_words ex_abi"
  by (auto simp: abi_decodes_words_def ex_abi_def nat_of_be_of_nat)

theorem batcher_log_decoded_witness:
  "build ex_abi (batcher_log [1] (replicate 20 7)) = Ok (Batcher (replicate 20 7))"
  by (rule batcher_log_decoded) (auto simp: ex_abi_decodes_words)

end
