(* ===== verification/Traversal.thy ===== *)
theory Traversal
  imports Stages System_Config
begin

text \<open>
  \<open>L1Traversal\<close> (\<^verbatim>\<open>derive/src/stages/l1_traversal.rs\<close>), the bottom stage: it holds the L1
  origin of the pipeline, follows the chain by block number with a parent hash check, and
  applies the system config updates of every block it reaches.
\<close>

section \<open>Definitions\<close>

record l1_traversal =
  tv_block :: "block_info option"
  tv_done :: bool
  tv_system_config :: system_config
  tv_rollup_config :: rollup_config

definition traversal_new :: "rollup_config \<Rightarrow> system_config \<Rightarrow> l1_traversal" where
  "traversal_new cfg sc =
     \<lparr>tv_block = Some default_block_info, tv_done = False, tv_system_config = sc, tv_rollup_config = cfg\<rparr>"

definition batcher_addr :: "l1_traversal \<Rightarrow> address" where
  "batcher_addr s = sc_batcher_address (tv_system_config s)"

definition next_l1_block :: "l1_traversal \<Rightarrow> block_info option presult \<times> l1_traversal" where
  "next_l1_block s =
     (if \<not> tv_done s then (Ok (tv_block s), s\<lparr>tv_done := True\<rparr>)
      else (Err (temp Eof), s))"

definition traversal_advance ::
  "abi_decoder \<Rightarrow> chain_provider \<Rightarrow> l1_traversal \<Rightarrow> unit presult \<times> l1_traversal" where
  "traversal_advance A cp s =
     (case tv_block s of
        None \<Rightarrow> (Err (temp Eof), s)
      | Some block \<Rightarrow>
          rbind (cp_block_info_by_number cp (bi_number block + 1)) s (\<lambda>next_l1_origin.
          if bi_hash block \<noteq> bi_parent_hash next_l1_origin
          then (Err (ResetKind (ReorgDetected (bi_hash block) (bi_parent_hash next_l1_origin))), s)
          else
          rbind (cp_receipts_by_hash cp (bi_hash next_l1_origin)) s (\<lambda>receipts.
          case update_with_receipts A (rc_l1_system_config_address (tv_rollup_config s)) receipts
                 (tv_system_config s) of
            (Err e, sc) \<Rightarrow> (Err (crit (SystemConfigUpdate e)), s\<lparr>tv_system_config := sc\<rparr>)
          | (Panic, sc) \<Rightarrow> (Panic, s\<lparr>tv_system_config := sc\<rparr>)
          | (Ok _, sc) \<Rightarrow>
              (Ok (), s\<lparr>tv_system_config := sc, tv_block := Some next_l1_origin, tv_done := False\<rparr>))))"

text \<open>\<open>system_config.expect(\<dots>)\<close> panics after the block and the flag were set.\<close>

definition traversal_reset :: "reset_signal \<Rightarrow> l1_traversal \<Rightarrow> unit presult \<times> l1_traversal" where
  "traversal_reset r s =
     (let s1 = s\<lparr>tv_block := Some (sig_l1_origin r), tv_done := False\<rparr> in
      case sig_system_config r of
        None \<Rightarrow> (Panic, s1)
      | Some sc \<Rightarrow> (Ok (), s1\<lparr>tv_system_config := sc\<rparr>))"

fun traversal_signal :: "signal \<Rightarrow> l1_traversal \<Rightarrow> unit presult \<times> l1_traversal" where
  "traversal_signal (SigReset r) s = traversal_reset r s"
| "traversal_signal (SigActivation r) s = traversal_reset r s"
| "traversal_signal FlushChannel s = (Ok (), s)"

definition traversal_stage ::
  "abi_decoder \<Rightarrow> chain_provider \<Rightarrow> (l1_traversal, block_info option) stage" where
  "traversal_stage A cp =
     \<lparr>st_next = next_l1_block, st_origin = tv_block, st_advance = traversal_advance A cp,
      st_signal = traversal_signal\<rparr>"

section \<open>Lemmas\<close>

lemma traversal_stage_sel [simp]:
  "st_next (traversal_stage A cp) = next_l1_block"
  "st_origin (traversal_stage A cp) = tv_block"
  "st_advance (traversal_stage A cp) = traversal_advance A cp"
  "st_signal (traversal_stage A cp) = traversal_signal"
  by (simp_all add: traversal_stage_def)

lemma traversal_advance_Ok:
  assumes "traversal_advance A cp s = (Ok (), s')"
  obtains b b' rs sc where "tv_block s = Some b" and "cp_block_info_by_number cp (bi_number b + 1) = Ok b'"
    and "bi_parent_hash b' = bi_hash b" and "cp_receipts_by_hash cp (bi_hash b') = Ok rs"
    and "update_with_receipts A (rc_l1_system_config_address (tv_rollup_config s)) rs (tv_system_config s) = (Ok (), sc)"
    and "s' = s\<lparr>tv_system_config := sc, tv_block := Some b', tv_done := False\<rparr>"
  using assms
  by (auto simp: traversal_advance_def
      split: option.split_asm rbind_split_asm if_split_asm prod.split_asm res.split_asm)

lemma traversal_advance_not_Ok:
  assumes "traversal_advance A cp s = (r, s')" and "r \<noteq> Ok ()"
  shows "tv_block s' = tv_block s" and "tv_done s' = tv_done s" and "tv_rollup_config s' = tv_rollup_config s"
  using assms
  by (auto simp: traversal_advance_def split: option.splits rbind_splits if_splits prod.splits res.splits)

lemma traversal_signal_Ok:
  "fst (traversal_signal sg s) = Ok () \<Longrightarrow>
     tv_block (snd (traversal_signal sg s)) = (case signal_origin sg of None \<Rightarrow> tv_block s | Some b \<Rightarrow> Some b)"
  by (cases sg) (auto simp: traversal_reset_def Let_def split: option.splits)

interpretation trav: stage_contract "traversal_stage A cp" "\<lambda>_. True" for A cp
proof
  fix s :: l1_traversal
  show "st_origin (traversal_stage A cp) (snd (st_next (traversal_stage A cp) s)) = st_origin (traversal_stage A cp) s"
    by (simp add: next_l1_block_def)
next
  fix s
  assume "fst (st_advance (traversal_stage A cp) s) = Ok ()"
  then have "traversal_advance A cp s = (Ok (), snd (traversal_advance A cp s))"
    by (metis prod.collapse traversal_stage_sel(3))
  then obtain b b' sc where "tv_block s = Some b" "bi_parent_hash b' = bi_hash b"
      "snd (traversal_advance A cp s) = s\<lparr>tv_system_config := sc, tv_block := Some b', tv_done := False\<rparr>"
    by (rule traversal_advance_Ok)
  then show "advances (st_origin (traversal_stage A cp) s)
       (st_origin (traversal_stage A cp) (snd (st_advance (traversal_stage A cp) s)))"
    by (simp add: advances_def extends_def)
next
  fix s
  assume "fst (st_advance (traversal_stage A cp) s) \<noteq> Ok ()"
  then show "st_origin (traversal_stage A cp) (snd (st_advance (traversal_stage A cp) s)) = st_origin (traversal_stage A cp) s"
    by (simp add: traversal_advance_not_Ok(1) [of A cp s "fst (traversal_advance A cp s)"])
next
  fix sg s
  assume "fst (st_signal (traversal_stage A cp) sg s) = Ok ()"
  then show "st_origin (traversal_stage A cp) (snd (st_signal (traversal_stage A cp) sg s)) =
     (case signal_origin sg of None \<Rightarrow> st_origin (traversal_stage A cp) s | Some b \<Rightarrow> Some b)"
    by (simp add: traversal_signal_Ok split: option.split)
qed simp_all

lemma pulls_done: "tv_done s \<Longrightarrow> pulls n next_l1_block s = replicate n (Err (temp Eof))"
  by (induction n) (auto simp: next_l1_block_def)

section \<open>Properties\<close>

text \<open>
  Advancing the L1 origin succeeds exactly when the provider has a block at the next
  number whose parent hash is the hash of the current origin, its receipts can be fetched
  and every config log in them decodes; the new state then has that block as its origin, not
  yet delivered, and the updated system config. In every other case the origin stays, and a
  parent hash mismatch is a reset.
\<close>

theorem traversal_advance_follows_chain:
  assumes "tv_block s = Some b" and "cp_block_info_by_number cp (bi_number b + 1) = Ok b'"
    and "cp_receipts_by_hash cp (bi_hash b') = Ok rs"
    and "update_with_receipts A (rc_l1_system_config_address (tv_rollup_config s)) rs (tv_system_config s) = (r, sc)"
  shows "traversal_advance A cp s =
     (if bi_hash b \<noteq> bi_parent_hash b' then (Err (ResetKind (ReorgDetected (bi_hash b) (bi_parent_hash b'))), s)
      else case r of
        Ok _ \<Rightarrow> (Ok (), s\<lparr>tv_system_config := sc, tv_block := Some b', tv_done := False\<rparr>)
      | Err e \<Rightarrow> (Err (Critical (SystemConfigUpdate e)), s\<lparr>tv_system_config := sc\<rparr>)
      | Panic \<Rightarrow> (Panic, s\<lparr>tv_system_config := sc\<rparr>))"
  using assms by (simp add: traversal_advance_def split: res.splits)

text \<open>
  After a successful advance the new origin is handed to the retrieval stage exactly
  once; every further call is end-of-file until the next advance or reset.
\<close>

theorem origin_delivered_once:
  assumes "traversal_advance A cp s = (Ok (), s')"
  shows "\<exists>b'. tv_block s' = Some b' \<and> pulls (Suc n) next_l1_block s' = Ok (Some b') # replicate n (Err (temp Eof))"
  using assms by (rule traversal_advance_Ok) (auto simp: next_l1_block_def pulls_done)

definition ex_system_config :: system_config where
  "ex_system_config =
     \<lparr>sc_batcher_address = [1], sc_overhead = 0, sc_scalar = 0, sc_gas_limit = 0, sc_base_fee_scalar = None,
      sc_blob_base_fee_scalar = None, sc_eip1559_denominator = None, sc_eip1559_elasticity = None,
      sc_operator_fee_scalar = None, sc_operator_fee_constant = None\<rparr>"

definition ex_l1 :: chain_provider where
  "ex_l1 = \<lparr>cp_block_info_by_number = (\<lambda>n. Ok (ex_block (unat n))),
     cp_block_info_by_hash = (\<lambda>h. Ok (ex_block (nat_of_be h))),
     cp_receipts_by_hash = (\<lambda>h. Ok []),
     cp_get_block_transactions_by_hash = (\<lambda>h. Ok [])\<rparr>"

definition ex_traversal :: l1_traversal where
  "ex_traversal = (traversal_new ex_rollup_config ex_system_config)\<lparr>tv_block := Some (ex_block 5)\<rparr>"

lemma ex_advance:
  "traversal_advance A ex_l1 ex_traversal = (Ok (), ex_traversal\<lparr>tv_block := Some (ex_block 6)\<rparr>)"
  by (simp add: traversal_advance_def ex_traversal_def ex_l1_def ex_block_def traversal_new_def)

theorem traversal_advance_follows_chain_witness:
  "traversal_advance ex_abi ex_l1 ex_traversal = (Ok (), ex_traversal\<lparr>tv_block := Some (ex_block 6)\<rparr>)"
  using traversal_advance_follows_chain [of ex_traversal "ex_block 5" ex_l1 "ex_block 6" "[]" ex_abi "Ok ()" ex_system_config]
  by (simp add: ex_traversal_def ex_l1_def ex_block_def traversal_new_def)

theorem origin_delivered_once_witness:
  "\<exists>b'. tv_block (ex_traversal\<lparr>tv_block := Some (ex_block 6)\<rparr>) = Some b' \<and>
     pulls (Suc 2) next_l1_block (ex_traversal\<lparr>tv_block := Some (ex_block 6)\<rparr>)
       = Ok (Some b') # replicate 2 (Err (temp Eof))"
  by (rule origin_delivered_once [OF ex_advance [of ex_abi]])

end
