(* ===== verification/Retrieval.thy ===== *)
theory Retrieval
  imports Sources Traversal
begin

text \<open>
  \<open>L1Retrieval\<close> (\<^verbatim>\<open>derive/src/stages/l1_retrieval.rs\<close>): for every L1 block of the traversal
  it delivers the items of the data availability provider until that one is exhausted.
\<close>

section \<open>Definitions\<close>

text \<open>The \<open>DataAvailabilityProvider\<close> trait.\<close>

record 'd da_source =
  dap_next :: "block_info \<Rightarrow> address \<Rightarrow> 'd \<Rightarrow> bytes presult \<times> 'd"
  dap_clear :: "'d \<Rightarrow> 'd"

definition ethereum_source :: "chain_provider \<Rightarrow> da_provider \<Rightarrow> ethereum_data_source da_source" where
  "ethereum_source cp dap = \<lparr>dap_next = ethereum_next cp dap, dap_clear = ethereum_clear\<rparr>"

record ('p, 'd) l1_retrieval =
  rt_prev :: 'p
  rt_provider :: 'd
  rt_next :: "block_info option"

definition retrieval_new :: "'p \<Rightarrow> 'd \<Rightarrow> ('p, 'd) l1_retrieval" where
  "retrieval_new prev provider = \<lparr>rt_prev = prev, rt_provider = provider, rt_next = None\<rparr>"

text \<open>Fetching the next block, when there is none in progress.\<close>

definition retrieval_fetch ::
  "('p, block_info option) stage \<Rightarrow> ('p, 'd) l1_retrieval \<Rightarrow> unit presult \<times> ('p, 'd) l1_retrieval" where
  "retrieval_fetch P s =
     (if rt_next s = None then
        let (r, p) = st_next P (rt_prev s); s1 = s\<lparr>rt_prev := p\<rparr> in
        rbind r s1 (\<lambda>blk.
        rbind (ok_or blk (temp MissingL1Data)) s1 (\<lambda>b.
        (Ok (), s1\<lparr>rt_next := Some b\<rparr>)))
      else (Ok (), s))"

definition retrieval_next ::
  "('p, block_info option) stage \<Rightarrow> ('p \<Rightarrow> address) \<Rightarrow> 'd da_source \<Rightarrow> ('p, 'd) l1_retrieval
     \<Rightarrow> bytes presult \<times> ('p, 'd) l1_retrieval" where
  "retrieval_next P batcher D s =
     (let (r0, s0) = retrieval_fetch P s in
      rbind r0 s0 (\<lambda>_.
        case rt_next s0 of
          None \<Rightarrow> (Panic, s0)
        | Some nxt \<Rightarrow>
            let (r, d) = dap_next D nxt (batcher (rt_prev s0)) (rt_provider s0);
                s1 = s0\<lparr>rt_provider := d\<rparr> in
            case r of
              Ok data \<Rightarrow> (Ok data, s1)
            | Err e \<Rightarrow>
                if e = Temporary Eof
                then (Err e, s1\<lparr>rt_next := None, rt_provider := dap_clear D d\<rparr>)
                else (Err e, s1)
            | Panic \<Rightarrow> (Panic, s1)))"

definition retrieval_advance ::
  "('p, block_info option) stage \<Rightarrow> ('p, 'd) l1_retrieval \<Rightarrow> unit presult \<times> ('p, 'd) l1_retrieval" where
  "retrieval_advance P s = (let (r, p) = st_advance P (rt_prev s) in (r, s\<lparr>rt_prev := p\<rparr>))"

definition retrieval_signal ::
  "('p, block_info option) stage \<Rightarrow> signal \<Rightarrow> ('p, 'd) l1_retrieval \<Rightarrow> unit presult \<times> ('p, 'd) l1_retrieval" where
  "retrieval_signal P sg s =
     (let (r, p) = st_signal P sg (rt_prev s); s1 = s\<lparr>rt_prev := p\<rparr> in
      rbind r s1 (\<lambda>_.
        case sg of
          SigReset x \<Rightarrow> (Ok (), s1\<lparr>rt_next := Some (sig_l1_origin x)\<rparr>)
        | SigActivation x \<Rightarrow> (Ok (), s1\<lparr>rt_next := Some (sig_l1_origin x)\<rparr>)
        | FlushChannel \<Rightarrow> (Ok (), s1)))"

definition retrieval_stage ::
  "('p, block_info option) stage \<Rightarrow> ('p \<Rightarrow> address) \<Rightarrow> 'd da_source \<Rightarrow> (('p, 'd) l1_retrieval, bytes) stage" where
  "retrieval_stage P batcher D =
     \<lparr>st_next = retrieval_next P batcher D, st_origin = (\<lambda>s. st_origin P (rt_prev s)),
      st_advance = retrieval_advance P, st_signal = retrieval_signal P\<rparr>"

section \<open>Lemmas\<close>

lemma retrieval_stage_sel [simp]:
  "st_next (retrieval_stage P batcher D) = retrieval_next P batcher D"
  "st_origin (retrieval_stage P batcher D) = (\<lambda>s. st_origin P (rt_prev s))"
  "st_advance (retrieval_stage P batcher D) = retrieval_advance P"
  "st_signal (retrieval_stage P batcher D) = retrieval_signal P"
  by (simp_all add: retrieval_stage_def)

lemma retrieval_fetch_prev:
  "rt_prev (snd (retrieval_fetch P s)) = (if rt_next s = None then snd (st_next P (rt_prev s)) else rt_prev s)"
  by (auto simp: retrieval_fetch_def Let_def split: prod.splits rbind_splits)

lemma retrieval_fetch_Ok: "fst (retrieval_fetch P s) = Ok () \<Longrightarrow> rt_next (snd (retrieval_fetch P s)) \<noteq> None"
  by (auto simp: retrieval_fetch_def Let_def split: prod.splits rbind_splits if_splits)

lemma retrieval_next_prev:
  "rt_prev (snd (retrieval_next P batcher D s)) = rt_prev (snd (retrieval_fetch P s))"
  by (auto simp: retrieval_next_def Let_def split: prod.splits rbind_splits option.splits res.splits)

text \<open>A stage that delivers L1 blocks is the lower stage of the retrieval.\<close>

locale block_provider = stage_contract P inv for P :: "('p, block_info option) stage" and inv

sublocale block_provider \<subseteq>
  retrieval: stage_over P inv "retrieval_stage P batcher D" rt_prev "\<lambda>_. True" for batcher D
proof
  fix q sg
  show "st_origin (retrieval_stage P batcher D) q = st_origin P (rt_prev q)"
    by simp
  have "\<exists>n. rt_prev (snd (st_next (retrieval_stage P batcher D) q)) = after_pulls n (st_next P) (rt_prev q)"
    by (simp add: retrieval_next_prev retrieval_fetch_prev)
       (metis after_pulls.simps)
  then show "inv (rt_prev (snd (st_next (retrieval_stage P batcher D) q))) \<and> st_origin P (rt_prev (snd (st_next (retrieval_stage P batcher D) q))) = st_origin P (rt_prev q)" if "inv (rt_prev q)"
    using that by (rule pulled_keeps [rotated])
  show "fst (st_advance (retrieval_stage P batcher D) q) = fst (st_advance P (rt_prev q))"
    by (simp add: retrieval_advance_def split: prod.split)
  show "rt_prev (snd (st_advance (retrieval_stage P batcher D) q)) = snd (st_advance P (rt_prev q))"
    by (simp add: retrieval_advance_def split: prod.split)
  show "(fst (st_signal (retrieval_stage P batcher D) sg q) = Ok () \<longrightarrow> fst (st_signal P sg (rt_prev q)) = Ok ())
       \<and> rt_prev (snd (st_signal (retrieval_stage P batcher D) sg q)) = snd (st_signal P sg (rt_prev q))
     \<or> signal_origin sg = None \<and> rt_prev (snd (st_signal (retrieval_stage P batcher D) sg q)) = rt_prev q"
    by (intro disjI1) (auto simp: retrieval_signal_def Let_def split: prod.splits rbind_splits signal.splits)
qed simp_all

interpretation l1: block_provider "traversal_stage A cp" "\<lambda>_. True" for A cp
  by unfold_locales

text \<open>The retrieval stage of the pipeline.\<close>

type_synonym retrieval_state = "(l1_traversal, ethereum_data_source) l1_retrieval"

definition l1_retrieval_stage ::
  "abi_decoder \<Rightarrow> chain_provider \<Rightarrow> da_provider \<Rightarrow> (retrieval_state, bytes) stage" where
  "l1_retrieval_stage A cp dap = retrieval_stage (traversal_stage A cp) batcher_addr (ethereum_source cp dap)"

text \<open>The stage is in the middle of a block, with \<open>ds\<close> still to be resolved.\<close>

definition reading :: "bytes list \<Rightarrow> retrieval_state \<Rightarrow> bool" where
  "reading ds s \<longleftrightarrow>
     rt_next s \<noteq> None \<and> cs_open (ds_calldata_source (es_da_source (rt_provider s)))
   \<and> cs_calldata (ds_calldata_source (es_da_source (rt_provider s))) = ds
   \<and> ds_data (es_da_source (rt_provider s)) = []"

definition at_block_start :: "retrieval_state \<Rightarrow> bool" where
  "at_block_start s \<longleftrightarrow>
     rt_next s = None \<and> \<not> cs_open (ds_calldata_source (es_da_source (rt_provider s)))
   \<and> cs_calldata (ds_calldata_source (es_da_source (rt_provider s))) = []
   \<and> ds_data (es_da_source (rt_provider s)) = []"

lemmas retrieval_unfold =
  l1_retrieval_stage_def retrieval_next_def retrieval_fetch_def ethereum_source_def ethereum_next_def
  ethereum_clear_def da_server_next_def da_server_clear_def calldata_clear_def calldata_next_open
  load_da_server_data_def

lemma reading_item:
  assumes "reading (c # cs) s" and "da_get_input dap c = Ok d"
  shows "fst (st_next (l1_retrieval_stage A cp dap) s) = Ok d"
    and "reading cs (snd (st_next (l1_retrieval_stage A cp dap) s))"
    and "rt_prev (snd (st_next (l1_retrieval_stage A cp dap) s)) = rt_prev s"
  using assms by (auto simp: reading_def retrieval_unfold)

lemma reading_end:
  assumes "reading [] s"
  shows "fst (st_next (l1_retrieval_stage A cp dap) s) = Err (temp Eof)"
    and "at_block_start (snd (st_next (l1_retrieval_stage A cp dap) s))"
    and "rt_prev (snd (st_next (l1_retrieval_stage A cp dap) s)) = rt_prev s"
  using assms by (auto simp: reading_def at_block_start_def retrieval_unfold)

lemma reading_pulls:
  assumes "reading cs s" and "\<And>c. da_get_input dap c = Ok (g c)"
  shows "pulls (Suc (length cs)) (st_next (l1_retrieval_stage A cp dap)) s = map (Ok \<circ> g) cs @ [Err (temp Eof)]
     \<and> at_block_start (after_pulls (Suc (length cs)) (st_next (l1_retrieval_stage A cp dap)) s)"
  using assms(1)
proof (induction cs arbitrary: s)
  case Nil
  then show ?case by (simp add: reading_end)
next
  case (Cons c cs)
  note item = reading_item [OF Cons.prems assms(2)]
  from Cons.IH [OF item(2)] show ?case by (simp add: item(1))
qed

text \<open>The first pull of a block fetches it from the traversal and opens the source.\<close>

definition opened :: "block_info \<Rightarrow> bytes list \<Rightarrow> retrieval_state \<Rightarrow> retrieval_state" where
  "opened b ds s =
     s\<lparr>rt_prev := (rt_prev s)\<lparr>tv_done := True\<rparr>, rt_next := Some b,
       rt_provider := (rt_provider s)\<lparr>es_da_source := (es_da_source (rt_provider s))
         \<lparr>ds_calldata_source := (ds_calldata_source (es_da_source (rt_provider s)))
           \<lparr>cs_calldata := ds, cs_open := True\<rparr>\<rparr>\<rparr>\<rparr>"

lemma reading_opened: "at_block_start s \<Longrightarrow> reading ds (opened b ds s)"
  by (simp add: at_block_start_def reading_def opened_def)

lemma first_pull:
  assumes "at_block_start s" and "tv_block (rt_prev s) = Some b" and "\<not> tv_done (rt_prev s)"
    and "cp_get_block_transactions_by_hash cp (bi_hash b) = Ok txs"
    and "ds = batcher_inputs (cs_batch_inbox_address (ds_calldata_source (es_da_source (rt_provider s))))
               (batcher_addr (rt_prev s)) txs"
  shows "st_next (l1_retrieval_stage A cp dap) s = st_next (l1_retrieval_stage A cp dap) (opened b ds s)"
  using assms
  by (simp add: at_block_start_def opened_def l1_retrieval_stage_def retrieval_next_def retrieval_fetch_def
      next_l1_block_def ethereum_source_def ethereum_next_def da_server_next_def calldata_next_def
      load_calldata_def map_filter_batcher_input batcher_addr_def)

section \<open>Properties\<close>

text \<open>
  For every L1 block the retrieval stage delivers what the data availability server
  holds for each batcher transaction to the inbox, in block order, then end-of-file exactly
  when the block is exhausted, and is then ready for the next block.
\<close>

theorem retrieval_delivers_block:
  assumes "at_block_start s" and "tv_block (rt_prev s) = Some b" and "\<not> tv_done (rt_prev s)"
    and "cp_get_block_transactions_by_hash cp (bi_hash b) = Ok txs"
    and "\<And>c. da_get_input dap c = Ok (g c)"
    and "ds = batcher_inputs (cs_batch_inbox_address (ds_calldata_source (es_da_source (rt_provider s))))
               (sc_batcher_address (tv_system_config (rt_prev s))) txs"
  shows "pulls (Suc (length ds)) (st_next (l1_retrieval_stage A cp dap)) s = map (Ok \<circ> g) ds @ [Err (temp Eof)]
     \<and> at_block_start (after_pulls (Suc (length ds)) (st_next (l1_retrieval_stage A cp dap)) s)"
proof -
  have "st_next (l1_retrieval_stage A cp dap) s = st_next (l1_retrieval_stage A cp dap) (opened b ds s)"
    using assms by (intro first_pull) (simp_all add: batcher_addr_def)
  with reading_pulls [OF reading_opened [OF assms(1), of ds b] assms(5), of A cp] show ?thesis
    by simp
qed


text \<open>
  A reset or an activation points the retrieval stage at the new origin but keeps the
  data source as it is: items of the block that was being read when the signal arrived are
  delivered as data of the new origin, before the source is cleared at the next end-of-file.
\<close>

theorem reset_keeps_stale_items:
  assumes "traversal_signal (SigReset x) (rt_prev s) = (Ok (), p)"
    and "cs_open (ds_calldata_source (es_da_source (rt_provider s)))"
    and "cs_calldata (ds_calldata_source (es_da_source (rt_provider s))) = c # cs"
    and "ds_data (es_da_source (rt_provider s)) = []" and "da_get_input dap c = Ok d"
  shows "fst (retrieval_signal (traversal_stage A cp) (SigReset x) s) = Ok ()
     \<and> fst (retrieval_next (traversal_stage A cp) batcher_addr (ethereum_source cp dap)
           (snd (retrieval_signal (traversal_stage A cp) (SigReset x) s))) = Ok d"
  using assms
  by (simp add: retrieval_signal_def retrieval_next_def retrieval_fetch_def ethereum_source_def
      ethereum_next_def da_server_next_def calldata_next_open load_da_server_data_def)

definition ex_retrieval :: "bytes list \<Rightarrow> bool \<Rightarrow> block_info option \<Rightarrow> retrieval_state" where
  "ex_retrieval ds opn nxt =
     \<lparr>rt_prev = ex_traversal,
      rt_provider = \<lparr>es_batch_inbox_address = [2],
        es_da_source = \<lparr>ds_calldata_source =
          \<lparr>cs_batch_inbox_address = [2], cs_calldata = ds, cs_open = opn\<rparr>, ds_data = []\<rparr>\<rparr>,
      rt_next = nxt\<rparr>"

definition ex_reset :: reset_signal where
  "ex_reset = \<lparr>sig_l2_safe_head = \<lparr>l2_block = default_block_info, l2_l1_origin = block_id (ex_block 3), l2_seq_num = 0\<rparr>,
     sig_l1_origin = ex_block 3, sig_system_config = Some ex_system_config\<rparr>"

definition ex_da :: da_provider where
  "ex_da = \<lparr>da_get_input = (\<lambda>c. Ok (c @ c))\<rparr>"

lemmas ex_retrieval_defs = ex_retrieval_def ex_traversal_def traversal_new_def ex_da_def ex_chain_def ex_tx_def

theorem retrieval_delivers_block_witness:
  "pulls 2 (st_next (l1_retrieval_stage ex_abi (ex_chain [ex_tx 9 2 [6], ex_tx 1 2 [7]]) ex_da)) (ex_retrieval [] False None)
     = [Ok [7, 7], Err (temp Eof)]"
  using retrieval_delivers_block
    [of "ex_retrieval [] False None" "ex_block 5" "ex_chain [ex_tx 9 2 [6], ex_tx 1 2 [7]]"
        "[ex_tx 9 2 [6], ex_tx 1 2 [7]]" ex_da "\<lambda>c. c @ c" "[[7]]" ex_abi]
  by (simp add: ex_retrieval_defs at_block_start_def batcher_inputs_def ex_system_config_def eval_pulls)

theorem reset_keeps_stale_items_witness:
  "fst (retrieval_signal (traversal_stage ex_abi ex_l1) (SigReset ex_reset) (ex_retrieval [[8]] True (Some (ex_block 5)))) = Ok ()
     \<and> fst (retrieval_next (traversal_stage ex_abi ex_l1) batcher_addr (ethereum_source ex_l1 ex_da)
           (snd (retrieval_signal (traversal_stage ex_abi ex_l1) (SigReset ex_reset)
              (ex_retrieval [[8]] True (Some (ex_block 5)))))) = Ok [8, 8]"
  by (rule reset_keeps_stale_items [where c = "[8]" and cs = "[]"]) (simp_all add: ex_retrieval_defs ex_reset_def traversal_reset_def)

end
