(* ===== verification/Frame_Queue.thy ===== *)
theory Frame_Queue
  imports Frames Retrieval "HOL-Library.Sublist"
begin

text \<open>
  \<open>FrameQueue\<close> (\<^verbatim>\<open>derive/src/stages/frame_queue.rs\<close>): parses the retrieved data into frames
  and hands them out first in, first out. The pruning loop is modelled in full although
  \<open>is_holocene_active\<close> is constantly false and no queue is pruned.
\<close>

section \<open>Definitions\<close>

record 'p frame_queue =
  fq_prev :: 'p
  fq_queue :: "frame list"
  fq_rollup_config :: rollup_config

definition frame_queue_new :: "'p \<Rightarrow> rollup_config \<Rightarrow> 'p frame_queue" where
  "frame_queue_new prev cfg = \<lparr>fq_prev = prev, fq_queue = [], fq_rollup_config = cfg\<rparr>"

definition is_holocene_active :: "'p frame_queue \<Rightarrow> block_info \<Rightarrow> bool" where
  "is_holocene_active s origin = False"

text \<open>The first index of a frame of channel \<open>cid\<close>; the length of the queue when there is none.\<close>

fun position_of :: "channel_id \<Rightarrow> frame list \<Rightarrow> nat" where
  "position_of cid [] = 0"
| "position_of cid (f # fs) = (if fr_id f = cid then 0 else Suc (position_of cid fs))"

definition remove_at :: "nat \<Rightarrow> 'a list \<Rightarrow> 'a list" where
  "remove_at i xs = take i xs @ drop (Suc i) xs"

text \<open>\<open>drain(a..=b)\<close>\<close>

definition drain_range :: "nat \<Rightarrow> nat \<Rightarrow> 'a list \<Rightarrow> 'a list" where
  "drain_range a b xs = take a xs @ drop (Suc b) xs"

lemma position_of_le: "i < length q \<Longrightarrow> position_of (fr_id (q ! i)) q \<le> i"
proof (induction q arbitrary: i)
  case (Cons f q)
  then show ?case by (cases i) auto
qed simp

text \<open>
  The loop of \<open>prune\<close>. The bound \<open>self.queue.len() - 1\<close> wraps on an empty queue and the
  index then panics.
\<close>

function prune_loop :: "nat \<Rightarrow> frame list \<Rightarrow> frame list option" where
  "prune_loop i q =
     (if q = [] then None
      else if i < length q - 1 then
        let prev_frame = q ! i; next_frame = q ! (i + 1);
            extends_channel = (fr_id prev_frame = fr_id next_frame) in
        if extends_channel \<and> fr_number prev_frame + 1 \<noteq> fr_number next_frame
        then prune_loop i (remove_at (i + 1) q)
        else if extends_channel \<and> fr_is_last prev_frame
        then prune_loop i (remove_at (i + 1) q)
        else if \<not> extends_channel \<and> fr_number next_frame \<noteq> 0
        then prune_loop i (remove_at (i + 1) q)
        else if \<not> extends_channel \<and> \<not> fr_is_last prev_frame \<and> fr_number next_frame = 0
        then let first_frame = position_of (fr_id prev_frame) q
             in prune_loop (i - (i + 1 - first_frame)) (drain_range first_frame i q)
        else prune_loop (i + 1) q
      else Some q)"
  by pat_completeness auto
termination
proof (relation "measure (\<lambda>(i, q). 2 * length q - i)", goal_cases)
  case (5 i q prev_frame next_frame ext first)
  then have "position_of (fr_id (q ! i)) q \<le> i" and "Suc i < length q"
    using position_of_le [of i q] by auto
  with 5 show ?case
    by (simp add: drain_range_def min_def)
qed (auto simp: remove_at_def)

definition fq_prune :: "block_info \<Rightarrow> 'p frame_queue \<Rightarrow> unit presult \<times> 'p frame_queue" where
  "fq_prune origin s =
     (if \<not> is_holocene_active s origin then (Ok (), s)
      else case prune_loop 0 (fq_queue s) of
        None \<Rightarrow> (Panic, s)
      | Some q \<Rightarrow> (Ok (), s\<lparr>fq_queue := q\<rparr>))"

definition load_frames :: "('p, bytes) stage \<Rightarrow> 'p frame_queue \<Rightarrow> unit presult \<times> 'p frame_queue" where
  "load_frames P s =
     (if fq_queue s \<noteq> [] then (Ok (), s)
      else
        let (r, p) = st_next P (fq_prev s); s1 = s\<lparr>fq_prev := p\<rparr> in
        rbind r s1 (\<lambda>data.
        case parse_frames data of
          Err e \<Rightarrow> (Ok (), s1)
        | Panic \<Rightarrow> (Panic, s1)
        | Ok frames \<Rightarrow>
            let s2 = s1\<lparr>fq_queue := fq_queue s1 @ frames\<rparr> in
            rbind (ok_or (st_origin P (fq_prev s2)) (crit MissingOrigin)) s2 (\<lambda>origin.
            fq_prune origin s2)))"

definition next_frame :: "('p, bytes) stage \<Rightarrow> 'p frame_queue \<Rightarrow> frame presult \<times> 'p frame_queue" where
  "next_frame P s =
     (let (r, s1) = load_frames P s in
      rbind r s1 (\<lambda>_.
        case fq_queue s1 of
          [] \<Rightarrow> (Err (temp NotEnoughData), s1)
        | f # fs \<Rightarrow> (Ok f, s1\<lparr>fq_queue := fs\<rparr>)))"

definition fq_advance :: "('p, bytes) stage \<Rightarrow> 'p frame_queue \<Rightarrow> unit presult \<times> 'p frame_queue" where
  "fq_advance P s = (let (r, p) = st_advance P (fq_prev s) in (r, s\<lparr>fq_prev := p\<rparr>))"

definition fq_signal :: "('p, bytes) stage \<Rightarrow> signal \<Rightarrow> 'p frame_queue \<Rightarrow> unit presult \<times> 'p frame_queue" where
  "fq_signal P sg s =
     (let (r, p) = st_signal P sg (fq_prev s); s1 = s\<lparr>fq_prev := p\<rparr> in
      rbind r s1 (\<lambda>_. (Ok (), s1\<lparr>fq_queue := []\<rparr>)))"

definition frame_queue_stage :: "('p, bytes) stage \<Rightarrow> ('p frame_queue, frame) stage" where
  "frame_queue_stage P =
     \<lparr>st_next = next_frame P, st_origin = (\<lambda>s. st_origin P (fq_prev s)),
      st_advance = fq_advance P, st_signal = fq_signal P\<rparr>"

section \<open>The stage contract\<close>

lemma frame_queue_stage_sel [simp]:
  "st_next (frame_queue_stage P) = next_frame P"
  "st_origin (frame_queue_stage P) = (\<lambda>s. st_origin P (fq_prev s))"
  "st_advance (frame_queue_stage P) = fq_advance P"
  "st_signal (frame_queue_stage P) = fq_signal P"
  by (simp_all add: frame_queue_stage_def)

lemma load_frames_prev:
  "fq_prev (snd (load_frames P s)) = (if fq_queue s = [] then snd (st_next P (fq_prev s)) else fq_prev s)"
  by (auto simp: load_frames_def fq_prune_def is_holocene_active_def Let_def
           split: prod.splits rbind_splits res.splits)

lemma next_frame_prev: "fq_prev (snd (next_frame P s)) = fq_prev (snd (load_frames P s))"
  by (auto simp: next_frame_def Let_def split: prod.splits rbind_splits list.splits)

locale data_provider = stage_contract P inv for P :: "('p, bytes) stage" and inv

sublocale data_provider \<subseteq> frames: stage_over P inv "frame_queue_stage P" fq_prev "\<lambda>_. True"
proof
  fix q sg
  show "st_origin (frame_queue_stage P) q = st_origin P (fq_prev q)"
    by simp
  have "\<exists>n. fq_prev (snd (st_next (frame_queue_stage P) q)) = after_pulls n (st_next P) (fq_prev q)"
    by (simp add: next_frame_prev load_frames_prev) (metis after_pulls.simps)
  then show "inv (fq_prev (snd (st_next (frame_queue_stage P) q))) \<and> st_origin P (fq_prev (snd (st_next (frame_queue_stage P) q))) = st_origin P (fq_prev q)" if "inv (fq_prev q)"
    using that by (rule pulled_keeps [rotated])
  show "fst (st_advance (frame_queue_stage P) q) = fst (st_advance P (fq_prev q))"
    by (simp add: fq_advance_def split: prod.split)
  show "fq_prev (snd (st_advance (frame_queue_stage P) q)) = snd (st_advance P (fq_prev q))"
    by (simp add: fq_advance_def split: prod.split)
  show "(fst (st_signal (frame_queue_stage P) sg q) = Ok () \<longrightarrow> fst (st_signal P sg (fq_prev q)) = Ok ())
       \<and> fq_prev (snd (st_signal (frame_queue_stage P) sg q)) = snd (st_signal P sg (fq_prev q))
     \<or> signal_origin sg = None \<and> fq_prev (snd (st_signal (frame_queue_stage P) sg q)) = fq_prev q"
    by (intro disjI1) (auto simp: fq_signal_def Let_def split: prod.splits rbind_splits)
qed simp_all

type_synonym frame_queue_state = "retrieval_state frame_queue"

definition l1_frame_stage ::
  "abi_decoder \<Rightarrow> chain_provider \<Rightarrow> da_provider \<Rightarrow> (frame_queue_state, frame) stage" where
  "l1_frame_stage A cp dap = frame_queue_stage (l1_retrieval_stage A cp dap)"

interpretation l1_data: data_provider "l1_retrieval_stage A cp dap" "\<lambda>_. True" for A cp dap
  using l1.retrieval.stage_contract_axioms
  by (simp add: l1_retrieval_stage_def data_provider_def)

section \<open>Pruning\<close>

text \<open>Two frames may follow each other: the next one of the channel, or the first of another after a last one.\<close>

definition follows :: "frame \<Rightarrow> frame \<Rightarrow> bool" where
  "follows p n \<longleftrightarrow>
     (if fr_id p = fr_id n then fr_number n = fr_number p + 1 \<and> \<not> fr_is_last p
      else fr_number n = 0 \<and> fr_is_last p)"

declare prune_loop.simps [simp del]

lemma successively_take_Suc:
  assumes "successively R (take (Suc i) q)" and "Suc i < length q" and "R (q ! i) (q ! Suc i)"
  shows "successively R (take (Suc (Suc i)) q)"
proof -
  have "take (Suc (Suc i)) q = take (Suc i) q @ [q ! Suc i]"
    using assms(2) by (rule take_Suc_conv_app_nth)
  moreover have "last (take (Suc i) q) = q ! i" and "take (Suc i) q \<noteq> []"
    using assms(2) by (auto simp: take_Suc_conv_app_nth)
  ultimately show ?thesis
    using assms(1,3) by (simp add: successively_append_iff)
qed

lemma successively_take_le: "\<lbrakk> successively R (take n q); m \<le> n \<rbrakk> \<Longrightarrow> successively R (take m q)"
  by (metis append_take_drop_id min.absorb2 successively_append_iff take_take min.commute)

lemma successively_take_1: "successively R (take (Suc 0) q)"
  by (cases q) auto

lemma subseq_drain_range:
  assumes "a \<le> Suc b"
  shows "subseq (drain_range a b xs) xs"
proof -
  have "drop (Suc b) xs = drop (Suc b - a) (drop a xs)"
    using assms by simp
  then have "subseq (drop (Suc b) xs) (drop a xs)"
    by (simp only: suffix_drop suffix_imp_subseq)
  then have "subseq (take a xs @ drop (Suc b) xs) (take a xs @ drop a xs)"
    by (intro list_emb_append_mono) simp_all
  then show ?thesis by (simp add: drain_range_def)
qed

lemma remove_at_drain: "remove_at i xs = drain_range i i xs"
  by (simp add: remove_at_def drain_range_def)

text \<open>One round of the loop: drop the next frame, drop the unfinished channel, or move on.\<close>

lemma prune_loop_round:
  assumes "Suc i < length q"
  obtains (drop_next) "prune_loop i q = prune_loop i (remove_at (Suc i) q)"
  | (drop_channel) "prune_loop i q = prune_loop (i - (Suc i - position_of (fr_id (q ! i)) q))
      (drain_range (position_of (fr_id (q ! i)) q) i q)"
  | (move_on) "prune_loop i q = prune_loop (Suc i) q" and "follows (q ! i) (q ! Suc i)"
proof -
  have "q \<noteq> []" and "i < length q - Suc 0" using assms by auto
  then show thesis
    using that
    by (cases "fr_id (q ! i) = fr_id (q ! Suc i)"; cases "fr_number (q ! i) + 1 = fr_number (q ! Suc i)";
        cases "fr_is_last (q ! i)"; cases "fr_number (q ! Suc i) = 0")
       (simp_all add: prune_loop.simps [of i q] Let_def follows_def)
qed

lemma prune_loop_correct:
  assumes "q \<noteq> []" and "successively follows (take (Suc i) q)"
  shows "\<exists>q'. prune_loop i q = Some q' \<and> successively follows q' \<and> subseq q' q \<and> q' \<noteq> []"
  using assms
proof (induction "2 * length q - i" arbitrary: i q rule: less_induct)
  case less
  show ?case
  proof (cases "Suc i < length q")
    case False
    then have "prune_loop i q = Some q" and "take (Suc i) q = q"
      using less.prems(1) by (auto simp: prune_loop.simps [of i q])
    with less.prems show ?thesis by auto
  next
    case len: True
    define k where "k = position_of (fr_id (q ! i)) q"
    have k: "k \<le> i" using len position_of_le [of i q] by (simp add: k_def)
    have step: "\<exists>q'. prune_loop i q = Some q' \<and> successively follows q' \<and> subseq q' q \<and> q' \<noteq> []"
      if "prune_loop i q = prune_loop j r" "2 * length r - j < 2 * length q - i" "r \<noteq> []"
        "successively follows (take (Suc j) r)" "subseq r q" for j r
      using less.hyps [OF that(2-4)] that(1,5) by (auto intro: subseq_order.trans)
    from len show ?thesis
    proof (cases rule: prune_loop_round)
      case drop_next
      show ?thesis
      proof (rule step [OF drop_next])
        show "subseq (remove_at (Suc i) q) q" by (simp add: remove_at_drain subseq_drain_range)
      qed (use len less.prems in \<open>auto simp: remove_at_def\<close>)
    next
      case drop_channel
      show ?thesis
      proof (rule step [OF drop_channel [folded k_def]])
        show "2 * length (drain_range k i q) - (i - (Suc i - k)) < 2 * length q - i"
          using k len by (simp add: drain_range_def min_def)
        show "drain_range k i q \<noteq> []"
          using len by (simp add: drain_range_def)
        show "subseq (drain_range k i q) q"
          using k by (simp add: subseq_drain_range)
        show "successively follows (take (Suc (i - (Suc i - k))) (drain_range k i q))"
        proof (cases k)
          case 0
          then show ?thesis by (simp add: successively_take_1)
        next
          case (Suc m)
          then have "take (Suc (i - (Suc i - k))) (drain_range k i q) = take k q"
            using k len by (simp add: drain_range_def min_def)
          then show ?thesis
            using successively_take_le [OF less.prems(2)] k by simp
        qed
      qed
    next
      case move_on
      then show ?thesis
        using len less.prems successively_take_Suc by (intro step [of "Suc i" q]) auto
    qed
  qed
qed

section \<open>Properties\<close>

text \<open>
  The pruning loop ends on every queue that holds a frame and leaves a subsequence of
  it in which every frame continues the channel of the one before or opens a new channel
  after a closed one.
\<close>

theorem prune_leaves_contiguous_frames:
  assumes "q \<noteq> []"
  shows "\<exists>q'. prune_loop 0 q = Some q' \<and> successively follows q' \<and> subseq q' q \<and> q' \<noteq> []"
  using assms by (rule prune_loop_correct) (rule successively_take_1)

theorem prune_leaves_contiguous_frames_witness:
  "\<exists>q'. prune_loop 0 [example_frame, example_frame] = Some q' \<and> successively follows q'
     \<and> subseq q' [example_frame, example_frame] \<and> q' \<noteq> []"
  by (rule prune_leaves_contiguous_frames) simp

lemma next_frame_queued:
  "fq_queue s = f # fs \<Longrightarrow> next_frame P s = (Ok f, s\<lparr>fq_queue := fs\<rparr>)"
  by (simp add: next_frame_def load_frames_def)

lemma next_frame_load:
  assumes "fq_queue s = []" and "st_next P (fq_prev s) = (Ok data, p)" and "parse_frames data = Ok (f # fs)"
    and "st_origin P p \<noteq> None"
  shows "next_frame P s = (Ok f, s\<lparr>fq_prev := p, fq_queue := fs\<rparr>)"
  using assms by (auto simp: next_frame_def load_frames_def fq_prune_def is_holocene_active_def)

lemma pulls_queued:
  "fq_queue s = fs \<Longrightarrow> pulls (length fs) (next_frame P) s = map Ok fs
     \<and> after_pulls (length fs) (next_frame P) s = s\<lparr>fq_queue := []\<rparr>"
proof (induction fs arbitrary: s)
  case (Cons f fs)
  then show ?case
    using Cons.IH [of "s\<lparr>fq_queue := fs\<rparr>"] by (simp add: next_frame_queued)
qed simp

text \<open>
  A data item that the batcher built from a list of frames comes out of the frame queue
  as exactly those frames, in order, with a single pull from the stage below.
\<close>

theorem frame_queue_delivers_frames:
  assumes "fq_queue s = []" and "fs \<noteq> []" and "\<forall>f \<in> set fs. wf_frame f"
    and "st_next P (fq_prev s) = (Ok (DERIVATION_VERSION_0 # concat (map encode fs)), p)"
    and "st_origin P p \<noteq> None"
  shows "pulls (length fs) (next_frame P) s = map Ok fs
     \<and> after_pulls (length fs) (next_frame P) s = s\<lparr>fq_prev := p\<rparr>"
proof -
  obtain f gs where fs: "fs = f # gs" using assms(2) by (cases fs) auto
  have "parse_frames (DERIVATION_VERSION_0 # concat (map encode fs)) = Ok (f # gs)"
    using parse_frames_encoded [OF assms(2,3)] fs by simp
  from next_frame_load [OF assms(1,4) this assms(5)]
  show ?thesis
    using pulls_queued [of "s\<lparr>fq_prev := p, fq_queue := gs\<rparr>" gs P] assms(1) by (simp add: fs)
qed

definition ex_frame_stage :: "(retrieval_state, bytes) stage" where
  "ex_frame_stage =
     l1_retrieval_stage ex_abi ex_l1
       \<lparr>da_get_input = (\<lambda>c. Ok (DERIVATION_VERSION_0 # concat (map encode [example_frame, example_frame])))\<rparr>"

theorem frame_queue_delivers_frames_witness:
  "pulls 2 (next_frame ex_frame_stage)
     (frame_queue_new (ex_retrieval [[8]] True (Some (ex_block 5))) ex_rollup_config)
   = [Ok example_frame, Ok example_frame]"
proof -
  define s where "s = frame_queue_new (ex_retrieval [[8]] True (Some (ex_block 5))) ex_rollup_config"
  have "st_next ex_frame_stage (fq_prev s) =
      (Ok (DERIVATION_VERSION_0 # concat (map encode [example_frame, example_frame])),
       ex_retrieval [] True (Some (ex_block 5)))"
    by (simp add: s_def ex_frame_stage_def frame_queue_new_def ex_retrieval_def retrieval_unfold)
  moreover have "st_origin ex_frame_stage (ex_retrieval [] True (Some (ex_block 5))) \<noteq> None"
    by (simp add: ex_frame_stage_def l1_retrieval_stage_def ex_retrieval_def ex_traversal_def)
  ultimately show ?thesis
    using frame_queue_delivers_frames [of s "[example_frame, example_frame]" ex_frame_stage] wf_example_frame
    by (simp add: s_def frame_queue_new_def numeral_2_eq_2)
qed

end
