(* ===== verification/Channel_Bank.thy ===== *)
theory Channel_Bank
  imports Channels Frame_Queue
begin

text \<open>
  \<open>ChannelBank\<close> (\<^verbatim>\<open>derive/src/stages/channel/channel_bank.rs\<close>): a bounded set of channels in
  arrival order. Frames are added to their channel, the oldest channels are pruned when the
  bank grows too large, timed out channels are dropped from the front, and the first ready
  channel in the queue is read.
\<close>

section \<open>Definitions\<close>

definition FJORD_MAX_CHANNEL_BANK_SIZE :: usize where
  "FJORD_MAX_CHANNEL_BANK_SIZE = 1000000000"

record 'p channel_bank =
  cb_cfg :: rollup_config
  cb_channels :: "(channel_id, channel) hmap"
  cb_channel_queue :: "channel_id list"
  cb_prev :: 'p

definition channel_bank_new :: "rollup_config \<Rightarrow> 'p \<Rightarrow> 'p channel_bank" where
  "channel_bank_new cfg prev = \<lparr>cb_cfg = cfg, cb_channels = [], cb_channel_queue = [], cb_prev = prev\<rparr>"

definition channels_size :: "(channel_id, channel) hmap \<Rightarrow> usize" where
  "channels_size m = sum_list (map (\<lambda>(k, c). channel_size c) m)"

definition bank_size :: "'p channel_bank \<Rightarrow> usize" where
  "bank_size s = channels_size (cb_channels s)"

text \<open>The \<open>while\<close> loop of \<open>prune\<close>: each round takes the front of the queue.\<close>

fun prune_channels ::
  "usize \<Rightarrow> channel_id list \<Rightarrow> (channel_id, channel) hmap
     \<Rightarrow> unit presult \<times> channel_id list \<times> (channel_id, channel) hmap" where
  "prune_channels total_size [] m =
     (if total_size > FJORD_MAX_CHANNEL_BANK_SIZE then (Err (crit ChannelProviderEmpty), [], m) else (Ok (), [], m))"
| "prune_channels total_size (cid # q) m =
     (if total_size > FJORD_MAX_CHANNEL_BANK_SIZE then
        (case map_of m cid of
           None \<Rightarrow> (Err (crit ChannelNotFound), q, m)
         | Some c \<Rightarrow> prune_channels (total_size - channel_size c) q (AList.delete cid m))
      else (Ok (), cid # q, m))"

definition bank_prune :: "'p channel_bank \<Rightarrow> unit presult \<times> 'p channel_bank" where
  "bank_prune s =
     (let (r, q, m) = prune_channels (bank_size s) (cb_channel_queue s) (cb_channels s)
      in (r, s\<lparr>cb_channel_queue := q, cb_channels := m\<rparr>))"

definition timed_out :: "rollup_config \<Rightarrow> block_info \<Rightarrow> channel \<Rightarrow> bool" where
  "timed_out cfg origin c \<longleftrightarrow> open_block_number c + rc_channel_timeout cfg < bi_number origin"

definition ingest_frame :: "('p, frame) stage \<Rightarrow> frame \<Rightarrow> 'p channel_bank \<Rightarrow> unit presult \<times> 'p channel_bank" where
  "ingest_frame P f s =
     rbind (ok_or (st_origin P (cb_prev s)) (crit MissingOrigin)) s (\<lambda>origin.
       let s1 = (case map_of (cb_channels s) (fr_id f) of
                   Some c \<Rightarrow> s
                 | None \<Rightarrow> s\<lparr>cb_channel_queue := cb_channel_queue s @ [fr_id f],
                             cb_channels := AList.update (fr_id f) (channel_new (fr_id f) origin) (cb_channels s)\<rparr>)
       in case map_of (cb_channels s1) (fr_id f) of
            None \<Rightarrow> (Panic, s1)
          | Some current \<Rightarrow>
              if timed_out (cb_cfg s1) origin current then (Ok (), s1)
              else let (r, c') = add_frame f origin current;
                       s2 = s1\<lparr>cb_channels := AList.update (fr_id f) c' (cb_channels s1)\<rparr>
                   in case r of
                        Err e \<Rightarrow> (Ok (), s2)
                      | Panic \<Rightarrow> (Panic, s2)
                      | Ok _ \<Rightarrow> bank_prune s2)"

definition try_read_channel_at_index ::
  "('p, frame) stage \<Rightarrow> nat \<Rightarrow> 'p channel_bank \<Rightarrow> bytes presult \<times> 'p channel_bank" where
  "try_read_channel_at_index P index s =
     (if index \<ge> length (cb_channel_queue s) then (Panic, s)
      else
        let cid = cb_channel_queue s ! index in
        rbind (ok_or (map_of (cb_channels s) cid) (crit ChannelProviderEmpty)) s (\<lambda>c.
        rbind (ok_or (st_origin P (cb_prev s)) (crit MissingOrigin)) s (\<lambda>origin.
        if timed_out (cb_cfg s) origin c \<or> \<not> is_ready c then (Err (temp Eof), s)
        else
          (ok_or (frame_data c) (crit ChannelProviderEmpty),
           s\<lparr>cb_channels := AList.delete cid (cb_channels s),
             cb_channel_queue := remove_at index (cb_channel_queue s)\<rparr>))))"

text \<open>
  \<open>(0..len).find_map(|i| self.try_read_channel_at_index(i).ok())\<close>: errors of a single
  channel are skipped, whatever they are.
\<close>

fun find_readable ::
  "('p, frame) stage \<Rightarrow> nat list \<Rightarrow> 'p channel_bank \<Rightarrow> bytes option presult \<times> 'p channel_bank" where
  "find_readable P [] s = (Ok None, s)"
| "find_readable P (i # is) s =
     (case try_read_channel_at_index P i s of
        (Ok data, s') \<Rightarrow> (Ok (Some data), s')
      | (Err e, s') \<Rightarrow> find_readable P is s'
      | (Panic, s') \<Rightarrow> (Panic, s'))"

definition bank_read :: "('p, frame) stage \<Rightarrow> 'p channel_bank \<Rightarrow> bytes option presult \<times> 'p channel_bank" where
  "bank_read P s =
     (case cb_channel_queue s of
        [] \<Rightarrow> (Err (temp Eof), s)
      | first # rest \<Rightarrow>
          rbind (ok_or (map_of (cb_channels s) first) (crit ChannelProviderEmpty)) s (\<lambda>c.
          rbind (ok_or (st_origin P (cb_prev s)) (crit ChannelProviderEmpty)) s (\<lambda>origin.
          if timed_out (cb_cfg s) origin c
          then (Ok None, s\<lparr>cb_channels := AList.delete first (cb_channels s), cb_channel_queue := rest\<rparr>)
          else
            (case find_readable P [0..<length (cb_channel_queue s)] s of
               (Ok None, s') \<Rightarrow> (Err (temp Eof), s')
             | (Ok (Some data), s') \<Rightarrow> (Ok (Some data), s')
             | (Err e, s') \<Rightarrow> (Err e, s')
             | (Panic, s') \<Rightarrow> (Panic, s')))))"

definition bank_next_data :: "('p, frame) stage \<Rightarrow> 'p channel_bank \<Rightarrow> bytes option presult \<times> 'p channel_bank" where
  "bank_next_data P s =
     (let (r, s0) = bank_read P s in
      case r of
        Err e \<Rightarrow>
          if e \<noteq> Temporary Eof then (Err (crit ChannelProviderEmpty), s0)
          else
            let (rf, p) = st_next P (cb_prev s0); s1 = s0\<lparr>cb_prev := p\<rparr> in
            rbind rf s1 (\<lambda>f.
            let (ri, s2) = ingest_frame P f s1 in
            rbind ri s2 (\<lambda>_. (Err (temp NotEnoughData), s2)))
      | data \<Rightarrow> (data, s0))"

definition bank_advance :: "('p, frame) stage \<Rightarrow> 'p channel_bank \<Rightarrow> unit presult \<times> 'p channel_bank" where
  "bank_advance P s = (let (r, p) = st_advance P (cb_prev s) in (r, s\<lparr>cb_prev := p\<rparr>))"

definition bank_signal :: "('p, frame) stage \<Rightarrow> signal \<Rightarrow> 'p channel_bank \<Rightarrow> unit presult \<times> 'p channel_bank" where
  "bank_signal P sg s =
     (let (r, p) = st_signal P sg (cb_prev s); s1 = s\<lparr>cb_prev := p\<rparr> in
      rbind r s1 (\<lambda>_. (Ok (), s1\<lparr>cb_channels := [], cb_channel_queue := []\<rparr>)))"

definition channel_bank_stage :: "('p, frame) stage \<Rightarrow> ('p channel_bank, bytes option) stage" where
  "channel_bank_stage P =
     \<lparr>st_next = bank_next_data P, st_origin = (\<lambda>s. st_origin P (cb_prev s)),
      st_advance = bank_advance P, st_signal = bank_signal P\<rparr>"

lemma channel_bank_stage_sel [simp]:
  "st_next (channel_bank_stage P) = bank_next_data P"
  "st_origin (channel_bank_stage P) = (\<lambda>s. st_origin P (cb_prev s))"
  "st_advance (channel_bank_stage P) = bank_advance P"
  "st_signal (channel_bank_stage P) = bank_signal P"
  by (simp_all add: channel_bank_stage_def)

section \<open>The invariant\<close>

text \<open>The queue lists every channel once, and every channel is well formed and filed under its id.\<close>

definition queue_inv :: "channel_id list \<Rightarrow> (channel_id, channel) hmap \<Rightarrow> bool" where
  "queue_inv q m \<longleftrightarrow>
     hm_invar m \<and> distinct q \<and> set q = fst ` set m \<and> (\<forall>(k, c) \<in> set m. ch_id c = k \<and> channel_inv c)"

definition bank_inv :: "'p channel_bank \<Rightarrow> bool" where
  "bank_inv s \<longleftrightarrow> queue_inv (cb_channel_queue s) (cb_channels s)"

lemma queue_inv_lookup:
  assumes "queue_inv q m"
  shows "cid \<in> set q \<longleftrightarrow> (\<exists>c. map_of m cid = Some c)"
    and "map_of m cid = Some c \<Longrightarrow> ch_id c = cid \<and> channel_inv c"
  using assms by (auto simp: queue_inv_def map_of_eq_None_iff dest: map_of_SomeD
                       simp flip: not_None_eq)

lemma queue_inv_Nil: "queue_inv [] m \<Longrightarrow> m = []"
  by (simp add: queue_inv_def)

lemma fst_image_update: "fst ` set (AList.update k v m) = insert k (fst ` set m)"
  by (auto simp: update_keys simp flip: set_map)

lemma delete_conv_filter: "AList.delete k m = filter (\<lambda>(k', v). k' \<noteq> k) m"
  by (induction m) auto

lemma queue_inv_delete:
  assumes "queue_inv q m" and "set q' = set q - {cid}" and "distinct q'"
  shows "queue_inv q' (AList.delete cid m)"
  using assms by (auto simp: queue_inv_def hm_invar_def delete_conv_filter distinct_map_filter)

lemma queue_inv_update:
  assumes "queue_inv q m" and "ch_id c' = cid" and "channel_inv c'"
    and "set q' = insert cid (set q)" and "distinct q'"
  shows "queue_inv q' (AList.update cid c' m)"
proof -
  have hm: "hm_invar m" using assms(1) by (simp add: queue_inv_def)
  then have hm': "hm_invar (AList.update cid c' m)" by (rule hm.invar_insert)
  have "ch_id c = k \<and> channel_inv c" if "(k, c) \<in> set (AList.update cid c' m)" for k c
  proof -
    have "map_of (AList.update cid c' m) k = Some c"
      using that hm' by (simp add: hm_in_set_iff)
    then have "k = cid \<and> c = c' \<or> map_of m k = Some c"
      by (auto simp: update_conv' split: if_splits)
    with assms(2,3) queue_inv_lookup(2) [OF assms(1)] show ?thesis by blast
  qed
  with assms hm' show ?thesis by (auto simp: queue_inv_def fst_image_update)
qed

section \<open>Pruning\<close>

text \<open>
  The loop counts on the queue naming every channel: under the invariant its running total
  is the size of what is left, so it ends at the latest when the bank is empty.
\<close>

lemma prune_channels_spec:
  assumes "queue_inv q m"
  shows "\<exists>n m'. prune_channels (channels_size m) q m = (Ok (), drop n q, m') \<and> n \<le> length q
     \<and> queue_inv (drop n q) m' \<and> channels_size m' \<le> FJORD_MAX_CHANNEL_BANK_SIZE
     \<and> (\<forall>cid. map_of m' cid = (if cid \<in> set (take n q) then None else map_of m cid))
     \<and> (0 < n \<longrightarrow> FJORD_MAX_CHANNEL_BANK_SIZE < channels_size m)"
  using assms
proof (induction q arbitrary: m)
  case Nil
  then have "m = []" by (rule queue_inv_Nil)
  with Nil show ?case by (simp add: channels_size_def FJORD_MAX_CHANNEL_BANK_SIZE_def)
next
  case (Cons cid q)
  show ?case
  proof (cases "channels_size m > FJORD_MAX_CHANNEL_BANK_SIZE")
    case False
    with Cons.prems show ?thesis by (intro exI [of _ 0] exI [of _ m]) auto
  next
    case True
    from Cons.prems queue_inv_lookup(1) [OF Cons.prems, of cid] obtain c where c: "map_of m cid = Some c"
      by auto
    have hm: "hm_invar m" using Cons.prems by (simp add: queue_inv_def)
    have inv': "queue_inv q (AList.delete cid m)"
      using Cons.prems by (intro queue_inv_delete [OF Cons.prems]) (auto simp: queue_inv_def)
    have size: "channels_size m - channel_size c = channels_size (AList.delete cid m)"
      using hm_sum_delete [OF hm c, of channel_size] by (simp add: channels_size_def)
    from Cons.IH [OF inv'] obtain n m' where
      "prune_channels (channels_size (AList.delete cid m)) q (AList.delete cid m) = (Ok (), drop n q, m')"
      "n \<le> length q" "queue_inv (drop n q) m'" "channels_size m' \<le> FJORD_MAX_CHANNEL_BANK_SIZE"
      "\<forall>k. map_of m' k = (if k \<in> set (take n q) then None else map_of (AList.delete cid m) k)"
      by blast
    with True c show ?thesis
      by (intro exI [of _ "Suc n"] exI [of _ m']) (auto simp: size delete_conv')
  qed
qed

lemma bank_prune_spec:
  assumes "bank_inv s"
  shows "\<exists>n s'. bank_prune s = (Ok (), s') \<and> bank_inv s' \<and> cb_channel_queue s' = drop n (cb_channel_queue s)
     \<and> bank_size s' \<le> FJORD_MAX_CHANNEL_BANK_SIZE \<and> cb_prev s' = cb_prev s \<and> cb_cfg s' = cb_cfg s
     \<and> (\<forall>cid. map_of (cb_channels s') cid =
           (if cid \<in> set (take n (cb_channel_queue s)) then None else map_of (cb_channels s) cid))
     \<and> (0 < n \<longrightarrow> FJORD_MAX_CHANNEL_BANK_SIZE < bank_size s)"
proof -
  from prune_channels_spec [OF assms [unfolded bank_inv_def]] obtain n m' where
    "prune_channels (bank_size s) (cb_channel_queue s) (cb_channels s) = (Ok (), drop n (cb_channel_queue s), m')"
    "queue_inv (drop n (cb_channel_queue s)) m'" "channels_size m' \<le> FJORD_MAX_CHANNEL_BANK_SIZE"
    "\<forall>cid. map_of m' cid = (if cid \<in> set (take n (cb_channel_queue s)) then None else map_of (cb_channels s) cid)"
    "0 < n \<longrightarrow> FJORD_MAX_CHANNEL_BANK_SIZE < bank_size s"
    by (auto simp: bank_size_def)
  then show ?thesis
    by (intro exI [of _ n] exI [of _ "s\<lparr>cb_channel_queue := drop n (cb_channel_queue s), cb_channels := m'\<rparr>"])
       (simp add: bank_prune_def bank_inv_def bank_size_def)
qed

section \<open>Ingesting\<close>

lemma bank_inv_open_channel:
  assumes "bank_inv s" and "map_of (cb_channels s) cid = None"
  shows "bank_inv (s\<lparr>cb_channel_queue := cb_channel_queue s @ [cid],
                     cb_channels := AList.update cid (channel_new cid origin) (cb_channels s)\<rparr>)"
proof -
  have "cid \<notin> set (cb_channel_queue s)"
    using assms queue_inv_lookup(1) by (fastforce simp: bank_inv_def)
  with assms show ?thesis
    unfolding bank_inv_def
    by (auto intro!: queue_inv_update simp: channel_inv_new) (auto simp: channel_new_def queue_inv_def)
qed

lemma bank_inv_add_frame:
  assumes "bank_inv s" and "map_of (cb_channels s) cid = Some c" and "add_frame f origin c = (r, c')"
  shows "bank_inv (s\<lparr>cb_channels := AList.update cid c' (cb_channels s)\<rparr>)"
proof -
  note qi = assms(1) [unfolded bank_inv_def]
  have c: "ch_id c = cid" "channel_inv c" and q: "cid \<in> set (cb_channel_queue s)" "distinct (cb_channel_queue s)"
    using queue_inv_lookup [OF qi] assms(2) qi by (auto simp: queue_inv_def)
  have "ch_id c' = cid \<and> channel_inv c'"
    using assms(3) c add_frame_Ok_fields(5) [of f origin c c'] channel_inv_add_frame [of c f origin c']
      add_frame_Err_unchanged [of f origin c] by (cases r) auto
  then show ?thesis
    using q by (auto simp: bank_inv_def intro!: queue_inv_update [OF qi])
qed

text \<open>The bank with a channel for the frame, opened at the current origin when it is new.\<close>

definition with_channel :: "frame \<Rightarrow> block_info \<Rightarrow> 'p channel_bank \<Rightarrow> 'p channel_bank" where
  "with_channel f origin s =
     (case map_of (cb_channels s) (fr_id f) of
        Some c \<Rightarrow> s
      | None \<Rightarrow> s\<lparr>cb_channel_queue := cb_channel_queue s @ [fr_id f],
                  cb_channels := AList.update (fr_id f) (channel_new (fr_id f) origin) (cb_channels s)\<rparr>)"

definition channel_for :: "frame \<Rightarrow> block_info \<Rightarrow> 'p channel_bank \<Rightarrow> channel" where
  "channel_for f origin s =
     (case map_of (cb_channels s) (fr_id f) of Some c \<Rightarrow> c | None \<Rightarrow> channel_new (fr_id f) origin)"

lemma with_channel_fields [simp]:
  "cb_prev (with_channel f origin s) = cb_prev s"
  "cb_cfg (with_channel f origin s) = cb_cfg s"
  "map_of (cb_channels (with_channel f origin s)) (fr_id f) = Some (channel_for f origin s)"
  by (auto simp: with_channel_def channel_for_def update_conv' split: option.splits)

lemma bank_inv_with_channel: "bank_inv s \<Longrightarrow> bank_inv (with_channel f origin s)"
  by (auto simp: with_channel_def bank_inv_open_channel split: option.splits)

lemma ingest_frame_eq:
  assumes "st_origin P (cb_prev s) = Some origin"
  shows "ingest_frame P f s =
     (let s1 = with_channel f origin s; c = channel_for f origin s in
      if timed_out (cb_cfg s) origin c then (Ok (), s1)
      else
        let s2 = s1\<lparr>cb_channels := AList.update (fr_id f) (snd (add_frame f origin c)) (cb_channels s1)\<rparr> in
        if fst (add_frame f origin c) = Ok () then bank_prune s2 else (Ok (), s2))"
proof -
  obtain r c' where a: "add_frame f origin (channel_for f origin s) = (r, c')" by fastforce
  then have "r \<noteq> Panic" by auto
  with assms a show ?thesis
    by (cases r) (simp_all add: ingest_frame_def Let_def flip: with_channel_def)
qed

lemma ingest_frame_inv:
  assumes "bank_inv s"
  shows "bank_inv (snd (ingest_frame P f s)) \<and> cb_prev (snd (ingest_frame P f s)) = cb_prev s
    \<and> fst (ingest_frame P f s) = (if st_origin P (cb_prev s) = None then Err (crit MissingOrigin) else Ok ())"
proof (cases "st_origin P (cb_prev s)")
  case None
  with assms show ?thesis by (simp add: ingest_frame_def)
next
  case (Some origin)
  define s1 where "s1 = with_channel f origin s"
  define c where "c = channel_for f origin s"
  define s2 where "s2 = s1\<lparr>cb_channels := AList.update (fr_id f) (snd (add_frame f origin c)) (cb_channels s1)\<rparr>"
  have inv1: "bank_inv s1" and prev1: "cb_prev s1 = cb_prev s"
    using assms by (simp_all add: s1_def bank_inv_with_channel)
  have inv2: "bank_inv s2"
    unfolding s2_def
    by (rule bank_inv_add_frame [OF inv1, where c = c and r = "fst (add_frame f origin c)"])
       (simp_all add: s1_def c_def)
  show ?thesis
    using inv1 inv2 prev1 Some bank_prune_spec [OF inv2]
    by (auto simp: ingest_frame_eq Let_def simp flip: s1_def c_def) (auto simp: s2_def)
qed

section \<open>Reading\<close>

definition drop_channel :: "channel_id \<Rightarrow> 'p channel_bank \<Rightarrow> 'p channel_bank" where
  "drop_channel cid s =
     s\<lparr>cb_channels := AList.delete cid (cb_channels s), cb_channel_queue := remove1 cid (cb_channel_queue s)\<rparr>"

lemma drop_channel_fields [simp]: "cb_prev (drop_channel cid s) = cb_prev s" "cb_cfg (drop_channel cid s) = cb_cfg s"
  by (simp_all add: drop_channel_def)

definition readable :: "block_info \<Rightarrow> 'p channel_bank \<Rightarrow> channel_id \<Rightarrow> bool" where
  "readable origin s cid =
     (case map_of (cb_channels s) cid of
        None \<Rightarrow> False
      | Some c \<Rightarrow> \<not> timed_out (cb_cfg s) origin c \<and> is_ready c)"

definition channel_payload :: "'p channel_bank \<Rightarrow> channel_id \<Rightarrow> bytes option" where
  "channel_payload s cid = (case map_of (cb_channels s) cid of None \<Rightarrow> None | Some c \<Rightarrow> frame_data c)"

lemma remove_at_remove1:
  assumes "distinct q" and "i < length q"
  shows "remove_at i q = remove1 (q ! i) q"
proof -
  have q: "q = take i q @ q ! i # drop (Suc i) q" using assms(2) by (rule id_take_nth_drop)
  have "distinct (take i q @ q ! i # drop (Suc i) q)"
    using assms(1) q by simp
  then have "q ! i \<notin> set (take i q)" by auto
  then have "remove1 (q ! i) (take i q @ q ! i # drop (Suc i) q) = remove_at i q"
    by (simp add: remove1_append remove_at_def)
  with q show ?thesis by simp
qed

lemma bank_inv_drop_channel: "bank_inv s \<Longrightarrow> bank_inv (drop_channel cid s)"
  unfolding bank_inv_def drop_channel_def
  by (simp, rule queue_inv_delete) (auto simp: queue_inv_def)

lemma try_read_spec:
  assumes "bank_inv s" and "st_origin P (cb_prev s) = Some origin" and "i < length (cb_channel_queue s)"
  shows "try_read_channel_at_index P i s =
     (let cid = cb_channel_queue s ! i in
      if readable origin s cid then (ok_or (channel_payload s cid) (crit ChannelProviderEmpty), drop_channel cid s)
      else (Err (temp Eof), s))"
proof -
  let ?cid = "cb_channel_queue s ! i"
  have "?cid \<in> set (cb_channel_queue s)" using assms(3) by simp
  then obtain c where "map_of (cb_channels s) ?cid = Some c"
    using queue_inv_lookup(1) assms(1) unfolding bank_inv_def by blast
  moreover have "remove_at i (cb_channel_queue s) = remove1 ?cid (cb_channel_queue s)"
    using assms(1,3) by (simp add: remove_at_remove1 bank_inv_def queue_inv_def)
  ultimately show ?thesis
    using assms(2,3)
    by (auto simp: try_read_channel_at_index_def readable_def drop_channel_def channel_payload_def Let_def)
qed

lemma readable_payload: "readable origin s cid \<Longrightarrow> \<exists>d. channel_payload s cid = Some d"
  using ready_frame_data by (auto simp: readable_def channel_payload_def split: option.splits)

lemma find_readable_spec:
  assumes "bank_inv s" and "st_origin P (cb_prev s) = Some origin" and "i \<le> length (cb_channel_queue s)"
  shows "find_readable P [i..<length (cb_channel_queue s)] s =
     (case find (readable origin s) (drop i (cb_channel_queue s)) of
        None \<Rightarrow> (Ok None, s)
      | Some cid \<Rightarrow> (Ok (channel_payload s cid), drop_channel cid s))"
  using assms(3)
proof (induction rule: inc_induct)
  case base
  then show ?case by simp
next
  case (step i)
  have d: "drop i (cb_channel_queue s) = cb_channel_queue s ! i # drop (Suc i) (cb_channel_queue s)"
    using step(2) by (simp add: Cons_nth_drop_Suc)
  show ?case
  proof (cases "readable origin s (cb_channel_queue s ! i)")
    case True
    from readable_payload [OF True] show ?thesis
      using True step(2) try_read_spec [OF assms(1,2) step(2)] by (auto simp: upt_conv_Cons d Let_def)
  next
    case False
    then show ?thesis
      using step try_read_spec [OF assms(1,2) step(2)] by (simp add: upt_conv_Cons d Let_def)
  qed
qed

lemma bank_read_spec:
  assumes "bank_inv s" and "st_origin P (cb_prev s) = Some origin"
  shows "bank_read P s =
     (case cb_channel_queue s of
        [] \<Rightarrow> (Err (temp Eof), s)
      | first # rest \<Rightarrow>
          if timed_out (cb_cfg s) origin (the (map_of (cb_channels s) first))
          then (Ok None, drop_channel first s)
          else case find (readable origin s) (first # rest) of
                 None \<Rightarrow> (Err (temp Eof), s)
               | Some cid \<Rightarrow> (Ok (channel_payload s cid), drop_channel cid s))"
proof (cases "cb_channel_queue s")
  case Nil
  then show ?thesis by (simp add: bank_read_def)
next
  case (Cons first rest)
  then obtain c where c: "map_of (cb_channels s) first = Some c"
    using queue_inv_lookup(1) [of "cb_channel_queue s" "cb_channels s" first] assms(1)
    by (auto simp: bank_inv_def)
  have payload: "\<exists>d. channel_payload s cid = Some d" if "find (readable origin s) (first # rest) = Some cid" for cid
  proof -
    from that have "readable origin s cid"
      using find_Some_iff [of "readable origin s" "first # rest" cid] by blast
    then show ?thesis by (rule readable_payload)
  qed
  have found: "find_readable P [0..<length (cb_channel_queue s)] s =
     (case find (readable origin s) (first # rest) of
        None \<Rightarrow> (Ok None, s)
      | Some cid \<Rightarrow> (Ok (channel_payload s cid), drop_channel cid s))"
    using find_readable_spec [OF assms, of 0] Cons by (simp del: find.simps upt_Suc)
  show ?thesis
  proof (cases "find (readable origin s) (first # rest)")
    case None
    with found Cons c assms(2) show ?thesis
      by (simp add: bank_read_def drop_channel_def del: find.simps upt_Suc)
  next
    case (Some cid)
    with found payload [OF Some] Cons c assms(2) show ?thesis
      by (auto simp add: bank_read_def drop_channel_def simp del: find.simps upt_Suc)
  qed
qed

lemma bank_read_inv:
  assumes "bank_inv s"
  shows "bank_inv (snd (bank_read P s)) \<and> cb_prev (snd (bank_read P s)) = cb_prev s"
proof (cases "st_origin P (cb_prev s)")
  case None
  with assms show ?thesis by (auto simp: bank_read_def split: list.splits rbind_splits)
next
  case (Some origin)
  then show ?thesis
    using assms bank_inv_drop_channel [OF assms] unfolding bank_read_spec [OF assms Some]
    by (auto simp del: find.simps split: list.splits option.splits)
qed

section \<open>The stage contract\<close>

lemma bank_next_data_cases:
  obtains (answer) "snd (bank_next_data P s) = snd (bank_read P s)"
  | (pulled) p where "p = snd (st_next P (cb_prev (snd (bank_read P s))))"
      and "snd (bank_next_data P s) = (snd (bank_read P s))\<lparr>cb_prev := p\<rparr>"
  | (ingested) f p where "p = snd (st_next P (cb_prev (snd (bank_read P s))))"
      and "snd (bank_next_data P s) = snd (ingest_frame P f ((snd (bank_read P s))\<lparr>cb_prev := p\<rparr>))"
proof -
  obtain r0 s0 where r: "bank_read P s = (r0, s0)" by fastforce
  obtain rf p where n: "st_next P (cb_prev s0) = (rf, p)" by fastforce
  show thesis
  proof (cases "r0 = Err (Temporary Eof)")
    case False
    with r show thesis by (intro answer) (cases r0, auto simp: bank_next_data_def)
  next
    case eof: True
    show thesis
    proof (cases rf)
      case (Ok f)
      obtain ri s2 where "ingest_frame P f (s0\<lparr>cb_prev := p\<rparr>) = (ri, s2)" by fastforce
      with r n eof Ok show thesis
        by (intro ingested [of p f]) (cases ri; simp add: bank_next_data_def)+
    next
      case (Err e)
      with r n eof show thesis by (intro pulled [of p]) (simp_all add: bank_next_data_def)
    next
      case Panic
      with r n eof show thesis by (intro pulled [of p]) (simp_all add: bank_next_data_def)
    qed
  qed
qed

lemma bank_inv_prev [simp]: "bank_inv (s\<lparr>cb_prev := p\<rparr>) = bank_inv s"
  by (simp add: bank_inv_def)

lemma bank_next_data_inv:
  assumes "bank_inv s"
  shows "bank_inv (snd (bank_next_data P s))"
  using bank_read_inv [OF assms, of P]
  by (cases rule: bank_next_data_cases [of P s]) (simp_all add: ingest_frame_inv)

lemma bank_next_data_prev:
  assumes "bank_inv s"
  shows "\<exists>n. cb_prev (snd (bank_next_data P s)) = after_pulls n (st_next P) (cb_prev s)"
  using bank_read_inv [OF assms, of P]
proof (cases rule: bank_next_data_cases [of P s])
  case answer
  then show ?thesis using bank_read_inv [OF assms, of P] by (intro exI [of _ 0]) simp
next
  case pulled
  then show ?thesis using bank_read_inv [OF assms, of P] by (intro exI [of _ 1]) simp
next
  case ingested
  then show ?thesis using bank_read_inv [OF assms, of P] by (intro exI [of _ 1]) (simp add: ingest_frame_inv)
qed

locale frame_provider = stage_contract P inv for P :: "('p, frame) stage" and inv

sublocale frame_provider \<subseteq> bank: stage_over P inv "channel_bank_stage P" cb_prev bank_inv
proof
  fix q sg
  show "st_origin (channel_bank_stage P) q = st_origin P (cb_prev q)"
    by simp
  show "fst (st_advance (channel_bank_stage P) q) = fst (st_advance P (cb_prev q))"
    and "cb_prev (snd (st_advance (channel_bank_stage P) q)) = snd (st_advance P (cb_prev q))"
    by (simp_all add: bank_advance_def split: prod.split)
  show "(fst (st_signal (channel_bank_stage P) sg q) = Ok () \<longrightarrow> fst (st_signal P sg (cb_prev q)) = Ok ())
       \<and> cb_prev (snd (st_signal (channel_bank_stage P) sg q)) = snd (st_signal P sg (cb_prev q))
     \<or> signal_origin sg = None \<and> cb_prev (snd (st_signal (channel_bank_stage P) sg q)) = cb_prev q"
    by (intro disjI1) (auto simp: bank_signal_def Let_def split: prod.splits rbind_splits)
  assume inv: "bank_inv q"
  then have "\<exists>n. cb_prev (snd (st_next (channel_bank_stage P) q)) = after_pulls n (st_next P) (cb_prev q)"
    by (simp add: bank_next_data_prev)
  then show "inv (cb_prev (snd (st_next (channel_bank_stage P) q))) \<and> st_origin P (cb_prev (snd (st_next (channel_bank_stage P) q))) = st_origin P (cb_prev q)" if "inv (cb_prev q)"
    using that by (rule pulled_keeps [rotated])
  show "bank_inv (snd (st_next (channel_bank_stage P) q))"
    using inv by (simp add: bank_next_data_inv)
  show "bank_inv (snd (st_advance (channel_bank_stage P) q))"
    using inv by (simp add: bank_advance_def split: prod.split)
  show "bank_inv (snd (st_signal (channel_bank_stage P) sg q))"
    using inv by (auto simp: bank_signal_def Let_def bank_inv_def queue_inv_def split: prod.split rbind_splits)
qed

interpretation l1_frames: frame_provider "l1_frame_stage A cp dap" "\<lambda>_. True" for A cp dap
  using l1_data.frames.stage_contract_axioms
  by (simp add: l1_frame_stage_def frame_provider_def)

section \<open>Properties\<close>

text \<open>
  A well formed bank is pruned without error: the oldest channels go first, as few of
  them that the size is within the bound, and what remains is the untouched rest of the
  queue. The critical errors of the loop cannot occur although the running total is a
  machine word.
\<close>

theorem prune_bounds_bank:
  assumes "bank_inv s"
  shows "\<exists>n s'. bank_prune s = (Ok (), s') \<and> bank_inv s' \<and> cb_channel_queue s' = drop n (cb_channel_queue s)
     \<and> bank_size s' \<le> FJORD_MAX_CHANNEL_BANK_SIZE
     \<and> (\<forall>cid. map_of (cb_channels s') cid =
           (if cid \<in> set (take n (cb_channel_queue s)) then None else map_of (cb_channels s) cid))
     \<and> (0 < n \<longrightarrow> FJORD_MAX_CHANNEL_BANK_SIZE < bank_size s)"
  using bank_prune_spec [OF assms] by blast

text \<open>
  C2: reading serves the first channel in arrival order that is complete and not timed out,
  removes exactly that channel and returns its reassembled payload; a timed out channel at
  the front is dropped instead, and with nothing to serve the bank is unchanged.
\<close>

theorem bank_reads_first_ready_channel:
  assumes "bank_inv s" and "st_origin P (cb_prev s) = Some origin"
  shows "bank_read P s =
     (case cb_channel_queue s of
        [] \<Rightarrow> (Err (temp Eof), s)
      | first # rest \<Rightarrow>
          if timed_out (cb_cfg s) origin (the (map_of (cb_channels s) first))
          then (Ok None, drop_channel first s)
          else case find (readable origin s) (first # rest) of
                 None \<Rightarrow> (Err (temp Eof), s)
               | Some cid \<Rightarrow> (Ok (channel_payload s cid), drop_channel cid s))"
  using assms by (rule bank_read_spec)

text \<open>
  Pulling from the bank of the pipeline raises no error of its own but end of data. With
  an origin present, it answers from the channels it has, or takes in one frame and asks to
  be called again, or passes on what the stage below answered; the invariant is kept.
\<close>

theorem bank_next_data_behaviour:
  assumes "bank_inv s" and "st_origin (l1_frame_stage A cp dap) (cb_prev s) = Some origin"
  shows "bank_inv (snd (bank_next_data (l1_frame_stage A cp dap) s)) \<and>
    bank_next_data (l1_frame_stage A cp dap) s =
     (case bank_read (l1_frame_stage A cp dap) s of
        (Ok d, s') \<Rightarrow> (Ok d, s')
      | _ \<Rightarrow>
        (case st_next (l1_frame_stage A cp dap) (cb_prev s) of
           (Ok f, p) \<Rightarrow> (Err (temp NotEnoughData), snd (ingest_frame (l1_frame_stage A cp dap) f (s\<lparr>cb_prev := p\<rparr>)))
         | (Err e, p) \<Rightarrow> (Err e, s\<lparr>cb_prev := p\<rparr>)
         | (Panic, p) \<Rightarrow> (Panic, s\<lparr>cb_prev := p\<rparr>)))"
proof -
  let ?P = "l1_frame_stage A cp dap"
  have read: "(\<exists>d. fst (bank_read ?P s) = Ok d) \<or> bank_read ?P s = (Err (Temporary Eof), s)"
    unfolding bank_read_spec [OF assms] by (auto split: list.splits option.splits)
  have ingest: "fst (ingest_frame ?P f (s\<lparr>cb_prev := snd (st_next ?P (cb_prev s))\<rparr>)) = Ok ()" for f
    using ingest_frame_inv [of "s\<lparr>cb_prev := snd (st_next ?P (cb_prev s))\<rparr>" ?P f] assms
    by (simp add: l1_frames.pull_origin)
  from read have "bank_next_data ?P s =
     (case bank_read ?P s of
        (Ok d, s') \<Rightarrow> (Ok d, s')
      | _ \<Rightarrow>
        (case st_next ?P (cb_prev s) of
           (Ok f, p) \<Rightarrow> (Err (temp NotEnoughData), snd (ingest_frame ?P f (s\<lparr>cb_prev := p\<rparr>)))
         | (Err e, p) \<Rightarrow> (Err e, s\<lparr>cb_prev := p\<rparr>)
         | (Panic, p) \<Rightarrow> (Panic, s\<lparr>cb_prev := p\<rparr>)))"
  proof (elim disjE exE)
    fix d
    assume "fst (bank_read ?P s) = Ok d"
    then show ?thesis by (cases "bank_read ?P s") (simp add: bank_next_data_def)
  next
    assume eof: "bank_read ?P s = (Err (Temporary Eof), s)"
    show ?thesis
    proof (cases "st_next ?P (cb_prev s)")
      case (Pair rf p)
      then show ?thesis
        using eof ingest
        by (cases rf) (auto simp: bank_next_data_def Let_def case_prod_beta)
    qed
  qed
  then show ?thesis
    using bank_next_data_inv [OF assms(1), of ?P] by blast
qed

text \<open>A bank with one complete channel.\<close>

definition ex_ready :: channel where
  "ex_ready = snd (add_frame (ex_frame 0 [9] True) (ex_block 5) (channel_new (replicate 16 255) (ex_block 4)))"

definition ex_bank :: "'p \<Rightarrow> 'p channel_bank" where
  "ex_bank p = \<lparr>cb_cfg = ex_rollup_config, cb_channels = [(replicate 16 255, ex_ready)],
     cb_channel_queue = [replicate 16 255], cb_prev = p\<rparr>"

definition ex_frame_queue :: frame_queue_state where
  "ex_frame_queue = frame_queue_new (ex_retrieval [] False (Some (ex_block 5))) ex_rollup_config"

lemma ex_ready_eq:
  "add_frame (ex_frame 0 [9] True) (ex_block 5) (channel_new (replicate 16 255) (ex_block 4)) = (Ok (), ex_ready)"
  by (simp add: ex_ready_def add_frame_def Let_def close_channel_def ex_defs)

lemma ex_bank_inv: "bank_inv (ex_bank p)"
proof -
  have "channel_inv ex_ready" using channel_inv_new ex_ready_eq by (rule channel_inv_add_frame)
  moreover have "ch_id ex_ready = replicate 16 255"
    using add_frame_Ok_fields(5) [OF ex_ready_eq] by (simp add: channel_new_def)
  ultimately show ?thesis by (simp add: bank_inv_def queue_inv_def ex_bank_def hm_invar_def)
qed

lemma ex_ready_data: "is_ready ex_ready" "frame_data ex_ready = Some [9]" "\<not> timed_out ex_rollup_config (ex_block 5) ex_ready"
  by (simp_all add: ex_ready_def add_frame_def Let_def close_channel_def ex_defs is_ready_def frame_data_def
      frame_range_def timed_out_def open_block_number_def ex_block_def ex_rollup_config_def)

lemma ex_frame_queue_origin: "st_origin (l1_frame_stage A cp dap) ex_frame_queue = Some (ex_block 5)"
  by (simp add: l1_frame_stage_def ex_frame_queue_def frame_queue_new_def l1_retrieval_stage_def
      ex_retrieval_def ex_traversal_def)

theorem prune_bounds_bank_witness:
  "bank_inv (ex_bank ()) \<and> (\<exists>n s'. bank_prune (ex_bank ()) = (Ok (), s') \<and> bank_inv s'
     \<and> cb_channel_queue s' = drop n (cb_channel_queue (ex_bank ()))
     \<and> bank_size s' \<le> FJORD_MAX_CHANNEL_BANK_SIZE)"
  using ex_bank_inv [of "()"] prune_bounds_bank [OF ex_bank_inv, of "()"] by blast

theorem bank_reads_first_ready_channel_witness:
  "bank_read (l1_frame_stage ex_abi ex_l1 ex_da) (ex_bank ex_frame_queue)
     = (Ok (Some [9]), drop_channel (replicate 16 255) (ex_bank ex_frame_queue))"
proof -
  let ?s = "ex_bank ex_frame_queue"
  have o: "st_origin (l1_frame_stage ex_abi ex_l1 ex_da) (cb_prev ?s) = Some (ex_block 5)"
    using ex_frame_queue_origin by (simp add: ex_bank_def)
  have "readable (ex_block 5) ?s (replicate 16 255)" "channel_payload ?s (replicate 16 255) = Some [9]"
    using ex_ready_data by (simp_all add: readable_def channel_payload_def ex_bank_def)
  then show ?thesis
    using bank_reads_first_ready_channel [OF ex_bank_inv o] ex_ready_data by (simp add: ex_bank_def)
qed

theorem bank_next_data_behaviour_witness:
  "bank_inv (snd (bank_next_data (l1_frame_stage ex_abi ex_l1 ex_da) (channel_bank_new ex_rollup_config ex_frame_queue)))
   \<and> fst (bank_next_data (l1_frame_stage ex_abi ex_l1 ex_da) (channel_bank_new ex_rollup_config ex_frame_queue))
       = Err (temp Eof)"
proof -
  let ?s = "channel_bank_new ex_rollup_config ex_frame_queue" and ?P = "l1_frame_stage ex_abi ex_l1 ex_da"
  have inv: "bank_inv ?s" by (simp add: bank_inv_def queue_inv_def channel_bank_new_def)
  have o: "st_origin ?P (cb_prev ?s) = Some (ex_block 5)"
    using ex_frame_queue_origin by (simp add: channel_bank_new_def)
  have "fst (st_next ?P ex_frame_queue) = Err (temp Eof)"
    by (simp add: l1_frame_stage_def ex_frame_queue_def frame_queue_new_def next_frame_def load_frames_def
        ex_retrieval_def retrieval_unfold calldata_next_def load_calldata_def ex_l1_def List.map_filter_simps)
  moreover have "bank_read ?P ?s = (Err (temp Eof), ?s)"
    by (simp add: bank_read_def channel_bank_new_def)
  ultimately show ?thesis
    using bank_next_data_behaviour [OF inv o]
    by (cases "st_next ?P ex_frame_queue") (auto simp: channel_bank_new_def)
qed

end
