(* ===== verification/Channel_Provider.thy ===== *)
theory Channel_Provider
  imports Channel_Bank
begin

text \<open>
  \<open>ChannelAssembler\<close> and the multiplexer \<open>ChannelProvider\<close>
  (\<^verbatim>\<open>derive/src/stages/channel/channel_assembler.rs\<close>, \<^verbatim>\<open>channel_provider.rs\<close>). The multiplexer of
  this pipeline only ever activates the channel bank.
\<close>

section \<open>The channel assembler\<close>

record 'p channel_assembler =
  ca_cfg :: rollup_config
  ca_prev :: 'p
  ca_channel :: "channel option"

definition channel_assembler_new :: "rollup_config \<Rightarrow> 'p \<Rightarrow> 'p channel_assembler" where
  "channel_assembler_new cfg prev = \<lparr>ca_cfg = cfg, ca_prev = prev, ca_channel = None\<rparr>"

definition is_timed_out :: "('p, frame) stage \<Rightarrow> 'p channel_assembler \<Rightarrow> bool presult" where
  "is_timed_out P s =
     rthen (ok_or (st_origin P (ca_prev s)) (crit MissingOrigin)) (\<lambda>origin.
       Ok (case ca_channel s of
             None \<Rightarrow> False
           | Some c \<Rightarrow> open_block_number c + rc_channel_timeout (ca_cfg s) < bi_number origin))"

text \<open>Dropping the channel in progress when it has timed out.\<close>

definition drop_timed_out :: "('p, frame) stage \<Rightarrow> 'p channel_assembler \<Rightarrow> unit presult \<times> 'p channel_assembler" where
  "drop_timed_out P s =
     (case ca_channel s of
        None \<Rightarrow> (Ok (), s)
      | Some c \<Rightarrow> rbind (is_timed_out P s) s (\<lambda>out. (Ok (), if out then s\<lparr>ca_channel := None\<rparr> else s)))"

text \<open>Adding the frame to the channel in progress and forwarding the channel once it is ready.\<close>

definition assemble :: "frame \<Rightarrow> block_info \<Rightarrow> 'p channel_assembler \<Rightarrow> bytes option presult \<times> 'p channel_assembler" where
  "assemble f origin s =
     (case ca_channel s of
        None \<Rightarrow> (Err (temp NotEnoughData), s)
      | Some c \<Rightarrow>
          let (r, c') = add_frame f origin c; s1 = s\<lparr>ca_channel := Some c'\<rparr> in
          if r \<noteq> Ok () then (Err (temp NotEnoughData), s1)
          else if channel_size c' > ucast (rc_channel_size (ca_cfg s))
          then (Err (temp NotEnoughData), s1\<lparr>ca_channel := None\<rparr>)
          else if is_ready c'
          then rbind (ok_or (frame_data c') (crit ChannelNotFound)) s1 (\<lambda>channel_bytes.
                 (Ok (Some channel_bytes), s1\<lparr>ca_channel := None\<rparr>))
          else (Err (temp NotEnoughData), s1))"

definition assembler_next_data ::
  "('p, frame) stage \<Rightarrow> 'p channel_assembler \<Rightarrow> bytes option presult \<times> 'p channel_assembler" where
  "assembler_next_data P s =
     rbind (ok_or (st_origin P (ca_prev s)) (crit MissingOrigin)) s (\<lambda>origin.
     let (r0, s0) = drop_timed_out P s in
     rbind r0 s0 (\<lambda>_.
     let (r, p) = st_next P (ca_prev s0); s1 = s0\<lparr>ca_prev := p\<rparr> in
     rbind r s1 (\<lambda>f.
     let s2 = (if fr_number f = 0 then s1\<lparr>ca_channel := Some (channel_new (fr_id f) origin)\<rparr> else s1) in
     assemble f origin s2)))"

definition assembler_advance :: "('p, frame) stage \<Rightarrow> 'p channel_assembler \<Rightarrow> unit presult \<times> 'p channel_assembler" where
  "assembler_advance P s = (let (r, p) = st_advance P (ca_prev s) in (r, s\<lparr>ca_prev := p\<rparr>))"

definition assembler_signal ::
  "('p, frame) stage \<Rightarrow> signal \<Rightarrow> 'p channel_assembler \<Rightarrow> unit presult \<times> 'p channel_assembler" where
  "assembler_signal P sg s =
     (let (r, p) = st_signal P sg (ca_prev s); s1 = s\<lparr>ca_prev := p\<rparr> in
      rbind r s1 (\<lambda>_. (Ok (), s1\<lparr>ca_channel := None\<rparr>)))"

definition channel_assembler_stage :: "('p, frame) stage \<Rightarrow> ('p channel_assembler, bytes option) stage" where
  "channel_assembler_stage P =
     \<lparr>st_next = assembler_next_data P, st_origin = (\<lambda>s. st_origin P (ca_prev s)),
      st_advance = assembler_advance P, st_signal = assembler_signal P\<rparr>"

lemma channel_assembler_stage_sel [simp]:
  "st_next (channel_assembler_stage P) = assembler_next_data P"
  "st_origin (channel_assembler_stage P) = (\<lambda>s. st_origin P (ca_prev s))"
  "st_advance (channel_assembler_stage P) = assembler_advance P"
  "st_signal (channel_assembler_stage P) = assembler_signal P"
  by (simp_all add: channel_assembler_stage_def)

definition assembler_inv :: "'p channel_assembler \<Rightarrow> bool" where
  "assembler_inv s \<longleftrightarrow> (case ca_channel s of None \<Rightarrow> True | Some c \<Rightarrow> channel_inv c)"

lemma assembler_inv_simps [simp]:
  "assembler_inv (s\<lparr>ca_prev := p\<rparr>) = assembler_inv s"
  "assembler_inv (s\<lparr>ca_channel := None\<rparr>)"
  "assembler_inv (s\<lparr>ca_channel := Some c\<rparr>) = channel_inv c"
  by (simp_all add: assembler_inv_def)

lemma drop_timed_out_keeps:
  "ca_prev (snd (drop_timed_out P s)) = ca_prev s"
  "assembler_inv s \<Longrightarrow> assembler_inv (snd (drop_timed_out P s))"
  by (auto simp: drop_timed_out_def split: option.splits rbind_splits)

lemma assemble_keeps:
  "ca_prev (snd (assemble f origin s)) = ca_prev s"
  "assembler_inv s \<Longrightarrow> assembler_inv (snd (assemble f origin s))"
proof -
  show "ca_prev (snd (assemble f origin s)) = ca_prev s"
    by (auto simp: assemble_def Let_def split: option.splits prod.splits rbind_splits)
  assume inv: "assembler_inv s"
  show "assembler_inv (snd (assemble f origin s))"
  proof (cases "ca_channel s")
    case None
    with inv show ?thesis by (simp add: assemble_def)
  next
    case (Some c)
    obtain r c' where a: "add_frame f origin c = (r, c')" by fastforce
    have "channel_inv c" using inv Some by (simp add: assembler_inv_def)
    then have "channel_inv c'"
      using channel_inv_step [of c f origin] a by simp
    with a Some show ?thesis
      by (auto simp: assemble_def Let_def split: rbind_splits)
  qed
qed

lemma assembler_next_data_keeps:
  "ca_prev (snd (assembler_next_data P s)) = ca_prev s \<or>
   ca_prev (snd (assembler_next_data P s)) = snd (st_next P (ca_prev s))"
  "assembler_inv s \<Longrightarrow> assembler_inv (snd (assembler_next_data P s))"
  using drop_timed_out_keeps [where P = P and s = s]
  by (auto simp: assembler_next_data_def Let_def assemble_keeps channel_inv_new split: prod.splits rbind_splits)

sublocale frame_provider \<subseteq> assembler: stage_over P inv "channel_assembler_stage P" ca_prev assembler_inv
proof
  fix q sg
  show "st_origin (channel_assembler_stage P) q = st_origin P (ca_prev q)"
    by simp
  show "fst (st_advance (channel_assembler_stage P) q) = fst (st_advance P (ca_prev q))"
    and "ca_prev (snd (st_advance (channel_assembler_stage P) q)) = snd (st_advance P (ca_prev q))"
    by (simp_all add: assembler_advance_def split: prod.split)
  show "(fst (st_signal (channel_assembler_stage P) sg q) = Ok () \<longrightarrow> fst (st_signal P sg (ca_prev q)) = Ok ())
       \<and> ca_prev (snd (st_signal (channel_assembler_stage P) sg q)) = snd (st_signal P sg (ca_prev q))
     \<or> signal_origin sg = None \<and> ca_prev (snd (st_signal (channel_assembler_stage P) sg q)) = ca_prev q"
    by (intro disjI1) (auto simp: assembler_signal_def Let_def split: prod.splits rbind_splits)
  have "\<exists>n. ca_prev (snd (st_next (channel_assembler_stage P) q)) = after_pulls n (st_next P) (ca_prev q)"
    using assembler_next_data_keeps(1) [of P q] by (simp, metis after_pulls.simps)
  then show "inv (ca_prev (snd (st_next (channel_assembler_stage P) q))) \<and> st_origin P (ca_prev (snd (st_next (channel_assembler_stage P) q))) = st_origin P (ca_prev q)" if "inv (ca_prev q)"
    using that by (rule pulled_keeps [rotated])
  assume inv: "assembler_inv q"
  then show "assembler_inv (snd (st_next (channel_assembler_stage P) q))"
    by (simp add: assembler_next_data_keeps)
  show "assembler_inv (snd (st_advance (channel_assembler_stage P) q))"
    using inv by (simp add: assembler_advance_def split: prod.split)
  show "assembler_inv (snd (st_signal (channel_assembler_stage P) sg q))"
    using inv by (auto simp: assembler_signal_def Let_def split: prod.split rbind_splits)
qed

section \<open>The multiplexer\<close>

record 'p channel_provider =
  cm_cfg :: rollup_config
  cm_prev :: "'p option"
  cm_channel_bank :: "'p channel_bank option"
  cm_channel_assembler :: "'p channel_assembler option"

definition channel_provider_new :: "rollup_config \<Rightarrow> 'p \<Rightarrow> 'p channel_provider" where
  "channel_provider_new cfg prev =
     \<lparr>cm_cfg = cfg, cm_prev = Some prev, cm_channel_bank = None, cm_channel_assembler = None\<rparr>"

definition cm_attempt_update :: "'p channel_provider \<Rightarrow> unit presult \<times> 'p channel_provider" where
  "cm_attempt_update s =
     (case cm_prev s of
        None \<Rightarrow> (Ok (), s)
      | Some prev \<Rightarrow>
          (Ok (), s\<lparr>cm_prev := None, cm_channel_bank := Some (channel_bank_new (cm_cfg s) prev)\<rparr>))"

text \<open>
  The three methods update the multiplexer and then forward to the assembler if there is
  one, else to the bank; \<open>fa\<close> and \<open>fb\<close> are the forwarded methods.
\<close>

definition cm_forward ::
  "('p channel_assembler \<Rightarrow> 'r presult \<times> 'p channel_assembler) \<Rightarrow> ('p channel_bank \<Rightarrow> 'r presult \<times> 'p channel_bank)
     \<Rightarrow> 'p channel_provider \<Rightarrow> 'r presult \<times> 'p channel_provider" where
  "cm_forward fa fb s =
     (let (r0, s0) = cm_attempt_update s in
      rbind r0 s0 (\<lambda>_.
        case cm_channel_assembler s0 of
          Some a \<Rightarrow> (let (r, a') = fa a in (r, s0\<lparr>cm_channel_assembler := Some a'\<rparr>))
        | None \<Rightarrow>
            (case cm_channel_bank s0 of
               Some b \<Rightarrow> (let (r, b') = fb b in (r, s0\<lparr>cm_channel_bank := Some b'\<rparr>))
             | None \<Rightarrow> (Err (temp NotEnoughData), s0))))"

definition cm_advance :: "('p, frame) stage \<Rightarrow> 'p channel_provider \<Rightarrow> unit presult \<times> 'p channel_provider" where
  "cm_advance P = cm_forward (assembler_advance P) (bank_advance P)"

definition cm_origin :: "('p, frame) stage \<Rightarrow> 'p channel_provider \<Rightarrow> block_info option" where
  "cm_origin P s =
     (case cm_channel_assembler s of
        Some a \<Rightarrow> st_origin P (ca_prev a)
      | None \<Rightarrow>
          (case cm_channel_bank s of
             Some b \<Rightarrow> st_origin P (cb_prev b)
           | None \<Rightarrow> (case cm_prev s of None \<Rightarrow> None | Some p \<Rightarrow> st_origin P p)))"

definition cm_signal :: "('p, frame) stage \<Rightarrow> signal \<Rightarrow> 'p channel_provider \<Rightarrow> unit presult \<times> 'p channel_provider" where
  "cm_signal P sg = cm_forward (assembler_signal P sg) (bank_signal P sg)"

definition cm_next_data ::
  "('p, frame) stage \<Rightarrow> 'p channel_provider \<Rightarrow> bytes option presult \<times> 'p channel_provider" where
  "cm_next_data P = cm_forward (assembler_next_data P) (bank_next_data P)"

definition channel_provider_stage :: "('p, frame) stage \<Rightarrow> ('p channel_provider, bytes option) stage" where
  "channel_provider_stage P =
     \<lparr>st_next = cm_next_data P, st_origin = cm_origin P, st_advance = cm_advance P, st_signal = cm_signal P\<rparr>"

lemma channel_provider_stage_sel [simp]:
  "st_next (channel_provider_stage P) = cm_next_data P"
  "st_origin (channel_provider_stage P) = cm_origin P"
  "st_advance (channel_provider_stage P) = cm_advance P"
  "st_signal (channel_provider_stage P) = cm_signal P"
  by (simp_all add: channel_provider_stage_def)

text \<open>
  The comments of the struct: exactly one of the three holds the previous stage. The
  invariant of the active stage comes with it.
\<close>

definition cm_inv :: "('p \<Rightarrow> bool) \<Rightarrow> 'p channel_provider \<Rightarrow> bool" where
  "cm_inv I s \<longleftrightarrow>
     (\<exists>p. cm_prev s = Some p \<and> cm_channel_bank s = None \<and> cm_channel_assembler s = None \<and> I p)
   \<or> (\<exists>b. cm_prev s = None \<and> cm_channel_bank s = Some b \<and> cm_channel_assembler s = None \<and> bank_inv b \<and> I (cb_prev b))
   \<or> (\<exists>a. cm_prev s = None \<and> cm_channel_bank s = None \<and> cm_channel_assembler s = Some a \<and> assembler_inv a \<and> I (ca_prev a))"

lemma bank_inv_new: "bank_inv (channel_bank_new cfg p)"
  by (simp add: bank_inv_def queue_inv_def channel_bank_new_def)

text \<open>After the update a multiplexer runs the bank or the assembler.\<close>

lemma cm_forward_cases:
  assumes "cm_inv I s"
  obtains (bank) b where "bank_inv b" and "I (cb_prev b)" and "cm_origin P s = st_origin P (cb_prev b)"
      and "\<And>(fa :: _ \<Rightarrow> 'r presult \<times> _) fb. cm_forward fa fb s =
        (fst (fb b), s\<lparr>cm_prev := None, cm_channel_bank := Some (snd (fb b)), cm_channel_assembler := None\<rparr>)"
  | (assembler) a where "assembler_inv a" and "I (ca_prev a)" and "cm_origin P s = st_origin P (ca_prev a)"
      and "\<And>(fa :: _ \<Rightarrow> 'r presult \<times> _) fb. cm_forward fa fb s =
        (fst (fa a), s\<lparr>cm_prev := None, cm_channel_bank := None, cm_channel_assembler := Some (snd (fa a))\<rparr>)"
  using assms unfolding cm_inv_def
proof (elim disjE exE conjE)
  fix p
  assume "cm_prev s = Some p" "cm_channel_bank s = None" "cm_channel_assembler s = None" "I p"
  then show thesis
    by (intro bank [of "channel_bank_new (cm_cfg s) p"])
       (simp_all add: bank_inv_new cm_origin_def cm_forward_def cm_attempt_update_def case_prod_beta,
        simp_all add: channel_bank_new_def)
next
  fix b
  assume "cm_prev s = None" "cm_channel_bank s = Some b" "cm_channel_assembler s = None" "bank_inv b" "I (cb_prev b)"
  then show thesis
    by (intro bank [of b]) (simp_all add: cm_origin_def cm_forward_def cm_attempt_update_def case_prod_beta)
next
  fix a
  assume "cm_prev s = None" "cm_channel_bank s = None" "cm_channel_assembler s = Some a" "assembler_inv a" "I (ca_prev a)"
  then show thesis
    by (intro assembler [of a]) (simp_all add: cm_origin_def cm_forward_def cm_attempt_update_def case_prod_beta)
qed

lemma cm_inv_simps:
  "cm_inv I (s\<lparr>cm_prev := None, cm_channel_bank := Some b, cm_channel_assembler := None\<rparr>) = (bank_inv b \<and> I (cb_prev b))"
  "cm_inv I (s\<lparr>cm_prev := None, cm_channel_bank := None, cm_channel_assembler := Some a\<rparr>) = (assembler_inv a \<and> I (ca_prev a))"
  "cm_origin P (s\<lparr>cm_prev := None, cm_channel_bank := Some b, cm_channel_assembler := None\<rparr>) = st_origin P (cb_prev b)"
  "cm_origin P (s\<lparr>cm_prev := None, cm_channel_bank := None, cm_channel_assembler := Some a\<rparr>) = st_origin P (ca_prev a)"
  by (auto simp: cm_inv_def cm_origin_def)

sublocale frame_provider \<subseteq> channels: stage_contract "channel_provider_stage P" "cm_inv inv"
proof
  fix s
  assume s: "cm_inv inv s"
  show "cm_inv inv (snd (st_next (channel_provider_stage P) s))"
    using s
  proof (cases rule: cm_forward_cases [where P = P and ?'r = "bytes option"])
    case (bank b)
    then show ?thesis using bank.pull_inv [of b] by (simp add: cm_next_data_def cm_inv_simps)
  next
    case (assembler a)
    then show ?thesis using assembler.pull_inv [of a] by (simp add: cm_next_data_def cm_inv_simps)
  qed
  show "st_origin (channel_provider_stage P) (snd (st_next (channel_provider_stage P) s)) = st_origin (channel_provider_stage P) s"
    using s
  proof (cases rule: cm_forward_cases [where P = P and ?'r = "bytes option"])
    case (bank b)
    then show ?thesis using bank.pull_origin [of b] by (simp add: cm_next_data_def cm_inv_simps)
  next
    case (assembler a)
    then show ?thesis using assembler.pull_origin [of a] by (simp add: cm_next_data_def cm_inv_simps)
  qed
  show "cm_inv inv (snd (st_advance (channel_provider_stage P) s))"
    using s
  proof (cases rule: cm_forward_cases [where P = P and ?'r = "unit"])
    case (bank b)
    then show ?thesis using bank.advance_inv [of b] by (simp add: cm_advance_def cm_inv_simps)
  next
    case (assembler a)
    then show ?thesis using assembler.advance_inv [of a] by (simp add: cm_advance_def cm_inv_simps)
  qed
  show "advances (st_origin (channel_provider_stage P) s) (st_origin (channel_provider_stage P) (snd (st_advance (channel_provider_stage P) s)))" if prem: "fst (st_advance (channel_provider_stage P) s) = Ok ()"
    using s
  proof (cases rule: cm_forward_cases [where P = P and ?'r = "unit"])
    case (bank b)
    then show ?thesis using bank.advance_Ok [of b] prem by (simp add: cm_advance_def cm_inv_simps)
  next
    case (assembler a)
    then show ?thesis using assembler.advance_Ok [of a] prem by (simp add: cm_advance_def cm_inv_simps)
  qed
  show "st_origin (channel_provider_stage P) (snd (st_advance (channel_provider_stage P) s)) = st_origin (channel_provider_stage P) s" if prem: "fst (st_advance (channel_provider_stage P) s) \<noteq> Ok ()"
    using s
  proof (cases rule: cm_forward_cases [where P = P and ?'r = "unit"])
    case (bank b)
    then show ?thesis using bank.advance_not_Ok [of b] prem by (simp add: cm_advance_def cm_inv_simps)
  next
    case (assembler a)
    then show ?thesis using assembler.advance_not_Ok [of a] prem by (simp add: cm_advance_def cm_inv_simps)
  qed
  show "cm_inv inv (snd (st_signal (channel_provider_stage P) sg s))" for sg
    using s
  proof (cases rule: cm_forward_cases [where P = P and ?'r = "unit"])
    case (bank b)
    then show ?thesis using bank.signal_inv [of b sg] by (simp add: cm_signal_def cm_inv_simps)
  next
    case (assembler a)
    then show ?thesis using assembler.signal_inv [of a sg] by (simp add: cm_signal_def cm_inv_simps)
  qed
  show "st_origin (channel_provider_stage P) (snd (st_signal (channel_provider_stage P) sg s)) =
      (case signal_origin sg of None \<Rightarrow> st_origin (channel_provider_stage P) s | Some b \<Rightarrow> Some b)" if prem: "fst (st_signal (channel_provider_stage P) sg s) = Ok ()" for sg
    using s
  proof (cases rule: cm_forward_cases [where P = P and ?'r = "unit"])
    case (bank b)
    then show ?thesis using bank.signal_Ok [of b sg] prem by (simp add: cm_signal_def cm_inv_simps split: option.split)
  next
    case (assembler a)
    then show ?thesis using assembler.signal_Ok [of a sg] prem by (simp add: cm_signal_def cm_inv_simps split: option.split)
  qed
qed

end
