(* ===== verification/Channel_Reader.thy ===== *)
theory Channel_Reader
  imports Batches Channel_Provider
begin

text \<open>
  \<open>ChannelReader\<close> (\<^verbatim>\<open>derive/src/stages/channel/channel_reader.rs\<close>): decompresses a channel and
  decodes its batches one by one. Decompression (\<^verbatim>\<open>decompress_to_vec_zlib\<close> of the vendored
  \<^verbatim>\<open>miniz_oxide\<close>) is a parameter that gives the data and the number of input bytes it consumed.
\<close>

section \<open>Definitions\<close>

definition ZLIB_DEFLATE_COMPRESSION_METHOD :: u8 where "ZLIB_DEFLATE_COMPRESSION_METHOD = 8"
definition ZLIB_RESERVED_COMPRESSION_METHOD :: u8 where "ZLIB_RESERVED_COMPRESSION_METHOD = 15"

record codec =
  cd_inflate :: "bytes \<Rightarrow> (bytes \<times> nat) option"
  cd_decoders :: batch_decoders

record batch_reader =
  br_data :: "bytes option"
  br_cursor :: nat
  br_max_rlp_bytes_per_channel :: nat

definition batch_reader_new :: "bytes \<Rightarrow> nat \<Rightarrow> batch_reader" where
  "batch_reader_new data m = \<lparr>br_data = Some data, br_cursor = 0, br_max_rlp_bytes_per_channel = m\<rparr>"

text \<open>
  \<open>BatchReader::next_batch\<close>. A cursor past the end panics in the slice, an unknown batch
  type in \<open>BatchType::from\<close>, and a span batch in \<open>unimplemented!\<close>.
\<close>

definition reader_next_batch :: "codec \<Rightarrow> batch_reader \<Rightarrow> batch option presult \<times> batch_reader" where
  "reader_next_batch Z r =
     (case br_data r of
        None \<Rightarrow> (Ok None, r)
      | Some channel_data \<Rightarrow>
          if br_cursor r > length channel_data then (Panic, r)
          else case drop (br_cursor r) channel_data of
            [] \<Rightarrow> (Ok None, r)
          | compression_type # rest \<Rightarrow>
              if compression_type AND 0x0F = ZLIB_DEFLATE_COMPRESSION_METHOD
                 \<or> compression_type AND 0x0F = ZLIB_RESERVED_COMPRESSION_METHOD
              then
                (case cd_inflate Z (compression_type # rest) of
                   None \<Rightarrow> (Ok None, r)
                 | Some (decompressed, consumed) \<Rightarrow>
                     if length decompressed > br_max_rlp_bytes_per_channel r then (Ok None, r)
                     else
                       (case batch_decode (cd_decoders Z) decompressed of
                          Err e \<Rightarrow> (Ok None, r)
                        | Panic \<Rightarrow> (Panic, r)
                        | Ok b \<Rightarrow>
                            (case b of
                               Single sb \<Rightarrow> (Ok (Some b), r\<lparr>br_cursor := br_cursor r + consumed\<rparr>)
                             | Span sp \<Rightarrow> (Panic, r))))
              else (Ok None, r))"

record 'p channel_reader =
  cr_prev :: 'p
  cr_next_batch :: "batch_reader option"
  cr_cfg :: rollup_config

definition channel_reader_new :: "'p \<Rightarrow> rollup_config \<Rightarrow> 'p channel_reader" where
  "channel_reader_new prev cfg = \<lparr>cr_prev = prev, cr_next_batch = None, cr_cfg = cfg\<rparr>"

definition set_batch_reader ::
  "('p, bytes option) stage \<Rightarrow> 'p channel_reader \<Rightarrow> unit presult \<times> 'p channel_reader" where
  "set_batch_reader P s =
     (if cr_next_batch s = None then
        let (r, p) = st_next P (cr_prev s); s1 = s\<lparr>cr_prev := p\<rparr> in
        rbind r s1 (\<lambda>d.
        rbind (ok_or d (temp ChannelReaderEmpty)) s1 (\<lambda>channel.
        (Ok (), s1\<lparr>cr_next_batch := Some (batch_reader_new channel (unat (rc_channel_size (cr_cfg s))))\<rparr>)))
      else (Ok (), s))"

definition next_channel :: "'p channel_reader \<Rightarrow> 'p channel_reader" where
  "next_channel s = s\<lparr>cr_next_batch := None\<rparr>"

definition reader_flush :: "'p channel_reader \<Rightarrow> 'p channel_reader" where
  "reader_flush s = next_channel s"

definition cr_next ::
  "codec \<Rightarrow> ('p, bytes option) stage \<Rightarrow> 'p channel_reader \<Rightarrow> batch presult \<times> 'p channel_reader" where
  "cr_next Z P s =
     (case set_batch_reader P s of
        (Err e, s1) \<Rightarrow> (Err e, next_channel s1)
      | (Panic, s1) \<Rightarrow> (Panic, s1)
      | (Ok _, s1) \<Rightarrow>
          (case cr_next_batch s1 of
             None \<Rightarrow> (Panic, s1)
           | Some br \<Rightarrow>
               let (r, br') = reader_next_batch Z br; s2 = s1\<lparr>cr_next_batch := Some br'\<rparr> in
               rbind r s2 (\<lambda>b.
               case b of
                 Some batch \<Rightarrow> (Ok batch, s2)
               | None \<Rightarrow> (Err (temp NotEnoughData), next_channel s2))))"

definition cr_advance :: "('p, bytes option) stage \<Rightarrow> 'p channel_reader \<Rightarrow> unit presult \<times> 'p channel_reader" where
  "cr_advance P s = (let (r, p) = st_advance P (cr_prev s) in (r, s\<lparr>cr_prev := p\<rparr>))"

fun cr_signal :: "('p, bytes option) stage \<Rightarrow> signal \<Rightarrow> 'p channel_reader \<Rightarrow> unit presult \<times> 'p channel_reader" where
  "cr_signal P FlushChannel s = (Ok (), s\<lparr>cr_next_batch := None\<rparr>)"
| "cr_signal P sg s =
     (let (r, p) = st_signal P sg (cr_prev s); s1 = s\<lparr>cr_prev := p\<rparr> in
      rbind r s1 (\<lambda>_. (Ok (), next_channel s1)))"

definition channel_reader_stage :: "codec \<Rightarrow> ('p, bytes option) stage \<Rightarrow> ('p channel_reader, batch) stage" where
  "channel_reader_stage Z P =
     \<lparr>st_next = cr_next Z P, st_origin = (\<lambda>s. st_origin P (cr_prev s)), st_advance = cr_advance P,
      st_signal = cr_signal P\<rparr>"

section \<open>The stage contract\<close>

lemma channel_reader_stage_sel [simp]:
  "st_next (channel_reader_stage Z P) = cr_next Z P"
  "st_origin (channel_reader_stage Z P) = (\<lambda>s. st_origin P (cr_prev s))"
  "st_advance (channel_reader_stage Z P) = cr_advance P"
  "st_signal (channel_reader_stage Z P) = cr_signal P"
  by (simp_all add: channel_reader_stage_def)

lemma set_batch_reader_prev:
  "cr_prev (snd (set_batch_reader P s)) = (if cr_next_batch s = None then snd (st_next P (cr_prev s)) else cr_prev s)"
  by (auto simp: set_batch_reader_def Let_def split: prod.splits rbind_splits)

lemma cr_next_prev: "cr_prev (snd (cr_next Z P s)) = cr_prev (snd (set_batch_reader P s))"
  by (auto simp: cr_next_def next_channel_def Let_def split: prod.splits res.splits option.splits rbind_splits)

locale channel_source = stage_contract P inv for P :: "('p, bytes option) stage" and inv

sublocale channel_source \<subseteq> reader: stage_over P inv "channel_reader_stage Z P" cr_prev "\<lambda>_. True" for Z
proof
  fix q sg
  show "st_origin (channel_reader_stage Z P) q = st_origin P (cr_prev q)"
    by simp
  have "\<exists>n. cr_prev (snd (st_next (channel_reader_stage Z P) q)) = after_pulls n (st_next P) (cr_prev q)"
    by (simp add: cr_next_prev set_batch_reader_prev) (metis after_pulls.simps)
  then show "inv (cr_prev (snd (st_next (channel_reader_stage Z P) q))) \<and> st_origin P (cr_prev (snd (st_next (channel_reader_stage Z P) q))) = st_origin P (cr_prev q)" if "inv (cr_prev q)"
    using that by (rule pulled_keeps [rotated])
  show "fst (st_advance (channel_reader_stage Z P) q) = fst (st_advance P (cr_prev q))"
    and "cr_prev (snd (st_advance (channel_reader_stage Z P) q)) = snd (st_advance P (cr_prev q))"
    by (simp_all add: cr_advance_def split: prod.split)
  show "(fst (st_signal (channel_reader_stage Z P) sg q) = Ok () \<longrightarrow> fst (st_signal P sg (cr_prev q)) = Ok ())
       \<and> cr_prev (snd (st_signal (channel_reader_stage Z P) sg q)) = snd (st_signal P sg (cr_prev q))
     \<or> signal_origin sg = None \<and> cr_prev (snd (st_signal (channel_reader_stage Z P) sg q)) = cr_prev q"
    by (cases sg) (auto simp: next_channel_def Let_def split: prod.splits rbind_splits)
qed simp_all

definition l1_channel_stage ::
  "abi_decoder \<Rightarrow> chain_provider \<Rightarrow> da_provider \<Rightarrow> (frame_queue_state channel_provider, bytes option) stage" where
  "l1_channel_stage A cp dap = channel_provider_stage (l1_frame_stage A cp dap)"

interpretation l1_channels: channel_source "l1_channel_stage A cp dap" "cm_inv (\<lambda>_. True)" for A cp dap
  using l1_frames.channels.stage_contract_axioms by (simp add: l1_channel_stage_def channel_source_def)

section \<open>Properties\<close>

text \<open>A channel as the batcher writes it: compressed batches one after the other.\<close>

definition compresses :: "codec \<Rightarrow> nat \<Rightarrow> single_batch \<Rightarrow> bytes \<Rightarrow> bool" where
  "compresses Z m sb z \<longleftrightarrow>
     z \<noteq> [] \<and> (hd z AND 0x0F = 8 \<or> hd z AND 0x0F = 15) \<and>
     (\<forall>rest. \<exists>raw. cd_inflate Z (z @ rest) = Some (raw, length z) \<and> length raw \<le> m
        \<and> batch_decode (cd_decoders Z) raw = Ok (Single sb))"

lemma reader_next_compressed:
  assumes "compresses Z (br_max_rlp_bytes_per_channel r) sb z" and "br_data r = Some (pre @ z @ rest)"
    and "br_cursor r = length pre"
  shows "reader_next_batch Z r = (Ok (Some (Single sb)), r\<lparr>br_cursor := length (pre @ z)\<rparr>)"
proof -
  obtain c cs where z: "z = c # cs" using assms(1) by (cases z) (auto simp: compresses_def)
  obtain raw where "cd_inflate Z (z @ rest) = Some (raw, length z)" "length raw \<le> br_max_rlp_bytes_per_channel r"
    "batch_decode (cd_decoders Z) raw = Ok (Single sb)"
    using assms(1) by (fastforce simp: compresses_def)
  with assms z show ?thesis
    by (auto simp: reader_next_batch_def compresses_def ZLIB_DEFLATE_COMPRESSION_METHOD_def
        ZLIB_RESERVED_COMPRESSION_METHOD_def)
qed

lemma cr_next_pulls:
  assumes "list_all2 (compresses Z m) sbs zs" and "cr_next_batch s = Some br"
    and "br_data br = Some (pre @ concat zs)" and "br_cursor br = length pre" and "br_max_rlp_bytes_per_channel br = m"
  shows "pulls (Suc (length sbs)) (cr_next Z P) s = map (\<lambda>sb. Ok (Single sb)) sbs @ [Err (temp NotEnoughData)]
     \<and> after_pulls (Suc (length sbs)) (cr_next Z P) s = s\<lparr>cr_next_batch := None\<rparr>"
  using assms
proof (induction sbs zs arbitrary: s br pre rule: list_all2_induct)
  case Nil
  then show ?case by (simp add: cr_next_def set_batch_reader_def reader_next_batch_def next_channel_def)
next
  case (Cons sb sbs z zs)
  define br' where "br' = br\<lparr>br_cursor := length (pre @ z)\<rparr>"
  have "reader_next_batch Z br = (Ok (Some (Single sb)), br')"
    unfolding br'_def using Cons by (intro reader_next_compressed [where rest = "concat zs"]) auto
  then have first: "cr_next Z P s = (Ok (Single sb), s\<lparr>cr_next_batch := Some br'\<rparr>)"
    using Cons.prems by (simp add: cr_next_def set_batch_reader_def)
  show ?case
    using Cons.IH [of "s\<lparr>cr_next_batch := Some br'\<rparr>" br' "pre @ z"] Cons.prems
    by (simp add: first br'_def)
qed

text \<open>
  C21: a channel made of compressed single batches within the size limit comes out of the
  reader as exactly these batches, in order, after which the reader asks for more data and
  is ready for the next channel; the stage below is pulled once.
\<close>

theorem reader_delivers_channel:
  assumes "list_all2 (compresses Z (unat (rc_channel_size (cr_cfg s)))) sbs zs" and "cr_next_batch s = None"
    and "st_next P (cr_prev s) = (Ok (Some (concat zs)), p)"
  shows "pulls (Suc (length sbs)) (cr_next Z P) s = map (\<lambda>sb. Ok (Single sb)) sbs @ [Err (temp NotEnoughData)]
     \<and> after_pulls (Suc (length sbs)) (cr_next Z P) s = s\<lparr>cr_prev := p\<rparr>"
proof -
  define br where "br = batch_reader_new (concat zs) (unat (rc_channel_size (cr_cfg s)))"
  define t where "t = s\<lparr>cr_prev := p, cr_next_batch := Some br\<rparr>"
  have "cr_next Z P s = cr_next Z P t"
    using assms by (simp add: cr_next_def set_batch_reader_def t_def br_def)
  moreover have "pulls (Suc (length sbs)) (cr_next Z P) t = map (\<lambda>sb. Ok (Single sb)) sbs @ [Err (temp NotEnoughData)]
     \<and> after_pulls (Suc (length sbs)) (cr_next Z P) t = t\<lparr>cr_next_batch := None\<rparr>"
    using assms(1) by (intro cr_next_pulls [where br = br and pre = "[]"]) (auto simp: t_def br_def batch_reader_new_def)
  ultimately show ?thesis using assms(2) by (simp add: t_def)
qed

text \<open>
  A channel whose decompressed data starts with a byte other than 0 or 1, or which
  holds a well formed span batch, makes the reader panic instead of skipping the channel.
\<close>

theorem reader_panics_on_foreign_batch:
  assumes "cr_next_batch s = Some br" and "br_data br = Some data" and "br_cursor br < length data"
    and "data ! br_cursor br AND 0x0F = 8"
    and "cd_inflate Z (drop (br_cursor br) data) = Some (t # raw, n)"
    and "length (t # raw) \<le> br_max_rlp_bytes_per_channel br"
    and "1 < t \<or> t = 1 \<and> dec_span (cd_decoders Z) raw = Ok sp"
  shows "fst (cr_next Z P s) = Panic"
proof -
  have d: "drop (br_cursor br) data = data ! br_cursor br # drop (Suc (br_cursor br)) data"
    using assms(3) by (simp add: Cons_nth_drop_Suc)
  have "batch_decode (cd_decoders Z) (t # raw) = Panic \<or> batch_decode (cd_decoders Z) (t # raw) = Ok (Span sp)"
    using assms(7) by (auto simp: batch_decode_def batch_type_from_def)
  then have "fst (reader_next_batch Z br) = Panic"
    using assms d by (auto simp: reader_next_batch_def ZLIB_DEFLATE_COMPRESSION_METHOD_def)
  then show ?thesis
    using assms(1) by (auto simp: cr_next_def set_batch_reader_def Let_def rbind_def split: prod.splits)
qed

text \<open>A codec for the examples: a frame is a method byte, the batch type and one byte of data.\<close>

definition ex_single :: "u8 \<Rightarrow> single_batch" where
  "ex_single n = \<lparr>sb_parent_hash = zero_hash, sb_epoch_num = 5, sb_epoch_hash = zero_hash, sb_timestamp = ucast n,
     sb_transactions = []\<rparr>"

definition ex_codec :: codec where
  "ex_codec =
     \<lparr>cd_inflate = (\<lambda>z. if length z < 3 then None else Some ([z ! 1, z ! 2], 3)),
      cd_decoders = \<lparr>dec_single = (\<lambda>r. case r of [] \<Rightarrow> Err ''rlp'' | n # _ \<Rightarrow> Ok (ex_single n)),
                     dec_span = (\<lambda>r. Ok ex_span)\<rparr>\<rparr>"

lemma ex_compresses: "compresses ex_codec 100000 (ex_single n) [8, 0, n]"
  by (auto simp: compresses_def ex_codec_def batch_decode_def batch_type_from_def)

definition ex_channel_bank :: "frame_queue_state channel_provider" where
  "ex_channel_bank =
     \<lparr>cm_cfg = ex_rollup_config, cm_prev = None,
      cm_channel_bank = Some ((ex_bank ex_frame_queue)
        \<lparr>cb_channels := [(replicate 16 255, ex_ready\<lparr>ch_inputs := [(0, ex_frame 0 [8, 0, 4, 8, 0, 6] True)]\<rparr>)]\<rparr>),
      cm_channel_assembler = None\<rparr>"

lemma ex_channel_pull:
  "\<exists>p. st_next (l1_channel_stage ex_abi ex_l1 ex_da) ex_channel_bank = (Ok (Some [8, 0, 4, 8, 0, 6]), p)"
  by (simp add: l1_channel_stage_def cm_next_data_def cm_forward_def cm_attempt_update_def ex_channel_bank_def
      bank_next_data_def bank_read_def ex_bank_def ex_frame_queue_origin timed_out_def open_block_number_def
      try_read_channel_at_index_def is_ready_def frame_data_def frame_range_def ex_ready_def add_frame_def
      close_channel_def channel_new_def ex_frame_def ex_block_def ex_rollup_config_def Let_def default_block_info_def)

theorem reader_delivers_channel_witness:
  "pulls 3 (cr_next ex_codec (l1_channel_stage ex_abi ex_l1 ex_da)) (channel_reader_new ex_channel_bank ex_rollup_config)
     = [Ok (Single (ex_single 4)), Ok (Single (ex_single 6)), Err (temp NotEnoughData)]"
proof -
  obtain p where p: "st_next (l1_channel_stage ex_abi ex_l1 ex_da) ex_channel_bank = (Ok (Some [8, 0, 4, 8, 0, 6]), p)"
    using ex_channel_pull by blast
  have "list_all2 (compresses ex_codec 100000) [ex_single 4, ex_single 6] [[8, 0, 4], [8, 0, 6]]"
    by (simp add: ex_compresses)
  then show ?thesis
    using reader_delivers_channel
      [of ex_codec "channel_reader_new ex_channel_bank ex_rollup_config" "[ex_single 4, ex_single 6]"
          "[[8, 0, 4], [8, 0, 6]]" "l1_channel_stage ex_abi ex_l1 ex_da" p] p
    by (simp add: channel_reader_new_def ex_rollup_config_def numeral_3_eq_3)
qed

theorem reader_panics_on_foreign_batch_witness:
  "fst (cr_next ex_codec (l1_channel_stage ex_abi ex_l1 ex_da)
      \<lparr>cr_prev = ex_channel_bank, cr_next_batch = Some (batch_reader_new [8, 2, 0] 100), cr_cfg = ex_rollup_config\<rparr>) = Panic"
  by (rule reader_panics_on_foreign_batch [where data = "[8, 2, 0]" and br = "batch_reader_new [8, 2, 0] 100"
        and t = 2 and raw = "[0]" and n = 3 and sp = ex_span])
     (simp_all add: batch_reader_new_def ex_codec_def)

end
