(* ===== verification/Batch_Stream.thy ===== *)
theory Batch_Stream
  imports Channel_Reader
begin

text \<open>
  \<open>BatchStream\<close> (\<^verbatim>\<open>derive/src/stages/batch/batch_stream.rs\<close>): forwards single batches and
  unfolds a span batch that passed the prefix check into the single batches after the safe
  head. The stage is always active. Its pulling method depends on the parent block and the
  known L1 origins, so the stage is a family of stages here.
\<close>

section \<open>Definitions\<close>

record 'p batch_stream =
  bst_prev :: 'p
  bst_span :: "span_batch option"
  bst_buffer :: "single_batch list"
  bst_config :: rollup_config

definition batch_stream_new :: "'p \<Rightarrow> rollup_config \<Rightarrow> 'p batch_stream" where
  "batch_stream_new prev cfg = \<lparr>bst_prev = prev, bst_span = None, bst_buffer = [], bst_config = cfg\<rparr>"

definition is_active :: "'p batch_stream \<Rightarrow> bool presult" where
  "is_active s = Ok True"

definition try_hydrate_buffer ::
  "l2_block_info \<Rightarrow> block_info list \<Rightarrow> 'p batch_stream \<Rightarrow> unit presult \<times> 'p batch_stream" where
  "try_hydrate_buffer parent l1_origins s =
     (case bst_span s of
        None \<Rightarrow> (Ok (), s)
      | Some span \<Rightarrow>
          let s1 = s\<lparr>bst_span := None\<rparr> in
          rbind (map_err (\<lambda>e. crit (BadEncoding (SpanBatchErr e))) (get_singular_batches l1_origins parent span)) s1 (\<lambda>bs.
            (Ok (), s1\<lparr>bst_buffer := bst_buffer s1 @ bs\<rparr>)))"

definition get_single_batch ::
  "l2_block_info \<Rightarrow> block_info list \<Rightarrow> 'p batch_stream \<Rightarrow> single_batch presult \<times> 'p batch_stream" where
  "get_single_batch parent l1_origins s =
     (let (r, s1) = try_hydrate_buffer parent l1_origins s in
      rbind r s1 (\<lambda>_.
        case bst_buffer s1 of
          [] \<Rightarrow> (Err (temp NotEnoughData), s1)
        | b # bs \<Rightarrow> (Ok b, s1\<lparr>bst_buffer := bs\<rparr>)))"

definition stream_flush :: "('p \<Rightarrow> 'p) \<Rightarrow> 'p batch_stream \<Rightarrow> 'p batch_stream" where
  "stream_flush prev_flush s =
     (case is_active s of
        Ok True \<Rightarrow> s\<lparr>bst_prev := prev_flush (bst_prev s), bst_span := None, bst_buffer := []\<rparr>
      | _ \<Rightarrow> s)"

definition span_buffer_size :: "'p batch_stream \<Rightarrow> nat" where
  "span_buffer_size s = length (bst_buffer s)"

text \<open>What a batch pulled from the reader does: a single batch is passed on, a span batch is staged.\<close>

definition stage_span ::
  "l2_chain_provider \<Rightarrow> ('p \<Rightarrow> 'p) \<Rightarrow> l2_block_info \<Rightarrow> block_info list \<Rightarrow> block_info \<Rightarrow> span_batch
     \<Rightarrow> 'p batch_stream \<Rightarrow> unit presult \<times> 'p batch_stream" where
  "stage_span fetcher prev_flush parent l1_origins inclusion sp s =
     rbind (check_batch_prefix fetcher (bst_config s) l1_origins parent inclusion sp) s (\<lambda>(validity, _).
       case validity of
         Accept \<Rightarrow> (Ok (), s\<lparr>bst_span := Some sp\<rparr>)
       | Drop \<Rightarrow> (Err (temp Eof), stream_flush prev_flush s)
       | Past \<Rightarrow>
           rbind (is_active s) s (\<lambda>a.
             if \<not> a then (Err (crit InvalidBatchValidity), s) else (Err (temp Eof), s))
       | Undecided \<Rightarrow> (Err (temp NotEnoughData), s)
       | Future \<Rightarrow> (Err (temp NotEnoughData), s))"

text \<open>Pulling a single batch out of the staged span batch.\<close>

definition stream_single ::
  "l2_block_info \<Rightarrow> block_info list \<Rightarrow> 'p batch_stream \<Rightarrow> batch presult \<times> 'p batch_stream" where
  "stream_single parent l1_origins s =
     (let (r, s1) = get_single_batch parent l1_origins s in rbind r s1 (\<lambda>b. (Ok (Single b), s1)))"

definition stream_next_batch ::
  "l2_chain_provider \<Rightarrow> ('p, batch) stage \<Rightarrow> ('p \<Rightarrow> 'p) \<Rightarrow> l2_block_info \<Rightarrow> block_info list
     \<Rightarrow> 'p batch_stream \<Rightarrow> batch presult \<times> 'p batch_stream" where
  "stream_next_batch fetcher P prev_flush parent l1_origins s =
     rbind (is_active s) s (\<lambda>active.
     if \<not> active then (let (r, p) = st_next P (bst_prev s) in (r, s\<lparr>bst_prev := p\<rparr>))
     else if bst_buffer s = [] then
         rbind (ok_or (st_origin P (bst_prev s)) (crit MissingOrigin)) s (\<lambda>inclusion.
         let (r, p) = st_next P (bst_prev s); s1 = s\<lparr>bst_prev := p\<rparr> in
         rbind r s1 (\<lambda>b.
         case b of
           Single sb \<Rightarrow> (Ok (Single sb), s1)
         | Span sp \<Rightarrow>
             let (r2, s2) = stage_span fetcher prev_flush parent l1_origins inclusion sp s1 in
             rbind r2 s2 (\<lambda>_. stream_single parent l1_origins s2)))
       else stream_single parent l1_origins s)"

definition stream_advance :: "('p, batch) stage \<Rightarrow> 'p batch_stream \<Rightarrow> unit presult \<times> 'p batch_stream" where
  "stream_advance P s = (let (r, p) = st_advance P (bst_prev s) in (r, s\<lparr>bst_prev := p\<rparr>))"

definition stream_signal :: "('p, batch) stage \<Rightarrow> signal \<Rightarrow> 'p batch_stream \<Rightarrow> unit presult \<times> 'p batch_stream" where
  "stream_signal P sg s =
     (let (r, p) = st_signal P sg (bst_prev s); s1 = s\<lparr>bst_prev := p\<rparr> in
      rbind r s1 (\<lambda>_. (Ok (), s1\<lparr>bst_buffer := [], bst_span := None\<rparr>)))"

text \<open>The \<open>NextBatchProvider\<close> trait with the methods common to all stages.\<close>

record 'p batch_provider =
  bp_next_batch :: "l2_block_info \<Rightarrow> block_info list \<Rightarrow> 'p \<Rightarrow> batch presult \<times> 'p"
  bp_span_buffer_size :: "'p \<Rightarrow> nat"
  bp_flush :: "'p \<Rightarrow> 'p"
  bp_origin :: "'p \<Rightarrow> block_info option"
  bp_advance :: "'p \<Rightarrow> unit presult \<times> 'p"
  bp_signal :: "signal \<Rightarrow> 'p \<Rightarrow> unit presult \<times> 'p"

definition bp_stage :: "'p batch_provider \<Rightarrow> l2_block_info \<Rightarrow> block_info list \<Rightarrow> ('p, batch) stage" where
  "bp_stage B parent l1_origins =
     \<lparr>st_next = bp_next_batch B parent l1_origins, st_origin = bp_origin B, st_advance = bp_advance B,
      st_signal = bp_signal B\<rparr>"

definition batch_stream_provider ::
  "l2_chain_provider \<Rightarrow> ('p, batch) stage \<Rightarrow> ('p \<Rightarrow> 'p) \<Rightarrow> 'p batch_stream batch_provider" where
  "batch_stream_provider fetcher P prev_flush =
     \<lparr>bp_next_batch = stream_next_batch fetcher P prev_flush, bp_span_buffer_size = span_buffer_size,
      bp_flush = stream_flush prev_flush, bp_origin = (\<lambda>s. st_origin P (bst_prev s)),
      bp_advance = stream_advance P, bp_signal = stream_signal P\<rparr>"

section \<open>The contract\<close>

lemma bp_stage_sel [simp]:
  "st_next (bp_stage B parent l1) = bp_next_batch B parent l1"
  "st_origin (bp_stage B parent l1) = bp_origin B"
  "st_advance (bp_stage B parent l1) = bp_advance B"
  "st_signal (bp_stage B parent l1) = bp_signal B"
  by (simp_all add: bp_stage_def)

lemma batch_stream_provider_sel [simp]:
  "bp_next_batch (batch_stream_provider F P fl) = stream_next_batch F P fl"
  "bp_flush (batch_stream_provider F P fl) = stream_flush fl"
  "bp_origin (batch_stream_provider F P fl) = (\<lambda>s. st_origin P (bst_prev s))"
  "bp_advance (batch_stream_provider F P fl) = stream_advance P"
  "bp_signal (batch_stream_provider F P fl) = stream_signal P"
  by (simp_all add: batch_stream_provider_def)

text \<open>A source of batches that can be told to drop the channel it is reading.\<close>

locale batch_reader_source = stage_contract P inv for P :: "('p, batch) stage" and inv +
  fixes flush :: "'p \<Rightarrow> 'p"
  assumes flush_inv: "inv s \<Longrightarrow> inv (flush s)"
    and flush_origin: "inv s \<Longrightarrow> st_origin P (flush s) = st_origin P s"

text \<open>What the batch queue relies on: the contract for every parent and every list of origins.\<close>

locale batch_source =
  fixes B :: "'p batch_provider"
    and inv :: "'p \<Rightarrow> bool"
  assumes contract: "stage_contract (bp_stage B parent l1) inv"
    and bp_flush_inv: "inv s \<Longrightarrow> inv (bp_flush B s)"
    and bp_flush_origin: "inv s \<Longrightarrow> bp_origin B (bp_flush B s) = bp_origin B s"

sublocale batch_source \<subseteq> stage_contract "bp_stage B parent l1" inv for parent l1
  by (rule contract)

lemma get_single_batch_prev: "bst_prev (snd (get_single_batch parent l1 s)) = bst_prev s"
  by (auto simp: get_single_batch_def try_hydrate_buffer_def Let_def
           split: prod.splits rbind_splits option.splits list.splits)

lemma stage_span_prev:
  "bst_prev (snd (stage_span F fl parent l1 inc sp s)) = bst_prev s \<or>
   bst_prev (snd (stage_span F fl parent l1 inc sp s)) = fl (bst_prev s)"
  by (auto simp: stage_span_def is_active_def stream_flush_def split: rbind_splits prod.splits batch_validity.splits)

lemma stream_single_prev: "bst_prev (snd (stream_single parent l1 s)) = bst_prev s"
  using get_single_batch_prev [of parent l1 s] by (auto simp: stream_single_def split: prod.splits rbind_splits)

lemma stream_span_prev:
  assumes "stage_span F fl parent l1 inc sp s = (r, t)"
  shows "bst_prev (snd (rbind r t (\<lambda>_. stream_single parent l1 t))) \<in> {bst_prev s, fl (bst_prev s)}"
  using stage_span_prev [of F fl parent l1 inc sp s] assms stream_single_prev [of parent l1 t]
  by (cases r) auto

lemma stream_next_batch_prev:
  "bst_prev (snd (stream_next_batch F P fl parent l1 s)) \<in>
     {bst_prev s, snd (st_next P (bst_prev s)), fl (snd (st_next P (bst_prev s)))}"
proof (cases "bst_buffer s = []")
  case False
  then show ?thesis by (simp add: stream_next_batch_def is_active_def stream_single_prev)
next
  case True
  obtain r p where n: "st_next P (bst_prev s) = (r, p)" by fastforce
  show ?thesis
  proof (cases "\<exists>sp inc. r = Ok (Span sp) \<and> st_origin P (bst_prev s) = Some inc")
    case span: True
    then obtain sp inc where sp: "r = Ok (Span sp)" "st_origin P (bst_prev s) = Some inc" by blast
    obtain r2 t where "stage_span F fl parent l1 inc sp (s\<lparr>bst_prev := p\<rparr>) = (r2, t)" by fastforce
    with True sp n stream_span_prev [OF this] show ?thesis
      by (simp add: stream_next_batch_def is_active_def)
  next
    case False
    with True n show ?thesis
      by (cases r; cases "st_origin P (bst_prev s)")
         (auto simp: stream_next_batch_def is_active_def Let_def split: batch.splits)
  qed
qed

sublocale batch_reader_source \<subseteq>
  stream: stage_over P inv "bp_stage (batch_stream_provider F P flush) parent l1" bst_prev "\<lambda>_. True" for F parent l1
proof
  fix q sg
  let ?Q = "bp_stage (batch_stream_provider F P flush) parent l1"
  show "st_origin ?Q q = st_origin P (bst_prev q)"
    by simp
  show "inv (bst_prev (snd (st_next ?Q q))) \<and> st_origin P (bst_prev (snd (st_next ?Q q))) = st_origin P (bst_prev q)"
    if "inv (bst_prev q)"
    using stream_next_batch_prev [of F P flush parent l1 q]
    by (auto simp: that pull_inv pull_origin flush_inv flush_origin)
  show "fst (st_advance ?Q q) = fst (st_advance P (bst_prev q))"
    and "bst_prev (snd (st_advance ?Q q)) = snd (st_advance P (bst_prev q))"
    by (simp_all add: stream_advance_def split: prod.split)
  show "(fst (st_signal ?Q sg q) = Ok () \<longrightarrow> fst (st_signal P sg (bst_prev q)) = Ok ())
       \<and> bst_prev (snd (st_signal ?Q sg q)) = snd (st_signal P sg (bst_prev q))
     \<or> signal_origin sg = None \<and> bst_prev (snd (st_signal ?Q sg q)) = bst_prev q"
    by (intro disjI1) (auto simp: stream_signal_def Let_def split: prod.splits rbind_splits)
qed simp_all

sublocale batch_reader_source \<subseteq> stream_source: batch_source "batch_stream_provider F P flush" "\<lambda>s. inv (bst_prev s)" for F
proof (rule batch_source.intro)
  fix parent l1 and s :: "'p batch_stream"
  show "stage_contract (bp_stage (batch_stream_provider F P flush) parent l1) (\<lambda>s. inv (bst_prev s))"
    using stream.stage_contract_axioms by simp
  assume "inv (bst_prev s)"
  then show "inv (bst_prev (bp_flush (batch_stream_provider F P flush) s))"
    and "bp_origin (batch_stream_provider F P flush) (bp_flush (batch_stream_provider F P flush) s)
       = bp_origin (batch_stream_provider F P flush) s"
    by (simp_all add: stream_flush_def is_active_def flush_inv flush_origin)
qed

text \<open>The reader and the stream of the pipeline.\<close>

type_synonym channel_reader_state = "frame_queue_state channel_provider channel_reader"
type_synonym batch_stream_state = "channel_reader_state batch_stream"

definition l1_reader_stage ::
  "codec \<Rightarrow> abi_decoder \<Rightarrow> chain_provider \<Rightarrow> da_provider \<Rightarrow> (channel_reader_state, batch) stage" where
  "l1_reader_stage Z A cp dap = channel_reader_stage Z (l1_channel_stage A cp dap)"

definition reader_inv :: "channel_reader_state \<Rightarrow> bool" where
  "reader_inv s \<longleftrightarrow> cm_inv (\<lambda>_. True) (cr_prev s)"

interpretation l1_reader: batch_reader_source "l1_reader_stage Z A cp dap" reader_inv reader_flush for Z A cp dap
proof -
  have "stage_contract (l1_reader_stage Z A cp dap) reader_inv"
    using l1_channels.reader.stage_contract_axioms by (simp add: l1_reader_stage_def reader_inv_def [abs_def])
  then show "batch_reader_source (l1_reader_stage Z A cp dap) reader_inv reader_flush"
    unfolding batch_reader_source_def batch_reader_source_axioms_def
    by (simp add: l1_reader_stage_def reader_inv_def reader_flush_def next_channel_def)
qed

definition l1_batch_provider ::
  "l2_chain_provider \<Rightarrow> codec \<Rightarrow> abi_decoder \<Rightarrow> chain_provider \<Rightarrow> da_provider \<Rightarrow> batch_stream_state batch_provider" where
  "l1_batch_provider F Z A cp dap = batch_stream_provider F (l1_reader_stage Z A cp dap) reader_flush"

definition stream_inv :: "batch_stream_state \<Rightarrow> bool" where
  "stream_inv s \<longleftrightarrow> reader_inv (bst_prev s)"

interpretation l1_batches: batch_source "l1_batch_provider F Z A cp dap" stream_inv for F Z A cp dap
  using l1_reader.stream_source.batch_source_axioms
  by (simp add: l1_batch_provider_def stream_inv_def [abs_def])

end
