(* ===== verification/Batch_Queue.thy ===== *)
theory Batch_Queue
  imports Batch_Stream
begin

text \<open>
  \<open>BatchQueue\<close> (\<^verbatim>\<open>derive/src/stages/batch/batch_queue.rs\<close>): orders the batches on top of the L2
  safe head, tracks the window of L1 blocks they may belong to, and creates empty batches
  when the sequencing window has passed. The \<open>fetcher\<close> is the L2 chain provider.
\<close>

section \<open>Definitions\<close>

record 'p batch_queue =
  bq_cfg :: rollup_config
  bq_prev :: 'p
  bq_origin :: "block_info option"
  bq_l1_blocks :: "block_info list"
  bq_batches :: "batch_with_inclusion_block list"
  bq_next_spans :: "single_batch list"

definition batch_queue_new :: "rollup_config \<Rightarrow> 'p \<Rightarrow> 'p batch_queue" where
  "batch_queue_new cfg prev =
     \<lparr>bq_cfg = cfg, bq_prev = prev, bq_origin = None, bq_l1_blocks = [], bq_batches = [], bq_next_spans = []\<rparr>"

definition pop_next_batch :: "l2_block_info \<Rightarrow> 'p batch_queue \<Rightarrow> single_batch option presult \<times> 'p batch_queue" where
  "pop_next_batch parent s =
     (case bq_next_spans s of
        [] \<Rightarrow> (Panic, s)
      | b # bs \<Rightarrow> (Ok (Some (b\<lparr>sb_parent_hash := bi_hash (l2_block parent)\<rparr>)), s\<lparr>bq_next_spans := bs\<rparr>))"

text \<open>The loop over the queued batches ends with a batch, at an undecided batch, or at the end.\<close>

datatype selection =
    Chosen batch "batch_with_inclusion_block list"
  | Stopped "batch_with_inclusion_block list"
  | Exhausted

fun select_batch ::
  "l2_chain_provider \<Rightarrow> rollup_config \<Rightarrow> block_info list \<Rightarrow> l2_block_info \<Rightarrow> ('p \<Rightarrow> 'p)
     \<Rightarrow> batch_with_inclusion_block list \<Rightarrow> 'p \<Rightarrow> selection presult \<times> 'p" where
  "select_batch F cfg l1_blocks parent flush [] p = (Ok Exhausted, p)"
| "select_batch F cfg l1_blocks parent flush (b # bs) p =
     rbind (check_batch F cfg l1_blocks parent b) p (\<lambda>validity.
       case validity of
         Future \<Rightarrow> select_batch F cfg l1_blocks parent flush bs (flush p)
       | Drop \<Rightarrow> select_batch F cfg l1_blocks parent flush bs (flush p)
       | Accept \<Rightarrow> (Ok (Chosen (bw_batch b) bs), p)
       | Undecided \<Rightarrow> (Ok (Stopped (b # bs)), p)
       | Past \<Rightarrow> select_batch F cfg l1_blocks parent flush bs p)"

text \<open>Forcing an empty batch, or moving on to the next epoch, once no queued batch is left.\<close>

definition force_empty_batch ::
  "bool \<Rightarrow> l2_block_info \<Rightarrow> block_info \<Rightarrow> 'p batch_queue \<Rightarrow> batch presult \<times> 'p batch_queue" where
  "force_empty_batch no_data parent origin s =
     (let epoch = hd (bq_l1_blocks s);
          next_timestamp = bi_timestamp (l2_block parent) + rc_block_time (bq_cfg s);
          expiry_epoch = bi_number epoch + rc_seq_window_size (bq_cfg s);
          force_empty_batches = (expiry_epoch = bi_number origin \<and> no_data \<or> expiry_epoch < bi_number origin);
          first_of_epoch = (bi_number epoch = bnh_number (l2_l1_origin parent) + 1) in
      if \<not> force_empty_batches then (Err (temp Eof), s)
      else if length (bq_l1_blocks s) < 2 then (Err (temp Eof), s)
      else
        let next_epoch = bq_l1_blocks s ! 1 in
        if next_timestamp < bi_timestamp next_epoch \<or> first_of_epoch then
          (Ok (Single \<lparr>sb_parent_hash = bi_hash (l2_block parent), sb_epoch_num = bi_number epoch,
                       sb_epoch_hash = bi_hash epoch, sb_timestamp = next_timestamp, sb_transactions = []\<rparr>), s)
        else (Err (temp Eof), s\<lparr>bq_l1_blocks := tl (bq_l1_blocks s)\<rparr>))"

definition derive_next_batch ::
  "l2_chain_provider \<Rightarrow> 'p batch_provider \<Rightarrow> bool \<Rightarrow> l2_block_info \<Rightarrow> 'p batch_queue \<Rightarrow> batch presult \<times> 'p batch_queue" where
  "derive_next_batch F B no_data parent s =
     (if bq_l1_blocks s = [] then (Err (crit MissingOrigin), s)
      else
        let epoch = hd (bq_l1_blocks s) in
        if bi_number (l2_block parent) \<noteq> 0 \<and> l2_l1_origin parent \<noteq> block_id epoch
           \<and> bnh_number (l2_l1_origin parent) \<noteq> bi_number epoch - 1
        then (Err (ResetKind (L1OriginMismatch (bnh_number (l2_l1_origin parent)) (bi_number epoch - 1))), s)
        else
          rbind (ok_or (bq_origin s) (crit MissingOrigin)) s (\<lambda>origin.
          let (r, p) = select_batch F (bq_cfg s) (bq_l1_blocks s) parent (bp_flush B) (bq_batches s) (bq_prev s);
              s1 = s\<lparr>bq_prev := p\<rparr> in
          rbind r s1 (\<lambda>sel.
          case sel of
            Chosen b rest \<Rightarrow> (Ok b, s1\<lparr>bq_batches := rest\<rparr>)
          | Stopped rest \<Rightarrow> (Err (temp Eof), s1\<lparr>bq_batches := rest\<rparr>)
          | Exhausted \<Rightarrow> force_empty_batch no_data parent origin (s1\<lparr>bq_batches := []\<rparr>))))"

definition add_batch ::
  "l2_chain_provider \<Rightarrow> 'p batch_provider \<Rightarrow> batch \<Rightarrow> l2_block_info \<Rightarrow> 'p batch_queue \<Rightarrow> unit presult \<times> 'p batch_queue" where
  "add_batch F B b parent s =
     (if bq_l1_blocks s = [] then (Panic, s)
      else
        rbind (ok_or (bq_origin s) (crit MissingOrigin)) s (\<lambda>origin.
        let data = \<lparr>bw_inclusion_block = origin, bw_batch = b\<rparr> in
        rbind (check_batch F (bq_cfg s) (bq_l1_blocks s) parent data) s (\<lambda>validity.
        if is_drop validity \<or> is_future validity then (Ok (), s\<lparr>bq_prev := bp_flush B (bq_prev s)\<rparr>)
        else if is_outdated validity then (Ok (), s)
        else (Ok (), s\<lparr>bq_batches := bq_batches s @ [data]\<rparr>))))"

text \<open>\<open>drain(0..i)\<close> for the first block with number \<open>n\<close>, if there is one.\<close>

definition advance_epoch :: "u64 \<Rightarrow> block_info list \<Rightarrow> block_info list" where
  "advance_epoch n bs =
     (if bs \<noteq> [] \<and> n > bi_number (hd bs) \<and> list_ex (\<lambda>b. bi_number b = n) bs
      then dropWhile (\<lambda>b. bi_number b \<noteq> n) bs else bs)"

definition origin_behind :: "'p batch_provider \<Rightarrow> l2_block_info \<Rightarrow> 'p \<Rightarrow> bool" where
  "origin_behind B parent p =
     (case bp_origin B p of None \<Rightarrow> True | Some origin \<Rightarrow> bi_number origin < bnh_number (l2_l1_origin parent))"

text \<open>The update of the window at the start of \<open>next_batch\<close>.\<close>

definition sync_origin :: "'p batch_provider \<Rightarrow> l2_block_info \<Rightarrow> 'p batch_queue \<Rightarrow> unit presult \<times> 'p batch_queue" where
  "sync_origin B parent s =
     (let s1 = s\<lparr>bq_l1_blocks := advance_epoch (bnh_number (l2_l1_origin parent)) (bq_l1_blocks s)\<rparr> in
      if bq_origin s1 \<noteq> bp_origin B (bq_prev s1) then
        let s2 = s1\<lparr>bq_origin := bp_origin B (bq_prev s1)\<rparr> in
        if \<not> origin_behind B parent (bq_prev s2) then
          rbind (ok_or (bq_origin s2) (crit MissingOrigin)) s2 (\<lambda>origin.
            (Ok (), s2\<lparr>bq_l1_blocks := bq_l1_blocks s2 @ [origin]\<rparr>))
        else (Ok (), s2\<lparr>bq_l1_blocks := []\<rparr>)
      else (Ok (), s1))"

text \<open>Loading one batch; \<open>Ok True\<close> means the lower stages are out of data.\<close>

definition load_batch_data ::
  "l2_chain_provider \<Rightarrow> 'p batch_provider \<Rightarrow> l2_block_info \<Rightarrow> 'p batch_queue \<Rightarrow> bool presult \<times> 'p batch_queue" where
  "load_batch_data F B parent s =
     (let behind = origin_behind B parent (bq_prev s);
          (r, p) = bp_next_batch B parent (bq_l1_blocks s) (bq_prev s);
          s1 = s\<lparr>bq_prev := p\<rparr> in
      case r of
        Ok b \<Rightarrow>
          if \<not> behind then
            (case add_batch F B b parent s1 of
               (Panic, s2) \<Rightarrow> (Panic, s2)
             | (_, s2) \<Rightarrow> (Ok False, s2))
          else (Ok False, s1)
      | Err e \<Rightarrow> if e = Temporary Eof then (Ok True, s1) else (Err e, s1)
      | Panic \<Rightarrow> (Panic, s1))"

text \<open>The derived batch as the answer: a span batch fills the cache first.\<close>

definition unfold_batch :: "batch \<Rightarrow> l2_block_info \<Rightarrow> 'p batch_queue \<Rightarrow> single_batch presult \<times> 'p batch_queue" where
  "unfold_batch b parent s =
     (case b of
        Single sb \<Rightarrow> (Ok sb, s)
      | Span sp \<Rightarrow>
          rbind (map_err (\<lambda>e. crit (BadEncoding (SpanBatchErr e))) (get_singular_batches (bq_l1_blocks s) parent sp)) s (\<lambda>bs.
          let (r, s1) = pop_next_batch parent (s\<lparr>bq_next_spans := bs\<rparr>) in
          rbind r s1 (\<lambda>nb. (ok_or nb (crit BatchQueueEmpty), s1))))"

definition derive_and_unfold ::
  "l2_chain_provider \<Rightarrow> 'p batch_provider \<Rightarrow> bool \<Rightarrow> l2_block_info \<Rightarrow> 'p batch_queue \<Rightarrow> single_batch presult \<times> 'p batch_queue" where
  "derive_and_unfold F B out_of_data parent s =
     (case derive_next_batch F B out_of_data parent s of
        (Ok b, s1) \<Rightarrow> unfold_batch b parent s1
      | (Err e, s1) \<Rightarrow>
          (if e = Temporary Eof
           then (if out_of_data then (Err (temp Eof), s1) else (Err (temp NotEnoughData), s1))
           else (Err e, s1))
      | (Panic, s1) \<Rightarrow> (Panic, s1))"

definition queue_fresh_batch ::
  "l2_chain_provider \<Rightarrow> 'p batch_provider \<Rightarrow> l2_block_info \<Rightarrow> 'p batch_queue \<Rightarrow> single_batch presult \<times> 'p batch_queue" where
  "queue_fresh_batch F B parent s =
     (let (r1, s1) = sync_origin B parent s in
      rbind r1 s1 (\<lambda>_.
      let behind = origin_behind B parent (bq_prev s1); (r2, s2) = load_batch_data F B parent s1 in
      rbind r2 s2 (\<lambda>out_of_data.
      if behind then (if out_of_data then (Err (temp Eof), s2) else (Err (temp NotEnoughData), s2))
      else derive_and_unfold F B out_of_data parent s2)))"

definition queue_next_batch ::
  "l2_chain_provider \<Rightarrow> 'p batch_provider \<Rightarrow> l2_block_info \<Rightarrow> 'p batch_queue \<Rightarrow> single_batch presult \<times> 'p batch_queue" where
  "queue_next_batch F B parent s =
     (case bq_next_spans s of
        [] \<Rightarrow> queue_fresh_batch F B parent s
      | nxt # _ \<Rightarrow>
          if sb_timestamp nxt = bi_timestamp (l2_block parent) + rc_block_time (bq_cfg s)
          then (let (r, s1) = pop_next_batch parent s in rbind r s1 (\<lambda>nb. (ok_or nb (crit BatchQueueEmpty), s1)))
          else queue_fresh_batch F B parent (s\<lparr>bq_next_spans := []\<rparr>))"

definition is_last_in_span :: "'p batch_queue \<Rightarrow> bool" where
  "is_last_in_span s \<longleftrightarrow> bq_next_spans s = []"

definition queue_advance :: "'p batch_provider \<Rightarrow> 'p batch_queue \<Rightarrow> unit presult \<times> 'p batch_queue" where
  "queue_advance B s = (let (r, p) = bp_advance B (bq_prev s) in (r, s\<lparr>bq_prev := p\<rparr>))"

definition queue_signal :: "'p batch_provider \<Rightarrow> signal \<Rightarrow> 'p batch_queue \<Rightarrow> unit presult \<times> 'p batch_queue" where
  "queue_signal B sg s =
     (let (r, p) = bp_signal B sg (bq_prev s); s1 = s\<lparr>bq_prev := p\<rparr> in
      rbind r s1 (\<lambda>_.
        case sg of
          SigReset x \<Rightarrow> (Ok (), s1\<lparr>bq_origin := Some (sig_l1_origin x), bq_batches := [],
                                  bq_l1_blocks := [sig_l1_origin x], bq_next_spans := []\<rparr>)
        | _ \<Rightarrow> (Ok (), s1\<lparr>bq_batches := [], bq_next_spans := []\<rparr>)))"

section \<open>The parent hash\<close>

lemma single_Accept_parent:
  "single_check_batch cfg l1 parent inc sb = Accept \<Longrightarrow> sb_parent_hash sb = bi_hash (l2_block parent)"
  using single_check_batch_Accept by (simp add: admissible_def)

lemma select_batch_Chosen:
  "select_batch F cfg l1 parent fl bs p = (Ok (Chosen b rest), p') \<Longrightarrow>
     \<exists>bw \<in> set bs. bw_batch bw = b \<and> check_batch F cfg l1 parent bw = (Ok Accept :: (batch_validity, pipeline_error_kind) res)"
proof (induction F cfg l1 parent fl bs p rule: select_batch.induct)
  case (2 F cfg l1 parent fl bw bs p)
  obtain v where v: "check_batch F cfg l1 parent bw = (Ok v :: (batch_validity, pipeline_error_kind) res)"
    using 2(4) by (cases "check_batch F cfg l1 parent bw :: (batch_validity, pipeline_error_kind) res") auto
  show ?case
    using 2 v by (cases v) auto
qed simp

lemma force_empty_batch_Ok:
  assumes "force_empty_batch no_data parent origin s = (Ok b, s')"
  shows "b = Single \<lparr>sb_parent_hash = bi_hash (l2_block parent), sb_epoch_num = bi_number (hd (bq_l1_blocks s)),
             sb_epoch_hash = bi_hash (hd (bq_l1_blocks s)),
             sb_timestamp = bi_timestamp (l2_block parent) + rc_block_time (bq_cfg s), sb_transactions = []\<rparr>"
    and "bi_number (hd (bq_l1_blocks s)) + rc_seq_window_size (bq_cfg s) \<le> bi_number origin"
    and "s' = s" and "2 \<le> length (bq_l1_blocks s)"
  using assms by (auto simp: force_empty_batch_def Let_def split: if_splits)

text \<open>A derived batch was queued and accepted, or is an empty batch forced by an expired window.\<close>

definition forced_empty :: "l2_block_info \<Rightarrow> 'p batch_queue \<Rightarrow> batch \<Rightarrow> bool" where
  "forced_empty parent s b \<longleftrightarrow>
     (\<exists>epoch origin. bq_origin s = Some origin \<and> bq_l1_blocks s \<noteq> [] \<and> hd (bq_l1_blocks s) = epoch
       \<and> bi_number epoch + rc_seq_window_size (bq_cfg s) \<le> bi_number origin
       \<and> b = Single \<lparr>sb_parent_hash = bi_hash (l2_block parent), sb_epoch_num = bi_number epoch,
               sb_epoch_hash = bi_hash epoch,
               sb_timestamp = bi_timestamp (l2_block parent) + rc_block_time (bq_cfg s), sb_transactions = []\<rparr>)"

definition queued_accepted :: "l2_chain_provider \<Rightarrow> l2_block_info \<Rightarrow> 'p batch_queue \<Rightarrow> batch \<Rightarrow> bool" where
  "queued_accepted F parent s b \<longleftrightarrow>
     (\<exists>bw \<in> set (bq_batches s). bw_batch bw = b
       \<and> check_batch F (bq_cfg s) (bq_l1_blocks s) parent bw = (Ok Accept :: (batch_validity, pipeline_error_kind) res))"

lemma derive_next_batch_Ok:
  assumes "derive_next_batch F B no_data parent s = (Ok b, s')"
  shows "queued_accepted F parent s b \<or> bq_batches s' = [] \<and> forced_empty parent s b"
proof -
  obtain origin where o: "bq_origin s = Some origin" and ne: "bq_l1_blocks s \<noteq> []"
    using assms by (cases "bq_origin s") (auto simp: derive_next_batch_def Let_def split: if_splits)
  obtain r p where sel: "select_batch F (bq_cfg s) (bq_l1_blocks s) parent (bp_flush B) (bq_batches s) (bq_prev s) = (r, p)"
    by fastforce
  from assms o ne sel obtain q where "r = Ok q"
    by (cases r) (auto simp: derive_next_batch_def Let_def split: if_splits)
  with assms o ne sel show ?thesis
  proof (cases q)
    case (Chosen c rest)
    with assms o ne sel \<open>r = Ok q\<close> have "c = b"
      by (auto simp: derive_next_batch_def Let_def split: if_splits)
    with sel \<open>r = Ok q\<close> Chosen have "queued_accepted F parent s b"
      using select_batch_Chosen [of F "bq_cfg s" "bq_l1_blocks s" parent "bp_flush B" "bq_batches s" "bq_prev s" b rest p]
      by (simp add: queued_accepted_def)
    then show ?thesis ..
  next
    case Exhausted
    define t where "t = s\<lparr>bq_prev := p, bq_batches := []\<rparr>"
    have f: "force_empty_batch no_data parent origin t = (Ok b, s')"
      using assms o ne sel \<open>r = Ok q\<close> Exhausted by (auto simp: derive_next_batch_def Let_def t_def split: if_splits)
    show ?thesis
      using force_empty_batch_Ok [OF f] o ne by (auto simp: forced_empty_def t_def)
  qed (auto simp: derive_next_batch_def Let_def split: if_splits)
qed

lemma unfold_batch_parent:
  assumes "unfold_batch b parent s = (Ok sb, s')"
  shows "(\<exists>sb'. b = Single sb' \<and> sb = sb') \<or> sb_parent_hash sb = bi_hash (l2_block parent)"
  using assms
  by (auto simp: unfold_batch_def pop_next_batch_def Let_def split: batch.split_asm rbind_split_asm list.split_asm prod.split_asm)

lemma derive_and_unfold_parent:
  assumes "derive_and_unfold F B out parent s = (Ok sb, s')"
  shows "sb_parent_hash sb = bi_hash (l2_block parent)"
proof -
  obtain b s1 where d: "derive_next_batch F B out parent s = (Ok b, s1)" and u: "unfold_batch b parent s1 = (Ok sb, s')"
    using assms by (auto simp: derive_and_unfold_def split: prod.splits res.splits if_splits)
  have "sb_parent_hash sb' = bi_hash (l2_block parent)" if "b = Single sb'" for sb'
    using derive_next_batch_Ok [OF d] that
    by (auto simp: queued_accepted_def check_batch_def forced_empty_def intro: single_Accept_parent)
  with unfold_batch_parent [OF u] show ?thesis by blast
qed

lemma queue_fresh_batch_parent:
  assumes "queue_fresh_batch F B parent s = (Ok sb, s')"
  shows "sb_parent_hash sb = bi_hash (l2_block parent)"
  using assms
  by (auto simp: queue_fresh_batch_def Let_def res_simps split: prod.splits if_splits dest: derive_and_unfold_parent)

lemma queue_next_batch_parent:
  assumes "queue_next_batch F B parent s = (Ok sb, s')"
  shows "sb_parent_hash sb = bi_hash (l2_block parent)"
  using assms
  by (auto simp: queue_next_batch_def pop_next_batch_def res_simps split: list.splits if_splits
           dest: queue_fresh_batch_parent)

section \<open>The window of L1 blocks\<close>

text \<open>
  The comment on \<open>l1_blocks\<close> calls it a consecutive window: each block extends the one before,
  and the newest one is the origin of the stage. The origin of the lower stages is at most
  one advance ahead until the queue is called again.
\<close>

definition window_inv :: "block_info option \<Rightarrow> 'p batch_queue \<Rightarrow> bool" where
  "window_inv low s \<longleftrightarrow>
     successively extends (bq_l1_blocks s)
   \<and> (bq_l1_blocks s \<noteq> [] \<longrightarrow> bq_origin s = Some (last (bq_l1_blocks s)))
   \<and> (bq_l1_blocks s \<noteq> [] \<longrightarrow> low = bq_origin s \<or> advances (bq_origin s) low)"

definition in_sync :: "block_info option \<Rightarrow> 'p batch_queue \<Rightarrow> bool" where
  "in_sync low s \<longleftrightarrow> low = bq_origin s"

lemma successively_dropWhile: "successively R xs \<Longrightarrow> successively R (dropWhile P xs)"
  by (metis successively_append_iff takeWhile_dropWhile_id)

lemma advance_epoch_window:
  "successively extends bs \<Longrightarrow> successively extends (advance_epoch n bs)"
  "bs \<noteq> [] \<Longrightarrow> advance_epoch n bs \<noteq> [] \<and> last (advance_epoch n bs) = last bs"
proof -
  show "successively extends bs \<Longrightarrow> successively extends (advance_epoch n bs)"
    by (simp add: advance_epoch_def successively_dropWhile)
  assume ne: "bs \<noteq> []"
  have "dropWhile (\<lambda>b. bi_number b \<noteq> n) bs \<noteq> []" if "list_ex (\<lambda>b. bi_number b = n) bs"
    using that by (auto simp: list_ex_iff)
  moreover have "last (dropWhile Q bs) = last bs" if "dropWhile Q bs \<noteq> []" for Q
    using that by (metis last_appendR takeWhile_dropWhile_id)
  ultimately show "advance_epoch n bs \<noteq> [] \<and> last (advance_epoch n bs) = last bs"
    using ne by (simp add: advance_epoch_def)
qed

lemma sync_origin_window:
  assumes "window_inv (bp_origin B (bq_prev s)) s"
  shows "window_inv (bp_origin B (bq_prev s)) (snd (sync_origin B parent s))
    \<and> in_sync (bp_origin B (bq_prev s)) (snd (sync_origin B parent s))
    \<and> bq_prev (snd (sync_origin B parent s)) = bq_prev s"
proof -
  define bs where "bs = advance_epoch (bnh_number (l2_l1_origin parent)) (bq_l1_blocks s)"
  have chain: "successively extends bs" and last: "bs \<noteq> [] \<Longrightarrow> bq_origin s = Some (last bs)"
    using assms advance_epoch_window [of "bq_l1_blocks s" "bnh_number (l2_l1_origin parent)"]
    by (auto simp: window_inv_def bs_def) (auto simp: advance_epoch_def)
  show ?thesis
  proof (cases "bq_origin s = bp_origin B (bq_prev s)")
    case True
    with chain last show ?thesis
      by (auto simp: sync_origin_def window_inv_def in_sync_def simp flip: bs_def)
  next
    case False
    have "successively extends (bs @ [b'])" if "bp_origin B (bq_prev s) = Some b'" for b'
    proof (cases "bs = []")
      case ne: False
      then have "bq_l1_blocks s \<noteq> []" by (auto simp: bs_def advance_epoch_def)
      with False assms that have "advances (bq_origin s) (Some b')" by (auto simp: window_inv_def)
      with chain last [OF ne] show ?thesis by (auto simp: successively_append_iff advances_def)
    qed simp
    moreover have "origin_behind B parent (bq_prev s)" if "bp_origin B (bq_prev s) = None"
      using that by (simp add: origin_behind_def)
    ultimately show ?thesis
      using False
      by (cases "bp_origin B (bq_prev s)")
         (auto simp: sync_origin_def window_inv_def in_sync_def Let_def simp flip: bs_def)
  qed
qed

text \<open>
  After the update the methods only drop blocks from the front of the window and keep at
  least one, and they touch the lower stage by pulls and flushes.
\<close>

definition narrows :: "'p batch_queue \<Rightarrow> 'p batch_queue \<Rightarrow> bool" where
  "narrows s s' \<longleftrightarrow>
     bq_origin s' = bq_origin s \<and> suffix (bq_l1_blocks s') (bq_l1_blocks s)
   \<and> (bq_l1_blocks s \<noteq> [] \<longrightarrow> bq_l1_blocks s' \<noteq> [])"

lemma narrows_refl [simp, intro]: "narrows s s"
  by (simp add: narrows_def)

lemma narrows_trans: "\<lbrakk> narrows s t; narrows t u \<rbrakk> \<Longrightarrow> narrows s u"
  by (auto simp: narrows_def intro: suffix_order.trans)

lemma narrows_window:
  assumes "window_inv low s" and "narrows s s'"
  shows "window_inv low s'"
proof -
  obtain xs where "bq_l1_blocks s = xs @ bq_l1_blocks s'"
    using assms(2) by (auto simp: narrows_def suffix_def)
  with assms show ?thesis
    by (auto simp: window_inv_def narrows_def successively_append_iff)
qed

lemma force_empty_batch_narrows:
  "narrows s (snd (force_empty_batch no_data parent origin s)) \<and> bq_prev (snd (force_empty_batch no_data parent origin s)) = bq_prev s"
  by (auto simp: force_empty_batch_def narrows_def Let_def suffix_tl neq_Nil_conv length_Suc_conv numeral_2_eq_2 not_less
      Suc_le_length_iff)

lemma unfold_batch_narrows:
  "narrows s (snd (unfold_batch b parent s)) \<and> bq_prev (snd (unfold_batch b parent s)) = bq_prev s"
  by (auto simp: unfold_batch_def pop_next_batch_def narrows_def Let_def
           split: batch.split rbind_splits list.splits prod.splits)

text \<open>The record of the queue as a stage of single batches for a given parent.\<close>

definition queue_stage ::
  "l2_chain_provider \<Rightarrow> 'p batch_provider \<Rightarrow> l2_block_info \<Rightarrow> ('p batch_queue, single_batch) stage" where
  "queue_stage F B parent =
     \<lparr>st_next = queue_next_batch F B parent, st_origin = (\<lambda>s. bp_origin B (bq_prev s)),
      st_advance = queue_advance B, st_signal = queue_signal B\<rparr>"

lemma queue_stage_sel [simp]:
  "st_next (queue_stage F B parent) = queue_next_batch F B parent"
  "st_origin (queue_stage F B parent) = (\<lambda>s. bp_origin B (bq_prev s))"
  "st_advance (queue_stage F B parent) = queue_advance B"
  "st_signal (queue_stage F B parent) = queue_signal B"
  by (simp_all add: queue_stage_def)

lemma sync_origin_prev: "bq_prev (snd (sync_origin B parent s)) = bq_prev s"
  by (auto simp: sync_origin_def Let_def split: rbind_splits)

context batch_source
begin

lemma bp_pull: "inv p \<Longrightarrow> inv (snd (bp_next_batch B parent l1 p)) \<and> bp_origin B (snd (bp_next_batch B parent l1 p)) = bp_origin B p"
  using pull_inv [of p parent l1] pull_origin [of p parent l1] by simp

lemma select_batch_keeps:
  "inv p \<Longrightarrow> inv (snd (select_batch F cfg l1 parent (bp_flush B) bs p))
     \<and> bp_origin B (snd (select_batch F cfg l1 parent (bp_flush B) bs p)) = bp_origin B p"
proof (induction bs arbitrary: p)
  case (Cons b bs)
  show ?case
    using Cons.IH [of p] Cons.IH [of "bp_flush B p"] Cons.prems bp_flush_inv [of p] bp_flush_origin [of p]
    by (auto split: rbind_splits batch_validity.split)
qed simp

lemma derive_next_batch_keeps:
  assumes "inv (bq_prev s)"
  shows "narrows s (snd (derive_next_batch F B no_data parent s)) \<and> inv (bq_prev (snd (derive_next_batch F B no_data parent s)))
    \<and> bp_origin B (bq_prev (snd (derive_next_batch F B no_data parent s))) = bp_origin B (bq_prev s)"
proof -
  obtain r p where sel: "select_batch F (bq_cfg s) (bq_l1_blocks s) parent (bp_flush B) (bq_batches s) (bq_prev s) = (r, p)"
    by fastforce
  have p: "inv p" "bp_origin B p = bp_origin B (bq_prev s)"
    using select_batch_keeps [OF assms, of F "bq_cfg s" "bq_l1_blocks s" parent "bq_batches s"] sel by auto
  have force: "narrows s (snd (force_empty_batch no_data parent origin (s\<lparr>bq_prev := p, bq_batches := []\<rparr>)))" for origin
    using force_empty_batch_narrows [of "s\<lparr>bq_prev := p, bq_batches := []\<rparr>" no_data parent origin]
    by (simp add: narrows_def)
  show ?thesis
    using assms p sel force force_empty_batch_narrows [of "s\<lparr>bq_prev := p, bq_batches := []\<rparr>" no_data parent]
    by (auto simp: derive_next_batch_def Let_def narrows_def split: rbind_splits selection.splits)
qed

lemma add_batch_keeps:
  assumes "inv (bq_prev s)"
  shows "narrows s (snd (add_batch F B b parent s)) \<and> inv (bq_prev (snd (add_batch F B b parent s)))
    \<and> bp_origin B (bq_prev (snd (add_batch F B b parent s))) = bp_origin B (bq_prev s)"
  using assms bp_flush_inv [of "bq_prev s"] bp_flush_origin [of "bq_prev s"]
  by (auto simp: add_batch_def narrows_def Let_def split: rbind_splits)

lemma load_batch_data_keeps:
  assumes "inv (bq_prev s)"
  shows "narrows s (snd (load_batch_data F B parent s)) \<and> inv (bq_prev (snd (load_batch_data F B parent s)))
    \<and> bp_origin B (bq_prev (snd (load_batch_data F B parent s))) = bp_origin B (bq_prev s)"
proof -
  obtain r p where n: "bp_next_batch B parent (bq_l1_blocks s) (bq_prev s) = (r, p)" by fastforce
  have p: "inv p" "bp_origin B p = bp_origin B (bq_prev s)"
    using bp_pull [OF assms, of parent "bq_l1_blocks s"] n by auto
  have add: "narrows s (snd (add_batch F B b parent (s\<lparr>bq_prev := p\<rparr>)))"
    "inv (bq_prev (snd (add_batch F B b parent (s\<lparr>bq_prev := p\<rparr>))))"
    "bp_origin B (bq_prev (snd (add_batch F B b parent (s\<lparr>bq_prev := p\<rparr>)))) = bp_origin B (bq_prev s)" for b
    using p add_batch_keeps [of "s\<lparr>bq_prev := p\<rparr>" F b parent] by (auto simp: narrows_def)
  have "snd (load_batch_data F B parent s) \<in> {s\<lparr>bq_prev := p\<rparr>} \<union> range (\<lambda>b. snd (add_batch F B b parent (s\<lparr>bq_prev := p\<rparr>)))"
    using n by (auto simp: load_batch_data_def Let_def image_iff split: res.splits prod.splits) (metis snd_conv)+
  with p add show ?thesis by (auto simp: narrows_def)
qed

lemma derive_and_unfold_keeps:
  assumes "inv (bq_prev s)"
  shows "narrows s (snd (derive_and_unfold F B out parent s)) \<and> inv (bq_prev (snd (derive_and_unfold F B out parent s)))
    \<and> bp_origin B (bq_prev (snd (derive_and_unfold F B out parent s))) = bp_origin B (bq_prev s)"
proof -
  obtain r t where d: "derive_next_batch F B out parent s = (r, t)" by fastforce
  have t: "narrows s t" "inv (bq_prev t)" "bp_origin B (bq_prev t) = bp_origin B (bq_prev s)"
    using derive_next_batch_keeps [OF assms, of F out parent] d by auto
  show ?thesis
    using t d unfold_batch_narrows [of t _ parent]
    by (auto simp: derive_and_unfold_def intro: narrows_trans split: res.split)
qed

lemma queue_fresh_batch_steps:
  assumes "inv (bq_prev s)"
  shows "inv (bq_prev (snd (queue_fresh_batch F B parent s)))
    \<and> bp_origin B (bq_prev (snd (queue_fresh_batch F B parent s))) = bp_origin B (bq_prev s)
    \<and> narrows (snd (sync_origin B parent s)) (snd (queue_fresh_batch F B parent s))"
proof -
  define s1 where "s1 = snd (sync_origin B parent s)"
  define s2 where "s2 = snd (load_batch_data F B parent s1)"
  have s1: "bq_prev s1 = bq_prev s" by (simp add: s1_def sync_origin_prev)
  have s2: "narrows s1 s2" "inv (bq_prev s2)" "bp_origin B (bq_prev s2) = bp_origin B (bq_prev s)"
    using load_batch_data_keeps [of s1 F parent] assms s1 by (simp_all add: s2_def)
  have s3: "narrows s1 (snd (derive_and_unfold F B out parent s2))"
      "inv (bq_prev (snd (derive_and_unfold F B out parent s2)))"
      "bp_origin B (bq_prev (snd (derive_and_unfold F B out parent s2))) = bp_origin B (bq_prev s)" for out
    using derive_and_unfold_keeps [OF s2(2), of F out parent] s2 narrows_trans by auto
  have "snd (queue_fresh_batch F B parent s) \<in> {s1, s2} \<union> range (\<lambda>out. snd (derive_and_unfold F B out parent s2))"
    by (auto simp: queue_fresh_batch_def s1_def s2_def Let_def split: prod.splits rbind_splits)
  with s1 s2 s3 assms show ?thesis
    unfolding s1_def [symmetric] by auto
qed

lemma queue_fresh_batch_window:
  assumes "inv (bq_prev s)" and "window_inv (bp_origin B (bq_prev s)) s"
  shows "window_inv (bp_origin B (bq_prev s)) (snd (queue_fresh_batch F B parent s))
    \<and> in_sync (bp_origin B (bq_prev s)) (snd (queue_fresh_batch F B parent s))"
  using queue_fresh_batch_steps [OF assms(1), of F parent] sync_origin_window [OF assms(2), of parent]
    narrows_window [of "bp_origin B (bq_prev s)" "snd (sync_origin B parent s)" "snd (queue_fresh_batch F B parent s)"]
  by (auto simp: in_sync_def narrows_def)

text \<open>Pulling from the queue: the cache answers, or the window is updated and a batch derived.\<close>

lemma queue_next_batch_cases:
  obtains (cached) "snd (queue_next_batch F B parent s) = s\<lparr>bq_next_spans := tl (bq_next_spans s)\<rparr>"
      and "fst (queue_next_batch F B parent s) \<noteq> Err (temp Eof)"
  | (fresh) "queue_next_batch F B parent s = queue_fresh_batch F B parent (s\<lparr>bq_next_spans := []\<rparr>)"
proof (cases "bq_next_spans s")
  case Nil
  then have eq: "s\<lparr>bq_next_spans := []\<rparr> = s" by simp
  show ?thesis by (rule fresh) (simp add: queue_next_batch_def Nil eq)
next
  case (Cons b bs)
  then show ?thesis
    using cached fresh
    by (cases "sb_timestamp b = bi_timestamp (l2_block parent) + rc_block_time (bq_cfg s)")
       (auto simp: queue_next_batch_def pop_next_batch_def)
qed

lemma window_inv_spans [simp]: "window_inv low (s\<lparr>bq_next_spans := x\<rparr>) = window_inv low s"
  by (simp add: window_inv_def)

lemma queue_next_batch_low:
  assumes "inv (bq_prev s)"
  shows "inv (bq_prev (snd (queue_next_batch F B parent s)))
    \<and> bp_origin B (bq_prev (snd (queue_next_batch F B parent s))) = bp_origin B (bq_prev s)"
  using assms queue_fresh_batch_steps [of "s\<lparr>bq_next_spans := []\<rparr>" F parent]
  by (cases rule: queue_next_batch_cases [of F parent s]) simp_all

lemma queue_next_batch_window:
  assumes "inv (bq_prev s)" and "window_inv (bp_origin B (bq_prev s)) s"
  shows "window_inv (bp_origin B (bq_prev s)) (snd (queue_next_batch F B parent s))
    \<and> (fst (queue_next_batch F B parent s) = Err (temp Eof) \<longrightarrow>
         in_sync (bp_origin B (bq_prev s)) (snd (queue_next_batch F B parent s)))"
  using assms queue_fresh_batch_window [of "s\<lparr>bq_next_spans := []\<rparr>" F parent]
  by (cases rule: queue_next_batch_cases [of F parent s]) simp_all

lemma queue_advance_window:
  assumes "inv (bq_prev s)" and "window_inv (bp_origin B (bq_prev s)) s" and "in_sync (bp_origin B (bq_prev s)) s"
  shows "window_inv (bp_origin B (bq_prev (snd (queue_advance B s)))) (snd (queue_advance B s))"
proof -
  obtain r p where a: "bp_advance B (bq_prev s) = (r, p)" by fastforce
  have "bp_origin B p = bp_origin B (bq_prev s) \<or> advances (bp_origin B (bq_prev s)) (bp_origin B p)"
    using advance_Ok [of "bq_prev s"] advance_not_Ok [of "bq_prev s"] assms(1) a by auto
  with assms a show ?thesis by (auto simp: queue_advance_def window_inv_def in_sync_def)
qed

lemma queue_signal_window:
  assumes "inv (bq_prev s)" and "window_inv (bp_origin B (bq_prev s)) s"
    and "fst (queue_signal B sg s) = Ok ()"
    and "\<And>x. sg = SigActivation x \<Longrightarrow> bp_origin B (bq_prev s) = Some (sig_l1_origin x)"
  shows "window_inv (bp_origin B (bq_prev (snd (queue_signal B sg s)))) (snd (queue_signal B sg s))"
proof -
  obtain r p where a: "bp_signal B sg (bq_prev s) = (r, p)" by fastforce
  with assms(3) have r: "r = Ok ()"
    by (auto simp: queue_signal_def Let_def split: rbind_splits)
  have "bp_origin B p = (case signal_origin sg of None \<Rightarrow> bp_origin B (bq_prev s) | Some b \<Rightarrow> Some b)"
    using signal_Ok [where s = "bq_prev s" and sg = sg] assms(1) a r by (auto split: option.splits)
  with assms a r show ?thesis
    by (cases sg) (auto simp: queue_signal_def window_inv_def)
qed

end

sublocale batch_source \<subseteq>
  queue: stage_over "bp_stage B parent []" inv "queue_stage F B parent" bq_prev "\<lambda>_. True" for F parent
proof
  fix q sg
  show "inv (bq_prev (snd (st_next (queue_stage F B parent) q))) \<and>
      st_origin (bp_stage B parent []) (bq_prev (snd (st_next (queue_stage F B parent) q)))
        = st_origin (bp_stage B parent []) (bq_prev q)" if "inv (bq_prev q)"
    using queue_next_batch_low [OF that] by simp
  show "(fst (st_signal (queue_stage F B parent) sg q) = Ok () \<longrightarrow>
          fst (st_signal (bp_stage B parent []) sg (bq_prev q)) = Ok ())
       \<and> bq_prev (snd (st_signal (queue_stage F B parent) sg q)) = snd (st_signal (bp_stage B parent []) sg (bq_prev q))
     \<or> signal_origin sg = None \<and> bq_prev (snd (st_signal (queue_stage F B parent) sg q)) = bq_prev q"
    by (intro disjI1) (auto simp: queue_signal_def Let_def split: prod.splits rbind_splits signal.splits)
qed (simp_all add: queue_advance_def split: prod.split)

section \<open>Properties\<close>

text \<open>The queue of the pipeline.\<close>

type_synonym batch_queue_state = "batch_stream_state batch_queue"

text \<open>
  Every batch the queue hands out builds on the parent it was asked for: its parent hash
  is the hash of that block, whether the batch was queued, unfolded from a span batch or
  forced.
\<close>

theorem queue_batch_has_parent:
  assumes "queue_next_batch F B parent s = (Ok sb, s')"
  shows "sb_parent_hash sb = bi_hash (l2_block parent)"
  using assms by (rule queue_next_batch_parent)

text \<open>
  C19: deriving the next batch answers with a queued batch that the validity rules accept on
  the parent, or, only when no queued batch is left, with an empty batch of the current
  epoch whose sequencing window has expired.
\<close>

theorem derived_batch_is_justified:
  assumes "derive_next_batch F B no_data parent s = (Ok b, s')"
  shows "queued_accepted F parent s b \<or> bq_batches s' = [] \<and> forced_empty parent s b"
  using assms by (rule derive_next_batch_Ok)

text \<open>
  The life of the queue in the pipeline: pulls for any parent, an advance of the L1 origin
  after the queue ran dry, flushes, resets, and activations at the current origin. Each step
  may see its own providers.
\<close>

inductive queue_run :: "batch_queue_state \<Rightarrow> bool \<Rightarrow> batch_queue_state \<Rightarrow> bool \<Rightarrow> bool" where
  run_refl: "queue_run s dry s dry"
| run_pull: "\<lbrakk> queue_run s dry t d; queue_next_batch F (l1_batch_provider F Z A cp dap) parent t = (r, u) \<rbrakk>
     \<Longrightarrow> queue_run s dry u (r = Err (temp Eof))"
| run_advance: "\<lbrakk> queue_run s dry t True; queue_advance (l1_batch_provider F Z A cp dap) t = (r, u) \<rbrakk>
     \<Longrightarrow> queue_run s dry u False"
| run_signal: "\<lbrakk> queue_run s dry t d; queue_signal (l1_batch_provider F Z A cp dap) sg t = (Ok (), u);
      \<And>x. sg = SigActivation x \<Longrightarrow> bp_origin (l1_batch_provider F Z A cp dap) (bq_prev t) = Some (sig_l1_origin x) \<rbrakk>
     \<Longrightarrow> queue_run s dry u False"

text \<open>The origin of a state, which does not depend on the providers.\<close>

definition frames_origin :: "frame_queue_state \<Rightarrow> block_info option" where
  "frames_origin s = tv_block (rt_prev (fq_prev s))"

definition state_origin :: "batch_queue_state \<Rightarrow> block_info option" where
  "state_origin s =
     (let c = cr_prev (bst_prev (bq_prev s)) in
      case cm_channel_assembler c of
        Some a \<Rightarrow> frames_origin (ca_prev a)
      | None \<Rightarrow>
          (case cm_channel_bank c of
             Some b \<Rightarrow> frames_origin (cb_prev b)
           | None \<Rightarrow> (case cm_prev c of None \<Rightarrow> None | Some p \<Rightarrow> frames_origin p)))"

lemma bp_origin_state: "bp_origin (l1_batch_provider F Z A cp dap) (bq_prev s) = state_origin s"
  by (simp add: l1_batch_provider_def l1_reader_stage_def l1_channel_stage_def state_origin_def cm_origin_def
      l1_frame_stage_def l1_retrieval_stage_def frames_origin_def Let_def split: option.split)

definition bq_inv :: "batch_queue_state \<Rightarrow> bool" where
  "bq_inv s \<longleftrightarrow> stream_inv (bq_prev s) \<and> window_inv (state_origin s) s"

lemma queue_run_inv:
  assumes "queue_run s dry t d" and "bq_inv s" and "dry \<longrightarrow> in_sync (state_origin s) s"
  shows "bq_inv t \<and> (d \<longrightarrow> in_sync (state_origin t) t)"
  using assms
proof (induction rule: queue_run.induct)
  case (run_refl s dry)
  then show ?case by simp
next
  case (run_pull s dry t d F Z A cp dap parent r u)
  let ?B = "l1_batch_provider F Z A cp dap"
  from run_pull have t: "stream_inv (bq_prev t)" "window_inv (bp_origin ?B (bq_prev t)) t"
    by (auto simp: bq_inv_def bp_origin_state)
  have "stream_inv (bq_prev u) \<and> bp_origin ?B (bq_prev u) = bp_origin ?B (bq_prev t)"
    using l1_batches.queue_next_batch_low [OF t(1)] run_pull(2) by (metis snd_conv)
  moreover have "window_inv (bp_origin ?B (bq_prev t)) u \<and> (r = Err (temp Eof) \<longrightarrow> in_sync (bp_origin ?B (bq_prev t)) u)"
    using l1_batches.queue_next_batch_window [OF t] run_pull(2) by (metis fst_conv snd_conv)
  ultimately show ?case by (simp add: bq_inv_def bp_origin_state)
next
  case (run_advance s dry t F Z A cp dap r u)
  let ?B = "l1_batch_provider F Z A cp dap"
  from run_advance have t: "stream_inv (bq_prev t)" "window_inv (bp_origin ?B (bq_prev t)) t" "in_sync (bp_origin ?B (bq_prev t)) t"
    by (auto simp: bq_inv_def bp_origin_state)
  have "bq_prev u = snd (bp_advance ?B (bq_prev t))"
    using run_advance(2) by (auto simp: queue_advance_def split: prod.splits)
  then have "stream_inv (bq_prev u)"
    using l1_batches.advance_inv [OF t(1)] by simp
  moreover have "window_inv (bp_origin ?B (bq_prev u)) u"
    using l1_batches.queue_advance_window [OF t] run_advance(2) by simp
  ultimately show ?case by (simp add: bq_inv_def bp_origin_state)
next
  case (run_signal s dry t d F Z A cp dap sg u)
  let ?B = "l1_batch_provider F Z A cp dap"
  from run_signal have t: "stream_inv (bq_prev t)" "window_inv (bp_origin ?B (bq_prev t)) t"
    by (auto simp: bq_inv_def bp_origin_state)
  have "bq_prev u = snd (bp_signal ?B sg (bq_prev t))"
    using run_signal(2) by (auto simp: queue_signal_def Let_def split: prod.splits rbind_splits signal.splits)
  then have "stream_inv (bq_prev u)"
    using l1_batches.signal_inv [OF t(1)] by simp
  moreover have "window_inv (bp_origin ?B (bq_prev u)) u"
    using l1_batches.queue_signal_window [OF t, of sg] run_signal(2,3) by simp
  ultimately show ?case by (simp add: bq_inv_def bp_origin_state)
qed


text \<open>The stages up to the batch queue as the pipeline builder stacks them.\<close>

definition batch_queue_stack :: "rollup_config \<Rightarrow> frame_queue_state \<Rightarrow> batch_queue_state" where
  "batch_queue_stack cfg frames =
     batch_queue_new cfg
       (batch_stream_new (channel_reader_new (channel_provider_new cfg frames) cfg) cfg)"

lemma batch_queue_stack_inv: "bq_inv (batch_queue_stack cfg frames)"
  by (simp add: bq_inv_def batch_queue_stack_def batch_queue_new_def batch_stream_new_def channel_reader_new_def
      channel_provider_new_def stream_inv_def reader_inv_def cm_inv_def window_inv_def)

text \<open>
  From the stack the builder makes, however pulls, advances of a dry queue and signals
  follow each other and whatever the providers answer, the window of L1 blocks stays a chain
  in which every block is the successor of the one before, and the newest block is the
  origin of the queue.
\<close>

theorem window_stays_consecutive:
  assumes "queue_run (batch_queue_stack cfg frames) False t d"
  shows "successively extends (bq_l1_blocks t)
    \<and> (bq_l1_blocks t = [] \<or> bq_origin t = Some (last (bq_l1_blocks t)))"
  using queue_run_inv [OF assms batch_queue_stack_inv] by (auto simp: bq_inv_def window_inv_def)

definition ex_l2 :: l2_chain_provider where
  "ex_l2 = \<lparr>l2p_l2_block_info_by_number = (\<lambda>n. Ok ex_safe_head), l2p_system_config_by_number = (\<lambda>n. Ok ex_system_config)\<rparr>"

definition ex_queue :: batch_queue_state where
  "ex_queue = (batch_queue_stack ex_rollup_config ex_frame_queue)
     \<lparr>bq_origin := Some (ex_block 9), bq_l1_blocks := [ex_block 5, ex_block 6],
      bq_next_spans := [\<lparr>sb_parent_hash = zero_hash, sb_epoch_num = 5, sb_epoch_hash = bi_hash (ex_block 5),
                         sb_timestamp = 52, sb_transactions = [[1]]\<rparr>]\<rparr>"

theorem queue_batch_has_parent_witness:
  "\<exists>sb s'. queue_next_batch ex_l2 (l1_batch_provider ex_l2 ex_codec ex_abi ex_l1 ex_da) ex_safe_head ex_queue = (Ok sb, s')
     \<and> sb_transactions sb = [[1]] \<and> sb_parent_hash sb = [7]"
proof -
  let ?B = "l1_batch_provider ex_l2 ex_codec ex_abi ex_l1 ex_da"
  obtain sb s' where q: "queue_next_batch ex_l2 ?B ex_safe_head ex_queue = (Ok sb, s')" "sb_transactions sb = [[1]]"
    by (simp add: queue_next_batch_def ex_queue_def batch_queue_stack_def batch_queue_new_def pop_next_batch_def
        ex_safe_head_def ex_rollup_config_def)
  from queue_batch_has_parent [OF q(1)] q show ?thesis by (simp add: ex_safe_head_def)
qed

theorem derived_batch_is_justified_witness:
  "\<exists>b s'. derive_next_batch ex_l2 (l1_batch_provider ex_l2 ex_codec ex_abi ex_l1 ex_da) False ex_safe_head ex_queue = (Ok b, s')
     \<and> (queued_accepted ex_l2 ex_safe_head ex_queue b \<or> bq_batches s' = [] \<and> forced_empty ex_safe_head ex_queue b)"
proof -
  let ?B = "l1_batch_provider ex_l2 ex_codec ex_abi ex_l1 ex_da"
  obtain b s' where "derive_next_batch ex_l2 ?B False ex_safe_head ex_queue = (Ok b, s')"
    by (simp add: derive_next_batch_def force_empty_batch_def ex_queue_def batch_queue_stack_def batch_queue_new_def
        ex_safe_head_def ex_rollup_config_def ex_block_def block_id_def)
  from this derived_batch_is_justified [OF this] show ?thesis by blast
qed

lemma ex_queue_reset:
  "\<exists>t. queue_signal (l1_batch_provider ex_l2 ex_codec ex_abi ex_l1 ex_da) (SigReset ex_reset)
      (batch_queue_stack ex_rollup_config ex_frame_queue) = (Ok (), t) \<and> bq_l1_blocks t = [ex_block 3]"
  by (simp add: queue_signal_def batch_queue_stack_def batch_queue_new_def batch_stream_new_def channel_reader_new_def
      channel_provider_new_def l1_batch_provider_def stream_signal_def l1_reader_stage_def l1_channel_stage_def
      cm_signal_def cm_attempt_update_def cm_forward_def ex_frame_queue_def frame_queue_new_def ex_reset_def
      bank_signal_def channel_bank_new_def l1_frame_stage_def l1_retrieval_stage_def fq_signal_def retrieval_signal_def
      traversal_reset_def ex_retrieval_def)

theorem window_stays_consecutive_witness:
  "\<exists>t. queue_run (batch_queue_stack ex_rollup_config ex_frame_queue) False t False
     \<and> bq_l1_blocks t = [ex_block 3] \<and> successively extends (bq_l1_blocks t)
     \<and> (bq_l1_blocks t = [] \<or> bq_origin t = Some (last (bq_l1_blocks t)))"
proof -
  obtain t where t: "queue_signal (l1_batch_provider ex_l2 ex_codec ex_abi ex_l1 ex_da) (SigReset ex_reset)
      (batch_queue_stack ex_rollup_config ex_frame_queue) = (Ok (), t)" "bq_l1_blocks t = [ex_block 3]"
    using ex_queue_reset by blast
  from run_signal [OF run_refl t(1)] have "queue_run (batch_queue_stack ex_rollup_config ex_frame_queue) False t False"
    by simp
  from this window_stays_consecutive [OF this] t(2) show ?thesis by blast
qed

end
