(* ===== verification/Deposits.thy ===== *)
theory Deposits
  imports Types
begin

text \<open>
  Deposits (\<^verbatim>\<open>primitives/src/deposit.rs\<close>): the user deposits of an L1 block are read from the
  \<open>TransactionDeposited\<close> logs of the portal, and every L2 block starts with an L1 attributes
  transaction. Both become native transactions of the L2. Hashing, RLP lengths and the
  printing of hashes and addresses are third-party code (\<^verbatim>\<open>alloy\<close>), and so are Solana's
  transactions and their serialisation; they are parameters.
\<close>

section \<open>Parameters\<close>

record alloy =
  al_keccak256 :: "bytes \<Rightarrow> b256"
  al_rlp_length :: "bytes \<Rightarrow> nat"
  al_hash_to_string :: "b256 \<Rightarrow> string"
  al_address_to_string :: "address \<Rightarrow> string"
  al_hex_encode :: "bytes \<Rightarrow> string"

section \<open>Definitions\<close>

type_synonym u128 = "128 word"
type_synonym u256 = "256 word"
type_synonym pubkey = "u8 list"

definition SOON_DEPOSIT_EVENT_ABI :: string where
  "SOON_DEPOSIT_EVENT_ABI = ''TransactionDeposited(address,bytes32,uint256,bytes)''"

definition ETH_DEPOSIT_SELECTOR :: bytes where "ETH_DEPOSIT_SELECTOR = [0x59, 0x6a, 0x37, 0xc5]"
definition ERC20_DEPOSIT_SELECTOR :: bytes where "ERC20_DEPOSIT_SELECTOR = [0xf7, 0x3f, 0xb3, 0x9c]"
definition CROSS_DOMAIN_MESSENGER_RELAY_SELECTOR :: bytes where
  "CROSS_DOMAIN_MESSENGER_RELAY_SELECTOR = [0xE5, 0xD0, 0xA3, 0xD7]"

definition SOON_BRIDGE_PUBKEY_HEX :: string where
  "SOON_BRIDGE_PUBKEY_HEX = ''0x02c806312cb859f1bc25448e39f87aa09857d83ccb4a837df55648e000000000''"

definition USER_DEPOSIT_SOURCE_DOMAIN :: u32 where "USER_DEPOSIT_SOURCE_DOMAIN = 0"
definition L1_INFO_DEPOSIT_SOURCE_DOMAIN :: u32 where "L1_INFO_DEPOSIT_SOURCE_DOMAIN = 1"

record eth_deposit_data =
  ed_from :: address
  ed_to :: pubkey
  ed_amount :: u256
  ed_extra_data :: bytes

record erc20_deposit_data =
  rd_l2_contract :: pubkey
  rd_l1_contract :: address
  rd_from :: address
  rd_to :: pubkey
  rd_amount :: u256
  rd_extra_data :: bytes

datatype deposit_type = ETH eth_deposit_data | ERC20 erc20_deposit_data

record user_deposited =
  ud_bridge_sender :: address
  ud_bridge_target :: string
  ud_mint :: u256
  ud_value :: u256
  ud_gas :: u64
  ud_is_creation :: bool
  ud_l1_block_num :: u64
  ud_l1_block_hash :: b256
  ud_log_index :: u64
  ud_deposit_type :: deposit_type

record external_data =
  xd_from :: address
  xd_to :: string
  xd_mint :: u256
  xd_value :: u256
  xd_gas :: u64
  xd_is_creation :: bool
  xd_extra_data :: bytes

text \<open>The slice \<open>data[a..b]\<close>, which panics out of range.\<close>

definition sliced :: "nat \<Rightarrow> nat \<Rightarrow> bytes \<Rightarrow> (bytes, 'e) res" where
  "sliced a b data = (if a \<le> b \<and> b \<le> length data then Ok (take (b - a) (drop a data)) else Panic)"

definition u256_of :: "bytes \<Rightarrow> u256" where
  "u256_of bs = of_nat (nat_of_be bs)"

definition u64_of :: "bytes \<Rightarrow> u64" where
  "u64_of bs = of_nat (nat_of_be bs)"

subsection \<open>Address aliases\<close>

text \<open>\<open>BigUint::to_bytes_be\<close>: no leading zeros, and one zero byte for zero.\<close>

fun to_bytes_be :: "nat \<Rightarrow> bytes" where
  "to_bytes_be n = (if n < 256 then [of_nat n] else to_bytes_be (n div 256) @ [of_nat n])"

declare to_bytes_be.simps [simp del]

definition padding_0_for_address_data :: "bytes \<Rightarrow> bytes" where
  "padding_0_for_address_data data = replicate (20 - length data) 0 @ data"

definition l1_to_l2_offset :: nat where
  "l1_to_l2_offset = 0x1111000000000000000000000000000000001111"

definition max_address_to_uint :: nat where
  "max_address_to_uint = 0xffffffffffffffffffffffffffffffffffffffff"

text \<open>\<open>Address::from_slice\<close> panics unless there are 20 bytes.\<close>

definition address_from_slice :: "bytes \<Rightarrow> (address, 'e) res" where
  "address_from_slice bs = (if length bs = 20 then Ok bs else Panic)"

definition apply_l1_to_l2_alias :: "address \<Rightarrow> (address, 'e) res" where
  "apply_l1_to_l2_alias l1_address =
     (let n = nat_of_be l1_address + l1_to_l2_offset;
          m = (if n > max_address_to_uint then n - max_address_to_uint - 1 else n) in
      address_from_slice (padding_0_for_address_data (to_bytes_be m)))"

definition undo_l1_to_l2_alias :: "address \<Rightarrow> (address, 'e) res" where
  "undo_l1_to_l2_alias l2_alias =
     (let n = nat_of_be l2_alias;
          m = (if n < l1_to_l2_offset then n + max_address_to_uint + 1 else n) in
      address_from_slice (padding_0_for_address_data (to_bytes_be (m - l1_to_l2_offset))))"

subsection \<open>Parsing a deposit log\<close>

definition eth_deposit_try_from :: "bytes \<Rightarrow> (eth_deposit_data, deposit_error) res" where
  "eth_deposit_try_from v =
     rthen (sliced 12 32 v) (\<lambda>from.
     rthen (sliced 32 64 v) (\<lambda>to.
     rthen (sliced 64 96 v) (\<lambda>amount.
     Ok \<lparr>ed_from = from, ed_to = to, ed_amount = u256_of amount,
         ed_extra_data = take 32 (drop 96 v @ replicate 32 0)\<rparr>)))"

definition erc20_deposit_try_from :: "bytes \<Rightarrow> (erc20_deposit_data, deposit_error) res" where
  "erc20_deposit_try_from v =
     rthen (sliced 0 32 v) (\<lambda>l2_contract.
     rthen (sliced 44 64 v) (\<lambda>l1_contract.
     rthen (sliced 76 96 v) (\<lambda>from.
     rthen (sliced 96 128 v) (\<lambda>to.
     rthen (sliced 128 160 v) (\<lambda>amount.
     Ok \<lparr>rd_l2_contract = l2_contract, rd_l1_contract = l1_contract, rd_from = from, rd_to = to,
         rd_amount = u256_of amount, rd_extra_data = drop 160 v\<rparr>)))))"

definition deposit_type_try_from :: "bytes \<Rightarrow> (deposit_type, deposit_error) res" where
  "deposit_type_try_from v =
     rthen (sliced 0 4 v) (\<lambda>selector.
     if selector = ETH_DEPOSIT_SELECTOR then rthen (eth_deposit_try_from (drop 4 v)) (\<lambda>d. Ok (ETH d))
     else if selector = ERC20_DEPOSIT_SELECTOR then rthen (erc20_deposit_try_from (drop 4 v)) (\<lambda>d. Ok (ERC20 d))
     else Err (ParseDepositTxError ''unknown deposit type''))"

text \<open>\<open>opaque_data.length()\<close> is the method of \<^verbatim>\<open>alloy_rlp::Encodable\<close>, not \<open>len\<close>.\<close>

definition extract_data :: "alloy \<Rightarrow> bytes \<Rightarrow> (external_data \<times> bytes, deposit_error) res" where
  "extract_data E d =
     (if al_rlp_length E d < 305 then Err InvalidDataLength_Deposit
      else
        rthen (sliced 0 32 d) (\<lambda>mint.
        rthen (sliced 32 64 d) (\<lambda>val.
        rthen (sliced 64 72 d) (\<lambda>gas.
        rthen (sliced 72 73 d) (\<lambda>creation.
        rthen (sliced 73 77 d) (\<lambda>relay_selector.
        if relay_selector \<noteq> CROSS_DOMAIN_MESSENGER_RELAY_SELECTOR
        then Err (InvalidRelaySelector (al_hex_encode E relay_selector))
        else
          rthen (sliced 77 109 d) (\<lambda>_.
          rthen (sliced 121 141 d) (\<lambda>from.
          rthen (sliced 141 173 d) (\<lambda>to.
          rthen (sliced 173 205 d) (\<lambda>_.
          rthen (sliced 205 237 d) (\<lambda>_.
          rthen (sliced 237 269 d) (\<lambda>_.
          rthen (sliced 269 301 d) (\<lambda>_.
          rthen (sliced 301 305 d) (\<lambda>deposit_selector.
          if deposit_selector \<noteq> ETH_DEPOSIT_SELECTOR \<and> deposit_selector \<noteq> ERC20_DEPOSIT_SELECTOR
          then Err (InvalidDepositSelector (al_hex_encode E deposit_selector))
          else
            rthen (sliced 73 301 d) (\<lambda>extra.
            Ok (\<lparr>xd_from = from, xd_to = al_hash_to_string E to, xd_mint = u256_of mint, xd_value = u256_of val,
                 xd_gas = u64_of gas, xd_is_creation = (hd creation \<noteq> 0), xd_extra_data = extra\<rparr>,
                drop 301 d))))))))))))))))"

text \<open>\<open>str::to_lowercase\<close> on the ASCII strings it is used for.\<close>

definition to_lowercase :: "string \<Rightarrow> string" where
  "to_lowercase s = map (\<lambda>c. if 65 \<le> (of_char c :: nat) \<and> (of_char c :: nat) \<le> 90 then char_of (of_char c + 32 :: nat) else c) s"

definition topic :: "nat \<Rightarrow> log \<Rightarrow> (b256, 'e) res" where
  "topic i l = (if i < length (log_topics l) then Ok (log_topics l ! i) else Panic)"

definition parse_from_log ::
  "alloy \<Rightarrow> u64 \<Rightarrow> b256 \<Rightarrow> u64 \<Rightarrow> log \<Rightarrow> address \<Rightarrow> address \<Rightarrow> (user_deposited, deposit_error) res" where
  "parse_from_log E l1_block_num l1_block_hash log_index l expected_bridge_sender expected_relay_sender =
     rthen (sliced 0 64 (log_data l)) (\<lambda>_.
     let opaque_data = drop 64 (log_data l) in
     rthen (topic 1 l) (\<lambda>sender_word.
     rthen (undo_l1_to_l2_alias (drop 12 sender_word)) (\<lambda>bridge_sender.
     if bridge_sender \<noteq> expected_bridge_sender
     then Err (InvalidDomainMessenger (al_address_to_string E bridge_sender))
     else
       rthen (topic 2 l) (\<lambda>target_word.
       let bridge_target = to_lowercase (al_hash_to_string E target_word) in
       if bridge_target \<noteq> SOON_BRIDGE_PUBKEY_HEX then Err (InvalidL2CrossDomainMessenger bridge_target)
       else
         rthen (extract_data E opaque_data) (\<lambda>(ext, data).
         if xd_from ext \<noteq> expected_relay_sender
         then Err (InvalidL1StandardBridge (al_address_to_string E (xd_from ext)))
         else if xd_to ext \<noteq> SOON_BRIDGE_PUBKEY_HEX then Err (InvalidL2StandardBridge (xd_to ext))
         else
           rthen (deposit_type_try_from data) (\<lambda>dt.
           Ok \<lparr>ud_bridge_sender = bridge_sender, ud_bridge_target = bridge_target, ud_mint = xd_mint ext,
               ud_value = xd_value ext, ud_gas = xd_gas ext, ud_is_creation = xd_is_creation ext,
               ud_l1_block_num = l1_block_num, ud_l1_block_hash = l1_block_hash, ud_log_index = log_index,
               ud_deposit_type = dt\<rparr>))))))"

subsection \<open>The deposits of a block\<close>

definition deposit_event_signature :: "alloy \<Rightarrow> b256" where
  "deposit_event_signature E = al_keccak256 E (map of_char SOON_DEPOSIT_EVENT_ABI)"

record deposit_contracts =
  dc_portal :: address
  dc_messenger :: address
  dc_bridge :: address

definition derive_log ::
  "alloy \<Rightarrow> deposit_contracts \<Rightarrow> u64 \<Rightarrow> b256 \<Rightarrow> u64 \<Rightarrow> log \<Rightarrow> (user_deposited option, deposit_error) res" where
  "derive_log E C num hash curr_index l =
     (if log_topics l = [] \<or> hd (log_topics l) \<noteq> deposit_event_signature E then Ok None
      else if log_address l \<noteq> dc_portal C then Ok None
      else case parse_from_log E num hash curr_index l (dc_messenger C) (dc_bridge C) of
             Ok d \<Rightarrow> Ok (Some d)
           | Err e \<Rightarrow> Ok None
           | Panic \<Rightarrow> Panic)"

fun derive_logs ::
  "alloy \<Rightarrow> deposit_contracts \<Rightarrow> u64 \<Rightarrow> b256 \<Rightarrow> u64 \<Rightarrow> log list \<Rightarrow> (user_deposited list \<times> u64, deposit_error) res" where
  "derive_logs E C num hash i [] = Ok ([], i)"
| "derive_logs E C num hash i (l # ls) =
     rthen (derive_log E C num hash i l) (\<lambda>d.
     rthen (derive_logs E C num hash (i + 1) ls) (\<lambda>(ds, j).
     Ok ((case d of None \<Rightarrow> ds | Some x \<Rightarrow> x # ds), j)))"

fun derive_receipts ::
  "alloy \<Rightarrow> deposit_contracts \<Rightarrow> u64 \<Rightarrow> b256 \<Rightarrow> u64 \<Rightarrow> receipt list \<Rightarrow> (user_deposited list, deposit_error) res" where
  "derive_receipts E C num hash i [] = Ok []"
| "derive_receipts E C num hash i (r # rs) =
     (if rcpt_status r = Eip658 False then derive_receipts E C num hash i rs
      else
        rthen (derive_logs E C num hash i (rcpt_logs r)) (\<lambda>(ds, j).
        rthen (derive_receipts E C num hash j rs) (\<lambda>es. Ok (ds @ es))))"

definition derive_deposits ::
  "alloy \<Rightarrow> deposit_contracts \<Rightarrow> u64 \<Rightarrow> b256 \<Rightarrow> receipt list \<Rightarrow> (user_deposited list, deposit_error) res" where
  "derive_deposits E C num hash rs = derive_receipts E C num hash 0 rs"

subsection \<open>Source hashes and native instructions\<close>

definition deposit_source_hash :: "alloy \<Rightarrow> u32 \<Rightarrow> b256 \<Rightarrow> u64 \<Rightarrow> b256" where
  "deposit_source_hash E domain block_hash index =
     al_keccak256 E (replicate 28 0 @ be_of_nat 4 (unat domain) @
       al_keccak256 E (block_hash @ replicate 24 0 @ be_of_nat 8 (unat index)))"

definition user_source_hash :: "alloy \<Rightarrow> user_deposited \<Rightarrow> b256" where
  "user_source_hash E d = deposit_source_hash E USER_DEPOSIT_SOURCE_DOMAIN (ud_l1_block_hash d) (ud_log_index d)"

text \<open>The instructions of the bridge and L1 block info programs that derived transactions carry.\<close>

datatype native_instruction =
    DepositETH (eth_bridge_from: address) (eth_bridge_to: address) (eth_mint: u128) (eth_value: u128) (eth_gas: u64)
      (eth_is_creation: bool) (eth_l1_block_num: u64) (eth_l1_block_hash: b256) (eth_log_index: u128)
      (eth_from: address) (eth_to: pubkey) (eth_amount: u128) (eth_extra_data: bytes)
  | DepositERC20 (erc20_local_token: pubkey) (erc20_remote_token: address) (erc20_from: address) (erc20_to: pubkey)
      (erc20_amount: u128)
  | UpdateL1BlockInfo (info_number: u64) (info_timestamp: u64) (info_base_fee: u128) (info_hash: b256)
      (info_sequence_number: u64) (info_batcher_hash: bytes) (info_fee_overhead: u128) (info_fee_scalar: u128)
      (info_gas: u64) (info_is_system_tx: bool)

definition u128_try_from :: "u256 \<Rightarrow> 'e \<Rightarrow> (u128, 'e) res" where
  "u128_try_from v e = (if unat v < 2 ^ 128 then Ok (ucast v) else Err e)"

definition deposit_instruction :: "user_deposited \<Rightarrow> (native_instruction, deposit_error) res" where
  "deposit_instruction d =
     (case ud_deposit_type d of
        ETH data \<Rightarrow>
          rthen (u128_try_from (ud_mint d) (ParseDepositTxError ''Invalid mint'')) (\<lambda>mint.
          rthen (u128_try_from (ed_amount data) (ParseDepositTxError ''Invalid amount'')) (\<lambda>amount.
          if length (ed_extra_data data) \<noteq> 32 then Err (ParseDepositTxError ''Invalid extra data'')
          else Ok (DepositETH (ud_bridge_sender d) (replicate 20 0) mint amount (ud_gas d) (ud_is_creation d)
                     (ud_l1_block_num d) (ud_l1_block_hash d) (ucast (ud_log_index d)) (ed_from data) (ed_to data)
                     amount (ed_extra_data data))))
      | ERC20 data \<Rightarrow>
          rthen (u128_try_from (rd_amount data) (ParseDepositTxError ''Invalid amount'')) (\<lambda>amount.
          Ok (DepositERC20 (rd_l2_contract data) (rd_l1_contract data) (rd_from data) (rd_to data) amount)))"

record attributes_deposited =
  ad_l1_block_num :: u64
  ad_timestamp :: u64
  ad_base_fee :: u128
  ad_l1_block_hash :: b256
  ad_sequence_number :: u64
  ad_batcher_hash :: u256
  ad_fee_overhead :: u256
  ad_fee_scalar :: u256
  ad_gas :: u64
  ad_is_system_tx :: bool

definition attributes_try_from :: "block_info \<Rightarrow> u64 \<Rightarrow> u256 \<Rightarrow> (attributes_deposited, deposit_error) res" where
  "attributes_try_from block sequence_number batcher_hash =
     Ok \<lparr>ad_l1_block_num = bi_number block, ad_timestamp = bi_timestamp block, ad_base_fee = 0,
         ad_l1_block_hash = bi_hash block, ad_sequence_number = sequence_number, ad_batcher_hash = batcher_hash,
         ad_fee_overhead = 0, ad_fee_scalar = 0, ad_gas = 0, ad_is_system_tx = True\<rparr>"

definition attributes_instruction :: "attributes_deposited \<Rightarrow> (native_instruction, deposit_error) res" where
  "attributes_instruction a =
     rthen (u128_try_from (ad_fee_overhead a) (ParseL1BlockInfoTxError ''Invalid fee overhead'')) (\<lambda>overhead.
     rthen (u128_try_from (ad_fee_scalar a) (ParseL1BlockInfoTxError ''Invalid fee scalar'')) (\<lambda>scalar.
     Ok (UpdateL1BlockInfo (ad_l1_block_num a) (ad_timestamp a) (ad_base_fee a) (ad_l1_block_hash a)
           (ad_sequence_number a) (rev (be_of_nat 32 (unat (ad_batcher_hash a)))) overhead scalar (ad_gas a)
           (ad_is_system_tx a))))"

definition attributes_source_hash :: "alloy \<Rightarrow> attributes_deposited \<Rightarrow> b256" where
  "attributes_source_hash E a =
     deposit_source_hash E L1_INFO_DEPOSIT_SOURCE_DOMAIN (ad_l1_block_hash a) (ad_sequence_number a)"

section \<open>Lemmas\<close>

lemma to_bytes_be_padded:
  "\<lbrakk> n < 256 ^ k; 0 < k \<rbrakk> \<Longrightarrow>
     length (to_bytes_be n) \<le> k \<and> replicate (k - length (to_bytes_be n)) 0 @ to_bytes_be n = be_of_nat k n"
proof (induction n arbitrary: k rule: to_bytes_be.induct)
  case (1 n)
  then obtain j where k: "k = Suc j" by (cases k) auto
  show ?case
  proof (cases "n < 256")
    case True
    then show ?thesis by (simp add: to_bytes_be.simps [of n] k)
  next
    case False
    with 1(2) k have "j \<noteq> 0" by (cases j) auto
    moreover have "n div 256 < 256 ^ j"
      using 1(2) k by (simp add: less_mult_imp_div_less mult.commute)
    ultimately show ?thesis
      using 1(1) [OF False, of j] False by (simp add: to_bytes_be.simps [of n] k flip: append_assoc)
  qed
qed

text \<open>The number of addresses.\<close>

definition address_count :: nat where
  "address_count = 256 ^ 20"

lemma padded_address: "n < address_count \<Longrightarrow> padding_0_for_address_data (to_bytes_be n) = be_of_nat 20 n"
  using to_bytes_be_padded [of n 20]
  by (simp add: padding_0_for_address_data_def address_count_def del: be_of_nat.simps)

lemma address_from_number: "n < address_count \<Longrightarrow> address_from_slice (padding_0_for_address_data (to_bytes_be n)) = Ok (be_of_nat 20 n)"
  by (simp add: padded_address address_from_slice_def del: be_of_nat.simps)

lemma address_space: "Suc max_address_to_uint = address_count" "l1_to_l2_offset < address_count"
  by (simp_all add: max_address_to_uint_def l1_to_l2_offset_def address_count_def)

lemma address_number: "length a = 20 \<Longrightarrow> nat_of_be a < address_count"
  using nat_of_be_bound [of a] by (simp add: address_count_def)

lemma number_of_address: "nat_of_be (be_of_nat 20 k) = k mod address_count"
  by (simp add: nat_of_be_of_nat address_count_def del: be_of_nat.simps)

definition l2_to_l1_offset :: nat where
  "l2_to_l1_offset = address_count - l1_to_l2_offset"

lemma offsets: "l1_to_l2_offset + l2_to_l1_offset = address_count" "l2_to_l1_offset + l1_to_l2_offset = address_count"
  using address_space(2) by (simp_all add: l2_to_l1_offset_def)

text \<open>Both directions are additions modulo the number of addresses.\<close>

lemma apply_alias_eq:
  assumes "length a = 20"
  shows "apply_l1_to_l2_alias a = Ok (be_of_nat 20 ((nat_of_be a + l1_to_l2_offset) mod address_count))"
proof -
  define n where "n = nat_of_be a + l1_to_l2_offset"
  have "n < 2 * address_count" using address_number [OF assms] address_space(2) by (simp add: n_def)
  then have "(if n > max_address_to_uint then n - max_address_to_uint - 1 else n) = n mod address_count"
    using address_space(1) by (auto simp: mod_if not_less)
  then show ?thesis
    using address_space(2) unfolding apply_l1_to_l2_alias_def Let_def n_def [symmetric]
    by (simp only: address_from_number mod_less_divisor)
qed

lemma undo_alias_eq:
  assumes "length a = 20"
  shows "undo_l1_to_l2_alias a = Ok (be_of_nat 20 ((nat_of_be a + l2_to_l1_offset) mod address_count))"
proof -
  define n where "n = nat_of_be a"
  have "(if n < l1_to_l2_offset then n + max_address_to_uint + 1 else n) - l1_to_l2_offset
      = (n + l2_to_l1_offset) mod address_count"
    using address_number [OF assms] address_space by (auto simp: l2_to_l1_offset_def n_def mod_if not_less)
  then show ?thesis
    using address_space(2) unfolding undo_l1_to_l2_alias_def Let_def n_def [symmetric]
    by (simp only: address_from_number mod_less_divisor)
qed

lemma add_back_mod: "k + d = (n :: nat) \<Longrightarrow> ((a + k) mod n + d) mod n = a mod n"
  by (metis add.assoc mod_add_left_eq mod_add_self2)

lemma alias_inverse:
  assumes "length a = 20"
  shows "rthen (apply_l1_to_l2_alias a) undo_l1_to_l2_alias = (Ok a :: (address, 'e) res)"
    and "rthen (undo_l1_to_l2_alias a) apply_l1_to_l2_alias = (Ok a :: (address, 'e) res)"
proof -
  have a: "be_of_nat 20 (nat_of_be a mod address_count) = a"
    using assms address_number be_of_nat_of_be [of a] by (simp del: be_of_nat.simps)
  show "rthen (apply_l1_to_l2_alias a) undo_l1_to_l2_alias = (Ok a :: (address, 'e) res)"
    using assms a add_back_mod [OF offsets(1)] by (simp add: apply_alias_eq undo_alias_eq number_of_address del: be_of_nat.simps)
  show "rthen (undo_l1_to_l2_alias a) apply_l1_to_l2_alias = (Ok a :: (address, 'e) res)"
    using assms a add_back_mod [OF offsets(2)] by (simp add: apply_alias_eq undo_alias_eq number_of_address del: be_of_nat.simps)
qed

section \<open>Properties\<close>

text \<open>
  The alias of an L1 contract address and the address behind an alias are inverse to
  each other on all 20-byte addresses, across the wrap-around of the address space, and
  neither direction panics.
\<close>

theorem alias_roundtrip:
  assumes "length a = 20"
  shows "rthen (apply_l1_to_l2_alias a) undo_l1_to_l2_alias = (Ok a :: (address, 'e) res)
    \<and> rthen (undo_l1_to_l2_alias a) apply_l1_to_l2_alias = (Ok a :: (address, 'e) res)"
  using alias_inverse [OF assms] by blast

theorem alias_roundtrip_witness:
  "rthen (apply_l1_to_l2_alias (replicate 20 255)) undo_l1_to_l2_alias = (Ok (replicate 20 255) :: (address, string) res)"
  using alias_roundtrip [of "replicate 20 255", where ?'e = string] by simp

text \<open>The logs that may hold deposits: all logs of receipts that did not fail, numbered from 0.\<close>

definition block_logs :: "receipt list \<Rightarrow> log list" where
  "block_logs rs = concat (map rcpt_logs (filter (\<lambda>r. rcpt_status r \<noteq> Eip658 False) rs))"

text \<open>All outcomes that are not \<open>None\<close>, unless one of them is a panic.\<close>

definition collect_Some :: "('a option, 'e) res list \<Rightarrow> ('a list, 'e) res" where
  "collect_Some xs =
     (if Panic \<in> set xs then Panic
      else Ok (List.map_filter (\<lambda>x. case x of Ok y \<Rightarrow> y | _ \<Rightarrow> None) xs))"

lemma collect_Some_simps:
  "collect_Some [] = Ok []"
  "collect_Some (Panic # xs) = Panic"
  "collect_Some (Ok d # xs) = rthen (collect_Some xs) (\<lambda>ds. Ok (case d of None \<Rightarrow> ds | Some x \<Rightarrow> x # ds))"
  by (auto simp: collect_Some_def List.map_filter_simps split: option.split)

lemma collect_Some_append:
  "(\<And>e. Err e \<notin> set xs) \<Longrightarrow>
   collect_Some (xs @ ys) = rthen (collect_Some xs) (\<lambda>ds. rthen (collect_Some ys) (\<lambda>es. Ok (ds @ es)))"
proof (induction xs)
  case Nil
  then show ?case by (cases "collect_Some ys") (auto simp: collect_Some_simps)
next
  case (Cons x xs)
  then show ?case
    by (cases x; cases "collect_Some xs"; cases "collect_Some ys") (auto simp: collect_Some_simps split: option.split)
qed

lemma derive_log_not_Err [simp]: "derive_log E C num hash i l \<noteq> Err e"
  by (simp add: derive_log_def split: res.split)

definition numbered_deposits :: "alloy \<Rightarrow> deposit_contracts \<Rightarrow> u64 \<Rightarrow> b256 \<Rightarrow> nat \<Rightarrow> log list \<Rightarrow> (user_deposited option, deposit_error) res list" where
  "numbered_deposits E C num hash n ls = map (\<lambda>(i, l). derive_log E C num hash (of_nat i) l) (enumerate n ls)"

lemma numbered_deposits_simps [simp]:
  "numbered_deposits E C num hash n [] = []"
  "numbered_deposits E C num hash n (l # ls) = derive_log E C num hash (of_nat n) l # numbered_deposits E C num hash (Suc n) ls"
  "numbered_deposits E C num hash n (ls @ ms) = numbered_deposits E C num hash n ls @ numbered_deposits E C num hash (n + length ls) ms"
  "Err e \<notin> set (numbered_deposits E C num hash n ls)"
  by (auto simp: numbered_deposits_def enumerate_append_eq derive_log_not_Err [symmetric])

lemma derive_logs_spec:
  "derive_logs E C num hash (of_nat n) ls =
     rthen (collect_Some (numbered_deposits E C num hash n ls)) (\<lambda>ds. Ok (ds, of_nat (n + length ls)))"
proof (induction ls arbitrary: n)
  case (Cons l ls)
  have "derive_logs E C num hash (of_nat n + 1) ls =
     rthen (collect_Some (numbered_deposits E C num hash (Suc n) ls)) (\<lambda>ds. Ok (ds, of_nat (Suc n + length ls)))"
    using Cons [of "Suc n"] by (simp add: add.commute)
  then show ?case
    by (cases "derive_log E C num hash (of_nat n) l"; cases "collect_Some (numbered_deposits E C num hash (Suc n) ls)")
       (auto simp: collect_Some_simps)
qed (simp add: collect_Some_simps)

lemma derive_receipts_spec:
  "derive_receipts E C num hash (of_nat n) rs = collect_Some (numbered_deposits E C num hash n (block_logs rs))"
proof (induction rs arbitrary: n)
  case (Cons r rs)
  show ?case
  proof (cases "rcpt_status r = Eip658 False")
    case True
    with Cons show ?thesis by (simp add: block_logs_def)
  next
    case False
    then have "block_logs (r # rs) = rcpt_logs r @ block_logs rs" by (simp add: block_logs_def)
    with False Cons [of "n + length (rcpt_logs r)"] show ?thesis
      by (cases "collect_Some (numbered_deposits E C num hash n (rcpt_logs r))")
         (simp_all add: derive_logs_spec collect_Some_append)
  qed
qed (simp add: block_logs_def collect_Some_simps)

text \<open>
  C25: the deposits of an L1 block are the successfully parsed deposit logs of the portal in
  its receipts that did not fail, in order, each with the position of its log among all logs
  of these receipts; logs that fail to parse are skipped, and only a log that panics the
  parser stops the derivation.
\<close>

theorem deposits_of_block:
  "derive_deposits E C num hash rs =
     collect_Some (map (\<lambda>(i, l). derive_log E C num hash (of_nat i) l) (enumerate 0 (block_logs rs)))"
  using derive_receipts_spec [of E C num hash 0 rs] by (simp add: derive_deposits_def numbered_deposits_def)

text \<open>
  The log the portal emits for an ETH deposit of the standard bridge: the sender is the
  alias of the messenger, the data a relayed message of the bridge.
\<close>

definition relay_message :: "bytes \<Rightarrow> address \<Rightarrow> b256 \<Rightarrow> bytes \<Rightarrow> bytes \<Rightarrow> bytes" where
  "relay_message nonce bridge target words payload =
     CROSS_DOMAIN_MESSENGER_RELAY_SELECTOR @ nonce @ replicate 12 0 @ bridge @ target @ words @ payload"

fun deposit_payload :: "deposit_type \<Rightarrow> bytes" where
  "deposit_payload (ETH d) =
     ETH_DEPOSIT_SELECTOR @ replicate 12 0 @ ed_from d @ ed_to d @ be_of_nat 32 (unat (ed_amount d)) @ ed_extra_data d"
| "deposit_payload (ERC20 d) =
     ERC20_DEPOSIT_SELECTOR @ rd_l2_contract d @ replicate 12 0 @ rd_l1_contract d @ replicate 12 0 @ rd_from d @ rd_to d
       @ be_of_nat 32 (unat (rd_amount d)) @ rd_extra_data d"

text \<open>Addresses of 20 and public keys of 32 bytes; the extra data of an ETH deposit has 32 bytes.\<close>

fun wf_deposit :: "deposit_type \<Rightarrow> bool" where
  "wf_deposit (ETH d) \<longleftrightarrow> length (ed_from d) = 20 \<and> length (ed_to d) = 32 \<and> length (ed_extra_data d) = 32"
| "wf_deposit (ERC20 d) \<longleftrightarrow> length (rd_l2_contract d) = 32 \<and> length (rd_l1_contract d) = 20 \<and> length (rd_from d) = 20
     \<and> length (rd_to d) = 32"

definition opaque_data :: "u256 \<Rightarrow> u256 \<Rightarrow> u64 \<Rightarrow> bool \<Rightarrow> bytes \<Rightarrow> bytes" where
  "opaque_data mint val gas creation message =
     be_of_nat 32 (unat mint) @ be_of_nat 32 (unat val) @ be_of_nat 8 (unat gas) @ [if creation then 1 else 0] @ message"

definition deposit_log :: "alloy \<Rightarrow> address \<Rightarrow> address \<Rightarrow> b256 \<Rightarrow> bytes \<Rightarrow> bytes \<Rightarrow> log" where
  "deposit_log E portal sender target header opaque =
     \<lparr>log_address = portal, log_topics = [deposit_event_signature E, replicate 12 0 @ sender, target, zero_hash],
      log_data = header @ opaque\<rparr>"

lemma u256_roundtrip [simp]: "u256_of (be_of_nat 32 (unat v)) = v"
  using unsigned_less [of v, where ?'a = nat] by (simp add: u256_of_def nat_of_be_of_nat)

lemma u64_roundtrip [simp]: "u64_of (be_of_nat 8 (unat v)) = v"
  using unsigned_less [of v, where ?'a = nat] by (simp add: u64_of_def nat_of_be_of_nat)

lemma selector_lengths [simp]:
  "length ETH_DEPOSIT_SELECTOR = 4" "length ERC20_DEPOSIT_SELECTOR = 4" "length CROSS_DOMAIN_MESSENGER_RELAY_SELECTOR = 4"
  by (simp_all add: ETH_DEPOSIT_SELECTOR_def ERC20_DEPOSIT_SELECTOR_def CROSS_DOMAIN_MESSENGER_RELAY_SELECTOR_def)

lemma to_lowercase_bridge: "to_lowercase SOON_BRIDGE_PUBKEY_HEX = SOON_BRIDGE_PUBKEY_HEX"
  by code_simp

lemma selectors_differ: "ERC20_DEPOSIT_SELECTOR \<noteq> ETH_DEPOSIT_SELECTOR"
  by (simp add: ETH_DEPOSIT_SELECTOR_def ERC20_DEPOSIT_SELECTOR_def)

lemma deposit_payload_parsed: "wf_deposit dt \<Longrightarrow> deposit_type_try_from (deposit_payload dt) = Ok dt"
  by (cases dt)
     (simp_all add: deposit_type_try_from_def eth_deposit_try_from_def erc20_deposit_try_from_def sliced_def selectors_differ)

lemma deposit_payload_selector:
  "take 4 (deposit_payload dt) \<in> {ETH_DEPOSIT_SELECTOR, ERC20_DEPOSIT_SELECTOR}" "4 \<le> length (deposit_payload dt)"
  by (cases dt; simp)+

text \<open>The documented length of a byte string in RLP: a payload with a header of one or more bytes.\<close>

definition rlp_length_law :: "alloy \<Rightarrow> bool" where
  "rlp_length_law E \<longleftrightarrow>
     (\<forall>bs. al_rlp_length E bs =
        length bs + (if length bs = 1 \<and> hd bs < 0x80 then 0
                     else if length bs < 56 then 1 else 1 + length (to_bytes_be (length bs))))"

lemma rlp_length_payload: "rlp_length_law E \<Longrightarrow> length bs \<le> al_rlp_length E bs"
  by (simp add: rlp_length_law_def)

lemma extract_relayed:
  assumes "rlp_length_law E" and "length nonce = 32" and "length bridge = 20" and "length target = 32"
    and "length words = 128" and "take 4 payload \<in> {ETH_DEPOSIT_SELECTOR, ERC20_DEPOSIT_SELECTOR}" and "4 \<le> length payload"
  shows "\<exists>x. extract_data E (opaque_data mint val gas creation (relay_message nonce bridge target words payload)) =
     Ok (\<lparr>xd_from = bridge, xd_to = al_hash_to_string E target, xd_mint = mint, xd_value = val, xd_gas = gas,
          xd_is_creation = creation, xd_extra_data = x\<rparr>, payload)"
proof -
  let ?d = "opaque_data mint val gas creation (relay_message nonce bridge target words payload)"
  have len: "length ?d = 301 + length payload"
    using assms by (simp add: opaque_data_def relay_message_def)
  have "\<not> al_rlp_length E ?d < 305"
    using len rlp_length_payload [OF assms(1), of ?d] assms(7) by linarith
  then show ?thesis
    using assms(2-) len
    by (simp add: extract_data_def sliced_def) (simp add: opaque_data_def relay_message_def)
qed

lemma relayed_deposit_parsed:
  assumes "rlp_length_law E" and "al_hash_to_string E target = SOON_BRIDGE_PUBKEY_HEX"
    and "length messenger = 20" and "apply_l1_to_l2_alias messenger = (Ok sender :: (address, deposit_error) res)"
    and "length header = 64" and "length nonce = 32" and "length bridge = 20" and "length target = 32" and "length words = 128"
    and "wf_deposit dt"
  shows "parse_from_log E num hash i
       (deposit_log E portal sender target header
          (opaque_data mint val gas creation (relay_message nonce bridge target words (deposit_payload dt)))) messenger bridge
     = Ok \<lparr>ud_bridge_sender = messenger, ud_bridge_target = SOON_BRIDGE_PUBKEY_HEX, ud_mint = mint, ud_value = val,
           ud_gas = gas, ud_is_creation = creation, ud_l1_block_num = num, ud_l1_block_hash = hash, ud_log_index = i,
           ud_deposit_type = dt\<rparr>"
proof -
  have undo: "undo_l1_to_l2_alias sender = (Ok messenger :: (address, deposit_error) res)"
    using alias_inverse(1) [OF assms(3), where ?'e = deposit_error] assms(4) by simp
  obtain x where "extract_data E (opaque_data mint val gas creation (relay_message nonce bridge target words (deposit_payload dt))) =
     Ok (\<lparr>xd_from = bridge, xd_to = SOON_BRIDGE_PUBKEY_HEX, xd_mint = mint, xd_value = val, xd_gas = gas,
          xd_is_creation = creation, xd_extra_data = x\<rparr>, deposit_payload dt)"
    using extract_relayed [OF assms(1,6-9) deposit_payload_selector, of mint val gas creation] assms(2) by auto
  then show ?thesis
    using undo assms deposit_payload_parsed [of dt]
    by (simp add: parse_from_log_def deposit_log_def sliced_def topic_def to_lowercase_bridge)
qed

text \<open>
  A deposit of ETH or of an ERC20 token that reaches the portal through the messenger
  and the standard bridge is read back from its log exactly: amounts, gas, tokens, sender,
  recipient and extra data, with the messenger's address behind the alias.
\<close>

theorem deposit_log_parsed:
  assumes "rlp_length_law E" and "al_hash_to_string E target = SOON_BRIDGE_PUBKEY_HEX"
    and "length messenger = 20" and "apply_l1_to_l2_alias messenger = (Ok sender :: (address, deposit_error) res)"
    and "length header = 64" and "length nonce = 32" and "length bridge = 20" and "length target = 32" and "length words = 128"
    and "wf_deposit dt"
  shows "parse_from_log E num hash i
       (deposit_log E portal sender target header
          (opaque_data mint val gas creation (relay_message nonce bridge target words (deposit_payload dt)))) messenger bridge
     = Ok \<lparr>ud_bridge_sender = messenger, ud_bridge_target = SOON_BRIDGE_PUBKEY_HEX, ud_mint = mint, ud_value = val,
           ud_gas = gas, ud_is_creation = creation, ud_l1_block_num = num, ud_l1_block_hash = hash, ud_log_index = i,
           ud_deposit_type = dt\<rparr>"
  using assms by (rule relayed_deposit_parsed)

text \<open>
  The length guard of \<open>ExternalData::extract\<close> counts the RLP header, so relayed data of
  302 to 304 bytes passes it and then panics in the slice of the deposit selector.
\<close>

theorem short_deposit_panics:
  assumes "rlp_length_law E" and "301 < length d" and "length d < 305"
    and "take 4 (drop 73 d) = CROSS_DOMAIN_MESSENGER_RELAY_SELECTOR"
  shows "extract_data E d = Panic"
proof -
  have "length d div 256 = 1" using assms(2,3) by linarith
  then have "length (to_bytes_be (length d)) = 2"
    using assms(2) by (simp add: to_bytes_be.simps [of "length d"] to_bytes_be.simps [of "Suc 0"])
  then have "\<not> al_rlp_length E d < 305"
    using assms by (simp add: rlp_length_law_def)
  with assms show ?thesis by (simp add: extract_data_def sliced_def)
qed

definition ex_alloy :: alloy where
  "ex_alloy =
     \<lparr>al_keccak256 = (\<lambda>bs. take 32 (bs @ replicate 32 0)),
      al_rlp_length = (\<lambda>bs. length bs + (if length bs = 1 \<and> hd bs < 0x80 then 0
                     else if length bs < 56 then 1 else 1 + length (to_bytes_be (length bs)))),
      al_hash_to_string = (\<lambda>h. if h = replicate 32 2 then SOON_BRIDGE_PUBKEY_HEX else ''0x''),
      al_address_to_string = (\<lambda>a. ''0x''), al_hex_encode = (\<lambda>b. ''0x'')\<rparr>"

lemma ex_alloy_law: "rlp_length_law ex_alloy"
  by (simp add: rlp_length_law_def ex_alloy_def)

definition ex_erc20_deposit :: "u256 \<Rightarrow> erc20_deposit_data" where
  "ex_erc20_deposit amount =
     \<lparr>rd_l2_contract = replicate 32 5, rd_l1_contract = replicate 20 6, rd_from = replicate 20 3, rd_to = replicate 32 4,
      rd_amount = amount, rd_extra_data = [1, 2, 3]\<rparr>"

definition ex_messenger_alias :: address where
  "ex_messenger_alias = be_of_nat 20 ((nat_of_be (replicate 20 9) + l1_to_l2_offset) mod address_count)"

definition ex_deposit_log :: "u256 \<Rightarrow> log" where
  "ex_deposit_log amount = deposit_log ex_alloy [3] ex_messenger_alias (replicate 32 2) (replicate 64 0)
     (opaque_data 0 0 21000 False
        (relay_message (replicate 32 0) (replicate 20 8) (replicate 32 2) (replicate 128 0)
           (deposit_payload (ERC20 (ex_erc20_deposit amount)))))"

definition ex_user_deposited :: "b256 \<Rightarrow> u256 \<Rightarrow> user_deposited" where
  "ex_user_deposited hash amount =
     \<lparr>ud_bridge_sender = replicate 20 9, ud_bridge_target = SOON_BRIDGE_PUBKEY_HEX, ud_mint = 0, ud_value = 0,
      ud_gas = 21000, ud_is_creation = False, ud_l1_block_num = 7, ud_l1_block_hash = hash, ud_log_index = 0,
      ud_deposit_type = ERC20 (ex_erc20_deposit amount)\<rparr>"

lemma ex_alias: "apply_l1_to_l2_alias (replicate 20 9) = Ok ex_messenger_alias"
  by (simp add: apply_alias_eq ex_messenger_alias_def del: be_of_nat.simps)

theorem deposit_log_parsed_witness:
  "parse_from_log ex_alloy 7 [7] 0 (ex_deposit_log 5) (replicate 20 9) (replicate 20 8) = Ok (ex_user_deposited [7] 5)"
  unfolding ex_deposit_log_def ex_user_deposited_def
  by (rule deposit_log_parsed [OF ex_alloy_law]) (simp_all add: ex_alias ex_alloy_def ex_erc20_deposit_def)

theorem short_deposit_panics_witness:
  "extract_data ex_alloy (replicate 73 0 @ CROSS_DOMAIN_MESSENGER_RELAY_SELECTOR @ replicate 226 0) = Panic"
  by (rule short_deposit_panics [OF ex_alloy_law]) simp_all

end
