(* ===== verification/Attributes.thy ===== *)
theory Attributes
  imports Batch_Queue Deposits
begin

text \<open>
  Payload attributes: \<open>StatefulAttributesBuilder\<close> (\<^verbatim>\<open>derive/src/attributes/stateful.rs\<close>) prepares
  the deposit-only template of the next L2 block, and the \<open>AttributesQueue\<close> stage
  (\<^verbatim>\<open>derive/src/stages/attributes_queue.rs\<close>) adds the transactions of a batch to it.
\<close>

section \<open>Definitions\<close>

record payload_attributes =
  pa_timestamp :: u64
  pa_prev_randao :: b256
  pa_suggested_fee_recipient :: address
  pa_withdrawals :: "bytes list option"
  pa_parent_beacon_block_root :: "b256 option"
  pa_transactions :: "bytes list option"
  pa_no_tx_pool :: "bool option"
  pa_gas_limit :: "u64 option"
  pa_eip_1559_params :: "bytes option"

record attributes_with_parent =
  ap_attributes :: payload_attributes
  ap_parent :: l2_block_info
  ap_is_last_in_span :: bool

datatype 'tx l2_transaction = Head u64 'tx | Body 'tx

text \<open>
  Solana's transactions: a native instruction with its source hash as a sanitized
  transaction, the serialisation of an L2 transaction, and the text of an error.
\<close>

record 'tx svm_sdk =
  sdk_transaction :: "native_instruction \<Rightarrow> b256 \<Rightarrow> ('tx, deposit_error) res"
  sdk_serialize :: "'tx l2_transaction \<Rightarrow> (bytes, string) res"
  sdk_provider_error :: "pipeline_error_kind \<Rightarrow> string"
  sdk_deposit_error :: "deposit_error \<Rightarrow> string"

definition SEQUENCER_FEE_VAULT_ADDRESS :: address where
  "SEQUENCER_FEE_VAULT_ADDRESS = [0x42] @ replicate 18 0 @ [0x11]"

definition address_to_hash :: "address \<Rightarrow> u256" where
  "address_to_hash a = u256_of (replicate 12 0 @ a)"

definition new_from_derived_tx :: "'tx \<Rightarrow> 'tx l2_transaction" where
  "new_from_derived_tx tx = Head 1 tx"

definition sanitized_derived_tx_to_bytes :: "'tx svm_sdk \<Rightarrow> 'tx \<Rightarrow> (bytes, pipeline_encoding_error) res" where
  "sanitized_derived_tx_to_bytes K tx = map_err L2TxSerializeErr (sdk_serialize K (new_from_derived_tx tx))"

definition user_to_sanitized_transaction ::
  "alloy \<Rightarrow> 'tx svm_sdk \<Rightarrow> user_deposited \<Rightarrow> ('tx, deposit_error) res" where
  "user_to_sanitized_transaction E K d =
     rthen (deposit_instruction d) (\<lambda>i. sdk_transaction K i (user_source_hash E d))"

definition attributes_to_sanitized_transaction ::
  "alloy \<Rightarrow> 'tx svm_sdk \<Rightarrow> attributes_deposited \<Rightarrow> ('tx, deposit_error) res" where
  "attributes_to_sanitized_transaction E K a =
     rthen (attributes_instruction a) (\<lambda>i. sdk_transaction K i (attributes_source_hash E a))"

fun encode_deposits :: "alloy \<Rightarrow> 'tx svm_sdk \<Rightarrow> user_deposited list \<Rightarrow> (bytes list, pipeline_encoding_error) res" where
  "encode_deposits E K [] = Ok []"
| "encode_deposits E K (d # ds) =
     rthen (map_err DepositErr (user_to_sanitized_transaction E K d)) (\<lambda>tx.
     rthen (sanitized_derived_tx_to_bytes K tx) (\<lambda>b.
     rthen (encode_deposits E K ds) (\<lambda>bs. Ok (b # bs))))"

definition derive_sanitized_deposit_tx ::
  "alloy \<Rightarrow> 'tx svm_sdk \<Rightarrow> deposit_contracts \<Rightarrow> u64 \<Rightarrow> b256 \<Rightarrow> receipt list \<Rightarrow> (bytes list, pipeline_encoding_error) res" where
  "derive_sanitized_deposit_tx E K C num hash receipts =
     rthen (map_err DepositErr (derive_deposits E C num hash receipts)) (encode_deposits E K)"

definition eip_1559_params_from_system_config :: "system_config \<Rightarrow> bytes option" where
  "eip_1559_params_from_system_config c = Some (replicate 8 0)"

text \<open>What the builder holds: the config and the two providers, with the parameters above.\<close>

record 'tx attributes_builder =
  ab_rollup_cfg :: rollup_config
  ab_config_fetcher :: l2_chain_provider
  ab_receipts_fetcher :: chain_provider
  ab_abi :: abi_decoder
  ab_alloy :: alloy
  ab_sdk :: "'tx svm_sdk"

definition portal_contracts :: "rollup_config \<Rightarrow> deposit_contracts" where
  "portal_contracts cfg =
     \<lparr>dc_portal = rc_optimism_portal_address cfg, dc_messenger = rc_l1_cross_domain_messenger cfg,
      dc_bridge = rc_l1_standard_bridge cfg\<rparr>"

definition provider_error :: "'tx attributes_builder \<Rightarrow> 'a presult \<Rightarrow> 'a presult" where
  "provider_error b r = map_err (\<lambda>e. temp (Provider (sdk_provider_error (ab_sdk b) e))) r"

text \<open>
  The L1 origin, the deposits, the sequence number and the updated configuration of the next
  block: the first block of an epoch carries its deposits, later ones do not.
\<close>

definition epoch_inputs ::
  "'tx attributes_builder \<Rightarrow> l2_block_info \<Rightarrow> block_num_hash \<Rightarrow> system_config
     \<Rightarrow> (block_info \<times> bytes list \<times> u64 \<times> system_config) presult" where
  "epoch_inputs b l2_parent epoch sys_config =
     (let cfg = ab_rollup_cfg b in
      if bnh_number (l2_l1_origin l2_parent) \<noteq> bnh_number epoch then
        rthen (provider_error b (cp_block_info_by_hash (ab_receipts_fetcher b) (bnh_hash epoch))) (\<lambda>epoch_info.
        if bnh_hash (l2_l1_origin l2_parent) \<noteq> bi_parent_hash epoch_info
        then Err (ResetKind (ResetAttributesBuilder
               (BlockMismatchEpochReset epoch (l2_l1_origin l2_parent) (bi_parent_hash epoch_info))))
        else
          rthen (provider_error b (cp_receipts_by_hash (ab_receipts_fetcher b) (bnh_hash epoch))) (\<lambda>receipts.
          rthen (map_err (\<lambda>e. crit (BadEncoding e))
                   (derive_sanitized_deposit_tx (ab_alloy b) (ab_sdk b) (portal_contracts cfg) (bnh_number epoch)
                      (bnh_hash epoch) receipts)) (\<lambda>deposits.
          let (r, sys_config') = update_with_receipts (ab_abi b) (rc_l1_system_config_address cfg) receipts sys_config in
          rthen (map_err (\<lambda>e. crit (SystemConfigUpdate e)) r) (\<lambda>_. Ok (epoch_info, deposits, 0, sys_config')))))
      else if bnh_hash (l2_l1_origin l2_parent) \<noteq> bnh_hash epoch
      then Err (ResetKind (ResetAttributesBuilder (BlockMismatch epoch (l2_l1_origin l2_parent))))
      else
        rthen (provider_error b (cp_block_info_by_hash (ab_receipts_fetcher b) (bnh_hash epoch))) (\<lambda>epoch_info.
        Ok (epoch_info, [], l2_seq_num l2_parent + 1, sys_config)))"

text \<open>The encoded L1 attributes transaction.\<close>

definition info_error :: "'tx attributes_builder \<Rightarrow> ('a, deposit_error) res \<Rightarrow> 'a presult" where
  "info_error b r = map_err (\<lambda>e. temp (ParseL1BlockInfoTxErr (sdk_deposit_error (ab_sdk b) e))) r"

definition l1_info_tx :: "'tx attributes_builder \<Rightarrow> block_info \<Rightarrow> u64 \<Rightarrow> system_config \<Rightarrow> bytes presult" where
  "l1_info_tx b l1_origin sequence_number sys_config =
     rthen (info_error b (attributes_try_from l1_origin sequence_number (address_to_hash (sc_batcher_address sys_config)))) (\<lambda>a.
     rthen (info_error b (attributes_to_sanitized_transaction (ab_alloy b) (ab_sdk b) a)) (\<lambda>tx.
     map_err (\<lambda>e. crit (BadEncoding e)) (sanitized_derived_tx_to_bytes (ab_sdk b) tx)))"

definition prepare_payload_attributes ::
  "'tx attributes_builder \<Rightarrow> l2_block_info \<Rightarrow> block_num_hash \<Rightarrow> payload_attributes presult" where
  "prepare_payload_attributes b l2_parent epoch =
     rthen (provider_error b (l2p_system_config_by_number (ab_config_fetcher b) (bi_number (l2_block l2_parent)))) (\<lambda>sys_config.
     rthen (epoch_inputs b l2_parent epoch sys_config) (\<lambda>(l1_origin, deposit_transactions, sequence_number, sys_config').
     rthen (l1_info_tx b l1_origin sequence_number sys_config') (\<lambda>info.
     Ok \<lparr>pa_timestamp = bi_timestamp (l2_block l2_parent) + rc_block_time (ab_rollup_cfg b),
         pa_prev_randao = zero_hash, pa_suggested_fee_recipient = SEQUENCER_FEE_VAULT_ADDRESS,
         pa_withdrawals = None, pa_parent_beacon_block_root = None,
         pa_transactions = Some (info # deposit_transactions), pa_no_tx_pool = Some True,
         pa_gas_limit = Some (u64_of (be_of_nat 8 (unat (sc_gas_limit sys_config')))),
         pa_eip_1559_params = eip_1559_params_from_system_config sys_config'\<rparr>)))"

subsection \<open>The stage\<close>

record 'p attributes_provider =
  at_next_batch :: "l2_block_info \<Rightarrow> 'p \<Rightarrow> single_batch presult \<times> 'p"
  at_is_last_in_span :: "'p \<Rightarrow> bool"
  at_origin :: "'p \<Rightarrow> block_info option"
  at_advance :: "'p \<Rightarrow> unit presult \<times> 'p"
  at_signal :: "signal \<Rightarrow> 'p \<Rightarrow> unit presult \<times> 'p"

record 'p attributes_queue =
  aq_cfg :: rollup_config
  aq_prev :: 'p
  aq_is_last_in_span :: bool
  aq_batch :: "single_batch option"

definition attributes_queue_new :: "rollup_config \<Rightarrow> 'p \<Rightarrow> 'p attributes_queue" where
  "attributes_queue_new cfg prev = \<lparr>aq_cfg = cfg, aq_prev = prev, aq_is_last_in_span = False, aq_batch = None\<rparr>"

text \<open>The methods of the builder are a function \<open>prepare\<close> of the parent and the epoch.\<close>

type_synonym prepare = "l2_block_info \<Rightarrow> block_num_hash \<Rightarrow> payload_attributes presult"

definition load_batch ::
  "'p attributes_provider \<Rightarrow> l2_block_info \<Rightarrow> 'p attributes_queue \<Rightarrow> single_batch presult \<times> 'p attributes_queue" where
  "load_batch P parent s =
     (if aq_batch s = None then
        let (r, p) = at_next_batch P parent (aq_prev s); s1 = s\<lparr>aq_prev := p\<rparr> in
        rbind r s1 (\<lambda>b.
        let s2 = s1\<lparr>aq_batch := Some b, aq_is_last_in_span := at_is_last_in_span P (aq_prev s1)\<rparr> in
        (ok_or (aq_batch s2) (temp Eof), s2))
      else (ok_or (aq_batch s) (temp Eof), s))"

definition create_next_attributes :: "prepare \<Rightarrow> single_batch \<Rightarrow> l2_block_info \<Rightarrow> payload_attributes presult" where
  "create_next_attributes prepare b parent =
     (if sb_parent_hash b \<noteq> bi_hash (l2_block parent)
      then Err (ResetKind (BadParentHash (sb_parent_hash b) (bi_hash (l2_block parent))))
      else
        rthen (prepare parent (sb_epoch b)) (\<lambda>a.
        let a1 = a\<lparr>pa_no_tx_pool := Some True\<rparr> in
        case pa_transactions a1 of
          Some txs \<Rightarrow> Ok (a1\<lparr>pa_transactions := Some (txs @ sb_transactions b)\<rparr>)
        | None \<Rightarrow>
            if sb_transactions b \<noteq> [] then Ok (a1\<lparr>pa_transactions := Some (sb_transactions b)\<rparr>) else Ok a1))"

definition next_attributes ::
  "prepare \<Rightarrow> 'p attributes_provider \<Rightarrow> l2_block_info \<Rightarrow> 'p attributes_queue
     \<Rightarrow> attributes_with_parent presult \<times> 'p attributes_queue" where
  "next_attributes prepare P parent s =
     (let (r, s1) = load_batch P parent s in
      rbind r s1 (\<lambda>b.
      rbind (create_next_attributes prepare b parent) s1 (\<lambda>a.
      (Ok \<lparr>ap_attributes = a, ap_parent = parent, ap_is_last_in_span = aq_is_last_in_span s1\<rparr>,
       s1\<lparr>aq_batch := None, aq_is_last_in_span := False\<rparr>))))"

definition attributes_advance :: "'p attributes_provider \<Rightarrow> 'p attributes_queue \<Rightarrow> unit presult \<times> 'p attributes_queue" where
  "attributes_advance P s = (let (r, p) = at_advance P (aq_prev s) in (r, s\<lparr>aq_prev := p\<rparr>))"

fun attributes_signal ::
  "'p attributes_provider \<Rightarrow> signal \<Rightarrow> 'p attributes_queue \<Rightarrow> unit presult \<times> 'p attributes_queue" where
  "attributes_signal P FlushChannel s =
     (let s1 = s\<lparr>aq_batch := None\<rparr>; (r, p) = at_signal P FlushChannel (aq_prev s1) in
      rbind r (s1\<lparr>aq_prev := p\<rparr>) (\<lambda>_. (Ok (), s1\<lparr>aq_prev := p\<rparr>)))"
| "attributes_signal P sg s =
     (let (r, p) = at_signal P sg (aq_prev s); s1 = s\<lparr>aq_prev := p\<rparr> in
      rbind r s1 (\<lambda>_. (Ok (), s1\<lparr>aq_batch := None, aq_is_last_in_span := False\<rparr>)))"

text \<open>The stage of a provider, and the attributes queue as a stage, for a given parent.\<close>

definition at_stage :: "'p attributes_provider \<Rightarrow> l2_block_info \<Rightarrow> ('p, single_batch) stage" where
  "at_stage P parent =
     \<lparr>st_next = at_next_batch P parent, st_origin = at_origin P, st_advance = at_advance P, st_signal = at_signal P\<rparr>"

definition attributes_stage ::
  "prepare \<Rightarrow> 'p attributes_provider \<Rightarrow> l2_block_info \<Rightarrow> ('p attributes_queue, attributes_with_parent) stage" where
  "attributes_stage prepare P parent =
     \<lparr>st_next = next_attributes prepare P parent, st_origin = (\<lambda>s. at_origin P (aq_prev s)),
      st_advance = attributes_advance P, st_signal = attributes_signal P\<rparr>"

text \<open>The batch queue as the provider of the stage.\<close>

definition queue_provider :: "l2_chain_provider \<Rightarrow> 'p batch_provider \<Rightarrow> 'p batch_queue attributes_provider" where
  "queue_provider F B =
     \<lparr>at_next_batch = queue_next_batch F B, at_is_last_in_span = is_last_in_span,
      at_origin = (\<lambda>s. bp_origin B (bq_prev s)), at_advance = queue_advance B, at_signal = queue_signal B\<rparr>"

section \<open>The builder\<close>

lemma provider_error_Ok [simp]: "provider_error b r = Ok x \<longleftrightarrow> r = Ok x"
  by (simp add: provider_error_def res_simps)

text \<open>The inputs of the next block as the protocol defines them.\<close>

definition new_epoch :: "l2_block_info \<Rightarrow> block_num_hash \<Rightarrow> bool" where
  "new_epoch parent epoch \<longleftrightarrow> bnh_number (l2_l1_origin parent) \<noteq> bnh_number epoch"

text \<open>The first block of an epoch is linked to the epoch before and takes all deposits of its L1 block.\<close>

definition epoch_deposits :: "'tx attributes_builder \<Rightarrow> l2_block_info \<Rightarrow> block_num_hash \<Rightarrow> block_info \<Rightarrow> bytes list \<Rightarrow> bool" where
  "epoch_deposits b parent epoch origin txs \<longleftrightarrow>
     bi_parent_hash origin = bnh_hash (l2_l1_origin parent) \<and>
     (\<exists>receipts ds. cp_receipts_by_hash (ab_receipts_fetcher b) (bnh_hash epoch) = Ok receipts
        \<and> derive_deposits (ab_alloy b) (portal_contracts (ab_rollup_cfg b)) (bnh_number epoch) (bnh_hash epoch) receipts = Ok ds
        \<and> encode_deposits (ab_alloy b) (ab_sdk b) ds = Ok txs)"

lemma epoch_inputs_Ok:
  assumes "epoch_inputs b parent epoch sc = Ok (origin, txs, seq, sc')"
  shows "cp_block_info_by_hash (ab_receipts_fetcher b) (bnh_hash epoch) = Ok origin"
    and "new_epoch parent epoch \<Longrightarrow> seq = 0 \<and> epoch_deposits b parent epoch origin txs"
    and "\<not> new_epoch parent epoch \<Longrightarrow> seq = l2_seq_num parent + 1 \<and> txs = [] \<and> sc' = sc \<and> bnh_hash (l2_l1_origin parent) = bnh_hash epoch"
    and "\<exists>a. sc' = sc\<lparr>sc_batcher_address := a\<rparr>"
proof -
  have "\<exists>a. snd (update_with_receipts A addr rs sc) = sc\<lparr>sc_batcher_address := a\<rparr>" for A addr rs
    by (rule update_with_receipts_only_batcher)
  moreover have "\<exists>a. sc = sc\<lparr>sc_batcher_address := a\<rparr>"
    by (rule exI [of _ "sc_batcher_address sc"]) simp
  ultimately show "cp_block_info_by_hash (ab_receipts_fetcher b) (bnh_hash epoch) = Ok origin"
    and "new_epoch parent epoch \<Longrightarrow> seq = 0 \<and> epoch_deposits b parent epoch origin txs"
    and "\<not> new_epoch parent epoch \<Longrightarrow> seq = l2_seq_num parent + 1 \<and> txs = [] \<and> sc' = sc \<and> bnh_hash (l2_l1_origin parent) = bnh_hash epoch"
    and "\<exists>a. sc' = sc\<lparr>sc_batcher_address := a\<rparr>"
    using assms
    by (auto simp: epoch_inputs_def new_epoch_def epoch_deposits_def derive_sanitized_deposit_tx_def Let_def res_simps
             case_prod_beta split: if_split_asm)
qed

lemma length_encode_deposits: "encode_deposits E K ds = Ok txs \<Longrightarrow> length txs = length ds"
  by (induction ds arbitrary: txs) (auto simp: res_simps)

lemma encode_deposits_huge:
  "\<lbrakk> d \<in> set ds; ud_deposit_type d = ERC20 data; 2 ^ 128 \<le> unat (rd_amount data) \<rbrakk> \<Longrightarrow> encode_deposits E K ds \<noteq> Ok txs"
  by (induction ds arbitrary: txs)
     (auto simp: res_simps user_to_sanitized_transaction_def deposit_instruction_def u128_try_from_def)

lemma prepare_Ok:
  assumes "prepare_payload_attributes b parent epoch = Ok a"
  obtains sc origin txs seq sc' info where
    "l2p_system_config_by_number (ab_config_fetcher b) (bi_number (l2_block parent)) = Ok sc"
    "epoch_inputs b parent epoch sc = Ok (origin, txs, seq, sc')" "l1_info_tx b origin seq sc' = Ok info"
    "pa_transactions a = Some (info # txs)" "pa_no_tx_pool a = Some True" "pa_gas_limit a = Some (sc_gas_limit sc')"
    "pa_timestamp a = bi_timestamp (l2_block parent) + rc_block_time (ab_rollup_cfg b)"
  using assms by (auto simp: prepare_payload_attributes_def res_simps)

text \<open>The builder never ends with end-of-file, so an end-of-file of the attributes queue comes from below.\<close>

lemma prepare_not_Eof: "prepare_payload_attributes b parent epoch \<noteq> Err (temp Eof)"
  by (auto simp: prepare_payload_attributes_def epoch_inputs_def l1_info_tx_def info_error_def provider_error_def
      res_err_simps Let_def split: if_split_asm prod.split_asm)

section \<open>The stage contract\<close>

lemma at_stage_sel [simp]:
  "st_next (at_stage P parent) = at_next_batch P parent"
  "st_origin (at_stage P parent) = at_origin P"
  "st_advance (at_stage P parent) = at_advance P"
  "st_signal (at_stage P parent) = at_signal P"
  by (simp_all add: at_stage_def)

lemma attributes_stage_sel [simp]:
  "st_next (attributes_stage prep P parent) = next_attributes prep P parent"
  "st_origin (attributes_stage prep P parent) = (\<lambda>s. at_origin P (aq_prev s))"
  "st_advance (attributes_stage prep P parent) = attributes_advance P"
  "st_signal (attributes_stage prep P parent) = attributes_signal P"
  by (simp_all add: attributes_stage_def)

lemma next_attributes_prev:
  "aq_prev (snd (next_attributes prep P parent s)) =
     (if aq_batch s = None then snd (at_next_batch P parent (aq_prev s)) else aq_prev s)"
  by (auto simp: next_attributes_def load_batch_def Let_def split: prod.splits rbind_splits)

lemma next_attributes_Eof:
  assumes "fst (next_attributes prep P parent s) = Err (temp Eof)" and "\<And>e. prep parent e \<noteq> Err (temp Eof)"
  shows "aq_batch s = None \<and> fst (at_next_batch P parent (aq_prev s)) = Err (temp Eof)"
proof -
  have "create_next_attributes prep b parent \<noteq> Err (temp Eof)" for b
    using assms(2) [of "sb_epoch b"]
    by (cases "prep parent (sb_epoch b)") (auto simp: create_next_attributes_def Let_def split: option.splits)
  with assms(1) show ?thesis
    by (auto simp: next_attributes_def load_batch_def Let_def split: prod.splits rbind_split_asm if_splits)
qed

text \<open>What the attributes queue relies on: the stage contract for every parent.\<close>

locale attributes_source =
  fixes P :: "'p attributes_provider"
    and inv :: "'p \<Rightarrow> bool"
  assumes contract: "stage_contract (at_stage P parent) inv"

sublocale attributes_source \<subseteq> stage_contract "at_stage P parent" inv for parent
  by (rule contract)

sublocale attributes_source \<subseteq>
  attributes: stage_over "at_stage P parent" inv "attributes_stage prep P parent" aq_prev "\<lambda>_. True" for prep parent
proof
  fix q sg
  let ?Q = "attributes_stage prep P parent" and ?P = "at_stage P parent"
  show "inv (aq_prev (snd (st_next ?Q q))) \<and> st_origin ?P (aq_prev (snd (st_next ?Q q))) = st_origin ?P (aq_prev q)"
    if "inv (aq_prev q)"
    using that pull_inv [of "aq_prev q" parent] pull_origin [of "aq_prev q" parent] by (simp add: next_attributes_prev)
  show "(fst (st_signal ?Q sg q) = Ok () \<longrightarrow> fst (st_signal ?P sg (aq_prev q)) = Ok ())
       \<and> aq_prev (snd (st_signal ?Q sg q)) = snd (st_signal ?P sg (aq_prev q))
     \<or> signal_origin sg = None \<and> aq_prev (snd (st_signal ?Q sg q)) = aq_prev q"
    by (intro disjI1; cases sg) (auto simp: Let_def split: prod.splits rbind_splits)
qed (simp_all add: attributes_advance_def split: prod.split)

interpretation l1_queue: attributes_source "queue_provider F (l1_batch_provider F Z A cp dap)" "\<lambda>s. stream_inv (bq_prev s)"
  for F Z A cp dap
proof (rule attributes_source.intro)
  fix parent
  have "at_stage (queue_provider F (l1_batch_provider F Z A cp dap)) parent = queue_stage F (l1_batch_provider F Z A cp dap) parent"
    by (simp add: at_stage_def queue_provider_def queue_stage_def)
  then show "stage_contract (at_stage (queue_provider F (l1_batch_provider F Z A cp dap)) parent) (\<lambda>s. stream_inv (bq_prev s))"
    using l1_batches.queue.stage_contract_axioms by simp
qed

section \<open>Properties\<close>

text \<open>
  C20: the template for the next L2 block starts with the L1 attributes transaction of its
  epoch's L1 block, with sequence number 0 in the first block of an epoch and one more than
  the parent's otherwise. The first block of an epoch then carries the encodings of all
  deposits of the L1 block, whose parent is the epoch before; other blocks carry none and
  stay on the parent's epoch. The block is one block time after its parent, takes nothing
  from the transaction pool, and has the gas limit of the parent's system configuration.
\<close>

theorem prepared_attributes:
  assumes "prepare_payload_attributes b parent epoch = Ok a"
  shows "\<exists>sc origin sc' info txs.
      l2p_system_config_by_number (ab_config_fetcher b) (bi_number (l2_block parent)) = Ok sc
    \<and> cp_block_info_by_hash (ab_receipts_fetcher b) (bnh_hash epoch) = Ok origin
    \<and> l1_info_tx b origin (if new_epoch parent epoch then 0 else l2_seq_num parent + 1) sc' = Ok info
    \<and> (if new_epoch parent epoch then epoch_deposits b parent epoch origin txs
       else txs = [] \<and> bnh_hash (l2_l1_origin parent) = bnh_hash epoch)
    \<and> pa_transactions a = Some (info # txs) \<and> pa_no_tx_pool a = Some True
    \<and> pa_gas_limit a = Some (sc_gas_limit sc)
    \<and> pa_timestamp a = bi_timestamp (l2_block parent) + rc_block_time (ab_rollup_cfg b)"
proof -
  from assms obtain sc origin txs seq sc' info where
    a: "l2p_system_config_by_number (ab_config_fetcher b) (bi_number (l2_block parent)) = Ok sc"
    and e: "epoch_inputs b parent epoch sc = Ok (origin, txs, seq, sc')" and i: "l1_info_tx b origin seq sc' = Ok info"
    and r: "pa_transactions a = Some (info # txs)" "pa_no_tx_pool a = Some True" "pa_gas_limit a = Some (sc_gas_limit sc')"
    "pa_timestamp a = bi_timestamp (l2_block parent) + rc_block_time (ab_rollup_cfg b)"
    by (rule prepare_Ok)
  have "sc_gas_limit sc' = sc_gas_limit sc" using epoch_inputs_Ok(4) [OF e] by auto
  with a i r epoch_inputs_Ok(1-3) [OF e] show ?thesis
    by (intro exI [of _ sc] exI [of _ origin] exI [of _ sc'] exI [of _ info] exI [of _ txs]) auto
qed

text \<open>
  A failing builder does not lose the batch: the batch stays in the queue, and the next
  call, with the builder answering, turns this batch into attributes without pulling from
  the batch queue again. The attributes are the builder's template with the transactions of
  the batch after its own, for the requested parent.
\<close>

theorem attributes_survive_builder_failure:
  assumes "aq_batch s = None" and "at_next_batch P parent (aq_prev s) = (Ok b, p)"
    and "sb_parent_hash b = bi_hash (l2_block parent)"
    and "prep1 parent (sb_epoch b) = Err e" and "prep2 parent (sb_epoch b) = Ok a" and "pa_transactions a = Some txs"
  shows "next_attributes prep1 P parent s =
       (Err e, s\<lparr>aq_prev := p, aq_batch := Some b, aq_is_last_in_span := at_is_last_in_span P p\<rparr>)
    \<and> next_attributes prep2 P' parent (snd (next_attributes prep1 P parent s)) =
       (Ok \<lparr>ap_attributes = a\<lparr>pa_no_tx_pool := Some True, pa_transactions := Some (txs @ sb_transactions b)\<rparr>,
            ap_parent = parent, ap_is_last_in_span = at_is_last_in_span P p\<rparr>,
        s\<lparr>aq_prev := p, aq_batch := None, aq_is_last_in_span := False\<rparr>)"
  using assms by (simp add: next_attributes_def load_batch_def create_next_attributes_def)

text \<open>
  An ERC20 deposit of \<open>2 ^ 128\<close> units or more, which the L1 contracts do not exclude,
  cannot be encoded, and this is an error of the whole block: the first L2 block of its
  epoch can never be prepared.
\<close>

theorem huge_deposit_blocks_epoch:
  assumes "new_epoch parent epoch"
    and "cp_receipts_by_hash (ab_receipts_fetcher b) (bnh_hash epoch) = Ok receipts"
    and "derive_deposits (ab_alloy b) (portal_contracts (ab_rollup_cfg b)) (bnh_number epoch) (bnh_hash epoch) receipts = Ok ds"
    and "d \<in> set ds" and "ud_deposit_type d = ERC20 data" and "2 ^ 128 \<le> unat (rd_amount data)"
  shows "prepare_payload_attributes b parent epoch \<noteq> Ok a"
proof
  assume "prepare_payload_attributes b parent epoch = Ok a"
  then obtain sc origin txs seq sc' where e: "epoch_inputs b parent epoch sc = Ok (origin, txs, seq, sc')"
    by (rule prepare_Ok)
  from epoch_inputs_Ok(2) [OF this assms(1)] assms(2,3) encode_deposits_huge [OF assms(4-6)]
  show False by (auto simp: epoch_deposits_def)
qed

text \<open>
  A batch the queue loads afresh for a parent never fails the parent check of the
  attributes queue; the reset for a bad parent hash can only hit a batch that was loaded for
  another parent.
\<close>

theorem fresh_batch_passes_parent_check:
  assumes "load_batch (queue_provider F B) parent s = (Ok b, s')" and "aq_batch s = None"
  shows "create_next_attributes prep b parent =
     rthen (prep parent (sb_epoch b)) (\<lambda>a. Ok (a\<lparr>pa_no_tx_pool := Some True,
       pa_transactions := (case pa_transactions a of
          Some txs \<Rightarrow> Some (txs @ sb_transactions b)
        | None \<Rightarrow> if sb_transactions b = [] then None else Some (sb_transactions b))\<rparr>))"
proof -
  have "\<exists>p. queue_next_batch F B parent (aq_prev s) = (Ok b, p)"
    using assms by (auto simp: load_batch_def queue_provider_def Let_def res_simps split: prod.split_asm)
  then have h: "sb_parent_hash b = bi_hash (l2_block parent)"
    using queue_next_batch_parent by blast
  have keep: "a\<lparr>pa_no_tx_pool := Some True\<rparr> = a\<lparr>pa_no_tx_pool := Some True, pa_transactions := None\<rparr>"
    if "pa_transactions a = None" for a
    using that by (cases a) simp
  show ?thesis
    using h keep by (auto simp: create_next_attributes_def rthen_def Let_def split: res.split option.split)
qed

subsection \<open>Examples\<close>

definition ex_sdk :: "bytes svm_sdk" where
  "ex_sdk =
     \<lparr>sdk_transaction = (\<lambda>i h. Ok (take 4 h)), sdk_serialize = (\<lambda>t. case t of Head n tx \<Rightarrow> Ok (1 # tx) | Body tx \<Rightarrow> Ok (2 # tx)),
      sdk_provider_error = (\<lambda>e. ''provider''), sdk_deposit_error = (\<lambda>e. ''deposit'')\<rparr>"

definition ex_bridge_config :: rollup_config where
  "ex_bridge_config = ex_rollup_config\<lparr>rc_optimism_portal_address := [3], rc_l1_cross_domain_messenger := replicate 20 9,
     rc_l1_standard_bridge := replicate 20 8\<rparr>"

definition ex_deposit_chain :: "u256 \<Rightarrow> chain_provider" where
  "ex_deposit_chain amount =
     ex_l1\<lparr>cp_receipts_by_hash := (\<lambda>h. Ok [\<lparr>rcpt_status = Eip658 True, rcpt_logs = [ex_deposit_log amount]\<rparr>])\<rparr>"

definition ex_builder :: "u256 \<Rightarrow> bytes attributes_builder" where
  "ex_builder amount =
     \<lparr>ab_rollup_cfg = ex_bridge_config, ab_config_fetcher = ex_l2, ab_receipts_fetcher = ex_deposit_chain amount,
      ab_abi = ex_abi, ab_alloy = ex_alloy, ab_sdk = ex_sdk\<rparr>"

definition ex_next_epoch :: block_num_hash where
  "ex_next_epoch = \<lparr>bnh_number = 7, bnh_hash = be_of_nat 2 6\<rparr>"

lemma ex_derived:
  "derive_deposits ex_alloy (portal_contracts ex_bridge_config) 7 h
     [\<lparr>rcpt_status = Eip658 True, rcpt_logs = [ex_deposit_log amount]\<rparr>] = Ok [ex_user_deposited h amount]"
proof -
  have "parse_from_log ex_alloy 7 h 0 (ex_deposit_log amount) (replicate 20 9) (replicate 20 8) = Ok (ex_user_deposited h amount)"
    unfolding ex_deposit_log_def ex_user_deposited_def
    by (rule relayed_deposit_parsed [OF ex_alloy_law]) (simp_all add: ex_alias ex_alloy_def ex_erc20_deposit_def)
  then have "derive_log ex_alloy (portal_contracts ex_bridge_config) 7 h 0 (ex_deposit_log amount) = Ok (Some (ex_user_deposited h amount))"
    by (simp add: derive_log_def portal_contracts_def ex_bridge_config_def) (simp add: ex_deposit_log_def deposit_log_def)
  then show ?thesis by (simp add: derive_deposits_def)
qed

theorem huge_deposit_blocks_epoch_witness:
  "\<nexists>a. prepare_payload_attributes (ex_builder (2 ^ 128)) ex_safe_head ex_next_epoch = Ok a"
proof -
  have "prepare_payload_attributes (ex_builder (2 ^ 128)) ex_safe_head ex_next_epoch \<noteq> Ok a" for a
    by (rule huge_deposit_blocks_epoch [where data = "ex_erc20_deposit (2 ^ 128)"])
       (auto simp: ex_builder_def ex_next_epoch_def ex_deposit_chain_def ex_derived new_epoch_def ex_safe_head_def
          block_id_def ex_block_def ex_user_deposited_def ex_erc20_deposit_def)
  then show ?thesis by blast
qed

lemma ex_prepared: "\<exists>a. prepare_payload_attributes (ex_builder 5) ex_safe_head ex_next_epoch = Ok a"
proof -
  have "encode_deposits ex_alloy ex_sdk [ex_user_deposited (be_of_nat 2 6) 5] \<noteq> Err e"
    "encode_deposits ex_alloy ex_sdk [ex_user_deposited (be_of_nat 2 6) 5] \<noteq> Panic" for e
    by (simp_all add: user_to_sanitized_transaction_def deposit_instruction_def ex_user_deposited_def ex_erc20_deposit_def
        u128_try_from_def ex_sdk_def sanitized_derived_tx_to_bytes_def new_from_derived_tx_def)
  then obtain txs where "encode_deposits ex_alloy ex_sdk [ex_user_deposited (be_of_nat 2 6) 5] = Ok txs"
    by (cases "encode_deposits ex_alloy ex_sdk [ex_user_deposited (be_of_nat 2 6) 5]") auto
  then have "derive_sanitized_deposit_tx ex_alloy ex_sdk (portal_contracts ex_bridge_config) 7 (be_of_nat 2 6)
      [\<lparr>rcpt_status = Eip658 True, rcpt_logs = [ex_deposit_log 5]\<rparr>] = Ok txs"
    by (simp add: derive_sanitized_deposit_tx_def ex_derived)
  moreover have "update_with_receipts ex_abi (rc_l1_system_config_address ex_bridge_config)
      [\<lparr>rcpt_status = Eip658 True, rcpt_logs = [ex_deposit_log 5]\<rparr>] sc = (Ok (), sc)" for sc
    by (simp add: ex_bridge_config_def ex_rollup_config_def ex_deposit_log_def deposit_log_def)
  moreover have "nat_of_be (be_of_nat 2 6) = 6" by (simp add: nat_of_be_of_nat)
  ultimately show ?thesis
    by (simp add: prepare_payload_attributes_def epoch_inputs_def ex_builder_def ex_next_epoch_def ex_deposit_chain_def
        ex_l1_def ex_l2_def ex_safe_head_def ex_block_def block_id_def provider_error_def)
       (simp add: l1_info_tx_def attributes_try_from_def attributes_to_sanitized_transaction_def attributes_instruction_def
        info_error_def u128_try_from_def ex_sdk_def sanitized_derived_tx_to_bytes_def new_from_derived_tx_def)
qed

theorem prepared_attributes_witness:
  "\<exists>a info origin txs. prepare_payload_attributes (ex_builder 5) ex_safe_head ex_next_epoch = Ok a
     \<and> pa_transactions a = Some (info # txs) \<and> epoch_deposits (ex_builder 5) ex_safe_head ex_next_epoch origin txs"
proof -
  obtain a where "prepare_payload_attributes (ex_builder 5) ex_safe_head ex_next_epoch = Ok a"
    using ex_prepared by blast
  moreover have "new_epoch ex_safe_head ex_next_epoch"
    by (simp add: new_epoch_def ex_safe_head_def ex_next_epoch_def block_id_def ex_block_def)
  ultimately show ?thesis
    using prepared_attributes [of "ex_builder 5" ex_safe_head ex_next_epoch a] by auto
qed

definition ex_aqueue :: "batch_queue_state attributes_queue" where
  "ex_aqueue = attributes_queue_new ex_rollup_config ex_queue"

definition ex_template :: payload_attributes where
  "ex_template = \<lparr>pa_timestamp = 52, pa_prev_randao = zero_hash, pa_suggested_fee_recipient = SEQUENCER_FEE_VAULT_ADDRESS,
     pa_withdrawals = None, pa_parent_beacon_block_root = None, pa_transactions = Some [[9]], pa_no_tx_pool = Some True,
     pa_gas_limit = Some 0, pa_eip_1559_params = None\<rparr>"

lemma ex_queue_pull:
  "queue_next_batch ex_l2 (l1_batch_provider ex_l2 ex_codec ex_abi ex_l1 ex_da) ex_safe_head ex_queue =
     (Ok \<lparr>sb_parent_hash = [7], sb_epoch_num = 5, sb_epoch_hash = bi_hash (ex_block 5), sb_timestamp = 52,
          sb_transactions = [[1]]\<rparr>, ex_queue\<lparr>bq_next_spans := []\<rparr>)"
  by (simp add: queue_next_batch_def ex_queue_def batch_queue_stack_def batch_queue_new_def pop_next_batch_def
      ex_safe_head_def ex_rollup_config_def)

theorem attributes_survive_builder_failure_witness:
  "\<exists>s' a. next_attributes (\<lambda>p e. Err (temp NotEnoughData)) (queue_provider ex_l2 (l1_batch_provider ex_l2 ex_codec ex_abi ex_l1 ex_da))
        ex_safe_head ex_aqueue = (Err (temp NotEnoughData), s')
     \<and> fst (next_attributes (\<lambda>p e. Ok ex_template) (queue_provider ex_l2 (l1_batch_provider ex_l2 ex_codec ex_abi ex_l1 ex_da))
        ex_safe_head s') = Ok a
     \<and> pa_transactions (ap_attributes a) = Some [[9], [1]]"
proof -
  let ?P = "queue_provider ex_l2 (l1_batch_provider ex_l2 ex_codec ex_abi ex_l1 ex_da)"
  let ?fail = "\<lambda>p e. Err (temp NotEnoughData) :: payload_attributes presult"
  let ?b = "\<lparr>sb_parent_hash = [7], sb_epoch_num = 5, sb_epoch_hash = bi_hash (ex_block 5), sb_timestamp = 52, sb_transactions = [[1]]\<rparr>"
  have q: "aq_batch ex_aqueue = None" "at_next_batch ?P ex_safe_head (aq_prev ex_aqueue) = (Ok ?b, ex_queue\<lparr>bq_next_spans := []\<rparr>)"
    by (simp_all add: ex_aqueue_def attributes_queue_new_def queue_provider_def ex_queue_pull)
  have "sb_parent_hash ?b = bi_hash (l2_block ex_safe_head)" "pa_transactions ex_template = Some [[9]]"
    by (simp_all add: ex_safe_head_def ex_template_def)
  from attributes_survive_builder_failure [where ?prep1.0 = ?fail and ?prep2.0 = "\<lambda>p e. Ok ex_template" and P' = ?P, OF q this(1) refl refl this(2)]
  show ?thesis by auto
qed

theorem fresh_batch_passes_parent_check_witness:
  "\<exists>b s'. load_batch (queue_provider ex_l2 (l1_batch_provider ex_l2 ex_codec ex_abi ex_l1 ex_da)) ex_safe_head ex_aqueue = (Ok b, s')
     \<and> create_next_attributes (\<lambda>p e. Ok ex_template) b ex_safe_head =
         Ok (ex_template\<lparr>pa_no_tx_pool := Some True, pa_transactions := Some ([[9]] @ sb_transactions b)\<rparr>)"
proof -
  let ?P = "queue_provider ex_l2 (l1_batch_provider ex_l2 ex_codec ex_abi ex_l1 ex_da)"
  obtain b s' where l: "load_batch ?P ex_safe_head ex_aqueue = (Ok b, s')"
    by (simp add: load_batch_def ex_aqueue_def attributes_queue_new_def queue_provider_def ex_queue_pull)
  have "aq_batch ex_aqueue = None" by (simp add: ex_aqueue_def attributes_queue_new_def)
  from fresh_batch_passes_parent_check [OF l this, of "\<lambda>p e. Ok ex_template"] l show ?thesis
    by (auto simp: ex_template_def)
qed

end
