(* ===== verification/Pipeline.thy ===== *)
theory Pipeline
  imports Attributes
begin

text \<open>
  \<open>DerivationPipeline\<close> (\<^verbatim>\<open>derive/src/pipeline/core.rs\<close>), the stack the builder makes
  (\<^verbatim>\<open>derive/src/pipeline/builder.rs\<close>) and its oracle-backed wrapper
  (\<^verbatim>\<open>proof/proof/src/l1/pipeline.rs\<close>). The pipeline steps its attributes queue, advances the L1
  origin when the queue has run dry, and broadcasts signals.
\<close>

section \<open>Definitions\<close>

datatype step_result =
    PreparedAttributes
  | AdvancedOrigin
  | OriginAdvanceErr pipeline_error_kind
  | StepFailed pipeline_error_kind

text \<open>The traits of the attributes stage the pipeline is generic in.\<close>

record 'q next_attributes_provider =
  na_next :: "l2_block_info \<Rightarrow> 'q \<Rightarrow> attributes_with_parent presult \<times> 'q"
  na_origin :: "'q \<Rightarrow> block_info option"
  na_advance :: "'q \<Rightarrow> unit presult \<times> 'q"
  na_signal :: "signal \<Rightarrow> 'q \<Rightarrow> unit presult \<times> 'q"

record 'q derivation_pipeline =
  dp_attributes :: 'q
  dp_prepared :: "attributes_with_parent list"
  dp_rollup_config :: rollup_config

definition pipeline_new :: "'q \<Rightarrow> rollup_config \<Rightarrow> 'q derivation_pipeline" where
  "pipeline_new attributes cfg = \<lparr>dp_attributes = attributes, dp_prepared = [], dp_rollup_config = cfg\<rparr>"

definition pipeline_origin :: "'q next_attributes_provider \<Rightarrow> 'q derivation_pipeline \<Rightarrow> block_info option" where
  "pipeline_origin N dp = na_origin N (dp_attributes dp)"

definition pipeline_next :: "'q derivation_pipeline \<Rightarrow> attributes_with_parent option \<times> 'q derivation_pipeline" where
  "pipeline_next dp = (case dp_prepared dp of [] \<Rightarrow> (None, dp) | a # as \<Rightarrow> (Some a, dp\<lparr>dp_prepared := as\<rparr>))"

definition pipeline_peek :: "'q derivation_pipeline \<Rightarrow> attributes_with_parent option" where
  "pipeline_peek dp = (case dp_prepared dp of [] \<Rightarrow> None | a # as \<Rightarrow> Some a)"

definition pipeline_system_config_by_number :: "l2_chain_provider \<Rightarrow> u64 \<Rightarrow> system_config presult" where
  "pipeline_system_config_by_number F n = l2p_system_config_by_number F n"

text \<open>A reset or an activation, completed with the system config; \<open>perr\<close> prints the provider's error.\<close>

definition pipeline_restart ::
  "l2_chain_provider \<Rightarrow> (pipeline_error_kind \<Rightarrow> string) \<Rightarrow> 'q next_attributes_provider \<Rightarrow> reset_signal \<Rightarrow> signal
     \<Rightarrow> 'q derivation_pipeline \<Rightarrow> unit presult \<times> 'q derivation_pipeline" where
  "pipeline_restart F perr N x sg dp =
     rbind (map_err (\<lambda>e. temp (Provider (perr e))) (l2p_system_config_by_number F (bi_number (l2_block (sig_l2_safe_head x))))) dp
       (\<lambda>system_config.
       let (r, q) = na_signal N (with_system_config sg system_config) (dp_attributes dp); dp1 = dp\<lparr>dp_attributes := q\<rparr> in
       case r of
         Ok _ \<Rightarrow> (Ok (), dp1)
       | Err e \<Rightarrow> if e = Temporary Eof then (Ok (), dp1) else (Err e, dp1)
       | Panic \<Rightarrow> (Panic, dp1))"

fun pipeline_signal ::
  "l2_chain_provider \<Rightarrow> (pipeline_error_kind \<Rightarrow> string) \<Rightarrow> 'q next_attributes_provider \<Rightarrow> signal
     \<Rightarrow> 'q derivation_pipeline \<Rightarrow> unit presult \<times> 'q derivation_pipeline" where
  "pipeline_signal F perr N (SigReset x) dp = pipeline_restart F perr N x (SigReset x) dp"
| "pipeline_signal F perr N (SigActivation x) dp = pipeline_restart F perr N x (SigActivation x) dp"
| "pipeline_signal F perr N FlushChannel dp =
     (let (r, q) = na_signal N FlushChannel (dp_attributes dp); dp1 = dp\<lparr>dp_attributes := q\<rparr> in
      rbind r dp1 (\<lambda>_. (Ok (), dp1)))"

text \<open>A step; \<open>Panic\<close> is a panic of a stage, and errors are results of the step.\<close>

definition pipeline_step ::
  "'q next_attributes_provider \<Rightarrow> l2_block_info \<Rightarrow> 'q derivation_pipeline \<Rightarrow> (step_result, 'e) res \<times> 'q derivation_pipeline" where
  "pipeline_step N cursor dp =
     (let (r, q) = na_next N cursor (dp_attributes dp); dp1 = dp\<lparr>dp_attributes := q\<rparr> in
      case r of
        Ok a \<Rightarrow> (Ok PreparedAttributes, dp1\<lparr>dp_prepared := dp_prepared dp1 @ [a]\<rparr>)
      | Err err \<Rightarrow>
          if err = Temporary Eof then
            let (r2, q2) = na_advance N (dp_attributes dp1); dp2 = dp1\<lparr>dp_attributes := q2\<rparr> in
            (case r2 of
               Ok _ \<Rightarrow> (Ok AdvancedOrigin, dp2)
             | Err e \<Rightarrow> (Ok (OriginAdvanceErr e), dp2)
             | Panic \<Rightarrow> (Panic, dp2))
          else (Ok (StepFailed err), dp1)
      | Panic \<Rightarrow> (Panic, dp1))"

subsection \<open>The stack of the builder\<close>

definition attributes_ops :: "prepare \<Rightarrow> 'p attributes_provider \<Rightarrow> 'p attributes_queue next_attributes_provider" where
  "attributes_ops prep P =
     \<lparr>na_next = next_attributes prep P, na_origin = (\<lambda>s. at_origin P (aq_prev s)),
      na_advance = attributes_advance P, na_signal = attributes_signal P\<rparr>"

text \<open>What surrounds the pipeline: the two chains, the DA server, the codecs, and the text of errors.\<close>

record 'tx environment =
  env_l1 :: chain_provider
  env_l2 :: l2_chain_provider
  env_da :: da_provider
  env_codec :: codec
  env_abi :: abi_decoder
  env_alloy :: alloy
  env_sdk :: "'tx svm_sdk"

definition env_batches :: "'tx environment \<Rightarrow> batch_stream_state batch_provider" where
  "env_batches V = l1_batch_provider (env_l2 V) (env_codec V) (env_abi V) (env_l1 V) (env_da V)"

definition env_builder :: "rollup_config \<Rightarrow> 'tx environment \<Rightarrow> 'tx attributes_builder" where
  "env_builder cfg V =
     \<lparr>ab_rollup_cfg = cfg, ab_config_fetcher = env_l2 V, ab_receipts_fetcher = env_l1 V, ab_abi = env_abi V,
      ab_alloy = env_alloy V, ab_sdk = env_sdk V\<rparr>"

definition env_queue :: "'tx environment \<Rightarrow> batch_queue_state attributes_provider" where
  "env_queue V = queue_provider (env_l2 V) (env_batches V)"

type_synonym attributes_state = "batch_queue_state attributes_queue"
type_synonym pipeline_state = "attributes_state derivation_pipeline"

definition env_ops :: "rollup_config \<Rightarrow> 'tx environment \<Rightarrow> attributes_state next_attributes_provider" where
  "env_ops cfg V = attributes_ops (prepare_payload_attributes (env_builder cfg V)) (env_queue V)"

definition frames_stack :: "rollup_config \<Rightarrow> system_config \<Rightarrow> block_info \<Rightarrow> ethereum_data_source \<Rightarrow> frame_queue_state" where
  "frames_stack cfg sc origin dap =
     frame_queue_new (retrieval_new ((traversal_new cfg sc)\<lparr>tv_block := Some origin\<rparr>) dap) cfg"

definition build_pipeline :: "rollup_config \<Rightarrow> system_config \<Rightarrow> block_info \<Rightarrow> ethereum_data_source \<Rightarrow> pipeline_state" where
  "build_pipeline cfg sc origin dap =
     pipeline_new (attributes_queue_new cfg (batch_queue_stack cfg (frames_stack cfg sc origin dap))) cfg"

definition env_signal :: "'tx environment \<Rightarrow> signal \<Rightarrow> pipeline_state \<Rightarrow> unit presult \<times> pipeline_state" where
  "env_signal V sg dp =
     pipeline_signal (env_l2 V) (sdk_provider_error (env_sdk V)) (env_ops (dp_rollup_config dp) V) sg dp"

definition env_step :: "'tx environment \<Rightarrow> l2_block_info \<Rightarrow> pipeline_state \<Rightarrow> step_result presult \<times> pipeline_state" where
  "env_step V cursor dp = pipeline_step (env_ops (dp_rollup_config dp) V) cursor dp"

text \<open>
  \<open>OraclePipeline::new\<close>: the builder is not given a system config, so the default one is used
  until the first reset fills it in.
\<close>

definition default_system_config :: system_config where
  "default_system_config =
     \<lparr>sc_batcher_address = replicate 20 0, sc_overhead = 0, sc_scalar = 0, sc_gas_limit = 0, sc_base_fee_scalar = None,
      sc_blob_base_fee_scalar = None, sc_eip1559_denominator = None, sc_eip1559_elasticity = None,
      sc_operator_fee_scalar = None, sc_operator_fee_constant = None\<rparr>"

definition res_ok :: "('a, 'e) res \<Rightarrow> ('a option, 'f) res" where
  "res_ok r = (case r of Ok x \<Rightarrow> Ok (Some x) | Err e \<Rightarrow> Ok None | Panic \<Rightarrow> Panic)"

definition oracle_pipeline_new ::
  "'tx environment \<Rightarrow> rollup_config \<Rightarrow> block_info \<Rightarrow> l2_block_info \<Rightarrow> ethereum_data_source \<Rightarrow> pipeline_state presult" where
  "oracle_pipeline_new V cfg origin l2_safe_head dap =
     (let dp = build_pipeline cfg default_system_config origin dap in
      rthen (res_ok (l2p_system_config_by_number (env_l2 V) (bi_number (l2_block l2_safe_head)))) (\<lambda>sc.
      case env_signal V (SigReset \<lparr>sig_l2_safe_head = l2_safe_head, sig_l1_origin = origin, sig_system_config = sc\<rparr>) dp of
        (Ok _, dp1) \<Rightarrow> Ok dp1
      | (Err e, dp1) \<Rightarrow> Err e
      | (Panic, dp1) \<Rightarrow> Panic))"

section \<open>Signals never fail\<close>

text \<open>Every stage passes a signal down and answers without an error of its own.\<close>

lemma traversal_signal_not_Err: "fst (traversal_signal sg s) \<noteq> Err e"
  by (cases sg) (auto simp: traversal_reset_def Let_def split: option.split)

lemma retrieval_signal_not_Err: "fst (st_signal (l1_retrieval_stage A cp dap) sg s) \<noteq> Err e"
  using traversal_signal_not_Err [of sg "rt_prev s" e]
  by (auto simp: l1_retrieval_stage_def retrieval_signal_def Let_def split: prod.splits rbind_splits signal.splits)

lemma frame_signal_not_Err: "fst (st_signal (l1_frame_stage A cp dap) sg s) \<noteq> Err e"
  using retrieval_signal_not_Err [of A cp dap sg "fq_prev s" e]
  by (auto simp: l1_frame_stage_def fq_signal_def Let_def split: prod.splits rbind_splits)

lemma bank_signal_not_Err: "fst (bank_signal (l1_frame_stage A cp dap) sg s) \<noteq> Err e"
  using frame_signal_not_Err [of A cp dap sg "cb_prev s" e]
  by (auto simp: bank_signal_def Let_def split: prod.splits rbind_splits)

lemma assembler_signal_not_Err: "fst (assembler_signal (l1_frame_stage A cp dap) sg s) \<noteq> Err e"
  using frame_signal_not_Err [of A cp dap sg "ca_prev s" e]
  by (auto simp: assembler_signal_def Let_def split: prod.splits rbind_splits)

lemma channel_signal_not_Err:
  "cm_inv (\<lambda>_. True) s \<Longrightarrow> fst (st_signal (l1_channel_stage A cp dap) sg s) \<noteq> Err e"
  using bank_signal_not_Err [of A cp dap sg _ e] assembler_signal_not_Err [of A cp dap sg _ e]
  by (auto simp: l1_channel_stage_def cm_signal_def cm_forward_def cm_attempt_update_def cm_inv_def cm_origin_def Let_def
           split: option.splits prod.splits) (metis fst_conv)+

lemma reader_signal_not_Err:
  "reader_inv s \<Longrightarrow> fst (st_signal (l1_reader_stage Z A cp dap) sg s) \<noteq> Err e"
  using channel_signal_not_Err [of "cr_prev s" A cp dap sg e]
  by (cases sg) (auto simp: l1_reader_stage_def reader_inv_def Let_def split: prod.splits rbind_splits)

lemma stream_signal_not_Err:
  "stream_inv s \<Longrightarrow> fst (bp_signal (l1_batch_provider F Z A cp dap) sg s) \<noteq> Err e"
  using reader_signal_not_Err [of "bst_prev s" Z A cp dap sg e]
  by (auto simp: l1_batch_provider_def stream_inv_def stream_signal_def Let_def split: prod.splits rbind_splits)

lemma queue_signal_not_Err:
  "stream_inv (bq_prev s) \<Longrightarrow> fst (queue_signal (l1_batch_provider F Z A cp dap) sg s) \<noteq> Err e"
  using stream_signal_not_Err [of "bq_prev s" F Z A cp dap sg e]
  by (auto simp: queue_signal_def Let_def split: prod.splits rbind_splits signal.splits)

section \<open>The pipeline drives the batch queue as it expects\<close>

text \<open>The batch queue inside a pipeline.\<close>

definition queue_of :: "pipeline_state \<Rightarrow> batch_queue_state" where
  "queue_of dp = aq_prev (dp_attributes dp)"

lemma env_ops_sel:
  "na_next (env_ops cfg V) = next_attributes (prepare_payload_attributes (env_builder cfg V)) (env_queue V)"
  "na_origin (env_ops cfg V) q = state_origin (aq_prev q)"
  "na_advance (env_ops cfg V) = attributes_advance (env_queue V)"
  "na_signal (env_ops cfg V) = attributes_signal (env_queue V)"
  by (simp_all add: env_ops_def attributes_ops_def env_queue_def queue_provider_def env_batches_def bp_origin_state)

lemma env_queue_sel:
  "at_next_batch (env_queue V) = queue_next_batch (env_l2 V) (env_batches V)"
  "at_advance (env_queue V) = queue_advance (env_batches V)"
  "at_signal (env_queue V) = queue_signal (env_batches V)"
  by (simp_all add: env_queue_def queue_provider_def)

text \<open>
  What can happen to a pipeline: steps with any cursor, whatever their result; signals, whether they
  are answered or fail, of which an activation carries the origin at which the pipeline stands (the
  driver sends no other, \<open>handle_reset\<close>); and taking prepared attributes. Each event may see another
  environment of \<open>Vs\<close>. After a panic there is no further event.
\<close>

inductive pipeline_run :: "'tx environment set \<Rightarrow> pipeline_state \<Rightarrow> pipeline_state \<Rightarrow> bool" for Vs where
  prun_refl: "pipeline_run Vs dp dp"
| prun_step: "\<lbrakk> pipeline_run Vs dp dp1; V \<in> Vs; env_step V cursor dp1 = (Ok r, dp2) \<rbrakk> \<Longrightarrow> pipeline_run Vs dp dp2"
| prun_signal: "\<lbrakk> pipeline_run Vs dp dp1; V \<in> Vs; env_signal V sg dp1 = (r, dp2); r \<noteq> Panic;
      \<And>x. sg = SigActivation x \<Longrightarrow> state_origin (queue_of dp1) = Some (sig_l1_origin x) \<rbrakk> \<Longrightarrow> pipeline_run Vs dp dp2"
| prun_next: "\<lbrakk> pipeline_run Vs dp dp1; pipeline_next dp1 = (x, dp2) \<rbrakk> \<Longrightarrow> pipeline_run Vs dp dp2"

text \<open>A step pulls the batch queue at most once, and advances it only after it ran dry.\<close>

lemma env_step_queue:
  assumes "env_step V cursor dp = (Ok r, dp2)" and "queue_run s False (queue_of dp) d"
  shows "\<exists>d'. queue_run s False (queue_of dp2) d'"
proof -
  define prep where "prep = prepare_payload_attributes (env_builder (dp_rollup_config dp) V)"
  obtain rn q where n: "next_attributes prep (env_queue V) cursor (dp_attributes dp) = (rn, q)" by fastforce
  obtain rq u where pull: "queue_next_batch (env_l2 V) (env_batches V) cursor (queue_of dp) = (rq, u)" by fastforce
  have prev: "aq_prev q = (if aq_batch (dp_attributes dp) = None then u else queue_of dp)"
    using next_attributes_prev [of prep "env_queue V" cursor "dp_attributes dp"] n pull
    by (simp add: env_queue_sel queue_of_def)
  have run: "queue_run s False u (rq = Err (temp Eof))"
    using run_pull [OF assms(2)] pull by (simp add: env_batches_def)
  show ?thesis
  proof (cases "rn = Err (temp Eof)")
    case True
    then have dry: "aq_batch (dp_attributes dp) = None" "rq = Err (temp Eof)"
      using next_attributes_Eof [of prep "env_queue V" cursor "dp_attributes dp"] n pull prepare_not_Eof
      by (auto simp: prep_def env_queue_sel queue_of_def)
    obtain ra v where a: "queue_advance (env_batches V) u = (ra, v)" by fastforce
    have "queue_run s False v False"
      using run_advance [of s False u] run dry(2) a by (simp add: env_batches_def)
    moreover have "queue_of dp2 = v"
      using assms(1) True n dry prev a
      by (auto simp: env_step_def pipeline_step_def env_ops_sel prep_def env_queue_sel queue_of_def attributes_advance_def
          Let_def split: res.split_asm)
    ultimately show ?thesis by blast
  next
    case False
    then have "queue_of dp2 = aq_prev q"
      using assms(1) n by (auto simp: env_step_def pipeline_step_def env_ops_sel prep_def queue_of_def Let_def split: res.split_asm if_split_asm)
    with prev run assms(2) show ?thesis by auto
  qed
qed

lemma attributes_signal_prev:
  "aq_prev (snd (attributes_signal P sg s)) = snd (at_signal P sg (aq_prev s))
   \<and> (fst (attributes_signal P sg s) = Ok () \<longleftrightarrow> fst (at_signal P sg (aq_prev s)) = Ok ())
   \<and> (\<forall>e. fst (attributes_signal P sg s) = Err e \<longleftrightarrow> fst (at_signal P sg (aq_prev s)) = Err e)"
  by (cases sg) (auto simp: Let_def split: prod.splits rbind_splits)

lemma signal_system_config_activation: "with_system_config sg sc = SigActivation x \<Longrightarrow> \<exists>y. sg = SigActivation y \<and> sig_l1_origin y = sig_l1_origin x"
  by (cases sg) auto

text \<open>A signal that is answered reached the attributes queue, possibly with the system config filled in.\<close>

lemma pipeline_restart_Ok:
  assumes "pipeline_restart F perr N x sg dp = (Ok (), dp2)" and "\<And>sg' e. fst (na_signal N sg' (dp_attributes dp)) \<noteq> Err e"
  shows "\<exists>sc. fst (na_signal N (with_system_config sg sc) (dp_attributes dp)) = Ok ()
    \<and> dp2 = dp\<lparr>dp_attributes := snd (na_signal N (with_system_config sg sc) (dp_attributes dp))\<rparr>"
proof -
  from assms(1) obtain sc where
    "l2p_system_config_by_number F (bi_number (l2_block (sig_l2_safe_head x))) = Ok sc"
    by (auto simp: pipeline_restart_def res_simps)
  then show ?thesis
    using assms(1) assms(2) [of "with_system_config sg sc"]
    by (intro exI [of _ sc]; cases "na_signal N (with_system_config sg sc) (dp_attributes dp)"; cases "fst (na_signal N (with_system_config sg sc) (dp_attributes dp))")
       (auto simp: pipeline_restart_def)
qed

lemma pipeline_signal_Ok:
  assumes "pipeline_signal F perr N sg dp = (Ok (), dp2)" and "\<And>sg' e. fst (na_signal N sg' (dp_attributes dp)) \<noteq> Err e"
  obtains sg' where "fst (na_signal N sg' (dp_attributes dp)) = Ok ()"
    "dp2 = dp\<lparr>dp_attributes := snd (na_signal N sg' (dp_attributes dp))\<rparr>"
    "sg' = sg \<or> (\<exists>sc. sg' = with_system_config sg sc)"
proof -
  have flush: "fst (na_signal N FlushChannel (dp_attributes dp)) = Ok ()
    \<and> dp2 = dp\<lparr>dp_attributes := snd (na_signal N FlushChannel (dp_attributes dp))\<rparr>" if "sg = FlushChannel"
    using assms that
    by (cases "na_signal N FlushChannel (dp_attributes dp)"; cases "fst (na_signal N FlushChannel (dp_attributes dp))") auto
  have restart: "\<exists>sc. fst (na_signal N (with_system_config sg sc) (dp_attributes dp)) = Ok ()
    \<and> dp2 = dp\<lparr>dp_attributes := snd (na_signal N (with_system_config sg sc) (dp_attributes dp))\<rparr>"
    if "sg = SigReset x \<or> sg = SigActivation x" for x
    using pipeline_restart_Ok [of F perr N x sg dp dp2] assms that by auto
  show ?thesis
    using that flush restart by (metis signal.exhaust)
qed

text \<open>A signal that fails did not reach the attributes queue.\<close>

lemma pipeline_signal_Err:
  assumes "pipeline_signal F perr N sg dp = (Err e, dp2)" and "\<And>sg' e. fst (na_signal N sg' (dp_attributes dp)) \<noteq> Err e"
  shows "dp2 = dp"
proof -
  have restart: "dp2 = dp" if "pipeline_restart F perr N x sg dp = (Err e, dp2)" for x
  proof (cases "l2p_system_config_by_number F (bi_number (l2_block (sig_l2_safe_head x)))")
    case (Ok sc)
    with that assms(2) [of "with_system_config sg sc"] show ?thesis
      by (cases "na_signal N (with_system_config sg sc) (dp_attributes dp)"; cases "fst (na_signal N (with_system_config sg sc) (dp_attributes dp))")
         (auto simp: pipeline_restart_def)
  qed (use that in \<open>auto simp: pipeline_restart_def\<close>)
  show ?thesis
  proof (cases sg)
    case FlushChannel
    then show ?thesis using assms(1) assms(2) [of FlushChannel]
      by (cases "na_signal N FlushChannel (dp_attributes dp)"; cases "fst (na_signal N FlushChannel (dp_attributes dp))") auto
  qed (use assms(1) restart in auto)
qed

lemma env_attributes_not_Err:
  assumes "stream_inv (bq_prev (queue_of dp))"
  shows "fst (attributes_signal (env_queue V) sg (dp_attributes dp)) \<noteq> Err e"
  using attributes_signal_prev [of "env_queue V" sg "dp_attributes dp"]
    queue_signal_not_Err [OF assms, of "env_l2 V" "env_codec V" "env_abi V" "env_l1 V" "env_da V" sg e]
  by (simp add: env_queue_sel env_batches_def queue_of_def)

lemma env_signal_queue:
  assumes "env_signal V sg dp = (Ok (), dp2)" and "queue_run s False (queue_of dp) d" and "stream_inv (bq_prev (queue_of dp))"
    and act: "\<And>x. sg = SigActivation x \<Longrightarrow> state_origin (queue_of dp) = Some (sig_l1_origin x)"
  shows "queue_run s False (queue_of dp2) False"
proof -
  note err = env_attributes_not_Err [OF assms(3)]
  obtain sg' where sg': "fst (attributes_signal (env_queue V) sg' (dp_attributes dp)) = Ok ()"
    "dp2 = dp\<lparr>dp_attributes := snd (attributes_signal (env_queue V) sg' (dp_attributes dp))\<rparr>"
    and sc: "sg' = sg \<or> (\<exists>sc. sg' = with_system_config sg sc)"
    using pipeline_signal_Ok [OF assms(1) [unfolded env_signal_def]] err by (metis env_ops_sel(4))
  obtain u where u: "queue_signal (env_batches V) sg' (queue_of dp) = (Ok (), u)"
    using sg'(1) attributes_signal_prev [of "env_queue V" sg' "dp_attributes dp"]
    by (cases "queue_signal (env_batches V) sg' (queue_of dp)") (auto simp: env_queue_sel queue_of_def)
  then have "queue_of dp2 = u"
    using sg'(2) attributes_signal_prev [of "env_queue V" sg' "dp_attributes dp"] by (simp add: queue_of_def env_queue_sel)
  moreover have "queue_run s False u False"
  proof (rule run_signal [OF assms(2)])
    show "queue_signal (l1_batch_provider (env_l2 V) (env_codec V) (env_abi V) (env_l1 V) (env_da V)) sg' (queue_of dp) = (Ok (), u)"
      using u by (simp add: env_batches_def)
    show "bp_origin (l1_batch_provider (env_l2 V) (env_codec V) (env_abi V) (env_l1 V) (env_da V)) (bq_prev (queue_of dp)) = Some (sig_l1_origin x)"
      if "sg' = SigActivation x" for x
    proof -
      from sc that obtain y where "sg = SigActivation y" "sig_l1_origin y = sig_l1_origin x"
        using signal_system_config_activation by blast
      with act show ?thesis by (simp add: bp_origin_state)
    qed
  qed
  ultimately show ?thesis by simp
qed

lemma pipeline_run_queue:
  assumes "pipeline_run Vs dp dp2" and "bq_inv (queue_of dp)"
  shows "\<exists>d. queue_run (queue_of dp) False (queue_of dp2) d"
  using assms
proof (induction rule: pipeline_run.induct)
  case (prun_refl dp)
  then show ?case using run_refl by blast
next
  case (prun_step dp dp1 V cursor r dp2)
  then show ?case using env_step_queue by blast
next
  case (prun_signal dp dp1 V sg r dp2)
  then obtain d where d: "queue_run (queue_of dp) False (queue_of dp1) d" by blast
  have "stream_inv (bq_prev (queue_of dp1))"
    using queue_run_inv [OF d prun_signal.prems] by (simp add: bq_inv_def)
  note inv = this
  show ?case
  proof (cases r)
    case (Ok u)
    with prun_signal(3) have "env_signal V sg dp1 = (Ok (), dp2)" by simp
    from env_signal_queue [OF this d inv prun_signal(5)] show ?thesis by blast
  next
    case (Err e)
    then have "pipeline_signal (env_l2 V) (sdk_provider_error (env_sdk V)) (env_ops (dp_rollup_config dp1) V) sg dp1 = (Err e, dp2)"
      using prun_signal(3) by (simp add: env_signal_def)
    then have "dp2 = dp1" by (rule pipeline_signal_Err) (simp add: env_ops_sel env_attributes_not_Err [OF inv])
    with d show ?thesis by blast
  qed (use prun_signal(4) in simp)
next
  case (prun_next dp dp1 x dp2)
  then have "queue_of dp2 = queue_of dp1"
    by (auto simp: pipeline_next_def queue_of_def split: list.splits)
  with prun_next show ?case by auto
qed

lemma build_pipeline_inv: "bq_inv (queue_of (build_pipeline cfg sc origin dap))"
  by (simp add: queue_of_def build_pipeline_def pipeline_new_def attributes_queue_new_def batch_queue_stack_inv)

lemma pipeline_run_inv:
  "pipeline_run Vs (build_pipeline cfg sc origin dap) dp \<Longrightarrow> bq_inv (queue_of dp)"
  using pipeline_run_queue [OF _ build_pipeline_inv] queue_run_inv [OF _ build_pipeline_inv] by blast

section \<open>Steps\<close>

text \<open>
  Attributes for a parent, made of one batch on it: the template of the builder for the epoch of the
  batch, with the transactions of the batch behind those of the template.
\<close>

definition attributes_from :: "'tx attributes_builder \<Rightarrow> l2_block_info \<Rightarrow> single_batch \<Rightarrow> attributes_with_parent \<Rightarrow> bool" where
  "attributes_from b parent sb a \<longleftrightarrow>
     ap_parent a = parent \<and> sb_parent_hash sb = bi_hash (l2_block parent) \<and>
     (\<exists>t txs. prepare_payload_attributes b parent (sb_epoch sb) = Ok t \<and> pa_transactions t = Some txs
        \<and> ap_attributes a = t\<lparr>pa_no_tx_pool := Some True, pa_transactions := Some (txs @ sb_transactions sb)\<rparr>)"

text \<open>The batch a step works on: the one that an earlier step left, or else what the queue hands out.\<close>

definition step_batch :: "'tx environment \<Rightarrow> l2_block_info \<Rightarrow> pipeline_state \<Rightarrow> single_batch \<Rightarrow> bool" where
  "step_batch V cursor dp sb \<longleftrightarrow>
     (case aq_batch (dp_attributes dp) of
        Some b \<Rightarrow> b = sb
      | None \<Rightarrow> fst (queue_next_batch (env_l2 V) (env_batches V) cursor (queue_of dp)) = Ok sb)"

lemma next_attributes_from:
  assumes "next_attributes (prepare_payload_attributes b) P parent s = (Ok a, s')"
  obtains sb where "attributes_from b parent sb a" and "aq_batch s = Some sb \<or> aq_batch s = None \<and> fst (at_next_batch P parent (aq_prev s)) = Ok sb"
proof -
  obtain sb s1 where l: "load_batch P parent s = (Ok sb, s1)" and c: "create_next_attributes (prepare_payload_attributes b) sb parent = Ok (ap_attributes a)"
    and p: "ap_parent a = parent"
    using assms by (auto simp: next_attributes_def Let_def res_simps split: prod.split_asm)
  from c obtain t where t: "prepare_payload_attributes b parent (sb_epoch sb) = Ok t" "sb_parent_hash sb = bi_hash (l2_block parent)"
    by (auto simp: create_next_attributes_def res_simps split: if_split_asm)
  obtain txs where txs: "pa_transactions t = Some txs" using prepare_Ok [OF t(1)] by metis
  with c t have "ap_attributes a = t\<lparr>pa_no_tx_pool := Some True, pa_transactions := Some (txs @ sb_transactions sb)\<rparr>"
    by (simp add: create_next_attributes_def Let_def)
  with p t txs have "attributes_from b parent sb a" by (auto simp: attributes_from_def)
  moreover have "aq_batch s = Some sb \<or> aq_batch s = None \<and> fst (at_next_batch P parent (aq_prev s)) = Ok sb"
    using l by (auto simp: load_batch_def Let_def res_simps split: if_split_asm prod.split_asm)
  ultimately show ?thesis by (rule that)
qed

text \<open>A batch is left in the attributes queue by the step that pulled it.\<close>

lemma next_attributes_leaves:
  assumes "next_attributes prep P parent s = (r, s')" and "aq_batch s' = Some sb"
  shows "aq_batch s = Some sb \<or> aq_batch s = None \<and> fst (at_next_batch P parent (aq_prev s)) = Ok sb"
  using assms by (auto simp: next_attributes_def load_batch_def Let_def split: if_split_asm prod.split_asm rbind_split_asm)

lemma env_step_leaves:
  assumes "env_step V cursor dp = (r, dp2)" and "aq_batch (dp_attributes dp2) = Some sb"
  shows "step_batch V cursor dp sb"
proof -
  define prep where "prep = prepare_payload_attributes (env_builder (dp_rollup_config dp) V)"
  obtain rn q where n: "next_attributes prep (env_queue V) cursor (dp_attributes dp) = (rn, q)" by fastforce
  have "aq_batch (snd (attributes_advance (env_queue V) q)) = aq_batch q" by (simp add: attributes_advance_def split: prod.split)
  then have "aq_batch q = Some sb"
    using assms n by (auto simp: env_step_def pipeline_step_def env_ops_sel Let_def simp flip: prep_def split: prod.split_asm res.split_asm if_split_asm)
  from next_attributes_leaves [OF n this] show ?thesis by (auto simp: step_batch_def env_queue_sel queue_of_def)
qed

lemma attributes_signal_leaves: "aq_batch (snd (attributes_signal P sg s)) = Some sb \<Longrightarrow> aq_batch s = Some sb"
  by (cases sg) (auto simp: Let_def split: prod.split_asm rbind_split_asm)

lemma env_signal_leaves:
  assumes "env_signal V sg dp = (r, dp2)" and "aq_batch (dp_attributes dp2) = Some sb"
  shows "aq_batch (dp_attributes dp) = Some sb"
proof -
  let ?N = "env_ops (dp_rollup_config dp) V"
  have restart: "\<exists>sg'. dp_attributes (snd (pipeline_restart F perr ?N x sg dp)) \<in> {dp_attributes dp, snd (na_signal ?N sg' (dp_attributes dp))}" for F perr x
    by (cases "l2p_system_config_by_number F (bi_number (l2_block (sig_l2_safe_head x)))")
       (auto simp: pipeline_restart_def split_beta Let_def split: res.split)
  have flush: "dp_attributes (snd (pipeline_signal F perr ?N FlushChannel dp)) = snd (na_signal ?N FlushChannel (dp_attributes dp))" for F perr
    by (auto simp: split_beta Let_def split: rbind_split)
  have "dp_attributes dp2 = dp_attributes (snd (pipeline_signal (env_l2 V) (sdk_provider_error (env_sdk V)) ?N sg dp))"
    using assms(1) by (simp add: env_signal_def)
  with restart [of "env_l2 V" "sdk_provider_error (env_sdk V)"] flush have "\<exists>sg'. dp_attributes dp2 \<in> {dp_attributes dp, snd (na_signal ?N sg' (dp_attributes dp))}"
    by (cases sg) (auto simp del: pipeline_signal.simps(3))
  then show ?thesis using assms(2) attributes_signal_leaves by (auto simp: env_ops_sel)
qed

lemma pipeline_run_trans: "\<lbrakk> pipeline_run Vs dp1 dp2; pipeline_run Vs dp dp1 \<rbrakk> \<Longrightarrow> pipeline_run Vs dp dp2"
  by (induction rule: pipeline_run.induct) (auto intro: pipeline_run.intros)

text \<open>
  A batch that the batch queue handed out to the pipeline in a run from \<open>dp0\<close> to \<open>dp\<close>: in a step of the run
  that had no batch left, the queue answered with it.
\<close>

definition delivered :: "'tx environment set \<Rightarrow> pipeline_state \<Rightarrow> pipeline_state \<Rightarrow> single_batch \<Rightarrow> bool" where
  "delivered Vs dp0 dp sb \<longleftrightarrow>
     (\<exists>dp1 V cursor r dp2. pipeline_run Vs dp0 dp1 \<and> V \<in> Vs \<and> env_step V cursor dp1 = (Ok r, dp2) \<and> pipeline_run Vs dp2 dp
        \<and> aq_batch (dp_attributes dp1) = None \<and> fst (queue_next_batch (env_l2 V) (env_batches V) cursor (queue_of dp1)) = Ok sb)"

lemma delivered_later: "\<lbrakk> delivered Vs dp0 dp sb; pipeline_run Vs dp dp' \<rbrakk> \<Longrightarrow> delivered Vs dp0 dp' sb"
  unfolding delivered_def using pipeline_run_trans by blast

lemma step_delivers:
  assumes "pipeline_run Vs dp0 dp" and "V \<in> Vs" and "env_step V cursor dp = (Ok r, dp2)" and "step_batch V cursor dp sb"
    and "\<And>b. aq_batch (dp_attributes dp) = Some b \<Longrightarrow> delivered Vs dp0 dp b"
  shows "delivered Vs dp0 dp2 sb"
proof (cases "aq_batch (dp_attributes dp)")
  case None
  with assms(1-4) show ?thesis unfolding delivered_def step_batch_def using prun_refl by fastforce
next
  case (Some b)
  with assms(4,5) have "delivered Vs dp0 dp sb" by (simp add: step_batch_def)
  from delivered_later [OF this prun_step [OF prun_refl assms(2,3)]] show ?thesis .
qed

lemma buffered_was_delivered:
  assumes "pipeline_run Vs dp0 dp" and "aq_batch (dp_attributes dp0) = None" and "aq_batch (dp_attributes dp) = Some sb"
  shows "delivered Vs dp0 dp sb"
  using assms
proof (induction arbitrary: sb rule: pipeline_run.induct)
  case (prun_step dp dp1 V cursor r dp2)
  from env_step_leaves [OF prun_step(3) prun_step.prems(2)] have "step_batch V cursor dp1 sb" .
  from step_delivers [OF prun_step(1-3) this prun_step.IH [OF prun_step.prems(1)]] show ?case .
next
  case (prun_signal dp dp1 V sg r dp2)
  have "delivered Vs dp dp1 sb" using env_signal_leaves [OF prun_signal(3)] prun_signal by blast
  moreover have "pipeline_run Vs dp1 dp2" by (rule pipeline_run.prun_signal [OF prun_refl prun_signal(2-5)])
  ultimately show ?case by (rule delivered_later)
next
  case (prun_next dp dp1 x dp2)
  then have "aq_batch (dp_attributes dp1) = Some sb" by (auto simp: pipeline_next_def split: list.split_asm)
  then have "delivered Vs dp dp1 sb" using prun_next by blast
  from delivered_later [OF this pipeline_run.prun_next [OF prun_refl prun_next(2)]] show ?case .
qed simp

text \<open>What a step does, by its result.\<close>

definition step_effect :: "'tx environment \<Rightarrow> l2_block_info \<Rightarrow> pipeline_state \<Rightarrow> step_result \<Rightarrow> pipeline_state \<Rightarrow> bool" where
  "step_effect V cursor dp r dp2 =
     (case r of
        PreparedAttributes \<Rightarrow>
          (\<exists>a sb. dp_prepared dp2 = dp_prepared dp @ [a] \<and> step_batch V cursor dp sb \<and> attributes_from (env_builder (dp_rollup_config dp) V) cursor sb a)
          \<and> state_origin (queue_of dp2) = state_origin (queue_of dp)
      | AdvancedOrigin \<Rightarrow>
          dp_prepared dp2 = dp_prepared dp \<and> advances (state_origin (queue_of dp)) (state_origin (queue_of dp2))
      | _ \<Rightarrow> dp_prepared dp2 = dp_prepared dp \<and> state_origin (queue_of dp2) = state_origin (queue_of dp))"

lemma env_attributes_contract:
  "stage_contract (attributes_stage prep (env_queue V) cursor) (\<lambda>q. stream_inv (bq_prev (aq_prev q)))"
  using l1_queue.attributes.stage_contract_axioms by (simp add: env_queue_def env_batches_def)

lemma env_attributes_origin: "st_origin (attributes_stage prep (env_queue V) cursor) q = state_origin (aq_prev q)"
  by (simp add: env_queue_def queue_provider_def env_batches_def bp_origin_state)

lemma env_step_effect:
  assumes "env_step V cursor dp = (Ok r, dp2)" and "stream_inv (bq_prev (queue_of dp))"
  shows "step_effect V cursor dp r dp2"
proof -
  define prep where "prep = prepare_payload_attributes (env_builder (dp_rollup_config dp) V)"
  let ?S = "attributes_stage prep (env_queue V) cursor"
  note contract = env_attributes_contract [of prep V cursor]
  obtain rn q where n: "next_attributes prep (env_queue V) cursor (dp_attributes dp) = (rn, q)" by fastforce
  have q: "stream_inv (bq_prev (aq_prev q))" "state_origin (aq_prev q) = state_origin (queue_of dp)"
    using origin_stable.pull_inv [OF stage_contract.axioms(1) [OF contract], of "dp_attributes dp"]
      origin_stable.pull_origin [OF stage_contract.axioms(1) [OF contract], of "dp_attributes dp"] assms(2) n
    by (simp_all add: queue_of_def env_attributes_origin del: attributes_stage_sel(2))
  obtain ra q2 where a: "attributes_advance (env_queue V) q = (ra, q2)" by fastforce
  have adv: "ra = Ok () \<Longrightarrow> advances (state_origin (queue_of dp)) (state_origin (aq_prev q2))"
    "ra \<noteq> Ok () \<Longrightarrow> state_origin (aq_prev q2) = state_origin (queue_of dp)"
    using stage_contract.advance_Ok [OF contract, of q] stage_contract.advance_not_Ok [OF contract, of q] q a
    by (simp_all add: env_attributes_origin del: attributes_stage_sel(2))
  have prep: "\<exists>sb. step_batch V cursor dp sb \<and> attributes_from (env_builder (dp_rollup_config dp) V) cursor sb x" if "rn = Ok x" for x
  proof (rule next_attributes_from [of "env_builder (dp_rollup_config dp) V" "env_queue V" cursor "dp_attributes dp" x q])
    show "next_attributes (prepare_payload_attributes (env_builder (dp_rollup_config dp) V)) (env_queue V) cursor (dp_attributes dp) = (Ok x, q)"
      using n that by (simp add: prep_def)
    fix sb
    assume "attributes_from (env_builder (dp_rollup_config dp) V) cursor sb x"
      and "aq_batch (dp_attributes dp) = Some sb \<or> aq_batch (dp_attributes dp) = None \<and> fst (at_next_batch (env_queue V) cursor (aq_prev (dp_attributes dp))) = Ok sb"
    then show ?thesis by (intro exI [of _ sb]) (auto simp: step_batch_def env_queue_sel queue_of_def)
  qed
  show ?thesis
    using assms(1) n a q adv prep
    by (auto simp: env_step_def pipeline_step_def env_ops_sel Let_def step_effect_def queue_of_def simp flip: prep_def
             split: res.split_asm if_split_asm)
qed

section \<open>Properties\<close>

text \<open>
  C3: in every run of a built pipeline, the window of L1 blocks of its batch queue is a chain of
  consecutive blocks that ends in the queue's origin. A run is made of steps with any cursor and any
  result, of resets and flushes, of activations that carry the origin at which the pipeline stands,
  and of taking prepared attributes; steps and signals may fail, and the providers may answer each
  of them differently. An activation at another origin, which the driver never sends, is excluded. The
  pipeline keeps the discipline that the batch queue relies on: it advances the origin only when the
  queue has run dry.
\<close>

theorem pipeline_window_consecutive:
  assumes "pipeline_run Vs (build_pipeline cfg sc origin dap) dp"
  shows "successively extends (bq_l1_blocks (queue_of dp))
    \<and> (bq_l1_blocks (queue_of dp) = [] \<or> bq_origin (queue_of dp) = Some (last (bq_l1_blocks (queue_of dp))))"
  using pipeline_run_inv [OF assms] by (auto simp: bq_inv_def window_inv_def)

text \<open>
  A step of a pipeline appends attributes for the cursor, made of the builder's template
  and the batch that it had left or pulled from the queue, or moves the L1 origin to a successor block, or reports an
  error; nothing else about the prepared attributes and the origin changes.
\<close>

theorem pipeline_step_effect:
  assumes "pipeline_run Vs (build_pipeline cfg sc origin dap) dp" and "env_step V cursor dp = (Ok r, dp2)"
  shows "step_effect V cursor dp r dp2"
  using env_step_effect [OF assms(2)] pipeline_run_inv [OF assms(1)] by (simp add: bq_inv_def)

definition ex_env :: "bytes environment" where
  "ex_env = \<lparr>env_l1 = ex_l1, env_l2 = ex_l2, env_da = ex_da, env_codec = ex_codec, env_abi = ex_abi, env_alloy = ex_alloy,
     env_sdk = ex_sdk\<rparr>"

definition ex_pipeline :: pipeline_state where
  "ex_pipeline = build_pipeline ex_rollup_config ex_system_config (ex_block 5) (ethereum_data_source_new ex_rollup_config)"

text \<open>The first step of the example finds an empty L1 block and moves on to the next one.\<close>

definition ex_frames :: "bool \<Rightarrow> nat \<Rightarrow> frame_queue_state" where
  "ex_frames d n = frame_queue_new (retrieval_new ((traversal_new ex_rollup_config ex_system_config)
     \<lparr>tv_block := Some (ex_block n), tv_done := d\<rparr>) (ethereum_data_source_new ex_rollup_config)) ex_rollup_config"

lemma ex_frames_pull: "st_next (l1_frame_stage ex_abi ex_l1 ex_da) (ex_frames False n) = (Err (temp Eof), ex_frames True n)"
  by (simp add: l1_frame_stage_def ex_frames_def frame_queue_new_def next_frame_def load_frames_def retrieval_new_def
      retrieval_unfold ethereum_data_source_new_def da_server_source_new_def calldata_source_new_def calldata_next_def
      load_calldata_def ex_l1_def traversal_new_def next_l1_block_def List.map_filter_simps)

lemma ex_frames_advance:
  "st_advance (l1_frame_stage ex_abi ex_l1 ex_da) (ex_frames True 5) = (Ok (), ex_frames False 6)"
  by (simp add: l1_frame_stage_def ex_frames_def frame_queue_new_def fq_advance_def retrieval_new_def l1_retrieval_stage_def
      retrieval_advance_def traversal_advance_def ex_l1_def traversal_new_def ex_block_def)

definition ex_channels :: "frame_queue_state \<Rightarrow> frame_queue_state channel_provider" where
  "ex_channels p = \<lparr>cm_cfg = ex_rollup_config, cm_prev = None, cm_channel_bank = Some (channel_bank_new ex_rollup_config p),
     cm_channel_assembler = None\<rparr>"

lemma ex_channels_pull:
  "st_next (l1_channel_stage ex_abi ex_l1 ex_da) (channel_provider_new ex_rollup_config (ex_frames False n)) =
     (Err (temp Eof), ex_channels (ex_frames True n))"
  by (simp add: l1_channel_stage_def ex_channels_def cm_next_data_def cm_forward_def cm_attempt_update_def
      channel_provider_new_def channel_bank_new_def bank_next_data_def bank_read_def ex_frames_pull)

definition ex_stream :: "frame_queue_state channel_provider \<Rightarrow> batch_stream_state" where
  "ex_stream c = batch_stream_new (channel_reader_new c ex_rollup_config) ex_rollup_config"

lemma ex_frames_origin [simp]: "st_origin (l1_frame_stage ex_abi ex_l1 ex_da) (ex_frames d n) = Some (ex_block n)"
  by (simp add: l1_frame_stage_def l1_retrieval_stage_def ex_frames_def frame_queue_new_def retrieval_new_def)

lemma ex_stream_pull:
  "bp_next_batch (env_batches ex_env) parent l1 (ex_stream (channel_provider_new ex_rollup_config (ex_frames False n))) =
     (Err (temp Eof), ex_stream (ex_channels (ex_frames True n)))"
proof -
  let ?r = "channel_reader_new (channel_provider_new ex_rollup_config (ex_frames False n)) ex_rollup_config"
  have "st_next (l1_reader_stage ex_codec ex_abi ex_l1 ex_da) ?r = (Err (temp Eof), channel_reader_new (ex_channels (ex_frames True n)) ex_rollup_config)"
    by (simp add: l1_reader_stage_def cr_next_def set_batch_reader_def channel_reader_new_def ex_channels_pull next_channel_def)
  moreover have "st_origin (l1_reader_stage ex_codec ex_abi ex_l1 ex_da) ?r = Some (ex_block n)"
    by (simp add: l1_reader_stage_def channel_reader_new_def l1_channel_stage_def cm_origin_def channel_provider_new_def)
  ultimately show ?thesis
    by (simp add: env_batches_def ex_env_def l1_batch_provider_def ex_stream_def stream_next_batch_def is_active_def batch_stream_new_def)
qed

definition ex_batch_queue :: "frame_queue_state channel_provider \<Rightarrow> batch_queue_state" where
  "ex_batch_queue c = (batch_queue_new ex_rollup_config (ex_stream c))\<lparr>bq_origin := Some (ex_block 5), bq_l1_blocks := [ex_block 5]\<rparr>"

lemma ex_stack: "batch_queue_stack ex_rollup_config (ex_frames d n) = batch_queue_new ex_rollup_config (ex_stream (channel_provider_new ex_rollup_config (ex_frames d n)))"
  by (simp add: batch_queue_stack_def ex_stream_def)

lemma ex_queue_dry:
  "queue_next_batch ex_l2 (env_batches ex_env) ex_safe_head (batch_queue_stack ex_rollup_config (ex_frames False 5)) =
     (Err (temp Eof), ex_batch_queue (ex_channels (ex_frames True 5)))"
proof -
  have "bp_origin (env_batches ex_env) (ex_stream (channel_provider_new ex_rollup_config (ex_frames False 5))) = Some (ex_block 5)"
    by (simp add: env_batches_def ex_env_def l1_batch_provider_def ex_stream_def batch_stream_new_def l1_reader_stage_def
        channel_reader_new_def l1_channel_stage_def cm_origin_def channel_provider_new_def)
  moreover have "rc_seq_window_size ex_rollup_config = 3" "bi_number (ex_block 5) = 5" "l2_l1_origin ex_safe_head = block_id (ex_block 5)"
    "bnh_number (block_id (ex_block 5)) = 5"
    by (simp_all add: ex_rollup_config_def ex_block_def ex_safe_head_def block_id_def)
  ultimately show ?thesis
    by (simp add: ex_stack queue_next_batch_def batch_queue_new_def queue_fresh_batch_def sync_origin_def advance_epoch_def
        origin_behind_def load_batch_data_def ex_stream_pull derive_and_unfold_def derive_next_batch_def force_empty_batch_def ex_batch_queue_def Let_def)
qed

lemma ex_queue_advance:
  "queue_advance (env_batches ex_env) (ex_batch_queue (ex_channels (ex_frames True 5))) = (Ok (), ex_batch_queue (ex_channels (ex_frames False 6)))"
  by (simp add: queue_advance_def ex_batch_queue_def batch_queue_new_def env_batches_def ex_env_def l1_batch_provider_def
      ex_stream_def batch_stream_new_def stream_advance_def l1_reader_stage_def channel_reader_new_def cr_advance_def
      l1_channel_stage_def cm_advance_def cm_forward_def cm_attempt_update_def ex_channels_def bank_advance_def channel_bank_new_def
      ex_frames_advance)

lemma ex_first_step:
  "env_step ex_env ex_safe_head ex_pipeline =
     (Ok AdvancedOrigin, pipeline_new (attributes_queue_new ex_rollup_config (ex_batch_queue (ex_channels (ex_frames False 6)))) ex_rollup_config)"
proof -
  have ex: "ex_pipeline = pipeline_new (attributes_queue_new ex_rollup_config (batch_queue_stack ex_rollup_config (ex_frames False 5))) ex_rollup_config"
    by (simp add: ex_pipeline_def build_pipeline_def frames_stack_def ex_frames_def traversal_new_def)
  have "env_l2 ex_env = ex_l2" by (simp add: ex_env_def)
  then show ?thesis
    unfolding ex
    by (simp add: ex_queue_dry ex_queue_advance env_step_def pipeline_step_def env_ops_sel pipeline_new_def next_attributes_def load_batch_def env_queue_sel
        attributes_queue_new_def attributes_advance_def)
qed

theorem pipeline_window_consecutive_witness:
  "\<exists>dp. pipeline_run {ex_env} ex_pipeline dp \<and> bq_l1_blocks (queue_of dp) = [ex_block 5]
     \<and> successively extends (bq_l1_blocks (queue_of dp))
     \<and> (bq_l1_blocks (queue_of dp) = [] \<or> bq_origin (queue_of dp) = Some (last (bq_l1_blocks (queue_of dp))))"
proof -
  let ?dp = "pipeline_new (attributes_queue_new ex_rollup_config (ex_batch_queue (ex_channels (ex_frames False 6)))) ex_rollup_config"
  have run: "pipeline_run {ex_env} ex_pipeline ?dp"
    using prun_step [OF prun_refl _ ex_first_step] by simp
  moreover have "bq_l1_blocks (queue_of ?dp) = [ex_block 5]"
    by (simp add: queue_of_def pipeline_new_def attributes_queue_new_def ex_batch_queue_def batch_queue_new_def)
  ultimately show ?thesis
    using pipeline_window_consecutive [OF run [unfolded ex_pipeline_def]] by blast
qed

theorem pipeline_step_effect_witness:
  "\<exists>dp2. env_step ex_env ex_safe_head ex_pipeline = (Ok AdvancedOrigin, dp2)
     \<and> step_effect ex_env ex_safe_head ex_pipeline AdvancedOrigin dp2"
proof -
  have "pipeline_run {ex_env} ex_pipeline ex_pipeline" by (rule prun_refl)
  from pipeline_step_effect [OF this [unfolded ex_pipeline_def] ex_first_step [unfolded ex_pipeline_def]] ex_first_step
  show ?thesis by (auto simp: ex_pipeline_def)
qed

end
