(* ===== verification/Driver.thy ===== *)
theory Driver
  imports Pipeline
begin

text \<open>
  The driver (\<^verbatim>\<open>protocol/driver\<close>): \<open>produce_payload\<close> steps the pipeline until attributes are
  prepared, \<open>advance_to_target\<close> executes them block by block, and \<open>PipelineCursor\<close> remembers the
  L2 tip of the recent L1 origins. Both loops may run forever; they take fuel here, the
  number of rounds, and end with \<open>None\<close> when it is used up. Log statements are not
  modelled, the arguments they evaluate included.
\<close>

section \<open>Ordered maps\<close>

text \<open>\<open>BTreeMap\<close> as a list sorted by its keys.\<close>

fun bt_insert :: "'k::linorder \<Rightarrow> 'v \<Rightarrow> ('k \<times> 'v) list \<Rightarrow> ('k \<times> 'v) list" where
  "bt_insert k v [] = [(k, v)]"
| "bt_insert k v ((k', v') # m) =
     (if k < k' then (k, v) # (k', v') # m else if k = k' then (k, v) # m else (k', v') # bt_insert k v m)"

definition bt_remove :: "'k::linorder \<Rightarrow> ('k \<times> 'v) list \<Rightarrow> ('k \<times> 'v) list" where
  "bt_remove k m = filter (\<lambda>(k', v). k' \<noteq> k) m"

definition bt_last :: "('k::linorder \<times> 'v) list \<Rightarrow> ('k \<times> 'v) option" where
  "bt_last m = (if m = [] then None else Some (last m))"

text \<open>\<open>range(..=k).next_back()\<close>\<close>

definition bt_floor :: "'k::linorder \<Rightarrow> ('k \<times> 'v) list \<Rightarrow> ('k \<times> 'v) option" where
  "bt_floor k m = bt_last (filter (\<lambda>(k', v). k' \<le> k) m)"

definition bt_invar :: "('k::linorder \<times> 'v) list \<Rightarrow> bool" where
  "bt_invar m \<longleftrightarrow> sorted_wrt (<) (map fst m)"

section \<open>The cursor\<close>

record l2_block_header =
  lh_block_info :: block_info
  lh_account_root :: b256
  lh_widthdraw_root :: b256

record tip_cursor =
  tc_l2_safe_head :: l2_block_info
  tc_l2_safe_head_header :: l2_block_header
  tc_l2_safe_head_output_root :: b256

record pipeline_cursor =
  pc_capacity :: usize
  pc_channel_timeout :: u64
  pc_origin :: block_info
  pc_origins :: "u64 list"
  pc_origin_infos :: "(u64, block_info) hmap"
  pc_tips :: "(u64 \<times> tip_cursor) list"

definition cursor_new :: "u64 \<Rightarrow> block_info \<Rightarrow> pipeline_cursor" where
  "cursor_new channel_timeout origin =
     \<lparr>pc_capacity = channel_timeout + 5, pc_channel_timeout = channel_timeout, pc_origin = origin,
      pc_origins = [bi_number origin], pc_origin_infos = AList.update (bi_number origin) origin [], pc_tips = []\<rparr>"

text \<open>\<open>unreachable!\<close> and \<open>expect\<close> are panics.\<close>

definition cursor_tip :: "pipeline_cursor \<Rightarrow> (tip_cursor, 'e) res" where
  "cursor_tip c = (case bt_last (pc_tips c) of Some (_, t) \<Rightarrow> Ok t | None \<Rightarrow> Panic)"

definition cursor_l2_safe_head :: "pipeline_cursor \<Rightarrow> (l2_block_info, 'e) res" where
  "cursor_l2_safe_head c = rthen (cursor_tip c) (\<lambda>t. Ok (tc_l2_safe_head t))"

definition cursor_advance :: "block_info \<Rightarrow> tip_cursor \<Rightarrow> pipeline_cursor \<Rightarrow> (unit, 'e) res \<times> pipeline_cursor" where
  "cursor_advance origin tip c =
     (let record_tip = (\<lambda>c. c\<lparr>pc_origin := origin, pc_origins := pc_origins c @ [bi_number origin],
            pc_origin_infos := AList.update (bi_number origin) origin (pc_origin_infos c),
            pc_tips := bt_insert (bi_number origin) tip (pc_tips c)\<rparr>) in
      if length (pc_tips c) \<ge> unat (pc_capacity c) then
        (case pc_origins c of
           [] \<Rightarrow> (Panic, c)
         | key # rest \<Rightarrow> (Ok (), record_tip (c\<lparr>pc_origins := rest, pc_tips := bt_remove key (pc_tips c)\<rparr>)))
      else (Ok (), record_tip c))"

definition cursor_reset :: "u64 \<Rightarrow> pipeline_cursor \<Rightarrow> (tip_cursor \<times> block_info, 'e) res" where
  "cursor_reset fork_block c =
     (let channel_start = fork_block - pc_channel_timeout c in
      case map_of (pc_tips c) channel_start of
        Some tip \<Rightarrow>
          (case map_of (pc_origin_infos c) channel_start of None \<Rightarrow> Panic | Some info \<Rightarrow> Ok (tip, info))
      | None \<Rightarrow>
          (case bt_floor channel_start (pc_tips c) of
             None \<Rightarrow> Panic
           | Some (k, tip) \<Rightarrow> (case map_of (pc_origin_infos c) k of None \<Rightarrow> Panic | Some info \<Rightarrow> Ok (tip, info))))"

section \<open>Producing a payload\<close>

record 'd driver_pipeline =
  pl_step :: "l2_block_info \<Rightarrow> 'd \<Rightarrow> step_result presult \<times> 'd"
  pl_origin :: "'d \<Rightarrow> block_info option"
  pl_signal :: "signal \<Rightarrow> 'd \<Rightarrow> unit presult \<times> 'd"
  pl_next :: "'d \<Rightarrow> attributes_with_parent option \<times> 'd"
  pl_system_config :: "u64 \<Rightarrow> system_config presult"
  pl_flush :: "'d \<Rightarrow> 'd"

text \<open>The reaction to a reset error: an activation or a reset at the current origin.\<close>

definition handle_reset ::
  "'d driver_pipeline \<Rightarrow> l2_block_info \<Rightarrow> reset_error \<Rightarrow> 'd \<Rightarrow> unit presult \<times> 'd" where
  "handle_reset P l2_safe_head e d =
     rbind (pl_system_config P (bi_number (l2_block l2_safe_head))) d (\<lambda>system_config.
     if e = HoloceneActivation then
       rbind (ok_or (pl_origin P d) (crit MissingOrigin)) d (\<lambda>l1_origin.
       pl_signal P (SigActivation \<lparr>sig_l2_safe_head = l2_safe_head, sig_l1_origin = l1_origin,
                                  sig_system_config = Some system_config\<rparr>) d)
     else
       let d1 = (case e of ReorgDetected _ _ \<Rightarrow> pl_flush P d | _ \<Rightarrow> d) in
       rbind (ok_or (pl_origin P d1) (crit MissingOrigin)) d1 (\<lambda>l1_origin.
       pl_signal P (SigReset \<lparr>sig_l2_safe_head = l2_safe_head, sig_l1_origin = l1_origin,
                             sig_system_config = Some system_config\<rparr>) d1))"

text \<open>What a round of the loop does after the step: try again at once, look for attributes, or return.\<close>

datatype 'r round = Again | LookNext | Return 'r

definition handle_error ::
  "'d driver_pipeline \<Rightarrow> l2_block_info \<Rightarrow> pipeline_error_kind \<Rightarrow> 'd \<Rightarrow> attributes_with_parent presult round \<times> 'd" where
  "handle_error P l2_safe_head e d =
     (case e of
        Temporary _ \<Rightarrow> (Again, d)
      | ResetKind x \<Rightarrow>
          (case handle_reset P l2_safe_head x d of
             (Ok _, d1) \<Rightarrow> (LookNext, d1)
           | (Err e', d1) \<Rightarrow> (Return (Err e'), d1)
           | (Panic, d1) \<Rightarrow> (Return Panic, d1))
      | Critical _ \<Rightarrow> (Return (Err e), d))"

definition after_step ::
  "'d driver_pipeline \<Rightarrow> l2_block_info \<Rightarrow> step_result \<Rightarrow> 'd \<Rightarrow> attributes_with_parent presult round \<times> 'd" where
  "after_step P l2_safe_head r d =
     (case r of
        PreparedAttributes \<Rightarrow> (LookNext, d)
      | AdvancedOrigin \<Rightarrow> (LookNext, d)
      | OriginAdvanceErr e \<Rightarrow> handle_error P l2_safe_head e d
      | StepFailed e \<Rightarrow> handle_error P l2_safe_head e d)"

fun produce_payload ::
  "'d driver_pipeline \<Rightarrow> l2_block_info \<Rightarrow> nat \<Rightarrow> 'd \<Rightarrow> (attributes_with_parent presult \<times> 'd) option" where
  "produce_payload P l2_safe_head 0 d = None"
| "produce_payload P l2_safe_head (Suc fuel) d =
     (case pl_step P l2_safe_head d of
        (Err e, d1) \<Rightarrow> Some (Err e, d1)
      | (Panic, d1) \<Rightarrow> Some (Panic, d1)
      | (Ok r, d1) \<Rightarrow>
          (case after_step P l2_safe_head r d1 of
             (Return x, d2) \<Rightarrow> Some (x, d2)
           | (Again, d2) \<Rightarrow> produce_payload P l2_safe_head fuel d2
           | (LookNext, d2) \<Rightarrow>
               (case pl_next P d2 of
                  (Some a, d3) \<Rightarrow> Some (Ok a, d3)
                | (None, d3) \<Rightarrow> produce_payload P l2_safe_head fuel d3)))"

section \<open>The driver\<close>

text \<open>The fields of the outcome of a block the driver reads, and the executor it is generic in.\<close>

record block_building_outcome =
  bo_block_info :: l2_block_info
  bo_state_root :: b256
  bo_withdraw_root :: b256

record ('x, 'e) executor =
  xo_update_safe_head :: "l2_block_header \<Rightarrow> 'x \<Rightarrow> (unit, 'e) res \<times> 'x"
  xo_execute_payload :: "payload_attributes \<Rightarrow> 'x \<Rightarrow> (block_building_outcome, 'e) res \<times> 'x"
  xo_compute_output_root :: "'x \<Rightarrow> (b256, 'e) res \<times> 'x"

datatype 'e driver_error = PipelineError pipeline_error_kind | ExecutorError 'e | RlpError string

record ('x, 'd) driver =
  dr_cursor :: pipeline_cursor
  dr_executor :: 'x
  dr_pipeline :: 'd
  dr_safe_head_artifacts :: "(block_building_outcome \<times> bytes list) option"

definition driver_new :: "pipeline_cursor \<Rightarrow> 'x \<Rightarrow> 'd \<Rightarrow> ('x, 'd) driver" where
  "driver_new cursor executor pipeline =
     \<lparr>dr_cursor = cursor, dr_executor = executor, dr_pipeline = pipeline, dr_safe_head_artifacts = None\<rparr>"

definition tip_reached :: "u64 option \<Rightarrow> tip_cursor \<Rightarrow> bool" where
  "tip_reached target tip = (case target of None \<Rightarrow> False | Some tb \<Rightarrow> tb \<le> bi_number (l2_block (tc_l2_safe_head tip)))"

text \<open>Executing the attributes on the tip; \<open>Ok False\<close> is a block that failed to execute and is derived again.\<close>

definition execute_block ::
  "('x, 'e) executor \<Rightarrow> 'd driver_pipeline \<Rightarrow> tip_cursor \<Rightarrow> payload_attributes \<Rightarrow> ('x, 'd) driver
     \<Rightarrow> (bool, 'e driver_error) res \<times> ('x, 'd) driver" where
  "execute_block X P tip attributes D =
     (let (r0, x0) = xo_update_safe_head X (tc_l2_safe_head_header tip) (dr_executor D); D0 = D\<lparr>dr_executor := x0\<rparr> in
      rbind (map_err ExecutorError r0) D0 (\<lambda>_.
      let (r1, x1) = xo_execute_payload X attributes (dr_executor D0); D1 = D0\<lparr>dr_executor := x1\<rparr> in
      case r1 of
        Err e \<Rightarrow> (Ok False, D1)
      | Panic \<Rightarrow> (Panic, D1)
      | Ok outcome \<Rightarrow>
          rbind (ok_or (pl_origin P (dr_pipeline D1)) (PipelineError (crit MissingOrigin))) D1 (\<lambda>origin.
          let (r2, x2) = xo_compute_output_root X (dr_executor D1); D2 = D1\<lparr>dr_executor := x2\<rparr> in
          rbind (map_err ExecutorError r2) D2 (\<lambda>root.
          let header = \<lparr>lh_block_info = l2_block (bo_block_info outcome), lh_account_root = bo_state_root outcome,
                        lh_widthdraw_root = bo_withdraw_root outcome\<rparr>;
              new_tip = \<lparr>tc_l2_safe_head = bo_block_info outcome, tc_l2_safe_head_header = header,
                         tc_l2_safe_head_output_root = root\<rparr>;
              (r3, cursor) = cursor_advance origin new_tip (dr_cursor D2);
              D3 = D2\<lparr>dr_cursor := cursor\<rparr> in
          rbind r3 D3 (\<lambda>_.
          (Ok True, D3\<lparr>dr_safe_head_artifacts :=
             Some (outcome, case pa_transactions attributes of None \<Rightarrow> [] | Some txs \<Rightarrow> txs)\<rparr>))))))"

fun advance_to_target ::
  "('x, 'e) executor \<Rightarrow> 'd driver_pipeline \<Rightarrow> nat \<Rightarrow> u64 option \<Rightarrow> ('x, 'd) driver
     \<Rightarrow> ((l2_block_info \<times> b256, 'e driver_error) res \<times> ('x, 'd) driver) option" where
  "advance_to_target X P 0 target D = None"
| "advance_to_target X P (Suc fuel) target D =
     (case cursor_tip (dr_cursor D) of
        Err e \<Rightarrow> Some (Err e, D)
      | Panic \<Rightarrow> Some (Panic, D)
      | Ok tip \<Rightarrow>
          if tip_reached target tip then Some (Ok (tc_l2_safe_head tip, tc_l2_safe_head_output_root tip), D)
          else
            (case produce_payload P (tc_l2_safe_head tip) fuel (dr_pipeline D) of
               None \<Rightarrow> None
             | Some (Panic, d) \<Rightarrow> Some (Panic, D\<lparr>dr_pipeline := d\<rparr>)
             | Some (Err e, d) \<Rightarrow>
                 if e = Critical EndOfSource
                 then advance_to_target X P fuel
                        (case target of None \<Rightarrow> None | Some _ \<Rightarrow> Some (bi_number (l2_block (tc_l2_safe_head tip))))
                        (D\<lparr>dr_pipeline := d\<rparr>)
                 else Some (Err (PipelineError e), D\<lparr>dr_pipeline := d\<rparr>)
             | Some (Ok a, d) \<Rightarrow>
                 (case execute_block X P tip (ap_attributes a) (D\<lparr>dr_pipeline := d\<rparr>) of
                    (Ok _, D1) \<Rightarrow> advance_to_target X P fuel target D1
                  | (Err e, D1) \<Rightarrow> Some (Err e, D1)
                  | (Panic, D1) \<Rightarrow> Some (Panic, D1))))"

text \<open>The cursor of a fresh proof run: it starts a channel timeout before the L1 origin of the safe head.\<close>

definition new_oracle_pipeline_cursor ::
  "rollup_config \<Rightarrow> l2_block_header \<Rightarrow> chain_provider \<Rightarrow> l2_chain_provider \<Rightarrow> pipeline_cursor presult" where
  "new_oracle_pipeline_cursor cfg safe_header cp F =
     rthen (l2p_l2_block_info_by_number F (bi_number (lh_block_info safe_header))) (\<lambda>safe_head_info.
     rthen (cp_block_info_by_number cp (bnh_number (l2_l1_origin safe_head_info))) (\<lambda>l1_origin.
     let timeout = rc_channel_timeout cfg;
         l1_origin_number = (if bi_number l1_origin \<ge> timeout then bi_number l1_origin - timeout else 0) in
     rthen (cp_block_info_by_number cp l1_origin_number) (\<lambda>origin.
     let (r, cursor) = cursor_advance origin
           \<lparr>tc_l2_safe_head = safe_head_info, tc_l2_safe_head_header = safe_header, tc_l2_safe_head_output_root = zero_hash\<rparr>
           (cursor_new timeout origin) in
     rthen r (\<lambda>_. Ok cursor))))"

section \<open>The contract of ordered maps\<close>

locale ordered_map =
  fixes get :: "'m \<Rightarrow> 'k::linorder \<Rightarrow> 'v option"
    and ins :: "'k \<Rightarrow> 'v \<Rightarrow> 'm \<Rightarrow> 'm"
    and rem :: "'k \<Rightarrow> 'm \<Rightarrow> 'm"
    and floor_entry :: "'k \<Rightarrow> 'm \<Rightarrow> ('k \<times> 'v) option"
    and last_entry :: "'m \<Rightarrow> ('k \<times> 'v) option"
    and invar :: "'m \<Rightarrow> bool"
  assumes get_ins: "invar m \<Longrightarrow> get (ins k v m) = (get m)(k \<mapsto> v)"
    and get_rem: "invar m \<Longrightarrow> get (rem k m) = (get m)(k := None)"
    and invar_ins: "invar m \<Longrightarrow> invar (ins k v m)"
    and invar_rem: "invar m \<Longrightarrow> invar (rem k m)"
    and floor_iff: "invar m \<Longrightarrow> floor_entry k m = Some (j, v) \<longleftrightarrow>
           get m j = Some v \<and> j \<le> k \<and> (\<forall>i \<in> dom (get m). i \<le> k \<longrightarrow> i \<le> j)"
    and floor_None: "invar m \<Longrightarrow> floor_entry k m = None \<longleftrightarrow> (\<forall>i \<in> dom (get m). k < i)"
    and last_iff: "invar m \<Longrightarrow> last_entry m = Some (j, v) \<longleftrightarrow> get m j = Some v \<and> (\<forall>i \<in> dom (get m). i \<le> j)"
    and last_None: "invar m \<Longrightarrow> last_entry m = None \<longleftrightarrow> dom (get m) = {}"
begin

lemma floor_exists:
  assumes "invar m" and "i \<in> dom (get m)" and "i \<le> k"
  obtains j v where "floor_entry k m = Some (j, v)"
  using assms floor_None [OF assms(1), of k] by (cases "floor_entry k m") (auto dest!: bspec [OF _ assms(2)])

lemma floor_present: "\<lbrakk> invar m; get m k = Some v \<rbrakk> \<Longrightarrow> floor_entry k m = Some (k, v)"
  by (auto simp: floor_iff)

lemma last_ins: "\<lbrakk> invar m; \<And>i. i \<in> dom (get m) \<Longrightarrow> i \<le> k \<rbrakk> \<Longrightarrow> last_entry (ins k v m) = Some (k, v)"
  by (auto simp: last_iff invar_ins get_ins)

end

lemma set_bt_insert: "fst ` set (bt_insert k v m) = insert k (fst ` set m)"
  by (induction k v m rule: bt_insert.induct) auto

lemma bt_invar_Cons: "bt_invar ((k, v) # m) \<longleftrightarrow> (\<forall>j \<in> fst ` set m. k < j) \<and> bt_invar m"
  by (auto simp: bt_invar_def)

lemma bt_invar_insert: "bt_invar m \<Longrightarrow> bt_invar (bt_insert k v m)"
  by (induction k v m rule: bt_insert.induct) (auto simp: bt_invar_Cons set_bt_insert simp del: image_insert)

lemma bt_get_insert: "bt_invar m \<Longrightarrow> map_of (bt_insert k v m) = (map_of m)(k \<mapsto> v)"
  by (induction k v m rule: bt_insert.induct) (auto simp: bt_invar_Cons fun_eq_iff)

lemma bt_invar_filter: "bt_invar m \<Longrightarrow> bt_invar (filter P m)"
  by (induction m) (auto simp: bt_invar_Cons)

lemma bt_distinct: "bt_invar m \<Longrightarrow> distinct (map fst m)"
  by (auto simp: bt_invar_def strict_sorted_iff)

lemma bt_dom: "dom (map_of m) = fst ` set m"
  by (rule dom_map_of_conv_image_fst)

lemma bt_last_iff:
  assumes "bt_invar m"
  shows "bt_last m = Some (j, v) \<longleftrightarrow> (j, v) \<in> set m \<and> (\<forall>i \<in> fst ` set m. i \<le> j)"
proof (cases m rule: rev_cases)
  case (snoc m' p)
  then have p: "\<forall>i \<in> fst ` set m'. i < fst p"
    using assms by (auto simp: bt_invar_def sorted_wrt_append)
  with snoc show ?thesis by (cases p) (fastforce simp: bt_last_def)
qed (simp add: bt_last_def)

lemma bt_in_set: "bt_invar m \<Longrightarrow> (j, v) \<in> set m \<longleftrightarrow> map_of m j = Some v"
  using bt_distinct [of m] by (simp add: map_of_eq_Some_iff)

interpretation bt: ordered_map map_of bt_insert bt_remove bt_floor bt_last bt_invar
proof
  fix m :: "('k::linorder \<times> 'v) list" and k j :: 'k and v :: 'v
  assume inv: "bt_invar m"
  show "map_of (bt_insert k v m) = (map_of m)(k \<mapsto> v)" by (rule bt_get_insert [OF inv])
  show "map_of (bt_remove k m) = (map_of m)(k := None)"
    using hm_get_filter [of m "\<lambda>k'. k' \<noteq> k"] bt_distinct [OF inv] by (auto simp: bt_remove_def hm_invar_def fun_eq_iff)
  show "bt_invar (bt_insert k v m)" by (rule bt_invar_insert [OF inv])
  show "bt_invar (bt_remove k m)" unfolding bt_remove_def by (rule bt_invar_filter [OF inv])
  show "bt_last m = Some (j, v) \<longleftrightarrow> map_of m j = Some v \<and> (\<forall>i \<in> dom (map_of m). i \<le> j)"
    using bt_last_iff [OF inv] bt_in_set [OF inv] by (simp add: bt_dom)
  show "bt_last m = None \<longleftrightarrow> dom (map_of m) = {}" by (simp add: bt_last_def bt_dom)
  show "bt_floor k m = Some (j, v) \<longleftrightarrow>
      map_of m j = Some v \<and> j \<le> k \<and> (\<forall>i \<in> dom (map_of m). i \<le> k \<longrightarrow> i \<le> j)"
    unfolding bt_floor_def bt_last_iff [OF bt_invar_filter [OF inv]] bt_in_set [OF inv, symmetric] bt_dom by auto
  show "bt_floor k m = None \<longleftrightarrow> (\<forall>i \<in> dom (map_of m). k < i)"
    by (simp add: bt_floor_def bt_last_def bt_dom filter_empty_conv not_le split_beta)
qed

section \<open>The cursor keeps its books\<close>

text \<open>Every tip has its L1 origin on record, under the number of that block.\<close>

definition cursor_inv :: "pipeline_cursor \<Rightarrow> bool" where
  "cursor_inv c \<longleftrightarrow>
     bt_invar (pc_tips c) \<and> pc_origins c \<noteq> []
   \<and> (\<forall>k \<in> dom (map_of (pc_tips c)). \<exists>info. map_of (pc_origin_infos c) k = Some info \<and> bi_number info = k)"

lemma cursor_inv_new: "cursor_inv (cursor_new timeout origin)"
  by (simp add: cursor_inv_def cursor_new_def bt_invar_def)

lemma cursor_advance_inv:
  assumes "cursor_inv c"
  obtains c' where "cursor_advance origin tip c = (Ok (), c')" "cursor_inv c'"
    "map_of (pc_tips c') (bi_number origin) = Some tip" "pc_channel_timeout c' = pc_channel_timeout c"
proof -
  from assms obtain k ks where o: "pc_origins c = k # ks" and bt: "bt_invar (pc_tips c)"
    by (cases "pc_origins c") (auto simp: cursor_inv_def)
  have inv: "bt_invar (bt_insert (bi_number origin) tip (pc_tips c))"
    "bt_invar (bt_insert (bi_number origin) tip (bt_remove k (pc_tips c)))"
    using bt by (simp_all add: bt.invar_ins bt.invar_rem)
  show ?thesis
    using assms o inv bt that
    by (cases "length (pc_tips c) \<ge> unat (pc_capacity c)")
       (auto simp: cursor_advance_def Let_def cursor_inv_def bt.get_ins bt.get_rem bt.invar_rem update_conv')
qed

text \<open>A cursor with its history.\<close>

inductive cursor_reach :: "u64 \<Rightarrow> pipeline_cursor \<Rightarrow> bool" for timeout where
  creach_new: "cursor_reach timeout (cursor_new timeout origin)"
| creach_advance: "\<lbrakk> cursor_reach timeout c; cursor_advance origin tip c = (Ok () :: (unit, unit) res, c') \<rbrakk> \<Longrightarrow> cursor_reach timeout c'"

lemma cursor_reach_inv: "cursor_reach timeout c \<Longrightarrow> cursor_inv c \<and> pc_channel_timeout c = timeout"
proof (induction rule: cursor_reach.induct)
  case (creach_new origin)
  then show ?case by (simp add: cursor_inv_new) (simp add: cursor_new_def)
next
  case (creach_advance c origin tip c')
  then show ?case using cursor_advance_inv [of c origin tip] by (metis prod.inject)
qed

lemma cursor_reset_floor:
  assumes "cursor_inv c" and "k \<in> dom (map_of (pc_tips c))" and "k \<le> fork - pc_channel_timeout c"
  shows "\<exists>tip info. cursor_reset fork c = Ok (tip, info)
     \<and> bt_floor (fork - pc_channel_timeout c) (pc_tips c) = Some (bi_number info, tip)"
proof -
  have bt: "bt_invar (pc_tips c)" using assms(1) by (simp add: cursor_inv_def)
  obtain j tip where f: "bt_floor (fork - pc_channel_timeout c) (pc_tips c) = Some (j, tip)"
    using bt.floor_exists [OF bt assms(2,3)] .
  then have j: "map_of (pc_tips c) j = Some tip" by (simp add: bt.floor_iff [OF bt])
  then obtain info where i: "map_of (pc_origin_infos c) j = Some info" "bi_number info = j"
    using assms(1) by (auto simp: cursor_inv_def)
  show ?thesis
  proof (cases "map_of (pc_tips c) (fork - pc_channel_timeout c)")
    case None
    with f i show ?thesis by (simp add: cursor_reset_def Let_def)
  next
    case (Some t)
    with bt.floor_present [OF bt Some] f have "j = fork - pc_channel_timeout c" "t = tip" by auto
    with Some f i show ?thesis by (simp add: cursor_reset_def Let_def)
  qed
qed

section \<open>Producing payloads\<close>

lemma produce_payload_fuel:
  "produce_payload P head n d = Some r \<Longrightarrow> produce_payload P head (n + k) d = Some r"
proof (induction n arbitrary: d)
  case (Suc n)
  then show ?case
    by (auto split: prod.splits res.splits round.splits option.splits)
qed simp

text \<open>
  The pipeline of a proof run as the driver's pipeline. The cache that a flush clears
  belongs to the oracle behind the providers and not to the state.
\<close>

definition oracle_driver :: "'tx environment \<Rightarrow> pipeline_state driver_pipeline" where
  "oracle_driver V =
     \<lparr>pl_step = env_step V, pl_origin = (\<lambda>dp. pipeline_origin (env_ops (dp_rollup_config dp) V) dp), pl_signal = env_signal V,
      pl_next = pipeline_next, pl_system_config = pipeline_system_config_by_number (env_l2 V), pl_flush = (\<lambda>dp. dp)\<rparr>"

lemma oracle_driver_sel [simp]:
  "pl_step (oracle_driver V) = env_step V"
  "pl_origin (oracle_driver V) dp = state_origin (queue_of dp)"
  "pl_signal (oracle_driver V) = env_signal V"
  "pl_next (oracle_driver V) = pipeline_next"
  "pl_flush (oracle_driver V) dp = dp"
  by (simp_all add: oracle_driver_def pipeline_origin_def env_ops_sel queue_of_def)

lemma env_step_config: "env_step V head dp = (r, dp2) \<Longrightarrow> dp_rollup_config dp2 = dp_rollup_config dp"
  by (auto simp: env_step_def pipeline_step_def Let_def split: prod.split_asm res.split_asm if_split_asm)

lemma env_step_prepared:
  "env_step V head dp = (Ok r, dp2) \<Longrightarrow>
     (if r = PreparedAttributes then \<exists>a. dp_prepared dp2 = dp_prepared dp @ [a] else dp_prepared dp2 = dp_prepared dp)"
  by (auto simp: env_step_def pipeline_step_def Let_def split: prod.split_asm res.split_asm if_split_asm)

lemma pipeline_restart_keeps:
  "dp_prepared (snd (pipeline_restart F perr N x sg dp)) = dp_prepared dp
   \<and> dp_rollup_config (snd (pipeline_restart F perr N x sg dp)) = dp_rollup_config dp"
  by (auto simp: pipeline_restart_def Let_def split: rbind_split prod.split res.split)

lemma env_signal_keeps:
  "dp_prepared (snd (env_signal V sg dp)) = dp_prepared dp \<and> dp_rollup_config (snd (env_signal V sg dp)) = dp_rollup_config dp"
  by (cases sg) (auto simp: env_signal_def pipeline_restart_keeps Let_def split: rbind_split prod.split)

text \<open>The reaction to an error keeps the prepared attributes and is itself an event of the pipeline.\<close>

lemma handle_reset_run:
  assumes "handle_reset (oracle_driver V) head e dp = (Ok (), dp2)" and "pipeline_run {V} dp0 dp"
  shows "pipeline_run {V} dp0 dp2 \<and> dp_prepared dp2 = dp_prepared dp \<and> dp_rollup_config dp2 = dp_rollup_config dp"
proof -
  from assms(1) obtain sg where s: "env_signal V sg dp = (Ok (), dp2)"
    and act: "\<And>x. sg = SigActivation x \<Longrightarrow> state_origin (queue_of dp) = Some (sig_l1_origin x)"
  proof (cases "e = HoloceneActivation")
    case True
    with assms(1) obtain sc l1 where o: "state_origin (queue_of dp) = Some l1"
      and sg: "env_signal V (SigActivation \<lparr>sig_l2_safe_head = head, sig_l1_origin = l1, sig_system_config = Some sc\<rparr>) dp = (Ok (), dp2)"
      by (auto simp: handle_reset_def Let_def res_simps)
    show ?thesis by (rule that [OF sg]) (use o in auto)
  next
    case False
    with assms(1) obtain sc l1 where
      sg: "env_signal V (SigReset \<lparr>sig_l2_safe_head = head, sig_l1_origin = l1, sig_system_config = Some sc\<rparr>) dp = (Ok (), dp2)"
      by (auto simp: handle_reset_def Let_def res_simps split: reset_error.split_asm)
    show ?thesis by (rule that [OF sg]) simp
  qed
  from prun_signal [OF assms(2) _ s _ act] s env_signal_keeps [of V sg dp] show ?thesis by auto
qed

lemma after_step_run:
  assumes "after_step (oracle_driver V) head r dp = (x, dp2)" and "x = Again \<or> x = LookNext" and "pipeline_run {V} dp0 dp"
  shows "pipeline_run {V} dp0 dp2 \<and> dp_prepared dp2 = dp_prepared dp \<and> dp_rollup_config dp2 = dp_rollup_config dp"
  using assms handle_reset_run [of V head _ dp dp2 dp0]
  by (auto simp: after_step_def handle_error_def split: step_result.split_asm pipeline_error_kind.split_asm prod.split_asm res.split_asm)

lemma produce_payload_Ok:
  assumes "produce_payload (oracle_driver V) head n dp = Some (Ok a, dp2)"
    and "pipeline_run {V} dp0 dp" and "bq_inv (queue_of dp0)" and "dp_prepared dp = []" and "aq_batch (dp_attributes dp0) = None"
  shows "(\<exists>sb. delivered {V} dp0 dp2 sb \<and> attributes_from (env_builder (dp_rollup_config dp) V) head sb a)
    \<and> dp_prepared dp2 = [] \<and> pipeline_run {V} dp0 dp2"
  using assms
proof (induction n arbitrary: dp)
  case (Suc n)
  obtain r1 dp1 where st: "env_step V head dp = (r1, dp1)" by fastforce
  with Suc.prems(1) obtain r where r: "r1 = Ok r" by (cases r1) auto
  have inv: "stream_inv (bq_prev (queue_of dp))"
    using pipeline_run_queue [OF Suc.prems(2,3)] queue_run_inv [OF _ Suc.prems(3)] by (auto simp: bq_inv_def)
  have run1: "pipeline_run {V} dp0 dp1" using prun_step [OF Suc.prems(2)] st r by simp
  have eff: "step_effect V head dp r dp1" using env_step_effect st r inv by blast
  obtain x dp3 where af: "after_step (oracle_driver V) head r dp1 = (x, dp3)" by fastforce
  have keep: "x = Again \<or> x = LookNext"
    using Suc.prems(1) st r af by (cases x) (auto simp: after_step_def handle_error_def
        split: step_result.split_asm pipeline_error_kind.split_asm prod.split_asm res.split_asm)
  note k = after_step_run [OF af keep run1]
  have cfg: "dp_rollup_config dp1 = dp_rollup_config dp" using env_step_config [OF st] .
  show ?case
  proof (cases "r = PreparedAttributes")
    case True
    with eff Suc.prems(4) obtain b sb where b: "dp_prepared dp1 = [b]" "step_batch V head dp sb"
        "attributes_from (env_builder (dp_rollup_config dp) V) head sb b"
      by (auto simp: step_effect_def)
    have d: "delivered {V} dp0 dp1 sb"
      using step_delivers [OF Suc.prems(2) _ _ b(2)] buffered_was_delivered [OF Suc.prems(2,5)] st r by simp
    have "x = LookNext" "dp3 = dp1" using af True by (auto simp: after_step_def)
    moreover have nx: "pipeline_next dp1 = (Some b, dp1\<lparr>dp_prepared := []\<rparr>)" using b by (simp add: pipeline_next_def)
    moreover have "delivered {V} dp0 (dp1\<lparr>dp_prepared := []\<rparr>) sb" by (rule delivered_later [OF d prun_next [OF prun_refl nx]])
    ultimately show ?thesis
      using Suc.prems(1) st r af b prun_next [OF run1 nx] by auto
  next
    case False
    then have "dp_prepared dp1 = []" using env_step_prepared [of V head dp r dp1] st r Suc.prems(4) by simp
    then have p3: "dp_prepared dp3 = []" using k by simp
    then have "pipeline_next dp3 = (None, dp3)" by (simp add: pipeline_next_def)
    then have "produce_payload (oracle_driver V) head n dp3 = Some (Ok a, dp2)"
      using Suc.prems(1) st r af keep by auto
    from Suc.IH [OF this _ Suc.prems(3) p3 Suc.prems(5)] k cfg show ?thesis by simp
  qed
qed simp

section \<open>Rounds that end\<close>

text \<open>Results of a step on which the loop goes on without a signal.\<close>

fun idle :: "step_result \<Rightarrow> bool" where
  "idle AdvancedOrigin = True"
| "idle (OriginAdvanceErr (Temporary e)) = True"
| "idle (StepFailed (Temporary e)) = True"
| "idle _ = False"

lemma idle_after_step: "idle r \<Longrightarrow> \<exists>x. after_step P head r d = (x, d) \<and> (x = Again \<or> x = LookNext)"
  by (cases r rule: idle.cases) (simp_all add: after_step_def handle_error_def)

lemma produce_payload_idle:
  assumes "env_step V head dp = (Ok r, dp1)" and "idle r" and "dp_prepared dp = []"
  shows "produce_payload (oracle_driver V) head (Suc n) dp = produce_payload (oracle_driver V) head n dp1 \<and> dp_prepared dp1 = []"
proof -
  have "r \<noteq> PreparedAttributes" using assms(2) by auto
  then have "dp_prepared dp1 = []" using env_step_prepared [OF assms(1)] assms(3) by simp
  moreover from this have "pipeline_next dp1 = (None, dp1)" by (simp add: pipeline_next_def)
  moreover obtain x where "after_step (oracle_driver V) head r dp1 = (x, dp1)" "x = Again \<or> x = LookNext"
    using idle_after_step [OF assms(2), of "oracle_driver V" head dp1] by auto
  ultimately show ?thesis using assms(1) by (elim disjE) simp_all
qed

lemma produce_payload_prepared:
  assumes "env_step V head dp = (Ok PreparedAttributes, dp1)" and "dp_prepared dp = []"
  shows "\<exists>a. produce_payload (oracle_driver V) head (Suc n) dp = Some (Ok a, dp1\<lparr>dp_prepared := []\<rparr>)"
  using assms env_step_prepared [OF assms(1)] by (auto simp: after_step_def pipeline_next_def)

lemma produce_payload_pulls:
  assumes "pulls (Suc (length rs)) (env_step V head) dp = map Ok rs @ [Ok PreparedAttributes]"
    and "list_all idle rs" and "dp_prepared dp = []"
  shows "\<exists>a dp2. produce_payload (oracle_driver V) head (Suc (length rs)) dp = Some (Ok a, dp2)"
  using assms
proof (induction rs arbitrary: dp)
  case Nil
  then obtain dp1 where "env_step V head dp = (Ok PreparedAttributes, dp1)" by (cases "env_step V head dp") simp
  from produce_payload_prepared [OF this Nil.prems(3), of 0] show ?case by (metis list.size(3))
next
  case (Cons r rs)
  then obtain dp1 where st: "env_step V head dp = (Ok r, dp1)" by (cases "env_step V head dp") auto
  from produce_payload_idle [OF this _ Cons.prems(3), of "Suc (length rs)"] Cons.prems(2)
  have "produce_payload (oracle_driver V) head (Suc (length (r # rs))) dp = produce_payload (oracle_driver V) head (Suc (length rs)) dp1"
    and "dp_prepared dp1 = []" by simp_all
  with Cons.IH [of dp1] Cons.prems(1,2) st show ?case by simp
qed

text \<open>A run of the driver that ends well has a target, and ends there or where the L1 data ends.\<close>

definition halted_at :: "'d driver_pipeline \<Rightarrow> l2_block_info \<Rightarrow> 'd \<Rightarrow> bool" where
  "halted_at P head d \<longleftrightarrow> (\<exists>n d0. produce_payload P head n d0 = Some (Err (Critical EndOfSource), d))"

lemma advance_at_tip:
  fixes X :: "('x, 'e) executor"
  assumes "advance_to_target X P n (Some (bi_number (l2_block (tc_l2_safe_head tip)))) D = Some (Ok r, D2)"
    and "cursor_tip (dr_cursor D) = (Ok tip :: (tip_cursor, 'e driver_error) res)"
  shows "r = (tc_l2_safe_head tip, tc_l2_safe_head_output_root tip) \<and> D2 = (D :: ('x, 'd) driver)"
  using assms by (cases n) (simp_all add: tip_reached_def)

lemma advance_to_target_Ok:
  fixes X :: "('x, 'e) executor"
  assumes "advance_to_target X P n target D = Some (Ok (head, root), D2)"
  shows "\<exists>tb tip. target = Some tb \<and> cursor_tip (dr_cursor D2) = (Ok tip :: (tip_cursor, 'e driver_error) res)
     \<and> head = tc_l2_safe_head tip \<and> root = tc_l2_safe_head_output_root tip
     \<and> (tb \<le> bi_number (l2_block head) \<or> halted_at P head (dr_pipeline D2))"
  using assms
proof (induction n arbitrary: target D)
  case (Suc n)
  obtain tip where tip: "cursor_tip (dr_cursor D) = (Ok tip :: (tip_cursor, 'e driver_error) res)"
    using Suc.prems by (cases "cursor_tip (dr_cursor D) :: (tip_cursor, 'e driver_error) res") auto
  show ?case
  proof (cases "tip_reached target tip")
    case True
    with Suc.prems tip show ?thesis by (auto simp: tip_reached_def split: option.split_asm)
  next
    case False
    with Suc.prems tip obtain r d where pp: "produce_payload P (tc_l2_safe_head tip) n (dr_pipeline D) = Some (r, d)"
      by (auto split: option.split_asm)
    show ?thesis
    proof (cases r)
      case (Ok a)
      with Suc.prems tip False pp obtain b D1 where
        "execute_block X P tip (ap_attributes a) (D\<lparr>dr_pipeline := d\<rparr>) = (Ok b, D1)"
        "advance_to_target X P n target D1 = Some (Ok (head, root), D2)"
        by (auto split: prod.split_asm res.split_asm)
      from Suc.IH [OF this(2)] show ?thesis .
    next
      case (Err e)
      have e: "e = Critical EndOfSource" using Suc.prems tip False pp Err by (auto split: if_split_asm)
      let ?D = "D\<lparr>dr_pipeline := d\<rparr>"
      have rec: "advance_to_target X P n (map_option (\<lambda>_. bi_number (l2_block (tc_l2_safe_head tip))) target) ?D = Some (Ok (head, root), D2)"
        using Suc.prems tip False pp Err e by (cases target) simp_all
      from Suc.IH [OF this] obtain tb where t: "target = Some tb" by auto
      have "(head, root) = (tc_l2_safe_head tip, tc_l2_safe_head_output_root tip) \<and> D2 = ?D"
        using rec t tip by (intro advance_at_tip [where X = X and P = P and n = n]) simp_all
      with t tip pp Err e show ?thesis by (auto simp: halted_at_def)
    next
      case Panic
      with Suc.prems tip False pp show ?thesis by simp
    qed
  qed
qed simp

section \<open>Properties\<close>

text \<open>
  C6: \<open>produce_payload\<close> on a built pipeline of a proof run, whatever happened before: the attributes it
  returns are for the given safe head, and they are the builder's template for the epoch of a batch with
  the transactions of that batch, unchanged, behind its own. The batch names the hash of the safe head
  as its parent's, and the batch queue handed it out to the pipeline in this run. No prepared attributes
  are left behind.
\<close>

theorem produce_payload_delivers:
  assumes "produce_payload (oracle_driver V) head n dp = Some (Ok a, dp2)"
    and "pipeline_run {V} (build_pipeline cfg sc origin dap) dp" and "dp_prepared dp = []"
  shows "(\<exists>sb t txs. delivered {V} (build_pipeline cfg sc origin dap) dp2 sb \<and> sb_parent_hash sb = bi_hash (l2_block head)
      \<and> prepare_payload_attributes (env_builder (dp_rollup_config dp) V) head (sb_epoch sb) = Ok t \<and> pa_transactions t = Some txs
      \<and> ap_parent a = head \<and> ap_attributes a = t\<lparr>pa_no_tx_pool := Some True, pa_transactions := Some (txs @ sb_transactions sb)\<rparr>)
    \<and> dp_prepared dp2 = []"
proof -
  have "aq_batch (dp_attributes (build_pipeline cfg sc origin dap)) = None"
    by (simp add: build_pipeline_def pipeline_new_def attributes_queue_new_def)
  from produce_payload_Ok [OF assms(1,2) build_pipeline_inv assms(3) this] show ?thesis unfolding attributes_from_def by blast
qed

text \<open>
  C23: \<open>produce_payload\<close> returns: when the pipeline prepares attributes after finitely many steps
  that advance the L1 origin or end in a temporary error, the loop returns attributes in as many
  rounds, and more fuel does not change its answer.
\<close>

theorem produce_payload_returns:
  assumes "pulls (Suc (length rs)) (env_step V head) dp = map Ok rs @ [Ok PreparedAttributes]"
    and "list_all idle rs" and "dp_prepared dp = []"
  shows "\<exists>a dp2. \<forall>k. produce_payload (oracle_driver V) head (Suc (length rs) + k) dp = Some (Ok a, dp2)"
proof -
  from produce_payload_pulls [OF assms] obtain a dp2 where
    "produce_payload (oracle_driver V) head (Suc (length rs)) dp = Some (Ok a, dp2)" by blast
  from produce_payload_fuel [OF this] show ?thesis by blast
qed

text \<open>
  C24: a run of the driver that ends well had a target, returns the tip of its cursor with the
  output root recorded there, and stopped because the tip reached the target or because the
  pipeline found the end of the L1 data at this tip. Without a target it never ends well.
\<close>

theorem advance_to_target_sound:
  fixes X :: "('x, 'e) executor"
  assumes "advance_to_target X P n target D = Some (Ok (head, root), D2)"
  shows "\<exists>tb tip. target = Some tb \<and> cursor_tip (dr_cursor D2) = (Ok tip :: (tip_cursor, 'e driver_error) res)
     \<and> head = tc_l2_safe_head tip \<and> root = tc_l2_safe_head_output_root tip
     \<and> (tb \<le> bi_number (l2_block head) \<or> halted_at P head (dr_pipeline D2))"
  by (rule advance_to_target_Ok [OF assms])

text \<open>
  A cursor with any history resets to the recorded tip of the greatest L1 origin that is not
  above the fork block less the channel timeout, and returns that origin's block with it; it
  panics exactly when there is no such origin.
\<close>

theorem cursor_reset_sound:
  assumes "cursor_reach timeout c"
  shows "case (cursor_reset fork c :: (tip_cursor \<times> block_info, unit) res) of
       Ok (tip, info) \<Rightarrow> map_of (pc_tips c) (bi_number info) = Some tip \<and> bi_number info \<le> fork - timeout
         \<and> {i \<in> dom (map_of (pc_tips c)). bi_number info < i \<and> i \<le> fork - timeout} = {}
     | Err e \<Rightarrow> False
     | Panic \<Rightarrow> {i \<in> dom (map_of (pc_tips c)). i \<le> fork - timeout} = {}"
proof -
  from cursor_reach_inv [OF assms] have inv: "cursor_inv c" "pc_channel_timeout c = timeout" by simp_all
  then have bt: "bt_invar (pc_tips c)" by (simp add: cursor_inv_def)
  show ?thesis
  proof (cases "\<exists>k \<in> dom (map_of (pc_tips c)). k \<le> fork - timeout")
    case True
    then obtain k where "k \<in> dom (map_of (pc_tips c))" "k \<le> fork - timeout" by blast
    with cursor_reset_floor [OF inv(1), of k fork] inv(2) obtain tip info where
      "cursor_reset fork c = (Ok (tip, info) :: (tip_cursor \<times> block_info, unit) res)"
      "bt_floor (fork - timeout) (pc_tips c) = Some (bi_number info, tip)"
      by blast
    then show ?thesis by (fastforce simp: bt.floor_iff [OF bt])
  next
    case False
    then have "bt_floor (fork - timeout) (pc_tips c) = None" "map_of (pc_tips c) (fork - timeout) = None"
      by (auto simp: bt.floor_None [OF bt] not_le)
    with False inv(2) show ?thesis by (auto simp: cursor_reset_def)
  qed
qed

text \<open>
  After an advance, the tip of the cursor is the block of the greatest L1 origin on record;
  it is the block just recorded exactly when no recorded origin is above its own. After a reset
  that went back to an older origin the driver therefore goes on from the old tip.
\<close>

theorem cursor_tip_after_advance:
  assumes "cursor_reach timeout c" and "cursor_advance origin tip c = (Ok () :: (unit, unit) res, c')"
  shows "\<exists>j t. cursor_tip c' = (Ok t :: (tip_cursor, unit) res) \<and> map_of (pc_tips c') j = Some t
     \<and> Max (dom (map_of (pc_tips c'))) = j \<and> (j = bi_number origin \<and> t = tip \<or> bi_number origin < j)"
proof -
  from cursor_reach_inv [OF assms(1)] have "cursor_inv c" by simp
  from cursor_advance_inv [OF this, of origin tip] assms(2) have inv: "cursor_inv c'"
    and new: "map_of (pc_tips c') (bi_number origin) = Some tip" by (metis prod.inject)+
  then have bt: "bt_invar (pc_tips c')" by (simp add: cursor_inv_def)
  with new obtain j t where l: "bt_last (pc_tips c') = Some (j, t)"
    by (cases "bt_last (pc_tips c')") (auto simp: bt.last_None)
  then have g: "map_of (pc_tips c') j = Some t" and le: "\<And>i. i \<in> dom (map_of (pc_tips c')) \<Longrightarrow> i \<le> j"
    by (auto simp: bt.last_iff [OF bt])
  then have "Max (dom (map_of (pc_tips c'))) = j" by (intro Max_eqI) (auto simp: finite_dom_map_of)
  moreover have "bi_number origin \<le> j" using new le by blast
  ultimately show ?thesis using l g new by (cases "bi_number origin = j") (auto simp: cursor_tip_def)
qed

text \<open>
  The cursor keeps more tips than its capacity once an L1 origin has carried several L2
  blocks: each advance queues the origin's number again, so that a later eviction removes a key
  that is gone already.
\<close>

definition cursor_after :: "u64 list \<Rightarrow> u64 \<Rightarrow> tip_cursor \<Rightarrow> pipeline_cursor" where
  "cursor_after ns timeout tip = fold (\<lambda>n c. snd (cursor_advance (default_block_info\<lparr>bi_number := n\<rparr>) tip c :: (unit, unit) res \<times> pipeline_cursor))
     ns (cursor_new timeout (default_block_info\<lparr>bi_number := hd ns\<rparr>))"

theorem cursor_exceeds_capacity:
  "map fst (pc_tips (cursor_after [1, 1, 2, 3, 4, 5, 6, 7] 0 tip)) = [2, 3, 4, 5, 6, 7]
   \<and> pc_capacity (cursor_after [1, 1, 2, 3, 4, 5, 6, 7] 0 tip) = 5"
  by (simp add: cursor_after_def cursor_advance_def cursor_new_def bt_remove_def)

subsection \<open>Examples\<close>

text \<open>A run on empty L1 blocks: the origin advances until the sequencing window of the head's epoch is over.\<close>

definition ex_queue_at :: "nat \<Rightarrow> bool \<Rightarrow> batch_queue_state" where
  "ex_queue_at n d = (batch_queue_new ex_rollup_config (ex_stream (ex_channels (ex_frames d n))))
     \<lparr>bq_origin := Some (ex_block (if d then n else n - 1)), bq_l1_blocks := map ex_block [5..<(if d then Suc n else n)]\<rparr>"

definition ex_pipeline_at :: "nat \<Rightarrow> pipeline_state" where
  "ex_pipeline_at n = pipeline_new (attributes_queue_new ex_rollup_config (ex_queue_at n False)) ex_rollup_config"

lemma ex_bank_pull:
  "st_next (l1_channel_stage ex_abi ex_l1 ex_da) (ex_channels (ex_frames False n)) = (Err (temp Eof), ex_channels (ex_frames True n))"
  by (simp add: l1_channel_stage_def ex_channels_def cm_next_data_def cm_forward_def cm_attempt_update_def
      channel_bank_new_def bank_next_data_def bank_read_def ex_frames_pull)

lemma ex_reader_pull:
  "bp_next_batch (env_batches ex_env) parent l1 (ex_stream (ex_channels (ex_frames False n))) = (Err (temp Eof), ex_stream (ex_channels (ex_frames True n)))"
proof -
  let ?r = "channel_reader_new (ex_channels (ex_frames False n)) ex_rollup_config"
  have "st_next (l1_reader_stage ex_codec ex_abi ex_l1 ex_da) ?r = (Err (temp Eof), channel_reader_new (ex_channels (ex_frames True n)) ex_rollup_config)"
    by (simp add: l1_reader_stage_def cr_next_def set_batch_reader_def channel_reader_new_def ex_bank_pull next_channel_def)
  moreover have "st_origin (l1_reader_stage ex_codec ex_abi ex_l1 ex_da) ?r = Some (ex_block n)"
    by (simp add: l1_reader_stage_def channel_reader_new_def l1_channel_stage_def cm_origin_def ex_channels_def channel_bank_new_def)
  ultimately show ?thesis
    by (simp add: env_batches_def ex_env_def l1_batch_provider_def ex_stream_def stream_next_batch_def is_active_def batch_stream_new_def)
qed

lemma ex_reader_origin: "bp_origin (env_batches ex_env) (ex_stream (ex_channels (ex_frames d n))) = Some (ex_block n)"
  by (simp add: env_batches_def ex_env_def l1_batch_provider_def ex_stream_def batch_stream_new_def l1_reader_stage_def
      channel_reader_new_def l1_channel_stage_def cm_origin_def ex_channels_def channel_bank_new_def)

lemma ex_block_less: "\<lbrakk> m < 100; n < 100 \<rbrakk> \<Longrightarrow> ex_block m = ex_block n \<longleftrightarrow> m = n"
  by (auto simp: ex_block_def word_of_nat_eq_iff take_bit_nat_eq_self)

lemma ex_queue_pull_at:
  assumes "n \<in> {6, 7, 8}"
  shows "queue_next_batch ex_l2 (env_batches ex_env) ex_safe_head (ex_queue_at n False) =
     (if n = 8 then Ok \<lparr>sb_parent_hash = [7], sb_epoch_num = 5, sb_epoch_hash = bi_hash (ex_block 5), sb_timestamp = 52, sb_transactions = []\<rparr>
      else Err (temp Eof), ex_queue_at n True)"
proof -
  have cfg: "rc_seq_window_size ex_rollup_config = 3" "rc_block_time ex_rollup_config = 2"
    by (simp_all add: ex_rollup_config_def)
  have head: "l2_l1_origin ex_safe_head = block_id (ex_block 5)" "bnh_number (block_id (ex_block 5)) = 5"
    "bi_hash (l2_block ex_safe_head) = [7]" "bi_timestamp (l2_block ex_safe_head) = 50"
    by (simp_all add: ex_safe_head_def ex_block_def block_id_def)
  have num: "bi_number (ex_block 5) = 5" "bi_number (ex_block 6) = 6" "bi_number (ex_block 7) = 7" "bi_number (ex_block 8) = 8"
    "bi_timestamp (ex_block 6) = 60"
    by (simp_all add: ex_block_def)
  note unfold = queue_next_batch_def ex_queue_at_def batch_queue_new_def queue_fresh_batch_def sync_origin_def advance_epoch_def
    origin_behind_def load_batch_data_def ex_reader_pull ex_reader_origin ex_block_less derive_and_unfold_def derive_next_batch_def
    force_empty_batch_def unfold_batch_def Let_def cfg head num
  from assms consider "n = 6" | "n = 7" | "n = 8" by blast
  then show ?thesis
  proof cases
    case 1
    then show ?thesis by (simp add: unfold)
  next
    case 2
    then show ?thesis by (simp add: unfold)
  next
    case 3
    then show ?thesis by (simp add: unfold)
  qed
qed

lemma ex_frames_advance_at:
  assumes "n \<in> {6, 7}"
  shows "st_advance (l1_frame_stage ex_abi ex_l1 ex_da) (ex_frames True n) = (Ok (), ex_frames False (Suc n))"
  using assms
  by (auto simp: l1_frame_stage_def ex_frames_def frame_queue_new_def fq_advance_def retrieval_new_def l1_retrieval_stage_def
      retrieval_advance_def traversal_advance_def ex_l1_def traversal_new_def ex_block_def)

lemma ex_queue_advance_at:
  assumes "n \<in> {6, 7}"
  shows "queue_advance (env_batches ex_env) (ex_queue_at n True) = (Ok (), ex_queue_at (Suc n) False)"
  using assms
  by (auto simp: queue_advance_def ex_queue_at_def batch_queue_new_def env_batches_def ex_env_def l1_batch_provider_def
      ex_stream_def batch_stream_new_def stream_advance_def l1_reader_stage_def channel_reader_new_def cr_advance_def
      l1_channel_stage_def cm_advance_def cm_forward_def cm_attempt_update_def ex_channels_def bank_advance_def channel_bank_new_def
      ex_frames_advance_at)

lemma ex_step_at:
  assumes "n \<in> {6, 7}"
  shows "env_step ex_env ex_safe_head (ex_pipeline_at n) = (Ok AdvancedOrigin, ex_pipeline_at (Suc n))"
proof -
  have "env_l2 ex_env = ex_l2" by (simp add: ex_env_def)
  moreover have "n \<noteq> 8" "n \<in> {6, 7, 8}" using assms by auto
  ultimately show ?thesis
    using ex_queue_pull_at [of n] ex_queue_advance_at [OF assms]
    by (simp add: ex_pipeline_at_def env_step_def pipeline_step_def env_ops_sel pipeline_new_def next_attributes_def load_batch_def
        env_queue_sel attributes_queue_new_def attributes_advance_def)
qed

lemma ex_prepared_at:
  "\<exists>t. prepare_payload_attributes (env_builder ex_rollup_config ex_env) ex_safe_head \<lparr>bnh_number = 5, bnh_hash = bi_hash (ex_block 5)\<rparr> = Ok t"
proof -
  have "nat_of_be (be_of_nat 2 5) = 5" by (simp add: nat_of_be_of_nat)
  then show ?thesis
    by (simp add: prepare_payload_attributes_def epoch_inputs_def env_builder_def ex_env_def
        ex_l1_def ex_l2_def ex_safe_head_def ex_block_def block_id_def provider_error_def ex_rollup_config_def)
       (simp add: l1_info_tx_def attributes_try_from_def attributes_to_sanitized_transaction_def attributes_instruction_def
        info_error_def u128_try_from_def ex_sdk_def sanitized_derived_tx_to_bytes_def new_from_derived_tx_def)
qed

lemma ex_last_step: "\<exists>dp. env_step ex_env ex_safe_head (ex_pipeline_at 8) = (Ok PreparedAttributes, dp) \<and> queue_of dp = ex_queue_at 8 True"
proof -
  obtain t where t: "prepare_payload_attributes (env_builder ex_rollup_config ex_env) ex_safe_head
      \<lparr>bnh_number = 5, bnh_hash = bi_hash (ex_block 5)\<rparr> = Ok t"
    using ex_prepared_at by blast
  have "env_l2 ex_env = ex_l2" "bi_hash (l2_block ex_safe_head) = [7]" "bi_timestamp (l2_block ex_safe_head) = 50"
    "rc_block_time ex_rollup_config = 2"
    by (simp_all add: ex_env_def ex_safe_head_def ex_rollup_config_def)
  then show ?thesis
    using ex_queue_pull_at [of 8] t
    by (simp add: ex_pipeline_at_def env_step_def pipeline_step_def env_ops_sel pipeline_new_def next_attributes_def load_batch_def
        env_queue_sel attributes_queue_new_def create_next_attributes_def sb_epoch_def queue_of_def Let_def split: option.split)
qed

lemma ex_step_first: "env_step ex_env ex_safe_head ex_pipeline = (Ok AdvancedOrigin, ex_pipeline_at 6)"
  using ex_first_step by (simp add: ex_pipeline_at_def ex_queue_at_def ex_batch_queue_def)

lemma ex_pulls:
  "pulls 4 (env_step ex_env ex_safe_head) ex_pipeline = map Ok [AdvancedOrigin, AdvancedOrigin, AdvancedOrigin] @ [Ok PreparedAttributes]"
  using ex_step_first ex_step_at ex_last_step by (auto simp: eval_nat_numeral)

theorem produce_payload_returns_witness:
  "\<exists>a dp2. produce_payload (oracle_driver ex_env) ex_safe_head 9 ex_pipeline = Some (Ok a, dp2)"
  using produce_payload_returns [of "[AdvancedOrigin, AdvancedOrigin, AdvancedOrigin]" ex_env ex_safe_head ex_pipeline] ex_pulls
  by (simp add: numeral_eq_Suc ex_pipeline_def build_pipeline_def pipeline_new_def) metis

lemma ex_produced:
  "\<exists>a dp. produce_payload (oracle_driver ex_env) ex_safe_head (4 + n) ex_pipeline = Some (Ok a, dp) \<and> state_origin (queue_of dp) = Some (ex_block 8)"
proof -
  obtain dp where l: "env_step ex_env ex_safe_head (ex_pipeline_at 8) = (Ok PreparedAttributes, dp)" "queue_of dp = ex_queue_at 8 True"
    using ex_last_step by blast
  have p: "dp_prepared (ex_pipeline_at n) = []" "dp_prepared ex_pipeline = []" for n
    by (simp_all add: ex_pipeline_at_def pipeline_new_def ex_pipeline_def build_pipeline_def)
  have "produce_payload (oracle_driver ex_env) ex_safe_head (Suc (Suc (Suc (Suc n)))) ex_pipeline
      = produce_payload (oracle_driver ex_env) ex_safe_head (Suc n) (ex_pipeline_at 8)"
    using produce_payload_idle [OF ex_step_first _ p(2)] produce_payload_idle [OF ex_step_at [of 6] _ p(1)]
      produce_payload_idle [OF ex_step_at [of 7] _ p(1)] by (simp del: produce_payload.simps)
  moreover obtain a where "produce_payload (oracle_driver ex_env) ex_safe_head (Suc n) (ex_pipeline_at 8) = Some (Ok a, dp\<lparr>dp_prepared := []\<rparr>)"
    using produce_payload_prepared [OF l(1) p(1)] by blast
  moreover have "state_origin (queue_of (dp\<lparr>dp_prepared := []\<rparr>)) = Some (ex_block 8)"
  proof -
    have "bq_prev (ex_queue_at 8 True) = ex_stream (ex_channels (ex_frames True 8))"
      by (simp add: ex_queue_at_def batch_queue_new_def)
    with ex_reader_origin [of True 8] have "state_origin (ex_queue_at 8 True) = Some (ex_block 8)"
      by (metis bp_origin_state env_batches_def)
    with l(2) show ?thesis by (simp add: queue_of_def)
  qed
  ultimately show ?thesis by (auto simp: numeral_eq_Suc simp del: produce_payload.simps)
qed

theorem produce_payload_delivers_witness:
  "\<exists>a dp sb. produce_payload (oracle_driver ex_env) ex_safe_head 4 ex_pipeline = Some (Ok a, dp)
     \<and> delivered {ex_env} ex_pipeline dp sb \<and> sb_parent_hash sb = bi_hash (l2_block ex_safe_head) \<and> ap_parent a = ex_safe_head"
proof -
  obtain a dp where p: "produce_payload (oracle_driver ex_env) ex_safe_head 4 ex_pipeline = Some (Ok a, dp)"
    using ex_produced [of 0] by auto
  have "dp_prepared ex_pipeline = []" by (simp add: ex_pipeline_def build_pipeline_def pipeline_new_def)
  from produce_payload_delivers [OF p _ this] p prun_refl [of "{ex_env}" ex_pipeline] show ?thesis
    by (metis ex_pipeline_def)
qed

definition ex_tip :: tip_cursor where
  "ex_tip = \<lparr>tc_l2_safe_head = ex_safe_head,
     tc_l2_safe_head_header = \<lparr>lh_block_info = l2_block ex_safe_head, lh_account_root = zero_hash, lh_widthdraw_root = zero_hash\<rparr>,
     tc_l2_safe_head_output_root = zero_hash\<rparr>"

definition ex_cursor :: pipeline_cursor where
  "ex_cursor = cursor_after [3] 2 ex_tip"

text \<open>An executor that builds the block numbered \<open>n\<close>.\<close>

definition ex_executor :: "u64 \<Rightarrow> (unit, unit) executor" where
  "ex_executor n =
     \<lparr>xo_update_safe_head = (\<lambda>h x. (Ok (), x)),
      xo_execute_payload = (\<lambda>a x. (Ok \<lparr>bo_block_info = ex_safe_head\<lparr>l2_block := (l2_block ex_safe_head)\<lparr>bi_number := n\<rparr>\<rparr>,
         bo_state_root = zero_hash, bo_withdraw_root = zero_hash\<rparr>, x)),
      xo_compute_output_root = (\<lambda>x. (Ok [9], x))\<rparr>"

lemma ex_cursor_tip: "cursor_tip ex_cursor = (Ok ex_tip :: (tip_cursor, 'e) res)" "\<not> tip_reached (Some 4) ex_tip"
  by (simp_all add: cursor_tip_def ex_cursor_def cursor_after_def cursor_advance_def cursor_new_def bt_last_def tip_reached_def
      ex_tip_def ex_safe_head_def)

theorem advance_to_target_sound_witness:
  "\<exists>head root D2. advance_to_target (ex_executor 4) (oracle_driver ex_env) 9 (Some 4) (driver_new ex_cursor () ex_pipeline) = Some (Ok (head, root), D2)
     \<and> bi_number (l2_block head) = 4
     \<and> (\<exists>tip. cursor_tip (dr_cursor D2) = (Ok tip :: (tip_cursor, unit) res) \<and> head = tc_l2_safe_head tip)"
proof -
  obtain a dp where p: "produce_payload (oracle_driver ex_env) ex_safe_head 8 ex_pipeline = Some (Ok a, dp)"
    and o: "state_origin (queue_of dp) = Some (ex_block 8)"
    using ex_produced [of 4] by auto
  let ?D = "(driver_new ex_cursor () ex_pipeline)\<lparr>dr_pipeline := dp\<rparr>"
  obtain D1 where x: "execute_block (ex_executor 4) (oracle_driver ex_env) ex_tip (ap_attributes a) ?D = (Ok True, D1)"
    and t: "\<exists>tip. cursor_tip (dr_cursor D1) = (Ok tip :: (tip_cursor, unit driver_error) res) \<and> bi_number (l2_block (tc_l2_safe_head tip)) = 4"
    using o by (simp add: execute_block_def ex_executor_def driver_new_def cursor_advance_def ex_cursor_def cursor_after_def
      cursor_new_def cursor_tip_def bt_last_def ex_block_def)
  have "tc_l2_safe_head ex_tip = ex_safe_head" "dr_cursor (driver_new ex_cursor () ex_pipeline) = ex_cursor"
    "dr_pipeline (driver_new ex_cursor () ex_pipeline) = ex_pipeline"
    by (simp_all add: ex_tip_def driver_new_def)
  moreover obtain r where "advance_to_target (ex_executor 4) (oracle_driver ex_env) 8 (Some 4) D1 = Some (Ok r, D1)" "bi_number (l2_block (fst r)) = 4"
    using t by (auto simp: eval_nat_numeral tip_reached_def)
  ultimately have "advance_to_target (ex_executor 4) (oracle_driver ex_env) (Suc 8) (Some 4) (driver_new ex_cursor () ex_pipeline) = Some (Ok r, D1)"
    using x p by (subst advance_to_target.simps) (simp add: ex_cursor_tip)
  with \<open>bi_number (l2_block (fst r)) = 4\<close> show ?thesis
    using advance_to_target_sound [of "ex_executor 4" "oracle_driver ex_env" 9 "Some 4" "driver_new ex_cursor () ex_pipeline" "fst r" "snd r" D1]
    by (cases r) (auto simp: cursor_tip_def split: option.split_asm)
qed

lemma ex_cursor_reach: "cursor_reach 2 ex_cursor"
  unfolding ex_cursor_def cursor_after_def
  using creach_advance [OF creach_new [of 2 "default_block_info\<lparr>bi_number := 3\<rparr>"], of "default_block_info\<lparr>bi_number := 3\<rparr>" ex_tip]
  by (simp add: cursor_advance_def cursor_new_def)

theorem cursor_reset_sound_witness:
  "\<exists>tip info. cursor_reset 7 ex_cursor = (Ok (tip, info) :: (tip_cursor \<times> block_info, unit) res)
     \<and> map_of (pc_tips ex_cursor) (bi_number info) = Some tip \<and> bi_number info \<le> 5"
proof -
  obtain tip info where "cursor_reset 7 ex_cursor = (Ok (tip, info) :: (tip_cursor \<times> block_info, unit) res)"
    by (simp add: ex_cursor_def cursor_after_def cursor_reset_def cursor_advance_def cursor_new_def bt_floor_def bt_last_def)
  with cursor_reset_sound [OF ex_cursor_reach, of 7] show ?thesis by auto
qed

theorem cursor_tip_after_advance_witness:
  "\<exists>c'. cursor_advance (ex_block 8) ex_tip ex_cursor = (Ok () :: (unit, unit) res, c') \<and> cursor_tip c' = (Ok ex_tip :: (tip_cursor, unit) res)"
proof -
  obtain c' where c: "cursor_advance (ex_block 8) ex_tip ex_cursor = (Ok () :: (unit, unit) res, c')" "dom (map_of (pc_tips c')) = {3, 8}"
    by (simp add: ex_cursor_def cursor_after_def cursor_advance_def cursor_new_def ex_block_def)
  with cursor_tip_after_advance [OF ex_cursor_reach c(1)] show ?thesis by (auto simp: ex_block_def)
qed

end
