(* ===== verification/Trie_Node.thy ===== *)
theory Trie_Node
  imports Prelude "HOL-Library.Sublist"
begin

text \<open>
  The Merkle Patricia trie of the proof program (\<^verbatim>\<open>proof/mpt/src/node.rs\<close>): nodes that may
  be blinded by a hash, opened on the way through a provider, and the operations \<open>open\<close>,
  \<open>insert\<close> and \<open>delete\<close>. A blinded node may resolve to another blinded node, so the
  recursions need not end; they take fuel and answer \<open>None\<close> when it is used up.

  The abstraction is the relation \<open>trie\<close> between a node and the finite map it stands for. It asks
  for the canonical shape, so that the commitment of a trie is a function of its map.
\<close>

section \<open>Nodes\<close>

type_synonym nibbles = "u8 list"

datatype trie_node =
    Empty
  | Blinded b256
  | Leaf nibbles bytes
  | Extension nibbles trie_node
  | Branch "trie_node list"

datatype trie_node_error = InvalidNodeType | RLPError string | KeyNotFound | ProviderError string

text \<open>
  What lies outside the crate: the provider and the hinter, with their errors as strings;
  \<^verbatim>\<open>alloy_trie\<close> (the hash of the empty trie, packing of nibbles, the encoding of paths) and
  \<^verbatim>\<open>alloy_rlp\<close> (headers and byte strings) with \<^verbatim>\<open>keccak256\<close>.
\<close>

record trie_env =
  te_node :: "b256 \<Rightarrow> (trie_node, string) res"
  te_hint_account_proof :: "b256 \<Rightarrow> u64 \<Rightarrow> (unit, string) res"
  te_empty_root :: b256
  te_pack :: "nibbles \<Rightarrow> bytes"
  te_path :: "nibbles \<Rightarrow> bool \<Rightarrow> bytes"
  te_keccak256 :: "bytes \<Rightarrow> b256"
  te_header :: "nat \<Rightarrow> bytes"
  te_header_length :: "nat \<Rightarrow> nat"
  te_length_of_length :: "nat \<Rightarrow> nat"
  te_bytes :: "bytes \<Rightarrow> bytes"
  te_bytes_length :: "bytes \<Rightarrow> nat"
  te_b256 :: "b256 \<Rightarrow> bytes"
  te_b256_length :: nat

definition BRANCH_LIST_LENGTH :: nat where "BRANCH_LIST_LENGTH = 17"

fun common_prefix_length :: "nibbles \<Rightarrow> nibbles \<Rightarrow> nat" where
  "common_prefix_length (x # xs) (y # ys) = (if x = y then Suc (common_prefix_length xs ys) else 0)"
| "common_prefix_length _ _ = 0"

definition unblind :: "trie_env \<Rightarrow> trie_node \<Rightarrow> (unit, trie_node_error) res \<times> trie_node" where
  "unblind E t =
     (case t of
        Blinded commitment \<Rightarrow>
          if commitment = te_empty_root E then (Ok (), Empty)
          else
            (case te_node E commitment of
               Ok n \<Rightarrow> (Ok (), n)
             | Err e \<Rightarrow> (Err (ProviderError e), t)
             | Panic \<Rightarrow> (Panic, t))
      | _ \<Rightarrow> (Ok (), t))"

text \<open>
  Outcomes of the fuelled operations: the result and the node that is left. \<open>below\<close> puts the
  child an operation left behind back into its place, \<open>andthen\<close> goes on after an \<open>Ok\<close>.
\<close>

type_synonym ('a, 'e) walk = "(('a, 'e) res \<times> trie_node) option"

definition below :: "(trie_node \<Rightarrow> trie_node) \<Rightarrow> ('a, 'e) walk \<Rightarrow> ('a, 'e) walk" where
  "below wrap r = map_option (\<lambda>(x, c). (x, wrap c)) r"

definition andthen :: "(('a, 'e) res \<times> 's) option \<Rightarrow> ('s \<Rightarrow> (('b, 'e) res \<times> 's) option) \<Rightarrow> (('b, 'e) res \<times> 's) option" where
  "andthen r k =
     (case r of
        None \<Rightarrow> None
      | Some (Ok _, c) \<Rightarrow> k c
      | Some (Err e, c) \<Rightarrow> Some (Err e, c)
      | Some (Panic, c) \<Rightarrow> Some (Panic, c))"

text \<open>Reading a value; slices and indices out of range panic.\<close>

fun node_open :: "trie_env \<Rightarrow> nat \<Rightarrow> nibbles \<Rightarrow> trie_node \<Rightarrow> (bytes option, trie_node_error) walk" where
  "node_open E 0 path t = None"
| "node_open E (Suc fuel) path t =
     (case t of
        Branch stack \<Rightarrow>
          (case path of
             [] \<Rightarrow> Some (Panic, t)
           | x # rest \<Rightarrow>
               if unat x < length stack
               then below (\<lambda>c. Branch (stack[unat x := c])) (node_open E fuel rest (stack ! unat x))
               else Some (Ok None, t))
      | Leaf pfx v \<Rightarrow> Some (Ok (if path = pfx then Some v else None), t)
      | Extension pfx c \<Rightarrow>
          if length path < length pfx then Some (Panic, t)
          else if take (length pfx) path = pfx then
            below (Extension pfx) (andthen (Some (unblind E c)) (node_open E fuel (drop (length pfx) path)))
          else Some (Ok None, t)
      | Blinded _ \<Rightarrow> andthen (Some (unblind E t)) (node_open E fuel path)
      | Empty \<Rightarrow> Some (Ok None, t))"

text \<open>
  The node that replaces a leaf or extension at whose path a new key branches off: \<open>old\<close> is
  what is left of it below the nibble of its prefix.
\<close>

definition split_node :: "nibbles \<Rightarrow> nibbles \<Rightarrow> bytes \<Rightarrow> (nibbles \<Rightarrow> trie_node) \<Rightarrow> trie_node option" where
  "split_node path pfx v old =
     (let s = common_prefix_length path pfx in
      if s < length pfx \<and> s < length path \<and> unat (pfx ! s) < BRANCH_LIST_LENGTH \<and> unat (path ! s) < BRANCH_LIST_LENGTH then
        let stack = (replicate BRANCH_LIST_LENGTH Empty)
              [unat (pfx ! s) := old (drop (s + 1) pfx), unat (path ! s) := Leaf (drop (s + 1) path) v] in
        Some (if s = 0 then Branch stack else Extension (take s path) (Branch stack))
      else None)"

definition replace_by :: "trie_node option \<Rightarrow> trie_node \<Rightarrow> (unit, trie_node_error) walk" where
  "replace_by r t = (case r of None \<Rightarrow> Some (Panic, t) | Some t' \<Rightarrow> Some (Ok (), t'))"

fun node_insert :: "trie_env \<Rightarrow> nat \<Rightarrow> nibbles \<Rightarrow> bytes \<Rightarrow> trie_node \<Rightarrow> (unit, trie_node_error) walk" where
  "node_insert E 0 path v t = None"
| "node_insert E (Suc fuel) path v t =
     (case t of
        Empty \<Rightarrow> Some (Ok (), Leaf path v)
      | Leaf pfx leaf_value \<Rightarrow>
          if path = pfx then Some (Ok (), Leaf pfx v)
          else replace_by (split_node path pfx v (\<lambda>p. Leaf p leaf_value)) t
      | Extension pfx c \<Rightarrow>
          if common_prefix_length path pfx = length pfx
          then below (Extension pfx) (node_insert E fuel (drop (length pfx) path) v c)
          else replace_by (split_node path pfx v (\<lambda>p. if p = [] then c else Extension p c)) t
      | Branch stack \<Rightarrow>
          (case path of
             [] \<Rightarrow> Some (Panic, t)
           | x # rest \<Rightarrow>
               if unat x < length stack
               then below (\<lambda>c. Branch (stack[unat x := c])) (node_insert E fuel rest v (stack ! unat x))
               else Some (Panic, t))
      | Blinded _ \<Rightarrow> andthen (Some (unblind E t)) (node_insert E fuel path v))"

text \<open>
  The hash the hinter is asked for: the path of the blinded child, padded to 64 nibbles. A
  longer path makes the padding count underflow; no memory holds the pushes it asks for.
\<close>

definition hinted_hash :: "trie_env \<Rightarrow> nibbles \<Rightarrow> (b256, trie_node_error) res" where
  "hinted_hash E full_path =
     (if length full_path > 64 then Panic
      else
        let packed = te_pack E (full_path @ replicate (64 - length full_path) 0) in
        if length packed = 32 then Ok packed else Panic)"

fun collapse_if_possible :: "trie_env \<Rightarrow> nat \<Rightarrow> nibbles \<Rightarrow> u64 \<Rightarrow> trie_node \<Rightarrow> (unit, trie_node_error) walk" where
  "collapse_if_possible E 0 walked last_slot t = None"
| "collapse_if_possible E (Suc fuel) walked last_slot t =
     (case t of
        Extension pfx c \<Rightarrow>
          Some (Ok (),
            (case c of
               Extension child_prefix d \<Rightarrow> Extension (pfx @ child_prefix) d
             | Leaf child_prefix v \<Rightarrow> Leaf (pfx @ child_prefix) v
             | Empty \<Rightarrow> Empty
             | _ \<Rightarrow> t))
      | Branch stack \<Rightarrow>
          (case filter (\<lambda>i. stack ! i \<noteq> Empty) [0..<length stack] of
             [i] \<Rightarrow>
               (case stack ! i of
                  Leaf pfx v \<Rightarrow> Some (Ok (), Leaf (of_nat i # pfx) v)
                | Extension pfx c \<Rightarrow> Some (Ok (), Extension (of_nat i # pfx) c)
                | Branch s \<Rightarrow> Some (Ok (), Extension [of_nat i] (Branch s))
                | Blinded h \<Rightarrow>
                    andthen (Some (rthen (hinted_hash E (walked @ [of_nat i])) (\<lambda>hash.
                       map_err ProviderError (te_hint_account_proof E hash last_slot)), t)) (\<lambda>t.
                    andthen (below (\<lambda>c. Branch (stack[i := c])) (Some (unblind E (stack ! i))))
                      (collapse_if_possible E fuel walked last_slot))
                | Empty \<Rightarrow> Some (Ok (), t))
           | _ \<Rightarrow> Some (Ok (), t))
      | _ \<Rightarrow> Some (Ok (), t))"

fun node_delete :: "trie_env \<Rightarrow> nat \<Rightarrow> nibbles \<Rightarrow> nibbles \<Rightarrow> u64 \<Rightarrow> trie_node \<Rightarrow> (unit, trie_node_error) walk" where
  "node_delete E 0 path walked last_slot t = None"
| "node_delete E (Suc fuel) path walked last_slot t =
     (case t of
        Empty \<Rightarrow> Some (Err KeyNotFound, t)
      | Leaf pfx v \<Rightarrow> if path = pfx then Some (Ok (), Empty) else Some (Err KeyNotFound, t)
      | Extension pfx c \<Rightarrow>
          (let s = common_prefix_length path pfx in
           if s < length pfx then Some (Err KeyNotFound, t)
           else if s = length path then Some (Ok (), Empty)
           else
             andthen (below (Extension pfx) (node_delete E fuel (drop (length pfx) path) (walked @ pfx) last_slot c))
               (collapse_if_possible E fuel walked last_slot))
      | Branch stack \<Rightarrow>
          (case path of
             [] \<Rightarrow> Some (Panic, t)
           | x # rest \<Rightarrow>
               if unat x < length stack then
                 andthen (below (\<lambda>c. Branch (stack[unat x := c]))
                            (node_delete E fuel rest (walked @ [x]) last_slot (stack ! unat x)))
                   (collapse_if_possible E fuel walked last_slot)
               else Some (Panic, t))
      | Blinded _ \<Rightarrow> andthen (Some (unblind E t)) (node_delete E fuel path walked last_slot))"

text \<open>
  Lengths and encodings. A child whose encoding has 32 bytes or more is represented by its
  commitment; \<open>length_from\<close> and \<open>blind_from\<close> are the parts of \<open>length\<close> and \<open>blind\<close> that do
  not recurse.
\<close>

definition encoded_key_length :: "trie_env \<Rightarrow> nibbles \<Rightarrow> nat" where
  "encoded_key_length E p = (let l = length p div 2 + 1 in if l \<noteq> 1 then l + te_length_of_length E l else l)"

definition length_from :: "trie_env \<Rightarrow> trie_node \<Rightarrow> nat \<Rightarrow> nat" where
  "length_from E t payload =
     (case t of Empty \<Rightarrow> 1 | Blinded _ \<Rightarrow> te_b256_length E | _ \<Rightarrow> te_header_length E payload + payload)"

definition cap_length :: "trie_env \<Rightarrow> nat \<Rightarrow> nat" where
  "cap_length E l = (if l \<ge> 32 then te_b256_length E else l)"

fun payload_length :: "trie_env \<Rightarrow> trie_node \<Rightarrow> nat" where
  "payload_length E Empty = 0"
| "payload_length E (Blinded commitment) = 32"
| "payload_length E (Leaf p v) = encoded_key_length E p + te_bytes_length E v"
| "payload_length E (Extension p c) = encoded_key_length E p + cap_length E (length_from E c (payload_length E c))"
| "payload_length E (Branch stack) = sum_list (map (\<lambda>c. cap_length E (length_from E c (payload_length E c))) stack)"

definition node_length :: "trie_env \<Rightarrow> trie_node \<Rightarrow> nat" where
  "node_length E t = length_from E t (payload_length E t)"

definition blinded_length :: "trie_env \<Rightarrow> trie_node \<Rightarrow> nat" where
  "blinded_length E t = cap_length E (node_length E t)"

definition EMPTY_STRING_CODE :: u8 where "EMPTY_STRING_CODE = 0x80"

definition blind_from :: "trie_env \<Rightarrow> trie_node \<Rightarrow> bytes \<Rightarrow> b256" where
  "blind_from E t code = (case t of Blinded commitment \<Rightarrow> commitment | Empty \<Rightarrow> te_empty_root E | _ \<Rightarrow> te_keccak256 E code)"

fun encode_node :: "trie_env \<Rightarrow> trie_node \<Rightarrow> bytes" where
  "encode_node E Empty = [EMPTY_STRING_CODE]"
| "encode_node E (Blinded commitment) = te_b256 E commitment"
| "encode_node E (Leaf p v) =
     te_header E (payload_length E (Leaf p v)) @ te_bytes E (te_path E p True) @ te_bytes E v"
| "encode_node E (Extension p c) =
     te_header E (payload_length E (Extension p c)) @ te_bytes E (te_path E p False)
     @ (if node_length E c \<ge> 32 then te_b256 E (blind_from E c (encode_node E c)) else encode_node E c)"
| "encode_node E (Branch stack) =
     te_header E (payload_length E (Branch stack))
     @ concat (map (\<lambda>c. if node_length E c \<ge> 32 then te_b256 E (blind_from E c (encode_node E c)) else encode_node E c) stack)"

definition blind :: "trie_env \<Rightarrow> trie_node \<Rightarrow> b256" where
  "blind E t = blind_from E t (encode_node E t)"

section \<open>The map of a trie\<close>

type_synonym tmap = "nibbles \<rightharpoonup> bytes"

definition under_path :: "nibbles \<Rightarrow> tmap \<Rightarrow> tmap" where
  "under_path p m = (\<lambda>k. if prefix p k then m (drop (length p) k) else None)"

definition branch_map :: "(nat \<Rightarrow> tmap) \<Rightarrow> tmap" where
  "branch_map ms = (\<lambda>k. case k of [] \<Rightarrow> None | x # xs \<Rightarrow> if unat x < 16 then ms (unat x) xs else None)"

text \<open>A map with two keys that differ in their first nibble: what a branch stands for.\<close>

definition branching :: "tmap \<Rightarrow> bool" where
  "branching m \<longleftrightarrow> (\<exists>x xs y ys. x \<noteq> y \<and> x # xs \<in> dom m \<and> y # ys \<in> dom m)"

definition blinded :: "trie_node \<Rightarrow> bool" where
  "blinded t \<longleftrightarrow> (\<exists>h. t = Blinded h)"

inductive trie :: "trie_env \<Rightarrow> trie_node \<Rightarrow> tmap \<Rightarrow> bool" for E where
  trie_Empty: "trie E Empty Map.empty"
| trie_Leaf: "trie E (Leaf p v) [p \<mapsto> v]"
| trie_Extension: "\<lbrakk> p \<noteq> []; trie E c m; branching m \<rbrakk> \<Longrightarrow> trie E (Extension p c) (under_path p m)"
| trie_Branch: "\<lbrakk> length stack = BRANCH_LIST_LENGTH; stack ! 16 = Empty; \<And>i. i < 16 \<Longrightarrow> trie E (stack ! i) (ms i);
     branching (branch_map ms) \<rbrakk> \<Longrightarrow> trie E (Branch stack) (branch_map ms)"
| trie_Blinded: "\<lbrakk> h \<noteq> te_empty_root E; te_node E h = Ok n; \<not> blinded n; n \<noteq> Empty; trie E n m \<rbrakk> \<Longrightarrow> trie E (Blinded h) m"

inductive_simps trie_Empty_iff: "trie E Empty m"
inductive_cases trie_EmptyE: "trie E Empty m"
inductive_cases trie_LeafE: "trie E (Leaf p v) m"
inductive_cases trie_ExtensionE: "trie E (Extension p c) m"
inductive_cases trie_BranchE: "trie E (Branch stack) m"
inductive_cases trie_BlindedE: "trie E (Blinded h) m"

text \<open>All keys are nibble strings of one length.\<close>

definition nibbled :: "nibbles \<Rightarrow> bool" where
  "nibbled p \<longleftrightarrow> (\<forall>x \<in> set p. unat x < 16)"

definition uniform :: "nat \<Rightarrow> tmap \<Rightarrow> bool" where
  "uniform n m \<longleftrightarrow> (\<forall>k \<in> dom m. length k = n \<and> nibbled k)"

lemma nibbled_drop: "nibbled p \<Longrightarrow> nibbled (drop k p)"
  by (auto simp: nibbled_def dest: in_set_dropD)

lemma below_Some [simp]: "below w (Some (r, c)) = Some (r, w c)" by (simp add: below_def)
lemma below_None [simp]: "below w None = None" by (simp add: below_def)

lemma andthen_simps [simp]:
  "andthen (Some (Ok x, c)) k = k c"
  "andthen (Some (Err e, c)) k = Some (Err e, c)"
  "andthen (Some (Panic, c)) k = Some (Panic, c)"
  "andthen None k = None"
  by (simp_all add: andthen_def)

lemma unblind_not_blinded [simp]: "\<not> blinded t \<Longrightarrow> unblind E t = (Ok (), t)"
  by (cases t) (auto simp: unblind_def blinded_def)

lemma blinded_simps [simp]:
  "\<not> blinded Empty" "blinded (Blinded h)" "\<not> blinded (Leaf p v)" "\<not> blinded (Extension p c)" "\<not> blinded (Branch s)"
  by (simp_all add: blinded_def)

lemma under_append [simp]: "under_path p m (p @ k) = m k"
  by (simp add: under_path_def)

lemma under_None: "\<not> prefix p k \<Longrightarrow> under_path p m k = None"
  by (simp add: under_path_def)

lemma dom_under: "dom (under_path p m) = (\<lambda>k. p @ k) ` dom m"
  by (force simp: under_path_def prefix_def split: if_splits)

lemma branch_map_Nil [simp]: "branch_map ms [] = None" by (simp add: branch_map_def)
lemma branch_map_Cons [simp]: "branch_map ms (x # xs) = (if unat x < 16 then ms (unat x) xs else None)"
  by (simp add: branch_map_def)

lemma dom_branch_map: "dom (branch_map ms) = {x # xs |x xs. unat x < 16 \<and> xs \<in> dom (ms (unat x))}"
  by (auto simp: branch_map_def split: list.splits if_splits)

lemma branchingI: "\<lbrakk> x \<noteq> y; x # xs \<in> dom m; y # ys \<in> dom m \<rbrakk> \<Longrightarrow> branching m"
  unfolding branching_def by blast

lemma branching_nonempty: "branching m \<Longrightarrow> dom m \<noteq> {}"
  unfolding branching_def by blast

lemma trie_nonempty: "trie E t m \<Longrightarrow> t \<noteq> Empty \<Longrightarrow> dom m \<noteq> {}"
  by (induction rule: trie.induct) (auto simp: dom_under branching_def simp del: branch_map_Cons)

lemma unat_nibble [simp]: "i < 17 \<Longrightarrow> unat (of_nat i :: u8) = i"
  by (simp add: unat_of_nat take_bit_nat_eq_self)

lemma child_key: "i < 16 \<Longrightarrow> branch_map ms (of_nat i # k) = ms i k"
  by simp

lemma uniform_under:
  assumes "uniform n (under_path p m)" and "branching m"
  shows "uniform (n - length p) m" "length p < n" "nibbled p"
proof -
  have k: "length (p @ k) = n \<and> nibbled (p @ k)" if "k \<in> dom m" for k
    using assms(1) that by (auto simp: uniform_def dom_under)
  then show "uniform (n - length p) m" by (fastforce simp: uniform_def nibbled_def)
  from assms(2) obtain x xs where "x # xs \<in> dom m" by (auto simp: branching_def)
  from k [OF this] show "length p < n" "nibbled p" by (auto simp: nibbled_def)
qed

lemma uniform_branch:
  assumes "uniform n (branch_map ms)" and "i < 16"
  shows "uniform (n - 1) (ms i)"
proof -
  have "length ((of_nat i :: u8) # k) = n \<and> nibbled ((of_nat i :: u8) # k)" if "k \<in> dom (ms i)" for k
    using assms(1) that child_key [OF assms(2), of ms k] unfolding uniform_def by (metis domIff)
  then show ?thesis by (fastforce simp: uniform_def nibbled_def)
qed

lemma uniform_branching: "uniform n m \<Longrightarrow> branching m \<Longrightarrow> 0 < n"
  by (fastforce simp: uniform_def branching_def)

section \<open>Opening\<close>

text \<open>
  The operations resolve a blinded node first and then work on the node behind it. The
  inductions below are about that node; two rounds per nibble and one to spare are enough.
\<close>

definition reveal :: "trie_env \<Rightarrow> trie_node \<Rightarrow> trie_node" where
  "reveal E t = snd (unblind E t)"

lemma reveal_not_blinded [simp]: "\<not> blinded t \<Longrightarrow> reveal E t = t"
  by (simp add: reveal_def)

lemma unblind_trie: "trie E t m \<Longrightarrow> unblind E t = (Ok (), reveal E t) \<and> \<not> blinded (reveal E t) \<and> trie E (reveal E t) m"
  by (erule trie.cases) (auto simp: reveal_def unblind_def intro: trie.intros)

lemma reveal_Blinded: "trie E (Blinded h) m \<Longrightarrow> unblind E (Blinded h) = (Ok (), reveal E (Blinded h))"
  by (rule unblind_trie [THEN conjunct1])

lemma reveal_known: "\<lbrakk> h \<noteq> te_empty_root E; te_node E h = Ok n \<rbrakk> \<Longrightarrow> reveal E (Blinded h) = n"
  by (simp add: reveal_def unblind_def)

lemma node_open_reveal:
  "trie E t m \<Longrightarrow> node_open E (Suc f) path t = node_open E (if blinded t then f else Suc f) path (reveal E t)"
  by (cases t) (simp_all add: reveal_Blinded del: node_open.simps(2), simp add: reveal_Blinded)

lemma branch_map_update:
  "unat x < 16 \<Longrightarrow> branch_map (ms(unat x := (ms (unat x))(k := v))) = (branch_map ms)(x # k := v)"
  by (auto simp: branch_map_def fun_eq_iff word_unat_eq_iff split: list.split)

lemma trie_Branch_update:
  assumes "length stack = BRANCH_LIST_LENGTH" "stack ! 16 = Empty" "\<And>i. i < 16 \<Longrightarrow> trie E (stack ! i) (ms i)"
    and "i < 16" "trie E c m" "branching (branch_map (ms(i := m)))"
  shows "trie E (Branch (stack[i := c])) (branch_map (ms(i := m)))"
  using assms by (intro trie_Branch) (auto simp: nth_list_update BRANCH_LIST_LENGTH_def)

lemma node_open_revealed:
  assumes "trie E t m" and "uniform n m" and "length path = n" and "nibbled path" and "2 * n + 1 \<le> fuel"
  shows "\<exists>t'. node_open E fuel path (reveal E t) = Some (Ok (m path), t') \<and> trie E t' m"
  using assms
proof (induction arbitrary: n path fuel rule: trie.induct)
  case trie_Empty
  then show ?case using trie.trie_Empty by (cases fuel) auto
next
  case (trie_Leaf p v)
  then show ?case using trie.trie_Leaf [of E p v] by (cases fuel) (auto simp: fun_upd_def)
next
  case (trie_Extension p c m)
  then obtain f where f: "fuel = Suc f" by (cases fuel) auto
  note u = uniform_under [OF trie_Extension.prems(1) trie_Extension.hyps(3)]
  show ?case
  proof (cases "take (length p) path = p")
    case True
    then have path: "path = p @ drop (length p) path" by (metis append_take_drop_id)
    then have "under_path p m path = m (drop (length p) path)" by (metis under_append)
    moreover have "2 * (n - length p) + 1 \<le> f" using trie_Extension.prems(4) f u(2) trie_Extension.hyps(1) by (cases p) auto
    with trie_Extension.IH [OF u(1) _ nibbled_drop [OF trie_Extension.prems(3)], of "length p" f] trie_Extension.prems(2)
    obtain t' where "node_open E f (drop (length p) path) (reveal E c) = Some (Ok (m (drop (length p) path)), t')" "trie E t' m"
      by auto
    ultimately show ?thesis
      using True f u trie_Extension unblind_trie [OF trie_Extension.hyps(2)] trie.trie_Extension by auto
  next
    case False
    then have "\<not> prefix p path" by (auto simp: prefix_def)
    with False f u trie_Extension.prems trie.trie_Extension [OF trie_Extension.hyps] show ?thesis
      by (auto simp: under_None)
  qed
next
  case (trie_Branch stack ms)
  then obtain f x rest where f: "fuel = Suc (Suc f)" "path = x # rest"
    using uniform_branching [of n "branch_map ms"] by (cases fuel; cases "fuel - 1"; cases path) auto
  then have x: "unat x < 16" "length rest = n - 1" "nibbled rest" "2 * (n - 1) + 2 \<le> Suc f"
    using trie_Branch.prems by (auto simp: nibbled_def)
  then have "2 * (n - 1) + 1 \<le> (if blinded (stack ! unat x) then f else Suc f)" by auto
  from trie_Branch.IH [OF x(1) uniform_branch [OF trie_Branch.prems(1) x(1)] x(2,3) this]
  obtain t' where t': "node_open E (Suc f) rest (stack ! unat x) = Some (Ok (ms (unat x) rest), t')" "trie E t' (ms (unat x))"
    unfolding node_open_reveal [OF trie_Branch.hyps(3) [OF x(1)]] by blast
  have "trie E (Branch (stack[unat x := t'])) (branch_map (ms(unat x := ms (unat x))))"
    using trie_Branch x t' by (intro trie_Branch_update) auto
  with f x t' show ?case using trie_Branch.hyps(1) by (auto simp: BRANCH_LIST_LENGTH_def)
next
  case (trie_Blinded h nd m)
  then show ?case by (simp add: reveal_known)
qed

section \<open>Inserting\<close>

lemma under_path_Nil [simp]: "under_path [] m = m"
  by (simp add: under_path_def fun_eq_iff)

lemma under_path_under: "under_path p (under_path q m) = under_path (p @ q) m"
  by (auto simp: under_path_def fun_eq_iff prefix_def)

lemma under_path_upd: "under_path p (m(k := v)) = (under_path p m)(p @ k := v)"
  by (auto simp: under_path_def fun_eq_iff prefix_def)

lemma under_path_empty [simp]: "under_path p Map.empty = Map.empty"
  by (simp add: under_path_def fun_eq_iff)

lemma under_path_single: "under_path p [k \<mapsto> v] = [p @ k \<mapsto> v]"
  by (simp add: under_path_upd)

lemma common_prefix_length_diff: "x \<noteq> y \<Longrightarrow> common_prefix_length (w @ x # r) (w @ y # q) = length w"
  by (induction w) auto

lemma common_prefix_length_full: "common_prefix_length path p = length p \<longleftrightarrow> prefix p path"
  by (induction path p rule: common_prefix_length.induct) auto

lemma common_prefix_length_le: "common_prefix_length path p \<le> length p"
  by (induction path p rule: common_prefix_length.induct) auto

text \<open>Two children of a branch.\<close>

lemma trie_two:
  assumes "unat x < 16" "unat y < 16" "x \<noteq> y" "trie E cx mx" "trie E cy my" "dom mx \<noteq> {}" "dom my \<noteq> {}"
  shows "trie E (Branch ((replicate BRANCH_LIST_LENGTH Empty)[unat y := cy, unat x := cx])) (under_path [y] my ++ under_path [x] mx)"
proof -
  let ?ms = "(\<lambda>i. Map.empty)(unat y := my, unat x := mx)"
  have xy: "unat x \<noteq> unat y" using assms(3) by (simp add: word_unat_eq_iff)
  have m: "branch_map ?ms = under_path [y] my ++ under_path [x] mx"
    using assms(1-3) xy
    by (auto simp: branch_map_def under_path_def fun_eq_iff map_add_def word_unat_eq_iff split: list.split option.split)
  obtain kx ky where "kx \<in> dom mx" "ky \<in> dom my" using assms(6,7) by blast
  then have "branching (branch_map ?ms)"
    using assms(1-3) xy by (intro branchingI [of x y kx _ ky]) auto
  then have "trie E (Branch ((replicate BRANCH_LIST_LENGTH Empty)[unat y := cy, unat x := cx])) (branch_map ?ms)"
    using assms xy trie_Empty [of E] by (intro trie_Branch) (auto simp: BRANCH_LIST_LENGTH_def nth_list_update)
  then show ?thesis by (simp add: m)
qed

lemma split_node_trie:
  assumes "path = w @ x # r" and "p = w @ y # q" and "x \<noteq> y" and "unat x < 16" and "unat y < 16"
    and "trie E (old q) mo" and "dom mo \<noteq> {}"
  shows "\<exists>t'. split_node path p v old = Some t' \<and> trie E t' ((under_path (w @ [y]) mo)(path \<mapsto> v))"
proof -
  let ?stack = "(replicate BRANCH_LIST_LENGTH Empty)[unat y := old q, unat x := Leaf r v]"
  have "trie E (Branch ?stack) (under_path [y] mo ++ under_path [x] [r \<mapsto> v])"
    using assms trie_Leaf [of E r v] by (intro trie_two) auto
  then have b: "trie E (Branch ?stack) ((under_path [y] mo)(x # r \<mapsto> v))"
    by (simp add: under_path_single)
  have br: "branching ((under_path [y] mo)(x # r \<mapsto> v))"
    using b by (rule trie_BranchE) auto
  have s: "split_node path p v old = Some (if w = [] then Branch ?stack else Extension w (Branch ?stack))"
    using assms(1-5) by (simp add: split_node_def common_prefix_length_diff BRANCH_LIST_LENGTH_def nth_append)
  have "trie E (if w = [] then Branch ?stack else Extension w (Branch ?stack)) (under_path w ((under_path [y] mo)(x # r \<mapsto> v)))"
    using b trie_Extension [OF _ b br, of w] by auto
  then show ?thesis using s assms(1) by (simp add: under_path_upd under_path_under)
qed

lemma diverging:
  assumes "length p \<le> length path" and "\<not> prefix p path" and "nibbled path" and "nibbled (p :: nibbles)"
  shows "\<exists>w x r y q. path = w @ x # r \<and> p = w @ y # q \<and> x \<noteq> y \<and> unat x < 16 \<and> unat y < 16"
proof -
  have "path \<parallel> p"
    using assms(1,2) by (metis parallelI prefix_length_prefix prefix_order.eq_refl)
  then obtain w x r y q where "x \<noteq> y" "path = w @ x # r" "p = w @ y # q" using parallel_decomp by blast
  with assms(3,4) show ?thesis by (auto simp: nibbled_def)
qed

lemma node_insert_reveal:
  "trie E t m \<Longrightarrow> node_insert E (Suc f) path v t = node_insert E (if blinded t then f else Suc f) path v (reveal E t)"
  by (cases t) (simp_all add: reveal_Blinded del: node_insert.simps(2), simp add: reveal_Blinded)

lemma node_insert_down:
  "node_insert E (Suc f) (p @ k) v (Extension p c) = below (Extension p) (node_insert E f k v c)"
  "unat x < length stack \<Longrightarrow> node_insert E (Suc f) (x # rest) v (Branch stack) =
     below (\<lambda>c. Branch (stack[unat x := c])) (node_insert E f rest v (stack ! unat x))"
  by (simp_all add: common_prefix_length_full)

lemma branching_mono: "branching m \<Longrightarrow> dom m \<subseteq> dom m' \<Longrightarrow> branching m'"
  unfolding branching_def by blast

lemma node_insert_revealed:
  assumes "trie E t m" and "uniform n m" and "length path = n" and "nibbled path" and "2 * n + 1 \<le> fuel"
  shows "\<exists>t'. node_insert E fuel path v (reveal E t) = Some (Ok (), t') \<and> trie E t' (m(path \<mapsto> v))"
  using assms
proof (induction arbitrary: n path fuel rule: trie.induct)
  case trie_Empty
  then show ?case using trie.trie_Leaf [of E path v] by (cases fuel) (auto simp: fun_upd_def)
next
  case (trie_Leaf p lv)
  then obtain f where f: "fuel = Suc f" by (cases fuel) auto
  have p: "length p = n" "nibbled p" using trie_Leaf.prems(1) by (auto simp: uniform_def)
  show ?case
  proof (cases "path = p")
    case True
    then have "trie E (Leaf p v) ([p \<mapsto> lv](path \<mapsto> v))" using trie.trie_Leaf [of E p v] by (metis fun_upd_upd)
    with f True show ?thesis by (simp add: fun_upd_def cong: if_cong)
  next
    case False
    then have "\<not> prefix p path" using p(1) trie_Leaf.prems(2) by (auto simp: prefix_def)
    then obtain w x r y q where d: "path = w @ x # r" "p = w @ y # q" "x \<noteq> y" "unat x < 16" "unat y < 16"
      using diverging [of p path] p trie_Leaf.prems by auto
    from split_node_trie [OF d, of E "\<lambda>p. Leaf p lv" "[q \<mapsto> lv]" v] trie.trie_Leaf [of E q lv]
    obtain t' where "split_node path p v (\<lambda>p. Leaf p lv) = Some t'" "trie E t' ([p \<mapsto> lv](path \<mapsto> v))"
      by (auto simp: under_path_single d(2))
    with f False show ?thesis by (auto simp: replace_by_def fun_upd_def)
  qed
next
  case (trie_Extension p c m)
  then obtain f where f: "fuel = Suc (Suc f)" by (cases fuel; cases "fuel - 1") (auto dest: uniform_under(2))
  note u = uniform_under [OF trie_Extension.prems(1) trie_Extension.hyps(3)]
  show ?case
  proof (cases "prefix p path")
    case True
    then obtain k where path: "path = p @ k" by (auto simp: prefix_def)
    then have k: "length k = n - length p" "nibbled k" using trie_Extension.prems by (auto simp: nibbled_def)
    have "2 * (n - length p) + 1 \<le> (if blinded c then f else Suc f)"
      using trie_Extension.prems(4) f u(2) trie_Extension.hyps(1) by (cases p) auto
    from trie_Extension.IH [OF u(1) k this] obtain t' where
      t: "node_insert E (Suc f) k v c = Some (Ok (), t')" "trie E t' (m(k \<mapsto> v))"
      unfolding node_insert_reveal [OF trie_Extension.hyps(2)] by blast
    moreover have "branching (m(k \<mapsto> v))" using trie_Extension.hyps(3) by (rule branching_mono) auto
    ultimately have "trie E (Extension p t') ((under_path p m)(path \<mapsto> v))"
      using trie.trie_Extension [OF trie_Extension.hyps(1)] by (metis path under_path_upd)
    then show ?thesis using t(1) by (auto simp: f path node_insert_down fun_upd_def simp del: node_insert.simps)
  next
    case False
    then obtain w x r y q where d: "path = w @ x # r" "p = w @ y # q" "x \<noteq> y" "unat x < 16" "unat y < 16"
      using diverging [of p path] u trie_Extension.prems by auto
    let ?mo = "if q = [] then m else under_path q m"
    have "trie E (if q = [] then c else Extension q c) ?mo"
      using trie_Extension.hyps trie.trie_Extension [of q E c m] by auto
    moreover have "dom ?mo \<noteq> {}"
      using branching_nonempty [OF trie_Extension.hyps(3)] by (simp add: dom_under del: dom_eq_empty_conv)
    ultimately obtain t' where "split_node path p v (\<lambda>q. if q = [] then c else Extension q c) = Some t'"
      "trie E t' ((under_path (w @ [y]) ?mo)(path \<mapsto> v))"
      using split_node_trie [OF d, of E "\<lambda>q. if q = [] then c else Extension q c" ?mo v] by auto
    moreover have "under_path (w @ [y]) ?mo = under_path p m" using d(2) by (simp add: under_path_under)
    ultimately show ?thesis using f False by (auto simp: replace_by_def common_prefix_length_full fun_upd_def)
  qed
next
  case (trie_Branch stack ms)
  then obtain f x rest where f: "fuel = Suc (Suc f)" "path = x # rest"
    using uniform_branching [of n "branch_map ms"] by (cases fuel; cases "fuel - 1"; cases path) auto
  then have x: "unat x < 16" "length rest = n - 1" "nibbled rest" "2 * (n - 1) + 2 \<le> Suc f"
    using trie_Branch.prems by (auto simp: nibbled_def)
  then have "2 * (n - 1) + 1 \<le> (if blinded (stack ! unat x) then f else Suc f)" by auto
  from trie_Branch.IH [OF x(1) uniform_branch [OF trie_Branch.prems(1) x(1)] x(2,3) this]
  obtain t' where t': "node_insert E (Suc f) rest v (stack ! unat x) = Some (Ok (), t')" "trie E t' ((ms (unat x))(rest \<mapsto> v))"
    unfolding node_insert_reveal [OF trie_Branch.hyps(3) [OF x(1)]] by blast
  have "branching (branch_map (ms(unat x := (ms (unat x))(rest \<mapsto> v))))"
    unfolding branch_map_update [OF x(1)] using trie_Branch.hyps(4) by (rule branching_mono) auto
  then have "trie E (Branch (stack[unat x := t'])) (branch_map (ms(unat x := (ms (unat x))(rest \<mapsto> v))))"
    using trie_Branch x t' by (intro trie_Branch_update) auto
  then have "trie E (Branch (stack[unat x := t'])) ((branch_map ms)(x # rest \<mapsto> v))" by (simp add: branch_map_update x(1))
  moreover have "unat x < length stack" using trie_Branch.hyps(1) x(1) by (simp add: BRANCH_LIST_LENGTH_def)
  ultimately show ?case using t'(1) by (auto simp: f node_insert_down fun_upd_def simp del: node_insert.simps)
next
  case (trie_Blinded h nd m)
  then show ?case by (simp add: reveal_known)
qed

section \<open>Deleting\<close>

text \<open>
  The laws of the parameters that deletion relies on: packing halves the number of nibbles,
  and the hinter accepts every request.
\<close>

definition hints_ok :: "trie_env \<Rightarrow> bool" where
  "hints_ok E \<longleftrightarrow> (\<forall>ns. length ns = 64 \<longrightarrow> length (te_pack E ns) = 32) \<and> (\<forall>h s. te_hint_account_proof E h s = Ok ())"

text \<open>What is left of a branch with one child.\<close>

definition lone :: "nat \<Rightarrow> trie_node \<Rightarrow> trie_node" where
  "lone i c =
     (case c of
        Leaf p v \<Rightarrow> Leaf (of_nat i # p) v
      | Extension p d \<Rightarrow> Extension (of_nat i # p) d
      | _ \<Rightarrow> Extension [of_nat i] c)"

lemma trie_lone:
  assumes "trie E c m" and "\<not> blinded c" and "c \<noteq> Empty"
  shows "trie E (lone i c) (under_path [of_nat i] m) \<and> \<not> blinded (lone i c) \<and> lone i c \<noteq> Empty"
  using assms
proof cases
  case (trie_Leaf p v)
  then show ?thesis using trie.trie_Leaf [of E "of_nat i # p" v] by (simp add: lone_def under_path_single)
next
  case (trie_Extension p d m')
  then show ?thesis using trie.trie_Extension [of "of_nat i # p" E d m'] by (simp add: lone_def under_path_under)
next
  case (trie_Branch stack ms)
  then show ?thesis using trie.trie_Extension [OF _ assms(1), of "[of_nat i]"] by (simp add: lone_def)
qed (use assms in auto)

lemma collapse_lone:
  assumes "filter (\<lambda>j. stack ! j \<noteq> Empty) [0..<length stack] = [i]" and "\<not> blinded (stack ! i)" and "stack ! i \<noteq> Empty"
  shows "collapse_if_possible E (Suc f) w ls (Branch stack) = Some (Ok (), lone i (stack ! i))"
  using assms by (cases "stack ! i") (simp_all add: lone_def)

lemma collapse_lone_trie:
  assumes one: "filter (\<lambda>j. stack ! j \<noteq> Empty) [0..<length stack] = [i]" and "hints_ok E" and "length w < 64"
    and t: "trie E (stack ! i) m" "stack ! i \<noteq> Empty"
  shows "\<exists>t'. collapse_if_possible E (Suc (Suc f)) w ls (Branch stack) = Some (Ok (), t') \<and> trie E t' (under_path [of_nat i] m)
     \<and> \<not> blinded t' \<and> t' \<noteq> Empty"
proof (cases "stack ! i")
  case (Blinded h)
  note u = unblind_trie [OF t(1)]
  let ?stack = "stack[i := reveal E (stack ! i)]"
  have "i \<in> set (filter (\<lambda>j. stack ! j \<noteq> Empty) [0..<length stack])" unfolding one by simp
  then have i: "i < length stack" by simp
  have ne: "reveal E (stack ! i) \<noteq> Empty" using t Blinded by (auto elim: trie_BlindedE simp: reveal_known)
  have "filter (\<lambda>j. ?stack ! j \<noteq> Empty) [0..<length ?stack] = [i]"
    unfolding one [symmetric] using t(2) ne i by (intro filter_cong) (auto simp: nth_list_update)
  then have "collapse_if_possible E (Suc f) w ls (Branch ?stack) = Some (Ok (), lone i (reveal E (stack ! i)))"
    using collapse_lone [of ?stack i E f w ls] u ne i by simp
  moreover have "hinted_hash E (w @ [of_nat i]) = Ok (te_pack E ((w @ [of_nat i]) @ replicate (64 - length (w @ [of_nat i])) 0))"
    using assms(2,3) by (simp add: hinted_hash_def hints_ok_def)
  ultimately have "collapse_if_possible E (Suc (Suc f)) w ls (Branch stack) = Some (Ok (), lone i (reveal E (stack ! i)))"
    using one Blinded u assms(2) by (simp add: hints_ok_def)
  with trie_lone [of E "reveal E (stack ! i)" m i] u ne show ?thesis by blast
qed (use assms collapse_lone [of stack i E "Suc f" w ls] trie_lone [of E "stack ! i" m i] in auto)

lemma distinct_singleton: "\<lbrakk> distinct xs; set xs = {a} \<rbrakk> \<Longrightarrow> xs = [a]"
  by (cases xs; cases "tl xs") auto

lemma node_delete_reveal:
  "trie E t m \<Longrightarrow> node_delete E (Suc f) path w ls t = node_delete E (if blinded t then f else Suc f) path w ls (reveal E t)"
  by (cases t) (simp_all add: reveal_Blinded del: node_delete.simps(2), simp add: reveal_Blinded)

lemma node_delete_down:
  "k \<noteq> [] \<Longrightarrow> node_delete E (Suc f) (p @ k) w ls (Extension p c) =
     andthen (below (Extension p) (node_delete E f k (w @ p) ls c)) (collapse_if_possible E f w ls)"
  "unat x < length stack \<Longrightarrow> node_delete E (Suc f) (x # rest) w ls (Branch stack) =
     andthen (below (\<lambda>c. Branch (stack[unat x := c])) (node_delete E f rest (w @ [x]) ls (stack ! unat x)))
       (collapse_if_possible E f w ls)"
  using common_prefix_length_full [of "p @ k" p] by simp_all

text \<open>A branch after one of its children was changed; it had two children before.\<close>

lemma collapse_branch_trie:
  assumes "length stack = BRANCH_LIST_LENGTH" "stack ! 16 = Empty" and t: "\<And>i. i < 16 \<Longrightarrow> trie E (stack ! i) (ms i)"
    and ne: "dom (branch_map ms) \<noteq> {}" and "hints_ok E" and "length w < 64"
  shows "\<exists>t'. collapse_if_possible E (Suc (Suc f)) w ls (Branch stack) = Some (Ok (), t') \<and> trie E t' (branch_map ms)
     \<and> \<not> blinded t' \<and> t' \<noteq> Empty"
proof -
  define js where "js = filter (\<lambda>j. stack ! j \<noteq> Empty) [0..<length stack]"
  have js: "set js = {i. i < 16 \<and> stack ! i \<noteq> Empty}"
  proof -
    have "i < 17 \<longleftrightarrow> i < 16 \<or> i = 16" for i :: nat by linarith
    then show ?thesis using assms(1,2) by (auto simp: js_def BRANCH_LIST_LENGTH_def)
  qed
  have child: "stack ! i = Empty \<longleftrightarrow> dom (ms i) = {}" if "i < 16" for i
  proof (cases "stack ! i = Empty")
    case True
    with t [OF that] have "trie E Empty (ms i)" by simp
    with True show ?thesis by (auto elim: trie_EmptyE)
  qed (use trie_nonempty [OF t [OF that]] in simp)
  from ne obtain key where "key \<in> dom (branch_map ms)" by blast
  then obtain x :: u8 and k where x: "unat x < 16" "k \<in> dom (ms (unat x))" unfolding dom_branch_map by blast
  then have xj: "unat x \<in> set js" using child js by auto
  show ?thesis
  proof (cases "\<exists>i. js = [i]")
    case True
    then have one: "js = [unat x]" using xj by auto
    then have "ms j = Map.empty" if "j < 16" "j \<noteq> unat x" for j using js child that by auto
    then have "branch_map ms = under_path [x] (ms (unat x))"
      using x(1) by (auto simp: branch_map_def under_path_def fun_eq_iff word_unat_eq_iff split: list.split)
    moreover have "stack ! unat x \<noteq> Empty" using js xj by auto
    ultimately show ?thesis
      using collapse_lone_trie [OF one [unfolded js_def] assms(5,6) t [OF x(1)], of f ls] by simp
  next
    case False
    moreover have "distinct js" by (simp add: js_def)
    ultimately have "set js \<noteq> {unat x}" using distinct_singleton [of js "unat x"] by auto
    with xj obtain j where "j \<in> set js" "j \<noteq> unat x" by blast
    then have "j < 16" "dom (ms j) \<noteq> {}" using js child [of j] by auto
    then obtain k' where j: "j < 16" "k' \<in> dom (ms j)" by blast
    then have "branching (branch_map ms)"
      using x \<open>j \<noteq> unat x\<close> by (intro branchingI [of x "of_nat j" k _ k']) auto
    then have "trie E (Branch stack) (branch_map ms)" using assms t by (intro trie_Branch) auto
    moreover have "collapse_if_possible E (Suc (Suc f)) w ls (Branch stack) = Some (Ok (), Branch stack)"
      using False unfolding js_def by (auto split: list.split)
    ultimately show ?thesis by auto
  qed
qed

text \<open>An extension after its child lost a key.\<close>

lemma collapse_extension_trie:
  assumes "p \<noteq> []" and "trie E c m" and "\<not> blinded c" and "c \<noteq> Empty"
  shows "\<exists>t'. collapse_if_possible E (Suc f) w ls (Extension p c) = Some (Ok (), t') \<and> trie E t' (under_path p m)
     \<and> \<not> blinded t' \<and> t' \<noteq> Empty"
  using assms(2)
proof cases
  case (trie_Leaf q v)
  then show ?thesis using trie.trie_Leaf [of E "p @ q" v] by (simp add: under_path_single)
next
  case (trie_Extension q d m')
  then show ?thesis using trie.trie_Extension [of "p @ q" E d m'] by (simp add: under_path_under)
next
  case (trie_Branch stack ms)
  then show ?thesis using trie.trie_Extension [OF assms(1,2)] by simp
qed (use assms in auto)

text \<open>A branching map has a key left when one is taken away.\<close>

lemma branching_remains: "branching m \<Longrightarrow> dom (m(k := None)) \<noteq> {}"
proof -
  assume "branching m"
  then obtain x xs y ys where "x \<noteq> y" "x # xs \<in> dom m" "y # ys \<in> dom m" unfolding branching_def by blast
  then have "x # xs \<in> dom (m(k := None)) \<or> y # ys \<in> dom (m(k := None))" by auto
  then show ?thesis by blast
qed

text \<open>The outcome of a deletion: the key is gone, or was not there.\<close>

definition deleted :: "trie_env \<Rightarrow> tmap \<Rightarrow> nibbles \<Rightarrow> (unit, trie_node_error) walk \<Rightarrow> bool" where
  "deleted E m path r \<longleftrightarrow>
     (\<exists>t'. r = Some (if path \<in> dom m then Ok () else Err KeyNotFound, t') \<and> trie E t' (m(path := None)) \<and> \<not> blinded t')"

lemma node_delete_revealed:
  assumes "trie E t m" and "uniform n m" and "length path = n" and "nibbled path" and "2 * n + 2 \<le> fuel"
    and "hints_ok E" and "length w + n \<le> 64"
  shows "deleted E m path (node_delete E fuel path w ls (reveal E t))"
  using assms
proof (induction arbitrary: n path fuel w rule: trie.induct)
  case trie_Empty
  then show ?case using trie.trie_Empty [of E] by (cases fuel) (auto simp: deleted_def fun_upd_def)
next
  case (trie_Leaf p v)
  then obtain f where f: "fuel = Suc f" by (cases fuel) auto
  show ?case
  proof (cases "path = p")
    case True
    with f trie.trie_Empty [of E] show ?thesis by (simp add: deleted_def domIff fun_upd_def cong: if_cong)
  next
    case False
    then have "[p \<mapsto> v](path := None) = [p \<mapsto> v]" by (simp add: fun_upd_idem)
    with False f trie.trie_Leaf [of E p v] show ?thesis by (simp add: deleted_def domIff fun_upd_def)
  qed
next
  case (trie_Extension p c m)
  then obtain f where f: "fuel = Suc (Suc (Suc f))" by (cases fuel; cases "fuel - 1"; cases "fuel - 2") (auto dest: uniform_under(2))
  note u = uniform_under [OF trie_Extension.prems(1) trie_Extension.hyps(3)]
  show ?case
  proof (cases "prefix p path")
    case True
    then obtain k where path: "path = p @ k" by (auto simp: prefix_def)
    then have k: "length k = n - length p" "nibbled k" "k \<noteq> []" using trie_Extension.prems u(2) by (auto simp: nibbled_def)
    have "2 * (n - length p) + 2 \<le> (if blinded c then Suc f else Suc (Suc f))" "length (w @ p) + (n - length p) \<le> 64"
      using trie_Extension.prems(4,6) f u(2) trie_Extension.hyps(1) by (cases p; auto)+
    from trie_Extension.IH [OF u(1) k(1,2) this(1) trie_Extension.prems(5) this(2)]
    have "deleted E m k (node_delete E (Suc (Suc f)) k (w @ p) ls c)"
      unfolding node_delete_reveal [OF trie_Extension.hyps(2)] .
    then obtain c' where c: "node_delete E (Suc (Suc f)) k (w @ p) ls c = Some (if k \<in> dom m then Ok () else Err KeyNotFound, c')"
      "trie E c' (m(k := None))" "\<not> blinded c'" by (auto simp: deleted_def)
    have m: "(under_path p m)(p @ k := None) = under_path p (m(k := None))" "path \<in> dom (under_path p m) \<longleftrightarrow> k \<in> dom m"
      by (simp_all add: path under_path_upd domIff)
    show ?thesis
    proof (cases "k \<in> dom m")
      case True
      have "c' \<noteq> Empty" using branching_remains [OF trie_Extension.hyps(3), of k] c(2) trie_Empty_iff by (metis dom_empty)
      from collapse_extension_trie [OF trie_Extension.hyps(1) c(2,3) this, of "Suc f" w ls] True c(1) show ?thesis
        by (auto simp: deleted_def m f path node_delete_down(1) [OF k(3)] simp del: node_delete.simps collapse_if_possible.simps fun_upd_apply)
    next
      case False
      then have "m(k := None) = m" by (auto simp: domIff fun_upd_idem)
      with trie.trie_Extension [OF trie_Extension.hyps(1) _ trie_Extension.hyps(3), of E c'] c False show ?thesis
        by (auto simp: deleted_def m f path node_delete_down(1) [OF k(3)] simp del: node_delete.simps collapse_if_possible.simps fun_upd_apply)
    qed
  next
    case False
    then have "common_prefix_length path p < length p"
      using common_prefix_length_full [of path p] common_prefix_length_le [of path p] by auto
    moreover have "under_path p m path = None" using False by (simp add: under_None)
    ultimately show ?thesis
      using trie.trie_Extension [OF trie_Extension.hyps] f by (simp add: deleted_def domIff fun_upd_idem)
  qed
next
  case (trie_Branch stack ms)
  then obtain f x rest where f: "fuel = Suc (Suc (Suc f))" "path = x # rest"
    using uniform_branching [of n "branch_map ms"] by (cases fuel; cases "fuel - 1"; cases "fuel - 2"; cases path) auto
  then have x: "unat x < 16" "length rest = n - 1" "nibbled rest" "2 * (n - 1) + 3 \<le> Suc (Suc f)" "length (w @ [x]) + (n - 1) \<le> 64"
    using trie_Branch.prems by (auto simp: nibbled_def)
  then have "2 * (n - 1) + 2 \<le> (if blinded (stack ! unat x) then Suc f else Suc (Suc f))" by auto
  from trie_Branch.IH [OF x(1) uniform_branch [OF trie_Branch.prems(1) x(1)] x(2,3) this trie_Branch.prems(5) x(5)]
  obtain c where c: "node_delete E (Suc (Suc f)) rest (w @ [x]) ls (stack ! unat x) =
      Some (if rest \<in> dom (ms (unat x)) then Ok () else Err KeyNotFound, c)"
    "trie E c ((ms (unat x))(rest := None))"
    unfolding node_delete_reveal [OF trie_Branch.hyps(3) [OF x(1)]] deleted_def by blast
  let ?ms = "ms(unat x := (ms (unat x))(rest := None))" and ?stack = "stack[unat x := c]"
  have len: "unat x < length stack" using trie_Branch.hyps(1) x(1) by (simp add: BRANCH_LIST_LENGTH_def)
  have m: "branch_map ?ms = (branch_map ms)(path := None)" "path \<in> dom (branch_map ms) \<longleftrightarrow> rest \<in> dom (ms (unat x))"
    using x(1) by (simp_all add: branch_map_update f domIff)
  note step = node_delete_down(2) [OF len, of E "Suc (Suc f)" rest w ls]
  show ?case
  proof (cases "rest \<in> dom (ms (unat x))")
    case True
    have "length ?stack = BRANCH_LIST_LENGTH" "?stack ! 16 = Empty" "\<And>i. i < 16 \<Longrightarrow> trie E (?stack ! i) (?ms i)"
      using trie_Branch.hyps x(1) c(2) len by (auto simp: nth_list_update)
    moreover have "dom (branch_map ?ms) \<noteq> {}" unfolding m(1) by (rule branching_remains [OF trie_Branch.hyps(4)])
    ultimately obtain t' where "collapse_if_possible E (Suc (Suc f)) w ls (Branch ?stack) = Some (Ok (), t')"
      "trie E t' (branch_map ?ms)" "\<not> blinded t'"
      using collapse_branch_trie [of ?stack E ?ms w f ls] trie_Branch.prems(5,6) x(5) by auto
    then show ?thesis using True c(1) x(1)
      by (auto simp: deleted_def m f step simp del: node_delete.simps collapse_if_possible.simps fun_upd_apply)
  next
    case False
    then have "(ms (unat x))(rest := None) = ms (unat x)" by (auto simp: domIff fun_upd_idem)
    with c(2) have "trie E (Branch ?stack) (branch_map ms)"
      using trie_Branch_update [OF trie_Branch.hyps(1-3) x(1), of c "ms (unat x)"] trie_Branch.hyps(4) by simp
    moreover have "(branch_map ms)(path := None) = branch_map ms" using False m(2) by (auto simp: domIff fun_upd_idem)
    ultimately show ?thesis using False c(1) x(1)
      by (auto simp: deleted_def m(2) f step simp del: node_delete.simps collapse_if_possible.simps fun_upd_apply)
  qed
next
  case (trie_Blinded h nd m)
  then show ?case by (simp add: reveal_known)
qed

section \<open>Encodings and commitments\<close>

text \<open>The laws of \<^verbatim>\<open>alloy_rlp\<close> and \<^verbatim>\<open>alloy_trie\<close> about the lengths of what they encode.\<close>

definition rlp_laws :: "trie_env \<Rightarrow> bool" where
  "rlp_laws E \<longleftrightarrow>
     (\<forall>n. length (te_header E n) = te_header_length E n)
   \<and> (\<forall>b. length (te_bytes E b) = te_bytes_length E b)
   \<and> (\<forall>b. te_bytes_length E b = (if length b = 1 \<and> hd b < 0x80 then 1 else length b + te_length_of_length E (length b)))
   \<and> (\<forall>h. length (te_b256 E h) = te_b256_length E) \<and> te_b256_length E = 33
   \<and> (\<forall>p l. length (te_path E p l) = length p div 2 + 1 \<and> hd (te_path E p l) < 0x40)"

lemma path_length:
  assumes "rlp_laws E"
  shows "te_bytes_length E (te_path E p l) = encoded_key_length E p"
proof -
  have "hd (te_path E p l) < 0x40" "length (te_path E p l) = length p div 2 + 1" using assms by (auto simp: rlp_laws_def)
  then have "hd (te_path E p l) < 0x80" by (auto intro: order.strict_trans)
  with assms show ?thesis by (auto simp: rlp_laws_def encoded_key_length_def)
qed

definition child_code :: "trie_env \<Rightarrow> trie_node \<Rightarrow> bytes" where
  "child_code E c = (if node_length E c \<ge> 32 then te_b256 E (blind E c) else encode_node E c)"

lemma node_length_simps:
  "node_length E Empty = 1" "node_length E (Blinded h) = te_b256_length E"
  "node_length E (Leaf p v) = te_header_length E (payload_length E (Leaf p v)) + payload_length E (Leaf p v)"
  "node_length E (Extension p c) = te_header_length E (payload_length E (Extension p c)) + payload_length E (Extension p c)"
  "node_length E (Branch stack) = te_header_length E (payload_length E (Branch stack)) + payload_length E (Branch stack)"
  by (simp_all add: node_length_def length_from_def)

lemma payload_length_children:
  "payload_length E (Extension p c) = encoded_key_length E p + blinded_length E c"
  "payload_length E (Branch stack) = sum_list (map (blinded_length E) stack)"
  by (simp_all add: blinded_length_def [abs_def] node_length_def [abs_def])

lemma encode_node_children:
  "encode_node E (Extension p c) = te_header E (payload_length E (Extension p c)) @ te_bytes E (te_path E p False) @ child_code E c"
  "encode_node E (Branch stack) = te_header E (payload_length E (Branch stack)) @ concat (map (child_code E) stack)"
  by (simp_all add: child_code_def [abs_def] blind_def cong: if_cong)

lemma child_code_length:
  assumes "rlp_laws E" and "length (encode_node E c) = node_length E c"
  shows "length (child_code E c) = blinded_length E c"
  using assms by (auto simp: child_code_def blinded_length_def cap_length_def rlp_laws_def)

lemma encode_node_length:
  assumes "rlp_laws E"
  shows "length (encode_node E t) = node_length E t"
proof (induction t)
  case (Leaf p v)
  then show ?case using assms path_length [OF assms] by (simp add: node_length_simps rlp_laws_def)
next
  case (Extension p c)
  have "length (te_bytes E (te_path E p False)) = encoded_key_length E p"
    using assms path_length [OF assms] by (simp add: rlp_laws_def)
  moreover have "length (te_header E n) = te_header_length E n" for n using assms by (simp add: rlp_laws_def)
  ultimately show ?case
    using child_code_length [OF assms Extension]
    by (simp add: encode_node_children node_length_simps payload_length_children del: encode_node.simps payload_length.simps)
next
  case (Branch stack)
  have "sum_list (map (length \<circ> child_code E) stack) = sum_list (map (blinded_length E) stack)"
    using child_code_length [OF assms Branch] by (intro arg_cong [where f = sum_list]) simp
  moreover have "length (te_header E n) = te_header_length E n" for n using assms by (simp add: rlp_laws_def)
  ultimately show ?case
    by (simp add: encode_node_children node_length_simps payload_length_children length_concat del: encode_node.simps payload_length.simps)
qed (use assms in \<open>auto simp: node_length_simps rlp_laws_def\<close>)

text \<open>
  An honest provider returns the preimage of the hash it is asked for, and only nodes that a
  parent would blind are asked for.
\<close>

definition honest :: "trie_env \<Rightarrow> bool" where
  "honest E \<longleftrightarrow> (\<forall>h n. te_node E h = Ok n \<longrightarrow> te_keccak256 E (encode_node E n) = h \<and> 32 \<le> node_length E n)"

text \<open>Nodes that cannot be told apart by their commitment, nor by their parent.\<close>

definition same_code :: "trie_env \<Rightarrow> trie_node \<Rightarrow> trie_node \<Rightarrow> bool" where
  "same_code E t t' \<longleftrightarrow> child_code E t = child_code E t' \<and> blinded_length E t = blinded_length E t' \<and> blind E t = blind E t'"

lemma blind_known: "\<not> blinded n \<Longrightarrow> n \<noteq> Empty \<Longrightarrow> blind E n = te_keccak256 E (encode_node E n)"
  by (cases n) (simp_all add: blind_def blind_from_def)

lemma same_code_reveal:
  assumes "honest E" and "te_b256_length E = 33" and "trie E t m"
  shows "same_code E t (reveal E t)"
  using assms(3)
proof cases
  case (trie_Blinded h n)
  with assms(1) have "te_keccak256 E (encode_node E n) = h" "32 \<le> node_length E n" by (auto simp: honest_def)
  then show ?thesis
    using trie_Blinded assms(2) blind_known [of n E]
    by (simp add: reveal_known same_code_def child_code_def blinded_length_def cap_length_def node_length_simps blind_def blind_from_def)
qed (simp_all add: same_code_def)

text \<open>The shape of a canonical node follows from its map.\<close>

lemma branching_two: "branching m \<Longrightarrow> m \<noteq> [k \<mapsto> v]"
  unfolding branching_def by (auto simp: dom_def split: if_splits)

lemma branching_under: "branching (under_path p m) \<Longrightarrow> p = []"
  unfolding branching_def dom_under by (cases p) auto

lemma under_path_two: "branching m \<Longrightarrow> under_path p m \<noteq> [k \<mapsto> v]"
proof
  assume "branching m" and eq: "under_path p m = [k \<mapsto> v]"
  then obtain x xs y ys where b: "x \<noteq> y" "x # xs \<in> dom m" "y # ys \<in> dom m" unfolding branching_def by blast
  then have "p @ x # xs \<in> dom (under_path p m)" "p @ y # ys \<in> dom (under_path p m)" by (auto simp: dom_under)
  with eq have "p @ x # xs = k" "p @ y # ys = k" by (auto simp: dom_def split: if_splits)
  with b(1) show False by (metis list.inject same_append_eq)
qed

lemma branching_prefix:
  assumes "branching m" and "\<And>k. k \<in> dom m \<Longrightarrow> prefix q (p @ k)"
  shows "prefix q p"
proof -
  obtain x xs y ys where b: "x \<noteq> y" "x # xs \<in> dom m" "y # ys \<in> dom m" using assms(1) unfolding branching_def by blast
  then have q: "prefix q (p @ x # xs)" "prefix q (p @ y # ys)" using assms(2) by auto
  show ?thesis
  proof (rule ccontr)
    assume "\<not> prefix q p"
    with q(1) have l: "length p < length q" by (metis linorder_not_less prefix_length_prefix prefixI)
    have "q ! length p = x" "q ! length p = y" using q l by (auto simp: prefix_def nth_append dest!: arg_cong [where f = "\<lambda>l. l ! length p"])
    with b(1) show False by simp
  qed
qed

lemma under_path_inj:
  assumes eq: "under_path p m = under_path q m'" and b: "branching m" "branching m'"
  shows "p = q \<and> m = m'"
proof -
  have "prefix q (p @ k)" if "k \<in> dom m" for k
  proof -
    have "p @ k \<in> dom (under_path q m')" using that eq [symmetric] by (auto simp: dom_under)
    then show ?thesis by (auto simp: dom_under)
  qed
  moreover have "prefix p (q @ k)" if "k \<in> dom m'" for k
  proof -
    have "q @ k \<in> dom (under_path p m)" using that eq by (auto simp: dom_under)
    then show ?thesis by (auto simp: dom_under)
  qed
  ultimately have "p = q" using branching_prefix [OF b(1)] branching_prefix [OF b(2)] prefix_order.antisym by blast
  moreover from this have "m k = m' k" for k using eq by (metis under_append)
  ultimately show ?thesis by auto
qed

lemma same_code_intro:
  assumes "encode_node E n = encode_node E n'" and "payload_length E n = payload_length E n'"
    and "\<not> blinded n" "\<not> blinded n'" "n \<noteq> Empty" "n' \<noteq> Empty"
  shows "same_code E n n'"
proof -
  have "node_length E n = node_length E n'"
    using assms by (cases n; cases n') (auto simp: node_length_def length_from_def simp del: payload_length.simps)
  then show ?thesis using assms blind_known [of n E] blind_known [of n' E]
    by (simp add: same_code_def child_code_def blinded_length_def)
qed

lemma branch_map_inj: "branch_map ms = branch_map ms' \<Longrightarrow> i < 16 \<Longrightarrow> ms i = ms' i"
  by (metis child_key ext)

lemma same_code_trans: "\<lbrakk> same_code E a b; same_code E b c \<rbrakk> \<Longrightarrow> same_code E a c"
  and same_code_sym: "same_code E a b \<Longrightarrow> same_code E b a"
  by (simp_all add: same_code_def)

text \<open>Unblinded nodes by the shape of their map.\<close>

lemma trie_single:
  assumes "trie E t m" and "m = [p \<mapsto> v]" and "\<not> blinded t"
  shows "t = Leaf p v"
  using assms(1)
proof cases
  case trie_Empty
  with assms(2) show ?thesis by (metis map_upd_nonempty)
next
  case (trie_Leaf q u)
  with assms(2) have "[q \<mapsto> u] = [p \<mapsto> v]" by simp
  from fun_cong [OF this, of q] have "q = p" "u = v" by (auto split: if_splits)
  with trie_Leaf show ?thesis by simp
next
  case (trie_Extension q c mc)
  with assms(2) under_path_two show ?thesis by metis
next
  case (trie_Branch stack ms)
  with assms(2) branching_two show ?thesis by metis
qed (use assms(3) in auto)

lemma trie_under:
  assumes "trie E t m" and "m = under_path p mc" and "branching mc" and "p \<noteq> []" and "\<not> blinded t"
  shows "\<exists>c. t = Extension p c \<and> trie E c mc"
  using assms(1)
proof cases
  case trie_Empty
  with assms(2) have "dom (under_path p mc) = {}" by simp
  with branching_nonempty [OF assms(3)] show ?thesis by (simp add: dom_under del: dom_eq_empty_conv)
next
  case (trie_Leaf q u)
  with assms(2) under_path_two [OF assms(3)] show ?thesis by metis
next
  case (trie_Extension q c m')
  with assms(2,3) under_path_inj [of q m' p mc] show ?thesis by auto
next
  case (trie_Branch stack ms)
  with assms(2,4) branching_under [of p mc] show ?thesis by auto
qed (use assms(5) in auto)

lemma trie_branching:
  assumes "trie E t m" and "branching m" and "\<not> blinded t"
  shows "\<exists>stack ms. t = Branch stack \<and> m = branch_map ms \<and> length stack = BRANCH_LIST_LENGTH \<and> stack ! 16 = Empty
     \<and> (\<forall>i < 16. trie E (stack ! i) (ms i))"
  using assms(1)
proof cases
  case trie_Empty
  with branching_nonempty [OF assms(2)] show ?thesis by simp
next
  case (trie_Leaf q u)
  with branching_two [OF assms(2)] show ?thesis by metis
next
  case (trie_Extension q c m')
  with assms(2) branching_under [of q m'] show ?thesis by auto
next
  case (trie_Branch stack ms)
  then show ?thesis by blast
qed (use assms(3) in auto)

lemma trie_same_code:
  assumes "honest E" and "te_b256_length E = 33" and "trie E t m" and "trie E t' m"
  shows "same_code E t t'"
proof -
  have "same_code E (reveal E t) (reveal E t')" using assms(3,4)
  proof (induction arbitrary: t' rule: trie.induct)
    case trie_Empty
    then have "reveal E t' = Empty"
      using trie_nonempty [of E "reveal E t'" Map.empty] unblind_trie [OF trie_Empty] by auto
    then show ?case by (simp add: same_code_def)
  next
    case (trie_Leaf p v)
    then have "reveal E t' = Leaf p v" using trie_single [OF _ refl] unblind_trie [OF trie_Leaf] by blast
    then show ?case by (simp add: same_code_def)
  next
    case (trie_Extension p c m)
    then obtain d where d: "reveal E t' = Extension p d" "trie E d m"
      using trie_under [OF _ refl] unblind_trie [OF trie_Extension.prems] by blast
    have "same_code E c d"
      using trie_Extension.IH [OF d(2)] same_code_reveal [OF assms(1,2)] trie_Extension.hyps(2) d(2)
      by (meson same_code_sym same_code_trans)
    then show ?case
      unfolding d(1) by (simp del: encode_node.simps payload_length.simps, intro same_code_intro)
       (simp_all add: encode_node_children payload_length_children same_code_def del: encode_node.simps payload_length.simps)
  next
    case (trie_Branch stack ms)
    then obtain stack' ms' where b: "reveal E t' = Branch stack'" "branch_map ms = branch_map ms'" "length stack' = BRANCH_LIST_LENGTH"
      "stack' ! 16 = Empty" "\<forall>i < 16. trie E (stack' ! i) (ms' i)"
      using trie_branching [of E "reveal E t'" "branch_map ms"] unblind_trie [OF trie_Branch.prems] by blast
    have "same_code E (stack ! i) (stack' ! i)" if "i < 17" for i
    proof (cases "i = 16")
      case False
      with that have i: "i < 16" by simp
      with b have ti: "trie E (stack' ! i) (ms i)" using branch_map_inj [OF b(2) i] by simp
      show ?thesis
        using trie_Branch.IH [OF i ti] same_code_reveal [OF assms(1,2)] trie_Branch.hyps(3) [OF i] ti
        by (meson same_code_sym same_code_trans)
    qed (use b trie_Branch.hyps(2) in \<open>simp add: same_code_def\<close>)
    then have "map (child_code E) stack = map (child_code E) stack'" "map (blinded_length E) stack = map (blinded_length E) stack'"
      using trie_Branch.hyps(1) b(3) by (auto simp: list_eq_iff_nth_eq same_code_def BRANCH_LIST_LENGTH_def)
    then show ?case
      unfolding b(1) by (simp del: encode_node.simps payload_length.simps, intro same_code_intro)
       (simp_all add: encode_node_children payload_length_children del: encode_node.simps payload_length.simps)
  next
    case (trie_Blinded h n m)
    then show ?case by (simp add: reveal_known)
  qed
  then show ?thesis
    using same_code_reveal [OF assms(1,2)] assms(3,4) by (meson same_code_sym same_code_trans)
qed

section \<open>Authenticated maps\<close>

text \<open>
  What the state database relies on: updates and deletions that implement those of a map,
  and a commitment that depends on the map only.
\<close>

locale authenticated_map =
  fixes repr :: "'t \<Rightarrow> ('k \<rightharpoonup> 'v) \<Rightarrow> bool"
    and valid :: "'k \<Rightarrow> bool"
    and put :: "'k \<Rightarrow> 'v \<Rightarrow> 't \<Rightarrow> ((unit, 'e) res \<times> 't) option"
    and del :: "'k \<Rightarrow> 't \<Rightarrow> ((unit, 'e) res \<times> 't) option"
    and root :: "'t \<Rightarrow> 'r"
    and missing :: 'e
  assumes put_repr: "\<lbrakk> repr t m; valid k \<rbrakk> \<Longrightarrow> \<exists>t'. put k v t = Some (Ok (), t') \<and> repr t' (m(k \<mapsto> v))"
    and del_repr: "\<lbrakk> repr t m; valid k \<rbrakk> \<Longrightarrow>
           \<exists>t'. del k t = Some (if k \<in> dom m then Ok () else Err missing, t') \<and> repr t' (m(k := None))"
    and root_repr: "\<lbrakk> repr t m; repr t' m \<rbrakk> \<Longrightarrow> root t = root t'"
begin

text \<open>Writing a value or, for \<open>None\<close>, removing the key.\<close>

lemma change_repr:
  assumes "repr t m" and "valid k" and "x = None \<Longrightarrow> k \<in> dom m"
  shows "\<exists>t'. (case x of None \<Rightarrow> del k t | Some v \<Rightarrow> put k v t) = Some (Ok (), t') \<and> repr t' (m(k := x))"
  using del_repr [OF assms(1,2)] put_repr [OF assms(1,2)] assms(3) by (cases x) auto

end

text \<open>Keys of accounts: 64 nibbles. The walks need two rounds per nibble and three to spare.\<close>

definition account_key :: "nibbles \<Rightarrow> bool" where
  "account_key k \<longleftrightarrow> length k = 64 \<and> nibbled k"

definition walk_fuel :: nat where "walk_fuel = 131"

definition trie_laws :: "trie_env \<Rightarrow> bool" where
  "trie_laws E \<longleftrightarrow> honest E \<and> hints_ok E \<and> te_b256_length E = 33"

text \<open>A root may also be the commitment of the empty trie, which no provider is asked for.\<close>

definition stores :: "trie_env \<Rightarrow> trie_node \<Rightarrow> tmap \<Rightarrow> bool" where
  "stores E t m \<longleftrightarrow> trie_laws E \<and> uniform 64 m \<and> (trie E t m \<or> t = Blinded (te_empty_root E) \<and> m = Map.empty)"

lemma node_open_trie:
  assumes "trie E t m" and "uniform n m" and "length path = n" and "nibbled path" and "2 * n + 2 \<le> fuel"
  shows "\<exists>t'. node_open E fuel path t = Some (Ok (m path), t') \<and> trie E t' m"
proof -
  obtain f where f: "fuel = Suc f" using assms(5) by (cases fuel) auto
  then have "2 * n + 1 \<le> (if blinded t then f else Suc f)" using assms(5) by simp
  from node_open_revealed [OF assms(1-4) this] show ?thesis unfolding f node_open_reveal [OF assms(1)] .
qed

lemma node_insert_trie:
  assumes "trie E t m" and "uniform n m" and "length path = n" and "nibbled path" and "2 * n + 2 \<le> fuel"
  shows "\<exists>t'. node_insert E fuel path v t = Some (Ok (), t') \<and> trie E t' (m(path \<mapsto> v))"
proof -
  obtain f where f: "fuel = Suc f" using assms(5) by (cases fuel) auto
  then have "2 * n + 1 \<le> (if blinded t then f else Suc f)" using assms(5) by simp
  from node_insert_revealed [OF assms(1-4) this] show ?thesis unfolding f node_insert_reveal [OF assms(1)] .
qed

lemma node_delete_trie:
  assumes "trie E t m" and "uniform n m" and "length path = n" and "nibbled path" and "2 * n + 3 \<le> fuel"
    and "hints_ok E" and "length w + n \<le> 64"
  shows "deleted E m path (node_delete E fuel path w ls t)"
proof -
  obtain f where f: "fuel = Suc f" using assms(5) by (cases fuel) auto
  then have "2 * n + 2 \<le> (if blinded t then f else Suc f)" using assms(5) by simp
  from node_delete_revealed [OF assms(1-4) this assms(6,7)] show ?thesis unfolding f node_delete_reveal [OF assms(1)] .
qed

lemma uniform_upd: "uniform n m \<Longrightarrow> length k = n \<Longrightarrow> nibbled k \<Longrightarrow> uniform n (m(k := x))"
  by (cases x) (auto simp: uniform_def)

lemma empty_root_walks:
  "2 \<le> fuel \<Longrightarrow> node_insert E fuel path v (Blinded (te_empty_root E)) = Some (Ok (), Leaf path v)"
  "2 \<le> fuel \<Longrightarrow> node_delete E fuel path w ls (Blinded (te_empty_root E)) = Some (Err KeyNotFound, Empty)"
  by (cases fuel; cases "fuel - 1"; simp add: unblind_def)+

interpretation accounts: authenticated_map "stores E" account_key "node_insert E walk_fuel"
  "\<lambda>k. node_delete E walk_fuel k [] last_slot" "blind E" KeyNotFound for E last_slot
proof
  fix t t' :: trie_node and m :: tmap and k :: nibbles and v :: bytes
  assume s: "stores E t m"
  then have laws: "trie_laws E" "uniform 64 m" by (simp_all add: stores_def)
  have fuel: "2 \<le> walk_fuel" "2 * 64 + 3 \<le> walk_fuel" by (simp_all add: walk_fuel_def)
  {
    assume k: "account_key k"
    then have u: "uniform 64 (m(k := x))" for x using laws(2) by (simp add: account_key_def uniform_upd)
    show "\<exists>t'. node_insert E walk_fuel k v t = Some (Ok (), t') \<and> stores E t' (m(k \<mapsto> v))"
    proof (cases "trie E t m")
      case True
      from node_insert_trie [OF True laws(2), of k walk_fuel v] k fuel u laws(1) show ?thesis
        by (auto simp: account_key_def stores_def)
    next
      case False
      with s have "t = Blinded (te_empty_root E)" "m = Map.empty" by (auto simp: stores_def)
      with u [of "Some v"] laws(1) trie_Leaf [of E k v] show ?thesis
        by (simp add: empty_root_walks [OF fuel(1)] stores_def del: node_insert.simps)
    qed
    show "\<exists>t'. node_delete E walk_fuel k [] last_slot t = Some (if k \<in> dom m then Ok () else Err KeyNotFound, t') \<and> stores E t' (m(k := None))"
    proof (cases "trie E t m")
      case True
      have "deleted E m k (node_delete E walk_fuel k [] last_slot t)"
        using node_delete_trie [OF True laws(2), of k walk_fuel "[]" last_slot] k fuel laws(1) by (simp add: account_key_def trie_laws_def)
      with u laws(1) show ?thesis unfolding deleted_def stores_def by blast
    next
      case False
      with s have "t = Blinded (te_empty_root E)" "m = Map.empty" by (auto simp: stores_def)
      with laws trie_Empty [of E] show ?thesis
        by (simp add: empty_root_walks [OF fuel(1)] stores_def fun_upd_idem del: node_delete.simps)
    qed
  }
  assume s': "stores E t' m"
  have eq: "\<exists>n. trie E n m \<and> blind E n = blind E x" if "stores E x m" for x
  proof (cases "trie E x m")
    case False
    with that have "x = Blinded (te_empty_root E)" "m = Map.empty" by (auto simp: stores_def)
    then show ?thesis using trie_Empty [of E] by (auto simp: blind_def blind_from_def intro!: exI [of _ Empty])
  qed auto
  from eq [OF s] eq [OF s'] obtain n n' where "trie E n m" "trie E n' m" "blind E n = blind E t" "blind E n' = blind E t'" by blast
  with trie_same_code [of E n m n'] laws(1) show "blind E t = blind E t'" by (simp add: trie_laws_def same_code_def)
qed

section \<open>Properties\<close>

text \<open>
  Opening a path of a trie with keys of one length returns the value of the map the trie
  stands for, and the nodes opened on the way do not change that map. Twice the path length
  and two more rounds are enough; no index or slice is out of range.
\<close>

theorem node_open_reads_map:
  assumes "trie E t m" and "uniform n m" and "length path = n" and "nibbled path" and "2 * n + 2 \<le> fuel"
  shows "\<exists>t'. node_open E fuel path t = Some (Ok (m path), t') \<and> trie E t' m"
  by (rule node_open_trie [OF assms])

text \<open>
  C26: inserting into a trie with keys of one length updates the map it stands for and keeps its
  canonical shape.
\<close>

theorem node_insert_updates_map:
  assumes "trie E t m" and "uniform n m" and "length path = n" and "nibbled path" and "2 * n + 2 \<le> fuel"
  shows "\<exists>t'. node_insert E fuel path v t = Some (Ok (), t') \<and> trie E t' (m(path \<mapsto> v))"
  by (rule node_insert_trie [OF assms])

text \<open>
  C4: deleting a key of a trie removes it from the map the trie stands for, collapses the nodes
  above it to the canonical shape and reports a key that is not there.
\<close>

theorem node_delete_updates_map:
  assumes "trie E t m" and "uniform n m" and "length path = n" and "nibbled path" and "2 * n + 3 \<le> fuel"
    and "hints_ok E" and "n \<le> 64"
  shows "\<exists>t'. node_delete E fuel path [] last_slot t = Some (if path \<in> dom m then Ok () else Err KeyNotFound, t')
     \<and> trie E t' (m(path := None))"
  using node_delete_trie [OF assms(1-6), of "[]" last_slot] assms(7) unfolding deleted_def by (simp only: list.size add_0) blast

text \<open>
  C28: the commitment of a trie is a function of the map it stands for, whatever nodes are
  blinded and however the trie came about, as long as the provider answers with preimages.
\<close>

theorem root_is_function_of_map:
  assumes "honest E" and "te_b256_length E = 33" and "trie E t m" and "trie E t' m"
  shows "blind E t = blind E t'"
  using trie_same_code [OF assms] by (simp add: same_code_def)

text \<open>
  The length a node announces is the length of its encoding.
\<close>

theorem encoding_has_announced_length:
  assumes "rlp_laws E"
  shows "length (encode_node E t) = node_length E t"
  by (rule encode_node_length [OF assms])

subsection \<open>Examples\<close>

text \<open>
  An environment whose hash is the encoding itself, with one provider entry: the leaf for
  \<open>[2, 3]\<close> below a branch.
\<close>

definition ex_leaf :: trie_node where
  "ex_leaf = Leaf [3] (replicate 40 7)"

definition ex_length_of_length :: "nat \<Rightarrow> nat" where
  "ex_length_of_length n = (if n < 56 then 1 else 1 + length (be_of_nat 8 n))"

definition ex_pure_env :: trie_env where
  "ex_pure_env =
     \<lparr>te_node = (\<lambda>h. Err ''missing''), te_hint_account_proof = (\<lambda>h s. Ok ()), te_empty_root = [0x56],
      te_pack = (\<lambda>ns. replicate (length ns div 2) 0), te_path = (\<lambda>p l. replicate (length p div 2 + 1) (if l then 0x20 else 0)),
      te_keccak256 = (\<lambda>b. b), te_header = (\<lambda>n. replicate (ex_length_of_length n) 0xc0), te_header_length = ex_length_of_length,
      te_length_of_length = ex_length_of_length, te_bytes = (\<lambda>b. if length b = 1 \<and> hd b < 0x80 then b
        else replicate (ex_length_of_length (length b)) 0x80 @ b),
      te_bytes_length = (\<lambda>b. if length b = 1 \<and> hd b < 0x80 then 1 else length b + ex_length_of_length (length b)),
      te_b256 = (\<lambda>h. 0xa0 # take 32 (h @ replicate 32 0)), te_b256_length = 33\<rparr>"

definition ex_trie_env :: trie_env where
  "ex_trie_env = ex_pure_env\<lparr>te_node := (\<lambda>h. if h = encode_node ex_pure_env ex_leaf then Ok ex_leaf else Err ''missing'')\<rparr>"

definition ex_trie :: trie_node where
  "ex_trie = Branch ((replicate 17 Empty)[1 := Leaf [4] [9], 2 := Blinded (encode_node ex_pure_env ex_leaf)])"

definition ex_map :: tmap where
  "ex_map = [[1, 4] \<mapsto> [9], [2, 3] \<mapsto> replicate 40 7]"

lemma encode_te_node:
  "payload_length (E\<lparr>te_node := f\<rparr>) t = payload_length E t" "node_length (E\<lparr>te_node := f\<rparr>) t = node_length E t"
  "encode_node (E\<lparr>te_node := f\<rparr>) t = encode_node E t"
proof -
  let ?E = "E\<lparr>te_node := f\<rparr>"
  have p: "encoded_key_length ?E = encoded_key_length E" "length_from ?E = length_from E" "cap_length ?E = cap_length E"
    by (auto simp: fun_eq_iff encoded_key_length_def length_from_def cap_length_def split: trie_node.split)
  show l: "payload_length ?E t = payload_length E t" for t
    by (induction t) (simp_all add: p cong: map_cong)
  show n: "node_length ?E t = node_length E t" for t by (simp add: node_length_def p l)
  have "blind_from ?E = blind_from E" by (auto simp: fun_eq_iff blind_from_def split: trie_node.split)
  then show "encode_node ?E t = encode_node E t"
    by (induction t) (simp_all add: l n cong: map_cong if_cong del: payload_length.simps)
qed

lemma ex_honest: "honest ex_trie_env" "te_b256_length ex_trie_env = 33" "hints_ok ex_trie_env"
  by (auto simp: honest_def hints_ok_def ex_trie_env_def encode_te_node split: if_splits)
     (simp_all add: ex_pure_env_def ex_leaf_def node_length_simps encoded_key_length_def ex_length_of_length_def)

lemma ex_trie_map: "trie ex_trie_env ex_trie ex_map" "uniform 2 ex_map"
proof -
  let ?h = "encode_node ex_pure_env ex_leaf"
  have h: "length ?h = 43"
    by (simp add: ex_leaf_def ex_pure_env_def encoded_key_length_def ex_length_of_length_def)
  have "?h \<noteq> te_empty_root ex_trie_env" using h by (auto simp: ex_trie_env_def ex_pure_env_def)
  moreover have "te_node ex_trie_env ?h = Ok ex_leaf" by (simp add: ex_trie_env_def)
  ultimately have "trie ex_trie_env (Blinded ?h) [[3] \<mapsto> replicate 40 7]"
    by (rule trie_Blinded) (simp_all add: ex_leaf_def trie_Leaf)
  from trie_two [OF _ _ _ this trie_Leaf [of ex_trie_env "[4]" "[9]"], of 2 1]
  have "trie ex_trie_env (Branch ((replicate 17 Empty)[1 := Leaf [4] [9], 2 := Blinded ?h])) ([[1, 4] \<mapsto> [9]] ++ [[2, 3] \<mapsto> replicate 40 7])"
    by (simp add: under_path_single BRANCH_LIST_LENGTH_def)
  then show "trie ex_trie_env ex_trie ex_map" by (simp add: ex_trie_def ex_map_def)
  show "uniform 2 ex_map" by (auto simp: ex_map_def uniform_def nibbled_def)
qed

theorem node_open_reads_map_witness:
  "\<exists>t'. node_open ex_trie_env 6 [2, 3] ex_trie = Some (Ok (Some (replicate 40 7)), t')"
  using node_open_reads_map [OF ex_trie_map, of "[2, 3]" 6] by (auto simp: ex_map_def nibbled_def)

theorem node_insert_updates_map_witness:
  "\<exists>t'. node_insert ex_trie_env 6 [2, 5] [1] ex_trie = Some (Ok (), t') \<and> trie ex_trie_env t' (ex_map([2, 5] \<mapsto> [1]))"
  using node_insert_updates_map [OF ex_trie_map, of "[2, 5]" 6 "[1]"] by (auto simp: nibbled_def)

theorem node_delete_updates_map_witness:
  "\<exists>t'. node_delete ex_trie_env 7 [1, 4] [] 5 ex_trie = Some (Ok (), t') \<and> trie ex_trie_env t' (ex_map([1, 4] := None))"
proof -
  have "[1, 4] \<in> dom ex_map" by (simp add: ex_map_def)
  then show ?thesis
    using node_delete_updates_map [OF ex_trie_map, of "[1, 4]" 7 5] ex_honest(3) by (auto simp: nibbled_def)
qed

theorem root_is_function_of_map_witness:
  "\<exists>t'. node_open ex_trie_env 6 [2, 3] ex_trie = Some (Ok (Some (replicate 40 7)), t') \<and> blind ex_trie_env t' = blind ex_trie_env ex_trie"
proof -
  obtain t' where "node_open ex_trie_env 6 [2, 3] ex_trie = Some (Ok (ex_map [2, 3]), t')" "trie ex_trie_env t' ex_map"
    using node_open_trie [OF ex_trie_map, of "[2, 3]" 6] by (auto simp: nibbled_def)
  with root_is_function_of_map [OF ex_honest(1,2) _ ex_trie_map(1)] show ?thesis by (auto simp: ex_map_def)
qed

theorem encoding_has_announced_length_witness:
  "length (encode_node ex_pure_env ex_trie) = node_length ex_pure_env ex_trie"
  by (rule encoding_has_announced_length) (auto simp: rlp_laws_def ex_pure_env_def)

end
