(* ===== verification/Trie_Db.thy ===== *)
theory Trie_Db
  imports Driver Trie_Node "HOL-Library.List_Lexorder" "HOL-Library.Multiset"
begin

text \<open>
  The state database and the block builder of the proof program: \<open>TrieDB\<close>
  (\<^verbatim>\<open>proof/executor/src/db/mod.rs\<close>) keeps the tries of accounts and withdrawals, the encoders
  (\<^verbatim>\<open>primitives/src/mpt\<close>) say what it stores, \<open>StatelessL2Builder\<close>
  (\<^verbatim>\<open>proof/executor/src/builder/core.rs\<close>) executes a block and commits its accounts, and
  \<open>KonaExecutor\<close> (\<^verbatim>\<open>proof/proof/src/executor.rs\<close>) is the executor the driver calls. The SVM that
  runs the transactions is a parameter.
\<close>

section \<open>Accounts\<close>

type_synonym pubkey = b256

record account =
  ac_lamports :: u64
  ac_data :: bytes
  ac_owner :: pubkey
  ac_executable :: bool
  ac_rent_epoch :: u64

record trie_account =
  ta_lamports :: u64
  ta_data :: b256
  ta_executable :: bool
  ta_rent_epoch :: u64
  ta_owner :: pubkey

definition account_from_solana_native :: "(bytes \<Rightarrow> b256) \<Rightarrow> account \<Rightarrow> trie_account" where
  "account_from_solana_native keccak256 a =
     \<lparr>ta_lamports = ac_lamports a, ta_data = keccak256 (ac_data a), ta_executable = ac_executable a,
      ta_rent_epoch = ac_rent_epoch a, ta_owner = ac_owner a\<rparr>"

text \<open>The streaming hasher hashes the concatenation of its chunks.\<close>

definition DATA_SIZE_CAN_FIT :: nat where "DATA_SIZE_CAN_FIT = 128 - (8 + 8 + 8 + 1 + 32)"

definition sol_account_encoder :: "(bytes \<Rightarrow> b256) \<Rightarrow> trie_account \<Rightarrow> bytes" where
  "sol_account_encoder keccak256 a =
     (if ta_lamports a = 0 then replicate 32 0
      else
        let buffer = be_of_nat 8 (unat (ta_lamports a)) @ be_of_nat 8 (unat (ta_rent_epoch a));
            (chunks, buffer) = (if length (ta_data a) > DATA_SIZE_CAN_FIT then ([buffer, ta_data a], []) else ([], buffer @ ta_data a));
            buffer = buffer @ [if ta_executable a then 1 else 0] @ ta_owner a in
        keccak256 (concat (chunks @ [buffer])))"

definition withdrawal_account_encoder :: "trie_account \<Rightarrow> bytes" where
  "withdrawal_account_encoder a = ta_data a"

section \<open>The database\<close>

text \<open>
  What the database is generic in or calls outside the repository: the trie's environment, the
  other queries of the provider and the hinter, \<open>Nibbles::unpack\<close>, the key of the
  withdrawal program and the decoder of accounts.
\<close>

record db_env =
  de_trie :: trie_env
  de_unpack :: "bytes \<Rightarrow> nibbles"
  de_withdrawal_program :: pubkey
  de_bank_hash :: "u64 \<Rightarrow> (b256, string) res"
  de_block_time :: "u64 \<Rightarrow> (int, string) res"
  de_hint_bank_hash :: "u64 \<Rightarrow> (unit, string) res"
  de_hint_block_time :: "u64 \<Rightarrow> (unit, string) res"
  de_data_by_hash :: "b256 \<Rightarrow> (bytes, string) res"
  de_decode_account :: "bytes \<Rightarrow> (account, string) res"

datatype trie_db_error = RootNotBlinded | MissingAccountInfo | TrieNodeErr trie_node_error | DbProvider string

record trie_db =
  td_root_node :: trie_node
  td_withdrawal_node :: trie_node
  td_parent_block_header :: l2_block_header

definition trie_db_new :: "l2_block_header \<Rightarrow> trie_db" where
  "trie_db_new parent_block_header =
     \<lparr>td_root_node = Blinded (lh_account_root parent_block_header), td_withdrawal_node = Blinded (lh_widthdraw_root parent_block_header),
      td_parent_block_header = parent_block_header\<rparr>"

definition on_root :: "(trie_node \<Rightarrow> (unit, trie_node_error) walk) \<Rightarrow> trie_db \<Rightarrow> ((unit, trie_db_error) res \<times> trie_db) option" where
  "on_root f db = map_option (\<lambda>(r, t). (map_err TrieNodeErr r, db\<lparr>td_root_node := t\<rparr>)) (f (td_root_node db))"

definition on_withdrawal :: "(trie_node \<Rightarrow> (unit, trie_node_error) walk) \<Rightarrow> trie_db \<Rightarrow> ((unit, trie_db_error) res \<times> trie_db) option" where
  "on_withdrawal f db = map_option (\<lambda>(r, t). (map_err TrieNodeErr r, db\<lparr>td_withdrawal_node := t\<rparr>)) (f (td_withdrawal_node db))"

definition is_withdrawal :: "db_env \<Rightarrow> account \<Rightarrow> bool" where
  "is_withdrawal E a \<longleftrightarrow> ac_owner a = de_withdrawal_program E"

text \<open>The body of the loop of \<open>update_accounts\<close>, for one account and its hashed address.\<close>

definition update_account ::
  "db_env \<Rightarrow> nat \<Rightarrow> u64 \<Rightarrow> b256 \<times> account \<Rightarrow> trie_db \<Rightarrow> ((unit, trie_db_error) res \<times> trie_db) option" where
  "update_account E fuel last_slot x db =
     (let (hashed_address, a) = x;
          T = de_trie E;
          path = de_unpack E hashed_address;
          withdrawal = is_withdrawal E a in
      if ac_lamports a = 0 then
        andthen (on_root (node_delete T fuel path [] last_slot) db) (\<lambda>db.
        if withdrawal then on_withdrawal (node_delete T fuel path [] last_slot) db else Some (Ok (), db))
      else
        let mpt_account = account_from_solana_native (te_keccak256 T) a;
            account_buf = sol_account_encoder (te_keccak256 T) mpt_account in
        andthen (on_root (node_insert T fuel path account_buf) db) (\<lambda>db.
        if withdrawal then on_withdrawal (node_insert T fuel path (withdrawal_account_encoder mpt_account)) db
        else Some (Ok (), db)))"

fun update_loop ::
  "db_env \<Rightarrow> nat \<Rightarrow> u64 \<Rightarrow> (b256 \<times> account) list \<Rightarrow> trie_db \<Rightarrow> ((unit, trie_db_error) res \<times> trie_db) option" where
  "update_loop E fuel last_slot [] db = Some (Ok (), db)"
| "update_loop E fuel last_slot (x # xs) db = andthen (update_account E fuel last_slot x db) (update_loop E fuel last_slot xs)"

definition update_accounts ::
  "db_env \<Rightarrow> nat \<Rightarrow> (pubkey \<times> account) list \<Rightarrow> u64 \<Rightarrow> trie_db \<Rightarrow> ((unit, trie_db_error) res \<times> trie_db) option" where
  "update_accounts E fuel account_diff last_slot =
     update_loop E fuel last_slot (sort_key fst (map (\<lambda>(k, v). (te_keccak256 (de_trie E) k, v)) account_diff))"

definition world_states ::
  "db_env \<Rightarrow> nat \<Rightarrow> (pubkey \<times> account) list \<Rightarrow> u64 \<Rightarrow> trie_db \<Rightarrow> ((b256 \<times> b256, trie_db_error) res \<times> trie_db) option" where
  "world_states E fuel account_diff last_slot db =
     andthen (update_accounts E fuel account_diff last_slot db) (\<lambda>db.
     Some (Ok (blind (de_trie E) (td_root_node db), blind (de_trie E) (td_withdrawal_node db)), db))"

definition set_parent_block_header :: "l2_block_header \<Rightarrow> trie_db \<Rightarrow> trie_db" where
  "set_parent_block_header h db = db\<lparr>td_parent_block_header := h\<rparr>"

definition db_bank_hash :: "db_env \<Rightarrow> u64 \<Rightarrow> (b256, trie_db_error) res" where
  "db_bank_hash E n =
     rthen (map_err DbProvider (de_hint_bank_hash E n)) (\<lambda>_. map_err DbProvider (de_bank_hash E n))"

definition db_block_time :: "db_env \<Rightarrow> u64 \<Rightarrow> (int, trie_db_error) res" where
  "db_block_time E n =
     rthen (map_err DbProvider (de_hint_block_time E n)) (\<lambda>_. map_err DbProvider (de_block_time E n))"

definition get_account_data :: "db_env \<Rightarrow> trie_db \<Rightarrow> pubkey \<Rightarrow> (account option, trie_db_error) res" where
  "get_account_data E db k =
     (let h = te_keccak256 (de_trie E) k in
      rthen (map_err DbProvider (te_hint_account_proof (de_trie E) h (bi_number (lh_block_info (td_parent_block_header db))))) (\<lambda>_.
      rthen (map_err (\<lambda>e. MissingAccountInfo) (de_data_by_hash E h)) (\<lambda>account_bytes.
      if account_bytes = [] then Ok None
      else map_err DbProvider (rthen (de_decode_account E account_bytes) (\<lambda>a. Ok (Some a))))))"

section \<open>The block builder\<close>

definition output_root_encode :: "b256 \<Rightarrow> b256 \<Rightarrow> b256 \<Rightarrow> bytes" where
  "output_root_encode state_root bridge_storage_root block_hash = replicate 32 0 @ state_root @ bridge_storage_root @ block_hash"

definition output_root_hash :: "(bytes \<Rightarrow> b256) \<Rightarrow> b256 \<Rightarrow> b256 \<Rightarrow> b256 \<Rightarrow> b256" where
  "output_root_hash keccak256 state_root bridge_storage_root block_hash =
     keccak256 (output_root_encode state_root bridge_storage_root block_hash)"

datatype executor_error =
    MissingGasLimit | MissingTransactions | MissingEIP1559Params | MissingParentBeaconBlockRoot | InvalidExtraData
  | BlockGasLimitExceeded | UnsupportedTransactionType u8 | TrieDbErr trie_db_error | ExecutionError string | SignatureError string
  | ExecutorRlpError string | MissingExecutor | FraudExecutorError string | FraudInitError string

text \<open>What the SVM is set up with, and its operations: it may refuse its set-up, decode and run transactions.\<close>

record svm_setup =
  su_genesis_hash :: b256
  su_parent_slot :: u64
  su_parent_bank_hash :: b256
  su_clock_timestamp :: int
  su_sequencer_schedules :: "(u64 \<times> b256) list"
  su_accounts_callback :: "pubkey \<Rightarrow> (account option, trie_db_error) res"
  su_init_accounts :: "(pubkey \<times> account) list"

record 'tx svm =
  sv_finish_init :: "svm_setup \<Rightarrow> (unit, string) res"
  sv_deserialize :: "bytes \<Rightarrow> ('tx, string) res"
  sv_execute_block :: "svm_setup \<Rightarrow> 'tx list \<Rightarrow> (l2_block_info \<times> (pubkey \<times> account) list, string) res"

record l2_builder =
  lb_config :: rollup_config
  lb_trie_db :: trie_db
  lb_accounts_diff :: "(pubkey \<times> account) list"
  lb_last_accounts_diff :: "(pubkey \<times> account) list"
  lb_parent_slot :: u64

definition bt_extend :: "('k::linorder \<times> 'v) list \<Rightarrow> ('k \<times> 'v) list \<Rightarrow> ('k \<times> 'v) list" where
  "bt_extend m xs = fold (\<lambda>(k, v). bt_insert k v) xs m"

definition builder_new :: "rollup_config \<Rightarrow> l2_block_header \<Rightarrow> (pubkey \<times> account) list \<Rightarrow> trie_db \<Rightarrow> l2_builder" where
  "builder_new config parent_header last_accounts_diff db =
     \<lparr>lb_config = config, lb_trie_db = db, lb_accounts_diff = bt_extend [] last_accounts_diff,
      lb_last_accounts_diff = last_accounts_diff, lb_parent_slot = bi_number (lh_block_info parent_header)\<rparr>"

fun convert_block :: "'tx svm \<Rightarrow> bytes list \<Rightarrow> ('tx list, executor_error) res" where
  "convert_block S [] = Ok []"
| "convert_block S (t # ts) =
     rthen (map_err FraudInitError (sv_deserialize S t)) (\<lambda>tx. rthen (convert_block S ts) (\<lambda>txs. Ok (tx # txs)))"

text \<open>The accounts of \<open>diff\<close> that are new or differ from \<open>raw\<close>.\<close>

definition modified_accounts :: "(pubkey \<times> account) list \<Rightarrow> (pubkey \<times> account) list \<Rightarrow> (pubkey \<times> account) list" where
  "modified_accounts raw diff = filter (\<lambda>(k, v). map_of raw k \<noteq> Some v) diff"

definition commit_block ::
  "db_env \<Rightarrow> nat \<Rightarrow> l2_block_info \<Rightarrow> (pubkey \<times> account) list \<Rightarrow> l2_builder
     \<Rightarrow> ((block_building_outcome, executor_error) res \<times> l2_builder) option" where
  "commit_block E fuel info diff_accounts b =
     (let modified = modified_accounts (lb_accounts_diff b) diff_accounts;
          b1 = b\<lparr>lb_accounts_diff := bt_extend (lb_accounts_diff b) diff_accounts\<rparr> in
      case world_states E fuel modified (lb_parent_slot b) (lb_trie_db b1) of
        None \<Rightarrow> None
      | Some (Err e, db) \<Rightarrow> Some (Err (TrieDbErr e), b1\<lparr>lb_trie_db := db\<rparr>)
      | Some (Panic, db) \<Rightarrow> Some (Panic, b1\<lparr>lb_trie_db := db\<rparr>)
      | Some (Ok (state_root, withdrawal_root), db) \<Rightarrow>
          Some (Ok \<lparr>bo_block_info = info, bo_state_root = state_root, bo_withdraw_root = withdrawal_root\<rparr>,
            b1\<lparr>lb_trie_db := set_parent_block_header
                 \<lparr>lh_block_info = l2_block info, lh_account_root = state_root, lh_widthdraw_root = withdrawal_root\<rparr> db\<rparr>))"

definition build_block ::
  "db_env \<Rightarrow> 'tx svm \<Rightarrow> nat \<Rightarrow> payload_attributes \<Rightarrow> l2_builder
     \<Rightarrow> ((block_building_outcome, executor_error) res \<times> l2_builder) option" where
  "build_block E S fuel attrs b =
     (case
        rthen (map_err TrieDbErr (db_bank_hash E (lb_parent_slot b))) (\<lambda>parent_bank_hash.
        rthen (map_err TrieDbErr (db_block_time E (lb_parent_slot b + 1))) (\<lambda>clock_timestamp.
        rthen (case rc_genesis_hash (lb_config b) of None \<Rightarrow> Panic | Some h \<Rightarrow> Ok h) (\<lambda>genesis_hash.
        let setup = \<lparr>su_genesis_hash = genesis_hash, su_parent_slot = lb_parent_slot b, su_parent_bank_hash = parent_bank_hash,
                     su_clock_timestamp = clock_timestamp, su_sequencer_schedules = rc_sequencer_schedules (lb_config b),
                     su_accounts_callback = get_account_data E (lb_trie_db b), su_init_accounts = lb_last_accounts_diff b\<rparr> in
        rthen (map_err FraudExecutorError (sv_finish_init S setup)) (\<lambda>_.
        rthen (convert_block S (case pa_transactions attrs of None \<Rightarrow> [] | Some txs \<Rightarrow> txs)) (\<lambda>block.
        map_err FraudExecutorError (sv_execute_block S setup block)))))) of
        Err e \<Rightarrow> Some (Err e, b)
      | Panic \<Rightarrow> Some (Panic, b)
      | Ok (info, diff_accounts) \<Rightarrow> commit_block E fuel info diff_accounts b)"

definition builder_output_root :: "db_env \<Rightarrow> l2_builder \<Rightarrow> b256" where
  "builder_output_root E b =
     (let h = td_parent_block_header (lb_trie_db b) in
      output_root_hash (te_keccak256 (de_trie E)) (lh_account_root h) (lh_widthdraw_root h) (bi_hash (lh_block_info h)))"

section \<open>The executor\<close>

record kona_executor =
  ke_rollup_config :: rollup_config
  ke_inner :: "l2_builder option"

definition kona_update_safe_head :: "l2_block_header \<Rightarrow> kona_executor \<Rightarrow> (unit, executor_error) res \<times> kona_executor" where
  "kona_update_safe_head header x =
     (let (last_account_diff, db) = (case ke_inner x of None \<Rightarrow> ([], trie_db_new header) | Some b \<Rightarrow> (lb_accounts_diff b, lb_trie_db b)) in
      (Ok (), x\<lparr>ke_inner := Some (builder_new (ke_rollup_config x) header last_account_diff db)\<rparr>))"

text \<open>A walk that does not end is a panic here; the driver's executor has no value for it.\<close>

definition kona_execute_payload ::
  "db_env \<Rightarrow> 'tx svm \<Rightarrow> nat \<Rightarrow> payload_attributes \<Rightarrow> kona_executor \<Rightarrow> (block_building_outcome, executor_error) res \<times> kona_executor" where
  "kona_execute_payload E S fuel attrs x =
     (case ke_inner x of
        None \<Rightarrow> (Err MissingExecutor, x)
      | Some b \<Rightarrow>
          (case build_block E S fuel attrs b of
             None \<Rightarrow> (Panic, x)
           | Some (r, b1) \<Rightarrow> (r, x\<lparr>ke_inner := Some b1\<rparr>)))"

definition kona_compute_output_root :: "db_env \<Rightarrow> kona_executor \<Rightarrow> (b256, executor_error) res \<times> kona_executor" where
  "kona_compute_output_root E x =
     (case ke_inner x of None \<Rightarrow> (Err MissingExecutor, x) | Some b \<Rightarrow> (Ok (builder_output_root E b), x))"

definition kona_reset :: "kona_executor \<Rightarrow> kona_executor" where
  "kona_reset x = x\<lparr>ke_inner := None\<rparr>"

definition kona :: "db_env \<Rightarrow> 'tx svm \<Rightarrow> nat \<Rightarrow> (kona_executor, executor_error) executor" where
  "kona E S fuel =
     \<lparr>xo_update_safe_head = kona_update_safe_head, xo_execute_payload = kona_execute_payload E S fuel,
      xo_compute_output_root = kona_compute_output_root E\<rparr>"

section \<open>Committing accounts\<close>

definition account_path :: "db_env \<Rightarrow> pubkey \<Rightarrow> nibbles" where
  "account_path E k = de_unpack E (te_keccak256 (de_trie E) k)"

definition db_repr :: "db_env \<Rightarrow> trie_db \<Rightarrow> tmap \<Rightarrow> tmap \<Rightarrow> bool" where
  "db_repr E db m w \<longleftrightarrow> stores (de_trie E) (td_root_node db) m \<and> stores (de_trie E) (td_withdrawal_node db) w"

text \<open>What an account becomes in the two tries; \<open>None\<close> is no entry.\<close>

definition state_value :: "db_env \<Rightarrow> account \<Rightarrow> bytes option" where
  "state_value E a =
     (if ac_lamports a = 0 then None
      else Some (sol_account_encoder (te_keccak256 (de_trie E)) (account_from_solana_native (te_keccak256 (de_trie E)) a)))"

definition withdrawal_value :: "db_env \<Rightarrow> account \<Rightarrow> bytes option" where
  "withdrawal_value E a = (if ac_lamports a = 0 then None else Some (te_keccak256 (de_trie E) (ac_data a)))"

text \<open>An account without lamports has to be in the tries it is deleted from.\<close>

definition deletable :: "db_env \<Rightarrow> tmap \<Rightarrow> tmap \<Rightarrow> nibbles \<Rightarrow> account \<Rightarrow> bool" where
  "deletable E m w p a \<longleftrightarrow> (ac_lamports a = 0 \<longrightarrow> p \<in> dom m \<and> (is_withdrawal E a \<longrightarrow> p \<in> dom w))"

lemma on_root_Some: "f (td_root_node db) = Some (r, t) \<Longrightarrow> on_root f db = Some (map_err TrieNodeErr r, db\<lparr>td_root_node := t\<rparr>)"
  by (simp add: on_root_def)

lemma on_withdrawal_Some:
  "f (td_withdrawal_node db) = Some (r, t) \<Longrightarrow> on_withdrawal f db = Some (map_err TrieNodeErr r, db\<lparr>td_withdrawal_node := t\<rparr>)"
  by (simp add: on_withdrawal_def)

lemma update_account_repr:
  fixes a :: account
  assumes "db_repr E db m w" and "account_key p" and "p = de_unpack E h"
  shows "\<exists>db'. update_account E walk_fuel ls (h, a) db =
       Some (if deletable E m w p a then Ok () else Err (TrieNodeErr KeyNotFound), db')
     \<and> (deletable E m w p a \<longrightarrow>
          db_repr E db' (m(p := state_value E a)) (if is_withdrawal E a then w(p := withdrawal_value E a) else w))"
proof -
  let ?T = "de_trie E"
  have s: "stores ?T (td_root_node db) m" "stores ?T (td_withdrawal_node db) w" using assms(1) by (auto simp: db_repr_def)
  show ?thesis
  proof (cases "ac_lamports a = 0")
    case True
    obtain t where t: "node_delete ?T walk_fuel p [] ls (td_root_node db) = Some (if p \<in> dom m then Ok () else Err KeyNotFound, t)"
      "stores ?T t (m(p := None))"
      using accounts.del_repr [OF s(1) assms(2), of ls] by blast
    obtain u where u: "node_delete ?T walk_fuel p [] ls (td_withdrawal_node db) = Some (if p \<in> dom w then Ok () else Err KeyNotFound, u)"
      "stores ?T u (w(p := None))"
      using accounts.del_repr [OF s(2) assms(2), of ls] by blast
    have r: "on_root (node_delete ?T walk_fuel p [] ls) db =
        Some (map_err TrieNodeErr (if p \<in> dom m then Ok () else Err KeyNotFound), db\<lparr>td_root_node := t\<rparr>)"
      by (simp only: on_root_def t(1)) simp
    have r': "on_withdrawal (node_delete ?T walk_fuel p [] ls) (db\<lparr>td_root_node := t\<rparr>) =
        Some (map_err TrieNodeErr (if p \<in> dom w then Ok () else Err KeyNotFound), db\<lparr>td_root_node := t, td_withdrawal_node := u\<rparr>)"
      by (simp add: on_withdrawal_def u(1))
    have v: "state_value E a = None" "withdrawal_value E a = None" using True by (simp_all add: state_value_def withdrawal_value_def)
    show ?thesis
    proof (cases "p \<in> dom m")
      case False
      then show ?thesis using True by (simp add: update_account_def assms(3) [symmetric] r Let_def andthen_def deletable_def)
    next
      case in_m: True
      show ?thesis
      proof (cases "is_withdrawal E a")
        case True
        then show ?thesis using in_m \<open>ac_lamports a = 0\<close> t u
          by (simp add: update_account_def assms(3) [symmetric] r r' v Let_def andthen_def deletable_def db_repr_def del: fun_upd_apply)
      next
        case False
        then show ?thesis using in_m \<open>ac_lamports a = 0\<close> t s
          by (simp add: update_account_def assms(3) [symmetric] r v Let_def andthen_def deletable_def db_repr_def del: fun_upd_apply)
      qed
    qed
  next
    case False
    obtain t where t: "node_insert ?T walk_fuel p (the (state_value E a)) (td_root_node db) = Some (Ok (), t)"
      "stores ?T t (m(p \<mapsto> the (state_value E a)))"
      using accounts.put_repr [OF s(1) assms(2)] by blast
    obtain u where u: "node_insert ?T walk_fuel p (the (withdrawal_value E a)) (td_withdrawal_node db) = Some (Ok (), u)"
      "stores ?T u (w(p \<mapsto> the (withdrawal_value E a)))"
      using accounts.put_repr [OF s(2) assms(2)] by blast
    from t u s False show ?thesis
      by (auto simp: update_account_def deletable_def db_repr_def state_value_def withdrawal_value_def withdrawal_account_encoder_def
          account_from_solana_native_def on_root_def assms(3) [symmetric] on_withdrawal_def Let_def simp del: fun_upd_apply)
  qed
qed

text \<open>Changes applied one after the other; with distinct keys their order does not matter.\<close>

definition apply_changes :: "('k \<times> 'v option) list \<Rightarrow> ('k \<rightharpoonup> 'v) \<Rightarrow> ('k \<rightharpoonup> 'v)" where
  "apply_changes cs m = fold (\<lambda>(k, v) m. m(k := v)) cs m"

lemma apply_changes_Cons [simp]: "apply_changes ((k, v) # cs) m = apply_changes cs (m(k := v))"
  by (simp add: apply_changes_def)

lemma apply_changes_Nil [simp]: "apply_changes [] m = m"
  by (simp add: apply_changes_def)

lemma apply_changes_eq:
  "distinct (map fst cs) \<Longrightarrow> apply_changes cs m k = (case map_of cs k of None \<Rightarrow> m k | Some v \<Rightarrow> v)"
proof (induction cs arbitrary: m)
  case (Cons c cs)
  obtain k' v where c: "c = (k', v)" by fastforce
  with Cons.prems have "map_of cs k' = None" by (simp add: map_of_eq_None_iff)
  with Cons c show ?case by (simp split: option.split)
qed simp

lemma apply_changes_perm:
  assumes "distinct (map fst cs)" and "mset cs = mset ds"
  shows "apply_changes cs m = apply_changes ds m"
proof -
  have "mset (map fst cs) = mset (map fst ds)" using assms(2) by simp
  with assms(1) have d: "distinct (map fst ds)" using mset_eq_imp_distinct_iff by blast
  have "map_of cs k = map_of ds k" for k
    using map_of_eq_Some_iff [OF assms(1), of k] map_of_eq_Some_iff [OF d, of k] mset_eq_setD [OF assms(2)]
    by (cases "map_of cs k"; cases "map_of ds k") auto
  with apply_changes_eq [OF assms(1)] apply_changes_eq [OF d] show ?thesis by (intro ext) simp
qed

definition state_changes :: "db_env \<Rightarrow> (b256 \<times> account) list \<Rightarrow> (nibbles \<times> bytes option) list" where
  "state_changes E xs = map (\<lambda>(h, a). (de_unpack E h, state_value E a)) xs"

definition withdrawal_changes :: "db_env \<Rightarrow> (b256 \<times> account) list \<Rightarrow> (nibbles \<times> bytes option) list" where
  "withdrawal_changes E xs = map (\<lambda>(h, a). (de_unpack E h, withdrawal_value E a)) (filter (\<lambda>(h, a). is_withdrawal E a) xs)"

lemma update_loop_repr:
  assumes "db_repr E db m w" and "distinct (map (de_unpack E \<circ> fst) xs)" and "\<And>x. x \<in> set xs \<Longrightarrow> account_key (de_unpack E (fst x))"
  shows "\<exists>db'. update_loop E walk_fuel ls xs db =
       Some (if list_all (\<lambda>(h, a). deletable E m w (de_unpack E h) a) xs then Ok () else Err (TrieNodeErr KeyNotFound), db')
     \<and> (list_all (\<lambda>(h, a). deletable E m w (de_unpack E h) a) xs \<longrightarrow>
          db_repr E db' (apply_changes (state_changes E xs) m) (apply_changes (withdrawal_changes E xs) w))"
  using assms
proof (induction xs arbitrary: db m w)
  case (Cons x xs)
  obtain h a where x: "x = (h, a)" by fastforce
  let ?p = "de_unpack E h"
  let ?m = "m(?p := state_value E a)" and ?w = "if is_withdrawal E a then w(?p := withdrawal_value E a) else w"
  obtain db1 where s: "update_account E walk_fuel ls (h, a) db =
       Some (if deletable E m w ?p a then Ok () else Err (TrieNodeErr KeyNotFound), db1)"
    "deletable E m w ?p a \<longrightarrow> db_repr E db1 ?m ?w"
    using update_account_repr [OF Cons.prems(1), of ?p h ls a] Cons.prems(3) [of x] x by auto
  show ?case
  proof (cases "deletable E m w ?p a")
    case False
    with s x show ?thesis by simp
  next
    case True
    have "deletable E ?m ?w (de_unpack E h') a' \<longleftrightarrow> deletable E m w (de_unpack E h') a'" if "(h', a') \<in> set xs" for h' a'
    proof -
      have "de_unpack E h' \<noteq> ?p" using Cons.prems(2) x that by force
      then show ?thesis by (auto simp: deletable_def)
    qed
    then have "list_all (\<lambda>(h, a). deletable E ?m ?w (de_unpack E h) a) xs \<longleftrightarrow> list_all (\<lambda>(h, a). deletable E m w (de_unpack E h) a) xs"
      by (auto simp: list_all_iff)
    moreover obtain db2 where "update_loop E walk_fuel ls xs db1 =
         Some (if list_all (\<lambda>(h, a). deletable E ?m ?w (de_unpack E h) a) xs then Ok () else Err (TrieNodeErr KeyNotFound), db2)"
      "list_all (\<lambda>(h, a). deletable E ?m ?w (de_unpack E h) a) xs \<longrightarrow>
         db_repr E db2 (apply_changes (state_changes E xs) ?m) (apply_changes (withdrawal_changes E xs) ?w)"
    proof -
      have "db_repr E db1 ?m ?w" "distinct (map (de_unpack E \<circ> fst) xs)" "\<And>x. x \<in> set xs \<Longrightarrow> account_key (de_unpack E (fst x))"
        using s(2) True Cons.prems(2,3) by (simp_all add: comp_def)
      from Cons.IH [OF this] show ?thesis using that by blast
    qed
    ultimately show ?thesis using s(1) True x
      by (simp add: state_changes_def withdrawal_changes_def andthen_def del: fun_upd_apply split: if_splits)
  qed
qed (simp_all add: state_changes_def withdrawal_changes_def)


text \<open>The whole change set, as the block leaves it; the loop works on its sorted, hashed form.\<close>

definition state_diff :: "db_env \<Rightarrow> (pubkey \<times> account) list \<Rightarrow> (nibbles \<times> bytes option) list" where
  "state_diff E xs = map (\<lambda>(k, a). (account_path E k, state_value E a)) xs"

definition withdrawal_diff :: "db_env \<Rightarrow> (pubkey \<times> account) list \<Rightarrow> (nibbles \<times> bytes option) list" where
  "withdrawal_diff E xs = map (\<lambda>(k, a). (account_path E k, withdrawal_value E a)) (filter (\<lambda>(k, a). is_withdrawal E a) xs)"

definition diff_deletable :: "db_env \<Rightarrow> tmap \<Rightarrow> tmap \<Rightarrow> (pubkey \<times> account) list \<Rightarrow> bool" where
  "diff_deletable E m w xs \<longleftrightarrow> list_all (\<lambda>(k, a). deletable E m w (account_path E k) a) xs"

definition diff_paths_ok :: "db_env \<Rightarrow> (pubkey \<times> account) list \<Rightarrow> bool" where
  "diff_paths_ok E xs \<longleftrightarrow> distinct (map (account_path E \<circ> fst) xs) \<and> list_all (\<lambda>(k, a). account_key (account_path E k)) xs"

definition hashed_diff :: "db_env \<Rightarrow> (pubkey \<times> account) list \<Rightarrow> (b256 \<times> account) list" where
  "hashed_diff E xs = sort_key fst (map (\<lambda>(k, v). (te_keccak256 (de_trie E) k, v)) xs)"

lemma mset_hashed: "mset (hashed_diff E xs) = image_mset (\<lambda>(k, v). (te_keccak256 (de_trie E) k, v)) (mset xs)"
  by (simp add: hashed_diff_def)

lemma set_hashed: "set (hashed_diff E xs) = (\<lambda>(k, v). (te_keccak256 (de_trie E) k, v)) ` set xs"
  by (simp add: hashed_diff_def)

lemma hashed_changes:
  "mset (state_changes E (hashed_diff E xs)) = mset (state_diff E xs)"
  "mset (withdrawal_changes E (hashed_diff E xs)) = mset (withdrawal_diff E xs)"
  "mset (map (de_unpack E \<circ> fst) (hashed_diff E xs)) = mset (map (account_path E \<circ> fst) xs)"
  by (simp_all add: state_changes_def withdrawal_changes_def state_diff_def withdrawal_diff_def mset_filter mset_hashed
      account_path_def case_prod_unfold comp_def multiset.map_comp filter_mset_image_mset)

lemma update_accounts_repr:
  assumes "db_repr E db m w" and "diff_paths_ok E xs"
  shows "\<exists>db'. update_accounts E walk_fuel xs ls db = Some (if diff_deletable E m w xs then Ok () else Err (TrieNodeErr KeyNotFound), db')
     \<and> (diff_deletable E m w xs \<longrightarrow>
          db_repr E db' (apply_changes (state_diff E xs) m) (apply_changes (withdrawal_diff E xs) w))"
proof -
  let ?h = "hashed_diff E xs"
  have d: "distinct (map (de_unpack E \<circ> fst) ?h)"
    using assms(2) mset_eq_imp_distinct_iff [OF hashed_changes(3) [of E xs]] by (simp add: diff_paths_ok_def)
  then have ds: "distinct (map fst (state_changes E ?h))" "distinct (map fst (withdrawal_changes E ?h))"
    by (simp_all add: state_changes_def withdrawal_changes_def comp_def case_prod_unfold distinct_map_filter)
  have "account_key (de_unpack E (fst x))" if "x \<in> set ?h" for x
    using that assms(2) by (auto simp: set_hashed diff_paths_ok_def list_all_iff account_path_def)
  moreover have "list_all (\<lambda>(h, a). deletable E m w (de_unpack E h) a) ?h \<longleftrightarrow> diff_deletable E m w xs"
    by (auto simp: diff_deletable_def list_all_iff set_hashed account_path_def)
  ultimately show ?thesis
    using update_loop_repr [OF assms(1) d, of ls] apply_changes_perm [OF ds(1) hashed_changes(1)] apply_changes_perm [OF ds(2) hashed_changes(2)]
    by (simp add: update_accounts_def hashed_diff_def)
qed

lemma world_states_repr:
  assumes "db_repr E db m w" and "diff_paths_ok E xs" and "diff_deletable E m w xs"
  shows "\<exists>db' state_root withdrawal_root. world_states E walk_fuel xs ls db = Some (Ok (state_root, withdrawal_root), db')
     \<and> state_root = blind (de_trie E) (td_root_node db') \<and> withdrawal_root = blind (de_trie E) (td_withdrawal_node db')
     \<and> db_repr E db' (apply_changes (state_diff E xs) m) (apply_changes (withdrawal_diff E xs) w)"
  using update_accounts_repr [OF assms(1,2), of ls] assms(3) by (auto simp: world_states_def andthen_def)

section \<open>Building blocks\<close>

lemma world_states_Ok:
  assumes "world_states E fuel xs ls db = Some (Ok (state_root, withdrawal_root), db')"
  shows "state_root = blind (de_trie E) (td_root_node db')" "withdrawal_root = blind (de_trie E) (td_withdrawal_node db')"
  using assms by (auto simp: world_states_def andthen_def split: option.split_asm res.split_asm)

lemma bt_invar_extend: "bt_invar m \<Longrightarrow> bt_invar (bt_extend m xs)"
  by (induction xs arbitrary: m) (auto simp: bt_extend_def bt_invar_insert)

lemma map_of_bt_extend:
  assumes "bt_invar m" and "distinct (map fst xs)"
  shows "map_of (bt_extend m xs) = map_of m ++ map_of xs"
  using assms
proof (induction xs arbitrary: m)
  case (Cons x xs)
  obtain k v where x: "x = (k, v)" by fastforce
  have "map_of (bt_extend m (x # xs)) = (map_of m)(k \<mapsto> v) ++ map_of xs"
    using Cons x by (simp add: bt_extend_def bt_invar_insert bt_get_insert)
  also have "\<dots> = map_of m ++ map_of (x # xs)"
    using Cons.prems(2) x by (simp add: map_add_upd_left dom_map_of_conv_image_fst)
  finally show ?case .
qed (simp add: bt_extend_def)

text \<open>Once a change set is among the known accounts, none of it counts as modified.\<close>

lemma modified_accounts_extend:
  assumes "bt_invar m" and "distinct (map fst diff)"
  shows "modified_accounts (bt_extend [] (bt_extend m diff)) diff = []"
proof -
  have i: "bt_invar ([] :: ('a \<times> 'b) list)" for m :: "'a :: linorder \<Rightarrow> 'b" by (simp add: bt_invar_def)
  have d: "distinct (map fst (bt_extend m diff))" using bt_distinct [OF bt_invar_extend [OF assms(1)]] .
  have "map_of (bt_extend [] (bt_extend m diff)) = map_of m ++ map_of diff"
    using map_of_bt_extend [OF i d] map_of_bt_extend [OF assms] by simp
  then show ?thesis using assms(2) by (auto simp: modified_accounts_def filter_empty_conv map_add_Some_iff)
qed

text \<open>After a block the builder's tries, its parent header and the outcome agree.\<close>

definition builder_at :: "db_env \<Rightarrow> block_building_outcome \<Rightarrow> l2_builder \<Rightarrow> bool" where
  "builder_at E outcome b \<longleftrightarrow>
     bo_state_root outcome = blind (de_trie E) (td_root_node (lb_trie_db b))
   \<and> bo_withdraw_root outcome = blind (de_trie E) (td_withdrawal_node (lb_trie_db b))
   \<and> td_parent_block_header (lb_trie_db b) =
       \<lparr>lh_block_info = l2_block (bo_block_info outcome), lh_account_root = bo_state_root outcome, lh_widthdraw_root = bo_withdraw_root outcome\<rparr>"

lemma commit_block_Ok:
  assumes "commit_block E fuel info diff b = Some (Ok outcome, b')"
  shows "builder_at E outcome b'" "bo_block_info outcome = info" "lb_accounts_diff b' = bt_extend (lb_accounts_diff b) diff"
proof -
  let ?m = "modified_accounts (lb_accounts_diff b) diff"
  obtain sr wr db where w: "world_states E fuel ?m (lb_parent_slot b) (lb_trie_db b) = Some (Ok (sr, wr), db)"
    using assms by (auto simp: commit_block_def Let_def split: option.split_asm res.split_asm)
  from world_states_Ok [OF w] assms w
  show "builder_at E outcome b'" "bo_block_info outcome = info" "lb_accounts_diff b' = bt_extend (lb_accounts_diff b) diff"
    by (auto simp: commit_block_def Let_def builder_at_def set_parent_block_header_def)
qed

lemma build_block_Ok: "build_block E S fuel attrs b = Some (Ok outcome, b') \<Longrightarrow> builder_at E outcome b'"
  by (auto simp: build_block_def commit_block_Ok(1) split: res.split_asm prod.split_asm)

lemma kona_execute_payload_Ok:
  assumes "kona_execute_payload E S fuel attrs x = (Ok outcome, x')"
  shows "\<exists>b. ke_inner x' = Some b \<and> builder_at E outcome b"
  using assms build_block_Ok by (auto simp: kona_execute_payload_def split: option.split_asm)

lemma map_of_bt_insert: "map_of (bt_insert k v m) k = Some v"
  by (induction m) auto

section \<open>Properties\<close>

text \<open>
  C7: committing the accounts of a block to tries that store the maps \<open>m\<close> and \<open>w\<close>, with
  different paths and every emptied account present: it ends well, in tries that store the
  updated maps, whatever the order of the accounts, and returns the roots that any trie of
  these maps has.
\<close>

theorem world_states_commits:
  assumes "db_repr E db m w" and "diff_paths_ok E diff" and "diff_deletable E m w diff"
  shows "\<exists>state_root withdrawal_root db'. world_states E walk_fuel diff last_slot db = Some (Ok (state_root, withdrawal_root), db')
     \<and> db_repr E db' (apply_changes (state_diff E diff) m) (apply_changes (withdrawal_diff E diff) w)
     \<and> (\<forall>t. stores (de_trie E) t (apply_changes (state_diff E diff) m) \<longrightarrow> blind (de_trie E) t = state_root)
     \<and> (\<forall>t. stores (de_trie E) t (apply_changes (withdrawal_diff E diff) w) \<longrightarrow> blind (de_trie E) t = withdrawal_root)"
  using world_states_repr [OF assms, of last_slot] unfolding db_repr_def by (metis accounts.root_repr)

text \<open>
  A block that leaves an account without lamports which the trie does not have, such as
  one created and emptied in the same block, cannot be committed.
\<close>

theorem emptied_account_must_exist:
  assumes "db_repr E db m w" and "diff_paths_ok E diff" and "(k, a) \<in> set diff" and "ac_lamports a = 0" and "account_path E k \<notin> dom m"
  shows "\<exists>db'. world_states E walk_fuel diff last_slot db = Some (Err (TrieNodeErr KeyNotFound), db')"
proof -
  have "\<not> diff_deletable E m w diff" using assms(3-5) by (force simp: diff_deletable_def list_all_iff deletable_def)
  with update_accounts_repr [OF assms(1,2), of last_slot] show ?thesis by (auto simp: world_states_def andthen_def)
qed

text \<open>
  C27: a block the driver executes with the proof executor becomes the tip of its L1 origin: the
  tip's header has the commitments of the executor's tries, and its output root is the hash of
  that header's roots and block hash.
\<close>

theorem executed_tip_output_root:
  fixes S :: "'tx svm" and D :: "(kona_executor, 'd) driver"
  assumes "execute_block (kona E S fuel) P tip attributes D = (Ok True, D')"
  shows "\<exists>origin new_tip b. pl_origin P (dr_pipeline D') = Some origin \<and> ke_inner (dr_executor D') = Some b
     \<and> map_of (pc_tips (dr_cursor D')) (bi_number origin) = Some new_tip
     \<and> tc_l2_safe_head_header new_tip =
         \<lparr>lh_block_info = l2_block (tc_l2_safe_head new_tip), lh_account_root = blind (de_trie E) (td_root_node (lb_trie_db b)),
          lh_widthdraw_root = blind (de_trie E) (td_withdrawal_node (lb_trie_db b))\<rparr>
     \<and> tc_l2_safe_head_output_root new_tip =
         output_root_hash (te_keccak256 (de_trie E)) (lh_account_root (tc_l2_safe_head_header new_tip))
           (lh_widthdraw_root (tc_l2_safe_head_header new_tip)) (bi_hash (lh_block_info (tc_l2_safe_head_header new_tip)))"
proof -
  obtain x0 where u: "kona_update_safe_head (tc_l2_safe_head_header tip) (dr_executor D) = (Ok (), x0)"
    by (cases "ke_inner (dr_executor D)") (auto simp: kona_update_safe_head_def Let_def)
  obtain r x1 where e: "kona_execute_payload E S fuel attributes x0 = (r, x1)" by fastforce
  then obtain outcome where r: "r = Ok outcome"
    using assms u by (cases r) (simp_all add: execute_block_def kona_def)
  then obtain b where b: "ke_inner x1 = Some b" "builder_at E outcome b" using e kona_execute_payload_Ok by blast
  obtain origin where o: "pl_origin P (dr_pipeline D) = Some origin"
    using assms u e r by (cases "pl_origin P (dr_pipeline D)") (simp_all add: execute_block_def kona_def)
  from assms u e r b o show ?thesis
    by (auto simp: execute_block_def kona_def kona_compute_output_root_def builder_at_def builder_output_root_def Let_def
        cursor_advance_def map_of_bt_insert split: if_split_asm list.split_asm prod.split_asm)
qed


text \<open>
  The accounts of a block that could not be committed count as known from then on: when the
  block is executed again on the same builder with the same outcome, no account is written to
  the tries, and it is committed with the roots the failed attempt left behind.
\<close>

theorem failed_commit_is_not_undone:
  assumes "commit_block E fuel info diff b = Some (Err e, b')" and "distinct (map fst diff)" and "bt_invar (lb_accounts_diff b)"
  shows "\<exists>outcome b''. commit_block E fuel info diff (builder_new cfg h (lb_accounts_diff b') (lb_trie_db b')) = Some (Ok outcome, b'')
     \<and> bo_state_root outcome = blind (de_trie E) (td_root_node (lb_trie_db b'))
     \<and> bo_withdraw_root outcome = blind (de_trie E) (td_withdrawal_node (lb_trie_db b'))"
proof -
  have "lb_accounts_diff b' = bt_extend (lb_accounts_diff b) diff"
    using assms(1) by (auto simp: commit_block_def Let_def split: option.split_asm res.split_asm prod.split_asm)
  then have "modified_accounts (bt_extend [] (lb_accounts_diff b')) diff = []"
    using assms(2,3) by (simp add: modified_accounts_extend)
  then show ?thesis
    by (simp add: commit_block_def builder_new_def world_states_def update_accounts_def andthen_def set_parent_block_header_def)
qed

subsection \<open>Examples\<close>

text \<open>Empty tries, 32-byte addresses that are their own hashes, and an account of the withdrawal program.\<close>

definition ex_db_env :: db_env where
  "ex_db_env =
     \<lparr>de_trie = ex_pure_env, de_unpack = (\<lambda>h. concat (map (\<lambda>b. [drop_bit 4 b, take_bit 4 b]) h)), de_withdrawal_program = [1],
      de_bank_hash = (\<lambda>n. Ok zero_hash), de_block_time = (\<lambda>n. Ok 0), de_hint_bank_hash = (\<lambda>n. Ok ()), de_hint_block_time = (\<lambda>n. Ok ()),
      de_data_by_hash = (\<lambda>h. Ok []), de_decode_account = (\<lambda>b. Err ''account'')\<rparr>"

definition ex_header :: l2_block_header where
  "ex_header = \<lparr>lh_block_info = default_block_info, lh_account_root = [0x56], lh_widthdraw_root = [0x56]\<rparr>"

definition ex_account :: "u64 \<Rightarrow> account" where
  "ex_account n = \<lparr>ac_lamports = n, ac_data = [5], ac_owner = [1], ac_executable = False, ac_rent_epoch = 0\<rparr>"

definition ex_diff :: "u64 \<Rightarrow> (pubkey \<times> account) list" where
  "ex_diff n = [(replicate 32 0x12, ex_account n)]"

lemma ex_db_repr: "db_repr ex_db_env (trie_db_new ex_header) Map.empty Map.empty"
  by (simp add: db_repr_def stores_def trie_laws_def honest_def hints_ok_def uniform_def trie_db_new_def ex_db_env_def ex_pure_env_def ex_header_def)

lemma ex_path: "account_path ex_db_env (replicate 32 0x12) = concat (replicate 32 [1, 2])"
  by (simp add: account_path_def ex_db_env_def ex_pure_env_def eval_nat_numeral drop_bit_eq_div take_bit_eq_mod)

lemma ex_path_account_key: "account_key (concat (replicate 32 [1, 2]))"
  by (auto simp: account_key_def nibbled_def length_concat sum_list_replicate list_all_iff)

lemma ex_paths_ok: "diff_paths_ok ex_db_env (ex_diff n)"
  by (simp add: diff_paths_ok_def ex_diff_def ex_path ex_path_account_key del: concat_replicate_trivial)

lemma ex_db_env_sel [simp]: "de_trie ex_db_env = ex_pure_env" "te_keccak256 ex_pure_env = (\<lambda>b. b)" "de_withdrawal_program ex_db_env = [1]"
  by (simp_all add: ex_db_env_def ex_pure_env_def)

theorem world_states_commits_witness:
  "\<exists>r db'. world_states ex_db_env walk_fuel (ex_diff 3) 9 (trie_db_new ex_header) = Some (Ok r, db')
     \<and> stores ex_pure_env (td_withdrawal_node db') [account_path ex_db_env (replicate 32 0x12) \<mapsto> [5]]"
proof -
  have "diff_deletable ex_db_env Map.empty Map.empty (ex_diff 3)"
    by (simp add: diff_deletable_def ex_diff_def deletable_def ex_account_def)
  from world_states_commits [OF ex_db_repr ex_paths_ok this, of 9]
  obtain r db' where w: "world_states ex_db_env walk_fuel (ex_diff 3) 9 (trie_db_new ex_header) = Some (Ok r, db')"
    "db_repr ex_db_env db' (apply_changes (state_diff ex_db_env (ex_diff 3)) Map.empty)
       (apply_changes (withdrawal_diff ex_db_env (ex_diff 3)) Map.empty)" by auto
  have "withdrawal_diff ex_db_env (ex_diff 3) = [(account_path ex_db_env (replicate 32 0x12), Some [5])]"
    by (simp add: withdrawal_diff_def ex_diff_def ex_account_def is_withdrawal_def withdrawal_value_def)
  with w show ?thesis by (auto simp: db_repr_def)
qed

theorem emptied_account_must_exist_witness:
  "\<exists>db'. world_states ex_db_env walk_fuel (ex_diff 0) 9 (trie_db_new ex_header) = Some (Err (TrieNodeErr KeyNotFound), db')"
  by (rule emptied_account_must_exist [OF ex_db_repr ex_paths_ok, of "replicate 32 0x12" "ex_account 0"])
     (simp_all add: ex_diff_def ex_account_def)

definition ex_svm :: "(pubkey \<times> account) list \<Rightarrow> bytes svm" where
  "ex_svm diff = \<lparr>sv_finish_init = (\<lambda>s. Ok ()), sv_deserialize = Ok, sv_execute_block = (\<lambda>s b. Ok (ex_safe_head, diff))\<rparr>"

definition ex_pipe :: "block_info driver_pipeline" where
  "ex_pipe = \<lparr>pl_step = (\<lambda>h d. (Ok PreparedAttributes, d)), pl_origin = Some, pl_signal = (\<lambda>s d. (Ok (), d)), pl_next = (\<lambda>d. (None, d)),
     pl_system_config = (\<lambda>n. Panic), pl_flush = (\<lambda>d. d)\<rparr>"

definition ex_kona_driver :: "(kona_executor, block_info) driver" where
  "ex_kona_driver = driver_new ex_cursor \<lparr>ke_rollup_config = ex_rollup_config\<lparr>rc_genesis_hash := Some zero_hash\<rparr>, ke_inner = None\<rparr> (ex_block 8)"

lemma ex_kona_executes:
  "\<exists>D'. execute_block (kona ex_db_env (ex_svm []) walk_fuel) ex_pipe ex_tip ex_template ex_kona_driver = (Ok True, D') \<and> dr_pipeline D' = ex_block 8"
  by (simp add: execute_block_def kona_def kona_update_safe_head_def kona_execute_payload_def kona_compute_output_root_def build_block_def
      commit_block_def world_states_def update_accounts_def andthen_def modified_accounts_def ex_kona_driver_def driver_new_def builder_new_def
      ex_svm_def ex_pipe_def db_bank_hash_def db_block_time_def ex_template_def cursor_advance_def ex_cursor_def cursor_after_def cursor_new_def
      ex_db_env_def Let_def)

theorem executed_tip_output_root_witness:
  "\<exists>D' new_tip. execute_block (kona ex_db_env (ex_svm []) walk_fuel) ex_pipe ex_tip ex_template ex_kona_driver = (Ok True, D')
     \<and> map_of (pc_tips (dr_cursor D')) 8 = Some new_tip
     \<and> tc_l2_safe_head_output_root new_tip =
         output_root_hash (te_keccak256 ex_pure_env) (lh_account_root (tc_l2_safe_head_header new_tip))
           (lh_widthdraw_root (tc_l2_safe_head_header new_tip)) (bi_hash (lh_block_info (tc_l2_safe_head_header new_tip)))"
proof -
  obtain D' where d: "execute_block (kona ex_db_env (ex_svm []) walk_fuel) ex_pipe ex_tip ex_template ex_kona_driver = (Ok True, D')"
    "dr_pipeline D' = ex_block 8" using ex_kona_executes by blast
  have "bi_number (ex_block 8) = 8" "pl_origin ex_pipe (dr_pipeline D') = Some (ex_block 8)"
    using d(2) by (simp_all add: ex_block_def ex_pipe_def)
  with executed_tip_output_root [OF d(1)] d(1) show ?thesis by auto
qed

text \<open>The accounts of a block that created and emptied an account, committed at the second attempt.\<close>

theorem failed_commit_is_not_undone_witness:
  "\<exists>e b' outcome b''.
     commit_block ex_db_env walk_fuel ex_safe_head (ex_diff 0) (builder_new ex_rollup_config ex_header [] (trie_db_new ex_header)) = Some (Err e, b')
   \<and> commit_block ex_db_env walk_fuel ex_safe_head (ex_diff 0) (builder_new ex_rollup_config ex_header (lb_accounts_diff b') (lb_trie_db b'))
       = Some (Ok outcome, b'')"
proof -
  let ?b = "builder_new ex_rollup_config ex_header [] (trie_db_new ex_header)"
  have "diff_paths_ok ex_db_env (ex_diff 0)" "\<not> diff_deletable ex_db_env Map.empty Map.empty (ex_diff 0)"
    using ex_paths_ok by (simp_all add: diff_deletable_def ex_diff_def deletable_def ex_account_def)
  with update_accounts_repr [OF ex_db_repr, of "ex_diff 0" "lb_parent_slot ?b"] obtain e db where
    "world_states ex_db_env walk_fuel (ex_diff 0) (lb_parent_slot ?b) (trie_db_new ex_header) = Some (Err e, db)"
    by (auto simp: world_states_def andthen_def)
  moreover have "modified_accounts [] (ex_diff 0) = ex_diff 0" by (simp add: modified_accounts_def)
  ultimately obtain b' where c: "commit_block ex_db_env walk_fuel ex_safe_head (ex_diff 0) ?b = Some (Err (TrieDbErr e), b')"
    by (simp add: commit_block_def builder_new_def bt_extend_def)
  have "distinct (map fst (ex_diff 0))" "bt_invar (lb_accounts_diff ?b)"
    by (simp_all add: ex_diff_def builder_new_def bt_extend_def bt_invar_def)
  from failed_commit_is_not_undone [OF c this, of ex_rollup_config ex_header] c show ?thesis by blast
qed

end
