(* ===== verification/Programs.thy ===== *)
theory Programs
  imports Trie_Db
begin

text \<open>
  What the on-chain programs of \<^verbatim>\<open>crates/programs\<close> share: the accounts an instruction works on, the
  outcome of an instruction, the fields of instruction data with their readers, and the
  contract that reading undoes writing, stated as a locale. Unlike the rest of the workspace the
  programs are compiled with overflow checks (\<^verbatim>\<open>crates/programs/Cargo.toml\<close>), so an
  arithmetic overflow is a panic here.
\<close>

section \<open>Accounts and outcomes\<close>

text \<open>
  An instruction refers to accounts by handles; two handles of one key share the account, so
  data, lamports and owner live in a store.
\<close>

record account_info =
  ai_key :: pubkey
  ai_is_signer :: bool
  ai_is_writable :: bool

type_synonym store = "pubkey \<Rightarrow> account"

datatype program_error = Custom u32 | InvalidArgument | InvalidAccountData | IncorrectProgramId | UninitializedAccount | OtherError u32

type_synonym 's program_result = "(unit, program_error) res \<times> 's"

text \<open>\<open>array_ref!\<close> panics when there are too few accounts.\<close>

definition array_ref :: "nat \<Rightarrow> 'a list \<Rightarrow> ('a list, 'e) res" where
  "array_ref n xs = (if n \<le> length xs then Ok (take n xs) else Panic)"

definition set_data :: "pubkey \<Rightarrow> bytes \<Rightarrow> store \<Rightarrow> store" where
  "set_data k d st = st(k := (st k)\<lparr>ac_data := d\<rparr>)"

text \<open>A call on the store, and what follows when it succeeds.\<close>

definition pbind :: "(unit, 'e) res \<times> 's \<Rightarrow> ('s \<Rightarrow> ('b, 'e) res \<times> 's) \<Rightarrow> ('b, 'e) res \<times> 's" where
  "pbind r k = (case r of (Ok _, s) \<Rightarrow> k s | (Err e, s) \<Rightarrow> (Err e, s) | (Panic, s) \<Rightarrow> (Panic, s))"

lemma pbind_simps [simp]:
  "pbind (Ok u, s) k = k s"
  "pbind (Err e, s) k = (Err e, s)"
  "pbind (Panic, s) k = (Panic, s)"
  by (simp_all add: pbind_def)

lemma pbind_Ok_iff [res_simps]: "pbind r k = (Ok y, t) \<longleftrightarrow> (\<exists>s. r = (Ok (), s) \<and> k s = (Ok y, t))"
  by (cases r; cases "fst r") auto

section \<open>Integers of the instruction data\<close>

definition le_of_nat :: "nat \<Rightarrow> nat \<Rightarrow> bytes" where
  "le_of_nat n k = rev (be_of_nat n k)"

definition nat_of_le :: "bytes \<Rightarrow> nat" where
  "nat_of_le bs = nat_of_be (rev bs)"

lemma length_le_of_nat [simp]: "length (le_of_nat n k) = n"
  by (simp add: le_of_nat_def)

lemma nat_of_le_of_nat: "k < 256 ^ n \<Longrightarrow> nat_of_le (le_of_nat n k) = k"
  by (simp add: nat_of_le_def le_of_nat_def nat_of_be_of_nat)

lemma u64_le [simp]: "of_nat (nat_of_le (le_of_nat 8 (unat (v :: u64)))) = v"
  using unsigned_less [of v, where ?'a = nat] by (simp add: nat_of_le_of_nat)

lemma u128_le [simp]: "of_nat (nat_of_le (le_of_nat 16 (unat (v :: 128 word)))) = v"
  using unsigned_less [of v, where ?'a = nat] by (simp add: nat_of_le_of_nat)

section \<open>Strings\<close>

text \<open>A \<open>&str\<close> is a byte string for which \<open>str::from_utf8\<close> succeeds.\<close>

definition cont :: "u8 \<Rightarrow> bool" where
  "cont b \<longleftrightarrow> 0x80 \<le> b \<and> b \<le> 0xBF"

fun from_utf8 :: "bytes \<Rightarrow> bool" where
  "from_utf8 [] = True"
| "from_utf8 (a # s) =
     (if a \<le> 0x7F then from_utf8 s
      else if 0xC2 \<le> a \<and> a \<le> 0xDF then (case s of b # s' \<Rightarrow> cont b \<and> from_utf8 s' | _ \<Rightarrow> False)
      else if 0xE0 \<le> a \<and> a \<le> 0xEF then
        (case s of
           b # c # s' \<Rightarrow>
             (if a = 0xE0 then 0xA0 \<le> b \<and> b \<le> 0xBF else if a = 0xED then 0x80 \<le> b \<and> b \<le> 0x9F else cont b)
             \<and> cont c \<and> from_utf8 s'
         | _ \<Rightarrow> False)
      else if 0xF0 \<le> a \<and> a \<le> 0xF4 then
        (case s of
           b # c # d # s' \<Rightarrow>
             (if a = 0xF0 then 0x90 \<le> b \<and> b \<le> 0xBF else if a = 0xF4 then 0x80 \<le> b \<and> b \<le> 0x8F else cont b)
             \<and> cont c \<and> cont d \<and> from_utf8 s'
         | _ \<Rightarrow> False)
      else False)"

section \<open>Fields\<close>

text \<open>Readers of one field: the value and the rest of the input, or the program's error \<open>e\<close>.\<close>

type_synonym ('a, 'e) reader = "bytes \<Rightarrow> ('a \<times> bytes, 'e) res"

definition unpack_bytes :: "nat \<Rightarrow> 'e \<Rightarrow> (bytes, 'e) reader" where
  "unpack_bytes n e input = (if n \<le> length input then Ok (take n input, drop n input) else Err e)"

definition unpack_address :: "'e \<Rightarrow> (address, 'e) reader" where
  "unpack_address = unpack_bytes 20"

definition unpack_pubkey :: "'e \<Rightarrow> (pubkey, 'e) reader" where
  "unpack_pubkey = unpack_bytes 32"

definition unpack_bytes32 :: "'e \<Rightarrow> (bytes, 'e) reader" where
  "unpack_bytes32 = unpack_bytes 32"

definition unpack_u128 :: "'e \<Rightarrow> (128 word, 'e) reader" where
  "unpack_u128 e input = rthen (unpack_bytes 16 e input) (\<lambda>(v, rest). Ok (of_nat (nat_of_le v), rest))"

definition unpack_u64 :: "'e \<Rightarrow> (u64, 'e) reader" where
  "unpack_u64 e input = rthen (unpack_bytes 8 e input) (\<lambda>(v, rest). Ok (of_nat (nat_of_le v), rest))"

definition unpack_u8 :: "'e \<Rightarrow> (u8, 'e) reader" where
  "unpack_u8 e input = (case input of [] \<Rightarrow> Err e | b # rest \<Rightarrow> Ok (b, rest))"

definition unpack_bool :: "'e \<Rightarrow> (bool, 'e) reader" where
  "unpack_bool e input =
     (case input of
        [] \<Rightarrow> Err e
      | b # rest \<Rightarrow> if b = 0 then Ok (False, rest) else if b = 1 then Ok (True, rest) else Err e)"

definition unpack_str :: "'e \<Rightarrow> (bytes, 'e) reader" where
  "unpack_str e input =
     (case input of
        [] \<Rightarrow> Err e
      | l # rest \<Rightarrow>
          if length input < 1 + unat l then Err e
          else if from_utf8 (take (unat l) rest) then Ok (take (unat l) rest, drop (unat l) rest)
          else Err e)"

definition pack_str :: "'e \<Rightarrow> bytes \<Rightarrow> (bytes, 'e) res" where
  "pack_str too_long s = (if length s > 255 then Err too_long else Ok (of_nat (length s) # s))"

definition bool_u8 :: "bool \<Rightarrow> u8" where
  "bool_u8 b = (if b then 1 else 0)"

text \<open>Reading a field that was written gives it back and leaves what follows.\<close>

locale field =
  fixes valid :: "'a \<Rightarrow> bool"
    and put :: "'a \<Rightarrow> bytes"
    and get :: "('a, 'e) reader"
  assumes get_put: "valid x \<Longrightarrow> get (put x @ rest) = Ok (x, rest)"
begin

lemma get_put_then: "valid x \<Longrightarrow> rthen (get (put x @ rest)) k = k (x, rest)"
  by (simp add: get_put)

lemma get_put_end: "valid x \<Longrightarrow> rthen (get (put x)) k = k (x, [])"
  using get_put [of x "[]"] by simp

lemma put_inj: "\<lbrakk> valid x; valid y; put x @ r = put y @ s \<rbrakk> \<Longrightarrow> x = y \<and> r = s"
  by (metis get_put prod.inject res.inject(1))

end

interpretation bytes_field: field "\<lambda>b. length b = n" "\<lambda>b. b" "unpack_bytes n e" for n e
  by unfold_locales (simp add: unpack_bytes_def)

interpretation address_field: field "\<lambda>b. length b = 20" "\<lambda>b. b" "unpack_address e" for e
  unfolding unpack_address_def by unfold_locales

interpretation pubkey_field: field "\<lambda>b. length b = 32" "\<lambda>b. b" "unpack_pubkey e" for e
  unfolding unpack_pubkey_def by unfold_locales

interpretation bytes32_field: field "\<lambda>b. length b = 32" "\<lambda>b. b" "unpack_bytes32 e" for e
  unfolding unpack_bytes32_def by unfold_locales

interpretation u64_field: field "\<lambda>v. True" "\<lambda>v. le_of_nat 8 (unat v)" "unpack_u64 e" for e
  by unfold_locales (simp add: unpack_u64_def bytes_field.get_put)

interpretation u128_field: field "\<lambda>v. True" "\<lambda>v. le_of_nat 16 (unat v)" "unpack_u128 e" for e
  by unfold_locales (simp add: unpack_u128_def bytes_field.get_put)

interpretation u8_field: field "\<lambda>v. True" "\<lambda>v. [v]" "unpack_u8 e" for e
  by unfold_locales (simp add: unpack_u8_def)

interpretation bool_field: field "\<lambda>v. True" "\<lambda>v. [bool_u8 v]" "unpack_bool e" for e
  by unfold_locales (simp add: unpack_bool_def bool_u8_def)

interpretation str_field: field "\<lambda>s. length s \<le> 255 \<and> from_utf8 s" "\<lambda>s. of_nat (length s) # s" "unpack_str e" for e
  by unfold_locales (simp add: unpack_str_def unat_of_nat)

lemmas get_fields =
  address_field.get_put_then pubkey_field.get_put_then bytes32_field.get_put_then u64_field.get_put_then [OF TrueI]
  u128_field.get_put_then [OF TrueI] u8_field.get_put_then [OF TrueI, simplified] bool_field.get_put_then [OF TrueI, simplified]
  str_field.get_put_then [simplified]

lemma pack_str_Ok: "pack_str e s = Ok b \<longleftrightarrow> length s \<le> 255 \<and> b = of_nat (length s) # s"
  by (auto simp: pack_str_def)

end
