(* ===== verification/Bridge_Instruction.thy ===== *)
theory Bridge_Instruction
  imports Programs
begin

text \<open>
  The instructions of the bridge program (\<^verbatim>\<open>programs/bridge-program/src/instruction.rs\<close>) with their
  binary form, its errors (\<^verbatim>\<open>error.rs\<close>), and the filter that keeps users from sending the
  instructions only derived transactions may carry (\<^verbatim>\<open>primitives/src/native_tx/instruction.rs\<close>).
\<close>

section \<open>Errors\<close>

datatype bridge_error =
    InvalidInstruction | InvalidWithdrawalCounterAccount | InvalidWithdrawalTransactionAccount | InvalidVaultAccount
  | InvalidDepositorAccount | InvalidDepositType | DepositAccountIsFull | InvalidSPLTokenOwnerAccount
  | InvalidSPLTokenMintAccount | InvalidDepositorAssociatedTokenAccount | InvalidRemoteTokenAccount | InvalidSPLTokenProgramId
  | InvalidMPLTokenMetadataAccount | InvalidBridgeConfigAccount | InvalidAssociatedTokenProgramId | StringLengthTooLong
  | InvalidNoSigTxPayer | InvalidBridgeOwnerAccount | InvalidAdmin | GasLimitTooLow | InvalidSPLTokenDecimal
  | InvalidMetadataProgramId | InvalidMetadataAccount | InvalidDepositAmount | InvalidWithdrawAmount | UnmatchedTokenAccountOwner

definition bridge_errors :: "bridge_error list" where
  "bridge_errors =
     [InvalidInstruction, InvalidWithdrawalCounterAccount, InvalidWithdrawalTransactionAccount, InvalidVaultAccount,
      InvalidDepositorAccount, InvalidDepositType, DepositAccountIsFull, InvalidSPLTokenOwnerAccount,
      InvalidSPLTokenMintAccount, InvalidDepositorAssociatedTokenAccount, InvalidRemoteTokenAccount, InvalidSPLTokenProgramId,
      InvalidMPLTokenMetadataAccount, InvalidBridgeConfigAccount, InvalidAssociatedTokenProgramId, StringLengthTooLong,
      InvalidNoSigTxPayer, InvalidBridgeOwnerAccount, InvalidAdmin, GasLimitTooLow, InvalidSPLTokenDecimal,
      InvalidMetadataProgramId, InvalidMetadataAccount, InvalidDepositAmount, InvalidWithdrawAmount, UnmatchedTokenAccountOwner]"

text \<open>\<open>e as u32\<close>: the position of the variant.\<close>

definition bridge_error_code :: "bridge_error \<Rightarrow> u32" where
  "bridge_error_code e = of_nat (length (takeWhile (\<lambda>x. x \<noteq> e) bridge_errors))"

definition bridge :: "bridge_error \<Rightarrow> program_error" where
  "bridge e = Custom (bridge_error_code e)"

section \<open>Instructions\<close>

datatype bridge_instruction =
    CreateVaultAccount
  | DepositETH (bi_from: address) (bi_to: address) (bi_mint: u128) (bi_value: u128) (bi_gas: u64) (bi_is_creation: bool)
      (bi_l1_block_num: u64) (bi_l1_block_hash: bytes) (bi_log_index: u128) (bi_deposit_type: u8) (bi_deposit_from: address)
      (bi_deposit_to: pubkey) (bi_deposit_amount: u128) (bi_deposit_extra_data: bytes) (bi_deposit_l2_contract: pubkey)
      (bi_deposit_l1_contract: address)
  | CreateWithdrawalCounterAccount
  | WithdrawETH (bi_target: address) (bi_withdraw_value: u128) (bi_gas_limit: u128)
  | CreateSPL (bi_remote_token: address) (bi_name: bytes) (bi_symbol: bytes) (bi_uri: bytes) (bi_decimals: u8)
  | DepositERC20 (bi_local_token: pubkey) (bi_erc20_remote_token: address) (bi_erc20_from: address) (bi_erc20_to: pubkey)
      (bi_erc20_amount: u128)
  | WithdrawSPL (bi_spl_remote_token: address) (bi_spl_to: address) (bi_spl_amount: u128) (bi_spl_gas_limit: u128)
  | CreateBridgeConfigAccount (bi_messenger: address) (bi_standard_bridge: address)
  | ChangeBridgeAdmin (bi_new_admin: pubkey)
  | CreateUserWithdrawalCounterAccount
  | UpdateSPLMetadata (bi_meta_remote_token: address) (bi_meta_name: bytes) (bi_meta_symbol: bytes) (bi_meta_uri: bytes)

definition is_derived :: "bridge_instruction \<Rightarrow> bool" where
  "is_derived i = (case i of DepositETH _ _ _ _ _ _ _ _ _ _ _ _ _ _ _ _ \<Rightarrow> True | DepositERC20 _ _ _ _ _ \<Rightarrow> True | _ \<Rightarrow> False)"

definition bad :: program_error where
  "bad = bridge InvalidInstruction"

definition unpack_deposit_eth :: "bytes \<Rightarrow> (bridge_instruction, program_error) res" where
  "unpack_deposit_eth r =
     rthen (unpack_address bad r) (\<lambda>(from, r).
     rthen (unpack_address bad r) (\<lambda>(to, r).
     rthen (unpack_u128 bad r) (\<lambda>(mint, r).
     rthen (unpack_u128 bad r) (\<lambda>(value, r).
     rthen (unpack_u64 bad r) (\<lambda>(gas, r).
     rthen (unpack_bool bad r) (\<lambda>(is_creation, r).
     rthen (unpack_u64 bad r) (\<lambda>(l1_block_num, r).
     rthen (unpack_bytes32 bad r) (\<lambda>(l1_block_hash, r).
     rthen (unpack_u128 bad r) (\<lambda>(log_index, r).
     rthen (unpack_u8 bad r) (\<lambda>(deposit_type, r).
     rthen (unpack_address bad r) (\<lambda>(deposit_from, r).
     rthen (unpack_pubkey bad r) (\<lambda>(deposit_to, r).
     rthen (unpack_u128 bad r) (\<lambda>(deposit_amount, r).
     rthen (unpack_bytes32 bad r) (\<lambda>(deposit_extra_data, r).
     rthen (unpack_pubkey bad r) (\<lambda>(deposit_l2_contract, r).
     rthen (unpack_address bad r) (\<lambda>(deposit_l1_contract, r).
     Ok (DepositETH from to mint value gas is_creation l1_block_num l1_block_hash log_index deposit_type deposit_from deposit_to
           deposit_amount deposit_extra_data deposit_l2_contract deposit_l1_contract)))))))))))))))))"

definition bridge_unpack :: "bytes \<Rightarrow> (bridge_instruction, program_error) res" where
  "bridge_unpack input =
     (case input of
        [] \<Rightarrow> Err bad
      | tag # r \<Rightarrow>
          if tag = 0 then Ok CreateVaultAccount
          else if tag = 1 then unpack_deposit_eth r
          else if tag = 2 then Ok CreateWithdrawalCounterAccount
          else if tag = 3 then
            rthen (unpack_address bad r) (\<lambda>(target, r).
            rthen (unpack_u128 bad r) (\<lambda>(value, r).
            rthen (unpack_u128 bad r) (\<lambda>(gas_limit, r). Ok (WithdrawETH target value gas_limit))))
          else if tag = 4 then
            rthen (unpack_address bad r) (\<lambda>(remote_token, r).
            rthen (unpack_str bad r) (\<lambda>(name, r).
            rthen (unpack_str bad r) (\<lambda>(symbol, r).
            rthen (unpack_str bad r) (\<lambda>(uri, r).
            rthen (unpack_u8 bad r) (\<lambda>(decimals, r). Ok (CreateSPL remote_token name symbol uri decimals))))))
          else if tag = 5 then
            rthen (unpack_pubkey bad r) (\<lambda>(local_token, r).
            rthen (unpack_address bad r) (\<lambda>(remote_token, r).
            rthen (unpack_address bad r) (\<lambda>(from, r).
            rthen (unpack_pubkey bad r) (\<lambda>(to, r).
            rthen (unpack_u128 bad r) (\<lambda>(amount, r). Ok (DepositERC20 local_token remote_token from to amount))))))
          else if tag = 6 then
            rthen (unpack_address bad r) (\<lambda>(remote_token, r).
            rthen (unpack_address bad r) (\<lambda>(to, r).
            rthen (unpack_u128 bad r) (\<lambda>(amount, r).
            rthen (unpack_u128 bad r) (\<lambda>(gas_limit, r). Ok (WithdrawSPL remote_token to amount gas_limit)))))
          else if tag = 7 then
            rthen (unpack_address bad r) (\<lambda>(l1_cross_domain_messenger, r).
            rthen (unpack_address bad r) (\<lambda>(l1_standard_bridge, r).
            Ok (CreateBridgeConfigAccount l1_cross_domain_messenger l1_standard_bridge)))
          else if tag = 8 then rthen (unpack_pubkey bad r) (\<lambda>(new_admin, r). Ok (ChangeBridgeAdmin new_admin))
          else if tag = 9 then Ok CreateUserWithdrawalCounterAccount
          else if tag = 10 then
            rthen (unpack_address bad r) (\<lambda>(remote_token, r).
            rthen (unpack_str bad r) (\<lambda>(name, r).
            rthen (unpack_str bad r) (\<lambda>(symbol, r).
            rthen (unpack_str bad r) (\<lambda>(uri, r). Ok (UpdateSPLMetadata remote_token name symbol uri)))))
          else Err bad)"

definition pack_u128 :: "u128 \<Rightarrow> bytes" where
  "pack_u128 v = le_of_nat 16 (unat v)"

definition pack_u64 :: "u64 \<Rightarrow> bytes" where
  "pack_u64 v = le_of_nat 8 (unat v)"

fun bridge_pack :: "bridge_instruction \<Rightarrow> (bytes, bridge_error) res" where
  "bridge_pack CreateVaultAccount = Ok [0]"
| "bridge_pack (DepositETH from to mint value gas is_creation l1_block_num l1_block_hash log_index deposit_type deposit_from
     deposit_to deposit_amount deposit_extra_data deposit_l2_contract deposit_l1_contract) =
     Ok ([1] @ from @ to @ pack_u128 mint @ pack_u128 value @ pack_u64 gas @ [bool_u8 is_creation] @ pack_u64 l1_block_num
         @ l1_block_hash @ pack_u128 log_index @ [deposit_type] @ deposit_from @ deposit_to @ pack_u128 deposit_amount
         @ deposit_extra_data @ deposit_l2_contract @ deposit_l1_contract)"
| "bridge_pack CreateWithdrawalCounterAccount = Ok [2]"
| "bridge_pack (WithdrawETH target value gas_limit) = Ok ([3] @ target @ pack_u128 value @ pack_u128 gas_limit)"
| "bridge_pack (CreateSPL remote_token name symbol uri decimals) =
     rthen (pack_str StringLengthTooLong name) (\<lambda>n.
     rthen (pack_str StringLengthTooLong symbol) (\<lambda>s.
     rthen (pack_str StringLengthTooLong uri) (\<lambda>u. Ok ([4] @ remote_token @ n @ s @ u @ [decimals]))))"
| "bridge_pack (DepositERC20 local_token remote_token from to amount) = Ok ([5] @ local_token @ remote_token @ from @ to @ pack_u128 amount)"
| "bridge_pack (WithdrawSPL remote_token to amount gas_limit) = Ok ([6] @ remote_token @ to @ pack_u128 amount @ pack_u128 gas_limit)"
| "bridge_pack (CreateBridgeConfigAccount l1_cross_domain_messenger l1_standard_bridge) =
     Ok ([7] @ l1_cross_domain_messenger @ l1_standard_bridge)"
| "bridge_pack (ChangeBridgeAdmin new_admin) = Ok ([8] @ new_admin)"
| "bridge_pack CreateUserWithdrawalCounterAccount = Ok [9]"
| "bridge_pack (UpdateSPLMetadata remote_token name symbol uri) =
     rthen (pack_str StringLengthTooLong name) (\<lambda>n.
     rthen (pack_str StringLengthTooLong symbol) (\<lambda>s.
     rthen (pack_str StringLengthTooLong uri) (\<lambda>u. Ok ([10] @ remote_token @ n @ s @ u))))"

section \<open>Round trip\<close>

text \<open>Addresses, keys and hashes have their length in the source's types, and strings are UTF-8.\<close>

fun wf_instruction :: "bridge_instruction \<Rightarrow> bool" where
  "wf_instruction (DepositETH from to mint value gas is_creation l1_block_num l1_block_hash log_index deposit_type deposit_from
     deposit_to deposit_amount deposit_extra_data deposit_l2_contract deposit_l1_contract) \<longleftrightarrow>
     length from = 20 \<and> length to = 20 \<and> length l1_block_hash = 32 \<and> length deposit_from = 20 \<and> length deposit_to = 32
     \<and> length deposit_extra_data = 32 \<and> length deposit_l2_contract = 32 \<and> length deposit_l1_contract = 20"
| "wf_instruction (WithdrawETH target value gas_limit) \<longleftrightarrow> length target = 20"
| "wf_instruction (CreateSPL remote_token name symbol uri decimals) \<longleftrightarrow>
     length remote_token = 20 \<and> from_utf8 name \<and> from_utf8 symbol \<and> from_utf8 uri"
| "wf_instruction (DepositERC20 local_token remote_token from to amount) \<longleftrightarrow>
     length local_token = 32 \<and> length remote_token = 20 \<and> length from = 20 \<and> length to = 32"
| "wf_instruction (WithdrawSPL remote_token to amount gas_limit) \<longleftrightarrow> length remote_token = 20 \<and> length to = 20"
| "wf_instruction (CreateBridgeConfigAccount l1_cross_domain_messenger l1_standard_bridge) \<longleftrightarrow>
     length l1_cross_domain_messenger = 20 \<and> length l1_standard_bridge = 20"
| "wf_instruction (ChangeBridgeAdmin new_admin) \<longleftrightarrow> length new_admin = 32"
| "wf_instruction (UpdateSPLMetadata remote_token name symbol uri) \<longleftrightarrow>
     length remote_token = 20 \<and> from_utf8 name \<and> from_utf8 symbol \<and> from_utf8 uri"
| "wf_instruction _ \<longleftrightarrow> True"

lemma bridge_unpack_pack:
  assumes "wf_instruction i" and "bridge_pack i = Ok b"
  shows "bridge_unpack (b @ rest) = Ok i"
  using assms
  by (cases i)
     (auto simp: bridge_unpack_def unpack_deposit_eth_def get_fields pack_u128_def pack_u64_def pack_str_Ok res_simps)

section \<open>Properties\<close>

text \<open>
  An instruction of the bridge that can be packed is unpacked to itself, whatever follows
  its bytes.
\<close>

theorem bridge_instruction_roundtrip:
  assumes "wf_instruction i" and "bridge_pack i = Ok b"
  shows "bridge_unpack (b @ rest) = Ok i"
  by (rule bridge_unpack_pack [OF assms])

theorem bridge_instruction_roundtrip_witness:
  "\<exists>b. bridge_pack (CreateSPL (replicate 20 1) (map of_char ''Token'') [] [] 6) = Ok b
     \<and> bridge_unpack (b @ [7]) = Ok (CreateSPL (replicate 20 1) (map of_char ''Token'') [] [] 6)"
proof -
  have w: "wf_instruction (CreateSPL (replicate 20 1) (map of_char ''Token'') [] [] 6)" by code_simp
  obtain b where "bridge_pack (CreateSPL (replicate 20 1) (map of_char ''Token'') [] [] 6) = Ok b"
    by (simp add: pack_str_def)
  with bridge_instruction_roundtrip [OF w this, of "[7]"] show ?thesis by blast
qed

end
