(* ===== verification/Bridge_Program.thy ===== *)
theory Bridge_Program
  imports Bridge_Instruction
begin

text \<open>
  The bridge program: the layout of its accounts (\<^verbatim>\<open>state.rs\<close>), its derived addresses (\<^verbatim>\<open>pda.rs\<close>),
  account creation (\<^verbatim>\<open>utils.rs\<close>) and the handlers of its instructions (\<^verbatim>\<open>processor.rs\<close>). Handlers
  work on a store of accounts; an error leaves the store as it is at that point, and the
  runtime discards it. Programs that are called, the derivation of addresses, the rent and the
  token and ABI libraries are the environment.
\<close>

section \<open>The environment\<close>

text \<open>Instructions of other programs: the system program, the token programs and the metadata program.\<close>

datatype cpi =
    Transfer pubkey pubkey u64
  | Allocate pubkey nat
  | Assign pubkey pubkey
  | InitializeMint pubkey pubkey pubkey u8
  | MintTo pubkey pubkey pubkey pubkey u64
  | Burn pubkey pubkey pubkey pubkey u64
  | SetCloseAuthority pubkey pubkey pubkey pubkey
  | CreateAssociatedTokenAccount pubkey pubkey pubkey pubkey
  | CreateMetadataAccountV3 pubkey pubkey pubkey pubkey pubkey pubkey pubkey bytes bytes bytes
  | UpdateMetadataAccountV2 pubkey pubkey bytes bytes bytes

datatype abi_token = FixedBytes bytes | AddressToken address | Uint u256 | BytesToken bytes

type_synonym rent = "nat \<Rightarrow> u64"

record program_env =
  pe_id :: pubkey
  pe_no_sig_tx_payer :: pubkey
  pe_token_metadata_id :: pubkey
  pe_associated_token_id :: pubkey
  pe_find_program_address :: "bytes list \<Rightarrow> pubkey \<Rightarrow> pubkey \<times> u8"
  pe_metadata_pda :: "pubkey \<Rightarrow> pubkey"
  pe_check_token_program :: "pubkey \<Rightarrow> (unit, program_error) res"
  pe_token_instruction :: "cpi \<Rightarrow> (unit, program_error) res"
  pe_rent_get :: "(rent, program_error) res"
  pe_rent_from :: "pubkey \<Rightarrow> account \<Rightarrow> (rent, program_error) res"
  pe_check_len :: "nat \<Rightarrow> nat \<Rightarrow> (unit, program_error) res"
  pe_mint_len :: nat
  pe_mint_decimals :: "bytes \<Rightarrow> (u8, program_error) res"
  pe_token_owner :: "bytes \<Rightarrow> (pubkey, program_error) res"
  pe_abi_encode :: "abi_token list \<Rightarrow> bytes"
  pe_keccak256 :: "bytes \<Rightarrow> b256"
  pe_invoke :: "cpi \<Rightarrow> account_info list \<Rightarrow> bytes list list \<Rightarrow> store \<Rightarrow> store program_result"

definition guard :: "bool \<Rightarrow> 'e \<Rightarrow> (unit, 'e) res" where
  "guard b e = (if b then Ok () else Err e)"

definition cmp_pubkeys :: "pubkey \<Rightarrow> pubkey \<Rightarrow> bool" where
  "cmp_pubkeys a b \<longleftrightarrow> a = b"

section \<open>Account layouts\<close>

text \<open>
  \<open>Pack::unpack\<close> and \<open>Pack::pack\<close> check the length of the account's data (\<open>pe_check_len\<close>)
  before they read or write its fields.
\<close>

definition packed :: "program_env \<Rightarrow> nat \<Rightarrow> bytes \<Rightarrow> pubkey \<Rightarrow> store \<Rightarrow> store program_result" where
  "packed E len bytes k st = rbind (pe_check_len E len (length (ac_data (st k)))) st (\<lambda>_. (Ok (), set_data k bytes st))"

definition unpacked :: "program_env \<Rightarrow> nat \<Rightarrow> (bytes \<Rightarrow> ('a, program_error) res) \<Rightarrow> pubkey \<Rightarrow> store \<Rightarrow> ('a, program_error) res" where
  "unpacked E len f k st = rthen (pe_check_len E len (length (ac_data (st k)))) (\<lambda>_. f (ac_data (st k)))"

definition counter_pack :: "u64 \<Rightarrow> bytes" where
  "counter_pack counter = le_of_nat 8 (unat counter)"

definition counter_unpack :: "bytes \<Rightarrow> (u64, program_error) res" where
  "counter_unpack src = rthen (sliced 0 8 src) (\<lambda>c. Ok (of_nat (nat_of_le c)))"

definition ETH_WITHDRAWAL_TRANSACTION_CALLDATA_LEN :: nat where "ETH_WITHDRAWAL_TRANSACTION_CALLDATA_LEN = 420"

definition SPL_WITHDRAWAL_TRANSACTION_CALLDATA_LEN :: nat where "SPL_WITHDRAWAL_TRANSACTION_CALLDATA_LEN = 484"

text \<open>The two withdrawal records differ in the length of their calldata only.\<close>

record withdrawal_transaction =
  wt_nonce :: u256
  wt_sender :: pubkey
  wt_target :: address
  wt_value :: u256
  wt_gas_limit :: u256
  wt_data :: bytes

definition withdrawal_pack :: "withdrawal_transaction \<Rightarrow> bytes" where
  "withdrawal_pack w =
     be_of_nat 32 (unat (wt_nonce w)) @ wt_sender w @ wt_target w @ be_of_nat 32 (unat (wt_value w))
     @ be_of_nat 32 (unat (wt_gas_limit w)) @ wt_data w"

definition withdrawal_unpack :: "nat \<Rightarrow> bytes \<Rightarrow> (withdrawal_transaction, program_error) res" where
  "withdrawal_unpack calldata_len src =
     rthen (sliced 0 32 src) (\<lambda>nonce.
     rthen (sliced 32 64 src) (\<lambda>sender.
     rthen (sliced 64 84 src) (\<lambda>target.
     rthen (sliced 84 116 src) (\<lambda>value.
     rthen (sliced 116 148 src) (\<lambda>gas_limit.
     rthen (sliced 148 (148 + calldata_len) src) (\<lambda>data.
     Ok \<lparr>wt_nonce = u256_of nonce, wt_sender = sender, wt_target = target, wt_value = u256_of value,
         wt_gas_limit = u256_of gas_limit, wt_data = data\<rparr>))))))"

definition eth_withdrawal_unpack :: "bytes \<Rightarrow> (withdrawal_transaction, program_error) res" where
  "eth_withdrawal_unpack = withdrawal_unpack ETH_WITHDRAWAL_TRANSACTION_CALLDATA_LEN"

definition spl_withdrawal_unpack :: "bytes \<Rightarrow> (withdrawal_transaction, program_error) res" where
  "spl_withdrawal_unpack = withdrawal_unpack SPL_WITHDRAWAL_TRANSACTION_CALLDATA_LEN"

record bridge_config =
  bc_l1_cross_domain_messenger :: address
  bc_l1_standard_bridge :: address

definition config_unpack :: "bytes \<Rightarrow> (bridge_config, program_error) res" where
  "config_unpack src =
     rthen (sliced 0 20 src) (\<lambda>messenger.
     rthen (sliced 20 40 src) (\<lambda>standard_bridge.
     Ok \<lparr>bc_l1_cross_domain_messenger = messenger, bc_l1_standard_bridge = standard_bridge\<rparr>))"

text \<open>\<open>BridgeOwner\<close> holds the key of the admin, in 32 bytes.\<close>

definition owner_unpack :: "bytes \<Rightarrow> (pubkey, program_error) res" where
  "owner_unpack src = (if length src = 32 then Ok src else Err InvalidAccountData)"

section \<open>Derived addresses\<close>

definition vault_pubkey_and_bump :: "program_env \<Rightarrow> pubkey \<Rightarrow> pubkey \<times> u8" where
  "vault_pubkey_and_bump E program_id = pe_find_program_address E [map of_char ''vault''] program_id"

definition user_withdrawal_counter_pubkey_and_bump :: "program_env \<Rightarrow> pubkey \<Rightarrow> pubkey \<Rightarrow> pubkey \<times> u8" where
  "user_withdrawal_counter_pubkey_and_bump E program_id user_key =
     pe_find_program_address E [map of_char ''svm-withdraw-counter'', user_key] program_id"

definition withdrawal_transaction_pubkey_and_bump :: "program_env \<Rightarrow> pubkey \<Rightarrow> u64 \<Rightarrow> pubkey \<Rightarrow> pubkey \<times> u8" where
  "withdrawal_transaction_pubkey_and_bump E user_key counter program_id =
     pe_find_program_address E [user_key, le_of_nat 8 (unat counter)] program_id"

definition config_pubkey_and_bump :: "program_env \<Rightarrow> pubkey \<Rightarrow> pubkey \<times> u8" where
  "config_pubkey_and_bump E program_id = pe_find_program_address E [map of_char ''bridge-config''] program_id"

definition spl_token_owner_pubkey_and_bump :: "program_env \<Rightarrow> address \<Rightarrow> pubkey \<Rightarrow> pubkey \<times> u8" where
  "spl_token_owner_pubkey_and_bump E remote_token program_id =
     pe_find_program_address E [map of_char ''spl-owner'', remote_token] program_id"

definition spl_token_mint_pubkey_and_bump :: "program_env \<Rightarrow> address \<Rightarrow> pubkey \<Rightarrow> pubkey \<times> u8" where
  "spl_token_mint_pubkey_and_bump E remote_token program_id =
     pe_find_program_address E [map of_char ''spl-mint'', remote_token] program_id"

definition bridge_owner_pubkey_and_bump :: "program_env \<Rightarrow> pubkey \<Rightarrow> pubkey \<times> u8" where
  "bridge_owner_pubkey_and_bump E program_id = pe_find_program_address E [map of_char ''bridge-owner''] program_id"

section \<open>Amounts\<close>

text \<open>\<open>10_u128.pow(n)\<close> panics when it overflows.\<close>

definition pow10 :: "nat \<Rightarrow> (u128, 'e) res" where
  "pow10 n = (if (10 :: nat) ^ n < 2 ^ 128 then Ok (10 ^ n) else Panic)"

definition remove_dust :: "u128 \<Rightarrow> u8 \<Rightarrow> u8 \<Rightarrow> (u128, 'e) res" where
  "remove_dust amount from_decimal to_decimal =
     (if from_decimal \<le> to_decimal then Ok amount
      else rthen (pow10 (unat (from_decimal - to_decimal))) (\<lambda>rate. Ok (amount div rate * rate)))"

definition convert_decimal :: "u128 \<Rightarrow> u8 \<Rightarrow> u8 \<Rightarrow> (u128, 'e) res" where
  "convert_decimal amount from_decimal to_decimal =
     (if from_decimal > to_decimal then
        rthen (pow10 (unat (from_decimal - to_decimal))) (\<lambda>rate. Ok (amount div rate))
      else
        rthen (pow10 (unat (to_decimal - from_decimal))) (\<lambda>rate.
        if unat amount * unat rate < 2 ^ 128 then Ok (amount * rate) else Panic))"

definition to_u64 :: "u128 \<Rightarrow> u64 option" where
  "to_u64 v = (if unat v < 2 ^ 64 then Some (ucast v) else None)"

definition SPL_SHARE_DECIMAL :: u8 where "SPL_SHARE_DECIMAL = 9"

definition MINIMAL_GAS_LIMIT :: u128 where "MINIMAL_GAS_LIMIT = 500000"

definition STANDARD_BRIDGE_CALL_GAS_LIMIT :: u128 where "STANDARD_BRIDGE_CALL_GAS_LIMIT = 200000"

definition MAX_TOKEN_DECIMAL :: u8 where "MAX_TOKEN_DECIMAL = 9"

section \<open>Messages to L1\<close>

definition encode_with_selector :: "program_env \<Rightarrow> string \<Rightarrow> abi_token list \<Rightarrow> bytes" where
  "encode_with_selector E selector params = take 4 (pe_keccak256 E (map of_char selector)) @ pe_abi_encode E params"

definition encode_versioned_nonce :: "u64 \<Rightarrow> u256" where
  "encode_versioned_nonce nonce = push_bit 240 1 OR ucast nonce"

definition relay_calldata :: "program_env \<Rightarrow> pubkey \<Rightarrow> address \<Rightarrow> u128 \<Rightarrow> u128 \<Rightarrow> bytes \<Rightarrow> u64 \<Rightarrow> bytes" where
  "relay_calldata E program_id l1_standard_bridge value gas_limit message counter =
     encode_with_selector E ''relayMessage(uint256,bytes32,address,uint256,uint256,bytes)''
       [Uint (encode_versioned_nonce counter), FixedBytes program_id, AddressToken l1_standard_bridge, Uint (ucast value),
        Uint (ucast gas_limit), BytesToken message]"

definition get_bridge_eth_calldata ::
  "program_env \<Rightarrow> pubkey \<Rightarrow> address \<Rightarrow> pubkey \<Rightarrow> address \<Rightarrow> u128 \<Rightarrow> u128 \<Rightarrow> u64 \<Rightarrow> bytes" where
  "get_bridge_eth_calldata E program_id l1_standard_bridge sender target value gas_limit counter =
     relay_calldata E program_id l1_standard_bridge value gas_limit
       (encode_with_selector E ''finalizeBridgeETH(bytes32,address,uint256,bytes)''
          [FixedBytes sender, AddressToken target, Uint (ucast value), BytesToken []])
       counter"

definition get_bridge_erc20_calldata ::
  "program_env \<Rightarrow> pubkey \<Rightarrow> address \<Rightarrow> pubkey \<Rightarrow> address \<Rightarrow> pubkey \<Rightarrow> address \<Rightarrow> u128 \<Rightarrow> u128 \<Rightarrow> u64 \<Rightarrow> bytes" where
  "get_bridge_erc20_calldata E program_id l1_standard_bridge local_token remote_token from to amount gas_limit counter =
     relay_calldata E program_id l1_standard_bridge 0 gas_limit
       (encode_with_selector E ''finalizeBridgeERC20(address,bytes32,bytes32,address,uint256,bytes)''
          [AddressToken remote_token, FixedBytes local_token, FixedBytes from, AddressToken to, Uint (ucast amount), BytesToken []])
       counter"

section \<open>Creating accounts\<close>

definition invoke_optionally_signed ::
  "program_env \<Rightarrow> cpi \<Rightarrow> account_info list \<Rightarrow> bytes list \<Rightarrow> store \<Rightarrow> store program_result" where
  "invoke_optionally_signed E ix infos signer_seeds =
     (if signer_seeds = [] then pe_invoke E ix infos [] else pe_invoke E ix infos [signer_seeds])"

definition create_account ::
  "program_env \<Rightarrow> nat \<Rightarrow> rent \<Rightarrow> account_info \<Rightarrow> account_info \<Rightarrow> account_info \<Rightarrow> pubkey \<Rightarrow> bytes list \<Rightarrow> bytes list
     \<Rightarrow> store \<Rightarrow> store program_result" where
  "create_account E len rent payer target system_program owner payer_signer_seeds target_signer_seeds st =
     (let required_lamports =
            (if rent len \<ge> ac_lamports (st (ai_key target)) then rent len - ac_lamports (st (ai_key target)) else 0) in
      pbind
        (if required_lamports > 0
         then invoke_optionally_signed E (Transfer (ai_key payer) (ai_key target) required_lamports)
                [payer, target, system_program] payer_signer_seeds st
         else (Ok (), st)) (\<lambda>st.
      pbind (invoke_optionally_signed E (Allocate (ai_key target) len) [target, system_program] target_signer_seeds st) (\<lambda>st.
      invoke_optionally_signed E (Assign (ai_key target) owner) [target, system_program] target_signer_seeds st)))"

section \<open>Handlers\<close>

definition deposit_eth ::
  "program_env \<Rightarrow> pubkey \<Rightarrow> account_info list \<Rightarrow> u128 \<Rightarrow> pubkey \<Rightarrow> store \<Rightarrow> store program_result" where
  "deposit_eth E program_id accounts value deposit_to st =
     rbind (array_ref 4 accounts) st (\<lambda>accounts.
     let system_program = accounts ! 0; depositor = accounts ! 1; vault = accounts ! 2; no_sig_tx_payer = accounts ! 3 in
     rbind (guard (cmp_pubkeys (ai_key no_sig_tx_payer) (pe_no_sig_tx_payer E) \<and> ai_is_signer no_sig_tx_payer)
              (bridge InvalidNoSigTxPayer)) st (\<lambda>_.
     let (vault_key, vault_seed) = vault_pubkey_and_bump E program_id in
     rbind (guard (cmp_pubkeys vault_key (ai_key vault)) (bridge InvalidVaultAccount)) st (\<lambda>_.
     rbind (guard (cmp_pubkeys deposit_to (ai_key depositor)) (bridge InvalidDepositorAccount)) st (\<lambda>_.
     rbind (pe_rent_get E) st (\<lambda>rent.
     rbind (ok_or (to_u64 value) (bridge InvalidDepositAmount)) st (\<lambda>deposit_amount.
     rbind (guard (deposit_amount > rent 0) (bridge InvalidDepositAmount)) st (\<lambda>_.
     pe_invoke E (Transfer (ai_key vault) (ai_key depositor) deposit_amount) [system_program, vault, depositor]
       [[map of_char ''vault'', [vault_seed]]] st)))))))"

text \<open>The part the two withdrawals share: take the next number of the user's counter.\<close>

definition next_counter :: "program_env \<Rightarrow> pubkey \<Rightarrow> store \<Rightarrow> (u64, program_error) res \<times> store" where
  "next_counter E counter_account st =
     rbind (unpacked E 8 counter_unpack counter_account st) st (\<lambda>counter.
     if counter = - 1 then (Panic, st)
     else
       let (r, st1) = packed E 8 (counter_pack (counter + 1)) counter_account st in
       rbind r st1 (\<lambda>_. (Ok counter, st1)))"

definition withdraw_eth ::
  "program_env \<Rightarrow> pubkey \<Rightarrow> account_info list \<Rightarrow> address \<Rightarrow> u128 \<Rightarrow> u128 \<Rightarrow> store \<Rightarrow> store program_result" where
  "withdraw_eth E program_id accounts target value gas_limit st =
     rbind (guard (gas_limit \<ge> MINIMAL_GAS_LIMIT) (bridge GasLimitTooLow)) st (\<lambda>_.
     rbind (array_ref 7 accounts) st (\<lambda>accounts.
     let system_program = accounts ! 0; rent_sysvar = accounts ! 1; user_withdrawal_counter = accounts ! 2;
         withdrawal_tx = accounts ! 3; vault = accounts ! 4; bridge_config = accounts ! 5; payer = accounts ! 6 in
     rbind (guard (cmp_pubkeys (fst (config_pubkey_and_bump E (pe_id E))) (ai_key bridge_config)) (bridge InvalidBridgeConfigAccount)) st (\<lambda>_.
     rbind (guard (cmp_pubkeys (fst (user_withdrawal_counter_pubkey_and_bump E program_id (ai_key payer))) (ai_key user_withdrawal_counter))
              (bridge InvalidWithdrawalCounterAccount)) st (\<lambda>_.
     let (r, st) = next_counter E (ai_key user_withdrawal_counter) st in
     rbind r st (\<lambda>counter.
     let (withdrawal_transaction_key, bump) = withdrawal_transaction_pubkey_and_bump E (ai_key payer) counter program_id in
     rbind (guard (cmp_pubkeys withdrawal_transaction_key (ai_key withdrawal_tx)) (bridge InvalidWithdrawalTransactionAccount)) st (\<lambda>_.
     let vault_key = fst (vault_pubkey_and_bump E (pe_id E)) in
     rbind (guard (cmp_pubkeys vault_key (ai_key vault)) (bridge InvalidVaultAccount)) st (\<lambda>_.
     rbind (ok_or (to_u64 value) (bridge InvalidWithdrawAmount)) st (\<lambda>value.
     rbind (guard (value \<noteq> 0) (bridge InvalidWithdrawAmount)) st (\<lambda>_.
     pbind (pe_invoke E (Transfer (ai_key payer) vault_key value) [payer, vault, system_program] [] st) (\<lambda>st.
     rbind (pe_rent_from E (ai_key rent_sysvar) (st (ai_key rent_sysvar))) st (\<lambda>rent.
     pbind (create_account E (148 + ETH_WITHDRAWAL_TRANSACTION_CALLDATA_LEN) rent payer withdrawal_tx system_program program_id []
              [ai_key payer, le_of_nat 8 (unat counter), [bump]] st) (\<lambda>st.
     rbind (unpacked E 40 config_unpack (ai_key bridge_config) st) st (\<lambda>config.
     let calldata = get_bridge_eth_calldata E program_id (bc_l1_standard_bridge config) (ai_key payer) target (ucast value)
                      STANDARD_BRIDGE_CALL_GAS_LIMIT counter in
     rbind (guard (length calldata = ETH_WITHDRAWAL_TRANSACTION_CALLDATA_LEN) InvalidAccountData) st (\<lambda>_.
     packed E (148 + ETH_WITHDRAWAL_TRANSACTION_CALLDATA_LEN)
       (withdrawal_pack \<lparr>wt_nonce = ucast counter, wt_sender = program_id, wt_target = bc_l1_cross_domain_messenger config,
          wt_value = ucast value, wt_gas_limit = ucast gas_limit, wt_data = calldata\<rparr>)
       (ai_key withdrawal_tx) st))))))))))))))"

text \<open>The check of the bridge's owner account and its admin, in three handlers.\<close>

definition checked_admin :: "program_env \<Rightarrow> pubkey \<Rightarrow> account_info \<Rightarrow> account_info \<Rightarrow> store \<Rightarrow> (unit, program_error) res" where
  "checked_admin E program_id bridge_owner admin st =
     rthen (guard (cmp_pubkeys (fst (bridge_owner_pubkey_and_bump E program_id)) (ai_key bridge_owner)) (bridge InvalidBridgeOwnerAccount)) (\<lambda>_.
     rthen (unpacked E 32 owner_unpack (ai_key bridge_owner) st) (\<lambda>owner_admin.
     guard (owner_admin = ai_key admin \<and> ai_is_signer admin) (bridge InvalidAdmin)))"

definition change_bridge_admin ::
  "program_env \<Rightarrow> pubkey \<Rightarrow> account_info list \<Rightarrow> pubkey \<Rightarrow> store \<Rightarrow> store program_result" where
  "change_bridge_admin E program_id accounts new_admin st =
     rbind (array_ref 2 accounts) st (\<lambda>accounts.
     let bridge_owner = accounts ! 0; admin = accounts ! 1 in
     rbind (checked_admin E program_id bridge_owner admin st) st (\<lambda>_.
     packed E 32 new_admin (ai_key bridge_owner) st))"

definition create_spl ::
  "program_env \<Rightarrow> pubkey \<Rightarrow> account_info list \<Rightarrow> address \<Rightarrow> bytes \<Rightarrow> bytes \<Rightarrow> bytes \<Rightarrow> u8 \<Rightarrow> store \<Rightarrow> store program_result" where
  "create_spl E program_id accounts remote_token name symbol uri decimals st =
     rbind (guard (decimals \<le> MAX_TOKEN_DECIMAL) (bridge InvalidSPLTokenDecimal)) st (\<lambda>_.
     rbind (array_ref 10 accounts) st (\<lambda>accounts.
     let system_program = accounts ! 0; rent_sysvar = accounts ! 1; spl_token_program = accounts ! 2; spl_token_owner = accounts ! 3;
         spl_token_mint = accounts ! 4; vault = accounts ! 5; bridge_owner = accounts ! 6; admin = accounts ! 7;
         token_metadata_program = accounts ! 8; metadata = accounts ! 9 in
     rbind (map_err (\<lambda>_. bridge InvalidSPLTokenProgramId) (pe_check_token_program E (ai_key spl_token_program))) st (\<lambda>_.
     let (vault_key, vault_bump) = vault_pubkey_and_bump E program_id in
     rbind (guard (cmp_pubkeys vault_key (ai_key vault)) (bridge InvalidVaultAccount)) st (\<lambda>_.
     rbind (checked_admin E program_id bridge_owner admin st) st (\<lambda>_.
     let (spl_token_owner_key, spl_token_owner_bump) = spl_token_owner_pubkey_and_bump E remote_token program_id in
     rbind (guard (cmp_pubkeys spl_token_owner_key (ai_key spl_token_owner)) (bridge InvalidSPLTokenOwnerAccount)) st (\<lambda>_.
     let (spl_token_mint_key, spl_token_mint_bump) = spl_token_mint_pubkey_and_bump E remote_token program_id in
     rbind (guard (cmp_pubkeys spl_token_mint_key (ai_key spl_token_mint)) (bridge InvalidSPLTokenMintAccount)) st (\<lambda>_.
     rbind (guard (cmp_pubkeys (ai_key token_metadata_program) (pe_token_metadata_id E)) (bridge InvalidMetadataProgramId)) st (\<lambda>_.
     rbind (guard (cmp_pubkeys (pe_metadata_pda E (ai_key spl_token_mint)) (ai_key metadata)) (bridge InvalidMetadataAccount)) st (\<lambda>_.
     rbind (pe_rent_from E (ai_key rent_sysvar) (st (ai_key rent_sysvar))) st (\<lambda>rent.
     pbind (create_account E (pe_mint_len E) rent vault spl_token_mint system_program (ai_key spl_token_program)
              [map of_char ''vault'', [vault_bump]] [map of_char ''spl-mint'', remote_token, [spl_token_mint_bump]] st) (\<lambda>st.
     let ix = InitializeMint (ai_key spl_token_program) spl_token_mint_key spl_token_owner_key decimals in
     rbind (pe_token_instruction E ix) st (\<lambda>_.
     pbind (pe_invoke E ix [spl_token_mint, rent_sysvar, spl_token_program] [] st) (\<lambda>st.
     pe_invoke E
       (CreateMetadataAccountV3 (ai_key metadata) (ai_key spl_token_mint) (ai_key spl_token_owner) (ai_key admin) (ai_key spl_token_owner)
          (ai_key system_program) (ai_key rent_sysvar) name symbol uri)
       [token_metadata_program, metadata, spl_token_mint, spl_token_owner, admin, rent_sysvar]
       [[map of_char ''spl-owner'', remote_token, [spl_token_owner_bump]]] st)))))))))))))"

definition update_spl_metadata ::
  "program_env \<Rightarrow> pubkey \<Rightarrow> account_info list \<Rightarrow> address \<Rightarrow> bytes \<Rightarrow> bytes \<Rightarrow> bytes \<Rightarrow> store \<Rightarrow> store program_result" where
  "update_spl_metadata E program_id accounts remote_token name symbol uri st =
     rbind (array_ref 6 accounts) st (\<lambda>accounts.
     let metadata = accounts ! 0; spl_token_mint = accounts ! 1; spl_token_owner = accounts ! 2; token_metadata_program = accounts ! 3;
         bridge_owner = accounts ! 4; admin = accounts ! 5 in
     rbind (checked_admin E program_id bridge_owner admin st) st (\<lambda>_.
     rbind (guard (cmp_pubkeys (ai_key token_metadata_program) (pe_token_metadata_id E)) (bridge InvalidMetadataProgramId)) st (\<lambda>_.
     rbind (guard (cmp_pubkeys (pe_metadata_pda E (ai_key spl_token_mint)) (ai_key metadata)) (bridge InvalidMetadataAccount)) st (\<lambda>_.
     let (spl_token_owner_key, spl_token_owner_bump) = spl_token_owner_pubkey_and_bump E remote_token program_id in
     rbind (guard (cmp_pubkeys spl_token_owner_key (ai_key spl_token_owner)) (bridge InvalidSPLTokenOwnerAccount)) st (\<lambda>_.
     pe_invoke E (UpdateMetadataAccountV2 (ai_key metadata) (ai_key spl_token_owner) name symbol uri)
       [token_metadata_program, metadata, spl_token_owner] [[map of_char ''spl-owner'', remote_token, [spl_token_owner_bump]]] st)))))"

text \<open>The depositor's token account: created and secured when it does not exist, checked otherwise.\<close>

definition depositor_token_ready ::
  "program_env \<Rightarrow> account_info list \<Rightarrow> u8 \<Rightarrow> store \<Rightarrow> store program_result" where
  "depositor_token_ready E accounts vault_bump st =
     (let system_program = accounts ! 0; spl_token_program = accounts ! 1; associated_token_program = accounts ! 2;
          spl_token_owner = accounts ! 3; spl_token_mint = accounts ! 4; depositor = accounts ! 5; depositor_token = accounts ! 6;
          vault = accounts ! 7 in
      if ac_owner (st (ai_key depositor_token)) \<noteq> ai_key spl_token_program then
        pbind (pe_invoke E
                 (CreateAssociatedTokenAccount (ai_key vault) (ai_key depositor) (ai_key spl_token_mint) (ai_key spl_token_program))
                 [system_program, spl_token_program, associated_token_program, depositor, depositor_token, spl_token_mint, vault]
                 [[map of_char ''vault'', [vault_bump]]] st) (\<lambda>st.
        let ix = SetCloseAuthority (ai_key spl_token_program) (ai_key depositor_token) (ai_key spl_token_owner) (ai_key depositor) in
        rbind (pe_token_instruction E ix) st (\<lambda>_.
        pe_invoke E ix [spl_token_program, depositor_token, depositor] [] st))
      else
        rbind (pe_token_owner E (ac_data (st (ai_key depositor_token)))) st (\<lambda>owner.
        rbind (guard (owner = ai_key depositor) (bridge UnmatchedTokenAccountOwner)) st (\<lambda>_. (Ok (), st))))"

definition deposit_erc20 ::
  "program_env \<Rightarrow> pubkey \<Rightarrow> account_info list \<Rightarrow> pubkey \<Rightarrow> address \<Rightarrow> pubkey \<Rightarrow> u128 \<Rightarrow> store \<Rightarrow> store program_result" where
  "deposit_erc20 E program_id accounts local_token remote_token to amount st =
     rbind (array_ref 9 accounts) st (\<lambda>accounts.
     let spl_token_program = accounts ! 1; associated_token_program = accounts ! 2; spl_token_owner = accounts ! 3;
         spl_token_mint = accounts ! 4; depositor = accounts ! 5; depositor_token = accounts ! 6; vault = accounts ! 7;
         no_sig_tx_payer = accounts ! 8 in
     rbind (guard (cmp_pubkeys (ai_key no_sig_tx_payer) (pe_no_sig_tx_payer E) \<and> ai_is_signer no_sig_tx_payer)
              (bridge InvalidNoSigTxPayer)) st (\<lambda>_.
     rbind (map_err (\<lambda>_. bridge InvalidSPLTokenProgramId) (pe_check_token_program E (ai_key spl_token_program))) st (\<lambda>_.
     rbind (guard (ai_key associated_token_program = pe_associated_token_id E) (bridge InvalidAssociatedTokenProgramId)) st (\<lambda>_.
     rbind (guard (cmp_pubkeys to (ai_key depositor) \<and> ai_is_signer depositor) (bridge InvalidDepositorAccount)) st (\<lambda>_.
     let (vault_key, vault_bump) = vault_pubkey_and_bump E program_id in
     rbind (guard (cmp_pubkeys vault_key (ai_key vault)) (bridge InvalidVaultAccount)) st (\<lambda>_.
     rbind (guard (cmp_pubkeys local_token (ai_key spl_token_mint)) (bridge InvalidSPLTokenMintAccount)) st (\<lambda>_.
     let (spl_token_owner_key, spl_token_owner_bump) = spl_token_owner_pubkey_and_bump E remote_token program_id in
     rbind (guard (cmp_pubkeys spl_token_owner_key (ai_key spl_token_owner)) (bridge InvalidSPLTokenOwnerAccount)) st (\<lambda>_.
     rbind (guard (cmp_pubkeys (fst (spl_token_mint_pubkey_and_bump E remote_token program_id)) (ai_key spl_token_mint))
              (bridge InvalidSPLTokenMintAccount)) st (\<lambda>_.
     pbind (depositor_token_ready E accounts vault_bump st) (\<lambda>st.
     rbind (pe_mint_decimals E (ac_data (st (ai_key spl_token_mint)))) st (\<lambda>decimals.
     rbind (convert_decimal amount SPL_SHARE_DECIMAL decimals) st (\<lambda>converted.
     rbind (ok_or (to_u64 converted) (bridge InvalidDepositAmount)) st (\<lambda>amount.
     let ix = MintTo (ai_key spl_token_program) (ai_key spl_token_mint) (ai_key depositor_token) (ai_key spl_token_owner) amount in
     rbind (pe_token_instruction E ix) st (\<lambda>_.
     pe_invoke E ix [spl_token_program, spl_token_mint, depositor_token, spl_token_owner, vault]
       [[map of_char ''spl-owner'', remote_token, [spl_token_owner_bump]]] st))))))))))))))"

definition withdraw_spl ::
  "program_env \<Rightarrow> pubkey \<Rightarrow> account_info list \<Rightarrow> address \<Rightarrow> address \<Rightarrow> u128 \<Rightarrow> u128 \<Rightarrow> store \<Rightarrow> store program_result" where
  "withdraw_spl E program_id accounts remote_token to amount gas_limit st =
     rbind (guard (gas_limit \<ge> MINIMAL_GAS_LIMIT) (bridge GasLimitTooLow)) st (\<lambda>_.
     rbind (array_ref 10 accounts) st (\<lambda>accounts.
     let system_program = accounts ! 0; rent_sysvar = accounts ! 1; spl_token_program = accounts ! 2; user_withdrawal_counter = accounts ! 3;
         withdrawal_tx = accounts ! 4; spl_token_owner = accounts ! 5; spl_token_mint = accounts ! 6; payer_token = accounts ! 7;
         bridge_config = accounts ! 8; payer = accounts ! 9 in
     rbind (guard (cmp_pubkeys (fst (config_pubkey_and_bump E program_id)) (ai_key bridge_config)) (bridge InvalidBridgeConfigAccount)) st (\<lambda>_.
     rbind (map_err (\<lambda>_. bridge InvalidSPLTokenProgramId) (pe_check_token_program E (ai_key spl_token_program))) st (\<lambda>_.
     rbind (guard (cmp_pubkeys (fst (user_withdrawal_counter_pubkey_and_bump E program_id (ai_key payer))) (ai_key user_withdrawal_counter))
              (bridge InvalidWithdrawalCounterAccount)) st (\<lambda>_.
     let (r, st) = next_counter E (ai_key user_withdrawal_counter) st in
     rbind r st (\<lambda>counter.
     let (withdrawal_transaction_key, bump) = withdrawal_transaction_pubkey_and_bump E (ai_key payer) counter program_id in
     rbind (guard (cmp_pubkeys withdrawal_transaction_key (ai_key withdrawal_tx)) (bridge InvalidWithdrawalTransactionAccount)) st (\<lambda>_.
     rbind (guard (cmp_pubkeys (fst (spl_token_owner_pubkey_and_bump E remote_token program_id)) (ai_key spl_token_owner))
              (bridge InvalidSPLTokenOwnerAccount)) st (\<lambda>_.
     rbind (guard (cmp_pubkeys (fst (spl_token_mint_pubkey_and_bump E remote_token program_id)) (ai_key spl_token_mint))
              (bridge InvalidSPLTokenMintAccount)) st (\<lambda>_.
     rbind (pe_mint_decimals E (ac_data (st (ai_key spl_token_mint)))) st (\<lambda>decimals.
     rbind (remove_dust amount decimals SPL_SHARE_DECIMAL) st (\<lambda>without_dust.
     rbind (ok_or (to_u64 without_dust) (bridge InvalidWithdrawAmount)) st (\<lambda>amount.
     rbind (guard (amount \<noteq> 0) (bridge InvalidWithdrawAmount)) st (\<lambda>_.
     let ix = Burn (ai_key spl_token_program) (ai_key payer_token) (ai_key spl_token_mint) (ai_key payer) amount in
     rbind (pe_token_instruction E ix) st (\<lambda>_.
     pbind (pe_invoke E ix [spl_token_program, payer_token, spl_token_mint, payer] [] st) (\<lambda>st.
     rbind (pe_rent_from E (ai_key rent_sysvar) (st (ai_key rent_sysvar))) st (\<lambda>rent.
     pbind (create_account E (148 + SPL_WITHDRAWAL_TRANSACTION_CALLDATA_LEN) rent payer withdrawal_tx system_program program_id []
              [ai_key payer, le_of_nat 8 (unat counter), [bump]] st) (\<lambda>st.
     rbind (convert_decimal (ucast amount) decimals SPL_SHARE_DECIMAL) st (\<lambda>amount.
     rbind (unpacked E 40 config_unpack (ai_key bridge_config) st) st (\<lambda>config.
     let calldata = get_bridge_erc20_calldata E program_id (bc_l1_standard_bridge config) (ai_key spl_token_mint) remote_token (ai_key payer)
                      to amount STANDARD_BRIDGE_CALL_GAS_LIMIT counter in
     rbind (guard (length calldata = SPL_WITHDRAWAL_TRANSACTION_CALLDATA_LEN) InvalidAccountData) st (\<lambda>_.
     packed E (148 + SPL_WITHDRAWAL_TRANSACTION_CALLDATA_LEN)
       (withdrawal_pack \<lparr>wt_nonce = ucast counter, wt_sender = program_id, wt_target = bc_l1_cross_domain_messenger config,
          wt_value = 0, wt_gas_limit = ucast gas_limit, wt_data = calldata\<rparr>)
       (ai_key withdrawal_tx) st))))))))))))))))))))"

definition create_user_withdrawal_counter_account ::
  "program_env \<Rightarrow> pubkey \<Rightarrow> account_info list \<Rightarrow> store \<Rightarrow> store program_result" where
  "create_user_withdrawal_counter_account E program_id accounts st =
     rbind (array_ref 4 accounts) st (\<lambda>accounts.
     let system_program = accounts ! 0; rent_sysvar = accounts ! 1; user_withdrawal_counter = accounts ! 2; payer = accounts ! 3;
         (user_withdrawal_counter_key, bump) = user_withdrawal_counter_pubkey_and_bump E program_id (ai_key payer) in
     rbind (guard (cmp_pubkeys user_withdrawal_counter_key (ai_key user_withdrawal_counter)) (bridge InvalidWithdrawalCounterAccount)) st (\<lambda>_.
     rbind (pe_rent_from E (ai_key rent_sysvar) (st (ai_key rent_sysvar))) st (\<lambda>rent.
     pbind (create_account E 8 rent payer user_withdrawal_counter system_program program_id []
              [map of_char ''svm-withdraw-counter'', ai_key payer, [bump]] st) (\<lambda>st.
     packed E 8 (counter_pack 0) (ai_key user_withdrawal_counter) st))))"

text \<open>Instructions that are no longer used do nothing.\<close>

definition bridge_process :: "program_env \<Rightarrow> pubkey \<Rightarrow> account_info list \<Rightarrow> bytes \<Rightarrow> store \<Rightarrow> store program_result" where
  "bridge_process E program_id accounts input st =
     rbind (bridge_unpack input) st (\<lambda>i.
     case i of
       CreateVaultAccount \<Rightarrow> (Ok (), st)
     | DepositETH _ _ _ value _ _ _ _ _ _ _ deposit_to _ _ _ _ \<Rightarrow> deposit_eth E program_id accounts value deposit_to st
     | CreateWithdrawalCounterAccount \<Rightarrow> (Ok (), st)
     | WithdrawETH target value gas_limit \<Rightarrow> withdraw_eth E program_id accounts target value gas_limit st
     | CreateSPL remote_token name symbol uri decimals \<Rightarrow> create_spl E program_id accounts remote_token name symbol uri decimals st
     | DepositERC20 local_token remote_token from to amount \<Rightarrow> deposit_erc20 E program_id accounts local_token remote_token to amount st
     | WithdrawSPL remote_token to amount gas_limit \<Rightarrow> withdraw_spl E program_id accounts remote_token to amount gas_limit st
     | CreateBridgeConfigAccount _ _ \<Rightarrow> (Ok (), st)
     | ChangeBridgeAdmin new_admin \<Rightarrow> change_bridge_admin E program_id accounts new_admin st
     | CreateUserWithdrawalCounterAccount \<Rightarrow> create_user_withdrawal_counter_account E program_id accounts st
     | UpdateSPLMetadata remote_token name symbol uri \<Rightarrow> update_spl_metadata E program_id accounts remote_token name symbol uri st)"

end
