(* ===== verification/Bridge_Safety.thy ===== *)
theory Bridge_Safety
  imports Bridge_Program
begin

text \<open>
  What the bridge program guarantees, under the documented behaviour of the Solana runtime and the
  system program: who may move funds and change the admin, what a withdrawal records, and that
  records are never changed and their numbers never reused.
\<close>

section \<open>The runtime\<close>

definition moved :: "pubkey \<Rightarrow> pubkey \<Rightarrow> u64 \<Rightarrow> store \<Rightarrow> store" where
  "moved a b n st =
     (let st1 = st(a := (st a)\<lparr>ac_lamports := ac_lamports (st a) - n\<rparr>) in
      st1(b := (st1 b)\<lparr>ac_lamports := ac_lamports (st1 b) + n\<rparr>))"

text \<open>
  \<open>Pack\<close> accepts data of the right length only. A call of another program keeps data and
  owner of the accounts this program owns. The system program moves lamports that are there, and
  gives space to accounts that are not in use.
\<close>

definition pack_law :: "program_env \<Rightarrow> bool" where
  "pack_law E \<longleftrightarrow> (\<forall>n m. pe_check_len E n m = Ok () \<longleftrightarrow> n = m)"

definition ownership_law :: "program_env \<Rightarrow> bool" where
  "ownership_law E \<longleftrightarrow>
     (\<forall>ix infos seeds st st' k. pe_invoke E ix infos seeds st = (Ok (), st') \<and> ac_owner (st k) = pe_id E
        \<longrightarrow> ac_owner (st' k) = pe_id E \<and> ac_data (st' k) = ac_data (st k))"

definition transfer_law :: "program_env \<Rightarrow> bool" where
  "transfer_law E \<longleftrightarrow>
     (\<forall>a b n infos seeds st st'. pe_invoke E (Transfer a b n) infos seeds st = (Ok (), st')
        \<longrightarrow> n \<le> ac_lamports (st a) \<and> st' = moved a b n st)"

definition allocate_law :: "program_env \<Rightarrow> bool" where
  "allocate_law E \<longleftrightarrow>
     (\<forall>k n infos seeds st st'. pe_invoke E (Allocate k n) infos seeds st = (Ok (), st')
        \<longrightarrow> ac_owner (st k) \<noteq> pe_id E \<and> st' = set_data k (replicate n 0) st)"

definition assign_law :: "program_env \<Rightarrow> bool" where
  "assign_law E \<longleftrightarrow>
     (\<forall>k o' infos seeds st st'. pe_invoke E (Assign k o') infos seeds st = (Ok (), st')
        \<longrightarrow> st' = st(k := (st k)\<lparr>ac_owner := o'\<rparr>))"

definition solana_laws :: "program_env \<Rightarrow> bool" where
  "solana_laws E \<longleftrightarrow> pack_law E \<and> ownership_law E \<and> transfer_law E \<and> allocate_law E \<and> assign_law E"

text \<open>The accounts of the bridge program, in a call of another program.\<close>

definition keeps :: "program_env \<Rightarrow> store \<Rightarrow> store \<Rightarrow> bool" where
  "keeps E st st' \<longleftrightarrow>
     (\<forall>k. ac_owner (st k) = pe_id E \<longrightarrow> ac_owner (st' k) = pe_id E \<and> ac_data (st' k) = ac_data (st k))"

lemma keeps_refl [simp]: "keeps E st st"
  by (simp add: keeps_def)

lemma keeps_trans [trans]: "\<lbrakk> keeps E a b; keeps E b c \<rbrakk> \<Longrightarrow> keeps E a c"
  by (simp add: keeps_def)

lemma guard_Ok [simp]: "guard b e = Ok u \<longleftrightarrow> b"
  by (cases u) (simp add: guard_def)

lemma array_ref_Ok [res_simps]: "array_ref n xs = Ok ys \<longleftrightarrow> n \<le> length xs \<and> ys = take n xs"
  by (auto simp: array_ref_def)

lemma set_data_sel [simp]:
  "ac_data (set_data k d st i) = (if i = k then d else ac_data (st i))"
  "ac_owner (set_data k d st i) = ac_owner (st i)"
  "ac_lamports (set_data k d st i) = ac_lamports (st i)"
  by (simp_all add: set_data_def)

lemma moved_sel [simp]:
  "ac_data (moved a b n st i) = ac_data (st i)"
  "ac_owner (moved a b n st i) = ac_owner (st i)"
  by (simp_all add: moved_def Let_def)

lemma moved_lamports:
  "a \<noteq> b \<Longrightarrow> ac_lamports (moved a b n st i) =
     (if i = a then ac_lamports (st a) - n else if i = b then ac_lamports (st b) + n else ac_lamports (st i))"
  by (simp add: moved_def Let_def)

lemma moved_self [simp]: "moved a a n st = st"
  by (simp add: moved_def Let_def fun_eq_iff)

lemma moved_0 [simp]: "moved a b 0 st = st"
  by (simp add: moved_def Let_def fun_eq_iff)

lemma invoke_keeps: "\<lbrakk> solana_laws E; pe_invoke E ix infos seeds st = (Ok (), st') \<rbrakk> \<Longrightarrow> keeps E st st'"
  unfolding solana_laws_def ownership_law_def keeps_def by blast

lemma invoke_transfer:
  "\<lbrakk> solana_laws E; pe_invoke E (Transfer a b n) infos seeds st = (Ok (), st') \<rbrakk> \<Longrightarrow> n \<le> ac_lamports (st a) \<and> st' = moved a b n st"
  unfolding solana_laws_def transfer_law_def by blast

lemma invoke_allocate:
  "\<lbrakk> solana_laws E; pe_invoke E (Allocate k n) infos seeds st = (Ok (), st') \<rbrakk>
     \<Longrightarrow> ac_owner (st k) \<noteq> pe_id E \<and> st' = set_data k (replicate n 0) st"
  unfolding solana_laws_def allocate_law_def by blast

lemma invoke_assign:
  "\<lbrakk> solana_laws E; pe_invoke E (Assign k o') infos seeds st = (Ok (), st') \<rbrakk> \<Longrightarrow> st' = st(k := (st k)\<lparr>ac_owner := o'\<rparr>)"
  unfolding solana_laws_def assign_law_def by blast

lemma check_len_Ok: "solana_laws E \<Longrightarrow> pe_check_len E n m = Ok u \<longleftrightarrow> n = m"
  by (cases u) (simp add: solana_laws_def pack_law_def)

lemma packed_Ok:
  "solana_laws E \<Longrightarrow> packed E n b k st = (Ok u, st') \<longleftrightarrow> length (ac_data (st k)) = n \<and> st' = set_data k b st"
  by (cases u) (auto simp: packed_def res_simps check_len_Ok)

lemma unpacked_Ok: "solana_laws E \<Longrightarrow> unpacked E n f k st = Ok x \<longleftrightarrow> length (ac_data (st k)) = n \<and> f (ac_data (st k)) = Ok x"
  by (auto simp: unpacked_def res_simps check_len_Ok)

lemma invoke_optionally_signed_Ok:
  assumes "invoke_optionally_signed E ix infos seeds st = (Ok (), st')"
  shows "\<exists>ss. pe_invoke E ix infos ss st = (Ok (), st')"
  using assms by (auto simp: invoke_optionally_signed_def split: if_splits)

text \<open>Creating an account: it was not in use, is paid for, and belongs to \<open>owner\<close> with zeroed data.\<close>

lemma create_account_Ok:
  assumes "solana_laws E"
    and "create_account E len rent payer target system_program owner payer_seeds target_seeds st = (Ok (), st')"
  shows "keeps E st st'" and "ac_owner (st (ai_key target)) \<noteq> pe_id E"
    and "\<exists>n. st' = (let st1 = moved (ai_key payer) (ai_key target) n st; st2 = set_data (ai_key target) (replicate len 0) st1 in
               st2(ai_key target := (st2 (ai_key target))\<lparr>ac_owner := owner\<rparr>))
             \<and> rent len \<le> ac_lamports (st (ai_key target)) + n"
proof -
  let ?t = "ai_key target"
  define need where "need = (if rent len \<ge> ac_lamports (st ?t) then rent len - ac_lamports (st ?t) else 0)"
  obtain st1 where 1: "(if need > 0 then invoke_optionally_signed E (Transfer (ai_key payer) ?t need)
       [payer, target, system_program] payer_seeds st else (Ok (), st)) = (Ok (), st1)"
    and r: "pbind (invoke_optionally_signed E (Allocate ?t len) [target, system_program] target_seeds st1) (\<lambda>st.
       invoke_optionally_signed E (Assign ?t owner) [target, system_program] target_seeds st) = (Ok (), st')"
    using assms(2) by (auto simp: create_account_def need_def [symmetric] Let_def res_simps)
  then obtain st2 where 2: "invoke_optionally_signed E (Allocate ?t len) [target, system_program] target_seeds st1 = (Ok (), st2)"
    and 3: "invoke_optionally_signed E (Assign ?t owner) [target, system_program] target_seeds st2 = (Ok (), st')"
    by (auto simp: res_simps)
  have m: "st1 = moved (ai_key payer) ?t need st" and k1: "keeps E st st1"
  proof -
    have "st1 = moved (ai_key payer) ?t need st \<and> keeps E st st1"
    proof (cases "need > 0")
      case True
      then obtain ss where "pe_invoke E (Transfer (ai_key payer) ?t need) [payer, target, system_program] ss st = (Ok (), st1)"
        using 1 invoke_optionally_signed_Ok by (metis (no_types))
      with invoke_transfer [OF assms(1) this] invoke_keeps [OF assms(1) this] show ?thesis by simp
    next
      case False
      then have "need = 0" by (simp add: word_gt_0)
      with 1 show ?thesis by simp
    qed
    then show "st1 = moved (ai_key payer) ?t need st" "keeps E st st1" by blast+
  qed
  obtain ss where a: "pe_invoke E (Allocate ?t len) [target, system_program] ss st1 = (Ok (), st2)"
    using invoke_optionally_signed_Ok [OF 2] by blast
  obtain ts where b: "pe_invoke E (Assign ?t owner) [target, system_program] ts st2 = (Ok (), st')"
    using invoke_optionally_signed_Ok [OF 3] by blast
  show "keeps E st st'" using k1 invoke_keeps [OF assms(1) a] invoke_keeps [OF assms(1) b] keeps_trans by blast
  show "ac_owner (st ?t) \<noteq> pe_id E" using invoke_allocate [OF assms(1) a] m by simp
  have "rent len \<le> ac_lamports (st ?t) + need" by (auto simp: need_def)
  then show "\<exists>n. st' = (let st1 = moved (ai_key payer) ?t n st; st2 = set_data ?t (replicate len 0) st1 in
               st2(?t := (st2 ?t)\<lparr>ac_owner := owner\<rparr>))
             \<and> rent len \<le> ac_lamports (st ?t) + n"
    using m invoke_allocate [OF assms(1) a] invoke_assign [OF assms(1) b] by (intro exI [of _ need]) (simp add: Let_def)
qed

section \<open>What a step does to the program's accounts\<close>

text \<open>
  A withdrawal moves the counter of its user on. Everything else an instruction writes is in
  accounts that are created on the way, the admin in the owner account apart.
\<close>

definition bumped :: "pubkey \<Rightarrow> store \<Rightarrow> store \<Rightarrow> bool" where
  "bumped k st st' \<longleftrightarrow>
     (\<exists>c. length (ac_data (st k)) = 8 \<and> counter_unpack (ac_data (st k)) = Ok c \<and> c \<noteq> - 1 \<and> st' = set_data k (counter_pack (c + 1)) st)"

lemma next_counter_Ok:
  assumes "solana_laws E"
  shows "next_counter E k st = (Ok c, st') \<longleftrightarrow>
     length (ac_data (st k)) = 8 \<and> counter_unpack (ac_data (st k)) = Ok c \<and> c \<noteq> - 1 \<and> st' = set_data k (counter_pack (c + 1)) st"
proof -
  have "next_counter E k st = (Ok c, st') \<longleftrightarrow>
      unpacked E 8 counter_unpack k st = Ok c \<and> c \<noteq> - 1 \<and> packed E 8 (counter_pack (c + 1)) k st = (Ok (), st')"
    unfolding next_counter_def rbind_Ok_iff
    by (rule iffI; elim exE conjE; simp split: if_split_asm prod.split_asm; simp add: rbind_Ok_iff)
  then show ?thesis unfolding unpacked_Ok [OF assms] packed_Ok [OF assms] by blast
qed

lemma keeps_fresh_packed:
  assumes "solana_laws E" and "keeps E st st1" and "ac_owner (st k) \<noteq> pe_id E" and "packed E n b k st1 = (Ok u, st2)"
  shows "keeps E st st2"
  using assms by (auto simp: keeps_def packed_Ok)

text \<open>
  The record of a withdrawal of \<open>v\<close> lamports. Its sender is the program and its target the messenger on L1;
  the user and the receiver are in the calldata.
\<close>

definition eth_record :: "program_env \<Rightarrow> bridge_config \<Rightarrow> pubkey \<Rightarrow> address \<Rightarrow> u64 \<Rightarrow> u128 \<Rightarrow> u64 \<Rightarrow> withdrawal_transaction" where
  "eth_record E config payer target v gas_limit counter =
     \<lparr>wt_nonce = ucast counter, wt_sender = pe_id E, wt_target = bc_l1_cross_domain_messenger config, wt_value = ucast v,
      wt_gas_limit = ucast gas_limit,
      wt_data = get_bridge_eth_calldata E (pe_id E) (bc_l1_standard_bridge config) payer target (ucast v)
                  STANDARD_BRIDGE_CALL_GAS_LIMIT counter\<rparr>"

lemmas handler_unfold =
  Let_def rbind_Ok_iff pbind_Ok_iff guard_Ok array_ref_Ok ok_or_Ok_iff map_err_Ok_iff cmp_pubkeys_def case_prod_unfold prod.sel

lemma created_packed_keeps:
  assumes "solana_laws E" and "create_account E len rent payer target sys owner ps ts st = (Ok (), st3)"
    and "packed E n b (ai_key target) st3 = (Ok (), st')"
  shows "keeps E st st'"
  using keeps_fresh_packed [OF assms(1) create_account_Ok(1,2) [OF assms(1,2)] assms(3)] .

lemma withdraw_eth_Ok:
  assumes "solana_laws E" and "withdraw_eth E (pe_id E) accounts target value gas_limit st = (Ok (), st')"
  obtains counter v rent st1 st2 st3 config bump where
    "MINIMAL_GAS_LIMIT \<le> gas_limit" and "to_u64 value = Some v" and "v \<noteq> 0"
    and "ai_key (accounts ! 2) = fst (user_withdrawal_counter_pubkey_and_bump E (pe_id E) (ai_key (accounts ! 6)))"
    and "next_counter E (ai_key (accounts ! 2)) st = (Ok counter, st1)"
    and "ai_key (accounts ! 3) = fst (withdrawal_transaction_pubkey_and_bump E (ai_key (accounts ! 6)) counter (pe_id E))"
    and "ai_key (accounts ! 4) = fst (vault_pubkey_and_bump E (pe_id E))"
    and "pe_invoke E (Transfer (ai_key (accounts ! 6)) (ai_key (accounts ! 4)) v) [accounts ! 6, accounts ! 4, accounts ! 0] [] st1 = (Ok (), st2)"
    and "create_account E (148 + ETH_WITHDRAWAL_TRANSACTION_CALLDATA_LEN) rent (accounts ! 6) (accounts ! 3) (accounts ! 0) (pe_id E) []
           [ai_key (accounts ! 6), le_of_nat 8 (unat counter), [bump]] st2 = (Ok (), st3)"
    and "ai_key (accounts ! 5) = fst (config_pubkey_and_bump E (pe_id E))"
    and "unpacked E 40 config_unpack (ai_key (accounts ! 5)) st3 = Ok config"
    and "length (wt_data (eth_record E config (ai_key (accounts ! 6)) target v gas_limit counter)) = ETH_WITHDRAWAL_TRANSACTION_CALLDATA_LEN"
    and "packed E (148 + ETH_WITHDRAWAL_TRANSACTION_CALLDATA_LEN)
           (withdrawal_pack (eth_record E config (ai_key (accounts ! 6)) target v gas_limit counter)) (ai_key (accounts ! 3)) st3 = (Ok (), st')"
proof -
  show thesis
    using assms(2) [unfolded withdraw_eth_def handler_unfold]
    by (elim exE conjE) (rule that; (assumption | simp add: eth_record_def prod_eq_iff))
qed

text \<open>The record of a withdrawal of \<open>amount\<close> shares of a token.\<close>

definition spl_record ::
  "program_env \<Rightarrow> bridge_config \<Rightarrow> pubkey \<Rightarrow> pubkey \<Rightarrow> address \<Rightarrow> address \<Rightarrow> u128 \<Rightarrow> u128 \<Rightarrow> u64 \<Rightarrow> withdrawal_transaction" where
  "spl_record E config payer mint remote_token to amount gas_limit counter =
     \<lparr>wt_nonce = ucast counter, wt_sender = pe_id E, wt_target = bc_l1_cross_domain_messenger config, wt_value = 0,
      wt_gas_limit = ucast gas_limit,
      wt_data = get_bridge_erc20_calldata E (pe_id E) (bc_l1_standard_bridge config) mint remote_token payer to amount
                  STANDARD_BRIDGE_CALL_GAS_LIMIT counter\<rparr>"

lemma withdraw_spl_Ok:
  assumes "solana_laws E" and "withdraw_spl E (pe_id E) accounts remote_token to amount gas_limit st = (Ok (), st')"
  obtains counter decimals d v shares rent st1 st2 st3 config bump where
    "MINIMAL_GAS_LIMIT \<le> gas_limit"
    and "ai_key (accounts ! 3) = fst (user_withdrawal_counter_pubkey_and_bump E (pe_id E) (ai_key (accounts ! 9)))"
    and "next_counter E (ai_key (accounts ! 3)) st = (Ok counter, st1)"
    and "ai_key (accounts ! 4) = fst (withdrawal_transaction_pubkey_and_bump E (ai_key (accounts ! 9)) counter (pe_id E))"
    and "ai_key (accounts ! 6) = fst (spl_token_mint_pubkey_and_bump E remote_token (pe_id E))"
    and "pe_mint_decimals E (ac_data (st1 (ai_key (accounts ! 6)))) = Ok decimals"
    and "remove_dust amount decimals SPL_SHARE_DECIMAL = (Ok d :: (u128, program_error) res)"
    and "to_u64 d = Some v" and "v \<noteq> 0"
    and "pe_invoke E (Burn (ai_key (accounts ! 2)) (ai_key (accounts ! 7)) (ai_key (accounts ! 6)) (ai_key (accounts ! 9)) v)
           [accounts ! 2, accounts ! 7, accounts ! 6, accounts ! 9] [] st1 = (Ok (), st2)"
    and "create_account E (148 + SPL_WITHDRAWAL_TRANSACTION_CALLDATA_LEN) rent (accounts ! 9) (accounts ! 4) (accounts ! 0) (pe_id E) []
           [ai_key (accounts ! 9), le_of_nat 8 (unat counter), [bump]] st2 = (Ok (), st3)"
    and "convert_decimal (ucast v) decimals SPL_SHARE_DECIMAL = (Ok shares :: (u128, program_error) res)"
    and "unpacked E 40 config_unpack (ai_key (accounts ! 8)) st3 = Ok config"
    and "length (wt_data (spl_record E config (ai_key (accounts ! 9)) (ai_key (accounts ! 6)) remote_token to shares gas_limit counter))
           = SPL_WITHDRAWAL_TRANSACTION_CALLDATA_LEN"
    and "packed E (148 + SPL_WITHDRAWAL_TRANSACTION_CALLDATA_LEN)
           (withdrawal_pack (spl_record E config (ai_key (accounts ! 9)) (ai_key (accounts ! 6)) remote_token to shares gas_limit counter))
           (ai_key (accounts ! 4)) st3 = (Ok (), st')"
proof -
  show thesis
    using assms(2) [unfolded withdraw_spl_def handler_unfold]
    by (elim exE conjE) (rule that; (assumption | simp add: spl_record_def prod_eq_iff))
qed

text \<open>Both withdrawals: the counter, then calls and a new account.\<close>

lemma withdraw_step:
  assumes "solana_laws E" and "next_counter E ck st = (Ok counter, st1)" and "pe_invoke E ix infos seeds st1 = (Ok (), st2)"
    and "create_account E len rent payer target sys owner ps ts st2 = (Ok (), st3)" and "packed E len b (ai_key target) st3 = (Ok (), st')"
  shows "bumped ck st st1 \<and> keeps E st1 st'"
proof -
  have "keeps E st1 st2" using invoke_keeps [OF assms(1,3)] .
  moreover have "keeps E st2 st'" using created_packed_keeps [OF assms(1,4,5)] .
  ultimately show ?thesis using assms(2) keeps_trans unfolding bumped_def next_counter_Ok [OF assms(1)] by blast
qed

lemma withdraw_eth_step:
  assumes "solana_laws E" and "withdraw_eth E (pe_id E) accounts target value gas_limit st = (Ok (), st')"
  shows "\<exists>st1. bumped (fst (user_withdrawal_counter_pubkey_and_bump E (pe_id E) (ai_key (accounts ! 6)))) st st1 \<and> keeps E st1 st'"
  by (rule withdraw_eth_Ok [OF assms]) (metis withdraw_step [OF assms(1)])

lemma withdraw_spl_step:
  assumes "solana_laws E" and "withdraw_spl E (pe_id E) accounts remote_token to amount gas_limit st = (Ok (), st')"
  shows "\<exists>st1. bumped (fst (user_withdrawal_counter_pubkey_and_bump E (pe_id E) (ai_key (accounts ! 9)))) st st1 \<and> keeps E st1 st'"
  by (rule withdraw_spl_Ok [OF assms]) (metis withdraw_step [OF assms(1)])

text \<open>The other instructions keep every account of the program, a change of the admin apart.\<close>

lemma deposit_eth_keeps:
  assumes "solana_laws E" and "deposit_eth E (pe_id E) accounts value deposit_to st = (Ok (), st')"
  shows "keeps E st st'"
  using assms(2) [unfolded deposit_eth_def handler_unfold] invoke_keeps [OF assms(1)] by blast

lemma create_spl_keeps:
  assumes "solana_laws E" and "create_spl E (pe_id E) accounts remote_token name symbol uri decimals st = (Ok (), st')"
  shows "keeps E st st'"
  using assms(2) [unfolded create_spl_def handler_unfold] invoke_keeps [OF assms(1)] create_account_Ok(1) [OF assms(1)]
  by (elim exE conjE) (meson keeps_trans)

lemma update_spl_metadata_keeps:
  assumes "solana_laws E" and "update_spl_metadata E (pe_id E) accounts remote_token name symbol uri st = (Ok (), st')"
  shows "keeps E st st'"
  using assms(2) [unfolded update_spl_metadata_def handler_unfold] invoke_keeps [OF assms(1)] by blast

lemma depositor_token_ready_keeps:
  assumes "solana_laws E" and "depositor_token_ready E accounts bump st = (Ok (), st')"
  shows "keeps E st st'"
proof (cases "ac_owner (st (ai_key (accounts ! 6))) \<noteq> ai_key (accounts ! 1)")
  case True
  with assms(2) [unfolded depositor_token_ready_def handler_unfold] invoke_keeps [OF assms(1)] keeps_trans show ?thesis
    by (simp only: True if_True not_False_eq_True rbind_Ok_iff pbind_Ok_iff) meson
next
  case False
  with assms(2) show ?thesis by (auto simp: depositor_token_ready_def Let_def rbind_Ok_iff)
qed

lemma deposit_erc20_keeps:
  assumes "solana_laws E" and "deposit_erc20 E (pe_id E) accounts local_token remote_token to amount st = (Ok (), st')"
  shows "keeps E st st'"
  using assms(2) [unfolded deposit_erc20_def handler_unfold] invoke_keeps [OF assms(1)] depositor_token_ready_keeps [OF assms(1)]
  by (elim exE conjE) (meson keeps_trans)

lemma create_counter_keeps:
  assumes "solana_laws E" and "create_user_withdrawal_counter_account E (pe_id E) accounts st = (Ok (), st')"
  shows "keeps E st st'"
  using assms(2) [unfolded create_user_withdrawal_counter_account_def handler_unfold]
    created_packed_keeps [OF assms(1)]
  by (elim exE conjE) metis

text \<open>The admin in the owner account changes by the signature of the admin before.\<close>

definition admin_changed :: "program_env \<Rightarrow> account_info list \<Rightarrow> pubkey \<Rightarrow> store \<Rightarrow> store \<Rightarrow> bool" where
  "admin_changed E accounts new_admin st st' \<longleftrightarrow>
     (\<exists>k. k = fst (bridge_owner_pubkey_and_bump E (pe_id E)) \<and> length (ac_data (st k)) = 32
        \<and> (\<exists>a \<in> set accounts. ai_is_signer a \<and> ai_key a = ac_data (st k)) \<and> st' = set_data k new_admin st)"

lemma checked_admin_Ok:
  assumes "solana_laws E"
  shows "checked_admin E program_id owner admin st = Ok () \<longleftrightarrow>
     ai_key owner = fst (bridge_owner_pubkey_and_bump E program_id) \<and> length (ac_data (st (ai_key owner))) = 32
     \<and> ac_data (st (ai_key owner)) = ai_key admin \<and> ai_is_signer admin"
  by (auto simp: checked_admin_def rthen_Ok_iff cmp_pubkeys_def unpacked_Ok [OF assms] owner_unpack_def)

lemma change_bridge_admin_step:
  assumes "solana_laws E" and "change_bridge_admin E (pe_id E) accounts new_admin st = (Ok (), st')"
  shows "admin_changed E accounts new_admin st st'"
  using assms(2)
  by (auto simp: change_bridge_admin_def Let_def rbind_Ok_iff array_ref_Ok checked_admin_Ok [OF assms(1)] packed_Ok [OF assms(1)]
      admin_changed_def intro!: bexI [of _ "accounts ! 1"])

lemma bridge_process_step:
  assumes "solana_laws E" and "bridge_process E (pe_id E) accounts input st = (Ok (), st')"
  shows "\<exists>st1. (st1 = st \<or> (\<exists>user. bumped (fst (user_withdrawal_counter_pubkey_and_bump E (pe_id E) user)) st st1)
            \<or> (\<exists>new_admin. bridge_unpack input = Ok (ChangeBridgeAdmin new_admin) \<and> admin_changed E accounts new_admin st st1))
     \<and> keeps E st1 st'"
proof -
  note laws = assms(1)
  obtain i where "bridge_unpack input = Ok i" using assms(2) by (auto simp: bridge_process_def rbind_Ok_iff)
  with assms(2) show ?thesis
    using deposit_eth_keeps [OF laws] create_spl_keeps [OF laws] update_spl_metadata_keeps [OF laws] deposit_erc20_keeps [OF laws]
      create_counter_keeps [OF laws] withdraw_eth_step [OF laws] withdraw_spl_step [OF laws] change_bridge_admin_step [OF laws] keeps_refl
    by (cases i) (simp_all add: bridge_process_def, (metis keeps_refl)+)
qed

text \<open>Successful instructions, one after the other.\<close>

inductive bridge_run :: "program_env \<Rightarrow> store \<Rightarrow> store \<Rightarrow> bool" for E where
  run_refl: "bridge_run E st st"
| run_step: "\<lbrakk> bridge_run E st st1; bridge_process E (pe_id E) accounts input st1 = (Ok (), st2) \<rbrakk> \<Longrightarrow> bridge_run E st st2"

lemma counter_pack_unpack [simp]: "counter_unpack (counter_pack c) = Ok c" "length (counter_pack c) = 8"
  by (simp_all add: counter_unpack_def counter_pack_def sliced_def)

lemma step_record:
  assumes "solana_laws E" and "bridge_process E (pe_id E) accounts input st = (Ok (), st')"
    and "ac_owner (st k) = pe_id E" and "length (ac_data (st k)) \<noteq> 8" and "length (ac_data (st k)) \<noteq> 32"
  shows "ac_owner (st' k) = pe_id E \<and> ac_data (st' k) = ac_data (st k)"
proof -
  obtain st1 where s: "st1 = st \<or> (\<exists>user. bumped (fst (user_withdrawal_counter_pubkey_and_bump E (pe_id E) user)) st st1)
       \<or> (\<exists>new_admin. bridge_unpack input = Ok (ChangeBridgeAdmin new_admin) \<and> admin_changed E accounts new_admin st st1)" "keeps E st1 st'"
    using bridge_process_step [OF assms(1,2)] by blast
  from s(1) assms(3-5) have "ac_owner (st1 k) = pe_id E \<and> ac_data (st1 k) = ac_data (st k)"
    by (auto simp: bumped_def admin_changed_def)
  with s(2) show ?thesis by (simp add: keeps_def)
qed

lemma step_counter:
  assumes "solana_laws E" and "bridge_process E (pe_id E) accounts input st = (Ok (), st')"
    and "ac_owner (st k) = pe_id E" and "length (ac_data (st k)) = 8" and "counter_unpack (ac_data (st k)) = Ok c"
  shows "ac_owner (st' k) = pe_id E \<and> length (ac_data (st' k)) = 8
     \<and> (counter_unpack (ac_data (st' k)) = Ok c \<or> c \<noteq> - 1 \<and> counter_unpack (ac_data (st' k)) = Ok (c + 1))"
proof -
  obtain st1 where s: "st1 = st \<or> (\<exists>user. bumped (fst (user_withdrawal_counter_pubkey_and_bump E (pe_id E) user)) st st1)
       \<or> (\<exists>new_admin. bridge_unpack input = Ok (ChangeBridgeAdmin new_admin) \<and> admin_changed E accounts new_admin st st1)" "keeps E st1 st'"
    using bridge_process_step [OF assms(1,2)] by blast
  from s(1) assms(3-5) have "ac_owner (st1 k) = pe_id E \<and> length (ac_data (st1 k)) = 8
     \<and> (counter_unpack (ac_data (st1 k)) = Ok c \<or> c \<noteq> - 1 \<and> counter_unpack (ac_data (st1 k)) = Ok (c + 1))"
    by (auto simp: bumped_def admin_changed_def split: if_splits)
  with s(2) show ?thesis by (simp add: keeps_def)
qed

lemma le_plus_one: "c \<noteq> - 1 \<Longrightarrow> (c :: u64) < c + 1"
  using unatSuc [of c] by (auto simp: word_less_nat_alt add.commute add_eq_0_iff)

lemma run_counter:
  assumes "bridge_run E st st'" and "solana_laws E" and "ac_owner (st k) = pe_id E" and "length (ac_data (st k)) = 8"
    and "counter_unpack (ac_data (st k)) = Ok c"
  shows "ac_owner (st' k) = pe_id E \<and> length (ac_data (st' k)) = 8 \<and> (\<exists>c'. counter_unpack (ac_data (st' k)) = Ok c' \<and> c \<le> c')"
  using assms
proof (induction rule: bridge_run.induct)
  case (run_step st st1 accounts input st2)
  then obtain c1 where "ac_owner (st1 k) = pe_id E" "length (ac_data (st1 k)) = 8" "counter_unpack (ac_data (st1 k)) = Ok c1" "c \<le> c1"
    by blast
  note c1 = this
  from step_counter [OF run_step.prems(1) run_step.hyps(2) c1(1-3)]
  have "ac_owner (st2 k) = pe_id E" "length (ac_data (st2 k)) = 8"
    "counter_unpack (ac_data (st2 k)) = Ok c1 \<or> c1 \<noteq> - 1 \<and> counter_unpack (ac_data (st2 k)) = Ok (c1 + 1)" by auto
  moreover have "c1 \<noteq> - 1 \<Longrightarrow> c \<le> c1 + 1" using le_plus_one [of c1] c1(4) by (simp add: less_imp_le order.trans)
  ultimately show ?case using c1(4) by auto
qed simp

section \<open>What a withdrawal records\<close>

lemma withdrawal_roundtrip:
  assumes "length (wt_sender w) = 32" and "length (wt_target w) = 20" and "length (wt_data w) = n"
  shows "withdrawal_unpack n (withdrawal_pack w) = Ok w"
proof -
  have "u256_of (be_of_nat 32 (unat v)) = v" for v :: u256
    using unsigned_less [of v, where ?'a = nat] by (simp add: u256_of_def nat_of_be_of_nat)
  with assms show ?thesis by (simp add: withdrawal_unpack_def withdrawal_pack_def sliced_def)
qed

lemma length_withdrawal_pack:
  "\<lbrakk> length (wt_sender w) = 32; length (wt_target w) = 20; length (wt_data w) = n \<rbrakk> \<Longrightarrow> length (withdrawal_pack w) = 148 + n"
  by (simp add: withdrawal_pack_def)

lemma config_unpack_lengths:
  "config_unpack src = Ok c \<Longrightarrow> length (bc_l1_cross_domain_messenger c) = 20 \<and> length (bc_l1_standard_bridge c) = 20"
  by (auto simp: config_unpack_def rthen_Ok_iff sliced_def split: if_splits)

text \<open>A withdrawal of a user, by either instruction, with the number \<open>c\<close> it takes.\<close>

definition counter_key :: "program_env \<Rightarrow> pubkey \<Rightarrow> pubkey" where
  "counter_key E user = fst (user_withdrawal_counter_pubkey_and_bump E (pe_id E) user)"

definition withdraws :: "program_env \<Rightarrow> pubkey \<Rightarrow> u64 \<Rightarrow> store \<Rightarrow> store \<Rightarrow> bool" where
  "withdraws E user c st st' \<longleftrightarrow>
     counter_unpack (ac_data (st (counter_key E user))) = Ok c
   \<and> ((\<exists>accounts target value gas_limit. withdraw_eth E (pe_id E) accounts target value gas_limit st = (Ok (), st') \<and> ai_key (accounts ! 6) = user)
    \<or> (\<exists>accounts remote_token to amount gas_limit. withdraw_spl E (pe_id E) accounts remote_token to amount gas_limit st = (Ok (), st')
         \<and> ai_key (accounts ! 9) = user))"

lemma withdraws_bump:
  assumes "solana_laws E" and "withdraws E user c st st'" and "ac_owner (st (counter_key E user)) = pe_id E"
  shows "c \<noteq> - 1 \<and> ac_owner (st' (counter_key E user)) = pe_id E \<and> ac_data (st' (counter_key E user)) = counter_pack (c + 1)"
proof -
  obtain st1 where "bumped (counter_key E user) st st1" "keeps E st1 st'"
    using assms(2) withdraw_eth_step [OF assms(1)] withdraw_spl_step [OF assms(1)] unfolding withdraws_def counter_key_def by blast
  moreover have "counter_unpack (ac_data (st (counter_key E user))) = Ok c" using assms(2) by (simp add: withdraws_def)
  ultimately show ?thesis using assms(3) by (auto simp: bumped_def keeps_def)
qed

section \<open>Amounts\<close>

lemma to_u64_Some: "to_u64 w = Some v \<Longrightarrow> unat v = unat w"
  using unsigned_less [of v, where ?'a = nat] by (auto simp: to_u64_def unsigned_ucast_eq take_bit_nat_eq_self split: if_splits)

lemma unat_pow10: "(10 :: nat) ^ n < 2 ^ 128 \<Longrightarrow> unat (10 ^ n :: u128) = 10 ^ n"
proof -
  assume "(10 :: nat) ^ n < 2 ^ 128"
  moreover have "(10 ^ n :: u128) = of_nat (10 ^ n)" by simp
  ultimately show ?thesis by (simp only: unat_of_nat) (simp add: take_bit_nat_eq_self)
qed

lemma pow10_le9:
  assumes "(d :: u8) \<le> 9"
  shows "unat (9 - d) \<le> 9" and "(10 :: nat) ^ unat (9 - d) \<le> 10 ^ 9" and "(10 :: nat) ^ unat (9 - d) < 2 ^ 128"
proof -
  show 1: "unat (9 - d) \<le> 9" using assms by (simp add: unat_sub word_le_nat_alt)
  then show 2: "(10 :: nat) ^ unat (9 - d) \<le> 10 ^ 9" by (intro power_increasing) simp_all
  then show "(10 :: nat) ^ unat (9 - d) < 2 ^ 128" by (rule order.strict_trans1) simp
qed

lemma convert_down:
  assumes "d \<le> 9"
  shows "\<exists>m. convert_decimal amount SPL_SHARE_DECIMAL d = Ok m \<and> unat m = unat amount div 10 ^ unat (9 - d)"
proof (cases "d = 9")
  case False
  with assms pow10_le9 [OF assms] show ?thesis
    by (simp add: convert_decimal_def SPL_SHARE_DECIMAL_def pow10_def unat_div_distrib unat_pow10)
next
  case True
  then show ?thesis using unsigned_less [of amount, where ?'a = nat] by (simp add: convert_decimal_def SPL_SHARE_DECIMAL_def pow10_def)
qed

lemma convert_up:
  assumes "d \<le> 9" and "unat v < 2 ^ 64"
  shows "\<exists>m. convert_decimal v d SPL_SHARE_DECIMAL = Ok m \<and> unat m = unat v * 10 ^ unat (9 - d)"
proof -
  have "unat v * 10 ^ unat (9 - d) < 2 ^ 64 * 10 ^ 9"
    using assms(2) pow10_le9(2) [OF assms(1)] by (intro mult_less_le_imp_less) simp_all
  then have b: "unat v * 10 ^ unat (9 - d) < 2 ^ 128" by (rule order.strict_trans2) simp
  then have "unat (v * 10 ^ unat (9 - d)) = unat v * 10 ^ unat (9 - d)"
    using unat_pow10 [OF pow10_le9(3) [OF assms(1)]] by (simp add: unat_word_ariths)
  moreover have "\<not> 9 < d" using assms(1) by (simp add: not_less)
  ultimately show ?thesis
    using b pow10_le9 [OF assms(1)] by (simp add: convert_decimal_def SPL_SHARE_DECIMAL_def pow10_def unat_pow10)
qed

section \<open>Properties\<close>

text \<open>
  C8: a successful withdrawal of ETH takes the next number of the user's counter, moves the value
  from the user to the vault, and creates the record of that number with the value, the gas
  limit and the calldata for the L1 messenger of the configuration. The record names the program as its
  sender and that messenger as its target, not the user and his address on L1, as the comments on its
  fields say; these two are arguments of the calldata.
\<close>

theorem withdraw_eth_effect:
  assumes "solana_laws E" and "length (pe_id E) = 32"
    and "withdraw_eth E (pe_id E) accounts target value gas_limit st = (Ok (), st')"
    and "counter = ai_key (accounts ! 2)" and "record = ai_key (accounts ! 3)" and "vault = ai_key (accounts ! 4)"
    and "config_key = ai_key (accounts ! 5)" and "payer = ai_key (accounts ! 6)"
    and "ac_owner (st counter) = pe_id E" and "ac_owner (st config_key) = pe_id E" and "distinct [record, vault, payer]"
  shows "\<exists>c v config. counter_unpack (ac_data (st counter)) = Ok c \<and> counter_unpack (ac_data (st' counter)) = Ok (c + 1) \<and> c < c + 1
     \<and> to_u64 value = Some v \<and> 0 < v \<and> v \<le> ac_lamports (st payer) \<and> ac_lamports (st' vault) = ac_lamports (st vault) + v
     \<and> record = fst (withdrawal_transaction_pubkey_and_bump E payer c (pe_id E)) \<and> ac_owner (st' record) = pe_id E
     \<and> config_unpack (ac_data (st config_key)) = Ok config
     \<and> eth_withdrawal_unpack (ac_data (st' record)) = Ok (eth_record E config payer target v gas_limit c)"
proof -
  note laws = assms(1)
  show ?thesis
  proof (rule withdraw_eth_Ok [OF assms(1,3)])
    fix c v rent st1 st2 st3 config bump
    let ?w = "eth_record E config (ai_key (accounts ! 6)) target v gas_limit c"
    assume "MINIMAL_GAS_LIMIT \<le> gas_limit" and v: "to_u64 value = Some v" "v \<noteq> 0"
      and n: "next_counter E (ai_key (accounts ! 2)) st = (Ok c, st1)"
      and r: "ai_key (accounts ! 3) = fst (withdrawal_transaction_pubkey_and_bump E (ai_key (accounts ! 6)) c (pe_id E))"
      and t: "pe_invoke E (Transfer (ai_key (accounts ! 6)) (ai_key (accounts ! 4)) v) [accounts ! 6, accounts ! 4, accounts ! 0] [] st1 = (Ok (), st2)"
      and a: "create_account E (148 + ETH_WITHDRAWAL_TRANSACTION_CALLDATA_LEN) rent (accounts ! 6) (accounts ! 3) (accounts ! 0) (pe_id E) []
           [ai_key (accounts ! 6), le_of_nat 8 (unat c), [bump]] st2 = (Ok (), st3)"
      and u: "unpacked E 40 config_unpack (ai_key (accounts ! 5)) st3 = Ok config"
      and l: "length (wt_data ?w) = ETH_WITHDRAWAL_TRANSACTION_CALLDATA_LEN"
      and p: "packed E (148 + ETH_WITHDRAWAL_TRANSACTION_CALLDATA_LEN) (withdrawal_pack ?w) (ai_key (accounts ! 3)) st3 = (Ok (), st')"
    have st1: "st1 = set_data counter (counter_pack (c + 1)) st" "counter_unpack (ac_data (st counter)) = Ok c" "c \<noteq> - 1"
      "length (ac_data (st counter)) = 8"
      using n unfolding next_counter_Ok [OF laws] assms(4) by simp_all
    have st2: "st2 = moved payer vault v st1" "v \<le> ac_lamports (st payer)"
      using invoke_transfer [OF laws t] st1(1) by (simp_all add: assms(6,8))
    obtain n where st3: "st3 = (let x = moved payer record n st2; y = set_data record (replicate (148 + ETH_WITHDRAWAL_TRANSACTION_CALLDATA_LEN) 0) x in
         y(record := (y record)\<lparr>ac_owner := pe_id E\<rparr>))"
      using create_account_Ok(3) [OF laws a] by (auto simp: assms(5,8))
    have st': "st' = set_data record (withdrawal_pack ?w) st3" using p by (simp add: packed_Ok [OF laws] assms(5))
    have "ac_owner (st record) \<noteq> pe_id E" using create_account_Ok(2) [OF laws a] st2(1) st1(1) by (simp add: assms(5))
    with assms(9,10) have ne: "counter \<noteq> record" "config_key \<noteq> record" by auto
    have "ac_data (st' counter) = counter_pack (c + 1)" using ne by (simp add: st' st3 st2(1) st1(1) Let_def)
    moreover have "ac_lamports (st' vault) = ac_lamports (st vault) + v"
      using assms(11) by (auto simp: st' st3 st2(1) st1(1) Let_def moved_lamports)
    moreover have "config_unpack (ac_data (st config_key)) = Ok config"
    proof -
      have "length (ac_data (st3 config_key)) = 40 \<and> config_unpack (ac_data (st3 config_key)) = Ok config"
        using u by (simp add: unpacked_Ok [OF laws] assms(7))
      moreover have "ac_data (st3 config_key) = (if config_key = counter then counter_pack (c + 1) else ac_data (st config_key))"
        using ne by (simp add: st3 st2(1) st1(1) Let_def)
      ultimately show ?thesis by (auto split: if_splits)
    qed
    moreover have "length (wt_target ?w) = 20" using config_unpack_lengths [OF calculation(3)] by (simp add: eth_record_def)
    then have "eth_withdrawal_unpack (ac_data (st' record)) = Ok ?w"
      using withdrawal_roundtrip [of ?w, OF _ _ l] assms(2) by (simp add: st' eth_withdrawal_unpack_def eth_record_def)
    moreover have "ac_owner (st' record) = pe_id E" by (simp add: st' st3 Let_def)
    ultimately show ?thesis
      using v st1 st2 r le_plus_one [OF st1(3)] by (auto simp: assms(5,8) word_gt_0)
  qed
qed

text \<open>
  The numbers of a user's withdrawals, of ETH or tokens, strictly increase, whatever
  instructions are executed in between; no number is ever used twice.
\<close>

theorem withdrawal_nonces_increase:
  assumes "solana_laws E" and "ac_owner (st (counter_key E user)) = pe_id E"
    and "withdraws E user c st st1" and "bridge_run E st1 st2" and "withdraws E user c' st2 st3"
  shows "c < c'"
proof -
  from withdraws_bump [OF assms(1,3,2)]
  have b: "c \<noteq> - 1" "ac_owner (st1 (counter_key E user)) = pe_id E" "ac_data (st1 (counter_key E user)) = counter_pack (c + 1)" by auto
  then have "c + 1 \<le> c'"
    using run_counter [OF assms(4,1) b(2), of "c + 1"] assms(5) by (auto simp: withdraws_def)
  with le_plus_one [OF b(1)] show ?thesis by (rule order.strict_trans2)
qed

text \<open>
  C31: once written, the record of a withdrawal never changes and stays with the program,
  whatever instructions are executed afterwards.
\<close>

theorem records_are_immutable:
  assumes "solana_laws E" and "bridge_run E st st'" and "ac_owner (st k) = pe_id E"
    and "length (ac_data (st k)) \<in> {148 + ETH_WITHDRAWAL_TRANSACTION_CALLDATA_LEN, 148 + SPL_WITHDRAWAL_TRANSACTION_CALLDATA_LEN}"
  shows "ac_owner (st' k) = pe_id E \<and> ac_data (st' k) = ac_data (st k)"
  using assms(2,3,4)
proof (induction rule: bridge_run.induct)
  case (run_step st st1 accounts input st2)
  then have "ac_owner (st1 k) = pe_id E \<and> ac_data (st1 k) = ac_data (st k)" by blast
  with step_record [OF assms(1) run_step.hyps(2), of k] run_step.prems(2) show ?case
    by (auto simp: ETH_WITHDRAWAL_TRANSACTION_CALLDATA_LEN_def SPL_WITHDRAWAL_TRANSACTION_CALLDATA_LEN_def)
qed simp

text \<open>
  The admin recorded in an account of the program changes only by the instruction that
  names the new one, in the owner account, and with the signature of the admin before.
\<close>

theorem admin_change_is_signed:
  assumes "solana_laws E" and "bridge_process E (pe_id E) accounts input st = (Ok (), st')"
    and "ac_owner (st k) = pe_id E" and "length (ac_data (st k)) = 32" and "ac_data (st' k) \<noteq> ac_data (st k)"
  shows "k = fst (bridge_owner_pubkey_and_bump E (pe_id E)) \<and> bridge_unpack input = Ok (ChangeBridgeAdmin (ac_data (st' k)))
     \<and> (\<exists>a. a \<in> set accounts \<and> ai_is_signer a \<and> ai_key a = ac_data (st k))"
proof -
  obtain st1 where s: "st1 = st \<or> (\<exists>user. bumped (fst (user_withdrawal_counter_pubkey_and_bump E (pe_id E) user)) st st1)
       \<or> (\<exists>new_admin. bridge_unpack input = Ok (ChangeBridgeAdmin new_admin) \<and> admin_changed E accounts new_admin st st1)" "keeps E st1 st'"
    using bridge_process_step [OF assms(1,2)] by blast
  have "ac_owner (st1 k) = pe_id E" using s(1) assms(3) by (auto simp: bumped_def admin_changed_def)
  with s(2) have "ac_data (st' k) = ac_data (st1 k)" by (simp add: keeps_def)
  with s(1) assms(4,5) show ?thesis by (auto simp: bumped_def admin_changed_def split: if_splits)
qed

text \<open>
  A successful deposit of ETH was signed by the payer of derived transactions and moves
  exactly the deposited value from the vault to the recipient it names.
\<close>

lemma deposit_eth_effect:
  assumes "solana_laws E" and "deposit_eth E (pe_id E) accounts value deposit_to st = (Ok (), st')"
  shows "\<exists>v. to_u64 value = Some v \<and> ai_key (accounts ! 3) = pe_no_sig_tx_payer E \<and> ai_is_signer (accounts ! 3)
     \<and> v \<le> ac_lamports (st (fst (vault_pubkey_and_bump E (pe_id E))))
     \<and> st' = moved (fst (vault_pubkey_and_bump E (pe_id E))) deposit_to v st"
  using assms(2) [unfolded deposit_eth_def handler_unfold]
  by (elim exE conjE) (auto dest!: invoke_transfer [OF assms(1)])

text \<open>
  For the decimals a bridged token may have, the tokens minted for a deposit can be
  withdrawn without loss or overflow, and the L1 gets back the deposited amount less the part
  below the token's resolution.
\<close>

theorem token_amounts_return:
  assumes "decimals \<le> MAX_TOKEN_DECIMAL" and "convert_decimal amount SPL_SHARE_DECIMAL decimals = (Ok minted :: (u128, 'e) res)"
    and "to_u64 minted = Some v"
  shows "remove_dust (ucast v) decimals SPL_SHARE_DECIMAL = (Ok (ucast v) :: (u128, 'e) res) \<and> to_u64 (ucast v) = Some v
     \<and> (\<exists>shares. convert_decimal (ucast v) decimals SPL_SHARE_DECIMAL = (Ok shares :: (u128, 'e) res)
          \<and> unat shares = unat amount - unat amount mod 10 ^ unat (9 - decimals))"
proof -
  have d: "decimals \<le> 9" using assms(1) by (simp add: MAX_TOKEN_DECIMAL_def)
  have v: "unat (ucast v :: u128) = unat v" "unat v < 2 ^ 64" "unat minted = unat v"
    using to_u64_Some [OF assms(3)] unsigned_less [of v, where ?'a = nat] by (auto simp: unsigned_ucast_eq take_bit_nat_eq_self)
  have u: "ucast (ucast v :: u128) = v"
    by (rule bit_word_eqI) (simp add: bit_simps)
  have "unat minted = unat amount div 10 ^ unat (9 - decimals)"
    using convert_down [OF d, of amount, where ?'a = 'e] assms(2) by auto
  moreover obtain shares where "convert_decimal (ucast v) decimals SPL_SHARE_DECIMAL = (Ok shares :: (u128, 'e) res)"
    "unat shares = unat v * 10 ^ unat (9 - decimals)"
    using convert_up [OF d, of "ucast v", where ?'a = 'e] v by auto
  ultimately show ?thesis
    using d v u by (auto simp: remove_dust_def SPL_SHARE_DECIMAL_def to_u64_def minus_mod_eq_div_mult)
qed

subsection \<open>Examples\<close>

text \<open>
  An environment with a working system program; derived addresses are made of their seeds, and
  calls of other programs have no effect.
\<close>

definition ex_id :: pubkey where "ex_id = replicate 32 1"

definition ex_system_id :: pubkey where "ex_system_id = replicate 32 0"

definition ex_invoke :: "cpi \<Rightarrow> account_info list \<Rightarrow> bytes list list \<Rightarrow> store \<Rightarrow> store program_result" where
  "ex_invoke ix infos seeds st =
     (case ix of
        Transfer a b n \<Rightarrow> if n \<le> ac_lamports (st a) then (Ok (), moved a b n st) else (Err (OtherError 1), st)
      | Allocate k n \<Rightarrow> if ac_owner (st k) = ex_system_id then (Ok (), set_data k (replicate n 0) st) else (Err (OtherError 2), st)
      | Assign k o' \<Rightarrow> if ac_owner (st k) = ex_system_id then (Ok (), st(k := (st k)\<lparr>ac_owner := o'\<rparr>)) else (Err (OtherError 3), st)
      | _ \<Rightarrow> (Ok (), st))"

definition ex_find_program_address :: "bytes list \<Rightarrow> pubkey \<Rightarrow> pubkey \<times> u8" where
  "ex_find_program_address seeds k = (of_nat (length (concat seeds)) # take 31 (concat (rev seeds) @ replicate 31 7), 255)"

definition ex_program_env :: program_env where
  "ex_program_env =
     \<lparr>pe_id = ex_id, pe_no_sig_tx_payer = replicate 32 3, pe_token_metadata_id = replicate 32 4, pe_associated_token_id = replicate 32 5,
      pe_find_program_address = ex_find_program_address, pe_metadata_pda = (\<lambda>k. k), pe_check_token_program = (\<lambda>k. Ok ()),
      pe_token_instruction = (\<lambda>ix. Ok ()), pe_rent_get = Ok (\<lambda>n. 10), pe_rent_from = (\<lambda>k a. Ok (\<lambda>n. 10)),
      pe_check_len = (\<lambda>n m. if n = m then Ok () else Err InvalidAccountData), pe_mint_len = 82, pe_mint_decimals = (\<lambda>b. Ok 6),
      pe_token_owner = (\<lambda>b. Ok b), pe_abi_encode = (\<lambda>ts. replicate (if length ts = 6 then 416 else 160) 0),
      pe_keccak256 = (\<lambda>b. replicate 32 0), pe_invoke = ex_invoke\<rparr>"

definition ex_user :: pubkey where "ex_user = replicate 32 9"

definition ex_counter :: pubkey where
  "ex_counter = fst (user_withdrawal_counter_pubkey_and_bump ex_program_env ex_id ex_user)"

definition ex_record :: "u64 \<Rightarrow> pubkey" where
  "ex_record c = fst (withdrawal_transaction_pubkey_and_bump ex_program_env ex_user c ex_id)"

definition ex_vault :: pubkey where "ex_vault = fst (vault_pubkey_and_bump ex_program_env ex_id)"

definition ex_config :: pubkey where "ex_config = fst (config_pubkey_and_bump ex_program_env ex_id)"

definition ex_owner :: pubkey where "ex_owner = fst (bridge_owner_pubkey_and_bump ex_program_env ex_id)"

definition ex_info :: "pubkey \<Rightarrow> account_info" where
  "ex_info k = \<lparr>ai_key = k, ai_is_signer = True, ai_is_writable = True\<rparr>"

definition ex_infos :: "u64 \<Rightarrow> account_info list" where
  "ex_infos c = map ex_info [ex_system_id, replicate 32 6, ex_counter, ex_record c, ex_vault, ex_config, ex_user]"

definition ex_store :: store where
  "ex_store = (\<lambda>k. \<lparr>ac_lamports = (if k = ex_user \<or> k = ex_vault then 1000 else 0),
     ac_data = (if k = ex_counter then counter_pack 4 else if k = ex_config then replicate 40 2 else if k = ex_owner then ex_user else []),
     ac_owner = (if k = ex_counter \<or> k = ex_config \<or> k = ex_owner then ex_id else ex_system_id), ac_executable = False, ac_rent_epoch = 0\<rparr>)"

lemma ex_solana_laws: "solana_laws ex_program_env"
proof -
  have "ex_system_id \<noteq> ex_id" by code_simp
  then show ?thesis
    by (auto simp: solana_laws_def pack_law_def ownership_law_def transfer_law_def allocate_law_def assign_law_def ex_program_env_def
        ex_invoke_def split: cpi.splits if_splits)
qed

lemma ex_keys_distinct: "distinct [ex_counter, ex_record 4, ex_record 5, ex_vault, ex_config, ex_user, ex_owner, ex_system_id]"
  by code_simp

lemma ex_program_env_sel [simp]:
  "pe_id ex_program_env = ex_id" "pe_check_len ex_program_env n m = (if n = m then Ok () else Err InvalidAccountData)"
  "pe_invoke ex_program_env = ex_invoke" "pe_rent_from ex_program_env k a = Ok (\<lambda>n. 10)" "pe_rent_get ex_program_env = Ok (\<lambda>n. 10)"
  "pe_abi_encode ex_program_env ts = replicate (if length ts = 6 then 416 else 160) 0" "pe_keccak256 ex_program_env b = replicate 32 0"
  "pe_no_sig_tx_payer ex_program_env = replicate 32 3"
  by (simp_all add: ex_program_env_def)

lemma ex_withdraw_at:
  assumes "distinct [ex_counter, ex_record c, ex_vault, ex_config, ex_user]" and "ac_data (st ex_counter) = counter_pack c" and "c \<noteq> - 1"
    and "ac_data (st ex_config) = replicate 40 2" and "ac_owner (st (ex_record c)) = ex_system_id" and "ac_lamports (st (ex_record c)) = 0"
    and "100 \<le> ac_lamports (st ex_user)" and "10 \<le> ac_lamports (st ex_user) - 100"
  shows "\<exists>st'. withdraw_eth ex_program_env ex_id (ex_infos c) (replicate 20 8) 100 500000 st = (Ok (), st')
     \<and> ac_data (st' ex_counter) = counter_pack (c + 1) \<and> ac_data (st' ex_config) = replicate 40 2
     \<and> ac_lamports (st' ex_user) = ac_lamports (st ex_user) - 110 \<and> (\<forall>k. k \<notin> {ex_counter, ex_record c, ex_vault, ex_user} \<longrightarrow> st' k = st k)"
proof -
  obtain b where b: "withdrawal_transaction_pubkey_and_bump ex_program_env ex_user c ex_id = (ex_record c, b)"
    by (simp add: ex_record_def prod_eq_iff)
  have s: "fst (user_withdrawal_counter_pubkey_and_bump ex_program_env ex_id ex_user) = ex_counter"
    "fst (vault_pubkey_and_bump ex_program_env ex_id) = ex_vault" "fst (config_pubkey_and_bump ex_program_env ex_id) = ex_config"
    by (simp_all add: ex_counter_def ex_vault_def ex_config_def)
  have o: "moved a b n st k = st k" "set_data a d st k = st k" if "k \<noteq> a" "k \<noteq> b" for a b n d st k
    using that by (simp_all add: moved_def set_data_def Let_def)
  have ne: "ex_user \<noteq> ex_vault" "ex_user \<noteq> ex_record c" "ex_user \<noteq> ex_counter" "ex_vault \<noteq> ex_record c" "ex_vault \<noteq> ex_counter"
    "ex_record c \<noteq> ex_counter" "ex_config \<noteq> ex_record c" "ex_config \<noteq> ex_counter"
    using assms(1) by auto
  show ?thesis
    using assms ne
    by (simp add: withdraw_eth_def ex_infos_def ex_info_def array_ref_def cmp_pubkeys_def guard_def s b MINIMAL_GAS_LIMIT_def to_u64_def
        next_counter_def unpacked_def packed_def ex_invoke_def create_account_def invoke_optionally_signed_def
        moved_lamports config_unpack_def sliced_def get_bridge_eth_calldata_def relay_calldata_def encode_with_selector_def
        ETH_WITHDRAWAL_TRANSACTION_CALLDATA_LEN_def Let_def) (auto simp: o)
qed

lemma ex_store_ready:
  "ac_data (ex_store ex_counter) = counter_pack 4" "ac_data (ex_store ex_config) = replicate 40 2"
  "ac_owner (ex_store ex_counter) = ex_id" "ac_owner (ex_store ex_config) = ex_id" "ac_lamports (ex_store ex_user) = 1000"
  "ac_lamports (ex_store ex_vault) = 1000" "ac_data (ex_store ex_owner) = ex_user" "ac_owner (ex_store ex_owner) = ex_id"
  "c \<in> {4, 5} \<Longrightarrow> ac_owner (ex_store (ex_record c)) = ex_system_id \<and> ac_lamports (ex_store (ex_record c)) = 0"
  using ex_keys_distinct by (auto simp: ex_store_def)

lemma ex_first_withdrawal:
  obtains st1 where "withdraw_eth ex_program_env ex_id (ex_infos 4) (replicate 20 8) 100 500000 ex_store = (Ok (), st1)"
    and "ac_data (st1 ex_counter) = counter_pack 5" and "ac_data (st1 ex_config) = replicate 40 2" and "ac_lamports (st1 ex_user) = 890"
    and "\<And>k. k \<notin> {ex_counter, ex_record 4, ex_vault, ex_user} \<Longrightarrow> st1 k = ex_store k"
proof -
  have "distinct [ex_counter, ex_record 4, ex_vault, ex_config, ex_user]" using ex_keys_distinct by simp
  from ex_withdraw_at [OF this, of ex_store] show ?thesis using that ex_store_ready by auto
qed

theorem withdraw_eth_effect_witness:
  "\<exists>st' config. withdraw_eth ex_program_env ex_id (ex_infos 4) (replicate 20 8) 100 500000 ex_store = (Ok (), st')
     \<and> ac_lamports (st' ex_vault) = 1100 \<and> counter_unpack (ac_data (st' ex_counter)) = Ok 5
     \<and> eth_withdrawal_unpack (ac_data (st' (ex_record 4))) = Ok (eth_record ex_program_env config ex_user (replicate 20 8) 100 500000 4)"
proof -
  obtain st1 where w: "withdraw_eth ex_program_env (pe_id ex_program_env) (ex_infos 4) (replicate 20 8) 100 500000 ex_store = (Ok (), st1)"
    using ex_first_withdrawal by auto
  have k: "ex_counter = ai_key (ex_infos 4 ! 2)" "ex_record 4 = ai_key (ex_infos 4 ! 3)" "ex_vault = ai_key (ex_infos 4 ! 4)"
    "ex_config = ai_key (ex_infos 4 ! 5)" "ex_user = ai_key (ex_infos 4 ! 6)"
    by (simp_all add: ex_infos_def ex_info_def)
  have "distinct [ex_record 4, ex_vault, ex_user]" "length (pe_id ex_program_env) = 32"
    using ex_keys_distinct by (simp_all add: ex_id_def)
  from withdraw_eth_effect [OF ex_solana_laws this(2) w k _ _ this(1)] ex_store_ready w show ?thesis
    by (auto simp: to_u64_def)
qed

theorem withdrawal_nonces_increase_witness:
  "\<exists>st1 st3. withdraws ex_program_env ex_user 4 ex_store st1 \<and> withdraws ex_program_env ex_user 5 st1 st3 \<and> (4 :: u64) < 5"
proof (rule ex_first_withdrawal)
  fix st1
  assume w: "withdraw_eth ex_program_env ex_id (ex_infos 4) (replicate 20 8) 100 500000 ex_store = (Ok (), st1)"
    and s: "ac_data (st1 ex_counter) = counter_pack 5" "ac_data (st1 ex_config) = replicate 40 2" "ac_lamports (st1 ex_user) = 890"
    "\<And>k. k \<notin> {ex_counter, ex_record 4, ex_vault, ex_user} \<Longrightarrow> st1 k = ex_store k"
  have d: "distinct [ex_counter, ex_record 5, ex_vault, ex_config, ex_user]" using ex_keys_distinct by simp
  have r: "st1 (ex_record 5) = ex_store (ex_record 5)" using s(4) ex_keys_distinct by auto
  obtain st3 where w3: "withdraw_eth ex_program_env ex_id (ex_infos 5) (replicate 20 8) 100 500000 st1 = (Ok (), st3)"
    using ex_withdraw_at [OF d, of st1] s(1-3) r ex_store_ready(9) [of 5] by auto
  have u: "ai_key (ex_infos c ! 6) = ex_user" for c by (simp add: ex_infos_def ex_info_def)
  have ck: "counter_key ex_program_env ex_user = ex_counter" by (simp add: counter_key_def ex_counter_def)
  have "withdraws ex_program_env ex_user 4 ex_store st1"
    unfolding withdraws_def ex_program_env_sel ck using w u ex_store_ready(1) counter_pack_unpack(1) by metis
  moreover have "withdraws ex_program_env ex_user 5 st1 st3"
    unfolding withdraws_def ex_program_env_sel ck using w3 u s(1) counter_pack_unpack(1) by metis
  ultimately show ?thesis
    using withdrawal_nonces_increase [OF ex_solana_laws _ _ run_refl, of ex_store ex_user 4 st1 5 st3] ex_store_ready(3) by (auto simp: ck)
qed

lemma ex_admin_change:
  "bridge_process ex_program_env ex_id [ex_info ex_owner, ex_info (ac_data (st ex_owner))] (8 # replicate 32 2) st
     = (if length (ac_data (st ex_owner)) = 32 then (Ok (), set_data ex_owner (replicate 32 2) st) else (Err InvalidAccountData, st))"
  by (simp add: bridge_process_def bridge_unpack_def unpack_pubkey_def unpack_bytes_def change_bridge_admin_def array_ref_def
      checked_admin_def guard_def cmp_pubkeys_def unpacked_def owner_unpack_def packed_def ex_info_def ex_owner_def [symmetric])

theorem records_are_immutable_witness:
  "\<exists>st. ac_data ((set_data ex_owner (replicate 32 2) st) (ex_record 4)) = ac_data (st (ex_record 4)) \<and> length (ac_data (st (ex_record 4))) = 568"
proof -
  let ?st = "ex_store(ex_record 4 := (ex_store (ex_record 4))\<lparr>ac_owner := ex_id, ac_data := replicate 568 0\<rparr>)"
  have o: "?st ex_owner = ex_store ex_owner" using ex_keys_distinct by auto
  have "bridge_process ex_program_env (pe_id ex_program_env) [ex_info ex_owner, ex_info (ac_data (?st ex_owner))] (8 # replicate 32 2) ?st
      = (Ok (), set_data ex_owner (replicate 32 2) ?st)"
    using ex_admin_change [of ?st] o ex_store_ready(7) by (simp add: ex_user_def del: fun_upd_apply)
  from records_are_immutable [OF ex_solana_laws run_step [OF run_refl this], of "ex_record 4"] show ?thesis
    by (intro exI [of _ ?st]) (simp add: ETH_WITHDRAWAL_TRANSACTION_CALLDATA_LEN_def)
qed

theorem admin_change_is_signed_witness:
  "\<exists>a. a \<in> set [ex_info ex_owner, ex_info ex_user] \<and> ai_is_signer a \<and> ai_key a = ac_data (ex_store ex_owner)"
proof -
  have "bridge_process ex_program_env (pe_id ex_program_env) [ex_info ex_owner, ex_info ex_user] (8 # replicate 32 2) ex_store
      = (Ok (), set_data ex_owner (replicate 32 2) ex_store)"
    using ex_admin_change [of ex_store] ex_store_ready(7) by (simp add: ex_user_def)
  from admin_change_is_signed [OF ex_solana_laws this, of ex_owner] ex_store_ready show ?thesis
    by (simp add: ex_user_def)
qed

theorem token_amounts_return_witness:
  "\<exists>shares. convert_decimal 1234 6 SPL_SHARE_DECIMAL = (Ok shares :: (u128, unit) res) \<and> unat shares = 1234567 - 567"
proof -
  have "convert_decimal 1234567 SPL_SHARE_DECIMAL 6 = (Ok 1234 :: (u128, unit) res)" "to_u64 1234 = Some 1234" "(6 :: u8) \<le> MAX_TOKEN_DECIMAL"
    by (simp_all add: convert_decimal_def SPL_SHARE_DECIMAL_def pow10_def to_u64_def MAX_TOKEN_DECIMAL_def)
  from token_amounts_return [OF this(3,1,2)] show ?thesis by auto
qed

end
