(* ===== verification/L1_Info_Program.thy ===== *)
theory L1_Info_Program
  imports Bridge_Safety
begin

text \<open>
  The program that keeps the L1 block info on chain (\<^verbatim>\<open>programs/l1-block-info-program\<close>), the
  instructions the attributes and deposits of a block become (\<^verbatim>\<open>instruction.rs\<close> of both
  programs), and their way from the derivation to the accounts they change.
\<close>

section \<open>The program\<close>

datatype l1_block_info_error = InvalidInstruction | InvalidL1BlockInfoAccount | InvalidNoSigTxPayer

definition l1_error :: "l1_block_info_error \<Rightarrow> program_error" where
  "l1_error e = Custom (case e of InvalidInstruction \<Rightarrow> 0 | InvalidL1BlockInfoAccount \<Rightarrow> 1 | InvalidNoSigTxPayer \<Rightarrow> 2)"

record l1_block_info =
  li_number :: u64
  li_timestamp :: u64
  li_base_fee :: u128
  li_hash :: bytes
  li_sequence_number :: u64
  li_batcher_hash :: bytes
  li_fee_overhead :: u128
  li_fee_scalar :: u128
  li_gas :: u64
  li_is_system_tx :: bool

datatype l1_block_info_instruction = CreateL1BlockInfoAccount | UpdateL1BlockInfo l1_block_info

definition l1_unpack :: "bytes \<Rightarrow> (l1_block_info_instruction, program_error) res" where
  "l1_unpack input =
     (let bad = l1_error InvalidInstruction in
      case input of
        [] \<Rightarrow> Err bad
      | tag # r \<Rightarrow>
          if tag = 0 then Ok CreateL1BlockInfoAccount
          else if tag = 1 then
            rthen (unpack_u64 bad r) (\<lambda>(number, r).
            rthen (unpack_u64 bad r) (\<lambda>(timestamp, r).
            rthen (unpack_u128 bad r) (\<lambda>(base_fee, r).
            rthen (unpack_bytes32 bad r) (\<lambda>(hash, r).
            rthen (unpack_u64 bad r) (\<lambda>(sequence_number, r).
            rthen (unpack_bytes32 bad r) (\<lambda>(batcher_hash, r).
            rthen (unpack_u128 bad r) (\<lambda>(fee_overhead, r).
            rthen (unpack_u128 bad r) (\<lambda>(fee_scalar, r).
            rthen (unpack_u64 bad r) (\<lambda>(gas, r).
            rthen (unpack_bool bad r) (\<lambda>(is_system_tx, r).
            Ok (UpdateL1BlockInfo
              \<lparr>li_number = number, li_timestamp = timestamp, li_base_fee = base_fee, li_hash = hash, li_sequence_number = sequence_number,
               li_batcher_hash = batcher_hash, li_fee_overhead = fee_overhead, li_fee_scalar = fee_scalar, li_gas = gas,
               li_is_system_tx = is_system_tx\<rparr>)))))))))))
          else Err bad)"

fun l1_pack :: "l1_block_info_instruction \<Rightarrow> bytes" where
  "l1_pack CreateL1BlockInfoAccount = [0]"
| "l1_pack (UpdateL1BlockInfo i) =
     [1] @ pack_u64 (li_number i) @ pack_u64 (li_timestamp i) @ pack_u128 (li_base_fee i) @ li_hash i @ pack_u64 (li_sequence_number i)
     @ li_batcher_hash i @ pack_u128 (li_fee_overhead i) @ pack_u128 (li_fee_scalar i) @ pack_u64 (li_gas i) @ [bool_u8 (li_is_system_tx i)]"

text \<open>The layout of the account: the same fields, big-endian.\<close>

definition info_pack :: "l1_block_info \<Rightarrow> bytes" where
  "info_pack i =
     be_of_nat 8 (unat (li_number i)) @ be_of_nat 8 (unat (li_timestamp i)) @ be_of_nat 16 (unat (li_base_fee i)) @ li_hash i
     @ be_of_nat 8 (unat (li_sequence_number i)) @ li_batcher_hash i @ be_of_nat 16 (unat (li_fee_overhead i))
     @ be_of_nat 16 (unat (li_fee_scalar i)) @ be_of_nat 8 (unat (li_gas i)) @ [bool_u8 (li_is_system_tx i)]"

definition INFO_LEN :: nat where "INFO_LEN = 8 + 8 + 16 + 32 + 8 + 32 + 16 + 16 + 8 + 1"

definition info_unpack :: "bytes \<Rightarrow> (l1_block_info, program_error) res" where
  "info_unpack src =
     rthen (sliced 0 8 src) (\<lambda>number.
     rthen (sliced 8 16 src) (\<lambda>timestamp.
     rthen (sliced 16 32 src) (\<lambda>base_fee.
     rthen (sliced 32 64 src) (\<lambda>hash.
     rthen (sliced 64 72 src) (\<lambda>sequence_number.
     rthen (sliced 72 104 src) (\<lambda>batcher_hash.
     rthen (sliced 104 120 src) (\<lambda>fee_overhead.
     rthen (sliced 120 136 src) (\<lambda>fee_scalar.
     rthen (sliced 136 144 src) (\<lambda>gas.
     rthen (if 144 < length src then Ok (src ! 144) else Panic) (\<lambda>flag.
     rthen (if flag = 0 then Ok False else if flag = 1 then Ok True else Err InvalidAccountData) (\<lambda>is_system_tx.
     Ok \<lparr>li_number = of_nat (nat_of_be number), li_timestamp = of_nat (nat_of_be timestamp), li_base_fee = of_nat (nat_of_be base_fee),
         li_hash = hash, li_sequence_number = of_nat (nat_of_be sequence_number), li_batcher_hash = batcher_hash,
         li_fee_overhead = of_nat (nat_of_be fee_overhead), li_fee_scalar = of_nat (nat_of_be fee_scalar), li_gas = of_nat (nat_of_be gas),
         li_is_system_tx = is_system_tx\<rparr>)))))))))))"

definition l1_block_info_pubkey_and_bump :: "program_env \<Rightarrow> pubkey \<Rightarrow> pubkey \<times> u8" where
  "l1_block_info_pubkey_and_bump E program_id = pe_find_program_address E [map of_char ''l1-block-info''] program_id"

definition l1_update :: "program_env \<Rightarrow> pubkey \<Rightarrow> account_info list \<Rightarrow> l1_block_info \<Rightarrow> store \<Rightarrow> store program_result" where
  "l1_update E program_id accounts i st =
     rbind (array_ref 2 accounts) st (\<lambda>accounts.
     let l1_block_info_account = accounts ! 0; no_sig_tx_payer = accounts ! 1 in
     rbind (guard (cmp_pubkeys (ai_key no_sig_tx_payer) (pe_no_sig_tx_payer E) \<and> ai_is_signer no_sig_tx_payer)
              (l1_error InvalidNoSigTxPayer)) st (\<lambda>_.
     rbind (guard (cmp_pubkeys (fst (l1_block_info_pubkey_and_bump E program_id)) (ai_key l1_block_info_account))
              (l1_error InvalidL1BlockInfoAccount)) st (\<lambda>_.
     packed E INFO_LEN (info_pack i) (ai_key l1_block_info_account) st)))"

definition l1_process :: "program_env \<Rightarrow> pubkey \<Rightarrow> account_info list \<Rightarrow> bytes \<Rightarrow> store \<Rightarrow> store program_result" where
  "l1_process E program_id accounts input st =
     rbind (l1_unpack input) st (\<lambda>i.
     case i of CreateL1BlockInfoAccount \<Rightarrow> (Ok (), st) | UpdateL1BlockInfo info \<Rightarrow> l1_update E program_id accounts info st)"

section \<open>Instructions of derived transactions\<close>

record instruction =
  ix_program_id :: pubkey
  ix_accounts :: "account_info list"
  ix_data :: bytes

text \<open>The well-known keys the constructors of the instructions use, and the address of a token account.\<close>

record client_env =
  ce_bridge :: program_env
  ce_l1_block_info :: program_env
  ce_system_id :: pubkey
  ce_rent_id :: pubkey
  ce_token_id :: pubkey
  ce_associated_token_address :: "pubkey \<Rightarrow> pubkey \<Rightarrow> pubkey"

definition new_readonly :: "pubkey \<Rightarrow> bool \<Rightarrow> account_info" where
  "new_readonly k signer = \<lparr>ai_key = k, ai_is_signer = signer, ai_is_writable = False\<rparr>"

definition new_writable :: "pubkey \<Rightarrow> bool \<Rightarrow> account_info" where
  "new_writable k signer = \<lparr>ai_key = k, ai_is_signer = signer, ai_is_writable = True\<rparr>"

definition unwrap :: "('a, 'e) res \<Rightarrow> ('a, 'f) res" where
  "unwrap r = (case r of Ok x \<Rightarrow> Ok x | _ \<Rightarrow> Panic)"

definition deposit_eth_ix ::
  "client_env \<Rightarrow> address \<Rightarrow> address \<Rightarrow> u128 \<Rightarrow> u128 \<Rightarrow> u64 \<Rightarrow> bool \<Rightarrow> u64 \<Rightarrow> bytes \<Rightarrow> u128 \<Rightarrow> address \<Rightarrow> pubkey \<Rightarrow> u128 \<Rightarrow> bytes
     \<Rightarrow> (instruction, 'e) res" where
  "deposit_eth_ix C from to mint value gas is_creation l1_block_num l1_block_hash log_index deposit_from deposit_to deposit_amount extra_data =
     (let E = ce_bridge C in
      rthen (unwrap (bridge_pack (DepositETH from to mint value gas is_creation l1_block_num l1_block_hash log_index 0 deposit_from deposit_to
                      deposit_amount extra_data (replicate 32 0) (replicate 20 0)))) (\<lambda>data.
      Ok \<lparr>ix_program_id = pe_id E,
          ix_accounts = [new_readonly (ce_system_id C) False, new_writable deposit_to False,
                         new_writable (fst (vault_pubkey_and_bump E (pe_id E))) False, new_readonly (pe_no_sig_tx_payer E) True],
          ix_data = data\<rparr>))"

definition deposit_erc20_ix :: "client_env \<Rightarrow> pubkey \<Rightarrow> address \<Rightarrow> address \<Rightarrow> pubkey \<Rightarrow> u128 \<Rightarrow> (instruction, 'e) res" where
  "deposit_erc20_ix C local_token remote_token from to amount =
     (let E = ce_bridge C; mint = fst (spl_token_mint_pubkey_and_bump E remote_token (pe_id E)) in
      rthen (unwrap (bridge_pack (DepositERC20 local_token remote_token from to amount))) (\<lambda>data.
      Ok \<lparr>ix_program_id = pe_id E,
          ix_accounts = [new_readonly (ce_system_id C) False, new_readonly (ce_token_id C) False,
                         new_readonly (pe_associated_token_id E) False,
                         new_readonly (fst (spl_token_owner_pubkey_and_bump E remote_token (pe_id E))) False, new_writable mint False,
                         new_readonly to True, new_writable (ce_associated_token_address C to mint) False,
                         new_writable (fst (vault_pubkey_and_bump E (pe_id E))) False, new_readonly (pe_no_sig_tx_payer E) True],
          ix_data = data\<rparr>))"

text \<open>The constructors for users and the admin.\<close>

definition create_vault_account_ix :: "client_env \<Rightarrow> pubkey \<Rightarrow> (instruction, 'e) res" where
  "create_vault_account_ix C payer =
     (let E = ce_bridge C in
      rthen (unwrap (bridge_pack CreateVaultAccount)) (\<lambda>data.
      Ok \<lparr>ix_program_id = pe_id E,
          ix_accounts = [new_readonly (ce_system_id C) False, new_readonly (ce_rent_id C) False,
                         new_writable (fst (vault_pubkey_and_bump E (pe_id E))) False, new_readonly payer True],
          ix_data = data\<rparr>))"

definition create_spl_ix ::
  "client_env \<Rightarrow> address \<Rightarrow> pubkey \<Rightarrow> bytes \<Rightarrow> bytes \<Rightarrow> bytes \<Rightarrow> u8 \<Rightarrow> (instruction, bridge_error) res" where
  "create_spl_ix C remote_token admin name symbol uri decimals =
     (let E = ce_bridge C; mint = fst (spl_token_mint_pubkey_and_bump E remote_token (pe_id E)) in
      rthen (bridge_pack (CreateSPL remote_token name symbol uri decimals)) (\<lambda>data.
      Ok \<lparr>ix_program_id = pe_id E,
          ix_accounts = [new_readonly (ce_system_id C) False, new_readonly (ce_rent_id C) False, new_readonly (ce_token_id C) False,
                         new_readonly (fst (spl_token_owner_pubkey_and_bump E remote_token (pe_id E))) False, new_writable mint False,
                         new_writable (fst (vault_pubkey_and_bump E (pe_id E))) False,
                         new_readonly (fst (bridge_owner_pubkey_and_bump E (pe_id E))) False, new_readonly admin True,
                         new_readonly (pe_token_metadata_id E) False, new_writable (pe_metadata_pda E mint) False],
          ix_data = data\<rparr>))"

definition withdraw_eth_ix :: "client_env \<Rightarrow> address \<Rightarrow> pubkey \<Rightarrow> u128 \<Rightarrow> u128 \<Rightarrow> u64 \<Rightarrow> (instruction, 'e) res" where
  "withdraw_eth_ix C target payer value gas_limit counter =
     (let E = ce_bridge C in
      rthen (unwrap (bridge_pack (WithdrawETH target value gas_limit))) (\<lambda>data.
      Ok \<lparr>ix_program_id = pe_id E,
          ix_accounts = [new_readonly (ce_system_id C) False, new_readonly (ce_rent_id C) False,
                         new_writable (fst (user_withdrawal_counter_pubkey_and_bump E (pe_id E) payer)) False,
                         new_writable (fst (withdrawal_transaction_pubkey_and_bump E payer counter (pe_id E))) False,
                         new_writable (fst (vault_pubkey_and_bump E (pe_id E))) False,
                         new_readonly (fst (config_pubkey_and_bump E (pe_id E))) False, new_writable payer True],
          ix_data = data\<rparr>))"

definition change_bridge_admin_ix :: "client_env \<Rightarrow> pubkey \<Rightarrow> pubkey \<Rightarrow> (instruction, 'e) res" where
  "change_bridge_admin_ix C admin new_admin =
     (let E = ce_bridge C in
      rthen (unwrap (bridge_pack (ChangeBridgeAdmin new_admin))) (\<lambda>data.
      Ok \<lparr>ix_program_id = pe_id E,
          ix_accounts = [new_writable (fst (bridge_owner_pubkey_and_bump E (pe_id E))) False, new_readonly admin True],
          ix_data = data\<rparr>))"

definition withdraw_spl_ix :: "client_env \<Rightarrow> address \<Rightarrow> pubkey \<Rightarrow> address \<Rightarrow> u128 \<Rightarrow> u128 \<Rightarrow> u64 \<Rightarrow> (instruction, 'e) res" where
  "withdraw_spl_ix C remote_token payer to amount gas_limit counter =
     (let E = ce_bridge C; mint = fst (spl_token_mint_pubkey_and_bump E remote_token (pe_id E)) in
      rthen (unwrap (bridge_pack (WithdrawSPL remote_token to amount gas_limit))) (\<lambda>data.
      Ok \<lparr>ix_program_id = pe_id E,
          ix_accounts = [new_readonly (ce_system_id C) False, new_readonly (ce_rent_id C) False, new_readonly (ce_token_id C) False,
                         new_writable (fst (user_withdrawal_counter_pubkey_and_bump E (pe_id E) payer)) False,
                         new_writable (fst (withdrawal_transaction_pubkey_and_bump E payer counter (pe_id E))) False,
                         new_readonly (fst (spl_token_owner_pubkey_and_bump E remote_token (pe_id E))) False, new_writable mint False,
                         new_writable (ce_associated_token_address C payer mint) False,
                         new_readonly (fst (config_pubkey_and_bump E (pe_id E))) False, new_writable payer True],
          ix_data = data\<rparr>))"

definition create_user_withdrawal_counter_account_ix :: "client_env \<Rightarrow> pubkey \<Rightarrow> (instruction, 'e) res" where
  "create_user_withdrawal_counter_account_ix C payer =
     (let E = ce_bridge C in
      rthen (unwrap (bridge_pack CreateUserWithdrawalCounterAccount)) (\<lambda>data.
      Ok \<lparr>ix_program_id = pe_id E,
          ix_accounts = [new_readonly (ce_system_id C) False, new_readonly (ce_rent_id C) False,
                         new_writable (fst (user_withdrawal_counter_pubkey_and_bump E (pe_id E) payer)) False, new_writable payer True],
          ix_data = data\<rparr>))"

definition create_l1_block_info_account_ix :: "client_env \<Rightarrow> pubkey \<Rightarrow> instruction" where
  "create_l1_block_info_account_ix C payer =
     (let E = ce_l1_block_info C in
      \<lparr>ix_program_id = pe_id E,
       ix_accounts = [new_readonly (ce_system_id C) False, new_readonly (ce_rent_id C) False,
                      new_writable (fst (l1_block_info_pubkey_and_bump E (pe_id E))) False, new_writable payer True],
       ix_data = l1_pack CreateL1BlockInfoAccount\<rparr>)"

definition update_l1_block_info_ix :: "client_env \<Rightarrow> l1_block_info \<Rightarrow> instruction" where
  "update_l1_block_info_ix C i =
     (let E = ce_l1_block_info C in
      \<lparr>ix_program_id = pe_id E,
       ix_accounts = [new_writable (fst (l1_block_info_pubkey_and_bump E (pe_id E))) False, new_readonly (pe_no_sig_tx_payer E) True],
       ix_data = l1_pack (UpdateL1BlockInfo i)\<rparr>)"

text \<open>The calls of these constructors in the derivation.\<close>

definition instruction_of :: "client_env \<Rightarrow> native_instruction \<Rightarrow> (instruction, 'e) res" where
  "instruction_of C n =
     (case n of
        native_instruction.DepositETH from to mint value gas is_creation l1_block_num l1_block_hash log_index deposit_from deposit_to
          deposit_amount extra_data \<Rightarrow>
          deposit_eth_ix C from to mint value gas is_creation l1_block_num l1_block_hash log_index deposit_from deposit_to deposit_amount extra_data
      | native_instruction.DepositERC20 local_token remote_token from to amount \<Rightarrow> deposit_erc20_ix C local_token remote_token from to amount
      | native_instruction.UpdateL1BlockInfo number timestamp base_fee hash sequence_number batcher_hash fee_overhead fee_scalar gas is_system_tx \<Rightarrow>
          Ok (update_l1_block_info_ix C
            \<lparr>li_number = number, li_timestamp = timestamp, li_base_fee = base_fee, li_hash = hash, li_sequence_number = sequence_number,
             li_batcher_hash = batcher_hash, li_fee_overhead = fee_overhead, li_fee_scalar = fee_scalar, li_gas = gas,
             li_is_system_tx = is_system_tx\<rparr>))"

section \<open>Lemmas\<close>

definition wf_info :: "l1_block_info \<Rightarrow> bool" where
  "wf_info i \<longleftrightarrow> length (li_hash i) = 32 \<and> length (li_batcher_hash i) = 32"

lemma l1_unpack_pack:
  assumes "wf_info i"
  shows "l1_unpack (l1_pack (UpdateL1BlockInfo i) @ rest) = Ok (UpdateL1BlockInfo i)"
  using assms by (simp add: l1_unpack_def get_fields pack_u64_def pack_u128_def wf_info_def)

lemma info_roundtrip:
  assumes "wf_info i"
  shows "info_unpack (info_pack i) = Ok i" and "length (info_pack i) = INFO_LEN"
proof -
  have u: "of_nat (nat_of_be (be_of_nat 8 (unat v))) = v" for v :: u64
    using unsigned_less [of v, where ?'a = nat] by (simp add: nat_of_be_of_nat)
  have w: "of_nat (nat_of_be (be_of_nat 16 (unat v))) = v" for v :: u128
    using unsigned_less [of v, where ?'a = nat] by (simp add: nat_of_be_of_nat)
  from assms show "info_unpack (info_pack i) = Ok i"
    by (simp add: info_unpack_def info_pack_def sliced_def wf_info_def u w nth_append bool_u8_def)
  from assms show "length (info_pack i) = INFO_LEN" by (simp add: info_pack_def wf_info_def INFO_LEN_def)
qed

lemma l1_update_Ok:
  assumes "pack_law E" and "E = ce_l1_block_info C" and "wf_info info"
    and "k = fst (l1_block_info_pubkey_and_bump E (pe_id E))" and "length (ac_data (st k)) = INFO_LEN"
  shows "l1_process E (ix_program_id (update_l1_block_info_ix C info)) (ix_accounts (update_l1_block_info_ix C info))
     (ix_data (update_l1_block_info_ix C info)) st = (Ok (), set_data k (info_pack info) st)"
proof -
  have "pe_check_len E INFO_LEN INFO_LEN = Ok ()" using assms(1) by (simp add: pack_law_def)
  with l1_unpack_pack [OF assms(3), of "[]"] assms show ?thesis
    by (simp add: l1_process_def update_l1_block_info_ix_def l1_update_def array_ref_def new_readonly_def new_writable_def guard_def
        cmp_pubkeys_def packed_def Let_def)
qed

text \<open>Executing the instruction of an ETH deposit runs its handler with the amount and recipient of the deposit.\<close>

definition eth_deposit_accounts :: "client_env \<Rightarrow> eth_deposit_data \<Rightarrow> account_info list" where
  "eth_deposit_accounts C data =
     [new_readonly (ce_system_id C) False, new_writable (ed_to data) False,
      new_writable (fst (vault_pubkey_and_bump (ce_bridge C) (pe_id (ce_bridge C)))) False, new_readonly (pe_no_sig_tx_payer (ce_bridge C)) True]"

lemma eth_deposit_runs:
  assumes "deposit_instruction d = Ok n" and "ud_deposit_type d = ETH data"
    and "length (ud_bridge_sender d) = 20" and "length (ud_l1_block_hash d) = 32" and "length (ed_from data) = 20" and "length (ed_to data) = 32"
  shows "\<exists>ix. instruction_of C n = (Ok ix :: (instruction, 'e) res)
     \<and> bridge_process (ce_bridge C) (ix_program_id ix) (ix_accounts ix) (ix_data ix) st =
         deposit_eth (ce_bridge C) (pe_id (ce_bridge C)) (eth_deposit_accounts C data) (ucast (ed_amount data)) (ed_to data) st
     \<and> unat (ucast (ed_amount data) :: u128) = unat (ed_amount data)"
proof -
  let ?amount = "ucast (ed_amount data) :: u128"
  obtain mint where n: "n = native_instruction.DepositETH (ud_bridge_sender d) (replicate 20 0) mint ?amount (ud_gas d) (ud_is_creation d)
      (ud_l1_block_num d) (ud_l1_block_hash d) (ucast (ud_log_index d)) (ed_from data) (ed_to data) ?amount (ed_extra_data data)"
    and a: "unat (ed_amount data) < 2 ^ 128" "length (ed_extra_data data) = 32"
    using assms(1,2) by (auto simp: deposit_instruction_def u128_try_from_def rthen_Ok_iff split: if_splits)
  let ?i = "DepositETH (ud_bridge_sender d) (replicate 20 0) mint ?amount (ud_gas d) (ud_is_creation d) (ud_l1_block_num d) (ud_l1_block_hash d)
      (ucast (ud_log_index d)) 0 (ed_from data) (ed_to data) ?amount (ed_extra_data data) (replicate 32 0) (replicate 20 0)"
  obtain b where b: "bridge_pack ?i = Ok b" by simp
  have "wf_instruction ?i" using assms(3-6) a by simp
  from bridge_unpack_pack [OF this b, of "[]"] have u: "bridge_unpack b = Ok ?i" by simp
  have "instruction_of C n = (Ok \<lparr>ix_program_id = pe_id (ce_bridge C), ix_accounts = eth_deposit_accounts C data, ix_data = b\<rparr> :: (instruction, 'e) res)"
    using n b by (simp add: instruction_of_def deposit_eth_ix_def Let_def unwrap_def eth_deposit_accounts_def del: bridge_pack.simps)
  moreover have "unat ?amount = unat (ed_amount data)" using a by (simp add: unsigned_ucast_eq take_bit_nat_eq_self)
  ultimately show ?thesis using u by (simp add: bridge_process_def)
qed

section \<open>Properties\<close>

text \<open>
  From the derivation to the chain: the first transaction of a block, as the program executes
  it, leaves in the L1 block info account exactly the number, time and hash of the L1 origin, the
  sequence number and the batcher hash of the attributes.
\<close>

theorem l1_info_reaches_account:
  assumes "pack_law E" and "E = ce_l1_block_info C" and "length (bi_hash block) = 32"
    and "attributes_try_from block sequence_number batcher_hash = Ok a" and "attributes_instruction a = Ok n"
    and "k = fst (l1_block_info_pubkey_and_bump E (pe_id E))" and "length (ac_data (st k)) = INFO_LEN"
  shows "\<exists>ix st' info. instruction_of C n = (Ok ix :: (instruction, 'e) res)
     \<and> l1_process E (ix_program_id ix) (ix_accounts ix) (ix_data ix) st = (Ok (), st')
     \<and> info_unpack (ac_data (st' k)) = Ok info
     \<and> li_number info = bi_number block \<and> li_timestamp info = bi_timestamp block \<and> li_hash info = bi_hash block
     \<and> li_sequence_number info = sequence_number \<and> nat_of_le (li_batcher_hash info) = unat batcher_hash"
proof -
  define info where "info = \<lparr>li_number = bi_number block, li_timestamp = bi_timestamp block, li_base_fee = 0, li_hash = bi_hash block,
      li_sequence_number = sequence_number, li_batcher_hash = rev (be_of_nat 32 (unat batcher_hash)), li_fee_overhead = 0,
      li_fee_scalar = 0, li_gas = 0, li_is_system_tx = True\<rparr>"
  have "instruction_of C n = (Ok (update_l1_block_info_ix C info) :: (instruction, 'e) res)"
    using assms(4,5) by (auto simp: attributes_try_from_def attributes_instruction_def u128_try_from_def instruction_of_def info_def)
  moreover have wf: "wf_info info" using assms(3) by (simp add: wf_info_def info_def)
  moreover have "l1_process E (ix_program_id (update_l1_block_info_ix C info)) (ix_accounts (update_l1_block_info_ix C info))
      (ix_data (update_l1_block_info_ix C info)) st = (Ok (), set_data k (info_pack info) st)"
    by (rule l1_update_Ok [where st = st and k = k and E = E and C = C, OF assms(1,2) wf assms(6,7)])
  moreover have "nat_of_le (li_batcher_hash info) = unat batcher_hash"
    using unsigned_less [of batcher_hash, where ?'a = nat] by (simp add: info_def nat_of_le_def nat_of_be_of_nat)
  ultimately show ?thesis using info_roundtrip(1) [OF wf] by (auto simp: info_def)
qed

text \<open>
  C9: from the derivation to the chain: when the program executes the instruction of an ETH
  deposit, exactly the deposited amount moves from the vault to the recipient named on L1.
\<close>

theorem deposit_reaches_recipient:
  assumes "solana_laws E" and "E = ce_bridge C" and "deposit_instruction d = Ok n" and "ud_deposit_type d = ETH data"
    and "length (ud_bridge_sender d) = 20" and "length (ud_l1_block_hash d) = 32" and "length (ed_from data) = 20" and "length (ed_to data) = 32"
    and "instruction_of C n = (Ok ix :: (instruction, 'e) res)"
    and "bridge_process E (ix_program_id ix) (ix_accounts ix) (ix_data ix) st = (Ok (), st')"
  shows "\<exists>v. unat v = unat (ed_amount data) \<and> st' = moved (fst (vault_pubkey_and_bump E (pe_id E))) (ed_to data) v st"
proof -
  have "deposit_eth E (pe_id E) (eth_deposit_accounts C data) (ucast (ed_amount data)) (ed_to data) st = (Ok (), st')"
    and a: "unat (ucast (ed_amount data) :: u128) = unat (ed_amount data)"
    using eth_deposit_runs [OF assms(3-8), of C st, where ?'e = 'e] assms(2,9,10) by auto
  from deposit_eth_effect [OF assms(1) this(1)] show ?thesis using a to_u64_Some by metis
qed

text \<open>
  Replay protection: a withdrawal instruction made for the number \<open>c\<close>, executed when the
  user's counter is at another number, is refused because the record account it names is not the
  next one. The addresses of the two records differ, as derived addresses do not collide.
\<close>

theorem stale_withdrawal_rejected:
  assumes "pack_law E" and "E = ce_bridge C" and "withdraw_eth_ix C target payer value gas_limit c = (Ok ix :: (instruction, 'e) res)"
    and "length target = 20" and "MINIMAL_GAS_LIMIT \<le> gas_limit" and "ac_data (st (counter_key E payer)) = counter_pack c'" and "c' \<noteq> - 1"
    and "fst (withdrawal_transaction_pubkey_and_bump E payer c (pe_id E)) \<noteq> fst (withdrawal_transaction_pubkey_and_bump E payer c' (pe_id E))"
  shows "fst (bridge_process E (ix_program_id ix) (ix_accounts ix) (ix_data ix) st) = Err (bridge InvalidWithdrawalTransactionAccount)"
proof -
  obtain b where b: "bridge_pack (WithdrawETH target value gas_limit) = Ok b" by simp
  have "bridge_unpack b = Ok (WithdrawETH target value gas_limit)" using bridge_unpack_pack [OF _ b, of "[]"] assms(4) by simp
  moreover have "pe_check_len E 8 8 = Ok ()" using assms(1) by (simp add: pack_law_def)
  ultimately show ?thesis
    using assms(2-8) b
    by (auto simp: withdraw_eth_ix_def unwrap_def Let_def bridge_process_def withdraw_eth_def guard_def array_ref_def new_readonly_def
        new_writable_def cmp_pubkeys_def next_counter_def unpacked_def packed_def counter_key_def counter_pack_unpack
        split: prod.splits simp del: bridge_pack.simps)
qed

subsection \<open>Examples\<close>

definition ex_client :: client_env where
  "ex_client = \<lparr>ce_bridge = ex_program_env, ce_l1_block_info = ex_program_env, ce_system_id = ex_system_id, ce_rent_id = replicate 32 6,
     ce_token_id = replicate 32 7, ce_associated_token_address = (\<lambda>k m. k)\<rparr>"

definition ex_l1_block :: block_info where
  "ex_l1_block = (ex_block 8)\<lparr>bi_hash := replicate 32 5\<rparr>"

theorem l1_info_reaches_account_witness:
  "\<exists>n ix st' info. instruction_of ex_client n = (Ok ix :: (instruction, unit) res)
     \<and> l1_process ex_program_env (ix_program_id ix) (ix_accounts ix) (ix_data ix)
         (\<lambda>k. \<lparr>ac_lamports = 1, ac_data = replicate INFO_LEN 0, ac_owner = ex_id, ac_executable = False, ac_rent_epoch = 0\<rparr>) = (Ok (), st')
     \<and> info_unpack (ac_data (st' (fst (l1_block_info_pubkey_and_bump ex_program_env ex_id)))) = Ok info \<and> li_number info = 8"
proof -
  obtain a where a: "attributes_try_from ex_l1_block 3 77 = Ok a" by (simp add: attributes_try_from_def)
  then obtain n where n: "attributes_instruction a = Ok n"
    by (auto simp: attributes_try_from_def attributes_instruction_def u128_try_from_def)
  have e: "pack_law ex_program_env" "ex_program_env = ce_l1_block_info ex_client" "length (bi_hash ex_l1_block) = 32" "bi_number ex_l1_block = 8"
    using ex_solana_laws by (simp_all add: solana_laws_def ex_client_def ex_l1_block_def ex_block_def)
  define st :: store where
    "st = (\<lambda>k. \<lparr>ac_lamports = 1, ac_data = replicate INFO_LEN 0, ac_owner = ex_id, ac_executable = False, ac_rent_epoch = 0\<rparr>)"
  have "length (ac_data (st k)) = INFO_LEN" for k by (simp add: st_def)
  from l1_info_reaches_account [where st = st and E = ex_program_env and C = ex_client and ?'e = unit, OF e(1-3) a n refl this]
  show ?thesis unfolding e(4) st_def ex_program_env_sel(1) by blast
qed

definition ex_eth_deposit :: user_deposited where
  "ex_eth_deposit = (ex_user_deposited (replicate 32 5) 0)\<lparr>ud_bridge_sender := replicate 20 1, ud_mint := 0,
     ud_deposit_type := ETH \<lparr>ed_from = replicate 20 1, ed_to = ex_user, ed_amount = 50, ed_extra_data = replicate 32 0\<rparr>\<rparr>"

theorem deposit_reaches_recipient_witness:
  "\<exists>(ix :: instruction) st' v. bridge_process ex_program_env (ix_program_id ix) (ix_accounts ix) (ix_data ix) ex_store = (Ok (), st')
     \<and> st' = moved ex_vault ex_user v ex_store \<and> unat v = 50"
proof -
  let ?data = "\<lparr>ed_from = replicate 20 1, ed_to = ex_user, ed_amount = 50, ed_extra_data = replicate 32 0\<rparr>"
  have d: "ud_deposit_type ex_eth_deposit = ETH ?data" "length (ud_bridge_sender ex_eth_deposit) = 20"
    "length (ud_l1_block_hash ex_eth_deposit) = 32" "length (ed_from ?data) = 20" "length (ed_to ?data) = 32"
    by (simp_all add: ex_eth_deposit_def ex_user_deposited_def ex_user_def)
  obtain n where n: "deposit_instruction ex_eth_deposit = Ok n"
    by (simp add: deposit_instruction_def d(1) u128_try_from_def) (simp add: ex_eth_deposit_def ex_user_deposited_def)
  obtain s where v: "vault_pubkey_and_bump ex_program_env ex_id = (ex_vault, s)" by (simp add: ex_vault_def prod_eq_iff)
  have c: "ce_bridge ex_client = ex_program_env" by (simp add: ex_client_def)
  obtain st' where r: "deposit_eth ex_program_env (pe_id ex_program_env) (eth_deposit_accounts ex_client ?data) 50 ex_user ex_store = (Ok (), st')"
    using ex_store_ready by (simp add: deposit_eth_def array_ref_def eth_deposit_accounts_def new_readonly_def new_writable_def c
        guard_def cmp_pubkeys_def v to_u64_def ex_invoke_def)
  obtain ix where ix: "instruction_of ex_client n = (Ok ix :: (instruction, unit) res)"
    "bridge_process ex_program_env (ix_program_id ix) (ix_accounts ix) (ix_data ix) ex_store = (Ok (), st')"
    using eth_deposit_runs [OF n d, of ex_client ex_store, where ?'e = unit] r by (auto simp: c)
  from deposit_reaches_recipient [OF ex_solana_laws c [symmetric] n d ix] have "\<exists>v. st' = moved ex_vault ex_user v ex_store \<and> unat v = 50"
    by (auto simp: v)
  with ix(2) show ?thesis by blast
qed

theorem stale_withdrawal_rejected_witness:
  "\<exists>ix :: instruction. fst (bridge_process ex_program_env (ix_program_id ix) (ix_accounts ix) (ix_data ix) ex_store)
     = Err (bridge InvalidWithdrawalTransactionAccount)"
proof -
  obtain ix where ix: "withdraw_eth_ix ex_client (replicate 20 8) ex_user 100 500000 5 = (Ok ix :: (instruction, unit) res)"
    by (simp add: withdraw_eth_ix_def Let_def unwrap_def)
  have e: "ex_program_env = ce_bridge ex_client" by (simp add: ex_client_def)
  have p: "pack_law ex_program_env" using ex_solana_laws by (simp add: solana_laws_def)
  have d: "fst (withdrawal_transaction_pubkey_and_bump ex_program_env ex_user 5 (pe_id ex_program_env))
      \<noteq> fst (withdrawal_transaction_pubkey_and_bump ex_program_env ex_user 4 (pe_id ex_program_env))"
    using ex_keys_distinct by (auto simp: ex_record_def)
  have "ac_data (ex_store (counter_key ex_program_env ex_user)) = counter_pack 4"
    using ex_store_ready(1) by (simp add: counter_key_def ex_counter_def)
  from stale_withdrawal_rejected [where st = ex_store and E = ex_program_env and C = ex_client and c' = 4, OF p e ix _ _ this _ d] show ?thesis by (auto simp: MINIMAL_GAS_LIMIT_def)
qed

end
