(* ===== verification/List_Walker.thy ===== *)
theory List_Walker
  imports Trie_Node
begin

text \<open>
  Reading a whole list out of a trie (\<^verbatim>\<open>proof/mpt/src/list_walker.rs\<close>) and the order of its keys
  (\<^verbatim>\<open>proof/mpt/src/util.rs\<close>): the receipts and transactions of an L1 block are the values of a trie
  keyed by the RLP encoding of their index, and the walker brings the leaves, which it meets in the
  order of their keys, back into the order of the list.
\<close>

section \<open>The walker\<close>

datatype ordered_list_walker_error = AlreadyHydrated | WalkerTrieNode trie_node_error

type_synonym leaves = "(nibbles \<times> bytes) list"

record ordered_list_walker =
  ow_root :: b256
  ow_inner :: "leaves option"

definition walker_new :: "b256 \<Rightarrow> ordered_list_walker" where
  "walker_new root = \<lparr>ow_root = root, ow_inner = None\<rparr>"

definition get_trie_node :: "trie_env \<Rightarrow> b256 \<Rightarrow> (trie_node, ordered_list_walker_error) res" where
  "get_trie_node E hash = map_err (\<lambda>e. WalkerTrieNode (ProviderError e)) (te_node E hash)"

text \<open>
  The loop over the children of a branch: a blinded child is fetched first, an empty one is
  skipped. \<open>leaves_of\<close> is the recursion on the child; \<open>None\<close> is its fuel running out.
\<close>

definition fetched :: "trie_env \<Rightarrow> (trie_node \<Rightarrow> (leaves, ordered_list_walker_error) res option) \<Rightarrow> trie_node
    \<Rightarrow> (leaves, ordered_list_walker_error) res option" where
  "fetched E leaves_of item =
     (case item of
        Blinded commitment \<Rightarrow>
          (case get_trie_node E commitment of Ok n \<Rightarrow> leaves_of n | Err e \<Rightarrow> Some (Err e) | Panic \<Rightarrow> Some Panic)
      | _ \<Rightarrow> leaves_of item)"

fun fetch_items :: "trie_env \<Rightarrow> (trie_node \<Rightarrow> (leaves, ordered_list_walker_error) res option) \<Rightarrow> leaves \<Rightarrow> trie_node list
    \<Rightarrow> (leaves, ordered_list_walker_error) res option" where
  "fetch_items E leaves_of leaf_values [] = Some (Ok leaf_values)"
| "fetch_items E leaves_of leaf_values (item # items) =
     (if item = Empty then fetch_items E leaves_of leaf_values items
      else
        case fetched E leaves_of item of
          None \<Rightarrow> None
        | Some (Ok ls) \<Rightarrow> fetch_items E leaves_of (leaf_values @ ls) items
        | Some (Err e) \<Rightarrow> Some (Err e)
        | Some Panic \<Rightarrow> Some Panic)"

primrec fetch_leaves :: "trie_env \<Rightarrow> nat \<Rightarrow> trie_node \<Rightarrow> (leaves, ordered_list_walker_error) res option" where
  "fetch_leaves E 0 = (\<lambda>t. None)"
| "fetch_leaves E (Suc fuel) = (\<lambda>t.
     case t of
       Branch stack \<Rightarrow> fetch_items E (fetch_leaves E fuel) [] stack
     | Leaf p v \<Rightarrow> Some (Ok [(p, v)])
     | Extension p n \<Rightarrow> fetched E (fetch_leaves E fuel) n
     | Empty \<Rightarrow> Some (Ok [])
     | Blinded _ \<Rightarrow> Some (Err (WalkerTrieNode InvalidNodeType)))"

text \<open>The first element of the list has the key \<open>0x80\<close> and comes after at most 127 others.\<close>

definition reorder :: "'a list \<Rightarrow> 'a list" where
  "reorder xs =
     (if xs = [] then []
      else if length xs \<le> unat EMPTY_STRING_CODE then last xs # butlast xs
      else let i = unat (EMPTY_STRING_CODE - 1) in xs ! i # take i xs @ drop (i + 1) xs)"

definition hydrate :: "trie_env \<Rightarrow> nat \<Rightarrow> ordered_list_walker
    \<Rightarrow> ((unit, ordered_list_walker_error) res \<times> ordered_list_walker) option" where
  "hydrate E fuel w =
     (if (case ow_inner w of Some xs \<Rightarrow> length xs > 0 | None \<Rightarrow> False) then Some (Err AlreadyHydrated, w)
      else
        case get_trie_node E (ow_root w) of
          Err e \<Rightarrow> Some (Err e, w)
        | Panic \<Rightarrow> Some (Panic, w)
        | Ok root_trie_node \<Rightarrow>
            (case fetch_leaves E fuel root_trie_node of
               None \<Rightarrow> None
             | Some (Err e) \<Rightarrow> Some (Err e, w)
             | Some Panic \<Rightarrow> Some (Panic, w)
             | Some (Ok ordered_list) \<Rightarrow> Some (Ok (), w\<lparr>ow_inner := Some (reorder ordered_list)\<rparr>)))"

definition try_new_hydrated :: "trie_env \<Rightarrow> nat \<Rightarrow> b256 \<Rightarrow> (ordered_list_walker, ordered_list_walker_error) res option" where
  "try_new_hydrated E fuel root =
     map_option (\<lambda>(r, w). rthen r (\<lambda>_. Ok w)) (hydrate E fuel \<lparr>ow_root = root, ow_inner = None\<rparr>)"

definition take_inner :: "ordered_list_walker \<Rightarrow> leaves option \<times> ordered_list_walker" where
  "take_inner w = (ow_inner w, w\<lparr>ow_inner := None\<rparr>)"

definition walker_next :: "ordered_list_walker \<Rightarrow> (nibbles \<times> bytes) option \<times> ordered_list_walker" where
  "walker_next w =
     (case ow_inner w of
        Some [] \<Rightarrow> (None, w\<lparr>ow_inner := None\<rparr>)
      | Some (x # xs) \<Rightarrow> (Some x, w\<lparr>ow_inner := (if xs = [] then None else Some xs)\<rparr>)
      | None \<Rightarrow> (None, w))"

text \<open>Draining the iterator, as \<open>into_iter().map(..).collect()\<close> does.\<close>

function walker_collect :: "ordered_list_walker \<Rightarrow> leaves" where
  "walker_collect w = (case walker_next w of (None, w') \<Rightarrow> [] | (Some x, w') \<Rightarrow> x # walker_collect w')"
  by auto
termination
  by (relation "measure (\<lambda>w. case ow_inner w of None \<Rightarrow> 0 | Some xs \<Rightarrow> length xs)")
     (auto simp: walker_next_def split: option.splits list.splits if_splits)

section \<open>The order of the keys\<close>

definition adjust_index_for_rlp :: "nat \<Rightarrow> nat \<Rightarrow> nat" where
  "adjust_index_for_rlp i len = (if i > 0x7f then i else if i = 0x7f \<or> i + 1 = len then 0 else i + 1)"

text \<open>
  The trie of a list: the hash builder of \<^verbatim>\<open>alloy_trie\<close> takes the leaves in the order of their
  keys. The encoding of an index (\<^verbatim>\<open>alloy_rlp\<close>) and the builder are parameters.
\<close>

definition unpack :: "bytes \<Rightarrow> nibbles" where
  "unpack bs = concat (map (\<lambda>b. [b div 16, b mod 16]) bs)"

definition ordered_trie_with_encoder :: "(nat \<Rightarrow> bytes) \<Rightarrow> (nibbles \<Rightarrow> bytes \<Rightarrow> 'h \<Rightarrow> 'h) \<Rightarrow> (nibbles list \<Rightarrow> 'h) \<Rightarrow> ('a \<Rightarrow> bytes) \<Rightarrow> 'a list \<Rightarrow> 'h" where
  "ordered_trie_with_encoder rlp_usize add_leaf with_proof_retainer enc items =
     (let items_len = length items;
          path_nibbles = map (\<lambda>i. unpack (rlp_usize (adjust_index_for_rlp i items_len))) [0..<items_len] in
      fold (\<lambda>i hb. let index = adjust_index_for_rlp i items_len in add_leaf (unpack (rlp_usize index)) (enc (items ! index)) hb)
        [0..<items_len] (with_proof_retainer path_nibbles))"

section \<open>Leaves in the order of their keys\<close>

lemma sorted_wrt_unique:
  assumes "\<And>x. \<not> P x x" and "\<And>x y z. P x y \<Longrightarrow> P y z \<Longrightarrow> P x z"
    and "sorted_wrt P xs" and "sorted_wrt P ys" and "set xs = set ys"
  shows "xs = ys"
  using assms(3-5)
proof (induction xs arbitrary: ys)
  case (Cons x xs)
  then obtain y ys' where ys: "ys = y # ys'" by (cases ys) auto
  have "x = y"
  proof (rule ccontr)
    assume "x \<noteq> y"
    with Cons.prems ys have "P x y" "P y x" by (auto simp: set_eq_iff)
    with assms(1,2) show False by blast
  qed
  have "x \<notin> set xs" "y \<notin> set ys'" using Cons.prems ys assms(1) by auto
  then have "set xs = set ys'" using Cons.prems(3) ys \<open>x = y\<close> by (simp add: insert_ident)
  with Cons.IH [of ys'] Cons.prems ys \<open>x = y\<close> show ?case by simp
qed simp

lemma sorted_keys_distinct: "sorted_wrt ord_class.lexordp (ks :: u8 list list) \<Longrightarrow> distinct ks"
  by (induction ks) (auto simp: lexordp_irreflexive')

lemma lexordp_prefixed [simp]: "ord_class.lexordp (p @ xs) (p @ ys) \<longleftrightarrow> ord_class.lexordp xs (ys :: u8 list)"
  by (induction p) auto

lemma lexordp_same_length:
  "\<lbrakk> ord_class.lexordp xs ys; length xs = length ys \<rbrakk> \<Longrightarrow> ord_class.lexordp (xs @ a) ((ys :: u8 list) @ b)"
  by (induction xs ys rule: List.list_induct2') auto

lemma fetched_trie: "trie E c m \<Longrightarrow> fetched E g c = g (reveal E c)"
  by (cases c) (auto simp: fetched_def get_trie_node_def reveal_known elim: trie_BlindedE)

lemma fetch_items_concat:
  assumes "\<And>item. item \<in> set stack \<Longrightarrow> item \<noteq> Empty \<Longrightarrow> fetched E g item = Some (Ok (h item))" and "h Empty = []"
  shows "fetch_items E g acc stack = Some (Ok (acc @ concat (map h stack)))"
  using assms by (induction stack arbitrary: acc) auto

definition lists_map :: "leaves \<Rightarrow> tmap \<Rightarrow> bool" where
  "lists_map ls m \<longleftrightarrow> (\<exists>ks. map snd ls = map (the \<circ> m) ks \<and> sorted_wrt ord_class.lexordp ks \<and> set ks = dom m)"

lemma lists_map_Nil [simp]: "lists_map [] Map.empty"
  by (simp add: lists_map_def)

lemma lists_map_under: "lists_map ls m \<Longrightarrow> lists_map ls (under_path p m)"
proof -
  assume "lists_map ls m"
  then obtain ks where "map snd ls = map (the \<circ> m) ks" "sorted_wrt ord_class.lexordp ks" "set ks = dom m" by (auto simp: lists_map_def)
  then have "map snd ls = map (the \<circ> under_path p m) (map ((@) p) ks)" "sorted_wrt ord_class.lexordp (map ((@) p) ks)"
    "set (map ((@) p) ks) = dom (under_path p m)"
    by (simp_all add: sorted_wrt_map dom_under)
  then show ?thesis unfolding lists_map_def by blast
qed

lemma sorted_children:
  assumes "\<And>i. i < 16 \<Longrightarrow> sorted_wrt ord_class.lexordp (ks i)" and "n \<le> 16"
  shows "sorted_wrt ord_class.lexordp (concat (map (\<lambda>i. map ((#) (of_nat i :: u8)) (ks i)) [0..<n]))"
  using assms(2)
proof (induction n)
  case (Suc n)
  then have "of_nat i < (of_nat n :: u8)" if "i < n" for i using that by (simp add: word_less_nat_alt)
  with Suc assms(1) [of n] show ?case by (auto simp: sorted_wrt_append sorted_wrt_map)
qed simp

lemma lists_map_branch:
  assumes "\<And>i. i < 16 \<Longrightarrow> lists_map (ls i) (ms i)"
  shows "lists_map (concat (map ls [0..<16])) (branch_map ms)"
proof -
  obtain ks where ks: "\<And>i. i < 16 \<Longrightarrow> map snd (ls i) = map (the \<circ> ms i) (ks i)" "\<And>i. i < 16 \<Longrightarrow> sorted_wrt ord_class.lexordp (ks i)"
    "\<And>i. i < 16 \<Longrightarrow> set (ks i) = dom (ms i)"
    using assms unfolding lists_map_def by metis
  let ?ks = "concat (map (\<lambda>i. map ((#) (of_nat i :: u8)) (ks i)) [0..<16])"
  have "map snd (ls i) = map (the \<circ> branch_map ms) (map ((#) (of_nat i)) (ks i))" if "i < 16" for i
    using ks(1) that by (simp add: child_key)
  then have "map snd (concat (map ls [0..<16])) = map (the \<circ> branch_map ms) ?ks"
    unfolding map_concat map_map by (intro arg_cong [where f = concat] map_cong) auto
  moreover have "set ?ks = dom (branch_map ms)"
  proof (intro set_eqI iffI)
    fix k
    assume "k \<in> set ?ks"
    then obtain i xs where "i < 16" "xs \<in> set (ks i)" "k = of_nat i # xs" by auto
    with ks(3) show "k \<in> dom (branch_map ms)" by (auto simp: child_key)
  next
    fix k
    assume "k \<in> dom (branch_map ms)"
    then obtain x xs where k: "k = x # xs" "unat x < 16" "xs \<in> dom (ms (unat x))" by (auto simp: dom_branch_map)
    with ks(3) have "unat x \<in> set [0..<16]" "xs \<in> set (ks (unat x))" "of_nat (unat x) = x" by auto
    with k(1) show "k \<in> set ?ks" by (auto intro!: image_eqI [where x = xs] bexI [where x = "unat x"])
  qed
  ultimately show ?thesis using sorted_children [of ks 16] ks(2) unfolding lists_map_def by blast
qed

lemma fetch_leaves_trie:
  assumes "trie E t m" and "\<And>k. k \<in> dom m \<Longrightarrow> length k < fuel" and "0 < fuel"
  shows "\<exists>ls. fetch_leaves E fuel (reveal E t) = Some (Ok ls) \<and> lists_map ls m"
  using assms
proof (induction arbitrary: fuel rule: trie.induct)
  case trie_Empty
  then show ?case by (cases fuel) auto
next
  case (trie_Leaf p v)
  have "lists_map [(p, v)] [p \<mapsto> v]" unfolding lists_map_def by (intro exI [of _ "[p]"]) simp
  with trie_Leaf.prems(2) show ?case by (cases fuel) (simp_all del: fun_upd_apply map_upd_eqD1 add: fun_upd_def)
next
  case (trie_Extension p c m)
  then obtain f where f: "fuel = Suc f" by (cases fuel) auto
  have "length k < f" if "k \<in> dom m" for k
    using trie_Extension.prems(1) [of "p @ k"] that trie_Extension.hyps(1) f by (cases p) (auto simp: dom_under)
  moreover from this branching_nonempty [OF trie_Extension.hyps(3)] have "0 < f" by force
  ultimately obtain ls where "fetch_leaves E f (reveal E c) = Some (Ok ls)" "lists_map ls m"
    using trie_Extension.IH by blast
  then show ?case using f lists_map_under fetched_trie [OF trie_Extension.hyps(2)] by auto
next
  case (trie_Branch stack ms)
  then obtain f where f: "fuel = Suc f" by (cases fuel) auto
  have d: "length k < f" if "i < 16" "k \<in> dom (ms i)" for i k
    using trie_Branch.prems(1) [of "of_nat i # k"] that f by (auto simp: child_key dom_def)
  have "\<exists>i k. i < 16 \<and> k \<in> dom (ms i)"
    using branching_nonempty [OF trie_Branch.hyps(4)] by (auto simp: dom_branch_map)
  with d have "0 < f" by force
  then have ex: "\<exists>ls. fetch_leaves E f (reveal E (stack ! i)) = Some (Ok ls) \<and> lists_map ls (ms i)" if "i < 16" for i
    using trie_Branch.IH [OF that d [OF that]] by blast
  define h where "h item = (case fetched E (fetch_leaves E f) item of Some (Ok ls) \<Rightarrow> ls | _ \<Rightarrow> [])" for item
  have h: "fetched E (fetch_leaves E f) (stack ! i) = Some (Ok (h (stack ! i)))" "lists_map (h (stack ! i)) (ms i)" if "i < 16" for i
    using ex [OF that] fetched_trie [OF trie_Branch.hyps(3) [OF that], of "fetch_leaves E f"] by (auto simp: h_def)
  have e: "h Empty = []" using \<open>0 < f\<close> by (cases f) (simp_all add: h_def fetched_def)
  have "fetched E (fetch_leaves E f) item = Some (Ok (h item))" if item: "item \<in> set stack" "item \<noteq> Empty" for item
  proof -
    obtain i where "i < 17" "item = stack ! i" using item(1) trie_Branch.hyps(1) by (auto simp: in_set_conv_nth BRANCH_LIST_LENGTH_def)
    with item(2) trie_Branch.hyps(2) have "i < 16" by (cases "i = 16") auto
    with h(1) \<open>item = stack ! i\<close> show ?thesis by simp
  qed
  from fetch_items_concat [where g = "fetch_leaves E f" and h = h, OF this e]
  have "fetch_leaves E fuel (Branch stack) = Some (Ok (concat (map h stack)))" using f by simp
  moreover have "stack = map ((!) stack) [0..<16] @ [Empty]"
  proof (rule nth_equalityI)
    show "stack ! i = (map ((!) stack) [0..<16] @ [Empty]) ! i" if "i < length stack" for i
      using trie_Branch.hyps(1,2) that by (cases "i = 16") (auto simp: BRANCH_LIST_LENGTH_def nth_append)
  qed (use trie_Branch.hyps(1) in \<open>simp add: BRANCH_LIST_LENGTH_def\<close>)
  then have "concat (map h stack) = concat (map (\<lambda>i. h (stack ! i)) [0..<16])"
    by (rule ssubst) (simp add: e comp_def)
  ultimately show ?case using lists_map_branch [of "\<lambda>i. h (stack ! i)" ms] h(2) by auto
next
  case (trie_Blinded h n m)
  then show ?case by (simp add: reveal_known)
qed

section \<open>Keys of a list\<close>

text \<open>The encoding of an index in RLP: a byte, or the big-endian bytes after their number.\<close>

fun be_len :: "nat \<Rightarrow> nat" where
  "be_len i = (if i = 0 then 0 else Suc (be_len (i div 256)))"

declare be_len.simps [simp del]

definition rlp_index_law :: "(nat \<Rightarrow> bytes) \<Rightarrow> bool" where
  "rlp_index_law rlp_usize \<longleftrightarrow>
     (\<forall>i < 2 ^ 64. rlp_usize i =
        (if i = 0 then [EMPTY_STRING_CODE] else if i < 128 then [of_nat i]
         else of_nat (128 + be_len i) # be_of_nat (be_len i) i))"

lemma be_len_mono: "i \<le> j \<Longrightarrow> be_len i \<le> be_len j"
proof (induction i arbitrary: j rule: be_len.induct)
  case (1 i)
  show ?case
  proof (cases "i = 0")
    case False
    with 1(2) have "be_len (i div 256) \<le> be_len (j div 256)" by (intro 1(1)) (auto intro: div_le_mono)
    with False 1(2) show ?thesis by (simp add: be_len.simps [of i] be_len.simps [of j])
  qed (simp add: be_len.simps)
qed

lemma be_len_bound: "i < 256 ^ be_len i"
proof (induction i rule: be_len.induct)
  case (1 i)
  show ?case
  proof (cases "i = 0")
    case False
    with 1 have "i div 256 < 256 ^ be_len (i div 256)" by simp
    then have "i < 256 ^ be_len (i div 256) * 256" by (simp add: div_less_iff_less_mult)
    with False show ?thesis by (simp add: be_len.simps [of i] mult.commute)
  qed (simp add: be_len.simps)
qed

lemma be_len_le: "i < 256 ^ n \<Longrightarrow> be_len i \<le> n"
proof (induction n arbitrary: i)
  case (Suc n)
  then have "i div 256 < 256 ^ n" by (simp add: div_less_iff_less_mult mult.commute)
  from Suc.IH [OF this] show ?case by (simp add: be_len.simps [of i])
qed (simp add: be_len.simps)

lemma be_of_nat_less:
  "\<lbrakk> i < j; j < 256 ^ n \<rbrakk> \<Longrightarrow> ord_class.lexordp (be_of_nat n i) (be_of_nat n j)"
proof (induction n arbitrary: i j)
  case (Suc n)
  have j: "j div 256 < 256 ^ n" using Suc.prems(2) by (simp add: div_less_iff_less_mult mult.commute)
  have eq: "ord_class.lexordp (xs @ a) (xs @ b) \<longleftrightarrow> ord_class.lexordp a b" for xs a b :: bytes by simp
  show ?case
  proof (cases "i div 256 = j div 256")
    case True
    then have "i mod 256 < j mod 256" using Suc.prems(1) by (metis div_mult_mod_eq add_less_cancel_left)
    then have "(of_nat i :: u8) < of_nat j" by (simp add: word_less_nat_alt unat_of_nat)
    with True show ?thesis by simp
  next
    case False
    then have "i div 256 < j div 256" using Suc.prems(1) div_le_mono [of i j 256] by simp
    from Suc.IH [OF this j] show ?thesis by (simp add: lexordp_same_length)
  qed
qed simp

lemma rlp_index_less:
  assumes "rlp_index_law rlp" and "j < 2 ^ 64"
  shows "\<lbrakk> 0 < i; i < j \<rbrakk> \<Longrightarrow> ord_class.lexordp (rlp i) (rlp j)"
    and "\<lbrakk> 0 < j; j < 128 \<rbrakk> \<Longrightarrow> ord_class.lexordp (rlp j) (rlp 0)"
    and "128 \<le> j \<Longrightarrow> ord_class.lexordp (rlp 0) (rlp j)"
proof -
  have r: "rlp i = (if i = 0 then [EMPTY_STRING_CODE] else if i < 128 then [of_nat i]
      else of_nat (128 + be_len i) # be_of_nat (be_len i) i)" if "i < 2 ^ 64" for i
    using assms(1) that by (auto simp: rlp_index_law_def)
  have l: "be_len i \<le> 8" if "i < 2 ^ 64" for i using that by (intro be_len_le) simp
  have u: "unat (of_nat n :: u8) = n" if "n < 256" for n using that by (simp add: unat_of_nat)
  show "ord_class.lexordp (rlp j) (rlp 0)" if "0 < j" "j < 128"
    using that assms(2) r by (simp add: EMPTY_STRING_CODE_def word_less_nat_alt u)
  show "ord_class.lexordp (rlp 0) (rlp j)" if "128 \<le> j"
  proof -
    have "0 < be_len j" using that by (simp add: be_len.simps [of j])
    then show ?thesis using that assms(2) r [of 0] r [of j] l [of j] by (simp add: EMPTY_STRING_CODE_def word_less_nat_alt u del: of_nat_add)
  qed
  show "ord_class.lexordp (rlp i) (rlp j)" if "0 < i" "i < j"
  proof -
    have ij: "i < 2 ^ 64" "be_len i \<le> be_len j" "be_len j \<le> 8" using that assms(2) l be_len_mono by auto
    consider "j < 128" | "i < 128" "128 \<le> j" | "128 \<le> i" "be_len i < be_len j" | "128 \<le> i" "be_len i = be_len j"
      using ij that by linarith
    then show ?thesis
    proof cases
      case 4
      from be_of_nat_less [OF that(2) be_len_bound] 4 that ij r assms(2) show ?thesis by simp
    qed (use that ij assms(2) r in \<open>auto simp: word_less_nat_alt u simp del: of_nat_add\<close>)
  qed
qed

lemma lexordp_unpack: "ord_class.lexordp xs ys \<Longrightarrow> ord_class.lexordp (unpack xs) (unpack ys)"
proof (induction xs ys rule: ord_class.lexordp.induct)
  case (Nil y ys)
  then show ?case by (simp add: unpack_def)
next
  case (Cons x y xs ys)
  have "unat x < unat y" using Cons by (simp add: word_less_nat_alt)
  then have "unat x div 16 < unat y div 16 \<or> unat x div 16 = unat y div 16 \<and> unat x mod 16 < unat y mod 16"
    by (metis add_less_cancel_left div_le_mono div_mult_mod_eq le_neq_implies_less less_imp_le)
  then have "x div 16 < y div 16 \<or> x div 16 = y div 16 \<and> x mod 16 < y mod 16"
    by (simp add: word_less_nat_alt unat_div unat_mod word_unat_eq_iff)
  then show ?case by (auto simp: unpack_def)
next
  case (Cons_eq x y xs ys)
  then show ?case by (auto simp: unpack_def)
qed

text \<open>The key of an element, and the trie of a list as a map.\<close>

definition list_key :: "(nat \<Rightarrow> bytes) \<Rightarrow> nat \<Rightarrow> nibbles" where
  "list_key rlp_usize i = unpack (rlp_usize i)"

definition list_map :: "(nat \<Rightarrow> bytes) \<Rightarrow> bytes list \<Rightarrow> tmap" where
  "list_map rlp_usize values = map_of (map (\<lambda>i. (list_key rlp_usize i, values ! i)) [0..<length values])"

lemma adjusted_keys_sorted:
  assumes "rlp_index_law rlp" and "n \<le> 2 ^ 64"
  shows "sorted_wrt ord_class.lexordp (map (\<lambda>i. list_key rlp (adjust_index_for_rlp i n)) [0..<n])"
proof -
  have "ord_class.lexordp (rlp (adjust_index_for_rlp i n)) (rlp (adjust_index_for_rlp j n))" if ij: "i < j" "j < n" for i j
  proof (cases "j > 0x7f")
    case True
    then have j: "adjust_index_for_rlp j n = j" by (simp add: adjust_index_for_rlp_def)
    show ?thesis
    proof (cases "i = 0x7f")
      case True
      then show ?thesis using rlp_index_less(3) [OF assms(1), of j] \<open>j > 0x7f\<close> ij assms(2) j by (simp add: adjust_index_for_rlp_def)
    next
      case False
      then have "0 < adjust_index_for_rlp i n \<and> adjust_index_for_rlp i n < j" using \<open>j > 0x7f\<close> ij by (auto simp: adjust_index_for_rlp_def)
      then show ?thesis using rlp_index_less(1) [OF assms(1), of j] ij assms(2) j by simp
    qed
  next
    case False
    then have i: "adjust_index_for_rlp i n = i + 1" using ij by (simp add: adjust_index_for_rlp_def)
    show ?thesis
    proof (cases "j = 0x7f \<or> j + 1 = n")
      case True
      then show ?thesis using rlp_index_less(2) [OF assms(1), of "i + 1"] False ij i by (auto simp: adjust_index_for_rlp_def)
    next
      case nz: False
      then show ?thesis using rlp_index_less(1) [OF assms(1), of "j + 1" "i + 1"] False ij i assms(2) by (simp add: adjust_index_for_rlp_def)
    qed
  qed
  then show ?thesis unfolding list_key_def by (auto simp: sorted_wrt_map sorted_wrt_upt intro!: lexordp_unpack sorted_wrt_mono_rel [OF _ sorted_wrt_upt])
qed

lemma adjusted_indices:
  "map (\<lambda>i. adjust_index_for_rlp i n) [0..<n] =
     (if n = 0 then [] else if n \<le> 128 then [1..<n] @ [0] else [1..<128] @ 0 # [128..<n])"
  by (rule nth_equalityI) (auto simp: adjust_index_for_rlp_def nth_append nth_Cons split: nat.split)

lemma adjusted_set: "set (map (\<lambda>i. adjust_index_for_rlp i n) [0..<n]) = {..<n}"
  unfolding adjusted_indices by auto

lemma reorder_map: "reorder (map f xs) = map f (reorder xs)"
  by (auto simp: reorder_def Let_def last_map map_butlast take_map drop_map EMPTY_STRING_CODE_def)

lemma reorder_adjusted: "reorder (map (\<lambda>i. adjust_index_for_rlp i n) [0..<n]) = [0..<n]"
proof (cases "n \<le> 128")
  case True
  then show ?thesis
    unfolding adjusted_indices by (auto simp: reorder_def EMPTY_STRING_CODE_def upt_conv_Cons)
next
  case False
  have "[0..<n] = 0 # [1..<128] @ [128..<n]"
    using False upt_add_eq_append [of 1 128 "n - 128"] by (simp add: upt_conv_Cons del: upt_Suc)
  with False show ?thesis
    unfolding adjusted_indices by (simp add: reorder_def EMPTY_STRING_CODE_def Let_def nth_append)
qed

lemma walker_collect_inner: "walker_collect w = (case ow_inner w of None \<Rightarrow> [] | Some xs \<Rightarrow> xs)"
proof (induction w rule: walker_collect.induct)
  case (1 w)
  show ?case
  proof (cases "ow_inner w")
    case (Some xs)
    with 1 show ?thesis by (cases xs) (auto simp: walker_next_def walker_collect.simps [of w])
  qed (simp add: walker_next_def walker_collect.simps [of w])
qed

declare walker_collect.simps [simp del]

lemma list_key_inj: "rlp_index_law rlp \<Longrightarrow> n \<le> 2 ^ 64 \<Longrightarrow> inj_on (list_key rlp) {..<n}"
proof -
  assume "rlp_index_law rlp" "n \<le> 2 ^ 64"
  from adjusted_keys_sorted [OF this] have "distinct (map (list_key rlp) (map (\<lambda>i. adjust_index_for_rlp i n) [0..<n]))"
    by (simp add: comp_def sorted_keys_distinct)
  then have "inj_on (list_key rlp) (set (map (\<lambda>i. adjust_index_for_rlp i n) [0..<n]))" by (simp only: distinct_map)
  then show ?thesis by (simp only: adjusted_set)
qed

lemma list_map_key:
  assumes "rlp_index_law rlp" and "length values \<le> 2 ^ 64"
  shows "i < length values \<Longrightarrow> list_map rlp values (list_key rlp i) = Some (values ! i)"
    and "dom (list_map rlp values) = list_key rlp ` {..<length values}"
proof -
  show "dom (list_map rlp values) = list_key rlp ` {..<length values}"
    by (auto simp: list_map_def dom_map_of_conv_image_fst image_image)
  have "distinct (map (list_key rlp) [0..<length values])"
    using list_key_inj [OF assms] by (simp add: distinct_map atLeast0LessThan)
  then show "list_map rlp values (list_key rlp i) = Some (values ! i)" if "i < length values"
    using that by (auto simp: list_map_def comp_def intro!: map_of_is_SomeI)
qed

lemma list_key_length: "rlp_index_law rlp \<Longrightarrow> i < 2 ^ 64 \<Longrightarrow> length (list_key rlp i) \<le> 18"
proof -
  assume a: "rlp_index_law rlp" "i < 2 ^ 64"
  have u: "length (unpack bs) = 2 * length bs" for bs by (induction bs) (simp_all add: unpack_def)
  have "be_len i \<le> 8" using a(2) by (intro be_len_le) simp
  with a show ?thesis by (auto simp: list_key_def u rlp_index_law_def)
qed

lemma lists_map_list:
  assumes "rlp_index_law rlp" and "length values \<le> 2 ^ 64" and "lists_map ls (list_map rlp values)"
  shows "map snd (reorder ls) = values"
proof -
  let ?n = "length values"
  let ?is = "map (\<lambda>i. adjust_index_for_rlp i ?n) [0..<?n]"
  obtain ks where ks: "map snd ls = map (the \<circ> list_map rlp values) ks" "sorted_wrt ord_class.lexordp ks" "set ks = dom (list_map rlp values)"
    using assms(3) by (auto simp: lists_map_def)
  have "sorted_wrt ord_class.lexordp (map (list_key rlp) ?is)"
    using adjusted_keys_sorted [OF assms(1,2)] by (simp add: comp_def)
  moreover have "set (map (list_key rlp) ?is) = set ks"
    unfolding ks(3) list_map_key(2) [OF assms(1,2)] set_map [of "list_key rlp"] adjusted_set ..
  ultimately have "ks = map (list_key rlp) ?is"
    using ks(2) by (intro sorted_wrt_unique [of ord_class.lexordp]) (auto simp: lexordp_irreflexive' intro: lexordp_trans)
  then have "map snd ls = map (the \<circ> list_map rlp values \<circ> list_key rlp) ?is" using ks(1) by simp
  also have "\<dots> = map ((!) values) ?is"
    using list_map_key(1) [OF assms(1,2)] adjusted_set [of ?n] by (intro map_cong) auto
  finally have "map snd (reorder ls) = map ((!) values) (reorder ?is)" by (simp only: reorder_map [symmetric])
  then show ?thesis by (simp only: reorder_adjusted map_nth)
qed

lemma walker_list:
  assumes "rlp_index_law rlp" and "length values \<le> 2 ^ 64" and "te_node E root = Ok t" and "\<not> blinded t"
    and "trie E t (list_map rlp values)" and "19 \<le> fuel"
  shows "\<exists>w. try_new_hydrated E fuel root = Some (Ok w) \<and> map snd (walker_collect w) = values"
proof -
  have "length k < fuel" if k: "k \<in> dom (list_map rlp values)" for k
  proof -
    obtain i where "i < length values" "k = list_key rlp i" using k unfolding list_map_key(2) [OF assms(1,2)] by blast
    with list_key_length [OF assms(1), of i] assms(2,6) show ?thesis by simp
  qed
  with fetch_leaves_trie [OF assms(5), of fuel] assms(4,6)
  obtain ls where "fetch_leaves E fuel t = Some (Ok ls)" "lists_map ls (list_map rlp values)" by auto
  with lists_map_list [OF assms(1,2)] assms(3) show ?thesis
    by (simp add: try_new_hydrated_def hydrate_def get_trie_node_def walker_collect_inner)
qed

section \<open>Properties\<close>

text \<open>
  The walker returns a list that is stored in a trie under the encodings of its indices, in its
  order and complete, whatever part of the trie is blinded.
\<close>

theorem walker_reads_list:
  assumes "rlp_index_law rlp" and "length values \<le> 2 ^ 64" and "te_node E root = Ok t" and "\<not> blinded t"
    and "trie E t (list_map rlp values)" and "19 \<le> fuel"
  shows "\<exists>w. try_new_hydrated E fuel root = Some (Ok w) \<and> map snd (walker_collect w) = values"
  by (rule walker_list [OF assms])

text \<open>
  The trie of a list is built from its leaves in the strict order of their keys, as the hash
  builder requires, and every element is added once.
\<close>

theorem ordered_trie_keys:
  assumes "rlp_index_law rlp" and "length items \<le> 2 ^ 64"
  shows "\<exists>leaves. ordered_trie_with_encoder rlp (\<lambda>k v hb. hb @ [(k, v)]) (\<lambda>_. []) enc items = leaves
     \<and> sorted_wrt ord_class.lexordp (map fst leaves) \<and> map_of leaves = list_map rlp (map enc items) \<and> length leaves = length items"
proof -
  let ?n = "length items"
  let ?is = "map (\<lambda>i. adjust_index_for_rlp i ?n) [0..<?n]"
  let ?leaf = "\<lambda>i. (list_key rlp i, enc (items ! i))"
  have f: "fold (\<lambda>i hb. hb @ [g i]) xs acc = acc @ map g xs" for g :: "nat \<Rightarrow> nibbles \<times> bytes" and xs acc
    by (induction xs arbitrary: acc) auto
  have o: "ordered_trie_with_encoder rlp (\<lambda>k v hb. hb @ [(k, v)]) (\<lambda>_. []) enc items = map ?leaf ?is"
    by (simp add: ordered_trie_with_encoder_def f list_key_def Let_def comp_def)
  have s: "sorted_wrt ord_class.lexordp (map fst (map ?leaf ?is))"
    using adjusted_keys_sorted [OF assms] by (simp add: comp_def)
  then have "distinct (map fst (map ?leaf ?is))"
    by (rule sorted_keys_distinct)
  moreover have "set (map ?leaf ?is) = set (map ?leaf [0..<?n])"
    unfolding set_map [of ?leaf] adjusted_set by (simp add: atLeast0LessThan)
  moreover have "distinct (map fst (map ?leaf [0..<?n]))"
    using list_key_inj [OF assms] by (simp add: distinct_map atLeast0LessThan comp_def inj_on_def)
  ultimately have "map_of (map ?leaf ?is) = map_of (map ?leaf [0..<?n])" by (intro map_of_inject_set [THEN iffD2])
  moreover have "map_of (map ?leaf [0..<?n]) = list_map rlp (map enc items)"
    unfolding list_map_def by (intro arg_cong [where f = map_of]) simp
  ultimately show ?thesis using o s by auto
qed

subsection \<open>Examples\<close>

text \<open>A trie of the list \<open>[[7], [8]]\<close>: the second element at \<open>0x01\<close>, the first at \<open>0x80\<close>.\<close>

definition ex_rlp_usize :: "nat \<Rightarrow> bytes" where
  "ex_rlp_usize i =
     (if i = 0 then [EMPTY_STRING_CODE] else if i < 128 then [of_nat i]
      else of_nat (128 + be_len i) # be_of_nat (be_len i) i)"

definition ex_list_trie :: trie_node where
  "ex_list_trie = Branch ((replicate 17 Empty)[8 := Leaf [0] [7], 0 := Leaf [1] [8]])"

definition ex_list_env :: trie_env where
  "ex_list_env = ex_pure_env\<lparr>te_node := (\<lambda>h. if h = [1] then Ok ex_list_trie else Err ''missing'')\<rparr>"

lemma ex_rlp_index_law: "rlp_index_law ex_rlp_usize"
  by (simp add: rlp_index_law_def ex_rlp_usize_def)

lemma ex_list_map: "list_map ex_rlp_usize [[7], [8]] = [[8, 0] \<mapsto> [7], [0, 1] \<mapsto> [8]]"
  by (simp add: list_map_def list_key_def ex_rlp_usize_def unpack_def EMPTY_STRING_CODE_def fun_upd_twist upt_rec)

lemma ex_list_trie_map: "trie ex_list_env ex_list_trie (list_map ex_rlp_usize [[7], [8]])"
  using trie_two [OF _ _ _ trie_Leaf [of ex_list_env "[1]" "[8]"] trie_Leaf [of ex_list_env "[0]" "[7]"], of 0 8]
  by (simp add: ex_list_map ex_list_trie_def under_path_single BRANCH_LIST_LENGTH_def)

theorem walker_reads_list_witness:
  "\<exists>w. try_new_hydrated ex_list_env 19 [1] = Some (Ok w) \<and> map snd (walker_collect w) = [[7], [8]]"
  by (rule walker_reads_list [OF ex_rlp_index_law _ _ _ ex_list_trie_map])
     (simp_all add: ex_list_env_def, simp add: ex_list_trie_def)

theorem ordered_trie_keys_witness:
  "sorted_wrt ord_class.lexordp
     (map fst (ordered_trie_with_encoder ex_rlp_usize (\<lambda>k v hb. hb @ [(k, v)]) (\<lambda>_. []) (\<lambda>v. v) [[7], [8], [9 :: u8]]))"
  using ordered_trie_keys [OF ex_rlp_index_law, of "[[7], [8], [9]]" "\<lambda>v. v"] by auto

end
