(* ===== verification/Trie_Codec.thy ===== *)
theory Trie_Codec
  imports Trie_Node
begin

text \<open>
  The decoder of trie nodes (\<open>Decodable for TrieNode\<close> in \<^verbatim>\<open>proof/mpt/src/node.rs\<close>, with
  \<open>rlp_list_element_length\<close> and \<open>unpack_path_to_nibbles\<close> of \<^verbatim>\<open>proof/mpt/src/util.rs\<close>), and that
  it reads back what the encoder writes, up to children that are blinded. A node may nest other
  nodes, so the decoder takes fuel for the depth; its loops run at most once per byte.
\<close>

section \<open>Decoding\<close>

text \<open>
  What \<^verbatim>\<open>alloy_rlp\<close> decodes: a header as its list flag, the length of its payload and the rest of the
  input; byte strings and hashes; and the length of a header.
\<close>

record rlp_decoder =
  rd_header :: "bytes \<Rightarrow> (bool \<times> nat \<times> bytes, string) res"
  rd_bytes :: "bytes \<Rightarrow> (bytes \<times> bytes, string) res"
  rd_b256 :: "bytes \<Rightarrow> (b256 \<times> bytes, string) res"
  rd_header_length :: "bool \<Rightarrow> nat \<Rightarrow> nat"

definition LEAF_OR_EXTENSION_LIST_LENGTH :: nat where "LEAF_OR_EXTENSION_LIST_LENGTH = 2"

definition unpack_nibbles :: "bytes \<Rightarrow> nibbles" where
  "unpack_nibbles bs = concat (map (\<lambda>b. [drop_bit 4 b, b AND 0x0F]) bs)"

definition unpack_path_to_nibbles :: "u8 option \<Rightarrow> bytes \<Rightarrow> nibbles" where
  "unpack_path_to_nibbles first rest = (case first of Some x \<Rightarrow> [x] | None \<Rightarrow> []) @ unpack_nibbles rest"

text \<open>\<open>buf.advance(n)\<close> panics past the end.\<close>

definition buf_advance :: "nat \<Rightarrow> bytes \<Rightarrow> (bytes, 'e) res" where
  "buf_advance n buf = (if n \<le> length buf then Ok (drop n buf) else Panic)"

primrec count_elements :: "rlp_decoder \<Rightarrow> nat \<Rightarrow> nat \<Rightarrow> bytes \<Rightarrow> nat \<Rightarrow> (nat, string) res option" where
  "count_elements D 0 len_after_consume buf n = None"
| "count_elements D (Suc fuel) len_after_consume buf n =
     (if length buf > len_after_consume then
        case rthen (rd_header D buf) (\<lambda>(_, payload_len, buf). buf_advance payload_len buf) of
          Ok buf \<Rightarrow> count_elements D fuel len_after_consume buf (n + 1)
        | Err e \<Rightarrow> Some (Err e)
        | Panic \<Rightarrow> Some Panic
      else Some (Ok n))"

definition rlp_list_element_length :: "rlp_decoder \<Rightarrow> bytes \<Rightarrow> (nat, string) res option" where
  "rlp_list_element_length D buf =
     (case rd_header D buf of
        Ok (is_list, payload_len, buf) \<Rightarrow>
          if \<not> is_list then Some (Err ''UnexpectedString'')
          else count_elements D (Suc (length buf)) (length buf - payload_len) buf 0
      | Err e \<Rightarrow> Some (Err e)
      | Panic \<Rightarrow> Some Panic)"

text \<open>\<open>Vec::decode\<close>: elements until the payload is used up.\<close>

primrec decode_items :: "(bytes \<Rightarrow> (trie_node \<times> bytes, string) res option) \<Rightarrow> nat \<Rightarrow> bytes \<Rightarrow> (trie_node list, string) res option" where
  "decode_items decode 0 payload = None"
| "decode_items decode (Suc fuel) payload =
     (if payload = [] then Some (Ok [])
      else
        case decode payload of
          None \<Rightarrow> None
        | Some (Ok (t, payload)) \<Rightarrow> map_option (\<lambda>r. rthen r (\<lambda>ts. Ok (t # ts))) (decode_items decode fuel payload)
        | Some (Err e) \<Rightarrow> Some (Err e)
        | Some Panic \<Rightarrow> Some Panic)"

definition decode_vec :: "rlp_decoder \<Rightarrow> (bytes \<Rightarrow> (trie_node \<times> bytes, string) res option) \<Rightarrow> bytes
    \<Rightarrow> (trie_node list \<times> bytes, string) res option" where
  "decode_vec D decode buf =
     (case rd_header D buf of
        Ok (is_list, payload_len, buf) \<Rightarrow>
          if \<not> is_list then Some (Err ''UnexpectedString'')
          else map_option (\<lambda>r. rthen r (\<lambda>ts. Ok (ts, drop payload_len buf)))
                 (decode_items decode (Suc payload_len) (take payload_len buf))
      | Err e \<Rightarrow> Some (Err e)
      | Panic \<Rightarrow> Some Panic)"

text \<open>
  The first nibble of the path tells leaf from extension and odd from even paths. An empty path
  is an index out of range.
\<close>

definition try_decode_leaf_or_extension_payload ::
  "rlp_decoder \<Rightarrow> (bytes \<Rightarrow> (trie_node \<times> bytes, string) res option) \<Rightarrow> bytes \<Rightarrow> (trie_node \<times> bytes, trie_node_error) res option" where
  "try_decode_leaf_or_extension_payload D decode buf =
     (case rd_bytes D buf of
        Err e \<Rightarrow> Some (Err (RLPError e))
      | Panic \<Rightarrow> Some Panic
      | Ok (path, buf) \<Rightarrow>
          (case path of
             [] \<Rightarrow> Some Panic
           | b # rest \<Rightarrow>
               let first_nibble = drop_bit 4 b in
               if first_nibble = 1 \<or> first_nibble = 3 \<or> first_nibble = 0 \<or> first_nibble = 2 then
                 let first = (if first_nibble = 1 \<or> first_nibble = 3 then Some (b AND 0x0F) else None);
                     prefix = unpack_path_to_nibbles first rest in
                 if first_nibble = 0 \<or> first_nibble = 1
                 then map_option (\<lambda>r. rthen (map_err RLPError r) (\<lambda>(node, buf). Ok (Extension prefix node, buf))) (decode buf)
                 else Some (rthen (map_err RLPError (rd_bytes D buf)) (\<lambda>(v, buf). Ok (Leaf prefix v, buf)))
               else Some (Err InvalidNodeType)))"

primrec node_decode :: "rlp_decoder \<Rightarrow> nat \<Rightarrow> bytes \<Rightarrow> (trie_node \<times> bytes, string) res option" where
  "node_decode D 0 = (\<lambda>buf. None)"
| "node_decode D (Suc fuel) = (\<lambda>buf.
     case rd_header D buf of
       Err e \<Rightarrow> Some (Err e)
     | Panic \<Rightarrow> Some Panic
     | Ok (is_list, payload_len, _) \<Rightarrow>
         if is_list then
           (case rlp_list_element_length D buf of
              None \<Rightarrow> None
            | Some (Err e) \<Rightarrow> Some (Err e)
            | Some Panic \<Rightarrow> Some Panic
            | Some (Ok list_length) \<Rightarrow>
                if list_length = BRANCH_LIST_LENGTH then
                  map_option (\<lambda>r. rthen r (\<lambda>(stack, buf). Ok (Branch stack, buf))) (decode_vec D (node_decode D fuel) buf)
                else if list_length = LEAF_OR_EXTENSION_LIST_LENGTH then
                  (case buf_advance (rd_header_length D is_list payload_len) buf of
                     Ok buf \<Rightarrow>
                       map_option (map_err (\<lambda>_. ''UnexpectedList'')) (try_decode_leaf_or_extension_payload D (node_decode D fuel) buf)
                   | Err e \<Rightarrow> Some (Err e)
                   | Panic \<Rightarrow> Some Panic)
                else Some (Err ''UnexpectedLength''))
         else if payload_len = 0 then
           Some (rthen (buf_advance (rd_header_length D is_list payload_len) buf) (\<lambda>buf. Ok (Empty, buf)))
         else if payload_len = 32 then Some (rthen (rd_b256 D buf) (\<lambda>(commitment, buf). Ok (Blinded commitment, buf)))
         else Some (Err ''UnexpectedLength''))"

section \<open>Reading what was written\<close>

text \<open>
  The compact encoding of paths and the laws of the codec: a header, a string and a hash are read
  back, with what follows left over; lengths are those of a 64-bit machine.
\<close>

fun pack_nibbles :: "nibbles \<Rightarrow> bytes" where
  "pack_nibbles (x # y # ns) = (push_bit 4 x OR y) # pack_nibbles ns"
| "pack_nibbles _ = []"

definition hex_prefix :: "nibbles \<Rightarrow> bool \<Rightarrow> bytes" where
  "hex_prefix p leaf =
     (let flag = (if leaf then 2 else 0) in
      if even (length p) then push_bit 4 flag # pack_nibbles p
      else (push_bit 4 (flag + 1) OR hd p) # pack_nibbles (tl p))"

definition codec_laws :: "trie_env \<Rightarrow> rlp_decoder \<Rightarrow> bool" where
  "codec_laws E D \<longleftrightarrow>
     (\<forall>n rest. n \<le> length rest \<and> n < 2 ^ 64 \<longrightarrow> rd_header D (te_header E n @ rest) = Ok (True, n, rest))
   \<and> (\<forall>b rest. length b < 2 ^ 64 \<longrightarrow> rd_header D (te_bytes E b @ rest) = Ok (False, length b, b @ rest) \<and> rd_bytes D (te_bytes E b @ rest) = Ok (b, rest))
   \<and> (\<forall>h rest. length h = 32 \<longrightarrow> te_b256 E h = te_bytes E h \<and> rd_b256 D (te_bytes E h @ rest) = Ok (h, rest))
   \<and> te_bytes E [] = [EMPTY_STRING_CODE] \<and> (\<forall>b. length (te_keccak256 E b) = 32) \<and> length (te_empty_root E) = 32
   \<and> (\<forall>l n. rd_header_length D l n = te_header_length E n) \<and> te_header_length E 0 = 1
   \<and> (\<forall>p leaf. nibbled p \<longrightarrow> te_path E p leaf = hex_prefix p leaf)"

lemma codec_lawsD:
  assumes "codec_laws E D"
  shows codec_header: "\<lbrakk> n \<le> length rest; n < 2 ^ 64 \<rbrakk> \<Longrightarrow> rd_header D (te_header E n @ rest) = Ok (True, n, rest)"
    and codec_string: "length b < 2 ^ 64 \<Longrightarrow> rd_header D (te_bytes E b @ rest) = Ok (False, length b, b @ rest)"
    and codec_bytes: "length b < 2 ^ 64 \<Longrightarrow> rd_bytes D (te_bytes E b @ rest) = Ok (b, rest)"
    and codec_hash: "length h = 32 \<Longrightarrow> te_b256 E h = te_bytes E h" "length h = 32 \<Longrightarrow> rd_b256 D (te_bytes E h @ rest) = Ok (h, rest)"
    and codec_empty: "te_bytes E [] = [EMPTY_STRING_CODE]"
    and codec_path: "nibbled p \<Longrightarrow> te_path E p leaf = hex_prefix p leaf"
    and codec_header_length: "rd_header_length D l n = te_header_length E n" "te_header_length E 0 = 1"
  using assms unfolding codec_laws_def by simp_all

text \<open>Nodes with the lengths of the source's types, and what decoding leaves of a child.\<close>

fun wf_node :: "trie_node \<Rightarrow> bool" where
  "wf_node Empty \<longleftrightarrow> True"
| "wf_node (Blinded h) \<longleftrightarrow> length h = 32"
| "wf_node (Leaf p v) \<longleftrightarrow> nibbled p"
| "wf_node (Extension p c) \<longleftrightarrow> nibbled p \<and> wf_node c"
| "wf_node (Branch stack) \<longleftrightarrow> length stack = BRANCH_LIST_LENGTH \<and> (\<forall>c \<in> set stack. wf_node c)"

fun shallow :: "trie_env \<Rightarrow> trie_node \<Rightarrow> trie_node" where
  "shallow E (Extension p c) = Extension p (if 32 \<le> node_length E c then Blinded (blind E c) else shallow E c)"
| "shallow E (Branch stack) = Branch (map (\<lambda>c. if 32 \<le> node_length E c then Blinded (blind E c) else shallow E c) stack)"
| "shallow E t = t"

fun node_depth :: "trie_node \<Rightarrow> nat" where
  "node_depth (Extension p c) = Suc (node_depth c)"
| "node_depth (Branch stack) = Suc (Max (insert 0 (node_depth ` set stack)))"
| "node_depth t = 0"

definition child :: "trie_env \<Rightarrow> trie_node \<Rightarrow> trie_node" where
  "child E c = (if 32 \<le> node_length E c then Blinded (blind E c) else c)"

lemma shallow_child:
  "shallow E (Extension p c) = Extension p (shallow E (child E c))"
  "shallow E (Branch stack) = Branch (map (shallow E \<circ> child E) stack)"
  by (simp_all add: child_def)

lemma child_code_child: "child_code E c = encode_node E (child E c)"
  by (simp add: child_code_def child_def)

lemma blind_length: "codec_laws E D \<Longrightarrow> wf_node t \<Longrightarrow> length (blind E t) = 32"
  by (cases t) (auto simp: codec_laws_def blind_def blind_from_def)

lemma wf_child: "codec_laws E D \<Longrightarrow> wf_node c \<Longrightarrow> wf_node (child E c)"
  by (simp add: child_def blind_length)

lemma node_depth_child: "node_depth (child E c) \<le> node_depth c"
  by (simp add: child_def)

lemma child_length: "rlp_laws E \<Longrightarrow> node_length E (child E c) < 2 ^ 64"
  by (auto simp: child_def node_length_simps rlp_laws_def)

text \<open>The elements of a list: each starts with a header that announces its payload.\<close>

definition rlp_element :: "rlp_decoder \<Rightarrow> bytes \<Rightarrow> bool" where
  "rlp_element D e \<longleftrightarrow> e \<noteq> [] \<and> (\<exists>l body. \<forall>rest. rd_header D (e @ rest) = Ok (l, length body, body @ rest))"

lemma te_bytes_element:
  assumes "codec_laws E D" and "rlp_laws E" and "length b < 2 ^ 64"
  shows "rlp_element D (te_bytes E b)"
proof -
  have "length (te_bytes E b) \<noteq> 0 \<or> b = []" using assms(2) by (auto simp: rlp_laws_def)
  with codec_string [OF assms(1,3)] codec_empty [OF assms(1)] show ?thesis by (auto simp: rlp_element_def)
qed

lemma encode_body:
  assumes "rlp_laws E" and "t \<noteq> Empty" and "\<not> blinded t"
  obtains body where "encode_node E t = te_header E (payload_length E t) @ body" "length body = payload_length E t"
proof -
  obtain body where b: "encode_node E t = te_header E (payload_length E t) @ body"
    using assms(2,3) by (cases t) (auto simp: encode_node_children simp del: encode_node.simps(4,5) payload_length.simps)
  moreover have "length (encode_node E t) = te_header_length E (payload_length E t) + payload_length E t"
    using assms(2,3) encode_node_length [OF assms(1), of t] by (cases t) (simp_all add: node_length_simps del: payload_length.simps encode_node.simps)
  moreover have "length (te_header E n) = te_header_length E n" for n using assms(1) by (simp add: rlp_laws_def)
  ultimately show ?thesis using that by simp
qed

lemma node_header:
  assumes "codec_laws E D" and "rlp_laws E" and "wf_node t" and "node_length E t < 2 ^ 64" and "t \<noteq> Empty" and "\<not> blinded t"
  obtains body where "encode_node E t = te_header E (length body) @ body" "\<And>rest. rd_header D (encode_node E t @ rest) = Ok (True, length body, body @ rest)"
    "length body < 2 ^ 64" "payload_length E t = length body"
proof -
  obtain body where b: "encode_node E t = te_header E (payload_length E t) @ body" "length body = payload_length E t"
    using encode_body [OF assms(2,5,6)] .
  have "length body < 2 ^ 64" using assms(4-6) b(2) by (cases t) (simp_all add: node_length_simps del: payload_length.simps)
  then have "rd_header D (te_header E (length body) @ body @ rest) = Ok (True, length body, body @ rest)" for rest
    by (intro codec_header [OF assms(1)]) simp_all
  with b \<open>length body < 2 ^ 64\<close> show ?thesis by (intro that [of body]) (simp_all only: append_assoc)
qed

lemma header_zero: "codec_laws E D \<Longrightarrow> rd_header D (EMPTY_STRING_CODE # rest) = Ok (False, 0, rest)"
  using codec_string [of E D "[]" rest] by (simp add: codec_empty)

lemma node_element:
  assumes "codec_laws E D" and "rlp_laws E" and "wf_node t" and "node_length E t < 2 ^ 64"
  shows "rlp_element D (encode_node E t)"
proof -
  consider "t = Empty" | h where "t = Blinded h" | "t \<noteq> Empty" "\<not> blinded t" by (auto simp: blinded_def)
  then show ?thesis
  proof cases
    case 1
    then show ?thesis using header_zero [OF assms(1)] by (auto simp: rlp_element_def intro: exI [of _ "[]"])
  next
    case 2
    with assms te_bytes_element [OF assms(1,2), of h] codec_hash [OF assms(1)] show ?thesis by simp
  next
    case 3
    obtain body where "encode_node E t = te_header E (length body) @ body" "\<And>rest. rd_header D (encode_node E t @ rest) = Ok (True, length body, body @ rest)"
      using node_header [OF assms 3] by blast
    moreover have "length (te_header E 0) = 1" using assms(2) codec_header_length(2) [OF assms(1)] by (simp add: rlp_laws_def)
    with calculation(1) have "encode_node E t \<noteq> []" by (cases body) auto
    ultimately show ?thesis unfolding rlp_element_def by blast
  qed
qed

lemma count_elements_list:
  assumes "\<forall>e \<in> set es. rlp_element D e" and "length es < fuel"
  shows "count_elements D fuel (length rest) (concat es @ rest) n = Some (Ok (n + length es))"
  using assms
proof (induction es arbitrary: fuel n)
  case Nil
  then show ?case by (cases fuel) auto
next
  case (Cons e es)
  then obtain f where f: "fuel = Suc f" by (cases fuel) auto
  obtain l body where e: "e \<noteq> []" "\<And>rest. rd_header D (e @ rest) = Ok (l, length body, body @ rest)"
    using Cons.prems(1) by (auto simp: rlp_element_def)
  with Cons f show ?case by (simp add: buf_advance_def)
qed

lemma elements_shorter: "(\<forall>e \<in> set es. rlp_element D e) \<Longrightarrow> length es \<le> length (concat es)"
proof (induction es)
  case (Cons e es)
  then have "e \<noteq> []" by (simp add: rlp_element_def)
  with Cons show ?case by (cases e) auto
qed simp

lemma list_element_length:
  assumes "codec_laws E D" and "\<forall>e \<in> set es. rlp_element D e" and "length (concat es) < 2 ^ 64"
  shows "rlp_list_element_length D (te_header E (length (concat es)) @ concat es @ rest) = Some (Ok (length es))"
proof -
  have "rd_header D (te_header E (length (concat es)) @ concat es @ rest) = Ok (True, length (concat es), concat es @ rest)"
    using assms(3) by (intro codec_header [OF assms(1)]) simp_all
  moreover have "length es < Suc (length (concat es @ rest))" using elements_shorter [of es D] assms(2) by force
  ultimately show ?thesis using count_elements_list [of es D, OF assms(2)]
    by (simp add: rlp_list_element_length_def del: count_elements.simps)
qed

lemma decode_items_list:
  assumes "\<And>c rest. c \<in> set cs \<Longrightarrow> dec (code c @ rest) = Some (Ok (f c, rest))" and "\<And>c. c \<in> set cs \<Longrightarrow> code c \<noteq> []"
    and "length cs < fuel"
  shows "decode_items dec fuel (concat (map code cs)) = Some (Ok (map f cs))"
  using assms
proof (induction cs arbitrary: fuel)
  case Nil
  then show ?case by (cases fuel) auto
next
  case (Cons c cs)
  then obtain g where "fuel = Suc g" by (cases fuel) auto
  with Cons show ?case by simp
qed

lemma nibble_bits: "unat (x :: u8) < 16 \<Longrightarrow> bit x n \<Longrightarrow> n < 4"
proof -
  assume "unat x < 16" "bit x n"
  then have "take_bit 4 x = x" by (simp add: word_unat_eq_iff unsigned_take_bit_eq take_bit_nat_eq_self)
  with \<open>bit x n\<close> show ?thesis by (metis bit_take_bit_iff)
qed

lemma nibble_pair:
  assumes "unat x < 16" and "unat y < 16"
  shows "drop_bit 4 (push_bit 4 x OR y :: u8) = x" and "(push_bit 4 x OR y) AND 0x0F = y"
proof -
  show "drop_bit 4 (push_bit 4 x OR y) = x"
    by (rule bit_word_eqI) (use nibble_bits [OF assms(1)] nibble_bits [OF assms(2)] in \<open>auto simp: bit_simps\<close>)
  have "take_bit 4 (push_bit 4 x OR y) = y"
    by (rule bit_word_eqI) (use nibble_bits [OF assms(1)] nibble_bits [OF assms(2)] in \<open>auto simp: bit_simps\<close>)
  moreover have "a AND 0x0F = take_bit 4 a" for a :: u8 by (simp add: take_bit_eq_mask mask_eq_exp_minus_1)
  ultimately show "(push_bit 4 x OR y) AND 0x0F = y" by metis
qed

lemma unpack_pack_nibbles: "nibbled p \<Longrightarrow> even (length p) \<Longrightarrow> unpack_nibbles (pack_nibbles p) = p"
  by (induction p rule: pack_nibbles.induct) (simp_all add: unpack_nibbles_def nibbled_def nibble_pair del: drop_bit_or)

lemma hex_prefix_decoded:
  assumes "nibbled p"
  obtains b rest where "hex_prefix p leaf = b # rest" "drop_bit 4 b = (if leaf then 2 else 0) + (if even (length p) then 0 else 1)"
    "unpack_path_to_nibbles (if even (length p) then None else Some (b AND 0x0F)) rest = p"
proof (cases "even (length p)")
  case True
  have "drop_bit 4 (push_bit 4 (if leaf then 2 else 0) :: u8) = (if leaf then 2 else 0)" by simp
  with True assms show ?thesis
    by (intro that [of "push_bit 4 (if leaf then 2 else 0)" "pack_nibbles p"])
       (simp_all add: hex_prefix_def Let_def unpack_path_to_nibbles_def unpack_pack_nibbles)
next
  case False
  then obtain x ns where p: "p = x # ns" by (cases p) auto
  let ?b = "push_bit 4 ((if leaf then 2 else 0) + 1) OR x"
  have "unat x < 16" "nibbled ns" using assms p by (simp_all add: nibbled_def)
  with nibble_pair [of "(if leaf then 2 else 0) + 1" x] have "drop_bit 4 ?b = (if leaf then 2 else 0) + 1" "?b AND 0x0F = x" by auto
  with False p \<open>nibbled ns\<close> show ?thesis
    by (intro that [of ?b "pack_nibbles ns"]) (simp_all add: hex_prefix_def Let_def unpack_path_to_nibbles_def unpack_pack_nibbles)
qed

lemma element_lengths:
  assumes "rlp_laws E" and "nibbled p" and "codec_laws E D"
  shows "length (te_bytes E b) \<ge> length b" and "length (hex_prefix p leaf) \<le> length (te_bytes E (te_path E p leaf))"
  using assms(1) codec_path [OF assms(3,2)] by (auto simp: rlp_laws_def split: if_splits)

lemma decode_leaf_or_extension:
  assumes "codec_laws E D" and "rlp_laws E" and "nibbled p" and "length (hex_prefix p leaf) < 2 ^ 64"
  shows "try_decode_leaf_or_extension_payload D dec (te_bytes E (te_path E p leaf) @ rest) =
     (if leaf then Some (rthen (map_err RLPError (rd_bytes D rest)) (\<lambda>(v, buf). Ok (Leaf p v, buf)))
      else map_option (\<lambda>r. rthen (map_err RLPError r) (\<lambda>(node, buf). Ok (Extension p node, buf))) (dec rest))"
proof -
  obtain b bs where h: "hex_prefix p leaf = b # bs" "drop_bit 4 b = (if leaf then 2 else 0) + (if even (length p) then 0 else 1)"
    "unpack_path_to_nibbles (if even (length p) then None else Some (b AND 0x0F)) bs = p"
    using hex_prefix_decoded [OF assms(3)] by blast
  have "rd_bytes D (te_bytes E (te_path E p leaf) @ rest) = Ok (b # bs, rest)"
    using codec_bytes [OF assms(1,4)] codec_path [OF assms(1,3)] h(1) by simp
  with h(2,3) show ?thesis
    by (cases leaf; cases "even (length p)") (simp_all add: try_decode_leaf_or_extension_payload_def Let_def)
qed

lemma decode_two:
  assumes "codec_laws E D" and "rlp_laws E" and "rlp_element D a" and "rlp_element D b" and "length (a @ b) < 2 ^ 64"
  shows "node_decode D (Suc f) (te_header E (length (a @ b)) @ (a @ b) @ rest) =
     map_option (map_err (\<lambda>_. ''UnexpectedList'')) (try_decode_leaf_or_extension_payload D (node_decode D f) (a @ b @ rest))"
proof -
  have "rlp_list_element_length D (te_header E (length (a @ b)) @ (a @ b) @ rest) = Some (Ok 2)"
    using list_element_length [OF assms(1), of "[a, b]" rest] assms(3-5) by (simp add: numeral_2_eq_2)
  moreover have "rd_header D (te_header E (length (a @ b)) @ (a @ b) @ rest) = Ok (True, length (a @ b), (a @ b) @ rest)"
    using assms(5) by (intro codec_header [OF assms(1)]) simp_all
  moreover have "length (te_header E n) = te_header_length E n" for n using assms(2) by (simp add: rlp_laws_def)
  ultimately show ?thesis
    by (simp add: BRANCH_LIST_LENGTH_def LEAF_OR_EXTENSION_LIST_LENGTH_def buf_advance_def codec_header_length [OF assms(1)])
qed

lemma decode_seventeen:
  assumes "codec_laws E D" and "rlp_laws E" and "\<And>c. c \<in> set cs \<Longrightarrow> rlp_element D (encode_node E c)" and "length cs = BRANCH_LIST_LENGTH"
    and "length (concat (map (encode_node E) cs)) < 2 ^ 64"
    and "\<And>c rest. c \<in> set cs \<Longrightarrow> node_decode D f (encode_node E c @ rest) = Some (Ok (shallow E c, rest))"
  shows "node_decode D (Suc f) (te_header E (length (concat (map (encode_node E) cs))) @ concat (map (encode_node E) cs) @ rest)
     = Some (Ok (Branch (map (shallow E) cs), rest))"
proof -
  let ?body = "concat (map (encode_node E) cs)"
  have "rlp_list_element_length D (te_header E (length ?body) @ ?body @ rest) = Some (Ok 17)"
    using list_element_length [OF assms(1), of "map (encode_node E) cs" rest] assms(3-5) by (auto simp: BRANCH_LIST_LENGTH_def)
  moreover have h: "rd_header D (te_header E (length ?body) @ ?body @ rest) = Ok (True, length ?body, ?body @ rest)"
    using assms(5) by (intro codec_header [OF assms(1)]) simp_all
  moreover have "length cs < Suc (length ?body)" using elements_shorter [of "map (encode_node E) cs" D] assms(3) by auto
  then have "decode_items (node_decode D f) (Suc (length ?body)) ?body = Some (Ok (map (shallow E) cs))"
    by (intro decode_items_list assms(6)) (use assms(3) in \<open>auto simp: rlp_element_def\<close>)
  with h have "decode_vec D (node_decode D f) (te_header E (length ?body) @ ?body @ rest) = Some (Ok (map (shallow E) cs, rest))"
    by (simp add: decode_vec_def del: decode_items.simps)
  ultimately show ?thesis by (simp add: BRANCH_LIST_LENGTH_def)
qed

lemma decode_blinded:
  assumes "codec_laws E D" and "length h = 32"
  shows "node_decode D (Suc f) (encode_node E (Blinded h) @ rest) = Some (Ok (Blinded h, rest))"
  using codec_string [OF assms(1), of h rest] codec_hash [OF assms(1), of h] assms(2) by simp

lemma decode_child:
  assumes "codec_laws E D" and "wf_node c" and "0 < f"
    and "node_length E c < 2 ^ 64 \<Longrightarrow> node_decode D f (encode_node E c @ rest) = Some (Ok (shallow E c, rest))"
  shows "node_decode D f (encode_node E (child E c) @ rest) = Some (Ok (shallow E (child E c), rest))"
proof (cases "32 \<le> node_length E c")
  case True
  with assms(3) decode_blinded [OF assms(1) blind_length [OF assms(1,2)]] show ?thesis
    by (cases f) (simp_all add: child_def del: encode_node.simps node_decode.simps)
next
  case False
  with assms(4) show ?thesis by (simp add: child_def)
qed

lemma node_decode_encode:
  assumes "codec_laws E D" and "rlp_laws E" and "wf_node t" and "node_length E t < 2 ^ 64" and "node_depth t < fuel"
  shows "node_decode D fuel (encode_node E t @ rest) = Some (Ok (shallow E t, rest))"
  using assms(3-5)
proof (induction t arbitrary: fuel rest)
  case Empty
  then show ?case
    using header_zero [OF assms(1)] codec_header_length [OF assms(1)] by (cases fuel) (simp_all add: buf_advance_def)
next
  case (Blinded h)
  then show ?case using decode_blinded [OF assms(1), of h] by (cases fuel) (simp_all del: encode_node.simps node_decode.simps)
next
  case (Leaf p v)
  then obtain f where f: "fuel = Suc f" by (cases fuel) auto
  let ?path = "te_bytes E (te_path E p True)"
  obtain body where b: "encode_node E (Leaf p v) = te_header E (length body) @ body" "length body < 2 ^ 64" "payload_length E (Leaf p v) = length body"
    using node_header [OF assms(1,2) Leaf.prems(1,2)] by (auto simp del: encode_node.simps payload_length.simps)
  have body: "body = ?path @ te_bytes E v" using b(1) unfolding encode_node.simps b(3) by simp
  have l: "length (hex_prefix p True) < 2 ^ 64" "length v < 2 ^ 64"
    using b(2) element_lengths(1) [OF assms(2) _ assms(1), of p v] element_lengths(2) [OF assms(2) _ assms(1), of p True] Leaf.prems(1)
    unfolding body by auto
  then have "rlp_element D ?path" "rlp_element D (te_bytes E v)"
    using te_bytes_element [OF assms(1,2)] codec_path [OF assms(1), of p] Leaf.prems(1) by simp_all
  from decode_two [OF assms(1,2) this] b(2) f l decode_leaf_or_extension [OF assms(1,2), of p True] Leaf.prems(1) codec_bytes [OF assms(1)]
  show ?case unfolding b(1) body by simp
next
  case (Extension p c)
  then obtain f where f: "fuel = Suc f" by (cases fuel) auto
  let ?path = "te_bytes E (te_path E p False)" and ?c = "child E c"
  obtain body where b: "encode_node E (Extension p c) = te_header E (length body) @ body" "length body < 2 ^ 64"
    "payload_length E (Extension p c) = length body"
    using node_header [OF assms(1,2) Extension.prems(1,2)] by (auto simp del: encode_node.simps payload_length.simps)
  have body: "body = ?path @ encode_node E ?c" using b(1) unfolding encode_node_children b(3) child_code_child by simp
  have l: "length (hex_prefix p False) < 2 ^ 64"
    using b(2) element_lengths(2) [OF assms(2) _ assms(1), of p False] Extension.prems(1) unfolding body by auto
  have c: "wf_node ?c" using wf_child [OF assms(1)] Extension.prems(1) by simp
  have d: "node_decode D f (encode_node E ?c @ rest) = Some (Ok (shallow E ?c, rest))" for rest
    by (rule decode_child [OF assms(1)]) (use Extension f in auto)
  have "rlp_element D ?path" "rlp_element D (encode_node E ?c)"
    using te_bytes_element [OF assms(1,2)] codec_path [OF assms(1), of p] Extension.prems(1) l node_element [OF assms(1,2) c child_length [OF assms(2)]]
    by simp_all
  from decode_two [OF assms(1,2) this] b(2) f l decode_leaf_or_extension [OF assms(1,2), of p False] Extension.prems(1) d
  show ?case unfolding b(1) body shallow_child by simp
next
  case (Branch stack)
  then obtain f where f: "fuel = Suc f" by (cases fuel) auto
  let ?cs = "map (child E) stack"
  obtain body where b: "encode_node E (Branch stack) = te_header E (length body) @ body" "length body < 2 ^ 64"
    "payload_length E (Branch stack) = length body"
    using node_header [OF assms(1,2) Branch.prems(1,2)] by (auto simp del: encode_node.simps payload_length.simps)
  have body: "body = concat (map (encode_node E) ?cs)"
    using b(1) unfolding encode_node_children b(3) child_code_child [abs_def] by (simp add: comp_def)
  have w: "wf_node (child E c)" "rlp_element D (encode_node E (child E c))" if "c \<in> set stack" for c
    using that wf_child [OF assms(1)] Branch.prems(1) node_element [OF assms(1,2) _ child_length [OF assms(2)]] by auto
  have d: "node_decode D f (encode_node E (child E c) @ rest) = Some (Ok (shallow E (child E c), rest))" if "c \<in> set stack" for c rest
  proof -
    have "node_depth c < f" "0 < f" using that Branch.prems(3) f by auto
    then show ?thesis using Branch.IH [OF that] Branch.prems(1) that by (intro decode_child [OF assms(1)]) auto
  qed
  have "node_decode D (Suc f) (te_header E (length (concat (map (encode_node E) ?cs))) @ concat (map (encode_node E) ?cs) @ rest)
      = Some (Ok (Branch (map (shallow E) ?cs), rest))"
    by (rule decode_seventeen [OF assms(1,2)]) (use w d b(2) body Branch.prems(1) in auto)
  then show ?case using f body unfolding b(1) shallow_child by simp
qed

text \<open>The node that is read back has the commitment of the node that was written.\<close>

definition same_codes :: "trie_env \<Rightarrow> trie_node \<Rightarrow> trie_node \<Rightarrow> bool" where
  "same_codes E t t' \<longleftrightarrow> payload_length E t = payload_length E t' \<and> node_length E t = node_length E t' \<and> encode_node E t = encode_node E t'
     \<and> blind E t = blind E t'"

lemma same_codes_child:
  assumes "te_b256_length E = 33" and "same_codes E (shallow E c) c"
  shows "child_code E (shallow E (child E c)) = child_code E c" and "blinded_length E (shallow E (child E c)) = blinded_length E c"
  using assms
  by (auto simp: child_def child_code_def blinded_length_def cap_length_def same_codes_def node_length_simps blind_def blind_from_def)

lemma shallow_same_codes:
  assumes "te_b256_length E = 33"
  shows "same_codes E (shallow E t) t"
proof (induction t)
  case (Extension p c)
  have "payload_length E (shallow E (Extension p c)) = payload_length E (Extension p c)"
    "encode_node E (shallow E (Extension p c)) = encode_node E (Extension p c)"
    using same_codes_child [OF assms Extension]
    by (simp_all only: shallow_child payload_length_children encode_node_children)
  then show ?case by (simp add: same_codes_def node_length_def length_from_def blind_def blind_from_def del: payload_length.simps encode_node.simps)
next
  case (Branch stack)
  have m: "map (child_code E) (map (shallow E \<circ> child E) stack) = map (child_code E) stack"
    "map (blinded_length E) (map (shallow E \<circ> child E) stack) = map (blinded_length E) stack"
    using same_codes_child [OF assms Branch] by simp_all
  then have p: "payload_length E (shallow E (Branch stack)) = payload_length E (Branch stack)"
    by (simp only: shallow_child payload_length_children)
  then have "encode_node E (shallow E (Branch stack)) = encode_node E (Branch stack)"
    using m by (simp only: shallow_child encode_node_children)
  with p show ?case by (simp add: same_codes_def node_length_def length_from_def blind_def blind_from_def del: payload_length.simps encode_node.simps)
qed (simp_all add: same_codes_def)

section \<open>Arbitrary input\<close>

text \<open>
  What the decoder of an RLP library promises of any input: a header fits its payload and consumes
  input, unless it is that of a single byte; a hash has 32 bytes.
\<close>

definition decoder_laws :: "rlp_decoder \<Rightarrow> bool" where
  "decoder_laws D \<longleftrightarrow>
     (\<forall>buf l n rest. rd_header D buf = Ok (l, n, rest) \<longrightarrow>
        n \<le> length rest \<and> (length rest < length buf \<or> \<not> l \<and> n = 1 \<and> rest = buf))
   \<and> (\<forall>buf v rest. rd_bytes D buf = Ok (v, rest) \<longrightarrow> length rest < length buf)
   \<and> (\<forall>buf h rest. rd_b256 D buf = Ok (h, rest) \<longrightarrow> length h = 32 \<and> length rest < length buf)
   \<and> (\<forall>l n. 0 < rd_header_length D l n)"

lemma decoder_lawsD:
  assumes "decoder_laws D"
  shows laws_header: "rd_header D buf = Ok (l, n, rest) \<Longrightarrow> n \<le> length rest \<and> (length rest < length buf \<or> \<not> l \<and> n = 1 \<and> rest = buf)"
    and laws_bytes: "rd_bytes D buf = Ok (v, rest) \<Longrightarrow> length rest < length buf"
    and laws_hash: "rd_b256 D buf = Ok (h, rest) \<Longrightarrow> length h = 32 \<and> length rest < length buf"
    and laws_header_length: "0 < rd_header_length D l n"
  using assms unfolding decoder_laws_def by blast+

fun typed_node :: "trie_node \<Rightarrow> bool" where
  "typed_node Empty \<longleftrightarrow> True"
| "typed_node (Blinded h) \<longleftrightarrow> length h = 32"
| "typed_node (Leaf p v) \<longleftrightarrow> nibbled p"
| "typed_node (Extension p c) \<longleftrightarrow> nibbled p \<and> typed_node c"
| "typed_node (Branch stack) \<longleftrightarrow> (\<forall>c \<in> set stack. typed_node c)"

text \<open>A decoder that returns on inputs shorter than \<open>n\<close>, with a typed node and less input.\<close>

definition sound_below :: "nat \<Rightarrow> (bytes \<Rightarrow> (trie_node \<times> bytes, 'e) res option) \<Rightarrow> bool" where
  "sound_below n decode \<longleftrightarrow>
     (\<forall>buf. length buf < n \<longrightarrow> (\<exists>r. decode buf = Some r \<and> (\<forall>t rest. r = Ok (t, rest) \<longrightarrow> typed_node t \<and> length rest < length buf)))"

lemma sound_belowE:
  assumes "sound_below n decode" and "length buf < n"
  obtains r where "decode buf = Some r" "\<And>t rest. r = Ok (t, rest) \<Longrightarrow> typed_node t \<and> length rest < length buf"
  using assms unfolding sound_below_def by blast

lemma count_elements_ends:
  assumes "decoder_laws D" and "length buf < fuel"
  shows "\<exists>r. count_elements D fuel len buf n = Some r"
  using assms(2)
proof (induction fuel arbitrary: buf n)
  case (Suc fuel)
  have "length buf' < fuel" if "rthen (rd_header D buf) (\<lambda>(_, payload_len, buf). buf_advance payload_len buf) = Ok buf'" "length buf > len" for buf'
    using that laws_header [OF assms(1), of buf] Suc.prems by (auto simp: rthen_Ok_iff buf_advance_def split: if_splits)
  with Suc.IH show ?case
    by (cases "rthen (rd_header D buf) (\<lambda>(_, payload_len, buf). buf_advance payload_len buf)") auto
qed simp

lemma element_length_ends: "decoder_laws D \<Longrightarrow> \<exists>r. rlp_list_element_length D buf = Some r"
  using count_elements_ends [of D] by (auto simp: rlp_list_element_length_def simp del: count_elements.simps split: res.split)

lemma decode_items_sound:
  assumes "sound_below n decode" and "length payload < n" and "length payload < fuel"
  shows "\<exists>r. decode_items decode fuel payload = Some r \<and> (\<forall>ts. r = Ok ts \<longrightarrow> (\<forall>t \<in> set ts. typed_node t))"
  using assms(2,3)
proof (induction fuel arbitrary: payload)
  case (Suc fuel)
  obtain r where r: "decode payload = Some r" "\<And>t rest. r = Ok (t, rest) \<Longrightarrow> typed_node t \<and> length rest < length payload"
    using sound_belowE [OF assms(1) Suc.prems(1)] by blast
  show ?case
  proof (cases r)
    case (Ok p)
    then obtain t rest where t: "r = Ok (t, rest)" by (cases p) auto
    with r(2) Suc.IH [of rest] Suc.prems
    obtain q where "decode_items decode fuel rest = Some q" "\<forall>ts. q = Ok ts \<longrightarrow> (\<forall>t \<in> set ts. typed_node t)" by fastforce
    with r t show ?thesis by (auto simp: rthen_Ok_iff)
  qed (use r in auto)
qed simp

lemma decode_vec_sound:
  assumes "decoder_laws D" and "sound_below (length buf) decode"
  shows "\<exists>r. decode_vec D decode buf = Some r \<and> (\<forall>ts rest. r = Ok (ts, rest) \<longrightarrow> (\<forall>t \<in> set ts. typed_node t) \<and> length rest < length buf)"
proof (cases "rd_header D buf")
  case (Ok p)
  then obtain l n rest where p: "rd_header D buf = Ok (l, n, rest)" by (cases p) auto
  note h = laws_header [OF assms(1) p]
  show ?thesis
  proof (cases l)
    case True
    with h decode_items_sound [OF assms(2), of "take n rest" "Suc n"]
    obtain q where "decode_items decode (Suc n) (take n rest) = Some q" "\<forall>ts. q = Ok ts \<longrightarrow> (\<forall>t \<in> set ts. typed_node t)" by auto
    with p h True show ?thesis by (auto simp: decode_vec_def rthen_Ok_iff simp del: decode_items.simps)
  qed (simp add: decode_vec_def p)
qed (simp_all add: decode_vec_def)

lemma nibbled_unpack [simp]: "nibbled (unpack_path_to_nibbles None rest)" "nibbled (unpack_path_to_nibbles (Some (x AND 0x0F)) rest)"
proof -
  have "unat (drop_bit 4 y) < 16" "unat (y AND 0x0F) < 16" for y :: u8
    using unsigned_less [of y, where ?'a = nat] word_and_le1 [of y "0x0F"]
    by (simp_all add: unat_drop_bit_eq word_le_nat_alt) (simp add: drop_bit_eq_div)
  then show "nibbled (unpack_path_to_nibbles None rest)" "nibbled (unpack_path_to_nibbles (Some (x AND 0x0F)) rest)"
    by (auto simp: nibbled_def unpack_path_to_nibbles_def unpack_nibbles_def)
qed

lemma payload_sound:
  assumes "decoder_laws D" and "sound_below (length buf) decode"
  shows "\<exists>r. try_decode_leaf_or_extension_payload D decode buf = Some r \<and> (\<forall>t rest. r = Ok (t, rest) \<longrightarrow> typed_node t \<and> length rest < length buf)"
proof (cases "rd_bytes D buf")
  case (Ok p)
  then obtain path rest where p: "rd_bytes D buf = Ok (path, rest)" by (cases p) auto
  have l: "length rest < length buf" by (rule laws_bytes [OF assms(1) p])
  obtain r where r: "decode rest = Some r" "\<And>t rest'. r = Ok (t, rest') \<Longrightarrow> typed_node t \<and> length rest' < length rest"
    using sound_belowE [OF assms(2) l] by blast
  have "length rest' < length buf" if "rd_bytes D rest = Ok (v, rest')" for v rest'
    using laws_bytes [OF assms(1) that] l by simp
  with p r l show ?thesis
    by (cases path) (auto simp: try_decode_leaf_or_extension_payload_def Let_def rthen_Ok_iff map_err_Ok_iff dest: less_trans)
qed (simp_all add: try_decode_leaf_or_extension_payload_def)

lemma node_decode_sound:
  assumes "decoder_laws D"
  shows "sound_below fuel (node_decode D fuel)"
proof (induction fuel)
  case (Suc fuel)
  have below: "sound_below (length buf) (node_decode D fuel)" if "length buf < Suc fuel" for buf :: bytes
    using Suc that unfolding sound_below_def by auto
  show ?case unfolding sound_below_def
  proof (intro allI impI)
    fix buf :: bytes
    assume len: "length buf < Suc fuel"
    show "\<exists>r. node_decode D (Suc fuel) buf = Some r \<and> (\<forall>t rest. r = Ok (t, rest) \<longrightarrow> typed_node t \<and> length rest < length buf)"
    proof (cases "rd_header D buf")
      case (Ok p)
      then obtain l n rest where p: "rd_header D buf = Ok (l, n, rest)" by (cases p) auto
      obtain k where k: "rlp_list_element_length D buf = Some k" using element_length_ends [OF assms] by blast
      obtain v where v: "decode_vec D (node_decode D fuel) buf = Some v" "\<And>ts rest. v = Ok (ts, rest) \<Longrightarrow> (\<forall>t \<in> set ts. typed_node t) \<and> length rest < length buf"
        using decode_vec_sound [OF assms below [OF len]] by blast
      have q: "\<exists>r. try_decode_leaf_or_extension_payload D (node_decode D fuel) (drop i buf) = Some r
          \<and> (\<forall>t rest. r = Ok (t, rest) \<longrightarrow> typed_node t \<and> length rest < length buf)" for i
        using payload_sound [OF assms below, of "drop i buf"] len by fastforce
      have "rd_header_length D l n \<le> length buf \<Longrightarrow> length (drop (rd_header_length D l n) buf) < length buf"
        using laws_header_length [OF assms, of l n] by simp
      with p k v q [of "rd_header_length D l n"] laws_hash [OF assms, of buf] show ?thesis
        by (cases k) (auto simp: buf_advance_def rthen_Ok_iff map_err_Ok_iff)
    qed simp_all
  qed
qed (simp add: sound_below_def)


section \<open>Properties\<close>

text \<open>
  C33: decoding an encoded node gives it back with every child whose encoding has 32 bytes or more
  replaced by its hash, leaves the bytes that follow, and keeps the commitment of the node.
\<close>

theorem node_codec_roundtrip:
  assumes "codec_laws E D" and "rlp_laws E" and "wf_node t" and "node_length E t < 2 ^ 64" and "node_depth t < fuel"
  shows "node_decode D fuel (encode_node E t @ rest) = Some (Ok (shallow E t, rest)) \<and> blind E (shallow E t) = blind E t"
  using node_decode_encode [OF assms] shallow_same_codes [of E t] assms(2) by (simp add: same_codes_def rlp_laws_def)

text \<open>
  C34: whatever bytes an oracle answers with, decoding them as a trie node ends: it fails, or returns a
  node whose paths are nibbles and whose commitments have 32 bytes, and consumes input.
\<close>

theorem decoded_node_is_typed:
  assumes "decoder_laws D"
  shows "\<exists>r. node_decode D (Suc (length buf)) buf = Some r \<and> (\<forall>t rest. r = Ok (t, rest) \<longrightarrow> typed_node t \<and> length rest < length buf)"
  using node_decode_sound [OF assms, of "Suc (length buf)"] unfolding sound_below_def by blast

subsection \<open>Examples\<close>

text \<open>An encoding in the manner of RLP, with lengths of 56 and more in eight bytes.\<close>

definition ex_length :: "u8 \<Rightarrow> nat \<Rightarrow> bytes" where
  "ex_length base n = (if n < 56 then [base + of_nat n] else (base + 63) # be_of_nat 8 n)"

definition ex_codec_env :: trie_env where
  "ex_codec_env =
     \<lparr>te_node = (\<lambda>h. Err ''missing''), te_hint_account_proof = (\<lambda>h s. Ok ()), te_empty_root = replicate 32 0,
      te_pack = (\<lambda>ns. replicate (length ns div 2) 0), te_path = (\<lambda>p l. if nibbled p then hex_prefix p l else replicate (length p div 2 + 1) 0),
      te_keccak256 = (\<lambda>b. take 32 (b @ replicate 32 0)), te_header = ex_length 0xc0, te_header_length = (\<lambda>n. length (ex_length 0xc0 n)),
      te_length_of_length = (\<lambda>n. length (ex_length 0x80 n)),
      te_bytes = (\<lambda>b. if length b = 1 \<and> hd b < 0x80 then b else ex_length 0x80 (length b) @ b),
      te_bytes_length = (\<lambda>b. if length b = 1 \<and> hd b < 0x80 then 1 else length b + length (ex_length 0x80 (length b))),
      te_b256 = (\<lambda>h. 0xa0 # take 32 (h @ replicate 32 0)), te_b256_length = 33\<rparr>"

definition ex_rd_header :: "bytes \<Rightarrow> (bool \<times> nat \<times> bytes, string) res" where
  "ex_rd_header buf =
     (case buf of
        [] \<Rightarrow> Err ''InputTooShort''
      | b # rest \<Rightarrow>
          if b < 0x80 then Ok (False, 1, buf)
          else if b = 0xbf \<or> b = 0xff then Ok (0xc0 \<le> b, nat_of_be (take 8 rest), drop 8 rest)
          else if b < 0xc0 then Ok (False, unat (b - 0x80), rest)
          else Ok (True, unat (b - 0xc0), rest))"

definition ex_rd_bytes :: "bytes \<Rightarrow> (bytes \<times> bytes, string) res" where
  "ex_rd_bytes buf = rthen (ex_rd_header buf) (\<lambda>(l, n, rest). Ok (take n rest, drop n rest))"

definition ex_decoder :: rlp_decoder where
  "ex_decoder = \<lparr>rd_header = ex_rd_header, rd_bytes = ex_rd_bytes, rd_b256 = ex_rd_bytes, rd_header_length = (\<lambda>l n. length (ex_length 0xc0 n))\<rparr>"

lemma ex_header_read:
  assumes "n < 2 ^ 64" and "base = 0x80 \<or> base = 0xc0"
  shows "ex_rd_header (ex_length base n @ rest) = Ok (base = 0xc0, n, rest)"
proof (cases "n < 56")
  case True
  have "unat (of_nat n :: u8) = n" using True by (simp add: unat_of_nat)
  moreover from this True have "unat (base + of_nat n) = unat base + n" using assms(2) by (subst unat_plus_simple [THEN iffD1]) (auto simp: word_le_nat_alt unat_word_ariths)
  ultimately show ?thesis using True assms(2)
    by (elim disjE; hypsubst) (simp_all add: ex_length_def ex_rd_header_def word_less_nat_alt word_unat_eq_iff [of _ "0xbf"] word_unat_eq_iff [of _ "0xff"])
next
  case False
  with assms show ?thesis by (auto simp: ex_length_def ex_rd_header_def nat_of_be_of_nat simp del: be_of_nat.simps)
qed

lemma length_pack_nibbles [simp]: "length (pack_nibbles p) = length p div 2"
  by (induction p rule: pack_nibbles.induct) auto

lemma hex_prefix_head: "nibbled p \<Longrightarrow> length (hex_prefix p leaf) = length p div 2 + 1 \<and> hd (hex_prefix p leaf) < 0x40"
proof -
  assume "nibbled p"
  then obtain b rest where h: "hex_prefix p leaf = b # rest" "drop_bit 4 b = (if leaf then 2 else 0) + (if even (length p) then 0 else 1)"
    using hex_prefix_decoded by blast
  have "unat (drop_bit 4 b) \<le> 3" unfolding h(2) by simp
  then have "unat b div 16 \<le> 3" by (simp add: drop_bit_eq_div unat_div)
  then have "b < 0x40" by (simp add: word_less_nat_alt)
  moreover have "length (hex_prefix p leaf) = length p div 2 + 1" by (cases p) (auto simp: hex_prefix_def Let_def)
  ultimately show ?thesis using h(1) by simp
qed

lemma ex_te_bytes:
  assumes "length b < 2 ^ 64"
  shows "ex_rd_header (te_bytes ex_codec_env b @ rest) = Ok (False, length b, b @ rest)"
proof (cases "length b = 1 \<and> hd b < 0x80")
  case True
  then show ?thesis by (cases b) (simp_all add: ex_codec_env_def ex_rd_header_def)
next
  case False
  then have "te_bytes ex_codec_env b @ rest = ex_length 0x80 (length b) @ b @ rest" by (auto simp: ex_codec_env_def)
  with ex_header_read [OF assms, where base = "0x80"] show ?thesis by simp
qed

lemma ex_codec_laws: "codec_laws ex_codec_env ex_decoder" "rlp_laws ex_codec_env"
proof -
  have d: "rd_header ex_decoder = ex_rd_header" "rd_bytes ex_decoder = ex_rd_bytes" "rd_b256 ex_decoder = ex_rd_bytes"
    by (simp_all add: ex_decoder_def)
  have "te_b256 ex_codec_env h = te_bytes ex_codec_env h" if "length h = 32" for h
    using that by (simp add: ex_codec_env_def ex_length_def)
  moreover have "ex_rd_header (te_header ex_codec_env n @ rest) = Ok (True, n, rest)" if "n < 2 ^ 64" for n rest
    using ex_header_read [OF that, where base = "0xc0"] by (simp add: ex_codec_env_def)
  moreover have "te_bytes ex_codec_env [] = [EMPTY_STRING_CODE]" "length (te_keccak256 ex_codec_env b) = 32"
    "length (te_empty_root ex_codec_env) = 32" "rd_header_length ex_decoder l n = te_header_length ex_codec_env n"
    "te_header_length ex_codec_env 0 = 1" "nibbled p \<Longrightarrow> te_path ex_codec_env p leaf = hex_prefix p leaf" for b l n p leaf
    by (simp_all add: ex_codec_env_def ex_decoder_def ex_length_def EMPTY_STRING_CODE_def)
  ultimately show "codec_laws ex_codec_env ex_decoder"
    unfolding codec_laws_def d ex_rd_bytes_def using ex_te_bytes by simp
  show "rlp_laws ex_codec_env"
    using hex_prefix_head by (auto simp: rlp_laws_def ex_codec_env_def)
qed

theorem node_codec_roundtrip_witness:
  "node_decode ex_decoder 2 (encode_node ex_codec_env (Extension [1] (Leaf [2, 3] [7])) @ [9]) = Some (Ok (Extension [1] (Leaf [2, 3] [7]), [9]))"
proof -
  let ?t = "Extension [1] (Leaf [2, 3] [7])"
  have n: "node_length ex_codec_env (Leaf [2, 3] [7]) = 5" "node_length ex_codec_env ?t = 7"
    by (simp_all add: node_length_def length_from_def encoded_key_length_def cap_length_def ex_codec_env_def ex_length_def)
  have "wf_node ?t" by (simp add: nibbled_def)
  with n have "node_decode ex_decoder 2 (encode_node ex_codec_env ?t @ [9]) = Some (Ok (shallow ex_codec_env ?t, [9]))"
    using node_codec_roundtrip [OF ex_codec_laws, of ?t 2 "[9]"] by (simp del: encode_node.simps node_decode.simps shallow.simps)
  then show ?thesis using n(1) by (simp del: encode_node.simps node_decode.simps)
qed

definition ex_strict_header :: "bytes \<Rightarrow> (bool \<times> nat \<times> bytes, string) res" where
  "ex_strict_header buf = rthen (ex_rd_header buf) (\<lambda>(l, n, rest). if n \<le> length rest then Ok (l, n, rest) else Err ''InputTooShort'')"

definition ex_strict_bytes :: "bytes \<Rightarrow> (bytes \<times> bytes, string) res" where
  "ex_strict_bytes buf = rthen (ex_strict_header buf) (\<lambda>(l, n, rest). Ok (take n rest, drop n rest))"

definition ex_strict_decoder :: rlp_decoder where
  "ex_strict_decoder = \<lparr>rd_header = ex_strict_header, rd_bytes = ex_strict_bytes,
     rd_b256 = (\<lambda>buf. rthen (ex_strict_bytes buf) (\<lambda>(h, rest). if length h = 32 then Ok (h, rest) else Err ''UnexpectedLength'')),
     rd_header_length = (\<lambda>l n. length (ex_length 0xc0 n))\<rparr>"

lemma ex_decoder_laws: "decoder_laws ex_strict_decoder"
proof -
  have h: "n \<le> length rest \<and> (length rest < length buf \<or> \<not> l \<and> n = 1 \<and> rest = buf)" if "ex_strict_header buf = Ok (l, n, rest)" for buf l n rest
    using that by (cases buf) (auto simp: ex_strict_header_def ex_rd_header_def rthen_Ok_iff split: if_splits)
  have b: "length rest < length buf" if "ex_strict_bytes buf = Ok (v, rest)" for buf v rest
    using that h [of buf] by (cases buf) (auto simp: ex_strict_bytes_def rthen_Ok_iff)
  show ?thesis using h b by (auto simp: decoder_laws_def ex_strict_decoder_def ex_length_def rthen_Ok_iff split: if_splits)
qed

theorem decoded_node_is_typed_witness:
  "\<exists>t rest. node_decode ex_strict_decoder 4 [0xc2, 0x31, 7] = Some (Ok (t, rest)) \<and> typed_node t"
proof -
  have d: "node_decode ex_strict_decoder 4 [0xc2, 0x31, 7] = Some (Ok (Leaf [1] [7], []))" by code_simp
  have "Suc (length [0xc2, 0x31, 7 :: u8]) = 4" by simp
  then have "typed_node (Leaf [1] [7])"
    using decoded_node_is_typed [OF ex_decoder_laws, of "[0xc2, 0x31, 7]"] unfolding d [symmetric]
    by (simp only: d option.inject) blast
  with d show ?thesis by blast
qed

end
