(* ===== verification/Preimage.thy ===== *)
theory Preimage
  imports Programs
begin

text \<open>
  The preimage oracle (\<^verbatim>\<open>proof/preimage\<close>): keys and their rendering, the client and the server of
  preimage requests and of hints as two parties that exchange messages over a native channel, and
  the caching oracle in front of the client (\<^verbatim>\<open>proof/proof/src/caching_oracle.rs\<close>).
\<close>

section \<open>Keys\<close>

datatype io_channel_error = Closed | UnexpectedEOF

datatype preimage_oracle_error =
    IOError io_channel_error
  | InvalidPreimageKey
  | PreimageKeyNotFound
  | BufferLengthMismatch nat nat
  | HintParseFailed string
  | OtherOracleError string

datatype preimage_key_type =
    Local | Keccak256 | GlobalGeneric | Sha256 | Blob | Precompile | BlockSlot | DAProxyBlob | L2AccountProof | BankHash | BlockTime

fun key_type_u8 :: "preimage_key_type \<Rightarrow> u8" where
  "key_type_u8 Local = 1"
| "key_type_u8 Keccak256 = 2"
| "key_type_u8 GlobalGeneric = 3"
| "key_type_u8 Sha256 = 4"
| "key_type_u8 Blob = 5"
| "key_type_u8 Precompile = 6"
| "key_type_u8 BlockSlot = 7"
| "key_type_u8 DAProxyBlob = 8"
| "key_type_u8 L2AccountProof = 9"
| "key_type_u8 BankHash = 10"
| "key_type_u8 BlockTime = 11"

definition key_type_try_from :: "u8 \<Rightarrow> (preimage_key_type, preimage_oracle_error) res" where
  "key_type_try_from v =
     (if v = 1 then Ok Local else if v = 2 then Ok Keccak256 else if v = 3 then Ok GlobalGeneric else if v = 4 then Ok Sha256
      else if v = 5 then Ok Blob else if v = 6 then Ok Precompile else if v = 7 then Ok BlockSlot else if v = 8 then Ok DAProxyBlob
      else if v = 9 then Ok L2AccountProof else if v = 10 then Ok BankHash else if v = 11 then Ok BlockTime
      else Err InvalidPreimageKey)"

record preimage_key =
  pk_data :: bytes
  pk_key_type :: preimage_key_type

definition key_new :: "bytes \<Rightarrow> preimage_key_type \<Rightarrow> preimage_key" where
  "key_new key key_type = \<lparr>pk_data = drop 1 key, pk_key_type = key_type\<rparr>"

definition new_local :: "u64 \<Rightarrow> preimage_key" where
  "new_local local_ident = \<lparr>pk_data = replicate 23 0 @ be_of_nat 8 (unat local_ident), pk_key_type = Local\<rparr>"

definition new_keccak256 :: "b256 \<Rightarrow> preimage_key" where
  "new_keccak256 digest = key_new digest Keccak256"

text \<open>The hash \<open>keccak256\<close> is a parameter.\<close>

definition new_precompile :: "(bytes \<Rightarrow> b256) \<Rightarrow> address \<Rightarrow> bytes \<Rightarrow> preimage_key" where
  "new_precompile keccak256 precompile_addr input = \<lparr>pk_data = drop 1 (keccak256 (precompile_addr @ input)), pk_key_type = Precompile\<rparr>"

definition new_block_slot :: "(bytes \<Rightarrow> b256) \<Rightarrow> u64 \<Rightarrow> preimage_key" where
  "new_block_slot keccak256 block_slot = key_new (keccak256 (be_of_nat 8 (unat block_slot))) BlockSlot"

definition new_da_proxy_blob :: "(bytes \<Rightarrow> b256) \<Rightarrow> bytes \<Rightarrow> preimage_key" where
  "new_da_proxy_blob keccak256 key_data = key_new (keccak256 key_data) DAProxyBlob"

definition new_l2_bank_hash :: "(bytes \<Rightarrow> b256) \<Rightarrow> u64 \<Rightarrow> preimage_key" where
  "new_l2_bank_hash keccak256 block_number = key_new (keccak256 (be_of_nat 8 (unat block_number))) BankHash"

definition new_l2_block_time :: "(bytes \<Rightarrow> b256) \<Rightarrow> u64 \<Rightarrow> preimage_key" where
  "new_l2_block_time keccak256 block_number = key_new (keccak256 (be_of_nat 8 (unat block_number))) BlockTime"

definition new_l2_account_proof :: "b256 \<Rightarrow> preimage_key" where
  "new_l2_account_proof hashed_account = key_new hashed_account L2AccountProof"

definition key_value :: "preimage_key \<Rightarrow> 256 word" where
  "key_value k = of_nat (nat_of_be (pk_data k))"

definition key_bytes :: "preimage_key \<Rightarrow> bytes" where
  "key_bytes k = key_type_u8 (pk_key_type k) # pk_data k"

definition key_try_from :: "bytes \<Rightarrow> (preimage_key, preimage_oracle_error) res" where
  "key_try_from v = rthen (key_type_try_from (hd v)) (\<lambda>key_type. Ok (key_new v key_type))"

definition wf_key :: "preimage_key \<Rightarrow> bool" where
  "wf_key k \<longleftrightarrow> length (pk_data k) = 31"

lemma key_type_roundtrip [simp]: "key_type_try_from (key_type_u8 t) = Ok t"
  by (cases t) (simp_all add: key_type_try_from_def)

lemma key_try_from_bytes [simp]: "key_try_from (key_bytes k) = Ok k"
  by (simp add: key_try_from_def key_bytes_def key_new_def)

lemma length_key_bytes [simp]: "wf_key k \<Longrightarrow> length (key_bytes k) = 32"
  by (simp add: wf_key_def key_bytes_def)

section \<open>Two parties and a channel\<close>

text \<open>
  A party of the channel is the rest of its \<open>async\<close> function: it sends a message, waits for one of
  the length of its buffer, or is done. The channel is a pair of unbounded queues of messages;
  \<open>read_exact\<close> takes one message and panics when it does not fill the buffer.
\<close>

datatype 'a party = Send bytes "'a party" | Receive nat "bytes \<Rightarrow> 'a party" | Done 'a | Crashed

type_synonym ('a, 'b) session = "'a party \<times> 'b party \<times> bytes list \<times> bytes list"

inductive comm_step :: "('a, 'b) session \<Rightarrow> ('a, 'b) session \<Rightarrow> bool" where
  client_write: "comm_step (Send d c, h, to_host, to_client) (c, h, to_host @ [d], to_client)"
| client_read: "length d = n \<Longrightarrow> comm_step (Receive n k, h, to_host, d # to_client) (k d, h, to_host, to_client)"
| client_crash: "length d \<noteq> n \<Longrightarrow> comm_step (Receive n k, h, to_host, d # to_client) (Crashed, h, to_host, to_client)"
| host_write: "comm_step (c, Send d h, to_host, to_client) (c, h, to_host, to_client @ [d])"
| host_read: "length d = n \<Longrightarrow> comm_step (c, Receive n k, d # to_host, to_client) (c, k d, to_host, to_client)"
| host_crash: "length d \<noteq> n \<Longrightarrow> comm_step (c, Receive n k, d # to_host, to_client) (c, Crashed, to_host, to_client)"

inductive_cases comm_stepE: "comm_step (c, h, q, r) s"

abbreviation comm_steps :: "('a, 'b) session \<Rightarrow> ('a, 'b) session \<Rightarrow> bool" where
  "comm_steps \<equiv> comm_step\<^sup>*\<^sup>*"

definition oracle_get :: "preimage_key \<Rightarrow> (bytes, preimage_oracle_error) res party" where
  "oracle_get key =
     Send (key_bytes key) (Receive 8 (\<lambda>length_buffer.
       let n = nat_of_be length_buffer in
       if n = 0 then Done (Ok []) else Receive n (\<lambda>data_buffer. Done (Ok data_buffer))))"

definition oracle_get_exact :: "preimage_key \<Rightarrow> nat \<Rightarrow> (bytes, preimage_oracle_error) res party" where
  "oracle_get_exact key buf_len =
     Send (key_bytes key) (Receive 8 (\<lambda>length_buffer.
       let n = nat_of_be length_buffer in
       if buf_len \<noteq> n then Done (Err (BufferLengthMismatch n buf_len))
       else if n = 0 then Done (Ok [])
       else Receive n (\<lambda>buf. Done (Ok buf))))"

definition next_preimage_request :: "(preimage_key \<Rightarrow> (bytes, preimage_oracle_error) res) \<Rightarrow> (unit, preimage_oracle_error) res party" where
  "next_preimage_request get_preimage =
     Receive 32 (\<lambda>buf.
       case key_try_from buf of
         Err e \<Rightarrow> Done (Err e)
       | Panic \<Rightarrow> Crashed
       | Ok preimage_key \<Rightarrow>
           (case get_preimage preimage_key of
              Err e \<Rightarrow> Done (Err e)
            | Panic \<Rightarrow> Crashed
            | Ok v \<Rightarrow> Send (be_of_nat 8 (length v)) (if length v > 0 then Send v (Done (Ok ())) else Done (Ok ()))))"

definition hint_write :: "bytes \<Rightarrow> (unit, preimage_oracle_error) res party" where
  "hint_write hint = Send (be_of_nat 4 (length hint)) (Send hint (Receive 1 (\<lambda>hint_ack. Done (Ok ()))))"

definition next_hint :: "(bytes \<Rightarrow> (unit, preimage_oracle_error) res) \<Rightarrow> (unit, preimage_oracle_error) res party" where
  "next_hint route_hint =
     Receive 4 (\<lambda>len_buf.
     Receive (nat_of_be len_buf) (\<lambda>raw_payload.
       if \<not> from_utf8 raw_payload then Send [0] (Done (Err (OtherOracleError ''Failed to decode hint payload'')))
       else
         case route_hint raw_payload of
           Err e \<Rightarrow> Send [0] (Done (Err e))
         | Panic \<Rightarrow> Crashed
         | Ok _ \<Rightarrow> Send [0] (Done (Ok ()))))"

section \<open>The caching oracle\<close>

text \<open>The LRU cache (\<^verbatim>\<open>lru\<close>) is a parameter: looking up may reorder its entries, putting may evict others.\<close>

record 'c lru_cache =
  lru_get :: "preimage_key \<Rightarrow> 'c \<Rightarrow> bytes option \<times> 'c"
  lru_put :: "preimage_key \<Rightarrow> bytes \<Rightarrow> 'c \<Rightarrow> 'c"
  lru_clear :: "'c \<Rightarrow> 'c"

record oracle_reader =
  or_get :: "preimage_key \<Rightarrow> (bytes, preimage_oracle_error) res"
  or_get_exact :: "preimage_key \<Rightarrow> nat \<Rightarrow> (bytes, preimage_oracle_error) res"

definition caching_get ::
  "'c lru_cache \<Rightarrow> oracle_reader \<Rightarrow> preimage_key \<Rightarrow> 'c \<Rightarrow> (bytes, preimage_oracle_error) res \<times> 'c" where
  "caching_get L R key cache =
     (case lru_get L key cache of
        (Some v, cache) \<Rightarrow> (Ok v, cache)
      | (None, cache) \<Rightarrow> rbind (or_get R key) cache (\<lambda>v. (Ok v, lru_put L key v cache)))"

text \<open>A cached preimage is copied into the buffer; \<open>copy_from_slice\<close> panics when the lengths differ.\<close>

definition caching_get_exact ::
  "'c lru_cache \<Rightarrow> oracle_reader \<Rightarrow> preimage_key \<Rightarrow> nat \<Rightarrow> 'c \<Rightarrow> (bytes, preimage_oracle_error) res \<times> 'c" where
  "caching_get_exact L R key buf_len cache =
     (case lru_get L key cache of
        (Some v, cache) \<Rightarrow> (if length v = buf_len then Ok v else Panic, cache)
      | (None, cache) \<Rightarrow> rbind (or_get_exact R key buf_len) cache (\<lambda>v. (Ok v, lru_put L key v cache)))"

definition caching_flush :: "'c lru_cache \<Rightarrow> 'c \<Rightarrow> 'c" where
  "caching_flush L cache = lru_clear L cache"

section \<open>Sessions\<close>

text \<open>Steps of a session whose parties are given; both may move, so there may be two.\<close>

lemma comm_step_iff:
  "comm_step (c, h, q, r) s \<longleftrightarrow>
     (case c of
        Send d c' \<Rightarrow> s = (c', h, q @ [d], r)
      | Receive n k \<Rightarrow> (case r of [] \<Rightarrow> False | d # r' \<Rightarrow> s = (if length d = n then k d else Crashed, h, q, r'))
      | _ \<Rightarrow> False)
   \<or> (case h of
        Send d h' \<Rightarrow> s = (c, h', q, r @ [d])
      | Receive n k \<Rightarrow> (case q of [] \<Rightarrow> False | d # q' \<Rightarrow> s = (c, if length d = n then k d else Crashed, q', r))
      | _ \<Rightarrow> False)"
  by (subst comm_step.simps) (auto split: party.splits list.splits)

text \<open>
  A session ends when every run, in whatever order the parties move, reaches the same final
  state after the same number of steps. To show it, the states a run can be in are listed step
  by step.
\<close>

definition session_ends :: "('a, 'b) session \<Rightarrow> nat \<Rightarrow> ('a, 'b) session \<Rightarrow> bool" where
  "session_ends start n final \<longleftrightarrow>
     (\<forall>m s. (comm_step ^^ m) start s \<longrightarrow> m \<le> n \<and> (comm_step ^^ (n - m)) s final) \<and> (\<forall>s. \<not> comm_step final s)"

definition leads :: "('a, 'b) session set \<Rightarrow> ('a, 'b) session set \<Rightarrow> bool" where
  "leads S T \<longleftrightarrow> (\<forall>s \<in> S. (\<exists>s'. comm_step s s') \<and> (\<forall>s'. comm_step s s' \<longrightarrow> s' \<in> T))"

inductive settles :: "('a, 'b) session set \<Rightarrow> nat \<Rightarrow> ('a, 'b) session \<Rightarrow> bool" where
  settled: "\<not> (\<exists>s. comm_step final s) \<Longrightarrow> settles {final} 0 final"
| settles_next: "\<lbrakk> leads S T; settles T n final \<rbrakk> \<Longrightarrow> settles S (Suc n) final"

lemma settles_runs:
  assumes "settles S n final" and "s \<in> S" and "(comm_step ^^ m) s t"
  shows "m \<le> n \<and> (comm_step ^^ (n - m)) t final"
  using assms
proof (induction arbitrary: s m t rule: settles.induct)
  case settled
  then show ?case by (cases m) (simp, metis relpowp_Suc_D2 singletonD)
next
  case (settles_next S T n final)
  show ?case
  proof (cases m)
    case 0
    then obtain s' where "comm_step s s'" "s' \<in> T" using settles_next.prems settles_next.hyps(1) by (auto simp: leads_def)
    with settles_next.IH [of s' 0 s'] have "(comm_step ^^ Suc n) s final" by (intro relpowp_Suc_I2) auto
    with 0 settles_next.prems show ?thesis by simp
  next
    case (Suc k)
    then obtain s' where "comm_step s s'" "(comm_step ^^ k) s' t" using settles_next.prems(2) by (metis relpowp_Suc_D2)
    moreover from this(1) have "s' \<in> T" using settles_next.prems(1) settles_next.hyps(1) unfolding leads_def by blast
    ultimately show ?thesis using settles_next.IH [of s' k t] Suc by simp
  qed
qed

lemma settles_final: "settles S n final \<Longrightarrow> \<not> comm_step final s"
  by (induction rule: settles.induct) blast+

lemma session_endsI: "settles {start} n final \<Longrightarrow> session_ends start n final"
  using settles_runs [of "{start}" n final] settles_final [of "{start}" n final] by (auto simp: session_ends_def)

lemma be_length [simp]: "length v < 2 ^ 64 \<Longrightarrow> nat_of_be (be_of_nat 8 (length v)) = length v"
  by (simp add: nat_of_be_of_nat)

lemma preimage_session:
  assumes "get_preimage key = Ok v" and "wf_key key" and "length v < 2 ^ 64"
  shows "session_ends (oracle_get key, next_preimage_request get_preimage, [], []) (if v = [] then 4 else 6) (Done (Ok v), Done (Ok ()), [], [])"
proof -
  define rest :: "bytes \<Rightarrow> (bytes, preimage_oracle_error) res party" where
    "rest = (\<lambda>b. let n = nat_of_be b in if n = 0 then Done (Ok []) else Receive n (\<lambda>d. Done (Ok d)))"
  define answer :: "(unit, preimage_oracle_error) res party" where "answer = (if v = [] then Done (Ok ()) else Send v (Done (Ok ())))"
  let ?wait = "Receive 8 rest" and ?data = "Receive (length v) (\<lambda>d. Done (Ok d))"
  have g: "oracle_get key = Send (key_bytes key) ?wait" by (simp add: oracle_get_def rest_def)
  have r: "rest (be_of_nat 8 (length v)) = (if v = [] then Done (Ok []) else ?data)" using assms(3) by (simp add: rest_def)
  have l: "leads {(oracle_get key, next_preimage_request get_preimage, [], [])} {(?wait, next_preimage_request get_preimage, [key_bytes key], [])}"
    "leads {(?wait, next_preimage_request get_preimage, [key_bytes key], [])} {(?wait, Send (be_of_nat 8 (length v)) answer, [], [])}"
    "leads {(?wait, Send (be_of_nat 8 (length v)) answer, [], [])} {(?wait, answer, [], [be_of_nat 8 (length v)])}"
    using assms by (simp_all add: leads_def comm_step_iff g next_preimage_request_def answer_def)
  show ?thesis
  proof (cases "v = []")
    case True
    then have "leads {(?wait, answer, [], [be_of_nat 8 (length v)])} {(Done (Ok v), Done (Ok ()), [], [])}"
      using r by (simp add: leads_def comm_step_iff answer_def)
    from settles_next [OF l(1) settles_next [OF l(2) settles_next [OF l(3) settles_next [OF this settled]]]]
    have "settles {(oracle_get key, next_preimage_request get_preimage, [], [])} 4 (Done (Ok v), Done (Ok ()), [], [])"
      by (simp add: comm_step_iff numeral_eq_Suc)
    with True show ?thesis by (intro session_endsI) simp
  next
    case False
    then have m: "leads {(?wait, answer, [], [be_of_nat 8 (length v)])}
        {(?wait, Done (Ok ()), [], [be_of_nat 8 (length v), v]), (?data, answer, [], [])}"
      "leads {(?wait, Done (Ok ()), [], [be_of_nat 8 (length v), v]), (?data, answer, [], [])} {(?data, Done (Ok ()), [], [v])}"
      "leads {(?data, Done (Ok ()), [], [v])} {(Done (Ok v), Done (Ok ()), [], [])}"
      using r by (auto simp: leads_def comm_step_iff answer_def)
    from settles_next [OF l(1) settles_next [OF l(2) settles_next [OF l(3) settles_next [OF m(1) settles_next [OF m(2) settles_next [OF m(3) settled]]]]]]
    have "settles {(oracle_get key, next_preimage_request get_preimage, [], [])} 6 (Done (Ok v), Done (Ok ()), [], [])"
      by (simp add: comm_step_iff numeral_eq_Suc)
    with False show ?thesis by (intro session_endsI) simp
  qed
qed

lemma hint_session:
  assumes "length hint < 2 ^ 32" and "from_utf8 hint" and "route_hint hint \<noteq> Panic"
  shows "session_ends (hint_write hint, next_hint route_hint, [], []) 6 (Done (Ok ()), Done (route_hint hint), [], [])"
proof -
  let ?len = "be_of_nat 4 (length hint)" and ?ack = "Receive 1 (\<lambda>_. Done (Ok ()))"
  let ?payload = "Receive (length hint) (\<lambda>raw. if \<not> from_utf8 raw then Send [0] (Done (Err (OtherOracleError ''Failed to decode hint payload'')))
      else case route_hint raw of Err e \<Rightarrow> Send [0] (Done (Err e)) | Panic \<Rightarrow> Crashed | Ok _ \<Rightarrow> Send [0] (Done (Ok ())))"
  have n: "nat_of_be ?len = length hint" using assms(1) by (simp add: nat_of_be_of_nat)
  have l: "leads {(hint_write hint, next_hint route_hint, [], [])} {(Send hint ?ack, next_hint route_hint, [?len], [])}"
    "leads {(Send hint ?ack, next_hint route_hint, [?len], [])} {(?ack, next_hint route_hint, [?len, hint], []), (Send hint ?ack, ?payload, [], [])}"
    "leads {(?ack, next_hint route_hint, [?len, hint], []), (Send hint ?ack, ?payload, [], [])} {(?ack, ?payload, [hint], [])}"
    using n by (auto simp: leads_def comm_step_iff hint_write_def next_hint_def)
  have m: "leads {(?ack, ?payload, [hint], [])} {(?ack, Send [0] (Done (route_hint hint)), [], [])}"
    using assms(2,3) by (auto simp: leads_def comm_step_iff split: res.split)
  have e: "leads {(?ack, Send [0] (Done (route_hint hint)), [], [])} {(?ack, Done (route_hint hint), [], [[0]])}"
    "leads {(?ack, Done (route_hint hint), [], [[0]])} {(Done (Ok ()), Done (route_hint hint), [], [])}"
    by (auto simp: leads_def comm_step_iff)
  from settles_next [OF l(1) settles_next [OF l(2) settles_next [OF l(3) settles_next [OF m settles_next [OF e(1) settles_next [OF e(2) settled]]]]]]
  show ?thesis by (intro session_endsI) (simp add: comm_step_iff numeral_eq_Suc)
qed

section \<open>Transparency of the cache\<close>

text \<open>
  What the cache promises: a lookup returns an entry it holds and changes no entry, putting adds
  one entry and may drop others, and clearing drops all. The reader answers by the preimage of a
  key, and refuses buffers of another length.
\<close>

definition lru_law :: "'c lru_cache \<Rightarrow> ('c \<Rightarrow> preimage_key \<rightharpoonup> bytes) \<Rightarrow> bool" where
  "lru_law L entries \<longleftrightarrow>
     (\<forall>k c. fst (lru_get L k c) = entries c k \<and> entries (snd (lru_get L k c)) = entries c)
   \<and> (\<forall>k v c. entries (lru_put L k v c) k = Some v \<and> entries (lru_put L k v c) \<subseteq>\<^sub>m (entries c)(k \<mapsto> v))
   \<and> (\<forall>c. entries (lru_clear L c) = Map.empty)"

definition reader_law :: "oracle_reader \<Rightarrow> bool" where
  "reader_law R \<longleftrightarrow>
     (\<forall>k n. or_get_exact R k n =
        rthen (or_get R k) (\<lambda>v. if n \<noteq> length v then Err (BufferLengthMismatch (length v) n) else Ok v))"

datatype oracle_op = Get preimage_key | GetExact preimage_key nat | Flush

fun cached_run :: "'c lru_cache \<Rightarrow> oracle_reader \<Rightarrow> oracle_op list \<Rightarrow> 'c \<Rightarrow> (bytes, preimage_oracle_error) res list" where
  "cached_run L R [] cache = []"
| "cached_run L R (Get k # ops) cache = (let (r, cache) = caching_get L R k cache in r # cached_run L R ops cache)"
| "cached_run L R (GetExact k n # ops) cache = (let (r, cache) = caching_get_exact L R k n cache in r # cached_run L R ops cache)"
| "cached_run L R (Flush # ops) cache = cached_run L R ops (caching_flush L cache)"

fun direct_run :: "oracle_reader \<Rightarrow> oracle_op list \<Rightarrow> (bytes, preimage_oracle_error) res list" where
  "direct_run R [] = []"
| "direct_run R (Get k # ops) = or_get R k # direct_run R ops"
| "direct_run R (GetExact k n # ops) = or_get_exact R k n # direct_run R ops"
| "direct_run R (Flush # ops) = direct_run R ops"

definition buffers_fit :: "oracle_reader \<Rightarrow> oracle_op list \<Rightarrow> bool" where
  "buffers_fit R ops \<longleftrightarrow> (\<forall>k n v. GetExact k n \<in> set ops \<and> or_get R k = Ok v \<longrightarrow> length v = n)"

definition cache_sound :: "oracle_reader \<Rightarrow> (preimage_key \<rightharpoonup> bytes) \<Rightarrow> bool" where
  "cache_sound R m \<longleftrightarrow> (\<forall>k v. m k = Some v \<longrightarrow> or_get R k = Ok v)"

lemma lru_lawD:
  assumes "lru_law L entries"
  shows "lru_get L k c = (r, c') \<Longrightarrow> r = entries c k \<and> entries c' = entries c"
    and "\<lbrakk> cache_sound R (entries c); or_get R k = Ok v \<rbrakk> \<Longrightarrow> cache_sound R (entries (lru_put L k v c))"
    and "entries (lru_clear L c) = Map.empty"
proof -
  show "r = entries c k \<and> entries c' = entries c" if "lru_get L k c = (r, c')"
    using assms that unfolding lru_law_def by (metis fst_conv snd_conv)
  have put: "entries (lru_put L k v c) \<subseteq>\<^sub>m (entries c)(k \<mapsto> v)" using assms by (simp add: lru_law_def)
  show "cache_sound R (entries (lru_put L k v c))" if "cache_sound R (entries c)" "or_get R k = Ok v"
    using that put unfolding cache_sound_def map_le_def by (metis domI fun_upd_apply option.inject)
  show "entries (lru_clear L c) = Map.empty" using assms by (simp add: lru_law_def)
qed

lemma caching_get_sound:
  assumes "lru_law L entries" and "cache_sound R (entries c)" and "caching_get L R k c = (r, c')"
  shows "r = or_get R k \<and> cache_sound R (entries c')"
proof -
  obtain g c1 where g: "lru_get L k c = (g, c1)" by force
  then have "g = entries c k" "entries c1 = entries c" using lru_lawD(1) [OF assms(1)] by blast+
  then have s: "cache_sound R (entries c1)" and h: "g = Some v \<Longrightarrow> or_get R k = Ok v" for v
    using assms(2) by (simp_all add: cache_sound_def)
  show ?thesis
  proof (cases g)
    case None
    with assms(3) g s lru_lawD(2) [OF assms(1) s, of k] show ?thesis by (cases "or_get R k") (auto simp: caching_get_def)
  next
    case (Some v)
    with assms(3) g s h show ?thesis by (auto simp: caching_get_def)
  qed
qed

lemma caching_get_exact_sound:
  assumes "lru_law L entries" and "reader_law R" and "cache_sound R (entries c)" and "caching_get_exact L R k n c = (r, c')"
    and "\<And>v. or_get R k = Ok v \<Longrightarrow> length v = n"
  shows "r = or_get_exact R k n \<and> cache_sound R (entries c')"
proof -
  obtain g c1 where g: "lru_get L k c = (g, c1)" by force
  then have "g = entries c k" "entries c1 = entries c" using lru_lawD(1) [OF assms(1)] by blast+
  then have s: "cache_sound R (entries c1)" and h: "g = Some v \<Longrightarrow> or_get R k = Ok v" for v
    using assms(3) by (simp_all add: cache_sound_def)
  have e: "or_get_exact R k n = or_get R k" using assms(2,5) by (cases "or_get R k") (auto simp: reader_law_def)
  show ?thesis
  proof (cases g)
    case None
    with assms(4) g s e lru_lawD(2) [OF assms(1) s, of k] show ?thesis by (cases "or_get R k") (auto simp: caching_get_exact_def)
  next
    case (Some v)
    with assms(4,5) g s e h show ?thesis by (auto simp: caching_get_exact_def)
  qed
qed

lemma cached_run_direct:
  assumes "lru_law L entries" and "reader_law R" and "cache_sound R (entries c)" and "buffers_fit R ops"
  shows "cached_run L R ops c = direct_run R ops"
  using assms(3,4)
proof (induction ops arbitrary: c)
  case (Cons op ops)
  have rest: "buffers_fit R ops" using Cons.prems(2) by (auto simp: buffers_fit_def)
  show ?case
  proof (cases op)
    case (Get k)
    then show ?thesis using Cons.IH rest caching_get_sound [OF assms(1) Cons.prems(1), of k] by (auto split: prod.splits)
  next
    case (GetExact k n)
    have "length v = n" if "or_get R k = Ok v" for v using Cons.prems(2) that GetExact by (auto simp: buffers_fit_def)
    with GetExact show ?thesis
      using Cons.IH rest caching_get_exact_sound [OF assms(1,2) Cons.prems(1), of k n] by (auto split: prod.splits)
  next
    case Flush
    have "cache_sound R (entries (caching_flush L c))" using lru_lawD(3) [OF assms(1)] by (simp add: caching_flush_def cache_sound_def)
    with Flush Cons.IH rest show ?thesis by simp
  qed
qed simp

section \<open>Properties\<close>

text \<open>
  C32: a preimage request over a channel never deadlocks and never misreads: in whatever order client
  and host are scheduled, every run ends, after the same number of channel operations, with the
  preimage at the client, the host ready for the next request and nothing left in the channel.
\<close>

theorem preimage_request_completes:
  assumes "get_preimage key = Ok v" and "wf_key key" and "length v < 2 ^ 64"
    and "(comm_step ^^ n) (oracle_get key, next_preimage_request get_preimage, [], []) s"
  shows "n \<le> 6 \<and> comm_step\<^sup>*\<^sup>* s (Done (Ok v), Done (Ok ()), [], [])
     \<and> (\<not> (\<exists>s'. comm_step s s') \<longrightarrow> s = (Done (Ok v), Done (Ok ()), [], []))"
proof -
  let ?final = "(Done (Ok v), Done (Ok ()), [], [])" and ?N = "if v = [] then 4 else 6"
  have "n \<le> ?N" "(comm_step ^^ (?N - n)) s ?final"
    using preimage_session [where get_preimage = get_preimage and key = key and v = v, OF assms(1-3)] assms(4) unfolding session_ends_def by blast+
  moreover from this(2) have "comm_step\<^sup>*\<^sup>* s ?final" by (rule relpowp_imp_rtranclp)
  moreover from this have "s = ?final" if "\<not> (\<exists>s'. comm_step s s')"
    using that by (metis converse_rtranclpE)
  ultimately show ?thesis by (auto split: if_splits)
qed

text \<open>
  A hint is always acknowledged, also when the host cannot route it: every run of the two
  parties ends with the client unblocked and the outcome of the routing at the host.
\<close>

theorem hint_is_acknowledged:
  assumes "length hint < 2 ^ 32" and "from_utf8 hint" and "route_hint hint \<noteq> Panic"
    and "(comm_step ^^ n) (hint_write hint, next_hint route_hint, [], []) s"
  shows "n \<le> 6 \<and> (comm_step ^^ (6 - n)) s (Done (Ok ()), Done (route_hint hint), [], [])"
  using hint_session [where hint = hint and route_hint = route_hint, OF assms(1-3)] assms(4) unfolding session_ends_def by blast

text \<open>
  The cache is transparent: whatever entries it evicts, a sequence of requests through the
  caching oracle has the results of the same sequence sent to the oracle, as long as buffers have
  the length of the preimage they are for.
\<close>

theorem cache_is_transparent:
  assumes "lru_law L entries" and "reader_law R" and "entries c = Map.empty" and "buffers_fit R ops"
  shows "cached_run L R ops c = direct_run R ops"
  by (rule cached_run_direct [OF assms(1,2) _ assms(4)]) (simp add: assms(3) cache_sound_def)

text \<open>
  A buffer of the wrong length is an error of the oracle, but a panic once the preimage is in
  the cache.
\<close>

theorem cached_wrong_length_panics:
  assumes "lru_law L entries" and "reader_law R" and "or_get R k = Ok v" and "length v \<noteq> n" and "entries c = Map.empty"
  shows "cached_run L R [Get k, GetExact k n] c = [Ok v, Panic] \<and> direct_run R [Get k, GetExact k n] = [Ok v, Err (BufferLengthMismatch (length v) n)]"
proof -
  obtain c1 where c1: "lru_get L k c = (None, c1)" using lru_lawD(1) [OF assms(1), of k c] assms(5) by (cases "lru_get L k c") auto
  have "entries (lru_put L k v c1) k = Some v" using assms(1) by (simp add: lru_law_def)
  then obtain c2 where "lru_get L k (lru_put L k v c1) = (Some v, c2)"
    using lru_lawD(1) [OF assms(1), of k "lru_put L k v c1"] by (cases "lru_get L k (lru_put L k v c1)") auto
  with c1 assms(2-4) show ?thesis by (auto simp: caching_get_def caching_get_exact_def reader_law_def)
qed

text \<open>A preimage key survives its rendering as 32 bytes, and only the eleven known types are accepted.\<close>

theorem preimage_key_roundtrip:
  "key_try_from (key_bytes k) = Ok k \<and> (key_type_try_from b = Err InvalidPreimageKey) = (b = 0 \<or> b \<ge> 12)"
proof -
  have "b = 0 \<or> b \<ge> 12 \<or> b = 1 \<or> b = 2 \<or> b = 3 \<or> b = 4 \<or> b = 5 \<or> b = 6 \<or> b = 7 \<or> b = 8 \<or> b = 9 \<or> b = 10 \<or> b = 11"
    by (simp add: word_le_nat_alt word_unat_eq_iff) presburger
  then show ?thesis by (auto simp: key_type_try_from_def word_le_nat_alt)
qed

subsection \<open>Examples\<close>

text \<open>A cache that keeps everything, and one oracle with one preimage.\<close>

definition ex_lru :: "(preimage_key \<rightharpoonup> bytes) lru_cache" where
  "ex_lru = \<lparr>lru_get = (\<lambda>k c. (c k, c)), lru_put = (\<lambda>k v c. [k \<mapsto> v]), lru_clear = (\<lambda>c. Map.empty)\<rparr>"

definition ex_preimage :: "preimage_key \<Rightarrow> (bytes, preimage_oracle_error) res" where
  "ex_preimage k = (if k = new_local 1 then Ok [7, 8] else Err PreimageKeyNotFound)"

definition ex_reader :: oracle_reader where
  "ex_reader = \<lparr>or_get = ex_preimage,
     or_get_exact = (\<lambda>k n. rthen (ex_preimage k) (\<lambda>v. if n \<noteq> length v then Err (BufferLengthMismatch (length v) n) else Ok v))\<rparr>"

lemma ex_oracle_laws: "lru_law ex_lru (\<lambda>c. c)" "reader_law ex_reader"
  by (auto simp: lru_law_def ex_lru_def map_le_def reader_law_def ex_reader_def)

theorem preimage_request_completes_witness:
  "comm_step\<^sup>*\<^sup>* (oracle_get (new_local 1), next_preimage_request ex_preimage, [], []) (Done (Ok [7, 8]), Done (Ok ()), [], [])"
  using preimage_request_completes [of ex_preimage "new_local 1" "[7, 8]" 0]
  by (simp add: ex_preimage_def wf_key_def new_local_def)

theorem hint_is_acknowledged_witness:
  "(comm_step ^^ 6) (hint_write [104], next_hint (\<lambda>_. Err PreimageKeyNotFound), [], []) (Done (Ok ()), Done (Err PreimageKeyNotFound), [], [])"
  using hint_is_acknowledged [of "[104]" "\<lambda>_. Err PreimageKeyNotFound" 0] by simp

theorem cache_is_transparent_witness:
  "cached_run ex_lru ex_reader [Get (new_local 1), GetExact (new_local 1) 2, Flush, Get (new_local 2)] Map.empty
     = direct_run ex_reader [Get (new_local 1), GetExact (new_local 1) 2, Flush, Get (new_local 2)]"
  by (rule cache_is_transparent [OF ex_oracle_laws]) (auto simp: buffers_fit_def ex_reader_def ex_preimage_def split: if_splits)

theorem cached_wrong_length_panics_witness:
  "cached_run ex_lru ex_reader [Get (new_local 1), GetExact (new_local 1) 3] Map.empty = [Ok [7, 8], Panic]"
  using cached_wrong_length_panics [OF ex_oracle_laws, of "new_local 1" "[7, 8]" 3 Map.empty]
  by (simp add: ex_reader_def ex_preimage_def)

end
