(* ===== verification/Batch_Validator.thy ===== *)
theory Batch_Validator
  imports Batch_Queue
begin

text \<open>
  \<open>BatchValidator\<close> (\<^verbatim>\<open>derive/src/stages/batch/batch_validator.rs\<close>): the stage that takes single
  batches one at a time from the batch stream, checks them on the safe head and creates empty
  batches when the sequencing window has passed. It keeps no queue of its own.
\<close>

section \<open>Definitions\<close>

record 'p batch_validator =
  bv_cfg :: rollup_config
  bv_prev :: 'p
  bv_origin :: "block_info option"
  bv_l1_blocks :: "block_info list"

definition batch_validator_new :: "rollup_config \<Rightarrow> 'p \<Rightarrow> 'p batch_validator" where
  "batch_validator_new cfg prev = \<lparr>bv_cfg = cfg, bv_prev = prev, bv_origin = None, bv_l1_blocks = []\<rparr>"

definition update_origins :: "'p batch_provider \<Rightarrow> l2_block_info \<Rightarrow> 'p batch_validator \<Rightarrow> unit presult \<times> 'p batch_validator" where
  "update_origins B parent s =
     (let behind = origin_behind B parent (bv_prev s);
          (r, s1) =
            (if bv_origin s \<noteq> bp_origin B (bv_prev s) then
               let s1 = s\<lparr>bv_origin := bp_origin B (bv_prev s)\<rparr> in
               if \<not> behind then
                 rbind (ok_or (bv_origin s1) (crit MissingOrigin)) s1 (\<lambda>origin.
                   (Ok (), s1\<lparr>bv_l1_blocks := bv_l1_blocks s1 @ [origin]\<rparr>))
               else (Ok (), s1\<lparr>bv_l1_blocks := []\<rparr>)
             else (Ok (), s)) in
      rbind r s1 (\<lambda>_. (Ok (), s1\<lparr>bv_l1_blocks := advance_epoch (bnh_number (l2_l1_origin parent)) (bv_l1_blocks s1)\<rparr>)))"

text \<open>Indexing an empty window panics.\<close>

definition try_derive_empty_batch :: "l2_block_info \<Rightarrow> 'p batch_validator \<Rightarrow> single_batch presult \<times> 'p batch_validator" where
  "try_derive_empty_batch parent s =
     (case bv_l1_blocks s of
        [] \<Rightarrow> (Panic, s)
      | epoch # later \<Rightarrow>
          rbind (ok_or (bv_origin s) (crit MissingOrigin)) s (\<lambda>stage_origin.
          let expiry_epoch = bi_number epoch + rc_seq_window_size (bv_cfg s);
              force_empty_batches = (expiry_epoch \<le> bi_number stage_origin);
              first_of_epoch = (bi_number epoch = bnh_number (l2_l1_origin parent) + 1);
              next_timestamp = bi_timestamp epoch + rc_block_time (bv_cfg s) in
          if \<not> force_empty_batches then (Err (temp Eof), s)
          else
            case later of
              [] \<Rightarrow> (Err (temp Eof), s)
            | next_epoch # _ \<Rightarrow>
                if next_timestamp < bi_timestamp next_epoch \<or> first_of_epoch then
                  (Ok \<lparr>sb_parent_hash = bi_hash (l2_block parent), sb_epoch_num = bi_number epoch,
                       sb_epoch_hash = bi_hash epoch, sb_timestamp = next_timestamp, sb_transactions = []\<rparr>, s)
                else (Err (temp Eof), s\<lparr>bv_l1_blocks := later\<rparr>)))"

text \<open>The verdict on a batch of the previous stage.\<close>

definition forward_batch ::
  "'p batch_provider \<Rightarrow> l2_block_info \<Rightarrow> block_info \<Rightarrow> batch \<Rightarrow> 'p batch_validator \<Rightarrow> single_batch presult \<times> 'p batch_validator" where
  "forward_batch B parent stage_origin nb s =
     (case nb of
        Span _ \<Rightarrow> (Err (crit InvalidBatchType), s)
      | Single next_batch \<Rightarrow>
          (case single_check_batch (bv_cfg s) (bv_l1_blocks s) parent stage_origin next_batch of
             Accept \<Rightarrow> (Ok next_batch, s)
           | Past \<Rightarrow> (Err (temp NotEnoughData), s)
           | Drop \<Rightarrow> (Err (temp NotEnoughData), s\<lparr>bv_prev := bp_flush B (bv_prev s)\<rparr>)
           | Undecided \<Rightarrow> (Err (temp NotEnoughData), s)
           | Future \<Rightarrow> (Err (crit InvalidBatchValidity), s)))"

definition validator_next_batch ::
  "'p batch_provider \<Rightarrow> l2_block_info \<Rightarrow> 'p batch_validator \<Rightarrow> single_batch presult \<times> 'p batch_validator" where
  "validator_next_batch B parent s0 =
     (let (r1, s) = update_origins B parent s0 in
      rbind r1 s (\<lambda>_.
      rbind (ok_or (bv_origin s) (crit MissingOrigin)) s (\<lambda>stage_origin.
      let (pulled, p) = bp_next_batch B parent (bv_l1_blocks s) (bv_prev s); s' = s\<lparr>bv_prev := p\<rparr> in
      if origin_behind B parent (bv_prev s) \<or> bnh_number (l2_l1_origin parent) = bi_number stage_origin then
        rbind pulled s' (\<lambda>_. (Err (temp NotEnoughData), s'))
      else if length (bv_l1_blocks s) < 2 then (Err (crit MissingOrigin), s)
      else
        let epoch = hd (bv_l1_blocks s) in
        if l2_l1_origin parent \<noteq> block_id epoch \<and> bnh_number (l2_l1_origin parent) \<noteq> bi_number epoch - 1 then
          (Err (ResetKind (L1OriginMismatch (bnh_number (l2_l1_origin parent)) (bi_number epoch - 1))), s)
        else
          case pulled of
            Ok next_batch \<Rightarrow> forward_batch B parent stage_origin next_batch s'
          | Err e \<Rightarrow> if e = Temporary Eof then try_derive_empty_batch parent s' else (Err e, s')
          | Panic \<Rightarrow> (Panic, s'))))"

definition validator_is_last_in_span :: "'p batch_provider \<Rightarrow> 'p batch_validator \<Rightarrow> bool" where
  "validator_is_last_in_span B s \<longleftrightarrow> bp_span_buffer_size B (bv_prev s) = 0"

definition validator_origin :: "'p batch_provider \<Rightarrow> 'p batch_validator \<Rightarrow> block_info option" where
  "validator_origin B s = bp_origin B (bv_prev s)"

definition validator_advance :: "'p batch_provider \<Rightarrow> 'p batch_validator \<Rightarrow> unit presult \<times> 'p batch_validator" where
  "validator_advance B s = (let (r, p) = bp_advance B (bv_prev s) in (r, s\<lparr>bv_prev := p\<rparr>))"

definition validator_signal :: "'p batch_provider \<Rightarrow> signal \<Rightarrow> 'p batch_validator \<Rightarrow> unit presult \<times> 'p batch_validator" where
  "validator_signal B sg s =
     (let (r, p) = bp_signal B sg (bv_prev s); s1 = s\<lparr>bv_prev := p\<rparr> in
      rbind r s1 (\<lambda>_.
        case sg of
          SigReset x \<Rightarrow> (Ok (), s1\<lparr>bv_origin := Some (sig_l1_origin x), bv_l1_blocks := [sig_l1_origin x]\<rparr>)
        | _ \<Rightarrow> (Ok (), s1)))"

section \<open>The batches it hands out\<close>

definition window_expired :: "l2_block_info \<Rightarrow> 'p batch_validator \<Rightarrow> single_batch \<Rightarrow> bool" where
  "window_expired parent s b \<longleftrightarrow>
     (\<exists>epoch next_epoch rest origin. bv_l1_blocks s = epoch # next_epoch # rest \<and> bv_origin s = Some origin
       \<and> bi_number epoch + rc_seq_window_size (bv_cfg s) \<le> bi_number origin
       \<and> (bi_timestamp epoch + rc_block_time (bv_cfg s) < bi_timestamp next_epoch \<or> bi_number epoch = bnh_number (l2_l1_origin parent) + 1)
       \<and> b = \<lparr>sb_parent_hash = bi_hash (l2_block parent), sb_epoch_num = bi_number epoch, sb_epoch_hash = bi_hash epoch,
               sb_timestamp = bi_timestamp epoch + rc_block_time (bv_cfg s), sb_transactions = []\<rparr>)"

lemma try_derive_empty_batch_Ok:
  assumes "try_derive_empty_batch parent s = (Ok b, s')"
  shows "window_expired parent s b \<and> s' = s"
proof -
  obtain epoch later where l: "bv_l1_blocks s = epoch # later"
    using assms by (cases "bv_l1_blocks s") (auto simp: try_derive_empty_batch_def)
  obtain origin where o: "bv_origin s = Some origin"
    using assms l by (cases "bv_origin s") (auto simp: try_derive_empty_batch_def)
  obtain next_epoch rest where "later = next_epoch # rest"
    using assms l o by (cases later) (auto simp: try_derive_empty_batch_def Let_def split: if_splits)
  with assms l o show ?thesis by (auto simp: try_derive_empty_batch_def window_expired_def Let_def split: if_splits)
qed

lemma forward_batch_Ok:
  "forward_batch B parent origin nb s = (Ok b, s') \<Longrightarrow>
     nb = Single b \<and> single_check_batch (bv_cfg s) (bv_l1_blocks s) parent origin b = Accept \<and> s' = s"
  by (cases nb) (auto simp: forward_batch_def split: batch_validity.splits)

lemma update_origins_frame:
  "bv_cfg (snd (update_origins B parent s)) = bv_cfg s" "bv_prev (snd (update_origins B parent s)) = bv_prev s"
  by (auto simp: update_origins_def Let_def split: rbind_splits)

lemma validator_next_batch_Ok:
  assumes "validator_next_batch B parent s0 = (Ok b, s')"
  obtains origin where "bv_origin s' = Some origin" "2 \<le> length (bv_l1_blocks s')" "\<not> origin_behind B parent (bv_prev s0)"
    "l2_l1_origin parent = block_id (hd (bv_l1_blocks s')) \<or> bnh_number (l2_l1_origin parent) = bi_number (hd (bv_l1_blocks s')) - 1"
    "fst (bp_next_batch B parent (bv_l1_blocks s') (bv_prev s0)) = Ok (Single b)
       \<and> single_check_batch (bv_cfg s') (bv_l1_blocks s') parent origin b = Accept
     \<or> fst (bp_next_batch B parent (bv_l1_blocks s') (bv_prev s0)) = Err (temp Eof) \<and> window_expired parent s' b"
proof -
  obtain r1 s where u: "update_origins B parent s0 = (r1, s)" by force
  obtain pulled p where n: "bp_next_batch B parent (bv_l1_blocks s) (bv_prev s) = (pulled, p)" by force
  have prev: "bv_prev s = bv_prev s0" using update_origins_frame(2) [of B parent s0] u by simp
  from assms u obtain x where r1: "r1 = Ok x" by (cases r1) (auto simp: validator_next_batch_def)
  from assms u r1 obtain origin where o: "bv_origin s = Some origin"
    by (cases "bv_origin s") (auto simp: validator_next_batch_def)
  have c: "\<not> origin_behind B parent (bv_prev s)" "\<not> length (bv_l1_blocks s) < 2"
    "l2_l1_origin parent = block_id (hd (bv_l1_blocks s)) \<or> bnh_number (l2_l1_origin parent) = bi_number (hd (bv_l1_blocks s)) - 1"
    using assms u r1 o n by (auto simp: validator_next_batch_def Let_def split: if_splits rbind_splits)
  show ?thesis
  proof (cases pulled)
    case (Ok nb)
    with assms u r1 o n c have "forward_batch B parent origin nb (s\<lparr>bv_prev := p\<rparr>) = (Ok b, s')"
      by (auto simp: validator_next_batch_def Let_def split: if_splits)
    from forward_batch_Ok [OF this] that [of origin] Ok o n c prev show ?thesis by auto
  next
    case (Err e)
    with assms u r1 o n c have "e = temp Eof" "try_derive_empty_batch parent (s\<lparr>bv_prev := p\<rparr>) = (Ok b, s')"
      by (auto simp: validator_next_batch_def Let_def temp_def split: if_splits)
    with try_derive_empty_batch_Ok [OF this(2)] that [of origin] Err o n c prev show ?thesis by auto
  next
    case Panic
    with assms u r1 o n c show ?thesis by (auto simp: validator_next_batch_def Let_def split: if_splits)
  qed
qed

section \<open>The window of L1 blocks\<close>

definition validator_window :: "block_info option \<Rightarrow> 'p batch_validator \<Rightarrow> bool" where
  "validator_window low s \<longleftrightarrow>
     successively extends (bv_l1_blocks s)
   \<and> (bv_l1_blocks s \<noteq> [] \<longrightarrow> bv_origin s = Some (last (bv_l1_blocks s)) \<and> (low = bv_origin s \<or> advances (bv_origin s) low))"

lemma validator_windowI:
  assumes "successively extends bs" and "suffix bs' bs" and "bs \<noteq> [] \<Longrightarrow> bv_origin s = Some (last bs)"
    and "low = bv_origin s \<or> advances (bv_origin s) low" and "bv_l1_blocks s = bs'"
  shows "validator_window low s"
proof -
  obtain zs where "bs = zs @ bs'" using assms(2) by (auto simp: suffix_def)
  with assms show ?thesis by (auto simp: validator_window_def successively_append_iff)
qed

lemma suffix_advance_epoch: "suffix (advance_epoch n bs) bs"
  by (auto simp: advance_epoch_def suffix_def) (metis takeWhile_dropWhile_id)

lemma update_origins_window:
  assumes "validator_window (bp_origin B (bv_prev s)) s"
  shows "validator_window (bp_origin B (bv_prev s)) (snd (update_origins B parent s))
    \<and> bv_origin (snd (update_origins B parent s)) = bp_origin B (bv_prev s)"
proof (cases "bv_origin s = bp_origin B (bv_prev s)")
  case True
  then have "update_origins B parent s = (Ok (), s\<lparr>bv_l1_blocks := advance_epoch (bnh_number (l2_l1_origin parent)) (bv_l1_blocks s)\<rparr>)"
    by (simp add: update_origins_def)
  moreover have "validator_window (bp_origin B (bv_prev s)) (s\<lparr>bv_l1_blocks := advance_epoch (bnh_number (l2_l1_origin parent)) (bv_l1_blocks s)\<rparr>)"
    using assms True by (intro validator_windowI [of "bv_l1_blocks s", OF _ suffix_advance_epoch]) (auto simp: validator_window_def)
  ultimately show ?thesis using True by simp
next
  case False
  show ?thesis
  proof (cases "origin_behind B parent (bv_prev s)")
    case True
    with False show ?thesis by (simp add: update_origins_def validator_window_def advance_epoch_def)
  next
    case ahead: False
    then obtain b where b: "bp_origin B (bv_prev s) = Some b" by (auto simp: origin_behind_def split: option.splits)
    let ?s = "s\<lparr>bv_origin := Some b, bv_l1_blocks := advance_epoch (bnh_number (l2_l1_origin parent)) (bv_l1_blocks s @ [b])\<rparr>"
    have "update_origins B parent s = (Ok (), ?s)" using False ahead b by (simp add: update_origins_def)
    moreover have "successively extends (bv_l1_blocks s @ [b])"
      using assms False b by (auto simp: validator_window_def successively_append_iff advances_def)
    then have "validator_window (Some b) ?s"
      by (intro validator_windowI [of "bv_l1_blocks s @ [b]", OF _ suffix_advance_epoch]) simp_all
    ultimately show ?thesis using b by simp
  qed
qed

lemma try_derive_empty_batch_window:
  assumes "validator_window low s" and "bv_origin s = low"
  shows "validator_window low (snd (try_derive_empty_batch parent s)) \<and> bv_origin (snd (try_derive_empty_batch parent s)) = low
    \<and> bv_prev (snd (try_derive_empty_batch parent s)) = bv_prev s"
proof -
  have "snd (try_derive_empty_batch parent s) = s \<or> (\<exists>e n bs. bv_l1_blocks s = e # n # bs \<and> snd (try_derive_empty_batch parent s) = s\<lparr>bv_l1_blocks := n # bs\<rparr>)"
    by (auto simp: try_derive_empty_batch_def Let_def split: list.splits rbind_splits)
  with assms show ?thesis by (auto simp: validator_window_def)
qed

context batch_source
begin

lemma validator_next_batch_keeps:
  assumes "inv (bv_prev s0)" and "validator_window (bp_origin B (bv_prev s0)) s0"
  shows "inv (bv_prev (snd (validator_next_batch B parent s0)))
    \<and> bp_origin B (bv_prev (snd (validator_next_batch B parent s0))) = bp_origin B (bv_prev s0)
    \<and> validator_window (bp_origin B (bv_prev s0)) (snd (validator_next_batch B parent s0))
    \<and> bv_origin (snd (validator_next_batch B parent s0)) = bp_origin B (bv_prev s0)"
proof -
  obtain r1 s where u: "update_origins B parent s0 = (r1, s)" by force
  obtain pulled p where n: "bp_next_batch B parent (bv_l1_blocks s) (bv_prev s) = (pulled, p)" by force
  have prev: "bv_prev s = bv_prev s0" using update_origins_frame(2) [of B parent s0] u by simp
  have w: "validator_window (bp_origin B (bv_prev s0)) s" "bv_origin s = bp_origin B (bv_prev s0)"
    using update_origins_window [OF assms(2), of parent] u by simp_all
  have p: "inv p" "bp_origin B p = bp_origin B (bv_prev s0)"
    using bp_pull [of "bv_prev s0" parent "bv_l1_blocks s"] assms(1) n prev by simp_all
  let ?s = "s\<lparr>bv_prev := p\<rparr>" and ?f = "s\<lparr>bv_prev := bp_flush B p\<rparr>"
  have w': "validator_window (bp_origin B (bv_prev s0)) ?s" "bv_origin ?s = bp_origin B (bv_prev s0)"
    "validator_window (bp_origin B (bv_prev s0)) ?f"
    using w by (simp_all add: validator_window_def)
  have "snd (validator_next_batch B parent s0) \<in> {s, ?s, ?f, snd (try_derive_empty_batch parent ?s)}"
    using u n by (auto simp: validator_next_batch_def forward_batch_def Let_def split: rbind_splits res.splits batch.splits batch_validity.splits)
  with try_derive_empty_batch_window [OF w'(1,2), of parent] w w' p assms(1) prev bp_flush_inv [OF p(1)] bp_flush_origin [OF p(1)]
  show ?thesis by auto
qed

lemma validator_advance_keeps:
  assumes "inv (bv_prev s)" and "validator_window (bp_origin B (bv_prev s)) s" and "bv_origin s = bp_origin B (bv_prev s)"
  shows "inv (bv_prev (snd (validator_advance B s))) \<and> validator_window (bp_origin B (bv_prev (snd (validator_advance B s)))) (snd (validator_advance B s))"
proof -
  obtain r p where a: "bp_advance B (bv_prev s) = (r, p)" by fastforce
  have "bp_origin B p = bp_origin B (bv_prev s) \<or> advances (bp_origin B (bv_prev s)) (bp_origin B p)" "inv p"
    using advance_Ok [of "bv_prev s"] advance_not_Ok [of "bv_prev s"] advance_inv [of "bv_prev s"] assms(1) a by auto
  with assms a show ?thesis by (auto simp: validator_advance_def validator_window_def)
qed

lemma validator_signal_keeps:
  assumes "inv (bv_prev s)" and "validator_window (bp_origin B (bv_prev s)) s"
    and "validator_signal B sg s = (Ok (), s')"
    and "\<And>x. sg = SigActivation x \<Longrightarrow> bp_origin B (bv_prev s) = Some (sig_l1_origin x)"
  shows "inv (bv_prev s') \<and> validator_window (bp_origin B (bv_prev s')) s'"
proof -
  obtain r p where a: "bp_signal B sg (bv_prev s) = (r, p)" by fastforce
  with assms(3) have r: "r = Ok ()" by (auto simp: validator_signal_def Let_def split: rbind_splits)
  have p: "inv p" "bp_origin B p = (case signal_origin sg of None \<Rightarrow> bp_origin B (bv_prev s) | Some b \<Rightarrow> Some b)"
    using signal_inv [where s = "bv_prev s" and sg = sg] signal_Ok [where s = "bv_prev s" and sg = sg] assms(1) a r by (auto split: option.splits)
  with assms a r show ?thesis by (cases sg) (auto simp: validator_signal_def validator_window_def)
qed

end

section \<open>Properties\<close>

text \<open>The life of the stage over the streams of the pipeline: pulls, advances after a pull, and signals.\<close>

inductive validator_run :: "batch_stream_state batch_validator \<Rightarrow> bool \<Rightarrow> batch_stream_state batch_validator \<Rightarrow> bool \<Rightarrow> bool" where
  vrun_refl: "validator_run s pulled s pulled"
| vrun_pull: "\<lbrakk> validator_run s pulled t d; validator_next_batch (l1_batch_provider F Z A cp dap) parent t = (r, u) \<rbrakk>
     \<Longrightarrow> validator_run s pulled u True"
| vrun_advance: "\<lbrakk> validator_run s pulled t True; validator_advance (l1_batch_provider F Z A cp dap) t = (r, u) \<rbrakk>
     \<Longrightarrow> validator_run s pulled u False"
| vrun_signal: "\<lbrakk> validator_run s pulled t d; validator_signal (l1_batch_provider F Z A cp dap) sg t = (Ok (), u);
      \<And>x. sg = SigActivation x \<Longrightarrow> bp_origin (l1_batch_provider F Z A cp dap) (bv_prev t) = Some (sig_l1_origin x) \<rbrakk>
     \<Longrightarrow> validator_run s pulled u False"

definition stream_origin :: "batch_stream_state batch_validator \<Rightarrow> block_info option" where
  "stream_origin s = state_origin (batch_queue_new (bv_cfg s) (bv_prev s))"

lemma bp_origin_stream: "bp_origin (l1_batch_provider F Z A cp dap) (bv_prev s) = stream_origin s"
  using bp_origin_state [of F Z A cp dap "batch_queue_new (bv_cfg s) (bv_prev s)"] by (simp add: stream_origin_def batch_queue_new_def)

definition validator_inv :: "batch_stream_state batch_validator \<Rightarrow> bool" where
  "validator_inv s \<longleftrightarrow> stream_inv (bv_prev s) \<and> validator_window (stream_origin s) s"

lemma validator_run_inv:
  assumes "validator_run s pulled t d" and "validator_inv s" and "pulled \<longrightarrow> bv_origin s = stream_origin s"
  shows "validator_inv t \<and> (d \<longrightarrow> bv_origin t = stream_origin t)"
  using assms
proof (induction rule: validator_run.induct)
  case (vrun_pull s pulled t d F Z A cp dap parent r u)
  then have "stream_inv (bv_prev t)" "validator_window (bp_origin (l1_batch_provider F Z A cp dap) (bv_prev t)) t"
    by (simp_all add: validator_inv_def bp_origin_stream)
  from l1_batches.validator_next_batch_keeps [OF this, of parent] vrun_pull(2) show ?case
    by (simp add: validator_inv_def bp_origin_stream)
next
  case (vrun_advance s pulled t F Z A cp dap r u)
  then have "stream_inv (bv_prev t)" "validator_window (bp_origin (l1_batch_provider F Z A cp dap) (bv_prev t)) t"
      "bv_origin t = bp_origin (l1_batch_provider F Z A cp dap) (bv_prev t)"
    by (simp_all add: validator_inv_def bp_origin_stream)
  from l1_batches.validator_advance_keeps [OF this] vrun_advance(2) show ?case by (simp add: validator_inv_def bp_origin_stream)
next
  case (vrun_signal s pulled t d F Z A cp dap sg u)
  then have "stream_inv (bv_prev t)" "validator_window (bp_origin (l1_batch_provider F Z A cp dap) (bv_prev t)) t"
    by (simp_all add: validator_inv_def bp_origin_stream)
  from l1_batches.validator_signal_keeps [OF this vrun_signal(2,3)] show ?case by (simp add: validator_inv_def bp_origin_stream)
qed simp

definition validator_stack :: "rollup_config \<Rightarrow> frame_queue_state \<Rightarrow> batch_stream_state batch_validator" where
  "validator_stack cfg frames =
     batch_validator_new cfg (batch_stream_new (channel_reader_new (channel_provider_new cfg frames) cfg) cfg)"

lemma validator_stack_inv: "validator_inv (validator_stack cfg frames)"
  using batch_queue_stack_inv [of cfg frames]
  by (simp add: validator_inv_def validator_stack_def batch_validator_new_def bq_inv_def batch_queue_stack_def batch_queue_new_def validator_window_def)

text \<open>
  A batch of the validator builds on the parent, and it is either a batch of the stream that
  the rules admit on the parent with the window and the origin of the stage, or an empty batch
  of the first epoch of the window, given only when the stream is out of data and the sequencing
  window of that epoch has expired.
\<close>

theorem validator_batch_is_justified:
  assumes "validator_next_batch B parent s = (Ok b, s')"
  shows "sb_parent_hash b = bi_hash (l2_block parent) \<and>
     (\<exists>origin. bv_origin s' = Some origin \<and>
       (fst (bp_next_batch B parent (bv_l1_blocks s') (bv_prev s)) = Ok (Single b) \<and> admissible (bv_cfg s') (bv_l1_blocks s') parent origin b
      \<or> fst (bp_next_batch B parent (bv_l1_blocks s') (bv_prev s)) = Err (temp Eof) \<and> window_expired parent s' b))"
proof -
  obtain origin where o: "bv_origin s' = Some origin" and
    c: "fst (bp_next_batch B parent (bv_l1_blocks s') (bv_prev s)) = Ok (Single b)
       \<and> single_check_batch (bv_cfg s') (bv_l1_blocks s') parent origin b = Accept
     \<or> fst (bp_next_batch B parent (bv_l1_blocks s') (bv_prev s)) = Err (temp Eof) \<and> window_expired parent s' b"
    using validator_next_batch_Ok [OF assms] by blast
  have "sb_parent_hash b = bi_hash (l2_block parent)"
    using c single_Accept_parent by (auto simp: window_expired_def)
  with o c single_check_batch_Accept show ?thesis by blast
qed

text \<open>
  From the stack of stages on, whatever the providers answer and however pulls, advances after
  a pull and signals follow each other, the window of the validator is a chain of successive L1
  blocks that ends in the origin of the stage.
\<close>

theorem validator_window_consecutive:
  assumes "validator_run (validator_stack cfg frames) False t d"
  shows "successively extends (bv_l1_blocks t) \<and> (bv_l1_blocks t = [] \<or> bv_origin t = Some (last (bv_l1_blocks t)))"
  using validator_run_inv [OF assms validator_stack_inv] by (auto simp: validator_inv_def validator_window_def)

text \<open>
  The timestamp of an empty batch is taken from the epoch and not from the parent. When the safe
  head is already past the first slot of the epoch, the batch that the validator creates lies in
  the past of the safe head by the rules of the same stage, and asking again for the same parent
  creates it again.
\<close>

theorem forced_batch_lies_in_the_past:
  assumes "try_derive_empty_batch parent s = (Ok b, s')"
    and "bi_timestamp (hd (bv_l1_blocks s)) + rc_block_time (bv_cfg s) < bi_timestamp (l2_block parent)"
  shows "single_check_batch (bv_cfg s) (bv_l1_blocks s) parent origin b = Past \<and> try_derive_empty_batch parent s' = (Ok b, s')"
  using try_derive_empty_batch_Ok [OF assms(1)] assms by (auto simp: window_expired_def single_check_batch_def)

subsection \<open>Examples\<close>

definition ex_validator :: "batch_stream_state batch_validator" where
  "ex_validator = (validator_stack ex_rollup_config ex_frame_queue)\<lparr>bv_origin := Some (ex_block 9), bv_l1_blocks := [ex_block 5, ex_block 6]\<rparr>"

theorem forced_batch_lies_in_the_past_witness:
  "single_check_batch ex_rollup_config [ex_block 5, ex_block 6] (ex_safe_head\<lparr>l2_block := (l2_block ex_safe_head)\<lparr>bi_timestamp := 58\<rparr>\<rparr>) (ex_block 9)
     \<lparr>sb_parent_hash = bi_hash (l2_block ex_safe_head), sb_epoch_num = 5, sb_epoch_hash = bi_hash (ex_block 5),
      sb_timestamp = bi_timestamp (ex_block 5) + rc_block_time ex_rollup_config, sb_transactions = []\<rparr> = Past"
  using forced_batch_lies_in_the_past [of "ex_safe_head\<lparr>l2_block := (l2_block ex_safe_head)\<lparr>bi_timestamp := 58\<rparr>\<rparr>" ex_validator _ _ "ex_block 9"]
  by (simp add: try_derive_empty_batch_def ex_validator_def validator_stack_def batch_validator_new_def ex_safe_head_def ex_rollup_config_def ex_block_def)

text \<open>A stream that is out of data at L1 block 9.\<close>

definition ex_dry_stream :: "unit batch_provider" where
  "ex_dry_stream =
     \<lparr>bp_next_batch = (\<lambda>_ _ p. (Err (temp Eof), p)), bp_span_buffer_size = (\<lambda>_. 0), bp_flush = (\<lambda>p. p),
      bp_origin = (\<lambda>_. Some (ex_block 9)), bp_advance = (\<lambda>p. (Err (temp Eof), p)), bp_signal = (\<lambda>_ p. (Ok (), p))\<rparr>"

theorem validator_batch_is_justified_witness:
  "\<exists>b s'. validator_next_batch ex_dry_stream ex_safe_head
       \<lparr>bv_cfg = ex_rollup_config, bv_prev = (), bv_origin = Some (ex_block 9), bv_l1_blocks = [ex_block 5, ex_block 6]\<rparr> = (Ok b, s')
     \<and> sb_parent_hash b = [7] \<and> window_expired ex_safe_head s' b"
proof -
  let ?s = "\<lparr>bv_cfg = ex_rollup_config, bv_prev = (), bv_origin = Some (ex_block 9), bv_l1_blocks = [ex_block 5, ex_block 6]\<rparr>"
  obtain b s' where v: "validator_next_batch ex_dry_stream ex_safe_head ?s = (Ok b, s')"
    by (simp add: validator_next_batch_def update_origins_def ex_dry_stream_def origin_behind_def advance_epoch_def
        try_derive_empty_batch_def ex_safe_head_def ex_rollup_config_def ex_block_def block_id_def)
  from validator_batch_is_justified [OF v] v show ?thesis by (auto simp: ex_safe_head_def ex_dry_stream_def)
qed

lemma ex_validator_reset:
  "\<exists>t. validator_signal (l1_batch_provider ex_l2 ex_codec ex_abi ex_l1 ex_da) (SigReset ex_reset) (validator_stack ex_rollup_config ex_frame_queue) = (Ok (), t)
     \<and> bv_l1_blocks t = [ex_block 3]"
proof -
  obtain t where t: "queue_signal (l1_batch_provider ex_l2 ex_codec ex_abi ex_l1 ex_da) (SigReset ex_reset)
      (batch_queue_stack ex_rollup_config ex_frame_queue) = (Ok (), t)" "bq_l1_blocks t = [ex_block 3]"
    using ex_queue_reset by blast
  then show ?thesis
    by (auto simp: validator_signal_def queue_signal_def validator_stack_def batch_queue_stack_def batch_validator_new_def
        batch_queue_new_def Let_def split: prod.splits rbind_splits)
qed

theorem validator_window_consecutive_witness:
  "\<exists>t. validator_run (validator_stack ex_rollup_config ex_frame_queue) False t False \<and> bv_l1_blocks t = [ex_block 3]
     \<and> successively extends (bv_l1_blocks t) \<and> (bv_l1_blocks t = [] \<or> bv_origin t = Some (last (bv_l1_blocks t)))"
proof -
  obtain t where t: "validator_signal (l1_batch_provider ex_l2 ex_codec ex_abi ex_l1 ex_da) (SigReset ex_reset)
      (validator_stack ex_rollup_config ex_frame_queue) = (Ok (), t)" "bv_l1_blocks t = [ex_block 3]"
    using ex_validator_reset by blast
  from vrun_signal [OF vrun_refl t(1)] have "validator_run (validator_stack ex_rollup_config ex_frame_queue) False t False" by simp
  from this validator_window_consecutive [OF this] t(2) show ?thesis by blast
qed

end
