(* ===== verification/Span_Bits.thy ===== *)
theory Span_Bits
  imports Batches
begin

text \<open>
  The bit lists of span batches (\<^verbatim>\<open>derive/src/batch/span_batch/bits.rs\<close>): a big-endian integer, left-padded
  with zeroes to whole bytes. The lists that the batcher builds bit by bit are related to lists of
  booleans.
\<close>

section \<open>Definitions\<close>

definition leading_zeros :: "u8 \<Rightarrow> nat" where
  "leading_zeros b = length (takeWhile (\<lambda>i. \<not> bit b i) [7, 6, 5, 4, 3, 2, 1, 0])"

definition count_ones :: "u8 \<Rightarrow> nat" where
  "count_ones b = length (filter (bit b) [0, 1, 2, 3, 4, 5, 6, 7])"

fun bit_len :: "bytes \<Rightarrow> nat" where
  "bit_len [] = 0"
| "bit_len (byte # bytes) =
     (if byte \<noteq> 0 then (7 - leading_zeros byte) + 1 + length bytes * 8 else bit_len bytes)"

definition buffer_len :: "nat \<Rightarrow> nat" where
  "buffer_len bit_length = bit_length div 8 + (if bit_length mod 8 \<noteq> 0 then 1 else 0)"

definition bits_decode :: "bytes \<Rightarrow> nat \<Rightarrow> (bytes \<times> bytes, span_batch_error) res" where
  "bits_decode b bit_length =
     (let n = buffer_len bit_length;
          (bits, rest) = (if length b < n then (b @ replicate (n - length b) 0, []) else (take n b, drop n b)) in
      if bit_len bits > bit_length then Err BitfieldTooLong else Ok (bits, rest))"

text \<open>The padding has a negative length when the list has more bytes than the buffer: the slice panics.\<close>

definition bits_encode :: "nat \<Rightarrow> bytes \<Rightarrow> (bytes, span_batch_error) res" where
  "bits_encode bit_length bits =
     (if bit_len bits > bit_length then Err BitfieldTooLong
      else if length bits > buffer_len bit_length then Panic
      else Ok (replicate (buffer_len bit_length - length bits) 0 @ bits))"

definition get_bit :: "bytes \<Rightarrow> nat \<Rightarrow> u8 option" where
  "get_bit bits index =
     (let byte_index = index div 8; bit_index = index mod 8 in
      if byte_index < length bits then
        Some (if bits ! (length bits - byte_index - 1) AND push_bit bit_index 1 \<noteq> 0 then 1 else 0)
      else None)"

definition resize_from_right :: "bytes \<Rightarrow> nat \<Rightarrow> bytes" where
  "resize_from_right v new_size =
     (if new_size < length v then drop (length v - new_size) v
      else replicate (new_size - length v) 0 @ v)"

definition set_bit_at :: "nat \<Rightarrow> bool \<Rightarrow> bytes \<Rightarrow> bytes" where
  "set_bit_at index v bits =
     (let byte_index = index div 8; bit_index = index mod 8;
          bits = (if byte_index \<ge> length bits then resize_from_right bits (byte_index + 1) else bits);
          k = length bits - byte_index - 1 in
      bits[k := (if v then bits ! k OR push_bit bit_index 1 else bits ! k AND NOT (push_bit bit_index 1))])"

section \<open>Bits as booleans\<close>

definition bit_at :: "bytes \<Rightarrow> nat \<Rightarrow> bool" where
  "bit_at bits i \<longleftrightarrow> i < 8 * length bits \<and> bit (bits ! (length bits - i div 8 - 1)) (i mod 8)"

lemma less_8_cases: "(k :: nat) < 8 \<longleftrightarrow> k = 0 \<or> k = 1 \<or> k = 2 \<or> k = 3 \<or> k = 4 \<or> k = 5 \<or> k = 6 \<or> k = 7"
  by arith

lemma div8_less: "i div 8 < n \<longleftrightarrow> i < 8 * (n :: nat)"
  by (simp add: div_less_iff_less_mult mult.commute)

lemma get_bit_iff: "get_bit bits i = (if i < 8 * length bits then Some (if bit_at bits i then 1 else 0) else None)"
  by (simp add: get_bit_def bit_at_def div8_less and_exp_eq_0_iff_not_bit Let_def)

lemma bit_at_ge: "8 * length bits \<le> i \<Longrightarrow> \<not> bit_at bits i"
  by (simp add: bit_at_def)

lemma bit_at_Cons: "bit_at (b # bs) i \<longleftrightarrow> (if i < 8 * length bs then bit_at bs i else i < 8 * length bs + 8 \<and> bit b (i - 8 * length bs))"
proof (cases "i < 8 * length bs")
  case True
  then have "Suc (length bs) - i div 8 - 1 = Suc (length bs - i div 8 - 1)" by (simp flip: div8_less)
  with True show ?thesis by (simp add: bit_at_def)
next
  case False
  show ?thesis
  proof (cases "i < 8 * length bs + 8")
    case True
    with False have d: "i div 8 = length bs" by (intro div_nat_eqI) auto
    then have "i mod 8 = i - 8 * length bs" by (simp add: modulo_nat_def)
    with False True d show ?thesis by (simp add: bit_at_def)
  qed (simp add: bit_at_def False)
qed

lemma bit_at_zero_Cons [simp]: "bit_at (0 # bits) i = bit_at bits i"
  using bit_at_ge [of bits i] by (auto simp: bit_at_Cons)

lemma bit_at_padded [simp]: "bit_at (replicate n 0 @ bits) i \<longleftrightarrow> bit_at bits i"
  by (induction n) simp_all

lemma leading_zeros_top:
  assumes "bit b m" and "\<And>k. m < k \<Longrightarrow> \<not> bit b k"
  shows "7 - leading_zeros b = m"
proof -
  have "m < 8" using assms(1) bit_imp_le_length by fastforce
  then consider "m = 0" | "m = 1" | "m = 2" | "m = 3" | "m = 4" | "m = 5" | "m = 6" | "m = 7" by (auto simp: less_8_cases)
  then show ?thesis by cases (insert assms, simp_all add: leading_zeros_def)
qed

lemma leading_zeros_bound:
  assumes "b \<noteq> 0"
  shows "7 - leading_zeros b < n \<longleftrightarrow> (\<forall>k \<ge> n. \<not> bit b k)"
proof -
  have fin: "finite {k. bit b k}" by (rule finite_subset [of _ "{..< 8}"]) (auto dest: bit_imp_le_length)
  have "{k. bit b k} \<noteq> {}" using assms bit_word_eqI [of b 0] by auto
  from Max_in [OF fin this] Max_ge [OF fin] have m: "bit b (Max {k. bit b k})" "\<And>k. bit b k \<Longrightarrow> k \<le> Max {k. bit b k}" by simp_all
  then have "7 - leading_zeros b = Max {k. bit b k}" using leading_zeros_top [of b "Max {k. bit b k}"] by (meson not_less)
  with m show ?thesis by (metis leD not_le_imp_less order.strict_trans1)
qed

lemma bit_len_le: "bit_len bits \<le> n \<longleftrightarrow> (\<forall>i \<ge> n. \<not> bit_at bits i)"
proof (induction bits)
  case Nil
  then show ?case by (simp add: bit_at_def)
next
  case (Cons b bs)
  show ?case
  proof (cases "b = 0")
    case True
    then have "bit_at (b # bs) i = bit_at bs i" for i using bit_at_ge [of bs i] by (auto simp: bit_at_Cons)
    with True Cons show ?thesis by simp
  next
    case False
    then obtain j where j: "bit b j" using bit_word_eqI [of b 0] by auto
    then have "j < 8" using bit_imp_le_length by fastforce
    with j have top: "bit_at (b # bs) (8 * length bs + j)" by (simp add: bit_at_Cons)
    have "bit_len (b # bs) \<le> n \<longleftrightarrow> 8 * length bs < n \<and> 7 - leading_zeros b < n - 8 * length bs" using False by auto
    also have "\<dots> \<longleftrightarrow> 8 * length bs < n \<and> (\<forall>k \<ge> n - 8 * length bs. \<not> bit b k)"
      using leading_zeros_bound [OF False] by simp
    also have "\<dots> \<longleftrightarrow> (\<forall>i \<ge> n. \<not> bit_at (b # bs) i)"
    proof (cases "8 * length bs < n")
      case True
      have "(\<forall>k \<ge> n - 8 * length bs. \<not> bit b k) \<longleftrightarrow> (\<forall>i \<ge> n. \<not> bit b (i - 8 * length bs))"
      proof safe
        fix k assume all: "\<forall>i \<ge> n. \<not> bit b (i - 8 * length bs)" and k: "n - 8 * length bs \<le> k" "bit b k"
        have "n \<le> k + 8 * length bs" using k(1) by simp
        with all k(2) show False by (metis add_diff_cancel_right')
      qed (simp add: diff_le_mono)
      also have "\<dots> \<longleftrightarrow> (\<forall>i \<ge> n. \<not> bit_at (b # bs) i)"
        using True bit_imp_le_length [of b] by (fastforce simp: bit_at_Cons)
      finally show ?thesis using True by simp
    next
      case le: False
      then show ?thesis using top by (metis le_add1 le_trans not_less)
    qed
    finally show ?thesis .
  qed
qed

text \<open>Writing a bit.\<close>

lemma resize_grow: "length bits \<le> n \<Longrightarrow> resize_from_right bits n = replicate (n - length bits) 0 @ bits"
  by (simp add: resize_from_right_def)

lemma bit_at_update:
  assumes "i < 8 * length bits"
  shows "bit_at (bits[length bits - i div 8 - 1 := w]) j =
    (if j div 8 = i div 8 then bit w (j mod 8) else bit_at bits j)"
proof -
  have i: "i div 8 < length bits" using assms by (simp add: div8_less)
  show ?thesis
  proof (cases "j < 8 * length bits")
    case True
    then have j: "j div 8 < length bits" by (simp add: div8_less)
    have "length bits - j div 8 - 1 = length bits - i div 8 - 1 \<longleftrightarrow> j div 8 = i div 8" using i j by linarith
    with True i show ?thesis by (auto simp: bit_at_def nth_list_update)
  next
    case False
    then have "j div 8 \<noteq> i div 8" using i by (metis div8_less)
    with False show ?thesis by (simp add: bit_at_def)
  qed
qed

lemma length_set_bit_at [simp]: "length (set_bit_at i v bits) = max (length bits) (i div 8 + 1)"
  by (auto simp: set_bit_at_def resize_grow Let_def)

lemma set_bit_at_fits:
  assumes "i < 8 * length bits"
  shows "bit_at (set_bit_at i v bits) j = (if j = i then v else bit_at bits j)"
proof -
  define k where "k = length bits - i div 8 - 1"
  define w where "w = (if v then bits ! k OR push_bit (i mod 8) 1 else bits ! k AND NOT (push_bit (i mod 8) 1))"
  have i: "i div 8 < length bits" using assms by (simp add: div8_less)
  have s: "set_bit_at i v bits = bits[k := w]" using i by (simp add: set_bit_at_def k_def w_def Let_def)
  have w: "bit w n = (if n = i mod 8 then v else bit (bits ! k) n)" if "n < 8" for n
    using that by (auto simp: w_def bit_simps)
  have "j div 8 = i div 8 \<and> j mod 8 = i mod 8 \<longleftrightarrow> j = i" by (metis div_mult_mod_eq)
  moreover have "bit_at bits j = bit (bits ! k) (j mod 8)" if "j div 8 = i div 8"
    using that i by (simp add: bit_at_def k_def flip: div8_less)
  ultimately show ?thesis
    unfolding s k_def bit_at_update [OF assms] using w [of "j mod 8"] by (auto simp: k_def)
qed

lemma bit_at_set_bit: "bit_at (set_bit_at i v bits) j = (if j = i then v else bit_at bits j)"
proof (cases "i < 8 * length bits")
  case True
  then show ?thesis by (rule set_bit_at_fits)
next
  case False
  define big where "big = replicate (i div 8 + 1 - length bits) 0 @ bits"
  have le: "length bits \<le> i div 8" using False by (simp flip: div8_less)
  then have len: "length big = i div 8 + 1" by (simp add: big_def)
  have "set_bit_at i v bits = set_bit_at i v big" using le len by (simp add: set_bit_at_def resize_grow big_def)
  moreover have "i < 8 * length big" by (simp add: len flip: div8_less)
  ultimately show ?thesis using set_bit_at_fits [of i big v j] by (simp add: big_def)
qed

section \<open>Bit lists built bit by bit\<close>

definition represents :: "bytes \<Rightarrow> bool list \<Rightarrow> bool" where
  "represents bits vs \<longleftrightarrow> length bits = buffer_len (length vs) \<and> (\<forall>i. bit_at bits i \<longleftrightarrow> i < length vs \<and> vs ! i)"

lemma buffer_len_Suc: "buffer_len (Suc n) = max (buffer_len n) (n div 8 + 1)"
proof -
  have "Suc n div 8 = (if Suc (n mod 8) = 8 then Suc (n div 8) else n div 8)" "Suc n mod 8 = (if Suc (n mod 8) = 8 then 0 else Suc (n mod 8))"
    by (simp_all add: div_Suc mod_Suc)
  then show ?thesis by (auto simp: buffer_len_def max_def)
qed

lemma buffer_len_0 [simp]: "buffer_len 0 = 0"
  by (simp add: buffer_len_def)

lemma buffer_len_fits: "n \<le> 8 * buffer_len n"
  using div_mult_mod_eq [of n 8] mod_less_divisor [of 8 n] by (auto simp: buffer_len_def)

lemma represents_Nil [simp]: "represents [] []"
  by (simp add: represents_def bit_at_def)

lemma represents_snoc: "represents bits vs \<Longrightarrow> represents (set_bit_at (length vs) v bits) (vs @ [v])"
  by (auto simp: represents_def buffer_len_Suc bit_at_set_bit nth_append)

lemma represents_get_bit: "\<lbrakk> represents bits vs; i < length vs \<rbrakk> \<Longrightarrow> get_bit bits i = Some (if vs ! i then 1 else 0)"
  using buffer_len_fits [of "length vs"] by (simp add: get_bit_iff represents_def)

lemma represents_bit_len: "represents bits vs \<Longrightarrow> bit_len bits \<le> length vs"
  by (simp add: bit_len_le represents_def)

lemma represents_encode: "represents bits vs \<Longrightarrow> bits_encode (length vs) bits = Ok bits"
  using represents_bit_len [of bits vs] by (simp add: bits_encode_def represents_def)

lemma represents_decode: "represents bits vs \<Longrightarrow> bits_decode (bits @ rest) (length vs) = Ok (bits, rest)"
  using represents_bit_len [of bits vs] by (simp add: bits_decode_def represents_def)

lemma count_ones_card: "count_ones b = card {k. k < 8 \<and> bit b k}"
proof -
  have "[0 ..< 8] = [0, 1, 2, 3, 4, 5, 6, 7 :: nat]" by (simp add: upt_rec numeral_eq_Suc)
  then have "count_ones b = length (filter (bit b) [0 ..< 8])" by (simp only: count_ones_def)
  also have "\<dots> = card (set (filter (bit b) [0 ..< 8]))" by (intro distinct_card [symmetric]) simp
  finally show ?thesis by (simp add: conj_commute)
qed

lemma sum_count_ones: "sum_list (map count_ones bits) = card {i. bit_at bits i}"
proof (induction bits)
  case Nil
  then show ?case by (simp add: bit_at_def)
next
  case (Cons b bs)
  have "{i. bit_at (b # bs) i} = {i. bit_at bs i} \<union> (\<lambda>k. 8 * length bs + k) ` {k. k < 8 \<and> bit b k}"
  proof -
    have "bit_at (b # bs) i \<longleftrightarrow> bit_at bs i \<or> (\<exists>k. k < 8 \<and> bit b k \<and> i = 8 * length bs + k)" for i
      using bit_at_ge [of bs i] by (auto simp: bit_at_Cons) (metis add_diff_inverse_nat less_diff_conv2 not_less add.commute nat_add_left_cancel_less)
    then show ?thesis by auto
  qed
  moreover have "finite {i. bit_at bs i}" by (rule finite_subset [of _ "{..< 8 * length bs}"]) (auto simp: bit_at_def)
  moreover have "{i. bit_at bs i} \<inter> (\<lambda>k. 8 * length bs + k) ` {k. k < 8 \<and> bit b k} = {}" by (auto simp: bit_at_def)
  ultimately have "card {i. bit_at (b # bs) i} = card {i. bit_at bs i} + card ((\<lambda>k. 8 * length bs + k) ` {k. k < 8 \<and> bit b k})"
    by (simp add: card_Un_disjoint)
  then show ?case using Cons by (simp add: count_ones_card [of b] card_image)
qed

lemma represents_count: "represents bits vs \<Longrightarrow> sum_list (map count_ones bits) = length (filter (\<lambda>v. v) vs)"
  by (simp add: sum_count_ones represents_def length_filter_conv_card)

text \<open>When the bytes of a list hold a bit past its length.\<close>

lemma bit_len_exceeds: "bit_len bits > n \<longleftrightarrow> (\<exists>k \<ge> n. get_bit bits k = Some 1)"
proof -
  have "get_bit bits k = Some 1 \<longleftrightarrow> bit_at bits k" for k using bit_at_ge [of bits k] by (auto simp: get_bit_iff)
  then show ?thesis using bit_len_le [of bits n] by (auto simp: not_le)
qed

lemma bits_decode_window:
  "bits_decode b n =
     (let w = take (buffer_len n) b @ replicate (buffer_len n - length b) 0 in
      if \<exists>k \<ge> n. get_bit w k = Some 1 then Err BitfieldTooLong else Ok (w, drop (buffer_len n) b))"
  by (simp add: bits_decode_def Let_def flip: bit_len_exceeds)

lemma bits_encode_padded:
  "bits_encode n bits =
     (if \<exists>k \<ge> n. get_bit bits k = Some 1 then Err BitfieldTooLong
      else if length bits > buffer_len n then Panic
      else Ok (replicate (buffer_len n - length bits) 0 @ bits))"
  by (simp add: bits_encode_def flip: bit_len_exceeds)

section \<open>Properties\<close>

text \<open>
  C36: a bit list is the big-endian integer of its bits. Reading a bit after a write gives what was
  written, and every other bit is kept. Encoding a list for \<open>n\<close> bits refuses it exactly when a bit at
  position \<open>n\<close> or higher is set, panics when it has more bytes than \<open>n\<close> bits need, and otherwise gives
  exactly as many bytes as \<open>n\<close> bits need, with the same bits. Decoding \<open>n\<close> bits refuses the input exactly when
  the bytes it reads (the first of the input, padded with zeroes behind a short one) have a bit at
  position \<open>n\<close> or higher set, and otherwise returns these bytes and the rest of the input; so what was
  encoded is read back, without touching what follows.
\<close>

theorem span_bits_correct:
  "get_bit (set_bit_at i v bits) j =
     (if j = i then Some (if v then 1 else 0)
      else if j < 8 * length bits \<or> j div 8 \<le> i div 8 then Some (case get_bit bits j of Some w \<Rightarrow> w | None \<Rightarrow> 0) else None)
   \<and> (bit_len bits \<le> n) = (\<forall>k \<in> {n ..< 8 * length bits}. get_bit bits k = Some 0)
   \<and> (bits_encode n bits = Err BitfieldTooLong \<longleftrightarrow> (\<exists>k \<ge> n. get_bit bits k = Some 1))
   \<and> (bits_encode n bits = Panic \<longleftrightarrow> (\<nexists>k. k \<ge> n \<and> get_bit bits k = Some 1) \<and> n + 7 < 8 * length bits)
   \<and> (\<forall>out. bits_encode n bits = Ok out \<longrightarrow>
        length out = (n + 7) div 8
      \<and> bits_decode (out @ rest) n = Ok (out, rest)
      \<and> (\<forall>k < 8 * length bits. get_bit out k = get_bit bits k) \<and> (\<forall>k \<ge> 8 * length bits. get_bit out k \<noteq> Some 1))
   \<and> bits_decode input n =
       (let w = take ((n + 7) div 8) input @ replicate ((n + 7) div 8 - length input) 0 in
        if \<exists>k \<ge> n. get_bit w k = Some 1 then Err BitfieldTooLong else Ok (w, drop ((n + 7) div 8) input))"
proof (intro conjI allI impI)
  have len: "buffer_len n = (n + 7) div 8" by (simp add: buffer_len_def) presburger
  have "i < 8 * max (length bits) (Suc (i div 8))" by (simp add: max_def) arith
  moreover have "j < 8 * Suc (i div 8) \<longleftrightarrow> j div 8 \<le> i div 8" by (metis div8_less less_Suc_eq_le)
  ultimately show "get_bit (set_bit_at i v bits) j =
     (if j = i then Some (if v then 1 else 0)
      else if j < 8 * length bits \<or> j div 8 \<le> i div 8 then Some (case get_bit bits j of Some w \<Rightarrow> w | None \<Rightarrow> 0) else None)"
    using bit_at_ge [of bits j] by (auto simp: get_bit_iff bit_at_set_bit max_def nat_mult_max_right split: if_splits)
  show "(bit_len bits \<le> n) = (\<forall>k \<in> {n ..< 8 * length bits}. get_bit bits k = Some 0)"
    using bit_at_ge [of bits] by (auto simp: bit_len_le get_bit_iff split: if_splits)
  show "bits_encode n bits = Err BitfieldTooLong \<longleftrightarrow> (\<exists>k \<ge> n. get_bit bits k = Some 1)"
    by (auto simp: bits_encode_padded)
  have "(n + 7) div 8 < length bits \<longleftrightarrow> n + 7 < 8 * length bits" by (rule div8_less)
  then show "bits_encode n bits = Panic \<longleftrightarrow> (\<nexists>k. k \<ge> n \<and> get_bit bits k = Some 1) \<and> n + 7 < 8 * length bits"
    unfolding bits_encode_padded len by auto
  show "bits_decode input n =
       (let w = take ((n + 7) div 8) input @ replicate ((n + 7) div 8 - length input) 0 in
        if \<exists>k \<ge> n. get_bit w k = Some 1 then Err BitfieldTooLong else Ok (w, drop ((n + 7) div 8) input))"
    using bits_decode_window [of input n] by (simp only: len)
  fix out assume e: "bits_encode n bits = Ok out"
  then have out: "out = replicate (buffer_len n - length bits) 0 @ bits" "length bits \<le> buffer_len n" "bit_len bits \<le> n"
    by (auto simp: bits_encode_def split: if_splits)
  then show "length out = (n + 7) div 8" by (simp flip: len)
  from out have "bit_len out \<le> n" by (simp add: bit_len_le)
  with out show "bits_decode (out @ rest) n = Ok (out, rest)" by (simp add: bits_decode_def)
  show "get_bit out k = get_bit bits k" if "k < 8 * length bits" for k using that out by (simp add: get_bit_iff)
  show "get_bit out k \<noteq> Some 1" if "8 * length bits \<le> k" for k using that out bit_at_ge [of bits k] by (simp add: get_bit_iff)
qed

theorem span_bits_correct_witness:
  "get_bit (set_bit_at 9 True [1]) 9 = Some 1 \<and> get_bit (set_bit_at 9 True [1]) 0 = Some 1 \<and> bits_decode [2, 1, 7] 10 = Ok ([2, 1], [7])
     \<and> bits_decode [4, 1, 7] 10 = Err BitfieldTooLong"
proof -
  have "bits_encode 10 [2, 1] = Ok [2, 1]" by (simp add: bits_encode_def leading_zeros_def buffer_len_def bit_simps)
  moreover have "get_bit [4, 1] 10 = Some 1" by (simp add: get_bit_def)
  then have "\<exists>k \<ge> 10. get_bit [4, 1] k = Some 1" by blast
  ultimately show ?thesis
    using span_bits_correct [of 9 True "[1]" 0 10 "[7]" "[4, 1, 7]"] span_bits_correct [of 9 True "[2, 1]" 9 10 "[7]" "[4, 1, 7]"]
      span_bits_correct [of 9 True "[1]" 9 10 "[7]" "[4, 1, 7]"] by (auto simp: get_bit_def)
qed

end
