(* ===== verification/Span_Txs.thy ===== *)
theory Span_Txs
  imports Span_Bits
begin

text \<open>
  The transactions of a span batch (\<^verbatim>\<open>derive/src/batch/span_batch/transactions.rs\<close>, \<^verbatim>\<open>tx_data/\<close> and
  \<^verbatim>\<open>utils.rs\<close>): they are stored in columns, one per field, and rebuilt from them. The typed
  transactions are those of \<^verbatim>\<open>alloy_consensus\<close>, with the fields the source writes; access lists and
  authorization lists are only passed on and stay abstract types.
\<close>

section \<open>Transactions\<close>

type_synonym u128 = "128 word"
type_synonym u256 = "256 word"

datatype tx_kind = Create | Call address

record tx_signature =
  sig_r :: u256
  sig_s :: u256
  sig_v :: bool

record tx_legacy =
  tl_chain_id :: "u64 option"
  tl_nonce :: u64
  tl_gas_price :: u128
  tl_gas_limit :: u64
  tl_to :: tx_kind
  tl_value :: u256
  tl_input :: bytes

record 'ac tx_eip2930 =
  t2_chain_id :: u64
  t2_nonce :: u64
  t2_gas_price :: u128
  t2_gas_limit :: u64
  t2_to :: tx_kind
  t2_value :: u256
  t2_access_list :: 'ac
  t2_input :: bytes

record 'ac tx_eip1559 =
  t9_chain_id :: u64
  t9_nonce :: u64
  t9_gas_limit :: u64
  t9_max_fee_per_gas :: u128
  t9_max_priority_fee_per_gas :: u128
  t9_to :: tx_kind
  t9_value :: u256
  t9_access_list :: 'ac
  t9_input :: bytes

record ('ac, 'au) tx_eip7702 =
  t7_chain_id :: u64
  t7_nonce :: u64
  t7_gas_limit :: u64
  t7_max_fee_per_gas :: u128
  t7_max_priority_fee_per_gas :: u128
  t7_to :: address
  t7_value :: u256
  t7_access_list :: 'ac
  t7_authorization_list :: "'au list"
  t7_input :: bytes

record 'tx signed =
  sd_tx :: 'tx
  sd_signature :: tx_signature
  sd_hash :: b256

text \<open>The last constructor is any other envelope.\<close>

datatype ('ac, 'au) tx_envelope =
    EnvLegacy "tx_legacy signed"
  | EnvEip2930 "'ac tx_eip2930 signed"
  | EnvEip1559 "'ac tx_eip1559 signed"
  | EnvEip7702 "('ac, 'au) tx_eip7702 signed"
  | EnvOther bytes

datatype tx_type = LegacyTx | Eip2930Tx | Eip1559Tx | Eip4844Tx | Eip7702Tx

fun env_tx_type :: "('ac, 'au) tx_envelope \<Rightarrow> tx_type" where
  "env_tx_type (EnvLegacy _) = LegacyTx"
| "env_tx_type (EnvEip2930 _) = Eip2930Tx"
| "env_tx_type (EnvEip1559 _) = Eip1559Tx"
| "env_tx_type (EnvEip7702 _) = Eip7702Tx"
| "env_tx_type (EnvOther _) = Eip4844Tx"

record legacy_data =
  ld_value :: u256
  ld_gas_price :: u256
  ld_data :: bytes

record 'ac eip2930_data =
  d2_value :: u256
  d2_gas_price :: u256
  d2_data :: bytes
  d2_access_list :: 'ac

record 'ac eip1559_data =
  d9_value :: u256
  d9_max_priority_fee_per_gas :: u256
  d9_max_fee_per_gas :: u256
  d9_data :: bytes
  d9_access_list :: 'ac

record ('ac, 'au) eip7702_data =
  d7_value :: u256
  d7_max_priority_fee_per_gas :: u256
  d7_max_fee_per_gas :: u256
  d7_data :: bytes
  d7_access_list :: 'ac
  d7_authorization_list :: "'au list"

datatype ('ac, 'au) tx_data =
    LegacyData legacy_data
  | Eip2930Data "'ac eip2930_data"
  | Eip1559Data "'ac eip1559_data"
  | Eip7702Data "('ac, 'au) eip7702_data"

text \<open>
  What is used of \<^verbatim>\<open>alloy\<close>: the type byte of a transaction, the network codec of envelopes, their hashes
  and replay protection, and the RLP codecs of the four structs of \<open>tx_data\<close>, which are derived
  by macros. A header is its list flag, its payload length and its own length.
\<close>

record ('ac, 'au) alloy_txs =
  al_type_byte :: "tx_type \<Rightarrow> u8"
  al_type_of_byte :: "u8 \<Rightarrow> tx_type option"
  al_envelope_decode :: "bytes \<Rightarrow> ('ac, 'au) tx_envelope option"
  al_encode_2718 :: "('ac, 'au) tx_envelope \<Rightarrow> bytes"
  al_is_replay_protected :: "('ac, 'au) tx_envelope \<Rightarrow> bool"
  al_hash_legacy :: "tx_legacy \<Rightarrow> b256"
  al_hash_eip2930 :: "'ac tx_eip2930 \<Rightarrow> b256"
  al_hash_eip1559 :: "'ac tx_eip1559 \<Rightarrow> b256"
  al_hash_eip7702 :: "('ac, 'au) tx_eip7702 \<Rightarrow> b256"
  al_header :: "bytes \<Rightarrow> (bool \<times> nat \<times> nat) option"
  al_legacy_rlp :: "legacy_data \<Rightarrow> bytes"
  al_legacy_decode :: "bytes \<Rightarrow> legacy_data option"
  al_eip2930_rlp :: "'ac eip2930_data \<Rightarrow> bytes"
  al_eip2930_decode :: "bytes \<Rightarrow> 'ac eip2930_data option"
  al_eip1559_rlp :: "'ac eip1559_data \<Rightarrow> bytes"
  al_eip1559_decode :: "bytes \<Rightarrow> 'ac eip1559_data option"
  al_eip7702_rlp :: "('ac, 'au) eip7702_data \<Rightarrow> bytes"
  al_eip7702_decode :: "bytes \<Rightarrow> ('ac, 'au) eip7702_data option"

section \<open>Transaction data\<close>

fun data_tx_type :: "('ac, 'au) tx_data \<Rightarrow> tx_type" where
  "data_tx_type (LegacyData _) = LegacyTx"
| "data_tx_type (Eip2930Data _) = Eip2930Tx"
| "data_tx_type (Eip1559Data _) = Eip1559Tx"
| "data_tx_type (Eip7702Data _) = Eip7702Tx"

fun data_encode :: "('ac, 'au) alloy_txs \<Rightarrow> ('ac, 'au) tx_data \<Rightarrow> bytes" where
  "data_encode A (LegacyData d) = al_legacy_rlp A d"
| "data_encode A (Eip2930Data d) = al_type_byte A Eip2930Tx # al_eip2930_rlp A d"
| "data_encode A (Eip1559Data d) = al_type_byte A Eip1559Tx # al_eip1559_rlp A d"
| "data_encode A (Eip7702Data d) = al_type_byte A Eip7702Tx # al_eip7702_rlp A d"

definition decode_typed :: "('ac, 'au) alloy_txs \<Rightarrow> bytes \<Rightarrow> ('ac, 'au) tx_data option" where
  "decode_typed A b =
     (if length b \<le> 1 then None
      else
        case al_type_of_byte A (hd b) of
          Some Eip2930Tx \<Rightarrow> map_option Eip2930Data (al_eip2930_decode A (tl b))
        | Some Eip1559Tx \<Rightarrow> map_option Eip1559Data (al_eip1559_decode A (tl b))
        | Some Eip7702Tx \<Rightarrow> map_option Eip7702Data (al_eip7702_decode A (tl b))
        | _ \<Rightarrow> None)"

definition data_decode :: "('ac, 'au) alloy_txs \<Rightarrow> bytes \<Rightarrow> ('ac, 'au) tx_data option" where
  "data_decode A r =
     (if r \<noteq> [] \<and> hd r > 0x7F then map_option LegacyData (al_legacy_decode A r) else decode_typed A r)"

abbreviation invalid_data :: span_batch_error where
  "invalid_data \<equiv> Decoding InvalidTransactionData"

fun data_of_envelope :: "('ac, 'au) tx_envelope \<Rightarrow> (('ac, 'au) tx_data, span_batch_error) res" where
  "data_of_envelope (EnvLegacy s) =
     Ok (LegacyData \<lparr>ld_value = tl_value (sd_tx s), ld_gas_price = ucast (tl_gas_price (sd_tx s)), ld_data = tl_input (sd_tx s)\<rparr>)"
| "data_of_envelope (EnvEip2930 s) =
     Ok (Eip2930Data \<lparr>d2_value = t2_value (sd_tx s), d2_gas_price = ucast (t2_gas_price (sd_tx s)), d2_data = t2_input (sd_tx s),
                      d2_access_list = t2_access_list (sd_tx s)\<rparr>)"
| "data_of_envelope (EnvEip1559 s) =
     Ok (Eip1559Data \<lparr>d9_value = t9_value (sd_tx s), d9_max_priority_fee_per_gas = ucast (t9_max_priority_fee_per_gas (sd_tx s)),
                      d9_max_fee_per_gas = ucast (t9_max_fee_per_gas (sd_tx s)), d9_data = t9_input (sd_tx s),
                      d9_access_list = t9_access_list (sd_tx s)\<rparr>)"
| "data_of_envelope (EnvEip7702 s) =
     Ok (Eip7702Data \<lparr>d7_value = t7_value (sd_tx s), d7_max_priority_fee_per_gas = ucast (t7_max_priority_fee_per_gas (sd_tx s)),
                      d7_max_fee_per_gas = ucast (t7_max_fee_per_gas (sd_tx s)), d7_data = t7_input (sd_tx s),
                      d7_access_list = t7_access_list (sd_tx s), d7_authorization_list = t7_authorization_list (sd_tx s)\<rparr>)"
| "data_of_envelope (EnvOther _) = Err (Decoding InvalidTransactionType)"

definition to_kind :: "address option \<Rightarrow> tx_kind" where
  "to_kind to = (case to of None \<Rightarrow> Create | Some a \<Rightarrow> Call a)"

text \<open>The low 16 bytes of a \<open>U256\<close>.\<close>

abbreviation low_u128 :: "u256 \<Rightarrow> u128" where
  "low_u128 v \<equiv> ucast v"

definition legacy_to_signed_tx ::
  "('ac, 'au) alloy_txs \<Rightarrow> legacy_data \<Rightarrow> u64 \<Rightarrow> u64 \<Rightarrow> address option \<Rightarrow> u64 \<Rightarrow> tx_signature \<Rightarrow> bool \<Rightarrow> tx_legacy signed" where
  "legacy_to_signed_tx A d nonce gas to chain_id signature is_protected =
     (let tx = \<lparr>tl_chain_id = (if is_protected then Some chain_id else None), tl_nonce = nonce,
                tl_gas_price = low_u128 (ld_gas_price d), tl_gas_limit = gas, tl_to = to_kind to, tl_value = ld_value d, tl_input = ld_data d\<rparr> in
      \<lparr>sd_tx = tx, sd_signature = signature, sd_hash = al_hash_legacy A tx\<rparr>)"

definition eip2930_to_signed_tx ::
  "('ac, 'au) alloy_txs \<Rightarrow> 'ac eip2930_data \<Rightarrow> u64 \<Rightarrow> u64 \<Rightarrow> address option \<Rightarrow> u64 \<Rightarrow> tx_signature \<Rightarrow> 'ac tx_eip2930 signed" where
  "eip2930_to_signed_tx A d nonce gas to chain_id signature =
     (let tx = \<lparr>t2_chain_id = chain_id, t2_nonce = nonce, t2_gas_price = low_u128 (d2_gas_price d), t2_gas_limit = gas,
                t2_to = to_kind to, t2_value = d2_value d, t2_access_list = d2_access_list d, t2_input = d2_data d\<rparr> in
      \<lparr>sd_tx = tx, sd_signature = signature, sd_hash = al_hash_eip2930 A tx\<rparr>)"

definition eip1559_to_signed_tx ::
  "('ac, 'au) alloy_txs \<Rightarrow> 'ac eip1559_data \<Rightarrow> u64 \<Rightarrow> u64 \<Rightarrow> address option \<Rightarrow> u64 \<Rightarrow> tx_signature \<Rightarrow> 'ac tx_eip1559 signed" where
  "eip1559_to_signed_tx A d nonce gas to chain_id signature =
     (let tx = \<lparr>t9_chain_id = chain_id, t9_nonce = nonce, t9_gas_limit = gas, t9_max_fee_per_gas = low_u128 (d9_max_fee_per_gas d),
                t9_max_priority_fee_per_gas = low_u128 (d9_max_priority_fee_per_gas d), t9_to = to_kind to, t9_value = d9_value d,
                t9_access_list = d9_access_list d, t9_input = d9_data d\<rparr> in
      \<lparr>sd_tx = tx, sd_signature = signature, sd_hash = al_hash_eip1559 A tx\<rparr>)"

definition eip7702_to_signed_tx ::
  "('ac, 'au) alloy_txs \<Rightarrow> ('ac, 'au) eip7702_data \<Rightarrow> u64 \<Rightarrow> u64 \<Rightarrow> address \<Rightarrow> u64 \<Rightarrow> tx_signature \<Rightarrow> ('ac, 'au) tx_eip7702 signed" where
  "eip7702_to_signed_tx A d nonce gas to chain_id signature =
     (let tx = \<lparr>t7_chain_id = chain_id, t7_nonce = nonce, t7_gas_limit = gas, t7_max_fee_per_gas = low_u128 (d7_max_fee_per_gas d),
                t7_max_priority_fee_per_gas = low_u128 (d7_max_priority_fee_per_gas d), t7_to = to, t7_value = d7_value d,
                t7_access_list = d7_access_list d, t7_authorization_list = d7_authorization_list d, t7_input = d7_data d\<rparr> in
      \<lparr>sd_tx = tx, sd_signature = signature, sd_hash = al_hash_eip7702 A tx\<rparr>)"

fun to_signed_tx ::
  "('ac, 'au) alloy_txs \<Rightarrow> ('ac, 'au) tx_data \<Rightarrow> u64 \<Rightarrow> u64 \<Rightarrow> address option \<Rightarrow> u64 \<Rightarrow> tx_signature \<Rightarrow> bool
     \<Rightarrow> (('ac, 'au) tx_envelope, span_batch_error) res" where
  "to_signed_tx A (LegacyData d) nonce gas to chain_id signature is_protected =
     Ok (EnvLegacy (legacy_to_signed_tx A d nonce gas to chain_id signature is_protected))"
| "to_signed_tx A (Eip2930Data d) nonce gas to chain_id signature is_protected =
     Ok (EnvEip2930 (eip2930_to_signed_tx A d nonce gas to chain_id signature))"
| "to_signed_tx A (Eip1559Data d) nonce gas to chain_id signature is_protected =
     Ok (EnvEip1559 (eip1559_to_signed_tx A d nonce gas to chain_id signature))"
| "to_signed_tx A (Eip7702Data d) nonce gas to chain_id signature is_protected =
     (case to of None \<Rightarrow> Err invalid_data | Some addr \<Rightarrow> Ok (EnvEip7702 (eip7702_to_signed_tx A d nonce gas addr chain_id signature)))"

text \<open>
  \<open>read_tx_data\<close>: the slice of the announced length panics when the input is shorter.
\<close>

definition read_tx_data :: "('ac, 'au) alloy_txs \<Rightarrow> bytes \<Rightarrow> ((bytes \<times> tx_type) \<times> bytes, span_batch_error) res" where
  "read_tx_data A r =
     (case r of
        [] \<Rightarrow> Err invalid_data
      | first_byte # _ \<Rightarrow>
          let (typ, head, r) = (if first_byte \<le> 0x7F then (first_byte, [first_byte], tl r) else (0, [], r)) in
          case al_header A r of
            None \<Rightarrow> Err invalid_data
          | Some (is_list, payload_length, header_length) \<Rightarrow>
              if \<not> is_list then Err invalid_data
              else
                let n = payload_length + header_length in
                if n > length r then Panic
                else rthen (ok_or (al_type_of_byte A typ) (Decoding InvalidTransactionType)) (\<lambda>t.
                  Ok ((head @ take n r, t), drop n r)))"

section \<open>Columns\<close>

definition MAX_SPAN_BATCH_ELEMENTS :: u64 where "MAX_SPAN_BATCH_ELEMENTS = 10000000"

record span_batch_transactions =
  tc_total_block_tx_count :: u64
  tc_contract_creation_bits :: bytes
  tc_tx_sigs :: "tx_signature list"
  tc_tx_nonces :: "u64 list"
  tc_tx_gases :: "u64 list"
  tc_tx_tos :: "address list"
  tc_tx_datas :: "bytes list"
  tc_protected_bits :: bytes
  tc_tx_types :: "tx_type list"
  tc_legacy_tx_count :: u64

definition txs_default :: span_batch_transactions where
  "txs_default = \<lparr>tc_total_block_tx_count = 0, tc_contract_creation_bits = [], tc_tx_sigs = [], tc_tx_nonces = [], tc_tx_gases = [],
     tc_tx_tos = [], tc_tx_datas = [], tc_protected_bits = [], tc_tx_types = [], tc_legacy_tx_count = 0\<rparr>"

text \<open>The variable-length integers are those of \<^verbatim>\<open>unsigned_varint\<close>.\<close>

record varint =
  vi_encode :: "u64 \<Rightarrow> bytes"
  vi_decode :: "bytes \<Rightarrow> (u64 \<times> bytes) option"

primrec set_bits :: "nat \<Rightarrow> bool list \<Rightarrow> bytes \<Rightarrow> bytes" where
  "set_bits i [] bits = bits"
| "set_bits i (v # vs) bits = set_bits (Suc i) vs (set_bit_at i v bits)"

definition encode_tx_sigs :: "span_batch_transactions \<Rightarrow> (bytes, span_batch_error) res" where
  "encode_tx_sigs t =
     (let y_parity_bits = set_bits 0 (map sig_v (tc_tx_sigs t)) [] in
      rthen (bits_encode (unat (tc_total_block_tx_count t)) y_parity_bits) (\<lambda>bits.
        Ok (bits @ concat (map (\<lambda>sig. be_of_nat 32 (unat (sig_r sig)) @ be_of_nat 32 (unat (sig_s sig))) (tc_tx_sigs t)))))"

definition encode_contract_creation_bits :: "span_batch_transactions \<Rightarrow> (bytes, span_batch_error) res" where
  "encode_contract_creation_bits t = bits_encode (unat (tc_total_block_tx_count t)) (tc_contract_creation_bits t)"

definition encode_protected_bits :: "span_batch_transactions \<Rightarrow> (bytes, span_batch_error) res" where
  "encode_protected_bits t = bits_encode (unat (tc_legacy_tx_count t)) (tc_protected_bits t)"

definition encode_tx_nonces :: "varint \<Rightarrow> span_batch_transactions \<Rightarrow> bytes" where
  "encode_tx_nonces V t = concat (map (vi_encode V) (tc_tx_nonces t))"

definition encode_tx_gases :: "varint \<Rightarrow> span_batch_transactions \<Rightarrow> bytes" where
  "encode_tx_gases V t = concat (map (vi_encode V) (tc_tx_gases t))"

definition encode_tx_tos :: "span_batch_transactions \<Rightarrow> bytes" where
  "encode_tx_tos t = concat (tc_tx_tos t)"

definition encode_tx_datas :: "span_batch_transactions \<Rightarrow> bytes" where
  "encode_tx_datas t = concat (tc_tx_datas t)"

definition txs_encode :: "varint \<Rightarrow> span_batch_transactions \<Rightarrow> (bytes, span_batch_error) res" where
  "txs_encode V t =
     rthen (encode_contract_creation_bits t) (\<lambda>creation.
     rthen (encode_tx_sigs t) (\<lambda>sigs.
     rthen (encode_protected_bits t) (\<lambda>protected.
       Ok (creation @ sigs @ encode_tx_tos t @ encode_tx_datas t @ encode_tx_nonces V t @ encode_tx_gases V t @ protected))))"

text \<open>Reading a fixed number of items by slicing panics when they are not there.\<close>

definition read_slice :: "nat \<Rightarrow> 'a list \<Rightarrow> ('a list \<times> 'a list, 'e) res" where
  "read_slice n r = (if n \<le> length r then Ok (take n r, drop n r) else Panic)"

primrec read_many :: "(bytes \<Rightarrow> ('a \<times> bytes, 'e) res) \<Rightarrow> nat \<Rightarrow> bytes \<Rightarrow> ('a list \<times> bytes, 'e) res" where
  "read_many f 0 r = Ok ([], r)"
| "read_many f (Suc n) r = rthen (f r) (\<lambda>(x, r). rthen (read_many f n r) (\<lambda>(xs, r). Ok (x # xs, r)))"

definition read_varint :: "varint \<Rightarrow> span_decoding_error \<Rightarrow> bytes \<Rightarrow> (u64 \<times> bytes, span_batch_error) res" where
  "read_varint V e r = ok_or (vi_decode V r) (Decoding e)"

definition decode_contract_creation_bits :: "span_batch_transactions \<Rightarrow> bytes \<Rightarrow> (span_batch_transactions \<times> bytes, span_batch_error) res" where
  "decode_contract_creation_bits t r =
     (if tc_total_block_tx_count t > MAX_SPAN_BATCH_ELEMENTS then Err TooBigSpanBatchSize
      else rthen (bits_decode r (unat (tc_total_block_tx_count t))) (\<lambda>(bits, r). Ok (t\<lparr>tc_contract_creation_bits := bits\<rparr>, r)))"

definition decode_protected_bits :: "span_batch_transactions \<Rightarrow> bytes \<Rightarrow> (span_batch_transactions \<times> bytes, span_batch_error) res" where
  "decode_protected_bits t r =
     (if tc_legacy_tx_count t > MAX_SPAN_BATCH_ELEMENTS then Err TooBigSpanBatchSize
      else rthen (bits_decode r (unat (tc_legacy_tx_count t))) (\<lambda>(bits, r). Ok (t\<lparr>tc_protected_bits := bits\<rparr>, r)))"

fun decode_sigs_from :: "bytes \<Rightarrow> nat \<Rightarrow> nat \<Rightarrow> bytes \<Rightarrow> (tx_signature list \<times> bytes, span_batch_error) res" where
  "decode_sigs_from y_parity_bits i 0 r = Ok ([], r)"
| "decode_sigs_from y_parity_bits i (Suc n) r =
     (case get_bit y_parity_bits i of
        None \<Rightarrow> Panic
      | Some y_parity \<Rightarrow>
          rthen (read_slice 64 r) (\<lambda>(rs, r).
          let sig = \<lparr>sig_r = of_nat (nat_of_be (take 32 rs)), sig_s = of_nat (nat_of_be (drop 32 rs)), sig_v = (y_parity = 1)\<rparr> in
          rthen (decode_sigs_from y_parity_bits (Suc i) n r) (\<lambda>(sigs, r). Ok (sig # sigs, r))))"

definition decode_tx_sigs :: "span_batch_transactions \<Rightarrow> bytes \<Rightarrow> (span_batch_transactions \<times> bytes, span_batch_error) res" where
  "decode_tx_sigs t r =
     rthen (bits_decode r (unat (tc_total_block_tx_count t))) (\<lambda>(y_parity_bits, r).
     rthen (decode_sigs_from y_parity_bits 0 (unat (tc_total_block_tx_count t)) r) (\<lambda>(sigs, r). Ok (t\<lparr>tc_tx_sigs := sigs\<rparr>, r)))"

definition decode_tx_nonces :: "varint \<Rightarrow> span_batch_transactions \<Rightarrow> bytes \<Rightarrow> (span_batch_transactions \<times> bytes, span_batch_error) res" where
  "decode_tx_nonces V t r =
     rthen (read_many (read_varint V TxNonces) (unat (tc_total_block_tx_count t)) r) (\<lambda>(nonces, r). Ok (t\<lparr>tc_tx_nonces := nonces\<rparr>, r))"

definition decode_tx_gases :: "varint \<Rightarrow> span_batch_transactions \<Rightarrow> bytes \<Rightarrow> (span_batch_transactions \<times> bytes, span_batch_error) res" where
  "decode_tx_gases V t r =
     rthen (read_many (read_varint V TxNonces) (unat (tc_total_block_tx_count t)) r) (\<lambda>(gases, r). Ok (t\<lparr>tc_tx_gases := gases\<rparr>, r))"

definition contract_creation_count :: "span_batch_transactions \<Rightarrow> u64" where
  "contract_creation_count t = sum_list (map (\<lambda>b. of_nat (count_ones b)) (tc_contract_creation_bits t))"

definition decode_tx_tos :: "span_batch_transactions \<Rightarrow> bytes \<Rightarrow> (span_batch_transactions \<times> bytes, span_batch_error) res" where
  "decode_tx_tos t r =
     rthen (read_many (read_slice 20) (unat (tc_total_block_tx_count t - contract_creation_count t)) r) (\<lambda>(tos, r).
       Ok (t\<lparr>tc_tx_tos := tos\<rparr>, r))"

definition decode_tx_datas ::
  "('ac, 'au) alloy_txs \<Rightarrow> span_batch_transactions \<Rightarrow> bytes \<Rightarrow> (span_batch_transactions \<times> bytes, span_batch_error) res" where
  "decode_tx_datas A t r =
     rthen (read_many (read_tx_data A) (unat (tc_total_block_tx_count t)) r) (\<lambda>(ds, r).
       Ok (t\<lparr>tc_legacy_tx_count := tc_legacy_tx_count t + of_nat (length (filter (\<lambda>d. snd d = LegacyTx) ds)),
             tc_tx_datas := map fst ds, tc_tx_types := map snd ds\<rparr>, r))"

definition txs_decode ::
  "('ac, 'au) alloy_txs \<Rightarrow> varint \<Rightarrow> span_batch_transactions \<Rightarrow> bytes \<Rightarrow> (span_batch_transactions \<times> bytes, span_batch_error) res" where
  "txs_decode A V t r =
     rthen (decode_contract_creation_bits t r) (\<lambda>(t, r).
     rthen (decode_tx_sigs t r) (\<lambda>(t, r).
     rthen (decode_tx_tos t r) (\<lambda>(t, r).
     rthen (decode_tx_datas A t r) (\<lambda>(t, r).
     rthen (decode_tx_nonces V t r) (\<lambda>(t, r).
     rthen (decode_tx_gases V t r) (\<lambda>(t, r).
     decode_protected_bits t r))))))"

definition nth_opt :: "'a list \<Rightarrow> nat \<Rightarrow> 'a option" where
  "nth_opt xs i = (if i < length xs then Some (xs ! i) else None)"

text \<open>The loop of \<open>full_txs\<close> with its two running indices; indexing \<open>tx_datas\<close> panics.\<close>

fun full_txs_from ::
  "('ac, 'au) alloy_txs \<Rightarrow> span_batch_transactions \<Rightarrow> u64 \<Rightarrow> nat \<Rightarrow> nat \<Rightarrow> nat \<Rightarrow> nat \<Rightarrow> (bytes list, span_batch_error) res" where
  "full_txs_from A t chain_id 0 idx to_idx protected_bit_idx = Ok []"
| "full_txs_from A t chain_id (Suc n) idx to_idx protected_bit_idx =
     (case nth_opt (tc_tx_datas t) idx of
        None \<Rightarrow> Panic
      | Some datas \<Rightarrow>
          rthen (ok_or (data_decode A datas) invalid_data) (\<lambda>tx.
          rthen (ok_or (nth_opt (tc_tx_nonces t) idx) invalid_data) (\<lambda>nonce.
          rthen (ok_or (nth_opt (tc_tx_gases t) idx) invalid_data) (\<lambda>gas.
          rthen (ok_or (get_bit (tc_contract_creation_bits t) idx) invalid_data) (\<lambda>b.
          rthen (if b = 0 then (if length (tc_tx_tos t) \<le> to_idx then Err invalid_data else Ok (Some (tc_tx_tos t ! to_idx)))
                 else Ok None) (\<lambda>to.
          rthen (ok_or (nth_opt (tc_tx_sigs t) idx) invalid_data) (\<lambda>sig.
          let is_legacy = (data_tx_type tx = LegacyTx);
              is_protected = (if is_legacy then get_bit (tc_protected_bits t) protected_bit_idx = Some 1 else True) in
          rthen (to_signed_tx A tx nonce gas to chain_id sig is_protected) (\<lambda>tx_envelope.
          rthen (full_txs_from A t chain_id n (Suc idx) (if b = 0 then Suc to_idx else to_idx)
                   (if is_legacy then Suc protected_bit_idx else protected_bit_idx)) (\<lambda>txs.
            Ok (al_encode_2718 A tx_envelope # txs))))))))))"

definition full_txs :: "('ac, 'au) alloy_txs \<Rightarrow> u64 \<Rightarrow> span_batch_transactions \<Rightarrow> (bytes list, span_batch_error) res" where
  "full_txs A chain_id t = full_txs_from A t chain_id (unat (tc_total_block_tx_count t)) 0 0 0"

fun kind_to :: "tx_kind \<Rightarrow> address option" where
  "kind_to Create = None"
| "kind_to (Call a) = Some a"

text \<open>The fields \<open>add_txs\<close> takes out of an envelope: signature, recipient, nonce, gas limit, chain id.\<close>

fun env_fields :: "('ac, 'au) tx_envelope \<Rightarrow> (tx_signature \<times> address option \<times> u64 \<times> u64 \<times> u64 option, span_batch_error) res" where
  "env_fields (EnvLegacy s) = Ok (sd_signature s, kind_to (tl_to (sd_tx s)), tl_nonce (sd_tx s), tl_gas_limit (sd_tx s), tl_chain_id (sd_tx s))"
| "env_fields (EnvEip2930 s) = Ok (sd_signature s, kind_to (t2_to (sd_tx s)), t2_nonce (sd_tx s), t2_gas_limit (sd_tx s), Some (t2_chain_id (sd_tx s)))"
| "env_fields (EnvEip1559 s) = Ok (sd_signature s, kind_to (t9_to (sd_tx s)), t9_nonce (sd_tx s), t9_gas_limit (sd_tx s), Some (t9_chain_id (sd_tx s)))"
| "env_fields (EnvEip7702 s) = Ok (sd_signature s, Some (t7_to (sd_tx s)), t7_nonce (sd_tx s), t7_gas_limit (sd_tx s), Some (t7_chain_id (sd_tx s)))"
| "env_fields (EnvOther _) = Err invalid_data"

text \<open>One round of the loop of \<open>add_txs\<close>, at position \<open>i + offset\<close> of the batch.\<close>

definition add_tx ::
  "('ac, 'au) alloy_txs \<Rightarrow> u64 \<Rightarrow> u64 \<Rightarrow> bytes \<Rightarrow> span_batch_transactions \<Rightarrow> (unit, span_batch_error) res \<times> span_batch_transactions" where
  "add_tx A chain_id pos raw t =
     rbind (ok_or (al_envelope_decode A raw) invalid_data) t (\<lambda>env.
     rbind (data_of_envelope env) t (\<lambda>span_batch_tx.
     let tx_type = env_tx_type env;
         t1 = (if tx_type = LegacyTx then
                 t\<lparr>tc_protected_bits := set_bit_at (unat (tc_legacy_tx_count t)) (al_is_replay_protected A env) (tc_protected_bits t),
                   tc_legacy_tx_count := tc_legacy_tx_count t + 1\<rparr>
               else t) in
     rbind (env_fields env) t1 (\<lambda>(signature, to, nonce, gas, tx_chain_id).
     rbind (if al_is_replay_protected A env then
              rthen (ok_or tx_chain_id invalid_data) (\<lambda>c. if c \<noteq> chain_id then Err invalid_data else Ok ())
            else Ok ()) t1 (\<lambda>_.
     let t2 = (case to of Some address \<Rightarrow> t1\<lparr>tc_tx_tos := tc_tx_tos t1 @ [address]\<rparr> | None \<Rightarrow> t1) in
     (Ok (), t2\<lparr>tc_tx_sigs := tc_tx_sigs t2 @ [signature],
               tc_contract_creation_bits := set_bit_at (unat pos) (to = None) (tc_contract_creation_bits t2),
               tc_tx_nonces := tc_tx_nonces t2 @ [nonce], tc_tx_datas := tc_tx_datas t2 @ [data_encode A span_batch_tx],
               tc_tx_gases := tc_tx_gases t2 @ [gas], tc_tx_types := tc_tx_types t2 @ [tx_type]\<rparr>)))))"

primrec add_txs_from ::
  "('ac, 'au) alloy_txs \<Rightarrow> u64 \<Rightarrow> u64 \<Rightarrow> bytes list \<Rightarrow> span_batch_transactions \<Rightarrow> (unit, span_batch_error) res \<times> span_batch_transactions" where
  "add_txs_from A chain_id pos [] t = (Ok (), t)"
| "add_txs_from A chain_id pos (raw # raws) t =
     (let (r, t) = add_tx A chain_id pos raw t in rbind r t (\<lambda>_. add_txs_from A chain_id (pos + 1) raws t))"

definition add_txs ::
  "('ac, 'au) alloy_txs \<Rightarrow> bytes list \<Rightarrow> u64 \<Rightarrow> span_batch_transactions \<Rightarrow> (unit, span_batch_error) res \<times> span_batch_transactions" where
  "add_txs A txs chain_id t =
     (let (r, t) = add_txs_from A chain_id (tc_total_block_tx_count t) txs t in
      rbind r t (\<lambda>_. (Ok (), t\<lparr>tc_total_block_tx_count := tc_total_block_tx_count t + of_nat (length txs)\<rparr>)))"

section \<open>What the columns hold\<close>

definition env_data :: "('ac, 'au) tx_envelope \<Rightarrow> ('ac, 'au) tx_data" where
  "env_data e = (case data_of_envelope e of Ok d \<Rightarrow> d)"

definition env_sig :: "('ac, 'au) tx_envelope \<Rightarrow> tx_signature" where
  "env_sig e = (case env_fields e of Ok (s, _) \<Rightarrow> s)"

definition env_to :: "('ac, 'au) tx_envelope \<Rightarrow> address option" where
  "env_to e = (case env_fields e of Ok (_, to, _) \<Rightarrow> to)"

definition env_nonce :: "('ac, 'au) tx_envelope \<Rightarrow> u64" where
  "env_nonce e = (case env_fields e of Ok (_, _, n, _) \<Rightarrow> n)"

definition env_gas :: "('ac, 'au) tx_envelope \<Rightarrow> u64" where
  "env_gas e = (case env_fields e of Ok (_, _, _, g, _) \<Rightarrow> g)"

definition env_chain :: "('ac, 'au) tx_envelope \<Rightarrow> u64 option" where
  "env_chain e = (case env_fields e of Ok (_, _, _, _, c) \<Rightarrow> c)"

definition is_legacy :: "('ac, 'au) tx_envelope \<Rightarrow> bool" where
  "is_legacy e \<longleftrightarrow> env_tx_type e = LegacyTx"

definition supported :: "('ac, 'au) alloy_txs \<Rightarrow> u64 \<Rightarrow> ('ac, 'au) tx_envelope \<Rightarrow> bool" where
  "supported A chain e \<longleftrightarrow> env_tx_type e \<noteq> Eip4844Tx \<and> (al_is_replay_protected A e \<longrightarrow> env_chain e = Some chain)"

definition columns :: "('ac, 'au) alloy_txs \<Rightarrow> ('ac, 'au) tx_envelope list \<Rightarrow> span_batch_transactions \<Rightarrow> bool" where
  "columns A es t \<longleftrightarrow>
     represents (tc_contract_creation_bits t) (map (\<lambda>e. env_to e = None) es)
   \<and> tc_tx_sigs t = map env_sig es \<and> tc_tx_nonces t = map env_nonce es \<and> tc_tx_gases t = map env_gas es
   \<and> tc_tx_tos t = List.map_filter env_to es \<and> tc_tx_datas t = map (\<lambda>e. data_encode A (env_data e)) es
   \<and> represents (tc_protected_bits t) (map (al_is_replay_protected A) (filter is_legacy es))
   \<and> tc_tx_types t = map env_tx_type es \<and> tc_legacy_tx_count t = of_nat (length (filter is_legacy es))"

lemma unat_u64 [simp]: "n < 2 ^ 64 \<Longrightarrow> unat (of_nat n :: u64) = n"
  by (simp add: unat_of_nat)

lemma columns_default: "columns A [] txs_default"
  by (simp add: columns_def txs_default_def List.map_filter_simps)

lemma supported_fields:
  "env_tx_type e \<noteq> Eip4844Tx \<Longrightarrow> env_fields e = Ok (env_sig e, env_to e, env_nonce e, env_gas e, env_chain e) \<and> data_of_envelope e = Ok (env_data e)"
  by (cases e) (simp_all add: env_sig_def env_to_def env_nonce_def env_gas_def env_chain_def env_data_def)

lemma map_filter_snoc: "List.map_filter f (xs @ [x]) = List.map_filter f xs @ (case f x of Some y \<Rightarrow> [y] | None \<Rightarrow> [])"
  by (induction xs) (auto simp: List.map_filter_simps split: option.split)

lemma add_tx_columns:
  assumes "add_tx A chain pos raw t = (Ok x, t')" and "columns A es t" and "pos = of_nat (length es)" and "length es < 2 ^ 64"
  obtains e where "al_envelope_decode A raw = Some e" "supported A chain e" "columns A (es @ [e]) t'"
    "tc_total_block_tx_count t' = tc_total_block_tx_count t"
proof -
  obtain e where e: "al_envelope_decode A raw = Some e"
    using assms(1) by (cases "al_envelope_decode A raw") (auto simp: add_tx_def)
  have ty: "env_tx_type e \<noteq> Eip4844Tx" using assms(1) e by (cases e) (auto simp: add_tx_def)
  note f = supported_fields [OF ty]
  have sup: "supported A chain e"
    using assms(1) e f ty by (auto simp: add_tx_def supported_def Let_def res_simps split: if_splits)
  have pos: "unat pos = length es" using assms(3,4) by simp
  have leg: "unat (tc_legacy_tx_count t) = length (filter is_legacy es)"
    using assms(2) unat_u64 [OF le_less_trans [OF length_filter_le assms(4)], of is_legacy] by (simp add: columns_def)
  have cr: "represents (set_bit_at (unat pos) (env_to e = None) (tc_contract_creation_bits t)) (map (\<lambda>e. env_to e = None) (es @ [e]))"
    using represents_snoc [of "tc_contract_creation_bits t" "map (\<lambda>e. env_to e = None) es"] assms(2) pos by (simp add: columns_def)
  have pr: "represents (set_bit_at (unat (tc_legacy_tx_count t)) (al_is_replay_protected A e) (tc_protected_bits t))
      (map (al_is_replay_protected A) (filter is_legacy es) @ [al_is_replay_protected A e])"
    using represents_snoc [of "tc_protected_bits t" "map (al_is_replay_protected A) (filter is_legacy es)"] assms(2) leg by (simp add: columns_def)
  have "columns A (es @ [e]) t' \<and> tc_total_block_tx_count t' = tc_total_block_tx_count t"
    using assms(1,2) e f sup cr pr
    by (auto simp: add_tx_def supported_def columns_def is_legacy_def map_filter_snoc Let_def split: if_splits option.splits)
  with e sup that show ?thesis by blast
qed

lemma add_txs_from_columns:
  assumes "add_txs_from A chain pos raws t = (Ok x, t')" and "columns A es t" and "pos = of_nat (length es)"
    and "length es + length raws < 2 ^ 64"
  shows "\<exists>es'. list_all2 (\<lambda>raw e. al_envelope_decode A raw = Some e \<and> supported A chain e) raws es' \<and> columns A (es @ es') t'
     \<and> tc_total_block_tx_count t' = tc_total_block_tx_count t"
  using assms
proof (induction raws arbitrary: pos t es)
  case (Cons raw raws)
  obtain y t1 where a: "add_tx A chain pos raw t = (Ok y, t1)" and b: "add_txs_from A chain (pos + 1) raws t1 = (Ok x, t')"
    using Cons.prems(1) by (auto simp: res_simps split: prod.splits)
  have len: "length es < 2 ^ 64" using Cons.prems(4) by simp
  obtain e where e: "al_envelope_decode A raw = Some e" "supported A chain e" "columns A (es @ [e]) t1"
      "tc_total_block_tx_count t1 = tc_total_block_tx_count t"
    using add_tx_columns [OF a Cons.prems(2,3) len] by metis
  with Cons.IH [OF b e(3)] Cons.prems(3,4) obtain es' where
    "list_all2 (\<lambda>raw e. al_envelope_decode A raw = Some e \<and> supported A chain e) raws es'" "columns A (es @ e # es') t'"
    "tc_total_block_tx_count t' = tc_total_block_tx_count t" by auto
  with e show ?case by (intro exI [of _ "e # es'"]) simp
qed simp

text \<open>Adding a block's transactions extends the columns by their envelopes.\<close>

definition filled :: "('ac, 'au) alloy_txs \<Rightarrow> u64 \<Rightarrow> bytes list \<Rightarrow> ('ac, 'au) tx_envelope list \<Rightarrow> span_batch_transactions \<Rightarrow> bool" where
  "filled A chain raws es t \<longleftrightarrow>
     list_all2 (\<lambda>raw e. al_envelope_decode A raw = Some e \<and> supported A chain e) raws es
   \<and> columns A es t \<and> tc_total_block_tx_count t = of_nat (length es)"

lemma add_txs_filled:
  assumes "add_txs A raws chain t = (Ok x, t')" and "filled A chain raws0 es t" and "length raws0 + length raws < 2 ^ 64"
  shows "\<exists>es'. filled A chain (raws0 @ raws) (es @ es') t'"
proof -
  have len: "length raws0 = length es" using assms(2) by (auto simp: filled_def dest: list_all2_lengthD)
  obtain y t1 where a: "add_txs_from A chain (tc_total_block_tx_count t) raws t = (Ok y, t1)"
    and t': "t' = t1\<lparr>tc_total_block_tx_count := tc_total_block_tx_count t1 + of_nat (length raws)\<rparr>"
    using assms(1) by (auto simp: add_txs_def res_simps split: prod.splits)
  obtain es' where es': "list_all2 (\<lambda>raw e. al_envelope_decode A raw = Some e \<and> supported A chain e) raws es'"
      "columns A (es @ es') t1" "tc_total_block_tx_count t1 = tc_total_block_tx_count t"
    using add_txs_from_columns [OF a, of es] assms(2,3) len by (auto simp: filled_def)
  have "length es' = length raws" using es'(1) by (auto dest: list_all2_lengthD)
  with es' t' assms(2) have "filled A chain (raws0 @ raws) (es @ es') t'"
    by (auto simp: filled_def columns_def intro: list_all2_appendI)
  then show ?thesis ..
qed

section \<open>Laws of the codecs\<close>

definition varint_law :: "varint \<Rightarrow> bool" where
  "varint_law V \<longleftrightarrow> (\<forall>n rest. vi_decode V (vi_encode V n @ rest) = Some (n, rest))"

text \<open>Type bytes are those of EIP-2718, and all but legacy transactions name their chain.\<close>

definition types_law :: "('ac, 'au) alloy_txs \<Rightarrow> bool" where
  "types_law A \<longleftrightarrow>
     (\<forall>t. al_type_of_byte A (al_type_byte A t) = Some t \<and> al_type_byte A t \<le> 0x7F) \<and> al_type_byte A LegacyTx = 0
   \<and> (\<forall>e. al_is_replay_protected A e = (case e of EnvLegacy s \<Rightarrow> tl_chain_id (sd_tx s) \<noteq> None | _ \<Rightarrow> True))"

text \<open>An RLP list starts with a byte above the strings of one byte, and its header gives its length.\<close>

definition rlp_list :: "('ac, 'au) alloy_txs \<Rightarrow> bytes \<Rightarrow> bool" where
  "rlp_list A bs \<longleftrightarrow>
     bs \<noteq> [] \<and> hd bs > 0x7F \<and> (\<forall>rest. \<exists>n m. al_header A (bs @ rest) = Some (True, n, m) \<and> n + m = length bs)"

fun rlp_law :: "('ac, 'au) alloy_txs \<Rightarrow> ('ac, 'au) tx_data \<Rightarrow> bool" where
  "rlp_law A (LegacyData d) \<longleftrightarrow> rlp_list A (al_legacy_rlp A d) \<and> al_legacy_decode A (al_legacy_rlp A d) = Some d"
| "rlp_law A (Eip2930Data d) \<longleftrightarrow> rlp_list A (al_eip2930_rlp A d) \<and> al_eip2930_decode A (al_eip2930_rlp A d) = Some d"
| "rlp_law A (Eip1559Data d) \<longleftrightarrow> rlp_list A (al_eip1559_rlp A d) \<and> al_eip1559_decode A (al_eip1559_rlp A d) = Some d"
| "rlp_law A (Eip7702Data d) \<longleftrightarrow> rlp_list A (al_eip7702_rlp A d) \<and> al_eip7702_decode A (al_eip7702_rlp A d) = Some d"

lemma rlp_listE:
  assumes "rlp_list A bs"
  obtains b bs' n m where "bs = b # bs'" "b > 0x7F" "al_header A (bs @ rest) = Some (True, n, m)" "n + m = length bs"
  using assms unfolding rlp_list_def by (metis list.exhaust_sel)

lemma read_typed:
  assumes "types_law A" and "rlp_list A bs"
  shows "read_tx_data A (al_type_byte A t # bs @ rest) = Ok ((al_type_byte A t # bs, t), rest)"
  using assms(1) rlp_listE [OF assms(2), of rest thesis for thesis] assms(2)
proof -
  obtain n m where h: "al_header A (bs @ rest) = Some (True, n, m)" "n + m = length bs" using rlp_listE [OF assms(2), of rest] by metis
  have "al_type_byte A t \<le> 0x7F" "al_type_of_byte A (al_type_byte A t) = Some t" using assms(1) by (simp_all add: types_law_def)
  with h show ?thesis by (simp add: read_tx_data_def)
qed

lemma read_legacy:
  assumes "types_law A" and "rlp_list A bs"
  shows "read_tx_data A (bs @ rest) = Ok ((bs, LegacyTx), rest)"
proof -
  obtain b bs' n m where h: "bs = b # bs'" "b > 0x7F" "al_header A (bs @ rest) = Some (True, n, m)" "n + m = length bs"
    using rlp_listE [OF assms(2), of rest] by metis
  have "al_type_of_byte A 0 = Some LegacyTx" using assms(1) unfolding types_law_def by metis
  with h show ?thesis by (auto simp: read_tx_data_def not_le)
qed

lemma read_data_encode:
  "\<lbrakk> types_law A; rlp_law A d \<rbrakk> \<Longrightarrow> read_tx_data A (data_encode A d @ rest) = Ok ((data_encode A d, data_tx_type d), rest)"
  by (cases d) (simp_all add: read_typed read_legacy)

lemma typed_byte: "types_law A \<Longrightarrow> \<not> al_type_byte A t > 0x7F \<and> al_type_of_byte A (al_type_byte A t) = Some t"
  by (simp add: types_law_def not_less)

lemma data_decode_encode:
  assumes "types_law A" and "rlp_law A d"
  shows "data_decode A (data_encode A d) = Some d"
proof (cases d)
  case (LegacyData x)
  then have "rlp_list A (al_legacy_rlp A x)" using assms(2) by simp
  with LegacyData assms(2) show ?thesis by (auto simp: data_decode_def rlp_list_def)
qed (insert assms typed_byte [OF assms(1)], auto simp: data_decode_def decode_typed_def rlp_list_def neq_Nil_conv)

section \<open>Round trip of the columns\<close>

lemma read_many_concat:
  assumes "\<And>x r. x \<in> set xs \<Longrightarrow> f (enc x @ r) = Ok (g x, r)" and "n = length xs"
  shows "read_many f n (concat (map enc xs) @ rest) = Ok (map g xs, rest)"
  using assms(1) unfolding assms(2) by (induction xs) simp_all

lemma set_bits_represents:
  "represents bits vs \<Longrightarrow> represents (set_bits (length vs) ws bits) (vs @ ws)"
proof (induction ws arbitrary: bits vs)
  case (Cons w ws)
  from Cons.IH [OF represents_snoc [OF Cons.prems, of w]] show ?case by simp
qed simp

lemma u256_be [simp]: "(of_nat (nat_of_be (be_of_nat 32 (unat (v :: u256)))) :: u256) = v"
proof -
  have "unat v < 256 ^ 32" using unsigned_less [of v, where ?'a = nat] by simp
  then show ?thesis by (simp add: nat_of_be_of_nat)
qed

lemma decode_sigs_concat:
  assumes "\<And>i. i < length sigs \<Longrightarrow> get_bit bits (k + i) = Some (if sig_v (sigs ! i) then 1 else 0)"
  shows "decode_sigs_from bits k (length sigs) (concat (map (\<lambda>s. be_of_nat 32 (unat (sig_r s)) @ be_of_nat 32 (unat (sig_s s))) sigs) @ rest) = Ok (sigs, rest)"
  using assms
proof (induction sigs arbitrary: k)
  case (Cons s sigs)
  have "get_bit bits k = Some (if sig_v s then 1 else 0)" using Cons.prems [of 0] by simp
  moreover have "get_bit bits (Suc k + i) = Some (if sig_v (sigs ! i) then 1 else 0)" if "i < length sigs" for i
    using Cons.prems [of "Suc i"] that by simp
  ultimately show ?case using Cons.IH [of "Suc k"] by (simp add: read_slice_def)
qed simp

lemma sum_of_nat_u64: "sum_list (map (\<lambda>b. of_nat (f b) :: u64) bs) = of_nat (sum_list (map f bs))"
  by (induction bs) simp_all

lemma columns_creation_count:
  assumes "columns A es t" and "length es < 2 ^ 64" and "tc_total_block_tx_count t = of_nat (length es)"
  shows "unat (tc_total_block_tx_count t - contract_creation_count t) = length (tc_tx_tos t)"
proof -
  let ?c = "length (filter (\<lambda>e. env_to e = None) es)" and ?d = "length (filter (\<lambda>e. env_to e \<noteq> None) es)"
  have sum: "?c + ?d = length es" by (rule sum_length_filter_compl)
  have "contract_creation_count t = of_nat ?c"
    using assms(1) represents_count [of "tc_contract_creation_bits t" "map (\<lambda>e. env_to e = None) es"]
    by (simp add: contract_creation_count_def sum_of_nat_u64 columns_def filter_map comp_def)
  moreover have "(of_nat (length es) :: u64) = of_nat ?c + of_nat ?d" by (simp only: sum flip: of_nat_add)
  ultimately have "tc_total_block_tx_count t - contract_creation_count t = of_nat ?d" using assms(3) by simp
  moreover have "?d < 2 ^ 64" using sum assms(2) by linarith
  ultimately show ?thesis using assms(1) by (simp add: columns_def List.map_filter_def)
qed

definition fits :: "('ac, 'au) alloy_txs \<Rightarrow> ('ac, 'au) tx_envelope \<Rightarrow> bool" where
  "fits A e \<longleftrightarrow> rlp_law A (env_data e) \<and> (\<forall>a. env_to e = Some a \<longrightarrow> length a = 20)"

lemma data_type_env: "env_tx_type e \<noteq> Eip4844Tx \<Longrightarrow> data_tx_type (env_data e) = env_tx_type e"
  by (cases e) (simp_all add: env_data_def)

lemma columns_bits:
  assumes "columns A es t" and "length es < 2 ^ 64" and "tc_total_block_tx_count t = of_nat (length es)"
  shows "represents (tc_contract_creation_bits t) (map (\<lambda>e. env_to e = None) es)"
    and "represents (tc_protected_bits t) (map (al_is_replay_protected A) (filter is_legacy es))"
    and "represents (set_bits 0 (map sig_v (tc_tx_sigs t)) []) (map (\<lambda>e. sig_v (env_sig e)) es)"
    and "unat (tc_total_block_tx_count t) = length es" and "unat (tc_legacy_tx_count t) = length (filter is_legacy es)"
  using assms set_bits_represents [of "[]" "[]" "map (\<lambda>e. sig_v (env_sig e)) es"] unat_u64 [OF le_less_trans [OF length_filter_le assms(2)], of is_legacy]
  by (simp_all add: columns_def comp_def)

lemma not_too_many: "n \<le> 10000000 \<Longrightarrow> \<not> of_nat n > MAX_SPAN_BATCH_ELEMENTS"
  using unat_u64 [of n] by (simp add: MAX_SPAN_BATCH_ELEMENTS_def word_less_nat_alt)

lemma txs_roundtrip:
  assumes "columns A es t" and "length es \<le> 10000000" and "tc_total_block_tx_count t = of_nat (length es)"
    and "varint_law V" and "types_law A" and "\<forall>e \<in> set es. fits A e \<and> env_tx_type e \<noteq> Eip4844Tx"
  obtains out where "txs_encode V t = Ok out"
    "\<And>rest. txs_decode A V (txs_default\<lparr>tc_total_block_tx_count := tc_total_block_tx_count t\<rparr>) (out @ rest) = Ok (t, rest)"
proof -
  have small: "length es < 2 ^ 64" using assms(2) by simp
  note b = columns_bits [OF assms(1) small assms(3)]
  let ?n = "length es" and ?y = "set_bits 0 (map sig_v (tc_tx_sigs t)) []"
  let ?sigs = "concat (map (\<lambda>sig. be_of_nat 32 (unat (sig_r sig)) @ be_of_nat 32 (unat (sig_s sig))) (tc_tx_sigs t))"
  let ?out = "tc_contract_creation_bits t @ (?y @ ?sigs) @ encode_tx_tos t @ encode_tx_datas t @ encode_tx_nonces V t @ encode_tx_gases V t @ tc_protected_bits t"
  have out: "txs_encode V t = Ok ?out"
    using represents_encode [OF b(1)] represents_encode [OF b(2)] represents_encode [OF b(3)] b(4,5)
    by (simp add: txs_encode_def encode_contract_creation_bits_def encode_tx_sigs_def encode_protected_bits_def)
  have cols: "tc_tx_sigs t = map env_sig es" "tc_tx_nonces t = map env_nonce es" "tc_tx_gases t = map env_gas es"
    "tc_tx_tos t = List.map_filter env_to es" "tc_tx_datas t = map (\<lambda>e. data_encode A (env_data e)) es" "tc_tx_types t = map env_tx_type es"
    "tc_legacy_tx_count t = of_nat (length (filter is_legacy es))"
    using assms(1) by (simp_all add: columns_def)
  have max: "\<not> of_nat ?n > MAX_SPAN_BATCH_ELEMENTS" "\<not> of_nat (length (filter is_legacy es)) > MAX_SPAN_BATCH_ELEMENTS"
    using not_too_many [OF assms(2)] not_too_many [OF le_trans [OF length_filter_le assms(2)], of is_legacy] by simp_all
  have sigs: "decode_sigs_from ?y 0 ?n (?sigs @ r) = Ok (tc_tx_sigs t, r)" for r
    using decode_sigs_concat [of "tc_tx_sigs t" ?y 0 r] represents_get_bit [OF b(3)] by (simp add: cols(1))
  have tos: "read_many (read_slice 20 :: bytes \<Rightarrow> (bytes \<times> bytes, span_batch_error) res) (length (tc_tx_tos t)) (concat (tc_tx_tos t) @ r) = Ok (tc_tx_tos t, r)" for r
  proof -
    have "length a = 20" if "a \<in> set (tc_tx_tos t)" for a using that assms(6) by (auto simp: cols(4) List.map_filter_def fits_def)
    then show ?thesis using read_many_concat [of "tc_tx_tos t" "read_slice 20" "\<lambda>a. a" "\<lambda>a. a" "length (tc_tx_tos t)" r] by (simp add: read_slice_def)
  qed
  have datas: "read_many (read_tx_data A) ?n (concat (tc_tx_datas t) @ r) = Ok (map (\<lambda>e. (data_encode A (env_data e), env_tx_type e)) es, r)" for r
    unfolding cols(5) using assms(5,6)
    by (intro read_many_concat) (simp_all add: read_data_encode fits_def data_type_env)
  have var: "read_many (read_varint V e) ?n (concat (map (vi_encode V) (map f es)) @ r) = Ok (map f es, r)" for e f r
    using read_many_concat [of "map f es" "read_varint V e" "vi_encode V" "\<lambda>a. a" ?n] assms(4)
    by (simp add: read_varint_def varint_law_def)
  let ?t0 = "txs_default\<lparr>tc_total_block_tx_count := of_nat ?n\<rparr>"
  let ?t1 = "?t0\<lparr>tc_contract_creation_bits := tc_contract_creation_bits t\<rparr>"
  let ?t2 = "?t1\<lparr>tc_tx_sigs := tc_tx_sigs t\<rparr>"
  let ?t3 = "?t2\<lparr>tc_tx_tos := tc_tx_tos t\<rparr>"
  let ?t4 = "?t3\<lparr>tc_legacy_tx_count := tc_legacy_tx_count t, tc_tx_datas := tc_tx_datas t, tc_tx_types := tc_tx_types t\<rparr>"
  let ?t5 = "?t4\<lparr>tc_tx_nonces := tc_tx_nonces t\<rparr>"
  let ?t6 = "?t5\<lparr>tc_tx_gases := tc_tx_gases t\<rparr>"
  have s1: "decode_contract_creation_bits ?t0 (tc_contract_creation_bits t @ r) = Ok (?t1, r)" for r
    using represents_decode [OF b(1), of r] max(1) small by (simp add: decode_contract_creation_bits_def)
  have s2: "decode_tx_sigs ?t1 ((?y @ ?sigs) @ r) = Ok (?t2, r)" for r
    using represents_decode [OF b(3), of "?sigs @ r"] small sigs [of r] by (simp add: decode_tx_sigs_def)
  have "contract_creation_count ?t2 = contract_creation_count t" by (simp add: contract_creation_count_def)
  then have s3: "decode_tx_tos ?t2 (encode_tx_tos t @ r) = Ok (?t3, r)" for r
    using tos [of r] columns_creation_count [OF assms(1) small assms(3)] by (simp add: decode_tx_tos_def encode_tx_tos_def assms(3))
  have s4: "decode_tx_datas A ?t3 (encode_tx_datas t @ r) = Ok (?t4, r)" for r
    using datas [of r] small
    by (simp add: decode_tx_datas_def encode_tx_datas_def cols txs_default_def comp_def filter_map is_legacy_def [abs_def])
  have s5: "decode_tx_nonces V ?t4 (encode_tx_nonces V t @ r) = Ok (?t5, r)" for r
    using var [of TxNonces env_nonce r] small by (simp add: decode_tx_nonces_def encode_tx_nonces_def cols)
  have s6: "decode_tx_gases V ?t5 (encode_tx_gases V t @ r) = Ok (?t6, r)" for r
    using var [of TxNonces env_gas r] small by (simp add: decode_tx_gases_def encode_tx_gases_def cols)
  have s7: "decode_protected_bits ?t6 (tc_protected_bits t @ r) = Ok (t, r)" for r
    using represents_decode [OF b(2), of r] max(2) b(5) assms(3) by (simp add: decode_protected_bits_def cols(7) txs_default_def)
  have "txs_decode A V (txs_default\<lparr>tc_total_block_tx_count := tc_total_block_tx_count t\<rparr>) (?out @ rest) = Ok (t, rest)" for rest
    by (simp only: txs_decode_def append_assoc s1 s2 [simplified append_assoc] s3 s4 s5 s6 s7 rthen_simps prod.case assms(3))
  with out that show ?thesis by blast
qed

section \<open>Rebuilding the transactions\<close>

text \<open>The envelope with its hash computed anew, which is what the decoder knows of it.\<close>

fun rehashed :: "('ac, 'au) alloy_txs \<Rightarrow> ('ac, 'au) tx_envelope \<Rightarrow> ('ac, 'au) tx_envelope" where
  "rehashed A (EnvLegacy s) = EnvLegacy (s\<lparr>sd_hash := al_hash_legacy A (sd_tx s)\<rparr>)"
| "rehashed A (EnvEip2930 s) = EnvEip2930 (s\<lparr>sd_hash := al_hash_eip2930 A (sd_tx s)\<rparr>)"
| "rehashed A (EnvEip1559 s) = EnvEip1559 (s\<lparr>sd_hash := al_hash_eip1559 A (sd_tx s)\<rparr>)"
| "rehashed A (EnvEip7702 s) = EnvEip7702 (s\<lparr>sd_hash := al_hash_eip7702 A (sd_tx s)\<rparr>)"
| "rehashed A (EnvOther b) = EnvOther b"

lemma low_u128_ucast [simp]: "low_u128 (ucast (v :: u128)) = v"
  by (rule bit_word_eqI) (simp add: bit_simps)

lemma to_kind_kind_to [simp]: "to_kind (kind_to k) = k"
  by (cases k) (simp_all add: to_kind_def)

lemma to_signed_env:
  assumes "types_law A" and "supported A chain e"
  shows "to_signed_tx A (env_data e) (env_nonce e) (env_gas e) (env_to e) chain (env_sig e) (if is_legacy e then al_is_replay_protected A e else True)
    = Ok (rehashed A e)"
proof (cases e)
  case (EnvLegacy s)
  with assms have "tl_chain_id (sd_tx s) = (if al_is_replay_protected A e then Some chain else None)"
    by (auto simp: supported_def types_law_def env_chain_def)
  moreover obtain p where "al_is_replay_protected A e = p" by simp
  moreover have "is_legacy e" "env_data e = LegacyData \<lparr>ld_value = tl_value (sd_tx s), ld_gas_price = ucast (tl_gas_price (sd_tx s)), ld_data = tl_input (sd_tx s)\<rparr>"
    "env_nonce e = tl_nonce (sd_tx s)" "env_gas e = tl_gas_limit (sd_tx s)" "env_to e = kind_to (tl_to (sd_tx s))" "env_sig e = sd_signature s"
    "rehashed A e = EnvLegacy (s\<lparr>sd_hash := al_hash_legacy A (sd_tx s)\<rparr>)"
    using EnvLegacy by (simp_all add: is_legacy_def env_data_def env_nonce_def env_gas_def env_to_def env_sig_def)
  ultimately show ?thesis by (cases s; cases "sd_tx s") (auto simp: legacy_to_signed_tx_def Let_def)
next
  case (EnvEip2930 s)
  with assms have "t2_chain_id (sd_tx s) = chain" by (auto simp: supported_def types_law_def env_chain_def)
  with EnvEip2930 show ?thesis
    by (cases s; cases "sd_tx s") (auto simp: env_data_def env_nonce_def env_gas_def env_to_def env_sig_def is_legacy_def eip2930_to_signed_tx_def Let_def)
next
  case (EnvEip1559 s)
  with assms have "t9_chain_id (sd_tx s) = chain" by (auto simp: supported_def types_law_def env_chain_def)
  with EnvEip1559 show ?thesis
    by (cases s; cases "sd_tx s") (auto simp: env_data_def env_nonce_def env_gas_def env_to_def env_sig_def is_legacy_def eip1559_to_signed_tx_def Let_def)
next
  case (EnvEip7702 s)
  with assms have "t7_chain_id (sd_tx s) = chain" by (auto simp: supported_def types_law_def env_chain_def)
  with EnvEip7702 show ?thesis
    by (cases s; cases "sd_tx s") (auto simp: env_data_def env_nonce_def env_gas_def env_to_def env_sig_def is_legacy_def eip7702_to_signed_tx_def Let_def)
next
  case (EnvOther b)
  with assms show ?thesis by (simp add: supported_def)
qed

lemma nth_opt_append [simp]: "nth_opt (xs @ y # ys) (length xs) = Some y"
  by (simp add: nth_opt_def)

lemma full_txs_from_columns:
  assumes "columns A (es @ es') t" and "types_law A" and "\<forall>e \<in> set (es @ es'). fits A e \<and> supported A chain e"
  shows "full_txs_from A t chain (length es') (length es) (length (List.map_filter env_to es)) (length (filter is_legacy es))
    = Ok (map (\<lambda>e. al_encode_2718 A (rehashed A e)) es')"
  using assms
proof (induction es' arbitrary: es)
  case (Cons e es')
  have e: "supported A chain e" "rlp_law A (env_data e)" using Cons.prems(3) by (simp_all add: fits_def)
  then have ty: "data_tx_type (env_data e) = LegacyTx \<longleftrightarrow> is_legacy e" by (simp add: data_type_env supported_def is_legacy_def)
  have IH: "full_txs_from A t chain (length es') (Suc (length es)) (length (List.map_filter env_to (es @ [e]))) (length (filter is_legacy (es @ [e])))
      = Ok (map (\<lambda>e. al_encode_2718 A (rehashed A e)) es')"
    using Cons.IH [of "es @ [e]"] Cons.prems by simp
  have cr: "get_bit (tc_contract_creation_bits t) (length es) = Some (if env_to e = None then 1 else 0)"
    using Cons.prems(1) represents_get_bit [of "tc_contract_creation_bits t" "map (\<lambda>e. env_to e = None) (es @ e # es')" "length es"]
    by (simp add: columns_def nth_append)
  have pr: "get_bit (tc_protected_bits t) (length (filter is_legacy es)) = Some 1 \<longleftrightarrow> al_is_replay_protected A e" if "is_legacy e"
    using Cons.prems(1) that
      represents_get_bit [of "tc_protected_bits t" "map (al_is_replay_protected A) (filter is_legacy (es @ e # es'))" "length (filter is_legacy es)"]
    by (simp add: columns_def nth_append)
  have tos: "tc_tx_tos t = List.map_filter env_to es @ (case env_to e of Some a \<Rightarrow> [a] | None \<Rightarrow> []) @ List.map_filter env_to es'"
    using Cons.prems(1) by (simp add: columns_def List.map_filter_def split: option.split)
  have at: "nth_opt (tc_tx_datas t) (length es) = Some (data_encode A (env_data e))" "nth_opt (tc_tx_nonces t) (length es) = Some (env_nonce e)"
    "nth_opt (tc_tx_gases t) (length es) = Some (env_gas e)" "nth_opt (tc_tx_sigs t) (length es) = Some (env_sig e)"
    using Cons.prems(1) nth_opt_append [of "map f es" "f e" "map f es'" for f] by (simp_all add: columns_def)
  show ?case
    using to_signed_env [OF Cons.prems(2) e(1)] data_decode_encode [OF Cons.prems(2) e(2)] IH at cr pr tos ty
    by (cases "env_to e"; cases "is_legacy e") (auto simp: map_filter_snoc nth_append Let_def)
qed simp

lemma full_txs_columns:
  assumes "filled A chain raws es t" and "types_law A" and "\<forall>e \<in> set es. fits A e" and "length es < 2 ^ 64"
  shows "full_txs A chain t = Ok (map (\<lambda>e. al_encode_2718 A (rehashed A e)) es)"
proof -
  have sup: "\<forall>e \<in> set es. supported A chain e" using assms(1) by (auto simp: filled_def list_all2_conv_all_nth in_set_conv_nth)
  show ?thesis
    using full_txs_from_columns [of A "[]" es t chain] assms sup by (simp add: full_txs_def filled_def List.map_filter_simps)
qed

end
