(* ===== verification/Span_Codec.thy ===== *)
theory Span_Codec
  imports Span_Txs
begin

text \<open>
  Span batches as bytes (\<^verbatim>\<open>derive/src/batch/span_batch/\<close>: \<^verbatim>\<open>prefix.rs\<close>, \<^verbatim>\<open>payload.rs\<close>, \<^verbatim>\<open>raw.rs\<close>, and
  \<open>append_singular_batch\<close> of \<^verbatim>\<open>batch.rs\<close>): how the batcher builds a span batch from single batches and
  writes it, and how the derivation reads it and expands it into blocks.
\<close>

section \<open>Prefix\<close>

record span_batch_prefix =
  px_rel_timestamp :: u64
  px_l1_origin_num :: u64
  px_parent_check :: bytes
  px_l1_origin_check :: bytes

definition decode_rel_timestamp :: "varint \<Rightarrow> bytes \<Rightarrow> (u64 \<times> bytes, span_batch_error) res" where
  "decode_rel_timestamp V r = read_varint V RelativeTimestamp r"

definition decode_l1_origin_num :: "varint \<Rightarrow> bytes \<Rightarrow> (u64 \<times> bytes, span_batch_error) res" where
  "decode_l1_origin_num V r = read_varint V L1OriginNumber r"

text \<open>\<open>split_at\<close> panics when fewer than 20 bytes are left.\<close>

definition decode_parent_check :: "bytes \<Rightarrow> (bytes \<times> bytes, span_batch_error) res" where
  "decode_parent_check r = read_slice 20 r"

definition decode_l1_origin_check :: "bytes \<Rightarrow> (bytes \<times> bytes, span_batch_error) res" where
  "decode_l1_origin_check r = read_slice 20 r"

definition decode_prefix :: "varint \<Rightarrow> bytes \<Rightarrow> (span_batch_prefix \<times> bytes, span_batch_error) res" where
  "decode_prefix V r =
     rthen (decode_rel_timestamp V r) (\<lambda>(rel_timestamp, r).
     rthen (decode_l1_origin_num V r) (\<lambda>(l1_origin_num, r).
     rthen (decode_parent_check r) (\<lambda>(parent_check, r).
     rthen (decode_l1_origin_check r) (\<lambda>(l1_origin_check, r).
       Ok (\<lparr>px_rel_timestamp = rel_timestamp, px_l1_origin_num = l1_origin_num, px_parent_check = parent_check,
            px_l1_origin_check = l1_origin_check\<rparr>, r)))))"

definition encode_prefix :: "varint \<Rightarrow> span_batch_prefix \<Rightarrow> bytes" where
  "encode_prefix V p = vi_encode V (px_rel_timestamp p) @ vi_encode V (px_l1_origin_num p) @ px_parent_check p @ px_l1_origin_check p"

section \<open>Payload\<close>

record span_batch_payload =
  pl_block_count :: u64
  pl_origin_bits :: bytes
  pl_block_tx_counts :: "u64 list"
  pl_txs :: span_batch_transactions

definition payload_default :: span_batch_payload where
  "payload_default = \<lparr>pl_block_count = 0, pl_origin_bits = [], pl_block_tx_counts = [], pl_txs = txs_default\<rparr>"

definition decode_block_count :: "varint \<Rightarrow> span_batch_payload \<Rightarrow> bytes \<Rightarrow> (span_batch_payload \<times> bytes, span_batch_error) res" where
  "decode_block_count V p r =
     rthen (read_varint V BlockCount r) (\<lambda>(block_count, r).
     if block_count > MAX_SPAN_BATCH_ELEMENTS then Err TooBigSpanBatchSize
     else if block_count = 0 then Err EmptySpanBatch
     else Ok (p\<lparr>pl_block_count := block_count\<rparr>, r))"

definition decode_origin_bits :: "span_batch_payload \<Rightarrow> bytes \<Rightarrow> (span_batch_payload \<times> bytes, span_batch_error) res" where
  "decode_origin_bits p r =
     (if pl_block_count p > MAX_SPAN_BATCH_ELEMENTS then Err TooBigSpanBatchSize
      else rthen (bits_decode r (unat (pl_block_count p))) (\<lambda>(bits, r). Ok (p\<lparr>pl_origin_bits := bits\<rparr>, r)))"

definition decode_block_tx_count :: "varint \<Rightarrow> bytes \<Rightarrow> (u64 \<times> bytes, span_batch_error) res" where
  "decode_block_tx_count V r =
     rthen (read_varint V BlockTxCounts r) (\<lambda>(block_tx_count, r).
       if block_tx_count > MAX_SPAN_BATCH_ELEMENTS then Err TooBigSpanBatchSize else Ok (block_tx_count, r))"

definition decode_block_tx_counts :: "varint \<Rightarrow> span_batch_payload \<Rightarrow> bytes \<Rightarrow> (span_batch_payload \<times> bytes, span_batch_error) res" where
  "decode_block_tx_counts V p r =
     rthen (read_many (decode_block_tx_count V) (unat (pl_block_count p)) r) (\<lambda>(counts, r). Ok (p\<lparr>pl_block_tx_counts := counts\<rparr>, r))"

fun checked_sum :: "u64 \<Rightarrow> u64 list \<Rightarrow> u64 option" where
  "checked_sum acc [] = Some acc"
| "checked_sum acc (c # cs) = (case checked_add acc c of None \<Rightarrow> None | Some acc \<Rightarrow> checked_sum acc cs)"

definition decode_txs ::
  "('ac, 'au) alloy_txs \<Rightarrow> varint \<Rightarrow> span_batch_payload \<Rightarrow> bytes \<Rightarrow> (span_batch_payload \<times> bytes, span_batch_error) res" where
  "decode_txs A V p r =
     (if pl_block_tx_counts p = [] then Err EmptySpanBatch
      else
        rthen (ok_or (checked_sum 0 (pl_block_tx_counts p)) TooBigSpanBatchSize) (\<lambda>total_block_tx_count.
        if total_block_tx_count > MAX_SPAN_BATCH_ELEMENTS then Err TooBigSpanBatchSize
        else
          rthen (txs_decode A V ((pl_txs p)\<lparr>tc_total_block_tx_count := total_block_tx_count\<rparr>) r) (\<lambda>(txs, r).
            Ok (p\<lparr>pl_txs := txs\<rparr>, r))))"

definition decode_payload :: "('ac, 'au) alloy_txs \<Rightarrow> varint \<Rightarrow> bytes \<Rightarrow> (span_batch_payload \<times> bytes, span_batch_error) res" where
  "decode_payload A V r =
     rthen (decode_block_count V payload_default r) (\<lambda>(p, r).
     rthen (decode_origin_bits p r) (\<lambda>(p, r).
     rthen (decode_block_tx_counts V p r) (\<lambda>(p, r).
     decode_txs A V p r)))"

definition encode_origin_bits :: "span_batch_payload \<Rightarrow> (bytes, span_batch_error) res" where
  "encode_origin_bits p = bits_encode (unat (pl_block_count p)) (pl_origin_bits p)"

definition encode_block_count :: "varint \<Rightarrow> span_batch_payload \<Rightarrow> bytes" where
  "encode_block_count V p = vi_encode V (pl_block_count p)"

definition encode_block_tx_counts :: "varint \<Rightarrow> span_batch_payload \<Rightarrow> bytes" where
  "encode_block_tx_counts V p = concat (map (vi_encode V) (pl_block_tx_counts p))"

definition encode_payload :: "varint \<Rightarrow> span_batch_payload \<Rightarrow> (bytes, span_batch_error) res" where
  "encode_payload V p =
     rthen (encode_origin_bits p) (\<lambda>bits.
     rthen (txs_encode V (pl_txs p)) (\<lambda>txs.
       Ok (encode_block_count V p @ bits @ encode_block_tx_counts V p @ txs)))"

section \<open>Raw span batches\<close>

record full_span_batch = span_batch +
  sp_txs :: span_batch_transactions

record raw_span_batch =
  rw_prefix :: span_batch_prefix
  rw_payload :: span_batch_payload

definition raw_try_from :: "full_span_batch \<Rightarrow> (raw_span_batch, span_batch_error) res" where
  "raw_try_from v =
     (case sp_batches v of
        [] \<Rightarrow> Err EmptySpanBatch
      | span_start # _ \<Rightarrow>
          let span_end = last (sp_batches v) in
          Ok \<lparr>rw_prefix = \<lparr>px_rel_timestamp = se_timestamp span_start - sp_genesis_timestamp v, px_l1_origin_num = se_epoch_num span_end,
                            px_parent_check = sp_parent_check v, px_l1_origin_check = sp_l1_origin_check v\<rparr>,
              rw_payload = \<lparr>pl_block_count = of_nat (length (sp_batches v)), pl_origin_bits = sp_origin_bits v,
                             pl_block_tx_counts = sp_block_tx_counts v, pl_txs = sp_txs v\<rparr>\<rparr>)"

definition raw_encode :: "varint \<Rightarrow> raw_span_batch \<Rightarrow> (bytes, span_batch_error) res" where
  "raw_encode V raw = rthen (encode_payload V (rw_payload raw)) (\<lambda>p. Ok (encode_prefix V (rw_prefix raw) @ p))"

definition raw_decode :: "('ac, 'au) alloy_txs \<Rightarrow> varint \<Rightarrow> bytes \<Rightarrow> (raw_span_batch \<times> bytes, span_batch_error) res" where
  "raw_decode A V r =
     rthen (decode_prefix V r) (\<lambda>(prefix, r).
     rthen (decode_payload A V r) (\<lambda>(payload, r). Ok (\<lparr>rw_prefix = prefix, rw_payload = payload\<rparr>, r)))"

text \<open>The L1 origins of the blocks, from the last one down.\<close>

fun block_origin_nums :: "bytes \<Rightarrow> nat \<Rightarrow> u64 \<Rightarrow> u64 list \<Rightarrow> (u64 list, span_batch_error) res" where
  "block_origin_nums bits 0 l1_origin_number acc = Ok acc"
| "block_origin_nums bits (Suc i) l1_origin_number acc =
     rthen (ok_or (get_bit bits i) (Decoding L1OriginCheck)) (\<lambda>b.
       block_origin_nums bits i (if b = 1 \<and> i > 0 then l1_origin_number - 1 else l1_origin_number) (l1_origin_number # acc))"

text \<open>The fold over the blocks; indexing the counts or the transactions out of range panics.\<close>

fun derive_blocks :: "(nat \<Rightarrow> u64) \<Rightarrow> nat \<Rightarrow> u64 list \<Rightarrow> u64 list \<Rightarrow> bytes list \<Rightarrow> (span_batch_element list, span_batch_error) res" where
  "derive_blocks time i [] counts txs = Ok []"
| "derive_blocks time i (origin # origins) counts txs =
     (case counts of
        [] \<Rightarrow> Panic
      | count # counts \<Rightarrow>
          rthen (read_slice (unat count) txs) (\<lambda>(transactions, txs).
          rthen (derive_blocks time (Suc i) origins counts txs) (\<lambda>es.
            Ok (\<lparr>se_epoch_num = origin, se_timestamp = time i, se_transactions = transactions\<rparr> # es))))"

definition raw_derive ::
  "('ac, 'au) alloy_txs \<Rightarrow> u64 \<Rightarrow> u64 \<Rightarrow> u64 \<Rightarrow> raw_span_batch \<Rightarrow> (full_span_batch, span_batch_error) res" where
  "raw_derive A block_time genesis_time chain_id raw =
     (let p = rw_payload raw in
      if pl_block_count p = 0 then Err EmptySpanBatch
      else
        rthen (block_origin_nums (pl_origin_bits p) (unat (pl_block_count p)) (px_l1_origin_num (rw_prefix raw)) []) (\<lambda>origins.
        rthen (full_txs A chain_id (pl_txs p)) (\<lambda>enveloped_txs.
        rthen (derive_blocks (\<lambda>i. genesis_time + px_rel_timestamp (rw_prefix raw) + block_time * of_nat i) 0 origins (pl_block_tx_counts p) enveloped_txs) (\<lambda>batches.
          Ok \<lparr>sp_parent_check = px_parent_check (rw_prefix raw), sp_l1_origin_check = px_l1_origin_check (rw_prefix raw),
              sp_genesis_timestamp = 0, sp_chain_id = 0, sp_batches = batches, sp_origin_bits = [], sp_block_tx_counts = [],
              sp_txs = txs_default\<rparr>))))"

text \<open>The branch of \<open>Batch::decode\<close> for span batches.\<close>

definition span_decode :: "('ac, 'au) alloy_txs \<Rightarrow> varint \<Rightarrow> bytes \<Rightarrow> (span_batch, span_batch_error) res" where
  "span_decode A V r =
     rthen (raw_decode A V r) (\<lambda>(raw, _). rthen (raw_derive A 0 0 0 raw) (\<lambda>sp. Ok (span_batch.truncate sp)))"

section \<open>Building a span batch\<close>

definition append_singular_batch ::
  "('ac, 'au) alloy_txs \<Rightarrow> single_batch \<Rightarrow> u64 \<Rightarrow> full_span_batch \<Rightarrow> (unit, span_batch_error) res \<times> full_span_batch" where
  "append_singular_batch A sb seq_num s =
     (if sp_batches s \<noteq> [] \<and> se_timestamp (last (sp_batches s)) > sb_timestamp sb then (Panic, s)
      else
        let s1 = s\<lparr>sp_batches := sp_batches s @ [element_of_single sb], sp_l1_origin_check := take 20 (sb_epoch_hash sb)\<rparr>;
            (s2, epoch_bit) =
              (if length (sp_batches s1) = 1 then (s1\<lparr>sp_parent_check := take 20 (sb_parent_hash sb)\<rparr>, seq_num = 0)
               else (s1, se_epoch_num (last (butlast (sp_batches s1))) < se_epoch_num (last (sp_batches s1))));
            new_txs = sb_transactions sb;
            s3 = s2\<lparr>sp_origin_bits := set_bit_at (length (sp_batches s2) - 1) epoch_bit (sp_origin_bits s2),
                    sp_block_tx_counts := sp_block_tx_counts s2 @ [of_nat (length new_txs)]\<rparr>;
            (r, txs) = add_txs A new_txs (sp_chain_id s3) (sp_txs s3) in
        (r, s3\<lparr>sp_txs := txs\<rparr>))"

fun append_singular_batches ::
  "('ac, 'au) alloy_txs \<Rightarrow> (single_batch \<times> u64) list \<Rightarrow> full_span_batch \<Rightarrow> (unit, span_batch_error) res \<times> full_span_batch" where
  "append_singular_batches A [] s = (Ok (), s)"
| "append_singular_batches A ((sb, seq_num) # sbs) s =
     (let (r, s) = append_singular_batch A sb seq_num s in rbind r s (\<lambda>_. append_singular_batches A sbs s))"

definition span_start :: "u64 \<Rightarrow> u64 \<Rightarrow> full_span_batch" where
  "span_start genesis_timestamp chain_id =
     \<lparr>sp_parent_check = replicate 20 0, sp_l1_origin_check = replicate 20 0, sp_genesis_timestamp = genesis_timestamp, sp_chain_id = chain_id,
      sp_batches = [], sp_origin_bits = [], sp_block_tx_counts = [], sp_txs = txs_default\<rparr>"

section \<open>What a built span batch holds\<close>

fun epoch_bits :: "u64 \<Rightarrow> u64 list \<Rightarrow> bool list" where
  "epoch_bits e [] = []"
| "epoch_bits e (e' # es) = (e < e') # epoch_bits e' es"

definition origin_changes :: "(single_batch \<times> u64) list \<Rightarrow> bool list" where
  "origin_changes sbs = (case sbs of [] \<Rightarrow> [] | (sb, seq_num) # sbs \<Rightarrow> (seq_num = 0) # epoch_bits (sb_epoch_num sb) (map (sb_epoch_num \<circ> fst) sbs))"

abbreviation all_txs :: "(single_batch \<times> u64) list \<Rightarrow> bytes list" where
  "all_txs sbs \<equiv> concat (map (sb_transactions \<circ> fst) sbs)"

definition built ::
  "('ac, 'au) alloy_txs \<Rightarrow> u64 \<Rightarrow> u64 \<Rightarrow> (single_batch \<times> u64) list \<Rightarrow> ('ac, 'au) tx_envelope list \<Rightarrow> full_span_batch \<Rightarrow> bool" where
  "built A g c sbs es s \<longleftrightarrow>
     sp_genesis_timestamp s = g \<and> sp_chain_id s = c \<and> sp_batches s = map (element_of_single \<circ> fst) sbs
   \<and> sp_block_tx_counts s = map (\<lambda>b. of_nat (length (sb_transactions (fst b)))) sbs
   \<and> represents (sp_origin_bits s) (origin_changes sbs) \<and> filled A c (all_txs sbs) es (sp_txs s)
   \<and> (sbs \<noteq> [] \<longrightarrow> sp_parent_check s = take 20 (sb_parent_hash (fst (hd sbs))) \<and> sp_l1_origin_check s = take 20 (sb_epoch_hash (fst (last sbs))))"

lemma length_epoch_bits [simp]: "length (epoch_bits e es) = length es"
  by (induction e es rule: epoch_bits.induct) simp_all

lemma length_origin_changes [simp]: "length (origin_changes sbs) = length sbs"
  by (simp add: origin_changes_def split: list.split prod.split)

lemma epoch_bits_snoc: "epoch_bits e (es @ [e']) = epoch_bits e es @ [last (e # es) < e']"
  by (induction e es rule: epoch_bits.induct) simp_all

lemma origin_changes_snoc:
  "origin_changes (sbs @ [(sb, q)]) = origin_changes sbs @ [if sbs = [] then q = 0 else sb_epoch_num (fst (last sbs)) < sb_epoch_num sb]"
proof (cases sbs)
  case (Cons b bs)
  then show ?thesis by (cases b) (simp add: origin_changes_def epoch_bits_snoc last_map)
qed (simp add: origin_changes_def)

lemma built_start: "built A g c [] [] (span_start g c)"
  by (simp add: built_def span_start_def origin_changes_def filled_def columns_default) (simp add: txs_default_def)

lemma append_built:
  assumes "append_singular_batch A sb q s = (Ok x, s')" and "built A g c sbs es s"
    and "length (all_txs (sbs @ [(sb, q)])) < 2 ^ 64"
  shows "\<exists>es'. built A g c (sbs @ [(sb, q)]) (es @ es') s'"
proof -
  let ?bit = "if sbs = [] then q = 0 else sb_epoch_num (fst (last sbs)) < sb_epoch_num sb"
  have b: "sp_batches s = map (element_of_single \<circ> fst) sbs" "sp_chain_id s = c" "represents (sp_origin_bits s) (origin_changes sbs)"
    "filled A c (all_txs sbs) es (sp_txs s)"
    using assms(2) by (simp_all add: built_def)
  have epoch: "se_epoch_num (last (map (element_of_single \<circ> fst) sbs)) = sb_epoch_num (fst (last sbs))" if "sbs \<noteq> []"
    using that by (simp add: last_map element_of_single_def)
  obtain r txs where a: "add_txs A (sb_transactions sb) c (sp_txs s) = (r, txs)" by force
  define u where "u = s\<lparr>sp_batches := sp_batches s @ [element_of_single sb], sp_l1_origin_check := take 20 (sb_epoch_hash sb),
      sp_parent_check := (if sbs = [] then take 20 (sb_parent_hash sb) else sp_parent_check s),
      sp_origin_bits := set_bit_at (length sbs) ?bit (sp_origin_bits s),
      sp_block_tx_counts := sp_block_tx_counts s @ [of_nat (length (sb_transactions sb))], sp_txs := txs\<rparr>"
  have se: "se_epoch_num (element_of_single sb) = sb_epoch_num sb" by (simp add: element_of_single_def)
  have "append_singular_batch A sb q s \<in> {(Panic, s), (r, u)}"
    using a b epoch se by (auto simp: append_singular_batch_def u_def Let_def split: if_splits)
  with assms(1) have "r = Ok x" and s': "s' = u" by auto
  then obtain es' where "filled A c (all_txs sbs @ sb_transactions sb) (es @ es') txs"
    using add_txs_filled [of A "sb_transactions sb" c "sp_txs s" x txs "all_txs sbs" es] a b(4) assms(3) by auto
  moreover have "represents (set_bit_at (length sbs) ?bit (sp_origin_bits s)) (origin_changes (sbs @ [(sb, q)]))"
    using represents_snoc [OF b(3), of ?bit] by (simp add: origin_changes_snoc)
  ultimately have "built A g c (sbs @ [(sb, q)]) (es @ es') s'"
    using assms(2) by (auto simp: built_def s' u_def)
  then show ?thesis ..
qed

lemma appends_built:
  assumes "append_singular_batches A sbs' s = (Ok x, s')" and "built A g c sbs es s" and "length (all_txs (sbs @ sbs')) < 2 ^ 64"
  shows "\<exists>es'. built A g c (sbs @ sbs') (es @ es') s'"
  using assms
proof (induction sbs' arbitrary: s sbs es)
  case Nil
  then show ?case by (intro exI [of _ "[]"]) simp
next
  case (Cons b sbs')
  obtain sb q where bq: "b = (sb, q)" by force
  obtain y s1 where a: "append_singular_batch A sb q s = (Ok y, s1)" and r: "append_singular_batches A sbs' s1 = (Ok x, s')"
    using Cons.prems(1) bq by (auto simp: res_simps split: prod.splits)
  obtain es1 where "built A g c (sbs @ [(sb, q)]) (es @ es1) s1"
    using append_built [OF a Cons.prems(2)] Cons.prems(3) bq by (auto simp: comp_def)
  from Cons.IH [OF r this] Cons.prems(3) bq show ?case by (metis append.assoc append_Cons append_Nil)
qed

section \<open>Round trip\<close>

lemma checked_sum_total:
  "unat acc + sum_list ns < 2 ^ 64 \<Longrightarrow> checked_sum acc (map of_nat ns) = Some (acc + of_nat (sum_list ns))"
proof (induction ns arbitrary: acc)
  case (Cons n ns)
  then have n: "unat (of_nat n :: u64) = n" by simp
  have "checked_add acc (of_nat n) = Some (acc + of_nat n)" using Cons.prems n by (simp add: checked_add_def)
  moreover have "unat (acc + of_nat n) = unat acc + n" using Cons.prems n by (simp add: unat_add_lem [THEN iffD1])
  ultimately show ?case using Cons.IH [of "acc + of_nat n"] Cons.prems by (simp add: add.assoc)
qed simp

lemma prefix_roundtrip:
  assumes "varint_law V" and "length (px_parent_check p) = 20" and "length (px_l1_origin_check p) = 20"
  shows "decode_prefix V (encode_prefix V p @ rest) = Ok (p, rest)"
  using assms by (simp add: decode_prefix_def encode_prefix_def decode_rel_timestamp_def decode_l1_origin_num_def decode_parent_check_def
      decode_l1_origin_check_def read_varint_def varint_law_def read_slice_def)

lemma payload_roundtrip:
  assumes "varint_law V" and "represents (pl_origin_bits p) vs" and "pl_block_count p = of_nat (length vs)"
    and "0 < length vs" and "length vs \<le> 10000000"
    and "pl_block_tx_counts p = map of_nat ns" and "length ns = length vs" and "sum_list ns \<le> 10000000"
    and "tc_total_block_tx_count (pl_txs p) = of_nat (sum_list ns)"
    and "txs_encode V (pl_txs p) = Ok txs"
    and "\<And>rest. txs_decode A V (txs_default\<lparr>tc_total_block_tx_count := tc_total_block_tx_count (pl_txs p)\<rparr>) (txs @ rest) = Ok (pl_txs p, rest)"
  obtains out where "encode_payload V p = Ok out" "\<And>rest. decode_payload A V (out @ rest) = Ok (p, rest)"
proof -
  let ?k = "length vs" and ?c = "encode_block_tx_counts V p"
  have k: "unat (pl_block_count p) = ?k" "pl_block_count p \<noteq> 0" "\<not> pl_block_count p > MAX_SPAN_BATCH_ELEMENTS"
    using assms(3-5) not_too_many [OF assms(5)] by (auto simp: unat_eq_zero [symmetric])
  have out: "encode_payload V p = Ok (encode_block_count V p @ pl_origin_bits p @ ?c @ txs)"
    using represents_encode [OF assms(2)] k(1) assms(10) by (simp add: encode_payload_def encode_origin_bits_def)
  let ?p1 = "payload_default\<lparr>pl_block_count := pl_block_count p\<rparr>"
  let ?p2 = "?p1\<lparr>pl_origin_bits := pl_origin_bits p\<rparr>"
  let ?p3 = "?p2\<lparr>pl_block_tx_counts := pl_block_tx_counts p\<rparr>"
  have s1: "decode_block_count V payload_default (encode_block_count V p @ r) = Ok (?p1, r)" for r
    using k(2,3) assms(1) by (simp add: decode_block_count_def encode_block_count_def read_varint_def varint_law_def)
  have s2: "decode_origin_bits ?p1 (pl_origin_bits p @ r) = Ok (?p2, r)" for r
    using represents_decode [OF assms(2), of r] k by (simp add: decode_origin_bits_def)
  have cnt: "decode_block_tx_count V (vi_encode V x @ r) = Ok (x, r)" if x: "x \<in> set (pl_block_tx_counts p)" for x r
  proof -
    obtain n where "n \<in> set ns" "x = of_nat n" using x assms(6) by auto
    then have "\<not> x > MAX_SPAN_BATCH_ELEMENTS" using not_too_many [OF le_trans [OF member_le_sum_list assms(8)]] by simp
    then show ?thesis using assms(1) by (simp add: decode_block_tx_count_def read_varint_def varint_law_def)
  qed
  have s3: "decode_block_tx_counts V ?p2 (?c @ r) = Ok (?p3, r)" for r
    using read_many_concat [of "pl_block_tx_counts p" "decode_block_tx_count V" "vi_encode V" "\<lambda>x. x" ?k r, OF cnt] k(1) assms(6,7)
    by (simp add: decode_block_tx_counts_def encode_block_tx_counts_def)
  have "checked_sum 0 (pl_block_tx_counts p) = Some (tc_total_block_tx_count (pl_txs p))"
    using checked_sum_total [of 0 ns] assms(6,8,9) by simp
  moreover have "pl_block_tx_counts p \<noteq> []" using assms(4,6,7) by auto
  ultimately have s4: "decode_txs A V ?p3 (txs @ r) = Ok (p, r)" for r
    using assms(11) [of r] not_too_many [OF assms(8)] assms(9) by (simp add: decode_txs_def payload_default_def)
  have "decode_payload A V ((encode_block_count V p @ pl_origin_bits p @ ?c @ txs) @ rest) = Ok (p, rest)" for rest
    by (simp add: decode_payload_def s1 s2 s3 s4)
  with out that show ?thesis by blast
qed

lemma origin_nums_down:
  assumes "\<And>i. i < length epochs \<Longrightarrow> get_bit bits i = Some (if bs ! i then 1 else 0)"
    and "\<And>i. Suc i < length epochs \<Longrightarrow> epochs ! Suc i = (if bs ! Suc i then epochs ! i + 1 else epochs ! i)"
    and "k < length epochs"
  shows "block_origin_nums bits (Suc k) (epochs ! k) acc = Ok (take (Suc k) epochs @ acc)"
  using assms(3)
proof (induction k arbitrary: acc)
  case 0
  then show ?case using assms(1) [of 0] by (simp add: take_Suc_conv_app_nth)
next
  case (Suc k)
  have "epochs ! Suc k - (if bs ! Suc k then 1 else 0) = epochs ! k" using assms(2) [of k] Suc.prems by simp
  then have "block_origin_nums bits (Suc (Suc k)) (epochs ! Suc k) acc = block_origin_nums bits (Suc k) (epochs ! k) (epochs ! Suc k # acc)"
    unfolding block_origin_nums.simps(2) [of bits "Suc k"] using assms(1) [of "Suc k"] Suc.prems by (cases "bs ! Suc k") (simp_all del: block_origin_nums.simps)
  also have "\<dots> = Ok (take (Suc (Suc k)) epochs @ acc)" using Suc by (simp add: take_Suc_conv_app_nth [of "Suc k"])
  finally show ?case .
qed

lemma derive_blocks_ok:
  assumes "length epochs = length txss" and "\<forall>ts \<in> set txss. length ts < 2 ^ 64"
  shows "derive_blocks time i epochs (map (\<lambda>ts. of_nat (length ts)) txss) (concat txss)
    = Ok (map (\<lambda>j. \<lparr>se_epoch_num = epochs ! j, se_timestamp = time (i + j), se_transactions = txss ! j\<rparr>) [0 ..< length epochs])"
  using assms
proof (induction epochs txss arbitrary: i rule: list_induct2)
  case (Cons e epochs ts txss)
  have "[0 ..< Suc (length epochs)] = 0 # map Suc [0 ..< length epochs]" by (simp only: map_Suc_upt upt_conv_Cons [OF zero_less_Suc])
  with Cons show ?case by (simp add: read_slice_def comp_def del: upt_Suc)
qed simp

text \<open>
  Blocks as a span batch can carry them: the epoch stays or grows by one from block to block, and
  the timestamps are a block time apart.
\<close>

definition spans :: "u64 \<Rightarrow> single_batch list \<Rightarrow> bool" where
  "spans block_time sbs \<longleftrightarrow>
     (\<forall>i. Suc i < length sbs \<longrightarrow>
        (sb_epoch_num (sbs ! Suc i) = sb_epoch_num (sbs ! i) \<or>
         sb_epoch_num (sbs ! i) < sb_epoch_num (sbs ! Suc i) \<and> sb_epoch_num (sbs ! Suc i) = sb_epoch_num (sbs ! i) + 1)
      \<and> sb_timestamp (sbs ! Suc i) = sb_timestamp (sbs ! i) + block_time)"

lemma spans_timestamp:
  assumes "spans bt sbs" and "i < length sbs"
  shows "sb_timestamp (sbs ! i) = sb_timestamp (sbs ! 0) + bt * of_nat i"
  using assms(2)
proof (induction i)
  case (Suc i)
  then have "sb_timestamp (sbs ! Suc i) = sb_timestamp (sbs ! i) + bt" using assms(1) by (simp add: spans_def)
  with Suc show ?case by (simp add: algebra_simps)
qed simp

lemma epoch_bits_nth: "Suc i < length (e # es) \<Longrightarrow> epoch_bits e es ! i = ((e # es) ! i < es ! i)"
proof (induction e es arbitrary: i rule: epoch_bits.induct)
  case (2 e e' es)
  then show ?case by (cases i) simp_all
qed simp

lemma origin_changes_nth:
  assumes "Suc i < length sbs"
  shows "origin_changes sbs ! Suc i = (sb_epoch_num (fst (sbs ! i)) < sb_epoch_num (fst (sbs ! Suc i)))"
proof -
  obtain sb q rest where "sbs = (sb, q) # rest" using assms by (cases sbs) auto
  with assms epoch_bits_nth [of i "sb_epoch_num sb" "map (sb_epoch_num \<circ> fst) rest"] show ?thesis
    by (cases i) (simp_all add: origin_changes_def)
qed

text \<open>A transaction after the round trip: its envelope, with the hash computed anew, in the EIP-2718 encoding.\<close>

definition reencoded :: "('ac, 'au) alloy_txs \<Rightarrow> bytes \<Rightarrow> bytes" where
  "reencoded A raw = (case al_envelope_decode A raw of Some e \<Rightarrow> al_encode_2718 A (rehashed A e))"

lemma filled_reencoded:
  "filled A c raws es t \<Longrightarrow> map (\<lambda>e. al_encode_2718 A (rehashed A e)) es = map (reencoded A) raws"
  by (auto simp: filled_def reencoded_def list_all2_conv_all_nth intro!: nth_equalityI)

lemma built_spans_back:
  fixes A :: "('ac, 'au) alloy_txs"
  assumes "built A g c sbs es s" and "sbs \<noteq> []" and "length sbs \<le> 10000000" and "length (all_txs sbs) \<le> 10000000"
    and "spans bt (map fst sbs)" and "varint_law V" and "types_law A" and "\<forall>e \<in> set es. fits A e"
    and "\<forall>b \<in> set sbs. length (sb_parent_hash (fst b)) = 32 \<and> length (sb_epoch_hash (fst b)) = 32"
  shows "\<exists>raw out s'. raw_try_from s = Ok raw \<and> raw_encode V raw = Ok out \<and> (\<forall>rest. raw_decode A V (out @ rest) = Ok (raw, rest))
    \<and> raw_derive A bt g c raw = Ok s' \<and> sp_parent_check s' = sp_parent_check s \<and> sp_l1_origin_check s' = sp_l1_origin_check s
    \<and> sp_batches s' = map (\<lambda>b. (element_of_single (fst b))\<lparr>se_transactions := map (reencoded A) (sb_transactions (fst b))\<rparr>) sbs"
proof -
  let ?n = "length sbs" and ?txss = "map (\<lambda>b. map (reencoded A) (sb_transactions (fst b))) sbs" and ?epochs = "map (sb_epoch_num \<circ> fst) sbs"
  define raw where "raw = \<lparr>rw_prefix = \<lparr>px_rel_timestamp = sb_timestamp (fst (hd sbs)) - g, px_l1_origin_num = sb_epoch_num (fst (last sbs)),
        px_parent_check = sp_parent_check s, px_l1_origin_check = sp_l1_origin_check s\<rparr>,
      rw_payload = \<lparr>pl_block_count = of_nat ?n, pl_origin_bits = sp_origin_bits s, pl_block_tx_counts = sp_block_tx_counts s, pl_txs = sp_txs s\<rparr>\<rparr>"
  have b: "sp_batches s = map (element_of_single \<circ> fst) sbs" "sp_block_tx_counts s = map (\<lambda>b. of_nat (length (sb_transactions (fst b)))) sbs"
    "represents (sp_origin_bits s) (origin_changes sbs)" "filled A c (all_txs sbs) es (sp_txs s)" "sp_genesis_timestamp s = g"
    "sp_parent_check s = take 20 (sb_parent_hash (fst (hd sbs)))" "sp_l1_origin_check s = take 20 (sb_epoch_hash (fst (last sbs)))"
    using assms(1,2) by (simp_all add: built_def)
  have f: "raw_try_from s = Ok raw"
    using assms(2) b(1,5) by (cases sbs) (auto simp: raw_try_from_def raw_def element_of_single_def last_map)
  have len: "length es = length (all_txs sbs)" and sup: "\<forall>e \<in> set es. supported A c e"
    using b(4) by (auto simp: filled_def list_all2_conv_all_nth in_set_conv_nth)
  have lens: "sum_list (map (\<lambda>b. length (sb_transactions (fst b))) sbs) = length (all_txs sbs)" by (simp add: length_concat comp_def)
  have es: "columns A es (sp_txs s)" "tc_total_block_tx_count (sp_txs s) = of_nat (length es)" using b(4) by (simp_all add: filled_def)
  obtain txs where txs: "txs_encode V (sp_txs s) = Ok txs"
    "\<And>rest. txs_decode A V (txs_default\<lparr>tc_total_block_tx_count := tc_total_block_tx_count (sp_txs s)\<rparr>) (txs @ rest) = Ok (sp_txs s, rest)"
    using txs_roundtrip [OF es(1) _ es(2) assms(6,7)] assms(4,8) sup len by (auto simp: supported_def)
  obtain pl where pl: "encode_payload V (rw_payload raw) = Ok pl" "\<And>rest. decode_payload A V (pl @ rest) = Ok (rw_payload raw, rest)"
    using payload_roundtrip [OF assms(6), of "rw_payload raw" "origin_changes sbs" "map (\<lambda>b. length (sb_transactions (fst b))) sbs" txs A]
      b(2,3) assms(2-4) txs es(2) len lens by (auto simp: raw_def comp_def)
  have px: "decode_prefix V (encode_prefix V (rw_prefix raw) @ rest) = Ok (rw_prefix raw, rest)" for rest
    using assms(2,9) b(6,7) by (intro prefix_roundtrip [OF assms(6)]) (simp_all add: raw_def)
  have dec: "raw_decode A V ((encode_prefix V (rw_prefix raw) @ pl) @ rest) = Ok (raw, rest)" for rest
    by (simp add: raw_decode_def px pl(2))
  have last: "sb_epoch_num (fst (last sbs)) = ?epochs ! (?n - 1)" using assms(2) by (simp add: last_conv_nth)
  have step: "?epochs ! Suc i = (if origin_changes sbs ! Suc i then ?epochs ! i + 1 else ?epochs ! i)" if "Suc i < ?n" for i
    using assms(5) that by (auto simp: spans_def origin_changes_nth)
  have origins: "block_origin_nums (sp_origin_bits s) ?n (sb_epoch_num (fst (last sbs))) [] = Ok ?epochs"
    using origin_nums_down [of ?epochs "sp_origin_bits s" "origin_changes sbs" "?n - 1" "[]"] represents_get_bit [OF b(3)] step assms(2)
    by (simp add: last)
  have full: "full_txs A c (sp_txs s) = Ok (concat ?txss)"
    using full_txs_columns [OF b(4) assms(7,8)] assms(4) len filled_reencoded [OF b(4)] by (simp add: map_concat comp_def)
  have small: "\<forall>ts \<in> set ?txss. length ts < 2 ^ 64"
    using member_le_sum_list [of _ "map (\<lambda>b. length (sb_transactions (fst b))) sbs"] lens assms(4) by force
  define time where "time = (\<lambda>i. g + px_rel_timestamp (rw_prefix raw) + bt * of_nat i)"
  have time: "time i = sb_timestamp (fst (sbs ! i))" if "i < ?n" for i
    using spans_timestamp [OF assms(5), of i] that assms(2) by (simp add: time_def raw_def hd_conv_nth)
  have blocks: "derive_blocks time 0 ?epochs (sp_block_tx_counts s) (concat ?txss)
      = Ok (map (\<lambda>b. (element_of_single (fst b))\<lparr>se_transactions := map (reencoded A) (sb_transactions (fst b))\<rparr>) sbs)"
  proof -
    have "sp_block_tx_counts s = map (\<lambda>ts. of_nat (length ts)) ?txss" by (simp add: b(2) comp_def)
    with derive_blocks_ok [OF _ small, of ?epochs time 0] time show ?thesis
      by (auto simp: element_of_single_def intro!: nth_equalityI)
  qed
  have "unat (of_nat ?n :: u64) = ?n" "of_nat ?n \<noteq> (0 :: u64)" using assms(2,3) by (auto simp: unat_eq_zero [symmetric])
  then have "raw_derive A bt g c raw = Ok \<lparr>sp_parent_check = sp_parent_check s, sp_l1_origin_check = sp_l1_origin_check s,
      sp_genesis_timestamp = 0, sp_chain_id = 0,
      sp_batches = map (\<lambda>b. (element_of_single (fst b))\<lparr>se_transactions := map (reencoded A) (sb_transactions (fst b))\<rparr>) sbs,
      sp_origin_bits = [], sp_block_tx_counts = [], sp_txs = txs_default\<rparr>"
    using origins full blocks by (simp add: raw_derive_def time_def raw_def)
  with f pl(1) dec show ?thesis by (auto simp: raw_encode_def)
qed

section \<open>Properties\<close>

text \<open>
  C14: what the batcher writes for a list of single batches, the decoder reads back and expands to the
  same blocks: epochs, timestamps and transactions, the latter in the EIP-2718 encoding of their
  envelope, as long as the epoch grows by at most one from block to block, the timestamps are a
  block time apart and the limits on blocks and transactions are kept.
\<close>

theorem span_batch_roundtrip:
  fixes A :: "('ac, 'au) alloy_txs"
  assumes "append_singular_batches A sbs (span_start g c) = (Ok (), s)" and "sbs \<noteq> []"
    and "length sbs \<le> 10000000" and "length (all_txs sbs) \<le> 10000000"
    and "spans bt (map fst sbs)" and "varint_law V" and "types_law A"
    and "\<And>raw e. \<lbrakk> raw \<in> set (all_txs sbs); al_envelope_decode A raw = Some e \<rbrakk> \<Longrightarrow> fits A e"
    and "\<And>b. b \<in> set sbs \<Longrightarrow> length (sb_parent_hash (fst b)) = 32 \<and> length (sb_epoch_hash (fst b)) = 32"
  shows "\<exists>raw out s'. raw_try_from s = Ok raw \<and> raw_encode V raw = Ok out \<and> (\<forall>rest. raw_decode A V (out @ rest) = Ok (raw, rest))
    \<and> raw_derive A bt g c raw = Ok s' \<and> sp_parent_check s' = sp_parent_check s \<and> sp_l1_origin_check s' = sp_l1_origin_check s
    \<and> sp_batches s' = map (\<lambda>b. (element_of_single (fst b))\<lparr>se_transactions := map (reencoded A) (sb_transactions (fst b))\<rparr>) sbs"
proof -
  obtain es where b: "built A g c sbs es s"
    using appends_built [OF assms(1) built_start] assms(4) by auto
  then have "filled A c (all_txs sbs) es (sp_txs s)" by (simp add: built_def)
  then have "\<forall>e \<in> set es. fits A e"
    using assms(8) unfolding filled_def list_all2_conv_all_nth by (metis in_set_conv_nth)
  with built_spans_back [OF b assms(2-7)] assms(9) show ?thesis by blast
qed

lemma derive_blocks_timestamps:
  "derive_blocks time i origins counts txs = Ok es \<Longrightarrow> j < length es \<Longrightarrow> se_timestamp (es ! j) = time (i + j)"
proof (induction time i origins counts txs arbitrary: es j rule: derive_blocks.induct)
  case (2 time i origin origins counts txs)
  then show ?case by (cases j) (auto simp: res_simps split: list.splits)
qed simp

text \<open>
  C38: the pipeline expands the span batches it reads with a block time, a genesis time and a chain id
  of zero: all blocks of a decoded span batch have the same timestamp, the relative timestamp of
  the prefix.
\<close>

theorem decoded_span_has_one_timestamp:
  assumes "span_decode A V r = Ok sp" and "b \<in> set (sp_batches sp)"
  shows "\<exists>raw rest. raw_decode A V r = Ok (raw, rest) \<and> se_timestamp b = px_rel_timestamp (rw_prefix raw)"
proof -
  obtain raw rest sp' where d: "raw_decode A V r = Ok (raw, rest)" "raw_derive A 0 0 0 raw = Ok sp'" "sp = span_batch.truncate sp'"
    using assms(1) by (auto simp: span_decode_def res_simps)
  obtain origins txs where "derive_blocks (\<lambda>i. px_rel_timestamp (rw_prefix raw)) 0 origins (pl_block_tx_counts (rw_payload raw)) txs = Ok (sp_batches sp)"
    using d(2,3) by (auto simp: raw_derive_def res_simps Let_def span_batch.truncate_def split: if_splits)
  from derive_blocks_timestamps [OF this] assms(2) have "se_timestamp b = px_rel_timestamp (rw_prefix raw)"
    by (auto simp: in_set_conv_nth)
  with d(1) show ?thesis by blast
qed

text \<open>
  A span batch that ends within its prefix panics the decoder instead of being an error, once
  its two numbers are read.
\<close>

theorem short_prefix_panics:
  assumes "varint_law V" and "length rest < 40"
  shows "raw_decode A V (vi_encode V rel @ vi_encode V num @ rest) = Panic"
proof -
  have "\<not> 20 \<le> length rest - 20" using assms(2) by linarith
  with assms(1) show ?thesis
    by (simp add: raw_decode_def decode_prefix_def decode_rel_timestamp_def decode_l1_origin_num_def decode_parent_check_def
        decode_l1_origin_check_def read_varint_def varint_law_def read_slice_def)
qed

subsection \<open>Examples\<close>

definition ex_varint :: varint where
  "ex_varint = \<lparr>vi_encode = (\<lambda>n. be_of_nat 8 (unat n)),
     vi_decode = (\<lambda>b. if length b < 8 then None else Some (of_nat (nat_of_be (take 8 b)), drop 8 b))\<rparr>"

lemma ex_varint_law: "varint_law ex_varint"
proof -
  have "unat (n :: u64) < 256 ^ 8" for n using unsigned_less [of n, where ?'a = nat] by simp
  then show ?thesis by (simp add: varint_law_def ex_varint_def nat_of_be_of_nat)
qed

text \<open>One legacy transaction, with an RLP list of three bytes for its data.\<close>

definition ex_span_tx :: "(unit, unit) tx_envelope" where
  "ex_span_tx = EnvLegacy \<lparr>sd_tx = \<lparr>tl_chain_id = Some 7, tl_nonce = 3, tl_gas_price = 1, tl_gas_limit = 21000, tl_to = Call (replicate 20 9),
     tl_value = 5, tl_input = []\<rparr>, sd_signature = \<lparr>sig_r = 1, sig_s = 2, sig_v = True\<rparr>, sd_hash = []\<rparr>"

definition ex_alloy_txs :: "(unit, unit) alloy_txs" where
  "ex_alloy_txs =
     \<lparr>al_type_byte = (\<lambda>t. case t of LegacyTx \<Rightarrow> 0 | Eip2930Tx \<Rightarrow> 1 | Eip1559Tx \<Rightarrow> 2 | Eip4844Tx \<Rightarrow> 3 | Eip7702Tx \<Rightarrow> 4),
      al_type_of_byte = (\<lambda>b. if b = 0 then Some LegacyTx else if b = 1 then Some Eip2930Tx else if b = 2 then Some Eip1559Tx
                             else if b = 3 then Some Eip4844Tx else if b = 4 then Some Eip7702Tx else None),
      al_envelope_decode = (\<lambda>raw. if raw = [1] then Some ex_span_tx else None), al_encode_2718 = (\<lambda>e. [2]),
      al_is_replay_protected = (\<lambda>e. case e of EnvLegacy s \<Rightarrow> tl_chain_id (sd_tx s) \<noteq> None | _ \<Rightarrow> True),
      al_hash_legacy = (\<lambda>_. []), al_hash_eip2930 = (\<lambda>_. []), al_hash_eip1559 = (\<lambda>_. []), al_hash_eip7702 = (\<lambda>_. []),
      al_header = (\<lambda>_. Some (True, 2, 1)), al_legacy_rlp = (\<lambda>_. [0xC2, 5, 1]),
      al_legacy_decode = (\<lambda>_. Some \<lparr>ld_value = 5, ld_gas_price = 1, ld_data = []\<rparr>),
      al_eip2930_rlp = (\<lambda>_. []), al_eip2930_decode = (\<lambda>_. None), al_eip1559_rlp = (\<lambda>_. []), al_eip1559_decode = (\<lambda>_. None),
      al_eip7702_rlp = (\<lambda>_. []), al_eip7702_decode = (\<lambda>_. None)\<rparr>"

lemma ex_types_law: "types_law ex_alloy_txs"
  by (simp add: types_law_def ex_alloy_txs_def word_le_nat_alt split: tx_type.split)

lemma ex_fits: "fits ex_alloy_txs ex_span_tx"
  by (simp add: fits_def env_data_def env_to_def ex_span_tx_def rlp_list_def ex_alloy_txs_def)

definition ex_blocks :: "(single_batch \<times> u64) list" where
  "ex_blocks =
     [(\<lparr>sb_parent_hash = replicate 32 1, sb_epoch_num = 5, sb_epoch_hash = replicate 32 2, sb_timestamp = 100, sb_transactions = [[1]]\<rparr>, 0),
      (\<lparr>sb_parent_hash = replicate 32 3, sb_epoch_num = 6, sb_epoch_hash = replicate 32 4, sb_timestamp = 102, sb_transactions = []\<rparr>, 0)]"

lemma ex_append: "\<exists>s. append_singular_batches ex_alloy_txs ex_blocks (span_start 90 7) = (Ok (), s)"
  by (simp add: ex_blocks_def append_singular_batch_def span_start_def element_of_single_def add_txs_def add_tx_def ex_alloy_txs_def ex_span_tx_def Let_def
      txs_default_def)

theorem span_batch_roundtrip_witness:
  "\<exists>s raw out s'. append_singular_batches ex_alloy_txs ex_blocks (span_start 90 7) = (Ok (), s) \<and> raw_try_from s = Ok raw
     \<and> raw_encode ex_varint raw = Ok out \<and> raw_decode ex_alloy_txs ex_varint (out @ [1]) = Ok (raw, [1]) \<and> raw_derive ex_alloy_txs 2 90 7 raw = Ok s'
     \<and> map se_timestamp (sp_batches s') = [100, 102] \<and> map se_epoch_num (sp_batches s') = [5, 6]"
proof -
  obtain s where s: "append_singular_batches ex_alloy_txs ex_blocks (span_start 90 7) = (Ok (), s)" using ex_append by blast
  have sp: "spans 2 (map fst ex_blocks)" by (simp add: spans_def ex_blocks_def less_Suc_eq)
  have fit: "fits ex_alloy_txs e" if "al_envelope_decode ex_alloy_txs raw = Some e" for raw e
    using that ex_fits by (auto simp: ex_alloy_txs_def split: if_splits)
  have "\<exists>raw out s'. raw_try_from s = Ok raw \<and> raw_encode ex_varint raw = Ok out
    \<and> (\<forall>rest. raw_decode ex_alloy_txs ex_varint (out @ rest) = Ok (raw, rest)) \<and> raw_derive ex_alloy_txs 2 90 7 raw = Ok s'
    \<and> sp_parent_check s' = sp_parent_check s \<and> sp_l1_origin_check s' = sp_l1_origin_check s
    \<and> sp_batches s' = map (\<lambda>b. (element_of_single (fst b))\<lparr>se_transactions := map (reencoded ex_alloy_txs) (sb_transactions (fst b))\<rparr>) ex_blocks"
    by (rule span_batch_roundtrip [OF s _ _ _ sp ex_varint_law ex_types_law]) (auto simp: ex_blocks_def intro: fit)
  with s show ?thesis by (fastforce simp: ex_blocks_def element_of_single_def)
qed

text \<open>A span batch of one block without transactions.\<close>

lemma ex_span_decode:
  "\<exists>r sp b. span_decode ex_alloy_txs ex_varint r = Ok sp \<and> sp_batches sp = [b]"
proof -
  let ?sb = "\<lparr>sb_parent_hash = replicate 32 1, sb_epoch_num = 5, sb_epoch_hash = replicate 32 2, sb_timestamp = 9, sb_transactions = []\<rparr>"
  obtain s where "append_singular_batches ex_alloy_txs [(?sb, 0)] (span_start 0 0) = (Ok (), s)"
    by (simp add: append_singular_batch_def span_start_def element_of_single_def add_txs_def Let_def txs_default_def)
  from appends_built [OF this built_start] obtain es where b: "built ex_alloy_txs 0 0 [(?sb, 0)] es s" by auto
  then have "es = []" by (simp add: built_def filled_def)
  with built_spans_back [OF b, of 0 ex_varint] ex_varint_law ex_types_law obtain raw out s' where
    "\<forall>rest. raw_decode ex_alloy_txs ex_varint (out @ rest) = Ok (raw, rest)" "raw_derive ex_alloy_txs 0 0 0 raw = Ok s'" "length (sp_batches s') = 1"
    by (auto simp: spans_def)
  then have "span_decode ex_alloy_txs ex_varint (out @ []) = Ok (span_batch.truncate s')" by (simp add: span_decode_def del: append_Nil2)
  with \<open>length (sp_batches s') = 1\<close> show ?thesis by (metis One_nat_def length_0_conv length_Suc_conv span_batch.truncate_def span_batch.select_convs(5))
qed

theorem decoded_span_has_one_timestamp_witness:
  "\<exists>r sp b raw rest. span_decode ex_alloy_txs ex_varint r = Ok sp \<and> sp_batches sp = [b]
     \<and> raw_decode ex_alloy_txs ex_varint r = Ok (raw, rest) \<and> se_timestamp b = px_rel_timestamp (rw_prefix raw)"
proof -
  obtain r sp b where d: "span_decode ex_alloy_txs ex_varint r = Ok sp" "sp_batches sp = [b]" using ex_span_decode by blast
  then have "b \<in> set (sp_batches sp)" by simp
  from decoded_span_has_one_timestamp [OF d(1) this] d show ?thesis by blast
qed

theorem short_prefix_panics_witness:
  "raw_decode ex_alloy_txs ex_varint (vi_encode ex_varint 5 @ vi_encode ex_varint 9 @ [1, 2, 3]) = Panic"
  by (rule short_prefix_panics [OF ex_varint_law]) simp

end
