(* ===== verification/Hints.thy ===== *)
theory Hints
  imports Preimage
begin

text \<open>
  Hints (\<^verbatim>\<open>proof/proof/src/hint.rs\<close>): what a client tells the host before it asks for preimages, as a type
  and a byte string, and their rendering as text.
\<close>

section \<open>Definitions\<close>

datatype hint_type =
    L1BlockHeader | L1Transactions | L1Receipts | L1Blob | DAProxyBlobHint | L1Precompile | StartingL2Output | L2StateNode
  | L2AccountProofHint | L2BlockData | L2BankHash | L2BlockTime

record 't hint =
  hint_ty :: 't
  hint_data :: bytes

datatype hint_parsing_error = HintParsingError string

definition hint_new :: "'t \<Rightarrow> bytes \<Rightarrow> 't hint" where
  "hint_new ty data = \<lparr>hint_ty = ty, hint_data = data\<rparr>"

definition hint_split :: "'t hint \<Rightarrow> 't \<times> bytes" where
  "hint_split h = (hint_ty h, hint_data h)"

definition hint_with_data :: "bytes \<Rightarrow> 't hint \<Rightarrow> 't hint" where
  "hint_with_data data h = (if data = [] then h else h\<lparr>hint_data := hint_data h @ data\<rparr>)"

definition type_with_data :: "bytes list \<Rightarrow> 't \<Rightarrow> 't hint" where
  "type_with_data data ty = hint_new ty (fold (\<lambda>d acc. acc @ d) data [])"

fun hint_type_str :: "hint_type \<Rightarrow> string" where
  "hint_type_str L1BlockHeader = ''l1-block-header''"
| "hint_type_str L1Transactions = ''l1-transactions''"
| "hint_type_str L1Receipts = ''l1-receipts''"
| "hint_type_str L1Blob = ''l1-blob''"
| "hint_type_str DAProxyBlobHint = ''da-proxy-blob''"
| "hint_type_str L1Precompile = ''l1-precompile''"
| "hint_type_str StartingL2Output = ''starting-l2-output''"
| "hint_type_str L2StateNode = ''l2-state-node''"
| "hint_type_str L2AccountProofHint = ''l2-account-proof''"
| "hint_type_str L2BlockData = ''l2-block-data''"
| "hint_type_str L2BankHash = ''l2-bank-hash''"
| "hint_type_str L2BlockTime = ''l2-block-time''"

definition hint_type_from_str :: "string \<Rightarrow> (hint_type, hint_parsing_error) res" where
  "hint_type_from_str v =
     (if v = ''l1-block-header'' then Ok L1BlockHeader
      else if v = ''l1-transactions'' then Ok L1Transactions
      else if v = ''l1-receipts'' then Ok L1Receipts
      else if v = ''l1-blob'' then Ok L1Blob
      else if v = ''da-proxy-blob'' then Ok DAProxyBlobHint
      else if v = ''l1-precompile'' then Ok L1Precompile
      else if v = ''starting-l2-output'' then Ok StartingL2Output
      else if v = ''l2-state-node'' then Ok L2StateNode
      else if v = ''l2-account-proof'' then Ok L2AccountProofHint
      else if v = ''l2-block-data'' then Ok L2BlockData
      else if v = ''l2-bank-hash'' then Ok L2BankHash
      else if v = ''l2-block-time'' then Ok L2BlockTime
      else Err (HintParsingError v))"

text \<open>Byte strings are displayed and read back by \<^verbatim>\<open>alloy_primitives\<close>.\<close>

record hex_codec =
  hx_display :: "bytes \<Rightarrow> string"
  hx_decode :: "string \<Rightarrow> (bytes, string) res"

definition hint_encode :: "hex_codec \<Rightarrow> hint_type hint \<Rightarrow> string" where
  "hint_encode H h = hint_type_str (hint_ty h) @ '' '' @ hx_display H (hint_data h)"

text \<open>\<open>str::split\<close> at a character: the parts between its occurrences.\<close>

fun split_on :: "char \<Rightarrow> string \<Rightarrow> string list" where
  "split_on c [] = [[]]"
| "split_on c (x # xs) =
     (if x = c then [] # split_on c xs
      else case split_on c xs of [] \<Rightarrow> [[x]] | p # ps \<Rightarrow> (x # p) # ps)"

definition hint_from_str :: "hex_codec \<Rightarrow> string \<Rightarrow> (hint_type hint, hint_parsing_error) res" where
  "hint_from_str H s =
     (case split_on CHR '' '' s of
        [ty, data] \<Rightarrow>
          rthen (hint_type_from_str ty) (\<lambda>hint_type.
          rthen (map_err HintParsingError (hx_decode H data)) (\<lambda>hint_data.
            Ok \<lparr>hint_ty = hint_type, hint_data = hint_data\<rparr>))
      | _ \<Rightarrow> Err (HintParsingError (''Invalid hint format: '' @ s)))"

section \<open>Lemmas\<close>

lemma hint_type_str_roundtrip [simp]: "hint_type_from_str (hint_type_str t) = Ok t"
  by (cases t) (simp_all add: hint_type_from_str_def)

lemma hint_type_str_no_space: "CHR '' '' \<notin> set (hint_type_str t)"
  by (cases t) simp_all

lemma split_on_nonempty: "split_on c xs \<noteq> []"
  by (induction xs) (auto split: list.split)

lemma split_on_none: "c \<notin> set xs \<Longrightarrow> split_on c xs = [xs]"
  by (induction xs) auto

lemma split_on_first: "c \<notin> set xs \<Longrightarrow> split_on c (xs @ c # ys) = xs # split_on c ys"
  by (induction xs) (auto split: list.split)

lemma type_with_data_concat: "type_with_data data ty = hint_new ty (concat data)"
proof -
  have "fold (\<lambda>d acc. acc @ d) data acc = acc @ concat data" for acc
    by (induction data arbitrary: acc) simp_all
  then show ?thesis by (simp add: type_with_data_def)
qed

text \<open>What the hints rely on: displaying has an inverse and writes no blank.\<close>

definition hex_law :: "hex_codec \<Rightarrow> bool" where
  "hex_law H \<longleftrightarrow> (\<forall>d. hx_decode H (hx_display H d) = Ok d \<and> CHR '' '' \<notin> set (hx_display H d))"

lemma hint_parse_encode: "hex_law H \<Longrightarrow> hint_from_str H (hint_encode H h) = Ok h"
  by (simp add: hint_from_str_def hint_encode_def split_on_first split_on_none hint_type_str_no_space hex_law_def)

section \<open>Properties\<close>

text \<open>
  The host reads back every hint that a client writes, and accepts a text only if it is a known
  type, one blank and data: a text that it accepts has exactly one blank.
\<close>

theorem hint_text_roundtrip:
  assumes "hex_law H"
  shows "hint_from_str H (hint_encode H h) = Ok h
    \<and> (hint_from_str H s = Ok h' \<longrightarrow> length (filter (\<lambda>c. c = CHR '' '') s) = 1 \<and> (\<exists>data. s = hint_type_str (hint_ty h') @ '' '' @ data))"
proof (intro conjI impI hint_parse_encode [OF assms])
  have join: "length (filter (\<lambda>c. c = x) s) = 1 \<and> s = a @ x # b" if "split_on x s = [a, b]" for x s a b
    using that
  proof (induction s arbitrary: a)
    case (Cons y ys)
    show ?case
    proof (cases "y = x")
      case True
      with Cons.prems have "a = []" "split_on x ys = [b]" by simp_all
      moreover have "filter (\<lambda>c. c = x) ys = [] \<and> ys = b" if "split_on x ys = [b]" for ys b
        using that by (induction ys arbitrary: b) (auto split: if_splits list.splits simp: split_on_nonempty)
      ultimately show ?thesis using True by simp
    next
      case False
      with Cons.prems obtain a' where a: "a = y # a'" and "split_on x ys = [a', b]"
        using split_on_nonempty [of x ys] by (auto split: list.splits)
      then have ih: "length (filter (\<lambda>c. c = x) ys) = 1" "ys = a' @ x # b" using Cons.IH by blast+
      have "length (filter (\<lambda>c. c = x) (y # ys)) = 1" using ih(1) False by simp
      moreover have "y # ys = a @ x # b" by (simp add: a ih(2))
      ultimately show ?thesis by blast
    qed
  qed simp
  assume ok: "hint_from_str H s = Ok h'"
  then obtain ty data where s: "split_on CHR '' '' s = [ty, data]" and t: "hint_type_from_str ty = Ok (hint_ty h')"
    by (auto simp: hint_from_str_def res_simps split: list.splits)
  have "ty = hint_type_str (hint_ty h')" using t by (auto simp: hint_type_from_str_def split: if_splits)
  with join [OF s] show "length (filter (\<lambda>c. c = CHR '' '') s) = 1" "\<exists>data. s = hint_type_str (hint_ty h') @ '' '' @ data" by auto
qed

text \<open>A codec with one letter per bit.\<close>

definition ex_hex :: hex_codec where
  "ex_hex = \<lparr>hx_display = (\<lambda>d. concat (map (\<lambda>b. replicate (unat b) (CHR ''a'') @ ''b'') d)),
     hx_decode = (\<lambda>s. Ok (map (\<lambda>p. of_nat (length p)) (butlast (split_on (CHR ''b'') s))))\<rparr>"

lemma ex_hex_law: "hex_law ex_hex"
proof -
  have "split_on (CHR ''b'') (concat (map (\<lambda>b :: u8. replicate (unat b) (CHR ''a'') @ ''b'') d)) = map (\<lambda>b. replicate (unat b) (CHR ''a'')) d @ [[]]" for d
    by (induction d) (simp_all add: split_on_first)
  moreover have "CHR '' '' \<notin> set (concat (map (\<lambda>b :: u8. replicate (unat b) (CHR ''a'') @ ''b'') d))" for d by auto
  ultimately show ?thesis by (simp add: hex_law_def ex_hex_def comp_def)
qed

theorem hint_text_roundtrip_witness:
  "hint_from_str ex_hex (hint_encode ex_hex (type_with_data [[1, 2], [3]] L2BlockData)) = Ok (hint_new L2BlockData [1, 2, 3])"
  using hint_text_roundtrip [OF ex_hex_law, of "hint_new L2BlockData [1, 2, 3]"] by (simp add: type_with_data_concat)

end
