(* ===== verification/Host.thy ===== *)
theory Host
  imports Hints List_Walker
begin

text \<open>
  The host (\<^verbatim>\<open>bin/host\<close>): key-value stores, the inputs it holds itself, the backends that answer requests
  without and with the help of remote providers, and the handler that turns a hint into preimages.
  The remote nodes, the hash and the trie builder are parameters.
\<close>

section \<open>Key-value stores\<close>

record 's kv_store =
  kv_get :: "b256 \<Rightarrow> 's \<Rightarrow> bytes option"
  kv_set :: "b256 \<Rightarrow> bytes \<Rightarrow> 's \<Rightarrow> (unit, string) res \<times> 's"

type_synonym mem_store = "(b256, bytes) hmap"

definition mem_get :: "b256 \<Rightarrow> mem_store \<Rightarrow> bytes option" where
  "mem_get key s = map_of s key"

definition mem_set :: "b256 \<Rightarrow> bytes \<Rightarrow> mem_store \<Rightarrow> (unit, string) res \<times> mem_store" where
  "mem_set key v s = (Ok (), AList.update key v s)"

definition mem_kv :: "mem_store kv_store" where
  "mem_kv = \<lparr>kv_get = mem_get, kv_set = mem_set\<rparr>"

text \<open>The local store decides by its own key what it returns; the remote store is any other store.\<close>

definition split_get :: "(b256 \<Rightarrow> bytes option) \<Rightarrow> 'r kv_store \<Rightarrow> b256 \<Rightarrow> 'r \<Rightarrow> bytes option" where
  "split_get local_get K key s =
     (case key_type_try_from (hd key) of
        Ok Local \<Rightarrow> local_get key
      | Ok _ \<Rightarrow> kv_get K key s
      | _ \<Rightarrow> None)"

definition split_kv :: "(b256 \<Rightarrow> bytes option) \<Rightarrow> 'r kv_store \<Rightarrow> 'r kv_store" where
  "split_kv local_get K = \<lparr>kv_get = split_get local_get K, kv_set = kv_set K\<rparr>"

section \<open>Local inputs\<close>

record single_chain_host =
  sh_l1_head :: b256
  sh_agreed_l2_block_number :: u64
  sh_agreed_l2_output_root :: b256
  sh_claimed_l2_output_root :: b256
  sh_claimed_l2_block_number :: u64
  sh_l2_node_address :: "string option"
  sh_l1_node_address :: "string option"
  sh_l1_beacon_address :: "string option"
  sh_data_dir :: "string option"
  sh_l2_chain_id :: "u64 option"
  sh_rollup_config_path :: "string option"

definition is_offline :: "single_chain_host \<Rightarrow> bool" where
  "is_offline cfg \<longleftrightarrow>
     sh_l1_node_address cfg = None \<and> sh_l2_node_address cfg = None \<and> sh_l1_beacon_address cfg = None \<and> sh_data_dir cfg \<noteq> None"

text \<open>Files and \<^verbatim>\<open>serde_json\<close>.\<close>

record config_io =
  io_read :: "string \<Rightarrow> (string, string) res"
  io_from_str :: "string \<Rightarrow> (rollup_config, string) res"
  io_to_vec :: "rollup_config \<Rightarrow> (bytes, string) res"
  io_from_slice :: "bytes \<Rightarrow> (rollup_config, string) res"

definition read_rollup_config :: "config_io \<Rightarrow> single_chain_host \<Rightarrow> (rollup_config, string) res" where
  "read_rollup_config I cfg =
     rthen (ok_or (sh_rollup_config_path cfg) ''No rollup config path provided. Please provide a path to the rollup config.'') (\<lambda>path.
     rthen (io_read I path) (\<lambda>ser_config. io_from_str I ser_config))"

definition L1_HEAD_KEY :: "256 word" where "L1_HEAD_KEY = 1"
definition L2_OUTPUT_ROOT_KEY :: "256 word" where "L2_OUTPUT_ROOT_KEY = 2"
definition L2_AGREED_BLOCK_NUMBER_KEY :: "256 word" where "L2_AGREED_BLOCK_NUMBER_KEY = 3"
definition L2_CLAIM_KEY :: "256 word" where "L2_CLAIM_KEY = 4"
definition L2_CLAIM_BLOCK_NUMBER_KEY :: "256 word" where "L2_CLAIM_BLOCK_NUMBER_KEY = 5"
definition L2_CHAIN_ID_KEY :: "256 word" where "L2_CHAIN_ID_KEY = 6"
definition L2_ROLLUP_CONFIG_KEY :: "256 word" where "L2_ROLLUP_CONFIG_KEY = 7"

lemmas local_key_defs = L1_HEAD_KEY_def L2_OUTPUT_ROOT_KEY_def L2_AGREED_BLOCK_NUMBER_KEY_def L2_CLAIM_KEY_def
  L2_CLAIM_BLOCK_NUMBER_KEY_def L2_CHAIN_ID_KEY_def L2_ROLLUP_CONFIG_KEY_def

text \<open>\<open>.ok()?\<close>; a panic below stays one in the source and has no value here.\<close>

definition ok_option :: "('a, 'e) res \<Rightarrow> 'a option" where
  "ok_option r = (case r of Ok x \<Rightarrow> Some x | _ \<Rightarrow> None)"

definition local_inputs_get :: "config_io \<Rightarrow> single_chain_host \<Rightarrow> b256 \<Rightarrow> bytes option" where
  "local_inputs_get I cfg key =
     (case key_try_from key of
        Ok preimage_key \<Rightarrow>
          let k = key_value preimage_key in
          if k = L1_HEAD_KEY then Some (sh_l1_head cfg)
          else if k = L2_OUTPUT_ROOT_KEY then Some (sh_agreed_l2_output_root cfg)
          else if k = L2_AGREED_BLOCK_NUMBER_KEY then Some (be_of_nat 8 (unat (sh_agreed_l2_block_number cfg)))
          else if k = L2_CLAIM_KEY then Some (sh_claimed_l2_output_root cfg)
          else if k = L2_CLAIM_BLOCK_NUMBER_KEY then Some (be_of_nat 8 (unat (sh_claimed_l2_block_number cfg)))
          else if k = L2_CHAIN_ID_KEY then Some (be_of_nat 8 (unat (case sh_l2_chain_id cfg of None \<Rightarrow> 0 | Some c \<Rightarrow> c)))
          else if k = L2_ROLLUP_CONFIG_KEY then
            Option.bind (ok_option (read_rollup_config I cfg)) (\<lambda>rollup_config. ok_option (io_to_vec I rollup_config))
          else None
      | _ \<Rightarrow> None)"

section \<open>Backends\<close>

definition offline_get_preimage :: "'s kv_store \<Rightarrow> 's \<Rightarrow> preimage_key \<Rightarrow> (bytes, preimage_oracle_error) res" where
  "offline_get_preimage K s key = ok_or (kv_get K (key_bytes key) s) PreimageKeyNotFound"

definition offline_route_hint :: "string \<Rightarrow> (unit, preimage_oracle_error) res" where
  "offline_route_hint _ = Ok ()"

record 's online_backend =
  ob_kv :: 's
  ob_proactive_hints :: "hint_type list"
  ob_last_hint :: "hint_type hint option"

definition online_new :: "'s \<Rightarrow> 's online_backend" where
  "online_new kv = \<lparr>ob_kv = kv, ob_proactive_hints = [], ob_last_hint = None\<rparr>"

definition with_proactive_hint :: "hint_type \<Rightarrow> 's online_backend \<Rightarrow> 's online_backend" where
  "with_proactive_hint t b = b\<lparr>ob_proactive_hints := List.insert t (ob_proactive_hints b)\<rparr>"

text \<open>A hint handler changes the store.\<close>

type_synonym 's hint_handler = "hint_type hint \<Rightarrow> 's \<Rightarrow> (unit, string) res \<times> 's"

fun parsing_message :: "hint_parsing_error \<Rightarrow> string" where
  "parsing_message (HintParsingError s) = ''Hint parsing error: '' @ s"

definition online_route_hint :: "hex_codec \<Rightarrow> 's hint_handler \<Rightarrow> string \<Rightarrow> 's online_backend \<Rightarrow> (unit, preimage_oracle_error) res \<times> 's online_backend" where
  "online_route_hint H fetch_hint s b =
     rbind (map_err (\<lambda>e. HintParseFailed (parsing_message e)) (hint_from_str H s)) b (\<lambda>parsed_hint.
     if hint_ty parsed_hint \<in> set (ob_proactive_hints b) then
       let (r, kv) = fetch_hint parsed_hint (ob_kv b) in (map_err OtherOracleError r, b\<lparr>ob_kv := kv\<rparr>)
     else (Ok (), b\<lparr>ob_last_hint := Some parsed_hint\<rparr>))"

text \<open>
  The retry loop of \<open>get_preimage\<close>; without fuel there is no result. A failed fetch goes round
  without counting.
\<close>

primrec online_retry ::
  "'s kv_store \<Rightarrow> 's hint_handler \<Rightarrow> preimage_key \<Rightarrow> nat \<Rightarrow> nat \<Rightarrow> 's online_backend
     \<Rightarrow> ((bytes, preimage_oracle_error) res \<times> 's online_backend) option" where
  "online_retry K fetch_hint key 0 tries b = None"
| "online_retry K fetch_hint key (Suc fuel) tries b =
     (case ob_last_hint b of
        Some hint \<Rightarrow>
          (case fetch_hint hint (ob_kv b) of
             (Err e, kv) \<Rightarrow> online_retry K fetch_hint key fuel tries (b\<lparr>ob_kv := kv\<rparr>)
           | (Panic, kv) \<Rightarrow> Some (Panic, b\<lparr>ob_kv := kv\<rparr>)
           | (Ok _, kv) \<Rightarrow>
               if tries + 1 > 10 then Some (Err (OtherOracleError ''query hint over time''), b\<lparr>ob_kv := kv\<rparr>)
               else
                 (case kv_get K (key_bytes key) kv of
                    Some v \<Rightarrow> Some (Ok v, b\<lparr>ob_kv := kv\<rparr>)
                  | None \<Rightarrow> online_retry K fetch_hint key fuel (tries + 1) (b\<lparr>ob_kv := kv\<rparr>)))
      | None \<Rightarrow>
          if tries + 1 > 10 then Some (Err (OtherOracleError ''query hint over time''), b)
          else online_retry K fetch_hint key fuel (tries + 1) b)"

definition online_get_preimage ::
  "'s kv_store \<Rightarrow> 's hint_handler \<Rightarrow> nat \<Rightarrow> preimage_key \<Rightarrow> 's online_backend
     \<Rightarrow> ((bytes, preimage_oracle_error) res \<times> 's online_backend) option" where
  "online_get_preimage K fetch_hint fuel key b =
     (case kv_get K (key_bytes key) (ob_kv b) of
        Some v \<Rightarrow> Some (Ok v, b)
      | None \<Rightarrow> online_retry K fetch_hint key fuel 0 b)"

section \<open>The hint handler\<close>

record output_root =
  or_state_root :: b256
  or_bridge_storage_root :: b256
  or_block_hash :: b256

abbreviation encoded_output :: "output_root \<Rightarrow> bytes" where
  "encoded_output r \<equiv> output_root_encode (or_state_root r) (or_bridge_storage_root r) (or_block_hash r)"

record tried_account =
  ta_account :: "bytes option"
  ta_proofs :: "bytes list"
  ta_withdrawal_proofs :: "bytes list"

text \<open>
  The remote nodes: what each request of the handler returns, with transactions, blocks and accounts
  already in the encoding that the handler stores; the precompiles of \<^verbatim>\<open>revm\<close>, Base58, and the hash builder,
  whose proof nodes are taken after its root is computed.
\<close>

record 'h remote =
  rm_keccak256 :: "bytes \<Rightarrow> b256"
  rm_raw_header :: "b256 \<Rightarrow> (bytes, string) res"
  rm_block_transactions :: "b256 \<Rightarrow> (bytes list option, string) res"
  rm_raw_receipts :: "b256 \<Rightarrow> (bytes list, string) res"
  rm_download_preimage :: "bytes \<Rightarrow> (bytes, string) res"
  rm_precompiles :: "address \<Rightarrow> (bytes \<Rightarrow> u64 \<Rightarrow> (bytes, string) res) option"
  rm_output_at_block :: "u64 \<Rightarrow> (output_root, string) res"
  rm_tried_account :: "b256 \<Rightarrow> u64 \<Rightarrow> (tried_account, string) res"
  rm_block_by_number :: "u64 \<Rightarrow> (bytes, string) res"
  rm_bank_hash :: "u64 \<Rightarrow> (string option, string) res"
  rm_bs58_decode :: "string \<Rightarrow> bytes option"
  rm_block_time :: "u64 \<Rightarrow> (64 word option, string) res"
  rm_rlp_usize :: "nat \<Rightarrow> bytes"
  rm_add_leaf :: "nibbles \<Rightarrow> bytes \<Rightarrow> 'h \<Rightarrow> 'h"
  rm_with_proof_retainer :: "nibbles list \<Rightarrow> 'h"
  rm_take_proof_nodes :: "'h \<Rightarrow> bytes list"

text \<open>Executing a precompile that the host accelerates.\<close>

definition execute_precompile :: "'h remote \<Rightarrow> address \<Rightarrow> bytes \<Rightarrow> u64 \<Rightarrow> (bytes, string) res" where
  "execute_precompile M addr input gas =
     (case rm_precompiles M addr of
        Some precompile \<Rightarrow> map_err (\<lambda>e. ''Failed precompile execution: '' @ e) (precompile input gas)
      | None \<Rightarrow> Err ''Precompile not accelerated'')"

primrec store_nodes :: "'s kv_store \<Rightarrow> (bytes \<Rightarrow> b256) \<Rightarrow> bytes list \<Rightarrow> 's \<Rightarrow> (unit, string) res \<times> 's" where
  "store_nodes K keccak256 [] kv = (Ok (), kv)"
| "store_nodes K keccak256 (node # nodes) kv =
     (let (r, kv) = kv_set K (key_bytes (new_keccak256 (keccak256 node))) node kv in
      rbind r kv (\<lambda>_. store_nodes K keccak256 nodes kv))"

text \<open>The empty root is the hash of the encoding of the empty string.\<close>

definition store_ordered_trie :: "'s kv_store \<Rightarrow> 'h remote \<Rightarrow> bytes list \<Rightarrow> 's \<Rightarrow> (unit, string) res \<times> 's" where
  "store_ordered_trie K M values kv =
     (if values = [] then kv_set K (key_bytes (key_new (rm_keccak256 M [0x80]) Keccak256)) [0x80] kv
      else
        let hb = ordered_trie_with_encoder (rm_rlp_usize M) (rm_add_leaf M) (rm_with_proof_retainer M) (\<lambda>v. v) values in
        store_nodes K (rm_keccak256 M) (rm_take_proof_nodes M hb) kv)"

definition ensure :: "bool \<Rightarrow> 'e \<Rightarrow> (unit, 'e) res" where
  "ensure b e = (if b then Ok () else Err e)"

definition fetch_precompile :: "'s kv_store \<Rightarrow> 'h remote \<Rightarrow> bytes \<Rightarrow> 's \<Rightarrow> (unit, string) res \<times> 's" where
  "fetch_precompile K M data kv =
     rbind (ensure (length data \<ge> 28) ''Invalid hint data length for l1 precompile'') kv (\<lambda>_.
     let addr = take 20 data; gas = of_nat (nat_of_be (take 8 (drop 20 data))); input = drop 28 data;
         input_hash = rm_keccak256 M data in
     case execute_precompile M addr input gas of
       Panic \<Rightarrow> (Panic, kv)
     | r \<Rightarrow>
         let result = (case r of Ok raw_res \<Rightarrow> 1 # raw_res | _ \<Rightarrow> [0]);
             (r1, kv) = kv_set K (key_bytes (new_keccak256 input_hash)) data kv in
         rbind r1 kv (\<lambda>_. kv_set K (key_bytes (key_new input_hash Precompile)) result kv))"

definition fetch_account_proof :: "'s kv_store \<Rightarrow> 'h remote \<Rightarrow> bytes \<Rightarrow> 's \<Rightarrow> (unit, string) res \<times> 's" where
  "fetch_account_proof K M data kv =
     rbind (ensure (length data = 8 + 32) ''Invalid hint req for L2AccountProof'') kv (\<lambda>_.
     let block_number = of_nat (nat_of_be (take 8 data)); hashed_address = drop 8 data in
     rbind (rm_tried_account M hashed_address block_number) kv (\<lambda>tried.
     let out_buf = (case ta_account tried of Some account \<Rightarrow> account | None \<Rightarrow> []);
         (r, kv) = kv_set K (key_bytes (new_l2_account_proof hashed_address)) out_buf kv in
     rbind r kv (\<lambda>_.
     let (r, kv) = store_nodes K (rm_keccak256 M) (ta_proofs tried) kv in
     rbind r kv (\<lambda>_. store_nodes K (rm_keccak256 M) (ta_withdrawal_proofs tried) kv))))"

definition fetch_hint :: "'s kv_store \<Rightarrow> 'h remote \<Rightarrow> single_chain_host \<Rightarrow> hint_type hint \<Rightarrow> 's \<Rightarrow> (unit, string) res \<times> 's" where
  "fetch_hint K M cfg hint kv =
     (let data = hint_data hint; number = of_nat (nat_of_be (take 8 data)) in
      case hint_ty hint of
        L1BlockHeader \<Rightarrow>
          rbind (ensure (length data = 32) ''Invalid hint data length for l1 block header'') kv (\<lambda>_.
          rbind (rm_raw_header M data) kv (\<lambda>raw_header. kv_set K (key_bytes (new_keccak256 data)) raw_header kv))
      | L1Transactions \<Rightarrow>
          rbind (ensure (length data = 32) ''Invalid hint data length for l1 transaction'') kv (\<lambda>_.
          rbind (rm_block_transactions M data) kv (\<lambda>block.
          rbind (ok_or block ''Block not found'') kv (\<lambda>txs. store_ordered_trie K M txs kv)))
      | L1Receipts \<Rightarrow>
          rbind (ensure (length data = 32) ''Invalid hint data length for l1 receipts'') kv (\<lambda>_.
          rbind (rm_raw_receipts M data) kv (\<lambda>receipts. store_ordered_trie K M receipts kv))
      | L1Blob \<Rightarrow> (Ok (), kv)
      | DAProxyBlobHint \<Rightarrow>
          rbind (rm_download_preimage M data) kv (\<lambda>blob. kv_set K (key_bytes (new_da_proxy_blob (rm_keccak256 M) data)) blob kv)
      | L1Precompile \<Rightarrow> fetch_precompile K M data kv
      | StartingL2Output \<Rightarrow>
          rbind (ensure (length data = 32) ''Invalid hint data length for starting l2 output'') kv (\<lambda>_.
          rbind (rm_output_at_block M (sh_agreed_l2_block_number cfg)) kv (\<lambda>output_res.
          let h = output_root_hash (rm_keccak256 M) (or_state_root output_res) (or_bridge_storage_root output_res) (or_block_hash output_res) in
          rbind (ensure (h = sh_agreed_l2_output_root cfg) ''Output root does not match L2 head.'') kv (\<lambda>_.
            kv_set K (key_bytes (new_keccak256 h)) (encoded_output output_res) kv)))
      | L2StateNode \<Rightarrow> (Ok (), kv)
      | L2AccountProofHint \<Rightarrow> fetch_account_proof K M data kv
      | L2BlockData \<Rightarrow>
          rbind (ensure (length data = 8) ''Invalid hint data length for l2 block data'') kv (\<lambda>_.
          rbind (rm_block_by_number M number) kv (\<lambda>block. kv_set K (key_bytes (new_block_slot (rm_keccak256 M) number)) block kv))
      | L2BankHash \<Rightarrow>
          rbind (ensure (length data = 8) ''Invalid hint data length for l2 bank hash'') kv (\<lambda>_.
          rbind (rm_bank_hash M number) kv (\<lambda>bank_hash.
          case bank_hash of
            None \<Rightarrow> kv_set K (key_bytes (new_l2_bank_hash (rm_keccak256 M) number)) [] kv
          | Some h \<Rightarrow>
              (case rm_bs58_decode M h of
                 None \<Rightarrow> (Panic, kv)
               | Some bs \<Rightarrow> kv_set K (key_bytes (new_l2_bank_hash (rm_keccak256 M) number)) bs kv)))
      | L2BlockTime \<Rightarrow>
          rbind (ensure (length data = 8) ''Invalid hint data length for l2 block time'') kv (\<lambda>_.
          rbind (rm_block_time M number) kv (\<lambda>block_time.
            kv_set K (key_bytes (new_l2_block_time (rm_keccak256 M) number))
              (case block_time of Some t \<Rightarrow> be_of_nat 8 (unat t) | None \<Rightarrow> []) kv)))"

section \<open>What a store promises\<close>

text \<open>
  After a successful write the key has the value and every other key keeps its own; a failed write
  changes nothing. A store may be read-only for some keys.
\<close>

locale kv_contract =
  fixes K :: "'s kv_store"
    and writable :: "b256 \<Rightarrow> bool"
  assumes get_set: "\<lbrakk> writable k; kv_set K k v s = (Ok u, s') \<rbrakk> \<Longrightarrow> kv_get K k' s' = (if k' = k then Some v else kv_get K k' s)"
    and set_failed: "kv_set K k v s = (r, s') \<Longrightarrow> (\<And>u. r \<noteq> Ok u) \<Longrightarrow> s' = s"

definition remote_key :: "b256 \<Rightarrow> bool" where
  "remote_key k \<longleftrightarrow> (\<exists>t. key_type_try_from (hd k) = (Ok t :: (preimage_key_type, preimage_oracle_error) res) \<and> t \<noteq> Local)"

lemma remote_key_bytes [simp]: "remote_key (key_bytes k) \<longleftrightarrow> pk_key_type k \<noteq> Local"
  by (simp add: remote_key_def key_bytes_def)

lemma key_bytes_inject [simp]: "key_bytes k = key_bytes k' \<longleftrightarrow> k = k'"
  using key_try_from_bytes [of k] key_try_from_bytes [of k'] by (metis res.inject(1))

lemma split_get_remote: "remote_key k \<Longrightarrow> split_get lg K k s = kv_get K k s"
  by (auto simp: split_get_def remote_key_def split: preimage_key_type.split)

lemma split_contract:
  fixes K :: "'s kv_store"
  assumes "kv_contract K writable"
  shows "kv_contract (split_kv lg K) (\<lambda>k. writable k \<and> remote_key k)"
proof (rule kv_contract.intro)
  fix k v s u s' k'
  assume k: "writable k \<and> remote_key k" and set: "kv_set (split_kv lg K) k v s = (Ok u, s')"
  then have g: "kv_get K k' s' = (if k' = k then Some v else kv_get K k' s)" for k'
    using kv_contract.get_set [OF assms, of k v s u s'] by (simp add: split_kv_def)
  show "kv_get (split_kv lg K) k' s' = (if k' = k then Some v else kv_get (split_kv lg K) k' s)"
  proof (cases "remote_key k'")
    case True
    then show ?thesis by (simp add: split_kv_def split_get_remote g)
  next
    case False
    then have "k' \<noteq> k" "split_get lg K k' s' = split_get lg K k' s"
      using k by (auto simp: split_get_def remote_key_def split: res.split preimage_key_type.split)
    then show ?thesis by (simp add: split_kv_def)
  qed
qed (use kv_contract.set_failed [OF assms] in \<open>simp add: split_kv_def\<close>)

interpretation mem: kv_contract mem_kv "\<lambda>_. True"
proof
  fix k v s u s' k'
  assume "kv_set mem_kv k v s = (Ok u, s')"
  then show "kv_get mem_kv k' s' = (if k' = k then Some v else kv_get mem_kv k' s)"
    by (auto simp: mem_kv_def mem_set_def mem_get_def update_conv')
qed (simp add: mem_kv_def mem_set_def)

interpretation served: kv_contract "split_kv lg mem_kv" remote_key for lg
  using split_contract [OF mem.kv_contract_axioms, of lg] by simp

text \<open>Preimages of the hash are kept under their hash, less its first byte.\<close>

definition keccak_honest :: "'s kv_store \<Rightarrow> (bytes \<Rightarrow> b256) \<Rightarrow> 's \<Rightarrow> bool" where
  "keccak_honest K keccak256 s \<longleftrightarrow>
     (\<forall>key v. pk_key_type key = Keccak256 \<and> kv_get K (key_bytes key) s = Some v \<longrightarrow> pk_data key = drop 1 (keccak256 v))"

context kv_contract
begin

lemma set_honest:
  assumes "keccak_honest K keccak256 s" and "kv_set K (key_bytes key) v s = (r, s')" and "writable (key_bytes key)"
    and "pk_key_type key = Keccak256 \<Longrightarrow> pk_data key = drop 1 (keccak256 v)"
  shows "keccak_honest K keccak256 s'"
proof (cases r)
  case (Ok u)
  with assms(2) have "kv_set K (key_bytes key) v s = (Ok u, s')" by simp
  from get_set [OF assms(3) this] assms(1,4) show ?thesis by (auto simp: keccak_honest_def split: if_splits)
qed (use assms set_failed in \<open>metis res.distinct\<close>)+

lemma set_honest_snd:
  "\<lbrakk> keccak_honest K keccak256 s; writable (key_bytes key); pk_key_type key = Keccak256 \<Longrightarrow> pk_data key = drop 1 (keccak256 v) \<rbrakk>
     \<Longrightarrow> keccak_honest K keccak256 (snd (kv_set K (key_bytes key) v s))"
  using set_honest [of keccak256 s key v "fst (kv_set K (key_bytes key) v s)"] by simp

lemma store_nodes_honest:
  assumes "keccak_honest K keccak256 s" and "\<And>key. pk_key_type key = Keccak256 \<Longrightarrow> writable (key_bytes key)"
  shows "keccak_honest K keccak256 (snd (store_nodes K keccak256 nodes s))"
  using assms(1)
proof (induction nodes arbitrary: s)
  case (Cons n nodes)
  obtain r s1 where s1: "kv_set K (key_bytes (new_keccak256 (keccak256 n))) n s = (r, s1)" by force
  have "keccak_honest K keccak256 s1"
    using set_honest [OF Cons.prems s1] assms(2) by (simp add: new_keccak256_def key_new_def)
  with Cons.IH [of s1] s1 show ?case by (cases r) simp_all
qed simp

end

lemma key_types [simp]:
  "pk_key_type (new_keccak256 h) = Keccak256" "pk_data (new_keccak256 h) = drop 1 h"
  "pk_key_type (key_new h t) = t" "pk_data (key_new h t) = drop 1 h"
  "pk_key_type (new_block_slot H n) = BlockSlot" "pk_key_type (new_da_proxy_blob H d) = DAProxyBlob"
  "pk_key_type (new_l2_bank_hash H n) = BankHash" "pk_key_type (new_l2_block_time H n) = BlockTime"
  "pk_key_type (new_l2_account_proof h) = L2AccountProof"
  by (simp_all add: new_keccak256_def key_new_def new_block_slot_def new_da_proxy_blob_def new_l2_bank_hash_def new_l2_block_time_def new_l2_account_proof_def)

lemma snd_rbind_honest:
  "\<lbrakk> keccak_honest K f s; \<And>x. r = Ok x \<Longrightarrow> keccak_honest K f (snd (k x)) \<rbrakk> \<Longrightarrow> keccak_honest K f (snd (rbind r s k))"
  by (rule snd_rbind_inv)

context kv_contract
begin

lemma fetch_account_proof_honest:
  assumes "keccak_honest K (rm_keccak256 M) s" and w: "\<And>key. pk_key_type key \<noteq> Local \<Longrightarrow> writable (key_bytes key)"
  shows "keccak_honest K (rm_keccak256 M) (snd (fetch_account_proof K M data s))"
proof -
  have nodes: "keccak_honest K (rm_keccak256 M) (snd (store_nodes K (rm_keccak256 M) ns t))" if "keccak_honest K (rm_keccak256 M) t" for ns t
    using store_nodes_honest [OF that] w by simp
  show ?thesis
    unfolding fetch_account_proof_def Let_def split_beta
    by (intro snd_rbind_honest nodes set_honest_snd assms(1) w) simp_all
qed

lemma fetch_precompile_honest:
  assumes "keccak_honest K (rm_keccak256 M) s" and w: "\<And>key. pk_key_type key \<noteq> Local \<Longrightarrow> writable (key_bytes key)"
  shows "keccak_honest K (rm_keccak256 M) (snd (fetch_precompile K M data s))"
  unfolding fetch_precompile_def Let_def split_beta
  by (auto split: res.split intro!: snd_rbind_honest set_honest_snd assms(1) w)

lemma store_ordered_trie_honest:
  assumes "keccak_honest K (rm_keccak256 M) s" and w: "\<And>key. pk_key_type key \<noteq> Local \<Longrightarrow> writable (key_bytes key)"
  shows "keccak_honest K (rm_keccak256 M) (snd (store_ordered_trie K M vs s))"
  using store_nodes_honest [OF assms(1)] set_honest_snd [OF assms(1)] w by (simp add: store_ordered_trie_def Let_def)

lemma fetch_hint_honest:
  assumes s: "keccak_honest K (rm_keccak256 M) s" and w: "\<And>key. pk_key_type key \<noteq> Local \<Longrightarrow> writable (key_bytes key)"
    and header: "\<And>h v. rm_raw_header M h = Ok v \<Longrightarrow> rm_keccak256 M v = h"
  shows "keccak_honest K (rm_keccak256 M) (snd (fetch_hint K M cfg hint s))"
proof -
  note rules = snd_rbind_honest set_honest_snd store_ordered_trie_honest fetch_account_proof_honest fetch_precompile_honest s w
  show ?thesis
    unfolding fetch_hint_def Let_def
    by (cases "hint_ty hint") (auto intro!: rules split: option.split dest: header simp: output_root_hash_def)
qed

end

section \<open>Hints and the preimages they bring\<close>

text \<open>
  The preimages that a hint brings, in the order in which they are stored, when the providers answer it:
  what each kind of hint stands for, independent of any store. There are none for the kinds that the
  host ignores.
\<close>

definition node_entries :: "'h remote \<Rightarrow> bytes list \<Rightarrow> (preimage_key \<times> bytes) list" where
  "node_entries M nodes = map (\<lambda>node. (new_keccak256 (rm_keccak256 M node), node)) nodes"

definition list_entries :: "'h remote \<Rightarrow> bytes list \<Rightarrow> (preimage_key \<times> bytes) list" where
  "list_entries M values = node_entries M
     (if values = [] then [[0x80]]
      else rm_take_proof_nodes M (ordered_trie_with_encoder (rm_rlp_usize M) (rm_add_leaf M) (rm_with_proof_retainer M) (\<lambda>v. v) values))"

definition hint_entries :: "'h remote \<Rightarrow> single_chain_host \<Rightarrow> hint_type hint \<Rightarrow> (preimage_key \<times> bytes) list option" where
  "hint_entries M cfg h =
     (let data = hint_data h; number = of_nat (nat_of_be (take 8 data)); keccak256 = rm_keccak256 M;
          sized = (\<lambda>n x. if length data = n then x else None) in
      case hint_ty h of
        L1BlockHeader \<Rightarrow> sized 32 (map_option (\<lambda>v. [(new_keccak256 data, v)]) (ok_option (rm_raw_header M data)))
      | L1Transactions \<Rightarrow>
          sized 32 (Option.bind (ok_option (rm_block_transactions M data)) (map_option (list_entries M)))
      | L1Receipts \<Rightarrow> sized 32 (map_option (list_entries M) (ok_option (rm_raw_receipts M data)))
      | L1Blob \<Rightarrow> Some []
      | DAProxyBlobHint \<Rightarrow> map_option (\<lambda>v. [(new_da_proxy_blob keccak256 data, v)]) (ok_option (rm_download_preimage M data))
      | L1Precompile \<Rightarrow>
          if length data < 28 then None
          else
            (case execute_precompile M (take 20 data) (drop 28 data) (of_nat (nat_of_be (take 8 (drop 20 data)))) of
               Ok x \<Rightarrow> Some [(new_keccak256 (keccak256 data), data), (key_new (keccak256 data) Precompile, 1 # x)]
             | Err _ \<Rightarrow> Some [(new_keccak256 (keccak256 data), data), (key_new (keccak256 data) Precompile, [0])]
             | Panic \<Rightarrow> None)
      | StartingL2Output \<Rightarrow>
          sized 32 (Option.bind (ok_option (rm_output_at_block M (sh_agreed_l2_block_number cfg))) (\<lambda>out.
            if keccak256 (encoded_output out) = sh_agreed_l2_output_root cfg
            then Some [(new_keccak256 (sh_agreed_l2_output_root cfg), encoded_output out)] else None))
      | L2StateNode \<Rightarrow> Some []
      | L2AccountProofHint \<Rightarrow>
          sized 40 (map_option (\<lambda>t. (new_l2_account_proof (drop 8 data), case ta_account t of Some a \<Rightarrow> a | None \<Rightarrow> [])
              # node_entries M (ta_proofs t @ ta_withdrawal_proofs t)) (ok_option (rm_tried_account M (drop 8 data) number)))
      | L2BlockData \<Rightarrow> sized 8 (map_option (\<lambda>v. [(new_block_slot keccak256 number, v)]) (ok_option (rm_block_by_number M number)))
      | L2BankHash \<Rightarrow>
          sized 8 (Option.bind (ok_option (rm_bank_hash M number)) (\<lambda>h.
            map_option (\<lambda>bs. [(new_l2_bank_hash keccak256 number, bs)]) (case h of Some h \<Rightarrow> rm_bs58_decode M h | None \<Rightarrow> Some [])))
      | L2BlockTime \<Rightarrow>
          sized 8 (map_option (\<lambda>t. [(new_l2_block_time keccak256 number, case t of Some t \<Rightarrow> be_of_nat 8 (unat t) | None \<Rightarrow> [])])
            (ok_option (rm_block_time M number))))"

definition store_entries :: "(preimage_key \<times> bytes) list \<Rightarrow> mem_store \<Rightarrow> mem_store" where
  "store_entries es kv = fold (\<lambda>(k, v). AList.update (key_bytes k) v) es kv"

lemma store_entries_simps [simp]:
  "store_entries [] kv = kv"
  "store_entries ((k, v) # es) kv = store_entries es (AList.update (key_bytes k) v kv)"
  "store_entries (es @ es') kv = store_entries es' (store_entries es kv)"
  by (simp_all add: store_entries_def)

text \<open>Of two entries under one key the later one counts.\<close>

lemma map_of_store_entries:
  "map_of (store_entries es kv) (key_bytes k) = (case map_of (rev es) k of Some v \<Rightarrow> Some v | None \<Rightarrow> map_of kv (key_bytes k))"
  by (induction es rule: rev_induct) (auto simp: update_conv')

lemma ok_option_Some [simp]: "ok_option r = Some x \<longleftrightarrow> r = Ok x"
  by (simp add: ok_option_def split: res.split)

lemma ok_option_simps [simp]: "ok_option (Ok x) = Some x" "ok_option (Err e) = None" "ok_option Panic = None"
  by (simp_all add: ok_option_def)

lemma set_mem: "kv_set (split_kv lg mem_kv) k v kv = (Ok (), AList.update k v kv)"
  by (simp add: split_kv_def mem_kv_def mem_set_def)

lemma get_mem: "remote_key k \<Longrightarrow> kv_get (split_kv lg mem_kv) k kv = map_of kv k"
  by (simp add: split_kv_def split_get_remote) (simp add: mem_kv_def mem_get_def)

lemma store_nodes_mem: "store_nodes (split_kv lg mem_kv) (rm_keccak256 M) nodes kv = (Ok (), store_entries (node_entries M nodes) kv)"
  by (induction nodes arbitrary: kv) (simp_all add: set_mem node_entries_def)

lemma store_ordered_trie_mem: "store_ordered_trie (split_kv lg mem_kv) M vs kv = (Ok (), store_entries (list_entries M vs) kv)"
  by (simp add: store_ordered_trie_def list_entries_def store_nodes_mem Let_def) (simp add: set_mem node_entries_def new_keccak256_def)

lemma node_entries_append [simp]: "node_entries M (ns @ ns') = node_entries M ns @ node_entries M ns'"
  by (simp add: node_entries_def)

lemma node_entries_keys: "(k, v) \<in> set (node_entries M ns) \<Longrightarrow> pk_key_type k = Keccak256"
  by (auto simp: node_entries_def)

text \<open>The handler stores exactly these entries; where there is no answer, it does not succeed.\<close>

lemma fetch_hint_entries:
  "hint_entries M cfg h = Some es \<Longrightarrow> fetch_hint (split_kv lg mem_kv) M cfg h kv = (Ok (), store_entries es kv)"
  "hint_entries M cfg h = None \<Longrightarrow> fst (fetch_hint (split_kv lg mem_kv) M cfg h kv) \<noteq> Ok ()"
  unfolding hint_entries_def fetch_hint_def fetch_account_proof_def fetch_precompile_def Let_def
  by (cases "hint_ty h"; auto simp: ensure_def set_mem store_nodes_mem store_ordered_trie_mem output_root_hash_def bind_eq_Some_conv ok_option_def
        split: if_splits res.splits option.splits)+

lemma hint_entries_keys: "\<lbrakk> hint_entries M cfg h = Some es; (k, v) \<in> set es \<rbrakk> \<Longrightarrow> pk_key_type k \<noteq> Local"
  unfolding hint_entries_def Let_def
  by (cases "hint_ty h") (auto simp: bind_eq_Some_conv list_entries_def dest!: node_entries_keys split: if_splits res.splits option.splits)

text \<open>A client sends a hint and then asks for a preimage.\<close>

definition ask_hinted ::
  "hex_codec \<Rightarrow> (b256 \<Rightarrow> bytes option) \<Rightarrow> 'h remote \<Rightarrow> single_chain_host \<Rightarrow> nat \<Rightarrow> hint_type hint \<Rightarrow> preimage_key \<Rightarrow> mem_store online_backend
     \<Rightarrow> ((bytes, preimage_oracle_error) res \<times> mem_store online_backend) option" where
  "ask_hinted H lg M cfg fuel h key b =
     (case online_route_hint H (fetch_hint (split_kv lg mem_kv) M cfg) (hint_encode H h) b of
        (Ok _, b1) \<Rightarrow> online_get_preimage (split_kv lg mem_kv) (fetch_hint (split_kv lg mem_kv) M cfg) fuel key b1
      | (Err e, b1) \<Rightarrow> Some (Err e, b1)
      | (Panic, b1) \<Rightarrow> Some (Panic, b1))"

lemma ask_hinted_answer:
  assumes "hex_law H" and "hint_entries M cfg h = Some es" and "map_of (rev es) key = Some v" and "hint_ty h \<notin> set (ob_proactive_hints b)"
  shows "ask_hinted H lg M cfg (Suc fuel) h key b = Some (Ok (case map_of (ob_kv b) (key_bytes key) of Some old \<Rightarrow> old | None \<Rightarrow> v),
     b\<lparr>ob_last_hint := Some h, ob_kv := (if map_of (ob_kv b) (key_bytes key) = None then store_entries es (ob_kv b) else ob_kv b)\<rparr>)"
proof -
  have "(key, v) \<in> set es" using map_of_SomeD [OF assms(3)] by simp
  then have get: "kv_get (split_kv lg mem_kv) (key_bytes key) kv = map_of kv (key_bytes key)" for kv
    using get_mem [of "key_bytes key"] hint_entries_keys [OF assms(2)] by simp
  have "online_route_hint H (fetch_hint (split_kv lg mem_kv) M cfg) (hint_encode H h) b = (Ok (), b\<lparr>ob_last_hint := Some h\<rparr>)"
    using hint_parse_encode [OF assms(1), of h] assms(4) by (simp add: online_route_hint_def)
  moreover have "map_of (store_entries es (ob_kv b)) (key_bytes key) = Some v" using assms(3) by (simp add: map_of_store_entries)
  ultimately show ?thesis
    using fetch_hint_entries(1) [OF assms(2), of lg "ob_kv b"] by (auto simp: ask_hinted_def online_get_preimage_def get split: option.split)
qed

section \<open>Properties\<close>

text \<open>
  C15: a hint brings its preimages. When a client sends the text of a hint, of any kind, that the remote
  nodes can answer and that is not fetched proactively, and then asks for one of the preimages it stands
  for, an online host that does not have the key yet fetches them in the first round, answers with what
  the remote nodes say (for a key that occurs twice, the later value) and has stored all of them; a host
  that has the key already does not fetch, and answers with the value it stored before.
\<close>

theorem hinted_preimage_is_served:
  assumes "hex_law H" and "hint_entries M cfg h = Some es" and "map_of (rev es) key = Some v" and "hint_ty h \<notin> set (ob_proactive_hints b)"
  shows "\<exists>b1 b2. online_route_hint H (fetch_hint (split_kv lg mem_kv) M cfg) (hint_encode H h) b = (Ok (), b1)
    \<and> online_get_preimage (split_kv lg mem_kv) (fetch_hint (split_kv lg mem_kv) M cfg) (Suc fuel) key b1
        = Some (Ok (case map_of (ob_kv b) (key_bytes key) of Some old \<Rightarrow> old | None \<Rightarrow> v), b2)
    \<and> (\<forall>k. map_of (ob_kv b2) (key_bytes k) =
        (if map_of (ob_kv b) (key_bytes key) = None \<and> map_of (rev es) k \<noteq> None then map_of (rev es) k else map_of (ob_kv b) (key_bytes k)))"
  using ask_hinted_answer [OF assms, of lg fuel]
  by (auto simp: ask_hinted_def map_of_store_entries split: prod.splits res.splits option.splits)

text \<open>
  The key of an account does not depend on the block that the hint names: after a hint for one block was
  served, the hint for another block is answered with the account of the first.
\<close>

theorem later_account_is_stale:
  assumes "hex_law H" and "length hashed = 32" and "rm_tried_account M hashed n = Ok t" and "rm_tried_account M hashed n' = Ok t'"
    and "L2AccountProofHint \<notin> set (ob_proactive_hints b)" and "map_of (ob_kv b) (key_bytes (new_l2_account_proof hashed)) = None"
    and "hint = (\<lambda>n. hint_new L2AccountProofHint (be_of_nat 8 (unat n) @ hashed))"
  shows "\<exists>b1 b2. ask_hinted H lg M cfg (Suc fuel) (hint n) (new_l2_account_proof hashed) b = Some (Ok (case ta_account t of Some a \<Rightarrow> a | None \<Rightarrow> []), b1)
    \<and> ask_hinted H lg M cfg (Suc fuel) (hint n') (new_l2_account_proof hashed) b1 = Some (Ok (case ta_account t of Some a \<Rightarrow> a | None \<Rightarrow> []), b2)"
proof -
  let ?k = "new_l2_account_proof hashed" and ?v = "\<lambda>t. case ta_account t of Some a \<Rightarrow> a | None \<Rightarrow> []"
  have e: "\<exists>es. hint_entries M cfg (hint n) = Some es \<and> map_of (rev es) ?k = Some (?v t)" if "rm_tried_account M hashed n = Ok t" for n t
  proof -
    let ?nodes = "node_entries M (ta_proofs t @ ta_withdrawal_proofs t)"
    have "?k \<notin> fst ` set (rev ?nodes)" using node_entries_keys [of _ _ M] by fastforce
    then have "map_of (rev ?nodes) ?k = None" by (simp only: map_of_eq_None_iff not_False_eq_True)
    moreover have "of_nat (nat_of_be (be_of_nat 8 (unat n))) = n" using unsigned_less [of n, where ?'a = nat] by (simp add: nat_of_be_of_nat)
    ultimately show ?thesis using that assms(2,7) by (simp add: hint_entries_def hint_new_def map_add_def split: option.splits)
  qed
  obtain es where es: "hint_entries M cfg (hint n) = Some es" "map_of (rev es) ?k = Some (?v t)" using e [OF assms(3)] by blast
  obtain es' where es': "hint_entries M cfg (hint n') = Some es'" "map_of (rev es') ?k = Some (?v t')" using e [OF assms(4)] by blast
  have ty: "hint_ty (hint m) = L2AccountProofHint" for m using assms(7) by (simp add: hint_new_def)
  define b1 where "b1 = b\<lparr>ob_last_hint := Some (hint n), ob_kv := store_entries es (ob_kv b)\<rparr>"
  have "ask_hinted H lg M cfg (Suc fuel) (hint n) ?k b = Some (Ok (?v t), b1)"
    using ask_hinted_answer [OF assms(1) es, of b lg fuel] ty assms(5,6) by (simp add: b1_def)
  moreover have "map_of (ob_kv b1) (key_bytes ?k) = Some (?v t)" using es(2) by (simp add: b1_def map_of_store_entries)
  then have "\<exists>b2. ask_hinted H lg M cfg (Suc fuel) (hint n') ?k b1 = Some (Ok (?v t), b2)"
    using ask_hinted_answer [OF assms(1) es', of b1 lg fuel] ty assms(5) by (simp add: b1_def)
  ultimately show ?thesis by blast
qed

text \<open>
  C16: the host never stores a false preimage: if the L1 node answers with headers of the hash it was
  asked for, then whatever hint is served, and even when serving it fails half-way, every value
  under a key of type Keccak256 still hashes to that key.
\<close>

theorem fetched_preimages_are_honest:
  assumes "\<And>h v. rm_raw_header M h = Ok v \<Longrightarrow> rm_keccak256 M v = h" and "keccak_honest (split_kv lg mem_kv) (rm_keccak256 M) kv"
  shows "keccak_honest (split_kv lg mem_kv) (rm_keccak256 M) (snd (fetch_hint (split_kv lg mem_kv) M cfg hint kv))"
  using served.fetch_hint_honest [OF assms(2)] assms(1) by simp

lemma failing_retry_loops:
  "\<lbrakk> ob_last_hint b = Some h; fetch h (ob_kv b) = (Err e, ob_kv b) \<rbrakk> \<Longrightarrow> online_retry K fetch key fuel tries b = None"
  by (induction fuel) simp_all

text \<open>
  The limit on retries does not hold for failing requests: when fetching the last hint fails, the
  request for a missing preimage never returns, however long it runs, while a fetch that succeeds
  without bringing the preimage is given up after eleven rounds.
\<close>

theorem failing_fetch_is_retried_forever:
  assumes "ob_last_hint b = Some h" and "kv_get K (key_bytes key) (ob_kv b) = None"
  shows "(fetch h (ob_kv b) = (Err e, ob_kv b) \<longrightarrow> online_get_preimage K fetch fuel key b = None)
    \<and> (fetch h (ob_kv b) = (Ok (), ob_kv b) \<longrightarrow>
         online_get_preimage K fetch (11 + fuel) key b = Some (Err (OtherOracleError ''query hint over time''), b))"
proof (intro conjI impI)
  assume "fetch h (ob_kv b) = (Err e, ob_kv b)"
  with failing_retry_loops [of b h fetch e K key fuel 0] assms show "online_get_preimage K fetch fuel key b = None"
    by (simp add: online_get_preimage_def)
next
  assume ok: "fetch h (ob_kv b) = (Ok (), ob_kv b)"
  have step: "online_retry K fetch key (Suc f) n b = (if n + 1 > 10 then Some (Err (OtherOracleError ''query hint over time''), b) else online_retry K fetch key f (n + 1) b)" for f n
    using ok assms by simp
  have "11 + fuel = Suc (Suc (Suc (Suc (Suc (Suc (Suc (Suc (Suc (Suc (Suc fuel))))))))))" by simp
  then have eleven: "online_retry K fetch key (11 + fuel) 0 b = online_retry K fetch key (Suc (Suc (Suc (Suc (Suc (Suc (Suc (Suc (Suc (Suc (Suc fuel))))))))))) 0 b"
    by (rule arg_cong)
  show "online_get_preimage K fetch (11 + fuel) key b = Some (Err (OtherOracleError ''query hint over time''), b)"
    using assms unfolding online_get_preimage_def eleven by (simp add: step del: online_retry.simps)
qed

subsection \<open>Examples\<close>

text \<open>A chain of one block and an L1 of headers that are their own hash.\<close>

definition ex_remote :: "nat remote" where
  "ex_remote = \<lparr>rm_keccak256 = (\<lambda>b. b), rm_raw_header = (\<lambda>h. Ok h), rm_block_transactions = (\<lambda>h. Ok None), rm_raw_receipts = (\<lambda>h. Ok []),
     rm_download_preimage = (\<lambda>k. Err ''offline''), rm_precompiles = (\<lambda>a. None), rm_output_at_block = (\<lambda>n. Err ''offline''),
     rm_tried_account = (\<lambda>a n. Err ''offline''), rm_block_by_number = (\<lambda>n. if n = 7 then Ok [1, 2, 3] else Err ''no block''),
     rm_bank_hash = (\<lambda>n. Ok None), rm_bs58_decode = (\<lambda>s. None), rm_block_time = (\<lambda>n. Ok None), rm_rlp_usize = (\<lambda>n. [of_nat n]),
     rm_add_leaf = (\<lambda>k v h. h + 1), rm_with_proof_retainer = (\<lambda>ks. 0), rm_take_proof_nodes = (\<lambda>h. [])\<rparr>"

definition ex_host :: single_chain_host where
  "ex_host = \<lparr>sh_l1_head = replicate 32 1, sh_agreed_l2_block_number = 7, sh_agreed_l2_output_root = replicate 32 2,
     sh_claimed_l2_output_root = replicate 32 3, sh_claimed_l2_block_number = 9, sh_l2_node_address = None, sh_l1_node_address = None,
     sh_l1_beacon_address = None, sh_data_dir = Some ''db'', sh_l2_chain_id = None, sh_rollup_config_path = Some ''cfg''\<rparr>"

theorem hinted_preimage_is_served_witness:
  "\<exists>b1 b2. online_route_hint ex_hex (fetch_hint (split_kv (\<lambda>_. None) mem_kv) ex_remote ex_host)
        (hint_encode ex_hex (hint_new L2BlockData (be_of_nat 8 7))) (online_new []) = (Ok (), b1)
    \<and> online_get_preimage (split_kv (\<lambda>_. None) mem_kv) (fetch_hint (split_kv (\<lambda>_. None) mem_kv) ex_remote ex_host) (Suc 0)
        (new_block_slot (\<lambda>b. b) 7) b1 = Some (Ok [1, 2, 3], b2)"
proof -
  have "hint_entries ex_remote ex_host (hint_new L2BlockData (be_of_nat 8 7)) = Some [(new_block_slot (\<lambda>b. b) 7, [1, 2, 3])]"
    by (simp add: hint_entries_def hint_new_def ex_remote_def nat_of_be_of_nat)
  from hinted_preimage_is_served [OF ex_hex_law this, of "new_block_slot (\<lambda>b. b) 7" "[1, 2, 3]" "online_new []" "\<lambda>_. None" 0] show ?thesis
    by (auto simp: online_new_def hint_new_def)
qed

theorem fetched_preimages_are_honest_witness:
  "keccak_honest (split_kv (\<lambda>_. None) mem_kv) (rm_keccak256 ex_remote)
     (snd (fetch_hint (split_kv (\<lambda>_. None) mem_kv) ex_remote ex_host (hint_new L1BlockHeader (replicate 32 5)) []))"
  by (rule fetched_preimages_are_honest) (auto simp: ex_remote_def keccak_honest_def get_mem)

theorem failing_fetch_is_retried_forever_witness:
  "online_get_preimage mem_kv (\<lambda>h kv. (Err ''no block'', kv)) 1000 (new_local 1) ((online_new [])\<lparr>ob_last_hint := Some (hint_new L2BlockData [])\<rparr>) = None"
  using failing_fetch_is_retried_forever [of "(online_new [])\<lparr>ob_last_hint := Some (hint_new L2BlockData [])\<rparr>" "hint_new L2BlockData []"
      mem_kv "new_local 1" "\<lambda>h kv. (Err ''no block'', kv)" "''no block''" 1000]
  by (simp add: mem_kv_def mem_get_def online_new_def)

end
