(* ===== verification/Oracle_Providers.thy ===== *)
theory Oracle_Providers
  imports Host Trie_Codec L1_Info_Program
begin

text \<open>
  The providers of the client program (\<^verbatim>\<open>proof/proof/src\<close>): the boot information (\<^verbatim>\<open>boot.rs\<close>), the L1 chain
  (\<^verbatim>\<open>l1/chain_provider.rs\<close>), the L2 chain (\<^verbatim>\<open>l2/chain_provider.rs\<close>) and the data availability layer
  (\<^verbatim>\<open>l1/da_provider.rs\<close>), all over an oracle that takes hints and returns preimages. The decoders of
  headers, receipts, transactions and L2 blocks, and Base58, are parameters.
\<close>

section \<open>Errors\<close>

datatype oracle_provider_error =
    BlockNumberPastHead u64 u64
  | PreimageErr preimage_oracle_error
  | TrieWalkerErr ordered_list_walker_error
  | TrieNodeErr trie_node_error
  | RlpErr string
  | SliceConversion
  | SerdeErr string
  | BincodeErr string
  | UnknownChainId u64
  | FetchBlockInfoFailed string
  | FetchSystemConfigFailed string

text \<open>Rendering an error (\<^verbatim>\<open>thiserror\<close>) is a parameter.\<close>

definition oracle_error_kind :: "(oracle_provider_error \<Rightarrow> string) \<Rightarrow> oracle_provider_error \<Rightarrow> pipeline_error_kind" where
  "oracle_error_kind to_string e =
     (case e of BlockNumberPastHead _ _ \<Rightarrow> crit EndOfSource | _ \<Rightarrow> crit (Provider (to_string e)))"

section \<open>Boot information\<close>

record boot_info =
  boot_l1_head :: b256
  boot_agreed_l2_output_root :: b256
  boot_agreed_l2_block_number :: u64
  boot_claimed_l2_output_root :: b256
  boot_claimed_l2_block_number :: u64
  boot_chain_id :: u64
  boot_rollup_config :: rollup_config

definition get_number :: "oracle_reader \<Rightarrow> preimage_key \<Rightarrow> (u64, oracle_provider_error) res" where
  "get_number R key =
     rthen (map_err PreimageErr (or_get R key)) (\<lambda>v. if length v = 8 then Ok (of_nat (nat_of_be v)) else Err SliceConversion)"

definition boot_load :: "config_io \<Rightarrow> oracle_reader \<Rightarrow> (boot_info, oracle_provider_error) res" where
  "boot_load I R =
     rthen (map_err PreimageErr (or_get_exact R (new_local (ucast L1_HEAD_KEY)) 32)) (\<lambda>l1_head.
     rthen (map_err PreimageErr (or_get_exact R (new_local (ucast L2_OUTPUT_ROOT_KEY)) 32)) (\<lambda>l2_output_root.
     rthen (get_number R (new_local (ucast L2_AGREED_BLOCK_NUMBER_KEY))) (\<lambda>agreed_l2_block_number.
     rthen (map_err PreimageErr (or_get_exact R (new_local (ucast L2_CLAIM_KEY)) 32)) (\<lambda>l2_claim.
     rthen (get_number R (new_local (ucast L2_CLAIM_BLOCK_NUMBER_KEY))) (\<lambda>l2_claim_block.
     rthen (get_number R (new_local (ucast L2_CHAIN_ID_KEY))) (\<lambda>chain_id.
     rthen (map_err PreimageErr (or_get R (new_local (ucast L2_ROLLUP_CONFIG_KEY)))) (\<lambda>ser_cfg.
     rthen (map_err SerdeErr (io_from_slice I ser_cfg)) (\<lambda>rollup_config.
       Ok \<lparr>boot_l1_head = l1_head, boot_agreed_l2_output_root = l2_output_root, boot_agreed_l2_block_number = agreed_l2_block_number,
           boot_claimed_l2_output_root = l2_claim, boot_claimed_l2_block_number = l2_claim_block, boot_chain_id = chain_id,
           boot_rollup_config = rollup_config\<rparr>))))))))"

section \<open>The oracle of a client\<close>

text \<open>Both operations may change the host at the other end.\<close>

record 'c comms =
  cm_write :: "string \<Rightarrow> 'c \<Rightarrow> (unit, preimage_oracle_error) res \<times> 'c"
  cm_get :: "preimage_key \<Rightarrow> 'c \<Rightarrow> (bytes, preimage_oracle_error) res \<times> 'c"

definition cbind :: "('a, 'e) res \<times> 'c \<Rightarrow> ('a \<Rightarrow> 'c \<Rightarrow> ('b, 'e) res \<times> 'c) \<Rightarrow> ('b, 'e) res \<times> 'c" where
  "cbind r k = rbind (fst r) (snd r) (\<lambda>x. k x (snd r))"

definition hint_send :: "'c comms \<Rightarrow> hex_codec \<Rightarrow> hint_type hint \<Rightarrow> 'c \<Rightarrow> (unit, oracle_provider_error) res \<times> 'c" where
  "hint_send C H h c = (let (r, c) = cm_write C (hint_encode H h) c in (map_err PreimageErr r, c))"

definition oracle_fetch :: "'c comms \<Rightarrow> preimage_key \<Rightarrow> 'c \<Rightarrow> (bytes, oracle_provider_error) res \<times> 'c" where
  "oracle_fetch C key c = (let (r, c) = cm_get C key c in (map_err PreimageErr r, c))"

section \<open>The L1 chain\<close>

record l1_header =
  lh_hash :: b256
  lh_parent_hash :: b256
  lh_number :: u64
  lh_timestamp :: u64
  lh_state_root :: b256
  lh_transactions_root :: b256
  lh_receipts_root :: b256

definition header_block_info :: "l1_header \<Rightarrow> block_info" where
  "header_block_info h =
     \<lparr>bi_hash = lh_hash h, bi_number = lh_number h, bi_parent_hash = lh_parent_hash h, bi_timestamp = lh_timestamp h\<rparr>"

text \<open>
  What is used of \<^verbatim>\<open>alloy\<close>: decoding a header, together with its hash, a receipt and a transaction, whose
  signer may not be recoverable.
\<close>

record l1_decoders =
  ld_header :: "bytes \<Rightarrow> (l1_header, string) res"
  ld_receipt :: "bytes \<Rightarrow> (receipt, string) res"
  ld_transaction :: "bytes \<Rightarrow> (b256 \<times> address option \<times> address option \<times> bytes, string) res"
  ld_rlp :: rlp_decoder

definition header_by_hash :: "'c comms \<Rightarrow> hex_codec \<Rightarrow> l1_decoders \<Rightarrow> b256 \<Rightarrow> 'c \<Rightarrow> (l1_header, oracle_provider_error) res \<times> 'c" where
  "header_by_hash C H L hash c =
     cbind (hint_send C H (type_with_data [hash] L1BlockHeader) c) (\<lambda>_ c.
     cbind (oracle_fetch C (new_keccak256 hash) c) (\<lambda>header_rlp c.
       (map_err RlpErr (ld_header L header_rlp), c)))"

definition block_info_by_hash :: "'c comms \<Rightarrow> hex_codec \<Rightarrow> l1_decoders \<Rightarrow> b256 \<Rightarrow> 'c \<Rightarrow> (block_info, oracle_provider_error) res \<times> 'c" where
  "block_info_by_hash C H L hash c = cbind (header_by_hash C H L hash c) (\<lambda>header c. (Ok (header_block_info header), c))"

primrec walk_back :: "'c comms \<Rightarrow> hex_codec \<Rightarrow> l1_decoders \<Rightarrow> u64 \<Rightarrow> nat \<Rightarrow> l1_header \<Rightarrow> 'c
    \<Rightarrow> ((l1_header, oracle_provider_error) res \<times> 'c) option" where
  "walk_back C H L block_number 0 = (\<lambda>header c. None)"
| "walk_back C H L block_number (Suc fuel) = (\<lambda>header c.
     if lh_number header > block_number then
       case header_by_hash C H L (lh_parent_hash header) c of
         (Ok header, c) \<Rightarrow> walk_back C H L block_number fuel header c
       | (Err e, c) \<Rightarrow> Some (Err e, c)
       | (Panic, c) \<Rightarrow> Some (Panic, c)
     else Some (Ok header, c))"

text \<open>The block is named by its number or by a tag such as \<open>latest\<close>; a tag has no number to unwrap.\<close>

datatype block_number_or_tag = BlockNumber u64 | BlockTag string

definition block_info_by_number ::
  "'c comms \<Rightarrow> hex_codec \<Rightarrow> l1_decoders \<Rightarrow> b256 \<Rightarrow> nat \<Rightarrow> block_number_or_tag \<Rightarrow> 'c \<Rightarrow> ((block_info, oracle_provider_error) res \<times> 'c) option" where
  "block_info_by_number C H L l1_head fuel block_number c =
     (case header_by_hash C H L l1_head c of
        (Ok header, c) \<Rightarrow>
          (case block_number of
             BlockTag _ \<Rightarrow> Some (Panic, c)
           | BlockNumber block_number \<Rightarrow>
               if block_number > lh_number header then Some (Err (BlockNumberPastHead block_number (lh_number header)), c)
               else map_option (\<lambda>(r, c). (rthen r (\<lambda>h. Ok (header_block_info h)), c)) (walk_back C H L block_number fuel header c))
      | (Err e, c) \<Rightarrow> Some (Err e, c)
      | (Panic, c) \<Rightarrow> Some (Panic, c))"

text \<open>A trie node of the oracle; the fuel is that of the decoder.\<close>

definition trie_node_by_hash :: "'c comms \<Rightarrow> rlp_decoder \<Rightarrow> nat \<Rightarrow> b256 \<Rightarrow> 'c \<Rightarrow> ((trie_node, oracle_provider_error) res \<times> 'c) option" where
  "trie_node_by_hash C D fuel key c =
     (let (r, c) = oracle_fetch C (key_new key Keccak256) c in
      case r of
        Ok bs \<Rightarrow> map_option (\<lambda>r. (rthen (map_err RlpErr r) (\<lambda>(t, _). Ok t), c)) (node_decode D fuel bs)
      | Err e \<Rightarrow> Some (Err e, c)
      | Panic \<Rightarrow> Some (Panic, c))"

text \<open>
  The walker over the oracle: reading one node does not change what another read returns, so all
  reads are made in the state after the hint. A decoder out of fuel is the error of a node that is
  too deep; the walker shows the text of an error only.
\<close>

definition oracle_trie :: "trie_env \<Rightarrow> (oracle_provider_error \<Rightarrow> string) \<Rightarrow> 'c comms \<Rightarrow> rlp_decoder \<Rightarrow> nat \<Rightarrow> 'c \<Rightarrow> trie_env" where
  "oracle_trie E to_string C D fuel c =
     E\<lparr>te_node := (\<lambda>h. case trie_node_by_hash C D fuel h c of
                           None \<Rightarrow> Err ''too deep''
                         | Some (r, _) \<Rightarrow> map_err to_string r)\<rparr>"

primrec collect_results :: "('a \<Rightarrow> ('b, 'e) res) \<Rightarrow> 'a list \<Rightarrow> ('b list, 'e) res" where
  "collect_results f [] = Ok []"
| "collect_results f (x # xs) = rthen (f x) (\<lambda>y. rthen (collect_results f xs) (\<lambda>ys. Ok (y # ys)))"

definition walked_list ::
  "trie_env \<Rightarrow> nat \<Rightarrow> b256 \<Rightarrow> (bytes \<Rightarrow> ('b, oracle_provider_error) res) \<Rightarrow> ('b list, oracle_provider_error) res option" where
  "walked_list E fuel root dec =
     map_option (\<lambda>r. rthen (map_err TrieWalkerErr r) (\<lambda>w. collect_results (dec \<circ> snd) (walker_collect w))) (try_new_hydrated E fuel root)"

definition receipts_by_hash ::
  "'c comms \<Rightarrow> hex_codec \<Rightarrow> l1_decoders \<Rightarrow> trie_env \<Rightarrow> (oracle_provider_error \<Rightarrow> string) \<Rightarrow> nat \<Rightarrow> b256 \<Rightarrow> 'c
     \<Rightarrow> ((receipt list, oracle_provider_error) res \<times> 'c) option" where
  "receipts_by_hash C H L E to_string fuel hash c =
     (case cbind (header_by_hash C H L hash c) (\<lambda>header c.
            cbind (hint_send C H (type_with_data [hash] L1Receipts) c) (\<lambda>_ c. (Ok header, c))) of
        (Ok header, c) \<Rightarrow>
          map_option (\<lambda>r. (r, c)) (walked_list (oracle_trie E to_string C (ld_rlp L) fuel c) fuel (lh_receipts_root header)
            (\<lambda>rlp. map_err RlpErr (ld_receipt L rlp)))
      | (Err e, c) \<Rightarrow> Some (Err e, c)
      | (Panic, c) \<Rightarrow> Some (Panic, c))"

definition tx_of_envelope :: "b256 \<times> address option \<times> address option \<times> bytes \<Rightarrow> (l1_transaction, 'e) res" where
  "tx_of_envelope t =
     (case t of (hash, signer, to, input) \<Rightarrow>
        (case signer of None \<Rightarrow> Panic | Some from \<Rightarrow> Ok \<lparr>tx_hash = hash, tx_from = from, tx_input = input, tx_to = to\<rparr>))"

definition get_block_transactions_by_hash ::
  "'c comms \<Rightarrow> hex_codec \<Rightarrow> l1_decoders \<Rightarrow> trie_env \<Rightarrow> (oracle_provider_error \<Rightarrow> string) \<Rightarrow> nat \<Rightarrow> b256 \<Rightarrow> 'c
     \<Rightarrow> ((l1_transaction list, oracle_provider_error) res \<times> 'c) option" where
  "get_block_transactions_by_hash C H L E to_string fuel hash c =
     (case cbind (header_by_hash C H L hash c) (\<lambda>header c.
            cbind (hint_send C H (type_with_data [hash] L1Transactions) c) (\<lambda>_ c. (Ok header, c))) of
        (Ok header, c) \<Rightarrow>
          map_option (\<lambda>r. (rthen r (collect_results tx_of_envelope), c))
            (walked_list (oracle_trie E to_string C (ld_rlp L) fuel c) fuel (lh_transactions_root header)
              (\<lambda>rlp. map_err RlpErr (ld_transaction L rlp)))
      | (Err e, c) \<Rightarrow> Some (Err e, c)
      | (Panic, c) \<Rightarrow> Some (Panic, c))"

section \<open>Data availability\<close>

definition da_get_input_oracle ::
  "'c comms \<Rightarrow> hex_codec \<Rightarrow> (bytes \<Rightarrow> b256) \<Rightarrow> bytes \<Rightarrow> 'c \<Rightarrow> (bytes, oracle_provider_error) res \<times> 'c" where
  "da_get_input_oracle C H keccak256 key c =
     cbind (hint_send C H (type_with_data [key] DAProxyBlobHint) c) (\<lambda>_ c. oracle_fetch C (new_da_proxy_blob keccak256 key) c)"

section \<open>The L2 chain\<close>

text \<open>A block as far as the providers read it: its transactions are given by the data of their instructions.\<close>

record l2_block_data =
  lb_previous_blockhash :: string
  lb_blockhash :: string
  lb_block_time :: u64
  lb_transactions :: "bytes list list"

record l2_decoders =
  l2d_keccak256 :: "bytes \<Rightarrow> b256"
  l2d_block :: "bytes \<Rightarrow> (l2_block_data, string) res"
  l2d_bs58 :: "string \<Rightarrow> bytes option"
  l2d_program_error :: "program_error \<Rightarrow> string"

text \<open>Panics on a text that is no Base58, or not of 32 bytes.\<close>

definition str_block_hash_to :: "l2_decoders \<Rightarrow> string \<Rightarrow> (b256, 'e) res" where
  "str_block_hash_to L str_hash =
     (case l2d_bs58 L str_hash of Some data \<Rightarrow> if length data = 32 then Ok data else Panic | None \<Rightarrow> Panic)"

definition get_block_by_number :: "'c comms \<Rightarrow> hex_codec \<Rightarrow> l2_decoders \<Rightarrow> u64 \<Rightarrow> 'c \<Rightarrow> (l2_block_data, oracle_provider_error) res \<times> 'c" where
  "get_block_by_number C H L number c =
     cbind (hint_send C H (type_with_data [be_of_nat 8 (unat number)] L2BlockData) c) (\<lambda>_ c.
     cbind (oracle_fetch C (new_block_slot (l2d_keccak256 L) number) c) (\<lambda>block_bytes c.
       (map_err RlpErr (l2d_block L block_bytes), c)))"

definition get_l1_block_info :: "l2_decoders \<Rightarrow> l2_block_data \<Rightarrow> (l1_block_info_instruction, oracle_provider_error) res" where
  "get_l1_block_info L block =
     (case lb_transactions block of
        [] \<Rightarrow> Err (FetchBlockInfoFailed ''No l1 block info tx found'')
      | instructions # _ \<Rightarrow>
          (case instructions of
             [] \<Rightarrow> Err (FetchBlockInfoFailed ''No instruction found'')
           | data # _ \<Rightarrow> map_err (\<lambda>e. FetchBlockInfoFailed (l2d_program_error L e)) (l1_unpack data)))"

definition get_l2_block_info_by_number ::
  "'c comms \<Rightarrow> hex_codec \<Rightarrow> l2_decoders \<Rightarrow> u64 \<Rightarrow> 'c \<Rightarrow> (l2_block_info, oracle_provider_error) res \<times> 'c" where
  "get_l2_block_info_by_number C H L number c =
     cbind (get_block_by_number C H L number c) (\<lambda>block c.
       (rthen (str_block_hash_to L (lb_blockhash block)) (\<lambda>hash.
        rthen (str_block_hash_to L (lb_previous_blockhash block)) (\<lambda>parent_hash.
        rthen (get_l1_block_info L block) (\<lambda>i.
        case i of
          UpdateL1BlockInfo info \<Rightarrow>
            Ok \<lparr>l2_block = \<lparr>bi_hash = hash, bi_number = number, bi_parent_hash = parent_hash, bi_timestamp = lb_block_time block\<rparr>,
                l2_l1_origin = \<lparr>bnh_number = li_number info, bnh_hash = li_hash info\<rparr>, l2_seq_num = li_sequence_number info\<rparr>
        | CreateL1BlockInfoAccount \<Rightarrow> Err (FetchBlockInfoFailed ''Invalid l1 block info instruction'')))), c))"

text \<open>The batcher address of a block: bytes 12 to 32 of the batcher hash of its L1 info transaction.\<close>

definition oracle_system_config ::
  "'c comms \<Rightarrow> hex_codec \<Rightarrow> l2_decoders \<Rightarrow> u64 \<Rightarrow> 'c \<Rightarrow> (system_config, oracle_provider_error) res \<times> 'c" where
  "oracle_system_config C H L number c =
     cbind (get_block_by_number C H L number c) (\<lambda>block c.
       (rthen (get_l1_block_info L block) (\<lambda>i.
        case i of
          UpdateL1BlockInfo info \<Rightarrow> Ok (default_system_config\<lparr>sc_batcher_address := take 20 (drop 12 (li_batcher_hash info))\<rparr>)
        | CreateL1BlockInfoAccount \<Rightarrow> Err (FetchBlockInfoFailed ''Invalid l1 block info instruction'')), c))"

text \<open>The provider of the online node reads the first 20 bytes as a little-endian number instead.\<close>

definition fetcher_system_config :: "l2_decoders \<Rightarrow> l2_block_data \<Rightarrow> (system_config, oracle_provider_error) res" where
  "fetcher_system_config L block =
     rthen (get_l1_block_info L block) (\<lambda>i.
     case i of
       UpdateL1BlockInfo info \<Rightarrow> Ok (default_system_config\<lparr>sc_batcher_address := rev (take 20 (li_batcher_hash info))\<rparr>)
     | CreateL1BlockInfoAccount \<Rightarrow> Err (FetchBlockInfoFailed ''Invalid l1 block info instruction''))"

definition oracle_bank_hash :: "'c comms \<Rightarrow> l2_decoders \<Rightarrow> u64 \<Rightarrow> 'c \<Rightarrow> (b256, oracle_provider_error) res \<times> 'c" where
  "oracle_bank_hash C L block_number c =
     cbind (oracle_fetch C (new_l2_bank_hash (l2d_keccak256 L) block_number) c) (\<lambda>v c. (if length v = 32 then Ok v else Panic, c))"

definition oracle_block_time :: "'c comms \<Rightarrow> l2_decoders \<Rightarrow> u64 \<Rightarrow> 'c \<Rightarrow> (64 word, oracle_provider_error) res \<times> 'c" where
  "oracle_block_time C L block_number c =
     cbind (oracle_fetch C (new_l2_block_time (l2d_keccak256 L) block_number) c) (\<lambda>v c.
       (if length v = 8 then Ok (of_nat (nat_of_be v)) else Panic, c))"

definition oracle_data_by_hash :: "'c comms \<Rightarrow> b256 \<Rightarrow> 'c \<Rightarrow> (bytes, oracle_provider_error) res \<times> 'c" where
  "oracle_data_by_hash C hash c = oracle_fetch C (new_l2_account_proof hash) c"

definition hint_trie_node :: "'c comms \<Rightarrow> hex_codec \<Rightarrow> u64 option \<Rightarrow> b256 \<Rightarrow> 'c \<Rightarrow> (unit, oracle_provider_error) res \<times> 'c" where
  "hint_trie_node C H chain_id hash c =
     hint_send C H (hint_with_data (case chain_id of None \<Rightarrow> [] | Some chain \<Rightarrow> be_of_nat 8 (unat chain)) (type_with_data [hash] L2StateNode)) c"

definition hint_account_proof :: "'c comms \<Rightarrow> hex_codec \<Rightarrow> b256 \<Rightarrow> u64 \<Rightarrow> 'c \<Rightarrow> (unit, oracle_provider_error) res \<times> 'c" where
  "hint_account_proof C H hashed_key block_number c =
     hint_send C H (type_with_data [be_of_nat 8 (unat block_number), hashed_key] L2AccountProofHint) c"

definition hint_bank_hash :: "'c comms \<Rightarrow> hex_codec \<Rightarrow> u64 \<Rightarrow> 'c \<Rightarrow> (unit, oracle_provider_error) res \<times> 'c" where
  "hint_bank_hash C H block_number c = hint_send C H (type_with_data [be_of_nat 8 (unat block_number)] L2BankHash) c"

definition hint_block_time :: "'c comms \<Rightarrow> hex_codec \<Rightarrow> u64 \<Rightarrow> 'c \<Rightarrow> (unit, oracle_provider_error) res \<times> 'c" where
  "hint_block_time C H block_number c = hint_send C H (type_with_data [be_of_nat 8 (unat block_number)] L2BlockTime) c"

section \<open>Booting from the inputs of a host\<close>

text \<open>What a client reads from a host that answers out of its store.\<close>

definition served_by :: "'s kv_store \<Rightarrow> 's \<Rightarrow> oracle_reader" where
  "served_by K s =
     \<lparr>or_get = offline_get_preimage K s,
      or_get_exact = (\<lambda>key n. rthen (offline_get_preimage K s key) (\<lambda>v. if n \<noteq> length v then Err (BufferLengthMismatch (length v) n) else Ok v))\<rparr>"

lemma nat_of_be_append: "nat_of_be (replicate n 0 @ bs) = nat_of_be bs"
proof (induction bs rule: rev_induct)
  case (snoc b bs)
  then show ?case by (simp add: nat_of_be_snoc flip: append_assoc)
qed simp

lemma key_value_new_local [simp]: "key_value (new_local i) = ucast i"
proof -
  have "unat i < 256 ^ 8" using unsigned_less [of i, where ?'a = nat] by simp
  then show ?thesis by (simp add: key_value_def new_local_def nat_of_be_append nat_of_be_of_nat)
qed

lemma local_served:
  "or_get (served_by (split_kv (local_inputs_get I cfg) K) s) (new_local i) = ok_or (local_inputs_get I cfg (key_bytes (new_local i))) PreimageKeyNotFound"
proof -
  have "hd (key_bytes (new_local i)) = key_type_u8 Local" by (simp add: key_bytes_def new_local_def)
  then have "kv_get (split_kv (local_inputs_get I cfg) K) (key_bytes (new_local i)) s = local_inputs_get I cfg (key_bytes (new_local i))"
    using key_type_roundtrip [of Local] by (simp add: split_kv_def split_get_def)
  then show ?thesis by (simp add: served_by_def offline_get_preimage_def)
qed

lemma exact_served:
  "or_get_exact (served_by K s) key n = rthen (or_get (served_by K s) key) (\<lambda>v. if n \<noteq> length v then Err (BufferLengthMismatch (length v) n) else Ok v)"
  by (simp add: served_by_def)

lemma u64_be [simp]: "of_nat (nat_of_be (be_of_nat 8 (unat (v :: u64)))) = v"
proof -
  have "unat v < 256 ^ 8" using unsigned_less [of v, where ?'a = nat] by simp
  then show ?thesis by (simp add: nat_of_be_of_nat)
qed

lemmas boot_simps = local_served exact_served local_inputs_get_def local_key_defs get_number_def

section \<open>Walking the L1 chain\<close>

text \<open>An oracle that knows the headers of a chain up to a head, in the states \<open>P\<close>.\<close>

definition serves :: "'c comms \<Rightarrow> hex_codec \<Rightarrow> l1_decoders \<Rightarrow> ('c \<Rightarrow> bool) \<Rightarrow> (nat \<Rightarrow> l1_header) \<Rightarrow> nat \<Rightarrow> bool" where
  "serves C H L P hdr head \<longleftrightarrow>
     (\<forall>i \<le> head. \<forall>c. P c \<longrightarrow>
        (\<exists>c1 c2 enc. cm_write C (hint_encode H (hint_new L1BlockHeader (lh_hash (hdr i)))) c = (Ok (), c1)
           \<and> cm_get C (new_keccak256 (lh_hash (hdr i))) c1 = (Ok enc, c2) \<and> ld_header L enc = Ok (hdr i) \<and> P c2))"

definition l1_chain :: "(nat \<Rightarrow> l1_header) \<Rightarrow> nat \<Rightarrow> bool" where
  "l1_chain hdr head \<longleftrightarrow>
     head < 2 ^ 64 \<and> (\<forall>i \<le> head. lh_number (hdr i) = of_nat i) \<and> (\<forall>i < head. lh_parent_hash (hdr (Suc i)) = lh_hash (hdr i))"

lemma serves_header:
  assumes "serves C H L P hdr head" and "P c" and "i \<le> head"
  obtains c' where "header_by_hash C H L (lh_hash (hdr i)) c = (Ok (hdr i), c')" "P c'"
proof -
  obtain c1 c2 enc where "cm_write C (hint_encode H (hint_new L1BlockHeader (lh_hash (hdr i)))) c = (Ok (), c1)"
      "cm_get C (new_keccak256 (lh_hash (hdr i))) c1 = (Ok enc, c2)" "ld_header L enc = Ok (hdr i)" "P c2"
    using assms unfolding serves_def by blast
  with that [of c2] show ?thesis
    by (simp add: header_by_hash_def hint_send_def oracle_fetch_def cbind_def type_with_data_concat)
qed

lemma unat_of_height: "n < 2 ^ 64 \<Longrightarrow> unat (of_nat n :: u64) = n"
  by (simp add: unat_of_nat)

lemma number_less:
  assumes "l1_chain hdr head" and "i \<le> head" and "n < 2 ^ 64"
  shows "lh_number (hdr i) > of_nat n \<longleftrightarrow> n < i"
proof -
  have "i < 2 ^ 64" using assms(1,2) by (simp add: l1_chain_def)
  then show ?thesis using assms by (simp add: l1_chain_def unat_of_height word_less_nat_alt)
qed

lemma walk_back_finds:
  assumes "serves C H L P hdr head" and "l1_chain hdr head" and "P c" and "n \<le> i" and "i \<le> head" and "i - n < fuel"
  shows "\<exists>c'. walk_back C H L (of_nat n) fuel (hdr i) c = Some (Ok (hdr n), c')"
  using assms(3-6)
proof (induction fuel arbitrary: i c)
  case (Suc fuel)
  have n: "n < 2 ^ 64" using Suc.prems assms(2) by (simp add: l1_chain_def)
  show ?case
  proof (cases "n < i")
    case True
    then obtain j where j: "i = Suc j" by (cases i) auto
    with Suc.prems assms(2) have p: "lh_parent_hash (hdr i) = lh_hash (hdr j)" by (simp add: l1_chain_def)
    obtain c' where "header_by_hash C H L (lh_hash (hdr j)) c = (Ok (hdr j), c')" "P c'"
      using serves_header [OF assms(1) Suc.prems(1), of j] Suc.prems j by auto
    with Suc.IH [of c' j] Suc.prems True j p number_less [OF assms(2) Suc.prems(3) n] show ?thesis by auto
  next
    case False
    with Suc.prems have "i = n" by simp
    with number_less [OF assms(2) Suc.prems(3) n] show ?thesis by simp
  qed
qed simp

section \<open>Properties\<close>

text \<open>
  A client boots with the inputs of its host: the claim, the agreed output root, the block
  numbers, the L1 head and the rollup config are those of the host's configuration, and the chain id
  is that of the command line, or zero.
\<close>

theorem boot_info_is_host_config:
  assumes "read_rollup_config I cfg = Ok rc" and "io_to_vec I rc = Ok bs" and "io_from_slice I bs = Ok rc"
    and "length (sh_l1_head cfg) = 32" and "length (sh_agreed_l2_output_root cfg) = 32" and "length (sh_claimed_l2_output_root cfg) = 32"
  shows "boot_load I (served_by (split_kv (local_inputs_get I cfg) K) s) =
    Ok \<lparr>boot_l1_head = sh_l1_head cfg, boot_agreed_l2_output_root = sh_agreed_l2_output_root cfg,
        boot_agreed_l2_block_number = sh_agreed_l2_block_number cfg, boot_claimed_l2_output_root = sh_claimed_l2_output_root cfg,
        boot_claimed_l2_block_number = sh_claimed_l2_block_number cfg,
        boot_chain_id = (case sh_l2_chain_id cfg of None \<Rightarrow> 0 | Some chain \<Rightarrow> chain), boot_rollup_config = rc\<rparr>"
  using assms by (simp add: boot_load_def boot_simps ok_option_def)

text \<open>
  The command line takes a chain id or the path of a rollup config, not both, but the host only
  reads the path: a client that boots has the chain id zero, and with a chain id on the command line
  it does not boot.
\<close>

theorem booted_chain_id_is_zero:
  assumes "sh_l2_chain_id cfg = None \<or> sh_rollup_config_path cfg = None"
    and "boot_load I (served_by (split_kv (local_inputs_get I cfg) K) s) = Ok boot"
  shows "boot_chain_id boot = 0 \<and> sh_l2_chain_id cfg = None"
proof -
  have "sh_rollup_config_path cfg \<noteq> None"
  proof
    assume "sh_rollup_config_path cfg = None"
    then have "or_get (served_by (split_kv (local_inputs_get I cfg) K) s) (new_local (ucast L2_ROLLUP_CONFIG_KEY)) = Err PreimageKeyNotFound"
      by (simp add: boot_simps read_rollup_config_def ok_option_def)
    with assms(2) show False by (simp add: boot_load_def rthen_Ok_iff)
  qed
  with assms(1) have c: "sh_l2_chain_id cfg = None" by simp
  then have "get_number (served_by (split_kv (local_inputs_get I cfg) K) s) (new_local (ucast L2_CHAIN_ID_KEY)) = Ok 0"
    using nat_of_be_append [of 8 "[]"] by (simp add: boot_simps nat_of_be_def)
  with assms(2) c show ?thesis by (auto simp: boot_load_def rthen_Ok_iff)
qed

text \<open>
  C35: looking up an L1 block by its number walks from the head back to the block of that number and
  ends there, within as many steps as there are blocks between them; a number past the head is
  refused.
\<close>

theorem block_by_number_is_found:
  assumes "serves C H L P hdr head" and "l1_chain hdr head" and "P c" and "n < 2 ^ 64" and "head - n < fuel"
  shows "\<exists>c'. block_info_by_number C H L (lh_hash (hdr head)) fuel (BlockNumber (of_nat n)) c =
    Some (if n \<le> head then Ok (header_block_info (hdr n)) else Err (BlockNumberPastHead (of_nat n) (of_nat head)), c')"
proof -
  obtain c1 where c1: "header_by_hash C H L (lh_hash (hdr head)) c = (Ok (hdr head), c1)" "P c1"
    using serves_header [OF assms(1,3)] by blast
  have num: "lh_number (hdr head) = of_nat head" and h: "head < 2 ^ 64" using assms(2) by (simp_all add: l1_chain_def)
  have "of_nat n > lh_number (hdr head) \<longleftrightarrow> head < n"
    using unat_of_height [OF assms(4)] unat_of_height [OF h] by (simp add: num word_less_nat_alt)
  moreover have "\<exists>c'. walk_back C H L (of_nat n) fuel (hdr head) c1 = Some (Ok (hdr n), c')" if "n \<le> head"
    using walk_back_finds [OF assms(1,2) c1(2) that _ assms(5)] by simp
  ultimately show ?thesis using c1(1) num by (auto simp: block_info_by_number_def)
qed

text \<open>
  C17: the receipts of a block arrive at the derivation complete and in the order of the block: the
  oracle's trie of the receipts root holds the encodings of the receipts under their indices.
\<close>

theorem receipts_in_order:
  assumes "header_by_hash C H L hash c = (Ok header, c1)" and "cm_write C (hint_encode H (hint_new L1Receipts hash)) c1 = (Ok (), c2)"
    and "rlp_index_law rlp" and "length rs \<le> 2 ^ 64" and "E' = oracle_trie E to_string C (ld_rlp L) fuel c2"
    and "te_node E' (lh_receipts_root header) = Ok t" and "\<not> blinded t" and "trie E' t (list_map rlp (map enc rs))"
    and "\<And>r. r \<in> set rs \<Longrightarrow> ld_receipt L (enc r) = Ok r" and "19 \<le> fuel"
  shows "receipts_by_hash C H L E to_string fuel hash c = Some (Ok rs, c2)"
proof -
  obtain w where w: "try_new_hydrated E' fuel (lh_receipts_root header) = Some (Ok w)" "map snd (walker_collect w) = map enc rs"
    using walker_list [OF assms(3) _ assms(6-8,10)] assms(4) by auto
  have "collect_results (dec \<circ> snd) ls = collect_results dec (map snd ls)" for dec :: "bytes \<Rightarrow> (receipt, oracle_provider_error) res" and ls :: leaves
    by (induction ls) simp_all
  moreover have "collect_results (\<lambda>rlp. map_err RlpErr (ld_receipt L rlp)) (map enc rs) = Ok rs"
    using assms(9) by (induction rs) simp_all
  ultimately show ?thesis
    using w assms(1,2,5) by (simp add: receipts_by_hash_def walked_list_def cbind_def hint_send_def type_with_data_concat)
qed

text \<open>
  C37: the batcher address read back from the L1 info transaction of a block: the provider of the
  node recovers the address that the derivation wrote, the provider of the client program does not.
\<close>

theorem oracle_misreads_batcher:
  assumes "length a = 20" and "length (bi_hash origin) = 32" and "attributes_try_from origin sequence_number (address_to_hash a) = Ok d"
    and "attributes_instruction d = Ok n" and "instruction_of E n = (Ok ix :: (instruction, 'e) res)"
    and "get_block_by_number C H L number c = (Ok block, c')" and "lb_transactions block = [ix_data ix] # txs"
  shows "fetcher_system_config L block = Ok (default_system_config\<lparr>sc_batcher_address := a\<rparr>)
    \<and> oracle_system_config C H L number c = (Ok (default_system_config\<lparr>sc_batcher_address := rev (take 8 a) @ replicate 12 0\<rparr>), c')"
proof -
  define info where "info = \<lparr>li_number = bi_number origin, li_timestamp = bi_timestamp origin, li_base_fee = 0, li_hash = bi_hash origin,
      li_sequence_number = sequence_number, li_batcher_hash = rev (be_of_nat 32 (unat (address_to_hash a))), li_fee_overhead = 0,
      li_fee_scalar = 0, li_gas = 0, li_is_system_tx = True\<rparr>"
  have "be_of_nat 32 (unat (address_to_hash a)) = be_of_nat 32 (nat_of_be (replicate 12 0 @ a))"
    using nat_of_be_bound [of "replicate 12 0 @ a"] assms(1) by (simp add: address_to_hash_def u256_of_def unat_of_nat)
  also have "\<dots> = replicate 12 0 @ a" using be_of_nat_of_be [of "replicate 12 0 @ a"] assms(1) by simp
  finally have b: "li_batcher_hash info = rev a @ replicate 12 0" by (simp add: info_def)
  have "ix = update_l1_block_info_ix E info"
    using assms(3-5) by (auto simp: attributes_try_from_def attributes_instruction_def u128_try_from_def instruction_of_def info_def)
  moreover have "wf_info info" using assms(2) by (simp add: wf_info_def info_def)
  ultimately have "get_l1_block_info L block = Ok (UpdateL1BlockInfo info)"
    using l1_unpack_pack [of info "[]"] assms(7) by (simp add: get_l1_block_info_def update_l1_block_info_ix_def Let_def del: l1_pack.simps)
  moreover have "rev (take 20 (li_batcher_hash info)) = a" "take 20 (drop 12 (li_batcher_hash info)) = rev (take 8 a) @ replicate 12 0"
    using assms(1) by (simp_all add: b drop_rev)
  ultimately show ?thesis using assms(6) by (simp add: fetcher_system_config_def oracle_system_config_def cbind_def)
qed

text \<open>
  A host answers for a block without a bank hash or a block time with no bytes, and the client
  that reads the answer panics.
\<close>

theorem missing_bank_hash_panics:
  assumes "K = split_kv lg mem_kv" and "rm_keccak256 M = l2d_keccak256 L" and "rm_bank_hash M n = Ok None"
    and "fetch_hint K M cfg (hint_new L2BankHash (be_of_nat 8 (unat n))) kv = (r, kv')"
    and "cm_get C (new_l2_bank_hash (l2d_keccak256 L) n) c = (offline_get_preimage K kv' (new_l2_bank_hash (l2d_keccak256 L) n), c')"
  shows "r = Ok () \<and> oracle_bank_hash C L n c = (Panic, c')"
proof -
  let ?key = "new_l2_bank_hash (l2d_keccak256 L) n"
  have key: "pk_key_type ?key \<noteq> Local" by (simp add: new_l2_bank_hash_def key_new_def)
  have "(r, kv') = kv_set K (key_bytes ?key) [] kv" using assms(2-4) by (simp add: fetch_hint_def hint_new_def ensure_def)
  then have "r = Ok ()" "kv' = AList.update (key_bytes ?key) [] kv" using assms(1) by (simp_all add: split_kv_def mem_kv_def mem_set_def)
  with assms(1,5) key show ?thesis by (simp add: oracle_bank_hash_def oracle_fetch_def cbind_def offline_get_preimage_def get_mem update_conv')
qed

subsection \<open>Examples\<close>

definition ex_io :: config_io where
  "ex_io = \<lparr>io_read = (\<lambda>p. Ok p), io_from_str = (\<lambda>s. Ok ex_bridge_config), io_to_vec = (\<lambda>rc. Ok [1]), io_from_slice = (\<lambda>b. Ok ex_bridge_config)\<rparr>"

theorem boot_info_is_host_config_witness:
  "\<exists>b. boot_load ex_io (served_by (split_kv (local_inputs_get ex_io ex_host) mem_kv) []) = Ok b
     \<and> boot_claimed_l2_block_number b = 9 \<and> boot_rollup_config b = ex_bridge_config"
proof -
  have "read_rollup_config ex_io ex_host = Ok ex_bridge_config" by (simp add: read_rollup_config_def ex_io_def ex_host_def)
  moreover have "io_to_vec ex_io ex_bridge_config = Ok [1]" "io_from_slice ex_io [1] = Ok ex_bridge_config" by (simp_all add: ex_io_def)
  ultimately show ?thesis
    using boot_info_is_host_config [of ex_io ex_host ex_bridge_config "[1]" mem_kv "[]"] by (simp add: ex_host_def)
qed

theorem booted_chain_id_is_zero_witness:
  "\<exists>b. boot_load ex_io (served_by (split_kv (local_inputs_get ex_io ex_host) mem_kv) []) = Ok b \<and> boot_chain_id b = 0"
proof -
  have "\<exists>b. boot_load ex_io (served_by (split_kv (local_inputs_get ex_io ex_host) mem_kv) []) = Ok b"
    by (simp add: boot_load_def boot_simps ok_option_def read_rollup_config_def ex_io_def ex_host_def)
  with booted_chain_id_is_zero [of ex_host ex_io mem_kv "[]"] show ?thesis by (auto simp: ex_host_def)
qed

text \<open>A chain of headers that are their number, repeated, and an oracle that knows them.\<close>

definition ex_l1_header :: "nat \<Rightarrow> l1_header" where
  "ex_l1_header i = \<lparr>lh_hash = replicate 32 (of_nat i), lh_parent_hash = replicate 32 (of_nat i - 1), lh_number = of_nat i, lh_timestamp = of_nat i,
     lh_state_root = [], lh_transactions_root = [], lh_receipts_root = []\<rparr>"

definition ex_comms :: "unit comms" where
  "ex_comms = \<lparr>cm_write = (\<lambda>h c. (Ok (), c)), cm_get = (\<lambda>k c. (Ok (key_bytes k), c))\<rparr>"

definition ex_l1_decoders :: l1_decoders where
  "ex_l1_decoders = \<lparr>ld_header = (\<lambda>b. Ok (ex_l1_header (unat (last b)))), ld_receipt = (\<lambda>b. Err ''none''), ld_transaction = (\<lambda>b. Err ''none''), ld_rlp = ex_decoder\<rparr>"

theorem block_by_number_is_found_witness:
  "\<exists>c. block_info_by_number ex_comms ex_hex ex_l1_decoders (lh_hash (ex_l1_header 3)) 3 (BlockNumber 1) () = Some (Ok (header_block_info (ex_l1_header 1)), c)"
proof -
  have "ld_header ex_l1_decoders (key_bytes (new_keccak256 (lh_hash (ex_l1_header i)))) = Ok (ex_l1_header i)" if "i \<le> 3" for i
  proof -
    have "last (key_bytes (new_keccak256 (lh_hash (ex_l1_header i)))) = of_nat i"
      by (simp add: key_bytes_def new_keccak256_def key_new_def ex_l1_header_def last_drop)
    moreover have "unat (of_nat i :: u8) = i" using that by (simp add: unat_of_nat)
    ultimately show ?thesis by (simp add: ex_l1_decoders_def)
  qed
  then have "serves ex_comms ex_hex ex_l1_decoders (\<lambda>_. True) ex_l1_header 3" by (simp add: serves_def ex_comms_def)
  moreover have "l1_chain ex_l1_header 3" by (simp add: l1_chain_def ex_l1_header_def)
  ultimately show ?thesis using block_by_number_is_found [of ex_comms ex_hex ex_l1_decoders _ ex_l1_header 3 "()" 1 3] by simp
qed


text \<open>A block with one receipt: its trie is a leaf.\<close>

definition ex_receipt :: receipt where
  "ex_receipt = \<lparr>rcpt_status = Eip658 True, rcpt_logs = []\<rparr>"

definition ex_receipt_leaf :: trie_node where
  "ex_receipt_leaf = Leaf [8, 0] [7]"

definition ex_receipt_comms :: "unit comms" where
  "ex_receipt_comms = \<lparr>cm_write = (\<lambda>h c. (Ok (), c)), cm_get = (\<lambda>k c. (Ok (encode_node ex_codec_env ex_receipt_leaf), c))\<rparr>"

definition ex_receipt_decoders :: l1_decoders where
  "ex_receipt_decoders = \<lparr>ld_header = (\<lambda>b. Ok (ex_l1_header 5)), ld_receipt = (\<lambda>b. Ok ex_receipt), ld_transaction = (\<lambda>b. Err ''none''), ld_rlp = ex_decoder\<rparr>"

lemma ex_receipt_node: "node_decode ex_decoder 19 (encode_node ex_codec_env ex_receipt_leaf) = Some (Ok (ex_receipt_leaf, []))"
proof -
  have "node_length ex_codec_env ex_receipt_leaf = 5"
    by (simp add: ex_receipt_leaf_def node_length_def length_from_def encoded_key_length_def cap_length_def ex_codec_env_def ex_length_def)
  then show ?thesis
    using node_decode_encode [OF ex_codec_laws, of ex_receipt_leaf 19 "[]"] by (simp add: ex_receipt_leaf_def nibbled_def)
qed

theorem receipts_in_order_witness:
  "receipts_by_hash ex_receipt_comms ex_hex ex_receipt_decoders ex_codec_env (\<lambda>_. ''error'') 19 (lh_hash (ex_l1_header 5)) () = Some (Ok [ex_receipt], ())"
proof -
  define E' where "E' = oracle_trie ex_codec_env (\<lambda>_. ''error'') ex_receipt_comms (ld_rlp ex_receipt_decoders) 19 ()"
  have "te_node E' h = Ok ex_receipt_leaf" for h
    using ex_receipt_node by (simp add: E'_def oracle_trie_def trie_node_by_hash_def oracle_fetch_def ex_receipt_comms_def ex_receipt_decoders_def)
  then have node: "te_node E' (lh_receipts_root (ex_l1_header 5)) = Ok ex_receipt_leaf" .
  have "list_map ex_rlp_usize (map (\<lambda>_. [7]) [ex_receipt]) = [[8, 0] \<mapsto> [7]]"
    by (simp add: list_map_def list_key_def ex_rlp_usize_def unpack_def EMPTY_STRING_CODE_def)
  then have tr: "trie E' ex_receipt_leaf (list_map ex_rlp_usize (map (\<lambda>_. [7]) [ex_receipt]))"
    using trie_Leaf [of E' "[8, 0]" "[7]"] by (simp add: ex_receipt_leaf_def)
  have header: "header_by_hash ex_receipt_comms ex_hex ex_receipt_decoders (lh_hash (ex_l1_header 5)) () = (Ok (ex_l1_header 5), ())"
    by (simp add: header_by_hash_def hint_send_def oracle_fetch_def cbind_def ex_receipt_comms_def ex_receipt_decoders_def)
  show ?thesis
    by (rule receipts_in_order [OF header _ ex_rlp_index_law _ E'_def node _ tr])
       (simp_all add: ex_receipt_comms_def ex_receipt_decoders_def ex_receipt_leaf_def)
qed

definition ex_batcher :: address where
  "ex_batcher = [1, 2, 3, 4, 5, 6, 7, 8, 9, 10, 11, 12, 13, 14, 15, 16, 17, 18, 19, 20]"

definition ex_info_ix :: instruction where
  "ex_info_ix = update_l1_block_info_ix ex_client
     \<lparr>li_number = 8, li_timestamp = bi_timestamp ex_l1_block, li_base_fee = 0, li_hash = replicate 32 5, li_sequence_number = 3,
      li_batcher_hash = rev (be_of_nat 32 (unat (address_to_hash ex_batcher))), li_fee_overhead = 0, li_fee_scalar = 0, li_gas = 0, li_is_system_tx = True\<rparr>"

definition ex_l2_decoders :: l2_decoders where
  "ex_l2_decoders = \<lparr>l2d_keccak256 = (\<lambda>b. b), l2d_block = (\<lambda>b. Ok \<lparr>lb_previous_blockhash = [], lb_blockhash = [], lb_block_time = 1, lb_transactions = [[ix_data ex_info_ix]]\<rparr>),
     l2d_bs58 = (\<lambda>s. None), l2d_program_error = (\<lambda>e. ''error'')\<rparr>"

theorem oracle_misreads_batcher_witness:
  "fst (oracle_system_config ex_comms ex_hex ex_l2_decoders 9 ()) =
     Ok (default_system_config\<lparr>sc_batcher_address := [8, 7, 6, 5, 4, 3, 2, 1, 0, 0, 0, 0, 0, 0, 0, 0, 0, 0, 0, 0]\<rparr>)"
proof -
  obtain d where d: "attributes_try_from ex_l1_block 3 (address_to_hash ex_batcher) = Ok d" by (simp add: attributes_try_from_def)
  then obtain n where n: "attributes_instruction d = Ok n" by (auto simp: attributes_try_from_def attributes_instruction_def u128_try_from_def)
  have ix: "instruction_of ex_client n = (Ok ex_info_ix :: (instruction, unit) res)"
    using d n by (auto simp: attributes_try_from_def attributes_instruction_def u128_try_from_def instruction_of_def ex_info_ix_def ex_l1_block_def ex_block_def)
  have l: "length ex_batcher = 20" "length (bi_hash ex_l1_block) = 32" by (simp_all add: ex_batcher_def ex_l1_block_def)
  have "\<exists>block. get_block_by_number ex_comms ex_hex ex_l2_decoders 9 () = (Ok block, ()) \<and> lb_transactions block = [ix_data ex_info_ix] # []"
    by (simp add: get_block_by_number_def hint_send_def oracle_fetch_def cbind_def ex_comms_def ex_l2_decoders_def)
  then obtain block where b: "get_block_by_number ex_comms ex_hex ex_l2_decoders 9 () = (Ok block, ())" "lb_transactions block = [ix_data ex_info_ix] # []"
    by blast
  have "rev (take 8 ex_batcher) @ replicate 12 0 = [8, 7, 6, 5, 4, 3, 2, 1, 0, 0, 0, 0, 0, 0, 0, 0, 0, 0, 0, 0]"
    unfolding ex_batcher_def by (simp add: replicate_eqI numeral_eq_Suc)
  with oracle_misreads_batcher [OF l d n ix b] show ?thesis by simp
qed

theorem missing_bank_hash_panics_witness:
  "fst (oracle_bank_hash
     \<lparr>cm_write = (\<lambda>h c. (Ok (), c)), cm_get = (\<lambda>k c. (offline_get_preimage (split_kv (\<lambda>_. None) mem_kv)
        (snd (fetch_hint (split_kv (\<lambda>_. None) mem_kv) ex_remote ex_host (hint_new L2BankHash (be_of_nat 8 (unat (3 :: u64)))) [])) k, c))\<rparr>
     ex_l2_decoders 3 ()) = Panic"
  using missing_bank_hash_panics [OF refl _ _ surjective_pairing, of ex_remote ex_l2_decoders 3 _ "()"]
  by (simp add: ex_remote_def ex_l2_decoders_def)

end
