(* ===== verification/Svm_Block.thy ===== *)
theory Svm_Block
  imports Trie_Db
begin

text \<open>
  What a block of the L2 is to the executor (\<^verbatim>\<open>executor/svm/src\<close>): batches of transactions
  (\<^verbatim>\<open>block.rs\<close>), the entries that hash them into the blockhash (\<^verbatim>\<open>entry\<close>, the end of \<^verbatim>\<open>lib.rs\<close>), the queue
  of recent blockhashes and the account that keeps it between blocks (\<^verbatim>\<open>blockhash_queue.rs\<close>,
  \<^verbatim>\<open>sysvar/recent_blockhashes.rs\<close>), and the leader schedule. SHA-256 and the signatures of a transaction
  are parameters.
\<close>

section \<open>Blocks\<close>

type_synonym 'tx raw_block = "'tx list list"

definition from_tx_batch :: "'tx list \<Rightarrow> 'tx l2_transaction list" where
  "from_tx_batch tx_batch =
     (let batch_size = of_nat (length tx_batch) in
      map (\<lambda>(index, tx). if index = 0 then Head batch_size tx else Body tx) (enumerate 0 tx_batch))"

fun tx_of_l2 :: "'tx l2_transaction \<Rightarrow> 'tx" where
  "tx_of_l2 (Head _ tx) = tx"
| "tx_of_l2 (Body tx) = tx"

fun batch_length :: "'tx l2_transaction \<Rightarrow> u64 option" where
  "batch_length (Head n _) = Some n"
| "batch_length (Body _) = None"

definition from_single_batch :: "'tx list \<Rightarrow> 'tx raw_block" where
  "from_single_batch batch = [batch]"

definition l2_of_raw :: "'tx raw_block \<Rightarrow> 'tx l2_transaction list" where
  "l2_of_raw raw_block = concat (map from_tx_batch raw_block)"

text \<open>
  The length of a head is only a capacity to reserve. Reserving more than the address space holds, which
  panics, is not modelled.
\<close>

fun split_batches :: "'tx raw_block \<Rightarrow> 'tx list \<Rightarrow> 'tx l2_transaction list \<Rightarrow> 'tx raw_block" where
  "split_batches batches tx_batch [] = (if tx_batch = [] then batches else batches @ [tx_batch])"
| "split_batches batches tx_batch (Head n tx # txs) =
     split_batches (if tx_batch = [] then batches else batches @ [tx_batch]) [tx] txs"
| "split_batches batches tx_batch (Body tx # txs) = split_batches batches (tx_batch @ [tx]) txs"

definition raw_of_l2 :: "'tx l2_transaction list \<Rightarrow> 'tx raw_block" where
  "raw_of_l2 txs = split_batches [] [] txs"

section \<open>Merkle trees\<close>

record sha256 =
  hf_hashv :: "bytes list \<Rightarrow> b256"

definition sha_hash :: "sha256 \<Rightarrow> bytes \<Rightarrow> b256" where
  "sha_hash F b = hf_hashv F [b]"

definition hash_leaf :: "sha256 \<Rightarrow> bytes \<Rightarrow> b256" where
  "hash_leaf F d = hf_hashv F [[0], d]"

definition hash_intermediate :: "sha256 \<Rightarrow> b256 \<Rightarrow> b256 \<Rightarrow> b256" where
  "hash_intermediate F l r = hf_hashv F [[1], l, r]"

definition next_level_len :: "nat \<Rightarrow> nat" where
  "next_level_len level_len = (if level_len = 1 then 0 else (level_len + 1) div 2)"

text \<open>
  The levels are appended to one vector. A level reads the one before it only, which is complete, so
  the pushes of a level are the map over its indices.
\<close>

function merkle_levels :: "sha256 \<Rightarrow> b256 list \<Rightarrow> nat \<Rightarrow> nat \<Rightarrow> nat \<Rightarrow> nat \<Rightarrow> b256 list" where
  "merkle_levels F nodes prev_level_start prev_level_len level_start level_len =
     (if level_len = 0 then nodes
      else
        let level = map (\<lambda>i. let prev_level_idx = 2 * i;
                                 lsib = nodes ! (prev_level_start + prev_level_idx);
                                 rsib = (if prev_level_idx + 1 < prev_level_len then nodes ! (prev_level_start + prev_level_idx + 1) else lsib)
                             in hash_intermediate F lsib rsib) [0..<level_len]
        in merkle_levels F (nodes @ level) level_start level_len (level_start + level_len) (next_level_len level_len))"
  by pat_completeness auto
termination
  by (relation "measure (\<lambda>(_, _, _, _, _, level_len). level_len)") (auto simp: next_level_len_def)

declare merkle_levels.simps [simp del]

definition merkle_new :: "sha256 \<Rightarrow> bytes list \<Rightarrow> b256 list" where
  "merkle_new F items = merkle_levels F (map (hash_leaf F) items) 0 (length items) (length items) (next_level_len (length items))"

definition get_root :: "b256 list \<Rightarrow> b256 option" where
  "get_root nodes = (if nodes = [] then None else Some (last nodes))"

section \<open>Proof of history\<close>

definition LOW_POWER_MODE :: u64 where "LOW_POWER_MODE = - 1"

record poh =
  poh_hash :: b256
  poh_num_hashes :: u64
  poh_hashes_per_tick :: u64
  poh_remaining_hashes :: u64
  poh_tick_number :: u64

definition poh_new_with_slot_info :: "b256 \<Rightarrow> u64 option \<Rightarrow> u64 \<Rightarrow> (poh, 'e) res" where
  "poh_new_with_slot_info hash hashes_per_tick tick_number =
     (let hashes_per_tick = (case hashes_per_tick of None \<Rightarrow> LOW_POWER_MODE | Some n \<Rightarrow> n) in
      if hashes_per_tick > 1 then
        Ok \<lparr>poh_hash = hash, poh_num_hashes = 0, poh_hashes_per_tick = hashes_per_tick, poh_remaining_hashes = hashes_per_tick,
            poh_tick_number = tick_number\<rparr>
      else Panic)"

definition poh_new :: "b256 \<Rightarrow> u64 option \<Rightarrow> (poh, 'e) res" where
  "poh_new hash hashes_per_tick = poh_new_with_slot_info hash hashes_per_tick 0"

text \<open>The hashing of the clock; its result tells whether the caller has to tick next.\<close>

definition poh_advance :: "sha256 \<Rightarrow> u64 \<Rightarrow> poh \<Rightarrow> (bool, 'e) res \<times> poh" where
  "poh_advance F max_num_hashes p =
     (let num_hashes = min (poh_remaining_hashes p - 1) max_num_hashes;
          p = p\<lparr>poh_hash := (sha_hash F ^^ unat num_hashes) (poh_hash p), poh_num_hashes := poh_num_hashes p + num_hashes,
                poh_remaining_hashes := poh_remaining_hashes p - num_hashes\<rparr> in
      (if poh_remaining_hashes p > 0 then Ok (poh_remaining_hashes p = 1) else Panic, p))"

definition poh_record :: "sha256 \<Rightarrow> b256 \<Rightarrow> poh \<Rightarrow> b256 option \<times> poh" where
  "poh_record F mixin p =
     (if poh_remaining_hashes p = 1 then (None, p)
      else
        let p = p\<lparr>poh_hash := hf_hashv F [poh_hash p, mixin], poh_num_hashes := 0, poh_remaining_hashes := poh_remaining_hashes p - 1\<rparr> in
        (Some (poh_hash p), p))"

definition poh_tick :: "sha256 \<Rightarrow> poh \<Rightarrow> b256 option \<times> poh" where
  "poh_tick F p =
     (let p = p\<lparr>poh_hash := sha_hash F (poh_hash p), poh_num_hashes := poh_num_hashes p + 1, poh_remaining_hashes := poh_remaining_hashes p - 1\<rparr> in
      if poh_hashes_per_tick p \<noteq> LOW_POWER_MODE \<and> poh_remaining_hashes p \<noteq> 0 then (None, p)
      else
        (Some (poh_hash p),
         p\<lparr>poh_remaining_hashes := poh_hashes_per_tick p, poh_num_hashes := 0, poh_tick_number := poh_tick_number p + 1\<rparr>))"

section \<open>Entries\<close>

record 'tx entry =
  en_num_hashes :: u64
  en_hash :: b256
  en_transactions :: "'tx list"

definition is_tick :: "'tx entry \<Rightarrow> bool" where
  "is_tick e \<longleftrightarrow> en_transactions e = []"

definition hash_transactions :: "sha256 \<Rightarrow> ('tx \<Rightarrow> bytes list) \<Rightarrow> 'tx list \<Rightarrow> b256" where
  "hash_transactions F signatures transactions =
     (case get_root (merkle_new F (concat (map signatures transactions))) of Some root \<Rightarrow> root | None \<Rightarrow> zero_hash)"

definition next_hash :: "sha256 \<Rightarrow> ('tx \<Rightarrow> bytes list) \<Rightarrow> b256 \<Rightarrow> u64 \<Rightarrow> 'tx list \<Rightarrow> (b256, 'e) res" where
  "next_hash F signatures start_hash num_hashes transactions =
     (if num_hashes = 0 \<and> transactions = [] then Ok start_hash
      else
        rthen (poh_new start_hash None) (\<lambda>p.
        case poh_advance F (if num_hashes = 0 then 0 else num_hashes - 1) p of
          (Ok _, p) \<Rightarrow>
            (case fst (if transactions = [] then poh_tick F p else poh_record F (hash_transactions F signatures transactions) p) of
               Some h \<Rightarrow> Ok h
             | None \<Rightarrow> Panic)
        | (Err e, p) \<Rightarrow> Err e
        | (Panic, p) \<Rightarrow> Panic))"

definition new_entry :: "sha256 \<Rightarrow> ('tx \<Rightarrow> bytes list) \<Rightarrow> b256 \<Rightarrow> u64 \<Rightarrow> 'tx list \<Rightarrow> ('tx entry, 'e) res" where
  "new_entry F signatures prev_hash num_hashes transactions =
     (let num_hashes = (if num_hashes = 0 \<and> transactions \<noteq> [] then 1 else num_hashes) in
      rthen (next_hash F signatures prev_hash num_hashes transactions) (\<lambda>hash.
      Ok \<lparr>en_num_hashes = num_hashes, en_hash = hash, en_transactions = transactions\<rparr>))"

text \<open>A batch without transactions is no entry. \<open>last_hash\<close> is the queue's, asked for by the first entry.\<close>

fun data_entries :: "sha256 \<Rightarrow> ('tx \<Rightarrow> bytes list) \<Rightarrow> u64 \<Rightarrow> (b256, 'e) res \<Rightarrow> 'tx raw_block \<Rightarrow> ('tx entry list, 'e) res" where
  "data_entries F signatures hashes_per_tick start_hash [] = Ok []"
| "data_entries F signatures hashes_per_tick start_hash (executed_txs # batch_txs) =
     (if executed_txs = [] then data_entries F signatures hashes_per_tick start_hash batch_txs
      else
        rthen start_hash (\<lambda>h.
        rthen (new_entry F signatures h hashes_per_tick executed_txs) (\<lambda>entry.
        rthen (data_entries F signatures hashes_per_tick (Ok (en_hash entry)) batch_txs) (\<lambda>entries. Ok (entry # entries)))))"

primrec add_ticks :: "sha256 \<Rightarrow> ('tx \<Rightarrow> bytes list) \<Rightarrow> u64 \<Rightarrow> nat \<Rightarrow> b256 \<Rightarrow> ('tx entry list, 'e) res" where
  "add_ticks F signatures hashes_per_tick 0 start_hash = Ok []"
| "add_ticks F signatures hashes_per_tick (Suc tick_count) start_hash =
     rthen (new_entry F signatures start_hash hashes_per_tick []) (\<lambda>entry.
     rthen (add_ticks F signatures hashes_per_tick tick_count (en_hash entry)) (\<lambda>entries. Ok (entry # entries)))"

datatype svm_error =
    SvmInvalidSysvarClock | SvmInstruction string | SvmBincode string | SvmLamports | SvmInsufficientLamports
  | SvmMissingAccount pubkey | SvmNoEntries | SvmNoBlockhash

definition complete_entries ::
  "sha256 \<Rightarrow> ('tx \<Rightarrow> bytes list) \<Rightarrow> u64 \<Rightarrow> u64 \<Rightarrow> 'tx entry list \<Rightarrow> ('tx entry list, svm_error) res" where
  "complete_entries F signatures ticks_per_slot hashes_per_tick entries =
     (if entries = [] then Err SvmNoEntries
      else
        let tick_count = unat ticks_per_slot - length (filter is_tick entries) in
        rthen (add_ticks F signatures hashes_per_tick tick_count (en_hash (last entries))) (\<lambda>ticks. Ok (entries @ ticks)))"

text \<open>The entry that is the last tick of the slot.\<close>

fun slot_tick :: "u64 \<Rightarrow> u64 \<Rightarrow> 'tx entry list \<Rightarrow> b256 option" where
  "slot_tick ticks_per_slot n [] = None"
| "slot_tick ticks_per_slot n (entry # entries) =
     (if is_tick entry then (if n + 1 = ticks_per_slot then Some (en_hash entry) else slot_tick ticks_per_slot (n + 1) entries)
      else slot_tick ticks_per_slot n entries)"

section \<open>Recent blockhashes\<close>

record hash_info =
  hi_lamports_per_signature :: u64
  hi_hash_index :: u64
  hi_timestamp :: u64

record blockhash_queue =
  bh_last_hash_index :: u64
  bh_last_hash :: "b256 option"
  bh_hashes :: "(b256, hash_info) hmap"
  bh_max_age :: u64

definition blockhash_queue_new :: "u64 \<Rightarrow> blockhash_queue" where
  "blockhash_queue_new max_age = \<lparr>bh_last_hash_index = 0, bh_last_hash = None, bh_hashes = [], bh_max_age = max_age\<rparr>"

definition last_hash :: "blockhash_queue \<Rightarrow> (b256, 'e) res" where
  "last_hash q = (case bh_last_hash q of Some h \<Rightarrow> Ok h | None \<Rightarrow> Panic)"

definition get_lamports_per_signature :: "b256 \<Rightarrow> blockhash_queue \<Rightarrow> u64 option" where
  "get_lamports_per_signature hash q = map_option hi_lamports_per_signature (map_of (bh_hashes q) hash)"

definition is_hash_index_valid :: "u64 \<Rightarrow> u64 \<Rightarrow> u64 \<Rightarrow> bool" where
  "is_hash_index_valid last_hash_index max_age hash_index \<longleftrightarrow> last_hash_index - hash_index \<le> max_age"

definition get_hash_info_if_valid :: "b256 \<Rightarrow> u64 \<Rightarrow> blockhash_queue \<Rightarrow> hash_info option" where
  "get_hash_info_if_valid hash max_age q =
     (case map_of (bh_hashes q) hash of
        Some info \<Rightarrow> if is_hash_index_valid (bh_last_hash_index q) max_age (hi_hash_index info) then Some info else None
      | None \<Rightarrow> None)"

definition is_hash_valid_for_age :: "b256 \<Rightarrow> u64 \<Rightarrow> blockhash_queue \<Rightarrow> bool" where
  "is_hash_valid_for_age hash max_age q \<longleftrightarrow> get_hash_info_if_valid hash max_age q \<noteq> None"

definition get_hash_age :: "b256 \<Rightarrow> blockhash_queue \<Rightarrow> u64 option" where
  "get_hash_age hash q = map_option (\<lambda>info. bh_last_hash_index q - hi_hash_index info) (map_of (bh_hashes q) hash)"

definition register_hash :: "b256 \<Rightarrow> u64 \<Rightarrow> blockhash_queue \<Rightarrow> blockhash_queue" where
  "register_hash hash lamports_per_signature q =
     (let index = bh_last_hash_index q + 1;
          hashes = (if bh_max_age q \<le> of_nat (length (bh_hashes q))
                    then filter (\<lambda>(_, info). is_hash_index_valid index (bh_max_age q) (hi_hash_index info)) (bh_hashes q)
                    else bh_hashes q) in
      q\<lparr>bh_last_hash_index := index,
        bh_hashes := AList.update hash \<lparr>hi_lamports_per_signature = lamports_per_signature, hi_hash_index = index, hi_timestamp = 0\<rparr> hashes,
        bh_last_hash := Some hash\<rparr>)"

definition get_recent_blockhashes :: "blockhash_queue \<Rightarrow> (u64 \<times> b256 \<times> u64) list" where
  "get_recent_blockhashes q = map (\<lambda>(k, v). (hi_hash_index v, k, hi_lamports_per_signature v)) (bh_hashes q)"

text \<open>The newest \<open>max_entries\<close> hashes, newest first, as the account of recent blockhashes lists them.\<close>

definition recent_entries :: "nat \<Rightarrow> blockhash_queue \<Rightarrow> (b256 \<times> u64) list" where
  "recent_entries max_entries q = map snd (take max_entries (rev (sort_key fst (get_recent_blockhashes q))))"

text \<open>The queue of a new block, out of that account; \<open>max_age\<close> is the SDK's number of recent blockhashes.\<close>

definition queue_of_entries :: "u64 \<Rightarrow> (b256 \<times> u64) list \<Rightarrow> blockhash_queue" where
  "queue_of_entries max_age es =
     (let len = of_nat (length es) in
      \<lparr>bh_last_hash_index = len,
       bh_last_hash = (case es of [] \<Rightarrow> None | e # _ \<Rightarrow> Some (fst e)),
       bh_hashes = fold (\<lambda>(index, (h, l)). AList.update h \<lparr>hi_lamports_per_signature = l, hi_hash_index = len - of_nat index, hi_timestamp = 0\<rparr>)
                     (enumerate 0 es) [],
       bh_max_age = max_age\<rparr>)"

section \<open>Leaders\<close>

type_synonym leader_schedule = "(u64 \<times> pubkey) list"

fun unique_by_slot :: "u64 set \<Rightarrow> (u64 \<times> pubkey) list \<Rightarrow> (u64 \<times> pubkey) list" where
  "unique_by_slot seen [] = []"
| "unique_by_slot seen ((slot, k) # xs) =
     (if slot \<in> seen then unique_by_slot seen xs else (slot, k) # unique_by_slot (insert slot seen) xs)"

definition leader_schedule_new :: "(u64 \<times> pubkey) list \<Rightarrow> leader_schedule" where
  "leader_schedule_new leaders = sort_key fst (unique_by_slot {} leaders)"

text \<open>In a sorted list without duplicates the search finds the slot, or where it would be.\<close>

definition leader_at_slot :: "u64 \<Rightarrow> leader_schedule \<Rightarrow> pubkey option" where
  "leader_at_slot slot leaders =
     (case map_of leaders slot of
        Some k \<Rightarrow> Some k
      | None \<Rightarrow> (let i = length (filter (\<lambda>(s, _). s < slot) leaders) in if i = 0 then None else Some (snd (leaders ! (i - 1)))))"

section \<open>Batches of a block\<close>

lemma from_tx_batch_simps [simp]:
  "from_tx_batch [] = []"
  "from_tx_batch (tx # txs) = Head (of_nat (Suc (length txs))) tx # map Body txs"
proof -
  have "map (\<lambda>(index, tx). if index = 0 then Head n tx else Body tx) (enumerate (Suc k) txs) = map Body txs" for k and n :: u64
    by (induction txs arbitrary: k) simp_all
  then show "from_tx_batch (tx # txs) = Head (of_nat (Suc (length txs))) tx # map Body txs"
    by (simp add: from_tx_batch_def Let_def)
qed (simp add: from_tx_batch_def)

lemma split_batches_body: "split_batches acc cur (map Body txs @ rest) = split_batches acc (cur @ txs) rest"
  by (induction txs arbitrary: cur) simp_all

lemma split_batches_l2:
  "split_batches acc cur (l2_of_raw bs) = acc @ (if cur = [] then [] else [cur]) @ filter (\<lambda>b. b \<noteq> []) bs"
proof (induction bs arbitrary: acc cur)
  case (Cons b bs)
  then show ?case by (cases b) (simp_all add: l2_of_raw_def split_batches_body)
qed (simp add: l2_of_raw_def)

section \<open>The root of a tree\<close>

text \<open>The tree as a recursion on its levels.\<close>

fun pair_up :: "sha256 \<Rightarrow> b256 list \<Rightarrow> b256 list" where
  "pair_up F (x # y # zs) = hash_intermediate F x y # pair_up F zs"
| "pair_up F [x] = [hash_intermediate F x x]"
| "pair_up F [] = []"

lemma length_pair_up [simp]: "length (pair_up F xs) = (length xs + 1) div 2"
  by (induction F xs rule: pair_up.induct) simp_all

function merkle_root :: "sha256 \<Rightarrow> b256 list \<Rightarrow> b256" where
  "merkle_root F xs = (if length xs \<le> 1 then hd xs else merkle_root F (pair_up F xs))"
  by pat_completeness auto
termination
  by (relation "measure (\<lambda>(_, xs). length xs)") auto

declare merkle_root.simps [simp del]

lemma nth_pair_up:
  "i < (length xs + 1) div 2 \<Longrightarrow>
     pair_up F xs ! i = hash_intermediate F (xs ! (2 * i)) (if 2 * i + 1 < length xs then xs ! (2 * i + 1) else xs ! (2 * i))"
proof (induction F xs arbitrary: i rule: pair_up.induct)
  case (1 F x y zs)
  then show ?case by (cases i) auto
qed auto

lemma merkle_levels_root:
  assumes "prev \<noteq> []"
  shows "\<exists>ns. merkle_levels F (pre @ prev) (length pre) (length prev) (length pre + length prev) (next_level_len (length prev)) = ns @ [merkle_root F prev]"
  using assms
proof (induction "length prev" arbitrary: pre prev rule: less_induct)
  case less
  show ?case
  proof (cases "length prev = 1")
    case True
    then have "prev = [merkle_root F prev]" by (cases prev) (auto simp: merkle_root.simps)
    with True show ?thesis by (subst merkle_levels.simps) (auto simp: next_level_len_def)
  next
    case False
    then have l: "length prev > 1" using less.prems by (cases prev) auto
    let ?n = "next_level_len (length prev)"
    have n: "?n = length (pair_up F prev)" "?n \<noteq> 0" "length (pair_up F prev) < length prev" "pair_up F prev \<noteq> []"
      using l by (auto simp: next_level_len_def simp flip: length_greater_0_conv)
    have "map (\<lambda>i. let prev_level_idx = 2 * i; lsib = (pre @ prev) ! (length pre + prev_level_idx);
          rsib = (if prev_level_idx + 1 < length prev then (pre @ prev) ! (length pre + prev_level_idx + 1) else lsib)
        in hash_intermediate F lsib rsib) [0..<?n] = pair_up F prev"
      using n(1) by (intro list_eq_iff_nth_eq [THEN iffD2]) (simp add: Let_def nth_pair_up nth_append)
    then have "merkle_levels F (pre @ prev) (length pre) (length prev) (length pre + length prev) ?n =
        merkle_levels F ((pre @ prev) @ pair_up F prev) (length (pre @ prev)) (length (pair_up F prev))
          (length (pre @ prev) + length (pair_up F prev)) (next_level_len (length (pair_up F prev)))"
      using n(1,2) by (subst merkle_levels.simps) (simp add: Let_def)
    moreover have "merkle_root F prev = merkle_root F (pair_up F prev)" using l by (subst merkle_root.simps) simp
    ultimately show ?thesis using less.hyps [OF n(3,4), of "pre @ prev"] by simp
  qed
qed

lemma get_root_new: "get_root (merkle_new F items) = (if items = [] then None else Some (merkle_root F (map (hash_leaf F) items)))"
proof (cases "items = []")
  case True
  then show ?thesis by (simp add: merkle_new_def get_root_def merkle_levels.simps next_level_len_def)
next
  case False
  then obtain ns where "merkle_new F items = ns @ [merkle_root F (map (hash_leaf F) items)]"
    using merkle_levels_root [of "map (hash_leaf F) items" F "[]"] by (auto simp: merkle_new_def)
  with False show ?thesis by (simp add: get_root_def)
qed

section \<open>The blockhash\<close>

lemma u64_max: "(0 :: u64) < - 1" "(1 :: u64) < - 1" "(1 :: u64) \<noteq> - 1"
  by (simp_all flip: word_order.not_eq_extremum)

lemma poh_new_None: "poh_new h None = Ok \<lparr>poh_hash = h, poh_num_hashes = 0, poh_hashes_per_tick = - 1, poh_remaining_hashes = - 1, poh_tick_number = 0\<rparr>"
  by (simp add: poh_new_def poh_new_with_slot_info_def LOW_POWER_MODE_def Let_def u64_max)

text \<open>An entry with one hash mixes the root of its transactions into the hash before it.\<close>

lemma new_entry_txs:
  assumes "txs \<noteq> []"
  shows "new_entry F sigs h 0 txs = Ok \<lparr>en_num_hashes = 1, en_hash = hf_hashv F [h, hash_transactions F sigs txs], en_transactions = txs\<rparr>"
  using assms by (simp add: new_entry_def next_hash_def poh_new_None poh_advance_def poh_record_def Let_def u64_max)

lemma new_entry_tick: "new_entry F sigs h 0 [] = Ok \<lparr>en_num_hashes = 0, en_hash = h, en_transactions = []\<rparr>"
  by (simp add: new_entry_def next_hash_def)

lemma is_tick_make [simp]: "is_tick \<lparr>en_num_hashes = n, en_hash = h, en_transactions = txs\<rparr> \<longleftrightarrow> txs = []"
  by (simp add: is_tick_def)

definition chain_hash :: "sha256 \<Rightarrow> ('tx \<Rightarrow> bytes list) \<Rightarrow> b256 \<Rightarrow> 'tx raw_block \<Rightarrow> b256" where
  "chain_hash F sigs h bs = foldl (\<lambda>h txs. hf_hashv F [h, hash_transactions F sigs txs]) h (filter (\<lambda>b. b \<noteq> []) bs)"

lemma data_entries_chain:
  "\<exists>es. data_entries F sigs 0 (Ok h) bs = (Ok es :: ('tx entry list, 'e) res) \<and> filter is_tick es = [] \<and> length es = length (filter (\<lambda>b. b \<noteq> []) bs)
     \<and> (es \<noteq> [] \<longrightarrow> en_hash (last es) = chain_hash F sigs h bs)"
proof (induction bs arbitrary: h)
  case (Cons b bs)
  show ?case
  proof (cases "b = []")
    case True
    with Cons [of h] show ?thesis by (simp add: chain_hash_def)
  next
    case False
    let ?h = "hf_hashv F [h, hash_transactions F sigs b]"
    obtain es where "data_entries F sigs 0 (Ok ?h) bs = (Ok es :: ('tx entry list, 'e) res)" "filter is_tick es = []" "length es = length (filter (\<lambda>b. b \<noteq> []) bs)"
        "es \<noteq> [] \<longrightarrow> en_hash (last es) = chain_hash F sigs ?h bs"
      using Cons [of ?h] by blast
    with False show ?thesis by (auto simp: new_entry_txs chain_hash_def)
  qed
qed (simp add: chain_hash_def)

lemma add_ticks_same: "\<exists>es. add_ticks F sigs 0 n h = Ok es \<and> length es = n \<and> (\<forall>e \<in> set es. is_tick e \<and> en_hash e = h)"
  by (induction n) (auto simp: new_entry_tick)

lemma slot_tick_data: "filter is_tick es = [] \<Longrightarrow> slot_tick t n (es @ ticks) = slot_tick t n ticks"
  by (induction es) (auto split: if_splits)

lemma slot_tick_ticks:
  assumes "\<And>e. e \<in> set es \<Longrightarrow> is_tick e \<and> en_hash e = h" and "length es = unat t - k" and "k < unat t"
  shows "slot_tick t (of_nat k) es = Some h"
  using assms
proof (induction es arbitrary: k)
  case (Cons e es)
  have "of_nat k + 1 = (of_nat (Suc k) :: u64)" by simp
  moreover have "of_nat (Suc k) = t \<longleftrightarrow> Suc k = unat t"
    using Cons.prems(3) unsigned_less [of t, where ?'a = nat] by (auto simp: unat_of_nat simp del: of_nat_Suc)
  ultimately show ?case using Cons.IH [of "Suc k"] Cons.prems by (auto simp del: of_nat_Suc)
qed simp

lemma block_hash:
  assumes "\<exists>b \<in> set bs. b \<noteq> []" and "t > 0"
  shows "\<exists>es es'. data_entries F sigs 0 (Ok h) bs = (Ok es :: ('tx entry list, svm_error) res) \<and> complete_entries F sigs t 0 es = Ok es' \<and> slot_tick t 0 es' = Some (chain_hash F sigs h bs)"
proof -
  obtain es where es: "data_entries F sigs 0 (Ok h) bs = (Ok es :: ('tx entry list, svm_error) res)" "filter is_tick es = []" "length es = length (filter (\<lambda>b. b \<noteq> []) bs)"
      "es \<noteq> [] \<longrightarrow> en_hash (last es) = chain_hash F sigs h bs"
    using data_entries_chain by blast
  with assms(1) have ne: "es \<noteq> []" by (auto simp: filter_empty_conv)
  obtain ticks where ticks: "add_ticks F sigs 0 (unat t) (en_hash (last es)) = (Ok ticks :: ('tx entry list, svm_error) res)" "length ticks = unat t"
      "\<forall>e \<in> set ticks. is_tick e \<and> en_hash e = en_hash (last es)"
    using add_ticks_same by blast
  have "slot_tick t (of_nat 0) ticks = Some (en_hash (last es))"
    by (rule slot_tick_ticks) (use ticks assms(2) in \<open>auto simp: word_less_nat_alt\<close>)
  with es ne ticks have "complete_entries F sigs t 0 es = Ok (es @ ticks)" "slot_tick t 0 (es @ ticks) = Some (chain_hash F sigs h bs)"
    by (simp_all add: complete_entries_def slot_tick_data)
  with es(1) show ?thesis by blast
qed

section \<open>The queue as a list\<close>

text \<open>A queue holds the hashes \<open>es\<close>, newest first, after \<open>n\<close> registrations.\<close>

definition nth_info :: "nat \<Rightarrow> (b256 \<times> u64) list \<Rightarrow> nat \<Rightarrow> b256 \<times> hash_info" where
  "nth_info n es i = (fst (es ! i), \<lparr>hi_lamports_per_signature = snd (es ! i), hi_hash_index = of_nat (n - i), hi_timestamp = 0\<rparr>)"

definition queue_holds :: "blockhash_queue \<Rightarrow> (b256 \<times> u64) list \<Rightarrow> nat \<Rightarrow> bool" where
  "queue_holds q es n \<longleftrightarrow>
     hm_invar (bh_hashes q) \<and> distinct (map fst es) \<and> length es \<le> n \<and> n < 2 ^ 64 \<and> bh_last_hash_index q = of_nat n
   \<and> bh_last_hash q = (case es of [] \<Rightarrow> None | e # _ \<Rightarrow> Some (fst e)) \<and> set (bh_hashes q) = nth_info n es ` {..<length es}"

lemma queue_holdsD:
  assumes "queue_holds q es n"
  shows "hm_invar (bh_hashes q)" "distinct (map fst es)" "length es \<le> n" "n < 2 ^ 64" "bh_last_hash_index q = of_nat n"
    "set (bh_hashes q) = nth_info n es ` {..<length es}"
  using assms by (simp_all add: queue_holds_def)

lemma inj_nth_info: "distinct (map fst es) \<Longrightarrow> inj_on (nth_info n es) {..<length es}"
  by (auto simp: inj_on_def nth_info_def distinct_conv_nth)

lemma queue_length:
  assumes "queue_holds q es n"
  shows "length (bh_hashes q) = length es"
proof -
  have "length (bh_hashes q) = card (set (bh_hashes q))"
    using queue_holdsD(1) [OF assms] distinct_card [of "bh_hashes q"] by (simp add: hm_invar_def distinct_map)
  also have "\<dots> = length es"
    using inj_nth_info [OF queue_holdsD(2) [OF assms]] by (simp add: queue_holdsD(6) [OF assms] card_image)
  finally show ?thesis .
qed

lemma age_of: "\<lbrakk> i \<le> n; n < 2 ^ 64 \<rbrakk> \<Longrightarrow> (of_nat n - of_nat (n - i) :: u64) = of_nat i \<and> unat (of_nat i :: u64) = i"
  by (simp add: of_nat_diff unat_of_nat)

lemma queue_lookup:
  assumes "queue_holds q es n"
  shows "i < length es \<Longrightarrow> map_of (bh_hashes q) (fst (es ! i)) = Some (snd (nth_info n es i))"
    and "h \<notin> fst ` set es \<Longrightarrow> map_of (bh_hashes q) h = None"
proof -
  show "map_of (bh_hashes q) (fst (es ! i)) = Some (snd (nth_info n es i))" if "i < length es"
    using that hm_in_set_iff [OF queue_holdsD(1) [OF assms]] queue_holdsD(6) [OF assms] by (auto simp: nth_info_def)
  show "map_of (bh_hashes q) h = None" if "h \<notin> fst ` set es"
  proof -
    have "fst ` set (bh_hashes q) = (\<lambda>i. fst (es ! i)) ` {..<length es}"
      by (simp add: queue_holdsD(6) [OF assms] image_image nth_info_def)
    also have "\<dots> = fst ` set es" by (force simp: in_set_conv_nth image_iff)
    finally have "fst ` set (bh_hashes q) = fst ` set es" .
    with that show ?thesis by (simp add: map_of_eq_None_iff)
  qed
qed

lemma valid_for_age:
  assumes "queue_holds q es n"
  shows "i < length es \<Longrightarrow> is_hash_valid_for_age (fst (es ! i)) a q \<longleftrightarrow> i \<le> unat a"
    and "h \<notin> fst ` set es \<Longrightarrow> \<not> is_hash_valid_for_age h a q"
proof -
  show "is_hash_valid_for_age (fst (es ! i)) a q \<longleftrightarrow> i \<le> unat a" if "i < length es"
    using that age_of [of i n] queue_holdsD [OF assms] queue_lookup(1) [OF assms that]
    by (simp add: is_hash_valid_for_age_def get_hash_info_if_valid_def is_hash_index_valid_def nth_info_def word_le_nat_alt)
  show "h \<notin> fst ` set es \<Longrightarrow> \<not> is_hash_valid_for_age h a q"
    using queue_lookup(2) [OF assms] by (simp add: is_hash_valid_for_age_def get_hash_info_if_valid_def)
qed

lemma register_holds:
  assumes q: "queue_holds q es n" and "h \<notin> fst ` set es" and "Suc n < 2 ^ 64"
  shows "queue_holds (register_hash h l q) ((h, l) # take (unat (bh_max_age q)) es) (Suc n)"
proof -
  let ?m = "unat (bh_max_age q)" and ?es = "(h, l) # take (unat (bh_max_age q)) es"
  let ?keep = "\<lambda>(_ :: b256, info). is_hash_index_valid (of_nat (Suc n)) (bh_max_age q) (hi_hash_index info)"
  define kept where "kept = (if bh_max_age q \<le> of_nat (length (bh_hashes q)) then filter ?keep (bh_hashes q) else bh_hashes q)"
  note d = queue_holdsD [OF q]
  have keep: "?keep (nth_info n es i) \<longleftrightarrow> i < ?m" if "i < length es" for i
    using that d(3) age_of [of "Suc i" "Suc n"] assms(3)
    by (simp add: is_hash_index_valid_def nth_info_def word_le_nat_alt Suc_le_eq del: of_nat_Suc)
  have "unat (of_nat (length es) :: u64) = length es" using d(3,4) by (simp add: unat_of_nat)
  then have c: "bh_max_age q \<le> of_nat (length (bh_hashes q)) \<longleftrightarrow> ?m \<le> length es"
    by (simp add: queue_length [OF q] word_le_nat_alt)
  have "{p \<in> nth_info n es ` {..<length es}. ?keep p} = nth_info n es ` {i. i < length es \<and> ?keep (nth_info n es i)}" by auto
  also have "{i. i < length es \<and> ?keep (nth_info n es i)} = {i. i < length es \<and> i < ?m}" by (intro Collect_cong conj_cong refl keep)
  also have "\<dots> = {..<length (take ?m es)}" by auto
  finally have "set kept = nth_info n es ` {..<length (take ?m es)}"
    unfolding kept_def c by (simp add: d(6))
  moreover have "nth_info (Suc n) ?es (Suc i) = nth_info n es i" if "i < length (take ?m es)" for i
    using that by (simp add: nth_info_def)
  moreover have "{..<length ?es} = insert 0 (Suc ` {..<length (take ?m es)})" by (simp add: lessThan_Suc_eq_insert_0)
  ultimately have s: "insert (nth_info (Suc n) ?es 0) (set kept) = nth_info (Suc n) ?es ` {..<length ?es}"
    by (simp only: image_insert image_image) (metis (no_types, lifting) image_cong lessThan_iff)
  have fresh: "map_of kept h = None"
    using queue_lookup(2) [OF q assms(2)] by (auto simp: kept_def map_of_eq_None_iff)
  have inv: "hm_invar kept" using d(1) by (simp add: kept_def hm_invar_filter)
  have r: "register_hash h l q = q\<lparr>bh_last_hash_index := of_nat (Suc n), bh_hashes := AList.update h (snd (nth_info (Suc n) ?es 0)) kept, bh_last_hash := Some h\<rparr>"
    by (simp add: register_hash_def Let_def kept_def d(5) nth_info_def add.commute)
  have "set (AList.update h (snd (nth_info (Suc n) ?es 0)) kept) = nth_info (Suc n) ?es ` {..<length ?es}"
    using s by (simp add: update_fresh [OF fresh] nth_info_def)
  moreover have "distinct (map fst ?es)" using d(2) assms(2) by (auto simp: distinct_take simp flip: take_map dest: in_set_takeD)
  moreover have "hm_invar (AList.update h (snd (nth_info (Suc n) ?es 0)) kept)" using inv by (simp add: hm_invar_def distinct_update)
  ultimately show ?thesis using d(3) assms(3) by (simp add: queue_holds_def r)
qed

lemma recent_holds:
  assumes q: "queue_holds q es n"
  shows "recent_entries m q = take m es"
proof -
  note d = queue_holdsD [OF q]
  let ?f = "\<lambda>i. (of_nat (n - i) :: u64, es ! i)"
  let ?xs = "get_recent_blockhashes q" and ?ys = "rev (map ?f [0..<length es])"
  have un: "unat (of_nat (n - i) :: u64) = n - i" for i using d(4) by (simp add: unat_of_nat)
  have idx: "i = j" if "of_nat (n - i) = (of_nat (n - j) :: u64)" "i < length es" "j < length es" for i j
  proof -
    from that(1) have "n - i = n - j" using un by metis
    with that(2,3) d(3) show ?thesis by linarith
  qed
  have inj: "inj_on fst (?f ` {..<length es})" by (rule inj_onI, elim imageE) (auto dest: idx simp del: of_nat_diff)
  have set: "set ?xs = ?f ` {..<length es}"
    by (auto simp: get_recent_blockhashes_def d(6) image_image nth_info_def)
  have "inj_on ?f {0..<length es}" by (rule inj_onI) (auto dest: idx simp del: of_nat_diff)
  then have "distinct ?ys" by (simp add: distinct_map)
  moreover have "distinct ?xs"
    using d(1) by (auto simp: get_recent_blockhashes_def hm_invar_def distinct_map inj_on_def) (metis fst_conv prod.inject)
  moreover have "set ?xs = set ?ys" using set by (auto simp: image_def)
  ultimately have "mset ?xs = mset ?ys" by (simp only: set_eq_iff_mset_eq_distinct [symmetric])
  moreover have "sorted_wrt (\<lambda>x y. n - y \<le> n - x) [0..<length es]"
    by (rule sorted_wrt_mono_rel [OF _ sorted_wrt_upt]) auto
  then have "sorted (map fst ?ys)" by (simp add: sorted_wrt_rev sorted_wrt_map rev_map [symmetric] o_def word_le_nat_alt un)
  ultimately have "sort_key fst ?xs = ?ys" using inj set by (intro sort_key_inj_key_eq) simp_all
  then show ?thesis by (simp add: recent_entries_def take_map o_def) (simp add: map_nth flip: take_map)
qed

lemma fold_update_fresh:
  assumes "distinct (map fst es)" and "fst ` set es \<inter> fst ` set m = {}"
  shows "fold (\<lambda>(index, (h, l)). AList.update h (g index l)) (enumerate k es) m = m @ map (\<lambda>(index, (h, l)). (h, g index l)) (enumerate k es)"
  using assms
proof (induction es arbitrary: k m)
  case (Cons e es)
  obtain h l where e: "e = (h, l)" by (cases e)
  with Cons.prems have "map_of m h = None" by (auto simp: map_of_eq_None_iff)
  with Cons e show ?case by (auto simp: update_fresh)
qed simp

lemma restored_holds:
  assumes "distinct (map fst es)" and "length es < 2 ^ 64"
  shows "queue_holds (queue_of_entries max_age es) es (length es)"
proof -
  let ?g = "\<lambda>index l. \<lparr>hi_lamports_per_signature = l, hi_hash_index = of_nat (length es) - of_nat index, hi_timestamp = 0\<rparr>"
  have f: "bh_hashes (queue_of_entries max_age es) = map (\<lambda>(index, (h, l)). (h, ?g index l)) (enumerate 0 es)"
    using fold_update_fresh [OF assms(1), of "[]" ?g 0] by (simp add: queue_of_entries_def Let_def)
  have "nth_info (length es) es i = (\<lambda>(index, (h, l)). (h, ?g index l)) (i, es ! i)" if "i < length es" for i
    using that by (cases "es ! i") (simp add: nth_info_def of_nat_diff)
  moreover have "set (enumerate 0 es) = (\<lambda>i. (i, es ! i)) ` {..<length es}"
    by (auto simp: enumerate_eq_zip set_zip image_iff) (metis add_0 nth_upt)
  ultimately have "set (map (\<lambda>(index, (h, l)). (h, ?g index l)) (enumerate 0 es)) = nth_info (length es) es ` {..<length es}"
    by (simp add: image_image)
  moreover have "map fst (map (\<lambda>(index, (h, l)). (h, ?g index l)) (enumerate 0 es)) = map fst es"
    by (intro nth_equalityI) (auto simp: nth_enumerate_eq split: prod.split)
  ultimately show ?thesis using assms unfolding queue_holds_def f hm_invar_def
    by (simp add: queue_of_entries_def Let_def split: list.split)
qed

section \<open>The leader of a slot\<close>

lemma unique_by_slot_keys: "fst ` set (unique_by_slot seen xs) \<inter> seen = {} \<and> distinct (map fst (unique_by_slot seen xs))"
  by (induction seen xs rule: unique_by_slot.induct) (auto 0 3)

lemma map_of_unique_by_slot: "slot \<notin> seen \<Longrightarrow> map_of (unique_by_slot seen xs) slot = map_of xs slot"
  by (induction seen xs rule: unique_by_slot.induct) auto

lemma sorted_below:
  fixes xs :: "(u64 \<times> 'b) list"
  assumes "sorted (map fst xs)" and "i < length xs"
  shows "i < length (filter (\<lambda>(s, _). s < slot) xs) \<longleftrightarrow> fst (xs ! i) < slot"
  using assms
proof (induction xs arbitrary: i)
  case (Cons x xs)
  show ?case
  proof (cases "fst x < slot")
    case True
    with Cons show ?thesis by (cases i) (auto simp: case_prod_beta)
  next
    case False
    with Cons.prems have all: "\<not> fst y < slot" if "y \<in> set (x # xs)" for y using that by auto
    then have "filter (\<lambda>p. fst p < slot) (x # xs) = []" by (simp only: filter_empty_conv) blast
    moreover have "\<not> fst ((x # xs) ! i) < slot" using all Cons.prems(2) nth_mem by blast
    ultimately show ?thesis by (simp only: case_prod_beta) simp
  qed
qed simp

text \<open>The leader is that of the greatest slot of the schedule that is not after the given one.\<close>

definition leads_at :: "u64 \<Rightarrow> (u64 \<times> pubkey) list \<Rightarrow> pubkey \<Rightarrow> bool" where
  "leads_at slot xs k \<longleftrightarrow> (\<exists>s. (s, k) \<in> set xs \<and> s \<le> slot \<and> (\<forall>s' k'. (s', k') \<in> set xs \<and> s' \<le> slot \<longrightarrow> s' \<le> s))"

lemma leads_at_unique: "\<lbrakk> distinct (map fst xs); leads_at slot xs k; leads_at slot xs k' \<rbrakk> \<Longrightarrow> k = k'"
proof -
  assume d: "distinct (map fst xs)" and "leads_at slot xs k" "leads_at slot xs k'"
  then obtain s s' where s: "(s, k) \<in> set xs" "(s', k') \<in> set xs" "s \<le> s'" "s' \<le> s" unfolding leads_at_def by blast
  from s(3,4) have "s = s'" by simp
  with d s(1,2) show "k = k'" by (simp add: eq_key_imp_eq_value)
qed

lemma leader_of_schedule:
  assumes "sorted (map fst xs)" and "distinct (map fst xs)"
  shows "(\<forall>k. leader_at_slot slot xs = Some k \<longleftrightarrow> leads_at slot xs k)"
proof (cases "map_of xs slot")
  case (Some k)
  then have "leads_at slot xs k" by (auto simp: leads_at_def dest: map_of_SomeD)
  with Some leads_at_unique [OF assms(2)] show ?thesis by (auto simp: leader_at_slot_def)
next
  case None
  let ?i = "length (filter (\<lambda>(s, _). s < slot) xs)"
  have le: "s \<le> slot \<longleftrightarrow> s < slot" if "(s, k) \<in> set xs" for s k
    using that None by (auto simp: map_of_eq_None_iff order.order_iff_strict image_iff)
  have i: "?i \<le> length xs" by simp
  show ?thesis
  proof (cases "?i = 0")
    case True
    then have "\<not> s < slot" if "(s, k) \<in> set xs" for s k using that by (auto simp: filter_empty_conv)
    with le True None show ?thesis by (auto simp: leader_at_slot_def leads_at_def)
  next
    case False
    then have l: "?i - 1 < length xs" using i by linarith
    obtain s k where sk: "xs ! (?i - 1) = (s, k)" by (cases "xs ! (?i - 1)")
    have "s < slot" using sorted_below [OF assms(1) l, of slot] False sk by simp
    moreover have "s' \<le> s" if m: "(s', k') \<in> set xs" "s' \<le> slot" for s' k'
    proof -
      obtain j where j: "j < length xs" "xs ! j = (s', k')" using m(1) by (auto simp: in_set_conv_nth)
      with sorted_below [OF assms(1) j(1), of slot] le [OF m(1)] m(2) have "j \<le> ?i - 1" by simp
      with sorted_nth_mono [OF assms(1), of j "?i - 1"] l j sk show ?thesis by simp
    qed
    moreover have "(s, k) \<in> set xs" using nth_mem [OF l] sk by simp
    ultimately have "leads_at slot xs k" by (auto simp: leads_at_def)
    moreover have "leader_at_slot slot xs = Some k" using None False sk by (simp add: leader_at_slot_def Let_def)
    ultimately show ?thesis using leads_at_unique [OF assms(2)] by auto
  qed
qed

section \<open>Properties\<close>

text \<open>
  A block that is flattened into labelled transactions and split at the labels again has the
  same batches, less the empty ones.
\<close>

theorem raw_block_roundtrip: "raw_of_l2 (l2_of_raw bs) = filter (\<lambda>b. b \<noteq> []) bs"
  by (simp add: raw_of_l2_def split_batches_l2)

text \<open>
  The vector of a Merkle tree ends in the root of the tree over the leaves, where the last node of
  an odd level is paired with itself.
\<close>

theorem merkle_vector_has_root:
  "get_root (merkle_new F items) = (if items = [] then None else Some (merkle_root F (map (hash_leaf F) items)))"
  by (rule get_root_new)

text \<open>
  The blockhash of a block with ticks that hash nothing is the hash before it with the roots of
  the batches mixed in, batch by batch; it does not depend on the number of ticks.
\<close>

theorem blockhash_chains_batches:
  assumes "b \<in> set bs" and "b \<noteq> []" and "t > 0"
  shows "\<exists>es es'. data_entries F sigs 0 (Ok h) bs = (Ok es :: ('tx entry list, svm_error) res)
    \<and> complete_entries F sigs t 0 es = Ok es' \<and> slot_tick t 0 es' = Some (chain_hash F sigs h bs)"
  using block_hash assms by blast

text \<open>
  Registering blockhashes keeps a window: the queue holds the newest hashes, one more than its
  maximal age, and a hash is valid for an age exactly when no more hashes than that were registered
  after it.
\<close>

theorem blockhash_queue_is_window:
  assumes "queue_holds q es n" and "h \<notin> fst ` set es" and "Suc n < 2 ^ 64"
    and "i \<le> min (length es) (unat (bh_max_age q))"
  shows "queue_holds (register_hash h l q) ((h, l) # take (unat (bh_max_age q)) es) (Suc n)
    \<and> (is_hash_valid_for_age (fst (((h, l) # es) ! i)) a (register_hash h l q) \<longleftrightarrow> i \<le> unat a)"
proof -
  note r = register_holds [OF assms(1-3), of l]
  moreover have "((h, l) # take (unat (bh_max_age q)) es) ! i = ((h, l) # es) ! i" using assms(4) by (cases i) simp_all
  ultimately show ?thesis using valid_for_age(1) [OF r, of i a] assms(4) by simp
qed

text \<open>
  The queue that the next block restores from the account of recent blockhashes has lost the
  oldest hash a transaction may name: with \<open>m\<close> entries in the account, the hash of age \<open>m\<close> is valid
  before, and not after.
\<close>

theorem restored_queue_loses_oldest:
  assumes "queue_holds q es n" and "unat m < length es"
  shows "is_hash_valid_for_age (fst (es ! unat m)) m q
    \<and> \<not> is_hash_valid_for_age (fst (es ! unat m)) m (queue_of_entries max_age (recent_entries (unat m) q))"
proof -
  note d = queue_holdsD [OF assms(1)]
  have "distinct (map fst (take (unat m) es))" using d(2) by (simp add: distinct_take flip: take_map)
  moreover have "length (take (unat m) es) < 2 ^ 64" using d(3,4) by simp
  ultimately have r: "queue_holds (queue_of_entries max_age (recent_entries (unat m) q)) (take (unat m) es) (length (take (unat m) es))"
    by (simp only: recent_holds [OF assms(1)] restored_holds)
  have "fst (es ! unat m) \<notin> fst ` set (take (unat m) es)"
  proof
    assume "fst (es ! unat m) \<in> fst ` set (take (unat m) es)"
    then obtain j where "j < unat m" "fst (es ! unat m) = fst (es ! j)" using assms(2) by (auto simp: in_set_conv_nth)
    with d(2) assms(2) show False by (auto simp: distinct_conv_nth)
  qed
  with valid_for_age(1) [OF assms] valid_for_age(2) [OF r] show ?thesis by simp
qed

text \<open>
  The leader of a slot is the first one given for the greatest slot of the schedule that is not
  after it.
\<close>

theorem leader_is_last_scheduled:
  "leader_at_slot slot (leader_schedule_new xs) = Some k \<longleftrightarrow> leads_at slot (unique_by_slot {} xs) k"
proof -
  have "sorted (map fst (leader_schedule_new xs))" by (simp add: leader_schedule_new_def)
  moreover have "distinct (map fst (leader_schedule_new xs))"
    using unique_by_slot_keys [of "{}" xs] unfolding leader_schedule_new_def by (metis distinct_map distinct_sort set_sort)
  ultimately show ?thesis using leader_of_schedule by (simp add: leads_at_def leader_schedule_new_def)
qed

subsection \<open>Examples\<close>

definition ex_sha :: sha256 where
  "ex_sha = \<lparr>hf_hashv = (\<lambda>bs. take 32 (concat bs @ replicate 32 0))\<rparr>"

theorem blockhash_chains_batches_witness:
  "\<exists>es es'. data_entries ex_sha (\<lambda>tx. [tx]) 0 (Ok [9]) [[[1]], [], [[2], [3]]] = (Ok es :: (bytes entry list, svm_error) res)
    \<and> complete_entries ex_sha (\<lambda>tx. [tx]) 64 0 es = Ok es' \<and> slot_tick 64 0 es' = Some (chain_hash ex_sha (\<lambda>tx. [tx]) [9] [[[1]], [], [[2], [3]]])"
  by (rule blockhash_chains_batches [of "[[1]]"]) simp_all

lemma ex_queue_holds: "queue_holds (queue_of_entries 300 [([3], 5), ([2], 5), ([1], 5)]) [([3], 5), ([2], 5), ([1], 5)] (Suc (Suc (Suc 0)))"
  using restored_holds [of "[([3], 5), ([2], 5), ([1], 5)]" 300] by simp

theorem blockhash_queue_is_window_witness:
  "is_hash_valid_for_age [3] 1 (register_hash [4] 5 (queue_of_entries 300 [([3], 5), ([2], 5), ([1], 5)]))"
  using blockhash_queue_is_window [OF ex_queue_holds, of "[4]" 1 5 1] by (simp add: queue_of_entries_def Let_def)

theorem restored_queue_loses_oldest_witness:
  "\<not> is_hash_valid_for_age [1] 2 (queue_of_entries 300 (recent_entries 2 (queue_of_entries 300 [([3], 5), ([2], 5), ([1], 5)])))"
  using restored_queue_loses_oldest [OF ex_queue_holds, of 2 300] by simp

end
