(* ===== verification/Svm_Accounts.thy ===== *)
theory Svm_Accounts
  imports Svm_Block
begin

text \<open>
  The accounts of the executor (\<^verbatim>\<open>executor/svm/src/accounts_db.rs\<close>, \<^verbatim>\<open>accounts_callback.rs\<close>) and their rent
  states (\<^verbatim>\<open>utils/rent.rs\<close>): the accounts that a block changed over a callback that knows all others, the
  programs that were loaded and the cached sysvars. Addresses of the SDK, its loaders and its codecs are
  parameters.
\<close>

section \<open>Rent\<close>

record rent =
  rn_minimum_balance :: "nat \<Rightarrow> u64"
  rn_is_exempt :: "u64 \<Rightarrow> nat \<Rightarrow> bool"

datatype rent_state = Uninitialized | RentPaying u64 nat | RentExempt

definition rent_state_of :: "rent \<Rightarrow> account \<Rightarrow> rent_state" where
  "rent_state_of R a =
     (if ac_lamports a = 0 then Uninitialized
      else if rn_is_exempt R (ac_lamports a) (length (ac_data a)) then RentExempt
      else RentPaying (ac_lamports a) (length (ac_data a)))"

fun transition_allowed_from :: "rent_state \<Rightarrow> rent_state \<Rightarrow> bool" where
  "transition_allowed_from (RentPaying post_lamports post_data_size) pre =
     (case pre of
        RentPaying pre_lamports pre_data_size \<Rightarrow> post_data_size = pre_data_size \<and> post_lamports \<le> pre_lamports
      | _ \<Rightarrow> False)"
| "transition_allowed_from _ _ = True"

section \<open>The accounts database\<close>

text \<open>
  What is used of the SDK and of the loaders. \<open>lo_new_program\<close> verifies and compiles a program for a
  slot; it is given the owner, the code and the size of the accounts.
\<close>

record clock =
  ck_slot :: u64
  ck_epoch :: u64
  ck_leader_schedule_epoch :: u64
  ck_unix_timestamp :: u64
  ck_epoch_start_timestamp :: u64

record 'p loaders =
  lo_native_loader :: pubkey
  lo_bpf_loader :: pubkey
  lo_bpf_loader_deprecated :: pubkey
  lo_bpf_loader_upgradeable :: pubkey
  lo_loader_v4 :: pubkey
  lo_system_program :: pubkey
  lo_program_state :: "bytes \<Rightarrow> pubkey option"
  lo_programdata_metadata :: nat
  lo_program_data_offset :: nat
  lo_new_program :: "pubkey \<Rightarrow> u64 \<Rightarrow> bytes \<Rightarrow> nat \<Rightarrow> 'p option"
  lo_sysvars :: "pubkey list"
  lo_clock_id :: pubkey
  lo_rent_id :: pubkey
  lo_clock :: "bytes \<Rightarrow> clock option"
  lo_rent :: "bytes \<Rightarrow> (nat \<Rightarrow> u64) option"

text \<open>A failing callback is \<open>None\<close>; it answers from the state before the block, which does not change.\<close>

type_synonym accounts_callback = "pubkey \<Rightarrow> account option option"

record 'p accounts_db =
  av_callback :: "accounts_callback option"
  av_accounts_diff :: "(pubkey, account) hmap"
  av_slot :: u64
  av_epoch :: u64
  av_programs_cache :: "(pubkey, 'p) hmap"
  av_sysvar_cache :: "(pubkey, bytes) hmap"

definition accounts_db_default :: "'p accounts_db" where
  "accounts_db_default = \<lparr>av_callback = None, av_accounts_diff = [], av_slot = 0, av_epoch = 0, av_programs_cache = [], av_sysvar_cache = []\<rparr>"

definition set_callback :: "accounts_callback \<Rightarrow> 'p accounts_db \<Rightarrow> 'p accounts_db" where
  "set_callback callback db = db\<lparr>av_callback := Some callback\<rparr>"

definition set_init_accounts :: "(pubkey \<times> account) list \<Rightarrow> 'p accounts_db \<Rightarrow> 'p accounts_db" where
  "set_init_accounts init_accounts db =
     db\<lparr>av_accounts_diff := fold (\<lambda>(pubkey, account). AList.update pubkey account) init_accounts (av_accounts_diff db)\<rparr>"

definition set_slot :: "u64 \<Rightarrow> 'p accounts_db \<Rightarrow> 'p accounts_db" where
  "set_slot slot db = db\<lparr>av_slot := slot\<rparr>"

definition set_epoch :: "u64 \<Rightarrow> 'p accounts_db \<Rightarrow> 'p accounts_db" where
  "set_epoch epoch db = db\<lparr>av_epoch := epoch\<rparr>"

definition get_account :: "pubkey \<Rightarrow> 'p accounts_db \<Rightarrow> account option" where
  "get_account pubkey db =
     (case map_of (av_accounts_diff db) pubkey of
        Some account \<Rightarrow> Some account
      | None \<Rightarrow>
          (case av_callback db of
             None \<Rightarrow> None
           | Some callback \<Rightarrow> (case callback pubkey of Some a \<Rightarrow> a | None \<Rightarrow> None)))"

text \<open>Sysvars that the cache has not are read out of their accounts; a missing account stays missing.\<close>

definition fill_missing_entries :: "'p loaders \<Rightarrow> 'p accounts_db \<Rightarrow> (pubkey, bytes) hmap" where
  "fill_missing_entries L db =
     fold (\<lambda>pubkey cache.
        if map_of cache pubkey \<noteq> None then cache
        else (case get_account pubkey db of Some a \<Rightarrow> AList.update pubkey (ac_data a) cache | None \<Rightarrow> cache))
       (lo_sysvars L) (av_sysvar_cache db)"

definition fill_sysvar_cache :: "'p loaders \<Rightarrow> 'p accounts_db \<Rightarrow> (unit, svm_error) res \<times> 'p accounts_db" where
  "fill_sysvar_cache L db =
     (let db = db\<lparr>av_sysvar_cache := fill_missing_entries L db\<rparr> in
      (case Option.bind (map_of (av_sysvar_cache db) (lo_clock_id L)) (lo_clock L) of
         Some clock \<Rightarrow>
           if ck_slot clock \<noteq> av_slot db \<or> ck_epoch clock \<noteq> av_epoch db then Err SvmInvalidSysvarClock else Ok ()
       | None \<Rightarrow> Ok (), db))"

datatype instruction_error = IxInvalidAccountData | IxMissingAccount | IxIncorrectProgramId

definition load_program :: "'p loaders \<Rightarrow> account \<Rightarrow> 'p accounts_db \<Rightarrow> ('p, instruction_error) res" where
  "load_program L program_account db =
     (let owner = ac_owner program_account;
          data = ac_data program_account;
          entry = (\<lambda>owner elf size. ok_or (lo_new_program L owner (av_slot db) elf size) IxInvalidAccountData) in
      if owner = lo_bpf_loader L \<or> owner = lo_bpf_loader_deprecated L then entry owner data (length data)
      else if owner = lo_bpf_loader_upgradeable L then
        rthen (ok_or (lo_program_state L data) IxInvalidAccountData) (\<lambda>programdata_address.
        rthen (ok_or (get_account programdata_address db) IxMissingAccount) (\<lambda>programdata_account.
        let program_data = ac_data programdata_account in
        if lo_programdata_metadata L \<le> length program_data
        then entry owner (drop (lo_programdata_metadata L) program_data) (length data + length program_data)
        else Err IxInvalidAccountData))
      else if owner = lo_loader_v4 L then
        (if lo_program_data_offset L \<le> length data
         then entry (lo_loader_v4 L) (drop (lo_program_data_offset L) data) (length data)
         else Err IxInvalidAccountData)
      else Err IxIncorrectProgramId)"

definition load_account :: "'p loaders \<Rightarrow> pubkey \<Rightarrow> 'p accounts_db \<Rightarrow> (account option, instruction_error) res \<times> 'p accounts_db" where
  "load_account L pubkey db =
     (case get_account pubkey db of
        None \<Rightarrow> (Ok None, db)
      | Some account \<Rightarrow>
          if ac_executable account \<and> ac_owner account \<noteq> lo_native_loader L then
            rbind (load_program L account db) db (\<lambda>loaded_program.
              (Ok (Some account), db\<lparr>av_programs_cache := AList.update pubkey loaded_program (av_programs_cache db)\<rparr>))
          else (Ok (Some account), db))"

definition add_diff_account :: "'p loaders \<Rightarrow> bool \<Rightarrow> pubkey \<Rightarrow> account \<Rightarrow> 'p accounts_db \<Rightarrow> (unit, svm_error) res \<times> 'p accounts_db" where
  "add_diff_account L check_rent_exemption pubkey account db =
     rbind
       (if check_rent_exemption then
          case Option.bind (map_of (av_sysvar_cache db) (lo_rent_id L)) (lo_rent L) of
            None \<Rightarrow> Err (SvmInstruction ''UnsupportedSysvar'')
          | Some minimum_balance \<Rightarrow>
              if ac_lamports account < minimum_balance (length (ac_data account)) then Err SvmInsufficientLamports else Ok ()
        else Ok ()) db
       (\<lambda>_. (Ok (), db\<lparr>av_accounts_diff := AList.update pubkey account (av_accounts_diff db)\<rparr>))"

definition clear_diff_accounts :: "'p accounts_db \<Rightarrow> 'p accounts_db" where
  "clear_diff_accounts db = db\<lparr>av_accounts_diff := []\<rparr>"

definition clean_zero_accounts :: "'p accounts_db \<Rightarrow> 'p accounts_db" where
  "clean_zero_accounts db = db\<lparr>av_accounts_diff := filter (\<lambda>(_, account). ac_lamports account > 0) (av_accounts_diff db)\<rparr>"

definition checked_add_lamports :: "u64 \<Rightarrow> account \<Rightarrow> (account, svm_error) res" where
  "checked_add_lamports lamports a =
     (if unat (ac_lamports a) + unat lamports < 2 ^ 64 then Ok (a\<lparr>ac_lamports := ac_lamports a + lamports\<rparr>) else Err SvmLamports)"

definition checked_sub_lamports :: "u64 \<Rightarrow> account \<Rightarrow> (account, svm_error) res" where
  "checked_sub_lamports lamports a =
     (if lamports \<le> ac_lamports a then Ok (a\<lparr>ac_lamports := ac_lamports a - lamports\<rparr>) else Err SvmLamports)"

definition account_new :: "u64 \<Rightarrow> nat \<Rightarrow> pubkey \<Rightarrow> account" where
  "account_new lamports space owner = \<lparr>ac_lamports = lamports, ac_data = replicate space 0, ac_owner = owner, ac_executable = False, ac_rent_epoch = 0\<rparr>"

definition account_default :: account where
  "account_default = account_new 0 0 zero_hash"

definition mint :: "'p loaders \<Rightarrow> bool \<Rightarrow> pubkey \<Rightarrow> u64 \<Rightarrow> 'p accounts_db \<Rightarrow> (unit, svm_error) res \<times> 'p accounts_db" where
  "mint L check_rent_exemption pubkey lamports db =
     rbind
       (case get_account pubkey db of
          Some account \<Rightarrow> checked_add_lamports lamports account
        | None \<Rightarrow> Ok (account_new lamports 0 (lo_system_program L))) db
       (\<lambda>account. add_diff_account L check_rent_exemption pubkey account db)"

definition burn :: "'p loaders \<Rightarrow> bool \<Rightarrow> pubkey \<Rightarrow> u64 \<Rightarrow> 'p accounts_db \<Rightarrow> (unit, svm_error) res \<times> 'p accounts_db" where
  "burn L check_rent_exemption pubkey lamports db =
     (case get_account pubkey db of
        Some account \<Rightarrow> rbind (checked_sub_lamports lamports account) db (\<lambda>account. add_diff_account L check_rent_exemption pubkey account db)
      | None \<Rightarrow> (Err (SvmMissingAccount pubkey), db))"

section \<open>Callbacks in memory\<close>

definition callback_from :: "(pubkey \<times> account) list \<Rightarrow> (pubkey, account) hmap" where
  "callback_from accounts = fold (\<lambda>(pubkey, account). AList.update pubkey account) accounts []"

definition with_minting_to :: "(pubkey \<times> u64) list \<Rightarrow> (pubkey, account) hmap \<Rightarrow> (pubkey, account) hmap" where
  "with_minting_to accounts m = fold (\<lambda>(key, lamports). AList.update key (account_new lamports 0 key)) accounts m"

definition memory_callback :: "(pubkey, account) hmap \<Rightarrow> accounts_callback" where
  "memory_callback m pubkey = Some (map_of m pubkey)"

end
