(* ===== verification/Svm.thy ===== *)
theory Svm
  imports Svm_Accounts
begin

text \<open>
  The executor of a block (\<^verbatim>\<open>executor/svm/src/lib.rs\<close>): checking a transaction's age, charging its payer,
  loading its accounts, running its message, and committing what it wrote; sealing a block and
  registering its blockhash. The interpreter of programs (\<open>MessageProcessor\<close>), fee calculation, the
  collection of rent and the codecs of sysvars are parameters.
\<close>

section \<open>Transactions\<close>

datatype transaction_error =
    TxAccountNotFound | TxInvalidAccountForFee | TxInsufficientFundsForFee | TxInsufficientFundsForRent u8
  | TxInvalidProgramForExecution | TxBlockhashNotFound | TxInvalidRentPayingAccount | TxUnsupportedVersion
  | TxInstructionError u8 string | TxOther string

record message =
  ms_account_keys :: "pubkey list"
  ms_is_writable :: "nat \<Rightarrow> bool"
  ms_is_invoked :: "nat \<Rightarrow> bool"
  ms_is_instruction_account :: "nat \<Rightarrow> bool"
  ms_program_id_indices :: "nat list"
  ms_recent_blockhash :: b256
  ms_num_required_signatures :: u8
  ms_durable_nonce :: "pubkey option"
  ms_nonce_signers :: "pubkey list"
  ms_instructions_data :: bytes

record sanitized_tx =
  st_signature :: bytes
  st_message :: message

text \<open>
  The context of a transaction after it ran: its accounts, what it returned, and the trace of its
  instructions as their height, program index, data and account indices.
\<close>

record trace_item =
  ti_stack_height :: nat
  ti_program :: nat
  ti_data :: bytes
  ti_accounts :: "nat list"

record transaction_context =
  cx_accounts :: "(pubkey \<times> account) list"
  cx_return_data :: bytes
  cx_trace :: "trace_item list"

datatype system_account_kind = System | Nonce

datatype sysvar = SysClock | SysSlotHistory | SysSlotHashes | SysRecentBlockhashes | SysSoonRecentBlockhashes | SysFeeRateGovernor

text \<open>Of the governor only the price is read here; the rest is what \<open>new_derived\<close> uses.\<close>

record fee_rate_governor =
  fg_lamports_per_signature :: u64
  fg_other :: bytes

record ('tx, 'l, 'p) svm_env =
  ve_loaders :: "'p loaders"
  ve_sha256 :: sha256
  ve_signatures :: "'tx \<Rightarrow> bytes list"
  ve_sanitize :: "'tx \<Rightarrow> (sanitized_tx, transaction_error) res"
  ve_verify :: "sanitized_tx \<Rightarrow> (unit, transaction_error) res"
  ve_verify_precompiles :: "sanitized_tx \<Rightarrow> (unit, transaction_error) res"
  ve_compute_budget_limits :: "message \<Rightarrow> ('l, transaction_error) res"
  ve_calculate_fee :: "message \<Rightarrow> u64 \<Rightarrow> 'l \<Rightarrow> u64"
  ve_collect_rent :: "u64 \<Rightarrow> pubkey \<Rightarrow> account \<Rightarrow> u64 \<times> account"
  ve_system_account_kind :: "account \<Rightarrow> system_account_kind option"
  ve_nonce_size :: nat
  ve_process_message :: "message \<Rightarrow> nat list list \<Rightarrow> (pubkey \<times> account) list \<Rightarrow> 'p accounts_db
      \<Rightarrow> (unit, transaction_error) res \<times> u64 \<times> transaction_context"
  ve_verify_nonce_account :: "account \<Rightarrow> b256 \<Rightarrow> (pubkey \<times> u64) option"
  ve_durable_nonce :: "b256 \<Rightarrow> b256"
  ve_rent :: rent
  ve_instructions_id :: pubkey
  ve_sysvar_owner :: pubkey
  ve_incinerator :: pubkey
  ve_no_sig_tx_payer :: pubkey
  ve_validate_fee_collector :: bool
  ve_max_processing_age :: u64
  ve_max_recent_blockhashes :: u64
  ve_max_recent_entries :: nat
  ve_get_epoch :: "u64 \<Rightarrow> u64"
  ve_leader_schedule_epoch :: "u64 \<Rightarrow> u64"
  ve_sysvar_id :: "sysvar \<Rightarrow> pubkey"
  ve_sdk_size :: "sysvar \<Rightarrow> nat"
  ve_clock_of :: "bytes \<Rightarrow> (clock, string) res"
  ve_clock_bytes :: "clock \<Rightarrow> bytes"
  ve_slot_history_add :: "bytes option \<Rightarrow> u64 \<Rightarrow> bytes"
  ve_slot_hashes_add :: "bytes option \<Rightarrow> u64 \<Rightarrow> b256 \<Rightarrow> bytes"
  ve_recent_of :: "bytes \<Rightarrow> ((b256 \<times> u64) list, string) res"
  ve_recent_bytes :: "(b256 \<times> u64) list \<Rightarrow> bytes"
  ve_governor_of :: "bytes \<Rightarrow> (fee_rate_governor \<times> u64, string) res"
  ve_governor_bytes :: "fee_rate_governor \<times> u64 \<Rightarrow> bytes"
  ve_new_derived :: "fee_rate_governor \<Rightarrow> u64 \<Rightarrow> fee_rate_governor"

section \<open>The executor\<close>

record 'p lite_svm =
  ls_accounts :: "'p accounts_db"
  ls_sig_verify :: bool
  ls_blockhash_verify :: bool
  ls_ticks_per_slot :: u64
  ls_hashes_per_tick :: u64
  ls_genesis_hash :: b256
  ls_leader_schedule :: leader_schedule
  ls_slot :: u64
  ls_epoch :: u64
  ls_signature_count :: u64
  ls_fee_rate_governor :: fee_rate_governor
  ls_parent_blockhash :: "b256 option"
  ls_blockhash :: "b256 option"
  ls_blockhash_queue :: blockhash_queue
  ls_rent_epoch :: u64
  ls_clock_timestamp :: u64
  ls_parent_slot :: u64
  ls_parent_bank_hash :: b256

definition svm_default :: "('tx, 'l, 'p) svm_env \<Rightarrow> 'p lite_svm" where
  "svm_default E =
     \<lparr>ls_accounts = accounts_db_default, ls_sig_verify = False, ls_blockhash_verify = False, ls_ticks_per_slot = 64, ls_hashes_per_tick = 0,
      ls_genesis_hash = zero_hash, ls_leader_schedule = [], ls_slot = 0, ls_epoch = 0, ls_signature_count = 0,
      ls_fee_rate_governor = \<lparr>fg_lamports_per_signature = 0, fg_other = []\<rparr>, ls_parent_blockhash = None, ls_blockhash = None,
      ls_blockhash_queue = blockhash_queue_new (ve_max_recent_blockhashes E), ls_rent_epoch = 0, ls_clock_timestamp = 0, ls_parent_slot = 0,
      ls_parent_bank_hash = zero_hash\<rparr>"

definition svm_blockhash :: "'p lite_svm \<Rightarrow> (b256, svm_error) res" where
  "svm_blockhash s = ok_or (ls_blockhash s) SvmNoBlockhash"

definition svm_parent_blockhash :: "'p lite_svm \<Rightarrow> (b256, svm_error) res" where
  "svm_parent_blockhash s = ok_or (ls_parent_blockhash s) SvmNoBlockhash"

definition get_balance :: "pubkey \<Rightarrow> 'p lite_svm \<Rightarrow> u64 option" where
  "get_balance pubkey s = map_option ac_lamports (get_account pubkey (ls_accounts s))"

definition sysvar_size :: "('tx, 'l, 'p) svm_env \<Rightarrow> sysvar \<Rightarrow> nat" where
  "sysvar_size E v =
     (case v of
        SysFeeRateGovernor \<Rightarrow> 49
      | SysSoonRecentBlockhashes \<Rightarrow> 40 * unat (ve_max_processing_age E) + 8
      | _ \<Rightarrow> ve_sdk_size E v)"

definition sysvar_data :: "('tx, 'l, 'p) svm_env \<Rightarrow> sysvar \<Rightarrow> 'p lite_svm \<Rightarrow> bytes option" where
  "sysvar_data E v s = map_option ac_data (get_account (ve_sysvar_id E v) (ls_accounts s))"

definition get_sysvar :: "('tx, 'l, 'p) svm_env \<Rightarrow> sysvar \<Rightarrow> (bytes \<Rightarrow> ('v, string) res) \<Rightarrow> 'p lite_svm \<Rightarrow> ('v, svm_error) res" where
  "get_sysvar E v deserialize s =
     rthen (ok_or (sysvar_data E v s) (SvmMissingAccount (ve_sysvar_id E v))) (\<lambda>data. map_err SvmBincode (deserialize data))"

text \<open>The value is serialized into an account of the sysvar's size; a longer one panics.\<close>

definition update_sysvar :: "('tx, 'l, 'p) svm_env \<Rightarrow> sysvar \<Rightarrow> bytes \<Rightarrow> 'p lite_svm \<Rightarrow> (unit, svm_error) res \<times> 'p lite_svm" where
  "update_sysvar E v ser s =
     (let size = sysvar_size E v in
      if length ser > size then (Panic, s)
      else
        let account = \<lparr>ac_lamports = rn_minimum_balance (ve_rent E) size, ac_data = ser @ replicate (size - length ser) 0,
                       ac_owner = ve_sysvar_owner E, ac_executable = False, ac_rent_epoch = 0\<rparr>;
            (r, db) = add_diff_account (ve_loaders E) False (ve_sysvar_id E v) account (ls_accounts s) in
        (r, s\<lparr>ls_accounts := db\<rparr>))"

definition sbind :: "('a, 'e) res \<times> 's \<Rightarrow> ('a \<Rightarrow> 's \<Rightarrow> ('b, 'e) res \<times> 's) \<Rightarrow> ('b, 'e) res \<times> 's" where
  "sbind r k = rbind (fst r) (snd r) (\<lambda>x. k x (snd r))"

section \<open>Starting a block\<close>

definition update_slot_hashes :: "('tx, 'l, 'p) svm_env \<Rightarrow> 'p lite_svm \<Rightarrow> (unit, svm_error) res \<times> 'p lite_svm" where
  "update_slot_hashes E s =
     update_sysvar E SysSlotHashes (ve_slot_hashes_add E (sysvar_data E SysSlotHashes s) (ls_parent_slot s) (ls_parent_bank_hash s)) s"

definition update_slot_history :: "('tx, 'l, 'p) svm_env \<Rightarrow> 'p lite_svm \<Rightarrow> (unit, svm_error) res \<times> 'p lite_svm" where
  "update_slot_history E s = update_sysvar E SysSlotHistory (ve_slot_history_add E (sysvar_data E SysSlotHistory s) (ls_slot s)) s"

definition update_clock :: "('tx, 'l, 'p) svm_env \<Rightarrow> 'p lite_svm \<Rightarrow> (unit, svm_error) res \<times> 'p lite_svm" where
  "update_clock E s =
     (if ve_get_epoch E (ls_parent_slot s) \<noteq> ls_epoch s then (Panic, s)
      else
        rbind (get_sysvar E SysClock (ve_clock_of E) s) s (\<lambda>clock.
        update_sysvar E SysClock
          (ve_clock_bytes E
             \<lparr>ck_slot = ls_slot s, ck_epoch = ls_epoch s, ck_leader_schedule_epoch = ve_leader_schedule_epoch E (ls_slot s),
              ck_unix_timestamp = ls_clock_timestamp s, ck_epoch_start_timestamp = ck_epoch_start_timestamp clock\<rparr>) s))"

definition restore_blockhash_queue :: "('tx, 'l, 'p) svm_env \<Rightarrow> 'p lite_svm \<Rightarrow> (unit, svm_error) res \<times> 'p lite_svm" where
  "restore_blockhash_queue E s =
     (let recent = (case get_sysvar E SysSoonRecentBlockhashes (ve_recent_of E) s of Ok es \<Rightarrow> es | _ \<Rightarrow> []);
          recent = (if recent = [] \<and> ls_parent_slot s = 0 then [(ls_genesis_hash s, 0)] else recent);
          s = s\<lparr>ls_blockhash_queue := queue_of_entries (ve_max_recent_blockhashes E) recent\<rparr> in
      rbind (last_hash (ls_blockhash_queue s)) s (\<lambda>h. (Ok (), s\<lparr>ls_parent_blockhash := Some h\<rparr>)))"

definition finish_init :: "('tx, 'l, 'p) svm_env \<Rightarrow> 'p lite_svm \<Rightarrow> (unit, svm_error) res \<times> 'p lite_svm" where
  "finish_init E s =
     (let slot = ls_parent_slot s + 1;
          epoch = ve_get_epoch E slot;
          s = s\<lparr>ls_slot := slot, ls_epoch := epoch, ls_accounts := set_epoch epoch (set_slot slot (ls_accounts s))\<rparr> in
      rbind (get_sysvar E SysFeeRateGovernor (ve_governor_of E) s) s (\<lambda>(governor, signatures).
      let s = s\<lparr>ls_fee_rate_governor := ve_new_derived E governor signatures\<rparr> in
      sbind (update_slot_hashes E s) (\<lambda>_ s.
      sbind (update_clock E s) (\<lambda>_ s.
      sbind (update_slot_history E s) (\<lambda>_ s.
      sbind (restore_blockhash_queue E s) (\<lambda>_ s.
      let (r, db) = fill_sysvar_cache (ve_loaders E) (ls_accounts s) in
      sbind (r, s\<lparr>ls_accounts := db\<rparr>) (\<lambda>_ s. (Ok (), s\<lparr>ls_rent_epoch := ls_epoch s\<rparr>))))))))"

section \<open>The age of a transaction\<close>

text \<open>A transaction may name a nonce account in place of a recent blockhash, if its authority signs.\<close>

definition check_and_load_message_nonce_account ::
  "('tx, 'l, 'p) svm_env \<Rightarrow> message \<Rightarrow> b256 \<Rightarrow> 'p lite_svm \<Rightarrow> (pubkey \<times> account \<times> u64) option" where
  "check_and_load_message_nonce_account E m next_durable_nonce s =
     (if ms_recent_blockhash m = next_durable_nonce then None
      else
        Option.bind (ms_durable_nonce m) (\<lambda>nonce_address.
        Option.bind (get_account nonce_address (ls_accounts s)) (\<lambda>nonce_account.
        Option.bind (ve_verify_nonce_account E nonce_account (ms_recent_blockhash m)) (\<lambda>(authority, lamports_per_signature).
        if authority \<in> set (ms_nonce_signers m) then Some (nonce_address, nonce_account, lamports_per_signature) else None))))"

text \<open>The fee payer of a message is its first account. The result is the price of a signature.\<close>

definition check_transaction_age :: "('tx, 'l, 'p) svm_env \<Rightarrow> message \<Rightarrow> b256 \<Rightarrow> 'p lite_svm \<Rightarrow> (u64, transaction_error) res" where
  "check_transaction_age E m next_durable_nonce s =
     (case get_hash_info_if_valid (ms_recent_blockhash m) (ve_max_processing_age E) (ls_blockhash_queue s) of
        Some hash_info \<Rightarrow> Ok (hi_lamports_per_signature hash_info)
      | None \<Rightarrow>
          (case check_and_load_message_nonce_account E m next_durable_nonce s of
             Some (_, _, lamports_per_signature) \<Rightarrow> Ok lamports_per_signature
           | None \<Rightarrow>
               (case ms_account_keys m of
                  [] \<Rightarrow> Panic
                | fee_payer # _ \<Rightarrow> if fee_payer = ve_no_sig_tx_payer E then Ok 0 else Err TxBlockhashNotFound)))"

definition maybe_blockhash_check :: "('tx, 'l, 'p) svm_env \<Rightarrow> message \<Rightarrow> 'p lite_svm \<Rightarrow> (u64, transaction_error) res" where
  "maybe_blockhash_check E m s =
     (if ls_blockhash_verify s then
        rthen (last_hash (ls_blockhash_queue s)) (\<lambda>last_blockhash. check_transaction_age E m (ve_durable_nonce E last_blockhash) s)
      else Ok (fg_lamports_per_signature (ls_fee_rate_governor s)))"

section \<open>Running a transaction\<close>

definition check_rent_state_with_account ::
  "('tx, 'l, 'p) svm_env \<Rightarrow> rent_state \<Rightarrow> rent_state \<Rightarrow> pubkey \<Rightarrow> nat \<Rightarrow> (unit, transaction_error) res" where
  "check_rent_state_with_account E pre post address account_index =
     (if address \<noteq> ve_incinerator E \<and> \<not> transition_allowed_from post pre
      then Err (TxInsufficientFundsForRent (of_nat account_index)) else Ok ())"

text \<open>The payer is charged in the account that is handed over, also when its rent state then fails.\<close>

definition validate_fee_payer ::
  "('tx, 'l, 'p) svm_env \<Rightarrow> pubkey \<Rightarrow> nat \<Rightarrow> u64 \<Rightarrow> account \<Rightarrow> (unit, transaction_error) res \<times> account" where
  "validate_fee_payer E payer_address payer_index fee payer =
     (if ac_lamports payer = 0 then (Err TxAccountNotFound, payer)
      else
        case ve_system_account_kind E payer of
          None \<Rightarrow> (Err TxInvalidAccountForFee, payer)
        | Some kind \<Rightarrow>
            let min_balance = (case kind of System \<Rightarrow> 0 | Nonce \<Rightarrow> rn_minimum_balance (ve_rent E) (ve_nonce_size E)) in
            if ac_lamports payer < min_balance \<or> ac_lamports payer - min_balance < fee then (Err TxInsufficientFundsForFee, payer)
            else
              let payer' = payer\<lparr>ac_lamports := ac_lamports payer - fee\<rparr> in
              (check_rent_state_with_account E (rent_state_of (ve_rent E) payer) (rent_state_of (ve_rent E) payer') payer_address payer_index, payer'))"

definition construct_instructions_account :: "('tx, 'l, 'p) svm_env \<Rightarrow> message \<Rightarrow> account" where
  "construct_instructions_account E m =
     \<lparr>ac_lamports = 0, ac_data = ms_instructions_data m, ac_owner = ve_sysvar_owner E, ac_executable = False, ac_rent_epoch = 0\<rparr>"

text \<open>The variables that the closure over the account keys changes.\<close>

record 'p loading =
  lg_db :: "'p accounts_db"
  lg_validated_fee_payer :: bool
  lg_payer_key :: "pubkey option"
  lg_fee_payer_rent_debit :: u64

definition load_key ::
  "('tx, 'l, 'p) svm_env \<Rightarrow> u64 \<Rightarrow> message \<Rightarrow> u64 \<Rightarrow> nat \<Rightarrow> pubkey \<Rightarrow> 'p loading \<Rightarrow> (account, transaction_error) res \<times> 'p loading" where
  "load_key E rent_epoch m fee i key g =
     (if key = ve_instructions_id E then (Ok (construct_instructions_account E m), g)
      else
        let (r, db) = load_account (ve_loaders E) key (lg_db g); g = g\<lparr>lg_db := db\<rparr> in
        rbind (map_err (\<lambda>_. TxAccountNotFound) r) g (\<lambda>found.
        let account = (case found of Some a \<Rightarrow> a | None \<Rightarrow> account_default) in
        if \<not> lg_validated_fee_payer g \<and> (\<not> ms_is_invoked m i \<or> ms_is_instruction_account m i) then
          let (debit, account) = ve_collect_rent E rent_epoch key account;
              g = g\<lparr>lg_fee_payer_rent_debit := debit\<rparr>;
              (v, account) = validate_fee_payer E key i fee account in
          rbind v g (\<lambda>_. (Ok account, g\<lparr>lg_validated_fee_payer := True, lg_payer_key := Some key\<rparr>))
        else if ms_is_writable m i then
          let (debit, account) = ve_collect_rent E rent_epoch key account in
          (Ok account, g\<lparr>lg_fee_payer_rent_debit := debit\<rparr>)
        else (Ok account, g)))"

fun load_keys ::
  "('tx, 'l, 'p) svm_env \<Rightarrow> u64 \<Rightarrow> message \<Rightarrow> u64 \<Rightarrow> nat \<Rightarrow> pubkey list \<Rightarrow> 'p loading
     \<Rightarrow> ((pubkey \<times> account) list, transaction_error) res \<times> 'p loading" where
  "load_keys E rent_epoch m fee i [] g = (Ok [], g)"
| "load_keys E rent_epoch m fee i (key # keys) g =
     sbind (load_key E rent_epoch m fee i key g) (\<lambda>account g.
     sbind (load_keys E rent_epoch m fee (Suc i) keys g) (\<lambda>accounts g. (Ok ((key, account) # accounts), g)))"

text \<open>
  The program of an instruction: its account must be executable, and its owner, a loader, is appended to
  the accounts behind those of the message.
\<close>

definition instruction_program ::
  "'p loaders \<Rightarrow> nat \<Rightarrow> nat \<Rightarrow> (pubkey \<times> account) list \<times> 'p accounts_db
     \<Rightarrow> (nat list, transaction_error) res \<times> (pubkey \<times> account) list \<times> 'p accounts_db" where
  "instruction_program L builtins_start_index program_index s =
     (let (accounts, db) = s in
      if length accounts \<le> program_index then (Panic, s)
      else
        let (program_id, program_account) = accounts ! program_index in
        if program_id = lo_native_loader L then (Ok [], s)
        else if \<not> ac_executable program_account then (Err TxInvalidProgramForExecution, s)
        else
          let owner_id = ac_owner program_account in
          if owner_id = lo_native_loader L then (Ok [program_index], s)
          else if owner_id \<in> fst ` set (drop builtins_start_index accounts) then (Ok [program_index], s)
          else
            let (r, db) = load_account L owner_id db; s = (accounts, db) in
            rbind (map_err (\<lambda>_. TxAccountNotFound) r) s (\<lambda>found.
            case found of
              None \<Rightarrow> (Err TxAccountNotFound, s)
            | Some owner_account \<Rightarrow>
                if ac_owner owner_account \<noteq> lo_native_loader L \<or> \<not> ac_executable owner_account
                then (Err TxInvalidProgramForExecution, s)
                else (Ok [program_index], accounts @ [(owner_id, owner_account)], db)))"

fun program_indices ::
  "'p loaders \<Rightarrow> nat \<Rightarrow> nat list \<Rightarrow> (pubkey \<times> account) list \<times> 'p accounts_db
     \<Rightarrow> (nat list list, transaction_error) res \<times> (pubkey \<times> account) list \<times> 'p accounts_db" where
  "program_indices L start [] s = (Ok [], s)"
| "program_indices L start (c # cs) s =
     sbind (instruction_program L start c s) (\<lambda>indices s.
     sbind (program_indices L start cs s) (\<lambda>rest s. (Ok (indices # rest), s)))"

fun check_accounts_rent_from ::
  "('tx, 'l, 'p) svm_env \<Rightarrow> message \<Rightarrow> transaction_context \<Rightarrow> 'p accounts_db \<Rightarrow> nat list \<Rightarrow> (unit, transaction_error) res" where
  "check_accounts_rent_from E m cx db [] = Ok ()"
| "check_accounts_rent_from E m cx db (index # is) =
     (if \<not> ms_is_writable m index then check_accounts_rent_from E m cx db is
      else if length (cx_accounts cx) \<le> index then Err (TxInstructionError (of_nat index) ''NotEnoughAccountKeys'')
      else
        let (pubkey, account) = cx_accounts cx ! index;
            pre = rent_state_of (ve_rent E) (case get_account pubkey db of Some a \<Rightarrow> a | None \<Rightarrow> account_default) in
        if ac_data account \<noteq> [] \<and> \<not> transition_allowed_from (rent_state_of (ve_rent E) account) pre
        then Err (TxInsufficientFundsForRent (of_nat index))
        else check_accounts_rent_from E m cx db is)"

definition check_accounts_rent ::
  "('tx, 'l, 'p) svm_env \<Rightarrow> message \<Rightarrow> transaction_context \<Rightarrow> 'p accounts_db \<Rightarrow> (unit, transaction_error) res" where
  "check_accounts_rent E m cx db = check_accounts_rent_from E m cx db [0..<length (ms_account_keys m)]"

record processed =
  pr_result :: "(unit, transaction_error) res"
  pr_compute_units :: u64
  pr_context :: "transaction_context option"
  pr_fee :: u64
  pr_payer_key :: "pubkey option"
  pr_fee_payer_rent_debit :: u64

text \<open>A panic anywhere is a panic of the transaction.\<close>

definition process_transaction ::
  "('tx, 'l, 'p) svm_env \<Rightarrow> sanitized_tx \<Rightarrow> u64 \<Rightarrow> 'l \<Rightarrow> 'p lite_svm \<Rightarrow> (processed, transaction_error) res \<times> 'p lite_svm" where
  "process_transaction E tx lamports_per_signature limits s =
     (let m = st_message tx;
          fee = ve_calculate_fee E m lamports_per_signature limits;
          (maybe_accounts, g) = load_keys E (ls_rent_epoch s) m fee 0 (ms_account_keys m)
             \<lparr>lg_db = ls_accounts s, lg_validated_fee_payer = False, lg_payer_key = None, lg_fee_payer_rent_debit = 0\<rparr>;
          s = s\<lparr>ls_accounts := lg_db g\<rparr>;
          failed = (\<lambda>e s. (Ok \<lparr>pr_result = Err e, pr_compute_units = 0, pr_context = None, pr_fee = fee, pr_payer_key = lg_payer_key g,
                              pr_fee_payer_rent_debit = lg_fee_payer_rent_debit g\<rparr>, s)) in
      case maybe_accounts of
        Panic \<Rightarrow> (Panic, s)
      | Err e \<Rightarrow> failed e s
      | Ok accounts \<Rightarrow>
          if \<not> lg_validated_fee_payer g then failed TxAccountNotFound s
          else
            let (maybe_program_indices, accounts, db) = program_indices (ve_loaders E) (length accounts) (ms_program_id_indices m) (accounts, ls_accounts s);
                s = s\<lparr>ls_accounts := db\<rparr> in
            case maybe_program_indices of
              Panic \<Rightarrow> (Panic, s)
            | Err e \<Rightarrow> failed e s
            | Ok indices \<Rightarrow>
                let (r, units, cx) = ve_process_message E m indices accounts db;
                    r = (case check_accounts_rent E m cx db of Err e \<Rightarrow> Err e | _ \<Rightarrow> r) in
                (Ok \<lparr>pr_result = r, pr_compute_units = units, pr_context = Some cx, pr_fee = fee, pr_payer_key = lg_payer_key g,
                     pr_fee_payer_rent_debit = lg_fee_payer_rent_debit g\<rparr>, s))"

definition check_and_process_transaction ::
  "('tx, 'l, 'p) svm_env \<Rightarrow> sanitized_tx \<Rightarrow> 'p lite_svm \<Rightarrow> (processed, transaction_error) res \<times> 'p lite_svm" where
  "check_and_process_transaction E tx s =
     rbind (maybe_blockhash_check E (st_message tx) s) s (\<lambda>lamports_per_signature.
     rbind (ve_compute_budget_limits E (st_message tx)) s (\<lambda>limits.
     process_transaction E tx lamports_per_signature limits s))"

section \<open>Results\<close>

type_synonym inner_instruction = "(nat \<times> bytes \<times> nat list) \<times> nat"

text \<open>
  The instructions of a trace grouped under the transaction's own, which have height one. Indices are
  cut to a byte, the height is capped.
\<close>

definition inner_of :: "trace_item \<Rightarrow> inner_instruction" where
  "inner_of i = ((ti_program i mod 256, ti_data i, map (\<lambda>a. a mod 256) (ti_accounts i)), min (ti_stack_height i) 255)"

fun inner_instructions_list :: "inner_instruction list list \<Rightarrow> trace_item list \<Rightarrow> inner_instruction list list" where
  "inner_instructions_list outer [] = outer"
| "inner_instructions_list outer (i # trace) =
     inner_instructions_list
       (if ti_stack_height i = 1 then outer @ [[]]
        else if outer = [] then outer
        else butlast outer @ [last outer @ [inner_of i]]) trace"

record execution_result =
  er_post_accounts :: "(pubkey \<times> account) list"
  er_tx_result :: "(unit, transaction_error) res"
  er_signature :: bytes
  er_signature_count :: u8
  er_compute_units :: u64
  er_inner_instructions :: "inner_instruction list list"
  er_return_data :: bytes
  er_fee :: u64

definition execution_default :: execution_result where
  "execution_default = \<lparr>er_post_accounts = [], er_tx_result = Err TxUnsupportedVersion, er_signature = replicate 64 0, er_signature_count = 0,
     er_compute_units = 0, er_inner_instructions = [], er_return_data = [], er_fee = 0\<rparr>"

definition result_and_compute_units :: "(unit, transaction_error) res \<Rightarrow> u64 \<Rightarrow> u64 \<Rightarrow> execution_result" where
  "result_and_compute_units r units fee = execution_default\<lparr>er_tx_result := r, er_compute_units := units, er_fee := fee\<rparr>"

text \<open>The accounts a transaction may have changed are those of the context that its message can write.\<close>

definition post_accounts_of :: "message \<Rightarrow> transaction_context \<Rightarrow> (pubkey \<times> account) list" where
  "post_accounts_of m cx = map snd (filter (\<lambda>(idx, _). ms_is_writable m idx) (enumerate 0 (cx_accounts cx)))"

definition execution_result_if_context ::
  "sanitized_tx \<Rightarrow> transaction_context \<Rightarrow> (unit, transaction_error) res \<Rightarrow> u64 \<Rightarrow> u64 \<Rightarrow> execution_result" where
  "execution_result_if_context tx cx r units fee =
     \<lparr>er_post_accounts = post_accounts_of (st_message tx) cx,
      er_tx_result = r, er_signature = st_signature tx, er_signature_count = ms_num_required_signatures (st_message tx),
      er_compute_units = units, er_inner_instructions = inner_instructions_list [] (cx_trace cx), er_return_data = cx_return_data cx, er_fee = fee\<rparr>"

definition check_tx_result ::
  "('tx, 'l, 'p) svm_env \<Rightarrow> (unit, transaction_error) res \<Rightarrow> pubkey option \<Rightarrow> u64 \<Rightarrow> 'p lite_svm \<Rightarrow> (unit, transaction_error) res \<times> 'p lite_svm" where
  "check_tx_result E r payer_key fee s =
     (case r of
        Err _ \<Rightarrow>
          (case payer_key of
             Some payer \<Rightarrow>
               let (b, db) = burn (ve_loaders E) False payer fee (ls_accounts s) in
               (map_err (\<lambda>_. TxInsufficientFundsForFee) b, s\<lparr>ls_accounts := db\<rparr>)
           | None \<Rightarrow> (r, s))
      | _ \<Rightarrow> (r, s))"

text \<open>The outer result is a panic only; an error of the checks is an execution result without fee.\<close>

definition execute_sanitized_transaction ::
  "('tx, 'l, 'p) svm_env \<Rightarrow> sanitized_tx \<Rightarrow> 'p lite_svm \<Rightarrow> (execution_result, svm_error) res \<times> 'p lite_svm" where
  "execute_sanitized_transaction E tx s =
     (case check_and_process_transaction E tx s of
        (Panic, s) \<Rightarrow> (Panic, s)
      | (Err e, s) \<Rightarrow> (Ok (execution_default\<lparr>er_tx_result := Err e\<rparr>), s)
      | (Ok p, s) \<Rightarrow>
          (case pr_context p of
             Some cx \<Rightarrow>
               let (tx_result, s) = check_tx_result E (pr_result p) (pr_payer_key p) (pr_fee p) s in
               (Ok (execution_result_if_context tx cx tx_result (pr_compute_units p) (pr_fee p)), s)
           | None \<Rightarrow> (Ok (result_and_compute_units (pr_result p) (pr_compute_units p) (pr_fee p)), s)))"

definition execute_sanitized_transaction_readonly ::
  "('tx, 'l, 'p) svm_env \<Rightarrow> sanitized_tx \<Rightarrow> 'p lite_svm \<Rightarrow> (execution_result, svm_error) res \<times> 'p lite_svm" where
  "execute_sanitized_transaction_readonly E tx s =
     (case check_and_process_transaction E tx s of
        (Panic, s) \<Rightarrow> (Panic, s)
      | (Err e, s) \<Rightarrow> (Ok (execution_default\<lparr>er_tx_result := Err e\<rparr>), s)
      | (Ok p, s) \<Rightarrow>
          (case pr_context p of
             Some cx \<Rightarrow> (Ok (execution_result_if_context tx cx (pr_result p) (pr_compute_units p) (pr_fee p)), s)
           | None \<Rightarrow> (Ok (result_and_compute_units (pr_result p) (pr_compute_units p) (pr_fee p)), s)))"

definition sanitize_transaction :: "('tx, 'l, 'p) svm_env \<Rightarrow> bool \<Rightarrow> 'tx \<Rightarrow> (sanitized_tx, transaction_error) res" where
  "sanitize_transaction E verify tx =
     rthen (ve_sanitize E tx) (\<lambda>stx.
     if verify then rthen (ve_verify E stx) (\<lambda>_. rthen (ve_verify_precompiles E stx) (\<lambda>_. Ok stx)) else Ok stx)"

definition execute_transaction ::
  "('tx, 'l, 'p) svm_env \<Rightarrow> 'tx \<Rightarrow> 'p lite_svm \<Rightarrow> (execution_result, svm_error) res \<times> 'p lite_svm" where
  "execute_transaction E tx s =
     (case sanitize_transaction E (ls_sig_verify s) tx of
        Ok stx \<Rightarrow> execute_sanitized_transaction E stx s
      | Err e \<Rightarrow> (Ok (execution_default\<lparr>er_tx_result := Err e\<rparr>), s)
      | Panic \<Rightarrow> (Panic, s))"

definition execute_transaction_readonly ::
  "('tx, 'l, 'p) svm_env \<Rightarrow> 'tx \<Rightarrow> 'p lite_svm \<Rightarrow> (execution_result, svm_error) res \<times> 'p lite_svm" where
  "execute_transaction_readonly E tx s =
     (case sanitize_transaction E (ls_sig_verify s) tx of
        Ok stx \<Rightarrow> execute_sanitized_transaction_readonly E stx s
      | Err e \<Rightarrow> (Ok (execution_default\<lparr>er_tx_result := Err e\<rparr>), s)
      | Panic \<Rightarrow> (Panic, s))"

record transaction_metadata =
  tm_signature :: bytes
  tm_inner_instructions :: "inner_instruction list list"
  tm_compute_units :: u64
  tm_return_data :: bytes
  tm_fee :: u64

definition metadata_of :: "execution_result \<Rightarrow> transaction_metadata" where
  "metadata_of r = \<lparr>tm_signature = er_signature r, tm_inner_instructions = er_inner_instructions r, tm_compute_units = er_compute_units r,
     tm_return_data = er_return_data r, tm_fee = er_fee r\<rparr>"

text \<open>A transaction's result is its metadata, with the error beside it when it failed.\<close>

type_synonym transaction_result = "transaction_error option \<times> transaction_metadata"

definition commit_account :: "('tx, 'l, 'p) svm_env \<Rightarrow> u64 \<Rightarrow> pubkey \<times> account \<Rightarrow> 'p accounts_db \<Rightarrow> 'p accounts_db" where
  "commit_account E rent_epoch p db =
     (let (key, account) = p in
      snd (add_diff_account (ve_loaders E) False key (snd (ve_collect_rent E rent_epoch key account)) db))"

definition send_transaction ::
  "('tx, 'l, 'p) svm_env \<Rightarrow> 'tx \<Rightarrow> 'p lite_svm \<Rightarrow> (transaction_result, svm_error) res \<times> 'p lite_svm" where
  "send_transaction E tx s =
     (case execute_transaction E tx s of
        (Ok r, s) \<Rightarrow>
          let s = s\<lparr>ls_signature_count := ls_signature_count s + ucast (er_signature_count r)\<rparr>;
              meta = metadata_of r in
          (case er_tx_result r of
             Err e \<Rightarrow> (Ok (Some e, meta), s)
           | Panic \<Rightarrow> (Panic, s)
           | Ok _ \<Rightarrow> (Ok (None, meta), s\<lparr>ls_accounts := fold (commit_account E (ls_rent_epoch s)) (er_post_accounts r) (ls_accounts s)\<rparr>))
      | (Err e, s) \<Rightarrow> (Err e, s)
      | (Panic, s) \<Rightarrow> (Panic, s))"

definition simulate_transaction ::
  "('tx, 'l, 'p) svm_env \<Rightarrow> 'tx \<Rightarrow> 'p lite_svm \<Rightarrow> (transaction_result \<times> (pubkey \<times> account) list, svm_error) res \<times> 'p lite_svm" where
  "simulate_transaction E tx s =
     (case execute_transaction_readonly E tx s of
        (Ok r, s) \<Rightarrow>
          (case er_tx_result r of
             Err e \<Rightarrow> (Ok ((Some e, metadata_of r), []), s)
           | Panic \<Rightarrow> (Panic, s)
           | Ok _ \<Rightarrow> (Ok ((None, metadata_of r), er_post_accounts r), s))
      | (Err e, s) \<Rightarrow> (Err e, s)
      | (Panic, s) \<Rightarrow> (Panic, s))"

section \<open>Blocks\<close>

fun execute_transactions ::
  "('tx, 'l, 'p) svm_env \<Rightarrow> 'tx list \<Rightarrow> 'p lite_svm \<Rightarrow> (transaction_result list, svm_error) res \<times> 'p lite_svm" where
  "execute_transactions E [] s = (Ok [], s)"
| "execute_transactions E (tx # txs) s =
     sbind (send_transaction E tx s) (\<lambda>r s. sbind (execute_transactions E txs s) (\<lambda>rs s. (Ok (r # rs), s)))"

definition update_fee_rate_governor :: "('tx, 'l, 'p) svm_env \<Rightarrow> 'p lite_svm \<Rightarrow> (unit, svm_error) res \<times> 'p lite_svm" where
  "update_fee_rate_governor E s =
     update_sysvar E SysFeeRateGovernor (ve_governor_bytes E (ls_fee_rate_governor s, ls_signature_count s)) s"

text \<open>The fees of all transactions, failed ones too, go to the leader of the slot.\<close>

definition block_fees :: "transaction_result list \<Rightarrow> u64" where
  "block_fees results = sum_list (map (tm_fee \<circ> snd) results)"

definition seal_block :: "('tx, 'l, 'p) svm_env \<Rightarrow> transaction_result list \<Rightarrow> 'p lite_svm \<Rightarrow> (unit, svm_error) res \<times> 'p lite_svm" where
  "seal_block E results s =
     (let fees = block_fees results in
      sbind
        (case leader_at_slot (ls_slot s) (ls_leader_schedule s) of
           Some fee_collector \<Rightarrow>
             if fees > 0 then
               let (r, db) = mint (ve_loaders E) (ve_validate_fee_collector E) fee_collector fees (ls_accounts s) in (r, s\<lparr>ls_accounts := db\<rparr>)
             else (Ok (), s)
         | None \<Rightarrow> (Ok (), s)) (\<lambda>_ s.
      sbind (update_slot_history E s) (\<lambda>_ s. update_fee_rate_governor E s)))"

definition update_recent_blockhashes :: "('tx, 'l, 'p) svm_env \<Rightarrow> 'p lite_svm \<Rightarrow> (unit, svm_error) res \<times> 'p lite_svm" where
  "update_recent_blockhashes E s =
     (let q = ls_blockhash_queue s in
      sbind (update_sysvar E SysRecentBlockhashes (ve_recent_bytes E (recent_entries (ve_max_recent_entries E) q)) s) (\<lambda>_ s.
      update_sysvar E SysSoonRecentBlockhashes (ve_recent_bytes E (recent_entries (unat (ve_max_processing_age E)) q)) s))"

definition register_recent_blockhash :: "('tx, 'l, 'p) svm_env \<Rightarrow> b256 \<Rightarrow> 'p lite_svm \<Rightarrow> (unit, svm_error) res \<times> 'p lite_svm" where
  "register_recent_blockhash E blockhash s =
     update_recent_blockhashes E
       (s\<lparr>ls_blockhash_queue := register_hash blockhash (fg_lamports_per_signature (ls_fee_rate_governor s)) (ls_blockhash_queue s)\<rparr>)"

definition process_entries_and_register_blockhash ::
  "('tx, 'l, 'p) svm_env \<Rightarrow> 'tx raw_block \<Rightarrow> 'p lite_svm \<Rightarrow> (unit, svm_error) res \<times> 'p lite_svm" where
  "process_entries_and_register_blockhash E batch_txs s =
     (let F = ve_sha256 E; sigs = ve_signatures E in
      rbind (data_entries F sigs (ls_hashes_per_tick s) (last_hash (ls_blockhash_queue s)) batch_txs) s (\<lambda>entries.
      rbind (complete_entries F sigs (ls_ticks_per_slot s) (ls_hashes_per_tick s) entries) s (\<lambda>entries.
      case slot_tick (ls_ticks_per_slot s) 0 entries of
        Some h \<Rightarrow> register_recent_blockhash E h (s\<lparr>ls_blockhash := Some h\<rparr>)
      | None \<Rightarrow> (Ok (), s))))"

definition execute_raw_block ::
  "('tx, 'l, 'p) svm_env \<Rightarrow> 'tx raw_block \<Rightarrow> 'p lite_svm \<Rightarrow> (transaction_result list, svm_error) res \<times> 'p lite_svm" where
  "execute_raw_block E batch_txs s =
     sbind (execute_transactions E (concat batch_txs) s) (\<lambda>results s.
     sbind (seal_block E results s) (\<lambda>_ s.
     sbind (process_entries_and_register_blockhash E batch_txs s) (\<lambda>_ s. (Ok results, s))))"

end
