(* ===== verification/Svm_Safety.thy ===== *)
theory Svm_Safety
  imports Svm
begin

text \<open>
  What the executor does to the accounts of a block: which accounts a transaction and a block can change,
  what becomes of transactions that fail and of their fees, and how the blockhash of a block reaches the
  next one. The laws of the interpreter and of the codecs are hypotheses of the theorems that need them.
\<close>

section \<open>Accounts as a store\<close>

locale account_store =
  fixes look :: "'k \<Rightarrow> 's \<Rightarrow> 'a option" and put :: "'k \<Rightarrow> 'a \<Rightarrow> 's \<Rightarrow> 's"
  assumes look_put: "look k (put k' a s) = (if k = k' then Some a else look k s)"
begin

lemma look_fold: "look k (fold (\<lambda>(k, a). put k a) kvs s) = (case map_of (rev kvs) k of Some a \<Rightarrow> Some a | None \<Rightarrow> look k s)"
  by (induction kvs rule: rev_induct) (auto simp: look_put)

lemma look_fold_other: "k \<notin> fst ` set kvs \<Longrightarrow> look k (fold (\<lambda>(k, a). put k a) kvs s) = look k s"
  by (simp add: look_fold map_of_eq_None_iff [THEN iffD2] split: option.split)

lemma look_fold_same: "map_of (rev kvs) k = Some a \<Longrightarrow> look k (fold (\<lambda>(k, a). put k a) kvs s) = Some a"
  by (simp add: look_fold)

end

definition put_account :: "pubkey \<Rightarrow> account \<Rightarrow> 'p accounts_db \<Rightarrow> 'p accounts_db" where
  "put_account k a db = db\<lparr>av_accounts_diff := AList.update k a (av_accounts_diff db)\<rparr>"

interpretation acc: account_store get_account put_account
  by unfold_locales (simp add: get_account_def put_account_def update_conv' split: option.split)

text \<open>The accounts that a block has changed are a store of their own, over the callback.\<close>

definition changed_account :: "pubkey \<Rightarrow> 'p accounts_db \<Rightarrow> account option" where
  "changed_account k db = map_of (av_accounts_diff db) k"

interpretation dif: account_store changed_account put_account
  by unfold_locales (simp add: changed_account_def put_account_def update_conv')

definition same_account :: "pubkey \<Rightarrow> 'p accounts_db \<Rightarrow> 'p accounts_db \<Rightarrow> bool" where
  "same_account k db db' \<longleftrightarrow> changed_account k db' = changed_account k db \<and> av_callback db' = av_callback db"

lemma same_account_refl [simp, intro]: "same_account k db db"
  by (simp add: same_account_def)

lemma same_account_trans: "\<lbrakk> same_account k a b; same_account k b c \<rbrakk> \<Longrightarrow> same_account k a c"
  by (simp add: same_account_def)

lemma same_account_get: "same_account k db db' \<Longrightarrow> get_account k db' = get_account k db"
  by (simp add: same_account_def changed_account_def get_account_def split: option.split)

lemma same_account_put: "k \<noteq> k' \<Longrightarrow> same_account k db (put_account k' a db)"
  by (simp add: same_account_def dif.look_put) (simp add: put_account_def)

lemma callback_fold_put: "av_callback (fold (\<lambda>(k, a). put_account k a) kvs db) = av_callback db"
  by (induction kvs arbitrary: db) (auto simp: put_account_def)

lemma same_account_fold: "k \<notin> fst ` set kvs \<Longrightarrow> same_account k db (fold (\<lambda>(k, a). put_account k a) kvs db)"
  by (simp add: same_account_def dif.look_fold_other callback_fold_put)

lemma add_diff_unchecked: "add_diff_account L False k a db = (Ok (), put_account k a db)"
  by (simp add: add_diff_account_def put_account_def)

lemma add_diff_account_cases:
  "snd (add_diff_account L check k a db) = put_account k a db \<or> snd (add_diff_account L check k a db) = db"
  by (auto simp: add_diff_account_def put_account_def rbind_def split: res.split)

lemma add_diff_other: "k \<noteq> k' \<Longrightarrow> same_account k db (snd (add_diff_account L check k' a db))"
  using add_diff_account_cases [of L check k' a db] same_account_put by (metis same_account_refl)

lemma mint_other: "k \<noteq> k' \<Longrightarrow> same_account k db (snd (mint L check k' n db))"
  by (auto simp: mint_def rbind_def add_diff_other split: res.split)

lemma burn_other: "k \<noteq> k' \<Longrightarrow> same_account k db (snd (burn L check k' n db))"
  by (auto simp: burn_def rbind_def add_diff_other split: res.split option.split)

lemma fold_commit_account:
  "fold (commit_account E e) kvs db = fold (\<lambda>(k, a). put_account k a) (map (\<lambda>(k, a). (k, snd (ve_collect_rent E e k a))) kvs) db"
  by (induction kvs arbitrary: db) (auto simp: commit_account_def add_diff_unchecked)

section \<open>Loading changes no account\<close>

text \<open>Loading a program caches it; what the accounts are is not touched.\<close>

definition same_accounts :: "'p accounts_db \<Rightarrow> 'p accounts_db \<Rightarrow> bool" where
  "same_accounts db db' \<longleftrightarrow> av_accounts_diff db' = av_accounts_diff db \<and> av_callback db' = av_callback db"

lemma same_accounts_refl [simp, intro]: "same_accounts db db"
  by (simp add: same_accounts_def)

lemma same_accounts_trans [trans]: "\<lbrakk> same_accounts a b; same_accounts b c \<rbrakk> \<Longrightarrow> same_accounts a c"
  by (simp add: same_accounts_def)

lemma same_accounts_get: "same_accounts db db' \<Longrightarrow> get_account k db' = get_account k db"
  by (auto simp: same_accounts_def get_account_def split: option.split)

lemma same_accounts_one: "same_accounts db db' \<Longrightarrow> same_account k db db'"
  by (simp add: same_accounts_def same_account_def changed_account_def)

lemma sbind_simps [simp]: "sbind (Ok x, s) k = k x s" "sbind (Err e, s) k = (Err e, s)" "sbind (Panic, s) k = (Panic, s)"
  by (simp_all add: sbind_def)

lemma sbind_Ok_iff [res_simps]: "sbind r k = (Ok y, t) \<longleftrightarrow> (\<exists>x s. r = (Ok x, s) \<and> k x s = (Ok y, t))"
  by (cases r) (auto simp: sbind_def rbind_def split: res.split)

lemma snd_sbind: "\<lbrakk> I (snd r); \<And>x. I (snd (k x (snd r))) \<rbrakk> \<Longrightarrow> I (snd (sbind r k))"
  by (simp add: sbind_def rbind_def split: res.split)

lemma load_account_same: "same_accounts db (snd (load_account L k db))"
  by (auto simp: load_account_def rbind_def same_accounts_def split: option.split res.split)

lemma load_key_same: "same_accounts (lg_db g) (lg_db (snd (load_key E e m fee i k g)))"
proof -
  obtain r db where l: "load_account (ve_loaders E) k (lg_db g) = (r, db)" by (cases "load_account (ve_loaders E) k (lg_db g)")
  have "lg_db (snd (load_key E e m fee i k g)) \<in> {lg_db g, db}"
    by (auto simp: load_key_def l rbind_def Let_def split: res.split prod.split)
  then show ?thesis using load_account_same [of "lg_db g" "ve_loaders E" k] l by auto
qed

lemma load_keys_same: "same_accounts (lg_db g) (lg_db (snd (load_keys E e m fee i ks g)))"
proof (induction ks arbitrary: i g)
  case (Cons k ks)
  have step: "same_accounts (lg_db g) (lg_db (snd (load_key E e m fee i k g)))" by (rule load_key_same)
  have rest: "same_accounts (lg_db g) (lg_db (snd (load_keys E e m fee (Suc i) ks (snd (load_key E e m fee i k g)))))"
    by (rule same_accounts_trans [OF step Cons.IH])
  show ?case unfolding load_keys.simps
    by (rule snd_sbind [where I = "\<lambda>g'. same_accounts (lg_db g) (lg_db g')"], rule step,
        rule snd_sbind [where I = "\<lambda>g'. same_accounts (lg_db g) (lg_db g')"], rule rest, simp add: rest)
qed simp

lemma instruction_program_same: "same_accounts (snd s) (snd (snd (instruction_program L b i s)))"
proof -
  obtain accounts db where s: "s = (accounts, db)" by (cases s)
  have "snd (snd (instruction_program L b i s)) \<in> {db, snd (load_account L (ac_owner (snd (accounts ! i))) db)}"
    by (auto simp: instruction_program_def s rbind_def Let_def split: res.split prod.split option.split)
  then show ?thesis using load_account_same [of db L "ac_owner (snd (accounts ! i))"] by (auto simp: s)
qed

lemma program_indices_same: "same_accounts (snd s) (snd (snd (program_indices L b cs s)))"
proof (induction cs arbitrary: s)
  case (Cons c cs)
  have step: "same_accounts (snd s) (snd (snd (instruction_program L b c s)))" by (rule instruction_program_same)
  have rest: "same_accounts (snd s) (snd (snd (program_indices L b cs (snd (instruction_program L b c s)))))"
    by (rule same_accounts_trans [OF step Cons.IH])
  show ?case unfolding program_indices.simps
    by (rule snd_sbind [where I = "\<lambda>t. same_accounts (snd s) (snd t)"], rule step,
        rule snd_sbind [where I = "\<lambda>t. same_accounts (snd s) (snd t)"], rule rest, simp add: rest)
qed simp

section \<open>Who pays, and what the interpreter is given\<close>

text \<open>
  What sanitizing a transaction ensures of its message: the first account pays, so it is writable and not
  a program, and nothing behind the account keys is writable. That it is not the sysvar of instructions,
  which the executor would build instead of loading, is an assumption that sanitizing does not check.
\<close>

definition wf_message :: "('tx, 'l, 'p) svm_env \<Rightarrow> message \<Rightarrow> bool" where
  "wf_message E m \<longleftrightarrow> ms_account_keys m \<noteq> [] \<and> hd (ms_account_keys m) \<noteq> ve_instructions_id E \<and> ms_is_writable m 0
     \<and> \<not> ms_is_invoked m 0 \<and> (\<forall>i. ms_is_writable m i \<longrightarrow> i < length (ms_account_keys m))"

definition writable_keys :: "message \<Rightarrow> pubkey set" where
  "writable_keys m = {ms_account_keys m ! i | i. i < length (ms_account_keys m) \<and> ms_is_writable m i}"

text \<open>The context of a transaction keeps the keys of the accounts it was made with.\<close>

definition runtime_keeps_keys :: "('tx, 'l, 'p) svm_env \<Rightarrow> bool" where
  "runtime_keeps_keys E \<longleftrightarrow>
     (\<forall>m indices accounts db r units cx. ve_process_message E m indices accounts db = (r, units, cx) \<longrightarrow> map fst (cx_accounts cx) = map fst accounts)"

lemma load_key_validated:
  assumes "lg_validated_fee_payer g"
  shows "lg_payer_key (snd (load_key E e m fee i k g)) = lg_payer_key g \<and> lg_validated_fee_payer (snd (load_key E e m fee i k g))"
  using assms by (auto simp: load_key_def rbind_def Let_def split: res.split prod.split)

lemma load_keys_validated:
  assumes "lg_validated_fee_payer g"
  shows "lg_payer_key (snd (load_keys E e m fee i ks g)) = lg_payer_key g \<and> lg_validated_fee_payer (snd (load_keys E e m fee i ks g))"
  using assms
proof (induction ks arbitrary: i g)
  case (Cons k ks)
  let ?I = "\<lambda>g'. lg_payer_key g' = lg_payer_key g \<and> lg_validated_fee_payer g'"
  have step: "?I (snd (load_key E e m fee i k g))" by (rule load_key_validated [OF Cons.prems])
  then have rest: "?I (snd (load_keys E e m fee (Suc i) ks (snd (load_key E e m fee i k g))))" using Cons.IH by simp
  show ?case unfolding load_keys.simps by (rule snd_sbind [where I = ?I], rule step, rule snd_sbind [where I = ?I], rule rest, simp add: rest)
qed simp

lemma load_key_payer:
  assumes "\<not> lg_validated_fee_payer g" and "k \<noteq> ve_instructions_id E" and "\<not> ms_is_invoked m i"
  shows "lg_payer_key (snd (load_key E e m fee i k g)) \<in> {lg_payer_key g, Some k}
    \<and> (\<forall>a. fst (load_key E e m fee i k g) = Ok a \<longrightarrow>
         lg_payer_key (snd (load_key E e m fee i k g)) = Some k \<and> lg_validated_fee_payer (snd (load_key E e m fee i k g)))"
  using assms by (auto simp: load_key_def rbind_def Let_def split: res.split prod.split)

lemma load_keys_payer:
  assumes "wf_message E m" and "\<not> lg_validated_fee_payer g" and "lg_payer_key g = None"
  shows "lg_payer_key (snd (load_keys E e m fee 0 (ms_account_keys m) g)) \<in> {None, Some (hd (ms_account_keys m))}"
proof -
  from assms(1) obtain k ks where ks: "ms_account_keys m = k # ks" "k \<noteq> ve_instructions_id E" "\<not> ms_is_invoked m 0"
    by (cases "ms_account_keys m") (auto simp: wf_message_def)
  note p = load_key_payer [OF assms(2) ks(2,3), of e fee]
  obtain r g' where l: "load_key E e m fee 0 k g = (r, g')" by (cases "load_key E e m fee 0 k g")
  show ?thesis
  proof (cases r)
    case (Ok a)
    then have "lg_payer_key (snd (load_keys E e m fee (Suc 0) ks g')) = Some k"
      using p l load_keys_validated by (metis fst_conv snd_conv)
    then show ?thesis using Ok l ks(1) by (auto simp: sbind_def rbind_def split: res.split)
  qed (use p l ks(1) assms(3) in \<open>auto simp: sbind_def\<close>)
qed

lemma load_keys_keys: "load_keys E e m fee i ks g = (Ok accounts, g') \<Longrightarrow> map fst accounts = ks"
  by (induction ks arbitrary: i g accounts g') (auto simp: res_simps)

lemma program_indices_prefix: "\<exists>ls. fst (snd (program_indices L b cs s)) = fst s @ ls"
proof (induction cs arbitrary: s)
  case (Cons c cs)
  let ?I = "\<lambda>t. \<exists>ls. fst t = fst s @ ls"
  have step: "?I (snd (instruction_program L b c s))"
    by (cases s) (auto simp: instruction_program_def rbind_def Let_def split: res.split prod.split option.split)
  then have rest: "?I (snd (program_indices L b cs (snd (instruction_program L b c s))))"
    using Cons.IH [of "snd (instruction_program L b c s)"] by auto
  show ?case unfolding program_indices.simps by (rule snd_sbind [where I = ?I], rule step, rule snd_sbind [where I = ?I], rule rest, simp add: rest)
qed simp

text \<open>What processing a transaction leaves and returns.\<close>

lemma process_transaction_frame:
  assumes "process_transaction E tx price limits s = (r, s')"
  shows "same_accounts (ls_accounts s) (ls_accounts s') \<and> s' = s\<lparr>ls_accounts := ls_accounts s'\<rparr>"
proof -
  let ?m = "st_message tx"
  let ?g0 = "\<lparr>lg_db = ls_accounts s, lg_validated_fee_payer = False, lg_payer_key = None, lg_fee_payer_rent_debit = 0\<rparr>"
  obtain ma g where g: "load_keys E (ls_rent_epoch s) ?m (ve_calculate_fee E ?m price limits) 0 (ms_account_keys ?m) ?g0 = (ma, g)"
    by (metis surj_pair)
  have a: "same_accounts (ls_accounts s) (lg_db g)"
    using load_keys_same [of ?g0 E "ls_rent_epoch s" ?m "ve_calculate_fee E ?m price limits" 0 "ms_account_keys ?m"] g by simp
  have b: "same_accounts (ls_accounts s) (snd (snd (program_indices (ve_loaders E) n cs (accounts, lg_db g))))" for n cs accounts
    using same_accounts_trans [OF a] program_indices_same [of "(accounts, lg_db g)"] by simp
  have "ls_accounts s' \<in> {lg_db g} \<union> {snd (snd (program_indices (ve_loaders E) n cs (accounts, lg_db g))) | n cs accounts. True}
    \<and> s' = s\<lparr>ls_accounts := ls_accounts s'\<rparr>"
    using assms by (auto simp: process_transaction_def g Let_def split: res.splits if_splits prod.splits) (metis snd_conv)+
  with a b show ?thesis by auto
qed

lemma process_transaction_result:
  assumes "process_transaction E tx price limits s = (Ok p, s')" and "wf_message E (st_message tx)" and "runtime_keeps_keys E"
  shows "pr_payer_key p \<in> {None, Some (hd (ms_account_keys (st_message tx)))}
    \<and> (\<forall>cx. pr_context p = Some cx \<longrightarrow> (\<exists>ls. map fst (cx_accounts cx) = ms_account_keys (st_message tx) @ ls))"
proof -
  let ?m = "st_message tx"
  let ?g0 = "\<lparr>lg_db = ls_accounts s, lg_validated_fee_payer = False, lg_payer_key = None, lg_fee_payer_rent_debit = 0\<rparr>"
  obtain ma g where g: "load_keys E (ls_rent_epoch s) ?m (ve_calculate_fee E ?m price limits) 0 (ms_account_keys ?m) ?g0 = (ma, g)"
    by (metis surj_pair)
  have "pr_payer_key p = lg_payer_key g"
    using assms(1) by (auto simp: process_transaction_def g Let_def split: res.splits if_splits prod.splits)
  moreover have "lg_payer_key g \<in> {None, Some (hd (ms_account_keys ?m))}"
    using load_keys_payer [OF assms(2), of ?g0] g by (metis loading.select_convs(2,3) snd_conv)
  moreover have "\<exists>ls. map fst (cx_accounts cx) = ms_account_keys ?m @ ls" if cx: "pr_context p = Some cx" for cx
  proof -
    obtain accounts indices accounts' db r units where *: "ma = Ok accounts"
      "program_indices (ve_loaders E) (length accounts) (ms_program_id_indices ?m) (accounts, lg_db g) = (Ok indices, accounts', db)"
      "ve_process_message E ?m indices accounts' db = (r, units, cx)"
      using assms(1) cx by (auto simp: process_transaction_def g Let_def split: res.splits if_splits prod.splits)
    obtain ls where "accounts' = accounts @ ls"
      using program_indices_prefix [of "ve_loaders E" "length accounts" "ms_program_id_indices ?m" "(accounts, lg_db g)"] *(2) by auto
    moreover have "map fst accounts = ms_account_keys ?m" using load_keys_keys g *(1) by blast
    moreover have "map fst (cx_accounts cx) = map fst accounts'" using assms(3) *(3) by (auto simp: runtime_keeps_keys_def)
    ultimately show ?thesis by simp
  qed
  ultimately show ?thesis by simp
qed

section \<open>Which accounts a transaction and a block change\<close>

text \<open>An account is kept, and so is all of the executor's state but its accounts and signature count.\<close>

definition keeps_account :: "pubkey \<Rightarrow> 'p lite_svm \<Rightarrow> 'p lite_svm \<Rightarrow> bool" where
  "keeps_account k s s' \<longleftrightarrow> same_account k (ls_accounts s) (ls_accounts s')"

definition only_ledger :: "'p lite_svm \<Rightarrow> 'p lite_svm \<Rightarrow> bool" where
  "only_ledger s s' \<longleftrightarrow> s' = s\<lparr>ls_accounts := ls_accounts s', ls_signature_count := ls_signature_count s'\<rparr>"

lemma keeps_account_refl [simp, intro]: "keeps_account k s s"
  by (simp add: keeps_account_def)

lemma keeps_account_trans: "\<lbrakk> keeps_account k a b; keeps_account k b c \<rbrakk> \<Longrightarrow> keeps_account k a c"
  unfolding keeps_account_def by (rule same_account_trans)

lemma keeps_account_get: "keeps_account k s s' \<Longrightarrow> get_account k (ls_accounts s') = get_account k (ls_accounts s)"
  unfolding keeps_account_def by (rule same_account_get)

lemma keeps_account_sbind: "\<lbrakk> keeps_account k s (snd r); \<And>x. fst r = Ok x \<Longrightarrow> keeps_account k (snd r) (snd (f x (snd r))) \<rbrakk> \<Longrightarrow> keeps_account k s (snd (sbind r f))"
  by (auto simp: sbind_def rbind_def split: res.split intro: keeps_account_trans)

lemma only_ledger_refl [simp, intro]: "only_ledger s s"
  by (simp add: only_ledger_def)

lemma only_ledger_trans:
  assumes "only_ledger a b" and "only_ledger b c"
  shows "only_ledger a c"
proof -
  have "c = b\<lparr>ls_accounts := ls_accounts c, ls_signature_count := ls_signature_count c\<rparr>"
    and "b = a\<lparr>ls_accounts := ls_accounts b, ls_signature_count := ls_signature_count b\<rparr>"
    using assms by (simp_all only: only_ledger_def)
  then have "c = (a\<lparr>ls_accounts := ls_accounts b, ls_signature_count := ls_signature_count b\<rparr>)\<lparr>ls_accounts := ls_accounts c, ls_signature_count := ls_signature_count c\<rparr>"
    by metis
  then show ?thesis by (simp add: only_ledger_def)
qed

lemma only_ledger_sbind:
  "\<lbrakk> only_ledger s (snd r); \<And>x. fst r = Ok x \<Longrightarrow> only_ledger (snd r) (snd (f x (snd r))) \<rbrakk> \<Longrightarrow> only_ledger s (snd (sbind r f))"
  by (auto simp: sbind_def rbind_def split: res.split intro: only_ledger_trans)

lemma only_ledgerD:
  assumes "only_ledger s s'"
  shows "ls_blockhash_queue s' = ls_blockhash_queue s" "ls_fee_rate_governor s' = ls_fee_rate_governor s" "ls_slot s' = ls_slot s"
    "ls_leader_schedule s' = ls_leader_schedule s" "ls_ticks_per_slot s' = ls_ticks_per_slot s" "ls_hashes_per_tick s' = ls_hashes_per_tick s"
    "ls_rent_epoch s' = ls_rent_epoch s" "ls_blockhash_verify s' = ls_blockhash_verify s" "ls_sig_verify s' = ls_sig_verify s"
proof -
  have "s' = s\<lparr>ls_accounts := ls_accounts s', ls_signature_count := ls_signature_count s'\<rparr>" using assms by (simp only: only_ledger_def)
  then obtain db n where s': "s' = s\<lparr>ls_accounts := db, ls_signature_count := n\<rparr>" by metis
  show "ls_blockhash_queue s' = ls_blockhash_queue s" "ls_fee_rate_governor s' = ls_fee_rate_governor s" "ls_slot s' = ls_slot s"
    "ls_leader_schedule s' = ls_leader_schedule s" "ls_ticks_per_slot s' = ls_ticks_per_slot s" "ls_hashes_per_tick s' = ls_hashes_per_tick s"
    "ls_rent_epoch s' = ls_rent_epoch s" "ls_blockhash_verify s' = ls_blockhash_verify s" "ls_sig_verify s' = ls_sig_verify s"
    by (simp_all add: s')
qed

lemma only_accounts [simp, intro]: "only_ledger s (s\<lparr>ls_accounts := db\<rparr>)"
  by (simp add: only_ledger_def)

lemma only_ledger_update:
  assumes "only_ledger s s1"
  shows "only_ledger s (s1\<lparr>ls_signature_count := n\<rparr>)" "only_ledger s (s1\<lparr>ls_signature_count := n, ls_accounts := db\<rparr>)"
  by (rule only_ledger_trans [OF assms], simp add: only_ledger_def)+

subsection \<open>Transactions\<close>

lemma check_and_process_frame:
  assumes "check_and_process_transaction E tx s = (r, s')"
  shows "same_accounts (ls_accounts s) (ls_accounts s') \<and> s' = s\<lparr>ls_accounts := ls_accounts s'\<rparr>"
  using assms process_transaction_frame
  by (fastforce simp: check_and_process_transaction_def rbind_def split: res.splits)

lemma check_and_process_result:
  assumes "check_and_process_transaction E tx s = (Ok p, s')" and "wf_message E (st_message tx)" and "runtime_keeps_keys E"
  shows "pr_payer_key p \<in> {None, Some (hd (ms_account_keys (st_message tx)))}
    \<and> (\<forall>cx. pr_context p = Some cx \<longrightarrow> (\<exists>ls. map fst (cx_accounts cx) = ms_account_keys (st_message tx) @ ls))"
proof -
  obtain price limits where "process_transaction E tx price limits s = (Ok p, s')"
    using assms(1) by (auto simp: check_and_process_transaction_def res_simps)
  then show ?thesis by (rule process_transaction_result [OF _ assms(2,3)])
qed

lemma post_accounts_keys:
  assumes "wf_message E m" and "map fst (cx_accounts cx) = ms_account_keys m @ ls"
  shows "fst ` set (post_accounts_of m cx) \<subseteq> writable_keys m"
proof
  fix k assume "k \<in> fst ` set (post_accounts_of m cx)"
  then obtain i where i: "i < length (cx_accounts cx)" "ms_is_writable m i" "k = fst (cx_accounts cx ! i)"
    by (auto simp: post_accounts_of_def in_set_enumerate_eq)
  moreover have "i < length (ms_account_keys m)" using assms(1) i(2) by (simp add: wf_message_def)
  moreover have "fst (cx_accounts cx ! i) = (ms_account_keys m @ ls) ! i" using i(1) assms(2) by (metis nth_map)
  ultimately show "k \<in> writable_keys m" by (auto simp: writable_keys_def nth_append)
qed

lemma hd_writable: "wf_message E m \<Longrightarrow> hd (ms_account_keys m) \<in> writable_keys m"
  by (auto simp: wf_message_def writable_keys_def hd_conv_nth intro!: exI [of _ 0])

lemma check_tx_result_frame:
  "only_ledger s (snd (check_tx_result E r payer fee s)) \<and> (payer \<noteq> Some k \<longrightarrow> keeps_account k s (snd (check_tx_result E r payer fee s)))"
proof (cases "\<exists>e p. r = Err e \<and> payer = Some p")
  case True
  then obtain e p where r: "r = Err e" "payer = Some p" by blast
  obtain b db where "burn (ve_loaders E) False p fee (ls_accounts s) = (b, db)" by (metis surj_pair)
  with burn_other [of k p "ls_accounts s" "ve_loaders E" False fee] r show ?thesis by (auto simp: check_tx_result_def keeps_account_def)
qed (auto simp: check_tx_result_def split: res.split option.split)

lemma execute_sanitized_frame:
  assumes "execute_sanitized_transaction E tx s = (r, s')" and "wf_message E (st_message tx)" and "runtime_keeps_keys E"
  shows "only_ledger s s' \<and> (k \<notin> writable_keys (st_message tx) \<longrightarrow> keeps_account k s s')
    \<and> (\<forall>er. r = Ok er \<longrightarrow> fst ` set (er_post_accounts er) \<subseteq> writable_keys (st_message tx))"
proof -
  obtain cp s1 where cp: "check_and_process_transaction E tx s = (cp, s1)" by (cases "check_and_process_transaction E tx s")
  have f: "same_accounts (ls_accounts s) (ls_accounts s1)" "only_ledger s s1"
    using check_and_process_frame [OF cp] only_accounts by metis+
  have k1: "keeps_account k s s1" using same_accounts_one [OF f(1)] by (simp add: keeps_account_def)
  show ?thesis
  proof (cases cp)
    case (Ok p)
    note pr = check_and_process_result [OF cp [unfolded Ok] assms(2,3)]
    show ?thesis
    proof (cases "pr_context p")
      case None
      then show ?thesis using assms(1) cp Ok f k1 by (auto simp: execute_sanitized_transaction_def result_and_compute_units_def execution_default_def)
    next
      case (Some cx)
      obtain tr s2 where tr: "check_tx_result E (pr_result p) (pr_payer_key p) (pr_fee p) s1 = (tr, s2)" by (metis surj_pair)
      have "r = Ok (execution_result_if_context tx cx tr (pr_compute_units p) (pr_fee p))" "s' = s2"
        using assms(1) cp Ok Some tr by (auto simp: execute_sanitized_transaction_def)
      moreover have "only_ledger s s2" using check_tx_result_frame [of s1] tr f(2) only_ledger_trans by (metis snd_conv)
      moreover have "keeps_account k s s2" if "k \<notin> writable_keys (st_message tx)"
      proof -
        have "pr_payer_key p \<noteq> Some k" using that pr hd_writable [OF assms(2)] by auto
        then show ?thesis using check_tx_result_frame [of s1 E "pr_result p" "pr_payer_key p" "pr_fee p" k] tr keeps_account_trans [OF k1] by simp
      qed
      ultimately show ?thesis using pr Some post_accounts_keys [OF assms(2)] by (auto simp: execution_result_if_context_def)
    qed
  qed (use assms(1) cp f k1 in \<open>auto simp: execute_sanitized_transaction_def execution_default_def\<close>)
qed

lemma sanitize_is_ve_sanitize: "sanitize_transaction E v tx = Ok stx \<Longrightarrow> ve_sanitize E tx = Ok stx"
  by (auto simp: sanitize_transaction_def res_simps split: if_splits)

lemma send_transaction_frame:
  assumes wf: "\<And>stx. ve_sanitize E tx = Ok stx \<Longrightarrow> wf_message E (st_message stx)" and keys: "runtime_keeps_keys E"
  shows "only_ledger s (snd (send_transaction E tx s))
    \<and> ((\<forall>stx. ve_sanitize E tx = Ok stx \<longrightarrow> k \<notin> writable_keys (st_message stx)) \<longrightarrow> keeps_account k s (snd (send_transaction E tx s)))"
proof (cases "sanitize_transaction E (ls_sig_verify s) tx")
  case (Ok stx)
  note san = sanitize_is_ve_sanitize [OF Ok]
  obtain r s1 where x: "execute_sanitized_transaction E stx s = (r, s1)" by (cases "execute_sanitized_transaction E stx s")
  note f = execute_sanitized_frame [OF x wf [OF san] keys, of k]
  show ?thesis
  proof (cases r)
    case (Ok er)
    let ?db = "fold (commit_account E (ls_rent_epoch s1)) (er_post_accounts er) (ls_accounts s1)"
    have "same_account k (ls_accounts s1) ?db" if "k \<notin> writable_keys (st_message stx)"
      unfolding fold_commit_account using that f Ok by (intro same_account_fold) (auto simp: image_image case_prod_beta)
    with f have "k \<notin> writable_keys (st_message stx) \<longrightarrow> same_account k (ls_accounts s) ?db"
      by (auto simp: keeps_account_def intro: same_account_trans)
    then show ?thesis using f san Ok \<open>sanitize_transaction E (ls_sig_verify s) tx = Ok stx\<close> x
      by (auto simp: send_transaction_def execute_transaction_def Let_def keeps_account_def only_ledger_update split: res.split)
  qed (use f san Ok x in \<open>auto simp: send_transaction_def execute_transaction_def\<close>)
qed (auto simp: send_transaction_def execute_transaction_def execution_default_def Let_def only_ledger_def keeps_account_def)

subsection \<open>Blocks\<close>

lemma execute_transactions_frame:
  assumes wf: "\<And>tx stx. tx \<in> set txs \<Longrightarrow> ve_sanitize E tx = Ok stx \<Longrightarrow> wf_message E (st_message stx)" and keys: "runtime_keeps_keys E"
  shows "only_ledger s (snd (execute_transactions E txs s))
    \<and> ((\<forall>tx\<in>set txs. \<forall>stx. ve_sanitize E tx = Ok stx \<longrightarrow> k \<notin> writable_keys (st_message stx)) \<longrightarrow> keeps_account k s (snd (execute_transactions E txs s)))"
  using wf
proof (induction txs arbitrary: s)
  case (Cons tx txs)
  let ?r = "send_transaction E tx s"
  have send: "only_ledger s (snd ?r) \<and> ((\<forall>stx. ve_sanitize E tx = Ok stx \<longrightarrow> k \<notin> writable_keys (st_message stx)) \<longrightarrow> keeps_account k s (snd ?r))"
    by (rule send_transaction_frame [OF Cons.prems keys]) simp_all
  have rest: "only_ledger (snd ?r) (snd (execute_transactions E txs (snd ?r)))
    \<and> ((\<forall>tx\<in>set txs. \<forall>stx. ve_sanitize E tx = Ok stx \<longrightarrow> k \<notin> writable_keys (st_message stx)) \<longrightarrow> keeps_account k (snd ?r) (snd (execute_transactions E txs (snd ?r))))"
    using Cons.prems by (intro Cons.IH) auto
  show ?case unfolding execute_transactions.simps
  proof (intro conjI impI)
    show "only_ledger s (snd (sbind ?r (\<lambda>r s. sbind (execute_transactions E txs s) (\<lambda>rs s. (Ok (r # rs), s)))))"
      by (rule only_ledger_sbind) (use send rest in \<open>auto intro: only_ledger_sbind\<close>)
    assume "\<forall>t\<in>set (tx # txs). \<forall>stx. ve_sanitize E t = Ok stx \<longrightarrow> k \<notin> writable_keys (st_message stx)"
    then show "keeps_account k s (snd (sbind ?r (\<lambda>r s. sbind (execute_transactions E txs s) (\<lambda>rs s. (Ok (r # rs), s)))))"
      by (intro keeps_account_sbind) (use send rest in auto)
  qed
qed simp

lemma update_sysvar_frame:
  "only_ledger s (snd (update_sysvar E v ser s)) \<and> (k \<noteq> ve_sysvar_id E v \<longrightarrow> keeps_account k s (snd (update_sysvar E v ser s)))"
  by (auto simp: update_sysvar_def Let_def keeps_account_def same_account_put add_diff_unchecked)

text \<open>The accounts that the end of a block writes: the sysvars, and the leader's.\<close>

abbreviation end_sysvars :: "sysvar set" where
  "end_sysvars \<equiv> {SysSlotHistory, SysFeeRateGovernor, SysRecentBlockhashes, SysSoonRecentBlockhashes}"

definition pay_leader :: "('tx, 'l, 'p) svm_env \<Rightarrow> u64 \<Rightarrow> 'p lite_svm \<Rightarrow> (unit, svm_error) res \<times> 'p lite_svm" where
  "pay_leader E fees s =
     (case leader_at_slot (ls_slot s) (ls_leader_schedule s) of
        Some fee_collector \<Rightarrow>
          if fees > 0 then
            let (r, db) = mint (ve_loaders E) (ve_validate_fee_collector E) fee_collector fees (ls_accounts s) in (r, s\<lparr>ls_accounts := db\<rparr>)
          else (Ok (), s)
      | None \<Rightarrow> (Ok (), s))"

lemma seal_block_alt:
  "seal_block E results s = sbind (pay_leader E (block_fees results) s) (\<lambda>_ s. sbind (update_slot_history E s) (\<lambda>_ s. update_fee_rate_governor E s))"
  by (simp add: seal_block_def pay_leader_def Let_def)

lemma pay_leader_frame:
  "only_ledger s (snd (pay_leader E fees s))
    \<and> (leader_at_slot (ls_slot s) (ls_leader_schedule s) \<noteq> Some k \<longrightarrow> keeps_account k s (snd (pay_leader E fees s)))"
proof (cases "leader_at_slot (ls_slot s) (ls_leader_schedule s)")
  case (Some c)
  let ?m = "mint (ve_loaders E) (ve_validate_fee_collector E) c fees (ls_accounts s)"
  from mint_other [of k c "ls_accounts s" "ve_loaders E" "ve_validate_fee_collector E" fees] Some show ?thesis
    by (cases ?m) (auto simp: pay_leader_def keeps_account_def)
qed (simp add: pay_leader_def)

lemma seal_block_frame:
  "only_ledger s (snd (seal_block E results s))
    \<and> (k \<notin> ve_sysvar_id E ` end_sysvars \<and> leader_at_slot (ls_slot s) (ls_leader_schedule s) \<noteq> Some k \<longrightarrow> keeps_account k s (snd (seal_block E results s)))"
  unfolding seal_block_alt
  by (intro conjI impI only_ledger_sbind keeps_account_sbind)
     (simp_all add: pay_leader_frame update_slot_history_def update_fee_rate_governor_def update_sysvar_frame)

lemma register_frame: "k \<notin> ve_sysvar_id E ` end_sysvars \<Longrightarrow> keeps_account k s (snd (register_recent_blockhash E h s))"
proof -
  assume k: "k \<notin> ve_sysvar_id E ` end_sysvars"
  let ?s = "s\<lparr>ls_blockhash_queue := register_hash h (fg_lamports_per_signature (ls_fee_rate_governor s)) (ls_blockhash_queue s)\<rparr>"
  have "keeps_account k ?s (snd (update_recent_blockhashes E ?s))"
    unfolding update_recent_blockhashes_def Let_def by (intro keeps_account_sbind) (use k in \<open>simp_all add: update_sysvar_frame\<close>)
  then show ?thesis by (simp add: register_recent_blockhash_def keeps_account_def)
qed

lemma process_entries_frame: "k \<notin> ve_sysvar_id E ` end_sysvars \<Longrightarrow> keeps_account k s (snd (process_entries_and_register_blockhash E bs s))"
proof -
  assume "k \<notin> ve_sysvar_id E ` end_sysvars"
  then have "keeps_account k s (snd (register_recent_blockhash E h (s\<lparr>ls_blockhash := Some h\<rparr>)))" for h
    using register_frame [of k E "s\<lparr>ls_blockhash := Some h\<rparr>" h] by (simp add: keeps_account_def)
  then show ?thesis by (auto simp: process_entries_and_register_blockhash_def Let_def rbind_def split: res.split option.split)
qed

lemma block_end_frame:
  assumes "k \<notin> ve_sysvar_id E ` end_sysvars" and "leader_at_slot (ls_slot s) (ls_leader_schedule s) \<noteq> Some k"
  shows "keeps_account k s (snd (sbind (seal_block E results s) (\<lambda>_ s. sbind (process_entries_and_register_blockhash E bs s) (\<lambda>_ s. (Ok results, s)))))"
  by (intro keeps_account_sbind) (use assms in \<open>simp_all add: seal_block_frame process_entries_frame\<close>)

lemma execute_sanitized_only_ledger: "only_ledger s (snd (execute_sanitized_transaction E tx s))"
proof -
  obtain cp s1 where cp: "check_and_process_transaction E tx s = (cp, s1)" by (cases "check_and_process_transaction E tx s")
  have f: "only_ledger s s1" using check_and_process_frame [OF cp] only_accounts by metis
  have "only_ledger s (snd (check_tx_result E r payer fee s1))" for r payer fee
    using check_tx_result_frame [of s1] only_ledger_trans [OF f] by blast
  then show ?thesis using f by (cases cp) (auto simp: execute_sanitized_transaction_def cp case_prod_beta split: option.split)
qed

lemma send_only_ledger: "only_ledger s (snd (send_transaction E tx s))"
proof -
  obtain r s1 where x: "execute_transaction E tx s = (r, s1)" by (cases "execute_transaction E tx s")
  have "only_ledger s s1"
    using x execute_sanitized_only_ledger [of s E] by (auto simp: execute_transaction_def split: res.splits) (metis snd_conv)
  then show ?thesis by (auto simp: send_transaction_def x Let_def only_ledger_update split: res.split)
qed

lemma execute_transactions_only_ledger: "only_ledger s (snd (execute_transactions E txs s))"
proof (induction txs arbitrary: s)
  case (Cons tx txs)
  show ?case unfolding execute_transactions.simps
    by (rule only_ledger_sbind [OF send_only_ledger], rule only_ledger_sbind [OF Cons.IH]) simp
qed simp

lemma execute_transactions_length: "execute_transactions E txs s = (Ok rs, s') \<Longrightarrow> length rs = length txs"
  by (induction txs arbitrary: s rs) (auto simp: res_simps)

section \<open>The blockhash of a block\<close>

abbreviation svm_chain_hash :: "('tx, 'l, 'p) svm_env \<Rightarrow> b256 \<Rightarrow> 'tx raw_block \<Rightarrow> b256" where
  "svm_chain_hash E h bs \<equiv> chain_hash (ve_sha256 E) (ve_signatures E) h bs"

abbreviation register_block :: "b256 \<Rightarrow> 'p lite_svm \<Rightarrow> blockhash_queue" where
  "register_block h s \<equiv> register_hash h (fg_lamports_per_signature (ls_fee_rate_governor s)) (ls_blockhash_queue s)"

lemma process_entries_registers:
  assumes "\<exists>b\<in>set bs. b \<noteq> []" and "ls_ticks_per_slot s > 0" and "ls_hashes_per_tick s = 0" and "bh_last_hash (ls_blockhash_queue s) = Some h"
  shows "process_entries_and_register_blockhash E bs s
    = register_recent_blockhash E (svm_chain_hash E h bs) (s\<lparr>ls_blockhash := Some (svm_chain_hash E h bs)\<rparr>)"
proof -
  obtain es es' where "data_entries (ve_sha256 E) (ve_signatures E) 0 (Ok h) bs = (Ok es :: (_ entry list, svm_error) res)"
    "complete_entries (ve_sha256 E) (ve_signatures E) (ls_ticks_per_slot s) 0 es = Ok es'"
    "slot_tick (ls_ticks_per_slot s) 0 es' = Some (svm_chain_hash E h bs)"
    using block_hash [OF assms(1,2)] by blast
  with assms(3,4) show ?thesis by (simp add: process_entries_and_register_blockhash_def Let_def last_hash_def)
qed

lemma update_sysvar_written:
  assumes "update_sysvar E v ser s = (Ok (), s')"
  shows "sysvar_data E v s' = Some (ser @ replicate (sysvar_size E v - length ser) 0)"
  using assms by (auto simp: update_sysvar_def Let_def sysvar_data_def add_diff_unchecked acc.look_put split: if_splits)

text \<open>What registering a blockhash leaves, when it succeeds.\<close>

lemma register_recent_blockhash_Ok:
  assumes "register_recent_blockhash E h s = (Ok (), s')"
  shows "ls_blockhash_queue s' = register_block h s" and "ls_blockhash s' = ls_blockhash s"
    and "\<exists>n. sysvar_data E SysSoonRecentBlockhashes s'
      = Some (ve_recent_bytes E (recent_entries (unat (ve_max_processing_age E)) (register_block h s)) @ replicate n 0)"
proof -
  let ?s = "s\<lparr>ls_blockhash_queue := register_block h s\<rparr>"
  obtain s1 where s1: "update_sysvar E SysRecentBlockhashes (ve_recent_bytes E (recent_entries (ve_max_recent_entries E) (register_block h s))) ?s = (Ok (), s1)"
    and s': "update_sysvar E SysSoonRecentBlockhashes (ve_recent_bytes E (recent_entries (unat (ve_max_processing_age E)) (register_block h s))) s1 = (Ok (), s')"
    using assms by (auto simp: register_recent_blockhash_def update_recent_blockhashes_def Let_def res_simps)
  have "only_ledger ?s s1" "only_ledger s1 s'" using update_sysvar_frame s1 s' by (metis snd_conv)+
  then have l: "only_ledger ?s s'" by (rule only_ledger_trans)
  show "ls_blockhash_queue s' = register_block h s" using only_ledgerD(1) [OF l] by simp
  have "s' = ?s\<lparr>ls_accounts := ls_accounts s', ls_signature_count := ls_signature_count s'\<rparr>" using l by (simp only: only_ledger_def)
  then obtain db n where "s' = ?s\<lparr>ls_accounts := db, ls_signature_count := n\<rparr>" by metis
  then show "ls_blockhash s' = ls_blockhash s" by simp
  show "\<exists>n. sysvar_data E SysSoonRecentBlockhashes s'
      = Some (ve_recent_bytes E (recent_entries (unat (ve_max_processing_age E)) (register_block h s)) @ replicate n 0)"
    using update_sysvar_written [OF s'] by blast
qed

lemma execute_raw_block_Ok:
  assumes "execute_raw_block E bs s = (Ok rs, s')" and "\<exists>b\<in>set bs. b \<noteq> []" and "ls_ticks_per_slot s > 0" and "ls_hashes_per_tick s = 0"
    and "bh_last_hash (ls_blockhash_queue s) = Some h"
  shows "\<exists>t. only_ledger s t \<and> register_recent_blockhash E (svm_chain_hash E h bs) (t\<lparr>ls_blockhash := Some (svm_chain_hash E h bs)\<rparr>) = (Ok (), s')
    \<and> length rs = length (concat bs)"
proof -
  obtain s1 t where x: "execute_transactions E (concat bs) s = (Ok rs, s1)" "seal_block E rs s1 = (Ok (), t)"
      "process_entries_and_register_blockhash E bs t = (Ok (), s')"
    using assms(1) by (auto simp: execute_raw_block_def res_simps)
  have l: "only_ledger s t"
    using only_ledger_trans [OF execute_transactions_only_ledger] seal_block_frame x(1,2) by (metis snd_conv)
  note d = only_ledgerD [OF l]
  show ?thesis using process_entries_registers [of bs t h E] assms(2-5) l d x(3) execute_transactions_length [OF x(1)] by (intro exI [of _ t]) simp
qed

lemma execute_raw_block_registers:
  assumes "execute_raw_block E bs s = (Ok rs, s')" and "\<exists>b\<in>set bs. b \<noteq> []" and "ls_ticks_per_slot s > 0" and "ls_hashes_per_tick s = 0"
    and "bh_last_hash (ls_blockhash_queue s) = Some h"
  shows "ls_blockhash s' = Some (svm_chain_hash E h bs)" and "ls_blockhash_queue s' = register_block (svm_chain_hash E h bs) s"
    and "\<exists>n. sysvar_data E SysSoonRecentBlockhashes s'
      = Some (ve_recent_bytes E (recent_entries (unat (ve_max_processing_age E)) (register_block (svm_chain_hash E h bs) s)) @ replicate n 0)"
    and "length rs = length (concat bs)"
proof -
  obtain t where t: "only_ledger s t" "register_recent_blockhash E (svm_chain_hash E h bs) (t\<lparr>ls_blockhash := Some (svm_chain_hash E h bs)\<rparr>) = (Ok (), s')"
      "length rs = length (concat bs)"
    using execute_raw_block_Ok [OF assms] by blast
  from register_recent_blockhash_Ok [OF t(2)] only_ledgerD(1,2) [OF t(1)] t(3)
  show "ls_blockhash s' = Some (svm_chain_hash E h bs)" "ls_blockhash_queue s' = register_block (svm_chain_hash E h bs) s"
    "\<exists>n. sysvar_data E SysSoonRecentBlockhashes s'
      = Some (ve_recent_bytes E (recent_entries (unat (ve_max_processing_age E)) (register_block (svm_chain_hash E h bs) s)) @ replicate n 0)"
    "length rs = length (concat bs)" by simp_all
qed

text \<open>A decoder that reads back what was encoded of as many hashes as the account keeps, whatever zeros follow.\<close>

definition recent_codec :: "('tx, 'l, 'p) svm_env \<Rightarrow> bool" where
  "recent_codec E \<longleftrightarrow>
     (\<forall>es n. (\<forall>e\<in>set es. length (fst e) = 32) \<and> length es \<le> unat (ve_max_processing_age E)
        \<longrightarrow> ve_recent_of E (ve_recent_bytes E es @ replicate n 0) = Ok es)"

definition sha_32 :: "sha256 \<Rightarrow> bool" where
  "sha_32 F \<longleftrightarrow> (\<forall>bs. length (hf_hashv F bs) = 32)"

lemma chain_hash_32:
  assumes "sha_32 F" and "length h = 32"
  shows "length (chain_hash F sigs h bs) = 32"
proof -
  have "length (foldl (\<lambda>h txs. hf_hashv F [h, hash_transactions F sigs txs]) h bs') = 32" for bs'
    by (induction bs' rule: rev_induct) (use assms in \<open>simp_all add: sha_32_def\<close>)
  then show ?thesis by (simp add: chain_hash_def)
qed

lemma restore_of_entries:
  assumes "recent_codec E" and "sysvar_data E SysSoonRecentBlockhashes t = Some (ve_recent_bytes E (e # es) @ replicate n 0)"
    and "\<forall>e\<in>set (e # es). length (fst e) = 32" and "length (e # es) \<le> unat (ve_max_processing_age E)"
  shows "restore_blockhash_queue E t
    = (Ok (), t\<lparr>ls_blockhash_queue := queue_of_entries (ve_max_recent_blockhashes E) (e # es), ls_parent_blockhash := Some (fst e)\<rparr>)"
proof -
  have "ve_recent_of E (ve_recent_bytes E (e # es) @ replicate n 0) = Ok (e # es)"
    using assms(1,3,4) unfolding recent_codec_def by blast
  then have "get_sysvar E SysSoonRecentBlockhashes (ve_recent_of E) t = Ok (e # es)"
    using assms(2) by (simp add: get_sysvar_def)
  moreover have "bh_last_hash (queue_of_entries (ve_max_recent_blockhashes E) (e # es)) = Some (fst e)" by (simp add: queue_of_entries_def Let_def)
  ultimately show ?thesis by (simp add: restore_blockhash_queue_def Let_def last_hash_def)
qed

section \<open>Charging and running\<close>

lemma validate_fee_payer_Ok:
  assumes "validate_fee_payer E k i fee a = (Ok (), a')"
  shows "ac_lamports a \<noteq> 0" "ve_system_account_kind E a \<noteq> None" "fee \<le> ac_lamports a" "a' = a\<lparr>ac_lamports := ac_lamports a - fee\<rparr>"
proof -
  have "fee \<le> n" if "\<not> n < b" "\<not> n - b < fee" for n b :: u64
    using that by (simp add: not_less word_le_nat_alt unat_sub)
  with assms show "ac_lamports a \<noteq> 0" "ve_system_account_kind E a \<noteq> None" "fee \<le> ac_lamports a" "a' = a\<lparr>ac_lamports := ac_lamports a - fee\<rparr>"
    by (auto simp: validate_fee_payer_def Let_def split: if_splits option.splits system_account_kind.splits)
qed

abbreviation account_or_default :: "pubkey \<Rightarrow> 'p lite_svm \<Rightarrow> account" where
  "account_or_default k s \<equiv> (case get_account k (ls_accounts s) of Some a \<Rightarrow> a | None \<Rightarrow> account_default)"

lemma load_account_found: "load_account L k db = (Ok found, db') \<Longrightarrow> found = get_account k db"
  by (auto simp: load_account_def res_simps split: option.splits if_splits)

lemma load_payer_Ok:
  assumes "load_key E e m fee i k g = (Ok a', g')" and "\<not> lg_validated_fee_payer g" and "k \<noteq> ve_instructions_id E" and "\<not> ms_is_invoked m i"
  shows "\<exists>payer. payer = snd (ve_collect_rent E e k (case get_account k (lg_db g) of Some a \<Rightarrow> a | None \<Rightarrow> account_default))
    \<and> validate_fee_payer E k i fee payer = (Ok (), a')"
  using assms by (auto simp: load_key_def Let_def res_simps rbind_def dest!: load_account_found split: prod.splits res.splits)

text \<open>
  The interpreter's call behind a context: its first account is the payer, whose rent was collected and
  who was charged the fee.
\<close>

lemma process_transaction_charges:
  assumes "process_transaction E tx price limits s = (Ok p, s')" and wf: "wf_message E (st_message tx)" and cx: "pr_context p = Some cx"
  shows "\<exists>indices accounts db r units payer.
      ve_process_message E (st_message tx) indices accounts db = (r, units, cx)
    \<and> (\<exists>ls. map fst accounts = ms_account_keys (st_message tx) @ ls)
    \<and> payer = snd (ve_collect_rent E (ls_rent_epoch s) (hd (ms_account_keys (st_message tx))) (account_or_default (hd (ms_account_keys (st_message tx))) s))
    \<and> validate_fee_payer E (hd (ms_account_keys (st_message tx))) 0 (pr_fee p) payer = (Ok (), snd (hd accounts))
    \<and> (pr_result p = Ok () \<longrightarrow> r = Ok () \<and> check_accounts_rent E (st_message tx) cx db = Ok ()) \<and> same_accounts (ls_accounts s) db"
proof -
  let ?m = "st_message tx" and ?fee = "ve_calculate_fee E (st_message tx) price limits"
  let ?g0 = "\<lparr>lg_db = ls_accounts s, lg_validated_fee_payer = False, lg_payer_key = None, lg_fee_payer_rent_debit = 0\<rparr>"
  obtain ma g where g: "load_keys E (ls_rent_epoch s) ?m ?fee 0 (ms_account_keys ?m) ?g0 = (ma, g)" by (metis surj_pair)
  obtain accounts indices accounts' db r units where *: "ma = Ok accounts"
      "program_indices (ve_loaders E) (length accounts) (ms_program_id_indices ?m) (accounts, lg_db g) = (Ok indices, accounts', db)"
      "ve_process_message E ?m indices accounts' db = (r, units, cx)" "pr_fee p = ?fee"
      "pr_result p = (case check_accounts_rent E ?m cx db of Err e \<Rightarrow> Err e | _ \<Rightarrow> r)"
    using assms(1) cx by (auto simp: process_transaction_def g Let_def split: res.splits if_splits prod.splits)
  from wf obtain k ks where ks: "ms_account_keys ?m = k # ks" "k \<noteq> ve_instructions_id E" "\<not> ms_is_invoked ?m 0"
    by (cases "ms_account_keys ?m") (auto simp: wf_message_def)
  obtain a g1 rest where a: "load_key E (ls_rent_epoch s) ?m ?fee 0 k ?g0 = (Ok a, g1)" "accounts = (k, a) # rest"
    using g *(1) ks(1) by (auto simp: res_simps)
  obtain ls where acc: "accounts' = accounts @ ls"
    using program_indices_prefix [of "ve_loaders E" "length accounts" "ms_program_id_indices ?m" "(accounts, lg_db g)"] *(2) by auto
  have "map fst accounts = ms_account_keys ?m" using load_keys_keys g *(1) by blast
  then have keys: "\<exists>ls. map fst accounts' = ms_account_keys ?m @ ls" using acc by simp
  have same: "same_accounts (ls_accounts s) db"
    using same_accounts_trans load_keys_same [of ?g0 E "ls_rent_epoch s" ?m ?fee 0 "ms_account_keys ?m"]
      program_indices_same [of "(accounts, lg_db g)" "ve_loaders E" "length accounts" "ms_program_id_indices ?m"] g *(2) by fastforce
  have rent: "pr_result p = Ok () \<longrightarrow> r = Ok () \<and> check_accounts_rent E ?m cx db = Ok ()" if "check_accounts_rent E ?m cx db \<noteq> Panic"
    using *(5) that by (auto split: res.splits)
  have np: "check_accounts_rent_from E ?m cx db is \<noteq> Panic" for "is" by (induction "is") (auto simp: Let_def split: prod.split)
  from load_payer_Ok [OF a(1) _ ks(2,3)] ks(1) acc a(2) *(4) *(3) keys same rent np show ?thesis
    by (intro exI [of _ indices] exI [of _ accounts'] exI [of _ db] exI [of _ r] exI [of _ units]) (auto simp: check_accounts_rent_def)
qed

lemma check_accounts_rent_from_Ok:
  "check_accounts_rent_from E m cx db is = Ok () \<Longrightarrow> i \<in> set is \<Longrightarrow> ms_is_writable m i \<Longrightarrow>
     i < length (cx_accounts cx)
   \<and> (ac_data (snd (cx_accounts cx ! i)) \<noteq> [] \<longrightarrow>
       transition_allowed_from (rent_state_of (ve_rent E) (snd (cx_accounts cx ! i)))
         (rent_state_of (ve_rent E) (case get_account (fst (cx_accounts cx ! i)) db of Some a \<Rightarrow> a | None \<Rightarrow> account_default)))"
  by (induction "is") (auto simp: Let_def split: if_splits prod.splits)

section \<open>Failed transactions\<close>

lemma burn_Ok:
  assumes "get_account k db = Some a" and "fee \<le> ac_lamports a"
  shows "burn L False k fee db = (Ok (), put_account k (a\<lparr>ac_lamports := ac_lamports a - fee\<rparr>) db)"
  using assms by (simp add: burn_def checked_sub_lamports_def add_diff_unchecked)

lemma mint_Ok:
  assumes "get_account k db = Some a" and "unat (ac_lamports a) + unat n < 2 ^ 64"
  shows "mint L False k n db = (Ok (), put_account k (a\<lparr>ac_lamports := ac_lamports a + n\<rparr>) db)"
  using assms by (simp add: mint_def checked_add_lamports_def add_diff_unchecked)

lemma send_failed_with_context:
  assumes san: "sanitize_transaction E (ls_sig_verify s) tx = Ok stx" and cp: "check_and_process_transaction E stx s = (Ok p, s1)"
    and cx: "pr_context p = Some cx" and res: "pr_result p = Err e" and payer: "pr_payer_key p = Some k"
    and a: "get_account k (ls_accounts s) = Some a" "pr_fee p \<le> ac_lamports a"
  shows "\<exists>meta s2. send_transaction E tx s = (Ok (None, meta), s2)
    \<and> (\<forall>k a. map_of (rev (post_accounts_of (st_message stx) cx)) k = Some a
          \<longrightarrow> get_account k (ls_accounts s2) = Some (snd (ve_collect_rent E (ls_rent_epoch s) k a)))"
proof -
  have f: "same_accounts (ls_accounts s) (ls_accounts s1)" "only_ledger s s1"
    using check_and_process_frame [OF cp] only_accounts by metis+
  have "get_account k (ls_accounts s1) = Some a" using same_accounts_get [OF f(1)] a(1) by simp
  note b = burn_Ok [OF this a(2), of "ve_loaders E"]
  let ?db = "put_account k (a\<lparr>ac_lamports := ac_lamports a - pr_fee p\<rparr>) (ls_accounts s1)"
  have ct: "check_tx_result E (pr_result p) (pr_payer_key p) (pr_fee p) s1 = (Ok (), s1\<lparr>ls_accounts := ?db\<rparr>)"
    by (simp add: check_tx_result_def res payer b)
  let ?er = "execution_result_if_context stx cx (Ok ()) (pr_compute_units p) (pr_fee p)"
  have x: "execute_transaction E tx s = (Ok ?er, s1\<lparr>ls_accounts := ?db\<rparr>)"
    by (simp add: execute_transaction_def san execute_sanitized_transaction_def cp cx ct)
  have epoch: "ls_rent_epoch s1 = ls_rent_epoch s" by (rule only_ledgerD(7) [OF f(2)])
  have "get_account k (fold (commit_account E (ls_rent_epoch s)) (post_accounts_of (st_message stx) cx) ?db) = Some (snd (ve_collect_rent E (ls_rent_epoch s) k a))"
    if m: "map_of (rev (post_accounts_of (st_message stx) cx)) k = Some a" for k a
  proof -
    have "map_of (map (\<lambda>(k, a). (k, snd (ve_collect_rent E (ls_rent_epoch s) k a))) xs) k = map_option (\<lambda>a. snd (ve_collect_rent E (ls_rent_epoch s) k a)) (map_of xs k)" for xs
      by (induction xs) auto
    then show ?thesis unfolding fold_commit_account using m by (intro acc.look_fold_same) (simp add: rev_map)
  qed
  then show ?thesis by (simp add: send_transaction_def x Let_def execution_result_if_context_def epoch)
qed

lemma send_failed_without_context:
  assumes san: "sanitize_transaction E (ls_sig_verify s) tx = Ok stx" and cp: "check_and_process_transaction E stx s = (Ok p, s1)"
    and cx: "pr_context p = None" and res: "pr_result p = Err e"
  shows "\<exists>meta s2. send_transaction E tx s = (Ok (Some e, meta), s2) \<and> tm_fee meta = pr_fee p \<and> only_ledger s s2
    \<and> same_accounts (ls_accounts s) (ls_accounts s2)"
proof -
  let ?er = "result_and_compute_units (Err e) (pr_compute_units p) (pr_fee p)"
  have f: "same_accounts (ls_accounts s) (ls_accounts s1)" "only_ledger s s1"
    using check_and_process_frame [OF cp] only_accounts by metis+
  have "execute_transaction E tx s = (Ok ?er, s1)"
    by (simp add: execute_transaction_def san execute_sanitized_transaction_def cp cx res)
  then show ?thesis using f
    by (auto simp: send_transaction_def Let_def result_and_compute_units_def metadata_of_def only_ledger_update)
qed

text \<open>The end of a block keeps what the leader was paid.\<close>

lemma block_end_pays_leader:
  assumes "leader_at_slot (ls_slot s) (ls_leader_schedule s) = Some c" and "c \<notin> ve_sysvar_id E ` end_sysvars"
    and "\<not> ve_validate_fee_collector E" and "block_fees results > 0"
    and "get_account c (ls_accounts s) = Some a" and "unat (ac_lamports a) + unat (block_fees results) < 2 ^ 64"
  shows "get_account c (ls_accounts (snd (sbind (seal_block E results s) (\<lambda>_ s. sbind (process_entries_and_register_blockhash E bs s) (\<lambda>_ s. (Ok results, s))))))
    = Some (a\<lparr>ac_lamports := ac_lamports a + block_fees results\<rparr>)"
proof -
  let ?db = "put_account c (a\<lparr>ac_lamports := ac_lamports a + block_fees results\<rparr>) (ls_accounts s)"
  let ?s = "s\<lparr>ls_accounts := ?db\<rparr>"
  have p: "pay_leader E (block_fees results) s = (Ok (), ?s)"
    using mint_Ok [OF assms(5,6), of "ve_loaders E"] assms(1,3,4) by (simp add: pay_leader_def)
  have "keeps_account c ?s (snd (sbind (seal_block E results s) (\<lambda>_ s. sbind (process_entries_and_register_blockhash E bs s) (\<lambda>_ s. (Ok results, s)))))"
    unfolding seal_block_alt p sbind_simps
    by (intro keeps_account_sbind) (use assms(2) in \<open>simp_all add: process_entries_frame update_slot_history_def update_fee_rate_governor_def update_sysvar_frame\<close>)
  from keeps_account_get [OF this] show ?thesis by (simp add: acc.look_put)
qed

text \<open>What a block can change: accounts its transactions can write, the leader's, and the sysvars of its end.\<close>

lemma execute_raw_block_frame:
  assumes "runtime_keeps_keys E"
    and "\<forall>tx\<in>set (concat bs). \<forall>stx. ve_sanitize E tx = Ok stx \<longrightarrow> wf_message E (st_message stx) \<and> k \<notin> writable_keys (st_message stx)"
    and "leader_at_slot (ls_slot s) (ls_leader_schedule s) \<noteq> Some k" and "k \<notin> ve_sysvar_id E ` end_sysvars"
  shows "keeps_account k s (snd (execute_raw_block E bs s))"
proof -
  note f = execute_transactions_frame [of "concat bs" E s k, OF _ assms(1)]
  have l: "only_ledger s (snd (execute_transactions E (concat bs) s))" by (rule execute_transactions_only_ledger)
  have "keeps_account k s (snd (execute_raw_block E bs s))" unfolding execute_raw_block_def
  proof (rule keeps_account_sbind)
    show "keeps_account k s (snd (execute_transactions E (concat bs) s))" using f assms(2) by blast
    show "keeps_account k (snd (execute_transactions E (concat bs) s))
      (snd (sbind (seal_block E x (snd (execute_transactions E (concat bs) s)))
        (\<lambda>_ s. sbind (process_entries_and_register_blockhash E bs s) (\<lambda>_ s. (Ok x, s)))))" for x
      using assms(3,4) only_ledgerD(3,4) [OF l] by (intro block_end_frame) simp_all
  qed
  then show ?thesis .
qed

section \<open>Properties\<close>

text \<open>
  C12: an account that no transaction of a block can write, that is not the leader's and is no sysvar of
  the block's end, is after the block what it was before, whatever the programs did and whether or not
  the block succeeded.
\<close>

theorem block_touches_writable:
  assumes "runtime_keeps_keys E"
    and "\<forall>tx\<in>set (concat bs). \<forall>stx. ve_sanitize E tx = Ok stx \<longrightarrow> wf_message E (st_message stx) \<and> k \<notin> writable_keys (st_message stx)"
    and "leader_at_slot (ls_slot s) (ls_leader_schedule s) \<noteq> Some k"
    and "k \<notin> ve_sysvar_id E ` {SysSlotHistory, SysFeeRateGovernor, SysRecentBlockhashes, SysSoonRecentBlockhashes}"
  shows "get_account k (ls_accounts (snd (execute_raw_block E bs s))) = get_account k (ls_accounts s)"
  using execute_raw_block_frame [OF assms] by (rule keeps_account_get)

text \<open>
  C39: a transaction whose message fails in the interpreter, and whose payer can pay, is reported
  without error, and the accounts of its context that it can write are committed as the failed run
  left them.
\<close>

theorem failed_transaction_is_committed:
  assumes "sanitize_transaction E (ls_sig_verify s) tx = Ok stx" and "check_and_process_transaction E stx s = (Ok p, s1)"
    and "pr_context p = Some cx" and "pr_result p = Err e" and "pr_payer_key p = Some payer"
    and "get_account payer (ls_accounts s) = Some a" and "pr_fee p \<le> ac_lamports a"
  shows "\<exists>meta s2. send_transaction E tx s = (Ok (None, meta), s2)
    \<and> (\<forall>k a. map_of (rev (post_accounts_of (st_message stx) cx)) k = Some a
          \<longrightarrow> get_account k (ls_accounts s2) = Some (snd (ve_collect_rent E (ls_rent_epoch s) k a)))"
  using assms by (rule send_failed_with_context)

text \<open>
  C40: a transaction that fails before it runs charges nobody, but its fee is paid to the leader: after the
  block of this transaction the leader's account holds the fee more, and every account that is not a
  sysvar of the block's end holds what it held.
\<close>

theorem uncharged_fee_is_paid_out:
  assumes "sanitize_transaction E (ls_sig_verify s) tx = Ok stx" and "check_and_process_transaction E stx s = (Ok p, s1)"
    and "pr_context p = None" and "pr_result p = Err e" and "pr_fee p > 0"
    and "leader_at_slot (ls_slot s) (ls_leader_schedule s) = Some c" and "get_account c (ls_accounts s) = Some a"
    and "unat (ac_lamports a) + unat (pr_fee p) < 2 ^ 64" and "\<not> ve_validate_fee_collector E"
    and "c \<notin> ve_sysvar_id E ` {SysSlotHistory, SysFeeRateGovernor, SysRecentBlockhashes, SysSoonRecentBlockhashes}"
  shows "get_account c (ls_accounts (snd (execute_raw_block E [[tx]] s))) = Some (a\<lparr>ac_lamports := ac_lamports a + pr_fee p\<rparr>)
    \<and> (k \<noteq> c \<and> k \<notin> ve_sysvar_id E ` {SysSlotHistory, SysFeeRateGovernor, SysRecentBlockhashes, SysSoonRecentBlockhashes}
         \<longrightarrow> get_account k (ls_accounts (snd (execute_raw_block E [[tx]] s))) = get_account k (ls_accounts s))"
proof -
  obtain meta s2 where s2: "send_transaction E tx s = (Ok (Some e, meta), s2)" "tm_fee meta = pr_fee p" "only_ledger s s2" "same_accounts (ls_accounts s) (ls_accounts s2)"
    using send_failed_without_context [OF assms(1-4)] by blast
  note d = only_ledgerD [OF s2(3)] and g = same_accounts_get [OF s2(4)]
  have fees: "block_fees [(Some e, meta)] = pr_fee p" by (simp add: block_fees_def s2(2))
  let ?fin = "sbind (seal_block E [(Some e, meta)] s2) (\<lambda>_ s. sbind (process_entries_and_register_blockhash E [[tx]] s) (\<lambda>_ s. (Ok [(Some e, meta)], s)))"
  have x: "execute_raw_block E [[tx]] s = ?fin" by (simp add: execute_raw_block_def s2(1))
  have "get_account c (ls_accounts (snd ?fin)) = Some (a\<lparr>ac_lamports := ac_lamports a + pr_fee p\<rparr>)"
    using block_end_pays_leader [of s2 c E "[(Some e, meta)]" a "[[tx]]"] assms(5-10) d(3,4) g fees by simp
  moreover have "get_account k (ls_accounts (snd ?fin)) = get_account k (ls_accounts s)"
    if "k \<noteq> c" "k \<notin> ve_sysvar_id E ` end_sysvars"
    using block_end_frame [OF that(2), of s2 "[(Some e, meta)]" "[[tx]]"] that(1) assms(6) d(3,4) g by (auto dest!: keeps_account_get)
  ultimately show ?thesis unfolding x by blast
qed

text \<open>
  C18: no message runs before its payer paid: behind every context is a call of the interpreter whose
  first account is the message's first account, after rent was collected, less exactly the fee, which it
  could pay; and when the transaction succeeded, every account with data that it may write moved to a
  rent state that is allowed from the state it had before.
\<close>

theorem transaction_runs_charged:
  assumes "process_transaction E tx price limits s = (Ok p, s')" and "wf_message E (st_message tx)" and "pr_context p = Some cx"
    and "runtime_keeps_keys E"
  shows "\<exists>indices accounts db r units payer.
      ve_process_message E (st_message tx) indices accounts db = (r, units, cx)
    \<and> payer = snd (ve_collect_rent E (ls_rent_epoch s) (hd (ms_account_keys (st_message tx)))
          (case get_account (hd (ms_account_keys (st_message tx))) (ls_accounts s) of Some a \<Rightarrow> a | None \<Rightarrow> account_default))
    \<and> pr_fee p \<le> ac_lamports payer
    \<and> hd accounts = (hd (ms_account_keys (st_message tx)), payer\<lparr>ac_lamports := ac_lamports payer - pr_fee p\<rparr>)
    \<and> (pr_result p = Ok () \<longrightarrow>
        (\<forall>i < length (ms_account_keys (st_message tx)). ms_is_writable (st_message tx) i \<and> ac_data (snd (cx_accounts cx ! i)) \<noteq> [] \<longrightarrow>
          transition_allowed_from (rent_state_of (ve_rent E) (snd (cx_accounts cx ! i)))
            (rent_state_of (ve_rent E) (case get_account (ms_account_keys (st_message tx) ! i) (ls_accounts s) of Some a \<Rightarrow> a | None \<Rightarrow> account_default))))"
proof -
  let ?m = "st_message tx" and ?k = "hd (ms_account_keys (st_message tx))"
  obtain indices accounts db r units payer ls where *: "ve_process_message E ?m indices accounts db = (r, units, cx)"
      "map fst accounts = ms_account_keys ?m @ ls" "payer = snd (ve_collect_rent E (ls_rent_epoch s) ?k (account_or_default ?k s))"
      "validate_fee_payer E ?k 0 (pr_fee p) payer = (Ok (), snd (hd accounts))"
      "pr_result p = Ok () \<longrightarrow> check_accounts_rent E ?m cx db = Ok ()" "same_accounts (ls_accounts s) db"
    using process_transaction_charges [OF assms(1-3)] by blast
  note v = validate_fee_payer_Ok [OF *(4)]
  have "ms_account_keys ?m \<noteq> []" using assms(2) by (simp add: wf_message_def)
  then have "fst (hd accounts) = ?k" using *(2) by (cases accounts; cases "ms_account_keys ?m") auto
  then have hd: "hd accounts = (?k, payer\<lparr>ac_lamports := ac_lamports payer - pr_fee p\<rparr>)" using v(4) by (metis prod.collapse)
  have keys: "fst (cx_accounts cx ! i) = ms_account_keys ?m ! i" if "i < length (ms_account_keys ?m)" for i
  proof -
    have "map fst (cx_accounts cx) = ms_account_keys ?m @ ls" using assms(4) *(1,2) by (auto simp: runtime_keeps_keys_def)
    then show ?thesis using that by (metis length_append length_map nth_append nth_map trans_less_add1)
  qed
  have "transition_allowed_from (rent_state_of (ve_rent E) (snd (cx_accounts cx ! i))) (rent_state_of (ve_rent E) (account_or_default (ms_account_keys ?m ! i) s))"
    if "pr_result p = Ok ()" "i < length (ms_account_keys ?m)" "ms_is_writable ?m i" "ac_data (snd (cx_accounts cx ! i)) \<noteq> []" for i
    using check_accounts_rent_from_Ok [of E ?m cx db "[0..<length (ms_account_keys ?m)]" i] *(5) that keys [OF that(2)] same_accounts_get [OF *(6)]
    by (simp add: check_accounts_rent_def)
  with *(1,3) v(3) hd show ?thesis by blast
qed

text \<open>
  C13: a block that is executed seals the hash that chains its batches onto the last one, registers it at
  the price of the block, and the next block that starts from its accounts of recent blockhashes takes
  this hash for its parent's, and knows exactly the newest hashes that the account keeps_account.
\<close>

theorem next_block_builds_on_this:
  assumes x: "execute_raw_block E bs s = (Ok rs, s')" and "\<exists>b\<in>set bs. b \<noteq> []" and "ls_ticks_per_slot s > 0" and "ls_hashes_per_tick s = 0"
    and q: "queue_holds (ls_blockhash_queue s) ((h, l) # es) n" and "Suc n < 2 ^ 64"
    and fresh: "chain_hash (ve_sha256 E) (ve_signatures E) h bs \<notin> fst ` set ((h, l) # es)"
    and sha: "sha_32 (ve_sha256 E)" and len: "\<forall>e\<in>set ((h, l) # es). length (fst e) = 32" and codec: "recent_codec E" and age: "ve_max_processing_age E > 0"
    and t: "get_account (ve_sysvar_id E SysSoonRecentBlockhashes) (ls_accounts t) = get_account (ve_sysvar_id E SysSoonRecentBlockhashes) (ls_accounts s')"
  shows "ls_blockhash s' = Some (chain_hash (ve_sha256 E) (ve_signatures E) h bs)
    \<and> (\<exists>t'. restore_blockhash_queue E t = (Ok (), t') \<and> ls_parent_blockhash t' = ls_blockhash s'
        \<and> (let es' = take (unat (ve_max_processing_age E)) ((chain_hash (ve_sha256 E) (ve_signatures E) h bs, fg_lamports_per_signature (ls_fee_rate_governor s))
                        # take (unat (bh_max_age (ls_blockhash_queue s))) ((h, l) # es))
           in queue_holds (ls_blockhash_queue t') es' (length es')))"
proof -
  let ?H = "svm_chain_hash E h bs" and ?M = "unat (ve_max_processing_age E)" and ?l = "fg_lamports_per_signature (ls_fee_rate_governor s)"
  let ?es = "(?H, ?l) # take (unat (bh_max_age (ls_blockhash_queue s))) ((h, l) # es)"
  have lh: "bh_last_hash (ls_blockhash_queue s) = Some h" using q by (simp add: queue_holds_def)
  note r = execute_raw_block_registers [OF x assms(2-4) lh]
  have holds: "queue_holds (register_block ?H s) ?es (Suc n)" by (rule register_holds [OF q fresh assms(6)])
  note hd = queue_holdsD [OF holds]
  have M: "?M > 0" using age by (simp add: word_less_nat_alt)
  obtain k where data: "sysvar_data E SysSoonRecentBlockhashes t = Some (ve_recent_bytes E (take ?M ?es) @ replicate k 0)"
    using r(3) t recent_holds [OF holds, of ?M] by (auto simp: sysvar_data_def)
  obtain rest where tk: "take ?M ?es = (?H, ?l) # rest" using M by (cases ?M) simp_all
  have "length (fst e) = 32" if "e \<in> set (take j ((h, l) # es))" for e j using len that in_set_takeD by fast
  then have "\<forall>e\<in>set ?es. length (fst e) = 32" using chain_hash_32 [OF sha, of h] len by simp
  then have "\<forall>e\<in>set (take ?M ?es). length (fst e) = 32" by (meson in_set_takeD)
  moreover have "length (take ?M ?es) \<le> ?M" by simp
  ultimately have rs: "restore_blockhash_queue E t
    = (Ok (), t\<lparr>ls_blockhash_queue := queue_of_entries (ve_max_recent_blockhashes E) (take ?M ?es), ls_parent_blockhash := Some ?H\<rparr>)"
    using restore_of_entries [OF codec, of t "(?H, ?l)" rest k] data unfolding tk by simp
  have "distinct (map fst (take ?M ?es))" using hd(2) by (metis distinct_take take_map)
  moreover have "length (take ?M ?es) < 2 ^ 64" using hd(3,4) by simp
  ultimately have "queue_holds (queue_of_entries (ve_max_recent_blockhashes E) (take ?M ?es)) (take ?M ?es) (length (take ?M ?es))" by (rule restored_holds)
  then show ?thesis using r(1) rs by (simp add: Let_def)
qed

subsection \<open>Examples\<close>

text \<open>
  A payer \<open>[1]\<close>, a receiver \<open>[2]\<close>, a builtin program \<open>[3]\<close> and a leader \<open>[4]\<close>; the program gives the
  receiver a lamport and then answers as it is told.
\<close>

definition lx_account :: "u64 \<Rightarrow> account" where
  "lx_account lamports = account_new lamports 0 [0]"

definition lx_callback :: accounts_callback where
  "lx_callback = memory_callback
     [([1], lx_account 100), ([2], lx_account 10), ([3], (lx_account 1)\<lparr>ac_owner := [9], ac_executable := True\<rparr>), ([4], lx_account 7)]"

definition lx_message :: message where
  "lx_message = \<lparr>ms_account_keys = [[1], [2], [3]], ms_is_writable = (\<lambda>i. i < 2), ms_is_invoked = (\<lambda>i. i = 2), ms_is_instruction_account = (\<lambda>i. i < 2),
     ms_program_id_indices = [2], ms_recent_blockhash = [], ms_num_required_signatures = 1, ms_durable_nonce = None, ms_nonce_signers = [], ms_instructions_data = []\<rparr>"

definition lx_tx :: sanitized_tx where
  "lx_tx = \<lparr>st_signature = [5], st_message = lx_message\<rparr>"

definition lx_run :: "(unit, transaction_error) res \<Rightarrow> (pubkey \<times> account) list \<Rightarrow> (unit, transaction_error) res \<times> u64 \<times> transaction_context" where
  "lx_run r accounts = (r, 3,
     \<lparr>cx_accounts = map (\<lambda>(k, a). if k = [2] then (k, a\<lparr>ac_lamports := ac_lamports a + 1\<rparr>) else (k, a)) accounts, cx_return_data = [], cx_trace = []\<rparr>)"

fun lx_decode :: "nat \<Rightarrow> bytes \<Rightarrow> (b256 \<times> u64) list" where
  "lx_decode 0 b = []"
| "lx_decode (Suc n) b = (take 32 b, of_nat (nat_of_be (take 8 (drop 32 b)))) # lx_decode n (drop 40 b)"

definition lx_encode :: "(b256 \<times> u64) list \<Rightarrow> bytes" where
  "lx_encode es = concat (map (\<lambda>(h, l). h @ be_of_nat 8 (unat l)) es)"

definition lx_loaders :: "unit loaders" where
  "lx_loaders = \<lparr>lo_native_loader = [9], lo_bpf_loader = [10], lo_bpf_loader_deprecated = [11], lo_bpf_loader_upgradeable = [12], lo_loader_v4 = [13],
     lo_system_program = [0], lo_program_state = (\<lambda>_. None), lo_programdata_metadata = 0, lo_program_data_offset = 0, lo_new_program = (\<lambda>_ _ _ _. None),
     lo_sysvars = [], lo_clock_id = [20], lo_rent_id = [26], lo_clock = (\<lambda>_. None), lo_rent = (\<lambda>_. None)\<rparr>"

definition lx_sha :: sha256 where
  "lx_sha = \<lparr>hf_hashv = (\<lambda>bs. take 32 (rev (concat bs) @ replicate 32 0))\<rparr>"

fun lx_sysvar_id :: "sysvar \<Rightarrow> pubkey" where
  "lx_sysvar_id SysClock = [20]"
| "lx_sysvar_id SysSlotHistory = [21]"
| "lx_sysvar_id SysSlotHashes = [22]"
| "lx_sysvar_id SysRecentBlockhashes = [23]"
| "lx_sysvar_id SysSoonRecentBlockhashes = [24]"
| "lx_sysvar_id SysFeeRateGovernor = [25]"

definition lx_svm_env :: "u64 \<Rightarrow> (unit, transaction_error) res \<Rightarrow> (sanitized_tx, unit, unit) svm_env" where
  "lx_svm_env fee r = \<lparr>ve_loaders = lx_loaders, ve_sha256 = lx_sha, ve_signatures = (\<lambda>tx. [st_signature tx]), ve_sanitize = Ok,
     ve_verify = (\<lambda>_. Ok ()), ve_verify_precompiles = (\<lambda>_. Ok ()), ve_compute_budget_limits = (\<lambda>_. Ok ()), ve_calculate_fee = (\<lambda>_ _ _. fee),
     ve_collect_rent = (\<lambda>_ _ a. (0, a)), ve_system_account_kind = (\<lambda>_. Some System), ve_nonce_size = 80, ve_process_message = (\<lambda>_ _ accounts _. lx_run r accounts),
     ve_verify_nonce_account = (\<lambda>_ _. None), ve_durable_nonce = id, ve_rent = \<lparr>rn_minimum_balance = (\<lambda>_. 1), rn_is_exempt = (\<lambda>_ _. True)\<rparr>,
     ve_instructions_id = [6], ve_sysvar_owner = [8], ve_incinerator = [7], ve_no_sig_tx_payer = [14], ve_validate_fee_collector = False,
     ve_max_processing_age = 2, ve_max_recent_blockhashes = 300, ve_max_recent_entries = 2, ve_get_epoch = (\<lambda>_. 0), ve_leader_schedule_epoch = (\<lambda>_. 1),
     ve_sysvar_id = lx_sysvar_id, ve_sdk_size = (\<lambda>_. 100), ve_clock_of = (\<lambda>_. Err []), ve_clock_bytes = (\<lambda>_. []), ve_slot_history_add = (\<lambda>_ _. []),
     ve_slot_hashes_add = (\<lambda>_ _ _. []), ve_recent_of = (\<lambda>b. case b of [] \<Rightarrow> Err [] | n # b \<Rightarrow> Ok (lx_decode (unat n) b)),
     ve_recent_bytes = (\<lambda>es. of_nat (length es) # lx_encode es), ve_governor_of = (\<lambda>_. Err []), ve_governor_bytes = (\<lambda>_. []), ve_new_derived = (\<lambda>g _. g)\<rparr>"

definition lx_executor :: "unit lite_svm" where
  "lx_executor = (svm_default (lx_svm_env 5 (Ok ())))\<lparr>ls_accounts := set_callback lx_callback accounts_db_default, ls_leader_schedule := [(0, [4])],
     ls_blockhash_queue := queue_of_entries 300 [(replicate 32 1, 5)]\<rparr>"

lemmas lx_svm_defs = lx_account_def lx_callback_def lx_message_def lx_tx_def lx_run_def lx_loaders_def lx_svm_env_def lx_executor_def svm_default_def
  set_callback_def accounts_db_default_def memory_callback_def account_new_def

lemma lx_runtime_keeps_keys: "runtime_keeps_keys (lx_svm_env fee r)"
  by (auto simp: runtime_keeps_keys_def lx_svm_env_def lx_run_def)

lemma lx_wf_message: "wf_message (lx_svm_env fee r) lx_message"
  by (auto simp: wf_message_def lx_message_def lx_svm_env_def)

lemma lx_sha_32: "sha_32 (ve_sha256 (lx_svm_env fee r))"
  by (auto simp: sha_32_def lx_svm_env_def lx_sha_def min_def)

lemma lx_decode_encode: "(\<forall>e\<in>set es. length (fst e) = 32) \<Longrightarrow> lx_decode (length es) (lx_encode es @ b) = es"
proof (induction es)
  case (Cons e es)
  obtain h l where e: "e = (h, l)" by (cases e)
  have "(of_nat (nat_of_be (be_of_nat 8 (unat l))) :: u64) = l" using unsigned_less [of l, where ?'a = nat] by (simp add: nat_of_be_of_nat)
  with Cons show ?case by (simp add: e lx_encode_def)
qed simp

lemma lx_recent_codec: "recent_codec (lx_svm_env fee r)"
proof -
  have "unat (of_nat (length es) :: u8) = length es" if "length es \<le> 2" for es :: "(b256 \<times> u64) list"
    using that by (simp add: unat_of_nat)
  then show ?thesis by (auto simp: recent_codec_def lx_svm_env_def lx_decode_encode)
qed

lemma lx_process:
  "process_transaction (lx_svm_env 5 r) lx_tx price () lx_executor
    = (Ok \<lparr>pr_result = r, pr_compute_units = 3,
           pr_context = Some \<lparr>cx_accounts = [([1], lx_account 95), ([2], lx_account 11), ([3], (lx_account 1)\<lparr>ac_owner := [9], ac_executable := True\<rparr>)], cx_return_data = [], cx_trace = []\<rparr>,
           pr_fee = 5, pr_payer_key = Some [1], pr_fee_payer_rent_debit = 0\<rparr>, lx_executor)"
  by (simp add: process_transaction_def load_key_def load_account_def get_account_def validate_fee_payer_def
      check_rent_state_with_account_def rent_state_of_def instruction_program_def check_accounts_rent_def lx_svm_defs)

lemma lx_processed: "check_and_process_transaction (lx_svm_env 5 r) lx_tx lx_executor = process_transaction (lx_svm_env 5 r) lx_tx 0 () lx_executor"
  by (simp add: check_and_process_transaction_def maybe_blockhash_check_def lx_executor_def svm_default_def lx_svm_env_def)

lemma lx_unpayable:
  "check_and_process_transaction (lx_svm_env 500 r) lx_tx lx_executor
    = (Ok \<lparr>pr_result = Err TxInsufficientFundsForFee, pr_compute_units = 0, pr_context = None, pr_fee = 500, pr_payer_key = None, pr_fee_payer_rent_debit = 0\<rparr>, lx_executor)"
  by (simp add: check_and_process_transaction_def maybe_blockhash_check_def process_transaction_def load_key_def load_account_def get_account_def validate_fee_payer_def lx_svm_defs)

lemma lx_sanitize: "sanitize_transaction (lx_svm_env fee r) v tx = Ok tx"
  by (simp add: sanitize_transaction_def lx_svm_env_def)

lemma lx_get [simp]:
  "get_account [1] (ls_accounts lx_executor) = Some (lx_account 100)" "get_account [2] (ls_accounts lx_executor) = Some (lx_account 10)"
  "get_account [4] (ls_accounts lx_executor) = Some (lx_account 7)"
  by (simp_all add: get_account_def lx_executor_def set_callback_def lx_callback_def memory_callback_def accounts_db_default_def)

lemma lx_fields [simp]:
  "ls_rent_epoch lx_executor = 0" "ls_slot lx_executor = 0" "ls_leader_schedule lx_executor = [(0, [4])]" "ls_ticks_per_slot lx_executor = 64" "ls_hashes_per_tick lx_executor = 0"
  "ls_blockhash_queue lx_executor = queue_of_entries 300 [(replicate 32 1, 5)]"
  by (simp_all add: lx_executor_def svm_default_def)

lemma lx_env [simp]:
  "ve_sanitize (lx_svm_env fee r) = Ok" "ve_sysvar_id (lx_svm_env fee r) = lx_sysvar_id" "ve_validate_fee_collector (lx_svm_env fee r) = False"
  "ve_collect_rent (lx_svm_env fee r) = (\<lambda>_ _ a. (0, a))" "ve_max_processing_age (lx_svm_env fee r) = 2"
  "ve_slot_history_add (lx_svm_env fee r) = (\<lambda>_ _. [])" "ve_governor_bytes (lx_svm_env fee r) = (\<lambda>_. [])"
  "ve_recent_bytes (lx_svm_env fee r) = (\<lambda>es. of_nat (length es) # lx_encode es)" "ve_max_recent_entries (lx_svm_env fee r) = 2"
  "ve_sdk_size (lx_svm_env fee r) = (\<lambda>_. 100)"
  by (simp_all add: lx_svm_env_def)

lemma lx_leader [simp]: "leader_at_slot 0 [(0, [4])] = Some [4]"
  by (simp add: leader_at_slot_def)

theorem block_touches_writable_witness:
  "get_account [3] (ls_accounts (snd (execute_raw_block (lx_svm_env 5 (Ok ())) [[lx_tx]] lx_executor))) = get_account [3] (ls_accounts lx_executor)"
  by (rule block_touches_writable [OF lx_runtime_keeps_keys])
     (use lx_wf_message in \<open>auto simp: lx_tx_def writable_keys_def lx_message_def nth_Cons' split: if_splits\<close>)

theorem failed_transaction_is_committed_witness:
  "\<exists>meta s2. send_transaction (lx_svm_env 5 (Err (TxOther ''failed''))) lx_tx lx_executor = (Ok (None, meta), s2)
    \<and> get_account [2] (ls_accounts s2) = Some (lx_account 11)"
  using failed_transaction_is_committed [OF lx_sanitize lx_processed [unfolded lx_process], unfolded processed.select_convs, OF refl refl refl lx_get(1)]
  by (fastforce simp: post_accounts_of_def lx_tx_def lx_message_def lx_account_def account_new_def)

theorem uncharged_fee_is_paid_out_witness:
  "get_account [4] (ls_accounts (snd (execute_raw_block (lx_svm_env 500 (Ok ())) [[lx_tx]] lx_executor))) = Some ((lx_account 7)\<lparr>ac_lamports := 507\<rparr>)
    \<and> get_account [1] (ls_accounts (snd (execute_raw_block (lx_svm_env 500 (Ok ())) [[lx_tx]] lx_executor))) = Some (lx_account 100)"
  using uncharged_fee_is_paid_out [OF lx_sanitize lx_unpayable, of TxInsufficientFundsForFee "[4]" "lx_account 7" "Ok ()" "[1]"]
  by (simp add: lx_account_def account_new_def)

theorem transaction_runs_charged_witness:
  "\<exists>indices accounts db r units cx. ve_process_message (lx_svm_env 5 (Ok ())) (st_message lx_tx) indices accounts db = (r, units, cx)
    \<and> hd accounts = ([1], lx_account 95)"
  using transaction_runs_charged [OF lx_process [of "Ok ()" 0], OF _ _ lx_runtime_keeps_keys] lx_wf_message
  by (fastforce simp: lx_tx_def lx_message_def lx_account_def account_new_def)

lemma update_sysvar_Ok: "length ser \<le> sysvar_size E v \<Longrightarrow> fst (update_sysvar E v ser s) = Ok ()"
  by (simp add: update_sysvar_def Let_def add_diff_unchecked)

lemma fst_sbind_Ok: "\<lbrakk> fst r = Ok x; fst (k x (snd r)) = Ok y \<rbrakk> \<Longrightarrow> fst (sbind r k) = Ok y"
  by (cases r) simp

lemma lx_length_encode: "(\<forall>e\<in>set es. length (fst e) = 32) \<Longrightarrow> length (lx_encode es) = 40 * length es"
  by (induction es) (auto simp: lx_encode_def)

lemma lx_queue: "queue_holds (ls_blockhash_queue lx_executor) [(replicate 32 1, 5)] (Suc 0)"
  using restored_holds [of "[(replicate 32 1, 5)]" 300] by simp

lemma merkle_root_single: "merkle_root F [x] = x"
  by (subst merkle_root.simps) simp

lemma lx_hash: "chain_hash (ve_sha256 (lx_svm_env fee r)) (ve_signatures (lx_svm_env fee r)) (replicate 32 1) [[lx_tx]] = replicate 31 0 @ [5]"
  by (simp add: chain_hash_def hash_transactions_def get_root_new hash_leaf_def lx_svm_env_def lx_sha_def lx_tx_def merkle_root_single numeral_eq_Suc)

lemma lx_send: "\<exists>meta s1. send_transaction (lx_svm_env 5 (Ok ())) lx_tx lx_executor = (Ok (None, meta), s1) \<and> tm_fee meta = 5 \<and> get_account [4] (ls_accounts s1) = Some (lx_account 7)"
proof -
  let ?E = "lx_svm_env 5 (Ok ())"
  have w: "[4] \<notin> writable_keys (st_message lx_tx)" by (auto simp: writable_keys_def lx_tx_def lx_message_def nth_Cons' split: if_splits)
  have "keeps_account [4] lx_executor (snd (send_transaction ?E lx_tx lx_executor))"
    using send_transaction_frame [of ?E lx_tx lx_executor "[4]"] lx_wf_message lx_runtime_keeps_keys w by (simp add: lx_tx_def)
  moreover have "\<exists>meta s1. send_transaction ?E lx_tx lx_executor = (Ok (None, meta), s1) \<and> tm_fee meta = 5"
    by (simp add: send_transaction_def execute_transaction_def lx_sanitize execute_sanitized_transaction_def lx_processed lx_process check_tx_result_def
        execution_result_if_context_def metadata_of_def Let_def)
  ultimately show ?thesis by (auto dest: keeps_account_get)
qed

lemma lx_register:
  assumes "ls_blockhash_queue s = ls_blockhash_queue lx_executor"
  shows "fst (register_recent_blockhash (lx_svm_env 5 (Ok ())) (replicate 31 0 @ [5]) s) = Ok ()"
proof -
  let ?E = "lx_svm_env 5 (Ok ())" and ?l = "fg_lamports_per_signature (ls_fee_rate_governor s)"
  let ?es = "[(replicate 31 0 @ [5], ?l), (replicate 32 1, 5)] :: (b256 \<times> u64) list"
  have "replicate 31 0 @ [5] \<noteq> (replicate 32 1 :: b256)" by (auto dest: arg_cong [where f = last])
  then have "queue_holds (register_block (replicate 31 0 @ [5]) s) ?es (Suc (Suc 0))"
    using register_holds [OF lx_queue, of "replicate 31 0 @ [5]" ?l] assms by (simp add: queue_of_entries_def Let_def take_Cons')
  from recent_holds [OF this, of 2] have r: "recent_entries 2 (register_block (replicate 31 0 @ [5]) s) = ?es" by simp
  have "length (lx_encode ?es) = 80" by (subst lx_length_encode) simp_all
  then show ?thesis unfolding register_recent_blockhash_def update_recent_blockhashes_def Let_def
    by (intro fst_sbind_Ok update_sysvar_Ok) (simp_all add: r sysvar_size_def update_sysvar_Ok)
qed

lemma lx_block: "\<exists>rs s'. execute_raw_block (lx_svm_env 5 (Ok ())) [[lx_tx]] lx_executor = (Ok rs, s')"
proof -
  let ?E = "lx_svm_env 5 (Ok ())"
  obtain meta s1 where s1: "send_transaction ?E lx_tx lx_executor = (Ok (None, meta), s1)" "tm_fee meta = 5" "get_account [4] (ls_accounts s1) = Some (lx_account 7)"
    using lx_send by blast
  have l1: "only_ledger lx_executor s1" using send_only_ledger [of lx_executor ?E lx_tx] s1(1) by simp
  let ?rs = "[(None, meta)]"
  have "fst (pay_leader ?E 5 s1) = Ok ()"
    using mint_Ok [OF s1(3), of 5] only_ledgerD(3,4) [OF l1] by (simp add: pay_leader_def lx_account_def account_new_def)
  then have "fst (seal_block ?E ?rs s1) = Ok ()"
    unfolding seal_block_alt update_slot_history_def update_fee_rate_governor_def
    by (intro fst_sbind_Ok update_sysvar_Ok) (simp_all add: block_fees_def s1(2) sysvar_size_def update_sysvar_Ok)
  then obtain s2 where s2: "seal_block ?E ?rs s1 = (Ok (), s2)" by (metis prod.collapse)
  then have "only_ledger lx_executor s2" using only_ledger_trans [OF l1] seal_block_frame by (metis snd_conv)
  note d = only_ledgerD [OF this]
  have "process_entries_and_register_blockhash ?E [[lx_tx]] s2 = register_recent_blockhash ?E (replicate 31 0 @ [5]) (s2\<lparr>ls_blockhash := Some (replicate 31 0 @ [5])\<rparr>)"
    using process_entries_registers [of "[[lx_tx]]" s2 "replicate 32 1" ?E] d by (simp only: lx_hash) (simp add: queue_of_entries_def Let_def)
  moreover have "fst (register_recent_blockhash ?E (replicate 31 0 @ [5]) (s2\<lparr>ls_blockhash := Some (replicate 31 0 @ [5])\<rparr>)) = Ok ()"
    by (rule lx_register) (simp add: d)
  ultimately obtain s3 where "process_entries_and_register_blockhash ?E [[lx_tx]] s2 = (Ok (), s3)" by (metis prod.collapse)
  then show ?thesis by (simp add: execute_raw_block_def s1(1) s2)
qed

theorem next_block_builds_on_this_witness:
  "\<exists>rs s' t'. execute_raw_block (lx_svm_env 5 (Ok ())) [[lx_tx]] lx_executor = (Ok rs, s') \<and> ls_blockhash s' = Some (replicate 31 0 @ [5])
    \<and> restore_blockhash_queue (lx_svm_env 5 (Ok ())) s' = (Ok (), t') \<and> ls_parent_blockhash t' = Some (replicate 31 0 @ [5])"
proof -
  obtain rs s' where x: "execute_raw_block (lx_svm_env 5 (Ok ())) [[lx_tx]] lx_executor = (Ok rs, s')" using lx_block by blast
  have "replicate 31 0 @ [5] \<noteq> (replicate 32 1 :: b256)" by (auto dest: arg_cong [where f = last])
  with next_block_builds_on_this [OF x _ _ _ lx_queue _ _ lx_sha_32 _ lx_recent_codec, of s'] show ?thesis
    by (auto simp: x lx_hash)
qed

end
