(* ===== verification/Blobs.thy ===== *)
theory Blobs
  imports Sources
begin

text \<open>
  Blobs as carriers of data (\<^verbatim>\<open>derive/src/sources/blob_data.rs\<close>, \<^verbatim>\<open>blobs.rs\<close>): the decoder that takes the payload out
  of the field elements of a blob, and the source that hands the payloads out. The payload is proved to be what
  a reference encoder put in.
\<close>

section \<open>Definitions\<close>

datatype blob_decoding_error = InvalidFieldElement | InvalidEncodingVersion | InvalidBlobLength | MissingBlobData

datatype blob_provider_error =
    SidecarLengthMismatch nat nat
  | SlotDerivation
  | BlobDecoding blob_decoding_error
  | BlobBackend string

definition blob_error_kind :: "(blob_provider_error \<Rightarrow> string) \<Rightarrow> blob_provider_error \<Rightarrow> pipeline_error_kind" where
  "blob_error_kind to_string e =
     (case e of BlobBackend _ \<Rightarrow> temp (Provider (to_string e)) | _ \<Rightarrow> crit (Provider (to_string e)))"

definition BLOB_ENCODING_VERSION :: u8 where
  "BLOB_ENCODING_VERSION = 0"

definition BLOB_MAX_DATA_SIZE :: nat where
  "BLOB_MAX_DATA_SIZE = (4 * 31 + 3) * 1024 - 4"

definition BLOB_ENCODING_ROUNDS :: nat where
  "BLOB_ENCODING_ROUNDS = 1024"

text \<open>A constant of EIP-4844: 4096 field elements of 32 bytes.\<close>

definition BYTES_PER_BLOB :: nat where
  "BYTES_PER_BLOB = 131072"

record blob_data =
  bd_data :: "bytes option"
  bd_calldata :: "bytes option"

text \<open>\<open>out[p..p + src.len()].copy_from_slice(src)\<close>, in range.\<close>

definition slice_copy :: "nat \<Rightarrow> bytes \<Rightarrow> bytes \<Rightarrow> bytes" where
  "slice_copy p src out = take p out @ src @ drop (p + length src) out"

definition decode_field_element :: "nat \<Rightarrow> nat \<Rightarrow> bytes \<Rightarrow> blob_data \<Rightarrow> (u8 \<times> nat \<times> nat \<times> bytes, blob_decoding_error) res" where
  "decode_field_element output_pos input_pos output b =
     (case bd_data b of
        None \<Rightarrow> Err MissingBlobData
      | Some data \<Rightarrow>
          if length data \<le> input_pos then Panic
          else if data ! input_pos AND 0xC0 \<noteq> 0 then Err InvalidFieldElement
          else if length output < output_pos + 31 \<or> length data < input_pos + 32 then Panic
          else Ok (data ! input_pos, output_pos + 32, input_pos + 32, slice_copy output_pos (take 31 (drop (input_pos + 1) data)) output))"

definition byte_x :: "u8 \<Rightarrow> u8 \<Rightarrow> u8" where
  "byte_x e0 e1 = (e0 AND 0x3F) OR push_bit 2 (e1 AND 0x30)"

definition byte_y :: "u8 \<Rightarrow> u8 \<Rightarrow> u8" where
  "byte_y e1 e3 = (e1 AND 0x0F) OR push_bit 4 (e3 AND 0x0F)"

definition byte_z :: "u8 \<Rightarrow> u8 \<Rightarrow> u8" where
  "byte_z e2 e3 = (e2 AND 0x3F) OR push_bit 2 (e3 AND 0x30)"

definition reassemble_bytes :: "nat \<Rightarrow> u8 list \<Rightarrow> bytes \<Rightarrow> (nat \<times> bytes, blob_decoding_error) res" where
  "reassemble_bytes output_pos encoded_byte output =
     (if length encoded_byte < 4 \<or> output_pos < 97 \<or> length output + 32 < output_pos then Panic
      else
        let output_pos = output_pos - 1 in
        Ok (output_pos, output
          [output_pos - 32 := byte_z (encoded_byte ! 2) (encoded_byte ! 3),
           output_pos - 32 * 2 := byte_y (encoded_byte ! 1) (encoded_byte ! 3),
           output_pos - 32 * 3 := byte_x (encoded_byte ! 0) (encoded_byte ! 1)]))"

text \<open>The inner loops: the given number of field elements, and their high bytes.\<close>

primrec decode_elements :: "nat \<Rightarrow> nat \<Rightarrow> nat \<Rightarrow> bytes \<Rightarrow> blob_data \<Rightarrow> (u8 list \<times> nat \<times> nat \<times> bytes, blob_decoding_error) res" where
  "decode_elements 0 output_pos input_pos output b = Ok ([], output_pos, input_pos, output)"
| "decode_elements (Suc n) output_pos input_pos output b =
     rthen (decode_field_element output_pos input_pos output b) (\<lambda>(enc, opos, ipos, output).
     rthen (decode_elements n opos ipos output b) (\<lambda>(encs, opos, ipos, output). Ok (enc # encs, opos, ipos, output)))"

primrec decode_rounds :: "nat \<Rightarrow> nat \<Rightarrow> nat \<Rightarrow> nat \<Rightarrow> bytes \<Rightarrow> blob_data \<Rightarrow> (nat \<times> bytes, blob_decoding_error) res" where
  "decode_rounds 0 len output_pos input_pos output b = Ok (input_pos, output)"
| "decode_rounds (Suc n) len output_pos input_pos output b =
     (if output_pos \<ge> len then Ok (input_pos, output)
      else
        rthen (decode_elements 4 output_pos input_pos output b) (\<lambda>(encoded_byte, opos, ipos, output).
        rthen (reassemble_bytes opos encoded_byte output) (\<lambda>(opos, output).
        decode_rounds n len opos ipos output b)))"

definition blob_decode :: "blob_data \<Rightarrow> (bytes, blob_decoding_error) res" where
  "blob_decode b =
     (case bd_data b of
        None \<Rightarrow> Err MissingBlobData
      | Some data \<Rightarrow>
          if length data \<le> 1 then Panic
          else if data ! 1 \<noteq> BLOB_ENCODING_VERSION then Err InvalidEncodingVersion
          else if length data < 5 then Panic
          else
            let len = nat_of_be [data ! 2, data ! 3, data ! 4] in
            if len > BLOB_MAX_DATA_SIZE then Err InvalidBlobLength
            else if length data < 32 then Panic
            else
              let output = slice_copy 0 (take 27 (drop 5 data)) (replicate BLOB_MAX_DATA_SIZE 0) in
              rthen (decode_elements 3 28 32 output b) (\<lambda>(encs, opos, ipos, output).
              rthen (reassemble_bytes opos (data ! 0 # encs) output) (\<lambda>(opos, output).
              rthen (decode_rounds (BLOB_ENCODING_ROUNDS - 1) len opos ipos output b) (\<lambda>(ipos, output).
              if list_ex (\<lambda>o'. o' \<noteq> 0) (drop len output) then Err InvalidFieldElement
              else if list_ex (\<lambda>i. i \<noteq> 0) (drop ipos (take BYTES_PER_BLOB data)) then Err InvalidFieldElement
              else if length data < BYTES_PER_BLOB then Panic
              else Ok (take len output)))))"

text \<open>Filling a placeholder with a fetched blob; the flag says that the blob was used.\<close>

definition blob_fill :: "bytes list \<Rightarrow> nat \<Rightarrow> blob_data \<Rightarrow> (bool, blob_decoding_error) res \<times> blob_data" where
  "blob_fill blobs index b =
     (if bd_calldata b \<noteq> None then (Ok False, b)
      else if index \<ge> length blobs then (Err InvalidBlobLength, b)
      else if blobs ! index = [] \<or> list_all (\<lambda>x. x = 0) (blobs ! index) then (Err MissingBlobData, b)
      else (Ok True, b\<lparr>bd_data := Some (blobs ! index)\<rparr>))"

fun fill_blobs :: "bytes list \<Rightarrow> nat \<Rightarrow> blob_data list \<Rightarrow> (blob_data list, blob_decoding_error) res" where
  "fill_blobs blobs blob_index [] = Ok []"
| "fill_blobs blobs blob_index (b # bs) =
     (case blob_fill blobs blob_index b of
        (Ok used, b) \<Rightarrow> rthen (fill_blobs blobs (if used then blob_index + 1 else blob_index) bs) (\<lambda>bs. Ok (b # bs))
      | (Err e, _) \<Rightarrow> Err e
      | (Panic, _) \<Rightarrow> Panic)"

section \<open>The source\<close>

record blob_source =
  bs_data :: "blob_data list"
  bs_open :: bool

definition blob_source_new :: blob_source where
  "blob_source_new = \<lparr>bs_data = [], bs_open = False\<rparr>"

type_synonym indexed_blob_hash = "u64 \<times> b256"

text \<open>The chain uses another DA layer: no transaction carries blobs.\<close>

definition extract_blob_data :: "l1_transaction list \<Rightarrow> address \<Rightarrow> blob_data list \<times> indexed_blob_hash list" where
  "extract_blob_data txs batcher_address = ([], [])"

text \<open>\<open>blobs\<close> is the blob fetcher; its error is rendered.\<close>

definition load_blobs ::
  "(block_info \<Rightarrow> indexed_blob_hash list \<Rightarrow> (bytes list, string) res) \<Rightarrow> block_info \<Rightarrow> address \<Rightarrow> blob_source
     \<Rightarrow> (unit, blob_provider_error) res \<times> blob_source" where
  "load_blobs get_blobs block_ref batcher_address s =
     (if bs_open s then (Ok (), s)
      else
        let (data, blob_hashes) = extract_blob_data [] batcher_address in
        if blob_hashes = [] then (Ok (), s\<lparr>bs_open := True, bs_data := data\<rparr>)
        else
          rbind (map_err BlobBackend (get_blobs block_ref blob_hashes)) s (\<lambda>blobs.
          rbind (map_err BlobDecoding (fill_blobs blobs 0 data)) s (\<lambda>data.
          (Ok (), s\<lparr>bs_open := True, bs_data := data\<rparr>))))"

text \<open>
  A source that is loaded is open, so the recursion of \<open>next\<close> past blobs that do not decode is over the
  data that is left.
\<close>

fun next_open :: "blob_data list \<Rightarrow> bytes presult \<times> blob_data list" where
  "next_open [] = (Err (temp Eof), [])"
| "next_open (d # ds) =
     (case bd_calldata d of
        Some c \<Rightarrow> (Ok c, ds)
      | None \<Rightarrow>
          (case blob_decode d of
             Ok data \<Rightarrow> (Ok data, ds)
           | Err _ \<Rightarrow> next_open ds
           | Panic \<Rightarrow> (Panic, ds)))"

definition blob_next ::
  "(blob_provider_error \<Rightarrow> string) \<Rightarrow> (block_info \<Rightarrow> indexed_blob_hash list \<Rightarrow> (bytes list, string) res) \<Rightarrow> block_info \<Rightarrow> address
     \<Rightarrow> blob_source \<Rightarrow> bytes presult \<times> blob_source" where
  "blob_next to_string get_blobs block_ref batcher_address s =
     (case load_blobs get_blobs block_ref batcher_address s of
        (Ok _, s) \<Rightarrow> let (r, ds) = next_open (bs_data s) in (r, s\<lparr>bs_data := ds\<rparr>)
      | (Err e, s) \<Rightarrow> (Err (blob_error_kind to_string e), s)
      | (Panic, s) \<Rightarrow> (Panic, s))"

definition blob_clear :: "blob_source \<Rightarrow> blob_source" where
  "blob_clear s = s\<lparr>bs_data := [], bs_open := False\<rparr>"

section \<open>The encoding\<close>

text \<open>
  The reference: four field elements carry 127 bytes, 31 in each of them and three more in the low six bits
  of the first byte of each.
\<close>

definition pack_group :: "bytes \<Rightarrow> bytes" where
  "pack_group g =
     (let x = g ! 31; y = g ! 63; z = g ! 95 in
      (x AND 0x3F) # take 31 g @
      ((y AND 0x0F) OR drop_bit 2 (x AND 0xC0)) # take 31 (drop 32 g) @
      (z AND 0x3F) # take 31 (drop 64 g) @
      (drop_bit 4 (y AND 0xF0) OR drop_bit 2 (z AND 0xC0)) # drop 96 g)"

definition unpack_group :: "bytes \<Rightarrow> bytes" where
  "unpack_group f =
     take 31 (drop 1 f) @ [byte_x (f ! 0) (f ! 32)] @ take 31 (drop 33 f) @ [byte_y (f ! 32) (f ! 96)] @
     take 31 (drop 65 f) @ [byte_z (f ! 64) (f ! 96)] @ take 31 (drop 97 f)"

fun chunks :: "nat \<Rightarrow> nat \<Rightarrow> 'a list \<Rightarrow> 'a list list" where
  "chunks 0 n xs = []"
| "chunks (Suc k) n xs = take n xs # chunks k n (drop n xs)"

definition blob_stream :: "bytes \<Rightarrow> bytes" where
  "blob_stream p = 0 # be_of_nat 3 (length p) @ p @ replicate (BLOB_MAX_DATA_SIZE - length p) 0"

definition blob_encode :: "bytes \<Rightarrow> bytes" where
  "blob_encode p = concat (map pack_group (chunks BLOB_ENCODING_ROUNDS 127 (blob_stream p)))"

section \<open>Lemmas\<close>

subsection \<open>Groups of four field elements\<close>

lemma u8_eqI:
  fixes a b :: u8
  assumes "bit a 0 = bit b 0" "bit a 1 = bit b 1" "bit a 2 = bit b 2" "bit a 3 = bit b 3"
    "bit a 4 = bit b 4" "bit a 5 = bit b 5" "bit a 6 = bit b 6" "bit a 7 = bit b 7"
  shows "a = b"
proof (rule bit_word_eqI)
  fix n assume "n < LENGTH(8)"
  then have "n \<in> {0, 1, 2, 3, 4, 5, 6, 7}" by auto
  then show "bit a n = bit b n" using assms by auto
qed

lemma byte_x_pack: "byte_x (x AND 0x3F) ((y AND 0x0F) OR drop_bit 2 (x AND 0xC0)) = x"
  by (rule u8_eqI) (simp_all add: byte_x_def bit_simps)

lemma byte_y_pack: "byte_y ((y AND 0x0F) OR drop_bit 2 (x AND 0xC0)) (drop_bit 4 (y AND 0xF0) OR drop_bit 2 (z AND 0xC0)) = y"
  by (rule u8_eqI) (simp_all add: byte_y_def bit_simps)

lemma byte_z_pack: "byte_z (z AND 0x3F) (drop_bit 4 (y AND 0xF0) OR drop_bit 2 (z AND 0xC0)) = z"
  by (rule u8_eqI) (simp_all add: byte_z_def bit_simps)

lemma pack_high_bits:
  "(x AND 0x3F) AND 0xC0 = (0 :: u8)" "((y AND 0x0F) OR drop_bit 2 (x AND 0xC0)) AND 0xC0 = (0 :: u8)"
  "(drop_bit 4 (y AND 0xF0) OR drop_bit 2 (z AND 0xC0)) AND 0xC0 = (0 :: u8)"
  by (rule u8_eqI; simp add: bit_simps)+

lemma length_unpack_group [simp]: "length f = 128 \<Longrightarrow> length (unpack_group f) = 127"
  by (simp add: unpack_group_def)

lemma length_pack_group [simp]: "length g = 127 \<Longrightarrow> length (pack_group g) = 128"
  by (simp add: pack_group_def Let_def)

lemma length_chunks [simp]: "length (chunks k n xs) = k"
  by (induction k arbitrary: xs) simp_all

lemma chunks_concat: "length xs = k * n \<Longrightarrow> concat (chunks k n xs) = xs"
  by (induction k arbitrary: xs) simp_all

lemma chunks_length: "length xs = k * n \<Longrightarrow> c \<in> set (chunks k n xs) \<Longrightarrow> length c = n"
proof (induction k arbitrary: xs)
  case (Suc k)
  then show ?case using Suc.IH [of "drop n xs"] by auto
qed simp

lemma drop_chunks: "drop j (chunks k n xs) = chunks (k - j) n (drop (j * n) xs)"
  by (induction k arbitrary: j xs) (auto simp: drop_Cons' add.commute diff_mult_distrib split: nat.split)

text \<open>The high bytes of the field elements of a group, whose top bits are clear.\<close>

definition group_ok :: "bytes \<Rightarrow> bool" where
  "group_ok f \<longleftrightarrow> length f = 128 \<and> f ! 32 AND 0xC0 = 0 \<and> f ! 64 AND 0xC0 = 0 \<and> f ! 96 AND 0xC0 = 0 \<and> f ! 0 AND 0xC0 = 0"

lemma pack_group_parts:
  assumes "length g = 127"
  shows "pack_group g ! 0 = (g ! 31 AND 0x3F)" "pack_group g ! 32 = ((g ! 63 AND 0x0F) OR drop_bit 2 (g ! 31 AND 0xC0))"
    "pack_group g ! 64 = (g ! 95 AND 0x3F)" "pack_group g ! 96 = (drop_bit 4 (g ! 63 AND 0xF0) OR drop_bit 2 (g ! 95 AND 0xC0))"
    "take 31 (drop 1 (pack_group g)) = take 31 g" "take 31 (drop 33 (pack_group g)) = take 31 (drop 32 g)"
    "take 31 (drop 65 (pack_group g)) = take 31 (drop 64 g)" "take 31 (drop 97 (pack_group g)) = drop 96 g"
  using assms by (simp_all add: pack_group_def Let_def nth_append nth_Cons')

lemma group_ok_pack: "length g = 127 \<Longrightarrow> group_ok (pack_group g)"
  by (simp only: group_ok_def length_pack_group pack_group_parts pack_high_bits simp_thms)

lemma unpack_pack:
  assumes "length g = 127"
  shows "unpack_group (pack_group g) = g"
proof -
  have s: "drop n g = g ! n # drop (Suc n) g" if "n < 127" for n using that assms by (simp add: Cons_nth_drop_Suc)
  have "g = take 31 g @ drop 31 g" by simp
  also have "drop 31 g = g ! 31 # take 31 (drop 32 g) @ drop 63 g" using s [of 31] append_take_drop_id [of 31 "drop 32 g"] by simp
  also have "drop 63 g = g ! 63 # take 31 (drop 64 g) @ drop 95 g" using s [of 63] append_take_drop_id [of 31 "drop 64 g"] by simp
  also have "drop 95 g = g ! 95 # drop 96 g" using s [of 95] by simp
  finally have "g = take 31 g @ g ! 31 # take 31 (drop 32 g) @ g ! 63 # take 31 (drop 64 g) @ g ! 95 # drop 96 g" .
  then show ?thesis
    by (simp only: unpack_group_def pack_group_parts [OF assms] byte_x_pack byte_y_pack byte_z_pack append_Cons append_Nil)
qed

lemma pack_zeros: "pack_group (replicate 127 0) = replicate 128 0"
proof -
  have "pack_group (replicate 127 0) = replicate 32 0 @ replicate 32 0 @ replicate 32 0 @ replicate 32 0"
    by (simp add: pack_group_def Let_def flip: replicate_Suc)
  then show ?thesis by (simp flip: replicate_add)
qed

subsection \<open>Decoding a round\<close>

lemma decode_element_at:
  assumes "bd_data b = Some data" and "drop ipos data = e # s @ rest" and "length s = 31" and "e AND 0xC0 = 0"
    and "length A = opos" and "length B = 31"
  shows "decode_field_element opos ipos (A @ B @ C) b = Ok (e, opos + 32, ipos + 32, A @ s @ C)"
proof -
  have l: "ipos < length data" using assms(2) by (metis drop_all leI list.distinct(1))
  have e: "data ! ipos = e" using assms(2) l by (metis Cons_nth_drop_Suc list.inject)
  have d: "drop (Suc ipos) data = s @ rest" using assms(2) l by (metis Cons_nth_drop_Suc list.inject)
  have "length (drop ipos data) = 32 + length rest" using assms(2,3) by simp
  then have "ipos + 32 \<le> length data" by simp
  with l e d assms show ?thesis by (simp add: decode_field_element_def slice_copy_def)
qed

lemma decode_round_at:
  assumes "bd_data b = Some data" and "drop ipos data = f @ rest" and "group_ok f" and "length A = opos"
  shows "rthen (decode_elements 4 opos ipos (A @ replicate 127 0 @ C) b) (\<lambda>(encs, opos, ipos, output).
      rthen (reassemble_bytes opos encs output) (\<lambda>(opos, output). k opos ipos output))
    = k (opos + 127) (ipos + 128) (A @ unpack_group f @ C)"
proof -
  let ?s = "\<lambda>i. take 31 (drop (32 * i + 1) f)"
  have len: "length f = 128" using assms(3) by (simp add: group_ok_def)
  have s: "length (?s 0) = 31" "length (?s 1) = 31" "length (?s 2) = 31" "length (?s 3) = 31" using len by simp_all
  have d: "drop n f = f ! n # take 31 (drop (Suc n) f) @ drop (n + 32) f" if "n < 128" for n
    using that len append_take_drop_id [of 31 "drop (Suc n) f"] by (simp add: Cons_nth_drop_Suc add.commute)
  have dr: "drop (ipos + n) data = f ! n # take 31 (drop (Suc n) f) @ drop (n + 32) f @ rest" if "n < 128" for n
  proof -
    have "drop (ipos + n) data = drop n (drop ipos data)" by (simp add: add.commute)
    then show ?thesis using d [OF that] that len by (simp add: assms(2))
  qed
  note el = decode_element_at [OF assms(1)] and ok = assms(3) [unfolded group_ok_def]
  have 1: "decode_field_element opos ipos (A @ replicate 31 0 @ R) b = Ok (f ! 0, opos + 32, ipos + 32, A @ ?s 0 @ R)" for R
    using el [of ipos "f ! 0" "?s 0" _ A opos "replicate 31 0" R] dr [of 0] s(1) ok assms(4) by simp
  have 2: "decode_field_element (opos + 32) (ipos + 32) (A @ ?s 0 @ 0 # replicate 31 0 @ R) b
      = Ok (f ! 32, opos + 64, ipos + 64, A @ ?s 0 @ 0 # ?s 1 @ R)" for R
    using el [of "ipos + 32" "f ! 32" "?s 1" _ "A @ ?s 0 @ [0]" "opos + 32" "replicate 31 0" R] dr [of 32] s ok assms(4) by simp
  have 3: "decode_field_element (opos + 64) (ipos + 64) (A @ ?s 0 @ 0 # ?s 1 @ 0 # replicate 31 0 @ R) b
      = Ok (f ! 64, opos + 96, ipos + 96, A @ ?s 0 @ 0 # ?s 1 @ 0 # ?s 2 @ R)" for R
    using el [of "ipos + 64" "f ! 64" "?s 2" _ "A @ ?s 0 @ 0 # ?s 1 @ [0]" "opos + 64" "replicate 31 0" R] dr [of 64] s ok assms(4) by simp
  have 4: "decode_field_element (opos + 96) (ipos + 96) (A @ ?s 0 @ 0 # ?s 1 @ 0 # ?s 2 @ 0 # replicate 31 0 @ R) b
      = Ok (f ! 96, opos + 128, ipos + 128, A @ ?s 0 @ 0 # ?s 1 @ 0 # ?s 2 @ 0 # ?s 3 @ R)" for R
    using el [of "ipos + 96" "f ! 96" "?s 3" _ "A @ ?s 0 @ 0 # ?s 1 @ 0 # ?s 2 @ [0]" "opos + 96" "replicate 31 0" R] dr [of 96] s ok assms(4) by simp
  have z: "replicate 127 (0 :: u8) = replicate 31 0 @ 0 # replicate 31 0 @ 0 # replicate 31 0 @ 0 # replicate 31 0"
    by (simp flip: replicate_Suc replicate_add)
  have "decode_elements (Suc (Suc (Suc (Suc 0)))) opos ipos (A @ replicate 127 0 @ C) b
    = Ok ([f ! 0, f ! 32, f ! 64, f ! 96], opos + 128, ipos + 128, A @ ?s 0 @ 0 # ?s 1 @ 0 # ?s 2 @ 0 # ?s 3 @ C)"
    by (simp only: z decode_elements.simps append_assoc append_Cons 1 2 3 4 rthen_simps prod.case)
  moreover have "reassemble_bytes (opos + 128) [f ! 0, f ! 32, f ! 64, f ! 96] (A @ ?s 0 @ 0 # ?s 1 @ 0 # ?s 2 @ 0 # ?s 3 @ C)
    = Ok (opos + 127, A @ unpack_group f @ C)"
    using s assms(4) by (simp add: reassemble_bytes_def unpack_group_def list_update_append Let_def)
  ultimately show ?thesis by (simp add: numeral_eq_Suc)
qed

lemma decode_first_at:
  assumes "bd_data b = Some data" and "data = f @ rest" and "group_ok f"
  shows "rthen (decode_elements 3 28 32 (take 27 (drop 5 f) @ replicate 96 0 @ C) b) (\<lambda>(encs, opos, ipos, output).
      rthen (reassemble_bytes opos (f ! 0 # encs) output) (\<lambda>(opos, output). k opos ipos output))
    = k 123 128 (drop 4 (unpack_group f) @ C)"
proof -
  let ?s = "\<lambda>i. take 31 (drop (32 * i + 1) f)" and ?t = "take 27 (drop 5 f)"
  have len: "length f = 128" using assms(3) by (simp add: group_ok_def)
  have s: "length ?t = 27" "length (?s 1) = 31" "length (?s 2) = 31" "length (?s 3) = 31" using len by simp_all
  have dr: "drop n data = f ! n # take 31 (drop (Suc n) f) @ drop (n + 32) f @ rest" if "n < 128" for n
    using that len append_take_drop_id [of 31 "drop (Suc n) f"] assms(2) by (simp add: Cons_nth_drop_Suc add.commute)
  note el = decode_element_at [OF assms(1)] and ok = assms(3) [unfolded group_ok_def]
  have 1: "decode_field_element 28 32 (?t @ 0 # replicate 31 0 @ R) b = Ok (f ! 32, 60, 64, ?t @ 0 # ?s 1 @ R)" for R
    using el [of 32 "f ! 32" "?s 1" _ "?t @ [0]" 28 "replicate 31 0" R] dr [of 32] s ok by simp
  have 2: "decode_field_element 60 64 (?t @ 0 # ?s 1 @ 0 # replicate 31 0 @ R) b = Ok (f ! 64, 92, 96, ?t @ 0 # ?s 1 @ 0 # ?s 2 @ R)" for R
    using el [of 64 "f ! 64" "?s 2" _ "?t @ 0 # ?s 1 @ [0]" 60 "replicate 31 0" R] dr [of 64] s ok by simp
  have 3: "decode_field_element 92 96 (?t @ 0 # ?s 1 @ 0 # ?s 2 @ 0 # replicate 31 0 @ R) b
      = Ok (f ! 96, 124, 128, ?t @ 0 # ?s 1 @ 0 # ?s 2 @ 0 # ?s 3 @ R)" for R
    using el [of 96 "f ! 96" "?s 3" _ "?t @ 0 # ?s 1 @ 0 # ?s 2 @ [0]" 92 "replicate 31 0" R] dr [of 96] s ok by simp
  have z: "replicate 96 (0 :: u8) = 0 # replicate 31 0 @ 0 # replicate 31 0 @ 0 # replicate 31 0"
    by (simp flip: replicate_Suc replicate_add)
  have "decode_elements (Suc (Suc (Suc 0))) 28 32 (?t @ replicate 96 0 @ C) b
    = Ok ([f ! 32, f ! 64, f ! 96], 124, 128, ?t @ 0 # ?s 1 @ 0 # ?s 2 @ 0 # ?s 3 @ C)"
    by (simp only: z decode_elements.simps append_assoc append_Cons 1 2 3 rthen_simps prod.case)
  moreover have "reassemble_bytes 124 [f ! 0, f ! 32, f ! 64, f ! 96] (?t @ 0 # ?s 1 @ 0 # ?s 2 @ 0 # ?s 3 @ C) = Ok (123, drop 4 (unpack_group f) @ C)"
    using s len by (simp add: reassemble_bytes_def unpack_group_def list_update_append Let_def drop_take)
  ultimately show ?thesis by (simp add: numeral_eq_Suc)
qed

text \<open>The rounds run until the length is covered or all blocks are read.\<close>

lemma decode_rounds_at:
  assumes "bd_data b = Some data" and "drop ipos data = concat fs" and "\<forall>f\<in>set fs. group_ok f" and "length A = opos" and "length fs = n"
  shows "\<exists>k \<le> n. decode_rounds n len opos ipos (A @ replicate (127 * n) 0) b
      = Ok (ipos + 128 * k, A @ concat (map unpack_group (take k fs)) @ replicate (127 * (n - k)) 0) \<and> (k = n \<or> len \<le> opos + 127 * k)"
  using assms
proof (induction n arbitrary: ipos fs A opos)
  case (Suc n)
  show ?case
  proof (cases "len \<le> opos")
    case True
    then show ?thesis by (intro exI [of _ 0]) simp
  next
    case False
    obtain f fs' where fs: "fs = f # fs'" using Suc.prems(5) by (cases fs) auto
    have f: "group_ok f" "length f = 128" using Suc.prems(3) fs by (auto simp: group_ok_def)
    have d: "drop (ipos + 128) data = concat fs'"
    proof -
      have "drop (ipos + 128) data = drop 128 (drop ipos data)" by (simp add: add.commute)
      then show ?thesis using Suc.prems(2) fs f(2) by simp
    qed
    have A: "length (A @ unpack_group f) = opos + 127" using Suc.prems(4) f(2) by simp
    obtain k where k: "k \<le> n" "decode_rounds n len (opos + 127) (ipos + 128) ((A @ unpack_group f) @ replicate (127 * n) 0) b
        = Ok (ipos + 128 + 128 * k, (A @ unpack_group f) @ concat (map unpack_group (take k fs')) @ replicate (127 * (n - k)) 0)"
        "k = n \<or> len \<le> opos + 127 + 127 * k"
      using Suc.IH [OF Suc.prems(1) d _ A] Suc.prems(3,5) fs by auto
    have "decode_rounds (Suc n) len opos ipos (A @ replicate (127 * Suc n) 0) b
      = decode_rounds n len (opos + 127) (ipos + 128) (A @ unpack_group f @ replicate (127 * n) 0) b"
      using False decode_round_at [OF Suc.prems(1), of ipos f "concat fs'" A opos "replicate (127 * n) 0" "\<lambda>opos ipos output. decode_rounds n len opos ipos output b"]
        Suc.prems(2,4) f(1) fs by (simp add: replicate_add)
    with k show ?thesis by (intro exI [of _ "Suc k"]) (auto simp: fs)
  qed
qed simp

subsection \<open>Decoding what was encoded\<close>

lemma chunks_zeros: "chunks k n (replicate (k * n) 0) = replicate k (replicate n 0)"
  by (induction k) simp_all

lemma concat_zeros: "concat (replicate k (replicate n x)) = replicate (n * k) x"
  by (induction k) (simp_all add: replicate_add [symmetric])

lemma concat_take_chunks: "length xs = k * n \<Longrightarrow> j \<le> k \<Longrightarrow> concat (take j (chunks k n xs)) = take (j * n) xs"
proof (induction k arbitrary: j xs)
  case (Suc k)
  then show ?case
  proof (cases j)
    case (Suc j')
    then show ?thesis using Suc.IH [of "drop n xs" j'] Suc.prems by (simp add: take_add)
  qed simp
qed simp

lemma length_blob_stream: "length p \<le> BLOB_MAX_DATA_SIZE \<Longrightarrow> length (blob_stream p) = 1024 * 127"
  by (simp add: blob_stream_def BLOB_MAX_DATA_SIZE_def)

lemma drop_4_stream: "drop 4 (blob_stream p) = p @ replicate (BLOB_MAX_DATA_SIZE - length p) 0"
  by (simp add: blob_stream_def drop_Cons')

lemma length_concat_packed: "\<forall>g\<in>set gs. length g = 127 \<Longrightarrow> length (concat (map pack_group gs)) = 128 * length gs"
  by (induction gs) auto

text \<open>The tail of a blob behind the payload is zero.\<close>

lemma encoded_tail:
  assumes "length p \<le> BLOB_MAX_DATA_SIZE" and "length p + 4 \<le> 127 * j" and "j \<le> 1024"
  shows "drop (128 * j) (blob_encode p) = replicate (128 * (1024 - j)) 0"
proof -
  let ?gs = "chunks 1024 127 (blob_stream p)"
  have l: "\<forall>g\<in>set ?gs. length g = 127" using chunks_length length_blob_stream [OF assms(1)] by blast
  have "concat (map pack_group ?gs) = concat (map pack_group (take j ?gs)) @ concat (map pack_group (drop j ?gs))"
    by (simp flip: concat_append map_append)
  moreover have "length (concat (map pack_group (take j ?gs))) = 128 * j"
    using length_concat_packed [of "take j ?gs"] l assms(3) by (auto dest: in_set_takeD)
  ultimately have "drop (128 * j) (blob_encode p) = concat (map pack_group (drop j ?gs))"
    by (simp add: blob_encode_def BLOB_ENCODING_ROUNDS_def)
  also have "drop j ?gs = chunks (1024 - j) 127 (drop (j * 127) (blob_stream p))" by (rule drop_chunks)
  also have "drop (j * 127) (blob_stream p) = replicate ((1024 - j) * 127) 0"
  proof -
    have "drop (j * 127) (blob_stream p) = drop (j * 127 - 4) (drop 4 (blob_stream p))" using assms(2) by simp
    also have "\<dots> = replicate (BLOB_MAX_DATA_SIZE - length p - (j * 127 - 4 - length p)) 0"
      using assms(2) by (simp only: drop_4_stream drop_append) simp
    also have "BLOB_MAX_DATA_SIZE - length p - (j * 127 - 4 - length p) = (1024 - j) * 127"
      using assms by (simp add: BLOB_MAX_DATA_SIZE_def)
    finally show ?thesis .
  qed
  also have "concat (map pack_group (chunks (1024 - j) 127 (replicate ((1024 - j) * 127) 0))) = concat (replicate (1024 - j) (replicate 128 0))"
    by (simp only: chunks_zeros map_replicate pack_zeros)
  also have "\<dots> = replicate (128 * (1024 - j)) 0"
    by (rule concat_zeros)
  finally show ?thesis .
qed

text \<open>The fields that the decoder reads first.\<close>

lemma encoded_head:
  assumes "length p \<le> BLOB_MAX_DATA_SIZE"
  shows "\<exists>g gs. chunks BLOB_ENCODING_ROUNDS 127 (blob_stream p) = g # gs \<and> length g = 127 \<and> (\<forall>g\<in>set gs. length g = 127) \<and> length gs = 1023
    \<and> blob_encode p = pack_group g @ concat (map pack_group gs) \<and> length (blob_encode p) = BYTES_PER_BLOB
    \<and> blob_encode p ! 1 = BLOB_ENCODING_VERSION
    \<and> nat_of_be [blob_encode p ! 2, blob_encode p ! 3, blob_encode p ! 4] = length p"
proof -
  let ?gs = "chunks 1024 127 (blob_stream p)"
  have l: "\<forall>g\<in>set ?gs. length g = 127" using chunks_length length_blob_stream [OF assms] by blast
  define g where "g = take 127 (blob_stream p)"
  define gs where "gs = chunks 1023 127 (drop 127 (blob_stream p))"
  have gs: "?gs = g # gs" "length gs = 1023" using chunks.simps(2) [of 1023 127 "blob_stream p"] by (simp_all add: g_def gs_def)
  have e: "blob_encode p = pack_group g @ concat (map pack_group gs)" by (simp add: blob_encode_def BLOB_ENCODING_ROUNDS_def gs)
  have lg: "length g = 127" using l gs by simp
  have be: "be_of_nat 3 (length p) = [b1, b2, b3] \<Longrightarrow> nat_of_be [b1, b2, b3] = length p" for b1 b2 b3
    using nat_of_be_of_nat [of 3 "length p"] assms by (simp add: BLOB_MAX_DATA_SIZE_def)
  moreover obtain b1 b2 b3 where b: "be_of_nat 3 (length p) = [b1, b2, b3]"
  proof -
    obtain bs where bs: "be_of_nat 3 (length p) = bs" "length bs = Suc (Suc (Suc 0))" using length_be_of_nat [of 3 "length p"] by simp
    then show thesis using that by (auto simp: length_Suc_conv)
  qed
  ultimately have g: "take 4 g = [0, b1, b2, b3]" by (simp add: g_def blob_stream_def take_Cons')
  have n: "blob_encode p ! Suc i = take 4 g ! i" if "i < 4" for i
  proof -
    have "blob_encode p ! Suc i = take 31 (drop 1 (pack_group g)) ! i" using that lg by (simp add: e nth_append)
    then show ?thesis using that by (simp only: pack_group_parts [OF lg]) simp
  qed
  have "blob_encode p ! 1 = 0" "blob_encode p ! 2 = b1" "blob_encode p ! 3 = b2" "blob_encode p ! 4 = b3"
    using n [of 0, unfolded g] n [of 1, unfolded g] n [of 2, unfolded g] n [of 3, unfolded g] by (simp_all add: numeral_eq_Suc)
  then show ?thesis using gs l lg e be [OF b] length_concat_packed [of gs]
    by (simp add: BLOB_ENCODING_ROUNDS_def BLOB_ENCODING_VERSION_def BYTES_PER_BLOB_def)
qed

lemma blob_decode_encode:
  assumes p: "length p \<le> BLOB_MAX_DATA_SIZE"
  shows "blob_decode \<lparr>bd_data = Some (blob_encode p), bd_calldata = c\<rparr> = Ok p"
proof -
  let ?b = "\<lparr>bd_data = Some (blob_encode p), bd_calldata = c\<rparr>" and ?data = "blob_encode p"
  obtain g gs where gs: "chunks BLOB_ENCODING_ROUNDS 127 (blob_stream p) = g # gs" "length g = 127" "\<forall>g\<in>set gs. length g = 127" "length gs = 1023"
      "?data = pack_group g @ concat (map pack_group gs)" "length ?data = BYTES_PER_BLOB" "?data ! 1 = BLOB_ENCODING_VERSION"
      "nat_of_be [?data ! 2, ?data ! 3, ?data ! 4] = length p"
    using encoded_head [OF p] by blast
  have z: "replicate (BLOB_MAX_DATA_SIZE - 27) (0 :: u8) = replicate 96 0 @ replicate (127 * 1023) 0"
    by (simp add: BLOB_MAX_DATA_SIZE_def flip: replicate_add)
  have out: "slice_copy 0 (take 27 (drop 5 ?data)) (replicate BLOB_MAX_DATA_SIZE 0)
      = take 27 (drop 5 (pack_group g)) @ replicate 96 0 @ replicate (127 * 1023) 0"
    using gs(2) by (simp add: slice_copy_def gs(5) z)
  obtain k where k: "k \<le> 1023" "decode_rounds 1023 (length p) 123 128 (drop 4 g @ replicate (127 * 1023) 0) ?b
      = Ok (128 + 128 * k, drop 4 g @ concat (map unpack_group (take k (map pack_group gs))) @ replicate (127 * (1023 - k)) 0)"
      "k = 1023 \<or> length p \<le> 123 + 127 * k"
    using decode_rounds_at [of ?b ?data 128 "map pack_group gs" "drop 4 g" 123 1023 "length p"] gs by (auto simp: group_ok_pack)
  have "map unpack_group (take k (map pack_group gs)) = take k gs"
    using gs(3) by (auto simp: take_map o_def unpack_pack intro!: map_idI dest: in_set_takeD)
  then have "drop 4 g @ concat (map unpack_group (take k (map pack_group gs))) = drop 4 (concat (take (Suc k) (g # gs)))" using gs(2) by simp
  also have "concat (take (Suc k) (g # gs)) = take (Suc k * 127) (blob_stream p)"
    using concat_take_chunks [of "blob_stream p" 1024 127 "Suc k"] length_blob_stream [OF p] gs(1) k(1) by (simp add: BLOB_ENCODING_ROUNDS_def)
  also have "drop 4 (take (Suc k * 127) (blob_stream p)) = take (123 + 127 * k) (p @ replicate (BLOB_MAX_DATA_SIZE - length p) 0)"
    by (simp add: drop_take drop_4_stream mult.commute)
  also have "\<dots> = p @ replicate (123 + 127 * k - length p) 0" using k(1,3) p by (auto simp: BLOB_MAX_DATA_SIZE_def)
  finally have "drop 4 g @ concat (map unpack_group (take k (map pack_group gs))) @ replicate (127 * (1023 - k)) 0
      = p @ replicate (123 + 127 * k - length p + 127 * (1023 - k)) 0" by (simp add: replicate_add)
  note rounds = k(2) [unfolded this]
  have "length p + 4 \<le> 127 * Suc k" using k(3) p by (auto simp: BLOB_MAX_DATA_SIZE_def)
  with encoded_tail [OF p, of "Suc k"] k(1) have tail: "drop (128 + 128 * k) ?data = replicate (128 * (1023 - k)) 0" by simp
  have f0: "?data ! 0 = pack_group g ! 0" using gs(2) by (simp add: gs(5) nth_append)
  let ?fin = "\<lambda>(ipos, output). if list_ex (\<lambda>o'. o' \<noteq> 0) (drop (length p) output) then Err InvalidFieldElement
      else if list_ex (\<lambda>i. i \<noteq> 0) (drop ipos (take BYTES_PER_BLOB ?data)) then Err InvalidFieldElement
      else if length ?data < BYTES_PER_BLOB then Panic else Ok (take (length p) output)"
  have n: "\<not> BLOB_MAX_DATA_SIZE < length p" "\<not> length ?data \<le> Suc 0" "\<not> length ?data < 5" "\<not> length ?data < 32" using p gs(6) by (simp_all add: BYTES_PER_BLOB_def)
  have "blob_decode ?b = rthen (decode_elements 3 28 32 (take 27 (drop 5 (pack_group g)) @ replicate 96 0 @ replicate (127 * 1023) 0) ?b) (\<lambda>(encs, opos, ipos, output).
      rthen (reassemble_bytes opos (pack_group g ! 0 # encs) output) (\<lambda>(opos, output). rthen (decode_rounds 1023 (length p) opos ipos output ?b) ?fin))"
    unfolding blob_decode_def blob_data.select_convs option.case gs(7,8) out f0 Let_def
    by (simp add: n BLOB_ENCODING_ROUNDS_def)
  also have "\<dots> = rthen (decode_rounds 1023 (length p) 123 128 (drop 4 (unpack_group (pack_group g)) @ replicate (127 * 1023) 0) ?b) ?fin"
    by (rule decode_first_at [OF _ gs(5) group_ok_pack [OF gs(2)]]) simp
  also have "\<dots> = Ok p" unfolding unpack_pack [OF gs(2)] rounds rthen_simps prod.case using tail gs(6) by (simp add: list_ex_iff)
  finally show ?thesis .
qed

subsection \<open>Decoding any blob\<close>

lemma decode_elements_inv:
  assumes "bd_data b = Some data" and "ipos + 32 * n \<le> length data" and "opos + 32 * n \<le> length out + 1"
  shows "case decode_elements n opos ipos out b of
      Ok (encs, opos', ipos', out') \<Rightarrow> length encs = n \<and> opos' = opos + 32 * n \<and> ipos' = ipos + 32 * n \<and> length out' = length out
    | Err _ \<Rightarrow> True | Panic \<Rightarrow> False"
  using assms
proof (induction n arbitrary: opos ipos out)
  case (Suc n)
  let ?out = "slice_copy opos (take 31 (drop (ipos + 1) data)) out"
  have l: "length ?out = length out" using Suc.prems by (simp add: slice_copy_def)
  have "case decode_elements n (opos + 32) (ipos + 32) ?out b of
      Ok (encs, opos', ipos', out') \<Rightarrow> length encs = n \<and> opos' = opos + 32 + 32 * n \<and> ipos' = ipos + 32 + 32 * n \<and> length out' = length ?out
    | Err _ \<Rightarrow> True | Panic \<Rightarrow> False"
    using Suc.prems l by (intro Suc.IH) simp_all
  then show ?case using Suc.prems l
    by (auto simp: decode_field_element_def rthen_def split: res.splits)
qed simp

lemma decode_round_inv:
  assumes "bd_data b = Some data" and "ipos + 128 \<le> length data" and "opos + 127 \<le> length out"
    and "\<And>out'. length out' = length out \<Longrightarrow> Q (k (127 + opos) (ipos + 128) out')" and "\<And>e. Q (Err e)"
  shows "Q (rthen (decode_elements 4 opos ipos out b) (\<lambda>(encs, opos, ipos, output).
      rthen (reassemble_bytes opos encs output) (\<lambda>(opos, output). k opos ipos output)))"
  using decode_elements_inv [OF assms(1), of ipos 4 opos out] assms(2-5)
  by (cases "decode_elements 4 opos ipos out b") (auto simp: reassemble_bytes_def Let_def add.commute [of opos])

lemma decode_rounds_inv:
  assumes "bd_data b = Some data" and "ipos + 128 * n \<le> length data" and "opos + 127 * n \<le> length out"
  shows "decode_rounds n len opos ipos out b \<noteq> Panic"
  using assms
proof (induction n arbitrary: opos ipos out)
  case (Suc n)
  have "(rthen (decode_elements 4 opos ipos out b) (\<lambda>(encs, opos, ipos, output).
      rthen (reassemble_bytes opos encs output) (\<lambda>(opos, output). decode_rounds n len opos ipos output b))) \<noteq> Panic"
    by (rule decode_round_inv [OF Suc.prems(1), where Q = "\<lambda>r. r \<noteq> Panic"]) (use Suc in auto)
  then show ?case by simp
qed simp

lemma blob_decode_total:
  assumes "bd_data b = Some data" and "length data = BYTES_PER_BLOB"
  shows "blob_decode b \<noteq> Panic"
proof -
  let ?out = "slice_copy 0 (take 27 (drop 5 data)) (replicate BLOB_MAX_DATA_SIZE 0)"
  have l: "length ?out = BLOB_MAX_DATA_SIZE" using assms(2) by (simp add: slice_copy_def BLOB_MAX_DATA_SIZE_def BYTES_PER_BLOB_def)
  have "case decode_elements 3 28 32 ?out b of
      Ok (encs, opos', ipos', out') \<Rightarrow> length encs = 3 \<and> opos' = 28 + 32 * 3 \<and> ipos' = 32 + 32 * 3 \<and> length out' = length ?out
    | Err _ \<Rightarrow> True | Panic \<Rightarrow> False"
    using assms l by (intro decode_elements_inv [OF assms(1)]) (simp_all add: BLOB_MAX_DATA_SIZE_def BYTES_PER_BLOB_def)
  moreover have "decode_rounds 1023 len 123 128 out b \<noteq> Panic" if "length out = BLOB_MAX_DATA_SIZE" for len out
    using decode_rounds_inv [OF assms(1), of 128 1023 123 out] assms(2) that by (simp add: BLOB_MAX_DATA_SIZE_def BYTES_PER_BLOB_def)
  ultimately show ?thesis using assms l
    by (auto simp: blob_decode_def Let_def BYTES_PER_BLOB_def BLOB_ENCODING_ROUNDS_def reassemble_bytes_def rthen_def split: res.splits)
       (simp_all add: BLOB_MAX_DATA_SIZE_def)
qed

subsection \<open>The source\<close>

definition placeholder :: blob_data where
  "placeholder = \<lparr>bd_data = None, bd_calldata = None\<rparr>"

definition carrier :: "bytes \<Rightarrow> blob_data" where
  "carrier p = \<lparr>bd_data = Some (blob_encode p), bd_calldata = None\<rparr>"

lemma encoded_not_zero:
  assumes "p \<noteq> []" and "length p \<le> BLOB_MAX_DATA_SIZE"
  shows "\<not> (blob_encode p = [] \<or> list_all (\<lambda>x. x = 0) (blob_encode p))"
proof
  assume z: "blob_encode p = [] \<or> list_all (\<lambda>x. x = 0) (blob_encode p)"
  from encoded_head [OF assms(2)] have l: "length (blob_encode p) = BYTES_PER_BLOB" and n: "nat_of_be [blob_encode p ! 2, blob_encode p ! 3, blob_encode p ! 4] = length p" by blast+
  from z l have "blob_encode p ! i = 0" if "i < 5" for i using that by (auto simp: list_all_length BYTES_PER_BLOB_def)
  with n have "nat_of_be (replicate 3 0) = length p" by (simp add: numeral_3_eq_3)
  with assms(1) show False by simp
qed

lemma fill_encoded:
  assumes "\<forall>p\<in>set ps. p \<noteq> [] \<and> length p \<le> BLOB_MAX_DATA_SIZE"
  shows "fill_blobs (map blob_encode (qs @ ps)) (length qs) (replicate (length ps) placeholder) = Ok (map carrier ps)"
  using assms
proof (induction ps arbitrary: qs)
  case (Cons p ps)
  have "fill_blobs (map blob_encode ((qs @ [p]) @ ps)) (length (qs @ [p])) (replicate (length ps) placeholder) = Ok (map carrier ps)"
    using Cons.prems by (intro Cons.IH) simp
  with Cons.prems encoded_not_zero [of p] show ?case by (simp add: blob_fill_def placeholder_def carrier_def nth_append)
qed simp

lemma pulls_carriers:
  assumes "\<forall>p\<in>set ps. length p \<le> BLOB_MAX_DATA_SIZE"
  shows "pulls (Suc (length ps)) (blob_next to_string get_blobs blk batcher) \<lparr>bs_data = map carrier ps, bs_open = True\<rparr> = map Ok ps @ [Err (temp Eof)]"
  using assms
proof (induction ps)
  case (Cons p ps)
  then show ?case by (simp add: blob_next_def load_blobs_def carrier_def blob_decode_encode)
qed (simp add: blob_next_def load_blobs_def)

section \<open>Properties\<close>

text \<open>
  C22: the payload that was put into a blob, four field elements carrying 127 bytes, is what the decoder
  takes out, for every payload up to the maximal size.
\<close>

theorem blob_roundtrip:
  assumes "length p \<le> BLOB_MAX_DATA_SIZE"
  shows "blob_decode \<lparr>bd_data = Some (blob_encode p), bd_calldata = c\<rparr> = Ok p"
  using assms by (rule blob_decode_encode)

text \<open>
  Decoding a blob of the size that the L1 fixes never panics: it returns the payload or an error.
\<close>

theorem blob_decoding_is_total:
  assumes "bd_data b = Some data" and "length data = BYTES_PER_BLOB"
  shows "(\<exists>p. blob_decode b = Ok p) \<or> (\<exists>e. blob_decode b = Err e)"
  using blob_decode_total [OF assms] by (cases "blob_decode b") auto

text \<open>
  Placeholders that are filled with the fetched blobs are handed out as the payloads of the blobs, in
  order, and then the source is at its end.
\<close>

theorem blob_source_delivers:
  assumes "\<forall>p\<in>set ps. p \<noteq> [] \<and> length p \<le> BLOB_MAX_DATA_SIZE"
  shows "\<exists>ds. fill_blobs (map blob_encode ps) 0 (replicate (length ps) \<lparr>bd_data = None, bd_calldata = None\<rparr>) = Ok ds
    \<and> pulls (Suc (length ps)) (blob_next to_string get_blobs blk batcher) \<lparr>bs_data = ds, bs_open = True\<rparr> = map Ok ps @ [Err (temp Eof)]"
  using fill_encoded [of ps "[]"] pulls_carriers [of ps] assms by (simp add: placeholder_def)

subsection \<open>Examples\<close>

theorem blob_roundtrip_witness: "blob_decode \<lparr>bd_data = Some (blob_encode [7, 8, 9]), bd_calldata = None\<rparr> = Ok [7, 8, 9]"
  by (rule blob_roundtrip) (simp add: BLOB_MAX_DATA_SIZE_def)

theorem blob_decoding_is_total_witness:
  "(\<exists>p. blob_decode \<lparr>bd_data = Some (replicate 131072 0), bd_calldata = None\<rparr> = Ok p)
    \<or> (\<exists>e. blob_decode \<lparr>bd_data = Some (replicate 131072 0), bd_calldata = None\<rparr> = Err e)"
  by (rule blob_decoding_is_total [of _ "replicate 131072 0"]) (simp_all add: BYTES_PER_BLOB_def)

theorem blob_source_delivers_witness:
  "\<exists>ds. fill_blobs (map blob_encode [[1, 2], [3]]) 0 [\<lparr>bd_data = None, bd_calldata = None\<rparr>, \<lparr>bd_data = None, bd_calldata = None\<rparr>] = Ok ds
    \<and> pulls (Suc 2) (blob_next (\<lambda>_. []) (\<lambda>_ _. Ok []) (ex_block 1) []) \<lparr>bs_data = ds, bs_open = True\<rparr> = [Ok [1, 2], Ok [3], Err (temp Eof)]"
  using blob_source_delivers [of "[[1, 2], [3]]" "\<lambda>_. []" "\<lambda>_ _. Ok []" "ex_block 1" "[]"]
  by (simp add: BLOB_MAX_DATA_SIZE_def numeral_2_eq_2)

end
