(* ===== verification/Blob_Oracle.thy ===== *)
theory Blob_Oracle
  imports Blobs Oracle_Providers
begin

text \<open>
  The blob provider of the client (\<^verbatim>\<open>proof/proof/src/l1/blob_provider.rs\<close>): a blob is put together from its field
  elements, which the oracle keeps under the commitment of the blob and the points of evaluation, the roots
  of unity in bit-reversed order. The scalar field of BLS12-381 (\<^verbatim>\<open>ark\<close>), keccak256 and the oracle are parameters.
\<close>

section \<open>Roots of unity\<close>

text \<open>A constant of EIP-4844.\<close>

definition FIELD_ELEMENTS_PER_BLOB :: nat where
  "FIELD_ELEMENTS_PER_BLOB = 4096"

record 'f scalar_field =
  fr_new :: "nat \<Rightarrow> 'f"
  fr_one :: 'f
  fr_mul :: "'f \<Rightarrow> 'f \<Rightarrow> 'f"
  fr_pow :: "'f \<Rightarrow> u64 \<Rightarrow> 'f"
  fr_bytes_be :: "'f \<Rightarrow> bytes"

definition reverse_bits :: "u64 \<Rightarrow> u64" where
  "reverse_bits w = horner_sum of_bool 2 (rev (map (bit w) [0..<64]))"

text \<open>The index that is swapped with the given one: the low twelve bits in reverse.\<close>

definition irev :: "nat \<Rightarrow> nat" where
  "irev i = unat (drop_bit (64 - 12) (reverse_bits (of_nat i)))"

fun powers :: "'f scalar_field \<Rightarrow> 'f \<Rightarrow> nat \<Rightarrow> 'f \<Rightarrow> 'f list" where
  "powers F generator 0 current = []"
| "powers F generator (Suc n) current = current # powers F generator n (fr_mul F current generator)"

definition list_swap :: "nat \<Rightarrow> nat \<Rightarrow> 'a list \<Rightarrow> 'a list" where
  "list_swap i j xs = xs[i := xs ! j, j := xs ! i]"

definition swap_reversed :: "(nat \<Rightarrow> nat) \<Rightarrow> nat \<Rightarrow> 'a list \<Rightarrow> 'a list" where
  "swap_reversed f n xs = fold (\<lambda>i xs. if f i > i then list_swap i (f i) xs else xs) [0..<n] xs"

definition generator_of :: "'f scalar_field \<Rightarrow> 'f" where
  "generator_of F =
     fr_pow F (fr_new F 10238227357739495823651030575849232062558860180284477541189508159991286009131) (push_bit (32 - 12) 1)"

definition generate_roots_of_unity :: "'f scalar_field \<Rightarrow> 'f list" where
  "generate_roots_of_unity F =
     swap_reversed irev FIELD_ELEMENTS_PER_BLOB (powers F (generator_of F) FIELD_ELEMENTS_PER_BLOB (fr_one F))"

section \<open>Fetching a blob\<close>

text \<open>\<open>get_exact\<close> of the oracle's client: a key, the length of the buffer, and the host that may change.\<close>

type_synonym 'c get_exact = "preimage_key \<Rightarrow> nat \<Rightarrow> 'c \<Rightarrow> (bytes, preimage_oracle_error) res \<times> 'c"

definition fetch_exact :: "'c get_exact \<Rightarrow> preimage_key \<Rightarrow> nat \<Rightarrow> 'c \<Rightarrow> (bytes, oracle_provider_error) res \<times> 'c" where
  "fetch_exact G key n c = (let (r, c) = G key n c in (map_err PreimageErr r, c))"

fun get_elements :: "'c get_exact \<Rightarrow> (bytes \<Rightarrow> b256) \<Rightarrow> bytes \<Rightarrow> bytes list \<Rightarrow> 'c \<Rightarrow> (bytes, oracle_provider_error) res \<times> 'c" where
  "get_elements G keccak256 commitment [] c = (Ok [], c)"
| "get_elements G keccak256 commitment (root # roots) c =
     cbind (fetch_exact G (key_new (keccak256 (commitment @ root)) Blob) 32 c) (\<lambda>field_element c.
     cbind (get_elements G keccak256 commitment roots c) (\<lambda>blob c. (Ok (field_element @ blob), c)))"

definition get_blob ::
  "'c comms \<Rightarrow> hex_codec \<Rightarrow> 'c get_exact \<Rightarrow> (bytes \<Rightarrow> b256) \<Rightarrow> 'f scalar_field \<Rightarrow> block_info \<Rightarrow> indexed_blob_hash \<Rightarrow> 'c
     \<Rightarrow> (bytes, oracle_provider_error) res \<times> 'c" where
  "get_blob C H G keccak256 F block_ref blob_hash c =
     (let (index, hash) = blob_hash;
          blob_req_meta = hash @ be_of_nat 8 (unat index) @ be_of_nat 8 (unat (bi_timestamp block_ref)) in
      cbind (hint_send C H (type_with_data [blob_req_meta] L1Blob) c) (\<lambda>_ c.
      cbind (fetch_exact G (key_new hash Sha256) 48 c) (\<lambda>commitment c.
      get_elements G keccak256 commitment (map (fr_bytes_be F) (generate_roots_of_unity F)) c)))"

fun get_blobs ::
  "'c comms \<Rightarrow> hex_codec \<Rightarrow> 'c get_exact \<Rightarrow> (bytes \<Rightarrow> b256) \<Rightarrow> 'f scalar_field \<Rightarrow> block_info \<Rightarrow> indexed_blob_hash list \<Rightarrow> 'c
     \<Rightarrow> (bytes list, oracle_provider_error) res \<times> 'c" where
  "get_blobs C H G keccak256 F block_ref [] c = (Ok [], c)"
| "get_blobs C H G keccak256 F block_ref (h # hs) c =
     cbind (get_blob C H G keccak256 F block_ref h c) (\<lambda>blob c.
     cbind (get_blobs C H G keccak256 F block_ref hs c) (\<lambda>blobs c. (Ok (blob # blobs), c)))"

section \<open>Lemmas\<close>

subsection \<open>Bit reversal\<close>

lemma bit_reverse_bits: "bit (reverse_bits w) n \<longleftrightarrow> n < 64 \<and> bit w (63 - n)"
  by (auto simp: reverse_bits_def bit_horner_sum_bit_word_iff rev_nth)

lemma bit_irev_word: "bit (drop_bit (64 - 12) (reverse_bits w)) n \<longleftrightarrow> n < 12 \<and> bit w (11 - n)"
  by (auto simp: bit_drop_bit_eq bit_reverse_bits)

lemma bit_of_nat_u64: "bit (of_nat i :: u64) n \<longleftrightarrow> n < 64 \<and> bit i n"
  by transfer (auto simp: bit_take_bit_iff bit_of_nat_iff possible_bit_def)

lemma bit_irev: "bit (irev i) n \<longleftrightarrow> n < 12 \<and> bit i (11 - n)"
  unfolding irev_def bit_unsigned_iff bit_irev_word bit_of_nat_u64 by auto

lemma irev_less: "irev i < 4096"
proof -
  have "take_bit 12 (irev i) = irev i" by (rule bit_eqI) (auto simp: bit_take_bit_iff bit_irev)
  then show ?thesis using take_bit_nat_less_exp [of 12 "irev i"] by simp
qed

lemma irev_irev: "i < 4096 \<Longrightarrow> irev (irev i) = i"
proof -
  assume "i < 4096"
  then have "take_bit 12 i = i" by (simp add: take_bit_nat_eq_self)
  moreover have "irev (irev i) = take_bit 12 i" by (rule bit_eqI) (auto simp: bit_take_bit_iff bit_irev)
  ultimately show ?thesis by simp
qed

lemma length_list_swap [simp]: "length (list_swap i j xs) = length xs"
  by (simp add: list_swap_def)

lemma swap_reversed_prefix:
  assumes f: "\<And>i. i < n \<Longrightarrow> f i < n" "\<And>i. i < n \<Longrightarrow> f (f i) = i" and "length xs = n" and "k \<le> n"
  shows "length (swap_reversed f k xs) = n \<and> (\<forall>j < n. swap_reversed f k xs ! j = (if min j (f j) < k then xs ! f j else xs ! j))"
  using assms(4)
proof (induction k)
  case (Suc k)
  let ?ys = "swap_reversed f k xs"
  have ys: "length ?ys = n" "\<And>j. j < n \<Longrightarrow> ?ys ! j = (if min j (f j) < k then xs ! f j else xs ! j)" using Suc by simp_all
  have k: "k < n" "f k < n" "f (f k) = k" using Suc.prems f by auto
  have step: "swap_reversed f (Suc k) xs = (if f k > k then list_swap k (f k) ?ys else ?ys)" by (simp add: swap_reversed_def)
  have "(if f k > k then list_swap k (f k) ?ys else ?ys) ! j = (if min j (f j) < Suc k then xs ! f j else xs ! j)" if j: "j < n" for j
  proof -
    consider "j = k" | "j = f k" "j \<noteq> k" | "j \<noteq> k" "f j \<noteq> k" using f(2) [OF j] by metis
    then show ?thesis
    proof cases
      case 3
      then have "min j (f j) < Suc k \<longleftrightarrow> min j (f j) < k" by linarith
      moreover have "j \<noteq> f k" using 3(2) k(3) by metis
      ultimately show ?thesis using 3 j ys by (simp add: list_swap_def)
    qed (use k ys j in \<open>auto simp: list_swap_def nth_list_update\<close>)
  qed
  then show ?case using ys(1) by (simp add: step)
qed (simp add: swap_reversed_def assms(3))

lemma nth_powers: "i < n \<Longrightarrow> powers F g n c ! i = ((\<lambda>x. fr_mul F x g) ^^ i) c"
proof (induction n arbitrary: i c)
  case (Suc n)
  then show ?case by (cases i) (simp_all add: funpow_Suc_right del: funpow.simps(2))
qed simp

lemma length_powers [simp]: "length (powers F g n c) = n"
  by (induction n arbitrary: c) simp_all

lemma nth_roots:
  assumes "i < 4096"
  shows "length (generate_roots_of_unity F) = 4096"
    and "generate_roots_of_unity F ! i = ((\<lambda>x. fr_mul F x (generator_of F)) ^^ irev i) (fr_one F)"
proof -
  have s: "length (generate_roots_of_unity F) = 4096
    \<and> (\<forall>j < 4096. generate_roots_of_unity F ! j = (if min j (irev j) < 4096 then powers F (generator_of F) 4096 (fr_one F) ! irev j else powers F (generator_of F) 4096 (fr_one F) ! j))"
    unfolding generate_roots_of_unity_def FIELD_ELEMENTS_PER_BLOB_def by (rule swap_reversed_prefix) (simp_all add: irev_less irev_irev)
  then show "length (generate_roots_of_unity F) = 4096"
    and "generate_roots_of_unity F ! i = ((\<lambda>x. fr_mul F x (generator_of F)) ^^ irev i) (fr_one F)"
    using assms irev_less [of i] by (auto simp: nth_powers min_def)
qed

subsection \<open>Blobs out of the oracle\<close>

text \<open>
  An oracle that serves a blob: it takes the hint, knows the commitment under the versioned hash, and each
  field element under the commitment and the power of the generator at the reversed index.
\<close>

definition point :: "'f scalar_field \<Rightarrow> nat \<Rightarrow> bytes" where
  "point F i = fr_bytes_be F (((\<lambda>x. fr_mul F x (generator_of F)) ^^ irev i) (fr_one F))"

definition serves_blob :: "'c comms \<Rightarrow> hex_codec \<Rightarrow> 'c get_exact \<Rightarrow> (bytes \<Rightarrow> b256) \<Rightarrow> 'f scalar_field \<Rightarrow> ('c \<Rightarrow> bool) \<Rightarrow> b256 \<Rightarrow> bytes \<Rightarrow> bool" where
  "serves_blob C H G keccak256 F P hash blob \<longleftrightarrow>
     length blob = BYTES_PER_BLOB
   \<and> (\<forall>c meta. P c \<longrightarrow> (\<exists>c'. cm_write C (hint_encode H (type_with_data [meta] L1Blob)) c = (Ok (), c') \<and> P c'))
   \<and> (\<exists>commitment.
        (\<forall>c. P c \<longrightarrow> (\<exists>c'. G (key_new hash Sha256) 48 c = (Ok commitment, c') \<and> P c'))
      \<and> (\<forall>i < 4096. \<forall>c. P c \<longrightarrow>
           (\<exists>c'. G (key_new (keccak256 (commitment @ point F i)) Blob) 32 c = (Ok (take 32 (drop (32 * i) blob)), c') \<and> P c')))"

lemma get_elements_served:
  assumes "\<And>i c. i < length roots \<Longrightarrow> P c \<Longrightarrow> \<exists>c'. G (key_new (keccak256 (commitment @ roots ! i)) Blob) 32 c = (Ok (take 32 (drop (32 * i) blob)), c') \<and> P c'"
    and "P c"
  shows "\<exists>c'. get_elements G keccak256 commitment roots c = (Ok (take (32 * length roots) blob), c') \<and> P c'"
  using assms
proof (induction roots arbitrary: c blob)
  case (Cons root roots)
  obtain c1 where c1: "G (key_new (keccak256 (commitment @ root)) Blob) 32 c = (Ok (take 32 blob), c1)" "P c1"
    using Cons.prems(1) [of 0 c] Cons.prems(2) by auto
  have "\<exists>c'. G (key_new (keccak256 (commitment @ roots ! i)) Blob) 32 c = (Ok (take 32 (drop (32 * i) (drop 32 blob))), c') \<and> P c'"
    if "i < length roots" "P c" for i c using Cons.prems(1) [of "Suc i" c] that by (simp add: add.commute)
  from Cons.IH [of "drop 32 blob", OF this c1(2)] obtain c2 where
    "get_elements G keccak256 commitment roots c1 = (Ok (take (32 * length roots) (drop 32 blob)), c2)" "P c2" by blast
  then show ?case using c1 by (simp add: fetch_exact_def cbind_def take_add)
qed simp

lemma get_blob_served:
  assumes "serves_blob C H G keccak256 F P hash blob" and "P c"
  shows "\<exists>c'. get_blob C H G keccak256 F blk (index, hash) c = (Ok blob, c') \<and> P c'"
proof -
  obtain commitment where s: "length blob = 32 * 4096"
    "\<And>c meta. P c \<Longrightarrow> \<exists>c'. cm_write C (hint_encode H (type_with_data [meta] L1Blob)) c = (Ok (), c') \<and> P c'"
    "\<And>c. P c \<Longrightarrow> \<exists>c'. G (key_new hash Sha256) 48 c = (Ok commitment, c') \<and> P c'"
    "\<And>i c. i < 4096 \<Longrightarrow> P c \<Longrightarrow> \<exists>c'. G (key_new (keccak256 (commitment @ point F i)) Blob) 32 c = (Ok (take 32 (drop (32 * i) blob)), c') \<and> P c'"
    using assms(1) unfolding serves_blob_def BYTES_PER_BLOB_def by fastforce
  let ?roots = "map (fr_bytes_be F) (generate_roots_of_unity F)"
  have r: "length ?roots = 4096" "\<And>i. i < 4096 \<Longrightarrow> ?roots ! i = point F i" using nth_roots [of _ F] nth_roots(1) [of 0 F] by (simp_all add: point_def)
  let ?meta = "hash @ be_of_nat 8 (unat index) @ be_of_nat 8 (unat (bi_timestamp blk))"
  obtain c1 where c1: "cm_write C (hint_encode H (type_with_data [?meta] L1Blob)) c = (Ok (), c1)" "P c1" using s(2) assms(2) by blast
  obtain c2 where c2: "G (key_new hash Sha256) 48 c1 = (Ok commitment, c2)" "P c2" using s(3) c1(2) by blast
  obtain c3 where "get_elements G keccak256 commitment ?roots c2 = (Ok (take (32 * length ?roots) blob), c3)" "P c3"
    using get_elements_served [of ?roots P G keccak256 commitment blob, OF _ c2(2)] s(4) r by (metis (no_types, lifting))
  with c1 c2 r(1) s(1) show ?thesis by (simp add: get_blob_def hint_send_def fetch_exact_def cbind_def Let_def)
qed

lemma get_blobs_served:
  assumes "list_all2 (\<lambda>(_, hash) blob. serves_blob C H G keccak256 F P hash blob) hs blobs" and "P c"
  shows "\<exists>c'. get_blobs C H G keccak256 F blk hs c = (Ok blobs, c') \<and> P c'"
  using assms
proof (induction hs blobs arbitrary: c rule: list_all2_induct)
  case (Cons h hs blob blobs)
  obtain index hash where h: "h = (index, hash)" by (cases h)
  obtain c1 where c1: "get_blob C H G keccak256 F blk h c = (Ok blob, c1)" "P c1"
    using get_blob_served [of C H G keccak256 F P hash blob c blk index] Cons h by auto
  with Cons.IH [OF c1(2)] show ?case by (auto simp: cbind_def)
qed simp

section \<open>Properties\<close>

text \<open>
  The points of evaluation are the powers of the generator in bit-reversed order: the entry at an
  index is the power with the index's twelve bits in reverse for exponent.
\<close>

theorem roots_are_bit_reversed:
  assumes "i < 4096"
  shows "generate_roots_of_unity F ! i = ((\<lambda>x. fr_mul F x (generator_of F)) ^^ irev i) (fr_one F)
    \<and> irev i < 4096 \<and> irev (irev i) = i \<and> (\<forall>n. bit (irev i) n \<longleftrightarrow> n < 12 \<and> bit i (11 - n))"
  using nth_roots(2) [OF assms] irev_less irev_irev [OF assms] bit_irev by blast

text \<open>
  Payloads that were put into blobs, whose field elements the oracle serves under the commitments and
  the roots of unity, are fetched, filled into the placeholders of a block and handed out in order.
\<close>

theorem served_blobs_reach_the_source:
  assumes "list_all2 (\<lambda>(_, hash) p. p \<noteq> [] \<and> length p \<le> BLOB_MAX_DATA_SIZE \<and> serves_blob C H G keccak256 F P hash (blob_encode p)) hs ps" and "P c"
  shows "\<exists>blobs c' ds. get_blobs C H G keccak256 F blk hs c = (Ok blobs, c')
    \<and> fill_blobs blobs 0 (replicate (length ps) \<lparr>bd_data = None, bd_calldata = None\<rparr>) = Ok ds
    \<and> pulls (Suc (length ps)) (blob_next to_string fetch blk batcher) \<lparr>bs_data = ds, bs_open = True\<rparr> = map Ok ps @ [Err (temp Eof)]"
proof -
  have "list_all2 (\<lambda>(_, hash) blob. serves_blob C H G keccak256 F P hash blob) hs (map blob_encode ps)"
    unfolding list_all2_map2 by (rule list_all2_mono [OF assms(1)]) auto
  from get_blobs_served [OF this assms(2), of blk]
  obtain c' where c': "get_blobs C H G keccak256 F blk hs c = (Ok (map blob_encode ps), c')" by blast
  have ps: "\<forall>p\<in>set ps. p \<noteq> [] \<and> length p \<le> BLOB_MAX_DATA_SIZE"
    using assms(1) by (auto simp: list_all2_conv_all_nth in_set_conv_nth)
  from fill_encoded [OF ps, of "[]"] pulls_carriers [of ps] ps c' show ?thesis by (simp add: placeholder_def)
qed

subsection \<open>Examples\<close>

text \<open>Powers of one in an additive group are the indices, and the hash is the identity.\<close>

definition ex_field :: "nat scalar_field" where
  "ex_field = \<lparr>fr_new = id, fr_one = 0, fr_mul = (+), fr_pow = (\<lambda>_ _. 1), fr_bytes_be = be_of_nat 32\<rparr>"

definition ex_blob_comms :: "unit comms" where
  "ex_blob_comms = \<lparr>cm_write = (\<lambda>_ c. (Ok (), c)), cm_get = (\<lambda>_ c. (Ok [], c))\<rparr>"

definition ex_get_exact :: "bytes \<Rightarrow> unit get_exact" where
  "ex_get_exact blob key n c =
     (if pk_key_type key = Sha256 then (Ok (replicate 48 0), c)
      else (Ok (take 32 (drop (32 * irev (nat_of_be (drop 47 (pk_data key)))) blob)), c))"

lemma ex_point: "i < 4096 \<Longrightarrow> point ex_field i = be_of_nat 32 (irev i)"
proof -
  have "((\<lambda>x. x + 1) ^^ n) 0 = n" for n :: nat by (induction n) simp_all
  then show ?thesis by (simp add: point_def ex_field_def generator_of_def)
qed

lemma ex_serves_blob: "length blob = BYTES_PER_BLOB \<Longrightarrow> serves_blob ex_blob_comms H (ex_get_exact blob) id ex_field (\<lambda>_. True) hash blob"
proof -
  assume l: "length blob = BYTES_PER_BLOB"
  have "ex_get_exact blob (key_new (replicate 48 0 @ point ex_field i) Blob) 32 c = (Ok (take 32 (drop (32 * i) blob)), c)" if "i < 4096" for i c
  proof -
    have "irev i < 256 ^ 32" using irev_less [of i] by simp
    then show ?thesis using that by (simp add: ex_get_exact_def key_new_def ex_point nat_of_be_of_nat irev_irev)
  qed
  then show ?thesis using l by (auto simp: serves_blob_def ex_blob_comms_def ex_get_exact_def key_new_def)
qed

theorem roots_are_bit_reversed_witness: "generate_roots_of_unity ex_field ! 1 = 2048"
proof -
  have "irev 1 = 2 ^ 11" by (rule bit_eqI) (unfold bit_irev bit_1_iff bit_exp_iff possible_bit_def, auto)
  moreover have "((\<lambda>x. x + 1) ^^ n) 0 = n" for n :: nat by (induction n) simp_all
  ultimately show ?thesis using roots_are_bit_reversed [of 1 ex_field] by (simp add: ex_field_def generator_of_def)
qed

theorem served_blobs_reach_the_source_witness:
  "\<exists>blobs c' ds. get_blobs ex_blob_comms ex_hex (ex_get_exact (blob_encode [1, 2])) id ex_field (ex_block 1) [(0, [9])] () = (Ok blobs, c')
    \<and> fill_blobs blobs 0 [\<lparr>bd_data = None, bd_calldata = None\<rparr>] = Ok ds
    \<and> pulls (Suc 1) (blob_next (\<lambda>_. []) (\<lambda>_ _. Ok []) (ex_block 1) []) \<lparr>bs_data = ds, bs_open = True\<rparr> = [Ok [1, 2], Err (temp Eof)]"
proof -
  have l: "length (blob_encode [1, 2]) = BYTES_PER_BLOB" using encoded_head [of "[1, 2]"] by (auto simp: BLOB_MAX_DATA_SIZE_def)
  have "list_all2 (\<lambda>(_, hash) p. p \<noteq> [] \<and> length p \<le> BLOB_MAX_DATA_SIZE
      \<and> serves_blob ex_blob_comms ex_hex (ex_get_exact (blob_encode [1, 2])) id ex_field (\<lambda>_. True) hash (blob_encode p)) [(0, [9])] [[1, 2]]"
    using ex_serves_blob [OF l] by (simp add: BLOB_MAX_DATA_SIZE_def)
  from served_blobs_reach_the_source [OF this, where c = "()" and blk = "ex_block 1" and to_string = "\<lambda>_. []" and fetch = "\<lambda>_ _. Ok []" and batcher = "[]"] show ?thesis by simp
qed

end
