(* ===== verification/Fraud.thy ===== *)
theory Fraud
  imports L1_Info_Program Svm_Safety
begin

text \<open>
  The executor of a fault proof, put together: \<open>FraudExecutor\<close> (\<^verbatim>\<open>executor/fraud/src/executor.rs\<close>) runs a block
  on the SVM and reads the block's info out of its state, and the block builder of \<open>Trie_Db\<close>, whose SVM is
  a parameter, is given this executor. So a payload goes through the decoder, the batches, the
  transactions, the accounts and the tries to an outcome.
\<close>

section \<open>Setting up the SVM\<close>

text \<open>\<open>builtins\<close> are the programs that the tables of \<^verbatim>\<open>executor/svm/src\<close> name.\<close>

definition new_soon :: "('tx, 'l, 'p) svm_env \<Rightarrow> (pubkey, 'p) hmap \<Rightarrow> 'p lite_svm" where
  "new_soon V builtins = (svm_default V)\<lparr>ls_accounts := accounts_db_default\<lparr>av_programs_cache := builtins\<rparr>\<rparr>"

text \<open>A callback that fails has no account; \<open>ok().flatten()\<close> in \<open>get_account\<close>.\<close>

definition callback_of :: "(pubkey \<Rightarrow> (account option, 'e) res) \<Rightarrow> accounts_callback" where
  "callback_of f k = (case f k of Ok a \<Rightarrow> Some a | _ \<Rightarrow> None)"

definition svm_of_setup :: "('tx, 'l, 'p) svm_env \<Rightarrow> (pubkey, 'p) hmap \<Rightarrow> svm_setup \<Rightarrow> 'p lite_svm" where
  "svm_of_setup V builtins u =
     (let s = new_soon V builtins in
      s\<lparr>ls_genesis_hash := su_genesis_hash u, ls_parent_slot := su_parent_slot u, ls_parent_bank_hash := su_parent_bank_hash u,
        ls_clock_timestamp := word_of_int (su_clock_timestamp u), ls_leader_schedule := leader_schedule_new (su_sequencer_schedules u),
        ls_sig_verify := False, ls_blockhash_verify := True,
        ls_accounts := set_init_accounts (su_init_accounts u) (set_callback (callback_of (su_accounts_callback u)) (ls_accounts s))\<rparr>)"

section \<open>The fraud executor\<close>

datatype fraud_error = FraudproofError string | LiteSvmError svm_error

record fraud_outcome =
  fo_block_info :: l2_block_info
  fo_state_root :: b256
  fo_withdraw_root :: b256
  fo_execution_result :: "transaction_result list"
  fo_signature_count :: u64
  fo_fee_rate_governor :: fee_rate_governor

definition default_l1_block_info :: l1_block_info where
  "default_l1_block_info =
     \<lparr>li_number = 0, li_timestamp = 0, li_base_fee = 0, li_hash = zero_hash, li_sequence_number = 0, li_batcher_hash = zero_hash,
      li_fee_overhead = 0, li_fee_scalar = 0, li_gas = 0, li_is_system_tx = False\<rparr>"

text \<open>\<open>L1BlockInfo::unpack\<close> of the account of the L1 block info, whose key is given.\<close>

definition executed_l1_block_info :: "pubkey \<Rightarrow> 'p lite_svm \<Rightarrow> l1_block_info option" where
  "executed_l1_block_info l1_block_info_pubkey s =
     (case get_account l1_block_info_pubkey (ls_accounts s) of
        None \<Rightarrow> None
      | Some l1_data \<Rightarrow>
          if length (ac_data l1_data) \<noteq> INFO_LEN then None
          else (case info_unpack (ac_data l1_data) of Ok i \<Rightarrow> Some i | _ \<Rightarrow> None))"

definition executed_l2_block_info :: "('tx, 'l, 'p) svm_env \<Rightarrow> pubkey \<Rightarrow> 'p lite_svm \<Rightarrow> (l2_block_info, svm_error) res" where
  "executed_l2_block_info V l1_key s =
     (let l1_block_info = (case executed_l1_block_info l1_key s of Some i \<Rightarrow> i | None \<Rightarrow> default_l1_block_info) in
      rthen (get_sysvar V SysClock (ve_clock_of V) s) (\<lambda>clock.
      rthen (svm_parent_blockhash s) (\<lambda>parent_hash.
      rthen (svm_blockhash s) (\<lambda>hash.
      Ok \<lparr>l2_block = \<lparr>bi_hash = hash, bi_number = ls_slot s, bi_parent_hash = parent_hash, bi_timestamp = ck_unix_timestamp clock\<rparr>,
          l2_l1_origin = \<lparr>bnh_number = li_number l1_block_info, bnh_hash = li_hash l1_block_info\<rparr>,
          l2_seq_num = li_sequence_number l1_block_info\<rparr>))))"

definition fraud_execute_block ::
  "('tx, 'l, 'p) svm_env \<Rightarrow> pubkey \<Rightarrow> 'tx l2_transaction list \<Rightarrow> 'p lite_svm \<Rightarrow> (fraud_outcome, fraud_error) res \<times> 'p lite_svm" where
  "fraud_execute_block V l1_key block s =
     (let (r, s) = execute_raw_block V (raw_of_l2 block) s in
      rbind (map_err LiteSvmError r) s (\<lambda>execution_result.
      rbind (map_err LiteSvmError (executed_l2_block_info V l1_key s)) s (\<lambda>l2_block_info.
     (Ok \<lparr>fo_block_info = l2_block_info, fo_state_root = zero_hash, fo_withdraw_root = zero_hash, fo_execution_result = execution_result,
          fo_signature_count = ls_signature_count s, fo_fee_rate_governor = ls_fee_rate_governor s\<rparr>, s))))"

text \<open>Iterating the map gives every key once, with its value.\<close>

definition export_diff_accounts :: "'p lite_svm \<Rightarrow> (pubkey \<times> account) list" where
  "export_diff_accounts s = AList.clearjunk (av_accounts_diff (ls_accounts s))"

section \<open>The SVM of the block builder\<close>

text \<open>Errors are rendered, as the builder's error type does; \<open>finish_init\<close> leaves the state in which the block runs.\<close>

definition litesvm ::
  "('tx, 'l, 'p) svm_env \<Rightarrow> (pubkey, 'p) hmap \<Rightarrow> pubkey \<Rightarrow> (fraud_error \<Rightarrow> string) \<Rightarrow> (bytes \<Rightarrow> ('tx l2_transaction, string) res)
     \<Rightarrow> 'tx l2_transaction svm" where
  "litesvm V builtins l1_key render deserialize =
     \<lparr>sv_finish_init = (\<lambda>u. map_err (render \<circ> LiteSvmError) (fst (finish_init V (svm_of_setup V builtins u)))),
      sv_deserialize = deserialize,
      sv_execute_block = (\<lambda>u block.
        let (r, s) = fraud_execute_block V l1_key block (snd (finish_init V (svm_of_setup V builtins u))) in
        map_err render (rthen r (\<lambda>outcome. Ok (fo_block_info outcome, export_diff_accounts s))))\<rparr>"

section \<open>What starting a block leaves\<close>

lemma changed_init_accounts: "changed_account k (set_init_accounts xs db) = (case map_of (rev xs) k of Some a \<Rightarrow> Some a | None \<Rightarrow> changed_account k db)"
proof -
  have "map_of (fold (\<lambda>(k, a). AList.update k a) xs m) k = (case map_of (rev xs) k of Some a \<Rightarrow> Some a | None \<Rightarrow> map_of m k)"
    for m :: "(pubkey \<times> account) list"
    by (induction xs rule: rev_induct) (auto simp: update_conv')
  then show ?thesis unfolding set_init_accounts_def changed_account_def by simp
qed

lemma map_of_bt_extend_rev:
  assumes "bt_invar m"
  shows "map_of (bt_extend m xs) k = (case map_of (rev xs) k of Some a \<Rightarrow> Some a | None \<Rightarrow> map_of m k)"
proof (induction xs rule: rev_induct)
  case (snoc x xs)
  obtain k' v where x: "x = (k', v)" by fastforce
  have "bt_extend m (xs @ [x]) = bt_insert k' v (bt_extend m xs)" by (simp add: bt_extend_def x)
  then show ?case using snoc bt_get_insert [OF bt_invar_extend [OF assms]] by (simp add: x)
qed (simp add: bt_extend_def)

text \<open>What the builder knows of an account is what the executor starts with.\<close>

lemma setup_knows_diff: "changed_account k (ls_accounts (svm_of_setup V B u)) = map_of (bt_extend [] (su_init_accounts u)) k"
proof -
  have "bt_invar ([] :: (pubkey \<times> account) list)" by (simp add: bt_invar_def)
  then show ?thesis
    by (simp add: map_of_bt_extend_rev svm_of_setup_def Let_def changed_init_accounts)
       (simp add: changed_account_def set_callback_def new_soon_def accounts_db_default_def split: option.split)
qed

abbreviation start_sysvars :: "sysvar set" where
  "start_sysvars \<equiv> {SysSlotHashes, SysClock, SysSlotHistory}"

lemma fill_cache_same: "same_accounts db (snd (fill_sysvar_cache L db))"
  by (auto simp: fill_sysvar_cache_def same_accounts_def Let_def split: option.split)

lemma update_clock_frame:
  "only_ledger s (snd (update_clock V s)) \<and> (k \<noteq> ve_sysvar_id V SysClock \<longrightarrow> keeps_account k s (snd (update_clock V s)))"
  by (auto simp: update_clock_def rbind_def update_sysvar_frame split: res.split)

lemma restore_Ok:
  assumes "restore_blockhash_queue V s = (Ok (), s')"
  shows "\<exists>q h. s' = s\<lparr>ls_blockhash_queue := q, ls_parent_blockhash := Some h\<rparr> \<and> bh_last_hash q = Some h"
  using assms unfolding restore_blockhash_queue_def Let_def
  by (fastforce simp: res_simps last_hash_def split: option.split_asm)

lemma finish_init_steps:
  assumes "finish_init V s = (Ok (), s')"
  shows "\<exists>s0 s1 s2 s3 db q h. keeps_account k s s0 \<and> ls_slot s0 = ls_parent_slot s + 1 \<and> ls_leader_schedule s0 = ls_leader_schedule s
    \<and> ls_ticks_per_slot s0 = ls_ticks_per_slot s \<and> ls_hashes_per_tick s0 = ls_hashes_per_tick s \<and> ls_clock_timestamp s0 = ls_clock_timestamp s
    \<and> update_slot_hashes V s0 = (Ok (), s1) \<and> update_clock V s1 = (Ok (), s2) \<and> update_slot_history V s2 = (Ok (), s3)
    \<and> bh_last_hash q = Some h \<and> same_accounts (ls_accounts s3) db
    \<and> s' = s3\<lparr>ls_blockhash_queue := q, ls_parent_blockhash := Some h, ls_accounts := db, ls_rent_epoch := ls_epoch s3\<rparr>"
proof -
  let ?e = "ve_get_epoch V (ls_parent_slot s + 1)"
  let ?s = "s\<lparr>ls_slot := ls_parent_slot s + 1, ls_epoch := ?e, ls_accounts := set_epoch ?e (set_slot (ls_parent_slot s + 1) (ls_accounts s))\<rparr>"
  obtain g n s1 s2 s3 s4 where x: "update_slot_hashes V (?s\<lparr>ls_fee_rate_governor := ve_new_derived V g n\<rparr>) = (Ok (), s1)" "update_clock V s1 = (Ok (), s2)"
      "update_slot_history V s2 = (Ok (), s3)" "restore_blockhash_queue V s3 = (Ok (), s4)"
      "s' = s4\<lparr>ls_accounts := snd (fill_sysvar_cache (ve_loaders V) (ls_accounts s4)), ls_rent_epoch := ls_epoch s4\<rparr>"
    using assms by (auto simp: finish_init_def Let_def res_simps case_prod_beta)
  obtain q h where q: "s4 = s3\<lparr>ls_blockhash_queue := q, ls_parent_blockhash := Some h\<rparr>" "bh_last_hash q = Some h" using restore_Ok [OF x(4)] by blast
  let ?db = "snd (fill_sysvar_cache (ve_loaders V) (ls_accounts s3))"
  have "keeps_account k s (?s\<lparr>ls_fee_rate_governor := ve_new_derived V g n\<rparr>)"
    by (simp add: keeps_account_def same_account_def changed_account_def set_epoch_def set_slot_def)
  moreover have "same_accounts (ls_accounts s3) ?db" by (rule fill_cache_same)
  moreover have "s' = s3\<lparr>ls_blockhash_queue := q, ls_parent_blockhash := Some h, ls_accounts := ?db, ls_rent_epoch := ls_epoch s3\<rparr>"
    using x(5) q(1) by simp
  ultimately show ?thesis using x(1-3) q(2)
    by (intro exI [of _ "?s\<lparr>ls_fee_rate_governor := ve_new_derived V g n\<rparr>"] exI [of _ s1] exI [of _ s2] exI [of _ s3] exI [of _ ?db] exI [of _ q] exI [of _ h]) simp
qed

text \<open>Starting a block writes three sysvars, and takes the slot and the parent's blockhash.\<close>

lemma finish_init_frame:
  assumes "finish_init V s = (Ok (), s')"
  shows "k \<notin> ve_sysvar_id V ` start_sysvars \<Longrightarrow> keeps_account k s s'"
    and "ls_slot s' = ls_parent_slot s + 1" and "ls_leader_schedule s' = ls_leader_schedule s" and "ls_ticks_per_slot s' = ls_ticks_per_slot s"
    and "ls_hashes_per_tick s' = ls_hashes_per_tick s"
    and "\<exists>h. ls_parent_blockhash s' = Some h \<and> bh_last_hash (ls_blockhash_queue s') = Some h"
proof -
  obtain s0 s1 s2 s3 db q h where x: "keeps_account k s s0" "ls_slot s0 = ls_parent_slot s + 1" "ls_leader_schedule s0 = ls_leader_schedule s"
      "ls_ticks_per_slot s0 = ls_ticks_per_slot s" "ls_hashes_per_tick s0 = ls_hashes_per_tick s"
      "update_slot_hashes V s0 = (Ok (), s1)" "update_clock V s1 = (Ok (), s2)" "update_slot_history V s2 = (Ok (), s3)"
      "bh_last_hash q = Some h" "same_accounts (ls_accounts s3) db"
      "s' = s3\<lparr>ls_blockhash_queue := q, ls_parent_blockhash := Some h, ls_accounts := db, ls_rent_epoch := ls_epoch s3\<rparr>"
    using finish_init_steps [OF assms, of k] by blast
  have l: "only_ledger s0 s1" "only_ledger s1 s2" "only_ledger s2 s3"
    using update_sysvar_frame update_clock_frame x(6-8) unfolding update_slot_hashes_def update_slot_history_def by (metis snd_conv)+
  note l = only_ledgerD [OF only_ledger_trans [OF l(1) only_ledger_trans [OF l(2,3)]]]
  show "ls_slot s' = ls_parent_slot s + 1" "ls_leader_schedule s' = ls_leader_schedule s" "ls_ticks_per_slot s' = ls_ticks_per_slot s"
    "ls_hashes_per_tick s' = ls_hashes_per_tick s" "\<exists>h. ls_parent_blockhash s' = Some h \<and> bh_last_hash (ls_blockhash_queue s') = Some h"
    using x(2-5,9,11) l by simp_all
  assume k: "k \<notin> ve_sysvar_id V ` start_sysvars"
  have "keeps_account k s0 s1" "keeps_account k s1 s2" "keeps_account k s2 s3"
    using update_sysvar_frame update_clock_frame x(6-8) k unfolding update_slot_hashes_def update_slot_history_def
    by (metis imageI insertCI snd_conv)+
  with x(1) have "keeps_account k s s3" by (blast intro: keeps_account_trans)
  then show "keeps_account k s s'" using same_accounts_one [OF x(10)] x(11) by (auto simp: keeps_account_def intro: same_account_trans)
qed

section \<open>What a block touches\<close>

definition block_touches :: "('tx, 'l, 'p) svm_env \<Rightarrow> (u64 \<times> pubkey) list \<Rightarrow> u64 \<Rightarrow> 'tx l2_transaction list \<Rightarrow> pubkey set" where
  "block_touches V schedules slot block =
     {k. \<exists>tx\<in>tx_of_l2 ` set block. \<exists>stx. ve_sanitize V tx = Ok stx \<and> k \<in> writable_keys (st_message stx)}
     \<union> set_option (leader_at_slot slot (leader_schedule_new schedules)) \<union> range (ve_sysvar_id V)"

definition wf_block :: "('tx, 'l, 'p) svm_env \<Rightarrow> 'tx l2_transaction list \<Rightarrow> bool" where
  "wf_block V block \<longleftrightarrow> (\<forall>tx\<in>tx_of_l2 ` set block. \<forall>stx. ve_sanitize V tx = Ok stx \<longrightarrow> wf_message V (st_message stx))"

lemma concat_split_batches: "concat (split_batches bs b txs) = concat bs @ b @ map tx_of_l2 txs"
  by (induction bs b txs rule: split_batches.induct) auto

lemma concat_raw_of_l2: "concat (raw_of_l2 txs) = map tx_of_l2 txs"
  by (simp add: raw_of_l2_def concat_split_batches)

lemma run_block_frame:
  assumes "finish_init V (svm_of_setup V B u) = (Ok (), s)" and "runtime_keeps_keys V" and "wf_block V block"
    and "k \<notin> block_touches V (su_sequencer_schedules u) (su_parent_slot u + 1) block"
  shows "keeps_account k (svm_of_setup V B u) (snd (execute_raw_block V (raw_of_l2 block) s))"
proof (rule keeps_account_trans)
  note f = finish_init_frame [OF assms(1)]
  show "keeps_account k (svm_of_setup V B u) s" using assms(4) by (intro f(1)) (auto simp: block_touches_def)
  have u: "ls_parent_slot (svm_of_setup V B u) = su_parent_slot u" "ls_leader_schedule (svm_of_setup V B u) = leader_schedule_new (su_sequencer_schedules u)"
    by (simp_all add: svm_of_setup_def Let_def)
  show "keeps_account k s (snd (execute_raw_block V (raw_of_l2 block) s))"
  proof (rule execute_raw_block_frame [OF assms(2)])
    show "\<forall>tx\<in>set (concat (raw_of_l2 block)). \<forall>stx. ve_sanitize V tx = Ok stx \<longrightarrow> wf_message V (st_message stx) \<and> k \<notin> writable_keys (st_message stx)"
      using assms(3,4) by (auto simp: concat_raw_of_l2 block_touches_def wf_block_def)
    show "leader_at_slot (ls_slot s) (ls_leader_schedule s) \<noteq> Some k" "k \<notin> ve_sysvar_id V ` end_sysvars"
      using assms(4) by (auto simp: block_touches_def f(2,3) u)
  qed
qed

section \<open>The builder with this executor\<close>

abbreviation payload_txs :: "payload_attributes \<Rightarrow> bytes list" where
  "payload_txs attrs \<equiv> (case pa_transactions attrs of None \<Rightarrow> [] | Some txs \<Rightarrow> txs)"

lemma build_block_litesvm:
  assumes "build_block D (litesvm V B l1_key render des) fuel attrs b = Some (Ok outcome, b')"
  shows "\<exists>u s block fo s'. su_init_accounts u = lb_last_accounts_diff b \<and> su_parent_slot u = lb_parent_slot b
    \<and> su_sequencer_schedules u = rc_sequencer_schedules (lb_config b) \<and> db_block_time D (lb_parent_slot b + 1) = Ok (su_clock_timestamp u)
    \<and> finish_init V (svm_of_setup V B u) = (Ok (), s) \<and> convert_block (litesvm V B l1_key render des) (payload_txs attrs) = Ok block
    \<and> fraud_execute_block V l1_key block s = (Ok fo, s')
    \<and> commit_block D fuel (fo_block_info fo) (export_diff_accounts s') b = Some (Ok outcome, b')"
proof -
  let ?S = "litesvm V B l1_key render des"
  obtain bank time g block info diff where x: "db_block_time D (lb_parent_slot b + 1) = Ok time"
      "sv_finish_init ?S \<lparr>su_genesis_hash = g, su_parent_slot = lb_parent_slot b, su_parent_bank_hash = bank,
         su_clock_timestamp = time, su_sequencer_schedules = rc_sequencer_schedules (lb_config b),
         su_accounts_callback = get_account_data D (lb_trie_db b), su_init_accounts = lb_last_accounts_diff b\<rparr> = Ok ()"
      "convert_block ?S (payload_txs attrs) = Ok block"
      "sv_execute_block ?S \<lparr>su_genesis_hash = g, su_parent_slot = lb_parent_slot b, su_parent_bank_hash = bank,
         su_clock_timestamp = time, su_sequencer_schedules = rc_sequencer_schedules (lb_config b),
         su_accounts_callback = get_account_data D (lb_trie_db b), su_init_accounts = lb_last_accounts_diff b\<rparr> block = Ok (info, diff)"
      "commit_block D fuel info diff b = Some (Ok outcome, b')"
    using assms by (auto simp: build_block_def Let_def res_simps split: res.split_asm option.split_asm if_split_asm)
  define u where "u = \<lparr>su_genesis_hash = g, su_parent_slot = lb_parent_slot b, su_parent_bank_hash = bank,
         su_clock_timestamp = time, su_sequencer_schedules = rc_sequencer_schedules (lb_config b),
         su_accounts_callback = get_account_data D (lb_trie_db b), su_init_accounts = lb_last_accounts_diff b\<rparr>"
  note x = x [folded u_def]
  obtain s where s: "finish_init V (svm_of_setup V B u) = (Ok (), s)"
    using x(2) by (cases "finish_init V (svm_of_setup V B u)") (auto simp: litesvm_def res_simps)
  obtain fo s' where "fraud_execute_block V l1_key block s = (Ok fo, s')" "info = fo_block_info fo" "diff = export_diff_accounts s'"
    using x(4) s by (cases "fraud_execute_block V l1_key block s") (auto simp: litesvm_def res_simps)
  with x(1,3,5) s show ?thesis by (intro exI [of _ u] exI [of _ s] exI [of _ block] exI [of _ fo] exI [of _ s']) (simp add: u_def)
qed

lemma fraud_execute_block_Ok:
  assumes "fraud_execute_block V l1_key block s = (Ok fo, s')"
  shows "\<exists>rs. execute_raw_block V (raw_of_l2 block) s = (Ok rs, s') \<and> executed_l2_block_info V l1_key s' = Ok (fo_block_info fo) \<and> fo_execution_result fo = rs"
  using assms by (cases "execute_raw_block V (raw_of_l2 block) s") (auto simp: fraud_execute_block_def res_simps)

lemma distinct_export [simp]: "distinct (map fst (export_diff_accounts s))"
  by (simp add: export_diff_accounts_def distinct_clearjunk)

lemma export_diff_iff: "(k, a) \<in> set (export_diff_accounts s) \<longleftrightarrow> changed_account k (ls_accounts s) = Some a"
  using map_of_eq_Some_iff [OF distinct_export, of s k a] by (simp add: export_diff_accounts_def changed_account_def map_of_clearjunk eq_commute)

text \<open>Only accounts that the block touches are handed to the tries.\<close>

lemma modified_are_touched:
  assumes "\<And>k. k \<notin> K \<Longrightarrow> keeps_account k (svm_of_setup V B u) s'"
  shows "fst ` set (modified_accounts (bt_extend [] (su_init_accounts u)) (export_diff_accounts s')) \<subseteq> K"
proof
  fix k assume "k \<in> fst ` set (modified_accounts (bt_extend [] (su_init_accounts u)) (export_diff_accounts s'))"
  then obtain a where a: "(k, a) \<in> set (export_diff_accounts s')" "map_of (bt_extend [] (su_init_accounts u)) k \<noteq> Some a"
    by (auto simp: modified_accounts_def)
  with a(2) have "\<not> keeps_account k (svm_of_setup V B u) s'" by (simp add: keeps_account_def same_account_def setup_knows_diff export_diff_iff)
  with assms show "k \<in> K" by blast
qed

lemma apply_changes_other: "p \<notin> fst ` set cs \<Longrightarrow> apply_changes cs m p = m p"
  by (induction cs arbitrary: m) auto

lemma commit_block_repr:
  assumes "commit_block D walk_fuel info diff b = Some (Ok outcome, b')" and "db_repr D (lb_trie_db b) m w"
    and "diff_paths_ok D (modified_accounts (lb_accounts_diff b) diff)"
  shows "db_repr D (lb_trie_db b') (apply_changes (state_diff D (modified_accounts (lb_accounts_diff b) diff)) m)
      (apply_changes (withdrawal_diff D (modified_accounts (lb_accounts_diff b) diff)) w)"
proof -
  let ?xs = "modified_accounts (lb_accounts_diff b) diff"
  obtain sr wr db' h where w: "world_states D walk_fuel ?xs (lb_parent_slot b) (lb_trie_db b) = Some (Ok (sr, wr), db')"
      and b': "lb_trie_db b' = set_parent_block_header h db'"
    using assms(1) by (auto simp: commit_block_def Let_def split: option.split_asm res.split_asm)
  obtain db'' where u: "update_accounts D walk_fuel ?xs (lb_parent_slot b) (lb_trie_db b) = Some (if diff_deletable D m w ?xs then Ok () else Err (TrieNodeErr KeyNotFound), db'')"
      "diff_deletable D m w ?xs \<longrightarrow> db_repr D db'' (apply_changes (state_diff D ?xs) m) (apply_changes (withdrawal_diff D ?xs) w)"
    using update_accounts_repr [OF assms(2,3)] by blast
  have "diff_deletable D m w ?xs" "db' = db''"
    using w u(1) by (auto simp: world_states_def andthen_def split: if_split_asm)
  then show ?thesis using u(2) b' by (simp add: db_repr_def set_parent_block_header_def)
qed

text \<open>The clock that the block started with is read back, unless a transaction can write it.\<close>

definition clock_codec :: "('tx, 'l, 'p) svm_env \<Rightarrow> bool" where
  "clock_codec V \<longleftrightarrow> (\<forall>c n. ve_clock_of V (ve_clock_bytes V c @ replicate n 0) = Ok c)"

lemma finish_init_clock:
  assumes "finish_init V s = (Ok (), s')" and "clock_codec V" and "inj (ve_sysvar_id V)"
  shows "\<exists>c. get_sysvar V SysClock (ve_clock_of V) s' = Ok c \<and> ck_unix_timestamp c = ls_clock_timestamp s"
proof -
  let ?k = "ve_sysvar_id V SysClock"
  obtain s0 s1 s2 s3 db q h where x: "ls_clock_timestamp s0 = ls_clock_timestamp s"
      "update_slot_hashes V s0 = (Ok (), s1)" "update_clock V s1 = (Ok (), s2)" "update_slot_history V s2 = (Ok (), s3)"
      "same_accounts (ls_accounts s3) db"
      "s' = s3\<lparr>ls_blockhash_queue := q, ls_parent_blockhash := Some h, ls_accounts := db, ls_rent_epoch := ls_epoch s3\<rparr>"
    using finish_init_steps [OF assms(1), of ?k] by blast
  have "ls_clock_timestamp s1 = ls_clock_timestamp s0" using x(2) by (auto simp: update_slot_hashes_def update_sysvar_def Let_def split: if_split_asm prod.split_asm)
  then obtain c n where c: "sysvar_data V SysClock s2 = Some (ve_clock_bytes V c @ replicate n 0)" "ck_unix_timestamp c = ls_clock_timestamp s"
    using x(1,3) update_sysvar_written by (fastforce simp: update_clock_def res_simps split: if_split_asm)
  have "?k \<noteq> ve_sysvar_id V SysSlotHistory" using assms(3) by (simp add: inj_eq)
  then have "keeps_account ?k s2 s3" using update_sysvar_frame x(4) unfolding update_slot_history_def by (metis snd_conv)
  then have "get_account ?k (ls_accounts s') = get_account ?k (ls_accounts s2)"
    using same_accounts_get [OF x(5)] x(6) by (simp add: keeps_account_get)
  with c assms(2) show ?thesis by (auto simp: get_sysvar_def sysvar_data_def clock_codec_def)
qed

lemma only_ledger_parent: "only_ledger s s' \<Longrightarrow> ls_parent_blockhash s' = ls_parent_blockhash s"
  unfolding only_ledger_def by (metis lite_svm.ext_inject lite_svm.surjective lite_svm.update_convs(1,10))

text \<open>A block that is executed keeps the slot and the hash of its parent.\<close>

lemma execute_raw_block_keeps:
  assumes "execute_raw_block V bs s = (Ok rs, s')" and "\<exists>b\<in>set bs. b \<noteq> []" and "ls_ticks_per_slot s > 0" and "ls_hashes_per_tick s = 0"
    and "bh_last_hash (ls_blockhash_queue s) = Some h"
  shows "ls_slot s' = ls_slot s" and "ls_parent_blockhash s' = ls_parent_blockhash s"
proof -
  let ?H = "svm_chain_hash V h bs"
  obtain t where t: "only_ledger s t" "register_recent_blockhash V ?H (t\<lparr>ls_blockhash := Some ?H\<rparr>) = (Ok (), s')"
    using execute_raw_block_Ok [OF assms] by blast
  have "only_ledger t1 (snd (update_recent_blockhashes V t1))" for t1
    unfolding update_recent_blockhashes_def Let_def by (intro only_ledger_sbind) (simp_all add: update_sysvar_frame)
  then obtain q where q: "only_ledger (t\<lparr>ls_blockhash := Some ?H, ls_blockhash_queue := q\<rparr>) s'"
    using t(2) unfolding register_recent_blockhash_def by (metis snd_conv)
  show "ls_slot s' = ls_slot s" using only_ledgerD(3) [OF q] only_ledgerD(3) [OF t(1)] by simp
  show "ls_parent_blockhash s' = ls_parent_blockhash s" using only_ledger_parent [OF q] only_ledger_parent [OF t(1)] by simp
qed

section \<open>Properties\<close>

text \<open>
  C10: an account that a block does not touch (no transaction of the payload can write it, it is not the
  leader's and no sysvar) has after the block the entries in the tries of state and withdrawals that it had
  before, and the state root of the outcome is the one of a trie with these entries.
\<close>

theorem proof_keeps_untouched:
  assumes "build_block D (litesvm V B l1_key render des) walk_fuel attrs (builder_new cfg h diff db) = Some (Ok outcome, b')"
    and "convert_block (litesvm V B l1_key render des) (case pa_transactions attrs of None \<Rightarrow> [] | Some txs \<Rightarrow> txs) = Ok block"
    and "wf_block V block" and "runtime_keeps_keys V" and "db_repr D db m w"
    and "k \<notin> block_touches V (rc_sequencer_schedules cfg) (bi_number (lh_block_info h) + 1) block"
    and "inj_on (account_path D) (insert k (block_touches V (rc_sequencer_schedules cfg) (bi_number (lh_block_info h) + 1) block))"
    and "\<forall>k'\<in>block_touches V (rc_sequencer_schedules cfg) (bi_number (lh_block_info h) + 1) block. account_key (account_path D k')"
  shows "\<exists>m' w'. db_repr D (lb_trie_db b') m' w' \<and> m' (account_path D k) = m (account_path D k) \<and> w' (account_path D k) = w (account_path D k)
    \<and> (\<forall>t. stores (de_trie D) t m' \<longrightarrow> blind (de_trie D) t = bo_state_root outcome)"
proof -
  let ?b = "builder_new cfg h diff db" and ?K = "block_touches V (rc_sequencer_schedules cfg) (bi_number (lh_block_info h) + 1) block"
  obtain u s fo s' where x: "su_init_accounts u = diff" "su_parent_slot u = bi_number (lh_block_info h)" "su_sequencer_schedules u = rc_sequencer_schedules cfg"
      "finish_init V (svm_of_setup V B u) = (Ok (), s)" "fraud_execute_block V l1_key block s = (Ok fo, s')"
      "commit_block D walk_fuel (fo_block_info fo) (export_diff_accounts s') ?b = Some (Ok outcome, b')"
    using build_block_litesvm [OF assms(1)] assms(2) by (auto simp: builder_new_def)
  obtain rs where "execute_raw_block V (raw_of_l2 block) s = (Ok rs, s')" using fraud_execute_block_Ok [OF x(5)] by blast
  then have keep: "keeps_account k' (svm_of_setup V B u) s'" if "k' \<notin> ?K" for k'
    using run_block_frame [OF x(4) assms(4,3), of k'] that x(2,3) by simp
  let ?xs = "modified_accounts (lb_accounts_diff ?b) (export_diff_accounts s')"
  have K: "fst ` set ?xs \<subseteq> ?K" using modified_are_touched [OF keep] x(1) by (simp add: builder_new_def)
  have "distinct (map fst ?xs)" by (simp add: modified_accounts_def distinct_map_filter)
  moreover have "inj_on (account_path D) (fst ` set ?xs)" using assms(7) K by (meson inj_on_subset subset_insertI2)
  ultimately have "distinct (map (account_path D \<circ> fst) ?xs)" by (metis distinct_map list.map_comp list.set_map)
  moreover have "list_all (\<lambda>(k, a). account_key (account_path D k)) ?xs" using K assms(8) by (force simp: list_all_iff)
  ultimately have "diff_paths_ok D ?xs" by (simp add: diff_paths_ok_def)
  from commit_block_repr [OF x(6) _ this] assms(5)
  have repr: "db_repr D (lb_trie_db b') (apply_changes (state_diff D ?xs) m) (apply_changes (withdrawal_diff D ?xs) w)" by (simp add: builder_new_def)
  have "account_path D k \<noteq> account_path D k'" if "k' \<in> fst ` set ?xs" for k' using that K assms(6,7) by (auto simp: inj_on_def)
  then have "account_path D k \<notin> fst ` set (state_diff D ?xs)" "account_path D k \<notin> fst ` set (withdrawal_diff D ?xs)"
    by (force simp: state_diff_def withdrawal_diff_def)+
  moreover have "blind (de_trie D) t = bo_state_root outcome" if "stores (de_trie D) t (apply_changes (state_diff D ?xs) m)" for t
    using commit_block_Ok(1) [OF x(6)] repr that accounts.root_repr unfolding builder_at_def db_repr_def by metis
  ultimately show ?thesis using repr by (blast intro: apply_changes_other)
qed

text \<open>
  C11: the block that a payload makes is numbered after its parent, its hash chains the batches of the
  payload onto the parent's blockhash, and its time is the one the provider gives for its slot.
\<close>

theorem proof_block_extends_parent:
  assumes "build_block D (litesvm V B l1_key render des) fuel attrs (builder_new cfg h diff db) = Some (Ok outcome, b')"
    and "convert_block (litesvm V B l1_key render des) (case pa_transactions attrs of None \<Rightarrow> [] | Some txs \<Rightarrow> txs) = Ok block"
    and "block \<noteq> []" and "wf_block V block" and "runtime_keeps_keys V" and "clock_codec V" and "inj (ve_sysvar_id V)"
    and "\<forall>tx\<in>tx_of_l2 ` set block. \<forall>stx. ve_sanitize V tx = Ok stx \<longrightarrow> ve_sysvar_id V SysClock \<notin> writable_keys (st_message stx)"
    and "leader_at_slot (bi_number (lh_block_info h) + 1) (leader_schedule_new (rc_sequencer_schedules cfg)) \<noteq> Some (ve_sysvar_id V SysClock)"
  shows "bi_number (l2_block (bo_block_info outcome)) = bi_number (lh_block_info h) + 1
    \<and> bi_hash (l2_block (bo_block_info outcome))
        = chain_hash (ve_sha256 V) (ve_signatures V) (bi_parent_hash (l2_block (bo_block_info outcome))) (raw_of_l2 block)
    \<and> (\<exists>t. db_block_time D (bi_number (lh_block_info h) + 1) = Ok t \<and> bi_timestamp (l2_block (bo_block_info outcome)) = word_of_int t)"
proof -
  let ?k = "ve_sysvar_id V SysClock"
  obtain u s fo s' where x: "su_parent_slot u = bi_number (lh_block_info h)" "su_sequencer_schedules u = rc_sequencer_schedules cfg"
      "db_block_time D (bi_number (lh_block_info h) + 1) = Ok (su_clock_timestamp u)"
      "finish_init V (svm_of_setup V B u) = (Ok (), s)" "fraud_execute_block V l1_key block s = (Ok fo, s')"
      "commit_block D fuel (fo_block_info fo) (export_diff_accounts s') (builder_new cfg h diff db) = Some (Ok outcome, b')"
    using build_block_litesvm [OF assms(1)] assms(2) by (auto simp: builder_new_def)
  obtain rs where r: "execute_raw_block V (raw_of_l2 block) s = (Ok rs, s')" "executed_l2_block_info V l1_key s' = Ok (fo_block_info fo)"
    using fraud_execute_block_Ok [OF x(5)] by blast
  have info: "bo_block_info outcome = fo_block_info fo" by (rule commit_block_Ok(2) [OF x(6)])
  have set: "ls_parent_slot (svm_of_setup V B u) = su_parent_slot u" "ls_leader_schedule (svm_of_setup V B u) = leader_schedule_new (su_sequencer_schedules u)"
    "ls_ticks_per_slot (svm_of_setup V B u) = 64" "ls_hashes_per_tick (svm_of_setup V B u) = 0" "ls_clock_timestamp (svm_of_setup V B u) = word_of_int (su_clock_timestamp u)"
    by (simp_all add: svm_of_setup_def Let_def new_soon_def svm_default_def)
  note f = finish_init_frame [OF x(4), unfolded set]
  obtain ph where ph: "ls_parent_blockhash s = Some ph" "bh_last_hash (ls_blockhash_queue s) = Some ph" using f(6) by blast
  have "concat (raw_of_l2 block) \<noteq> []" using assms(3) by (simp add: concat_raw_of_l2)
  then have ne: "\<exists>b\<in>set (raw_of_l2 block). b \<noteq> []" by auto
  have hash: "ls_blockhash s' = Some (svm_chain_hash V ph (raw_of_l2 block))"
    by (rule execute_raw_block_registers(1) [OF r(1) ne _ _ ph(2)]) (simp_all add: f(4,5))
  have slot: "ls_slot s' = su_parent_slot u + 1" "ls_parent_blockhash s' = Some ph"
    using execute_raw_block_keeps [OF r(1) ne _ _ ph(2)] f(2,4,5) ph(1) by simp_all
  have "keeps_account ?k s (snd (execute_raw_block V (raw_of_l2 block) s))"
  proof (rule execute_raw_block_frame [OF assms(5)])
    show "\<forall>tx\<in>set (concat (raw_of_l2 block)). \<forall>stx. ve_sanitize V tx = Ok stx \<longrightarrow> wf_message V (st_message stx) \<and> ?k \<notin> writable_keys (st_message stx)"
      using assms(4,8) by (auto simp: concat_raw_of_l2 wf_block_def)
    show "leader_at_slot (ls_slot s) (ls_leader_schedule s) \<noteq> Some ?k" using assms(9) by (simp add: f(2,3) x(1,2))
    show "?k \<notin> ve_sysvar_id V ` end_sysvars" using assms(7) by (auto simp: inj_eq)
  qed
  from keeps_account_get [OF this] have clock: "sysvar_data V SysClock s' = sysvar_data V SysClock s" by (simp add: sysvar_data_def r(1))
  obtain c where c: "get_sysvar V SysClock (ve_clock_of V) s = Ok c" "ck_unix_timestamp c = word_of_int (su_clock_timestamp u)"
    using finish_init_clock [OF x(4) assms(6,7)] set by auto
  have "get_sysvar V SysClock (ve_clock_of V) s' = Ok c" using c(1) by (simp add: get_sysvar_def clock)
  with r(2) hash slot c(2) have "l2_block (fo_block_info fo) = \<lparr>bi_hash = svm_chain_hash V ph (raw_of_l2 block), bi_number = su_parent_slot u + 1,
      bi_parent_hash = ph, bi_timestamp = word_of_int (su_clock_timestamp u)\<rparr>"
    by (auto simp: executed_l2_block_info_def svm_parent_blockhash_def svm_blockhash_def Let_def dest!: sym [of _ "fo_block_info fo"])
  with x(1,3) info show ?thesis by simp
qed

subsection \<open>Examples\<close>

text \<open>
  A payload with one transaction on an empty state: every account exists and holds one lamport, and the
  transaction is refused, so that the block writes its sysvars only.
\<close>

definition fx_clock_bytes :: "clock \<Rightarrow> bytes" where
  "fx_clock_bytes c = concat (map (be_of_nat 8 \<circ> unat)
     [ck_slot c, ck_epoch c, ck_leader_schedule_epoch c, ck_unix_timestamp c, ck_epoch_start_timestamp c])"

definition fx_clock_of :: "bytes \<Rightarrow> (clock, string) res" where
  "fx_clock_of b = (let w = (\<lambda>i. of_nat (nat_of_be (take 8 (drop (8 * i) b)))) in
     Ok \<lparr>ck_slot = w 0, ck_epoch = w 1, ck_leader_schedule_epoch = w 2, ck_unix_timestamp = w 3, ck_epoch_start_timestamp = w 4\<rparr>)"

definition fx_env :: "(sanitized_tx, unit, unit) svm_env" where
  "fx_env = (lx_svm_env 5 (Ok ()))\<lparr>ve_sanitize := (\<lambda>_. Err TxUnsupportedVersion), ve_clock_of := fx_clock_of, ve_clock_bytes := fx_clock_bytes,
     ve_governor_of := (\<lambda>_. Ok (\<lparr>fg_lamports_per_signature = 5, fg_other = []\<rparr>, 0))\<rparr>"

definition fx_db_env :: db_env where
  "fx_db_env = ex_db_env\<lparr>de_unpack := (\<lambda>h. take 64 (concat (map (\<lambda>b. [drop_bit 4 b, take_bit 4 b]) h) @ replicate 64 0)),
     de_data_by_hash := (\<lambda>h. Ok [1]), de_decode_account := (\<lambda>b. Ok (lx_account 1))\<rparr>"

definition fx_litesvm :: "sanitized_tx l2_transaction svm" where
  "fx_litesvm = litesvm fx_env [] [30] (\<lambda>_. []) (\<lambda>b. Ok (Head 1 lx_tx))"

definition fx_config :: rollup_config where
  "fx_config = ex_rollup_config\<lparr>rc_genesis_hash := Some (replicate 32 1)\<rparr>"

definition fx_builder :: l2_builder where
  "fx_builder = builder_new fx_config ex_header [] (trie_db_new ex_header)"

definition fx_setup :: svm_setup where
  "fx_setup = \<lparr>su_genesis_hash = replicate 32 1, su_parent_slot = 0, su_parent_bank_hash = zero_hash, su_clock_timestamp = 0,
     su_sequencer_schedules = [], su_accounts_callback = get_account_data fx_db_env (trie_db_new ex_header), su_init_accounts = []\<rparr>"

lemma fx_clock_codec: "clock_codec fx_env"
proof -
  have w: "of_nat (nat_of_be (be_of_nat 8 (unat x))) = x" for x :: u64
    using unsigned_less [of x, where ?'a = nat] by (simp add: nat_of_be_of_nat)
  show ?thesis by (simp add: clock_codec_def fx_env_def fx_clock_bytes_def fx_clock_of_def Let_def w)
qed

lemma fx_callback: "get_account_data fx_db_env (trie_db_new ex_header) = (\<lambda>k. Ok (Some (lx_account 1)))"
  by (auto simp: get_account_data_def fx_db_env_def ex_db_env_def ex_pure_env_def Let_def)

lemma fx_sysvar_id: "ve_sysvar_id fx_env = lx_sysvar_id"
  by (simp add: fx_env_def)

lemma fx_inj: "inj (ve_sysvar_id fx_env)"
proof (rule injI)
  fix x y assume "ve_sysvar_id fx_env x = ve_sysvar_id fx_env y"
  then show "x = y" unfolding fx_sysvar_id by (cases x; cases y) simp_all
qed

definition fx_funded :: "unit lite_svm \<Rightarrow> bool" where
  "fx_funded s \<longleftrightarrow> (\<forall>x\<in>set (av_accounts_diff (ls_accounts s)). ac_lamports (snd x) \<noteq> 0)"

lemma fx_start:
  "\<exists>s. finish_init fx_env (svm_of_setup fx_env [] fx_setup) = (Ok (), s) \<and> fx_funded s \<and> ls_slot s = 1 \<and> ls_leader_schedule s = leader_schedule_new []
    \<and> ls_ticks_per_slot s = 64 \<and> ls_hashes_per_tick s = 0 \<and> ls_blockhash_queue s = queue_of_entries 300 [(replicate 32 1, 0)]"
  by (simp add: finish_init_def svm_of_setup_def fx_setup_def new_soon_def svm_default_def Let_def accounts_db_default_def set_init_accounts_def set_callback_def
     set_epoch_def set_slot_def get_sysvar_def sysvar_data_def get_account_def fx_callback callback_of_def fx_env_def lx_svm_env_def
     update_slot_hashes_def update_clock_def update_slot_history_def update_sysvar_def add_diff_account_def restore_blockhash_queue_def
     fill_sysvar_cache_def fill_missing_entries_def lx_loaders_def last_hash_def queue_of_entries_def lx_account_def account_new_def fx_clock_bytes_def
     fx_clock_of_def sysvar_size_def fx_funded_def)

lemma fx_env_sel [simp]:
  "ve_sanitize fx_env = (\<lambda>_. Err TxUnsupportedVersion)" "ve_slot_history_add fx_env = (\<lambda>_ _. [])" "ve_governor_bytes fx_env = (\<lambda>_. [])"
  "ve_recent_bytes fx_env = (\<lambda>es. of_nat (length es) # lx_encode es)" "ve_max_recent_entries fx_env = 2" "ve_max_processing_age fx_env = 2"
  "ve_sdk_size fx_env = (\<lambda>_. 100)" "ve_sha256 fx_env = ve_sha256 (lx_svm_env 5 (Ok ()))" "ve_signatures fx_env = ve_signatures (lx_svm_env 5 (Ok ()))"
  by (simp_all add: fx_env_def lx_svm_env_def)

lemma fx_update: "\<lbrakk> fx_funded s; update_sysvar fx_env v ser s = (r, s') \<rbrakk> \<Longrightarrow> fx_funded s'"
proof -
  have "x \<in> set (AList.update k a xs) \<Longrightarrow> x = (k, a) \<or> x \<in> set xs" for x k a and xs :: "(pubkey \<times> account) list"
    by (induction xs) (auto split: if_splits)
  then show "\<lbrakk> fx_funded s; update_sysvar fx_env v ser s = (r, s') \<rbrakk> \<Longrightarrow> fx_funded s'"
    by (fastforce simp: update_sysvar_def add_diff_account_def Let_def fx_funded_def fx_env_def lx_svm_env_def split: if_splits)
qed

lemma fx_sbind: "\<lbrakk> fst r = Ok () \<and> fx_funded (snd r); \<And>s. fx_funded s \<Longrightarrow> fst (k () s) = Ok y \<and> fx_funded (snd (k () s)) \<rbrakk>
    \<Longrightarrow> fst (sbind r k) = Ok y \<and> fx_funded (snd (sbind r k))"
  by (cases r) simp

lemma fx_write: "\<lbrakk> fx_funded s; length ser \<le> sysvar_size fx_env v \<rbrakk> \<Longrightarrow> fst (update_sysvar fx_env v ser s) = Ok () \<and> fx_funded (snd (update_sysvar fx_env v ser s))"
  using fx_update by (metis prod.collapse update_sysvar_Ok)

lemma fx_register:
  assumes "fx_funded s" and "ls_blockhash_queue s = queue_of_entries 300 [(replicate 32 1, 0)]"
  shows "fst (register_recent_blockhash fx_env (replicate 31 0 @ [5]) s) = Ok () \<and> fx_funded (snd (register_recent_blockhash fx_env (replicate 31 0 @ [5]) s))"
proof -
  let ?l = "fg_lamports_per_signature (ls_fee_rate_governor s)"
  let ?es = "[(replicate 31 0 @ [5], ?l), (replicate 32 1, 0)] :: (b256 \<times> u64) list"
  have "queue_holds (ls_blockhash_queue s) [(replicate 32 1, 0)] (Suc 0)" using restored_holds [of "[(replicate 32 1, 0)]" 300] assms(2) by simp
  moreover have "replicate 31 0 @ [5] \<noteq> (replicate 32 1 :: b256)" by (auto dest: arg_cong [where f = last])
  ultimately have "queue_holds (register_block (replicate 31 0 @ [5]) s) ?es (Suc (Suc 0))"
    using register_holds [of "ls_blockhash_queue s" "[(replicate 32 1, 0)]" "Suc 0" "replicate 31 0 @ [5]" ?l] assms(2)
    by (simp add: queue_of_entries_def Let_def take_Cons')
  from recent_holds [OF this, of 2] have r: "recent_entries 2 (register_block (replicate 31 0 @ [5]) s) = ?es" by simp
  have "length (lx_encode ?es) = 80" by (subst lx_length_encode) simp_all
  then show ?thesis unfolding register_recent_blockhash_def update_recent_blockhashes_def Let_def
    by (intro fx_sbind fx_write) (use assms(1) in \<open>simp_all add: r sysvar_size_def fx_funded_def\<close>)
qed

lemma fx_block:
  assumes "fx_funded s" and "ls_slot s = 1" and "ls_leader_schedule s = leader_schedule_new []" and "ls_ticks_per_slot s = 64" and "ls_hashes_per_tick s = 0"
    and "ls_blockhash_queue s = queue_of_entries 300 [(replicate 32 1, 0)]"
  shows "\<exists>rs s'. execute_raw_block fx_env [[lx_tx]] s = (Ok rs, s') \<and> fx_funded s'"
proof -
  obtain meta where x: "send_transaction fx_env lx_tx s = (Ok (Some TxUnsupportedVersion, meta), s)" "tm_fee meta = 0"
    by (simp add: send_transaction_def execute_transaction_def sanitize_transaction_def execution_default_def metadata_of_def Let_def)
  let ?rs = "[(Some TxUnsupportedVersion, meta)]"
  have "leader_at_slot 1 (leader_schedule_new []) = None" by (simp add: leader_at_slot_def leader_schedule_new_def)
  then have "pay_leader fx_env (block_fees ?rs) s = (Ok (), s)" using assms(2,3) by (simp add: pay_leader_def)
  then have "fst (seal_block fx_env ?rs s) = Ok () \<and> fx_funded (snd (seal_block fx_env ?rs s))"
    unfolding seal_block_alt update_slot_history_def update_fee_rate_governor_def
    by (intro fx_sbind fx_write) (use assms(1) in \<open>simp_all add: sysvar_size_def\<close>)
  then obtain s2 where s2: "seal_block fx_env ?rs s = (Ok (), s2)" "fx_funded s2" by (metis prod.collapse)
  have "only_ledger s s2" using seal_block_frame s2(1) by (metis snd_conv)
  note d = only_ledgerD [OF this]
  have p: "process_entries_and_register_blockhash fx_env [[lx_tx]] s2
    = register_recent_blockhash fx_env (replicate 31 0 @ [5]) (s2\<lparr>ls_blockhash := Some (replicate 31 0 @ [5])\<rparr>)"
    using process_entries_registers [of "[[lx_tx]]" s2 "replicate 32 1" fx_env] d assms(4-6)
    by (simp only: fx_env_sel lx_hash) (simp add: queue_of_entries_def Let_def)
  have "fx_funded (s2\<lparr>ls_blockhash := Some (replicate 31 0 @ [5])\<rparr>)" using s2(2) by (simp add: fx_funded_def)
  moreover have "ls_blockhash_queue (s2\<lparr>ls_blockhash := Some (replicate 31 0 @ [5])\<rparr>) = queue_of_entries 300 [(replicate 32 1, 0)]" using d(1) assms(6) by simp
  ultimately obtain s3 where "process_entries_and_register_blockhash fx_env [[lx_tx]] s2 = (Ok (), s3)" "fx_funded s3"
    using fx_register unfolding p by (metis prod.collapse)
  then show ?thesis by (simp add: execute_raw_block_def x(1) s2(1))
qed

lemma fx_touches: "block_touches fx_env [] 1 [Head 1 lx_tx] = range lx_sysvar_id"
  by (simp add: block_touches_def fx_sysvar_id leader_at_slot_def leader_schedule_new_def)

lemma fx_path: "account_path fx_db_env [n] = drop_bit 4 n # take_bit 4 n # replicate 62 0"
  by (simp add: account_path_def fx_db_env_def ex_db_env_def ex_pure_env_def numeral_eq_Suc)

lemma fx_singleton: "\<exists>n. lx_sysvar_id v = [n]"
  by (cases v) simp_all

lemma fx_paths_inj: "inj_on (account_path fx_db_env) (insert [3] (range lx_sysvar_id))"
proof (rule inj_onI)
  fix x y assume "x \<in> insert [3] (range lx_sysvar_id)" "y \<in> insert [3] (range lx_sysvar_id)"
  then obtain m n where xy: "x = [m]" "y = [n]" using fx_singleton by (metis imageE insertE)
  assume "account_path fx_db_env x = account_path fx_db_env y"
  then have "drop_bit 4 m = drop_bit 4 n" "take_bit 4 m = take_bit 4 n" by (simp_all add: xy fx_path)
  then have "m = n" by (metis bits_ident)
  then show "x = y" by (simp add: xy)
qed

lemma fx_path_key: "account_key (account_path fx_db_env (lx_sysvar_id v))"
proof -
  obtain n where n: "lx_sysvar_id v = [n]" using fx_singleton by blast
  have "unat (drop_bit 4 n) < 16" "unat (take_bit 4 n) < 16"
    using unsigned_less [of n, where ?'a = nat] by (simp_all add: drop_bit_eq_div take_bit_eq_mod unat_div unat_mod)
  then show ?thesis by (auto simp: n fx_path account_key_def nibbled_def word_less_nat_alt)
qed

definition fx_attrs :: payload_attributes where
  "fx_attrs = ex_template\<lparr>pa_transactions := Some [[0]]\<rparr>"

lemma fx_convert: "convert_block fx_litesvm (case pa_transactions fx_attrs of None \<Rightarrow> [] | Some txs \<Rightarrow> txs) = Ok [Head 1 lx_tx]"
  by (simp add: fx_litesvm_def litesvm_def fx_attrs_def)

lemma fx_wf: "wf_block fx_env [Head 1 lx_tx]"
  by (simp add: wf_block_def)

lemma fx_runtime: "runtime_keeps_keys fx_env"
  using lx_runtime_keeps_keys [of 5 "Ok ()"] by (simp add: runtime_keeps_keys_def fx_env_def)

lemma fx_executes_from:
  assumes s: "finish_init fx_env s0 = (Ok (), s)" "fx_funded s" "ls_slot s = 1" "ls_leader_schedule s = leader_schedule_new []"
      "ls_ticks_per_slot s = 64" "ls_hashes_per_tick s = 0" "ls_blockhash_queue s = queue_of_entries 300 [(replicate 32 1, 0)]"
  shows "\<exists>fo s'. fraud_execute_block fx_env [30] [Head 1 lx_tx] s = (Ok fo, s')
    \<and> execute_raw_block fx_env (raw_of_l2 [Head 1 lx_tx]) s = (Ok (fo_execution_result fo), s') \<and> fx_funded s'"
proof -
  have raw: "raw_of_l2 [Head 1 lx_tx] = [[lx_tx]]" by (simp add: raw_of_l2_def)
  obtain rs s' where x: "execute_raw_block fx_env [[lx_tx]] s = (Ok rs, s')" "fx_funded s'" using fx_block [OF s(2-7)] by blast
  have q: "bh_last_hash (ls_blockhash_queue s) = Some (replicate 32 1)" by (simp add: s(7) queue_of_entries_def Let_def)
  have hash: "\<exists>h. ls_blockhash s' = Some h" "ls_parent_blockhash s' = ls_parent_blockhash s"
    using execute_raw_block_registers(1) [OF x(1) _ _ _ q] execute_raw_block_keeps(2) [OF x(1) _ _ _ q] s(5,6) by auto
  obtain h where h: "ls_parent_blockhash s = Some h" using finish_init_frame(6) [OF s(1)] by blast
  have "get_account [20] (ls_accounts s') = get_account [20] (ls_accounts s)"
    using keeps_account_get [OF execute_raw_block_frame [OF fx_runtime, of "[[lx_tx]]" "[20]" s]] s(3,4)
    by (simp add: x(1) fx_sysvar_id leader_at_slot_def leader_schedule_new_def)
  then have "get_sysvar fx_env SysClock (ve_clock_of fx_env) s' = get_sysvar fx_env SysClock (ve_clock_of fx_env) s"
    by (simp add: get_sysvar_def sysvar_data_def fx_sysvar_id)
  then obtain c where "get_sysvar fx_env SysClock (ve_clock_of fx_env) s' = Ok c" using finish_init_clock [OF s(1) fx_clock_codec fx_inj] by auto
  with hash h x have "\<exists>i. executed_l2_block_info fx_env [30] s' = Ok i"
    by (auto simp: executed_l2_block_info_def svm_blockhash_def svm_parent_blockhash_def Let_def)
  then show ?thesis using x by (auto simp: raw fraud_execute_block_def)
qed

lemma fx_executes:
  "\<exists>fo s s'. finish_init fx_env (svm_of_setup fx_env [] fx_setup) = (Ok (), s) \<and> fraud_execute_block fx_env [30] [Head 1 lx_tx] s = (Ok fo, s')
    \<and> execute_raw_block fx_env (raw_of_l2 [Head 1 lx_tx]) s = (Ok (fo_execution_result fo), s') \<and> fx_funded s'"
  using fx_start fx_executes_from by meson

lemma fx_builds: "\<exists>outcome b'. build_block fx_db_env fx_litesvm walk_fuel fx_attrs fx_builder = Some (Ok outcome, b')"
proof -
  obtain fo s s' where x: "finish_init fx_env (svm_of_setup fx_env [] fx_setup) = (Ok (), s)" "fraud_execute_block fx_env [30] [Head 1 lx_tx] s = (Ok fo, s')"
      "execute_raw_block fx_env (raw_of_l2 [Head 1 lx_tx]) s = (Ok (fo_execution_result fo), s')" "fx_funded s'"
    using fx_executes by blast
  let ?xs = "modified_accounts (lb_accounts_diff fx_builder) (export_diff_accounts s')"
  have su: "su_sequencer_schedules fx_setup = []" "su_parent_slot fx_setup + 1 = 1" by (simp_all add: fx_setup_def)
  have "keeps_account k (svm_of_setup fx_env [] fx_setup) s'" if "k \<notin> range lx_sysvar_id" for k
    using run_block_frame [OF x(1) fx_runtime fx_wf, of k] that unfolding su fx_touches by (simp add: x(3))
  from modified_are_touched [OF this] have K: "fst ` set ?xs \<subseteq> range lx_sysvar_id" by (simp add: fx_builder_def builder_new_def fx_setup_def)
  have "distinct (map fst ?xs)" by (simp add: modified_accounts_def distinct_map_filter)
  moreover have "inj_on (account_path fx_db_env) (fst ` set ?xs)" using fx_paths_inj K by (meson inj_on_subset subset_insertI2)
  ultimately have "distinct (map (account_path fx_db_env \<circ> fst) ?xs)" by (metis distinct_map list.map_comp list.set_map)
  moreover have "list_all (\<lambda>(k, a). account_key (account_path fx_db_env k)) ?xs" using K fx_path_key by (force simp: list_all_iff)
  ultimately have ok: "diff_paths_ok fx_db_env ?xs" by (simp add: diff_paths_ok_def)
  have repr: "db_repr fx_db_env (trie_db_new ex_header) Map.empty Map.empty" using ex_db_repr by (simp add: db_repr_def fx_db_env_def)
  have "diff_deletable fx_db_env Map.empty Map.empty ?xs"
    using x(4) by (auto simp: diff_deletable_def list_all_iff deletable_def modified_accounts_def export_diff_iff changed_account_def fx_funded_def dest!: map_of_SomeD)
  from world_states_repr [OF repr ok this, of "lb_parent_slot fx_builder"] obtain db' sr wr where w: "world_states fx_db_env walk_fuel ?xs (lb_parent_slot fx_builder) (lb_trie_db fx_builder) = Some (Ok (sr, wr), db')"
    by (auto simp: fx_builder_def builder_new_def)
  have "db_bank_hash fx_db_env (lb_parent_slot fx_builder) = Ok zero_hash" "db_block_time fx_db_env (lb_parent_slot fx_builder + 1) = Ok 0"
    "rc_genesis_hash (lb_config fx_builder) = Some (replicate 32 1)"
    by (simp_all add: db_bank_hash_def db_block_time_def fx_db_env_def ex_db_env_def fx_builder_def builder_new_def fx_config_def)
  moreover have "\<lparr>su_genesis_hash = replicate 32 1, su_parent_slot = lb_parent_slot fx_builder, su_parent_bank_hash = zero_hash, su_clock_timestamp = 0,
      su_sequencer_schedules = rc_sequencer_schedules (lb_config fx_builder), su_accounts_callback = get_account_data fx_db_env (lb_trie_db fx_builder),
      su_init_accounts = lb_last_accounts_diff fx_builder\<rparr> = fx_setup"
    by (simp add: fx_setup_def fx_builder_def builder_new_def fx_config_def ex_rollup_config_def ex_header_def default_block_info_def)
  ultimately show ?thesis
    unfolding build_block_def Let_def using w by (simp add: fx_convert commit_block_def Let_def) (simp add: fx_litesvm_def litesvm_def x(1,2) commit_block_def Let_def)
qed

theorem proof_keeps_untouched_witness:
  "\<exists>outcome b' m' w'. build_block fx_db_env fx_litesvm walk_fuel fx_attrs fx_builder = Some (Ok outcome, b')
    \<and> db_repr fx_db_env (lb_trie_db b') m' w' \<and> m' (account_path fx_db_env [3]) = None
    \<and> (\<forall>t. stores (de_trie fx_db_env) t m' \<longrightarrow> blind (de_trie fx_db_env) t = bo_state_root outcome)"
proof -
  obtain outcome b' where b: "build_block fx_db_env fx_litesvm walk_fuel fx_attrs fx_builder = Some (Ok outcome, b')" using fx_builds by blast
  have k: "block_touches fx_env (rc_sequencer_schedules fx_config) (bi_number (lh_block_info ex_header) + 1) [Head 1 lx_tx] = range lx_sysvar_id"
    using fx_touches by (simp add: fx_config_def ex_rollup_config_def ex_header_def default_block_info_def)
  have "lx_sysvar_id v \<noteq> [3]" for v by (cases v) simp_all
  then have n: "[3] \<notin> range lx_sysvar_id" by (metis imageE)
  have repr: "db_repr fx_db_env (trie_db_new ex_header) Map.empty Map.empty" using ex_db_repr by (simp add: db_repr_def fx_db_env_def)
  show ?thesis
    using proof_keeps_untouched [OF b [unfolded fx_litesvm_def fx_builder_def] fx_convert [unfolded fx_litesvm_def] fx_wf fx_runtime repr, of "[3]"]
      b fx_paths_inj fx_path_key n unfolding k by auto
qed

theorem proof_block_extends_parent_witness:
  "\<exists>outcome b'. build_block fx_db_env fx_litesvm walk_fuel fx_attrs fx_builder = Some (Ok outcome, b')
    \<and> bi_number (l2_block (bo_block_info outcome)) = 1 \<and> bi_timestamp (l2_block (bo_block_info outcome)) = 0
    \<and> bi_hash (l2_block (bo_block_info outcome))
        = chain_hash (ve_sha256 fx_env) (ve_signatures fx_env) (bi_parent_hash (l2_block (bo_block_info outcome))) (raw_of_l2 [Head 1 lx_tx])"
proof -
  obtain outcome b' where b: "build_block fx_db_env fx_litesvm walk_fuel fx_attrs fx_builder = Some (Ok outcome, b')" using fx_builds by blast
  have "db_block_time fx_db_env 1 = Ok 0" by (simp add: db_block_time_def fx_db_env_def ex_db_env_def)
  then show ?thesis
    using proof_block_extends_parent [OF b [unfolded fx_litesvm_def fx_builder_def] fx_convert [unfolded fx_litesvm_def] _ fx_wf fx_runtime fx_clock_codec fx_inj] b
    by (simp add: fx_config_def ex_rollup_config_def ex_header_def default_block_info_def leader_at_slot_def leader_schedule_new_def)
qed

end
