(* ===== verification/Offchain.thy ===== *)
theory Offchain
  imports Fraud
begin

text \<open>
  The block builder that works on a copy of all accounts (\<^verbatim>\<open>proof/executor/src/builder/offchain.rs\<close>) and the root
  of such a copy (\<^verbatim>\<open>executor/fraud/src/accounts.rs\<close>). It runs a block on the same SVM as the stateless builder
  of \<open>Trie_Db\<close>, with the accounts of the parent slot in memory in place of the tries. The provider, the codecs
  and the function that computes the root of a trie from its entries are parameters.
\<close>

section \<open>Roots of copies\<close>

type_synonym account_pairs = "(pubkey \<times> account) list"

record offchain_env =
  oe_keccak256 :: "bytes \<Rightarrow> b256"
  oe_trie_root :: "(b256 \<times> bytes) list \<Rightarrow> b256"
  oe_data_by_hash :: "b256 \<Rightarrow> (bytes, string) res"
  oe_accounts_of :: "bytes \<Rightarrow> (account_pairs, string) res"
  oe_i64_of :: "bytes \<Rightarrow> (int, string) res"

definition add_trie_account :: "(bytes \<Rightarrow> b256) \<Rightarrow> pubkey \<Rightarrow> account \<Rightarrow> (b256 \<times> trie_account) list \<Rightarrow> (b256 \<times> trie_account) list" where
  "add_trie_account keccak256 pubkey account target = target @ [(keccak256 pubkey, account_from_solana_native keccak256 account)]"

definition mpt_accounts :: "(bytes \<Rightarrow> b256) \<Rightarrow> account_pairs \<Rightarrow> (b256 \<times> trie_account) list" where
  "mpt_accounts keccak256 accounts = fold (\<lambda>(pubkey, account). add_trie_account keccak256 pubkey account) accounts []"

definition soon_state_root :: "offchain_env \<Rightarrow> account_pairs \<Rightarrow> b256" where
  "soon_state_root X accounts =
     oe_trie_root X (map (\<lambda>(address, account). (address, sol_account_encoder (oe_keccak256 X) account)) (mpt_accounts (oe_keccak256 X) accounts))"

section \<open>What the provider is asked for\<close>

definition slot_spec_hash :: "(bytes \<Rightarrow> b256) \<Rightarrow> u64 \<Rightarrow> bytes \<Rightarrow> b256" where
  "slot_spec_hash keccak256 slot tag = keccak256 (be_of_nat 8 (unat slot) @ tag)"

definition cal_soon_accounts_hash :: "(bytes \<Rightarrow> b256) \<Rightarrow> u64 \<Rightarrow> b256" where
  "cal_soon_accounts_hash keccak256 slot = slot_spec_hash keccak256 slot (map of_char ''soon_accounts'')"

definition cal_init_state_root_hash :: "(bytes \<Rightarrow> b256) \<Rightarrow> u64 \<Rightarrow> b256" where
  "cal_init_state_root_hash keccak256 slot = slot_spec_hash keccak256 slot (map of_char ''init_state_root'')"

definition cal_svm_bank_hash :: "(bytes \<Rightarrow> b256) \<Rightarrow> u64 \<Rightarrow> b256" where
  "cal_svm_bank_hash keccak256 slot = slot_spec_hash keccak256 slot (map of_char ''svm_bank_hash'')"

definition cal_svm_clock_timestamp :: "(bytes \<Rightarrow> b256) \<Rightarrow> u64 \<Rightarrow> b256" where
  "cal_svm_clock_timestamp keccak256 slot = slot_spec_hash keccak256 slot (map of_char ''svm_clock_timestamp'')"

section \<open>The builder\<close>

record offchain_builder =
  ob_config :: rollup_config
  ob_parent_header :: l2_block_header
  ob_diff_accounts :: account_pairs
  ob_state_root :: b256

definition offchain_new :: "rollup_config \<Rightarrow> l2_block_header \<Rightarrow> offchain_builder" where
  "offchain_new config parent_header =
     \<lparr>ob_config = config, ob_parent_header = parent_header, ob_diff_accounts = [], ob_state_root = zero_hash\<rparr>"

definition offchain_parent_slot :: "offchain_builder \<Rightarrow> u64" where
  "offchain_parent_slot b = bi_number (lh_block_info (ob_parent_header b))"

definition offchain_current_slot :: "offchain_builder \<Rightarrow> u64" where
  "offchain_current_slot b = bi_number (lh_block_info (ob_parent_header b)) + 1"

definition fetch :: "offchain_env \<Rightarrow> b256 \<Rightarrow> string \<Rightarrow> (bytes, executor_error) res" where
  "fetch X h what = map_err (\<lambda>_. FraudInitError what) (oe_data_by_hash X h)"

definition get_init_accounts :: "offchain_env \<Rightarrow> offchain_builder \<Rightarrow> (account_pairs, executor_error) res" where
  "get_init_accounts X b =
     rthen (fetch X (cal_soon_accounts_hash (oe_keccak256 X) (offchain_parent_slot b)) ''Failed to get soon accounts code'') (\<lambda>soon_accounts.
     map_err FraudInitError (oe_accounts_of X soon_accounts))"

text \<open>\<open>Hash::new\<close> and the conversion of the stored root panic on another length than 32.\<close>

definition hash_32 :: "bytes \<Rightarrow> (b256, 'e) res" where
  "hash_32 b = (if length b = 32 then Ok b else Panic)"

definition offchain_svm :: "('tx, 'l, 'p) svm_env \<Rightarrow> (pubkey, 'p) hmap \<Rightarrow> b256 \<Rightarrow> offchain_builder \<Rightarrow> b256 \<Rightarrow> int \<Rightarrow> account_pairs \<Rightarrow> 'p lite_svm" where
  "offchain_svm V builtins genesis_hash b parent_bank_hash clock_timestamp soon_accounts =
     (let s = new_soon V builtins in
      s\<lparr>ls_genesis_hash := genesis_hash, ls_parent_slot := offchain_parent_slot b, ls_parent_bank_hash := parent_bank_hash,
        ls_leader_schedule := leader_schedule_new (rc_sequencer_schedules (ob_config b)), ls_sig_verify := False, ls_blockhash_verify := True,
        ls_accounts := set_callback (memory_callback (callback_from soon_accounts)) (ls_accounts s),
        ls_clock_timestamp := word_of_int clock_timestamp\<rparr>)"

text \<open>The outcome of a block, and the accounts that it changed.\<close>

definition offchain_execute ::
  "('tx, 'l, 'p) svm_env \<Rightarrow> (pubkey, 'p) hmap \<Rightarrow> pubkey \<Rightarrow> (fraud_error \<Rightarrow> string) \<Rightarrow> (bytes \<Rightarrow> ('tx l2_transaction, string) res) \<Rightarrow> offchain_env
     \<Rightarrow> payload_attributes \<Rightarrow> offchain_builder \<Rightarrow> (account_pairs \<times> fraud_outcome \<times> account_pairs, executor_error) res" where
  "offchain_execute V builtins l1_key render des X attrs b =
     rthen (get_init_accounts X b) (\<lambda>soon_accounts.
     rthen (fetch X (cal_svm_bank_hash (oe_keccak256 X) (offchain_parent_slot b)) ''Failed to get svm parent bank hash code'') (\<lambda>bank.
     rthen (hash_32 bank) (\<lambda>parent_bank_hash.
     rthen (fetch X (cal_svm_clock_timestamp (oe_keccak256 X) (offchain_current_slot b)) ''Failed to get clock timestamp'') (\<lambda>clock.
     rthen (map_err FraudInitError (oe_i64_of X clock)) (\<lambda>clock_timestamp.
     rthen (case rc_genesis_hash (ob_config b) of None \<Rightarrow> Panic | Some h \<Rightarrow> Ok h) (\<lambda>genesis_hash.
     let (r, s) = finish_init V (offchain_svm V builtins genesis_hash b parent_bank_hash clock_timestamp soon_accounts) in
     rthen (map_err (FraudExecutorError \<circ> render \<circ> LiteSvmError) r) (\<lambda>_.
     rthen (convert_block (litesvm V builtins l1_key render des) (case pa_transactions attrs of None \<Rightarrow> [] | Some txs \<Rightarrow> txs)) (\<lambda>block.
     let (r, s) = fraud_execute_block V l1_key block s in
     rthen (map_err (FraudExecutorError \<circ> render) r) (\<lambda>outcome. Ok (soon_accounts, outcome, export_diff_accounts s))))))))))"

definition offchain_build_block ::
  "('tx, 'l, 'p) svm_env \<Rightarrow> (pubkey, 'p) hmap \<Rightarrow> pubkey \<Rightarrow> (fraud_error \<Rightarrow> string) \<Rightarrow> (bytes \<Rightarrow> ('tx l2_transaction, string) res) \<Rightarrow> offchain_env
     \<Rightarrow> payload_attributes \<Rightarrow> offchain_builder \<Rightarrow> (fraud_outcome, executor_error) res \<times> offchain_builder" where
  "offchain_build_block V builtins l1_key render des X attrs b =
     rbind (offchain_execute V builtins l1_key render des X attrs b) b (\<lambda>(soon_accounts, outcome, accounts_diff).
     let soon_accounts_map = bt_extend (bt_extend [] soon_accounts) accounts_diff;
         state_root = soon_state_root X soon_accounts_map;
         b = b\<lparr>ob_diff_accounts := accounts_diff, ob_state_root := state_root\<rparr> in
     rbind (fetch X (cal_init_state_root_hash (oe_keccak256 X) (offchain_current_slot b)) ''Failed to get init state root'') b (\<lambda>actual_root.
     rbind (hash_32 actual_root) b (\<lambda>_. (Ok (outcome\<lparr>fo_state_root := state_root\<rparr>), b))))"

definition offchain_compute_output_root :: "offchain_env \<Rightarrow> offchain_builder \<Rightarrow> (b256, executor_error) res \<times> offchain_builder" where
  "offchain_compute_output_root X b =
     (if ob_state_root b = zero_hash then
        rbind (get_init_accounts X b) b (\<lambda>soon_accounts.
        let b = b\<lparr>ob_state_root := soon_state_root X soon_accounts\<rparr> in (Ok (ob_state_root b), b))
      else (Ok (ob_state_root b), b))"

section \<open>The copy and the executor\<close>

lemma mpt_accounts_map: "mpt_accounts keccak256 accounts = map (\<lambda>(k, a). (keccak256 k, account_from_solana_native keccak256 a)) accounts"
proof -
  have "fold (\<lambda>(k, a). add_trie_account keccak256 k a) accounts target = target @ map (\<lambda>(k, a). (keccak256 k, account_from_solana_native keccak256 a)) accounts" for target
    by (induction accounts arbitrary: target) (auto simp: add_trie_account_def)
  then show ?thesis by (simp add: mpt_accounts_def)
qed

lemma soon_state_root_entries:
  "soon_state_root X accounts = oe_trie_root X (map (\<lambda>(k, a). (oe_keccak256 X k, sol_account_encoder (oe_keccak256 X) (account_from_solana_native (oe_keccak256 X) a))) accounts)"
  by (simp add: soon_state_root_def mpt_accounts_map comp_def split_beta')

text \<open>The SVM of this builder is one that the stateless builder could set up, with the copy behind its callback.\<close>

definition copy_setup :: "b256 \<Rightarrow> offchain_builder \<Rightarrow> b256 \<Rightarrow> int \<Rightarrow> account_pairs \<Rightarrow> svm_setup" where
  "copy_setup genesis_hash b bank clock_timestamp soon_accounts =
     \<lparr>su_genesis_hash = genesis_hash, su_parent_slot = offchain_parent_slot b, su_parent_bank_hash = bank, su_clock_timestamp = clock_timestamp,
      su_sequencer_schedules = rc_sequencer_schedules (ob_config b), su_accounts_callback = (\<lambda>k. Ok (map_of (callback_from soon_accounts) k)),
      su_init_accounts = []\<rparr>"

lemma offchain_svm_is_setup: "offchain_svm V B g b bank t accounts = svm_of_setup V B (copy_setup g b bank t accounts)"
proof -
  have "memory_callback (callback_from accounts) = callback_of (\<lambda>k. Ok (map_of (callback_from accounts) k) :: (account option, trie_db_error) res)"
    by (auto simp: memory_callback_def callback_of_def)
  then show ?thesis
    by (simp add: offchain_svm_def svm_of_setup_def copy_setup_def Let_def set_init_accounts_def set_callback_def new_soon_def svm_default_def)
qed

lemma offchain_execute_Ok:
  assumes "offchain_execute V B l1_key render des X attrs b = Ok (init, fo, diff)"
  shows "\<exists>g bank t s s' block. get_init_accounts X b = Ok init \<and> finish_init V (svm_of_setup V B (copy_setup g b bank t init)) = (Ok (), s)
    \<and> convert_block (litesvm V B l1_key render des) (payload_txs attrs) = Ok block \<and> fraud_execute_block V l1_key block s = (Ok fo, s')
    \<and> diff = export_diff_accounts s'"
  using assms by (auto simp: offchain_execute_def offchain_svm_is_setup res_simps Let_def case_prod_beta split: option.split_asm) (metis prod.collapse)+

lemma callback_from_map: "map_of (callback_from accounts) k = map_of (rev accounts) k"
proof -
  have "map_of (fold (\<lambda>(k, a). AList.update k a) accounts m) k = (case map_of (rev accounts) k of Some a \<Rightarrow> Some a | None \<Rightarrow> map_of m k)"
    for m :: account_pairs
    by (induction accounts rule: rev_induct) (auto simp: update_conv')
  then show ?thesis by (simp add: callback_from_def split: option.split)
qed

section \<open>Properties\<close>

text \<open>
  C30: the state root that the builder reports is the root of a copy of the accounts, each once, in which the
  accounts that the block changed are as the executor left them, and the others, and so all that the block
  does not touch, as they were in the parent's copy.
\<close>

theorem offchain_root_of_accounts:
  assumes "offchain_build_block V B l1_key render des X attrs b = (Ok outcome, b')" and "get_init_accounts X b = Ok init"
    and "convert_block (litesvm V B l1_key render des) (case pa_transactions attrs of None \<Rightarrow> [] | Some txs \<Rightarrow> txs) = Ok block"
    and "wf_block V block" and "runtime_keeps_keys V"
  shows "\<exists>accounts. fo_state_root outcome
        = oe_trie_root X (map (\<lambda>(k, a). (oe_keccak256 X k, sol_account_encoder (oe_keccak256 X) (account_from_solana_native (oe_keccak256 X) a))) accounts)
    \<and> distinct (map fst accounts)
    \<and> (\<forall>k. map_of accounts k = (case map_of (ob_diff_accounts b') k of Some a \<Rightarrow> Some a | None \<Rightarrow> map_of (rev init) k))
    \<and> (\<forall>k. k \<notin> block_touches V (rc_sequencer_schedules (ob_config b)) (bi_number (lh_block_info (ob_parent_header b)) + 1) block
          \<longrightarrow> map_of accounts k = map_of (rev init) k)"
proof -
  obtain fo diff where x: "offchain_execute V B l1_key render des X attrs b = Ok (init, fo, diff)" "ob_diff_accounts b' = diff"
      "fo_state_root outcome = soon_state_root X (bt_extend (bt_extend [] init) diff)"
    using assms(1,2) offchain_execute_Ok by (fastforce simp: offchain_build_block_def res_simps Let_def)
  obtain g bank t s s' where y: "finish_init V (svm_of_setup V B (copy_setup g b bank t init)) = (Ok (), s)"
      "fraud_execute_block V l1_key block s = (Ok fo, s')" "diff = export_diff_accounts s'"
    using offchain_execute_Ok [OF x(1)] assms(3) by auto
  let ?xs = "bt_extend (bt_extend [] init) diff"
  have e: "bt_invar ([] :: account_pairs)" by (simp add: bt_invar_def)
  have i: "bt_invar (bt_extend [] init)" by (rule bt_invar_extend [OF e])
  have d: "distinct (map fst diff)" by (simp add: y(3))
  have m: "map_of ?xs k = (case map_of diff k of Some a \<Rightarrow> Some a | None \<Rightarrow> map_of (rev init) k)" for k
    using map_of_bt_extend [OF i d] map_of_bt_extend_rev [OF e, of init k] by (simp add: map_add_def split: option.split)
  have "map_of diff k = None" if "k \<notin> block_touches V (rc_sequencer_schedules (ob_config b)) (bi_number (lh_block_info (ob_parent_header b)) + 1) block" for k
  proof -
    obtain rs where "execute_raw_block V (raw_of_l2 block) s = (Ok rs, s')" using fraud_execute_block_Ok [OF y(2)] by blast
    then have "keeps_account k (svm_of_setup V B (copy_setup g b bank t init)) s'"
      using run_block_frame [OF y(1) assms(5,4), of k] that by (simp add: copy_setup_def offchain_parent_slot_def)
    then have "changed_account k (ls_accounts s') = None"
      by (simp add: keeps_account_def same_account_def setup_knows_diff) (simp add: copy_setup_def bt_extend_def)
    then show ?thesis using export_diff_iff [of k _ s'] d y(3) by (metis map_of_SomeD not_Some_eq)
  qed
  then show ?thesis using x(2,3) m bt_distinct [OF bt_invar_extend [OF i]] by (intro exI [of _ ?xs]) (auto simp: soon_state_root_entries)
qed

text \<open>
  An account that a block emptied stays in the copy, as an entry of 32 zero bytes, where the
  stateless builder removes it from its trie: the roots of the two builders differ.
\<close>

theorem offchain_keeps_emptied_account:
  assumes "(k, a) \<in> set accounts" and "ac_lamports a = 0"
  shows "\<exists>entries. soon_state_root X accounts = oe_trie_root X entries \<and> (oe_keccak256 X k, replicate 32 0) \<in> set entries \<and> state_value D a = None"
proof -
  let ?es = "map (\<lambda>(k, a). (oe_keccak256 X k, sol_account_encoder (oe_keccak256 X) (account_from_solana_native (oe_keccak256 X) a))) accounts"
  have "(oe_keccak256 X k, replicate 32 0) \<in> set ?es"
    using assms by (force simp: sol_account_encoder_def account_from_solana_native_def)
  then show ?thesis using assms(2) soon_state_root_entries [of X accounts] by (intro exI [of _ ?es]) (simp add: state_value_def)
qed

subsection \<open>Examples\<close>

definition fx_copy :: account_pairs where
  "fx_copy = [([20], lx_account 1), ([25], lx_account 1), ([3], lx_account 0)]"

definition fx_offchain :: offchain_env where
  "fx_offchain = \<lparr>oe_keccak256 = id, oe_trie_root = concat \<circ> map snd, oe_data_by_hash = (\<lambda>h. Ok (replicate 32 0)), oe_accounts_of = (\<lambda>b. Ok fx_copy),
     oe_i64_of = (\<lambda>b. Ok 0)\<rparr>"

definition fx_offchain_builder :: offchain_builder where
  "fx_offchain_builder = offchain_new fx_config ex_header"

lemma fx_copy_start:
  "\<exists>s. finish_init fx_env (svm_of_setup fx_env [] (copy_setup (replicate 32 1) fx_offchain_builder (replicate 32 0) 0 fx_copy)) = (Ok (), s) \<and> fx_funded s
    \<and> ls_slot s = 1 \<and> ls_leader_schedule s = leader_schedule_new []
    \<and> ls_ticks_per_slot s = 64 \<and> ls_hashes_per_tick s = 0 \<and> ls_blockhash_queue s = queue_of_entries 300 [(replicate 32 1, 0)]"
  by (simp add: finish_init_def svm_of_setup_def copy_setup_def new_soon_def svm_default_def Let_def accounts_db_default_def set_init_accounts_def set_callback_def
     set_epoch_def set_slot_def get_sysvar_def sysvar_data_def get_account_def callback_from_map fx_copy_def callback_of_def fx_env_def lx_svm_env_def
     update_slot_hashes_def update_clock_def update_slot_history_def update_sysvar_def add_diff_account_def restore_blockhash_queue_def
     fill_sysvar_cache_def fill_missing_entries_def lx_loaders_def last_hash_def queue_of_entries_def lx_account_def account_new_def fx_clock_bytes_def
     fx_clock_of_def sysvar_size_def fx_funded_def fx_offchain_builder_def offchain_new_def offchain_parent_slot_def fx_config_def ex_rollup_config_def
     ex_header_def default_block_info_def)

lemma fx_offchain_builds: "\<exists>outcome b'. offchain_build_block fx_env [] [30] (\<lambda>_. []) (\<lambda>b. Ok (Head 1 lx_tx)) fx_offchain fx_attrs fx_offchain_builder = (Ok outcome, b')"
proof -
  obtain s where s: "finish_init fx_env (svm_of_setup fx_env [] (copy_setup (replicate 32 1) fx_offchain_builder (replicate 32 0) 0 fx_copy)) = (Ok (), s)" "fx_funded s"
      "ls_slot s = 1" "ls_leader_schedule s = leader_schedule_new []" "ls_ticks_per_slot s = 64" "ls_hashes_per_tick s = 0"
      "ls_blockhash_queue s = queue_of_entries 300 [(replicate 32 1, 0)]"
    using fx_copy_start by blast
  obtain fo s' where "fraud_execute_block fx_env [30] [Head 1 lx_tx] s = (Ok fo, s')" using fx_executes_from [OF s] by blast
  moreover have "rc_genesis_hash (ob_config fx_offchain_builder) = Some (replicate 32 1)" by (simp add: fx_offchain_builder_def offchain_new_def fx_config_def)
  ultimately have "offchain_execute fx_env [] [30] (\<lambda>_. []) (\<lambda>b. Ok (Head 1 lx_tx)) fx_offchain fx_attrs fx_offchain_builder = Ok (fx_copy, fo, export_diff_accounts s')"
    using s(1) fx_convert [unfolded fx_litesvm_def] by (simp add: offchain_execute_def offchain_svm_is_setup get_init_accounts_def fetch_def hash_32_def fx_offchain_def)
  then show ?thesis by (simp add: offchain_build_block_def Let_def fetch_def hash_32_def) (simp add: fx_offchain_def)
qed

theorem offchain_root_of_accounts_witness:
  "\<exists>outcome b' accounts. offchain_build_block fx_env [] [30] (\<lambda>_. []) (\<lambda>b. Ok (Head 1 lx_tx)) fx_offchain fx_attrs fx_offchain_builder = (Ok outcome, b')
    \<and> fo_state_root outcome = concat (map (\<lambda>(k, a). sol_account_encoder id (account_from_solana_native id a)) accounts)
    \<and> map_of accounts ([3] :: pubkey) = Some (lx_account 0)"
proof -
  obtain outcome b' where b: "offchain_build_block fx_env [] [30] (\<lambda>_. []) (\<lambda>b. Ok (Head 1 lx_tx)) fx_offchain fx_attrs fx_offchain_builder = (Ok outcome, b')"
    using fx_offchain_builds by blast
  have i: "get_init_accounts fx_offchain fx_offchain_builder = Ok fx_copy" by (simp add: get_init_accounts_def fetch_def fx_offchain_def)
  have "block_touches fx_env (rc_sequencer_schedules (ob_config fx_offchain_builder)) (bi_number (lh_block_info (ob_parent_header fx_offchain_builder)) + 1) [Head 1 lx_tx]
    = range lx_sysvar_id"
    using fx_touches by (simp add: fx_offchain_builder_def offchain_new_def fx_config_def ex_rollup_config_def ex_header_def default_block_info_def)
  moreover have "lx_sysvar_id v \<noteq> [3]" for v by (cases v) simp_all
  then have "[3] \<notin> range lx_sysvar_id" by (metis imageE)
  moreover have "map_of (rev fx_copy) [3] = Some (lx_account 0)" by (simp add: fx_copy_def)
  ultimately obtain accounts where "map_of accounts [3] = Some (lx_account 0)" and "fo_state_root outcome = oe_trie_root fx_offchain
      (map (\<lambda>(k, a). (oe_keccak256 fx_offchain k, sol_account_encoder (oe_keccak256 fx_offchain) (account_from_solana_native (oe_keccak256 fx_offchain) a))) accounts)"
    using offchain_root_of_accounts [OF b i fx_convert [unfolded fx_litesvm_def] fx_wf fx_runtime] by metis
  with b show ?thesis by (intro exI [of _ outcome] exI [of _ b'] exI [of _ accounts]) (simp add: fx_offchain_def comp_def split_beta')
qed

theorem offchain_keeps_emptied_account_witness:
  "\<exists>entries. soon_state_root fx_offchain fx_copy = concat (map snd entries) \<and> ([3] :: b256, replicate 32 0) \<in> set entries"
proof -
  have "([3], lx_account 0) \<in> set fx_copy" "ac_lamports (lx_account 0) = 0" by (simp_all add: fx_copy_def lx_account_def account_new_def)
  moreover have "oe_trie_root fx_offchain es = concat (map snd es)" "oe_keccak256 fx_offchain k = k" for es k by (simp_all add: fx_offchain_def)
  ultimately show ?thesis using offchain_keeps_emptied_account [of "[3]" "lx_account 0" fx_copy fx_offchain ex_db_env] by auto
qed

end
