(* ===== verification/L2_Blocks.thy ===== *)
theory L2_Blocks
  imports Svm_Block Bridge_Instruction
begin

text \<open>
  Blocks of the L2 on their way to the executor (\<^verbatim>\<open>primitives/src\<close>): a confirmed block with the summaries of
  its entries becomes labelled transactions (\<^verbatim>\<open>l2blocks.rs\<close>, \<^verbatim>\<open>ui.rs\<close>), which the executor groups into
  batches again; a derived L1 block becomes a block of transactions that run alone (\<^verbatim>\<open>blocks.rs\<close>,
  \<^verbatim>\<open>payload.rs\<close>, \<^verbatim>\<open>scheduler/mod.rs\<close>); and the tests for transactions that only the derivation may make
  (\<^verbatim>\<open>native_tx/instruction.rs\<close>). The types of a node's RPC and the text of a hash are parameters.
\<close>

section \<open>Confirmed blocks\<close>

record entry_summary =
  es_num_hashes :: u64
  es_hash :: b256
  es_num_transactions :: u64
  es_starting_transaction_index :: nat

record ui_entry_summary =
  ue_num_hashes :: u64
  ue_hash :: string
  ue_num_transactions :: u64
  ue_starting_transaction_index :: nat

datatype l2_block_error = InsufficientTransactions | UnmatchedEntriesAndTransactions | L2BlockHash string

definition ui_of_entry :: "(b256 \<Rightarrow> string) \<Rightarrow> entry_summary \<Rightarrow> ui_entry_summary" where
  "ui_of_entry to_string e =
     \<lparr>ue_num_hashes = es_num_hashes e, ue_hash = to_string (es_hash e), ue_num_transactions = es_num_transactions e,
      ue_starting_transaction_index = es_starting_transaction_index e\<rparr>"

definition entry_of_ui :: "(string \<Rightarrow> (b256, string) res) \<Rightarrow> ui_entry_summary \<Rightarrow> (entry_summary, string) res" where
  "entry_of_ui parse e =
     rthen (parse (ue_hash e)) (\<lambda>h.
     Ok \<lparr>es_num_hashes = ue_num_hashes e, es_hash = h, es_num_transactions = ue_num_transactions e,
         es_starting_transaction_index = ue_starting_transaction_index e\<rparr>)"

text \<open>An index is a \<open>usize\<close>, and the end of an entry saturates.\<close>

definition batch_from_entry_and_block_txs :: "entry_summary \<Rightarrow> 'tx list \<Rightarrow> ('tx l2_transaction list, l2_block_error) res" where
  "batch_from_entry_and_block_txs entry block_txs =
     (if es_num_transactions entry = 0 then Ok []
      else
        let start_index = es_starting_transaction_index entry in
        if start_index \<ge> length block_txs then Err InsufficientTransactions
        else
          let end_index = min (2 ^ 64 - 1) (start_index + unat (es_num_transactions entry)) in
          if end_index > length block_txs then Err InsufficientTransactions
          else Ok (map (\<lambda>(index, tx). if index = 0 then Head (es_num_transactions entry) tx else Body tx)
                     (enumerate 0 (take (end_index - start_index) (drop start_index block_txs)))))"

fun is_head :: "'tx l2_transaction \<Rightarrow> bool" where
  "is_head (Head _ _) = True"
| "is_head (Body _) = False"

fun txs_of_entries :: "entry_summary list \<Rightarrow> 'tx list \<Rightarrow> ('tx l2_transaction list, l2_block_error) res" where
  "txs_of_entries [] block_txs = Ok []"
| "txs_of_entries (entry # entries) block_txs =
     rthen (batch_from_entry_and_block_txs entry block_txs) (\<lambda>tx_batch.
     rthen (txs_of_entries entries block_txs) (\<lambda>l2_txs. Ok (tx_batch @ l2_txs)))"

text \<open>What \<open>VersionedConfirmedBlock\<close> and \<open>UiConfirmedBlock\<close> have in common.\<close>

record confirmed_block =
  cb_previous_blockhash :: string
  cb_blockhash :: string
  cb_parent_slot :: u64
  cb_block_time :: "u64 option"

record 'tx soon_l2_block =
  sl_previous_blockhash :: string
  sl_blockhash :: string
  sl_parent_slot :: u64
  sl_block_time :: u64
  sl_block_height :: u64
  sl_transactions :: "'tx l2_transaction list"

definition soon_l2_block_of :: "confirmed_block \<Rightarrow> 'tx l2_transaction list \<Rightarrow> 'tx soon_l2_block" where
  "soon_l2_block_of block l2_txs =
     \<lparr>sl_previous_blockhash = cb_previous_blockhash block, sl_blockhash = cb_blockhash block, sl_parent_slot = cb_parent_slot block,
      sl_block_time = (case cb_block_time block of Some t \<Rightarrow> t | None \<Rightarrow> 0), sl_block_height = cb_parent_slot block + 1,
      sl_transactions = l2_txs\<rparr>"

definition l2_block_of_confirmed :: "confirmed_block \<Rightarrow> 'tx list \<Rightarrow> entry_summary list \<Rightarrow> ('tx soon_l2_block, l2_block_error) res" where
  "l2_block_of_confirmed block block_txs entries =
     rthen (txs_of_entries entries block_txs) (\<lambda>l2_txs.
     if length l2_txs \<noteq> length block_txs then Err UnmatchedEntriesAndTransactions
     else Ok (soon_l2_block_of block l2_txs))"

fun txs_of_ui_entries ::
  "(string \<Rightarrow> (b256, string) res) \<Rightarrow> ui_entry_summary list \<Rightarrow> 'tx list \<Rightarrow> ('tx l2_transaction list, l2_block_error) res" where
  "txs_of_ui_entries parse [] block_txs = Ok []"
| "txs_of_ui_entries parse (entry # entries) block_txs =
     rthen (map_err L2BlockHash (entry_of_ui parse entry)) (\<lambda>entry.
     rthen (batch_from_entry_and_block_txs entry block_txs) (\<lambda>tx_batch.
     rthen (txs_of_ui_entries parse entries block_txs) (\<lambda>l2_txs. Ok (tx_batch @ l2_txs))))"

text \<open>The transactions of a UI block are optional and encoded; those that do not decode are dropped.\<close>

definition l2_block_of_ui ::
  "(string \<Rightarrow> (b256, string) res) \<Rightarrow> ('e \<Rightarrow> 'tx option) \<Rightarrow> confirmed_block \<Rightarrow> 'e list option \<Rightarrow> ui_entry_summary list
     \<Rightarrow> ('tx soon_l2_block, l2_block_error) res" where
  "l2_block_of_ui parse dec block transactions entries =
     rthen (case transactions of
        Some transactions \<Rightarrow>
          let block_txs = List.map_filter dec transactions in
          rthen (txs_of_ui_entries parse entries block_txs) (\<lambda>l2_txs.
          if length l2_txs \<noteq> length block_txs then Err UnmatchedEntriesAndTransactions else Ok l2_txs)
      | None \<Rightarrow> Ok []) (\<lambda>l2_txs. Ok (soon_l2_block_of block l2_txs))"

section \<open>Derived blocks\<close>

record 'tx scheduling_batch =
  sg_batch_id :: u64
  sg_ids :: "u64 list"
  sg_transactions :: "'tx list"
  sg_max_ages :: "(u64 \<times> u64) list"
  sg_derived_batch :: bool
  sg_thread_id :: nat

definition batch_valid :: "'tx scheduling_batch \<Rightarrow> bool" where
  "batch_valid b \<longleftrightarrow> sg_derived_batch b \<or> length (sg_transactions b) = length (sg_ids b) \<and> length (sg_ids b) = length (sg_max_ages b)"

definition from_derived :: "'tx list \<Rightarrow> 'tx scheduling_batch" where
  "from_derived transactions =
     \<lparr>sg_batch_id = 0, sg_ids = [], sg_transactions = transactions, sg_max_ages = [], sg_derived_batch = True, sg_thread_id = 0\<rparr>"

record 'tx block_payload =
  bp_deposit_txs_count :: u64
  bp_transactions :: "'tx scheduling_batch list"

definition new_with_l1_derived :: "'tx list \<Rightarrow> u64 \<Rightarrow> 'tx block_payload" where
  "new_with_l1_derived transactions deposit_txs_count =
     \<lparr>bp_deposit_txs_count = deposit_txs_count, bp_transactions = map (\<lambda>tx. from_derived [tx]) transactions\<rparr>"

definition set_l2 :: "'tx scheduling_batch list \<Rightarrow> 'tx block_payload \<Rightarrow> 'tx block_payload" where
  "set_l2 batches p = p\<lparr>bp_transactions := batches\<rparr>"

definition new_with_l2_batch :: "'tx scheduling_batch list \<Rightarrow> u64 \<Rightarrow> 'tx block_payload" where
  "new_with_l2_batch transactions deposit_txs_count = \<lparr>bp_deposit_txs_count = deposit_txs_count, bp_transactions = transactions\<rparr>"

definition block_tx_count :: "'tx block_payload \<Rightarrow> nat \<times> nat" where
  "block_tx_count p = (length (bp_transactions p), sum_list (map (length \<circ> sg_transactions) (bp_transactions p)))"

definition transactions_ref :: "'tx block_payload \<Rightarrow> 'tx list list" where
  "transactions_ref p = map sg_transactions (bp_transactions p)"

record derive_block =
  dv_l1_origin :: block_info
  dv_l1_info_tx :: attributes_deposited
  dv_deposit_txs :: "user_deposited list"
  dv_finalized :: bool

record 'tx derived_raw_block =
  rb_l1_origin :: block_info
  rb_sequence_number :: u64
  rb_deposit_txs_count :: u64
  rb_transactions :: "'tx list"

record 'tx derived_l2_block =
  db_l1_origin :: block_info
  db_sequence_number :: u64
  db_payload :: "'tx block_payload"

fun sanitize_deposits :: "alloy \<Rightarrow> 'tx svm_sdk \<Rightarrow> user_deposited list \<Rightarrow> ('tx list, deposit_error) res" where
  "sanitize_deposits A K [] = Ok []"
| "sanitize_deposits A K (d # ds) =
     rthen (user_to_sanitized_transaction A K d) (\<lambda>tx. rthen (sanitize_deposits A K ds) (\<lambda>txs. Ok (tx # txs)))"

definition raw_block_try_init :: "alloy \<Rightarrow> 'tx svm_sdk \<Rightarrow> derive_block \<Rightarrow> u64 \<Rightarrow> ('tx derived_raw_block, deposit_error) res" where
  "raw_block_try_init A K d sequence_number =
     rthen (attributes_to_sanitized_transaction A K (dv_l1_info_tx d)) (\<lambda>tx.
     rthen (sanitize_deposits A K (dv_deposit_txs d)) (\<lambda>deposits.
     Ok \<lparr>rb_l1_origin = dv_l1_origin d, rb_sequence_number = sequence_number, rb_deposit_txs_count = of_nat (length (dv_deposit_txs d)),
         rb_transactions = tx # deposits\<rparr>))"

definition l2_block_of_raw :: "'tx derived_raw_block \<Rightarrow> 'tx derived_l2_block" where
  "l2_block_of_raw r =
     \<lparr>db_l1_origin = rb_l1_origin r, db_sequence_number = rb_sequence_number r,
      db_payload = new_with_l1_derived (rb_transactions r) (rb_deposit_txs_count r)\<rparr>"

section \<open>Native instructions\<close>

record compiled_instruction =
  ci_program_id_index :: u8
  ci_data :: bytes

record tx_message =
  mg_keys :: "b256 list"
  mg_instructions :: "compiled_instruction list"

text \<open>\<open>any\<close> over the instructions: it stops at the first hit, and an index out of range before that panics.\<close>

fun any_instruction :: "(b256 \<Rightarrow> bytes \<Rightarrow> bool) \<Rightarrow> b256 list \<Rightarrow> compiled_instruction list \<Rightarrow> (bool, 'e) res" where
  "any_instruction p keys [] = Ok False"
| "any_instruction p keys (ix # ixs) =
     (let i = unat (ci_program_id_index ix) in
      if i \<ge> length keys then Panic
      else if p (keys ! i) (ci_data ix) then Ok True
      else any_instruction p keys ixs)"

definition derived_data :: "bytes \<Rightarrow> bool" where
  "derived_data data \<longleftrightarrow> (case bridge_unpack data of Ok i \<Rightarrow> is_derived i | _ \<Rightarrow> False)"

text \<open>The keys are all of a legacy or sanitized message, and the static ones of a versioned message.\<close>

definition has_update_l1_block_info_instruction :: "b256 \<Rightarrow> tx_message \<Rightarrow> (bool, 'e) res" where
  "has_update_l1_block_info_instruction l1_id m = any_instruction (\<lambda>program _. program = l1_id) (mg_keys m) (mg_instructions m)"

text \<open>A legacy transaction collects the programs of all its instructions first.\<close>

definition legacy_has_update_l1_block_info_instruction :: "b256 \<Rightarrow> tx_message \<Rightarrow> (bool, 'e) res" where
  "legacy_has_update_l1_block_info_instruction l1_id m =
     (if list_all (\<lambda>ix. unat (ci_program_id_index ix) < length (mg_keys m)) (mg_instructions m)
      then Ok (l1_id \<in> set (map (\<lambda>ix. mg_keys m ! unat (ci_program_id_index ix)) (mg_instructions m)))
      else Panic)"

definition has_derived_bridge_instruction :: "b256 \<Rightarrow> tx_message \<Rightarrow> (bool, 'e) res" where
  "has_derived_bridge_instruction bridge_id m =
     any_instruction (\<lambda>program data. program = bridge_id \<and> derived_data data) (mg_keys m) (mg_instructions m)"

definition has_native_instruction :: "b256 \<Rightarrow> b256 \<Rightarrow> tx_message \<Rightarrow> (bool, 'e) res" where
  "has_native_instruction l1_id bridge_id m =
     rthen (has_update_l1_block_info_instruction l1_id m) (\<lambda>u. if u then Ok True else has_derived_bridge_instruction bridge_id m)"

definition legacy_has_native_instruction :: "b256 \<Rightarrow> b256 \<Rightarrow> tx_message \<Rightarrow> (bool, 'e) res" where
  "legacy_has_native_instruction l1_id bridge_id m =
     rthen (legacy_has_update_l1_block_info_instruction l1_id m) (\<lambda>u. if u then Ok True else has_derived_bridge_instruction bridge_id m)"

text \<open>\<open>getter\<close> finds the key of an index, if there is one.\<close>

definition get_instruction_data_array :: "b256 \<Rightarrow> compiled_instruction list \<Rightarrow> (u8 \<Rightarrow> b256 option) \<Rightarrow> bytes list" where
  "get_instruction_data_array program_id instructions getter =
     List.map_filter (\<lambda>ix. if getter (ci_program_id_index ix) = Some program_id then Some (ci_data ix) else None) instructions"

section \<open>Entries and batches\<close>

text \<open>The entries of a block follow each other and cover its transactions; those without transactions are ticks.\<close>

fun consecutive :: "nat \<Rightarrow> entry_summary list \<Rightarrow> nat \<Rightarrow> bool" where
  "consecutive i [] n \<longleftrightarrow> i = n"
| "consecutive i (e # es) n \<longleftrightarrow>
     (es_num_transactions e = 0 \<or> es_starting_transaction_index e = i) \<and> consecutive (i + unat (es_num_transactions e)) es n"

fun entry_batches :: "'tx list \<Rightarrow> nat list \<Rightarrow> 'tx list list" where
  "entry_batches txs [] = []"
| "entry_batches txs (n # ns) = take n txs # entry_batches (drop n txs) ns"

lemma consecutive_le: "consecutive i es n \<Longrightarrow> i \<le> n"
  by (induction i es n rule: consecutive.induct) auto

lemma concat_entry_batches: "sum_list ns = length txs \<Longrightarrow> concat (entry_batches txs ns) = txs"
  by (induction txs ns rule: entry_batches.induct) auto

lemma consecutive_sum: "consecutive i es n \<Longrightarrow> i + sum_list (map (unat \<circ> es_num_transactions) es) = n"
  by (induction i es n rule: consecutive.induct) auto

lemma batch_from_entry:
  assumes "es_num_transactions e \<noteq> 0 \<longrightarrow> es_starting_transaction_index e = i" and "i + unat (es_num_transactions e) \<le> length txs" and "length txs < 2 ^ 64"
  shows "batch_from_entry_and_block_txs e txs = Ok (from_tx_batch (take (unat (es_num_transactions e)) (drop i txs)))"
proof (cases "es_num_transactions e = 0")
  case False
  let ?t = "take (unat (es_num_transactions e)) (drop i txs)"
  have l: "length ?t = unat (es_num_transactions e)" using assms(2) by simp
  have w: "of_nat (length ?t) = es_num_transactions e" unfolding l by simp
  have "unat (es_num_transactions e) > 0" using False by (simp add: unat_gt_0)
  then show ?thesis using assms False unfolding from_tx_batch_def Let_def w by (simp add: batch_from_entry_and_block_txs_def Let_def min_def)
qed (simp add: batch_from_entry_and_block_txs_def)

lemma txs_of_consecutive:
  assumes "consecutive i es (length txs)" and "length txs < 2 ^ 64"
  shows "txs_of_entries es txs = Ok (concat (map from_tx_batch (entry_batches (drop i txs) (map (unat \<circ> es_num_transactions) es))))"
  using assms
proof (induction es arbitrary: i)
  case (Cons e es)
  have c: "consecutive (i + unat (es_num_transactions e)) es (length txs)" using Cons.prems by simp
  have b: "batch_from_entry_and_block_txs e txs = Ok (from_tx_batch (take (unat (es_num_transactions e)) (drop i txs)))"
    using Cons.prems consecutive_le [OF c] by (intro batch_from_entry) auto
  show ?case using Cons.IH [OF c Cons.prems(2)] b by (simp add: add.commute)
qed simp

lemma length_from_tx_batch [simp]: "length (from_tx_batch b) = length b"
  by (simp add: from_tx_batch_def Let_def)

lemma length_l2_of_raw: "length (l2_of_raw bs) = length (concat bs)"
  by (induction bs) (simp_all add: l2_of_raw_def)

lemma raw_of_l2_of_raw: "raw_of_l2 (l2_of_raw bs) = filter (\<lambda>b. b \<noteq> []) bs"
  by (simp add: raw_of_l2_def split_batches_l2)

lemma any_instruction_in_range:
  assumes "\<forall>ix\<in>set ixs. unat (ci_program_id_index ix) < length keys"
  shows "any_instruction p keys ixs = Ok (\<exists>ix\<in>set ixs. p (keys ! unat (ci_program_id_index ix)) (ci_data ix))"
  using assms by (induction ixs) (auto simp: Let_def)

section \<open>Properties\<close>

text \<open>
  C29: a confirmed block whose entries follow each other becomes a block of labelled transactions that the
  executor groups into exactly the entries with transactions, so that every transaction runs once, in the
  order of the block.
\<close>

theorem confirmed_block_regroups:
  assumes "consecutive 0 entries (length txs)" and "length txs < 2 ^ 64"
  shows "\<exists>b. l2_block_of_confirmed block txs entries = Ok b
    \<and> raw_of_l2 (sl_transactions b) = filter (\<lambda>x. x \<noteq> []) (entry_batches txs (map (unat \<circ> es_num_transactions) entries))
    \<and> concat (raw_of_l2 (sl_transactions b)) = txs"
proof -
  let ?bs = "entry_batches txs (map (unat \<circ> es_num_transactions) entries)"
  have c: "concat ?bs = txs" using consecutive_sum [OF assms(1)] by (intro concat_entry_batches) simp
  have t: "txs_of_entries entries txs = Ok (l2_of_raw ?bs)" using txs_of_consecutive [OF assms] by (simp add: l2_of_raw_def)
  have "concat (filter (\<lambda>x. x \<noteq> []) bs) = concat bs" for bs :: "'a list list" by (induction bs) auto
  with t c show ?thesis by (simp add: l2_block_of_confirmed_def length_l2_of_raw soon_l2_block_of_def raw_of_l2_of_raw)
qed

text \<open>
  Only the number of transactions is compared: two entries that name the same transaction, of a block
  that has another one, are accepted, and the block runs the one twice and the other never.
\<close>

theorem overlapping_entries_accepted:
  assumes "es_num_transactions e = 1" and "es_starting_transaction_index e = 0"
  shows "\<exists>b. l2_block_of_confirmed block [x, y] [e, e] = Ok b \<and> raw_of_l2 (sl_transactions b) = [[x], [x]]"
  using assms by (simp add: l2_block_of_confirmed_def batch_from_entry_and_block_txs_def soon_l2_block_of_def raw_of_l2_def)

text \<open>
  When all programs of a message are in range, the tests for a legacy and for a versioned transaction
  agree, and find exactly the messages with an instruction for the L1 info program, or with one for the
  bridge whose data unpack to a deposit.
\<close>

theorem native_instruction_test:
  assumes "\<forall>ix\<in>set (mg_instructions m). unat (ci_program_id_index ix) < length (mg_keys m)"
  shows "has_native_instruction l1_id bridge_id m = legacy_has_native_instruction l1_id bridge_id m
    \<and> (has_native_instruction l1_id bridge_id m = Ok True \<longleftrightarrow>
         (\<exists>ix\<in>set (mg_instructions m). mg_keys m ! unat (ci_program_id_index ix) = l1_id
            \<or> mg_keys m ! unat (ci_program_id_index ix) = bridge_id \<and> (\<exists>i. bridge_unpack (ci_data ix) = Ok i \<and> is_derived i)))"
proof -
  have d: "derived_data x \<longleftrightarrow> (\<exists>i. bridge_unpack x = Ok i \<and> is_derived i)" for x by (simp add: derived_data_def split: res.split)
  show ?thesis
    unfolding has_native_instruction_def legacy_has_native_instruction_def has_update_l1_block_info_instruction_def
      legacy_has_update_l1_block_info_instruction_def has_derived_bridge_instruction_def any_instruction_in_range [OF assms]
    using assms by (auto simp: d list_all_iff)
qed

text \<open>
  The block of a derived L1 block has the L1 info transaction and the deposits in order, each in a batch
  of its own that is marked as derived, and counts the deposits.
\<close>

theorem derived_block_runs_alone:
  assumes "raw_block_try_init A K d n = Ok r" and "length (dv_deposit_txs d) < 2 ^ 64"
  shows "\<exists>tx txs. attributes_to_sanitized_transaction A K (dv_l1_info_tx d) = Ok tx \<and> map (user_to_sanitized_transaction A K) (dv_deposit_txs d) = map Ok txs
    \<and> transactions_ref (db_payload (l2_block_of_raw r)) = map (\<lambda>tx. [tx]) (tx # txs)
    \<and> list_all sg_derived_batch (bp_transactions (db_payload (l2_block_of_raw r))) \<and> list_all batch_valid (bp_transactions (db_payload (l2_block_of_raw r)))
    \<and> block_tx_count (db_payload (l2_block_of_raw r)) = (Suc (length txs), Suc (length txs))
    \<and> unat (bp_deposit_txs_count (db_payload (l2_block_of_raw r))) = length txs"
proof -
  have s: "sanitize_deposits A K ds = Ok txs \<Longrightarrow> map (user_to_sanitized_transaction A K) ds = map Ok txs" for ds and txs :: "'a list"
    by (induction ds arbitrary: txs) (auto simp: res_simps)
  obtain tx txs where x: "attributes_to_sanitized_transaction A K (dv_l1_info_tx d) = Ok tx" "sanitize_deposits A K (dv_deposit_txs d) = Ok txs"
      "r = \<lparr>rb_l1_origin = dv_l1_origin d, rb_sequence_number = n, rb_deposit_txs_count = of_nat (length (dv_deposit_txs d)), rb_transactions = tx # txs\<rparr>"
    using assms(1) by (auto simp: raw_block_try_init_def res_simps)
  have l: "length txs = length (dv_deposit_txs d)" using s [OF x(2)] by (metis length_map)
  show ?thesis using x(1,3) s [OF x(2)] l assms(2)
    by (auto simp: l2_block_of_raw_def new_with_l1_derived_def transactions_ref_def from_derived_def batch_valid_def block_tx_count_def list_all_iff
        comp_def sum_list_triv unat_of_nat)
qed

subsection \<open>Examples\<close>

definition ex_entry :: "u64 \<Rightarrow> nat \<Rightarrow> entry_summary" where
  "ex_entry n i = \<lparr>es_num_hashes = 0, es_hash = zero_hash, es_num_transactions = n, es_starting_transaction_index = i\<rparr>"

definition ex_confirmed :: confirmed_block where
  "ex_confirmed = \<lparr>cb_previous_blockhash = ''a'', cb_blockhash = ''b'', cb_parent_slot = 4, cb_block_time = None\<rparr>"

theorem confirmed_block_regroups_witness:
  "\<exists>b. l2_block_of_confirmed ex_confirmed [CHR ''p'', CHR ''q'', CHR ''r''] [ex_entry 2 0, ex_entry 0 9, ex_entry 1 2] = Ok b
    \<and> raw_of_l2 (sl_transactions b) = [[CHR ''p'', CHR ''q''], [CHR ''r'']]"
  using confirmed_block_regroups [of "[ex_entry 2 0, ex_entry 0 9, ex_entry 1 2]" "[CHR ''p'', CHR ''q'', CHR ''r'']" ex_confirmed]
  by (auto simp: ex_entry_def)

theorem overlapping_entries_accepted_witness:
  "\<exists>b. l2_block_of_confirmed ex_confirmed [CHR ''p'', CHR ''q''] [ex_entry 1 0, ex_entry 1 0] = Ok b
    \<and> raw_of_l2 (sl_transactions b) = [[CHR ''p''], [CHR ''p'']]"
  by (rule overlapping_entries_accepted) (simp_all add: ex_entry_def)

definition ex_withdraw_message :: tx_message where
  "ex_withdraw_message = \<lparr>mg_keys = [[1], [2], [3]], mg_instructions = [\<lparr>ci_program_id_index = 2, ci_data = []\<rparr>, \<lparr>ci_program_id_index = 1, ci_data = []\<rparr>]\<rparr>"

theorem native_instruction_test_witness:
  "has_native_instruction [2] [3] ex_withdraw_message = (Ok True :: (bool, unit) res)
    \<and> legacy_has_native_instruction [2] [3] ex_withdraw_message = (Ok True :: (bool, unit) res)"
  using native_instruction_test [where ?'a = unit, of ex_withdraw_message "[2]" "[3]"] by (auto simp: ex_withdraw_message_def)

end
