(* ===== verification/Config.thy ===== *)
theory Config
  imports Attributes L1_Info_Program
begin

text \<open>
  Where a chain's configuration comes from: the rollup configuration of a file
  (\<^verbatim>\<open>primitives/src/rollup_config.rs\<close>), whose addresses, hashes and keys are text, and the first L1 info
  transaction, which is read out of the genesis accounts (\<^verbatim>\<open>primitives/src/genesis.rs\<close>). Parsing and printing of
  addresses, hashes and keys are parameters.
\<close>

section \<open>The rollup configuration\<close>

record origin_rollup_config =
  oc_l1_chain_id :: u64
  oc_max_sequencer_drift :: u64
  oc_seq_window_size :: u64
  oc_channel_timeout :: u64
  oc_l1_system_config_address :: string
  oc_derive_delay_l1_block_num :: u64
  oc_max_frame_size :: nat
  oc_channel_size :: nat
  oc_block_time :: u64
  oc_shred_version :: "u16 option"
  oc_genesis_hash :: "string option"
  oc_upgrade_schedules :: "(string, u64 option) hmap"
  oc_sequencer_schedules :: "(u64 \<times> string) list"

datatype rollup_config_error = ConfigAddress string | ConfigPubKey string | ConfigHash string

record text_codec =
  tc_address_of :: "string \<Rightarrow> (address, string) res"
  tc_address_text :: "address \<Rightarrow> string"
  tc_hash_of :: "string \<Rightarrow> (b256, string) res"
  tc_hash_text :: "b256 \<Rightarrow> string"
  tc_pubkey_of :: "string \<Rightarrow> (b256, string) res"
  tc_pubkey_text :: "b256 \<Rightarrow> string"

definition default_address :: address where
  "default_address = replicate 20 0"

definition new_for_genesis :: "u64 \<Rightarrow> address \<Rightarrow> u64 \<Rightarrow> rollup_config" where
  "new_for_genesis l1_chain_id l1_system_config_address derive_delay_l1_block_num =
     \<lparr>rc_l1_chain_id = l1_chain_id, rc_max_sequencer_drift = 86400, rc_seq_window_size = 604800, rc_channel_timeout = 1800,
      rc_batch_inbox_address = default_address, rc_optimism_portal_address = default_address,
      rc_l1_system_config_address = l1_system_config_address, rc_l1_standard_bridge = default_address,
      rc_l1_cross_domain_messenger = default_address, rc_derive_delay_l1_block_num = derive_delay_l1_block_num,
      rc_max_frame_size = 2000000, rc_channel_size = 30000000, rc_block_time = 0, rc_shred_version = None, rc_genesis_hash = None,
      rc_upgrade_schedules = [], rc_sequencer_schedules = []\<rparr>"

fun parse_schedules :: "text_codec \<Rightarrow> (u64 \<times> string) list \<Rightarrow> ((u64 \<times> b256) list, string) res" where
  "parse_schedules T [] = Ok []"
| "parse_schedules T ((slot, pubkey) # xs) =
     rthen (tc_pubkey_of T pubkey) (\<lambda>k. rthen (parse_schedules T xs) (\<lambda>ys. Ok ((slot, k) # ys)))"

text \<open>Sizes are cut to 32 bits, and the addresses that the file does not name are zero.\<close>

definition rollup_config_try_from :: "text_codec \<Rightarrow> origin_rollup_config \<Rightarrow> (rollup_config, rollup_config_error) res" where
  "rollup_config_try_from T v =
     rthen (map_err ConfigAddress (tc_address_of T (oc_l1_system_config_address v))) (\<lambda>system_config.
     rthen (case oc_genesis_hash v of
        None \<Rightarrow> Ok None
      | Some s \<Rightarrow> rthen (map_err ConfigHash (tc_hash_of T s)) (\<lambda>h. Ok (Some h))) (\<lambda>genesis_hash.
     rthen (map_err ConfigPubKey (parse_schedules T (oc_sequencer_schedules v))) (\<lambda>schedules.
     Ok \<lparr>rc_l1_chain_id = oc_l1_chain_id v, rc_max_sequencer_drift = oc_max_sequencer_drift v, rc_seq_window_size = oc_seq_window_size v,
         rc_channel_timeout = oc_channel_timeout v, rc_batch_inbox_address = default_address, rc_optimism_portal_address = default_address,
         rc_l1_system_config_address = system_config, rc_l1_standard_bridge = default_address, rc_l1_cross_domain_messenger = default_address,
         rc_derive_delay_l1_block_num = oc_derive_delay_l1_block_num v, rc_max_frame_size = of_nat (oc_max_frame_size v),
         rc_channel_size = of_nat (oc_channel_size v), rc_block_time = oc_block_time v, rc_shred_version = oc_shred_version v,
         rc_genesis_hash = genesis_hash, rc_upgrade_schedules = oc_upgrade_schedules v, rc_sequencer_schedules = schedules\<rparr>)))"

definition origin_of_rollup_config :: "text_codec \<Rightarrow> rollup_config \<Rightarrow> origin_rollup_config" where
  "origin_of_rollup_config T v =
     \<lparr>oc_l1_chain_id = rc_l1_chain_id v, oc_max_sequencer_drift = rc_max_sequencer_drift v, oc_seq_window_size = rc_seq_window_size v,
      oc_channel_timeout = rc_channel_timeout v, oc_l1_system_config_address = tc_address_text T (rc_l1_system_config_address v),
      oc_derive_delay_l1_block_num = rc_derive_delay_l1_block_num v, oc_max_frame_size = unat (rc_max_frame_size v),
      oc_channel_size = unat (rc_channel_size v), oc_block_time = rc_block_time v, oc_shred_version = rc_shred_version v,
      oc_genesis_hash = map_option (tc_hash_text T) (rc_genesis_hash v), oc_upgrade_schedules = rc_upgrade_schedules v,
      oc_sequencer_schedules = map (\<lambda>(slot, pubkey). (slot, tc_pubkey_text T pubkey)) (rc_sequencer_schedules v)\<rparr>"

section \<open>The genesis transaction\<close>

definition genesis_attributes :: "l1_block_info \<Rightarrow> attributes_deposited" where
  "genesis_attributes i =
     \<lparr>ad_l1_block_num = li_number i, ad_timestamp = li_timestamp i, ad_base_fee = li_base_fee i, ad_l1_block_hash = li_hash i,
      ad_sequence_number = li_sequence_number i, ad_batcher_hash = of_nat (nat_of_le (li_batcher_hash i)),
      ad_fee_overhead = ucast (li_fee_overhead i), ad_fee_scalar = ucast (li_fee_scalar i), ad_gas = li_gas i, ad_is_system_tx = li_is_system_tx i\<rparr>"

text \<open>\<open>check_len\<close> and \<open>render\<close> are the SDK's check of a packed length and the text of its errors.\<close>

definition parse_l1_block_info_tx_from_genesis_config ::
  "(nat \<Rightarrow> nat \<Rightarrow> (unit, program_error) res) \<Rightarrow> (program_error \<Rightarrow> string) \<Rightarrow> alloy \<Rightarrow> 'tx svm_sdk \<Rightarrow> pubkey \<Rightarrow> (pubkey \<rightharpoonup> account) \<Rightarrow> ('tx, deposit_error) res" where
  "parse_l1_block_info_tx_from_genesis_config check_len render A K l1_block_info_pubkey accounts =
     (case accounts l1_block_info_pubkey of
        Some l1_info_data \<Rightarrow>
          rthen (map_err (ParseL1BlockInfoTxError \<circ> render)
                   (rthen (check_len INFO_LEN (length (ac_data l1_info_data))) (\<lambda>_. info_unpack (ac_data l1_info_data)))) (\<lambda>l1_info.
          attributes_to_sanitized_transaction A K (genesis_attributes l1_info))
      | None \<Rightarrow> Err (ParseL1BlockInfoTxError ''l1 block info account not found''))"

section \<open>Properties\<close>

text \<open>Reading back what is printed, for the texts of one configuration.\<close>

definition config_texts :: "text_codec \<Rightarrow> rollup_config \<Rightarrow> bool" where
  "config_texts T c \<longleftrightarrow>
     tc_address_of T (tc_address_text T (rc_l1_system_config_address c)) = Ok (rc_l1_system_config_address c)
   \<and> (\<forall>h. rc_genesis_hash c = Some h \<longrightarrow> tc_hash_of T (tc_hash_text T h) = Ok h)
   \<and> (\<forall>x\<in>set (rc_sequencer_schedules c). tc_pubkey_of T (tc_pubkey_text T (snd x)) = Ok (snd x))"

lemma parse_printed_schedules:
  "\<forall>x\<in>set xs. tc_pubkey_of T (tc_pubkey_text T (snd x)) = Ok (snd x)
     \<Longrightarrow> parse_schedules T (map (\<lambda>(slot, k). (slot, tc_pubkey_text T k)) xs) = Ok xs"
  by (induction xs) auto

text \<open>
  A configuration that is written to a file and read again is the same, but that the addresses of the
  batch inbox and of the L1 contracts, which are not in the file, are zero.
\<close>

theorem rollup_config_roundtrip:
  assumes "config_texts T c"
  shows "rollup_config_try_from T (origin_of_rollup_config T c)
    = Ok (c\<lparr>rc_batch_inbox_address := default_address, rc_optimism_portal_address := default_address,
            rc_l1_standard_bridge := default_address, rc_l1_cross_domain_messenger := default_address\<rparr>)"
  using assms parse_printed_schedules [of "rc_sequencer_schedules c" T] unfolding config_texts_def
  by (cases c; cases "rc_genesis_hash c") (auto simp: rollup_config_try_from_def origin_of_rollup_config_def)

lemma genesis_instruction:
  assumes "wf_info i"
  shows "attributes_instruction (genesis_attributes i) = Ok (native_instruction.UpdateL1BlockInfo (li_number i) (li_timestamp i) (li_base_fee i) (li_hash i)
     (li_sequence_number i) (li_batcher_hash i) (li_fee_overhead i) (li_fee_scalar i) (li_gas i) (li_is_system_tx i))"
proof -
  have u: "u128_try_from (ucast x) e = Ok x" for x :: u128 and e :: deposit_error
    using unsigned_less [of x, where ?'a = nat] by (simp add: u128_try_from_def unsigned_ucast_eq take_bit_nat_eq_self take_bit_word_eq_self)
  have "nat_of_be (rev (li_batcher_hash i)) < 256 ^ 32"
    using assms nat_of_be_bound [of "rev (li_batcher_hash i)"] by (simp add: wf_info_def)
  then have "unat (of_nat (nat_of_be (rev (li_batcher_hash i))) :: u256) = nat_of_be (rev (li_batcher_hash i))" by (simp add: unat_of_nat)
  moreover have "be_of_nat 32 (nat_of_be (rev (li_batcher_hash i))) = rev (li_batcher_hash i)"
    using assms be_of_nat_of_be [of "rev (li_batcher_hash i)"] by (simp add: wf_info_def)
  ultimately show ?thesis by (simp add: attributes_instruction_def genesis_attributes_def u nat_of_le_def)
qed

text \<open>
  The transaction that is read out of the genesis account of the L1 block info carries exactly what is
  stored there.
\<close>

theorem genesis_transaction_is_stored_info:
  assumes "accounts k = Some a" and "ac_data a = info_pack i" and "wf_info i" and "check_len INFO_LEN INFO_LEN = Ok ()"
  shows "parse_l1_block_info_tx_from_genesis_config check_len render A K k accounts
    = sdk_transaction K (native_instruction.UpdateL1BlockInfo (li_number i) (li_timestamp i) (li_base_fee i) (li_hash i) (li_sequence_number i)
         (li_batcher_hash i) (li_fee_overhead i) (li_fee_scalar i) (li_gas i) (li_is_system_tx i))
       (deposit_source_hash A L1_INFO_DEPOSIT_SOURCE_DOMAIN (li_hash i) (li_sequence_number i))"
proof -
  have "attributes_source_hash A (genesis_attributes i) = deposit_source_hash A L1_INFO_DEPOSIT_SOURCE_DOMAIN (li_hash i) (li_sequence_number i)"
    by (simp add: attributes_source_hash_def genesis_attributes_def)
  with assms info_roundtrip [OF assms(3)] genesis_instruction [OF assms(3)] show ?thesis
    by (simp add: parse_l1_block_info_tx_from_genesis_config_def attributes_to_sanitized_transaction_def)
qed

end
