(* ===== verification/Compressors.thy ===== *)
theory Compressors
  imports Frames Batches
begin

text \<open>
  The compressors of \<^verbatim>\<open>protocol/comp/src\<close> (zlib, Brotli, the choice between them, the ratio and the
  shadow compressor), the builder of channels over them, and the Brotli decompressor of
  \<^verbatim>\<open>derive/src/stages/utils.rs\<close>. The codecs of the crates \<^verbatim>\<open>miniz_oxide\<close> and \<^verbatim>\<open>brotli\<close> are arguments. The
  contract that the compressors share is a locale, interpreted on each of them.
\<close>

section \<open>Definitions\<close>

subsection \<open>Types\<close>

datatype compressor_error = Full | BrotliFailed

datatype compressor_type = Ratio | Shadow

datatype compression_algo = Brotli9 | Brotli10 | Brotli11 | Zlib

datatype brotli_level = Level9 | Level10 | Level11

definition level_of_algo :: "compression_algo \<Rightarrow> brotli_level" where
  "level_of_algo algo = (case algo of Brotli9 \<Rightarrow> Level9 | Brotli11 \<Rightarrow> Level11 | _ \<Rightarrow> Level10)"

text \<open>\<open>'f\<close> is the type \<open>f64\<close>.\<close>

record 'f comp_config =
  cc_target_output_size :: u64
  cc_approx_compr_ratio :: 'f
  cc_kind :: compressor_type
  cc_compression_algo :: compression_algo

text \<open>The codecs: \<open>compress_to_vec\<close> of \<^verbatim>\<open>miniz_oxide\<close> at its best level, and \<open>BrotliCompress\<close> at a level.\<close>

record codecs =
  co_deflate :: "bytes \<Rightarrow> bytes"
  co_brotli :: "brotli_level \<Rightarrow> bytes \<Rightarrow> (bytes, string) res"

text \<open>Reading copies into the front of a buffer, and tells how many bytes.\<close>

definition read_into :: "bytes \<Rightarrow> bytes \<Rightarrow> nat \<times> bytes" where
  "read_into compressed buf = (let len = min (length compressed) (length buf) in (len, take len compressed @ drop len buf))"

subsection \<open>The zlib compressor\<close>

record zlib_compressor =
  zc_buffer :: bytes
  zc_compressed :: bytes

definition zlib_new :: zlib_compressor where
  "zlib_new = \<lparr>zc_buffer = [], zc_compressed = []\<rparr>"

definition zlib_write :: "codecs \<Rightarrow> bytes \<Rightarrow> zlib_compressor \<Rightarrow> (nat, compressor_error) res \<times> zlib_compressor" where
  "zlib_write C data s = (let buffer = zc_buffer s @ data in (Ok (length data), \<lparr>zc_buffer = buffer, zc_compressed = co_deflate C buffer\<rparr>))"

definition zlib_reset :: "zlib_compressor \<Rightarrow> zlib_compressor" where
  "zlib_reset s = \<lparr>zc_buffer = [], zc_compressed = []\<rparr>"

subsection \<open>The Brotli compressor\<close>

record brotli_compressor =
  bc_compressed :: bytes
  bc_raw :: bytes
  bc_closed :: bool
  bc_level :: brotli_level

definition brotli_new :: "brotli_level \<Rightarrow> brotli_compressor" where
  "brotli_new level = \<lparr>bc_compressed = [], bc_raw = [], bc_closed = False, bc_level = level\<rparr>"

definition brotli_write :: "codecs \<Rightarrow> bytes \<Rightarrow> brotli_compressor \<Rightarrow> (nat, compressor_error) res \<times> brotli_compressor" where
  "brotli_write C data s =
     (if bc_closed s then (Err BrotliFailed, s)
      else
        let s = s\<lparr>bc_raw := bc_raw s @ data\<rparr> in
        rbind (map_err (\<lambda>_. BrotliFailed) (co_brotli C (bc_level s) (bc_raw s))) s (\<lambda>compressed.
        (Ok (length data), s\<lparr>bc_compressed := compressed\<rparr>)))"

definition brotli_close :: "brotli_compressor \<Rightarrow> (unit, compressor_error) res \<times> brotli_compressor" where
  "brotli_close s = (Ok (), s\<lparr>bc_closed := True\<rparr>)"

definition brotli_reset :: "brotli_compressor \<Rightarrow> brotli_compressor" where
  "brotli_reset s = s\<lparr>bc_closed := False, bc_raw := [], bc_compressed := []\<rparr>"

subsection \<open>The choice between them\<close>

datatype variant_compressor = BrotliVariant brotli_compressor | ZlibVariant zlib_compressor

definition variant_of_algo :: "compression_algo \<Rightarrow> variant_compressor" where
  "variant_of_algo algo = (case algo of Zlib \<Rightarrow> ZlibVariant zlib_new | _ \<Rightarrow> BrotliVariant (brotli_new (level_of_algo algo)))"

text \<open>\<open>is_fjord_active\<close> is not a method of the configuration of this repository.\<close>

definition from_timestamp :: "('c \<Rightarrow> u64 \<Rightarrow> bool) \<Rightarrow> 'c \<Rightarrow> u64 \<Rightarrow> variant_compressor" where
  "from_timestamp is_fjord_active config timestamp =
     (if is_fjord_active config timestamp then BrotliVariant (brotli_new (level_of_algo Brotli10)) else ZlibVariant zlib_new)"

fun variant_write :: "codecs \<Rightarrow> bytes \<Rightarrow> variant_compressor \<Rightarrow> (nat, compressor_error) res \<times> variant_compressor" where
  "variant_write C data (BrotliVariant s) = (let (r, s) = brotli_write C data s in (r, BrotliVariant s))"
| "variant_write C data (ZlibVariant s) = (let (r, s) = zlib_write C data s in (r, ZlibVariant s))"

text \<open>Flushing does nothing in either, and closing nothing in the zlib compressor.\<close>

definition variant_flush :: "variant_compressor \<Rightarrow> (unit, compressor_error) res \<times> variant_compressor" where
  "variant_flush s = (Ok (), s)"

fun variant_close :: "variant_compressor \<Rightarrow> (unit, compressor_error) res \<times> variant_compressor" where
  "variant_close (BrotliVariant s) = (let (r, s) = brotli_close s in (r, BrotliVariant s))"
| "variant_close (ZlibVariant s) = (Ok (), ZlibVariant s)"

fun variant_reset :: "variant_compressor \<Rightarrow> variant_compressor" where
  "variant_reset (BrotliVariant s) = BrotliVariant (brotli_reset s)"
| "variant_reset (ZlibVariant s) = ZlibVariant (zlib_reset s)"

fun get_compressed :: "variant_compressor \<Rightarrow> bytes" where
  "get_compressed (BrotliVariant s) = bc_compressed s"
| "get_compressed (ZlibVariant s) = zc_compressed s"

definition variant_len :: "variant_compressor \<Rightarrow> nat" where
  "variant_len s = length (get_compressed s)"

definition variant_read :: "bytes \<Rightarrow> variant_compressor \<Rightarrow> (nat \<times> bytes, compressor_error) res \<times> variant_compressor" where
  "variant_read buf s = (Ok (read_into (get_compressed s) buf), s)"

subsection \<open>The ratio compressor\<close>

record 'f ratio_compressor =
  rt_config :: "'f comp_config"
  rt_lake :: u64
  rt_compressor :: variant_compressor

definition ratio_new :: "'f comp_config \<Rightarrow> variant_compressor \<Rightarrow> 'f ratio_compressor" where
  "ratio_new config c = \<lparr>rt_config = config, rt_lake = 0, rt_compressor = c\<rparr>"

definition ratio_of_config :: "'f comp_config \<Rightarrow> 'f ratio_compressor" where
  "ratio_of_config config = ratio_new config (variant_of_algo (cc_compression_algo config))"

text \<open>\<open>f64_div\<close> is the division of \<open>f64\<close>, with the casts around it.\<close>

definition input_threshold :: "(u64 \<Rightarrow> 'f \<Rightarrow> usize) \<Rightarrow> 'f ratio_compressor \<Rightarrow> usize" where
  "input_threshold f64_div s = f64_div (cc_target_output_size (rt_config s)) (cc_approx_compr_ratio (rt_config s))"

definition ratio_is_full :: "(u64 \<Rightarrow> 'f \<Rightarrow> usize) \<Rightarrow> 'f ratio_compressor \<Rightarrow> bool" where
  "ratio_is_full f64_div s \<longleftrightarrow> rt_lake s \<ge> input_threshold f64_div s"

definition ratio_write :: "codecs \<Rightarrow> bytes \<Rightarrow> 'f ratio_compressor \<Rightarrow> (nat, compressor_error) res \<times> 'f ratio_compressor" where
  "ratio_write C data s =
     (let (r, c) = variant_write C data (rt_compressor s); s = s\<lparr>rt_compressor := c\<rparr> in
      rbind r s (\<lambda>n. (Ok n, s\<lparr>rt_lake := rt_lake s + of_nat n\<rparr>)))"

definition ratio_close :: "'f ratio_compressor \<Rightarrow> (unit, compressor_error) res \<times> 'f ratio_compressor" where
  "ratio_close s = (let (r, c) = variant_close (rt_compressor s) in (r, s\<lparr>rt_compressor := c\<rparr>))"

definition ratio_reset :: "'f ratio_compressor \<Rightarrow> 'f ratio_compressor" where
  "ratio_reset s = s\<lparr>rt_compressor := variant_reset (rt_compressor s), rt_lake := 0\<rparr>"

subsection \<open>The shadow compressor\<close>

definition SAFE_COMPRESSION_OVERHEAD :: u64 where "SAFE_COMPRESSION_OVERHEAD = 51"
definition CLOSE_OVERHEAD_ZLIB :: u64 where "CLOSE_OVERHEAD_ZLIB = 9"

record 'f shadow_compressor =
  sh_config :: "'f comp_config"
  sh_compressor :: variant_compressor
  sh_shadow :: variant_compressor
  sh_is_full :: bool
  sh_bound :: u64

definition shadow_new :: "'f comp_config \<Rightarrow> variant_compressor \<Rightarrow> variant_compressor \<Rightarrow> 'f shadow_compressor" where
  "shadow_new config c s =
     \<lparr>sh_config = config, sh_compressor = c, sh_shadow = s, sh_is_full = False, sh_bound = SAFE_COMPRESSION_OVERHEAD\<rparr>"

definition shadow_of_config :: "'f comp_config \<Rightarrow> 'f shadow_compressor" where
  "shadow_of_config config = shadow_new config (variant_of_algo (cc_compression_algo config)) (variant_of_algo (cc_compression_algo config))"

text \<open>What a write does with the bound, once the shadow holds the data: the new bound, or the error.\<close>

definition shadow_bound :: "bytes \<Rightarrow> 'f shadow_compressor \<Rightarrow> (u64, compressor_error) res \<times> 'f shadow_compressor" where
  "shadow_bound data s =
     (let newbound = of_nat (length data); target = cc_target_output_size (sh_config s) in
      if newbound > target then
        let (r, sh) = variant_flush (sh_shadow s); s = s\<lparr>sh_shadow := sh\<rparr> in
        rbind r s (\<lambda>_.
        let newbound = of_nat (variant_len (sh_shadow s)) + CLOSE_OVERHEAD_ZLIB in
        if newbound > target then
          let s = s\<lparr>sh_is_full := True\<rparr> in
          if variant_len (sh_compressor s) > 0 then (Err Full, s) else (Ok newbound, s)
        else (Ok newbound, s))
      else (Ok newbound, s))"

definition shadow_write :: "codecs \<Rightarrow> bytes \<Rightarrow> 'f shadow_compressor \<Rightarrow> (nat, compressor_error) res \<times> 'f shadow_compressor" where
  "shadow_write C data s =
     (if sh_is_full s then (Err Full, s)
      else
        let (r, sh) = variant_write C data (sh_shadow s); s = s\<lparr>sh_shadow := sh\<rparr> in
        rbind r s (\<lambda>_.
        let (r, s) = shadow_bound data s in
        rbind r s (\<lambda>newbound.
        let (r, c) = variant_write C data (sh_compressor s) in (r, s\<lparr>sh_bound := newbound, sh_compressor := c\<rparr>))))"

definition shadow_close :: "'f shadow_compressor \<Rightarrow> (unit, compressor_error) res \<times> 'f shadow_compressor" where
  "shadow_close s = (let (r, sh) = variant_close (sh_shadow s) in (r, s\<lparr>sh_shadow := sh\<rparr>))"

definition shadow_reset :: "'f shadow_compressor \<Rightarrow> 'f shadow_compressor" where
  "shadow_reset s =
     s\<lparr>sh_compressor := variant_reset (sh_compressor s), sh_shadow := variant_reset (sh_shadow s), sh_is_full := False,
       sh_bound := SAFE_COMPRESSION_OVERHEAD\<rparr>"

subsection \<open>Channels\<close>

definition FRAME_V0_OVERHEAD :: nat where "FRAME_V0_OVERHEAD = 23"

datatype channel_out_error =
    ChannelOutClosed
  | MaxFrameSizeTooSmall
  | MissingData
  | Compression compressor_error
  | BatchEncoding
  | ExceedsMaxRlpBytesPerChannel

text \<open>The trait \<open>ChannelCompressor\<close>, as the record of its methods that a channel calls.\<close>

record 's channel_compressor =
  cw_write :: "bytes \<Rightarrow> 's \<Rightarrow> (nat, compressor_error) res \<times> 's"
  cw_flush :: "'s \<Rightarrow> (unit, compressor_error) res \<times> 's"
  cw_reset :: "'s \<Rightarrow> 's"
  cw_len :: "'s \<Rightarrow> nat"
  cw_read :: "bytes \<Rightarrow> 's \<Rightarrow> (nat \<times> bytes, compressor_error) res \<times> 's"

definition variant_methods :: "codecs \<Rightarrow> variant_compressor channel_compressor" where
  "variant_methods C =
     \<lparr>cw_write = variant_write C, cw_flush = variant_flush, cw_reset = variant_reset, cw_len = variant_len, cw_read = variant_read\<rparr>"

record 's channel_out =
  ko_id :: channel_id
  ko_rlp_length :: u64
  ko_closed :: bool
  ko_frame_number :: u16
  ko_compressor :: 's

definition channel_out_new :: "channel_id \<Rightarrow> 's \<Rightarrow> 's channel_out" where
  "channel_out_new ident c = \<lparr>ko_id = ident, ko_rlp_length = 0, ko_closed = False, ko_frame_number = 0, ko_compressor = c\<rparr>"

text \<open>\<open>seeded_id\<close> are the 16 bytes that the generator gives from the seed 43.\<close>

definition channel_out_reset :: "'s channel_compressor \<Rightarrow> channel_id \<Rightarrow> 's channel_out \<Rightarrow> 's channel_out" where
  "channel_out_reset M seeded_id s =
     s\<lparr>ko_rlp_length := 0, ko_frame_number := 0, ko_closed := False, ko_compressor := cw_reset M (ko_compressor s), ko_id := seeded_id\<rparr>"

text \<open>The encoder of batches and the limit of the configuration, at the time of a batch, are not in the repository.\<close>

definition channel_add_batch ::
  "'s channel_compressor \<Rightarrow> (batch \<Rightarrow> (bytes, string) res) \<Rightarrow> (u64 \<Rightarrow> u64) \<Rightarrow> batch \<Rightarrow> 's channel_out \<Rightarrow> (unit, channel_out_error) res \<times> 's channel_out" where
  "channel_add_batch M encode_batch max_rlp_bytes_per_channel batch s =
     (if ko_closed s then (Err ChannelOutClosed, s)
      else
        rbind (map_err (\<lambda>_. BatchEncoding) (encode_batch batch)) s (\<lambda>buf.
        rbind (batch_timestamp batch) s (\<lambda>timestamp.
        if ko_rlp_length s + of_nat (length buf) > max_rlp_bytes_per_channel timestamp then (Err ExceedsMaxRlpBytesPerChannel, s)
        else
          let (r, c) = cw_write M buf (ko_compressor s); s = s\<lparr>ko_compressor := c\<rparr> in
          rbind (map_err Compression r) s (\<lambda>_. (Ok (), s)))))"

definition ready_bytes :: "'s channel_compressor \<Rightarrow> 's channel_out \<Rightarrow> nat" where
  "ready_bytes M s = cw_len M (ko_compressor s)"

definition channel_out_flush :: "'s channel_compressor \<Rightarrow> 's channel_out \<Rightarrow> (unit, channel_out_error) res \<times> 's channel_out" where
  "channel_out_flush M s = (let (r, c) = cw_flush M (ko_compressor s) in (map_err Compression r, s\<lparr>ko_compressor := c\<rparr>))"

definition channel_out_close :: "'s channel_out \<Rightarrow> 's channel_out" where
  "channel_out_close s = s\<lparr>ko_closed := True\<rparr>"

text \<open>
  \<open>Vec::with_capacity\<close> makes an empty vector: the buffer that is read into has length zero, whatever
  \<open>max_size\<close> is.
\<close>

definition output_frame :: "'s channel_compressor \<Rightarrow> nat \<Rightarrow> 's channel_out \<Rightarrow> (frame, channel_out_error) res \<times> 's channel_out" where
  "output_frame M max_size s =
     (if max_size < FRAME_V0_OVERHEAD then (Err MaxFrameSizeTooSmall, s)
      else
        let frame = \<lparr>fr_id = ko_id s, fr_number = ko_frame_number s, fr_data = [], fr_is_last = ko_closed s\<rparr>;
            (r, c) = cw_read M [] (ko_compressor s);
            s = s\<lparr>ko_compressor := c\<rparr>
        in rbind (map_err Compression r) s (\<lambda>(_, data).
           (Ok (frame\<lparr>fr_data := fr_data frame @ data\<rparr>), s\<lparr>ko_frame_number := ko_frame_number s + 1\<rparr>)))"

subsection \<open>Decompression\<close>

datatype brotli_result = ResultSuccess | NeedsMoreOutput | NeedsMoreInput | ResultFailure

datatype decompression_error = BatchTooLarge

text \<open>The variables of the stream; \<open>'b\<close> is the state of the decoder.\<close>

record 'b brotli_io =
  io_available_in :: nat
  io_input_offset :: nat
  io_available_out :: nat
  io_output_offset :: nat
  io_output :: bytes
  io_written :: nat
  io_state :: 'b

partial_function (option) decompress_loop ::
  "(bytes \<Rightarrow> 'b brotli_io \<Rightarrow> brotli_result \<times> 'b brotli_io) \<Rightarrow> bytes \<Rightarrow> nat \<Rightarrow> 'b brotli_io \<Rightarrow> ('b brotli_io, decompression_error) res option" where
  "decompress_loop stream data limit io =
     (case stream data io of
        (NeedsMoreOutput, io) \<Rightarrow>
          let old_len = length (io_output io); new_len = old_len * 2 in
          if new_len \<le> limit then
            decompress_loop stream data limit
              (io\<lparr>io_output := io_output io @ replicate (new_len - old_len) 0, io_available_out := io_available_out io + old_len\<rparr>)
          else Some (Err BatchTooLarge)
      | (_, io) \<Rightarrow> Some (Ok io))"

definition decompress_brotli ::
  "(bytes \<Rightarrow> 'b brotli_io \<Rightarrow> brotli_result \<times> 'b brotli_io) \<Rightarrow> 'b \<Rightarrow> bytes \<Rightarrow> nat \<Rightarrow> (bytes, decompression_error) res option" where
  "decompress_brotli stream state data max_rlp_bytes_per_channel =
     map_option (\<lambda>r. rthen r (\<lambda>io. Ok (take (io_written io) (io_output io))))
       (decompress_loop stream data max_rlp_bytes_per_channel
          \<lparr>io_available_in = length data, io_input_offset = 0, io_available_out = length data, io_output_offset = 0,
           io_output = replicate (length data) 0, io_written = 0, io_state = state\<rparr>)"

section \<open>The contract of the compressors\<close>

fun write_all :: "(bytes \<Rightarrow> 's \<Rightarrow> (nat, compressor_error) res \<times> 's) \<Rightarrow> bytes list \<Rightarrow> 's \<Rightarrow> (nat, compressor_error) res \<times> 's" where
  "write_all w [] s = (Ok 0, s)"
| "write_all w (d # ds) s = (let (r, s) = w d s in rbind r s (\<lambda>n. let (r, s) = write_all w ds s in rbind r s (\<lambda>m. (Ok (n + m), s))))"

text \<open>
  A write takes all of its data or leaves the compressed bytes as they were, and after it these are an
  encoding of everything that was written.
\<close>

locale compressor =
  fixes wr :: "bytes \<Rightarrow> 's \<Rightarrow> (nat, compressor_error) res \<times> 's"
    and raw :: "'s \<Rightarrow> bytes" and compressed :: "'s \<Rightarrow> bytes" and encodes :: "'s \<Rightarrow> bytes \<Rightarrow> bytes \<Rightarrow> bool" and kind :: "'s \<Rightarrow> 'k"
  assumes write_Ok: "wr d s = (Ok n, s') \<Longrightarrow> n = length d \<and> raw s' = raw s @ d \<and> encodes s' (raw s') (compressed s')"
    and write_Err: "wr d s = (Err e, s') \<Longrightarrow> compressed s' = compressed s"
    and write_kind: "wr d s = (r, s') \<Longrightarrow> kind s' = kind s"
begin

lemma write_all_kind: "write_all wr ds s = (r, s') \<Longrightarrow> kind s' = kind s"
proof (induction ds arbitrary: s r s')
  case (Cons d ds)
  obtain r1 s1 r2 s2 where "wr d s = (r1, s1)" "write_all wr ds s1 = (r2, s2)" by fastforce
  then show ?case using Cons.prems Cons.IH [of s1 r2 s2] write_kind [of d s r1 s1] by (cases r1; cases r2) auto
qed simp

lemma write_all_Ok:
  assumes "write_all wr ds s = (Ok n, s')" and "ds \<noteq> []"
  shows "n = length (concat ds) \<and> raw s' = raw s @ concat ds \<and> encodes s' (raw s') (compressed s')"
  using assms
proof (induction ds arbitrary: s n s')
  case (Cons d ds)
  obtain r1 s1 r2 s2 where w: "wr d s = (r1, s1)" "write_all wr ds s1 = (r2, s2)" by fastforce
  then obtain m k where r: "r1 = Ok m" "r2 = Ok k" "n = m + k" "s2 = s'" using Cons.prems(1) by (auto simp: res_simps)
  then show ?case using w write_Ok [of d s m s1] Cons.IH [of s1 k s'] by (cases ds) auto
qed simp

end

definition zlib_encodes :: "codecs \<Rightarrow> zlib_compressor \<Rightarrow> bytes \<Rightarrow> bytes \<Rightarrow> bool" where
  "zlib_encodes C s x y \<longleftrightarrow> y = co_deflate C x"

definition brotli_encodes :: "codecs \<Rightarrow> brotli_compressor \<Rightarrow> bytes \<Rightarrow> bytes \<Rightarrow> bool" where
  "brotli_encodes C s x y \<longleftrightarrow> co_brotli C (bc_level s) x = Ok y"

interpretation zl: compressor "zlib_write C" zc_buffer zc_compressed "zlib_encodes C" "\<lambda>_. ()"
  by unfold_locales (auto simp: zlib_write_def zlib_encodes_def Let_def)

interpretation br: compressor "brotli_write C" bc_raw bc_compressed "brotli_encodes C" bc_level
  by unfold_locales (auto simp: brotli_write_def brotli_encodes_def Let_def res_simps split: if_splits rbind_splits)

fun variant_raw :: "variant_compressor \<Rightarrow> bytes" where
  "variant_raw (BrotliVariant s) = bc_raw s"
| "variant_raw (ZlibVariant s) = zc_buffer s"

fun variant_encodes :: "codecs \<Rightarrow> variant_compressor \<Rightarrow> bytes \<Rightarrow> bytes \<Rightarrow> bool" where
  "variant_encodes C (BrotliVariant s) = brotli_encodes C s"
| "variant_encodes C (ZlibVariant s) = zlib_encodes C s"

fun variant_level :: "variant_compressor \<Rightarrow> brotli_level option" where
  "variant_level (BrotliVariant s) = Some (bc_level s)"
| "variant_level (ZlibVariant s) = None"

interpretation va: compressor "variant_write C" variant_raw get_compressed "variant_encodes C" variant_level
proof
  show "n = length d \<and> variant_raw s' = variant_raw s @ d \<and> variant_encodes C s' (variant_raw s') (get_compressed s')"
    if "variant_write C d s = (Ok n, s')" for d s n s'
    using that br.write_Ok [of C d] zl.write_Ok [of C d] by (cases s) (fastforce split: prod.splits)+
  show "get_compressed s' = get_compressed s" if "variant_write C d s = (Err e, s')" for d s e s'
    using that br.write_Err [of C d] zl.write_Err [of C d] by (cases s) (fastforce split: prod.splits)+
  show "variant_level s' = variant_level s" if "variant_write C d s = (r, s')" for d s r s'
    using that br.write_kind [of C d] by (cases s) (fastforce split: prod.splits)+
qed

interpretation ra: compressor "ratio_write C" "variant_raw \<circ> rt_compressor" "get_compressed \<circ> rt_compressor"
  "variant_encodes C \<circ> rt_compressor" "variant_level \<circ> rt_compressor"
proof
  show "n = length d \<and> (variant_raw \<circ> rt_compressor) s' = (variant_raw \<circ> rt_compressor) s @ d
      \<and> (variant_encodes C \<circ> rt_compressor) s' ((variant_raw \<circ> rt_compressor) s') ((get_compressed \<circ> rt_compressor) s')"
    if "ratio_write C d s = (Ok n, s')" for d n and s s' :: "'f ratio_compressor"
    using that va.write_Ok [of C d "rt_compressor s"] by (auto simp: ratio_write_def Let_def res_simps split: prod.splits)
  show "(get_compressed \<circ> rt_compressor) s' = (get_compressed \<circ> rt_compressor) s" if "ratio_write C d s = (Err e, s')" for d e and s s' :: "'f ratio_compressor"
    using that va.write_Err [of C d "rt_compressor s"] by (auto simp: ratio_write_def Let_def split: prod.splits rbind_splits)
  show "(variant_level \<circ> rt_compressor) s' = (variant_level \<circ> rt_compressor) s" if "ratio_write C d s = (r, s')" for d r and s s' :: "'f ratio_compressor"
    using that va.write_kind [of C d "rt_compressor s"] by (auto simp: ratio_write_def Let_def split: prod.splits rbind_splits)
qed

lemma shadow_bound_keeps: "sh_compressor (snd (shadow_bound d s)) = sh_compressor s \<and> sh_config (snd (shadow_bound d s)) = sh_config s"
  by (simp add: shadow_bound_def variant_flush_def Let_def)

lemma shadow_write_result:
  obtains r s1 c where "sh_compressor s1 = sh_compressor s"
    and "shadow_write C d s = (r, s1) \<and> (\<forall>n. r \<noteq> Ok n)
      \<or> variant_write C d (sh_compressor s) = (r, c) \<and> (\<exists>b. shadow_write C d s = (r, s1\<lparr>sh_bound := b, sh_compressor := c\<rparr>))"
proof -
  obtain r1 x where w: "variant_write C d (sh_shadow s) = (r1, x)" by fastforce
  obtain r2 s2 where b: "shadow_bound d (s\<lparr>sh_shadow := x\<rparr>) = (r2, s2)" by fastforce
  obtain r3 c where c: "variant_write C d (sh_compressor s) = (r3, c)" by fastforce
  have s2: "sh_compressor s2 = sh_compressor s" using shadow_bound_keeps [of d "s\<lparr>sh_shadow := x\<rparr>"] b by simp
  have e: "shadow_write C d s = (if sh_is_full s then (Err Full, s) else rbind r1 (s\<lparr>sh_shadow := x\<rparr>) (\<lambda>_.
      rbind r2 s2 (\<lambda>newbound. (r3, s2\<lparr>sh_bound := newbound, sh_compressor := c\<rparr>))))"
    using w b c s2 by (simp add: shadow_write_def)
  show thesis
  proof (cases "\<exists>m newbound. \<not> sh_is_full s \<and> r1 = Ok m \<and> r2 = Ok newbound")
    case True
    then show thesis using c s2 e by (intro that [of s2 r3 c]) auto
  next
    case False
    then obtain r s1 where "shadow_write C d s = (r, s1)" "sh_compressor s1 = sh_compressor s" "\<forall>n. r \<noteq> Ok n"
      using e s2 by (cases r1; cases r2; cases "sh_is_full s") auto
    then show thesis using that by blast
  qed
qed

interpretation sw: compressor "shadow_write C" "variant_raw \<circ> sh_compressor" "get_compressed \<circ> sh_compressor"
  "variant_encodes C \<circ> sh_compressor" "variant_level \<circ> sh_compressor"
proof
  fix d :: bytes and s s' :: "'f shadow_compressor"
  obtain r s1 c where k: "sh_compressor s1 = sh_compressor s" "shadow_write C d s = (r, s1) \<and> (\<forall>n. r \<noteq> Ok n)
      \<or> variant_write C d (sh_compressor s) = (r, c) \<and> (\<exists>b. shadow_write C d s = (r, s1\<lparr>sh_bound := b, sh_compressor := c\<rparr>))"
    using shadow_write_result [of s C d] .
  show "n = length d \<and> (variant_raw \<circ> sh_compressor) s' = (variant_raw \<circ> sh_compressor) s @ d
      \<and> (variant_encodes C \<circ> sh_compressor) s' ((variant_raw \<circ> sh_compressor) s') ((get_compressed \<circ> sh_compressor) s')"
    if "shadow_write C d s = (Ok n, s')" for n
    using that k va.write_Ok [of C d "sh_compressor s"] by auto
  show "(get_compressed \<circ> sh_compressor) s' = (get_compressed \<circ> sh_compressor) s" if "shadow_write C d s = (Err e, s')" for e
    using that k va.write_Err [of C d "sh_compressor s"] by auto
  show "(variant_level \<circ> sh_compressor) s' = (variant_level \<circ> sh_compressor) s" if "shadow_write C d s = (r', s')" for r'
    using that k va.write_kind [of C d "sh_compressor s"] by auto
qed

section \<open>Properties\<close>

text \<open>What the codecs promise: the decoders give back what was encoded.\<close>

definition codec_laws :: "codecs \<Rightarrow> (bytes \<Rightarrow> bytes option) \<Rightarrow> (bytes \<Rightarrow> bytes option) \<Rightarrow> bool" where
  "codec_laws C inflate unbrotli \<longleftrightarrow>
     (\<forall>x. inflate (co_deflate C x) = Some x) \<and> (\<forall>l x y. co_brotli C l x = Ok y \<longrightarrow> unbrotli y = Some x)"

lemma variant_of_algo_simps [simp]:
  "variant_raw (variant_of_algo algo) = []"
  "variant_level (variant_of_algo algo) = (if algo = Zlib then None else Some (level_of_algo algo))"
  by (cases algo; simp add: variant_of_algo_def zlib_new_def brotli_new_def)+

text \<open>
  What was written piece by piece comes out of the decoder in one piece, for each algorithm.
\<close>

theorem compressed_data_decodes:
  assumes "write_all (variant_write C) ds (variant_of_algo algo) = (Ok n, s)" and "ds \<noteq> []" and "codec_laws C inflate unbrotli"
  shows "(if algo = Zlib then inflate else unbrotli) (get_compressed s) = Some (concat ds) \<and> n = length (concat ds)"
proof -
  have "n = length (concat ds) \<and> variant_raw s = concat ds \<and> variant_encodes C s (concat ds) (get_compressed s)"
    using va.write_all_Ok [OF assms(1,2)] by auto
  moreover have "variant_level s = None \<longleftrightarrow> algo = Zlib" using va.write_all_kind [OF assms(1)] by simp
  ultimately show ?thesis
    using assms(3) by (cases s) (auto simp: codec_laws_def brotli_encodes_def zlib_encodes_def)
qed

text \<open>A write that the shadow compressor refuses leaves its data as they were.\<close>

theorem refused_write_keeps_data:
  "shadow_write C d s = (Err e, s') \<Longrightarrow> get_compressed (sh_compressor s') = get_compressed (sh_compressor s)"
  using sw.write_Err [of C d s e s'] by simp

text \<open>
  A write is checked against the target by its own length, not by the bound that was reached: no number
  of writes that are not longer than the target fills the compressor, and the data grow without limit.
\<close>

theorem small_writes_never_fill:
  assumes "cc_compression_algo cfg = Zlib" and "\<forall>d\<in>set ds. of_nat (length d) \<le> cc_target_output_size cfg" and "ds \<noteq> []"
  shows "\<exists>s. write_all (shadow_write C) ds (shadow_of_config cfg) = (Ok (length (concat ds)), s) \<and> \<not> sh_is_full s
    \<and> get_compressed (sh_compressor s) = co_deflate C (concat ds)"
proof -
  have step: "\<exists>s'. write_all (shadow_write C) ds s = (Ok (length (concat ds)), s') \<and> \<not> sh_is_full s'"
    if "\<not> sh_is_full s" "sh_config s = cfg" "variant_level (sh_compressor s) = None" "variant_level (sh_shadow s) = None"
      "\<forall>d\<in>set ds. of_nat (length d) \<le> cc_target_output_size cfg" for s ds
    using that
  proof (induction ds arbitrary: s)
    case (Cons d ds)
    obtain x y where v: "sh_compressor s = ZlibVariant x" "sh_shadow s = ZlibVariant y"
      using Cons.prems(3,4) by (cases "sh_compressor s"; cases "sh_shadow s") auto
    have "\<exists>s1. shadow_write C d s = (Ok (length d), s1) \<and> \<not> sh_is_full s1 \<and> sh_config s1 = cfg
        \<and> variant_level (sh_compressor s1) = None \<and> variant_level (sh_shadow s1) = None"
      using Cons.prems v leD [of "of_nat (length d)" "cc_target_output_size cfg"]
      by (simp add: shadow_write_def zlib_write_def shadow_bound_def Let_def)
    then obtain s1 where "shadow_write C d s = (Ok (length d), s1)" "\<not> sh_is_full s1" "sh_config s1 = cfg"
        "variant_level (sh_compressor s1) = None" "variant_level (sh_shadow s1) = None" by blast
    with Cons.IH [of s1] Cons.prems(5) show ?case by auto
  qed simp
  obtain s where s: "write_all (shadow_write C) ds (shadow_of_config cfg) = (Ok (length (concat ds)), s)" "\<not> sh_is_full s"
    using step [of "shadow_of_config cfg" ds] assms(1,2) by (auto simp: shadow_of_config_def shadow_new_def)
  have "variant_level (sh_compressor s) = None" using sw.write_all_kind [OF s(1)] assms(1) by (simp add: shadow_of_config_def shadow_new_def)
  then show ?thesis
    using s sw.write_all_Ok [OF s(1) assms(3)] by (cases "sh_compressor s") (auto simp: shadow_of_config_def shadow_new_def zlib_encodes_def)
qed

text \<open>
  A frame carries the channel's identity, its number and whether the channel was closed, but no data: the
  buffer it reads into is empty, and what is ready stays in the compressor.
\<close>

theorem output_frame_is_empty:
  assumes "output_frame (variant_methods C) max_size s = (Ok f, s')"
  shows "f = \<lparr>fr_id = ko_id s, fr_number = ko_frame_number s, fr_data = [], fr_is_last = ko_closed s\<rparr>
    \<and> s' = s\<lparr>ko_frame_number := ko_frame_number s + 1\<rparr> \<and> ready_bytes (variant_methods C) s' = ready_bytes (variant_methods C) s"
  using assms by (auto simp: output_frame_def variant_methods_def variant_read_def read_into_def ready_bytes_def split: if_splits)

text \<open>Adding a batch does not count its bytes, so the limit of a channel applies to each batch alone.\<close>

theorem batches_are_not_counted:
  "channel_add_batch M encode_batch limit b s = (r, s') \<Longrightarrow> ko_rlp_length s' = ko_rlp_length s"
  by (auto simp: channel_add_batch_def Let_def split: if_splits prod.splits rbind_splits)

text \<open>
  The decompressor returns on every input that is not empty, whatever the decoder answers, as its buffer
  doubles each time; what it returns is not longer than the limit or the input. A decoder writes into the
  buffer it is given and cannot change its length.
\<close>

lemma decompress_loop_returns:
  assumes "\<And>io. length (io_output (snd (stream data io))) = length (io_output io)" and "0 < length (io_output io)"
  shows "\<exists>r. decompress_loop stream data limit io = Some r
    \<and> (\<forall>io'. r = Ok io' \<longrightarrow> length (io_output io') \<le> max (length (io_output io)) limit)"
  using assms(2)
proof (induction "limit - length (io_output io)" arbitrary: io rule: less_induct)
  case less
  obtain a io1 where a: "stream data io = (a, io1)" by fastforce
  have l: "length (io_output io1) = length (io_output io)" using assms(1) [of io] a by simp
  let ?n = "length (io_output io)"
  let ?io = "io1\<lparr>io_output := io_output io1 @ replicate (?n * 2 - ?n) 0, io_available_out := io_available_out io1 + ?n\<rparr>"
  show ?case
  proof (cases "a = NeedsMoreOutput \<and> ?n * 2 \<le> limit")
    case True
    have len: "length (io_output ?io) = ?n * 2" using l by simp
    have "0 < ?n * 2" "limit - ?n * 2 < limit - ?n" using True less.prems by linarith+
    then obtain r where "decompress_loop stream data limit ?io = Some r" "\<forall>io'. r = Ok io' \<longrightarrow> length (io_output io') \<le> max (?n * 2) limit"
      using less.hyps [of ?io] unfolding len by blast
    with True show ?thesis using a l by (simp add: decompress_loop.simps [of _ _ _ io] Let_def)
  next
    case False
    then show ?thesis using a l by (cases a) (auto simp: decompress_loop.simps [of _ _ _ io] Let_def)
  qed
qed

theorem decompress_brotli_returns:
  assumes "\<And>io. length (io_output (snd (stream data io))) = length (io_output io)" and "data \<noteq> []"
  shows "\<exists>r. decompress_brotli stream state data limit = Some r \<and> (\<forall>out. r = Ok out \<longrightarrow> length out \<le> max (length data) limit)"
proof -
  let ?io = "\<lparr>io_available_in = length data, io_input_offset = 0, io_available_out = length data, io_output_offset = 0,
           io_output = replicate (length data) 0, io_written = 0, io_state = state\<rparr>"
  obtain r where "decompress_loop stream data limit ?io = Some r" "\<forall>io'. r = Ok io' \<longrightarrow> length (io_output io') \<le> max (length data) limit"
    using decompress_loop_returns [of stream data ?io limit, OF assms(1)] assms(2) by auto
  then show ?thesis unfolding decompress_brotli_def by (cases r) auto
qed

end
