(* ===== verification/Pipeline_Builder.thy ===== *)
theory Pipeline_Builder
  imports Pipeline
begin

text \<open>
  The builder of the pipeline (\<^verbatim>\<open>derive/src/pipeline/builder.rs\<close>): its fields, its setters and what it needs
  to build. The providers and the attributes builder are given back beside the pipeline, as the stages
  of the model take them as arguments.
\<close>

section \<open>Definitions\<close>

record ('b, 'p, 't) pipeline_builder =
  pb_l2_chain_provider :: "'t option"
  pb_dap_source :: "ethereum_data_source option"
  pb_chain_provider :: "'p option"
  pb_builder :: "'b option"
  pb_origin :: "block_info option"
  pb_rollup_config :: "rollup_config option"
  pb_system_config :: "system_config option"

definition pipeline_builder_new :: "('b, 'p, 't) pipeline_builder" where
  "pipeline_builder_new =
     \<lparr>pb_l2_chain_provider = None, pb_dap_source = None, pb_chain_provider = None, pb_builder = None, pb_origin = None,
      pb_rollup_config = None, pb_system_config = None\<rparr>"

definition set_rollup_config :: "rollup_config \<Rightarrow> ('b, 'p, 't) pipeline_builder \<Rightarrow> ('b, 'p, 't) pipeline_builder" where
  "set_rollup_config c s = s\<lparr>pb_rollup_config := Some c\<rparr>"

definition set_system_config :: "system_config \<Rightarrow> ('b, 'p, 't) pipeline_builder \<Rightarrow> ('b, 'p, 't) pipeline_builder" where
  "set_system_config c s = s\<lparr>pb_system_config := Some c\<rparr>"

definition set_origin :: "block_info \<Rightarrow> ('b, 'p, 't) pipeline_builder \<Rightarrow> ('b, 'p, 't) pipeline_builder" where
  "set_origin b s = s\<lparr>pb_origin := Some b\<rparr>"

definition set_dap_source :: "ethereum_data_source \<Rightarrow> ('b, 'p, 't) pipeline_builder \<Rightarrow> ('b, 'p, 't) pipeline_builder" where
  "set_dap_source d s = s\<lparr>pb_dap_source := Some d\<rparr>"

definition set_builder :: "'b \<Rightarrow> ('b, 'p, 't) pipeline_builder \<Rightarrow> ('b, 'p, 't) pipeline_builder" where
  "set_builder b s = s\<lparr>pb_builder := Some b\<rparr>"

definition set_l2_chain_provider :: "'t \<Rightarrow> ('b, 'p, 't) pipeline_builder \<Rightarrow> ('b, 'p, 't) pipeline_builder" where
  "set_l2_chain_provider t s = s\<lparr>pb_l2_chain_provider := Some t\<rparr>"

definition set_chain_provider :: "'p \<Rightarrow> ('b, 'p, 't) pipeline_builder \<Rightarrow> ('b, 'p, 't) pipeline_builder" where
  "set_chain_provider p s = s\<lparr>pb_chain_provider := Some p\<rparr>"

definition expect :: "'a option \<Rightarrow> ('a, 'e) res" where
  "expect x = (case x of None \<Rightarrow> Panic | Some y \<Rightarrow> Ok y)"

lemma expect_simps [simp]: "expect (Some x) = Ok x" "expect None = Panic"
  by (simp_all add: expect_def)

lemma expect_Ok_iff [res_simps]: "expect x = Ok y \<longleftrightarrow> x = Some y"
  by (cases x) auto

definition pipeline_of_builder :: "('b, 'p, 't) pipeline_builder \<Rightarrow> (pipeline_state \<times> 'b \<times> 'p \<times> 't, 'e) res" where
  "pipeline_of_builder s =
     rthen (expect (pb_rollup_config s)) (\<lambda>rollup_config.
     rthen (expect (pb_chain_provider s)) (\<lambda>chain_provider.
     rthen (expect (pb_l2_chain_provider s)) (\<lambda>l2_chain_provider.
     rthen (expect (pb_dap_source s)) (\<lambda>dap_source.
     rthen (expect (pb_builder s)) (\<lambda>attributes_builder.
     let system_config = (case pb_system_config s of None \<Rightarrow> default_system_config | Some c \<Rightarrow> c) in
     rthen (expect (pb_origin s)) (\<lambda>origin.
     Ok (build_pipeline rollup_config system_config origin dap_source, attributes_builder, chain_provider, l2_chain_provider)))))))"

section \<open>Properties\<close>

lemmas builder_defs = pipeline_builder_new_def set_rollup_config_def set_system_config_def set_origin_def set_dap_source_def
  set_builder_def set_l2_chain_provider_def set_chain_provider_def

text \<open>
  Building succeeds exactly when everything but the system configuration was set, and never returns an
  error: what is missing is a panic.
\<close>

theorem builder_needs_all_but_system_config:
  "(\<exists>x. pipeline_of_builder s = (Ok x :: (pipeline_state \<times> 'b \<times> 'p \<times> 't, 'e) res)) \<longleftrightarrow>
     pb_rollup_config s \<noteq> None \<and> pb_chain_provider s \<noteq> None \<and> pb_l2_chain_provider s \<noteq> None \<and> pb_dap_source s \<noteq> None
     \<and> pb_builder s \<noteq> None \<and> pb_origin s \<noteq> None"
  "pipeline_of_builder s \<noteq> (Err e :: (pipeline_state \<times> 'b \<times> 'p \<times> 't, 'e) res)"
  by (auto simp: pipeline_of_builder_def expect_def rthen_def Let_def split: option.splits)

text \<open>
  The order in which the oracle pipeline sets the fields builds the pipeline that \<open>oracle_pipeline_new\<close>
  starts from, with an empty system configuration; every state it reaches by steps and signals has a
  window of consecutive L1 blocks.
\<close>

theorem oracle_builder_starts_pipeline:
  "pipeline_of_builder (set_origin origin (set_chain_provider p (set_l2_chain_provider t (set_builder b (set_dap_source dap (set_rollup_config cfg pipeline_builder_new))))))
     = Ok (build_pipeline cfg default_system_config origin dap, b, p, t)"
  by (simp add: pipeline_of_builder_def builder_defs)

theorem built_pipeline_keeps_window:
  assumes "pipeline_of_builder s = Ok (dp, b, p, t)" and "pipeline_run Vs dp dp'"
  shows "bq_inv (queue_of dp')"
proof -
  obtain cfg sc origin dap where "dp = build_pipeline cfg sc origin dap"
    using assms(1) by (auto simp: pipeline_of_builder_def res_simps Let_def)
  then show ?thesis using pipeline_run_inv assms(2) by simp
qed

end
