(* ===== verification/Node_State.thy ===== *)
theory Node_State
  imports Types
begin

text \<open>
  The heads of the chains that a node shares between its threads (\<^verbatim>\<open>primitives/src/state.rs\<close>). Every access
  takes a lock of its own, so an operation with several accesses may be interleaved with others; the
  step relation takes one access at a time.
\<close>

section \<open>Definitions\<close>

record l2_state =
  ns_unsafe_l2 :: l2_block_info
  ns_safe_l2 :: l2_block_info
  ns_finalized_l2 :: l2_block_info
  ns_pending_safe_l2 :: l2_block_info

record l1_state =
  ns_current_l1 :: block_info
  ns_head_l1 :: block_info
  ns_safe_l1 :: block_info
  ns_finalized_l1 :: block_info

record shared_state =
  ns_l2 :: l2_state
  ns_l1 :: l1_state

definition shared_state_new :: "l2_block_info \<Rightarrow> l2_block_info \<Rightarrow> l2_block_info \<Rightarrow> block_info \<Rightarrow> block_info \<Rightarrow> block_info \<Rightarrow> shared_state" where
  "shared_state_new unsafe_l2 safe_l2 finalized_l2 head_l1 safe_l1 finalized_l1 =
     \<lparr>ns_l2 = \<lparr>ns_unsafe_l2 = unsafe_l2, ns_safe_l2 = safe_l2, ns_finalized_l2 = finalized_l2, ns_pending_safe_l2 = safe_l2\<rparr>,
      ns_l1 = \<lparr>ns_current_l1 = default_block_info, ns_head_l1 = head_l1, ns_safe_l1 = safe_l1, ns_finalized_l1 = finalized_l1\<rparr>\<rparr>"

text \<open>The accesses of the operations that change the heads; \<open>None\<close> stands for the local variable of a reset.\<close>

datatype access =
    SetUnsafeL2 l2_block_info
  | SetSafeL2 "l2_block_info option"
  | SetFinalizedL2 l2_block_info
  | SetPendingSafeL2 "l2_block_info option"
  | ReadFinalizedL2
  | SetCurrentL1 block_info
  | SetHeadL1 block_info
  | SetSafeL1 block_info
  | SetFinalizedL1 block_info

definition set_unsafe_l2 :: "l2_block_info \<Rightarrow> access list" where "set_unsafe_l2 b = [SetUnsafeL2 b]"
definition set_safe_l2 :: "l2_block_info \<Rightarrow> access list" where "set_safe_l2 b = [SetSafeL2 (Some b)]"
definition set_finalized_l2 :: "l2_block_info \<Rightarrow> access list" where "set_finalized_l2 b = [SetFinalizedL2 b]"
definition set_pending_safe_l2 :: "l2_block_info \<Rightarrow> access list" where "set_pending_safe_l2 b = [SetPendingSafeL2 (Some b)]"
definition reset_safe_l2 :: "access list" where "reset_safe_l2 = [ReadFinalizedL2, SetPendingSafeL2 None, SetSafeL2 None]"

text \<open>A thread is its local variable and the accesses that are left to do.\<close>

type_synonym thread = "l2_block_info \<times> access list"

fun run_access :: "access \<Rightarrow> l2_block_info \<Rightarrow> shared_state \<Rightarrow> l2_block_info \<times> shared_state" where
  "run_access (SetUnsafeL2 b) v s = (v, s\<lparr>ns_l2 := (ns_l2 s)\<lparr>ns_unsafe_l2 := b\<rparr>\<rparr>)"
| "run_access (SetSafeL2 b) v s = (v, s\<lparr>ns_l2 := (ns_l2 s)\<lparr>ns_safe_l2 := (case b of None \<Rightarrow> v | Some b \<Rightarrow> b)\<rparr>\<rparr>)"
| "run_access (SetFinalizedL2 b) v s = (v, s\<lparr>ns_l2 := (ns_l2 s)\<lparr>ns_finalized_l2 := b\<rparr>\<rparr>)"
| "run_access (SetPendingSafeL2 b) v s = (v, s\<lparr>ns_l2 := (ns_l2 s)\<lparr>ns_pending_safe_l2 := (case b of None \<Rightarrow> v | Some b \<Rightarrow> b)\<rparr>\<rparr>)"
| "run_access ReadFinalizedL2 v s = (ns_finalized_l2 (ns_l2 s), s)"
| "run_access (SetCurrentL1 b) v s = (v, s\<lparr>ns_l1 := (ns_l1 s)\<lparr>ns_current_l1 := b\<rparr>\<rparr>)"
| "run_access (SetHeadL1 b) v s = (v, s\<lparr>ns_l1 := (ns_l1 s)\<lparr>ns_head_l1 := b\<rparr>\<rparr>)"
| "run_access (SetSafeL1 b) v s = (v, s\<lparr>ns_l1 := (ns_l1 s)\<lparr>ns_safe_l1 := b\<rparr>\<rparr>)"
| "run_access (SetFinalizedL1 b) v s = (v, s\<lparr>ns_l1 := (ns_l1 s)\<lparr>ns_finalized_l1 := b\<rparr>\<rparr>)"

inductive node_step :: "thread list \<times> shared_state \<Rightarrow> thread list \<times> shared_state \<Rightarrow> bool" where
  node_step: "\<lbrakk> i < length ts; ts ! i = (v, a # as); run_access a v s = (v', s') \<rbrakk> \<Longrightarrow> node_step (ts, s) (ts[i := (v', as)], s')"

inductive_cases node_stepE: "node_step (ts, s) (ts', s')"

section \<open>Properties\<close>

text \<open>Alone, a reset sets the safe and the pending head to the finalized one.\<close>

fun run_alone :: "access list \<Rightarrow> l2_block_info \<Rightarrow> shared_state \<Rightarrow> shared_state" where
  "run_alone [] v s = s"
| "run_alone (a # as) v s = (let (v, s) = run_access a v s in run_alone as v s)"

theorem reset_alone:
  "run_alone reset_safe_l2 v s = s\<lparr>ns_l2 := (ns_l2 s)\<lparr>ns_safe_l2 := ns_finalized_l2 (ns_l2 s), ns_pending_safe_l2 := ns_finalized_l2 (ns_l2 s)\<rparr>\<rparr>"
  by (simp add: reset_safe_l2_def)

text \<open>
  Between other threads that do not set the safe or the pending head, a reset is in one of four places,
  and has read a head that was finalized when it read it.
\<close>

definition spares_safe :: "access \<Rightarrow> bool" where
  "spares_safe a \<longleftrightarrow> (case a of SetSafeL2 _ \<Rightarrow> False | SetPendingSafeL2 _ \<Rightarrow> False | _ \<Rightarrow> True)"

definition reset_inv :: "l2_block_info set \<Rightarrow> thread list \<times> shared_state \<Rightarrow> bool" where
  "reset_inv F c \<longleftrightarrow> (case c of (ts, s) \<Rightarrow> ts \<noteq> [] \<and> (\<forall>t\<in>set (tl ts). \<forall>a\<in>set (snd t). spares_safe a \<and> (\<forall>b. a = SetFinalizedL2 b \<longrightarrow> b \<in> F))
     \<and> ns_finalized_l2 (ns_l2 s) \<in> F
     \<and> (case hd ts of (v, as) \<Rightarrow> as = reset_safe_l2 \<or> v \<in> F \<and> (as = tl reset_safe_l2
          \<or> as = [SetSafeL2 None] \<and> ns_pending_safe_l2 (ns_l2 s) = v
          \<or> as = [] \<and> ns_pending_safe_l2 (ns_l2 s) = v \<and> ns_safe_l2 (ns_l2 s) = v)))"

lemma spared:
  assumes "run_access a v s = (v', s')" and "spares_safe a"
  shows "ns_safe_l2 (ns_l2 s') = ns_safe_l2 (ns_l2 s)" and "ns_pending_safe_l2 (ns_l2 s') = ns_pending_safe_l2 (ns_l2 s)"
    and "ns_finalized_l2 (ns_l2 s') = ns_finalized_l2 (ns_l2 s) \<or> a = SetFinalizedL2 (ns_finalized_l2 (ns_l2 s'))"
  using assms by (cases a; auto simp: spares_safe_def)+

lemma reset_inv_step:
  assumes "node_step (ts, s) (ts', s')" and "reset_inv F (ts, s)"
  shows "reset_inv F (ts', s')"
proof -
  obtain i v a as v' where x: "i < length ts" "ts ! i = (v, a # as)" "run_access a v s = (v', s')" "ts' = ts[i := (v', as)]"
    using assms(1) by (auto elim: node_stepE)
  obtain t rest where ts: "ts = t # rest" using assms(2) by (cases ts) (auto simp: reset_inv_def)
  show ?thesis
  proof (cases i)
    case 0
    then show ?thesis using x assms(2) ts by (auto simp: reset_inv_def reset_safe_l2_def)
  next
    case (Suc j)
    then have j: "j < length rest" "rest ! j = (v, a # as)" using x ts by auto
    then have "(v, a # as) \<in> set rest" by (metis nth_mem)
    then have a: "spares_safe a" "\<And>b. a = SetFinalizedL2 b \<Longrightarrow> b \<in> F" and as: "\<forall>a\<in>set as. spares_safe a \<and> (\<forall>b. a = SetFinalizedL2 b \<longrightarrow> b \<in> F)"
      using assms(2) ts by (fastforce simp: reset_inv_def)+
    have "\<forall>t\<in>set (rest[j := (v', as)]). \<forall>a\<in>set (snd t). spares_safe a \<and> (\<forall>b. a = SetFinalizedL2 b \<longrightarrow> b \<in> F)"
      using assms(2) ts as set_update_subset_insert [of rest j "(v', as)"] by (force simp: reset_inv_def)
    moreover have "ns_finalized_l2 (ns_l2 s') \<in> F" using spared(3) [OF x(3) a(1)] a(2) assms(2) by (auto simp: reset_inv_def)
    ultimately show ?thesis using x(4) ts Suc spared(1,2) [OF x(3) a(1)] assms(2) by (auto simp: reset_inv_def split: prod.splits)
  qed
qed

text \<open>
  A reset that is done, in any interleaving with threads that leave the safe and the pending head alone,
  has set both to the same block, and this block was finalized before or during the reset.
\<close>

theorem interleaved_reset_is_consistent:
  assumes "node_step\<^sup>*\<^sup>* ((v, reset_safe_l2) # ts, s) ((v', []) # ts', s')" and "\<forall>t\<in>set ts. \<forall>a\<in>set (snd t). spares_safe a"
  shows "ns_safe_l2 (ns_l2 s') = ns_pending_safe_l2 (ns_l2 s')
    \<and> (ns_safe_l2 (ns_l2 s') = ns_finalized_l2 (ns_l2 s) \<or> (\<exists>t\<in>set ts. SetFinalizedL2 (ns_safe_l2 (ns_l2 s')) \<in> set (snd t)))"
proof -
  let ?F = "insert (ns_finalized_l2 (ns_l2 s)) {b. \<exists>t\<in>set ts. SetFinalizedL2 b \<in> set (snd t)}"
  have "reset_inv ?F c" if "node_step\<^sup>*\<^sup>* ((v, reset_safe_l2) # ts, s) c" for c
    using that
  proof (induction rule: rtranclp_induct)
    case base
    then show ?case using assms(2) by (auto simp: reset_inv_def)
  next
    case (step c c')
    then show ?case using reset_inv_step [of "fst c" "snd c" "fst c'" "snd c'"] by simp
  qed
  from this [OF assms(1)] show ?thesis by (auto simp: reset_inv_def reset_safe_l2_def)
qed

text \<open>
  The head that was finalized meanwhile need not be the one that the reset takes: the safe head may be
  set behind the finalized one.
\<close>

theorem reset_may_fall_behind:
  "node_step\<^sup>*\<^sup>* ([(v, reset_safe_l2), (v, set_finalized_l2 b)], s)
     ([(ns_finalized_l2 (ns_l2 s), []), (v, [])],
      s\<lparr>ns_l2 := (ns_l2 s)\<lparr>ns_finalized_l2 := b, ns_safe_l2 := ns_finalized_l2 (ns_l2 s), ns_pending_safe_l2 := ns_finalized_l2 (ns_l2 s)\<rparr>\<rparr>)"
    (is "node_step\<^sup>*\<^sup>* (?ts, s) (_, ?s')")
proof -
  let ?f = "ns_finalized_l2 (ns_l2 s)"
  let ?s1 = "s\<lparr>ns_l2 := (ns_l2 s)\<lparr>ns_finalized_l2 := b\<rparr>\<rparr>"
  let ?s2 = "s\<lparr>ns_l2 := (ns_l2 s)\<lparr>ns_finalized_l2 := b, ns_pending_safe_l2 := ?f\<rparr>\<rparr>"
  have "node_step (?ts, s) ([(?f, tl reset_safe_l2), (v, [SetFinalizedL2 b])], s)"
    using node_step [of 0 ?ts v _ _ s] by (auto simp: reset_safe_l2_def set_finalized_l2_def)
  moreover have "node_step ([(?f, tl reset_safe_l2), (v, [SetFinalizedL2 b])], s) ([(?f, tl reset_safe_l2), (v, [])], ?s1)"
    using node_step [of 1 "[(?f, tl reset_safe_l2), (v, [SetFinalizedL2 b])]" v _ _ s] by auto
  moreover have "node_step ([(?f, tl reset_safe_l2), (v, [])], ?s1) ([(?f, [SetSafeL2 None]), (v, [])], ?s2)"
    using node_step [of 0 "[(?f, tl reset_safe_l2), (v, [])]" ?f _ _ ?s1] by (auto simp: reset_safe_l2_def)
  moreover have "node_step ([(?f, [SetSafeL2 None]), (v, [])], ?s2) ([(?f, []), (v, [])], ?s')"
    using node_step [of 0 "[(?f, [SetSafeL2 None]), (v, [])]" ?f _ _ ?s2] by auto
  ultimately show ?thesis by (meson rtranclp.rtrancl_into_rtrancl rtranclp.rtrancl_refl)
qed

end
