(* ===== verification/Spec2Isabelle.thy ===== *)
theory Spec2Isabelle
  imports L1_Info_Program List_Walker Trie_Codec Preimage Batch_Validator Span_Codec Hints Host Oracle_Providers
    Svm_Safety Blob_Oracle Offchain L2_Blocks Config Compressors Pipeline_Builder Node_State
begin

text \<open>
  This library verifies \<^verbatim>\<open>kona-soon\<close>, the fault-proof program of an L2 chain that runs the Solana VM:
  it derives the blocks of the L2 from the data of the L1, executes them on a state committed to in
  Merkle Patricia tries, and compares the resulting output root with a claimed one.

  \<^bold>\<open>Parts and theories.\<close>

  \<^item> \<open>Prelude\<close>, \<open>Types\<close>: results (\<open>res\<close>), big-endian integers, generic lemmas, blocks, receipts, the
    rollup configuration, signals and the error types of the pipeline (\<^verbatim>\<open>crates/primitives\<close>,
    \<^verbatim>\<open>crates/derive/src/{errors,types,traits}\<close>).
  \<^item> \<open>Frames\<close>, \<open>Channels\<close>: the frame codec and the reassembly of channels (\<^verbatim>\<open>primitives/src/da\<close>).
  \<^item> \<open>System_Config\<close>: configuration updates in L1 receipts (\<^verbatim>\<open>primitives/src/system*\<close>).
  \<^item> \<open>Stages\<close>: the contract between a stage and the stage before it, as locales; every stage below
    is an interpretation of it on its own definitions.
  \<^item> \<open>Traversal\<close>, \<open>Sources\<close>, \<open>Retrieval\<close>, \<open>Frame_Queue\<close>, \<open>Channel_Bank\<close>, \<open>Channel_Provider\<close>,
    \<open>Channel_Reader\<close>, \<open>Batch_Stream\<close>, \<open>Batch_Queue\<close>, \<open>Attributes\<close>: the stages of the pipeline,
    \<^verbatim>\<open>derive/src/stages\<close> and \<^verbatim>\<open>derive/src/sources\<close>, in the order data flows through them. Each
    stage is a record holding the previous stage, as the structs of the source do.
  \<^item> \<open>Batches\<close>: single and span batches and their validity rules (\<^verbatim>\<open>derive/src/batch\<close>).
  \<^item> \<open>Deposits\<close>: deposits in L1 logs and the instructions they become
    (\<^verbatim>\<open>primitives/src/deposit.rs\<close>); \<open>Attributes\<close> also holds the attributes builder
    (\<^verbatim>\<open>derive/src/attributes/stateful.rs\<close>).
  \<^item> \<open>Pipeline\<close>, \<open>Pipeline_Builder\<close>: the pipeline and its builder (\<^verbatim>\<open>derive/src/pipeline\<close>) and the oracle
    pipeline of the proof; \<open>Driver\<close>: the loop that steps it and executes the payloads, with its cursor
    (\<^verbatim>\<open>protocol/driver\<close>).
  \<^item> \<open>Trie_Node\<close>: the trie (\<^verbatim>\<open>proof/mpt/src/node.rs\<close>); \<open>Trie_Db\<close>: the state database, the block
    builder and the executor of the driver (\<^verbatim>\<open>proof/executor\<close>, \<^verbatim>\<open>proof/proof/src/executor.rs\<close>).
  \<^item> \<open>Batch_Validator\<close>: the stage that takes the place of the batch queue
    (\<^verbatim>\<open>derive/src/stages/batch/batch_validator.rs\<close>). \<open>Span_Bits\<close>, \<open>Span_Txs\<close>, \<open>Span_Codec\<close>: the codec of
    span batches, its bit lists, its columns of transactions, prefix and payload, and the conversion
    from and to single batches (\<^verbatim>\<open>derive/src/batch/span_batch\<close>).
  \<^item> \<open>List_Walker\<close>, \<open>Trie_Codec\<close>: reading the receipts and transactions of a block out of a trie, and
    the decoder of trie nodes (\<^verbatim>\<open>proof/mpt/src/{list_walker,util,node}.rs\<close>).
  \<^item> \<open>Preimage\<close>, \<open>Hints\<close>: the protocol between client and host, as two parties over a pair of pipes,
    the caching oracle, and hints as text (\<^verbatim>\<open>proof/preimage\<close>, \<^verbatim>\<open>proof/proof/src/{caching_oracle,hint}.rs\<close>).
    \<open>Host\<close>: the stores, backends and the hint handler of the host (\<^verbatim>\<open>bin/host\<close>). \<open>Oracle_Providers\<close>: the
    boot information and the L1, L2 and DA providers of the client (\<^verbatim>\<open>proof/proof/src/{boot,l1,l2}\<close>).
  \<^item> \<open>Blobs\<close>, \<open>Blob_Oracle\<close>: the blob source with the codec of blobs (\<^verbatim>\<open>derive/src/sources/blob*.rs\<close>), and the
    provider that puts a blob together from field elements of the oracle
    (\<^verbatim>\<open>proof/proof/src/l1/blob_provider.rs\<close>).
  \<^item> \<open>Programs\<close>, \<open>Bridge_Instruction\<close>, \<open>Bridge_Program\<close>, \<open>Bridge_Safety\<close>, \<open>L1_Info_Program\<close>: the two
    on-chain programs that derived transactions call (\<^verbatim>\<open>crates/programs\<close>).
  \<^item> \<open>Svm_Block\<close>, \<open>Svm_Accounts\<close>, \<open>Svm\<close>, \<open>Svm_Safety\<close>: the executor of blocks (\<^verbatim>\<open>executor/svm\<close>): batches,
    entries and blockhashes; the accounts a block changes over those it reads; checking, charging,
    running and committing transactions, sealing a block and starting the next; and what holds of them.
  \<^item> \<open>Fraud\<close>, \<open>Offchain\<close>: the fraud executor over this SVM (\<^verbatim>\<open>executor/fraud\<close>), put into the block builder of
    \<open>Trie_Db\<close>, and the builder that works on a copy of all accounts (\<^verbatim>\<open>proof/executor/src/builder\<close>).
  \<^item> \<open>L2_Blocks\<close>: confirmed blocks and derived blocks, their payloads, and the test for native instructions
    (\<^verbatim>\<open>primitives/src/{l2blocks,ui,blocks,payload,scheduler,native_tx}\<close>); \<open>Config\<close>: the configuration as text and
    the transaction of the genesis block; \<open>Node_State\<close>: the heads that the threads of a node share, one
    step per lock (\<^verbatim>\<open>primitives/src/state.rs\<close>).
  \<^item> \<open>Compressors\<close>: the compressors and the channel builder of a batcher (\<^verbatim>\<open>protocol/comp\<close>), and the Brotli
    decompressor (\<^verbatim>\<open>derive/src/stages/utils.rs\<close>).

  \<^bold>\<open>Conventions.\<close> A fallible function returns \<open>Ok\<close>, \<open>Err\<close> with the error of the source, or
  \<open>Panic\<close> where the source unwinds (an index out of range, \<open>unwrap\<close>, \<open>expect\<close>, a failed
  assertion). A method that changes its receiver returns the new record beside its result, on the
  error branches too. Integers keep their width as words; arithmetic wraps, as in a release build,
  except in the on-chain programs, which are compiled with overflow checks. Logging, metrics and
  \<open>async\<close> are not part of the model: an \<open>await\<close> is a call. What is not in the repository is an
  argument: the L1 and DA providers, zlib, RLP and ABI codecs, keccak, the Solana SDK, its
  interpreter of programs and the runtime that executes cross-program calls. (The state database takes
  the executor as a parameter too; \<open>Fraud\<close> gives it the SVM of the repository.) What a theorem needs of them is a named hypothesis
  that states documented behaviour (for example \<open>rlp_length_law\<close>, \<open>trie_laws\<close>, \<open>solana_laws\<close>), and a
  witness instantiates the parameter with a function for which it holds.

  \<^bold>\<open>Fuel.\<close> Loops that wait for outside data (\<open>produce_payload\<close>, \<open>advance_to_target\<close>) take fuel,
  and \<open>Driver\<close> proves that enough steps give the result and that more fuel does not change it. The
  operations on tries recurse through nodes that the provider reveals; \<open>walk_fuel\<close> is \<open>131\<close>, two steps
  per nibble of a 64-nibble path and three for the root and the leaf, and \<open>Trie_Node\<close> proves that it is
  enough for every trie of such paths. The walker of a list needs \<open>19\<close>, one step per nibble of the
  encoded index and one for the leaf; the decoder of a node one more than the length of its input;
  the walk from the L1 head to a block one more than the blocks between them. The retries of the
  host take fuel because they may not end. All other loops are total functions.

  \<^bold>\<open>What the lemmas show.\<close> A channel cut into frames is reassembled in any order of arrival; the bank
  serves the first channel that is ready and times channels out; the reader returns the batches of a
  channel; accepted batches satisfy the rules of the protocol, and what the batch queue derives is
  justified by them; the L1 window of the queue is a chain of consecutive blocks in every state the
  pipeline reaches by steps, resets, flushes and activations at its origin, by induction over these; the
  attributes the driver gets are made of a batch that the queue delivered, on the safe head; payload attributes consist of the L1 info
  transaction and the deposits of the epoch; the driver returns the output root of the tip it
  reached; the trie implements the map it stands for, and its root depends on this map only; a
  block commits exactly the accounts it changed; deposits and withdrawals on chain move the amounts
  they name, records of withdrawals never change, and their numbers increase. A
  span batch built from single batches is encoded and decoded to the same blocks; the batches of the
  validator are justified like those of the queue. A preimage request and a hint complete, the cache
  of the client is not observable, the host answers what the remote said when it first fetched a preimage and never stores a wrong
  preimage of a hash, and the client boots with the inputs of its host, finds L1 blocks by number and
  receives their receipts in order. A blob
  decodes to the payload that was put into it, and blobs that the oracle serves reach the source. The executor
  changes only accounts that a transaction of the block can write, the leader's and its sysvars; it runs
  no message before the payer was charged; the blockhash chains the batches of a block onto the last one,
  and the next block takes it for its parent's. Put into the builder of the proof, the executor leaves the
  entries of all other accounts in both tries alone, the state root is that of the new state, and the block
  has the number, the parent hash and the time that follow from its parent; the builder over a copy of
  all accounts commits to these accounts with the changes of the block. A confirmed block is run in the
  batches of its entries; an interleaved reset of the heads is consistent; the decompressor returns.

  \<^bold>\<open>What modelling found.\<close> The lemmas with these names prove behaviour that a caller would not expect:
  \<open>reader_panics_on_foreign_batch\<close>, \<open>huge_deposit_blocks_epoch\<close>, \<open>emptied_account_must_exist\<close>,
  \<open>failed_commit_is_not_undone\<close>, \<open>reset_keeps_stale_items\<close>, \<open>da_failure_drops_commitment\<close>,
  \<open>forced_batch_lies_in_the_past\<close>, \<open>decoded_span_has_one_timestamp\<close>, \<open>short_prefix_panics\<close>,
  \<open>cached_wrong_length_panics\<close>, \<open>failing_fetch_is_retried_forever\<close>, \<open>oracle_misreads_batcher\<close>,
  \<open>missing_bank_hash_panics\<close>, \<open>booted_chain_id_is_zero\<close>, \<open>failed_transaction_is_committed\<close>,
  \<open>uncharged_fee_is_paid_out\<close>, \<open>restored_queue_loses_oldest\<close>, \<open>overlapping_entries_accepted\<close>,
  \<open>later_account_is_stale\<close>, \<open>offchain_keeps_emptied_account\<close>, \<open>output_frame_is_empty\<close>, \<open>batches_are_not_counted\<close> and
  \<open>small_writes_never_fill\<close>.

  \<^bold>\<open>Not modelled.\<close> The interpreter of programs, the loaders and the fee rules are Agave's crates, and
  the executor's tables of builtins, features and test accounts are data. The vendored inflater
  (\<^verbatim>\<open>utilities/miniz_oxide\<close>), the RPC clients (\<^verbatim>\<open>l1provider\<close>, \<^verbatim>\<open>l2provider\<close>), the store on disk, the
  command line and the system calls of the fault-proof VM (\<^verbatim>\<open>proof/std-fpvm\<close>): input and output, or
  code of others. The reports of \<^verbatim>\<open>executor/fraud/src/utils.rs\<close> compare lists of accounts for people to read.
  What \<open>L2_Blocks\<close>, \<open>Config\<close>, \<open>Node_State\<close> and \<open>Compressors\<close> model serves the node and the batcher; the proof
  does not run it.
\<close>

end
